(* ===== verification/Prelude.thy ===== *)
theory Prelude
  imports Complex_Main "HOL-Library.Sublist" "HOL-Library.More_List"
begin

text \<open>
  Shared vocabulary of the development: Rust strings as byte lists with the \<open>str\<close> methods the
  code calls, decimal printing and parsing of integers, 64-bit casts, fallible traversals
  (\<open>collect::<Result<Vec<_>>>()\<close>) and the generic list lemmas the component theories share.

  A Rust \<open>String\<close> is UTF-8; here it is the list of its bytes (Isabelle's \<open>char\<close> is a byte).
  Every ASCII delimiter the code scans for is a byte that never occurs inside a multi-byte
  sequence, so scanning bytes and scanning \<open>char\<close>s give the same result, and \<open>len()\<close> is
  \<open>length\<close>.
\<close>

named_theorems rust_str "facts about the str methods"
named_theorems result_simps "facts about fallible traversals"

section \<open>Results\<close>

type_synonym ('e, 'a) result = "'e + 'a"

fun is_ok :: "'e + 'a \<Rightarrow> bool" where
  "is_ok (Inl _) = False"
| "is_ok (Inr _) = True"

definition result_bind :: "'e + 'a \<Rightarrow> ('a \<Rightarrow> 'e + 'b) \<Rightarrow> 'e + 'b" where
  "result_bind r f = (case r of Inl e \<Rightarrow> Inl e | Inr x \<Rightarrow> f x)"

definition result_map :: "('a \<Rightarrow> 'b) \<Rightarrow> 'e + 'a \<Rightarrow> 'e + 'b" where
  "result_map f r = (case r of Inl e \<Rightarrow> Inl e | Inr x \<Rightarrow> Inr (f x))"

text \<open>\<open>iter().map(f).collect::<Result<Vec<_>>>()\<close>: the first error, or all the results.\<close>

fun collect_results :: "('a \<Rightarrow> 'e + 'b) \<Rightarrow> 'a list \<Rightarrow> 'e + 'b list" where
  "collect_results f [] = Inr []"
| "collect_results f (x # xs) =
     (case f x of Inl e \<Rightarrow> Inl e
      | Inr y \<Rightarrow> (case collect_results f xs of Inl e \<Rightarrow> Inl e | Inr ys \<Rightarrow> Inr (y # ys)))"

lemma collect_results_cong [fundef_cong]:
  "xs = ys \<Longrightarrow> (\<And>x. x \<in> set ys \<Longrightarrow> f x = g x) \<Longrightarrow> collect_results f xs = collect_results g ys"
proof (induction ys arbitrary: xs)
  case Nil
  then show ?case by simp
next
  case (Cons y ys)
  then show ?case by (simp cong: sum.case_cong)
qed

lemma result_bind_cong [fundef_cong]:
  "r = s \<Longrightarrow> (\<And>x. s = Inr x \<Longrightarrow> f x = g x) \<Longrightarrow> result_bind r f = result_bind s g"
  by (auto simp: result_bind_def split: sum.splits)

lemma result_bind_simps [simp]:
  "result_bind (Inl e) f = Inl e" "result_bind (Inr x) f = f x"
  by (simp_all add: result_bind_def)

lemma result_map_simps [simp]:
  "result_map f (Inl e) = Inl e" "result_map f (Inr x) = Inr (f x)"
  by (simp_all add: result_map_def)

lemma result_bind_Inr [result_simps]:
  "result_bind r f = Inr y \<longleftrightarrow> (\<exists>x. r = Inr x \<and> f x = Inr y)"
  by (cases r) auto

lemma result_map_Inr [result_simps]:
  "result_map f r = Inr y \<longleftrightarrow> (\<exists>x. r = Inr x \<and> y = f x)"
  by (cases r) auto

lemma collect_results_Inr [result_simps]:
  "collect_results f xs = Inr ys \<longleftrightarrow> list_all2 (\<lambda>x y. f x = Inr y) xs ys"
proof (induction xs arbitrary: ys)
  case Nil
  then show ?case by auto
next
  case (Cons x xs)
  then show ?case
    by (cases "f x"; cases "collect_results f xs")
       (auto simp: list_all2_Cons1 simp flip: Cons.IH)
qed

lemma collect_results_Inl:
  "collect_results f xs = Inl e \<Longrightarrow> \<exists>x \<in> set xs. f x = Inl e"
  by (induction xs) (auto split: sum.splits)

lemma collect_results_ok:
  "(\<And>x. x \<in> set xs \<Longrightarrow> is_ok (f x)) \<Longrightarrow> is_ok (collect_results f xs)"
proof (induction xs)
  case Nil
  then show ?case by simp
next
  case (Cons x xs)
  have "is_ok (f x)" and "is_ok (collect_results f xs)"
    using Cons by auto
  then show ?case by (auto elim!: is_ok.elims)
qed

text \<open>\<open>map_err\<close>, and \<open>iter().try_for_each(f)\<close>: the first error.\<close>

definition map_error :: "('e \<Rightarrow> 'f) \<Rightarrow> 'e + 'a \<Rightarrow> 'f + 'a" where
  "map_error g r = (case r of Inl e \<Rightarrow> Inl (g e) | Inr x \<Rightarrow> Inr x)"

fun try_for_each :: "('a \<Rightarrow> 'e + unit) \<Rightarrow> 'a list \<Rightarrow> 'e + unit" where
  "try_for_each f [] = Inr ()"
| "try_for_each f (x # xs) = (case f x of Inl e \<Rightarrow> Inl e | Inr _ \<Rightarrow> try_for_each f xs)"

lemma try_for_each_cong [fundef_cong]:
  "xs = ys \<Longrightarrow> (\<And>x. x \<in> set ys \<Longrightarrow> f x = g x) \<Longrightarrow> try_for_each f xs = try_for_each g ys"
proof (induction ys arbitrary: xs)
  case Nil
  then show ?case by simp
next
  case (Cons y ys)
  then show ?case by (simp cong: sum.case_cong)
qed

lemma map_error_simps [simp]:
  "map_error g (Inl e) = Inl (g e)" "map_error g (Inr x) = Inr x"
  by (simp_all add: map_error_def)

lemma map_error_Inr [result_simps]: "map_error g r = Inr y \<longleftrightarrow> r = Inr y"
  by (cases r) auto

lemma try_for_each_Inr [result_simps]:
  "try_for_each f xs = Inr u \<longleftrightarrow> (\<forall>x \<in> set xs. f x = Inr ())"
proof (induction xs)
  case Nil
  then show ?case by simp
next
  case (Cons x xs)
  then show ?case by (cases "f x") auto
qed

text \<open>The values of a map of entries through a fallible function, keys kept, entry by entry.\<close>

definition collect_values :: "('a \<Rightarrow> 'e + 'b) \<Rightarrow> ('k \<times> 'a) list \<Rightarrow> 'e + ('k \<times> 'b) list" where
  "collect_values f m = collect_results (\<lambda>e. result_map (Pair (fst e)) (f (snd e))) m"

lemma collect_values_cong [fundef_cong]:
  assumes "m = n" and "\<And>e. e \<in> set n \<Longrightarrow> f (snd e) = g (snd e)"
  shows "collect_values f m = collect_values g n"
  unfolding collect_values_def
  by (rule collect_results_cong [OF assms(1)]) (simp add: assms(2))

lemma collect_values_Inr [result_simps]:
  "collect_values f m = Inr n \<longleftrightarrow> list_all2 (\<lambda>e d. fst d = fst e \<and> f (snd e) = Inr (snd d)) m n"
  unfolding collect_values_def collect_results_Inr
  by (rule list.rel_cong) (auto simp: result_map_Inr prod_eq_iff)

lemma keys_collect_values: "collect_values f m = Inr n \<Longrightarrow> map fst n = map fst m"
  unfolding collect_values_Inr by (induction rule: list_all2_induct) auto

text \<open>\<open>iter().find_map(f)\<close>: the first \<open>Some\<close>.\<close>

fun find_map :: "('a \<Rightarrow> 'b option) \<Rightarrow> 'a list \<Rightarrow> 'b option" where
  "find_map f [] = None"
| "find_map f (x # xs) = (case f x of None \<Rightarrow> find_map f xs | Some y \<Rightarrow> Some y)"

lemma find_map_cong [fundef_cong]:
  "xs = ys \<Longrightarrow> (\<And>x. x \<in> set ys \<Longrightarrow> f x = g x) \<Longrightarrow> find_map f xs = find_map g ys"
  by (induction ys arbitrary: xs) (auto split: option.splits)

lemma find_map_None [simp]: "find_map f xs = None \<longleftrightarrow> (\<forall>x \<in> set xs. f x = None)"
  by (induction xs) (auto split: option.splits)

lemma find_map_Some_in: "find_map f xs = Some y \<Longrightarrow> \<exists>x \<in> set xs. f x = Some y"
  by (induction xs) (auto split: option.splits)

text \<open>\<open>iter().map(f).collect::<Option<Vec<_>>>()\<close>: \<open>None\<close> as soon as one element has none.\<close>

fun collect_options :: "('a \<Rightarrow> 'b option) \<Rightarrow> 'a list \<Rightarrow> 'b list option" where
  "collect_options f [] = Some []"
| "collect_options f (x # xs) =
     (case f x of None \<Rightarrow> None | Some y \<Rightarrow> map_option ((#) y) (collect_options f xs))"

lemma collect_options_cong [fundef_cong]:
  "xs = ys \<Longrightarrow> (\<And>x. x \<in> set ys \<Longrightarrow> f x = g x) \<Longrightarrow> collect_options f xs = collect_options g ys"
  by (induction ys arbitrary: xs) (auto cong: option.case_cong)

lemma collect_options_Some [result_simps]:
  "collect_options f xs = Some ys \<longleftrightarrow> list_all2 (\<lambda>x y. f x = Some y) xs ys"
  by (induction xs arbitrary: ys) (auto simp: list_all2_Cons1 split: option.splits)

lemma collect_options_None:
  "collect_options f xs = None \<longleftrightarrow> (\<exists>x \<in> set xs. f x = None)"
  by (induction xs) (auto split: option.splits)

text \<open>\<open>iter().filter_map(f)\<close>.\<close>

fun filter_map :: "('a \<Rightarrow> 'b option) \<Rightarrow> 'a list \<Rightarrow> 'b list" where
  "filter_map f [] = []"
| "filter_map f (x # xs) = (case f x of None \<Rightarrow> filter_map f xs | Some y \<Rightarrow> y # filter_map f xs)"

lemma filter_map_cong [fundef_cong]:
  "xs = ys \<Longrightarrow> (\<And>x. x \<in> set ys \<Longrightarrow> f x = g x) \<Longrightarrow> filter_map f xs = filter_map g ys"
  by (induction ys arbitrary: xs) (auto split: option.splits)

lemma set_filter_map: "set (filter_map f xs) = {y. \<exists>x \<in> set xs. f x = Some y}"
  by (induction xs) (auto split: option.splits)

lemma filter_map_append [simp]: "filter_map f (xs @ ys) = filter_map f xs @ filter_map f ys"
  by (induction xs) (auto split: option.splits)

section \<open>Maps as association lists\<close>

text \<open>
  A map is the list of its entries in iteration order, keys distinct: \<open>insert\<close> replaces in place or
  appends, \<open>remove\<close>, and \<open>retain\<close> with a closure that may change the value it keeps.
\<close>

fun map_insert :: "'k \<Rightarrow> 'v \<Rightarrow> ('k \<times> 'v) list \<Rightarrow> ('k \<times> 'v) list" where
  "map_insert k v [] = [(k, v)]"
| "map_insert k v ((k', v') # m) = (if k' = k then (k, v) # m else (k', v') # map_insert k v m)"

definition map_remove :: "'k \<Rightarrow> ('k \<times> 'v) list \<Rightarrow> ('k \<times> 'v) list" where
  "map_remove k m = filter (\<lambda>e. fst e \<noteq> k) m"

definition map_retain :: "('k \<Rightarrow> 'v \<Rightarrow> 'v option) \<Rightarrow> ('k \<times> 'v) list \<Rightarrow> ('k \<times> 'v) list" where
  "map_retain f m = filter_map (\<lambda>e. map_option (Pair (fst e)) (f (fst e) (snd e))) m"

lemma map_of_map_insert [simp]: "map_of (map_insert k v m) = (map_of m)(k \<mapsto> v)"
  by (induction k v m rule: map_insert.induct) auto

lemma keys_map_insert: "set (map fst (map_insert k v m)) = insert k (set (map fst m))"
  by (induction k v m rule: map_insert.induct) auto

lemma distinct_map_insert: "distinct (map fst m) \<Longrightarrow> distinct (map fst (map_insert k v m))"
proof (induction k v m rule: map_insert.induct)
  case (2 k v k' v' m)
  then show ?case using keys_map_insert [of k v m] by (auto simp del: set_map)
qed simp

lemma map_insert_new: "k \<notin> fst ` set m \<Longrightarrow> map_insert k v m = m @ [(k, v)]"
  by (induction k v m rule: map_insert.induct) auto

lemma length_map_insert:
  "length (map_insert k v m) = (if k \<in> fst ` set m then length m else Suc (length m))"
  by (induction k v m rule: map_insert.induct) auto

lemma set_map_insert: "set (map_insert k v m) \<subseteq> insert (k, v) (set m)"
  by (induction k v m rule: map_insert.induct) auto

lemma map_of_map_remove [simp]: "map_of (map_remove k m) = (map_of m)(k := None)"
  by (induction m) (auto simp: map_remove_def)

lemma distinct_map_remove: "distinct (map fst m) \<Longrightarrow> distinct (map fst (map_remove k m))"
  by (simp add: map_remove_def distinct_map_filter)

lemma map_retain_Cons:
  "map_retain f ((k, v) # m) = (case f k v of Some v' \<Rightarrow> [(k, v')] | None \<Rightarrow> []) @ map_retain f m"
  by (simp add: map_retain_def split: option.split)

lemma map_retain_Nil [simp]: "map_retain f [] = []"
  by (simp add: map_retain_def)

lemma set_map_retain: "set (map_retain f m) = {(k, v'). \<exists>v. (k, v) \<in> set m \<and> f k v = Some v'}"
  by (auto simp: map_retain_def set_filter_map) force

lemma keys_map_retain: "fst ` set (map_retain f m) \<subseteq> fst ` set m"
  by (force simp: set_map_retain)

lemma distinct_map_retain: "distinct (map fst m) \<Longrightarrow> distinct (map fst (map_retain f m))"
proof (induction m)
  case (Cons e m)
  obtain k v where e: "e = (k, v)" by (cases e)
  have "k \<notin> fst ` set (map_retain f m)" using Cons.prems keys_map_retain [of f m] by (auto simp: e)
  then show ?case using Cons by (auto simp: e map_retain_Cons split: option.split)
qed simp

lemma map_of_map_retain:
  "distinct (map fst m) \<Longrightarrow> map_of (map_retain f m) k = Option.bind (map_of m k) (f k)"
proof (induction m)
  case (Cons e m)
  obtain k' v where e: "e = (k', v)" by (cases e)
  have "map_of m k' = None" using Cons.prems by (simp add: e map_of_eq_None_iff)
  then show ?case using Cons by (auto simp: e map_retain_Cons split: option.split)
qed simp

text \<open>\<open>map.entry(k).or_default()\<close>: the value or the default, and a change of it.\<close>

definition map_get :: "'v \<Rightarrow> ('k \<times> 'v) list \<Rightarrow> 'k \<Rightarrow> 'v" where
  "map_get d m k = (case map_of m k of Some v \<Rightarrow> v | None \<Rightarrow> d)"

definition map_entry :: "'v \<Rightarrow> 'k \<Rightarrow> ('v \<Rightarrow> 'v) \<Rightarrow> ('k \<times> 'v) list \<Rightarrow> ('k \<times> 'v) list" where
  "map_entry d k f m = map_insert k (f (map_get d m k)) m"

abbreviation push_at :: "'k \<Rightarrow> 'a \<Rightarrow> ('k \<times> 'a list) list \<Rightarrow> ('k \<times> 'a list) list" where
  "push_at k x m \<equiv> map_entry [] k (\<lambda>xs. xs @ [x]) m"

lemma map_get_Nil [simp]: "map_get d [] k = d"
  by (simp add: map_get_def)

lemma map_get_map_entry [simp]:
  "map_get d (map_entry d k f m) k' = (if k' = k then f (map_get d m k) else map_get d m k')"
  by (simp add: map_get_def map_entry_def)

lemma keys_map_entry: "fst ` set (map_entry d k f m) = insert k (fst ` set m)"
  using keys_map_insert [of k "f (map_get d m k)" m] by (simp add: map_entry_def)

lemma distinct_map_entry: "distinct (map fst m) \<Longrightarrow> distinct (map fst (map_entry d k f m))"
  by (simp add: map_entry_def distinct_map_insert)

lemma map_get_map_values: "map_get (g d) (map (\<lambda>(k, v). (k, g v)) m) k = g (map_get d m k)"
  by (simp add: map_get_def map_of_map split: option.split)

section \<open>Lists\<close>

lemma list_ex_map [simp]: "list_ex P (map f xs) = list_ex (P \<circ> f) xs"
  by (induction xs) auto

lemma list_all_filter [simp]: "list_all P (filter Q xs) = list_all (\<lambda>x. Q x \<longrightarrow> P x) xs"
  by (induction xs) auto

lemma list_ex_filter [simp]: "list_ex P (filter Q xs) = list_ex (\<lambda>x. Q x \<and> P x) xs"
  by (induction xs) auto

lemma list_ex_concat: "list_ex P (concat xss) = list_ex (list_ex P) xss"
  by (induction xss) auto

lemma list_ex_swap:
  "list_ex (\<lambda>x. list_ex (\<lambda>y. P x y) ys) xs = list_ex (\<lambda>y. list_ex (\<lambda>x. P x y) xs) ys"
  by (auto simp: list_ex_iff)

lemma list_ex_or:
  "list_ex (\<lambda>x. P x \<or> Q x) xs = (list_ex P xs \<or> list_ex Q xs)"
  by (auto simp: list_ex_iff)

lemma not_list_all: "(\<not> list_all P xs) = list_ex (\<lambda>x. \<not> P x) xs"
  by (induction xs) auto

lemma not_list_ex: "(\<not> list_ex P xs) = list_all (\<lambda>x. \<not> P x) xs"
  by (induction xs) auto

lemma length_filter_all_iff:
  "length (filter P xs) = length xs \<longleftrightarrow> list_all P xs"
proof (induction xs)
  case Nil
  then show ?case by simp
next
  case (Cons x xs)
  have "length (filter P xs) \<le> length xs" by simp
  then have "length (filter P xs) \<noteq> Suc (length xs)" by linarith
  with Cons show ?case by auto
qed

lemma length_filter_pos_iff: "0 < length (filter P xs) \<longleftrightarrow> list_ex P xs"
  by (induction xs) auto

text \<open>First occurrences, in order (\<open>HashSet::insert\<close> as a filter).\<close>

fun first_seen :: "'a list \<Rightarrow> 'a list \<Rightarrow> 'a list" where
  "first_seen seen [] = []"
| "first_seen seen (x # xs) =
     (if x \<in> set seen then first_seen seen xs else x # first_seen (x # seen) xs)"

lemma set_first_seen: "set (first_seen seen xs) = set xs - set seen"
  by (induction seen xs rule: first_seen.induct) auto

lemma distinct_first_seen: "distinct (first_seen seen xs)"
  by (induction seen xs rule: first_seen.induct) (auto simp: set_first_seen)

lemma first_seen_cong_set:
  "set seen = set seen' \<Longrightarrow> first_seen seen xs = first_seen seen' xs"
proof (induction xs arbitrary: seen seen')
  case Nil
  show ?case by simp
next
  case (Cons x xs)
  from Cons.prems have "set (x # seen) = set (x # seen')" by simp
  then have "first_seen (x # seen) xs = first_seen (x # seen') xs" by (rule Cons.IH)
  moreover from Cons.prems have "first_seen seen xs = first_seen seen' xs" by (rule Cons.IH)
  moreover from Cons.prems have "x \<in> set seen \<longleftrightarrow> x \<in> set seen'" by (simp only:)
  ultimately show ?case by (simp only: first_seen.simps)
qed

lemma first_seen_append:
  "first_seen seen (xs @ ys) = first_seen seen xs @ first_seen (xs @ seen) ys"
proof (induction xs arbitrary: seen)
  case Nil
  then show ?case by simp
next
  case (Cons x xs)
  show ?case
  proof (cases "x \<in> set seen")
    case True
    then have "first_seen (xs @ seen) ys = first_seen ((x # xs) @ seen) ys"
      by (intro first_seen_cong_set) auto
    with True show ?thesis by (simp add: Cons.IH)
  next
    case False
    have "first_seen (xs @ x # seen) ys = first_seen ((x # xs) @ seen) ys"
      by (intro first_seen_cong_set) auto
    with False show ?thesis by (simp add: Cons.IH)
  qed
qed

lemma first_seen_subset: "set xs \<subseteq> set seen \<Longrightarrow> first_seen seen xs = []"
  by (induction xs) auto

text \<open>\<open>sort(); dedup()\<close>.\<close>

definition sort_dedup :: "'a :: linorder list \<Rightarrow> 'a list" where
  "sort_dedup xs = remdups_adj (sort xs)"

lemma sorted_distinct_adj: "sorted xs \<Longrightarrow> distinct_adj xs \<Longrightarrow> distinct xs"
  by (induction xs rule: induct_list012) fastforce+

lemma sorted_remdups_adj_sort: "sorted (remdups_adj (sort xs)) \<and> distinct (remdups_adj (sort xs))"
  by (simp add: sorted_distinct_adj)

lemma set_sort_dedup [simp]: "set (sort_dedup xs) = set xs"
  by (simp add: sort_dedup_def)

lemma distinct_sort_dedup [simp]: "distinct (sort_dedup xs)"
  by (simp add: sort_dedup_def sorted_distinct_adj)

lemma sort_dedup_Nil [simp]: "sort_dedup [] = []"
  by (simp add: sort_dedup_def)

section \<open>The str methods\<close>

definition starts_with :: "string \<Rightarrow> string \<Rightarrow> bool" where
  "starts_with s p = (take (length p) s = p)"

definition ends_with :: "string \<Rightarrow> string \<Rightarrow> bool" where
  "ends_with s p = (length p \<le> length s \<and> drop (length s - length p) s = p)"

fun contains_str :: "string \<Rightarrow> string \<Rightarrow> bool" where
  "contains_str [] n = (n = [])"
| "contains_str (c # cs) n = (starts_with (c # cs) n \<or> contains_str cs n)"

definition strip_prefix :: "string \<Rightarrow> string \<Rightarrow> string option" where
  "strip_prefix s p = (if starts_with s p then Some (drop (length p) s) else None)"

definition strip_suffix :: "string \<Rightarrow> string \<Rightarrow> string option" where
  "strip_suffix s p = (if ends_with s p then Some (take (length s - length p) s) else None)"

text \<open>\<open>str::find\<close> of one byte, \<open>split(c)\<close> and \<open>split_once(c)\<close>.\<close>

fun find_char :: "char \<Rightarrow> string \<Rightarrow> nat option" where
  "find_char c [] = None"
| "find_char c (x # xs) = (if x = c then Some 0 else map_option Suc (find_char c xs))"

fun split_char :: "char \<Rightarrow> string \<Rightarrow> string list" where
  "split_char c [] = [[]]"
| "split_char c (x # xs) =
     (if x = c then [] # split_char c xs
      else (case split_char c xs of [] \<Rightarrow> [[x]] | p # ps \<Rightarrow> (x # p) # ps))"

definition split_once :: "char \<Rightarrow> string \<Rightarrow> (string \<times> string) option" where
  "split_once c s = map_option (\<lambda>i. (take i s, drop (Suc i) s)) (find_char c s)"

fun join_str :: "string \<Rightarrow> string list \<Rightarrow> string" where
  "join_str sep [] = []"
| "join_str sep [x] = x"
| "join_str sep (x # y # ys) = x @ sep @ join_str sep (y # ys)"

lemma starts_with_iff [rust_str]: "starts_with s p \<longleftrightarrow> (\<exists>r. s = p @ r)"
  by (auto simp: starts_with_def) (metis append_take_drop_id)

lemma ends_with_iff [rust_str]: "ends_with s p \<longleftrightarrow> (\<exists>r. s = r @ p)"
  by (auto simp: ends_with_def) (metis append_take_drop_id)

lemma contains_str_iff [rust_str]: "contains_str s n \<longleftrightarrow> (\<exists>l r. s = l @ n @ r)"
proof (induction s)
  case Nil
  then show ?case by auto
next
  case (Cons c cs)
  show ?case
  proof
    assume "contains_str (c # cs) n"
    then consider "starts_with (c # cs) n" | "contains_str cs n" by auto
    then show "\<exists>l r. c # cs = l @ n @ r"
    proof cases
      case 1
      then show ?thesis by (metis append_Nil starts_with_iff)
    next
      case 2
      then show ?thesis using Cons.IH by (metis append_Cons)
    qed
  next
    assume "\<exists>l r. c # cs = l @ n @ r"
    then obtain l r where lr: "c # cs = l @ n @ r" by blast
    show "contains_str (c # cs) n"
    proof (cases l)
      case Nil
      with lr have "starts_with (c # cs) n" by (auto simp: starts_with_iff)
      then show ?thesis by simp
    next
      case (Cons d ds)
      with lr Cons.IH show ?thesis by auto
    qed
  qed
qed

lemma starts_with_refl [simp]: "starts_with s s" and ends_with_refl [simp]: "ends_with s s"
  by (simp_all add: starts_with_def ends_with_def)

lemma starts_with_Nil [simp]: "starts_with s []" and ends_with_Nil [simp]: "ends_with s []"
  by (simp_all add: starts_with_def ends_with_def)

lemma contains_str_Nil [simp]: "contains_str s []"
  by (cases s) auto

lemma strip_prefix_Some [rust_str]: "strip_prefix s p = Some r \<longleftrightarrow> s = p @ r"
  by (auto simp: strip_prefix_def starts_with_def) (metis append_take_drop_id)

lemma strip_suffix_Some [rust_str]: "strip_suffix s p = Some r \<longleftrightarrow> s = r @ p"
  by (auto simp: strip_suffix_def ends_with_def) (metis append_take_drop_id)

lemma find_char_Some:
  "find_char c s = Some i \<longleftrightarrow> i < length s \<and> s ! i = c \<and> c \<notin> set (take i s)"
proof (induction s arbitrary: i)
  case Nil
  then show ?case by simp
next
  case (Cons x xs)
  then show ?case by (cases i) auto
qed

lemma find_char_None: "find_char c s = None \<longleftrightarrow> c \<notin> set s"
  by (induction s) auto

lemma split_char_nonempty [simp]: "split_char c s \<noteq> []"
  by (induction s) (auto split: list.splits)

lemma split_char_no: "c \<notin> set s \<Longrightarrow> split_char c s = [s]"
  by (induction s) auto

lemma split_char_append:
  "c \<notin> set s \<Longrightarrow> split_char c (s @ c # t) = s # split_char c t"
  by (induction s) auto

lemma join_split: "join_str [c] (split_char c s) = s"
proof (induction s)
  case Nil
  then show ?case by simp
next
  case (Cons x xs)
  obtain p ps where sp: "split_char c xs = p # ps"
    using split_char_nonempty [of c xs] by (cases "split_char c xs") blast+
  with Cons show ?case by (cases ps) auto
qed

section \<open>ASCII\<close>

definition is_ascii_char :: "char \<Rightarrow> bool" where
  "is_ascii_char c = (of_char c < (128 :: nat))"

definition is_ascii_upper :: "char \<Rightarrow> bool" where
  "is_ascii_upper c = (65 \<le> (of_char c :: nat) \<and> of_char c \<le> (90 :: nat))"

definition ascii_lower_char :: "char \<Rightarrow> char" where
  "ascii_lower_char c = (if is_ascii_upper c then char_of ((of_char c :: nat) + 32) else c)"

definition is_ascii :: "string \<Rightarrow> bool" where
  "is_ascii s = list_all is_ascii_char s"

lemma of_char_lt_256: "(of_char c :: nat) < 256"
  by (metis of_char_mod_256 mod_less_divisor zero_less_numeral)

lemma ascii_lower_char_idem [simp]: "ascii_lower_char (ascii_lower_char c) = ascii_lower_char c"
  by (auto simp: ascii_lower_char_def is_ascii_upper_def of_char_of)

lemma ascii_lower_char_ascii [simp]: "is_ascii_char (ascii_lower_char c) = is_ascii_char c"
  by (auto simp: ascii_lower_char_def is_ascii_upper_def is_ascii_char_def of_char_of)

lemma ascii_lower_noop: "\<not> is_ascii_upper c \<Longrightarrow> ascii_lower_char c = c"
  by (simp add: ascii_lower_char_def)

section \<open>Decimal text of integers\<close>

definition digit_char :: "nat \<Rightarrow> char" where
  "digit_char d = char_of (48 + d)"

fun show_nat :: "nat \<Rightarrow> string" where
  "show_nat n = (if n < 10 then [digit_char n] else show_nat (n div 10) @ [digit_char (n mod 10)])"

declare show_nat.simps [simp del]

definition show_int :: "int \<Rightarrow> string" where
  "show_int i = (if i < 0 then CHR ''-'' # show_nat (nat (- i)) else show_nat (nat i))"

definition digit_val :: "char \<Rightarrow> nat option" where
  "digit_val c = (let n = of_char c in if 48 \<le> n \<and> n \<le> 57 then Some (n - 48) else None)"

fun digits_val :: "nat \<Rightarrow> string \<Rightarrow> nat option" where
  "digits_val acc [] = Some acc"
| "digits_val acc (c # cs) =
     (case digit_val c of None \<Rightarrow> None | Some d \<Rightarrow> digits_val (10 * acc + d) cs)"

definition i64_max :: int where "i64_max = 9223372036854775807"
definition i64_min :: int where "i64_min = - 9223372036854775808"
definition u64_max :: nat where "u64_max = 18446744073709551615"

definition in_i64 :: "int \<Rightarrow> bool" where
  "in_i64 i = (i64_min \<le> i \<and> i \<le> i64_max)"

text \<open>\<open>str::parse::<u64>()\<close>: an optional \<open>+\<close>, at least one digit, in range.\<close>

definition parse_u64 :: "string \<Rightarrow> nat option" where
  "parse_u64 s =
     (let ds = (case s of c # cs \<Rightarrow> if c = CHR ''+'' then cs else s | [] \<Rightarrow> [])
      in if ds = [] then None
         else (case digits_val 0 ds of None \<Rightarrow> None
               | Some n \<Rightarrow> if n \<le> u64_max then Some n else None))"

text \<open>\<open>str::parse::<i64>()\<close>: an optional sign, at least one digit, in range.\<close>

definition parse_i64 :: "string \<Rightarrow> int option" where
  "parse_i64 s =
     (let neg = (case s of c # cs \<Rightarrow> c = CHR ''-'' | [] \<Rightarrow> False);
          ds = (case s of c # cs \<Rightarrow> if c = CHR ''+'' \<or> c = CHR ''-'' then cs else s | [] \<Rightarrow> [])
      in if ds = [] then None
         else (case digits_val 0 ds of None \<Rightarrow> None
               | Some n \<Rightarrow> (let i = (if neg then - int n else int n)
                           in if in_i64 i then Some i else None)))"

text \<open>
  64-bit two's complement: \<open>as i64\<close> of an out-of-range value and release-mode \<open>+\<close>, \<open>-\<close>.
\<close>

definition wrap_i64 :: "int \<Rightarrow> int" where
  "wrap_i64 i = (i + 9223372036854775808) mod 18446744073709551616 - 9223372036854775808"

lemma wrap_i64_id [simp]: "in_i64 i \<Longrightarrow> wrap_i64 i = i"
  by (simp add: wrap_i64_def in_i64_def i64_min_def i64_max_def)

lemma wrap_i64_range: "in_i64 (wrap_i64 i)"
proof -
  have "0 \<le> (i + 9223372036854775808) mod 18446744073709551616"
    and "(i + 9223372036854775808) mod 18446744073709551616 < 18446744073709551616"
    by simp_all
  then show ?thesis
    unfolding wrap_i64_def in_i64_def i64_min_def i64_max_def by linarith
qed

lemma digit_val_digit_char: "d < 10 \<Longrightarrow> digit_val (digit_char d) = Some d"
  by (simp add: digit_val_def digit_char_def of_char_of Let_def)

lemma digits_val_append:
  "digits_val acc (xs @ ys) =
     (case digits_val acc xs of None \<Rightarrow> None | Some a \<Rightarrow> digits_val a ys)"
  by (induction acc xs rule: digits_val.induct) (auto split: option.splits)

lemma show_nat_nonempty [simp]: "show_nat n \<noteq> []"
  by (subst show_nat.simps) simp

lemma digits_val_show_nat: "digits_val 0 (show_nat n) = Some n"
proof (induction n rule: show_nat.induct)
  case (1 n)
  show ?case
  proof (cases "n < 10")
    case True
    then show ?thesis
      by (subst show_nat.simps) (simp add: digit_val_digit_char)
  next
    case False
    with 1 have "digits_val 0 (show_nat (n div 10)) = Some (n div 10)" by simp
    then have "digits_val 0 (show_nat (n div 10) @ [digit_char (n mod 10)]) = Some n"
      by (simp add: digits_val_append digit_val_digit_char)
    moreover have "show_nat n = show_nat (n div 10) @ [digit_char (n mod 10)]"
      using False by (subst show_nat.simps) simp
    ultimately show ?thesis by metis
  qed
qed

lemma show_nat_inj: "show_nat m = show_nat n \<longleftrightarrow> m = n"
  by (metis digits_val_show_nat option.inject)

lemma show_nat_hd: "\<exists>d ds. d < 10 \<and> show_nat n = digit_char d # ds"
proof (induction n rule: show_nat.induct)
  case (1 n)
  show ?case
  proof (cases "n < 10")
    case True
    then show ?thesis by (subst show_nat.simps) auto
  next
    case False
    with 1 obtain d ds where "d < 10" "show_nat (n div 10) = digit_char d # ds" by blast
    with False show ?thesis by (subst show_nat.simps) auto
  qed
qed

lemma digit_char_not_sign: "d < 10 \<Longrightarrow> digit_char d \<noteq> CHR ''-'' \<and> digit_char d \<noteq> CHR ''+''"
proof -
  assume "d < 10"
  then have "(of_char (digit_char d) :: nat) = 48 + d"
    by (simp add: digit_char_def of_char_of)
  moreover have "(of_char (CHR ''-'') :: nat) = 45" and "(of_char (CHR ''+'') :: nat) = 43"
    by simp_all
  ultimately show ?thesis by auto
qed

lemma parse_u64_show_nat: "n \<le> u64_max \<Longrightarrow> parse_u64 (show_nat n) = Some n"
proof -
  assume n: "n \<le> u64_max"
  obtain d ds where d: "d < 10" "show_nat n = digit_char d # ds" using show_nat_hd by blast
  then have "digit_char d \<noteq> CHR ''+''" by (simp add: digit_char_not_sign)
  with d n digits_val_show_nat [of n] show ?thesis by (simp add: parse_u64_def)
qed

end
