(* ===== verification/Condition.thy ===== *)
theory Condition
  imports Prelude
begin

text \<open>
  The condition AST of \<open>rsigma-parser/src/ast.rs\<close>, its \<open>Display\<close>, the binary-operator merge of the
  condition parser (\<open>condition.rs\<close>) and detection-name globs (\<open>selector.rs\<close>).
\<close>

section \<open>The AST\<close>

text \<open>\<open>Quantifier\<close>; the payload of \<open>Count\<close> is a \<open>NonZeroU64\<close>, see \<open>quantifier_wf\<close>.\<close>

datatype quantifier = QAny | QAll | QCount nat

datatype selector_pattern = Them | Pattern string

datatype condition_expr =
  CondAnd "condition_expr list"
| CondOr "condition_expr list"
| CondNot condition_expr
| CondIdentifier string
| CondSelector quantifier selector_pattern

definition quantifier_wf :: "quantifier \<Rightarrow> bool" where
  "quantifier_wf q = (case q of QCount n \<Rightarrow> 0 < n \<and> n \<le> u64_max | _ \<Rightarrow> True)"

fun show_quantifier :: "quantifier \<Rightarrow> string" where
  "show_quantifier QAny = ''1''"
| "show_quantifier QAll = ''all''"
| "show_quantifier (QCount n) = show_nat n"

fun show_pattern :: "selector_pattern \<Rightarrow> string" where
  "show_pattern Them = ''them''"
| "show_pattern (Pattern p) = p"

fun show_condition :: "condition_expr \<Rightarrow> string" where
  "show_condition (CondAnd args) = ''('' @ join_str '' and '' (map show_condition args) @ '')''"
| "show_condition (CondOr args) = ''('' @ join_str '' or '' (map show_condition args) @ '')''"
| "show_condition (CondNot arg) = ''not '' @ show_condition arg"
| "show_condition (CondIdentifier i) = i"
| "show_condition (CondSelector q p) = show_quantifier q @ '' of '' @ show_pattern p"

text \<open>\<open>ArrayQuantifier\<close>.\<close>

datatype array_quantifier = AqAny | AqAll | AqAllOrEmpty | AqNone

section \<open>The parser's construction steps\<close>

datatype binary_op = OpAnd | OpOr

fun cond_ctor :: "binary_op \<Rightarrow> condition_expr list \<Rightarrow> condition_expr" where
  "cond_ctor OpAnd = CondAnd"
| "cond_ctor OpOr = CondOr"

text \<open>\<open>merge_binary\<close>: a child built by the same operator is spliced in place.\<close>

fun merge_arg :: "binary_op \<Rightarrow> condition_expr \<Rightarrow> condition_expr list" where
  "merge_arg OpAnd (CondAnd children) = children"
| "merge_arg OpOr (CondOr children) = children"
| "merge_arg op other = [other]"

definition merge_binary :: "binary_op \<Rightarrow> condition_expr \<Rightarrow> condition_expr \<Rightarrow> condition_expr" where
  "merge_binary op lhs rhs = cond_ctor op (concat (map (merge_arg op) [lhs, rhs]))"

text \<open>\<open>parse_quantifier\<close> on the text of the \<open>uint\<close> token.\<close>

datatype quantifier_error = InvalidNumber | ZeroOf

definition parse_quantifier_uint :: "string \<Rightarrow> quantifier_error + quantifier" where
  "parse_quantifier_uint s =
     (case parse_u64 s of
        None \<Rightarrow> Inl InvalidNumber
      | Some n \<Rightarrow> if n = 0 then Inl ZeroOf else if n = 1 then Inr QAny else Inr (QCount n))"

section \<open>Detection-name globs\<close>

definition detection_name_matches :: "string \<Rightarrow> string \<Rightarrow> bool" where
  "detection_name_matches pattern name =
     (if pattern = ''*'' then True
      else case strip_suffix pattern ''*'' of
        Some pre \<Rightarrow> starts_with name pre
      | None \<Rightarrow> (case strip_prefix pattern ''*'' of
          Some suf \<Rightarrow> ends_with name suf
        | None \<Rightarrow> (case split_once (CHR ''*'') pattern of
            Some (pre, suf) \<Rightarrow>
              length pre + length suf \<le> length name
              \<and> starts_with name pre \<and> ends_with name suf
          | None \<Rightarrow> pattern = name)))"

fun matches_detection_name :: "selector_pattern \<Rightarrow> string \<Rightarrow> bool" where
  "matches_detection_name Them name = (\<not> starts_with name ''_'')"
| "matches_detection_name (Pattern pat) name =
     ((starts_with pat ''_'' \<or> \<not> starts_with name ''_'') \<and> detection_name_matches pat name)"

section \<open>Lemmas\<close>

lemma split_once_Some: "split_once c (p @ c # s) = Some (p, s)" if "c \<notin> set p"
proof -
  have "find_char c (p @ c # s) = Some (length p)"
    using that by (auto simp: find_char_Some)
  then show ?thesis by (simp add: split_once_def)
qed

lemma split_once_None: "split_once c s = None \<longleftrightarrow> c \<notin> set s"
  by (simp add: split_once_def find_char_None)

lemma split_once_SomeD: "split_once c s = Some (p, r) \<Longrightarrow> s = p @ c # r \<and> c \<notin> set p"
  by (auto simp: split_once_def find_char_Some id_take_nth_drop)

text \<open>A glob with one star means: some text in place of the star.\<close>

lemma glob_one_star:
  assumes "CHR ''*'' \<notin> set p" and "CHR ''*'' \<notin> set s"
  shows "detection_name_matches (p @ ''*'' @ s) name \<longleftrightarrow> (\<exists>m. name = p @ m @ s)"
proof (cases "s = []")
  case True
  have "strip_suffix (p @ ''*'') ''*'' = Some p" by (simp add: strip_suffix_Some)
  with True show ?thesis
    by (auto simp: detection_name_matches_def starts_with_iff)
next
  case False
  then obtain s' z where s: "s = s' @ [z]" by (metis rev_exhaust)
  have not_star: "p @ ''*'' @ s \<noteq> ''*''" using False by (cases p) auto
  have no_suffix: "strip_suffix (p @ ''*'' @ s) ''*'' = None"
    using assms by (auto simp: strip_suffix_def ends_with_iff s)
  show ?thesis
  proof (cases p)
    case Nil
    have "strip_prefix (''*'' @ s) ''*'' = Some s" by (simp add: strip_prefix_Some)
    with Nil not_star no_suffix show ?thesis
      by (auto simp: detection_name_matches_def ends_with_iff)
  next
    case (Cons c cs)
    have no_prefix: "strip_prefix (p @ ''*'' @ s) ''*'' = None"
      using assms Cons by (auto simp: strip_prefix_def starts_with_def)
    have so: "split_once (CHR ''*'') (p @ ''*'' @ s) = Some (p, s)"
      using split_once_Some [OF assms(1)] by simp
    have "length p + length s \<le> length name \<and> starts_with name p \<and> ends_with name s
      \<longleftrightarrow> (\<exists>m. name = p @ m @ s)"
    proof
      assume l: "length p + length s \<le> length name \<and> starts_with name p \<and> ends_with name s"
      then obtain r where r: "name = p @ r" by (auto simp: starts_with_iff)
      from l obtain q where "name = q @ s" by (auto simp: ends_with_iff)
      moreover from this l have "length p \<le> length q" by simp
      ultimately have "\<exists>m. q = p @ m"
        using r by (metis append_eq_append_conv_if append_take_drop_id)
      with \<open>name = q @ s\<close> show "\<exists>m. name = p @ m @ s" by auto
    next
      assume "\<exists>m. name = p @ m @ s"
      then show "length p + length s \<le> length name \<and> starts_with name p \<and> ends_with name s"
        by (auto simp: starts_with_iff ends_with_iff)
    qed
    with not_star no_suffix no_prefix so show ?thesis
      by (simp add: detection_name_matches_def)
  qed
qed

lemma glob_literal:
  assumes "CHR ''*'' \<notin> set pattern"
  shows "detection_name_matches pattern name \<longleftrightarrow> pattern = name"
proof -
  have "split_once (CHR ''*'') pattern = None" using assms by (simp add: split_once_None)
  moreover have "strip_suffix pattern ''*'' = None" and "strip_prefix pattern ''*'' = None"
    and "pattern \<noteq> ''*''"
    using assms by (auto simp: strip_suffix_def strip_prefix_def ends_with_iff starts_with_iff)
  ultimately show ?thesis by (simp add: detection_name_matches_def)
qed

lemma parse_quantifier_wf: "parse_quantifier_uint s = Inr q \<Longrightarrow> quantifier_wf q"
  by (auto simp: parse_quantifier_uint_def quantifier_wf_def parse_u64_def Let_def
      split: option.splits if_splits)

text \<open>The printed quantifier of a selector reads back as the quantifier.\<close>

lemma parse_show_quantifier:
  assumes "1 < n" and "n \<le> u64_max"
  shows "parse_quantifier_uint (show_quantifier (QCount n)) = Inr (QCount n)"
  using assms by (simp add: parse_quantifier_uint_def parse_u64_show_nat)

section \<open>Properties\<close>

text \<open>
  A selector pattern with one star matches the names that begin with the text before it and end
  with the text after it, the two not overlapping.
\<close>

theorem selector_glob_one_star:
  assumes "CHR ''*'' \<notin> set p" and "CHR ''*'' \<notin> set s"
  shows "detection_name_matches (p @ ''*'' @ s) name \<longleftrightarrow> (\<exists>m. name = p @ m @ s)"
  by (rule glob_one_star [OF assms])

theorem selector_glob_one_star_witness:
  "detection_name_matches (''sel_'' @ ''*'' @ ''_x'') ''sel_1_x''
   \<longleftrightarrow> (\<exists>m. ''sel_1_x'' = ''sel_'' @ m @ ''_x'')"
  by (rule selector_glob_one_star; code_simp)

text \<open>
  A printed count quantifier parses back to itself.
\<close>

theorem quantifier_print_parse:
  assumes "1 < n" and "n \<le> u64_max"
  shows "parse_quantifier_uint (show_quantifier (QCount n)) = Inr (QCount n)"
  by (rule parse_show_quantifier [OF assms])

theorem quantifier_print_parse_witness:
  "parse_quantifier_uint (show_quantifier (QCount 12)) = Inr (QCount 12)"
  by (rule quantifier_print_parse) (simp_all add: u64_max_def)

end
