(* ===== verification/F64.thy ===== *)
theory F64
  imports Prelude "HOL-Library.Product_Lexorder"
begin

text \<open>
  Rust's \<open>f64\<close>: the values of IEEE binary64 as a datatype (finite values by their exact
  rational value, negative zero apart, one quiet \<open>NaN\<close>), with arithmetic defined as the exact
  result rounded to nearest, ties to even, and the comparisons, casts and total order
  (\<open>f64::total_cmp\<close>) that the matchers and the correlation windows use.
\<close>

datatype f64 = NaN | PosInf | NegInf | NegZero | Fin rat

datatype ordering = Less | Equal | Greater

definition cmp_of :: "'a :: linorder \<Rightarrow> 'a \<Rightarrow> ordering" where
  "cmp_of a b = (if a < b then Less else if a = b then Equal else Greater)"

section \<open>Rounding\<close>

fun log2_nat :: "nat \<Rightarrow> nat" where
  "log2_nat n = (if n < 2 then 0 else Suc (log2_nat (n div 2)))"

declare log2_nat.simps [simp del]

definition pow2 :: "int \<Rightarrow> rat" where
  "pow2 e = (if 0 \<le> e then 2 ^ nat e else 1 / 2 ^ nat (- e))"

definition log2_rat :: "rat \<Rightarrow> int" where
  "log2_rat r =
     (case quotient_of r of (n, d) \<Rightarrow>
        let k = int (log2_nat (nat n)) - int (log2_nat (nat d))
        in if pow2 k \<le> r then k else k - 1)"

definition round_half_even :: "rat \<Rightarrow> int" where
  "round_half_even r =
     (let f = \<lfloor>r\<rfloor>; x = r - of_int f
      in if x < 1 / 2 then f else if 1 / 2 < x then f + 1 else if even f then f else f + 1)"

definition round_f64 :: "rat \<Rightarrow> f64" where
  "round_f64 r =
     (if r = 0 then Fin 0
      else let a = \<bar>r\<bar>;
               e = max (- 1074) (log2_rat a - 52);
               v = of_int (round_half_even (a / pow2 e)) * pow2 e
           in if pow2 1024 \<le> v then (if r < 0 then NegInf else PosInf)
              else if v = 0 then (if r < 0 then NegZero else Fin 0)
              else Fin (if r < 0 then - v else v))"

section \<open>Classification and comparison\<close>

fun f64_is_finite :: "f64 \<Rightarrow> bool" where
  "f64_is_finite (Fin _) = True"
| "f64_is_finite NegZero = True"
| "f64_is_finite _ = False"

fun f64_val :: "f64 \<Rightarrow> rat" where
  "f64_val (Fin r) = r"
| "f64_val _ = 0"

fun f64_key :: "f64 \<Rightarrow> int \<times> rat" where
  "f64_key NegInf = (- 1, 0)"
| "f64_key (Fin r) = (0, r)"
| "f64_key NegZero = (0, 0)"
| "f64_key PosInf = (1, 0)"
| "f64_key NaN = (2, 0)"

definition f64_lt :: "f64 \<Rightarrow> f64 \<Rightarrow> bool" where
  "f64_lt a b = (a \<noteq> NaN \<and> b \<noteq> NaN \<and> f64_key a < f64_key b)"

definition f64_le :: "f64 \<Rightarrow> f64 \<Rightarrow> bool" where
  "f64_le a b = (a \<noteq> NaN \<and> b \<noteq> NaN \<and> f64_key a \<le> f64_key b)"

definition f64_eq :: "f64 \<Rightarrow> f64 \<Rightarrow> bool" where
  "f64_eq a b = (a \<noteq> NaN \<and> b \<noteq> NaN \<and> f64_key a = f64_key b)"

section \<open>Arithmetic\<close>

fun f64_neg :: "f64 \<Rightarrow> f64" where
  "f64_neg NaN = NaN"
| "f64_neg PosInf = NegInf"
| "f64_neg NegInf = PosInf"
| "f64_neg NegZero = Fin 0"
| "f64_neg (Fin r) = (if r = 0 then NegZero else Fin (- r))"

fun f64_abs :: "f64 \<Rightarrow> f64" where
  "f64_abs NaN = NaN"
| "f64_abs PosInf = PosInf"
| "f64_abs NegInf = PosInf"
| "f64_abs NegZero = Fin 0"
| "f64_abs (Fin r) = Fin \<bar>r\<bar>"

definition f64_add :: "f64 \<Rightarrow> f64 \<Rightarrow> f64" where
  "f64_add a b =
     (if a = NaN \<or> b = NaN then NaN
      else if a = PosInf then (if b = NegInf then NaN else PosInf)
      else if a = NegInf then (if b = PosInf then NaN else NegInf)
      else if b = PosInf \<or> b = NegInf then b
      else if a = NegZero \<and> b = NegZero then NegZero
      else round_f64 (f64_val a + f64_val b))"

definition f64_sub :: "f64 \<Rightarrow> f64 \<Rightarrow> f64" where
  "f64_sub a b = f64_add a (f64_neg b)"

fun f64_neg_sign :: "f64 \<Rightarrow> bool" where
  "f64_neg_sign NegInf = True"
| "f64_neg_sign NegZero = True"
| "f64_neg_sign (Fin r) = (r < 0)"
| "f64_neg_sign _ = False"

text \<open>A zero or infinity with the sign of the product or quotient.\<close>

definition signed_f64 :: "bool \<Rightarrow> f64 \<Rightarrow> f64" where
  "signed_f64 neg x = (if neg then f64_neg x else x)"

definition f64_mul :: "f64 \<Rightarrow> f64 \<Rightarrow> f64" where
  "f64_mul a b =
     (let s = (f64_neg_sign a \<noteq> f64_neg_sign b) in
      if a = NaN \<or> b = NaN then NaN
      else if \<not> f64_is_finite a \<or> \<not> f64_is_finite b then
        (if (f64_is_finite a \<and> f64_val a = 0) \<or> (f64_is_finite b \<and> f64_val b = 0) then NaN
         else signed_f64 s PosInf)
      else if f64_val a * f64_val b = 0 then signed_f64 s (Fin 0)
      else round_f64 (f64_val a * f64_val b))"

definition f64_div :: "f64 \<Rightarrow> f64 \<Rightarrow> f64" where
  "f64_div a b =
     (let s = (f64_neg_sign a \<noteq> f64_neg_sign b) in
      if a = NaN \<or> b = NaN then NaN
      else if \<not> f64_is_finite a then (if f64_is_finite b then signed_f64 s PosInf else NaN)
      else if \<not> f64_is_finite b then signed_f64 s (Fin 0)
      else if f64_val b = 0 then (if f64_val a = 0 then NaN else signed_f64 s PosInf)
      else if f64_val a = 0 then signed_f64 s (Fin 0)
      else round_f64 (f64_val a / f64_val b))"

definition f64_epsilon :: f64 where
  "f64_epsilon = Fin (1 / 4503599627370496)"

section \<open>Casts\<close>

definition f64_of_int :: "int \<Rightarrow> f64" where
  "f64_of_int i = round_f64 (of_int i)"

definition trunc_rat :: "rat \<Rightarrow> int" where
  "trunc_rat r = (if r < 0 then - \<lfloor>- r\<rfloor> else \<lfloor>r\<rfloor>)"

definition clamp_int :: "int \<Rightarrow> int \<Rightarrow> int \<Rightarrow> int" where
  "clamp_int lo hi i = max lo (min hi i)"

text \<open>\<open>f as i64\<close> and \<open>f as usize\<close>: truncating and saturating, \<open>NaN\<close> to 0.\<close>

fun f64_as_i64 :: "f64 \<Rightarrow> int" where
  "f64_as_i64 NaN = 0"
| "f64_as_i64 PosInf = i64_max"
| "f64_as_i64 NegInf = i64_min"
| "f64_as_i64 NegZero = 0"
| "f64_as_i64 (Fin r) = clamp_int i64_min i64_max (trunc_rat r)"

fun f64_as_usize :: "f64 \<Rightarrow> nat" where
  "f64_as_usize PosInf = u64_max"
| "f64_as_usize (Fin r) = nat (clamp_int 0 (int u64_max) (trunc_rat r))"
| "f64_as_usize _ = 0"

text \<open>\<open>floor\<close> keeps the sign of a zero; \<open>ceil\<close> of a value in \<open>(-1, 0)\<close> is \<open>-0.0\<close>.\<close>

fun f64_floor :: "f64 \<Rightarrow> f64" where
  "f64_floor (Fin r) = Fin (of_int \<lfloor>r\<rfloor>)"
| "f64_floor x = x"

fun f64_ceil :: "f64 \<Rightarrow> f64" where
  "f64_ceil (Fin r) = (if r < 0 \<and> \<lceil>r\<rceil> = 0 then NegZero else Fin (of_int \<lceil>r\<rceil>))"
| "f64_ceil x = x"

section \<open>Total order\<close>

fun total_key :: "f64 \<Rightarrow> int \<times> rat \<times> int" where
  "total_key NegInf = (0, 0, 0)"
| "total_key NegZero = (1, 0, 0)"
| "total_key (Fin r) = (1, r, 1)"
| "total_key PosInf = (2, 0, 0)"
| "total_key NaN = (3, 0, 0)"

lemma total_key_inj: "total_key a = total_key b \<longleftrightarrow> a = b"
  by (cases a; cases b) auto

instantiation f64 :: linorder
begin

definition less_eq_f64 :: "f64 \<Rightarrow> f64 \<Rightarrow> bool" where
  "less_eq_f64 a b \<longleftrightarrow> total_key a \<le> total_key b"

definition less_f64 :: "f64 \<Rightarrow> f64 \<Rightarrow> bool" where
  "less_f64 a b \<longleftrightarrow> total_key a < total_key b"

instance
  by standard
     (auto simp: less_eq_f64_def less_f64_def less_le_not_le simp flip: total_key_inj
           intro: order_trans)

end

section \<open>Facts\<close>

lemma f64_lt_irrefl [simp]: "\<not> f64_lt a a"
  by (simp add: f64_lt_def)

lemma f64_lt_imp_le: "f64_lt a b \<Longrightarrow> f64_le a b"
  by (auto simp: f64_lt_def f64_le_def)

lemma f64_lt_Fin [simp]: "f64_lt (Fin a) (Fin b) \<longleftrightarrow> a < b"
  and f64_le_Fin [simp]: "f64_le (Fin a) (Fin b) \<longleftrightarrow> a \<le> b"
  and f64_eq_Fin [simp]: "f64_eq (Fin a) (Fin b) \<longleftrightarrow> a = b"
  by (auto simp: f64_lt_def f64_le_def f64_eq_def)

lemma log2_nat_bounds: "0 < n \<Longrightarrow> 2 ^ log2_nat n \<le> n \<and> n < 2 ^ Suc (log2_nat n)"
proof (induction n rule: log2_nat.induct)
  case (1 n)
  show ?case
  proof (cases "n < 2")
    case True
    with 1 have "n = 1" by simp
    then show ?thesis by (simp add: log2_nat.simps)
  next
    case False
    with 1 have "2 ^ log2_nat (n div 2) \<le> n div 2 \<and> n div 2 < 2 ^ Suc (log2_nat (n div 2))"
      by simp
    with False show ?thesis by (subst log2_nat.simps, subst (2) log2_nat.simps) auto
  qed
qed

lemma pow2_pos [simp]: "0 < pow2 e"
  by (simp add: pow2_def)

lemma pow2_Suc: "pow2 (e + 1) = 2 * pow2 e"
proof (cases "0 \<le> e")
  case True
  then show ?thesis by (simp add: pow2_def nat_add_distrib)
next
  case False
  show ?thesis
  proof (cases "e = -1")
    case True
    then show ?thesis by (simp add: pow2_def)
  next
    case neq: False
    then have "nat (- e) = Suc (nat (- (e + 1)))" using False by linarith
    with False neq show ?thesis by (simp add: pow2_def)
  qed
qed

lemma pow2_add_nat: "pow2 (e + int n) = 2 ^ n * pow2 e"
proof (induction n)
  case 0
  then show ?case by simp
next
  case (Suc n)
  have "pow2 (e + int (Suc n)) = pow2 ((e + int n) + 1)" by (simp add: ac_simps)
  also have "\<dots> = 2 * (2 ^ n * pow2 e)" by (simp only: pow2_Suc Suc.IH)
  finally show ?case by simp
qed

lemma pow2_of_nat: "pow2 (int n) = 2 ^ n"
  by (simp add: pow2_def)

lemma round_half_even_of_int [simp]: "round_half_even (of_int i) = i"
  by (simp add: round_half_even_def)

lemma log2_rat_of_nat:
  assumes "0 < n"
  shows "log2_rat (of_nat n) = int (log2_nat n)"
proof -
  have q: "quotient_of (of_nat n) = (int n, 1)"
    by (simp add: quotient_of_Fract normalize_def flip: Fract_of_nat_eq)
  have one: "log2_nat 1 = 0" by (simp add: log2_nat.simps)
  have "pow2 (int (log2_nat n)) \<le> of_nat n"
    using log2_nat_bounds [OF assms] unfolding pow2_of_nat
    by (metis of_nat_le_iff of_nat_numeral of_nat_power)
  with q one show ?thesis by (simp add: log2_rat_def Let_def)
qed

text \<open>Integers of at most 53 bits are exact.\<close>

lemma round_f64_small_nat:
  assumes "0 < n" "n \<le> 9007199254740992"
  shows "round_f64 (of_nat n) = Fin (of_nat n)"
proof -
  define k where "k = log2_nat n"
  have k: "2 ^ k \<le> n" "n < 2 ^ Suc k" using log2_nat_bounds [OF assms(1)] by (auto simp: k_def)
  have "(2::nat) ^ k < 2 ^ 54"
    by (rule le_less_trans [OF k(1) le_less_trans [OF assms(2)]]) simp
  then have k54: "k < 54" by (rule power_less_imp_less_exp [rotated]) simp
  define e where "e = max (- 1074) (log2_rat (of_nat n :: rat) - 52)"
  have e: "e = int k - 52" using k54 assms(1) by (simp add: e_def log2_rat_of_nat k_def)
  have exact: "\<exists>m :: int. (of_nat n :: rat) / pow2 e = of_int m"
  proof (cases "k = 53")
    case True
    with k assms(2) have "n = 2 ^ 53" by simp
    moreover have "e = 1" using e True by simp
    ultimately have "(of_nat n :: rat) / pow2 e = of_int (4503599627370496)"
      by (simp add: pow2_def)
    then show ?thesis by blast
  next
    case False
    with k54 have "e + int (52 - k) = 0" using e by simp
    then have "2 ^ (52 - k) * pow2 e = 1"
      using pow2_add_nat [of e "52 - k"] by (simp add: pow2_def)
    then have "1 / pow2 e = 2 ^ (52 - k)"
      by (metis nonzero_eq_divide_eq pow2_pos less_numeral_extra(3))
    then have "(of_nat n :: rat) / pow2 e = of_nat n * 2 ^ (52 - k)"
      by (metis times_divide_eq_right mult.right_neutral)
    also have "\<dots> = of_int (int n * 2 ^ (52 - k))" by simp
    finally show ?thesis by blast
  qed
  then obtain m :: int where m: "(of_nat n :: rat) / pow2 e = of_int m" by blast
  then have "of_int (round_half_even (of_nat n / pow2 e)) * pow2 e = (of_nat n :: rat)"
    by (metis nonzero_eq_divide_eq pow2_pos less_numeral_extra(3) round_half_even_of_int)
  moreover have "(of_nat n :: rat) < pow2 1024"
  proof -
    have "(of_nat n :: rat) \<le> of_nat 9007199254740992" using assms(2) by (simp only: of_nat_le_iff)
    also have "\<dots> < pow2 1024" by (simp add: pow2_def)
    finally show ?thesis .
  qed
  ultimately show ?thesis
    using assms(1) by (simp add: round_f64_def Let_def flip: e_def)
qed

lemma f64_of_small_nat: "n \<le> 9007199254740992 \<Longrightarrow> f64_of_int (int n) = Fin (of_nat n)"
proof (cases "n = 0")
  case True
  then show ?thesis by (simp add: f64_of_int_def round_f64_def)
next
  case False
  assume "n \<le> 9007199254740992"
  with False show ?thesis by (simp add: f64_of_int_def round_f64_small_nat)
qed

end
