(* ===== verification/SigmaValue.thy ===== *)
theory SigmaValue
  imports F64
begin

text \<open>
  Typed rule values (\<open>rsigma-parser/src/value.rs\<close>): wildcard strings, timespans, and the escaping
  of literals back to Sigma source (\<open>emit.rs\<close>, \<open>rule_draft/draft_core.rs\<close>).
\<close>

datatype special_char = WildcardMulti | WildcardSingle

datatype string_part = Plain string | Special special_char

record sigma_string =
  parts :: "string_part list"
  original :: string

datatype sigma_value =
  SvString sigma_string
| SvInteger int
| SvFloat f64
| SvBool bool
| SvNull

abbreviation bs :: char where "bs \<equiv> CHR 0x5C"
abbreviation star :: char where "star \<equiv> CHR ''*''"
abbreviation qmark :: char where "qmark \<equiv> CHR ''?''"

section \<open>Parsing wildcard strings\<close>

definition flush_plain :: "string_part list \<Rightarrow> string \<Rightarrow> string_part list" where
  "flush_plain ps acc = (if acc \<noteq> [] then ps @ [Plain acc] else ps)"

text \<open>\<open>SigmaString::new\<close>: the loop over the characters with its state \<open>(parts, acc, escaped)\<close>.\<close>

fun sigma_string_loop :: "string_part list \<Rightarrow> string \<Rightarrow> bool \<Rightarrow> string \<Rightarrow> string_part list" where
  "sigma_string_loop ps acc escaped [] = flush_plain ps (if escaped then acc @ [bs] else acc)"
| "sigma_string_loop ps acc escaped (c # cs) =
     (if escaped then
        (if c = star \<or> c = qmark \<or> c = bs then sigma_string_loop ps (acc @ [c]) False cs
         else sigma_string_loop ps (acc @ [bs, c]) False cs)
      else if c = bs then sigma_string_loop ps acc True cs
      else if c = star then
        sigma_string_loop (flush_plain ps acc @ [Special WildcardMulti]) [] False cs
      else if c = qmark then
        sigma_string_loop (flush_plain ps acc @ [Special WildcardSingle]) [] False cs
      else sigma_string_loop ps (acc @ [c]) False cs)"

definition sigma_string_new :: "string \<Rightarrow> sigma_string" where
  "sigma_string_new s = \<lparr> parts = sigma_string_loop [] [] False s, original = s \<rparr>"

definition sigma_string_from_raw :: "string \<Rightarrow> sigma_string" where
  "sigma_string_from_raw s = \<lparr> parts = (if s = [] then [] else [Plain s]), original = s \<rparr>"

fun is_plain_part :: "string_part \<Rightarrow> bool" where
  "is_plain_part (Plain _) = True"
| "is_plain_part (Special _) = False"

definition sigma_string_is_plain :: "sigma_string \<Rightarrow> bool" where
  "sigma_string_is_plain s = list_all is_plain_part (parts s)"

definition contains_wildcards :: "sigma_string \<Rightarrow> bool" where
  "contains_wildcards s = list_ex (\<lambda>p. \<not> is_plain_part p) (parts s)"

fun plain_text :: "string_part \<Rightarrow> string" where
  "plain_text (Plain t) = t"
| "plain_text (Special _) = []"

definition as_plain :: "sigma_string \<Rightarrow> string option" where
  "as_plain s =
     (if \<not> sigma_string_is_plain s then None else Some (concat (map plain_text (parts s))))"

section \<open>Escaping literals\<close>

text \<open>
  \<open>push_escaped_literal\<close>: the index loop; \<open>run\<close> is the inner loop over a run of backslashes, and
  the \<open>continue\<close> resumes after it.
\<close>

function push_escaped_literal :: "string \<Rightarrow> string" where
  "push_escaped_literal [] = []"
| "push_escaped_literal (c # cs) =
     (if c = star then bs # star # push_escaped_literal cs
      else if c = qmark then bs # qmark # push_escaped_literal cs
      else if c = bs then
        (let run = length (takeWhile (\<lambda>x. x = bs) (c # cs));
             rest = dropWhile (\<lambda>x. x = bs) (c # cs);
             must_escape = (1 < run \<or> (case rest of [] \<Rightarrow> True | d # _ \<Rightarrow> d = star \<or> d = qmark))
         in concat (replicate run (if must_escape then [bs, bs] else [bs]))
            @ push_escaped_literal rest)
      else c # push_escaped_literal cs)"
  by pat_completeness auto
termination
  by (relation "measure length") (auto simp: le_imp_less_Suc length_dropWhile_le)

fun part_source :: "string_part \<Rightarrow> string" where
  "part_source (Plain t) = push_escaped_literal t"
| "part_source (Special WildcardMulti) = [star]"
| "part_source (Special WildcardSingle) = [qmark]"

definition sigma_string_source :: "sigma_string \<Rightarrow> string" where
  "sigma_string_source v = concat (map part_source (parts v))"

text \<open>\<open>escape_sigma_value\<close> of the rule drafts is the same loop over a whole value.\<close>

definition escape_sigma_value :: "string \<Rightarrow> string" where
  "escape_sigma_value s = push_escaped_literal s"

section \<open>Timespans\<close>

datatype timespan_unit = Second | Minute | Hour | Day | Week | Month | Year

record timespan =
  ts_count :: nat
  ts_unit :: timespan_unit
  ts_seconds :: nat
  ts_original :: string

definition timespan_unit_of :: "string \<Rightarrow> (timespan_unit \<times> nat) option" where
  "timespan_unit_of u =
     (if u = ''s'' then Some (Second, 1)
      else if u = ''m'' then Some (Minute, 60)
      else if u = ''h'' then Some (Hour, 3600)
      else if u = ''d'' then Some (Day, 86400)
      else if u = ''w'' then Some (Week, 604800)
      else if u = ''M'' then Some (Month, 2629746)
      else if u = ''y'' then Some (Year, 31556952)
      else None)"

definition u64_checked_mul :: "nat \<Rightarrow> nat \<Rightarrow> nat option" where
  "u64_checked_mul a b = (if a * b \<le> u64_max then Some (a * b) else None)"

text \<open>
  \<open>Timespan::parse\<close>; the error carries the text.  A last character of more than one byte is no
  unit, whichever of its bytes the split is at.
\<close>

definition timespan_parse :: "string \<Rightarrow> string + timespan" where
  "timespan_parse s =
     (if length s < 2 then Inl s
      else
        let split_pos = length s - 1; count_str = take split_pos s; unit_str = drop split_pos s
        in (case parse_u64 count_str of
              None \<Rightarrow> Inl s
            | Some count \<Rightarrow>
                (case timespan_unit_of unit_str of
                   None \<Rightarrow> Inl s
                 | Some (unit, multiplier) \<Rightarrow>
                     (case u64_checked_mul count multiplier of
                        None \<Rightarrow> Inl s
                      | Some seconds \<Rightarrow>
                          Inr \<lparr> ts_count = count, ts_unit = unit, ts_seconds = seconds,
                                ts_original = s \<rparr>))))"

fun show_timespan_unit :: "timespan_unit \<Rightarrow> string" where
  "show_timespan_unit Second = ''s''"
| "show_timespan_unit Minute = ''m''"
| "show_timespan_unit Hour = ''h''"
| "show_timespan_unit Day = ''d''"
| "show_timespan_unit Week = ''w''"
| "show_timespan_unit Month = ''M''"
| "show_timespan_unit Year = ''y''"

section \<open>Lemmas\<close>

text \<open>Normal part lists: no empty literal, no two literals in a row.\<close>

fun parts_normal :: "string_part list \<Rightarrow> bool" where
  "parts_normal [] = True"
| "parts_normal (Special c # ps) = parts_normal ps"
| "parts_normal (Plain t # ps) =
     (t \<noteq> [] \<and> (case ps of Plain _ # _ \<Rightarrow> False | _ \<Rightarrow> True) \<and> parts_normal ps)"

definition ends_open :: "string_part list \<Rightarrow> bool" where
  "ends_open ps = (parts_normal ps \<and> (ps = [] \<or> \<not> is_plain_part (last ps)))"

lemma parts_normal_snoc_special [simp]:
  "parts_normal (ps @ [Special c]) = parts_normal ps"
  by (induction ps rule: parts_normal.induct) (auto split: list.splits string_part.splits)

lemma parts_normal_snoc_plain:
  "ends_open ps \<Longrightarrow> t \<noteq> [] \<Longrightarrow> parts_normal (ps @ [Plain t])"
  unfolding ends_open_def
  by (induction ps rule: parts_normal.induct) (auto split: list.splits string_part.splits if_splits)

lemma flush_plain_normal: "ends_open ps \<Longrightarrow> parts_normal (flush_plain ps acc)"
  by (auto simp: flush_plain_def parts_normal_snoc_plain) (simp add: ends_open_def)

lemma sigma_string_loop_normal:
  "ends_open ps \<Longrightarrow> parts_normal (sigma_string_loop ps acc escaped cs)"
proof (induction ps acc escaped cs rule: sigma_string_loop.induct)
  case (1 ps acc escaped)
  then show ?case by (simp add: flush_plain_normal)
next
  case (2 ps acc escaped c cs)
  have "ends_open (flush_plain ps acc @ [Special w])" for w
    using flush_plain_normal [OF 2(7)] by (simp add: ends_open_def)
  with 2 show ?case
    by (cases escaped; cases "c = bs"; cases "c = star"; cases "c = qmark") simp_all
qed

lemma sigma_string_new_normal: "parts_normal (parts (sigma_string_new s))"
  by (simp add: sigma_string_new_def sigma_string_loop_normal ends_open_def)

lemma loop_doubled:
  "sigma_string_loop ps acc False (concat (replicate n [bs, bs]) @ r)
   = sigma_string_loop ps (acc @ replicate n bs) False r"
  by (induction n arbitrary: acc) simp_all

lemma takeWhile_replicate:
  "takeWhile (\<lambda>x. x = a) xs = replicate (length (takeWhile (\<lambda>x. x = a) xs)) a"
  by (induction xs) auto

lemma loop_push_escaped:
  "sigma_string_loop ps acc False (push_escaped_literal t @ r)
   = sigma_string_loop ps (acc @ t) False r"
proof (induction t arbitrary: acc rule: push_escaped_literal.induct)
  case 1
  show ?case by simp
next
  case (2 c cs)
  show ?case
  proof (cases "c = bs")
    case False
    with 2 show ?thesis by (cases "c = star"; cases "c = qmark") simp_all
  next
    case True
    define run where "run = length (takeWhile (\<lambda>x. x = bs) (c # cs))"
    define rest where "rest = dropWhile (\<lambda>x. x = bs) (c # cs)"
    define must where
      "must = (1 < run \<or> (case rest of [] \<Rightarrow> True | d # _ \<Rightarrow> d = star \<or> d = qmark))"
    have cut: "c # cs = replicate run bs @ rest"
      using takeWhile_dropWhile_id [of "\<lambda>x. x = bs" "c # cs"] takeWhile_replicate [of bs "c # cs"]
      unfolding run_def rest_def by metis
    have IH: "sigma_string_loop ps a False (push_escaped_literal rest @ r)
        = sigma_string_loop ps (a @ rest) False r" for a
      using 2(3) True by (simp add: rest_def)
    have push: "push_escaped_literal (c # cs)
        = concat (replicate run (if must then [bs, bs] else [bs])) @ push_escaped_literal rest"
      unfolding must_def using True by (simp add: Let_def run_def rest_def)
    show ?thesis
    proof (cases must)
      case True
      then have "sigma_string_loop ps acc False (push_escaped_literal (c # cs) @ r)
          = sigma_string_loop ps (acc @ replicate run bs) False (push_escaped_literal rest @ r)"
        by (simp add: push loop_doubled del: push_escaped_literal.simps)
      then show ?thesis by (simp add: IH cut del: push_escaped_literal.simps)
    next
      case False
      moreover have "0 < run" using \<open>c = bs\<close> by (simp add: run_def)
      ultimately have one: "run = 1" by (simp add: must_def)
      from False obtain d ds where rest: "rest = d # ds" and d: "d \<noteq> star" "d \<noteq> qmark"
        by (auto simp: must_def split: list.splits)
      have "d \<noteq> bs"
        using rest hd_dropWhile [of "\<lambda>x. x = bs" "c # cs"] by (auto simp: rest_def)
      with d rest have pr: "push_escaped_literal rest = d # push_escaped_literal ds" by simp
      have "sigma_string_loop ps acc False (bs # d # push_escaped_literal ds @ r)
          = sigma_string_loop ps (acc @ [bs]) False (d # push_escaped_literal ds @ r)"
        using d \<open>d \<noteq> bs\<close> by simp
      also have "\<dots> = sigma_string_loop ps ((acc @ [bs]) @ rest) False r"
        using IH [of "acc @ [bs]"] pr by simp
      finally have step: "sigma_string_loop ps acc False (bs # d # push_escaped_literal ds @ r)
          = sigma_string_loop ps (acc @ bs # rest) False r" by simp
      have "push_escaped_literal (c # cs) = bs # d # push_escaped_literal ds"
        using False by (simp add: push pr one del: push_escaped_literal.simps)
      moreover have "c # cs = bs # rest" unfolding cut one by simp
      ultimately show ?thesis using step by (simp only: append.simps)
    qed
  qed
qed

lemma loop_part_sources:
  assumes "parts_normal ps" and "acc = [] \<or> (case ps of Plain _ # _ \<Rightarrow> False | _ \<Rightarrow> True)"
  shows "sigma_string_loop qs acc False (concat (map part_source ps)) = flush_plain qs acc @ ps"
  using assms
proof (induction ps arbitrary: qs acc rule: parts_normal.induct)
  case 1
  then show ?case by simp
next
  case (2 w ps)
  then show ?case by (cases w) (simp_all add: flush_plain_def)
next
  case (3 t ps)
  then have "acc = []" by simp
  with 3 show ?case by (simp add: loop_push_escaped flush_plain_def)
qed

lemma sigma_string_source_roundtrip:
  "parts_normal (parts v) \<Longrightarrow> parts (sigma_string_new (sigma_string_source v)) = parts v"
  by (simp add: sigma_string_new_def sigma_string_source_def loop_part_sources flush_plain_def)

lemma escape_sigma_value_parts:
  "parts (sigma_string_new (escape_sigma_value s)) = (if s = [] then [] else [Plain s])"
  using loop_push_escaped [of "[]" "[]" s "[]"]
  by (simp add: sigma_string_new_def escape_sigma_value_def flush_plain_def)

lemma is_plain_iff_no_wildcards: "sigma_string_is_plain s \<longleftrightarrow> \<not> contains_wildcards s"
  by (simp add: sigma_string_is_plain_def contains_wildcards_def not_list_ex)

lemma timespan_parse_Inr:
  "timespan_parse s = Inr t \<longleftrightarrow>
     (\<exists>c u x m. s = c @ [u] \<and> c \<noteq> [] \<and> parse_u64 c = Some (ts_count t)
        \<and> timespan_unit_of [u] = Some (x, m) \<and> ts_unit t = x
        \<and> ts_seconds t = ts_count t * m \<and> ts_seconds t \<le> u64_max \<and> ts_original t = s)"
proof (cases "length s < 2")
  case True
  then have "\<not> (\<exists>c u. s = c @ [u] \<and> c \<noteq> [])"
    by (auto simp: neq_Nil_conv)
  with True show ?thesis by (auto simp: timespan_parse_def)
next
  case False
  then obtain c u where s: "s = c @ [u]" by (metis length_0_conv rev_exhaust zero_less_numeral)
  with False have "c \<noteq> []" by auto
  with s False show ?thesis
    by (cases t) (auto simp: timespan_parse_def u64_checked_mul_def Let_def split: option.splits)
qed

lemma timespan_roundtrip:
  assumes "timespan_unit_of (show_timespan_unit u) = Some (u, m)" and "n * m \<le> u64_max" and "0 < m"
  shows "timespan_parse (show_nat n @ show_timespan_unit u)
    = Inr \<lparr> ts_count = n, ts_unit = u, ts_seconds = n * m,
            ts_original = show_nat n @ show_timespan_unit u \<rparr>"
proof -
  have "n \<le> n * m" using assms(3) by simp
  then have "n \<le> u64_max" using assms(2) by (rule order_trans)
  then have "parse_u64 (show_nat n) = Some n" by (rule parse_u64_show_nat)
  moreover obtain x where "show_timespan_unit u = [x]" by (cases u) auto
  ultimately show ?thesis using assms
    by (subst timespan_parse_Inr) auto
qed

lemma timespan_unit_of_show:
  "\<exists>m > 0. timespan_unit_of (show_timespan_unit u) = Some (u, m)"
  by (cases u) (simp_all add: timespan_unit_of_def)

section \<open>Properties\<close>

text \<open>
  Escaping a text for use as a Sigma value and parsing it gives back the text, without wildcards.
\<close>

theorem escape_sigma_value_roundtrip:
  "parts (sigma_string_new (escape_sigma_value s)) = (if s = [] then [] else [Plain s])"
  by (rule escape_sigma_value_parts)

text \<open>
  Printing a parsed Sigma string and parsing it again gives the same parts.
\<close>

theorem sigma_string_print_parse:
  "parts (sigma_string_new (sigma_string_source (sigma_string_new s))) = parts (sigma_string_new s)"
  by (rule sigma_string_source_roundtrip [OF sigma_string_new_normal])

end
