(* ===== verification/Ast.thy ===== *)
theory Ast
  imports Condition SigmaValue
begin

text \<open>
  The parsed rule AST of \<open>rsigma-parser/src/ast.rs\<close>: metadata enumerations with their keyword
  parsers, field modifiers, detections, rules and correlation rules.
\<close>

section \<open>Metadata enumerations\<close>

datatype status = Stable | Test | Experimental | Deprecated | Unsupported

definition status_from_str :: "string \<Rightarrow> status option" where
  "status_from_str s =
     (if s = ''stable'' then Some Stable
      else if s = ''test'' then Some Test
      else if s = ''experimental'' then Some Experimental
      else if s = ''deprecated'' then Some Deprecated
      else if s = ''unsupported'' then Some Unsupported
      else None)"

datatype level = Informational | Low | Medium | High | Critical

fun level_as_str :: "level \<Rightarrow> string" where
  "level_as_str Informational = ''informational''"
| "level_as_str Low = ''low''"
| "level_as_str Medium = ''medium''"
| "level_as_str High = ''high''"
| "level_as_str Critical = ''critical''"

definition level_from_str :: "string \<Rightarrow> level option" where
  "level_from_str s =
     (if s = ''informational'' then Some Informational
      else if s = ''low'' then Some Low
      else if s = ''medium'' then Some Medium
      else if s = ''high'' then Some High
      else if s = ''critical'' then Some Critical
      else None)"

datatype relation_type = RelCorrelation | Derived | Obsolete | Merged | Renamed | Similar

definition relation_type_from_str :: "string \<Rightarrow> relation_type option" where
  "relation_type_from_str s =
     (if s = ''correlation'' then Some RelCorrelation
      else if s = ''derived'' then Some Derived
      else if s = ''obsolete'' then Some Obsolete
      else if s = ''merged'' then Some Merged
      else if s = ''renamed'' then Some Renamed
      else if s = ''similar'' then Some Similar
      else None)"

section \<open>Field modifiers\<close>

datatype modifier =
  MdContains | MdStartsWith | MdEndsWith | MdAll
| MdBase64 | MdBase64Offset | MdWide | MdUtf16be | MdUtf16 | MdWindAsh
| MdRe | MdCidr | MdCased | MdExists | MdExpand | MdFieldRef
| MdGt | MdGte | MdLt | MdLte | MdNeq
| MdIgnoreCase | MdMultiline | MdDotAll
| MdMinute | MdHour | MdDay | MdWeek | MdMonth | MdYear

definition modifier_table :: "(string \<times> modifier) list" where
  "modifier_table =
     [(''contains'', MdContains), (''startswith'', MdStartsWith), (''endswith'', MdEndsWith),
      (''all'', MdAll), (''base64'', MdBase64), (''base64offset'', MdBase64Offset),
      (''wide'', MdWide), (''utf16le'', MdWide), (''utf16be'', MdUtf16be), (''utf16'', MdUtf16),
      (''windash'', MdWindAsh), (''re'', MdRe), (''cidr'', MdCidr), (''cased'', MdCased),
      (''exists'', MdExists), (''expand'', MdExpand), (''fieldref'', MdFieldRef),
      (''gt'', MdGt), (''gte'', MdGte), (''lt'', MdLt), (''lte'', MdLte), (''neq'', MdNeq),
      (''i'', MdIgnoreCase), (''ignorecase'', MdIgnoreCase), (''m'', MdMultiline),
      (''multiline'', MdMultiline), (''s'', MdDotAll), (''dotall'', MdDotAll),
      (''minute'', MdMinute), (''hour'', MdHour), (''day'', MdDay), (''week'', MdWeek),
      (''month'', MdMonth), (''year'', MdYear)]"

definition modifier_from_str :: "string \<Rightarrow> modifier option" where
  "modifier_from_str s = map_of modifier_table s"

record field_spec =
  fs_name :: "string option"
  fs_modifiers :: "modifier list"

definition has_modifier :: "field_spec \<Rightarrow> modifier \<Rightarrow> bool" where
  "has_modifier f m = (m \<in> set (fs_modifiers f))"

definition is_keyword :: "field_spec \<Rightarrow> bool" where
  "is_keyword f = (fs_name f = None)"

section \<open>Detections\<close>

fun show_array_quantifier :: "array_quantifier \<Rightarrow> string" where
  "show_array_quantifier AqAny = ''any''"
| "show_array_quantifier AqAll = ''all''"
| "show_array_quantifier AqAllOrEmpty = ''all_or_empty''"
| "show_array_quantifier AqNone = ''none''"

record detection_item =
  di_field :: field_spec
  di_values :: "sigma_value list"

text \<open>A hash map of named detections is the list of its entries, keys distinct.\<close>

datatype detection =
  DAllOf "detection_item list"
| DAnyOf "detection list"
| DKeywords "sigma_value list"
| DArrayMatch string array_quantifier detection
| DAnd "detection list"
| DConditional "(string \<times> detection) list" condition_expr

record detections =
  dets_named :: "(string \<times> detection) list"
  dets_conditions :: "condition_expr list"
  dets_condition_strings :: "string list"
  dets_timeframe :: "string option"

record log_source =
  ls_category :: "string option"
  ls_product :: "string option"
  ls_service :: "string option"
  ls_definition :: "string option"
  ls_custom :: "(string \<times> string) list"

record related_rule =
  rel_id :: string
  rel_type :: relation_type

section \<open>Rules\<close>

text \<open>\<open>'y\<close> is the YAML value type of the parser library (\<open>yaml_serde::Value\<close>).\<close>

record 'y sigma_rule =
  sr_title :: string
  sr_logsource :: log_source
  sr_detection :: detections
  sr_sigma_version :: "nat option"
  sr_id :: "string option"
  sr_name :: "string option"
  sr_related :: "related_rule list"
  sr_taxonomy :: "string option"
  sr_status :: "status option"
  sr_description :: "string option"
  sr_license :: "string option"
  sr_author :: "string option"
  sr_references :: "string list"
  sr_date :: "string option"
  sr_modified :: "string option"
  sr_fields :: "string list"
  sr_falsepositives :: "string list"
  sr_level :: "level option"
  sr_tags :: "string list"
  sr_scope :: "string list"
  sr_custom_attributes :: "(string \<times> 'y) list"

section \<open>Correlation rules\<close>

datatype correlation_type =
  EventCount | ValueCount | Temporal | TemporalOrdered
| ValueSum | ValueAvg | ValuePercentile | ValueMedian

fun correlation_type_as_str :: "correlation_type \<Rightarrow> string" where
  "correlation_type_as_str EventCount = ''event_count''"
| "correlation_type_as_str ValueCount = ''value_count''"
| "correlation_type_as_str Temporal = ''temporal''"
| "correlation_type_as_str TemporalOrdered = ''temporal_ordered''"
| "correlation_type_as_str ValueSum = ''value_sum''"
| "correlation_type_as_str ValueAvg = ''value_avg''"
| "correlation_type_as_str ValuePercentile = ''value_percentile''"
| "correlation_type_as_str ValueMedian = ''value_median''"

definition correlation_type_from_str :: "string \<Rightarrow> correlation_type option" where
  "correlation_type_from_str s =
     (if s = ''event_count'' then Some EventCount
      else if s = ''value_count'' then Some ValueCount
      else if s = ''temporal'' then Some Temporal
      else if s = ''temporal_ordered'' then Some TemporalOrdered
      else if s = ''value_sum'' then Some ValueSum
      else if s = ''value_avg'' then Some ValueAvg
      else if s = ''value_percentile'' then Some ValuePercentile
      else if s = ''value_median'' then Some ValueMedian
      else None)"

datatype window_mode = Sliding | Tumbling | Session

fun window_mode_as_str :: "window_mode \<Rightarrow> string" where
  "window_mode_as_str Sliding = ''sliding''"
| "window_mode_as_str Tumbling = ''tumbling''"
| "window_mode_as_str Session = ''session''"

definition window_mode_from_str :: "string \<Rightarrow> window_mode option" where
  "window_mode_from_str s =
     (if s = ''sliding'' then Some Sliding
      else if s = ''tumbling'' then Some Tumbling
      else if s = ''session'' then Some Session
      else None)"

datatype condition_operator = OpLt | OpLte | OpGt | OpGte | OpEq | OpNeq

definition condition_operator_from_str :: "string \<Rightarrow> condition_operator option" where
  "condition_operator_from_str s =
     (if s = ''lt'' then Some OpLt
      else if s = ''lte'' then Some OpLte
      else if s = ''gt'' then Some OpGt
      else if s = ''gte'' then Some OpGte
      else if s = ''eq'' then Some OpEq
      else if s = ''neq'' then Some OpNeq
      else None)"

datatype correlation_condition =
  Threshold "(condition_operator \<times> nat) list" "string list option" "nat option"
| Extended condition_expr

record field_alias =
  fa_alias :: string
  fa_mapping :: "(string \<times> string) list"

record 'y correlation_rule =
  cr_title :: string
  cr_sigma_version :: "nat option"
  cr_id :: "string option"
  cr_name :: "string option"
  cr_status :: "status option"
  cr_description :: "string option"
  cr_author :: "string option"
  cr_date :: "string option"
  cr_modified :: "string option"
  cr_related :: "related_rule list"
  cr_references :: "string list"
  cr_taxonomy :: "string option"
  cr_license :: "string option"
  cr_tags :: "string list"
  cr_fields :: "string list"
  cr_falsepositives :: "string list"
  cr_level :: "level option"
  cr_scope :: "string list"
  cr_correlation_type :: correlation_type
  cr_rules :: "string list"
  cr_group_by :: "string list"
  cr_timespan :: timespan
  cr_window :: window_mode
  cr_gap :: "timespan option"
  cr_condition :: correlation_condition
  cr_aliases :: "field_alias list"
  cr_generate :: bool
  cr_custom_attributes :: "(string \<times> 'y) list"

section \<open>Filter rules\<close>

datatype filter_rule_target = TargetAny | TargetSpecific "string list"

record 'y filter_rule =
  fr_title :: string
  fr_sigma_version :: "nat option"
  fr_id :: "string option"
  fr_name :: "string option"
  fr_taxonomy :: "string option"
  fr_status :: "status option"
  fr_description :: "string option"
  fr_author :: "string option"
  fr_date :: "string option"
  fr_modified :: "string option"
  fr_related :: "related_rule list"
  fr_license :: "string option"
  fr_references :: "string list"
  fr_tags :: "string list"
  fr_fields :: "string list"
  fr_falsepositives :: "string list"
  fr_level :: "level option"
  fr_scope :: "string list"
  fr_logsource :: "log_source option"
  fr_rules :: filter_rule_target
  fr_detection :: detections
  fr_custom_attributes :: "(string \<times> 'y) list"

section \<open>Keywords read back\<close>

lemma level_roundtrip: "level_from_str (level_as_str l) = Some l"
  by (cases l) (simp_all add: level_from_str_def)

lemma correlation_type_roundtrip: "correlation_type_from_str (correlation_type_as_str ct) = Some ct"
  by (cases ct) (simp_all add: correlation_type_from_str_def)

lemma window_mode_roundtrip: "window_mode_from_str (window_mode_as_str w) = Some w"
  by (cases w) (simp_all add: window_mode_from_str_def)

end
