(* ===== verification/Env.thy ===== *)
theory Env
  imports F64
begin

text \<open>
  The code outside the repository, as parameters: one record of the functions of third-party crates
  and of the Unicode and float tables of the standard library.  No definition is made up for them;
  what the code relies on is stated by the named laws below, which properties take as hypotheses.
\<close>

text \<open>
  The part of \<open>regex_syntax::ast::Ast\<close> the optimizer inspects: flag groups, groups, concatenation,
  alternation and repetition; every other node is \<open>ReOther\<close>.
\<close>

datatype re_flag_item = FlagNegation | FlagCaseInsensitive | FlagOther

datatype re_group_kind = GroupCapture | GroupNonCapturing "re_flag_item list"

datatype re_ast =
  ReFlags "re_flag_item list"
| ReGroup re_group_kind re_ast
| ReConcat "re_ast list"
| ReAlternation "re_ast list"
| ReRepetition re_ast
| ReOther

text \<open>
  The part of \<open>regex_syntax::hir::HirKind\<close> the rule analysis inspects: the bytes of a literal,
  concatenation, alternation, a repetition with its least count, and captures; empty patterns,
  classes and assertions are \<open>HirOther\<close>.
\<close>

datatype re_hir =
  HirLiteral string
| HirConcat "re_hir list"
| HirAlternation "re_hir list"
| HirRepetition nat re_hir
| HirCapture re_hir
| HirOther

text \<open>Calendar fields of a \<open>chrono::DateTime<Utc>\<close> and its second count.\<close>

record datetime =
  dt_timestamp :: int
  dt_minute :: nat
  dt_hour :: nat
  dt_day :: nat
  dt_iso_week :: nat
  dt_month :: nat
  dt_year :: int

record ext_env =
  uni_lower :: "string \<Rightarrow> string"                \<comment> \<open>\<open>str::to_lowercase\<close> on non-ASCII text\<close>
  f64_display :: "f64 \<Rightarrow> string"                 \<comment> \<open>\<open>f64::to_string\<close>\<close>
  f64_from_str :: "string \<Rightarrow> f64 option"         \<comment> \<open>\<open>str::parse::<f64>\<close>\<close>
  json_f64_display :: "f64 \<Rightarrow> string"            \<comment> \<open>\<open>serde_json::Number::to_string\<close> of a float\<close>
  re_new_ok :: "string \<Rightarrow> bool"                  \<comment> \<open>\<open>Regex::new(p).is_ok()\<close>\<close>
  re_is_match :: "string \<Rightarrow> string \<Rightarrow> bool"      \<comment> \<open>\<open>Regex::is_match\<close>\<close>
  re_escape :: "string \<Rightarrow> string"                \<comment> \<open>\<open>regex::escape\<close>\<close>
  re_parse :: "string \<Rightarrow> re_ast option"          \<comment> \<open>\<open>regex_syntax::ast::parse::Parser::parse\<close>\<close>
  re_parse_hir :: "string \<Rightarrow> re_hir option"      \<comment> \<open>\<open>regex_syntax::Parser::parse\<close>, \<open>utf8(false)\<close>\<close>
  re_syntax_ok :: "string \<Rightarrow> bool"               \<comment> \<open>\<open>regex_syntax::Parser::new().parse(p).is_ok()\<close>\<close>
  fancy_regex_error :: "string \<Rightarrow> string option" \<comment> \<open>the error of \<open>fancy_regex::Regex::new\<close>, if any\<close>
  base64_encode :: "string \<Rightarrow> string"             \<comment> \<open>\<open>BASE64_STANDARD.encode\<close>\<close>
  re_set_ok :: "string list \<Rightarrow> bool"             \<comment> \<open>\<open>RegexSet::new(ps).is_ok()\<close>\<close>
  re_set_matches :: "string list \<Rightarrow> string \<Rightarrow> nat list" \<comment> \<open>\<open>RegexSet::matches\<close>\<close>
  re_set_is_match :: "string list \<Rightarrow> string \<Rightarrow> bool"
  ac_new_ok :: "string list \<Rightarrow> bool"             \<comment> \<open>\<open>AhoCorasick::new(ns).is_ok()\<close>\<close>
  ac_is_match :: "string list \<Rightarrow> string \<Rightarrow> bool"
  ip_net_contains :: "string \<Rightarrow> string \<Rightarrow> bool"  \<comment> \<open>the text parses as an \<open>IpAddr\<close> in the network\<close>
  ip_net_parse :: "string \<Rightarrow> string option"      \<comment> \<open>\<open>IpNet\<close> from text, as its printed form\<close>
  dt_from_timestamp :: "int \<Rightarrow> datetime option"  \<comment> \<open>\<open>DateTime::from_timestamp(secs, 0)\<close>\<close>
  dt_parse_rfc3339 :: "string \<Rightarrow> datetime option"
  dt_parse_naive :: "string \<Rightarrow> string \<Rightarrow> datetime option" \<comment> \<open>\<open>NaiveDateTime::parse_from_str\<close> as UTC\<close>

definition to_lowercase :: "ext_env \<Rightarrow> string \<Rightarrow> string" where
  "to_lowercase env s = (if is_ascii s then map ascii_lower_char s else uni_lower env s)"

section \<open>Laws\<close>

text \<open>Aho-Corasick and regex sets agree with testing their patterns one by one.\<close>

definition ac_law :: "ext_env \<Rightarrow> bool" where
  "ac_law env = (\<forall>ns s. ac_new_ok env ns \<longrightarrow> ac_is_match env ns s = list_ex (contains_str s) ns)"

definition re_set_law :: "ext_env \<Rightarrow> bool" where
  "re_set_law env =
     (\<forall>ps s. re_set_ok env ps \<longrightarrow> re_set_is_match env ps s = list_ex (\<lambda>p. re_is_match env p s) ps)"

text \<open>Base64 of RFC 4648 (section 4): the standard alphabet, with padding.\<close>

definition base64_char :: "nat \<Rightarrow> char" where
  "base64_char n =
     char_of (if n < 26 then 65 + n else if n < 52 then 71 + n else if n < 62 then n - 4
              else if n = 62 then 43 else (47 :: nat))"

definition base64_digits :: "nat \<Rightarrow> nat \<Rightarrow> string" where
  "base64_digits k n = map (\<lambda>i. base64_char (n div 64 ^ (3 - i) mod 64)) [0 ..< k]"

fun rfc4648 :: "string \<Rightarrow> string" where
  "rfc4648 [] = []"
| "rfc4648 [a] = base64_digits 2 (of_char a * 65536) @ ''==''"
| "rfc4648 [a, b] = base64_digits 3 (of_char a * 65536 + of_char b * 256) @ ''=''"
| "rfc4648 (a # b # c # r) =
     base64_digits 4 (of_char a * 65536 + of_char b * 256 + of_char c) @ rfc4648 r"

definition base64_law :: "ext_env \<Rightarrow> bool" where
  "base64_law env = (\<forall>bytes. base64_encode env bytes = rfc4648 bytes)"

section \<open>Lowercasing\<close>

lemma is_ascii_lower [simp]: "is_ascii (map ascii_lower_char s) = is_ascii s"
  by (simp add: is_ascii_def list_all_iff)

lemma map_ascii_lower_idem [simp]:
  "map ascii_lower_char (map ascii_lower_char s) = map ascii_lower_char s"
  by simp

lemma to_lowercase_ascii: "is_ascii s \<Longrightarrow> to_lowercase env s = map ascii_lower_char s"
  by (simp add: to_lowercase_def)

lemma to_lowercase_idem_ascii:
  "is_ascii s \<Longrightarrow> to_lowercase env (to_lowercase env s) = to_lowercase env s"
  by (simp add: to_lowercase_def)

section \<open>An instance\<close>

text \<open>
  A concrete instance of the parameters for the witnesses: regexes are literal texts with an
  optional \<open>(?i)\<close>, floats print through their integer part, network membership is equality, and
  a timestamp text is a decimal count of seconds.
\<close>

definition literal_re_match :: "string \<Rightarrow> string \<Rightarrow> bool" where
  "literal_re_match p s =
     (case strip_prefix p ''(?i)'' of
        Some q \<Rightarrow> contains_str (map ascii_lower_char s) (map ascii_lower_char q)
      | None \<Rightarrow> contains_str s p)"

definition literal_datetime :: "int \<Rightarrow> datetime" where
  "literal_datetime t =
     \<lparr> dt_timestamp = t, dt_minute = nat (t div 60 mod 60), dt_hour = nat (t div 3600 mod 24),
       dt_day = 1, dt_iso_week = 1, dt_month = 1, dt_year = 1970 \<rparr>"

definition literal_env :: ext_env where
  "literal_env = \<lparr>
     uni_lower = map ascii_lower_char,
     f64_display = (\<lambda>f. show_int (f64_as_i64 f)),
     f64_from_str = (\<lambda>s. map_option f64_of_int (parse_i64 s)),
     json_f64_display = (\<lambda>f. show_int (f64_as_i64 f)),
     re_new_ok = (\<lambda>_. True),
     re_is_match = literal_re_match,
     re_escape = (\<lambda>s. s),
     re_parse = (\<lambda>p. Some (if starts_with p ''(?i)'' then ReConcat [ReFlags [FlagCaseInsensitive], ReOther]
                         else ReOther)),
     re_parse_hir = (\<lambda>p. Some (if starts_with p ''(?i)'' then HirOther else HirLiteral p)),
     re_syntax_ok = (\<lambda>_. True),
     fancy_regex_error = (\<lambda>_. None),
     base64_encode = rfc4648,
     re_set_ok = (\<lambda>_. True),
     re_set_matches = (\<lambda>ps s. filter (\<lambda>i. literal_re_match (ps ! i) s) [0..<length ps]),
     re_set_is_match = (\<lambda>ps s. list_ex (\<lambda>p. literal_re_match p s) ps),
     ac_new_ok = (\<lambda>_. True),
     ac_is_match = (\<lambda>ns s. list_ex (contains_str s) ns),
     ip_net_contains = (\<lambda>net s. net = s),
     ip_net_parse = Some,
     dt_from_timestamp = (\<lambda>t. Some (literal_datetime t)),
     dt_parse_rfc3339 = (\<lambda>s. map_option literal_datetime (parse_i64 s)),
     dt_parse_naive = (\<lambda>s fmt. None) \<rparr>"

lemma literal_env_simps [simp]:
  "re_is_match literal_env = literal_re_match"
  "re_parse_hir literal_env p = Some (if starts_with p ''(?i)'' then HirOther else HirLiteral p)"
  "re_set_ok literal_env ps = True"
  "ac_new_ok literal_env ns = True"
  "base64_encode literal_env bytes = rfc4648 bytes"
  "ac_is_match literal_env ns s = list_ex (contains_str s) ns"
  "re_set_is_match literal_env ps s = list_ex (\<lambda>p. literal_re_match p s) ps"
  "re_parse literal_env p =
     Some (if starts_with p ''(?i)'' then ReConcat [ReFlags [FlagCaseInsensitive], ReOther]
           else ReOther)"
  by (simp_all add: literal_env_def)

lemma literal_env_laws: "ac_law literal_env" "re_set_law literal_env"
  by (simp_all add: ac_law_def re_set_law_def)

end
