(* ===== verification/FieldPath.thy ===== *)
theory FieldPath
  imports Prelude
begin

text \<open>
  Field-path helpers (\<open>rsigma-parser/src/fieldpath.rs\<close>).  An array selector is written in brackets
  on a field path; a literal bracket is escaped with a backslash.  The lemmas relate escaping,
  unescaping and the search for an unescaped bracket.
\<close>

abbreviation backslash :: char where "backslash \<equiv> CHR 0x5C"
abbreviation lbracket :: char where "lbracket \<equiv> CHR ''[''"
abbreviation rbracket :: char where "rbracket \<equiv> CHR '']''"

definition is_bracket :: "char \<Rightarrow> bool" where
  "is_bracket c = (c = lbracket \<or> c = rbracket)"

text \<open>\<open>unescape_brackets\<close>: the peekable loop over the characters.\<close>

fun unescape_loop :: "string \<Rightarrow> string" where
  "unescape_loop [] = []"
| "unescape_loop [c] = [c]"
| "unescape_loop (c # d # s) =
     (if c = backslash \<and> is_bracket d then d # unescape_loop s else c # unescape_loop (d # s))"

definition unescape_brackets :: "string \<Rightarrow> string" where
  "unescape_brackets s = (if backslash \<notin> set s then s else unescape_loop s)"

text \<open>
  \<open>escape_brackets\<close>: \<open>is_unescaped_bracket i\<close> reads \<open>bytes[i - 1]\<close>; the loop carries that byte
  (\<open>None\<close> at index 0).
\<close>

definition is_unescaped :: "char option \<Rightarrow> bool" where
  "is_unescaped prev = (prev \<noteq> Some backslash)"

fun any_unescaped_bracket :: "char option \<Rightarrow> string \<Rightarrow> bool" where
  "any_unescaped_bracket prev [] = False"
| "any_unescaped_bracket prev (c # s) =
     (is_bracket c \<and> is_unescaped prev \<or> any_unescaped_bracket (Some c) s)"

fun escape_loop :: "char option \<Rightarrow> string \<Rightarrow> string" where
  "escape_loop prev [] = []"
| "escape_loop prev (c # s) =
     (if is_bracket c \<and> is_unescaped prev then backslash # c # escape_loop (Some c) s
      else c # escape_loop (Some c) s)"

definition escape_brackets :: "string \<Rightarrow> string" where
  "escape_brackets s = (if \<not> any_unescaped_bracket None s then s else escape_loop None s)"

text \<open>\<open>first_unescaped\<close>: the while loop over the byte index.\<close>

fun first_unescaped_from :: "char option \<Rightarrow> nat \<Rightarrow> string \<Rightarrow> char \<Rightarrow> nat option" where
  "first_unescaped_from prev i [] ch = None"
| "first_unescaped_from prev i (c # s) ch =
     (if c = ch \<and> is_unescaped prev then Some i else first_unescaped_from (Some c) (Suc i) s ch)"

definition first_unescaped :: "string \<Rightarrow> char \<Rightarrow> nat option" where
  "first_unescaped s ch = first_unescaped_from None 0 s ch"

definition ends_with_unescaped :: "string \<Rightarrow> char \<Rightarrow> bool" where
  "ends_with_unescaped s ch =
     (case rev s of [] \<Rightarrow> False | [c] \<Rightarrow> c = ch | c # d # _ \<Rightarrow> c = ch \<and> d \<noteq> backslash)"

section \<open>Lemmas\<close>

lemma bracket_not_backslash [simp]: "\<not> is_bracket backslash"
  by (simp add: is_bracket_def)

lemma unescape_loop_no_backslash: "backslash \<notin> set s \<Longrightarrow> unescape_loop s = s"
  by (induction s rule: unescape_loop.induct) auto

lemma unescape_brackets_loop: "unescape_brackets s = unescape_loop s"
  by (simp add: unescape_brackets_def unescape_loop_no_backslash)

lemma escape_loop_none: "\<not> any_unescaped_bracket prev s \<Longrightarrow> escape_loop prev s = s"
  by (induction prev s rule: escape_loop.induct) auto

lemma escape_brackets_loop: "escape_brackets s = escape_loop None s"
  by (simp add: escape_brackets_def escape_loop_none)

lemma unescape_loop_Cons:
  "c \<noteq> backslash \<Longrightarrow> unescape_loop (c # s) = c # unescape_loop s"
  by (cases s) auto

lemma unescape_escape_aux:
  "(is_unescaped prev \<longrightarrow> unescape_loop (escape_loop prev s) = unescape_loop s) \<and>
   unescape_loop (backslash # escape_loop (Some backslash) s) = unescape_loop (backslash # s)"
proof (induction s arbitrary: prev)
  case Nil
  show ?case by simp
next
  case (Cons c s)
  note some_c = Cons.IH [of "Some c"]
  show ?case
  proof (cases "c = backslash")
    case True
    then show ?thesis using Cons.IH [of "Some backslash"] by simp
  next
    case False
    then have "is_unescaped (Some c)" by (simp add: is_unescaped_def)
    then have "unescape_loop (escape_loop (Some c) s) = unescape_loop s" using some_c by simp
    then show ?thesis using False by (auto simp: unescape_loop_Cons is_unescaped_def)
  qed
qed

lemma unescape_escape: "unescape_brackets (escape_brackets s) = unescape_brackets s"
  using unescape_escape_aux [of None s]
  by (simp add: unescape_brackets_loop escape_brackets_loop is_unescaped_def)

lemma any_unescaped_escape_loop:
  "\<not> any_unescaped_bracket prev (escape_loop prev s)"
proof (induction prev s rule: escape_loop.induct)
  case (1 prev)
  show ?case by simp
next
  case (2 prev c s)
  then show ?case by (cases "is_bracket c \<and> is_unescaped prev") (auto simp: is_unescaped_def)
qed

lemma first_unescaped_from_none:
  "is_bracket ch \<Longrightarrow> \<not> any_unescaped_bracket prev s \<Longrightarrow> first_unescaped_from prev i s ch = None"
  by (induction prev i s ch rule: first_unescaped_from.induct) auto

lemma first_unescaped_escape:
  "is_bracket ch \<Longrightarrow> first_unescaped (escape_brackets s) ch = None"
  by (simp add: first_unescaped_def escape_brackets_loop any_unescaped_escape_loop
      first_unescaped_from_none)

lemma escape_brackets_idem: "escape_brackets (escape_brackets s) = escape_brackets s"
  by (simp add: escape_brackets_loop escape_loop_none any_unescaped_escape_loop)

lemma first_unescaped_from_Some:
  "first_unescaped_from prev i s ch = Some j \<Longrightarrow> \<exists>k < length s. j = i + k \<and> s ! k = ch"
proof (induction prev i s ch rule: first_unescaped_from.induct)
  case (1 prev i ch)
  then show ?case by simp
next
  case (2 prev i c s ch)
  show ?case
  proof (cases "c = ch \<and> is_unescaped prev")
    case True
    with 2 show ?thesis by auto
  next
    case False
    with 2 obtain k where "k < length s" "j = Suc i + k" "s ! k = ch" by auto
    then show ?thesis by (intro exI [of _ "Suc k"]) auto
  qed
qed

lemma first_unescaped_Some:
  "first_unescaped s ch = Some i \<Longrightarrow> i < length s \<and> s ! i = ch"
  using first_unescaped_from_Some [of None 0 s ch i] by (auto simp: first_unescaped_def)

lemma first_unescaped_from_no:
  "ch \<notin> set s \<Longrightarrow> first_unescaped_from prev i s ch = None"
  by (induction prev i s ch rule: first_unescaped_from.induct) auto

lemma first_unescaped_no: "ch \<notin> set s \<Longrightarrow> first_unescaped s ch = None"
  by (simp add: first_unescaped_def first_unescaped_from_no)

section \<open>Properties\<close>

text \<open>
  An escaped name has no unescaped bracket, escaping it again changes nothing, and unescaping it
  gives what unescaping the name gives.
\<close>

theorem escape_brackets_literal:
  "first_unescaped (escape_brackets s) CHR ''['' = None
   \<and> first_unescaped (escape_brackets s) CHR '']'' = None
   \<and> escape_brackets (escape_brackets s) = escape_brackets s
   \<and> unescape_brackets (escape_brackets s) = unescape_brackets s"
  by (simp add: first_unescaped_escape escape_brackets_idem unescape_escape is_bracket_def)

end
