(* ===== verification/Event.thy ===== *)
theory Event
  imports Env FieldPath
begin

text \<open>
  Events (\<open>rsigma-eval/src/event/\<close>): the value type, the \<open>Event\<close> trait as a record of its methods,
  and its implementations: JSON with dotted paths and array indices, flat key-value lists, raw
  lines, hash maps and the field-name remapping view.
\<close>

section \<open>JSON and event values\<close>

text \<open>
  \<open>serde_json::Value\<close>.  A number is an integer (in the \<open>u64\<close> or \<open>i64\<close> range) or a finite float; an
  object is the list of its entries in iteration order, keys distinct (\<open>json_wf\<close>).
\<close>

datatype json_number = JInt int | JFloat f64

datatype json_value =
  JNull
| JBool bool
| JNumber json_number
| JString string
| JArray "json_value list"
| JObject "(string \<times> json_value) list"

datatype event_value =
  EvStr string
| EvInt int
| EvFloat f64
| EvBool bool
| EvNull
| EvArray "event_value list"
| EvMap "(string \<times> event_value) list"

definition json_number_as_i64 :: "json_number \<Rightarrow> int option" where
  "json_number_as_i64 n = (case n of JInt i \<Rightarrow> if in_i64 i then Some i else None | JFloat _ \<Rightarrow> None)"

definition json_number_as_f64 :: "json_number \<Rightarrow> f64" where
  "json_number_as_f64 n = (case n of JInt i \<Rightarrow> f64_of_int i | JFloat f \<Rightarrow> f)"

definition json_number_text :: "ext_env \<Rightarrow> json_number \<Rightarrow> string" where
  "json_number_text env n = (case n of JInt i \<Rightarrow> show_int i | JFloat f \<Rightarrow> json_f64_display env f)"

text \<open>\<open>impl From<&Value> for EventValue\<close>.\<close>

primrec event_value_of_json :: "json_value \<Rightarrow> event_value" where
  "event_value_of_json (JString s) = EvStr s"
| "event_value_of_json (JNumber n) =
     (case json_number_as_i64 n of Some i \<Rightarrow> EvInt i | None \<Rightarrow> EvFloat (json_number_as_f64 n))"
| "event_value_of_json (JBool b) = EvBool b"
| "event_value_of_json JNull = EvNull"
| "event_value_of_json (JArray arr) = EvArray (map event_value_of_json arr)"
| "event_value_of_json (JObject m) = EvMap (map (map_prod id event_value_of_json) m)"

text \<open>\<open>collect\<close> into an insertion-ordered map.\<close>

definition map_collect :: "(string \<times> 'v) list \<Rightarrow> (string \<times> 'v) list" where
  "map_collect kvs = fold (\<lambda>(k, v) m. map_insert k v m) kvs []"

primrec event_value_to_json :: "event_value \<Rightarrow> json_value" where
  "event_value_to_json (EvStr s) = JString s"
| "event_value_to_json (EvInt i) = JNumber (JInt i)"
| "event_value_to_json (EvFloat f) = (if f64_is_finite f then JNumber (JFloat f) else JNull)"
| "event_value_to_json (EvBool b) = JBool b"
| "event_value_to_json EvNull = JNull"
| "event_value_to_json (EvArray arr) = JArray (map event_value_to_json arr)"
| "event_value_to_json (EvMap m) = JObject (map_collect (map (map_prod id event_value_to_json) m))"

text \<open>The scalar coercions.\<close>

definition show_bool :: "bool \<Rightarrow> string" where
  "show_bool b = (if b then ''true'' else ''false'')"

fun ev_as_str :: "ext_env \<Rightarrow> event_value \<Rightarrow> string option" where
  "ev_as_str env (EvStr s) = Some s"
| "ev_as_str env (EvInt n) = Some (show_int n)"
| "ev_as_str env (EvFloat f) = Some (f64_display env f)"
| "ev_as_str env (EvBool b) = Some (show_bool b)"
| "ev_as_str env _ = None"

fun ev_as_f64 :: "ext_env \<Rightarrow> event_value \<Rightarrow> f64 option" where
  "ev_as_f64 env (EvFloat f) = Some f"
| "ev_as_f64 env (EvInt n) = Some (f64_of_int n)"
| "ev_as_f64 env (EvStr s) = f64_from_str env s"
| "ev_as_f64 env _ = None"

fun ev_as_i64 :: "event_value \<Rightarrow> int option" where
  "ev_as_i64 (EvInt n) = Some n"
| "ev_as_i64 (EvFloat f) =
     (let truncated = f64_as_i64 f
      in if f64_lt (f64_abs (f64_sub (f64_of_int truncated) f)) f64_epsilon then Some truncated
         else None)"
| "ev_as_i64 (EvStr s) = parse_i64 s"
| "ev_as_i64 _ = None"

definition bool_of_text :: "ext_env \<Rightarrow> string \<Rightarrow> bool option" where
  "bool_of_text env s =
     (let l = to_lowercase env s
      in if l = ''true'' \<or> l = ''1'' \<or> l = ''yes'' then Some True
         else if l = ''false'' \<or> l = ''0'' \<or> l = ''no'' then Some False
         else None)"

fun ev_as_bool :: "ext_env \<Rightarrow> event_value \<Rightarrow> bool option" where
  "ev_as_bool env (EvBool b) = Some b"
| "ev_as_bool env (EvStr s) = bool_of_text env s"
| "ev_as_bool env _ = None"

fun ev_is_null :: "event_value \<Rightarrow> bool" where
  "ev_is_null EvNull = True"
| "ev_is_null _ = False"

text \<open>The derived \<open>PartialEq\<close>: floats compare by IEEE equality, everything else structurally.\<close>

fun ev_eq :: "event_value \<Rightarrow> event_value \<Rightarrow> bool" where
  "ev_eq (EvStr a) (EvStr b) = (a = b)"
| "ev_eq (EvInt a) (EvInt b) = (a = b)"
| "ev_eq (EvFloat a) (EvFloat b) = f64_eq a b"
| "ev_eq (EvBool a) (EvBool b) = (a = b)"
| "ev_eq EvNull EvNull = True"
| "ev_eq (EvArray []) (EvArray []) = True"
| "ev_eq (EvArray (a # as)) (EvArray (b # bs)) = (ev_eq a b \<and> ev_eq (EvArray as) (EvArray bs))"
| "ev_eq (EvMap []) (EvMap []) = True"
| "ev_eq (EvMap ((k, a) # as)) (EvMap ((l, b) # bs)) =
     (k = l \<and> ev_eq a b \<and> ev_eq (EvMap as) (EvMap bs))"
| "ev_eq _ _ = False"

section \<open>Field paths over JSON\<close>

datatype path_op = Key string | Index int

text \<open>
  \<open>resolve_array_index\<close>: a negative index counts from the end; \<open>None\<close> out of range.  On a 64-bit
  target \<open>usize::try_from\<close> of a non-negative \<open>i64\<close> or a \<open>u64\<close> succeeds.
\<close>

definition resolve_array_index :: "int \<Rightarrow> nat \<Rightarrow> nat option" where
  "resolve_array_index index len =
     (if 0 \<le> index then (if nat index < len then Some (nat index) else None)
      else (let a = nat (- index) in if a \<le> len then Some (len - a) else None))"

text \<open>\<open>parse_index_groups\<close>: \<open>[N]\<close> or \<open>[N][M]...\<close>; any malformed group makes it \<open>None\<close>.\<close>

function parse_index_groups :: "string \<Rightarrow> int list option" where
  "parse_index_groups rem =
     (if rem = [] then Some []
      else case strip_prefix rem ''['' of
        None \<Rightarrow> None
      | Some rest \<Rightarrow>
          (case find_char rbracket rest of
             None \<Rightarrow> None
           | Some close \<Rightarrow>
               (case parse_i64 (take close rest) of
                  None \<Rightarrow> None
                | Some idx \<Rightarrow> map_option ((#) idx) (parse_index_groups (drop (close + 1) rest)))))"
  by auto
termination
  by (relation "measure length") (auto simp: strip_prefix_def split: if_splits)

declare parse_index_groups.simps [simp del]

definition parse_path_part :: "string \<Rightarrow> path_op list" where
  "parse_path_part part =
     (case first_unescaped part lbracket of
        Some bpos \<Rightarrow>
          (case parse_index_groups (drop bpos part) of
             Some idxs \<Rightarrow>
               (let name = take bpos part
                in (if name \<noteq> [] then [Key (unescape_brackets name)] else []) @ map Index idxs)
           | None \<Rightarrow> [Key (unescape_brackets part)])
      | None \<Rightarrow> [Key (unescape_brackets part)])"

definition parse_path_ops :: "string \<Rightarrow> path_op list" where
  "parse_path_ops path = concat (map parse_path_part (split_char (CHR ''.'') path))"

text \<open>\<open>path_root_key\<close>: the first object key of a path.\<close>

definition path_root_key :: "string \<Rightarrow> string option" where
  "path_root_key path =
     (case first_unescaped path (CHR ''.'') of
        Some 0 \<Rightarrow> None
      | dot \<Rightarrow>
          (let segment = (case dot of Some pos \<Rightarrow> take pos path | None \<Rightarrow> path) in
           if segment = [] then None
           else (case first_unescaped segment lbracket of
                   Some 0 \<Rightarrow> None
                 | bracket \<Rightarrow>
                     (let name = (case bracket of Some pos \<Rightarrow> take pos segment | None \<Rightarrow> segment)
                      in if name = [] then None else Some (unescape_brackets name)))))"

text \<open>\<open>collect_by_ops\<close>: a key distributes over arrays, an index selects one element.\<close>

lemma size_json_obj: "map_of m k = Some v \<Longrightarrow> size v < size (JObject m)"
  by (induction m) (auto split: if_splits)

lemma size_json_arr: "v \<in> set arr \<Longrightarrow> size v < size (JArray arr)"
  by (induction arr) auto

function collect_by_ops :: "json_value \<Rightarrow> path_op list \<Rightarrow> event_value list" where
  "collect_by_ops current [] = [event_value_of_json current]"
| "collect_by_ops current (Key key # rest) =
     (case current of
        JObject m \<Rightarrow>
          (case map_of m key of Some next \<Rightarrow> collect_by_ops next rest | None \<Rightarrow> [])
      | JArray arr \<Rightarrow> concat (map (\<lambda>item. collect_by_ops item (Key key # rest)) arr)
      | _ \<Rightarrow> [])"
| "collect_by_ops current (Index i # rest) =
     (case current of
        JArray arr \<Rightarrow>
          (case resolve_array_index i (length arr) of
             Some idx \<Rightarrow>
               (if idx < length arr then collect_by_ops (arr ! idx) rest else [])
           | None \<Rightarrow> [])
      | _ \<Rightarrow> [])"
  by pat_completeness auto
termination
  by (relation "measure (\<lambda>(v, ops). size v)")
     (auto dest: size_json_obj size_json_arr [OF nth_mem] size_json_arr
           simp del: json_value.size)

definition path_is_compound :: "string \<Rightarrow> bool" where
  "path_is_compound path =
     (CHR ''.'' \<in> set path \<or> lbracket \<in> set path \<or> backslash \<in> set path)"

definition pack_collected :: "event_value list \<Rightarrow> event_value option" where
  "pack_collected collected =
     (case collected of [] \<Rightarrow> None | [v] \<Rightarrow> Some v | vs \<Rightarrow> Some (EvArray vs))"

definition walk_path :: "json_value \<Rightarrow> string \<Rightarrow> event_value option" where
  "walk_path v path = pack_collected (collect_by_ops v (parse_path_ops path))"

text \<open>\<open>JsonEvent::get_field\<close>.\<close>

definition json_get_field :: "json_value \<Rightarrow> string \<Rightarrow> event_value option" where
  "json_get_field v path =
     (case v of
        JObject obj \<Rightarrow>
          (case map_of obj path of
             Some x \<Rightarrow> Some (event_value_of_json x)
           | None \<Rightarrow>
               (if path_is_compound path then
                  (case path_root_key path of
                     Some top_key \<Rightarrow> if map_of obj top_key = None then None else walk_path v path
                   | None \<Rightarrow> walk_path v path)
                else None))
      | _ \<Rightarrow> if path_is_compound path then walk_path v path else None)"

section \<open>String values and field keys of JSON\<close>

definition max_nesting_depth :: nat where
  "max_nesting_depth = 64"

fun any_string_value_json :: "ext_env \<Rightarrow> json_value \<Rightarrow> (string \<Rightarrow> bool) \<Rightarrow> nat \<Rightarrow> bool" where
  "any_string_value_json env v pred 0 = False"
| "any_string_value_json env v pred (Suc depth) =
     (case v of
        JString s \<Rightarrow> pred s
      | JNumber n \<Rightarrow> pred (json_number_text env n)
      | JObject m \<Rightarrow> list_ex (\<lambda>x. any_string_value_json env x pred depth) (map snd m)
      | JArray arr \<Rightarrow> list_ex (\<lambda>x. any_string_value_json env x pred depth) arr
      | _ \<Rightarrow> False)"

fun collect_string_values_json :: "ext_env \<Rightarrow> json_value \<Rightarrow> nat \<Rightarrow> string list" where
  "collect_string_values_json env v 0 = []"
| "collect_string_values_json env v (Suc depth) =
     (case v of
        JString s \<Rightarrow> [s]
      | JNumber n \<Rightarrow> [json_number_text env n]
      | JObject m \<Rightarrow> concat (map (\<lambda>x. collect_string_values_json env x depth) (map snd m))
      | JArray arr \<Rightarrow> concat (map (\<lambda>x. collect_string_values_json env x depth) arr)
      | _ \<Rightarrow> [])"

text \<open>\<open>visit_string_values_json\<close>: the \<open>FnMut\<close> visitor is a function on its captured state.\<close>

fun visit_string_values_json ::
    "ext_env \<Rightarrow> json_value \<Rightarrow> (string \<Rightarrow> 's \<Rightarrow> 's) \<Rightarrow> nat \<Rightarrow> 's \<Rightarrow> 's" where
  "visit_string_values_json env v visit 0 st = st"
| "visit_string_values_json env v visit (Suc depth) st =
     (case v of
        JString s \<Rightarrow> visit s st
      | JNumber n \<Rightarrow> visit (json_number_text env n) st
      | JObject m \<Rightarrow>
          fold (\<lambda>x st. visit_string_values_json env x visit depth st) (map snd m) st
      | JArray arr \<Rightarrow> fold (\<lambda>x st. visit_string_values_json env x visit depth st) arr st
      | _ \<Rightarrow> st)"

fun is_json_object :: "json_value \<Rightarrow> bool" where
  "is_json_object (JObject _) = True"
| "is_json_object _ = False"

definition join_key :: "string \<Rightarrow> string \<Rightarrow> string" where
  "join_key pre k = (if pre = [] then k else pre @ ''.'' @ k)"

fun collect_field_keys :: "json_value \<Rightarrow> string \<Rightarrow> nat \<Rightarrow> string list" where
  "collect_field_keys v pre 0 = []"
| "collect_field_keys v pre (Suc depth) =
     (case v of
        JObject m \<Rightarrow>
          concat (map (\<lambda>(k, child).
            let path = join_key pre k
            in if is_json_object child then collect_field_keys child path depth else [path]) m)
      | _ \<Rightarrow> [])"

definition json_top_level_keys :: "json_value \<Rightarrow> string list option" where
  "json_top_level_keys v = (case v of JObject m \<Rightarrow> Some (map fst m) | _ \<Rightarrow> None)"

section \<open>The Event trait and its implementations\<close>

record event =
  ev_get_field :: "string \<Rightarrow> event_value option"
  ev_any_string_value :: "(string \<Rightarrow> bool) \<Rightarrow> bool"
  ev_all_string_values :: "string list"
  ev_to_json :: json_value
  ev_field_keys :: "string list"
  ev_top_level_keys :: "string list option"

definition json_event :: "ext_env \<Rightarrow> json_value \<Rightarrow> event" where
  "json_event env v = \<lparr>
     ev_get_field = json_get_field v,
     ev_any_string_value = (\<lambda>pred. any_string_value_json env v pred max_nesting_depth),
     ev_all_string_values = collect_string_values_json env v max_nesting_depth,
     ev_to_json = v,
     ev_field_keys = collect_field_keys v [] max_nesting_depth,
     ev_top_level_keys = json_top_level_keys v \<rparr>"

text \<open>\<open>KvEvent\<close>: \<open>find\<close> takes the first pair with the key; so does \<open>map_of\<close>.\<close>

definition kv_event :: "(string \<times> string) list \<Rightarrow> event" where
  "kv_event kvs = \<lparr>
     ev_get_field = (\<lambda>path. map_option (\<lambda>(_, v). EvStr v) (find (\<lambda>(k, _). k = path) kvs)),
     ev_any_string_value = (\<lambda>pred. list_ex (\<lambda>(_, v). pred v) kvs),
     ev_all_string_values = map (\<lambda>(_, v). v) kvs,
     ev_to_json = JObject (map_collect (map (\<lambda>(k, v). (k, JString v)) kvs)),
     ev_field_keys = map (\<lambda>(k, _). k) kvs,
     ev_top_level_keys = Some (map (\<lambda>(k, _). k) kvs) \<rparr>"

definition plain_event :: "string \<Rightarrow> event" where
  "plain_event raw = \<lparr>
     ev_get_field = (\<lambda>_. None),
     ev_any_string_value = (\<lambda>pred. pred raw),
     ev_all_string_values = [raw],
     ev_to_json = JObject [(''_raw'', JString raw)],
     ev_field_keys = [],
     ev_top_level_keys = Some [] \<rparr>"

text \<open>\<open>MapEvent\<close>: the hash map as its entries in iteration order.\<close>

definition map_event :: "(string \<times> string) list \<Rightarrow> event" where
  "map_event inner = \<lparr>
     ev_get_field = (\<lambda>path. map_option (\<lambda>(_, v). EvStr v) (find (\<lambda>(k, _). k = path) inner)),
     ev_any_string_value = (\<lambda>pred. list_ex pred (map snd inner)),
     ev_all_string_values = map snd inner,
     ev_to_json = JObject (map_collect (map (\<lambda>(k, v). (k, JString v)) inner)),
     ev_field_keys = map fst inner,
     ev_top_level_keys = Some (map fst inner) \<rparr>"

text \<open>\<open>MappedEvent\<close>: only field lookup is remapped, the first target present wins.\<close>

definition mapped_get_field ::
    "(string \<Rightarrow> event_value option) \<Rightarrow> (string \<times> string list) list \<Rightarrow> string \<Rightarrow> event_value option" where
  "mapped_get_field get mapping path =
     (case map_of mapping path of
        Some targets \<Rightarrow>
          (case find_map get targets of Some v \<Rightarrow> Some v | None \<Rightarrow> get path)
      | None \<Rightarrow> get path)"

definition mapped_event :: "event \<Rightarrow> (string \<times> string list) list \<Rightarrow> event" where
  "mapped_event inner mapping =
     inner \<lparr> ev_get_field := mapped_get_field (ev_get_field inner) mapping \<rparr>"

section \<open>The keyword-search contract of events\<close>

text \<open>
  Keyword detection relies on one law of the trait: \<open>any_string_value\<close> is true exactly when some
  string of \<open>all_string_values\<close> satisfies the predicate.
\<close>

locale event_iface =
  fixes any_str :: "'e \<Rightarrow> (string \<Rightarrow> bool) \<Rightarrow> bool"
    and all_strs :: "'e \<Rightarrow> string list"
  assumes any_iff: "any_str e p \<longleftrightarrow> list_ex p (all_strs e)"
begin

lemma any_mono: "(\<And>s. p s \<Longrightarrow> q s) \<Longrightarrow> any_str e p \<Longrightarrow> any_str e q"
  by (auto simp: any_iff list_ex_iff)

lemma any_or: "any_str e (\<lambda>s. p s \<or> q s) \<longleftrightarrow> any_str e p \<or> any_str e q"
  by (simp add: any_iff list_ex_or)

lemma any_list_ex: "any_str e (\<lambda>s. list_ex (\<lambda>x. p x s) xs) \<longleftrightarrow> list_ex (\<lambda>x. any_str e (p x)) xs"
  by (simp add: any_iff list_ex_swap [where ys = xs])

lemma any_cong: "(\<And>s. s \<in> set (all_strs e) \<Longrightarrow> p s = q s) \<Longrightarrow> any_str e p = any_str e q"
  by (auto simp: any_iff list_ex_iff)

end

lemma any_string_value_json_iff:
  "any_string_value_json env v pred depth = list_ex pred (collect_string_values_json env v depth)"
  by (induction depth arbitrary: v)
     (auto simp: list_ex_concat comp_def split: json_value.splits)

lemma visit_string_values_json_fold:
  "visit_string_values_json env v visit depth st = fold visit (collect_string_values_json env v depth) st"
proof (induction depth arbitrary: v st)
  case 0
  show ?case by simp
next
  case (Suc depth)
  have "fold (\<lambda>x st. visit_string_values_json env x visit depth st) xs st
      = fold visit (concat (map (\<lambda>x. collect_string_values_json env x depth) xs)) st" for xs st
    by (induction xs arbitrary: st) (simp_all add: Suc.IH)
  then show ?case by (simp split: json_value.splits)
qed

definition event_wf :: "event \<Rightarrow> bool" where
  "event_wf e = (\<forall>p. ev_any_string_value e p = list_ex p (ev_all_string_values e))"

interpretation json_iface: event_iface
    "\<lambda>v p. ev_any_string_value (json_event env v) p" "\<lambda>v. ev_all_string_values (json_event env v)"
  for env
  by unfold_locales (simp add: json_event_def any_string_value_json_iff)

interpretation kv_iface: event_iface
    "\<lambda>kvs. ev_any_string_value (kv_event kvs)" "\<lambda>kvs. ev_all_string_values (kv_event kvs)"
  by unfold_locales (simp add: kv_event_def comp_def case_prod_unfold)

interpretation plain_iface: event_iface
    "\<lambda>raw. ev_any_string_value (plain_event raw)" "\<lambda>raw. ev_all_string_values (plain_event raw)"
  by unfold_locales (simp add: plain_event_def)

interpretation map_iface: event_iface
    "\<lambda>inner. ev_any_string_value (map_event inner)" "\<lambda>inner. ev_all_string_values (map_event inner)"
  by unfold_locales (simp add: map_event_def)

lemma event_wf_json: "event_wf (json_event env v)"
  by (simp add: event_wf_def json_iface.any_iff)

lemma event_wf_kv: "event_wf (kv_event kvs)"
  by (simp add: event_wf_def kv_iface.any_iff)

lemma event_wf_plain: "event_wf (plain_event raw)"
  by (simp add: event_wf_def plain_iface.any_iff)

lemma event_wf_map: "event_wf (map_event inner)"
  by (simp add: event_wf_def map_iface.any_iff)

lemma event_wf_mapped: "event_wf e \<Longrightarrow> event_wf (mapped_event e mapping)"
  by (simp add: event_wf_def mapped_event_def)

lemma mapped_event_empty: "mapped_event e [] = e"
proof -
  have "mapped_get_field get [] = get" for get
    by (simp add: mapped_get_field_def fun_eq_iff)
  then show ?thesis by (simp add: mapped_event_def)
qed

section \<open>Path lemmas\<close>

lemma resolve_array_index_bound: "resolve_array_index i n = Some k \<Longrightarrow> k < n \<or> (i < 0 \<and> k = n)"
  by (auto simp: resolve_array_index_def Let_def split: if_splits)

lemma resolve_array_index_Some:
  "resolve_array_index i n = Some k \<longleftrightarrow>
     (0 \<le> i \<and> i < int n \<and> k = nat i) \<or> (i < 0 \<and> - i \<le> int n \<and> int k = int n + i)"
  by (auto simp: resolve_array_index_def Let_def split: if_splits)

lemma resolve_array_index_lt: "resolve_array_index i n = Some k \<Longrightarrow> k < n"
  by (auto simp: resolve_array_index_Some)

text \<open>An index step reads Python-style: \<open>i\<close> from the front, \<open>-i\<close> from the end.\<close>

lemma collect_by_ops_index:
  "collect_by_ops (JArray arr) (Index i # rest) =
     (if 0 \<le> i \<and> i < int (length arr) then collect_by_ops (arr ! nat i) rest
      else if i < 0 \<and> - i \<le> int (length arr)
      then collect_by_ops (arr ! nat (int (length arr) + i)) rest
      else [])"
proof (cases "resolve_array_index i (length arr)")
  case None
  then show ?thesis by (auto simp: resolve_array_index_def Let_def split: if_splits)
next
  case (Some k)
  then have k: "k < length arr" by (rule resolve_array_index_lt)
  from Some consider "0 \<le> i \<and> i < int (length arr) \<and> k = nat i"
    | "i < 0 \<and> - i \<le> int (length arr) \<and> k = nat (int (length arr) + i)"
    by (auto simp: resolve_array_index_Some)
  then show ?thesis using Some k by cases simp_all
qed

section \<open>The root-key shortcut\<close>

text \<open>Field lookup without the shortcut: the flat key, then the walk.\<close>

definition json_get_field_walk :: "json_value \<Rightarrow> string \<Rightarrow> event_value option" where
  "json_get_field_walk v path =
     (case v of
        JObject obj \<Rightarrow>
          (case map_of obj path of
             Some x \<Rightarrow> Some (event_value_of_json x)
           | None \<Rightarrow> if path_is_compound path then walk_path v path else None)
      | _ \<Rightarrow> if path_is_compound path then walk_path v path else None)"

text \<open>
  The paths on which the shortcut agrees with the walk: no backslash, and the bracket group of the
  first segment, if any, is a list of indices.
\<close>

definition shortcut_path :: "string \<Rightarrow> bool" where
  "shortcut_path path =
     (backslash \<notin> set path \<and>
      (let part = hd (split_char (CHR ''.'') path)
       in case find_char lbracket part of
            None \<Rightarrow> True
          | Some i \<Rightarrow> parse_index_groups (drop i part) \<noteq> None))"

lemma first_unescaped_from_find:
  "backslash \<notin> set s \<Longrightarrow> is_unescaped prev \<Longrightarrow>
   first_unescaped_from prev i s c = map_option (\<lambda>k. i + k) (find_char c s)"
proof (induction s arbitrary: prev i)
  case Nil
  show ?case by simp
next
  case (Cons x xs)
  then have "is_unescaped (Some x)" by (auto simp: is_unescaped_def)
  with Cons show ?case by (cases "find_char c xs") auto
qed

lemma first_unescaped_find: "backslash \<notin> set s \<Longrightarrow> first_unescaped s c = find_char c s"
  by (simp add: first_unescaped_def first_unescaped_from_find is_unescaped_def option.map_ident)

lemma hd_split_char: "hd (split_char c s) = takeWhile (\<lambda>x. x \<noteq> c) s"
  by (induction s) (auto split: list.splits)

lemma take_find_char: "find_char c s = Some i \<Longrightarrow> take i s = takeWhile (\<lambda>x. x \<noteq> c) s"
proof (induction s arbitrary: i)
  case Nil
  then show ?case by simp
next
  case (Cons x xs)
  then show ?case by (auto split: if_splits)
qed

lemma takeWhile_no: "c \<notin> set s \<Longrightarrow> takeWhile (\<lambda>x. x \<noteq> c) s = s"
  by (induction s) auto

lemma unescape_brackets_id: "backslash \<notin> set s \<Longrightarrow> unescape_brackets s = s"
  by (simp add: unescape_brackets_def)

lemma path_root_key_ops:
  assumes ok: "shortcut_path path" and top: "path_root_key path = Some k"
  shows "\<exists>ops. parse_path_ops path = Key k # ops"
proof -
  have nb: "backslash \<notin> set path" using ok by (simp add: shortcut_path_def)
  let ?part = "hd (split_char (CHR ''.'') path)"
  have part_sub: "set ?part \<subseteq> set path" by (auto simp: hd_split_char dest: set_takeWhileD)
  with nb have nbp: "backslash \<notin> set ?part" by blast
  have seg: "(case find_char (CHR ''.'') path of Some pos \<Rightarrow> take pos path | None \<Rightarrow> path) = ?part"
    by (auto simp: hd_split_char take_find_char find_char_None takeWhile_no
        split: option.splits)
  have key: "find_char lbracket ?part \<noteq> Some 0 \<and>
      k = (case find_char lbracket ?part of Some pos \<Rightarrow> take pos ?part | None \<Rightarrow> ?part) \<and> k \<noteq> []"
  proof -
    have "find_char (CHR ''.'') path \<noteq> Some 0"
      using top nb by (auto simp: path_root_key_def first_unescaped_find)
    then have "(if ?part = [] then None
        else (case find_char lbracket ?part of
                Some 0 \<Rightarrow> None
              | bracket \<Rightarrow>
                  (let name = (case bracket of Some pos \<Rightarrow> take pos ?part | None \<Rightarrow> ?part)
                   in if name = [] then None else Some (unescape_brackets name)))) = Some k"
      using top nb seg nbp
      by (auto simp: path_root_key_def first_unescaped_find Let_def split: option.splits nat.splits)
    then show ?thesis
      using nbp
      by (auto simp: Let_def unescape_brackets_def split: option.splits nat.splits if_splits
          dest: in_set_takeD)
  qed
  have "\<exists>ops. parse_path_part ?part = Key k # ops"
  proof (cases "find_char lbracket ?part")
    case None
    with key nbp show ?thesis
      by (simp add: parse_path_part_def first_unescaped_find unescape_brackets_id)
  next
    case (Some i)
    then have "parse_index_groups (drop i ?part) \<noteq> None"
      using ok by (simp add: shortcut_path_def Let_def)
    moreover have "unescape_brackets (take i ?part) = take i ?part"
      using nbp by (auto simp: unescape_brackets_def dest: in_set_takeD)
    ultimately show ?thesis
      using key nbp Some by (auto simp: parse_path_part_def first_unescaped_find Let_def)
  qed
  moreover obtain ps where "split_char (CHR ''.'') path = ?part # ps"
    by (metis list.exhaust_sel split_char_nonempty)
  then have "parse_path_ops path
      = parse_path_part ?part @ concat (map parse_path_part ps)"
    unfolding parse_path_ops_def by (metis concat.simps(2) list.simps(9))
  ultimately show ?thesis by auto
qed

lemma json_get_field_shortcut:
  assumes "shortcut_path path"
  shows "json_get_field v path = json_get_field_walk v path"
proof (cases v)
  case (JObject obj)
  have "walk_path v path = None" if "path_root_key path = Some k" "map_of obj k = None" for k
    using path_root_key_ops [OF assms that(1)] that(2) JObject
    by (auto simp: walk_path_def pack_collected_def)
  with JObject show ?thesis
    by (auto simp: json_get_field_def json_get_field_walk_def split: option.splits)
qed (simp_all add: json_get_field_def json_get_field_walk_def)

text \<open>A field name whose brackets were escaped names the literal key.\<close>

lemma set_escape_loop: "set (escape_loop prev s) \<subseteq> insert backslash (set s)"
  by (induction prev s rule: escape_loop.induct) auto

lemma escape_brackets_no_dot:
  "CHR ''.'' \<notin> set s \<Longrightarrow> CHR ''.'' \<notin> set (escape_brackets s)"
  using set_escape_loop [of None s] by (auto simp: escape_brackets_loop)

lemma parse_escaped_name:
  assumes "CHR ''.'' \<notin> set name"
  shows "parse_path_ops (escape_brackets name) = [Key (unescape_brackets name)]"
proof -
  have "first_unescaped (escape_brackets name) lbracket = None"
    by (rule first_unescaped_escape) (simp add: is_bracket_def)
  then show ?thesis
    using escape_brackets_no_dot [OF assms]
    by (simp add: parse_path_ops_def split_char_no parse_path_part_def unescape_escape)
qed

lemma escape_loop_Nil_iff [simp]: "escape_loop prev s = [] \<longleftrightarrow> s = []"
  by (cases s) auto

lemma escape_loop_compound:
  "any_unescaped_bracket prev s \<Longrightarrow> path_is_compound (escape_loop prev s)"
  by (induction prev s rule: escape_loop.induct) (auto simp: path_is_compound_def is_bracket_def)

lemma json_get_field_escaped:
  assumes "CHR ''.'' \<notin> set name" "backslash \<notin> set name" "any_unescaped_bracket None name"
    and "map_of obj (escape_brackets name) = None"
  shows "json_get_field (JObject obj) (escape_brackets name)
    = map_option event_value_of_json (map_of obj name)"
proof -
  let ?e = "escape_brackets name"
  have "name \<noteq> []" using assms(3) by auto
  then have ne: "?e \<noteq> []" by (simp add: escape_brackets_loop)
  have u: "unescape_brackets ?e = name"
    using unescape_escape [of name] unescape_brackets_id [OF assms(2)] by simp
  have "first_unescaped ?e (CHR ''.'') = None"
    by (rule first_unescaped_no) (rule escape_brackets_no_dot [OF assms(1)])
  moreover have "first_unescaped ?e lbracket = None"
    by (rule first_unescaped_escape) (simp add: is_bracket_def)
  ultimately have root: "path_root_key ?e = Some name"
    using ne u by (simp add: path_root_key_def)
  have "parse_path_ops ?e = [Key name]"
    using parse_escaped_name [OF assms(1)] assms(2) by (simp add: unescape_brackets_def)
  moreover have "path_is_compound ?e"
    using assms(3) by (simp add: escape_brackets_loop escape_loop_compound)
  ultimately show ?thesis
    using assms(4) root
    by (auto simp: json_get_field_def walk_path_def pack_collected_def split: option.splits)
qed

section \<open>Properties\<close>

text \<open>
  The shortcut of JsonEvent::get_field (an absent root key ends the lookup) never changes the
  result, for the paths shortcut_path describes.
\<close>

theorem path_shortcut_exact:
  assumes "shortcut_path path"
  shows "json_get_field v path = json_get_field_walk v path"
  by (rule json_get_field_shortcut [OF assms])

theorem path_shortcut_exact_witness:
  "json_get_field (JObject [(''a'', JArray [JObject [(''b'', JString ''v'')]])]) ''a[0].b''
   = json_get_field_walk (JObject [(''a'', JArray [JObject [(''b'', JString ''v'')]])]) ''a[0].b''"
  by (rule path_shortcut_exact) code_simp

text \<open>
  For a path whose first segment has a non-numeric bracket group the shortcut loses the value
  that the walk finds.
\<close>

theorem path_shortcut_loses:
  "let v = JObject [(''a[x]'', JObject [(''b'', JString ''v'')])]
   in json_get_field v ''a[x].b'' = None \<and> json_get_field_walk v ''a[x].b'' = Some (EvStr ''v'')"
  by code_simp

text \<open>
  A field name with brackets is found through its escaped form.
\<close>

theorem escaped_name_found:
  assumes "CHR ''.'' \<notin> set name" and "backslash \<notin> set name" and "any_unescaped_bracket None name"
    and "map_of obj (escape_brackets name) = None"
  shows "json_get_field (JObject obj) (escape_brackets name)
    = map_option event_value_of_json (map_of obj name)"
  by (rule json_get_field_escaped [OF assms])

theorem escaped_name_found_witness:
  "json_get_field (JObject [(''a[0]'', JString ''v'')]) (escape_brackets ''a[0]'')
   = map_option event_value_of_json (map_of [(''a[0]'', JString ''v'')] ''a[0]'')"
  by (rule escaped_name_found; code_simp)

end
