(* ===== verification/Hir.thy ===== *)
theory Hir
  imports Ast Event
begin

text \<open>
  The intermediate representation of rules (\<open>rsigma-ir/src/hir.rs\<close>): modifier-resolved matchers,
  detections with array scopes, and conditions that keep their selectors.
\<close>

section \<open>Numbers\<close>

datatype numeric_literal = NlInteger int | NlFloat f64

definition numeric_literal_parse :: "ext_env \<Rightarrow> string \<Rightarrow> numeric_literal option" where
  "numeric_literal_parse env s =
     (case parse_i64 s of
        Some i \<Rightarrow> Some (NlInteger i)
      | None \<Rightarrow> map_option NlFloat (f64_from_str env s))"

fun numeric_literal_as_f64 :: "numeric_literal \<Rightarrow> f64" where
  "numeric_literal_as_f64 (NlInteger n) = f64_of_int n"
| "numeric_literal_as_f64 (NlFloat f) = f"

text \<open>\<open>v.fract() == 0.0\<close> and within the range of \<open>i64\<close> as floats.\<close>

fun f64_is_whole_i64 :: "f64 \<Rightarrow> bool" where
  "f64_is_whole_i64 (Fin r) =
     (of_int \<lfloor>r\<rfloor> = r \<and> f64_le (f64_of_int i64_min) (Fin r) \<and> f64_le (Fin r) (f64_of_int i64_max))"
| "f64_is_whole_i64 NegZero = True"
| "f64_is_whole_i64 _ = False"

fun show_numeric_literal :: "ext_env \<Rightarrow> numeric_literal \<Rightarrow> string" where
  "show_numeric_literal env (NlInteger n) = show_int n"
| "show_numeric_literal env (NlFloat v) =
     (if f64_is_whole_i64 v then show_int (f64_as_i64 v) else f64_display env v)"

datatype ir_extract_expr = Jq string | JsonPath string | Cel string

datatype ir_number =
  NumLiteral numeric_literal
| NumDynamicSourceRef string "ir_extract_expr option"

section \<open>Matchers\<close>

datatype ir_str_op = OpExact | OpContains | OpStartsWith | OpEndsWith

datatype ir_pattern_part = IpLiteral string | IpWildcardMulti | IpWildcardSingle

record ir_pattern =
  ip_parts :: "ir_pattern_part list"

fun is_ip_literal :: "ir_pattern_part \<Rightarrow> bool" where
  "is_ip_literal (IpLiteral _) = True"
| "is_ip_literal _ = False"

fun ip_literal_text :: "ir_pattern_part \<Rightarrow> string" where
  "ip_literal_text (IpLiteral t) = t"
| "ip_literal_text _ = []"

definition ir_pattern_is_plain :: "ir_pattern \<Rightarrow> bool" where
  "ir_pattern_is_plain p = list_all is_ip_literal (ip_parts p)"

definition ir_pattern_has_wildcards :: "ir_pattern \<Rightarrow> bool" where
  "ir_pattern_has_wildcards p = (\<not> ir_pattern_is_plain p)"

definition ir_pattern_as_plain :: "ir_pattern \<Rightarrow> string option" where
  "ir_pattern_as_plain p =
     (if \<not> ir_pattern_is_plain p then None
      else Some (fold (\<lambda>part s. s @ ip_literal_text part) (ip_parts p) []))"

datatype ir_encoding = EncWide | EncUtf16 | EncUtf16Be | EncBase64 | EncBase64Offset | EncWindash

datatype ir_expand_part = ExLiteral string | ExPlaceholder string

datatype time_part = TpMinute | TpHour | TpDay | TpWeek | TpMonth | TpYear

datatype ir_matcher =
  ImStr ir_str_op ir_pattern bool
| ImEncoded "ir_encoding list" ir_str_op ir_pattern bool
| ImRegex string bool bool bool bool
    \<comment> \<open>pattern, \<open>case_insensitive\<close>, \<open>multiline\<close>, \<open>dotall\<close>, \<open>cased\<close>\<close>
| ImCidr string
| ImNumericEq ir_number
| ImNumericGt ir_number
| ImNumericGte ir_number
| ImNumericLt ir_number
| ImNumericLte ir_number
| ImExists bool
| ImFieldRef string ir_str_op bool
| ImNull
| ImBoolEq bool
| ImExpand "ir_expand_part list" ir_str_op bool
| ImTimestampPart time_part ir_matcher
| ImNot ir_matcher
| ImAnyOf "ir_matcher list"
| ImAllOf "ir_matcher list"

section \<open>Detections, conditions, rules\<close>

datatype ir_condition =
  IcDetection string
| IcAnd "ir_condition list"
| IcOr "ir_condition list"
| IcNot ir_condition
| IcSelector quantifier selector_pattern

record ir_detection_item =
  idi_field :: "string option"
  idi_matcher :: ir_matcher
  idi_exists :: "bool option"

datatype ir_detection =
  IdAllOf "ir_detection_item list"
| IdAnyOf "ir_detection list"
| IdKeywords ir_matcher
| IdArrayMatch string array_quantifier ir_detection
| IdAnd "ir_detection list"
| IdConditional "(string \<times> ir_detection) list" ir_condition

record ir_rule_metadata =
  im_title :: string
  im_id :: "string option"
  im_name :: "string option"
  im_level :: "level option"
  im_tags :: "string list"
  im_status :: "status option"
  im_description :: "string option"
  im_author :: "string option"
  im_date :: "string option"
  im_modified :: "string option"
  im_references :: "string list"
  im_falsepositives :: "string list"
  im_fields :: "string list"
  im_related :: "related_rule list"
  im_license :: "string option"
  im_taxonomy :: "string option"
  im_scope :: "string list"
  im_custom_attributes :: "(string \<times> json_value) list"
  im_schema_affinity :: "string list option"

record ir_rule =
  ir_metadata :: ir_rule_metadata
  ir_logsource :: log_source
  ir_sigma_version :: "nat option"
  ir_detections :: "(string \<times> ir_detection) list"
  ir_conditions :: "ir_condition list"

section \<open>Lemmas\<close>

lemma fold_append_map: "fold (\<lambda>x s. s @ f x) xs acc = acc @ concat (map f xs)"
  by (induction xs arbitrary: acc) simp_all

lemma ir_pattern_as_plain_Some:
  "ir_pattern_as_plain p = Some s \<longleftrightarrow>
     (\<exists>ts. ip_parts p = map IpLiteral ts \<and> s = concat ts)"
proof -
  have ex: "list_all is_ip_literal ps \<longleftrightarrow> (\<exists>ts. ps = map IpLiteral ts)" for ps
  proof (induction ps)
    case Nil
    then show ?case by simp
  next
    case (Cons q qs)
    then show ?case by (cases q) (auto simp: Cons_eq_map_conv)
  qed
  have "concat (map ip_literal_text (map IpLiteral ts)) = concat ts" for ts
    by (induction ts) simp_all
  moreover have "map IpLiteral xs = map IpLiteral ys \<longleftrightarrow> xs = ys" for xs ys
    by (simp add: inj_map_eq_map inj_def)
  ultimately show ?thesis
    by (auto simp: ir_pattern_as_plain_def ir_pattern_is_plain_def ex fold_append_map)
qed

end
