(* ===== verification/CorrTypes.thy ===== *)
theory CorrTypes
  imports Hir
begin

text \<open>
  Compiled correlations, group keys and the configuration of the correlation engine
  (\<open>rsigma-eval/src/correlation/types.rs\<close>, \<open>keys.rs\<close>, \<open>correlation_engine/types.rs\<close>) and the
  compilation of correlation rules (\<open>correlation/compiler.rs\<close>).
\<close>

section \<open>Actions, modes, configuration\<close>

datatype correlation_action = CaAlert | CaReset

definition correlation_action_from_str :: "string \<Rightarrow> correlation_action option" where
  "correlation_action_from_str s =
     (if s = ''alert'' then Some CaAlert else if s = ''reset'' then Some CaReset else None)"

datatype correlation_event_mode = CemNone | CemFull | CemRefs

definition correlation_event_mode_from_str :: "ext_env \<Rightarrow> string \<Rightarrow> correlation_event_mode option" where
  "correlation_event_mode_from_str env s =
     (let l = to_lowercase env s in
      if l = ''none'' \<or> l = ''off'' \<or> l = ''false'' then Some CemNone
      else if l = ''full'' \<or> l = ''true'' then Some CemFull
      else if l = ''refs'' \<or> l = ''references'' then Some CemRefs
      else None)"

fun show_correlation_event_mode :: "correlation_event_mode \<Rightarrow> string" where
  "show_correlation_event_mode CemNone = ''none''"
| "show_correlation_event_mode CemFull = ''full''"
| "show_correlation_event_mode CemRefs = ''refs''"

datatype timestamp_fallback = TfWallClock | TfSkip

record correlation_config =
  cfg_timestamp_fields :: "string list"
  cfg_timestamp_fallback :: timestamp_fallback
  cfg_max_state_entries :: nat
  cfg_max_group_entries :: "nat option"
  cfg_suppress :: "nat option"
  cfg_action_on_match :: correlation_action
  cfg_emit_detections :: bool
  cfg_correlation_event_mode :: correlation_event_mode
  cfg_max_correlation_events :: nat

definition default_correlation_config :: correlation_config where
  "default_correlation_config = \<lparr>
     cfg_timestamp_fields =
       [''@timestamp'', ''timestamp'', ''EventTime'', ''TimeCreated'', ''eventTime''],
     cfg_timestamp_fallback = TfWallClock,
     cfg_max_state_entries = 100000,
     cfg_max_group_entries = None,
     cfg_suppress = None,
     cfg_action_on_match = CaAlert,
     cfg_emit_detections = False,
     cfg_correlation_event_mode = CemNone,
     cfg_max_correlation_events = 10 \<rparr>"

section \<open>Group-by fields and group keys\<close>

datatype group_by_field =
  GbDirect string
| GbAliased string "(string \<times> string) list"

fun gb_name :: "group_by_field \<Rightarrow> string" where
  "gb_name (GbDirect s) = s"
| "gb_name (GbAliased alias mapping) = alias"

fun gb_resolve :: "group_by_field \<Rightarrow> string list \<Rightarrow> string" where
  "gb_resolve (GbDirect s) rule_refs = s"
| "gb_resolve (GbAliased alias mapping) rule_refs =
     (case find_map (map_of mapping) rule_refs of Some field \<Rightarrow> field | None \<Rightarrow> alias)"

text \<open>\<open>GroupKey(Vec<Option<String>>)\<close>; the constructors below only store \<open>Some\<close>.\<close>

type_synonym group_key = "string option list"

definition group_key_extract ::
    "ext_env \<Rightarrow> event \<Rightarrow> group_by_field list \<Rightarrow> string list \<Rightarrow> group_key option" where
  "group_key_extract env ev group_by rule_refs =
     collect_options
       (\<lambda>field. case ev_get_field ev (gb_resolve field rule_refs) of
                  None \<Rightarrow> None
                | Some v \<Rightarrow> map_option Some (ev_as_str env v)) group_by"

definition group_key_from_pairs ::
    "(string \<times> string) list \<Rightarrow> group_by_field list \<Rightarrow> group_key option" where
  "group_key_from_pairs pairs group_by =
     collect_options
       (\<lambda>field. map_option (\<lambda>kv. Some (snd kv)) (find (\<lambda>(k, _). k = gb_name field) pairs)) group_by"

definition group_key_to_pairs ::
    "group_key \<Rightarrow> group_by_field list \<Rightarrow> (string \<times> string) list" where
  "group_key_to_pairs key group_by =
     filter_map (\<lambda>(field, value). map_option (\<lambda>v. (gb_name field, v)) value) (zip group_by key)"

section \<open>Compiled correlations\<close>

record compiled_condition =
  cc_field :: "string list option"
  cc_predicates :: "(condition_operator \<times> f64) list"
  cc_percentile :: "nat option"

fun predicate_holds :: "f64 \<Rightarrow> condition_operator \<Rightarrow> f64 \<Rightarrow> bool" where
  "predicate_holds v OpLt t = f64_lt v t"
| "predicate_holds v OpLte t = f64_le v t"
| "predicate_holds v OpGt t = f64_lt t v"
| "predicate_holds v OpGte t = f64_le t v"
| "predicate_holds v OpEq t = f64_lt (f64_abs (f64_sub v t)) f64_epsilon"
| "predicate_holds v OpNeq t = f64_le f64_epsilon (f64_abs (f64_sub v t))"

definition condition_check :: "compiled_condition \<Rightarrow> f64 \<Rightarrow> bool" where
  "condition_check c v = list_all (\<lambda>(op, t). predicate_holds v op t) (cc_predicates c)"

record compiled_correlation =
  cco_id :: "string option"
  cco_name :: "string option"
  cco_title :: string
  cco_level :: "level option"
  cco_tags :: "string list"
  cco_description :: "string option"
  cco_falsepositives :: "string list"
  cco_correlation_type :: correlation_type
  cco_rule_refs :: "string list"
  cco_group_by :: "group_by_field list"
  cco_timespan_secs :: nat
  cco_window_mode :: window_mode
  cco_gap_secs :: "nat option"
  cco_condition :: compiled_condition
  cco_extended_expr :: "condition_expr option"
  cco_generate :: bool
  cco_suppress_secs :: "nat option"
  cco_action :: "correlation_action option"
  cco_event_mode :: "correlation_event_mode option"
  cco_max_events :: "nat option"
  cco_max_group_entries :: "nat option"
  cco_custom_attributes :: "(string \<times> json_value) list"

section \<open>Compilation\<close>

text \<open>
  The YAML value type is a parameter \<open>'y\<close>: its string view (\<open>Value::as_str\<close>) and its conversion to
  JSON are arguments.
\<close>

datatype corr_error =
  CeSessionWithoutGap
| CeGapWithoutSession
| CeMultipleNumericFields
| CeExtendedNotTemporal
| CeUnknownRuleRef string
| CeCycle string

definition numeric_aggregation :: "correlation_type \<Rightarrow> bool" where
  "numeric_aggregation ct = (ct \<in> {ValueSum, ValueAvg, ValuePercentile, ValueMedian})"

fun compile_condition ::
    "correlation_condition \<Rightarrow> correlation_type
     \<Rightarrow> corr_error + (compiled_condition \<times> condition_expr option)" where
  "compile_condition (Threshold predicates field percentile) ct =
     (if numeric_aggregation ct \<and> (case field of Some fs \<Rightarrow> 1 < length fs | None \<Rightarrow> False)
      then Inl CeMultipleNumericFields
      else Inr (\<lparr> cc_field = field,
                  cc_predicates = map (\<lambda>(op, count). (op, f64_of_int (int count))) predicates,
                  cc_percentile = percentile \<rparr>, None))"
| "compile_condition (Extended expr) ct =
     (if ct = Temporal \<or> ct = TemporalOrdered
      then Inr (\<lparr> cc_field = None, cc_predicates = [(OpGte, Fin 1)], cc_percentile = None \<rparr>,
                Some expr)
      else Inl CeExtendedNotTemporal)"

definition check_gap :: "window_mode \<Rightarrow> nat option \<Rightarrow> corr_error option" where
  "check_gap window gap =
     (if window = Session \<and> gap = None then Some CeSessionWithoutGap
      else if window \<noteq> Session \<and> gap \<noteq> None then Some CeGapWithoutSession
      else None)"

text \<open>\<open>alias_map\<close>: a \<open>HashMap\<close> collected from the aliases, the last of a name wins.\<close>

definition compile_group_by :: "field_alias list \<Rightarrow> string \<Rightarrow> group_by_field" where
  "compile_group_by aliases field_name =
     (case map_of (rev (map (\<lambda>a. (fa_alias a, a)) aliases)) field_name of
        Some a \<Rightarrow> GbAliased field_name (fa_mapping a)
      | None \<Rightarrow> GbDirect field_name)"

definition attr_str ::
    "('y \<Rightarrow> string option) \<Rightarrow> (string \<times> 'y) list \<Rightarrow> string \<Rightarrow> string option" where
  "attr_str yaml_as_str attrs name = Option.bind (map_of attrs name) yaml_as_str"

definition compile_correlation ::
    "ext_env \<Rightarrow> ('y \<Rightarrow> string option) \<Rightarrow> ('y \<Rightarrow> json_value) \<Rightarrow> 'y correlation_rule
     \<Rightarrow> corr_error + compiled_correlation" where
  "compile_correlation env yaml_as_str yaml_to_json rule =
     result_bind (compile_condition (cr_condition rule) (cr_correlation_type rule)) (\<lambda>ce.
       let gap_secs = map_option ts_seconds (cr_gap rule);
           attr = attr_str yaml_as_str (cr_custom_attributes rule)
       in case check_gap (cr_window rule) gap_secs of
            Some e \<Rightarrow> Inl e
          | None \<Rightarrow> Inr \<lparr>
              cco_id = cr_id rule, cco_name = cr_name rule, cco_title = cr_title rule,
              cco_level = cr_level rule, cco_tags = cr_tags rule,
              cco_description = cr_description rule, cco_falsepositives = cr_falsepositives rule,
              cco_correlation_type = cr_correlation_type rule, cco_rule_refs = cr_rules rule,
              cco_group_by = map (compile_group_by (cr_aliases rule)) (cr_group_by rule),
              cco_timespan_secs = ts_seconds (cr_timespan rule),
              cco_window_mode = cr_window rule, cco_gap_secs = gap_secs,
              cco_condition = fst ce, cco_extended_expr = snd ce,
              cco_generate = cr_generate rule,
              cco_suppress_secs =
                Option.bind (attr ''rsigma.suppress'')
                  (\<lambda>s. case timespan_parse s of Inr t \<Rightarrow> Some (ts_seconds t) | Inl _ \<Rightarrow> None),
              cco_action = Option.bind (attr ''rsigma.action'') correlation_action_from_str,
              cco_event_mode =
                Option.bind (attr ''rsigma.correlation_event_mode'')
                  (correlation_event_mode_from_str env),
              cco_max_events = Option.bind (attr ''rsigma.max_correlation_events'') parse_u64,
              cco_max_group_entries = Option.bind (attr ''rsigma.max_group_entries'') parse_u64,
              cco_custom_attributes =
                map (\<lambda>(k, v). (k, yaml_to_json v)) (cr_custom_attributes rule) \<rparr>)"

section \<open>Lemmas\<close>

lemma compile_correlation_gap:
  "compile_correlation env yaml_as_str yaml_to_json rule = Inr c \<Longrightarrow>
   (cco_window_mode c = Session) = (cco_gap_secs c \<noteq> None)"
  by (auto simp: compile_correlation_def result_bind_def check_gap_def Let_def
      split: sum.splits option.splits if_splits)

lemma group_key_to_pairs_Some:
  "length vs = length group_by \<Longrightarrow>
   group_key_to_pairs (map Some vs) group_by = zip (map gb_name group_by) vs"
proof (induction vs group_by rule: list_induct2)
  case (Cons v vs g gs)
  then show ?case by (simp add: group_key_to_pairs_def)
qed (simp add: group_key_to_pairs_def)

lemma collect_options_map:
  "(\<And>x. x \<in> set xs \<Longrightarrow> f x = Some (g x)) \<Longrightarrow> collect_options f xs = Some (map g xs)"
  by (induction xs) auto

lemma find_zip:
  assumes "distinct ks" and "length vs = length ks" and "i < length ks"
  shows "find (\<lambda>(k, _). k = ks ! i) (zip ks vs) = Some (ks ! i, vs ! i)"
  using assms(2,1,3)
proof (induction vs ks arbitrary: i rule: list_induct2)
  case (Cons v vs k ks)
  then show ?case by (cases i) auto
qed simp

text \<open>A key printed as pairs and read back over the same fields is the key.\<close>

lemma group_key_pairs_roundtrip:
  assumes "distinct (map gb_name group_by)" and "length vs = length group_by"
  shows "group_key_from_pairs (group_key_to_pairs (map Some vs) group_by) group_by
    = Some (map Some vs)"
proof -
  let ?val = "\<lambda>field. map_option (\<lambda>kv. Some (snd kv))
      (find (\<lambda>(k, _). k = gb_name field) (zip (map gb_name group_by) vs))"
  have v: "find (\<lambda>(k, _). k = gb_name (group_by ! i)) (zip (map gb_name group_by) vs)
      = Some (gb_name (group_by ! i), vs ! i)" if "i < length group_by" for i
    using find_zip [of "map gb_name group_by" vs i] assms that by simp
  have "collect_options ?val group_by = Some (map (\<lambda>f. the (?val f)) group_by)"
    by (rule collect_options_map) (auto simp: in_set_conv_nth v)
  also have "map (\<lambda>f. the (?val f)) group_by = map Some vs"
    by (rule nth_equalityI) (simp_all add: assms(2) v)
  finally show ?thesis
    by (simp add: group_key_from_pairs_def group_key_to_pairs_Some assms(2))
qed

end
