(* ===== verification/Window.thy ===== *)
theory Window
  imports CorrTypes
begin

text \<open>
  Per-group window state (\<open>rsigma-eval/src/correlation/window.rs\<close>): the deques of a window, their
  maintenance before an insert, the per-group cap, and the evaluation of a correlation condition.
  A deque is a list, front first; \<open>rule_hits\<close> is an association list with distinct keys.
\<close>

section \<open>State\<close>

datatype window_state =
  WsEventCount "int list"
| WsValueCount "(int \<times> string) list"
| WsTemporal "(string \<times> int list) list"
| WsNumericAgg "(int \<times> f64) list"

fun window_new_for :: "correlation_type \<Rightarrow> window_state" where
  "window_new_for EventCount = WsEventCount []"
| "window_new_for ValueCount = WsValueCount []"
| "window_new_for Temporal = WsTemporal []"
| "window_new_for TemporalOrdered = WsTemporal []"
| "window_new_for _ = WsNumericAgg []"

fun window_evict :: "window_state \<Rightarrow> int \<Rightarrow> window_state" where
  "window_evict (WsEventCount timestamps) cutoff =
     WsEventCount (dropWhile (\<lambda>t. t < cutoff) timestamps)"
| "window_evict (WsValueCount entries) cutoff =
     WsValueCount (dropWhile (\<lambda>e. fst e < cutoff) entries)"
| "window_evict (WsTemporal rule_hits) cutoff =
     WsTemporal (filter (\<lambda>(_, ts). ts \<noteq> [])
       (map (\<lambda>(r, ts). (r, dropWhile (\<lambda>t. t < cutoff) ts)) rule_hits))"
| "window_evict (WsNumericAgg entries) cutoff =
     WsNumericAgg (dropWhile (\<lambda>e. fst e < cutoff) entries)"

fun window_is_empty :: "window_state \<Rightarrow> bool" where
  "window_is_empty (WsEventCount timestamps) = (timestamps = [])"
| "window_is_empty (WsValueCount entries) = (entries = [])"
| "window_is_empty (WsTemporal rule_hits) = (rule_hits = [])"
| "window_is_empty (WsNumericAgg entries) = (entries = [])"

definition deque_back :: "'a list \<Rightarrow> 'a option" where
  "deque_back xs = (if xs = [] then None else Some (last xs))"

definition deque_front :: "'a list \<Rightarrow> 'a option" where
  "deque_front xs = (if xs = [] then None else Some (hd xs))"

text \<open>\<open>max\<close> and \<open>min\<close> of an iterator.\<close>

definition iter_max :: "'a :: linorder list \<Rightarrow> 'a option" where
  "iter_max xs = (case xs of [] \<Rightarrow> None | x # rest \<Rightarrow> Some (fold max rest x))"

definition iter_min :: "'a :: linorder list \<Rightarrow> 'a option" where
  "iter_min xs = (case xs of [] \<Rightarrow> None | x # rest \<Rightarrow> Some (fold min rest x))"

fun latest_timestamp :: "window_state \<Rightarrow> int option" where
  "latest_timestamp (WsEventCount timestamps) = deque_back timestamps"
| "latest_timestamp (WsValueCount entries) = map_option fst (deque_back entries)"
| "latest_timestamp (WsTemporal rule_hits) =
     iter_max (filter_map (\<lambda>(_, ts). deque_back ts) rule_hits)"
| "latest_timestamp (WsNumericAgg entries) = map_option fst (deque_back entries)"

fun earliest_timestamp :: "window_state \<Rightarrow> int option" where
  "earliest_timestamp (WsEventCount timestamps) = deque_front timestamps"
| "earliest_timestamp (WsValueCount entries) = map_option fst (deque_front entries)"
| "earliest_timestamp (WsTemporal rule_hits) =
     iter_min (filter_map (\<lambda>(_, ts). deque_front ts) rule_hits)"
| "earliest_timestamp (WsNumericAgg entries) = map_option fst (deque_front entries)"

text \<open>\<open>truncate_deque\<close>: the newest \<open>cap\<close>, or the front and the newest \<open>cap - 1\<close>.\<close>

definition truncate_deque :: "nat \<Rightarrow> bool \<Rightarrow> 'a list \<Rightarrow> 'a list" where
  "truncate_deque cap preserve_front deque =
     (if length deque \<le> cap then deque
      else if preserve_front then
        (let rest = tl deque; excess = length rest - (cap - 1) in hd deque # drop excess rest)
      else drop (length deque - cap) deque)"

fun truncate_oldest :: "window_state \<Rightarrow> nat \<Rightarrow> bool \<Rightarrow> window_state" where
  "truncate_oldest (WsEventCount timestamps) cap preserve_front =
     WsEventCount (truncate_deque (max cap 1) preserve_front timestamps)"
| "truncate_oldest (WsValueCount entries) cap preserve_front =
     WsValueCount (truncate_deque (max cap 1) preserve_front entries)"
| "truncate_oldest (WsTemporal rule_hits) cap preserve_front =
     WsTemporal (map (\<lambda>(r, ts). (r, truncate_deque (max cap 1) preserve_front ts)) rule_hits)"
| "truncate_oldest (WsNumericAgg entries) cap preserve_front =
     WsNumericAgg (truncate_deque (max cap 1) preserve_front entries)"

fun window_clear :: "window_state \<Rightarrow> window_state" where
  "window_clear (WsEventCount _) = WsEventCount []"
| "window_clear (WsValueCount _) = WsValueCount []"
| "window_clear (WsTemporal _) = WsTemporal []"
| "window_clear (WsNumericAgg _) = WsNumericAgg []"

section \<open>Recording\<close>

fun push_event_count :: "int \<Rightarrow> window_state \<Rightarrow> window_state" where
  "push_event_count ts (WsEventCount timestamps) = WsEventCount (timestamps @ [ts])"
| "push_event_count ts state = state"

fun push_value_count :: "int \<Rightarrow> string \<Rightarrow> window_state \<Rightarrow> window_state" where
  "push_value_count ts v (WsValueCount entries) = WsValueCount (entries @ [(ts, v)])"
| "push_value_count ts v state = state"

fun push_temporal :: "int \<Rightarrow> string \<Rightarrow> window_state \<Rightarrow> window_state" where
  "push_temporal ts rule_ref (WsTemporal rule_hits) =
     WsTemporal (map_insert rule_ref
       ((case map_of rule_hits rule_ref of Some hits \<Rightarrow> hits | None \<Rightarrow> []) @ [ts]) rule_hits)"
| "push_temporal ts rule_ref state = state"

fun push_numeric :: "int \<Rightarrow> f64 \<Rightarrow> window_state \<Rightarrow> window_state" where
  "push_numeric ts v (WsNumericAgg entries) = WsNumericAgg (entries @ [(ts, v)])"
| "push_numeric ts v state = state"

section \<open>Conditions\<close>

definition rule_fired :: "(string \<times> int list) list \<Rightarrow> string \<Rightarrow> bool" where
  "rule_fired rule_hits r = (case map_of rule_hits r of Some ts \<Rightarrow> ts \<noteq> [] | None \<Rightarrow> False)"

definition count_distinct_rules :: "string list \<Rightarrow> nat" where
  "count_distinct_rules rule_refs = length (first_seen [] rule_refs)"

definition count_fired_rules :: "string list \<Rightarrow> (string \<times> int list) list \<Rightarrow> nat" where
  "count_fired_rules rule_refs rule_hits =
     length (first_seen [] (filter (rule_fired rule_hits) rule_refs))"

text \<open>The loop of \<open>check_temporal_ordered\<close>, from the timestamp chosen for the previous rule.\<close>

fun temporal_ordered_loop :: "int \<Rightarrow> string list \<Rightarrow> (string \<times> int list) list \<Rightarrow> bool" where
  "temporal_ordered_loop previous [] rule_hits = True"
| "temporal_ordered_loop previous (r # rs) rule_hits =
     (case Option.bind (map_of rule_hits r) (\<lambda>hits. iter_min (filter (\<lambda>ts. previous \<le> ts) hits)) of
        Some ts \<Rightarrow> temporal_ordered_loop ts rs rule_hits
      | None \<Rightarrow> False)"

definition check_temporal_ordered :: "string list \<Rightarrow> (string \<times> int list) list \<Rightarrow> bool" where
  "check_temporal_ordered rule_refs rule_hits = temporal_ordered_loop i64_min rule_refs rule_hits"

fun eval_temporal_expr :: "condition_expr \<Rightarrow> (string \<times> int list) list \<Rightarrow> bool" where
  "eval_temporal_expr (CondIdentifier name) rule_hits = rule_fired rule_hits name"
| "eval_temporal_expr (CondAnd children) rule_hits =
     list_all (\<lambda>c. eval_temporal_expr c rule_hits) children"
| "eval_temporal_expr (CondOr children) rule_hits =
     list_ex (\<lambda>c. eval_temporal_expr c rule_hits) children"
| "eval_temporal_expr (CondNot child) rule_hits = (\<not> eval_temporal_expr child rule_hits)"
| "eval_temporal_expr (CondSelector _ _) rule_hits = False"

definition finite_values :: "(int \<times> f64) list \<Rightarrow> f64 list" where
  "finite_values entries = filter f64_is_finite (map snd entries)"

definition f64_clamp :: "f64 \<Rightarrow> f64 \<Rightarrow> f64 \<Rightarrow> f64" where
  "f64_clamp x lo hi = (if f64_lt x lo then lo else if f64_lt hi x then hi else x)"

text \<open>
  \<open>select_nth_unstable_by(k, total_cmp)\<close> puts the \<open>k\<close>-th smallest value at \<open>k\<close>, the smaller ones
  before it and the larger ones behind: \<open>sort values ! k\<close>, with the next value the least behind.
\<close>

definition percentile_linear_interp :: "f64 list \<Rightarrow> f64 \<Rightarrow> f64" where
  "percentile_linear_interp values percentile =
     (if values = [] then Fin 0
      else if length values = 1 then values ! 0
      else
        let n = length values;
            p = f64_div (f64_clamp percentile (Fin 0) (Fin 100)) (Fin 100);
            rank = f64_mul p (f64_of_int (int (n - 1)));
            lower = f64_as_usize (f64_floor rank);
            upper = f64_as_usize (f64_ceil rank);
            fraction = f64_sub rank (f64_of_int (int lower));
            k = min lower (n - 1);
            low = sort values ! k
        in if lower = upper \<or> n \<le> upper then low
           else
             let high = (if Suc k < n then sort values ! Suc k else low)
             in f64_add low (f64_mul fraction (f64_sub high low)))"

definition window_percentile :: "(int \<times> f64) list \<Rightarrow> nat option \<Rightarrow> f64 option" where
  "window_percentile entries percentile =
     (let values = finite_values entries
      in if values = [] then None
         else Some (percentile_linear_interp values
                (case percentile of Some p \<Rightarrow> f64_of_int (int p) | None \<Rightarrow> Fin 50)))"

definition window_median :: "(int \<times> f64) list \<Rightarrow> f64 option" where
  "window_median entries =
     (let values = finite_values entries; n = length values; sorted_values = sort values
      in if n = 0 then None
         else if even n
           then Some (f64_div (f64_add (sorted_values ! (n div 2 - 1)) (sorted_values ! (n div 2)))
                        (Fin 2))
           else Some (sorted_values ! (n div 2)))"

text \<open>\<open>Iterator::sum\<close> of floats starts at \<open>-0.0\<close>.\<close>

definition f64_sum :: "f64 list \<Rightarrow> f64" where
  "f64_sum xs = fold (\<lambda>x s. f64_add s x) xs NegZero"

definition window_avg :: "(int \<times> f64) list \<Rightarrow> f64" where
  "window_avg entries =
     (if entries = [] then Fin 0
      else f64_div (f64_sum (map snd entries)) (f64_of_int (int (length entries))))"

definition distinct_values :: "(int \<times> string) list \<Rightarrow> nat" where
  "distinct_values entries = length (first_seen [] (map snd entries))"

text \<open>The \<open>match\<close> of \<open>check_condition\<close>: an early return, or a value to compare.\<close>

datatype aggregate = AggReturn "f64 option" | AggValue f64

fun aggregate_value ::
    "window_state \<Rightarrow> correlation_type \<Rightarrow> compiled_condition \<Rightarrow> string list
     \<Rightarrow> condition_expr option \<Rightarrow> aggregate" where
  "aggregate_value (WsEventCount timestamps) EventCount c refs ext =
     AggValue (f64_of_int (int (length timestamps)))"
| "aggregate_value (WsValueCount entries) ValueCount c refs ext =
     AggValue (f64_of_int (int (distinct_values entries)))"
| "aggregate_value (WsTemporal hits) Temporal c refs ext =
     (case ext of
        Some e \<Rightarrow>
          if eval_temporal_expr e hits
          then AggReturn (Some (f64_of_int (int (count_fired_rules refs hits))))
          else AggReturn None
      | None \<Rightarrow> AggValue (f64_of_int (int (count_fired_rules refs hits))))"
| "aggregate_value (WsTemporal hits) TemporalOrdered c refs ext =
     (if (case ext of Some e \<Rightarrow> \<not> eval_temporal_expr e hits | None \<Rightarrow> False) then AggReturn None
      else if check_temporal_ordered refs hits
      then AggValue (f64_of_int (int (count_distinct_rules refs)))
      else AggValue (Fin 0))"
| "aggregate_value (WsNumericAgg entries) ValueSum c refs ext =
     AggValue (f64_sum (map snd entries))"
| "aggregate_value (WsNumericAgg entries) ValueAvg c refs ext = AggValue (window_avg entries)"
| "aggregate_value (WsNumericAgg entries) ValuePercentile c refs ext =
     (case window_percentile entries (cc_percentile c) of
        Some v \<Rightarrow> AggValue v | None \<Rightarrow> AggReturn None)"
| "aggregate_value (WsNumericAgg entries) ValueMedian c refs ext =
     (case window_median entries of Some v \<Rightarrow> AggValue v | None \<Rightarrow> AggReturn None)"
| "aggregate_value _ _ c refs ext = AggReturn None"

definition window_check_condition ::
    "window_state \<Rightarrow> compiled_condition \<Rightarrow> correlation_type \<Rightarrow> string list
     \<Rightarrow> condition_expr option \<Rightarrow> f64 option" where
  "window_check_condition state condition ct refs ext =
     (case aggregate_value state ct condition refs ext of
        AggReturn r \<Rightarrow> r
      | AggValue v \<Rightarrow> if condition_check condition v then Some v else None)"

fun entry_count :: "window_state \<Rightarrow> nat" where
  "entry_count (WsEventCount timestamps) = length timestamps"
| "entry_count (WsValueCount entries) = length entries"
| "entry_count (WsTemporal rule_hits) = sum_list (map (length \<circ> snd) rule_hits)"
| "entry_count (WsNumericAgg entries) = length entries"

fun current_value ::
    "window_state \<Rightarrow> correlation_type \<Rightarrow> string list \<Rightarrow> nat option \<Rightarrow> f64 option" where
  "current_value (WsEventCount timestamps) EventCount refs percentile =
     Some (f64_of_int (int (length timestamps)))"
| "current_value (WsValueCount entries) ValueCount refs percentile =
     Some (f64_of_int (int (distinct_values entries)))"
| "current_value (WsTemporal hits) Temporal refs percentile =
     Some (f64_of_int (int (count_fired_rules refs hits)))"
| "current_value (WsTemporal hits) TemporalOrdered refs percentile =
     Some (f64_of_int (int (count_fired_rules refs hits)))"
| "current_value (WsNumericAgg entries) ValueSum refs percentile =
     Some (f64_sum (map snd entries))"
| "current_value (WsNumericAgg entries) ValueAvg refs percentile = Some (window_avg entries)"
| "current_value (WsNumericAgg entries) ValuePercentile refs percentile =
     window_percentile entries percentile"
| "current_value (WsNumericAgg entries) ValueMedian refs percentile = window_median entries"
| "current_value _ _ refs percentile = None"

section \<open>Opening a window for an event\<close>

text \<open>Subtractions on \<open>i64\<close> wrap, as does the cast of a \<open>u64\<close> span.\<close>

definition sub_i64 :: "int \<Rightarrow> int \<Rightarrow> int" where
  "sub_i64 a b = wrap_i64 (a - b)"

definition bucket_start :: "int \<Rightarrow> int \<Rightarrow> int" where
  "bucket_start ts timespan = sub_i64 ts (ts mod timespan)"

datatype window_decision = WdExtend | WdReset | WdDiscard

definition open_tumbling :: "window_state \<Rightarrow> int \<Rightarrow> int \<Rightarrow> window_state \<times> window_decision" where
  "open_tumbling state ts timespan =
     (if timespan \<le> 0 then (state, WdExtend)
      else case latest_timestamp state of
             Some l \<Rightarrow>
               if bucket_start l timespan < bucket_start ts timespan
               then (window_clear state, WdReset)
               else if bucket_start ts timespan < bucket_start l timespan
               then (state, WdDiscard)
               else (state, WdExtend)
           | None \<Rightarrow> (state, WdExtend))"

definition open_session ::
    "window_state \<Rightarrow> int \<Rightarrow> int \<Rightarrow> int \<Rightarrow> window_state \<times> window_decision" where
  "open_session state ts timespan gap =
     (let reset = (case (earliest_timestamp state, latest_timestamp state) of
                     (Some start, Some l) \<Rightarrow>
                       gap < sub_i64 ts l \<or> (0 < timespan \<and> timespan < sub_i64 ts start)
                   | _ \<Rightarrow> False)
      in if reset then (window_clear state, WdReset) else (state, WdExtend))"

definition apply_window_open ::
    "window_state \<Rightarrow> int \<Rightarrow> nat \<Rightarrow> window_mode \<Rightarrow> nat option \<Rightarrow> window_state \<times> window_decision" where
  "apply_window_open state ts timespan_secs window gap_secs =
     (let timespan = wrap_i64 (int timespan_secs)
      in case window of
           Sliding \<Rightarrow> (window_evict state (sub_i64 ts timespan), WdExtend)
         | Tumbling \<Rightarrow> open_tumbling state ts timespan
         | Session \<Rightarrow>
             open_session state ts timespan
               (case gap_secs of Some g \<Rightarrow> wrap_i64 (int g) | None \<Rightarrow> timespan))"

section \<open>Deques\<close>

lemma dropWhile_sorted_wrt:
  assumes "sorted (map f xs)"
  shows "dropWhile (\<lambda>x. f x < c) xs = filter (\<lambda>x. c \<le> f x) xs"
  using assms
proof (induction xs)
  case (Cons x xs)
  show ?case
  proof (cases "f x < c")
    case True
    then show ?thesis using Cons by simp
  next
    case False
    then have "\<forall>y \<in> set xs. c \<le> f y" using Cons.prems by fastforce
    then show ?thesis using False by simp
  qed
qed simp

lemma dropWhile_less_twice:
  fixes c c' :: int
  shows "c \<le> c' \<Longrightarrow> dropWhile (\<lambda>x. f x < c') (dropWhile (\<lambda>x. f x < c) xs) = dropWhile (\<lambda>x. f x < c') xs"
  by (induction xs) auto

lemma fold_max_ge: "(m :: 'a :: linorder) \<le> fold max xs m \<and> (\<forall>x \<in> set xs. x \<le> fold max xs m)
    \<and> fold max xs m \<in> insert m (set xs)"
proof (induction xs arbitrary: m)
  case (Cons x xs)
  from Cons.IH [of "max x m"] show ?case by (auto simp: max_def split: if_splits)
qed simp

lemma fold_min_le: "fold min xs (m :: 'a :: linorder) \<le> m \<and> (\<forall>x \<in> set xs. fold min xs m \<le> x)
    \<and> fold min xs m \<in> insert m (set xs)"
proof (induction xs arbitrary: m)
  case (Cons x xs)
  from Cons.IH [of "min x m"] show ?case by (auto simp: min_def split: if_splits)
qed simp

lemma iter_min_Some: "iter_min xs = Some m \<longleftrightarrow> m \<in> set xs \<and> (\<forall>x \<in> set xs. m \<le> x)"
proof (cases xs)
  case (Cons x rest)
  show ?thesis
    unfolding iter_min_def Cons using fold_min_le [of rest x] by (auto intro: antisym)
qed (simp add: iter_min_def)

lemma iter_max_Some: "iter_max xs = Some m \<longleftrightarrow> m \<in> set xs \<and> (\<forall>x \<in> set xs. x \<le> m)"
proof (cases xs)
  case (Cons x rest)
  show ?thesis
    unfolding iter_max_def Cons using fold_max_ge [of x rest] by (auto intro: antisym)
qed (simp add: iter_max_def)

lemma iter_min_None [simp]: "iter_min xs = None \<longleftrightarrow> xs = []"
  by (simp add: iter_min_def split: list.splits)

lemma iter_max_None [simp]: "iter_max xs = None \<longleftrightarrow> xs = []"
  by (simp add: iter_max_def split: list.splits)

lemma truncate_deque_length: "0 < cap \<Longrightarrow> length (truncate_deque cap pf d) \<le> cap"
  by (auto simp: truncate_deque_def Let_def)

lemma truncate_deque_hd: "hd (truncate_deque cap True d) = hd d"
  by (simp add: truncate_deque_def Let_def)

lemma truncate_deque_last: "0 < cap \<Longrightarrow> d \<noteq> [] \<Longrightarrow> (pf \<longrightarrow> 1 < cap) \<Longrightarrow>
    last (truncate_deque cap pf d) = last d"
  by (cases d) (auto simp: truncate_deque_def Let_def last_drop)

lemma set_truncate_deque: "set (truncate_deque cap pf d) \<subseteq> set d"
  by (cases d) (auto simp: truncate_deque_def Let_def dest: in_set_dropD)

section \<open>Ordered temporal correlations\<close>

text \<open>One hit per rule, in the order of the rules, not before \<open>p\<close>.\<close>

definition rule_hit_at :: "(string \<times> int list) list \<Rightarrow> string \<Rightarrow> int \<Rightarrow> bool" where
  "rule_hit_at rule_hits r t = (case map_of rule_hits r of Some hits \<Rightarrow> t \<in> set hits | None \<Rightarrow> False)"

lemma earliest_hit:
  "Option.bind (map_of rule_hits r) (\<lambda>hits. iter_min (filter (\<lambda>ts. p \<le> ts) hits)) = Some m \<longleftrightarrow>
   rule_hit_at rule_hits r m \<and> p \<le> m \<and> (\<forall>t. rule_hit_at rule_hits r t \<and> p \<le> t \<longrightarrow> m \<le> t)"
  by (cases "map_of rule_hits r") (auto simp: rule_hit_at_def iter_min_Some)

lemma no_hit:
  "Option.bind (map_of rule_hits r) (\<lambda>hits. iter_min (filter (\<lambda>ts. p \<le> ts) hits)) = None \<longleftrightarrow>
   (\<forall>t. rule_hit_at rule_hits r t \<longrightarrow> \<not> p \<le> t)"
  by (cases "map_of rule_hits r") (auto simp: rule_hit_at_def filter_empty_conv)

lemma temporal_ordered_loop_iff:
  "temporal_ordered_loop p refs rule_hits \<longleftrightarrow>
   (\<exists>ts. list_all2 (rule_hit_at rule_hits) refs ts \<and> sorted (p # ts))"
proof (induction p refs rule_hits rule: temporal_ordered_loop.induct)
  case (1 p rule_hits)
  then show ?case by simp
next
  case (2 p r rs rule_hits)
  let ?e = "Option.bind (map_of rule_hits r) (\<lambda>hits. iter_min (filter (\<lambda>ts. p \<le> ts) hits))"
  show ?case
  proof (cases ?e)
    case None
    then have no: "\<not> (rule_hit_at rule_hits r t \<and> p \<le> t)" for t using no_hit by metis
    have "\<not> (\<exists>ts. list_all2 (rule_hit_at rule_hits) (r # rs) ts \<and> sorted (p # ts))"
      using no by (auto simp: list_all2_Cons1)
    then show ?thesis using None by simp
  next
    case (Some m)
    then have m: "rule_hit_at rule_hits r m" "p \<le> m"
      "\<And>t. rule_hit_at rule_hits r t \<Longrightarrow> p \<le> t \<Longrightarrow> m \<le> t"
      using earliest_hit by metis+
    have "(\<exists>ts. list_all2 (rule_hit_at rule_hits) rs ts \<and> sorted (m # ts)) \<longleftrightarrow>
        (\<exists>ts. list_all2 (rule_hit_at rule_hits) (r # rs) ts \<and> sorted (p # ts))" (is "?L = ?R")
    proof
      assume ?L
      then obtain ts where "list_all2 (rule_hit_at rule_hits) rs ts" "sorted (m # ts)" by blast
      then have "list_all2 (rule_hit_at rule_hits) (r # rs) (m # ts)" "sorted (p # m # ts)"
        using m(1,2) by auto
      then show ?R by blast
    next
      assume ?R
      then obtain t ts where t: "rule_hit_at rule_hits r t" "p \<le> t"
          "list_all2 (rule_hit_at rule_hits) rs ts" "sorted (t # ts)"
        by (auto simp: list_all2_Cons1)
      then have "sorted (m # ts)" using m(3) [OF t(1,2)] by auto
      then show ?L using t(3) by blast
    qed
    then show ?thesis using 2 [OF Some] Some by simp
  qed
qed

section \<open>Runs of a window\<close>

text \<open>
  The engine clamps timestamps to \<open>[0, i64::MAX / 2]\<close>: within it, and for spans that fit \<open>i64\<close>, no
  subtraction wraps.
\<close>

definition in_time :: "int \<Rightarrow> bool" where
  "in_time t = (0 \<le> t \<and> t \<le> i64_max div 2)"

definition span_ok :: "nat \<Rightarrow> bool" where
  "span_ok n = (int n \<le> i64_max)"

lemma i64_half: "i64_max div 2 = 4611686018427387903"
  by (simp add: i64_max_def)

lemma sub_i64_time [simp]: "in_time a \<Longrightarrow> in_time b \<Longrightarrow> sub_i64 a b = a - b"
  by (simp add: sub_i64_def in_time_def i64_half in_i64_def i64_min_def i64_max_def)

lemma sub_i64_span [simp]: "in_time a \<Longrightarrow> span_ok n \<Longrightarrow> sub_i64 a (int n) = a - int n"
  by (simp add: sub_i64_def in_time_def span_ok_def i64_half in_i64_def i64_min_def i64_max_def)

lemma wrap_span [simp]: "span_ok n \<Longrightarrow> wrap_i64 (int n) = int n"
  by (simp add: span_ok_def in_i64_def i64_min_def i64_max_def)

lemma bucket_start_time:
  assumes "in_time t" and "0 < width"
  shows "bucket_start t width = width * (t div width)"
proof -
  have "0 \<le> t mod width" "t mod width < width" "0 \<le> t div width" "t = width * (t div width) + t mod width"
    using assms by (simp_all add: in_time_def pos_imp_zdiv_nonneg_iff)
  moreover from this have "0 \<le> width * (t div width)" using assms(2) by simp
  ultimately have "t - t mod width = width * (t div width)" and "0 \<le> t - t mod width" "t - t mod width \<le> t"
    by linarith+
  moreover have "t \<le> i64_max" using assms(1) by (simp add: in_time_def i64_half i64_max_def)
  ultimately have "in_i64 (t - t mod width)"
    by (simp add: in_i64_def i64_min_def)
  then show ?thesis
    using \<open>t - t mod width = width * (t div width)\<close> by (simp add: bucket_start_def sub_i64_def)
qed

lemma bucket_start_less:
  "in_time a \<Longrightarrow> in_time b \<Longrightarrow> 0 < width \<Longrightarrow>
   bucket_start a width < bucket_start b width \<longleftrightarrow> a div width < b div width"
  by (simp add: bucket_start_time)

text \<open>One event: open the window, then record, unless the event is discarded.\<close>

definition window_feed ::
    "nat \<Rightarrow> window_mode \<Rightarrow> nat option \<Rightarrow> int \<Rightarrow> window_state \<Rightarrow> window_state" where
  "window_feed timespan mode gap ts state =
     (case apply_window_open state ts timespan mode gap of
        (s, d) \<Rightarrow> if d = WdDiscard then s else push_event_count ts s)"

definition window_run ::
    "nat \<Rightarrow> window_mode \<Rightarrow> nat option \<Rightarrow> int list \<Rightarrow> window_state" where
  "window_run timespan mode gap arrivals =
     fold (window_feed timespan mode gap) arrivals (WsEventCount [])"

lemma window_run_snoc:
  "window_run width mode gap (xs @ [x]) = window_feed width mode gap x (window_run width mode gap xs)"
  by (simp add: window_run_def)

lemma sliding_run:
  assumes "sorted arrivals" and "list_all in_time arrivals" and "span_ok width" and "arrivals \<noteq> []"
  shows "window_run width Sliding gap arrivals
    = WsEventCount (filter (\<lambda>t. last arrivals - int width \<le> t) arrivals)"
  using assms(1,2,4)
proof (induction arrivals rule: rev_induct)
  case (snoc x xs)
  have xs: "sorted xs" "list_all in_time xs" "\<forall>t \<in> set xs. t \<le> x" "in_time x"
    using snoc.prems by (auto simp: sorted_append)
  have feed: "window_feed width Sliding gap x (WsEventCount ys)
      = WsEventCount (filter (\<lambda>t. x - int width \<le> t) ys @ [x])" if "sorted ys" for ys
    using dropWhile_sorted_wrt [of "\<lambda>t. t" ys] that xs(4) assms(3)
    by (simp add: window_feed_def apply_window_open_def Let_def)
  show ?case
  proof (cases "xs = []")
    case True
    then show ?thesis using feed [of "[]"] by (simp add: window_run_def)
  next
    case False
    then have "last xs \<le> x" using xs(3) by simp
    then have "filter (\<lambda>t. x - int width \<le> t) (filter (\<lambda>t. last xs - int width \<le> t) xs)
        = filter (\<lambda>t. x - int width \<le> t) xs"
      by (auto intro!: filter_cong)
    then show ?thesis
      using snoc.IH [OF xs(1,2) False] feed [of "filter (\<lambda>t. last xs - int width \<le> t) xs"] xs(1)
      by (simp add: window_run_snoc sorted_wrt_filter)
  qed
qed simp

definition newest_bucket :: "int \<Rightarrow> int list \<Rightarrow> int" where
  "newest_bucket width arrivals = Max ((\<lambda>t. t div width) ` set arrivals)"

lemma newest_bucket_snoc:
  "xs \<noteq> [] \<Longrightarrow> newest_bucket w (xs @ [x]) = max (x div w) (newest_bucket w xs)"
  by (simp add: newest_bucket_def)

lemma newest_bucket_ge: "t \<in> set xs \<Longrightarrow> t div w \<le> newest_bucket w xs"
  by (simp add: newest_bucket_def)

lemma newest_bucket_in: "xs \<noteq> [] \<Longrightarrow> \<exists>t \<in> set xs. t div w = newest_bucket w xs"
  unfolding newest_bucket_def
  by (metis (mono_tags, lifting) List.finite_set Max_in finite_imageI image_iff image_is_empty set_empty2)

lemma tumbling_feed:
  assumes "in_time x" and "list_all in_time ys" and "ys \<noteq> []" and "span_ok width" and "0 < width"
    and "\<forall>t \<in> set ys. t div int width = b"
  shows "window_feed width Tumbling gap x (WsEventCount ys) =
    WsEventCount (if b < x div int width then [x] else if x div int width < b then ys else ys @ [x])"
proof -
  have l: "in_time (last ys)" "last ys div int width = b"
    using assms(2,3,6) by (simp_all add: list_all_iff)
  have "bucket_start (last ys) (int width) < bucket_start x (int width) \<longleftrightarrow> b < x div int width"
    "bucket_start x (int width) < bucket_start (last ys) (int width) \<longleftrightarrow> x div int width < b"
    using bucket_start_less [OF l(1) assms(1)] bucket_start_less [OF assms(1) l(1)] l(2) assms(5)
    by simp_all
  then show ?thesis
    using assms(3-5)
    by (simp add: window_feed_def apply_window_open_def open_tumbling_def Let_def deque_back_def)
qed

lemma tumbling_run:
  assumes "list_all in_time arrivals" and "span_ok width" and "0 < width" and "arrivals \<noteq> []"
  shows "window_run width Tumbling gap arrivals
    = WsEventCount (filter (\<lambda>t. t div int width = newest_bucket (int width) arrivals) arrivals)"
  using assms(1,4)
proof (induction arrivals rule: rev_induct)
  case (snoc x xs)
  let ?w = "int width"
  show ?case
  proof (cases "xs = []")
    case True
    then show ?thesis using assms(2,3)
      by (simp add: window_run_def window_feed_def apply_window_open_def open_tumbling_def Let_def
          deque_back_def newest_bucket_def)
  next
    case False
    let ?b = "newest_bucket ?w xs" and ?ys = "filter (\<lambda>t. t div ?w = newest_bucket ?w xs) xs"
    have ys: "?ys \<noteq> []" "list_all in_time ?ys" "\<forall>t \<in> set ?ys. t div ?w = ?b"
      using newest_bucket_in [OF False, of ?w] snoc.prems(1)
      by (auto simp: filter_empty_conv list_all_iff)
    have "window_run width Tumbling gap (xs @ [x]) =
      WsEventCount (if ?b < x div ?w then [x] else if x div ?w < ?b then ?ys else ?ys @ [x])"
      using snoc.IH False snoc.prems(1) tumbling_feed [OF _ ys(2,1) assms(2,3) ys(3), of x gap]
      by (simp add: window_run_snoc)
    moreover have "filter (\<lambda>t. t div ?w = x div ?w) xs = []" if "?b < x div ?w"
      using newest_bucket_ge [of _ xs ?w] that by (fastforce simp: filter_empty_conv)
    ultimately show ?thesis
      by (simp add: newest_bucket_snoc [OF False] max_def)
  qed
qed simp

text \<open>The gaps of a session.\<close>

fun gaps_within :: "int \<Rightarrow> int list \<Rightarrow> bool" where
  "gaps_within gap (a # b # rest) = (b - a \<le> gap \<and> gaps_within gap (b # rest))"
| "gaps_within gap _ = True"

lemma gaps_within_snoc:
  "ys \<noteq> [] \<Longrightarrow> gaps_within g (ys @ [x]) \<longleftrightarrow> gaps_within g ys \<and> x - last ys \<le> g"
  by (induction g ys rule: gaps_within.induct) auto

lemma session_feed:
  assumes "in_time x" and "list_all in_time ys" and "ys \<noteq> []"
    and "span_ok width" and "0 < width" and "span_ok gap"
  shows "window_feed width Session (Some gap) x (WsEventCount ys) =
    WsEventCount (if int gap < x - last ys \<or> int width < x - hd ys then [x] else ys @ [x])"
proof -
  have "in_time (last ys)" "in_time (hd ys)" using assms(2,3) by (simp_all add: list_all_iff)
  then show ?thesis using assms
    by (simp add: window_feed_def apply_window_open_def open_session_def Let_def deque_back_def
        deque_front_def)
qed

lemma session_run:
  assumes "list_all in_time arrivals" and "span_ok width" and "0 < width" and "span_ok gap"
    and "arrivals \<noteq> []"
  shows "\<exists>before s. window_run width Session (Some gap) arrivals = WsEventCount s
    \<and> arrivals = before @ s \<and> s \<noteq> [] \<and> gaps_within (int gap) s
    \<and> list_all (\<lambda>t. t - hd s \<le> int width) s"
  using assms(1,5)
proof (induction arrivals rule: rev_induct)
  case (snoc x xs)
  show ?case
  proof (cases "xs = []")
    case True
    then show ?thesis using assms(2-4)
      by (simp add: window_run_def window_feed_def apply_window_open_def open_session_def Let_def
          deque_back_def)
  next
    case False
    then obtain before s where s: "window_run width Session (Some gap) xs = WsEventCount s"
        "xs = before @ s" "s \<noteq> []" "gaps_within (int gap) s" "list_all (\<lambda>t. t - hd s \<le> int width) s"
      using snoc by auto
    let ?new = "int gap < x - last s \<or> int width < x - hd s"
    have run: "window_run width Session (Some gap) (xs @ [x])
        = WsEventCount (if ?new then [x] else s @ [x])"
      unfolding window_run_snoc s(1)
      by (rule session_feed) (use snoc.prems(1) s(2,3) assms(2-4) in simp_all)
    show ?thesis
    proof (cases ?new)
      case True
      then have "window_run width Session (Some gap) (xs @ [x]) = WsEventCount [x]"
        using run by simp
      then show ?thesis by force
    next
      case False
      then have "window_run width Session (Some gap) (xs @ [x]) = WsEventCount (s @ [x])"
        and "gaps_within (int gap) (s @ [x])" and "list_all (\<lambda>t. t - hd (s @ [x]) \<le> int width) (s @ [x])"
        using run s(3-5) by (simp_all add: gaps_within_snoc)
      moreover have "xs @ [x] = before @ (s @ [x])" using s(2) by simp
      ultimately show ?thesis by blast
    qed
  qed
qed simp

section \<open>Early eviction\<close>

text \<open>
  What the engine's periodic eviction does to one group: a sliding window is trimmed at the trailing
  cutoff, a tumbling or session window is cleared once no event came within its bucket span or gap.
\<close>

definition evict_group :: "int \<Rightarrow> nat \<times> window_mode \<times> nat option \<Rightarrow> window_state \<Rightarrow> window_state" where
  "evict_group now spec state =
     (case spec of (timespan, mode, gap) \<Rightarrow>
        (case mode of
           Sliding \<Rightarrow> window_evict state (sub_i64 now (wrap_i64 (int timespan)))
         | _ \<Rightarrow>
             (let staleness =
                wrap_i64 (int (if mode = Session then (case gap of Some g \<Rightarrow> g | None \<Rightarrow> timespan)
                               else timespan))
              in case latest_timestamp state of
                   Some l \<Rightarrow> if staleness < sub_i64 now l then window_clear state else state
                 | None \<Rightarrow> state)))"

lemma window_evict_twice:
  "c \<le> c' \<Longrightarrow> window_evict (window_evict state c) c' = window_evict state c'"
proof (cases state)
  case (WsTemporal hits)
  assume c: "c \<le> c'"
  have *: "filter (\<lambda>(_, ts). ts \<noteq> []) (map (\<lambda>(r, ts). (r, dropWhile (\<lambda>t. t < c') ts))
        (filter (\<lambda>(_, ts). ts \<noteq> []) (map (\<lambda>(r, ts). (r, dropWhile (\<lambda>t. t < c) ts)) hits)))
      = filter (\<lambda>(_, ts). ts \<noteq> []) (map (\<lambda>(r, ts). (r, dropWhile (\<lambda>t. t < c') ts)) hits)"
  proof (induction hits)
    case (Cons h hits)
    obtain r ts where h: "h = (r, ts)" by (cases h)
    have "dropWhile (\<lambda>t. t < c') (dropWhile (\<lambda>t. t < c) ts) = dropWhile (\<lambda>t. t < c') ts"
      using dropWhile_less_twice [OF c, of "\<lambda>t. t"] by simp
    then show ?case using Cons by (cases "dropWhile (\<lambda>t. t < c) ts") (auto simp: h)
  qed simp
  show ?thesis unfolding WsTemporal window_evict.simps * ..
qed (simp_all add: dropWhile_less_twice)

lemma window_clear_twice [simp]: "window_clear (window_clear state) = window_clear state"
  by (cases state) simp_all

lemma clear_timestamps [simp]:
  "latest_timestamp (window_clear state) = None" "earliest_timestamp (window_clear state) = None"
  by (cases state; simp add: deque_back_def deque_front_def)+

lemma earliest_iff_latest: "earliest_timestamp state = None \<longleftrightarrow> latest_timestamp state = None"
proof (cases state)
  case (WsTemporal hits)
  have "filter_map (\<lambda>(_, ts). deque_front ts) hits = [] \<longleftrightarrow> filter_map (\<lambda>(_, ts). deque_back ts) hits = []"
    by (induction hits) (simp_all add: deque_front_def deque_back_def split: prod.splits)
  then show ?thesis by (simp add: WsTemporal)
qed (auto simp: deque_front_def deque_back_def)

lemma evict_group_unobservable:
  assumes "in_time now" and "in_time ts" and "now \<le> ts" and "span_ok timespan" and "0 < timespan"
    and "mode = Session \<Longrightarrow> gap \<noteq> None" and "\<And>g. gap = Some g \<Longrightarrow> span_ok g"
    and "\<And>l. latest_timestamp state = Some l \<Longrightarrow> in_time l"
  shows "fst (apply_window_open (evict_group now (timespan, mode, gap) state) ts timespan mode gap)
    = fst (apply_window_open state ts timespan mode gap)"
proof (cases mode)
  case Sliding
  then show ?thesis using assms(1-4)
    by (simp add: evict_group_def apply_window_open_def Let_def window_evict_twice)
next
  case Tumbling
  show ?thesis
  proof (cases "latest_timestamp state")
    case None
    then show ?thesis by (simp add: Tumbling evict_group_def Let_def)
  next
    case (Some l)
    have l: "in_time l" using assms(8) Some by simp
    show ?thesis
    proof (cases "int timespan < now - l")
      case True
      then have "int timespan < ts - l" using assms(3) by simp
      then have "l + int timespan < ts" by simp
      then have "(l + int timespan) div int timespan \<le> ts div int timespan"
        using assms(5) by (intro zdiv_mono1) simp_all
      then have "l div int timespan < ts div int timespan" using assms(5) by simp
      then have "bucket_start l (int timespan) < bucket_start ts (int timespan)"
        using bucket_start_less [OF l assms(2)] assms(5) by simp
      then show ?thesis using assms(4,5) Some True l assms(1)
        by (simp add: Tumbling evict_group_def apply_window_open_def open_tumbling_def Let_def)
    next
      case False
      then show ?thesis using assms(4) Some l assms(1)
        by (simp add: Tumbling evict_group_def Let_def)
    qed
  qed
next
  case Session
  then obtain g where g: "gap = Some g" "span_ok g" using assms(6,7) by auto
  show ?thesis
  proof (cases "latest_timestamp state")
    case None
    then show ?thesis by (simp add: Session evict_group_def Let_def)
  next
    case (Some l)
    then obtain e where e: "earliest_timestamp state = Some e"
      using earliest_iff_latest [of state] by auto
    have l: "in_time l" using assms(8) Some by simp
    show ?thesis using assms(1-5) Some e l g
      by (auto simp: Session evict_group_def apply_window_open_def open_session_def Let_def)
  qed
qed

section \<open>Properties\<close>

text \<open>
  C30: An ordered temporal correlation holds exactly when the referenced rules have hits that can be
  put in their order: one hit per rule, non-decreasing in time.  The single pass that always takes
  the earliest possible hit misses no such sequence.
\<close>

theorem temporal_ordered_complete:
  assumes "\<And>r hits t. map_of rule_hits r = Some hits \<Longrightarrow> t \<in> set hits \<Longrightarrow> in_i64 t"
  shows "check_temporal_ordered refs rule_hits \<longleftrightarrow>
    (\<exists>ts. list_all2 (\<lambda>r t. \<exists>hits. map_of rule_hits r = Some hits \<and> t \<in> set hits) refs ts \<and> sorted ts)"
proof -
  have at: "rule_hit_at rule_hits = (\<lambda>r t. \<exists>hits. map_of rule_hits r = Some hits \<and> t \<in> set hits)"
    by (intro ext) (auto simp: rule_hit_at_def split: option.splits)
  have "i64_min \<le> t" if "rule_hit_at rule_hits r t" for r t
    using assms that by (auto simp: rule_hit_at_def in_i64_def split: option.splits)
  then have "sorted (i64_min # ts) \<longleftrightarrow> sorted ts" if "list_all2 (rule_hit_at rule_hits) refs ts" for ts
    using that by (fastforce simp: list_all2_conv_all_nth in_set_conv_nth)
  then show ?thesis
    unfolding check_temporal_ordered_def temporal_ordered_loop_iff at [symmetric] by blast
qed

theorem temporal_ordered_complete_witness:
  "check_temporal_ordered [''a'', ''b''] [(''b'', [1, 7]), (''a'', [5, 2])] \<longleftrightarrow>
   (\<exists>ts. list_all2 (\<lambda>r t. \<exists>hits. map_of [(''b'', [1 :: int, 7]), (''a'', [5, 2])] r = Some hits
      \<and> t \<in> set hits) [''a'', ''b''] ts \<and> sorted ts)"
  by (rule temporal_ordered_complete)
     (auto simp: in_i64_def i64_min_def i64_max_def split: if_splits)

text \<open>
  C34: A sliding window is exact on ordered arrivals: it holds the arrivals within the span of the
  latest one, and nothing else.
\<close>

theorem sliding_window_exact:
  assumes "sorted arrivals" and "list_all in_time arrivals" and "span_ok width" and "arrivals \<noteq> []"
  shows "window_run width Sliding gap arrivals
    = WsEventCount (filter (\<lambda>t. last arrivals - int width \<le> t) arrivals)"
  by (rule sliding_run [OF assms])

theorem sliding_window_exact_witness:
  "window_run 10 Sliding None [0, 5, 12, 15]
   = WsEventCount (filter (\<lambda>t. last [0, 5, 12, 15 :: int] - int 10 \<le> t) [0, 5, 12, 15])"
  by (rule sliding_window_exact)
     (simp_all add: in_time_def span_ok_def i64_half i64_max_def)

text \<open>
  A tumbling window is exact on arrivals in any order: it holds, in arrival order, the arrivals
  of the newest bucket seen so far; late arrivals never disturb it.
\<close>

theorem tumbling_window_exact:
  assumes "list_all in_time arrivals" and "span_ok width" and "0 < width" and "arrivals \<noteq> []"
  shows "window_run width Tumbling gap arrivals
    = WsEventCount (filter (\<lambda>t. t div int width = Max ((\<lambda>t. t div int width) ` set arrivals)) arrivals)"
  using tumbling_run [OF assms] by (simp add: newest_bucket_def)

theorem tumbling_window_exact_witness:
  "window_run 10 Tumbling None [3, 14, 8, 11]
   = WsEventCount (filter (\<lambda>t. t div int 10 = Max ((\<lambda>t. t div int 10) ` set [3, 14, 8, 11])) [3, 14, 8, 11])"
  by (rule tumbling_window_exact)
     (simp_all add: in_time_def span_ok_def i64_half i64_max_def)

text \<open>
  A session window holds the last stretch of the arrivals, in any order of their timestamps: no
  step to the next event is longer than the gap, and no event is later than its first by more than
  the timespan.
\<close>

theorem session_window_bounded:
  assumes "list_all in_time arrivals" and "span_ok width" and "0 < width" and "span_ok gap"
    and "arrivals \<noteq> []"
  shows "\<exists>before s. window_run width Session (Some gap) arrivals = WsEventCount s
    \<and> arrivals = before @ s \<and> s \<noteq> [] \<and> gaps_within (int gap) s
    \<and> list_all (\<lambda>t. t - hd s \<le> int width) s"
  by (rule session_run [OF assms])

theorem session_window_bounded_witness:
  "\<exists>before s. window_run 10 Session (Some 4) [1, 3, 9, 12] = WsEventCount s
    \<and> [1, 3, 9, 12] = before @ s \<and> s \<noteq> [] \<and> gaps_within (int 4) s
    \<and> list_all (\<lambda>t. t - hd s \<le> int 10) s"
  by (rule session_window_bounded)
     (simp_all add: in_time_def span_ok_def i64_half i64_max_def)

text \<open>
  C23: Early eviction of a group cannot be observed: for an event that is not earlier than the
  eviction, the window opens to the same state with and without it, in every window mode.
\<close>

theorem early_eviction_unobservable:
  assumes "in_time now" and "in_time ts" and "now \<le> ts" and "span_ok timespan" and "0 < timespan"
    and "mode = Session \<Longrightarrow> gap \<noteq> None" and "\<And>g. gap = Some g \<Longrightarrow> span_ok g"
    and "\<And>l. latest_timestamp state = Some l \<Longrightarrow> in_time l"
  shows "fst (apply_window_open (evict_group now (timespan, mode, gap) state) ts timespan mode gap)
    = fst (apply_window_open state ts timespan mode gap)"
  by (rule evict_group_unobservable [OF assms])

theorem early_eviction_unobservable_witness:
  "fst (apply_window_open (evict_group 30 (10, Session, Some 5) (WsEventCount [3, 7])) 31 10 Session (Some 5))
   = fst (apply_window_open (WsEventCount [3, 7]) 31 10 Session (Some 5))"
  by (rule early_eviction_unobservable)
     (auto simp: in_time_def span_ok_def i64_half i64_max_def deque_back_def)

end
