(* ===== verification/Buffers.thy ===== *)
theory Buffers
  imports Event
begin

text \<open>
  Event storage of correlation groups (\<open>rsigma-eval/src/correlation/buffers.rs\<close>): the compressed
  event buffer of \<open>Full\<close> mode and the reference buffer of \<open>Refs\<close> mode.  The deflate codec and the
  JSON reader and writer are parameters; both buffers are instances of one interface, a bounded queue
  ordered by arrival.
\<close>

section \<open>Parameters\<close>

record buffer_env =
  json_to_vec :: "json_value \<Rightarrow> string option"      \<comment> \<open>\<open>serde_json::to_vec\<close>\<close>
  json_from_slice :: "string \<Rightarrow> json_value option"  \<comment> \<open>\<open>serde_json::from_slice\<close>\<close>
  deflate :: "string \<Rightarrow> string option"              \<comment> \<open>\<open>DeflateEncoder\<close>: \<open>write_all\<close> and \<open>finish\<close>\<close>
  inflate :: "string \<Rightarrow> string option"              \<comment> \<open>\<open>DeflateDecoder\<close>: \<open>read_to_end\<close>\<close>

text \<open>Writing a value succeeds, and reading gives back what was written.\<close>

definition json_codec_law :: "buffer_env \<Rightarrow> json_value \<Rightarrow> bool" where
  "json_codec_law fe v = (\<exists>t. json_to_vec fe v = Some t \<and> json_from_slice fe t = Some v)"

definition deflate_law :: "buffer_env \<Rightarrow> bool" where
  "deflate_law fe = (\<forall>t. \<exists>c. deflate fe t = Some c \<and> inflate fe c = Some t)"

section \<open>Compressed events\<close>

definition compress_event :: "buffer_env \<Rightarrow> json_value \<Rightarrow> string option" where
  "compress_event fe v = Option.bind (json_to_vec fe v) (deflate fe)"

definition decompress_event :: "buffer_env \<Rightarrow> string \<Rightarrow> json_value option" where
  "decompress_event fe compressed = Option.bind (inflate fe compressed) (json_from_slice fe)"

record event_buffer =
  eb_entries :: "(int \<times> string) list"
  eb_max_events :: nat

definition event_buffer_new :: "nat \<Rightarrow> event_buffer" where
  "event_buffer_new max_events = \<lparr> eb_entries = [], eb_max_events = max_events \<rparr>"

definition event_buffer_push :: "buffer_env \<Rightarrow> int \<Rightarrow> json_value \<Rightarrow> event_buffer \<Rightarrow> event_buffer" where
  "event_buffer_push fe ts v buf =
     (case compress_event fe v of
        Some compressed \<Rightarrow>
          (let entries = (if eb_max_events buf \<le> length (eb_entries buf) then tl (eb_entries buf)
                          else eb_entries buf)
           in buf\<lparr>eb_entries := entries @ [(ts, compressed)]\<rparr>)
      | None \<Rightarrow> buf)"

definition event_buffer_evict :: "int \<Rightarrow> event_buffer \<Rightarrow> event_buffer" where
  "event_buffer_evict cutoff buf =
     buf\<lparr>eb_entries := dropWhile (\<lambda>e. fst e < cutoff) (eb_entries buf)\<rparr>"

definition event_buffer_clear :: "event_buffer \<Rightarrow> event_buffer" where
  "event_buffer_clear buf = buf\<lparr>eb_entries := []\<rparr>"

definition event_buffer_is_empty :: "event_buffer \<Rightarrow> bool" where
  "event_buffer_is_empty buf = (eb_entries buf = [])"

definition decompress_all :: "buffer_env \<Rightarrow> event_buffer \<Rightarrow> json_value list" where
  "decompress_all fe buf = filter_map (\<lambda>e. decompress_event fe (snd e)) (eb_entries buf)"

definition compressed_bytes :: "event_buffer \<Rightarrow> nat" where
  "compressed_bytes buf = sum_list (map (\<lambda>e. length (snd e)) (eb_entries buf))"

section \<open>Event references\<close>

record event_ref =
  er_timestamp :: int
  er_id :: "string option"

record event_ref_buffer =
  erb_entries :: "event_ref list"
  erb_max_events :: nat

definition event_ref_buffer_new :: "nat \<Rightarrow> event_ref_buffer" where
  "event_ref_buffer_new max_events = \<lparr> erb_entries = [], erb_max_events = max_events \<rparr>"

definition id_fields :: "string list" where
  "id_fields = [''id'', ''_id'', ''event_id'', ''EventRecordID'', ''event.id'']"

text \<open>\<open>Value::get\<close> with a string index: the entry of an object.\<close>

fun json_get :: "json_value \<Rightarrow> string \<Rightarrow> json_value option" where
  "json_get (JObject m) key = map_of m key"
| "json_get _ key = None"

text \<open>The first field that is present decides, also when its value is not a text or a number.\<close>

definition extract_event_id :: "ext_env \<Rightarrow> json_value \<Rightarrow> string option" where
  "extract_event_id env v =
     (case find_map (json_get v) id_fields of
        Some (JString s) \<Rightarrow> Some s
      | Some (JNumber n) \<Rightarrow> Some (json_number_text env n)
      | _ \<Rightarrow> None)"

definition event_ref_buffer_push ::
    "ext_env \<Rightarrow> int \<Rightarrow> json_value \<Rightarrow> event_ref_buffer \<Rightarrow> event_ref_buffer" where
  "event_ref_buffer_push env ts v buf =
     (let entries = (if erb_max_events buf \<le> length (erb_entries buf) then tl (erb_entries buf)
                     else erb_entries buf)
      in buf\<lparr>erb_entries :=
               entries @ [\<lparr> er_timestamp = ts, er_id = extract_event_id env v \<rparr>]\<rparr>)"

definition event_ref_buffer_evict :: "int \<Rightarrow> event_ref_buffer \<Rightarrow> event_ref_buffer" where
  "event_ref_buffer_evict cutoff buf =
     buf\<lparr>erb_entries := dropWhile (\<lambda>r. er_timestamp r < cutoff) (erb_entries buf)\<rparr>"

definition event_ref_buffer_clear :: "event_ref_buffer \<Rightarrow> event_ref_buffer" where
  "event_ref_buffer_clear buf = buf\<lparr>erb_entries := []\<rparr>"

definition event_ref_buffer_is_empty :: "event_ref_buffer \<Rightarrow> bool" where
  "event_ref_buffer_is_empty buf = (erb_entries buf = [])"

section \<open>The shared contract\<close>

text \<open>
  A bounded queue: \<open>items\<close> are the stored entries, oldest first; \<open>push\<close> drops the oldest entry at
  capacity, and stores nothing for an input without an item.  Its runs keep the newest
  \<open>max cap 1\<close> items.
\<close>

locale bounded_queue =
  fixes items :: "'b \<Rightarrow> 'e list" and cap :: "'b \<Rightarrow> nat"
    and push :: "'x \<Rightarrow> 'b \<Rightarrow> 'b" and item :: "'x \<Rightarrow> 'e option"
  assumes items_push: "items (push x b) =
      (case item x of
         Some e \<Rightarrow> (if cap b \<le> length (items b) then tl (items b) else items b) @ [e]
       | None \<Rightarrow> items b)"
    and cap_push [simp]: "cap (push x b) = cap b"
begin

lemma cap_fold [simp]: "cap (fold push xs b) = cap b"
  by (induction xs arbitrary: b) simp_all

lemma length_push:
  "length (items b) \<le> max (cap b) 1 \<Longrightarrow> length (items (push x b)) \<le> max (cap b) 1"
  by (cases "items b") (auto simp: items_push split: option.split)

lemma tl_drop_run: "1 \<le> c \<Longrightarrow> c \<le> length xs \<Longrightarrow>
    tl (drop (length xs - c) xs) @ [x] = drop (length (xs @ [x]) - c) (xs @ [x])"
  by (simp add: tl_drop drop_Suc Suc_diff_le flip: drop_tl)

lemma items_run:
  assumes "items b = []"
  shows "items (fold push xs b) =
    drop (length (filter_map item xs) - max (cap b) 1) (filter_map item xs)"
proof (induction xs rule: rev_induct)
  case (snoc x xs)
  let ?ys = "filter_map item xs"
  show ?case
  proof (cases "item x")
    case (Some e)
    show ?thesis
    proof (cases "max (cap b) 1 \<le> length ?ys")
      case True
      then have "items (fold push (xs @ [x]) b) = tl (drop (length ?ys - max (cap b) 1) ?ys) @ [e]"
        by (simp add: items_push Some snoc)
      then show ?thesis using tl_drop_run [of "max (cap b) 1" ?ys e] True Some by simp
    next
      case False
      then show ?thesis by (cases ?ys) (auto simp: items_push snoc Some)
    qed
  qed (simp add: items_push snoc)
qed (simp add: assms)

end

interpretation refs: bounded_queue erb_entries erb_max_events
    "\<lambda>(ts, v). event_ref_buffer_push env ts v"
    "\<lambda>(ts, v). Some \<lparr> er_timestamp = ts, er_id = extract_event_id env v \<rparr>"
  for env
  by unfold_locales (auto simp: event_ref_buffer_push_def)

interpretation full: bounded_queue eb_entries eb_max_events
    "\<lambda>(ts, v). event_buffer_push fe ts v"
    "\<lambda>(ts, v). map_option (Pair ts) (compress_event fe v)"
  for fe
  by unfold_locales (auto simp: event_buffer_push_def split: option.split)

lemma decompress_compress:
  "json_codec_law fe v \<Longrightarrow> deflate_law fe \<Longrightarrow>
   \<exists>c. compress_event fe v = Some c \<and> decompress_event fe c = Some v"
  unfolding json_codec_law_def deflate_law_def compress_event_def decompress_event_def
  by (metis bind.bind_lunit)

lemma decompress_entries:
  assumes "deflate_law fe" and "\<forall>v \<in> snd ` set xs. json_codec_law fe v"
  shows "length (filter_map (\<lambda>(ts, v). map_option (Pair ts) (compress_event fe v)) xs) = length xs \<and>
    filter_map (\<lambda>e. decompress_event fe (snd e))
      (drop n (filter_map (\<lambda>(ts, v). map_option (Pair ts) (compress_event fe v)) xs))
    = drop n (map snd xs)"
  using assms(2)
proof (induction xs arbitrary: n)
  case (Cons x xs)
  obtain c where c: "compress_event fe (snd x) = Some c" "decompress_event fe c = Some (snd x)"
    using decompress_compress [OF _ assms(1), of "snd x"] Cons.prems by auto
  have IH: "\<And>n. filter_map (\<lambda>e. decompress_event fe (snd e))
      (drop n (filter_map (\<lambda>(ts, v). map_option (Pair ts) (compress_event fe v)) xs))
    = drop n (map snd xs)" using Cons by simp
  show ?case using Cons c IH [of 0] by (cases n) (simp_all add: case_prod_unfold)
qed simp

section \<open>Properties\<close>

text \<open>
  An event buffer gives back the newest events pushed, unchanged and in order, at most as many as
  its capacity; a capacity of zero still keeps one event.
\<close>

theorem event_buffer_newest:
  assumes "deflate_law fe" and "\<forall>v \<in> snd ` set arrivals. json_codec_law fe v"
  shows "decompress_all fe
      (fold (\<lambda>(ts, v). event_buffer_push fe ts v) arrivals (event_buffer_new max_events))
    = drop (length arrivals - max max_events 1) (map snd arrivals)"
  using full.items_run [of "event_buffer_new max_events" fe arrivals] decompress_entries [OF assms]
  by (simp add: decompress_all_def event_buffer_new_def)

definition literal_buffer_env :: buffer_env where
  "literal_buffer_env = \<lparr>
     json_to_vec = (\<lambda>v. case v of JString s \<Rightarrow> Some s | _ \<Rightarrow> None),
     json_from_slice = (\<lambda>t. Some (JString t)),
     deflate = Some, inflate = Some \<rparr>"

theorem event_buffer_newest_witness:
  "decompress_all literal_buffer_env
     (fold (\<lambda>(ts, v). event_buffer_push literal_buffer_env ts v)
       [(1, JString ''a''), (2, JString ''b''), (3, JString ''c'')] (event_buffer_new 2))
   = drop (length [(1 :: int, JString ''a''), (2, JString ''b''), (3, JString ''c'')] - max 2 1)
       (map snd [(1 :: int, JString ''a''), (2, JString ''b''), (3, JString ''c'')])"
  by (rule event_buffer_newest)
     (auto simp: deflate_law_def json_codec_law_def literal_buffer_env_def)

end
