(* ===== verification/Timestamp.thy ===== *)
theory Timestamp
  imports Env
begin

text \<open>
  Event timestamps (\<open>rsigma-eval/src/timestamp.rs\<close>): epochs in seconds or milliseconds, and the
  accepted date formats.  The calendar itself is \<open>chrono\<close>, a parameter.
\<close>

definition epoch_millis_threshold :: int where
  "epoch_millis_threshold = 1000000000000"

definition normalize_epoch :: "int \<Rightarrow> int" where
  "normalize_epoch v = (if epoch_millis_threshold < v then v div 1000 else v)"

definition epoch_seconds_from_int :: "ext_env \<Rightarrow> int \<Rightarrow> int option" where
  "epoch_seconds_from_int env v =
     (if v < 0 then None
      else let secs = normalize_epoch v in map_option (\<lambda>_. secs) (dt_from_timestamp env secs))"

definition epoch_seconds_from_float :: "ext_env \<Rightarrow> f64 \<Rightarrow> int option" where
  "epoch_seconds_from_float env v =
     (if \<not> f64_is_finite v \<or> f64_lt v (Fin 0) \<or> f64_le (f64_of_int i64_max) v then None
      else epoch_seconds_from_int env (f64_as_i64 v))"

definition naive_formats :: "string list" where
  "naive_formats = [''%Y-%m-%dT%H:%M:%S%.f'', ''%Y-%m-%d %H:%M:%S%.f'']"

definition parse_timestamp_str :: "ext_env \<Rightarrow> string \<Rightarrow> datetime option" where
  "parse_timestamp_str env s =
     (case dt_parse_rfc3339 env s of
        Some dt \<Rightarrow> Some dt
      | None \<Rightarrow> find_map (dt_parse_naive env s) naive_formats)"

lemma div_1000_bounds: "0 \<le> (v::int) \<Longrightarrow> 0 \<le> v div 1000 \<and> v div 1000 \<le> v"
  using zdiv_mono2 [of v 1 1000] by (simp add: pos_imp_zdiv_nonneg_iff)

lemma normalize_epoch_bounds:
  assumes "0 \<le> v" shows "0 \<le> normalize_epoch v" and "normalize_epoch v \<le> v"
  using div_1000_bounds [OF assms] assms by (simp_all only: normalize_epoch_def split: if_split) auto

lemma epoch_seconds_from_int_range:
  "epoch_seconds_from_int env v = Some t \<Longrightarrow> 0 \<le> t \<and> t \<le> v"
  by (auto simp: epoch_seconds_from_int_def Let_def normalize_epoch_bounds split: if_splits)

lemma trunc_rat_nonneg: "0 \<le> r \<Longrightarrow> trunc_rat r = \<lfloor>r\<rfloor>"
  by (simp add: trunc_rat_def)

lemma epoch_seconds_from_float_range:
  "epoch_seconds_from_float env v = Some t \<Longrightarrow> 0 \<le> t \<and> in_i64 t"
  by (cases v)
     (auto simp: epoch_seconds_from_float_def clamp_int_def in_i64_def i64_min_def i64_max_def
           split: if_splits dest!: epoch_seconds_from_int_range)

end
