(* ===== verification/Matcher.thy ===== *)
theory Matcher
  imports Hir Timestamp
begin

text \<open>
  Compiled matchers and their evaluation against event values
  (\<open>rsigma-eval/src/matcher/\{mod,matching,helpers\}.rs\<close>).  A regex, regex set, automaton or network
  is its source text; what it matches is a parameter (\<open>Env\<close>).
\<close>

section \<open>Matchers\<close>

datatype group_mode = GmAny | GmAll

datatype compiled_matcher =
  CmExact string bool
| CmContains string bool
| CmStartsWith string bool
| CmEndsWith string bool
| CmRegex string
| CmAhoCorasickSet bool "string list"
| CmRegexSetMatch "string list" group_mode
| CmCidr string
| CmNumericEq numeric_literal
| CmNumericGt numeric_literal
| CmNumericGte numeric_literal
| CmNumericLt numeric_literal
| CmNumericLte numeric_literal
| CmExists bool
| CmFieldRef string ir_str_op bool
| CmNull
| CmBoolEq bool
| CmExpand "ir_expand_part list" ir_str_op bool
| CmTimestampPart time_part compiled_matcher
| CmNot compiled_matcher
| CmAnyOf "compiled_matcher list"
| CmAllOf "compiled_matcher list"
| CmCaseInsensitiveGroup "compiled_matcher list" group_mode

section \<open>Helpers\<close>

definition ascii_lowercase_cow :: "ext_env \<Rightarrow> string \<Rightarrow> string" where
  "ascii_lowercase_cow env s =
     (if is_ascii s \<and> list_all (\<lambda>b. \<not> is_ascii_upper b) s then s
      else if is_ascii s then map ascii_lower_char s
      else to_lowercase env s)"

fun match_str_value :: "ext_env \<Rightarrow> (string \<Rightarrow> bool) \<Rightarrow> event_value \<Rightarrow> bool" where
  "match_str_value env pred (EvStr s) = pred s"
| "match_str_value env pred (EvInt n) = pred (show_int n)"
| "match_str_value env pred (EvFloat f) = pred (f64_display env f)"
| "match_str_value env pred (EvBool b) = pred (show_bool b)"
| "match_str_value env pred (EvArray arr) = list_ex (match_str_value env pred) arr"
| "match_str_value env pred _ = False"

datatype numeric_op = NoEq | NoGt | NoGte | NoLt | NoLte

fun numeric_op_holds :: "numeric_op \<Rightarrow> ordering \<Rightarrow> bool" where
  "numeric_op_holds NoEq ord = (ord = Equal)"
| "numeric_op_holds NoGt ord = (ord = Greater)"
| "numeric_op_holds NoGte ord = (ord \<noteq> Less)"
| "numeric_op_holds NoLt ord = (ord = Less)"
| "numeric_op_holds NoLte ord = (ord \<noteq> Greater)"

fun numeric_op_holds_f64 :: "numeric_op \<Rightarrow> f64 \<Rightarrow> f64 \<Rightarrow> bool" where
  "numeric_op_holds_f64 NoEq v n = f64_lt (f64_abs (f64_sub v n)) f64_epsilon"
| "numeric_op_holds_f64 NoGt v n = f64_lt n v"
| "numeric_op_holds_f64 NoGte v n = f64_le n v"
| "numeric_op_holds_f64 NoLt v n = f64_lt v n"
| "numeric_op_holds_f64 NoLte v n = f64_le v n"

definition two_pow_63 :: f64 where
  "two_pow_63 = Fin 9223372036854775808"

definition cmp_f64_i64 :: "f64 \<Rightarrow> int \<Rightarrow> ordering option" where
  "cmp_f64_i64 f n =
     (if f = NaN then None
      else if f64_le two_pow_63 f then Some Greater
      else if f64_lt f (f64_neg two_pow_63) then Some Less
      else let fl = f64_floor f; ord = cmp_of (f64_as_i64 fl) n
           in if ord = Equal \<and> \<not> f64_eq f fl then Some Greater else Some ord)"

definition compare_numbers :: "numeric_op \<Rightarrow> numeric_literal \<Rightarrow> numeric_literal \<Rightarrow> bool" where
  "compare_numbers op v lit =
     (case lit of
        NlFloat n \<Rightarrow> numeric_op_holds_f64 op (numeric_literal_as_f64 v) n
      | NlInteger n \<Rightarrow>
          (case v of
             NlInteger i \<Rightarrow> numeric_op_holds op (cmp_of i n)
           | NlFloat f \<Rightarrow>
               (case cmp_f64_i64 f n of Some ord \<Rightarrow> numeric_op_holds op ord | None \<Rightarrow> False)))"

fun match_numeric_value ::
    "ext_env \<Rightarrow> event_value \<Rightarrow> numeric_op \<Rightarrow> numeric_literal \<Rightarrow> bool" where
  "match_numeric_value env (EvInt n) op lit = compare_numbers op (NlInteger n) lit"
| "match_numeric_value env (EvFloat f) op lit = compare_numbers op (NlFloat f) lit"
| "match_numeric_value env (EvStr s) op lit =
     (case numeric_literal_parse env s of Some v \<Rightarrow> compare_numbers op v lit | None \<Rightarrow> False)"
| "match_numeric_value env (EvArray arr) op lit =
     list_ex (\<lambda>v. match_numeric_value env v op lit) arr"
| "match_numeric_value env _ op lit = False"

fun regex_part :: "ext_env \<Rightarrow> string_part \<Rightarrow> string" where
  "regex_part env (Plain text) = re_escape env text"
| "regex_part env (Special WildcardMulti) = ''.*''"
| "regex_part env (Special WildcardSingle) = ''.''"

definition sigma_string_to_regex :: "ext_env \<Rightarrow> string_part list \<Rightarrow> bool \<Rightarrow> string" where
  "sigma_string_to_regex env ps ci =
     (if ci then ''(?is)'' else ''(?s)'') @ ''^'' @ concat (map (regex_part env) ps) @ ''$''"

definition expand_part :: "ext_env \<Rightarrow> event \<Rightarrow> ir_expand_part \<Rightarrow> string" where
  "expand_part env ev part =
     (case part of
        ExLiteral s \<Rightarrow> s
      | ExPlaceholder field \<Rightarrow>
          (case ev_get_field ev field of
             Some v \<Rightarrow> (case ev_as_str env v of Some s \<Rightarrow> s | None \<Rightarrow> [])
           | None \<Rightarrow> []))"

definition expand_template :: "ext_env \<Rightarrow> ir_expand_part list \<Rightarrow> event \<Rightarrow> string" where
  "expand_template env template ev = concat (map (expand_part env ev) template)"

text \<open>
  \<open>parse_expand_template\<close>: the loop with its \<open>literal\<close> accumulator; \<open>find_any\<close> is
  \<open>rest.find([...])\<close>.
\<close>

definition find_any :: "string \<Rightarrow> string \<Rightarrow> nat option" where
  "find_any cs s =
     (let i = length (takeWhile (\<lambda>c. c \<notin> set cs) s) in if i < length s then Some i else None)"

definition flush_literal :: "string \<Rightarrow> ir_expand_part list" where
  "flush_literal literal = (if literal \<noteq> [] then [ExLiteral literal] else [])"

function expand_loop :: "string \<Rightarrow> string \<Rightarrow> ir_expand_part list" where
  "expand_loop literal [] = flush_literal literal"
| "expand_loop literal (c # rest) =
     (if c = bs then
        (case rest of
           d # rest' \<Rightarrow>
             if d \<in> {star, qmark, CHR ''%'', bs} then expand_loop (literal @ [d]) rest'
             else expand_loop (literal @ [bs]) rest
         | [] \<Rightarrow> expand_loop (literal @ [bs]) rest)
      else if c = CHR ''%'' then
        (case find_any [CHR ''%'', star, qmark, bs] rest of
           Some len \<Rightarrow>
             if 0 < len \<and> rest ! len = CHR ''%'' then
               flush_literal literal @ ExPlaceholder (take len rest)
                 # expand_loop [] (drop (len + 1) rest)
             else expand_loop (literal @ ''%'') rest
         | None \<Rightarrow> expand_loop (literal @ ''%'') rest)
      else expand_loop (literal @ [c]) rest)"
  by pat_completeness auto
termination
  by (relation "measure (\<lambda>(_, s). length s)") auto

definition parse_expand_template :: "string \<Rightarrow> ir_expand_part list" where
  "parse_expand_template s = expand_loop [] s"

fun extract_part_from_datetime :: "datetime \<Rightarrow> time_part \<Rightarrow> int" where
  "extract_part_from_datetime dt TpMinute = int (dt_minute dt)"
| "extract_part_from_datetime dt TpHour = int (dt_hour dt)"
| "extract_part_from_datetime dt TpDay = int (dt_day dt)"
| "extract_part_from_datetime dt TpWeek = int (dt_iso_week dt)"
| "extract_part_from_datetime dt TpMonth = int (dt_month dt)"
| "extract_part_from_datetime dt TpYear = dt_year dt"

definition extract_timestamp_part :: "ext_env \<Rightarrow> event_value \<Rightarrow> time_part \<Rightarrow> int option" where
  "extract_timestamp_part env v part =
     map_option (\<lambda>dt. extract_part_from_datetime dt part)
       (case v of
          EvStr s \<Rightarrow> parse_timestamp_str env s
        | EvInt n \<Rightarrow> dt_from_timestamp env (normalize_epoch n)
        | EvFloat f \<Rightarrow> dt_from_timestamp env (normalize_epoch (f64_as_i64 f))
        | _ \<Rightarrow> None)"

definition match_cidr :: "ext_env \<Rightarrow> event_value \<Rightarrow> string \<Rightarrow> bool" where
  "match_cidr env v net = match_str_value env (ip_net_contains env net) v"

section \<open>Matching\<close>

text \<open>\<open>regex_set_matches\<close>: \<open>is_match\<close>, or as many hits as there are patterns.\<close>

fun regex_set_matches :: "ext_env \<Rightarrow> string list \<Rightarrow> group_mode \<Rightarrow> string \<Rightarrow> bool" where
  "regex_set_matches env set_patterns GmAny s = re_set_is_match env set_patterns s"
| "regex_set_matches env set_patterns GmAll s =
     (length (re_set_matches env set_patterns s) = length set_patterns)"

fun runtime_str_cmp :: "ir_str_op \<Rightarrow> string \<Rightarrow> string \<Rightarrow> bool" where
  "runtime_str_cmp OpContains haystack needle = contains_str haystack needle"
| "runtime_str_cmp OpStartsWith haystack needle = starts_with haystack needle"
| "runtime_str_cmp OpEndsWith haystack needle = ends_with haystack needle"
| "runtime_str_cmp OpExact haystack needle = (haystack = needle)"

definition runtime_str_match :: "ext_env \<Rightarrow> ir_str_op \<Rightarrow> string \<Rightarrow> string \<Rightarrow> bool \<Rightarrow> bool" where
  "runtime_str_match env op haystack needle ci =
     (if ci then runtime_str_cmp op (to_lowercase env haystack) (to_lowercase env needle)
      else runtime_str_cmp op haystack needle)"

fun matches_absent :: "compiled_matcher \<Rightarrow> bool" where
  "matches_absent CmNull = True"
| "matches_absent (CmExists expect) = (\<not> expect)"
| "matches_absent (CmNot inner) = (\<not> matches_absent inner)"
| "matches_absent (CmAnyOf matchers) = list_ex matches_absent matchers"
| "matches_absent (CmAllOf matchers) = list_all matches_absent matchers"
| "matches_absent _ = False"

text \<open>\<open>matches_pre_lowered\<close>: the haystack is already lowercased; other matchers do not match.\<close>

fun matches_pre_lowered :: "ext_env \<Rightarrow> compiled_matcher \<Rightarrow> string \<Rightarrow> bool" where
  "matches_pre_lowered env (CmContains value True) s = contains_str s value"
| "matches_pre_lowered env (CmStartsWith value True) s = starts_with s value"
| "matches_pre_lowered env (CmEndsWith value True) s = ends_with s value"
| "matches_pre_lowered env (CmExact value True) s = (s = value)"
| "matches_pre_lowered env (CmRegex re) s = re_is_match env re s"
| "matches_pre_lowered env (CmAhoCorasickSet True needles) s = ac_is_match env needles s"
| "matches_pre_lowered env (CmRegexSetMatch ps mode) s = regex_set_matches env ps mode s"
| "matches_pre_lowered env (CmNot inner) s = (\<not> matches_pre_lowered env inner s)"
| "matches_pre_lowered env (CmAnyOf ms) s = list_ex (\<lambda>m. matches_pre_lowered env m s) ms"
| "matches_pre_lowered env (CmAllOf ms) s = list_all (\<lambda>m. matches_pre_lowered env m s) ms"
| "matches_pre_lowered env (CmCaseInsensitiveGroup children GmAny) s =
     list_ex (\<lambda>m. matches_pre_lowered env m s) children"
| "matches_pre_lowered env (CmCaseInsensitiveGroup children GmAll) s =
     list_all (\<lambda>m. matches_pre_lowered env m s) children"
| "matches_pre_lowered env _ s = False"

fun matches_str :: "ext_env \<Rightarrow> compiled_matcher \<Rightarrow> string \<Rightarrow> bool" where
  "matches_str env (CmExact expected ci) s =
     (if ci then to_lowercase env s = expected else s = expected)"
| "matches_str env (CmContains needle ci) s =
     (if ci then contains_str (to_lowercase env s) needle else contains_str s needle)"
| "matches_str env (CmStartsWith pre ci) s =
     (if ci then starts_with (to_lowercase env s) pre else starts_with s pre)"
| "matches_str env (CmEndsWith suf ci) s =
     (if ci then ends_with (to_lowercase env s) suf else ends_with s suf)"
| "matches_str env (CmRegex re) s = re_is_match env re s"
| "matches_str env (CmAhoCorasickSet ci needles) s =
     (if ci then ac_is_match env needles (ascii_lowercase_cow env s) else ac_is_match env needles s)"
| "matches_str env (CmRegexSetMatch ps mode) s = regex_set_matches env ps mode s"
| "matches_str env (CmNot inner) s = (\<not> matches_str env inner s)"
| "matches_str env (CmAnyOf matchers) s = list_ex (\<lambda>m. matches_str env m s) matchers"
| "matches_str env (CmAllOf matchers) s = list_all (\<lambda>m. matches_str env m s) matchers"
| "matches_str env (CmCaseInsensitiveGroup children mode) s =
     (let lowered = ascii_lowercase_cow env s
      in case mode of
           GmAny \<Rightarrow> list_ex (\<lambda>c. matches_pre_lowered env c lowered) children
         | GmAll \<Rightarrow> list_all (\<lambda>c. matches_pre_lowered env c lowered) children)"
| "matches_str env _ s = False"

text \<open>The arms of \<open>matches\<close> that recurse into array values.\<close>

fun match_bool_eq :: "ext_env \<Rightarrow> bool \<Rightarrow> event_value \<Rightarrow> bool" where
  "match_bool_eq env expected (EvBool b) = (b = expected)"
| "match_bool_eq env expected (EvStr s) =
     (case bool_of_text env s of
        Some True \<Rightarrow> expected
      | Some False \<Rightarrow> \<not> expected
      | None \<Rightarrow> False)"
| "match_bool_eq env expected (EvInt n) =
     (if n = 1 then expected else if n = 0 then \<not> expected else False)"
| "match_bool_eq env expected (EvFloat f) =
     (if f64_eq f (Fin 1) then expected else if f64_eq f (Fin 0) then \<not> expected else False)"
| "match_bool_eq env expected (EvArray arr) = list_ex (match_bool_eq env expected) arr"
| "match_bool_eq env expected _ = False"

fun match_timestamp ::
    "ext_env \<Rightarrow> time_part \<Rightarrow> (event_value \<Rightarrow> bool) \<Rightarrow> event_value \<Rightarrow> bool" where
  "match_timestamp env part inner (EvArray arr) = list_ex (match_timestamp env part inner) arr"
| "match_timestamp env part inner v =
     (case extract_timestamp_part env v part of Some n \<Rightarrow> inner (EvInt n) | None \<Rightarrow> False)"

definition match_field_ref ::
    "ext_env \<Rightarrow> event \<Rightarrow> string \<Rightarrow> ir_str_op \<Rightarrow> bool \<Rightarrow> event_value \<Rightarrow> bool" where
  "match_field_ref env ev ref_field op ci v =
     (case ev_get_field ev ref_field of
        None \<Rightarrow> False
      | Some ref_value \<Rightarrow>
          (case op of
             OpExact \<Rightarrow>
               (if ci then
                  (case (ev_as_str env v, ev_as_str env ref_value) of
                     (Some a, Some b) \<Rightarrow> to_lowercase env a = to_lowercase env b
                   | _ \<Rightarrow> ev_eq v ref_value)
                else ev_eq v ref_value)
           | _ \<Rightarrow>
               (case ev_as_str env ref_value of
                  None \<Rightarrow> False
                | Some needle \<Rightarrow>
                    match_str_value env (\<lambda>s. runtime_str_match env op s needle ci) v)))"

text \<open>
  \<open>matches\<close>.  The string leaves and the group apply \<open>matches_str\<close>'s test to every string form of
  the value; the code repeats those arms in both methods.
\<close>

fun matches :: "ext_env \<Rightarrow> event \<Rightarrow> compiled_matcher \<Rightarrow> event_value \<Rightarrow> bool" where
  "matches env ev (CmExact expected ci) v =
     match_str_value env
       (\<lambda>s. if ci then to_lowercase env s = expected else s = expected) v"
| "matches env ev (CmContains needle ci) v =
     match_str_value env
       (\<lambda>s. if ci then contains_str (to_lowercase env s) needle else contains_str s needle) v"
| "matches env ev (CmStartsWith pre ci) v =
     match_str_value env
       (\<lambda>s. if ci then starts_with (to_lowercase env s) pre else starts_with s pre) v"
| "matches env ev (CmEndsWith suf ci) v =
     match_str_value env
       (\<lambda>s. if ci then ends_with (to_lowercase env s) suf else ends_with s suf) v"
| "matches env ev (CmRegex re) v = match_str_value env (re_is_match env re) v"
| "matches env ev (CmAhoCorasickSet ci needles) v =
     match_str_value env
       (\<lambda>s. if ci then ac_is_match env needles (ascii_lowercase_cow env s)
            else ac_is_match env needles s) v"
| "matches env ev (CmRegexSetMatch ps mode) v =
     match_str_value env (regex_set_matches env ps mode) v"
| "matches env ev (CmCidr net) v = match_cidr env v net"
| "matches env ev (CmNumericEq n) v = match_numeric_value env v NoEq n"
| "matches env ev (CmNumericGt n) v = match_numeric_value env v NoGt n"
| "matches env ev (CmNumericGte n) v = match_numeric_value env v NoGte n"
| "matches env ev (CmNumericLt n) v = match_numeric_value env v NoLt n"
| "matches env ev (CmNumericLte n) v = match_numeric_value env v NoLte n"
| "matches env ev (CmExists expect) v = expect"
| "matches env ev (CmFieldRef ref_field op ci) v = match_field_ref env ev ref_field op ci v"
| "matches env ev CmNull v = ev_is_null v"
| "matches env ev (CmBoolEq expected) v = match_bool_eq env expected v"
| "matches env ev (CmExpand template op ci) v =
     (let expanded = expand_template env template ev
      in match_str_value env (\<lambda>s. runtime_str_match env op s expanded ci) v)"
| "matches env ev (CmTimestampPart part inner) v =
     match_timestamp env part (\<lambda>x. matches env ev inner x) v"
| "matches env ev (CmNot inner) v = (\<not> matches env ev inner v)"
| "matches env ev (CmAnyOf matchers) v = list_ex (\<lambda>m. matches env ev m v) matchers"
| "matches env ev (CmAllOf matchers) v = list_all (\<lambda>m. matches env ev m v) matchers"
| "matches env ev (CmCaseInsensitiveGroup children mode) v =
     match_str_value env
       (\<lambda>s. let lowered = ascii_lowercase_cow env s
            in case mode of
                 GmAny \<Rightarrow> list_ex (\<lambda>c. matches_pre_lowered env c lowered) children
               | GmAll \<Rightarrow> list_all (\<lambda>c. matches_pre_lowered env c lowered) children) v"

text \<open>Keyword matching over every string of an event.\<close>

fun matches_keyword :: "ext_env \<Rightarrow> event \<Rightarrow> compiled_matcher \<Rightarrow> bool" where
  "matches_keyword env ev (CmAllOf children) = list_all (matches_keyword env ev) children"
| "matches_keyword env ev (CmCaseInsensitiveGroup children GmAll) =
     list_all (matches_keyword env ev) children"
| "matches_keyword env ev (CmNot inner) = (\<not> matches_keyword env ev inner)"
| "matches_keyword env ev m = ev_any_string_value ev (\<lambda>s. matches_str env m s)"

section \<open>Describing matchers\<close>

datatype matcher_kind =
  MkExact | MkContains | MkStartsWith | MkEndsWith | MkRegex | MkOneOf | MkCidr | MkNumeric
| MkExists | MkFieldRef | MkNull | MkBool | MkExpand | MkTimestamp | MkKeyword

record match_descriptor =
  md_kind :: matcher_kind
  md_pattern :: "string option"
  md_case_sensitive :: "bool option"
  md_negated :: bool

definition max_pattern_len :: nat where
  "max_pattern_len = 256"

text \<open>\<open>is_char_boundary\<close>: not inside a multi-byte sequence (a continuation byte is \<open>10xxxxxx\<close>).\<close>

definition is_char_boundary :: "string \<Rightarrow> nat \<Rightarrow> bool" where
  "is_char_boundary s i =
     (i = 0 \<or> i = length s
      \<or> (i < length s \<and> \<not> (128 \<le> (of_char (s ! i) :: nat) \<and> of_char (s ! i) < (192 :: nat))))"

fun back_to_boundary :: "string \<Rightarrow> nat \<Rightarrow> nat" where
  "back_to_boundary s 0 = 0"
| "back_to_boundary s (Suc e) = (if is_char_boundary s (Suc e) then Suc e else back_to_boundary s e)"

definition truncate_pattern :: "string \<Rightarrow> string" where
  "truncate_pattern s =
     (if length s \<le> max_pattern_len then s
      else take (back_to_boundary s (max_pattern_len - 3)) s @ ''...'')"

definition mk_descriptor ::
    "matcher_kind \<Rightarrow> string option \<Rightarrow> bool option \<Rightarrow> match_descriptor" where
  "mk_descriptor kind pat cs =
     \<lparr> md_kind = kind, md_pattern = pat, md_case_sensitive = cs, md_negated = False \<rparr>"

definition numeric_descriptor :: "ext_env \<Rightarrow> string \<Rightarrow> numeric_literal \<Rightarrow> match_descriptor" where
  "numeric_descriptor env op n =
     mk_descriptor MkNumeric (Some (op @ '' '' @ show_numeric_literal env n)) None"

fun expand_part_to_string :: "ir_expand_part \<Rightarrow> string" where
  "expand_part_to_string (ExLiteral t) = t"
| "expand_part_to_string (ExPlaceholder name) = ''%'' @ name @ ''%''"

definition expand_template_to_string :: "ir_expand_part list \<Rightarrow> string" where
  "expand_template_to_string ps = concat (map expand_part_to_string ps)"

fun describe :: "ext_env \<Rightarrow> compiled_matcher \<Rightarrow> match_descriptor" where
  "describe env (CmExact value ci) =
     mk_descriptor MkExact (Some (truncate_pattern value)) (Some (\<not> ci))"
| "describe env (CmContains value ci) =
     mk_descriptor MkContains (Some (truncate_pattern value)) (Some (\<not> ci))"
| "describe env (CmStartsWith value ci) =
     mk_descriptor MkStartsWith (Some (truncate_pattern value)) (Some (\<not> ci))"
| "describe env (CmEndsWith value ci) =
     mk_descriptor MkEndsWith (Some (truncate_pattern value)) (Some (\<not> ci))"
| "describe env (CmRegex re) = mk_descriptor MkRegex (Some (truncate_pattern re)) None"
| "describe env (CmAhoCorasickSet ci needles) =
     mk_descriptor MkOneOf (Some (truncate_pattern (join_str '', '' needles))) (Some (\<not> ci))"
| "describe env (CmRegexSetMatch ps mode) =
     mk_descriptor MkOneOf (Some (truncate_pattern (join_str '', '' ps))) None"
| "describe env (CmCidr net) = mk_descriptor MkCidr (Some net) None"
| "describe env (CmNumericEq n) = numeric_descriptor env ''='' n"
| "describe env (CmNumericGt n) = numeric_descriptor env ''>'' n"
| "describe env (CmNumericGte n) = numeric_descriptor env ''>='' n"
| "describe env (CmNumericLt n) = numeric_descriptor env ''<'' n"
| "describe env (CmNumericLte n) = numeric_descriptor env ''<='' n"
| "describe env (CmExists expect) = mk_descriptor MkExists (Some (show_bool expect)) None"
| "describe env (CmFieldRef field op ci) = mk_descriptor MkFieldRef (Some field) (Some (\<not> ci))"
| "describe env CmNull = mk_descriptor MkNull None None"
| "describe env (CmBoolEq b) = mk_descriptor MkBool (Some (show_bool b)) None"
| "describe env (CmExpand template op ci) =
     mk_descriptor MkExpand (Some (truncate_pattern (expand_template_to_string template)))
       (Some (\<not> ci))"
| "describe env (CmTimestampPart part inner) =
     (let d = describe env inner in d \<lparr> md_kind := MkTimestamp \<rparr>)"
| "describe env (CmNot inner) =
     (let d = describe env inner in d \<lparr> md_negated := \<not> md_negated d \<rparr>)"
| "describe env (CmAnyOf ms) =
     mk_descriptor MkOneOf
       (Some (truncate_pattern (join_str '', ''
         (filter_map (\<lambda>c. md_pattern (describe env c)) ms)))) None"
| "describe env (CmAllOf ms) =
     mk_descriptor MkOneOf
       (Some (truncate_pattern (join_str '', ''
         (filter_map (\<lambda>c. md_pattern (describe env c)) ms)))) None"
| "describe env (CmCaseInsensitiveGroup children mode) =
     mk_descriptor MkOneOf
       (Some (truncate_pattern (join_str '', ''
         (filter_map (\<lambda>c. md_pattern (describe env c)) children)))) (Some False)"

section \<open>Lemmas\<close>

lemma ascii_lowercase_cow_eq: "ascii_lowercase_cow env s = to_lowercase env s"
proof -
  have "map ascii_lower_char s = s" if "list_all (\<lambda>b. \<not> is_ascii_upper b) s"
    using that by (induction s) (simp_all add: ascii_lower_noop)
  then show ?thesis by (auto simp: ascii_lowercase_cow_def to_lowercase_def)
qed

text \<open>The string forms of a value: what \<open>match_str_value\<close> tests.\<close>

fun value_strings :: "ext_env \<Rightarrow> event_value \<Rightarrow> string list" where
  "value_strings env (EvStr s) = [s]"
| "value_strings env (EvInt n) = [show_int n]"
| "value_strings env (EvFloat f) = [f64_display env f]"
| "value_strings env (EvBool b) = [show_bool b]"
| "value_strings env (EvArray arr) = concat (map (value_strings env) arr)"
| "value_strings env _ = []"

lemma match_str_value_iff:
  "match_str_value env pred v \<longleftrightarrow> list_ex pred (value_strings env v)"
  by (induction env pred v rule: match_str_value.induct)
     (auto simp: list_ex_concat list_ex_iff comp_def)

text \<open>Matchers whose test is a predicate on single strings.\<close>

fun str_leaf :: "compiled_matcher \<Rightarrow> bool" where
  "str_leaf (CmExact _ _) = True"
| "str_leaf (CmContains _ _) = True"
| "str_leaf (CmStartsWith _ _) = True"
| "str_leaf (CmEndsWith _ _) = True"
| "str_leaf (CmRegex _) = True"
| "str_leaf (CmAhoCorasickSet _ _) = True"
| "str_leaf (CmRegexSetMatch _ _) = True"
| "str_leaf (CmCaseInsensitiveGroup _ _) = True"
| "str_leaf _ = False"

lemma matches_str_leaf:
  "str_leaf m \<Longrightarrow> matches env ev m v = match_str_value env (matches_str env m) v"
  by (cases m) (simp_all add: match_str_value_iff list_ex_iff Let_def)

text \<open>The comparison of a float with an integer is exact, although the cast would round.\<close>

lemma trunc_rat_of_int [simp]: "trunc_rat (of_int i) = i"
  by (simp add: trunc_rat_def flip: of_int_minus)

lemma cmp_floor:
  "cmp_of r (of_int n) = (if cmp_of \<lfloor>r\<rfloor> n = Equal \<and> r \<noteq> of_int \<lfloor>r\<rfloor> then Greater else cmp_of \<lfloor>r\<rfloor> n)"
  for r :: rat
proof -
  have le: "of_int \<lfloor>r\<rfloor> \<le> r" by (rule of_int_floor_le)
  have lt: "r < of_int n \<longleftrightarrow> \<lfloor>r\<rfloor> < n" by (simp add: floor_less_iff)
  show ?thesis
  proof (cases "\<lfloor>r\<rfloor> < n")
    case True
    with lt show ?thesis by (simp add: cmp_of_def)
  next
    case False
    then have "n \<le> \<lfloor>r\<rfloor>" by simp
    then have "of_int n \<le> r" by (simp add: le_floor_iff)
    moreover have "r = of_int n \<Longrightarrow> \<lfloor>r\<rfloor> = n" by simp
    ultimately show ?thesis using False lt by (auto simp: cmp_of_def)
  qed
qed

lemma cmp_f64_i64_exact:
  assumes "in_i64 n"
  shows "cmp_f64_i64 (Fin r) n = Some (cmp_of r (of_int n))"
proof -
  have "of_int n < (of_int 9223372036854775808 :: rat)"
    and "of_int (- 9223372036854775808) \<le> (of_int n :: rat)"
    using assms unfolding in_i64_def i64_min_def i64_max_def of_int_less_iff of_int_le_iff by simp_all
  then have n: "of_int n < (9223372036854775808 :: rat)" "- 9223372036854775808 \<le> (of_int n :: rat)"
    by simp_all
  have big: "f64_le two_pow_63 (Fin r) \<longleftrightarrow> 9223372036854775808 \<le> r"
    and small: "f64_lt (Fin r) (f64_neg two_pow_63) \<longleftrightarrow> r < - 9223372036854775808"
    by (simp_all add: two_pow_63_def)
  consider "9223372036854775808 \<le> r" | "r < - 9223372036854775808"
    | "- 9223372036854775808 \<le> r" "r < 9223372036854775808" by linarith
  then show ?thesis
  proof cases
    case 1
    with n have "of_int n < r" by linarith
    with 1 big show ?thesis by (simp add: cmp_f64_i64_def cmp_of_def)
  next
    case 2
    with n have "r < of_int n" by linarith
    with 2 big small show ?thesis by (simp add: cmp_f64_i64_def cmp_of_def)
  next
    case 3
    then have "- 9223372036854775808 \<le> \<lfloor>r\<rfloor>" "\<lfloor>r\<rfloor> < 9223372036854775808"
      by (simp_all add: le_floor_iff floor_less_iff)
    then have "f64_as_i64 (f64_floor (Fin r)) = \<lfloor>r\<rfloor>"
      by (simp add: clamp_int_def i64_min_def i64_max_def)
    with 3 big small cmp_floor [of r n] show ?thesis
      by (simp add: cmp_f64_i64_def Let_def eq_commute)
  qed
qed

lemma back_to_boundary_le: "back_to_boundary s n \<le> n"
  by (induction n) auto

lemma back_to_boundary_ok: "is_char_boundary s (back_to_boundary s n)"
  by (induction n) (auto simp: is_char_boundary_def)

lemma truncate_pattern_length: "length (truncate_pattern s) \<le> max_pattern_len"
proof (cases "length s \<le> max_pattern_len")
  case True
  then show ?thesis by (simp add: truncate_pattern_def)
next
  case False
  have "length (truncate_pattern s) \<le> back_to_boundary s (max_pattern_len - 3) + 3"
    using False by (simp add: truncate_pattern_def)
  also have "\<dots> \<le> (max_pattern_len - 3) + 3" using back_to_boundary_le by (rule add_right_mono)
  finally show ?thesis by (simp add: max_pattern_len_def)
qed

lemma matches_keyword_iff:
  assumes "event_wf ev" and "\<And>cs. m \<noteq> CmAllOf cs" and "\<And>c. m \<noteq> CmNot c"
    and "\<And>cs. m \<noteq> CmCaseInsensitiveGroup cs GmAll"
  shows "matches_keyword env ev m \<longleftrightarrow> list_ex (matches_str env m) (ev_all_string_values ev)"
proof (cases m)
  case (CmCaseInsensitiveGroup cs mode)
  with assms(1) assms(4) [of cs] show ?thesis
    by (cases mode) (simp_all add: event_wf_def list_ex_iff)
qed (use assms in \<open>simp_all add: event_wf_def list_ex_iff\<close>)

section \<open>Properties\<close>

text \<open>
  Comparing a finite float with an i64 is exact: no rounding through f64, at any magnitude.
\<close>

theorem cmp_f64_i64_is_exact:
  assumes "in_i64 n"
  shows "cmp_f64_i64 (Fin r) n = Some (cmp_of r (of_int n))"
  by (rule cmp_f64_i64_exact [OF assms])

theorem cmp_f64_i64_is_exact_witness:
  "cmp_f64_i64 (Fin 9007199254740992) 9007199254740993
   = Some (cmp_of (9007199254740992 :: rat) (of_int 9007199254740993))"
  by (rule cmp_f64_i64_is_exact) (simp add: in_i64_def i64_min_def i64_max_def)

end
