(* ===== verification/Optimizer.thy ===== *)
theory Optimizer
  imports Matcher
begin

text \<open>
  The matcher optimizer (\<open>rsigma-eval/src/compiler/optimizer.rs\<close>): batching of substring needles
  into an automaton and of regexes into a regex set, and the group that lowercases its haystack
  once.  The lemmas show that the rewritten group matches the same values, absent fields and
  keywords as the disjunction it replaces.
\<close>

definition aho_corasick_threshold :: nat where "aho_corasick_threshold = 8"
definition ci_group_threshold :: nat where "ci_group_threshold = 2"
definition regex_set_threshold :: nat where "regex_set_threshold = 3"

section \<open>Case-insensitive regexes\<close>

text \<open>\<open>flags_set_case_insensitive\<close>: the loop with its \<open>negated\<close> and \<open>effect\<close> variables.\<close>

fun flags_loop :: "bool \<Rightarrow> bool option \<Rightarrow> re_flag_item list \<Rightarrow> bool option" where
  "flags_loop negated effect [] = effect"
| "flags_loop negated effect (FlagNegation # items) = flags_loop True effect items"
| "flags_loop negated effect (FlagCaseInsensitive # items) =
     flags_loop negated (Some (\<not> negated)) items"
| "flags_loop negated effect (FlagOther # items) = flags_loop negated effect items"

definition flags_set_case_insensitive :: "re_flag_item list \<Rightarrow> bool option" where
  "flags_set_case_insensitive items = flags_loop False None items"

fun never_clears_case_insensitive :: "re_ast \<Rightarrow> bool" where
  "never_clears_case_insensitive (ReFlags items) =
     (flags_set_case_insensitive items \<noteq> Some False)"
| "never_clears_case_insensitive (ReGroup kind ast) =
     (let clears = (case kind of
                      GroupNonCapturing items \<Rightarrow> flags_set_case_insensitive items = Some False
                    | _ \<Rightarrow> False)
      in \<not> clears \<and> never_clears_case_insensitive ast)"
| "never_clears_case_insensitive (ReConcat asts) = list_all never_clears_case_insensitive asts"
| "never_clears_case_insensitive (ReAlternation asts) = list_all never_clears_case_insensitive asts"
| "never_clears_case_insensitive (ReRepetition ast) = never_clears_case_insensitive ast"
| "never_clears_case_insensitive ReOther = True"

definition regex_is_case_insensitive :: "ext_env \<Rightarrow> string \<Rightarrow> bool" where
  "regex_is_case_insensitive env pattern =
     (case re_parse env pattern of
        None \<Rightarrow> False
      | Some ast \<Rightarrow>
          (let items = (case ast of ReConcat asts \<Rightarrow> asts | other \<Rightarrow> [other])
           in case items of
                ReFlags lead # rest \<Rightarrow>
                  flags_set_case_insensitive lead = Some True
                  \<and> list_all never_clears_case_insensitive rest
              | _ \<Rightarrow> False))"

fun is_pre_lowerable :: "ext_env \<Rightarrow> compiled_matcher \<Rightarrow> bool" where
  "is_pre_lowerable env (CmContains _ True) = True"
| "is_pre_lowerable env (CmStartsWith _ True) = True"
| "is_pre_lowerable env (CmEndsWith _ True) = True"
| "is_pre_lowerable env (CmExact _ True) = True"
| "is_pre_lowerable env (CmAhoCorasickSet True _) = True"
| "is_pre_lowerable env (CmRegex re) = regex_is_case_insensitive env re"
| "is_pre_lowerable env (CmRegexSetMatch ps _) = list_all (regex_is_case_insensitive env) ps"
| "is_pre_lowerable env (CmNot inner) = is_pre_lowerable env inner"
| "is_pre_lowerable env (CmAnyOf children) = list_all (is_pre_lowerable env) children"
| "is_pre_lowerable env (CmAllOf children) = list_all (is_pre_lowerable env) children"
| "is_pre_lowerable env (CmCaseInsensitiveGroup children _) =
     list_all (is_pre_lowerable env) children"
| "is_pre_lowerable env _ = False"

section \<open>The rewrite\<close>

definition wrap_ci_group_or_anyof :: "ext_env \<Rightarrow> compiled_matcher list \<Rightarrow> compiled_matcher" where
  "wrap_ci_group_or_anyof env children =
     (if ci_group_threshold \<le> length children \<and> list_all (is_pre_lowerable env) children
      then CmCaseInsensitiveGroup children GmAny else CmAnyOf children)"

definition consume_regexes ::
    "ext_env \<Rightarrow> compiled_matcher list \<Rightarrow> string list \<Rightarrow> compiled_matcher list" where
  "consume_regexes env result regexes =
     (if regexes = [] then result
      else if regex_set_threshold \<le> length regexes \<and> re_set_ok env regexes
      then result @ [CmRegexSetMatch regexes GmAny]
      else result @ map CmRegex regexes)"

definition consume_contains ::
    "ext_env \<Rightarrow> compiled_matcher list \<Rightarrow> string list \<Rightarrow> bool \<Rightarrow> compiled_matcher list" where
  "consume_contains env result needles ci =
     (if needles = [] then result
      else if aho_corasick_threshold \<le> length needles \<and> ac_new_ok env needles
      then result @ [CmAhoCorasickSet ci needles]
      else result @ map (\<lambda>v. CmContains v ci) needles)"

text \<open>The partition loop: \<open>(contains_ci, contains_cs, regexes, others)\<close>.\<close>

fun partition_step ::
    "compiled_matcher \<Rightarrow> string list \<times> string list \<times> string list \<times> compiled_matcher list
     \<Rightarrow> string list \<times> string list \<times> string list \<times> compiled_matcher list" where
  "partition_step (CmContains v True) (ci, cs, res, others) = (ci @ [v], cs, res, others)"
| "partition_step (CmContains v False) (ci, cs, res, others) = (ci, cs @ [v], res, others)"
| "partition_step (CmRegex re) (ci, cs, res, others) = (ci, cs, res @ [re], others)"
| "partition_step other (ci, cs, res, others) = (ci, cs, res, others @ [other])"

definition optimize_any_of :: "ext_env \<Rightarrow> compiled_matcher list \<Rightarrow> compiled_matcher" where
  "optimize_any_of env matchers =
     (case matchers of
        [] \<Rightarrow> CmAnyOf []
      | [m] \<Rightarrow> m
      | _ \<Rightarrow>
          (if length matchers < regex_set_threshold then wrap_ci_group_or_anyof env matchers
           else
             (case fold partition_step matchers ([], [], [], []) of
                (contains_ci, contains_cs, regexes, others) \<Rightarrow>
                  (let r1 = consume_contains env [] contains_ci True;
                       r2 = consume_contains env r1 contains_cs False;
                       r3 = consume_regexes env r2 regexes;
                       result = r3 @ others
                   in case result of
                        [] \<Rightarrow> CmAnyOf []
                      | [m] \<Rightarrow> m
                      | _ \<Rightarrow> wrap_ci_group_or_anyof env result))))"

section \<open>When the rewrite is exact\<close>

text \<open>
  A disjunctive matcher holds of a value when it holds of one of its string forms: no negation or
  conjunction under the group.  The compiler passes only such groups.
\<close>

fun disjunctive :: "compiled_matcher \<Rightarrow> bool" where
  "disjunctive (CmNot _) = False"
| "disjunctive (CmAllOf _) = False"
| "disjunctive (CmAnyOf ms) = list_all disjunctive ms"
| "disjunctive (CmCaseInsensitiveGroup ms GmAll) = False"
| "disjunctive (CmCaseInsensitiveGroup ms GmAny) = list_all disjunctive ms"
| "disjunctive (CmRegexSetMatch _ GmAll) = False"
| "disjunctive _ = True"

fun has_regex :: "compiled_matcher \<Rightarrow> bool" where
  "has_regex (CmRegex _) = True"
| "has_regex (CmRegexSetMatch _ _) = True"
| "has_regex (CmNot m) = has_regex m"
| "has_regex (CmAnyOf ms) = list_ex has_regex ms"
| "has_regex (CmAllOf ms) = list_ex has_regex ms"
| "has_regex (CmCaseInsensitiveGroup ms _) = list_ex has_regex ms"
| "has_regex _ = False"

text \<open>
  A regex wholly under \<open>(?i)\<close> matches a text iff it matches the lowercased text; the regex crate
  promises this for ASCII texts, where its case folding is the ASCII one.
\<close>

definition re_ci_law :: "ext_env \<Rightarrow> bool" where
  "re_ci_law env =
     (\<forall>p s. regex_is_case_insensitive env p \<and> is_ascii s
        \<longrightarrow> re_is_match env p (map ascii_lower_char s) = re_is_match env p s)"

definition lower_safe :: "compiled_matcher list \<Rightarrow> string list \<Rightarrow> bool" where
  "lower_safe ms ss = (list_all is_ascii ss \<or> \<not> list_ex has_regex ms)"

text \<open>Every regex set was built successfully.\<close>

fun sets_built :: "ext_env \<Rightarrow> compiled_matcher \<Rightarrow> bool" where
  "sets_built env (CmRegexSetMatch ps _) = re_set_ok env ps"
| "sets_built env (CmAnyOf ms) = list_all (sets_built env) ms"
| "sets_built env (CmCaseInsensitiveGroup ms _) = list_all (sets_built env) ms"
| "sets_built env _ = True"

section \<open>Pre-lowered matching\<close>

lemma re_ci_lower:
  "re_ci_law env \<Longrightarrow> regex_is_case_insensitive env p \<Longrightarrow> is_ascii s \<Longrightarrow>
   re_is_match env p (to_lowercase env s) = re_is_match env p s"
  by (simp add: re_ci_law_def to_lowercase_ascii)

lemma list_ex_cong_on: "(\<And>x. x \<in> set xs \<Longrightarrow> P x = Q x) \<Longrightarrow> list_ex P xs = list_ex Q xs"
  by (auto simp: list_ex_iff)

lemma matches_pre_lowered_str:
  assumes "re_set_law env" "re_ci_law env"
  shows "is_pre_lowerable env m \<Longrightarrow> disjunctive m \<Longrightarrow> sets_built env m \<Longrightarrow>
    is_ascii s \<or> \<not> has_regex m \<Longrightarrow>
    matches_pre_lowered env m (to_lowercase env s) = matches_str env m s"
proof (induction m)
  case (CmRegexSetMatch ps mode)
  then have "mode = GmAny" by (cases mode) simp_all
  moreover have "is_ascii s" using CmRegexSetMatch by simp
  ultimately show ?case
    using CmRegexSetMatch assms
    by (auto simp: re_set_law_def list_all_iff re_ci_lower intro!: list_ex_cong_on)
next
  case (CmAnyOf ms)
  then show ?case
    by (auto simp: list_all_iff list_ex_iff)
next
  case (CmCaseInsensitiveGroup ms mode)
  then show ?case
    by (cases mode) (simp_all add: ascii_lowercase_cow_eq)
next
  case (CmExact x ci)
  then show ?case by (cases ci) simp_all
next
  case (CmContains x ci)
  then show ?case by (cases ci) simp_all
next
  case (CmStartsWith x ci)
  then show ?case by (cases ci) simp_all
next
  case (CmEndsWith x ci)
  then show ?case by (cases ci) simp_all
next
  case (CmAhoCorasickSet ci ns)
  then show ?case by (cases ci) (simp_all add: ascii_lowercase_cow_eq)
qed (use assms in \<open>simp_all add: re_ci_lower\<close>)

lemma matches_pre_lowerable:
  "is_pre_lowerable env m \<Longrightarrow> disjunctive m \<Longrightarrow>
   matches env ev m v = list_ex (matches_str env m) (value_strings env v)"
proof (induction m)
  case (CmAnyOf ms)
  then have "matches env ev m v = list_ex (matches_str env m) (value_strings env v)"
    if "m \<in> set ms" for m
    using that by (simp add: list_all_iff)
  then have "matches env ev (CmAnyOf ms) v
      = list_ex (\<lambda>m. list_ex (matches_str env m) (value_strings env v)) ms"
    unfolding matches.simps by (rule list_ex_cong_on)
  also have "\<dots> = list_ex (matches_str env (CmAnyOf ms)) (value_strings env v)"
    by (auto simp: list_ex_iff)
  finally show ?case .
qed (simp_all add: match_str_value_iff list_ex_iff)

lemma absent_pre_lowerable:
  "is_pre_lowerable env m \<Longrightarrow> disjunctive m \<Longrightarrow> \<not> matches_absent m"
proof (induction m)
  case (CmAnyOf ms)
  then show ?case by (auto simp: list_all_iff list_ex_iff)
qed simp_all

section \<open>The rewrite preserves any disjunctive semantics\<close>

definition unpartition ::
    "string list \<times> string list \<times> string list \<times> compiled_matcher list \<Rightarrow> compiled_matcher list" where
  "unpartition p =
     (case p of (ci, cs, res, others) \<Rightarrow>
        map (\<lambda>v. CmContains v True) ci @ map (\<lambda>v. CmContains v False) cs @ map CmRegex res @ others)"

lemma set_partition_step: "set (unpartition (partition_step m p)) = insert m (set (unpartition p))"
  by (cases "(m, p)" rule: partition_step.cases) (auto simp: unpartition_def)

lemma set_partition: "set (unpartition (fold partition_step ms p)) = set (unpartition p) \<union> set ms"
  by (induction ms arbitrary: p) (auto simp: set_partition_step)

text \<open>\<open>P\<close> reads a batched set as the disjunction of its patterns.\<close>

definition batch_law :: "ext_env \<Rightarrow> (compiled_matcher \<Rightarrow> bool) \<Rightarrow> bool" where
  "batch_law env P =
     ((\<forall>ci ns. ac_new_ok env ns \<longrightarrow>
         P (CmAhoCorasickSet ci ns) = list_ex (\<lambda>n. P (CmContains n ci)) ns)
      \<and> (\<forall>ps. ps \<noteq> [] \<and> re_set_ok env ps \<longrightarrow>
         P (CmRegexSetMatch ps GmAny) = list_ex (\<lambda>p. P (CmRegex p)) ps))"

lemma list_ex_consume_contains:
  "batch_law env P \<Longrightarrow>
   list_ex P (consume_contains env r ns ci) = (list_ex P r \<or> list_ex (\<lambda>n. P (CmContains n ci)) ns)"
  by (auto simp: consume_contains_def batch_law_def comp_def)

lemma list_ex_consume_regexes:
  "batch_law env P \<Longrightarrow>
   list_ex P (consume_regexes env r ps) = (list_ex P r \<or> list_ex (\<lambda>p. P (CmRegex p)) ps)"
  by (auto simp: consume_regexes_def batch_law_def comp_def)

definition batched :: "ext_env \<Rightarrow> compiled_matcher list \<Rightarrow> compiled_matcher list" where
  "batched env ms =
     (case fold partition_step ms ([], [], [], []) of
        (contains_ci, contains_cs, regexes, others) \<Rightarrow>
          consume_regexes env
            (consume_contains env (consume_contains env [] contains_ci True) contains_cs False)
            regexes @ others)"

lemma list_ex_batched:
  assumes "batch_law env P"
  shows "list_ex P (batched env ms) = list_ex P ms"
proof -
  obtain ci cs res ot where p: "fold partition_step ms ([], [], [], []) = (ci, cs, res, ot)"
    by (metis prod_cases4)
  have "set (unpartition (ci, cs, res, ot)) = set ms"
    using set_partition [of ms "([], [], [], [])"] p by (simp add: unpartition_def)
  then have "list_ex P ms = list_ex P (unpartition (ci, cs, res, ot))"
    by (simp only: list_ex_iff)
  then show ?thesis
    using assms by (simp add: batched_def p list_ex_consume_regexes list_ex_consume_contains
        unpartition_def comp_def disj_assoc)
qed

lemma optimize_any_of_cases:
  "optimize_any_of env ms =
     (if length ms \<le> 1 then (case ms of m # _ \<Rightarrow> m | [] \<Rightarrow> CmAnyOf [])
      else if length ms < regex_set_threshold then wrap_ci_group_or_anyof env ms
      else (case batched env ms of
              [] \<Rightarrow> CmAnyOf [] | [m] \<Rightarrow> m | ms' \<Rightarrow> wrap_ci_group_or_anyof env ms'))"
  by (auto simp: optimize_any_of_def batched_def Let_def split: list.splits prod.splits)

text \<open>
  The generic statement: \<open>Q\<close> is what the group must keep for the lowering wrapper to be exact.
\<close>

lemma optimize_any_of_semantics:
  assumes batch: "batch_law env P"
    and wrap: "\<And>cs. Q cs \<Longrightarrow> P (wrap_ci_group_or_anyof env cs) = list_ex P cs"
    and empty: "\<not> P (CmAnyOf [])"
    and Q: "Q ms" "Q (batched env ms)"
  shows "P (optimize_any_of env ms) = list_ex P ms"
proof -
  have "P (case batched env ms of [] \<Rightarrow> CmAnyOf [] | [m] \<Rightarrow> m | ms' \<Rightarrow> wrap_ci_group_or_anyof env ms')
      = list_ex P (batched env ms)"
    using wrap [OF Q(2)] empty by (auto split: list.splits)
  then show ?thesis
    using wrap [OF Q(1)] empty list_ex_batched [OF batch, of ms]
    by (cases ms) (auto simp: optimize_any_of_cases)
qed

section \<open>The three readings of a group\<close>

definition group_ok :: "ext_env \<Rightarrow> string list \<Rightarrow> compiled_matcher list \<Rightarrow> bool" where
  "group_ok env ss ms =
     (list_all disjunctive ms \<and> list_all (sets_built env) ms \<and> lower_safe ms ss)"

lemma list_all_not_ex: "list_all P xs = (\<not> list_ex (\<lambda>x. \<not> P x) xs)"
  by (auto simp: list_all_iff list_ex_iff)

lemma consume_contains_sets:
  "m \<in> set (consume_contains env r ns ci) \<Longrightarrow>
   m \<in> set r \<or> (\<exists>n. m = CmContains n ci) \<or> m = CmAhoCorasickSet ci ns"
  by (auto simp: consume_contains_def split: if_splits)

lemma consume_regexes_sets:
  "m \<in> set (consume_regexes env r ps) \<Longrightarrow>
   m \<in> set r \<or> (\<exists>p. m = CmRegex p) \<or> (m = CmRegexSetMatch ps GmAny \<and> re_set_ok env ps)"
  by (auto simp: consume_regexes_def split: if_splits)

lemma batched_members:
  assumes "m \<in> set (batched env ms)"
  shows "m \<in> set ms \<or> (\<exists>n ci. m = CmContains n ci) \<or> (\<exists>ns ci. m = CmAhoCorasickSet ci ns)
    \<or> (\<exists>p. m = CmRegex p) \<or> (\<exists>ps. m = CmRegexSetMatch ps GmAny \<and> re_set_ok env ps)"
proof -
  obtain ci cs res ot where p: "fold partition_step ms ([], [], [], []) = (ci, cs, res, ot)"
    by (metis prod_cases4)
  have "set ot \<subseteq> set ms"
    using set_partition [of ms "([], [], [], [])"] p by (auto simp: unpartition_def)
  then show ?thesis
    using assms
    by (auto simp: batched_def p dest!: consume_regexes_sets consume_contains_sets)
qed

lemma batch_law_has_regex: "batch_law env has_regex"
  by (auto simp: batch_law_def list_ex_iff neq_Nil_conv)

lemma group_ok_batched: "group_ok env ss ms \<Longrightarrow> group_ok env ss (batched env ms)"
proof -
  assume ok: "group_ok env ss ms"
  have "list_ex has_regex (batched env ms) = list_ex has_regex ms"
    by (rule list_ex_batched [OF batch_law_has_regex])
  moreover have "disjunctive m \<and> sets_built env m" if "m \<in> set (batched env ms)" for m
    using batched_members [OF that] ok by (auto simp: group_ok_def list_all_iff)
  ultimately show ?thesis using ok by (simp add: group_ok_def lower_safe_def list_all_iff)
qed

lemma wrap_str:
  assumes "re_set_law env" "re_ci_law env" "group_ok env [s] cs"
  shows "matches_str env (wrap_ci_group_or_anyof env cs) s = list_ex (\<lambda>m. matches_str env m s) cs"
proof (cases "ci_group_threshold \<le> length cs \<and> list_all (is_pre_lowerable env) cs")
  case True
  have "matches_pre_lowered env m (to_lowercase env s) = matches_str env m s" if "m \<in> set cs" for m
    using that True assms
    by (intro matches_pre_lowered_str)
       (auto simp: group_ok_def lower_safe_def list_all_iff list_ex_iff)
  then show ?thesis
    using True by (auto simp: wrap_ci_group_or_anyof_def ascii_lowercase_cow_eq list_ex_iff)
next
  case False
  then have "wrap_ci_group_or_anyof env cs = CmAnyOf cs"
    unfolding wrap_ci_group_or_anyof_def by (rule if_not_P)
  then show ?thesis by simp
qed

lemma group_ok_strings: "group_ok env ss cs \<Longrightarrow> s \<in> set ss \<Longrightarrow> group_ok env [s] cs"
  by (auto simp: group_ok_def lower_safe_def list_all_iff)

lemma wrap_matches:
  assumes "re_set_law env" "re_ci_law env" "group_ok env (value_strings env v) cs"
  shows "matches env ev (wrap_ci_group_or_anyof env cs) v = list_ex (\<lambda>m. matches env ev m v) cs"
proof (cases "ci_group_threshold \<le> length cs \<and> list_all (is_pre_lowerable env) cs")
  case True
  then have w: "wrap_ci_group_or_anyof env cs = CmCaseInsensitiveGroup cs GmAny"
    by (simp add: wrap_ci_group_or_anyof_def)
  have "matches env ev (CmCaseInsensitiveGroup cs GmAny) v
      = list_ex (matches_str env (CmCaseInsensitiveGroup cs GmAny)) (value_strings env v)"
    using matches_str_leaf [of "CmCaseInsensitiveGroup cs GmAny" env ev v]
    by (simp only: str_leaf.simps match_str_value_iff simp_thms)
  also have "\<dots> = list_ex (\<lambda>s. list_ex (\<lambda>m. matches_str env m s) cs) (value_strings env v)"
    by (rule list_ex_cong_on)
       (use wrap_str [OF assms(1,2) group_ok_strings [OF assms(3)]] w in metis)
  also have "\<dots> = list_ex (\<lambda>m. list_ex (matches_str env m) (value_strings env v)) cs"
    by (simp add: list_ex_swap [where xs = "value_strings env v"])
  also have "\<dots> = list_ex (\<lambda>m. matches env ev m v) cs"
    using True assms(3)
    by (intro list_ex_cong_on) (auto simp: matches_pre_lowerable group_ok_def list_all_iff)
  finally show ?thesis using w by simp
next
  case False
  then have "wrap_ci_group_or_anyof env cs = CmAnyOf cs"
    unfolding wrap_ci_group_or_anyof_def by (rule if_not_P)
  then show ?thesis by simp
qed

lemma wrap_absent:
  assumes "group_ok env ss cs"
  shows "matches_absent (wrap_ci_group_or_anyof env cs) = list_ex matches_absent cs"
  using assms absent_pre_lowerable
  by (auto simp: wrap_ci_group_or_anyof_def group_ok_def list_all_iff list_ex_iff)

lemma batch_law_matches:
  assumes "ac_law env" "re_set_law env"
  shows "batch_law env (\<lambda>m. matches env ev m v)"
  unfolding batch_law_def
proof (intro conjI allI impI)
  fix ci ns assume "ac_new_ok env ns"
  then have "ac_is_match env ns s = list_ex (contains_str s) ns" for s
    using assms(1) by (simp add: ac_law_def)
  then show "matches env ev (CmAhoCorasickSet ci ns) v
      = list_ex (\<lambda>n. matches env ev (CmContains n ci) v) ns"
    by (cases ci) (auto simp: match_str_value_iff ascii_lowercase_cow_eq list_ex_iff)
next
  fix ps assume "ps \<noteq> [] \<and> re_set_ok env ps"
  then have "re_set_is_match env ps s = list_ex (\<lambda>p. re_is_match env p s) ps" for s
    using assms(2) by (simp add: re_set_law_def)
  then show "matches env ev (CmRegexSetMatch ps GmAny) v
      = list_ex (\<lambda>p. matches env ev (CmRegex p) v) ps"
    by (auto simp: match_str_value_iff list_ex_iff)
qed

lemma batch_law_str:
  assumes "ac_law env" "re_set_law env"
  shows "batch_law env (\<lambda>m. matches_str env m s)"
  using assms
  by (auto simp: batch_law_def ac_law_def re_set_law_def ascii_lowercase_cow_eq list_ex_iff)

lemma batch_law_absent: "batch_law env matches_absent"
  by (auto simp: batch_law_def list_ex_iff)

lemma optimize_any_of_matches_aux:
  assumes "ac_law env" "re_set_law env" "re_ci_law env" "group_ok env (value_strings env v) ms"
  shows "matches env ev (optimize_any_of env ms) v = matches env ev (CmAnyOf ms) v"
  using optimize_any_of_semantics
    [where P = "\<lambda>m. matches env ev m v" and Q = "group_ok env (value_strings env v)",
     OF batch_law_matches [OF assms(1,2)] wrap_matches [OF assms(2,3)] _ assms(4)
        group_ok_batched [OF assms(4)]]
  by simp

lemma optimize_any_of_str_aux:
  assumes "ac_law env" "re_set_law env" "re_ci_law env" "group_ok env [s] ms"
  shows "matches_str env (optimize_any_of env ms) s = matches_str env (CmAnyOf ms) s"
  using optimize_any_of_semantics
    [where P = "\<lambda>m. matches_str env m s" and Q = "group_ok env [s]",
     OF batch_law_str [OF assms(1,2)] wrap_str [OF assms(2,3)] _ assms(4)
        group_ok_batched [OF assms(4)]]
  by simp

lemma optimize_any_of_absent_aux:
  assumes "group_ok env ss ms"
  shows "matches_absent (optimize_any_of env ms) = matches_absent (CmAnyOf ms)"
  using optimize_any_of_semantics
    [where P = matches_absent and Q = "group_ok env ss",
     OF batch_law_absent wrap_absent _ assms group_ok_batched [OF assms]]
  by simp

lemma optimize_any_of_disjunctive:
  "disjunctive (optimize_any_of env ms) = list_all disjunctive ms"
proof -
  let ?P = "\<lambda>m. \<not> disjunctive m"
  have "batch_law env ?P" by (simp add: batch_law_def list_ex_iff)
  moreover have "?P (wrap_ci_group_or_anyof env cs) = list_ex ?P cs" for cs
    by (simp add: wrap_ci_group_or_anyof_def not_list_all)
  ultimately have "?P (optimize_any_of env ms) = list_ex ?P ms"
    by (intro optimize_any_of_semantics [where Q = "\<lambda>_. True"]) simp_all
  then show ?thesis by (metis not_list_all)
qed

lemma literal_env_ci: "re_ci_law literal_env"
  unfolding re_ci_law_def
proof (intro allI impI, elim conjE)
  fix p s
  assume "regex_is_case_insensitive literal_env p" and "is_ascii s"
  then obtain q where "strip_prefix p ''(?i)'' = Some q"
    by (auto simp: regex_is_case_insensitive_def strip_prefix_def split: if_splits)
  then show "re_is_match literal_env p (map ascii_lower_char s) = re_is_match literal_env p s"
    by (simp add: literal_re_match_def comp_def)
qed

section \<open>Properties\<close>

text \<open>
  C11: Optimizing a disjunction of matchers changes no verdict: for every event value and for an
  absent field, the optimized matcher holds exactly when one of the original matchers does.  The
  hypotheses are what the crates promise about automata, regex sets and case-insensitive regexes,
  that the group has no conjunction or negation under it, and that a group with regexes is tested
  on ASCII text.
\<close>

theorem optimize_any_of_exact:
  assumes "ac_law env" and "re_set_law env" and "re_ci_law env"
    and "list_all disjunctive ms" and "list_all (sets_built env) ms"
    and "lower_safe ms (value_strings env v)"
  shows "matches env ev (optimize_any_of env ms) v = list_ex (\<lambda>m. matches env ev m v) ms
    \<and> matches_absent (optimize_any_of env ms) = list_ex matches_absent ms"
  using assms optimize_any_of_matches_aux [of env v ms ev]
    optimize_any_of_absent_aux [of env "value_strings env v" ms]
  by (simp add: group_ok_def)

text \<open>Nine needles and three regexes: an automaton, a regex set and a plain suffix test.\<close>

definition sample_group :: "compiled_matcher list" where
  "sample_group =
     map (\<lambda>n. CmContains n True) [''aa'', ''bb'', ''cc'', ''dd'', ''ee'', ''ff'', ''gg'', ''hh'', ''ii'']
     @ map CmRegex [''(?i)one'', ''(?i)two'', ''(?i)three''] @ [CmEndsWith ''.exe'' True]"

lemma optimize_any_of_exact_witness:
  "matches literal_env (plain_event []) (optimize_any_of literal_env sample_group)
     (EvArray [EvInt 7, EvStr ''C:/xTHREEx''])
   \<and> \<not> matches literal_env (plain_event []) (optimize_any_of literal_env sample_group)
     (EvStr ''calc.com'')"
proof -
  have g: "list_all disjunctive sample_group" "list_all (sets_built literal_env) sample_group"
    by (simp_all add: sample_group_def)
  have "lower_safe sample_group (value_strings literal_env (EvArray [EvInt 7, EvStr ''C:/xTHREEx'']))"
    "lower_safe sample_group (value_strings literal_env (EvStr ''calc.com''))"
    by (code_simp, code_simp)
  note * = this
  have "list_ex (\<lambda>m. matches literal_env (plain_event []) m
      (EvArray [EvInt 7, EvStr ''C:/xTHREEx''])) sample_group"
    by code_simp
  moreover have "\<not> list_ex (\<lambda>m. matches literal_env (plain_event []) m (EvStr ''calc.com'')) sample_group"
    by code_simp
  ultimately show ?thesis
    using optimize_any_of_exact [OF literal_env_laws literal_env_ci g *(1)]
      optimize_any_of_exact [OF literal_env_laws literal_env_ci g *(2)]
    by simp
qed

text \<open>
  Keyword search is unchanged too: over every string of an event, the optimized disjunction
  holds exactly when some string of the event satisfies one of the original matchers.
\<close>

theorem optimize_any_of_keyword:
  assumes "ac_law env" and "re_set_law env" and "re_ci_law env" and "event_wf ev"
    and "list_all disjunctive ms" and "list_all (sets_built env) ms"
    and "lower_safe ms (ev_all_string_values ev)"
  shows "matches_keyword env ev (optimize_any_of env ms)
    = list_ex (\<lambda>m. list_ex (matches_str env m) (ev_all_string_values ev)) ms"
proof -
  have ok: "group_ok env (ev_all_string_values ev) ms"
    using assms by (simp add: group_ok_def)
  have disj: "disjunctive (optimize_any_of env ms)"
    using assms(5) by (simp add: optimize_any_of_disjunctive)
  have "matches_keyword env ev (optimize_any_of env ms)
      = list_ex (matches_str env (optimize_any_of env ms)) (ev_all_string_values ev)"
    by (rule matches_keyword_iff [OF assms(4)]) (use disj in auto)
  also have "\<dots> = list_ex (\<lambda>s. list_ex (\<lambda>m. matches_str env m s) ms) (ev_all_string_values ev)"
    by (rule list_ex_cong_on)
       (use optimize_any_of_str_aux [OF assms(1-3) group_ok_strings [OF ok]] in simp)
  also have "\<dots> = list_ex (\<lambda>m. list_ex (matches_str env m) (ev_all_string_values ev)) ms"
    by (auto simp: list_ex_iff)
  finally show ?thesis .
qed

lemma optimize_any_of_keyword_witness:
  "matches_keyword literal_env (plain_event ''run NOTEPAD.exe'') (optimize_any_of literal_env sample_group)"
proof -
  have g: "list_all disjunctive sample_group" "list_all (sets_built literal_env) sample_group"
    by (simp_all add: sample_group_def)
  have "lower_safe sample_group (ev_all_string_values (plain_event ''run NOTEPAD.exe''))"
    and "list_ex (\<lambda>m. list_ex (matches_str literal_env m)
      (ev_all_string_values (plain_event ''run NOTEPAD.exe''))) sample_group"
    by (code_simp, code_simp)
  then show ?thesis
    using optimize_any_of_keyword [OF literal_env_laws literal_env_ci event_wf_plain g] by simp
qed

end
