(* ===== verification/Compiled.thy ===== *)
theory Compiled
  imports Optimizer "HOL-Library.List_Lexorder" "HOL-Library.Char_ord"
begin

text \<open>
  Compiled rules (\<open>rsigma-eval/src/compiler/mod.rs\<close>), evaluation results
  (\<open>rsigma-eval/src/result.rs\<close>) and the evaluation of array object scopes
  (\<open>rsigma-eval/src/compiler/array.rs\<close>).  A hash map of detections is the list of its entries in
  iteration order, keys distinct.
\<close>

section \<open>Compiled rules\<close>

record compiled_detection_item =
  cdi_field :: "string option"
  cdi_matcher :: compiled_matcher
  cdi_exists :: "bool option"
  cdi_bloom_eligible :: bool

datatype compiled_detection =
  CdAllOf "compiled_detection_item list"
| CdAnyOf "compiled_detection list"
| CdKeywords compiled_matcher
| CdArrayMatch string array_quantifier compiled_detection
| CdAnd "compiled_detection list"
| CdConditional "(string \<times> compiled_detection) list" condition_expr

record compiled_rule =
  cru_title :: string
  cru_id :: "string option"
  cru_name :: "string option"
  cru_level :: "level option"
  cru_tags :: "string list"
  cru_description :: "string option"
  cru_falsepositives :: "string list"
  cru_logsource :: log_source
  cru_detections :: "(string \<times> compiled_detection) list"
  cru_conditions :: "condition_expr list"
  cru_include_event :: bool
  cru_custom_attributes :: "(string \<times> json_value) list"

section \<open>Results\<close>

datatype match_detail_level = MdlOff | MdlSummary | MdlFull

record field_match =
  fm_field :: string
  fm_value :: json_value
  fm_selection :: "string option"
  fm_matcher :: "matcher_kind option"
  fm_pattern :: "string option"
  fm_case_sensitive :: "bool option"
  fm_negated :: bool

definition field_match_new :: "string \<Rightarrow> json_value \<Rightarrow> field_match" where
  "field_match_new field v =
     \<lparr> fm_field = field, fm_value = v, fm_selection = None, fm_matcher = None, fm_pattern = None,
       fm_case_sensitive = None, fm_negated = False \<rparr>"

record rule_header =
  rh_rule_title :: string
  rh_rule_id :: "string option"
  rh_level :: "level option"
  rh_tags :: "string list"
  rh_custom_attributes :: "(string \<times> json_value) list"
  rh_enrichments :: "(string \<times> json_value) list option"

record detection_body =
  db_matched_selections :: "string list"
  db_matched_fields :: "field_match list"
  db_event :: "json_value option"

section \<open>Array quantifiers\<close>

definition array_member_cap :: nat where
  "array_member_cap = 32"

definition array_quantifier_matches_empty :: "array_quantifier \<Rightarrow> bool" where
  "array_quantifier_matches_empty q = (q = AqNone \<or> q = AqAllOrEmpty)"

definition array_quantifier_from_member_matches :: "array_quantifier \<Rightarrow> bool list \<Rightarrow> bool" where
  "array_quantifier_from_member_matches q member_matched =
     (if member_matched = [] then array_quantifier_matches_empty q
      else case q of
             AqAny \<Rightarrow> list_ex (\<lambda>m. m) member_matched
           | AqAll \<Rightarrow> list_all (\<lambda>m. m) member_matched
           | AqAllOrEmpty \<Rightarrow> list_all (\<lambda>m. m) member_matched
           | AqNone \<Rightarrow> list_all (\<lambda>m. \<not> m) member_matched)"

definition decisive_member_verdict :: "array_quantifier \<Rightarrow> bool" where
  "decisive_member_verdict q = (q = AqAny \<or> q = AqNone)"

text \<open>
  \<open>select_recorded_member_indices\<close>: one pass pushing the indices of one verdict until \<open>selected\<close>
  has \<open>cap\<close> entries; the code checks the length right after each push.
\<close>

fun select_pass :: "nat \<Rightarrow> bool \<Rightarrow> nat \<Rightarrow> bool list \<Rightarrow> nat list \<Rightarrow> nat list" where
  "select_pass cap want i [] selected = selected"
| "select_pass cap want i (m # ms) selected =
     (if m = want then
        (let selected' = selected @ [i]
         in if length selected' = cap then selected' else select_pass cap want (Suc i) ms selected')
      else select_pass cap want (Suc i) ms selected)"

definition select_recorded_member_indices :: "bool list \<Rightarrow> bool \<Rightarrow> nat list" where
  "select_recorded_member_indices member_matched decisive =
     (let cap = min array_member_cap (length member_matched);
          selected = select_pass cap decisive 0 member_matched [];
          selected' = (if length selected < cap
                       then select_pass cap (\<not> decisive) 0 member_matched selected
                       else selected)
      in sort selected')"

definition array_member_path :: "string \<Rightarrow> nat \<Rightarrow> bool \<Rightarrow> string" where
  "array_member_path field index scalar =
     (if scalar then field else field @ ''['' @ show_nat index @ '']'')"

definition join_member_field :: "string \<Rightarrow> string option \<Rightarrow> string" where
  "join_member_field member_path relative =
     (case relative of
        None \<Rightarrow> member_path
      | Some rel \<Rightarrow>
          if rel = [] \<or> rel = ''.'' then member_path
          else if member_path = [] then rel
          else member_path @ ''.'' @ rel)"

section \<open>Fields of array members\<close>

text \<open>
  \<open>parse_event_ops\<close> and \<open>index_groups\<close> are the same functions as \<open>parse_path_ops\<close> and
  \<open>parse_index_groups\<close> of \<open>event/json.rs\<close>, over a type of steps of their own.
\<close>

datatype event_op = EoKey string | EoIndex int

definition parse_event_part :: "string \<Rightarrow> event_op list" where
  "parse_event_part part =
     (case first_unescaped part lbracket of
        Some bpos \<Rightarrow>
          (case parse_index_groups (drop bpos part) of
             Some idxs \<Rightarrow>
               (let name = take bpos part
                in (if name \<noteq> [] then [EoKey (unescape_brackets name)] else []) @ map EoIndex idxs)
           | None \<Rightarrow> [EoKey (unescape_brackets part)])
      | None \<Rightarrow> [EoKey (unescape_brackets part)])"

definition parse_event_ops :: "string \<Rightarrow> event_op list" where
  "parse_event_ops path = concat (map parse_event_part (split_char (CHR ''.'') path))"

lemma size_ev_map: "map_of m k = Some v \<Longrightarrow> size v < size (EvMap m)"
  by (induction m) (auto split: if_splits)

lemma size_ev_arr: "v \<in> set arr \<Longrightarrow> size v < size (EvArray arr)"
  by (induction arr) auto

function nav_event_value :: "event_value \<Rightarrow> event_op list \<Rightarrow> event_value option" where
  "nav_event_value current [] = Some current"
| "nav_event_value current (EoKey key # rest) =
     (case current of
        EvMap entries \<Rightarrow>
          (case map_of entries key of Some next \<Rightarrow> nav_event_value next rest | None \<Rightarrow> None)
      | EvArray members \<Rightarrow> find_map (\<lambda>m. nav_event_value m (EoKey key # rest)) members
      | _ \<Rightarrow> None)"
| "nav_event_value current (EoIndex i # rest) =
     (case current of
        EvArray members \<Rightarrow>
          (case resolve_array_index i (length members) of
             Some idx \<Rightarrow>
               (if idx < length members then nav_event_value (members ! idx) rest else None)
           | None \<Rightarrow> None)
      | _ \<Rightarrow> None)"
  by pat_completeness auto
termination
  by (relation "measure (\<lambda>(v, ops). size v)")
     (auto dest: size_ev_map size_ev_arr [OF nth_mem] size_ev_arr simp del: event_value.size)

definition element_field :: "event_value \<Rightarrow> string \<Rightarrow> event_value option" where
  "element_field member path =
     (case (case member of EvMap entries \<Rightarrow> map_of entries path | _ \<Rightarrow> None) of
        Some v \<Rightarrow> Some v
      | None \<Rightarrow> nav_event_value member (parse_event_ops path))"

definition eval_array_item ::
    "ext_env \<Rightarrow> event \<Rightarrow> compiled_detection_item \<Rightarrow> event_value \<Rightarrow> bool" where
  "eval_array_item env outer item member =
     (case cdi_exists item of
        Some expect_exists \<Rightarrow>
          (let exists = (case cdi_field item of
                           Some name \<Rightarrow> element_field member name \<noteq> None
                         | None \<Rightarrow> True)
           in exists = expect_exists)
      | None \<Rightarrow>
          (case cdi_field item of
             Some name \<Rightarrow>
               (case element_field member name of
                  Some v \<Rightarrow> matches env outer (cdi_matcher item) v
                | None \<Rightarrow> matches_absent (cdi_matcher item))
           | None \<Rightarrow> matches env outer (cdi_matcher item) member))"

section \<open>Array bodies\<close>

text \<open>
  \<open>eval_array_quantified\<close>, \<open>eval_array_body\<close> and \<open>eval_array_condition\<close> call each other; every
  call goes to a smaller detection, or to a smaller condition over the same named detections.
\<close>

lemma size_named:
  "map_of named n = Some d \<Longrightarrow> size d < Suc (size_list (size_prod (\<lambda>_. 0) size) named)"
  by (induction named) (auto split: if_splits)

lemma elem_size: "x \<in> set xs \<Longrightarrow> f x \<le> size_list f xs"
  by (induction xs) auto

function eval_array_quantified ::
      "ext_env \<Rightarrow> event \<Rightarrow> event_value \<Rightarrow> array_quantifier \<Rightarrow> compiled_detection \<Rightarrow> bool"
  and eval_array_body :: "ext_env \<Rightarrow> event \<Rightarrow> compiled_detection \<Rightarrow> event_value \<Rightarrow> bool"
  and eval_array_condition ::
      "ext_env \<Rightarrow> event \<Rightarrow> condition_expr \<Rightarrow> (string \<times> compiled_detection) list \<Rightarrow> event_value \<Rightarrow> bool"
where
  "eval_array_quantified env outer v q body =
     (case v of
        EvArray members \<Rightarrow>
          (case q of
             AqAny \<Rightarrow> list_ex (\<lambda>m. eval_array_body env outer body m) members
           | AqAll \<Rightarrow> members \<noteq> [] \<and> list_all (\<lambda>m. eval_array_body env outer body m) members
           | AqAllOrEmpty \<Rightarrow> list_all (\<lambda>m. eval_array_body env outer body m) members
           | AqNone \<Rightarrow> \<not> list_ex (\<lambda>m. eval_array_body env outer body m) members)
      | EvNull \<Rightarrow> array_quantifier_matches_empty q
      | single \<Rightarrow>
          (case q of
             AqNone \<Rightarrow> \<not> eval_array_body env outer body single
           | _ \<Rightarrow> eval_array_body env outer body single))"
| "eval_array_body env outer (CdAllOf items) member =
     list_all (\<lambda>item. eval_array_item env outer item member) items"
| "eval_array_body env outer (CdAnyOf dets) member =
     list_ex (\<lambda>d. eval_array_body env outer d member) dets"
| "eval_array_body env outer (CdAnd dets) member =
     list_all (\<lambda>d. eval_array_body env outer d member) dets"
| "eval_array_body env outer (CdArrayMatch field q inner) member =
     (case element_field member field of
        Some v \<Rightarrow> eval_array_quantified env outer v q inner
      | None \<Rightarrow> array_quantifier_matches_empty q)"
| "eval_array_body env outer (CdKeywords matcher) member = matches env outer matcher member"
| "eval_array_body env outer (CdConditional named condition) member =
     eval_array_condition env outer condition named member"
| "eval_array_condition env outer (CondIdentifier name) named member =
     (case map_of named name of Some d \<Rightarrow> eval_array_body env outer d member | None \<Rightarrow> False)"
| "eval_array_condition env outer (CondAnd exprs) named member =
     list_all (\<lambda>e. eval_array_condition env outer e named member) exprs"
| "eval_array_condition env outer (CondOr exprs) named member =
     list_ex (\<lambda>e. eval_array_condition env outer e named member) exprs"
| "eval_array_condition env outer (CondNot inner) named member =
     (\<not> eval_array_condition env outer inner named member)"
| "eval_array_condition env outer (CondSelector q pattern) named member =
     (let names = filter (\<lambda>n. matches_detection_name pattern n) (map fst named);
          count = length (filter (\<lambda>n. case map_of named n of
                                        Some d \<Rightarrow> eval_array_body env outer d member
                                      | None \<Rightarrow> False) names)
      in case q of
           QAny \<Rightarrow> 1 \<le> count
         | QAll \<Rightarrow> count = length names
         | QCount n \<Rightarrow> n \<le> count)"
  by pat_completeness auto
termination
proof (relation "measures
    [\<lambda>x. case x of
        Inl (env, outer, v, q, body) \<Rightarrow> 2 * size body + 1
      | Inr (Inl (env, outer, body, member)) \<Rightarrow> 2 * size body
      | Inr (Inr (env, outer, expr, named, member)) \<Rightarrow>
          2 * size_list (size_prod (\<lambda>_. 0) size) named + 1,
     \<lambda>x. case x of
        Inr (Inr (env, outer, expr, named, member)) \<Rightarrow> size expr
      | _ \<Rightarrow> 0]"; (simp; fail)?)
qed (auto dest: size_named elem_size [where f = size])

text \<open>\<open>array_members\<close>: the members of a value and whether it is a scalar taken as one member.\<close>

definition array_members :: "event_value \<Rightarrow> bool \<times> event_value list" where
  "array_members v =
     (case v of EvNull \<Rightarrow> (False, []) | EvArray items \<Rightarrow> (False, items) | single \<Rightarrow> (True, [single]))"

section \<open>Lemmas\<close>

text \<open>The quantifier over a value is the quantifier over the verdicts of its members.\<close>

lemma eval_array_quantified_members:
  "eval_array_quantified env outer v q body =
     array_quantifier_from_member_matches q (map (eval_array_body env outer body) (snd (array_members v)))"
proof (cases v)
  case (EvArray members)
  then show ?thesis
    by (cases q)
       (auto simp: array_quantifier_from_member_matches_def array_members_def comp_def list_all_iff
          list_ex_iff array_quantifier_matches_empty_def)
qed (cases q; simp add: array_quantifier_from_member_matches_def array_members_def)+

lemma array_quantifier_none:
  "array_quantifier_from_member_matches AqNone ms = (\<not> array_quantifier_from_member_matches AqAny ms)"
  by (simp add: array_quantifier_from_member_matches_def array_quantifier_matches_empty_def
      not_list_ex)

lemma list_all_id: "list_all (\<lambda>m. m) ms = (False \<notin> set ms)"
  and list_ex_id: "list_ex (\<lambda>m. m) ms = (True \<in> set ms)"
  and list_all_not: "list_all (\<lambda>m. \<not> m) ms = (True \<notin> set ms)"
  by (induction ms) auto

lemma array_quantifier_sem:
  "array_quantifier_from_member_matches q ms =
     (case q of
        AqAny \<Rightarrow> True \<in> set ms
      | AqAll \<Rightarrow> ms \<noteq> [] \<and> False \<notin> set ms
      | AqAllOrEmpty \<Rightarrow> False \<notin> set ms
      | AqNone \<Rightarrow> True \<notin> set ms)"
  by (cases q; cases "ms = []")
     (simp_all add: array_quantifier_from_member_matches_def array_quantifier_matches_empty_def
        list_all_id list_ex_id list_all_not)

text \<open>Recording a subset of the members.\<close>

lemma select_pass_take:
  assumes "length selected < cap"
  shows "select_pass cap want i ms selected
    = selected @ take (cap - length selected) (filter (\<lambda>k. ms ! (k - i) = want) [i ..< i + length ms])"
  using assms
proof (induction cap want i ms selected rule: select_pass.induct)
  case (1 cap want i selected)
  then show ?case by simp
next
  case (2 cap want i m ms selected)
  have upt: "[i ..< Suc (i + length ms)] = i # [Suc i ..< Suc (i + length ms)]"
    by (simp add: upt_rec)
  have shift: "filter (\<lambda>k. (x # ms) ! (k - i) = want) [Suc i ..< Suc (i + length ms)]
      = filter (\<lambda>k. ms ! (k - Suc i) = want) [Suc i ..< Suc (i + length ms)]" for x
    by (rule filter_cong) (auto simp: nth_Cons')
  show ?case
  proof (cases "m = want")
    case True
    show ?thesis
    proof (cases "Suc (length selected) = cap")
      case True
      then have "cap - length selected = Suc 0" by simp
      with True \<open>m = want\<close> show ?thesis by (simp add: upt del: upt_Suc)
    next
      case False
      with 2 have "Suc (length selected) < cap" by simp
      then have "cap - length selected = Suc (cap - Suc (length selected))" by simp
      with 2(1) True \<open>Suc (length selected) < cap\<close> show ?thesis
        by (simp add: upt shift del: upt_Suc)
    qed
  next
    case False
    with 2 show ?thesis by (simp add: upt shift del: upt_Suc)
  qed
qed

definition verdict_indices :: "bool \<Rightarrow> bool list \<Rightarrow> nat list" where
  "verdict_indices want ms = filter (\<lambda>k. ms ! k = want) [0 ..< length ms]"

lemma select_recorded_split:
  "select_recorded_member_indices ms d =
     sort (take array_member_cap (verdict_indices d ms @ verdict_indices (\<not> d) ms))"
proof (cases "ms = []")
  case True
  then show ?thesis
    by (simp add: select_recorded_member_indices_def verdict_indices_def)
next
  case False
  let ?cap = "min array_member_cap (length ms)"
  let ?D = "verdict_indices d ms" and ?N = "verdict_indices (\<not> d) ms"
  have cap: "0 < ?cap" using False by (simp add: array_member_cap_def)
  have len: "length ?D + length ?N = length ms"
    using sum_length_filter_compl [of "\<lambda>k. ms ! k = d" "[0 ..< length ms]"]
    by (auto simp: verdict_indices_def cong: filter_cong)
  have s1: "select_pass ?cap d 0 ms [] = take ?cap ?D"
    using select_pass_take [of "[]" ?cap d 0 ms] cap by (simp add: verdict_indices_def)
  have all: "take ?cap (?D @ ?N) = take array_member_cap (?D @ ?N)"
    using len by (simp add: min_def)
  show ?thesis
  proof (cases "length (take ?cap ?D) < ?cap")
    case True
    then have lt: "length ?D < ?cap" by (simp add: min_def split: if_splits)
    then have "take ?cap ?D = ?D" by (intro take_all less_imp_le)
    moreover have "select_pass ?cap (\<not> d) 0 ms ?D = ?D @ take (?cap - length ?D) ?N"
      using select_pass_take [OF lt, of "\<not> d" 0 ms] by (simp add: verdict_indices_def)
    ultimately show ?thesis
      using s1 True all unfolding select_recorded_member_indices_def Let_def
      by (simp only: if_True take_append)
  next
    case False
    then have "?cap \<le> length ?D" unfolding length_take by linarith
    then have "take ?cap (?D @ ?N) = take ?cap ?D" by simp
    then show ?thesis
      using s1 False all unfolding select_recorded_member_indices_def Let_def
      by (simp only: if_False)
  qed
qed

lemma set_verdict_indices: "set (verdict_indices w ms) = {k. k < length ms \<and> ms ! k = w}"
  by (auto simp: verdict_indices_def)

lemma distinct_verdict_indices: "distinct (verdict_indices d ms @ verdict_indices (\<not> d) ms)"
  by (auto simp: verdict_indices_def)

lemma length_verdict_indices: "length (verdict_indices d ms @ verdict_indices (\<not> d) ms) = length ms"
  using sum_length_filter_compl [of "\<lambda>k. ms ! k = d" "[0 ..< length ms]"]
  by (auto simp: verdict_indices_def cong: filter_cong)

lemma select_recorded_set:
  "set (select_recorded_member_indices ms d)
   = set (take array_member_cap (verdict_indices d ms @ verdict_indices (\<not> d) ms))"
  by (simp only: select_recorded_split set_sort)

lemma select_recorded_length:
  "length (select_recorded_member_indices ms d) = min array_member_cap (length ms)"
  using length_verdict_indices [of d ms] by (simp only: select_recorded_split length_sort length_take min.commute)

lemma select_recorded_decisive:
  "(\<forall>k < length ms. ms ! k = d \<longrightarrow> k \<in> set (select_recorded_member_indices ms d)) \<or>
   (\<forall>k \<in> set (select_recorded_member_indices ms d). ms ! k = d)"
proof (cases "length (verdict_indices d ms) \<le> array_member_cap")
  case True
  then have "set (verdict_indices d ms) \<subseteq> set (select_recorded_member_indices ms d)"
    by (auto simp: select_recorded_set)
  then show ?thesis by (auto simp: set_verdict_indices)
next
  case False
  then have "set (select_recorded_member_indices ms d) \<subseteq> set (verdict_indices d ms)"
    by (auto simp: select_recorded_set dest: in_set_takeD)
  then show ?thesis by (auto simp: set_verdict_indices)
qed

lemma select_recorded_bound: "k \<in> set (select_recorded_member_indices ms d) \<Longrightarrow> k < length ms"
  by (auto simp: select_recorded_set set_verdict_indices dest!: in_set_takeD)

lemma select_recorded_sorted: "sorted_wrt (<) (select_recorded_member_indices ms d)"
proof -
  have "distinct (select_recorded_member_indices ms d)"
    unfolding select_recorded_split distinct_sort
    by (rule distinct_take) (rule distinct_verdict_indices)
  moreover have "sorted (select_recorded_member_indices ms d)"
    by (simp only: select_recorded_split sorted_sort)
  ultimately show ?thesis by (simp only: strict_sorted_iff)
qed

section \<open>Properties\<close>

text \<open>
  The verdict of an array quantifier is determined by the verdicts of the body on the members of
  the value: some member, all members of a non-empty array, all members, no member.  A null has no
  members, a scalar is its only member.
\<close>

theorem array_quantifier_verdict:
  "eval_array_quantified env outer v q body =
     (let ms = map (eval_array_body env outer body) (snd (array_members v))
      in case q of
           AqAny \<Rightarrow> True \<in> set ms
         | AqAll \<Rightarrow> ms \<noteq> [] \<and> False \<notin> set ms
         | AqAllOrEmpty \<Rightarrow> False \<notin> set ms
         | AqNone \<Rightarrow> True \<notin> set ms)"
  unfolding eval_array_quantified_members array_quantifier_sem Let_def by (rule refl)

text \<open>
  The members chosen for an explain trace: ascending distinct indices of the array, as many as
  the cap and the array allow, and either all members with the decisive verdict or only such.
\<close>

theorem recorded_members_explain:
  "sorted_wrt (<) (select_recorded_member_indices ms d)
   \<and> set (select_recorded_member_indices ms d) \<subseteq> {..< length ms}
   \<and> length (select_recorded_member_indices ms d) = min array_member_cap (length ms)
   \<and> ({k. k < length ms \<and> ms ! k = d} \<subseteq> set (select_recorded_member_indices ms d)
      \<or> set (select_recorded_member_indices ms d) \<subseteq> {k. k < length ms \<and> ms ! k = d})"
proof -
  have "{k. k < length ms \<and> ms ! k = d} \<subseteq> set (select_recorded_member_indices ms d)
      \<or> set (select_recorded_member_indices ms d) \<subseteq> {k. k < length ms \<and> ms ! k = d}"
    using select_recorded_decisive [of ms d] select_recorded_bound by blast
  then show ?thesis
    using select_recorded_sorted select_recorded_bound select_recorded_length by blast
qed

text \<open>
  A sub-field path through an array differs between the two lookups: on an event,
  JsonEvent::get_field collects the values of all members, on an array element element_field
  returns the first one.
\<close>

theorem element_field_takes_first:
  "let v = JObject [(''a'', JArray [JObject [(''b'', JString ''x'')], JObject [(''b'', JString ''y'')]])]
   in json_get_field v ''a.b'' = Some (EvArray [EvStr ''x'', EvStr ''y''])
      \<and> element_field (event_value_of_json v) ''a.b'' = Some (EvStr ''x'')"
  by code_simp

end
