(* ===== verification/ConditionEval.thy ===== *)
theory ConditionEval
  imports Compiled
begin

text \<open>
  Evaluation of compiled rules (\<open>rsigma-eval/src/compiler/mod.rs\<close>): the boolean pass with bloom
  pre-filtering, and the detail pass that reports the deciding selections and their field matches.
\<close>

section \<open>The boolean pass\<close>

datatype bloom_verdict = DefinitelyNoMatch | MaybeMatch

text \<open>
  The \<open>BloomLookup\<close> trait is the function from field names to verdicts.  \<open>NoBloom\<close> answers
  \<open>MaybeMatch\<close>.
\<close>

definition no_bloom :: "string \<Rightarrow> bloom_verdict" where
  "no_bloom _ = MaybeMatch"

definition eval_detection_item_with_bloom ::
    "ext_env \<Rightarrow> event \<Rightarrow> (string \<Rightarrow> bloom_verdict) \<Rightarrow> compiled_detection_item \<Rightarrow> bool" where
  "eval_detection_item_with_bloom env ev bloom item =
     (case cdi_exists item of
        Some expect_exists \<Rightarrow>
          (case cdi_field item of
             Some field \<Rightarrow> (ev_get_field ev field \<noteq> None) = expect_exists
           | None \<Rightarrow> \<not> expect_exists)
      | None \<Rightarrow>
          (case cdi_field item of
             Some field_name \<Rightarrow>
               (case ev_get_field ev field_name of
                  Some v \<Rightarrow>
                    (if cdi_bloom_eligible item \<and> bloom field_name = DefinitelyNoMatch then False
                     else matches env ev (cdi_matcher item) v)
                | None \<Rightarrow> matches_absent (cdi_matcher item))
           | None \<Rightarrow> matches_keyword env ev (cdi_matcher item)))"

text \<open>
  \<open>Quantifier::Count\<close>: the closure given to \<open>any\<close> counts and stops as soon as the count reaches
  \<open>required\<close>.
\<close>

fun count_any :: "nat \<Rightarrow> nat \<Rightarrow> ('a \<Rightarrow> bool) \<Rightarrow> 'a list \<Rightarrow> bool" where
  "count_any required matched p [] = False"
| "count_any required matched p (x # xs) =
     (let matched' = (if p x then matched + 1 else matched)
      in if required \<le> matched' then True else count_any required matched' p xs)"

lemma count_any_cong [fundef_cong]:
  "r = r' \<Longrightarrow> m = m' \<Longrightarrow> xs = ys \<Longrightarrow> (\<And>x. x \<in> set ys \<Longrightarrow> p x = q x) \<Longrightarrow>
   count_any r m p xs = count_any r' m' q ys"
  by (induction ys arbitrary: m m' xs) (auto simp: Let_def)

lemma snd_size:
  "(n, d) \<in> set named \<Longrightarrow> size d < Suc (size_list (size_prod (\<lambda>_. 0) size) named)"
  by (induction named) auto

function eval_condition_matches_with_bloom ::
      "ext_env \<Rightarrow> event \<Rightarrow> (string \<Rightarrow> bloom_verdict) \<Rightarrow> condition_expr
       \<Rightarrow> (string \<times> compiled_detection) list \<Rightarrow> bool"
  and eval_detection_with_bloom ::
      "ext_env \<Rightarrow> event \<Rightarrow> (string \<Rightarrow> bloom_verdict) \<Rightarrow> compiled_detection \<Rightarrow> bool"
where
  "eval_condition_matches_with_bloom env ev bloom (CondIdentifier name) detections =
     (case map_of detections name of
        Some det \<Rightarrow> eval_detection_with_bloom env ev bloom det
      | None \<Rightarrow> False)"
| "eval_condition_matches_with_bloom env ev bloom (CondAnd exprs) detections =
     list_all (\<lambda>e. eval_condition_matches_with_bloom env ev bloom e detections) exprs"
| "eval_condition_matches_with_bloom env ev bloom (CondOr exprs) detections =
     list_ex (\<lambda>e. eval_condition_matches_with_bloom env ev bloom e detections) exprs"
| "eval_condition_matches_with_bloom env ev bloom (CondNot inner) detections =
     (\<not> eval_condition_matches_with_bloom env ev bloom inner detections)"
| "eval_condition_matches_with_bloom env ev bloom (CondSelector q pattern) detections =
     (let matching = filter (\<lambda>nd. matches_detection_name pattern (fst nd)) detections
      in case q of
           QAny \<Rightarrow> list_ex (\<lambda>nd. eval_detection_with_bloom env ev bloom (snd nd)) matching
         | QAll \<Rightarrow> list_all (\<lambda>nd. eval_detection_with_bloom env ev bloom (snd nd)) matching
         | QCount required \<Rightarrow>
             count_any required 0 (\<lambda>nd. eval_detection_with_bloom env ev bloom (snd nd)) matching)"
| "eval_detection_with_bloom env ev bloom (CdAllOf items) =
     list_all (eval_detection_item_with_bloom env ev bloom) items"
| "eval_detection_with_bloom env ev bloom (CdAnyOf dets) =
     list_ex (\<lambda>d. eval_detection_with_bloom env ev bloom d) dets"
| "eval_detection_with_bloom env ev bloom (CdKeywords matcher) = matches_keyword env ev matcher"
| "eval_detection_with_bloom env ev bloom (CdArrayMatch field q body) =
     (case ev_get_field ev field of
        Some v \<Rightarrow> eval_array_quantified env ev v q body
      | None \<Rightarrow> array_quantifier_matches_empty q)"
| "eval_detection_with_bloom env ev bloom (CdAnd dets) =
     list_all (\<lambda>d. eval_detection_with_bloom env ev bloom d) dets"
| "eval_detection_with_bloom env ev bloom (CdConditional named condition) =
     eval_condition_matches_with_bloom env ev bloom condition named"
  by pat_completeness auto
termination
proof (relation "measures
    [\<lambda>x. case x of
        Inl (env, ev, bloom, expr, named) \<Rightarrow> 2 * size_list (size_prod (\<lambda>_. 0) size) named + 1
      | Inr (env, ev, bloom, det) \<Rightarrow> 2 * size det,
     \<lambda>x. case x of
        Inl (env, ev, bloom, expr, named) \<Rightarrow> size expr
      | Inr _ \<Rightarrow> 0]"; (simp; fail)?)
qed (auto dest: size_named snd_size elem_size [where f = size])

section \<open>The detail pass\<close>

definition max_keyword_matches :: nat where
  "max_keyword_matches = 16"

definition pattern_at :: "match_detail_level \<Rightarrow> string option \<Rightarrow> string option" where
  "pattern_at level p = (if level = MdlFull then p else None)"

definition make_field_match ::
    "ext_env \<Rightarrow> string \<Rightarrow> string \<Rightarrow> json_value \<Rightarrow> compiled_matcher \<Rightarrow> match_detail_level \<Rightarrow> field_match" where
  "make_field_match env selection field v matcher level =
     (if level = MdlOff then field_match_new field v
      else let d = describe env matcher
           in \<lparr> fm_field = field, fm_value = v, fm_selection = Some selection,
                fm_matcher = Some (md_kind d), fm_pattern = pattern_at level (md_pattern d),
                fm_case_sensitive = md_case_sensitive d, fm_negated = md_negated d \<rparr>)"

definition keyword_field_match ::
    "ext_env \<Rightarrow> string \<Rightarrow> string \<Rightarrow> json_value \<Rightarrow> compiled_matcher \<Rightarrow> match_detail_level \<Rightarrow> field_match" where
  "keyword_field_match env selection field v matcher level =
     (let d = describe env matcher
      in \<lparr> fm_field = field, fm_value = v, fm_selection = Some selection,
           fm_matcher = Some MkKeyword, fm_pattern = pattern_at level (md_pattern d),
           fm_case_sensitive = md_case_sensitive d, fm_negated = md_negated d \<rparr>)"

text \<open>
  \<open>collect_keyword_matches\<close> pushes to \<open>out\<close>; the value is the list pushed.  The loop over the
  strings stops after \<open>max_keyword_matches\<close> hits.
\<close>

fun collect_keyword_matches ::
    "ext_env \<Rightarrow> string \<Rightarrow> compiled_matcher \<Rightarrow> event \<Rightarrow> match_detail_level \<Rightarrow> field_match list" where
  "collect_keyword_matches env selection (CmAllOf children) ev level =
     concat (map (\<lambda>c. collect_keyword_matches env selection c ev level) children)"
| "collect_keyword_matches env selection (CmCaseInsensitiveGroup children GmAll) ev level =
     concat (map (\<lambda>c. collect_keyword_matches env selection c ev level) children)"
| "collect_keyword_matches env selection (CmNot inner) ev level = []"
| "collect_keyword_matches env selection m ev level =
     map (\<lambda>s. keyword_field_match env selection ''keyword'' (JString s) m level)
       (take max_keyword_matches (filter (matches_str env m) (ev_all_string_values ev)))"

text \<open>
  The fields of matched array members.  The four functions only push to \<open>out\<close> and look at its
  growth; their values are the lists pushed.
\<close>

definition array_item_field_match ::
    "ext_env \<Rightarrow> string \<Rightarrow> event \<Rightarrow> match_detail_level \<Rightarrow> string \<Rightarrow> event_value
     \<Rightarrow> compiled_detection_item \<Rightarrow> field_match list" where
  "array_item_field_match env selection outer level member_path member item =
     (if \<not> eval_array_item env outer item member then []
      else
        let relative = cdi_field item;
            absent = (case relative of Some name \<Rightarrow> element_field member name = None | None \<Rightarrow> False)
        in if absent \<and> level = MdlOff then []
           else
             let path = join_member_field member_path relative;
                 v = (case relative of
                        Some name \<Rightarrow>
                          (case element_field member name of
                             Some x \<Rightarrow> event_value_to_json x
                           | None \<Rightarrow> JNull)
                      | None \<Rightarrow> event_value_to_json member)
             in [make_field_match env selection path v (cdi_matcher item) level])"

function (sequential) record_array_members ::
      "ext_env \<Rightarrow> string \<Rightarrow> string \<Rightarrow> compiled_detection \<Rightarrow> event_value \<Rightarrow> bool \<Rightarrow> event_value list
       \<Rightarrow> bool list \<Rightarrow> event \<Rightarrow> match_detail_level \<Rightarrow> field_match list"
  and collect_array_match_fields ::
      "ext_env \<Rightarrow> string \<Rightarrow> string \<Rightarrow> compiled_detection \<Rightarrow> event_value option \<Rightarrow> event
       \<Rightarrow> match_detail_level \<Rightarrow> string \<Rightarrow> field_match list"
  and collect_array_body_fields ::
      "ext_env \<Rightarrow> string \<Rightarrow> compiled_detection \<Rightarrow> event_value \<Rightarrow> event \<Rightarrow> match_detail_level
       \<Rightarrow> string \<Rightarrow> field_match list"
  and collect_array_condition_fields ::
      "ext_env \<Rightarrow> string \<Rightarrow> condition_expr \<Rightarrow> (string \<times> compiled_detection) list \<Rightarrow> event_value
       \<Rightarrow> event \<Rightarrow> match_detail_level \<Rightarrow> string \<Rightarrow> field_match list"
where
  "record_array_members env selection container_path body v scalar members verdicts outer level =
     (let binding = take array_member_cap (filter (\<lambda>i. verdicts ! i) [0 ..< length verdicts])
      in if binding = [] then [field_match_new container_path (event_value_to_json v)]
         else
           concat (map (\<lambda>i.
             let member_path = array_member_path container_path i scalar;
                 pushed = collect_array_body_fields env selection body (members ! i) outer level
                            member_path
             in if pushed = [] \<and> level \<noteq> MdlOff
                then [field_match_new member_path (event_value_to_json (members ! i))]
                else pushed) binding))"
| "collect_array_match_fields env selection field body v_opt outer level path_prefix =
     (case v_opt of
        None \<Rightarrow> []
      | Some v \<Rightarrow>
          (case array_members v of
             (scalar, members) \<Rightarrow>
               (let verdicts = map (eval_array_body env outer body) members;
                    container_path = (if path_prefix = [] then field
                                      else join_member_field path_prefix (Some field))
                in record_array_members env selection container_path body v scalar members
                     verdicts outer level)))"
| "collect_array_body_fields env selection (CdAllOf items) member outer level member_path =
     concat (map (array_item_field_match env selection outer level member_path member) items)"
| "collect_array_body_fields env selection (CdAnyOf dets) member outer level member_path =
     concat (map (\<lambda>d. if eval_array_body env outer d member
                      then collect_array_body_fields env selection d member outer level member_path
                      else []) dets)"
| "collect_array_body_fields env selection (CdAnd dets) member outer level member_path =
     concat (map (\<lambda>d. if eval_array_body env outer d member
                      then collect_array_body_fields env selection d member outer level member_path
                      else []) dets)"
| "collect_array_body_fields env selection (CdArrayMatch field q inner) member outer level
     member_path =
     collect_array_match_fields env selection field inner (element_field member field) outer level
       member_path"
| "collect_array_body_fields env selection (CdKeywords matcher) member outer level member_path =
     (if level \<noteq> MdlOff \<and> matches env outer matcher member
      then [keyword_field_match env selection member_path (event_value_to_json member) matcher level]
      else [])"
| "collect_array_body_fields env selection (CdConditional named condition) member outer level
     member_path =
     collect_array_condition_fields env selection condition named member outer level member_path"
| "collect_array_condition_fields env selection (CondIdentifier name) named member outer level
     member_path =
     (case map_of named name of
        Some det \<Rightarrow>
          (if eval_array_body env outer det member
           then collect_array_body_fields env selection det member outer level member_path else [])
      | None \<Rightarrow> [])"
| "collect_array_condition_fields env selection (CondAnd exprs) named member outer level
     member_path =
     concat (map (\<lambda>e. collect_array_condition_fields env selection e named member outer level
                      member_path) exprs)"
| "collect_array_condition_fields env selection (CondOr exprs) named member outer level
     member_path =
     concat (map (\<lambda>e. collect_array_condition_fields env selection e named member outer level
                      member_path) exprs)"
| "collect_array_condition_fields env selection (CondNot inner) named member outer level
     member_path = []"
| "collect_array_condition_fields env selection (CondSelector q pattern) named member outer level
     member_path =
     (let names = sort (filter (\<lambda>n. matches_detection_name pattern n) (map fst named))
      in concat (map (\<lambda>name.
           case map_of named name of
             Some det \<Rightarrow>
               (if eval_array_body env outer det member
                then collect_array_body_fields env selection det member outer level member_path
                else [])
           | None \<Rightarrow> []) names))"
  by pat_completeness auto
termination
proof (relation "measures
    [\<lambda>x. case x of
        Inl (Inl (env, sel, path, body, v, scalar, members, verdicts, outer, level)) \<Rightarrow>
          3 * size body + 1
      | Inl (Inr (env, sel, field, body, v, outer, level, path)) \<Rightarrow> 3 * size body + 2
      | Inr (Inl (env, sel, body, member, outer, level, path)) \<Rightarrow> 3 * size body
      | Inr (Inr (env, sel, expr, named, member, outer, level, path)) \<Rightarrow>
          3 * size_list (size_prod (\<lambda>_. 0) size) named + 1,
     \<lambda>x. case x of
        Inr (Inr (env, sel, expr, named, member, outer, level, path)) \<Rightarrow> size expr
      | _ \<Rightarrow> 0]"; (simp; fail)?)
qed (auto dest: size_named elem_size [where f = size])

section \<open>Recording evaluation\<close>

text \<open>\<open>out\<close> is threaded through; the result is the verdict with the new \<open>out\<close>.\<close>

definition eval_item_recording ::
    "ext_env \<Rightarrow> string \<Rightarrow> compiled_detection_item \<Rightarrow> event \<Rightarrow> (string \<Rightarrow> bloom_verdict)
     \<Rightarrow> match_detail_level \<Rightarrow> field_match list \<Rightarrow> bool \<times> field_match list" where
  "eval_item_recording env selection item ev bloom level out =
     (case cdi_field item of
        None \<Rightarrow>
          (let matched = (case cdi_exists item of
                            Some expect \<Rightarrow> \<not> expect
                          | None \<Rightarrow> matches_keyword env ev (cdi_matcher item))
           in (matched,
               if matched \<and> level \<noteq> MdlOff
               then out @ collect_keyword_matches env selection (cdi_matcher item) ev level
               else out))
      | Some field_name \<Rightarrow>
          (case ev_get_field ev field_name of
             Some v \<Rightarrow>
               (let matched = (case cdi_exists item of
                                 Some expect \<Rightarrow> expect
                               | None \<Rightarrow>
                                   \<not> (cdi_bloom_eligible item \<and> bloom field_name = DefinitelyNoMatch)
                                   \<and> matches env ev (cdi_matcher item) v)
                in (matched,
                    if matched
                    then out @ [make_field_match env selection field_name (event_value_to_json v)
                                  (cdi_matcher item) level]
                    else out))
           | None \<Rightarrow>
               (let matched = (case cdi_exists item of
                                 Some expect \<Rightarrow> \<not> expect
                               | None \<Rightarrow> matches_absent (cdi_matcher item))
                in (matched,
                    if matched \<and> level \<noteq> MdlOff
                    then out @ [make_field_match env selection field_name JNull (cdi_matcher item)
                                  level]
                    else out))))"

text \<open>The item loop of an \<open>AllOf\<close>: a failing item truncates \<open>out\<close> to \<open>mark\<close>.\<close>

fun record_items ::
    "ext_env \<Rightarrow> string \<Rightarrow> event \<Rightarrow> (string \<Rightarrow> bloom_verdict) \<Rightarrow> match_detail_level \<Rightarrow> nat
     \<Rightarrow> compiled_detection_item list \<Rightarrow> field_match list \<Rightarrow> bool \<times> field_match list" where
  "record_items env selection ev bloom level mark [] out = (True, out)"
| "record_items env selection ev bloom level mark (item # items) out =
     (case eval_item_recording env selection item ev bloom level out of
        (matched, out') \<Rightarrow>
          if \<not> matched then (False, take mark out')
          else record_items env selection ev bloom level mark items out')"

fun eval_detection_recording ::
      "ext_env \<Rightarrow> string \<Rightarrow> event \<Rightarrow> (string \<Rightarrow> bloom_verdict) \<Rightarrow> match_detail_level
       \<Rightarrow> compiled_detection \<Rightarrow> field_match list \<Rightarrow> bool \<times> field_match list"
  and record_any ::
      "ext_env \<Rightarrow> string \<Rightarrow> event \<Rightarrow> (string \<Rightarrow> bloom_verdict) \<Rightarrow> match_detail_level
       \<Rightarrow> bool \<Rightarrow> compiled_detection list \<Rightarrow> field_match list \<Rightarrow> bool \<times> field_match list"
  and record_and ::
      "ext_env \<Rightarrow> string \<Rightarrow> event \<Rightarrow> (string \<Rightarrow> bloom_verdict) \<Rightarrow> match_detail_level
       \<Rightarrow> nat \<Rightarrow> compiled_detection list \<Rightarrow> field_match list \<Rightarrow> bool \<times> field_match list"
where
  "eval_detection_recording env selection ev bloom level (CdAllOf items) out =
     record_items env selection ev bloom level (length out) items out"
| "eval_detection_recording env selection ev bloom level (CdAnyOf dets) out =
     record_any env selection ev bloom level False dets out"
| "eval_detection_recording env selection ev bloom level (CdAnd dets) out =
     record_and env selection ev bloom level (length out) dets out"
| "eval_detection_recording env selection ev bloom level (CdKeywords matcher) out =
     (let matched = matches_keyword env ev matcher
      in (matched,
          if matched \<and> level \<noteq> MdlOff
          then out @ collect_keyword_matches env selection matcher ev level else out))"
| "eval_detection_recording env selection ev bloom level (CdArrayMatch field q body) out =
     (case ev_get_field ev field of
        None \<Rightarrow> (array_quantifier_matches_empty q, out)
      | Some v \<Rightarrow>
          (case array_members v of
             (scalar, members) \<Rightarrow>
               (let verdicts = map (\<lambda>m. eval_array_body env ev body m) members;
                    holds = array_quantifier_from_member_matches q verdicts
                in (holds,
                    if holds
                    then out @ record_array_members env selection field body v scalar members
                                 verdicts ev level
                    else out))))"
| "eval_detection_recording env selection ev bloom level (CdConditional named condition) out =
     (eval_condition_matches_with_bloom env ev bloom condition named, out)"
| "record_any env selection ev bloom level acc [] out = (acc, out)"
| "record_any env selection ev bloom level acc (d # ds) out =
     (case eval_detection_recording env selection ev bloom level d out of
        (r, out') \<Rightarrow> record_any env selection ev bloom level (acc \<or> r) ds out')"
| "record_and env selection ev bloom level mark [] out = (True, out)"
| "record_and env selection ev bloom level mark (d # ds) out =
     (case eval_detection_recording env selection ev bloom level d out of
        (r, out') \<Rightarrow>
          if \<not> r then (False, take mark out')
          else record_and env selection ev bloom level mark ds out')"

record selection_detail =
  sd_name :: string
  sd_fields :: "field_match list"

text \<open>\<open>flatten_detail\<close>: the \<open>HashSet\<close> of seen names, the names and the fields.\<close>

fun flatten_loop ::
    "string list \<Rightarrow> string list \<Rightarrow> field_match list \<Rightarrow> selection_detail list
     \<Rightarrow> string list \<times> field_match list" where
  "flatten_loop seen names fms [] = (names, fms)"
| "flatten_loop seen names fms (sel # rest) =
     (if sd_name sel \<notin> set seen
      then flatten_loop (sd_name sel # seen) (names @ [sd_name sel]) (fms @ sd_fields sel) rest
      else flatten_loop seen names fms rest)"

definition flatten_detail :: "selection_detail list \<Rightarrow> string list \<times> field_match list" where
  "flatten_detail detail = flatten_loop [] [] [] detail"

text \<open>The loop of a selector over the matching detections: \<open>(candidates, matched)\<close>.\<close>

fun selector_loop ::
    "ext_env \<Rightarrow> event \<Rightarrow> (string \<Rightarrow> bloom_verdict) \<Rightarrow> match_detail_level
     \<Rightarrow> nat \<times> selection_detail list \<Rightarrow> (string \<times> compiled_detection) list
     \<Rightarrow> nat \<times> selection_detail list" where
  "selector_loop env ev bloom level (candidates, matched) [] = (candidates, matched)"
| "selector_loop env ev bloom level (candidates, matched) ((name, det) # rest) =
     (case eval_detection_recording env name ev bloom level det [] of
        (r, fms) \<Rightarrow>
          selector_loop env ev bloom level
            (candidates + 1,
             if r then matched @ [\<lparr> sd_name = name, sd_fields = fms \<rparr>] else matched) rest)"

text \<open>\<open>drain(mark..child_mark)\<close>.\<close>

definition drain :: "nat \<Rightarrow> nat \<Rightarrow> 'a list \<Rightarrow> 'a list" where
  "drain i j xs = take i xs @ drop j xs"

fun eval_condition_detail ::
      "ext_env \<Rightarrow> event \<Rightarrow> (string \<Rightarrow> bloom_verdict) \<Rightarrow> match_detail_level
       \<Rightarrow> (string \<times> compiled_detection) list \<Rightarrow> condition_expr \<Rightarrow> selection_detail list
       \<Rightarrow> bool \<times> selection_detail list"
  and detail_and ::
      "ext_env \<Rightarrow> event \<Rightarrow> (string \<Rightarrow> bloom_verdict) \<Rightarrow> match_detail_level
       \<Rightarrow> (string \<times> compiled_detection) list \<Rightarrow> nat \<Rightarrow> condition_expr list \<Rightarrow> selection_detail list
       \<Rightarrow> bool \<times> selection_detail list"
  and detail_or ::
      "ext_env \<Rightarrow> event \<Rightarrow> (string \<Rightarrow> bloom_verdict) \<Rightarrow> match_detail_level
       \<Rightarrow> (string \<times> compiled_detection) list \<Rightarrow> nat \<Rightarrow> condition_expr list \<Rightarrow> selection_detail list
       \<Rightarrow> bool \<times> selection_detail list"
where
  "eval_condition_detail env ev bloom level detections (CondIdentifier name) out =
     (case map_of detections name of
        None \<Rightarrow> (False, out)
      | Some det \<Rightarrow>
          (case eval_detection_recording env name ev bloom level det [] of
             (result, fms) \<Rightarrow>
               (result, if result then out @ [\<lparr> sd_name = name, sd_fields = fms \<rparr>] else out)))"
| "eval_condition_detail env ev bloom level detections (CondAnd exprs) out =
     detail_and env ev bloom level detections (length out) exprs out"
| "eval_condition_detail env ev bloom level detections (CondOr exprs) out =
     detail_or env ev bloom level detections (length out) exprs out"
| "eval_condition_detail env ev bloom level detections (CondNot inner) out =
     (case eval_condition_detail env ev bloom level detections inner out of
        (r, out') \<Rightarrow> (\<not> r, out'))"
| "eval_condition_detail env ev bloom level detections (CondSelector q pattern) out =
     (case selector_loop env ev bloom level (0, [])
             (filter (\<lambda>nd. matches_detection_name pattern (fst nd)) detections) of
        (candidates, matched) \<Rightarrow>
          (let holds = (case q of
                          QAny \<Rightarrow> matched \<noteq> []
                        | QAll \<Rightarrow> length matched = candidates
                        | QCount n \<Rightarrow> n \<le> length matched)
           in (holds, if holds then out @ matched else out)))"
| "detail_and env ev bloom level detections mark [] out = (True, out)"
| "detail_and env ev bloom level detections mark (e # es) out =
     (case eval_condition_detail env ev bloom level detections e out of
        (r, out') \<Rightarrow>
          if \<not> r then (False, drain mark (length out) out')
          else detail_and env ev bloom level detections mark es out')"
| "detail_or env ev bloom level detections mark [] out = (False, out)"
| "detail_or env ev bloom level detections mark (e # es) out =
     (case eval_condition_detail env ev bloom level detections e out of
        (r, out') \<Rightarrow>
          if r then (True, drain mark (length out) out')
          else detail_or env ev bloom level detections mark es out')"

section \<open>Rules\<close>

text \<open>\<open>EvaluationResult\<close> with a detection body.\<close>

record detection_result =
  dr_header :: rule_header
  dr_body :: detection_body

fun eval_conditions_loop ::
    "ext_env \<Rightarrow> compiled_rule \<Rightarrow> event \<Rightarrow> (string \<Rightarrow> bloom_verdict) \<Rightarrow> match_detail_level
     \<Rightarrow> condition_expr list \<Rightarrow> detection_result option" where
  "eval_conditions_loop env rule ev bloom level [] = None"
| "eval_conditions_loop env rule ev bloom level (condition # rest) =
     (if eval_condition_matches_with_bloom env ev bloom condition (cru_detections rule) then
        (case eval_condition_detail env ev bloom level (cru_detections rule) condition [] of
           (matched, detail) \<Rightarrow>
             (case flatten_detail detail of
                (matched_selections, matched_fields) \<Rightarrow>
                  Some \<lparr>
                    dr_header = \<lparr> rh_rule_title = cru_title rule, rh_rule_id = cru_id rule,
                                  rh_level = cru_level rule, rh_tags = cru_tags rule,
                                  rh_custom_attributes = cru_custom_attributes rule,
                                  rh_enrichments = None \<rparr>,
                    dr_body = \<lparr> db_matched_selections = matched_selections,
                                db_matched_fields = matched_fields,
                                db_event = (if cru_include_event rule then Some (ev_to_json ev)
                                            else None) \<rparr> \<rparr>))
      else eval_conditions_loop env rule ev bloom level rest)"

definition evaluate_rule_with_bloom ::
    "ext_env \<Rightarrow> compiled_rule \<Rightarrow> event \<Rightarrow> (string \<Rightarrow> bloom_verdict) \<Rightarrow> match_detail_level
     \<Rightarrow> detection_result option" where
  "evaluate_rule_with_bloom env rule ev bloom level =
     eval_conditions_loop env rule ev bloom level (cru_conditions rule)"

definition evaluate_rule :: "ext_env \<Rightarrow> compiled_rule \<Rightarrow> event \<Rightarrow> detection_result option" where
  "evaluate_rule env rule ev = evaluate_rule_with_bloom env rule ev no_bloom MdlOff"

definition eval_condition ::
    "ext_env \<Rightarrow> condition_expr \<Rightarrow> (string \<times> compiled_detection) list \<Rightarrow> event \<Rightarrow> string list
     \<Rightarrow> bool \<times> string list" where
  "eval_condition env expr detections ev matched_selections =
     (case eval_condition_detail env ev no_bloom MdlOff detections expr [] of
        (result, detail) \<Rightarrow> (result, matched_selections @ fst (flatten_detail detail)))"

section \<open>Reference semantics of conditions\<close>

text \<open>
  A condition over the detection names \<open>keys\<close> and a truth value for each.
\<close>

fun cond_sem :: "string list \<Rightarrow> (string \<Rightarrow> bool) \<Rightarrow> condition_expr \<Rightarrow> bool" where
  "cond_sem keys \<sigma> (CondIdentifier n) = (n \<in> set keys \<and> \<sigma> n)"
| "cond_sem keys \<sigma> (CondAnd es) = list_all (cond_sem keys \<sigma>) es"
| "cond_sem keys \<sigma> (CondOr es) = list_ex (cond_sem keys \<sigma>) es"
| "cond_sem keys \<sigma> (CondNot e) = (\<not> cond_sem keys \<sigma> e)"
| "cond_sem keys \<sigma> (CondSelector q pattern) =
     (let ns = filter (matches_detection_name pattern) keys
      in case q of
           QAny \<Rightarrow> list_ex \<sigma> ns
         | QAll \<Rightarrow> list_all \<sigma> ns
         | QCount n \<Rightarrow> n \<le> length (filter \<sigma> ns))"

text \<open>\<open>Count\<close> carries a \<open>NonZeroU64\<close>.\<close>

fun counts_nonzero :: "condition_expr \<Rightarrow> bool" where
  "counts_nonzero (CondIdentifier n) = True"
| "counts_nonzero (CondAnd es) = list_all counts_nonzero es"
| "counts_nonzero (CondOr es) = list_all counts_nonzero es"
| "counts_nonzero (CondNot e) = counts_nonzero e"
| "counts_nonzero (CondSelector q pattern) = (case q of QCount n \<Rightarrow> 0 < n | _ \<Rightarrow> True)"

text \<open>Whether the named detection holds.\<close>

definition det_holds ::
    "ext_env \<Rightarrow> event \<Rightarrow> (string \<Rightarrow> bloom_verdict) \<Rightarrow> (string \<times> compiled_detection) list
     \<Rightarrow> string \<Rightarrow> bool" where
  "det_holds env ev bloom detections n =
     (case map_of detections n of
        Some det \<Rightarrow> eval_detection_with_bloom env ev bloom det
      | None \<Rightarrow> False)"

lemma count_any_iff:
  "m < r \<Longrightarrow> count_any r m p xs \<longleftrightarrow> r \<le> m + length (filter p xs)"
proof (induction xs arbitrary: m)
  case Nil
  then show ?case by simp
next
  case (Cons x xs)
  show ?case
  proof (cases "p x \<and> r \<le> m + 1")
    case True
    with Cons.prems show ?thesis by (simp add: Let_def)
  next
    case False
    with Cons show ?thesis by (auto simp: Let_def)
  qed
qed

lemma det_holds_pair:
  "distinct (map fst dets) \<Longrightarrow> nd \<in> set dets \<Longrightarrow>
   det_holds env ev bloom dets (fst nd) = eval_detection_with_bloom env ev bloom (snd nd)"
  by (cases nd) (simp add: det_holds_def)

lemma filter_keys:
  "filter (matches_detection_name pat) (map fst dets)
   = map fst (filter (\<lambda>nd. matches_detection_name pat (fst nd)) dets)"
  by (simp add: filter_map comp_def)

lemma filter_holds:
  assumes "distinct (map fst dets)" and "set nds \<subseteq> set dets"
  shows "filter (det_holds env ev bloom dets) (map fst nds)
    = map fst (filter (\<lambda>nd. eval_detection_with_bloom env ev bloom (snd nd)) nds)"
  using assms(2)
proof (induction nds)
  case Nil
  show ?case by simp
next
  case (Cons nd nds)
  with det_holds_pair [OF assms(1)] show ?case by simp
qed

text \<open>The boolean pass computes the reference semantics.\<close>

lemma eval_condition_sem:
  assumes "distinct (map fst dets)"
  shows "counts_nonzero e \<Longrightarrow>
    eval_condition_matches_with_bloom env ev bloom e dets
    = cond_sem (map fst dets) (det_holds env ev bloom dets) e"
proof (induction e)
  case (CondAnd es)
  then show ?case by (auto simp: list_all_iff)
next
  case (CondOr es)
  then show ?case by (auto simp: list_all_iff list_ex_iff)
next
  case (CondIdentifier n)
  then show ?case
    by (auto simp: det_holds_def image_image split: option.splits dest: map_of_SomeD)
       (force dest: map_of_SomeD)+
next
  case (CondSelector q pat)
  let ?m = "filter (\<lambda>nd. matches_detection_name pat (fst nd)) dets"
  have sub: "set ?m \<subseteq> set dets" by auto
  have h: "det_holds env ev bloom dets (fst nd) = eval_detection_with_bloom env ev bloom (snd nd)"
    if "nd \<in> set ?m" for nd
    using that sub by (intro det_holds_pair [OF assms]) auto
  have len: "length (filter (det_holds env ev bloom dets) (map fst ?m))
      = length (filter (\<lambda>nd. eval_detection_with_bloom env ev bloom (snd nd)) ?m)"
    by (simp only: filter_holds [OF assms sub] length_map)
  show ?case
  proof (cases q)
    case (QCount n)
    with CondSelector have "0 < n" by simp
    with QCount len show ?thesis
      unfolding cond_sem.simps eval_condition_matches_with_bloom.simps Let_def filter_keys
      by (simp only: quantifier.case count_any_iff add_0)
  next
    case QAny
    with h show ?thesis
      unfolding cond_sem.simps eval_condition_matches_with_bloom.simps Let_def filter_keys
      by (simp add: list_ex_iff)
  next
    case QAll
    with h show ?thesis
      unfolding cond_sem.simps eval_condition_matches_with_bloom.simps Let_def filter_keys
      by (simp add: list_all_iff)
  qed
qed simp

section \<open>The detail pass agrees with the boolean pass\<close>

text \<open>A recorder's contract: the verdict, and \<open>out\<close> extended only when it holds.\<close>

definition records :: "bool \<Rightarrow> 'a list \<Rightarrow> bool \<times> 'a list \<Rightarrow> bool" where
  "records verdict out r = (fst r = verdict \<and> (\<exists>ext. snd r = out @ ext \<and> (\<not> verdict \<longrightarrow> ext = [])))"

lemma eval_item_recording_ok:
  "records (eval_detection_item_with_bloom env ev bloom item) out
     (eval_item_recording env selection item ev bloom level out)"
  by (auto simp: records_def eval_item_recording_def eval_detection_item_with_bloom_def Let_def
      split: option.splits)

lemma record_items_ok:
  "\<exists>ext. record_items env selection ev bloom level (length base) items (base @ acc)
     = (list_all (eval_detection_item_with_bloom env ev bloom) items,
        if list_all (eval_detection_item_with_bloom env ev bloom) items then base @ acc @ ext else base)"
proof (induction items arbitrary: acc)
  case Nil
  then show ?case by simp
next
  case (Cons item items)
  obtain r out' where r: "eval_item_recording env selection item ev bloom level (base @ acc) = (r, out')"
    by fastforce
  from eval_item_recording_ok [of env ev bloom item "base @ acc" selection level]
  obtain ext where "r = eval_detection_item_with_bloom env ev bloom item"
    and "out' = base @ acc @ ext" by (auto simp: records_def r)
  with Cons.IH [of "acc @ ext"] r show ?case by auto
qed

lemma eval_detection_recording_ok:
  "records (eval_detection_with_bloom env ev bloom d) out
     (eval_detection_recording env selection ev bloom level d out)"
  "\<exists>ext. record_any env selection ev bloom level b ds out
     = (b \<or> list_ex (eval_detection_with_bloom env ev bloom) ds, out @ ext)
       \<and> (\<not> list_ex (eval_detection_with_bloom env ev bloom) ds \<longrightarrow> ext = [])"
  "\<And>base acc. out = base @ acc \<Longrightarrow> mark = length base \<Longrightarrow>
   \<exists>ext. record_and env selection ev bloom level mark ds out
     = (list_all (eval_detection_with_bloom env ev bloom) ds,
        if list_all (eval_detection_with_bloom env ev bloom) ds then base @ acc @ ext else base)"
proof (induction env selection ev bloom level d out and env selection ev bloom level b ds out
    and env selection ev bloom level mark ds out
    rule: eval_detection_recording_record_any_record_and.induct)
  case (1 env selection ev bloom level items out)
  show ?case using record_items_ok [of env selection ev bloom level out items "[]"]
    by (auto simp: records_def)
next
  case (2 env selection ev bloom level dets out)
  then show ?case by (auto simp: records_def)
next
  case (3 env selection ev bloom level dets out)
  from 3 [of out "[]"] show ?case by (auto simp: records_def)
next
  case (5 env selection ev bloom level field q body out)
  show ?case
  proof (cases "ev_get_field ev field")
    case None
    then show ?thesis by (simp add: records_def)
  next
    case (Some v)
    then show ?thesis
      by (cases "array_members v")
         (simp add: records_def eval_array_quantified_members Let_def
            del: eval_array_quantified.simps record_array_members.simps)
  qed
next
  case (8 env selection ev bloom level acc d ds out)
  obtain r out' where r: "eval_detection_recording env selection ev bloom level d out = (r, out')"
    by fastforce
  with 8(1) obtain ext where r': "r = eval_detection_with_bloom env ev bloom d" "out' = out @ ext"
    "\<not> r \<longrightarrow> ext = []" by (auto simp: records_def)
  from 8(2) [OF r [symmetric]] obtain ext' where
    "record_any env selection ev bloom level (acc \<or> r) ds out'
      = ((acc \<or> r) \<or> list_ex (eval_detection_with_bloom env ev bloom) ds, out' @ ext')"
    "\<not> list_ex (eval_detection_with_bloom env ev bloom) ds \<longrightarrow> ext' = []" by blast
  with r r' show ?case by auto
next
  case (10 env selection ev bloom level mark d ds out)
  obtain r out' where r: "eval_detection_recording env selection ev bloom level d out = (r, out')"
    by fastforce
  with 10(1) obtain ext where r': "r = eval_detection_with_bloom env ev bloom d" "out' = out @ ext"
    by (auto simp: records_def)
  show ?case
  proof (cases r)
    case False
    with r r' 10(3,4) show ?thesis by simp
  next
    case True
    with 10(2) [OF r [symmetric] _, of base "acc @ ext"] r r' 10(3,4) show ?thesis by auto
  qed
qed (auto simp: records_def Let_def)

lemma eval_detection_recording_verdict:
  "fst (eval_detection_recording env selection ev bloom level d out)
   = eval_detection_with_bloom env ev bloom d"
  using eval_detection_recording_ok(1) by (auto simp: records_def)

lemma selector_loop_result:
  "\<exists>sds. selector_loop env ev bloom level (c, m) nds = (c + length nds, m @ sds)
     \<and> map sd_name sds
       = map fst (filter (\<lambda>nd. eval_detection_with_bloom env ev bloom (snd nd)) nds)"
proof (induction nds arbitrary: c m)
  case Nil
  show ?case by simp
next
  case (Cons nd nds)
  obtain n d where nd: "nd = (n, d)" by fastforce
  obtain r fms where r: "eval_detection_recording env n ev bloom level d [] = (r, fms)" by fastforce
  then have "r = eval_detection_with_bloom env ev bloom d"
    using eval_detection_recording_verdict [of env n ev bloom level d "[]"] by simp
  moreover obtain sds where
    "selector_loop env ev bloom level
       (c + 1, if r then m @ [\<lparr> sd_name = n, sd_fields = fms \<rparr>] else m) nds
     = (c + 1 + length nds, (if r then m @ [\<lparr> sd_name = n, sd_fields = fms \<rparr>] else m) @ sds)"
    "map sd_name sds = map fst (filter (\<lambda>nd. eval_detection_with_bloom env ev bloom (snd nd)) nds)"
    using Cons.IH by blast
  ultimately show ?case
    using r nd
    by (intro exI [of _ "(if r then [\<lparr> sd_name = n, sd_fields = fms \<rparr>] else []) @ sds"]) auto
qed

text \<open>
  \<open>decides keys \<sigma> b sds e\<close>: the selections \<open>sds\<close> all hold under \<open>\<sigma>\<close>, and they alone give \<open>e\<close>
  the value \<open>b\<close>: it keeps it when any other selections are made false.
\<close>

definition decides ::
    "string list \<Rightarrow> (string \<Rightarrow> bool) \<Rightarrow> bool \<Rightarrow> selection_detail list \<Rightarrow> condition_expr \<Rightarrow> bool" where
  "decides keys \<sigma> b sds e =
     ((\<forall>sd \<in> set sds. sd_name sd \<in> set keys \<and> \<sigma> (sd_name sd))
      \<and> (\<forall>\<tau>. (\<forall>sd \<in> set sds. \<tau> (sd_name sd)) \<and> (\<forall>n. \<tau> n \<longrightarrow> \<sigma> n) \<longrightarrow> cond_sem keys \<tau> e = b))"

definition decides_all ::
    "string list \<Rightarrow> (string \<Rightarrow> bool) \<Rightarrow> bool \<Rightarrow> selection_detail list \<Rightarrow> condition_expr list \<Rightarrow> bool" where
  "decides_all keys \<sigma> b sds es =
     ((\<forall>sd \<in> set sds. sd_name sd \<in> set keys \<and> \<sigma> (sd_name sd))
      \<and> (\<forall>\<tau>. (\<forall>sd \<in> set sds. \<tau> (sd_name sd)) \<and> (\<forall>n. \<tau> n \<longrightarrow> \<sigma> n)
          \<longrightarrow> (\<forall>e \<in> set es. cond_sem keys \<tau> e = b)))"

lemma decides_all_Nil [simp]: "decides_all keys \<sigma> b [] []"
  by (simp add: decides_all_def)

lemma decides_all_Cons:
  "decides keys \<sigma> b xs e \<Longrightarrow> decides_all keys \<sigma> b ys es \<Longrightarrow> decides_all keys \<sigma> b (xs @ ys) (e # es)"
  unfolding decides_def decides_all_def by (simp add: ball_Un)

lemma decides_value: "decides keys \<sigma> b xs e \<Longrightarrow> cond_sem keys \<sigma> e = b"
  unfolding decides_def by blast

lemma decides_all_value: "decides_all keys \<sigma> b xs es \<Longrightarrow> e \<in> set es \<Longrightarrow> cond_sem keys \<sigma> e = b"
  unfolding decides_all_def by blast

lemma decides_And_true: "decides_all keys \<sigma> True xs es \<Longrightarrow> decides keys \<sigma> True xs (CondAnd es)"
  unfolding decides_def decides_all_def by (simp add: list_all_iff)

lemma decides_And_false:
  "decides keys \<sigma> False xs e \<Longrightarrow> e \<in> set es \<Longrightarrow> decides keys \<sigma> False xs (CondAnd es)"
  unfolding decides_def by (auto simp: list_all_iff)

lemma decides_Or_true:
  "decides keys \<sigma> True xs e \<Longrightarrow> e \<in> set es \<Longrightarrow> decides keys \<sigma> True xs (CondOr es)"
  unfolding decides_def by (auto simp: list_ex_iff)

lemma decides_Or_false: "decides_all keys \<sigma> False xs es \<Longrightarrow> decides keys \<sigma> False xs (CondOr es)"
  unfolding decides_def decides_all_def by (auto simp: list_ex_iff)

lemma decides_Not: "decides keys \<sigma> b xs e \<Longrightarrow> decides keys \<sigma> (\<not> b) xs (CondNot e)"
  unfolding decides_def by auto

lemma length_filter_mono: "(\<And>n. \<tau> n \<Longrightarrow> \<sigma> n) \<Longrightarrow> length (filter \<tau> ns) \<le> length (filter \<sigma> ns)"
  by (induction ns) (auto intro: le_SucI)

lemma decides_selector:
  assumes names: "map sd_name sds = filter \<sigma> (filter (matches_detection_name pat) keys)"
    and ret: "ret = (if cond_sem keys \<sigma> (CondSelector q pat) then sds else [])"
  shows "decides keys \<sigma> (cond_sem keys \<sigma> (CondSelector q pat)) ret (CondSelector q pat)"
proof -
  let ?ns = "filter (matches_detection_name pat) keys"
  have mem: "sd_name sd \<in> set (filter \<sigma> ?ns)" if "sd \<in> set sds" for sd
    using that unfolding names [symmetric] by simp
  have "cond_sem keys \<tau> (CondSelector q pat) = cond_sem keys \<sigma> (CondSelector q pat)"
    if t: "\<forall>sd \<in> set ret. \<tau> (sd_name sd)" "\<forall>n. \<tau> n \<longrightarrow> \<sigma> n" for \<tau>
  proof (cases "cond_sem keys \<sigma> (CondSelector q pat)")
    case True
    have "\<tau> n" if "n \<in> set ?ns" "\<sigma> n" for n
    proof -
      from that have "n \<in> set (map sd_name sds)" unfolding names by simp
      with t(1) ret True show ?thesis by auto
    qed
    with t(2) have eq: "\<tau> n = \<sigma> n" if "n \<in> set ?ns" for n using that by blast
    have "list_ex \<tau> ?ns = list_ex \<sigma> ?ns" "list_all \<tau> ?ns = list_all \<sigma> ?ns" "filter \<tau> ?ns = filter \<sigma> ?ns"
      unfolding list_ex_iff list_all_iff using eq by (auto intro: filter_cong)
    then show ?thesis by (simp only: cond_sem.simps Let_def)
  next
    case False
    have imp: "\<tau> n \<Longrightarrow> \<sigma> n" for n using t(2) by blast
    then have le: "length (filter \<tau> ?ns) \<le> length (filter \<sigma> ?ns)" by (rule length_filter_mono)
    have "\<not> cond_sem keys \<tau> (CondSelector q pat)"
    proof (cases q)
      case QAny
      with False imp show ?thesis unfolding cond_sem.simps Let_def list_ex_iff by auto
    next
      case QAll
      with False imp show ?thesis unfolding cond_sem.simps Let_def list_all_iff by auto
    next
      case (QCount n)
      with False le show ?thesis unfolding cond_sem.simps Let_def by simp
    qed
    with False show ?thesis by blast
  qed
  note stable = this
  have "sd_name sd \<in> set (filter \<sigma> ?ns)" if "sd \<in> set ret" for sd
  proof (rule mem)
    show "sd \<in> set sds" using that unfolding ret by (simp split: if_splits)
  qed
  then have named: "sd_name sd \<in> set keys \<and> \<sigma> (sd_name sd)" if "sd \<in> set ret" for sd
    using that by auto
  show ?thesis
    unfolding decides_def using named stable by blast
qed

lemma eval_condition_detail_ok:
  "distinct (map fst detections) \<Longrightarrow> counts_nonzero e \<Longrightarrow>
     \<exists>b ext. eval_condition_detail env ev bloom level detections e out = (b, out @ ext)
       \<and> decides (map fst detections) (det_holds env ev bloom detections) b ext e"
  "\<And>base acc. distinct (map fst detections) \<Longrightarrow> list_all counts_nonzero es \<Longrightarrow>
     out = base @ acc \<Longrightarrow> mark = length base \<Longrightarrow>
     (\<exists>ext. detail_and env ev bloom level detections mark es out = (True, base @ acc @ ext)
        \<and> decides_all (map fst detections) (det_holds env ev bloom detections) True ext es)
     \<or> (\<exists>ext. \<exists>e \<in> set es. detail_and env ev bloom level detections mark es out = (False, base @ ext)
        \<and> decides (map fst detections) (det_holds env ev bloom detections) False ext e)"
  "\<And>base acc. distinct (map fst detections) \<Longrightarrow> list_all counts_nonzero es \<Longrightarrow>
     out = base @ acc \<Longrightarrow> mark = length base \<Longrightarrow>
     (\<exists>ext. detail_or env ev bloom level detections mark es out = (False, base @ acc @ ext)
        \<and> decides_all (map fst detections) (det_holds env ev bloom detections) False ext es)
     \<or> (\<exists>ext. \<exists>e \<in> set es. detail_or env ev bloom level detections mark es out = (True, base @ ext)
        \<and> decides (map fst detections) (det_holds env ev bloom detections) True ext e)"
proof (induction env ev bloom level detections e out and env ev bloom level detections mark es out
    and env ev bloom level detections mark es out
    rule: eval_condition_detail_detail_and_detail_or.induct)
  case (1 env ev bloom level detections name out)
  show ?case
  proof (cases "map_of detections name")
    case None
    then have "name \<notin> set (map fst detections)" by (simp add: map_of_eq_None_iff)
    with None show ?thesis by (auto simp: decides_def)
  next
    case (Some det)
    then have mem: "name \<in> set (map fst detections)" by (metis domI dom_map_of_conv_image_fst set_map)
    obtain r fms where r: "eval_detection_recording env name ev bloom level det [] = (r, fms)"
      by fastforce
    then have "r = det_holds env ev bloom detections name"
      using eval_detection_recording_verdict [of env name ev bloom level det "[]"] Some
      by (simp add: det_holds_def)
    with r Some mem show ?thesis by (auto simp: decides_def)
  qed
next
  case (2 env ev bloom level detections exprs out)
  from 2(1) [of out "[]"] 2(2,3) show ?case
    by (auto intro: decides_And_true decides_And_false)
next
  case (3 env ev bloom level detections exprs out)
  from 3(1) [of out "[]"] 3(2,3) show ?case
    by (auto intro: decides_Or_true decides_Or_false)
next
  case (4 env ev bloom level detections inner out)
  then show ?case by (fastforce dest: decides_Not)
next
  case (5 env ev bloom level detections q pat out)
  let ?m = "filter (\<lambda>nd. matches_detection_name pat (fst nd)) detections"
  obtain sds where sds: "selector_loop env ev bloom level (0, []) ?m = (length ?m, sds)"
    "map sd_name sds
      = map fst (filter (\<lambda>nd. eval_detection_with_bloom env ev bloom (snd nd)) ?m)"
    using selector_loop_result [of env ev bloom level 0 "[]" ?m] by auto
  have sub: "set ?m \<subseteq> set detections" by auto
  have names: "map sd_name sds = filter (det_holds env ev bloom detections)
      (filter (matches_detection_name pat) (map fst detections))"
    unfolding filter_keys filter_holds [OF 5(1) sub] sds(2) ..
  then have len: "length sds = length (filter (det_holds env ev bloom detections)
      (filter (matches_detection_name pat) (map fst detections)))"
    by (metis length_map)
  have lm: "length ?m = length (filter (matches_detection_name pat) (map fst detections))"
    unfolding filter_keys by simp
  have holds: "(case q of QAny \<Rightarrow> sds \<noteq> [] | QAll \<Rightarrow> length sds = length ?m | QCount n \<Rightarrow> n \<le> length sds)
      = cond_sem (map fst detections) (det_holds env ev bloom detections) (CondSelector q pat)"
    by (cases q)
       (simp_all only: cond_sem.simps Let_def quantifier.case len lm length_filter_all_iff
          length_filter_pos_iff [symmetric] length_greater_0_conv [symmetric])
  show ?case
    using decides_selector [OF names refl, of q] holds sds(1)
    by (auto simp: Let_def)
next
  case (7 env ev bloom level detections mark e es out)
  then have "counts_nonzero e" "list_all counts_nonzero es" by simp_all
  with 7(1,3) obtain b ext where r: "eval_condition_detail env ev bloom level detections e out = (b, out @ ext)"
    "decides (map fst detections) (det_holds env ev bloom detections) b ext e" by blast
  show ?case
  proof (cases b)
    case False
    with r 7(5,6) show ?thesis by (auto simp: drain_def)
  next
    case True
    from 7(2) [OF r(1) [symmetric] _ 7(3) \<open>list_all counts_nonzero es\<close>, of base "acc @ ext"]
    have "(\<exists>x. detail_and env ev bloom level detections mark es (out @ ext) = (True, base @ (acc @ ext) @ x)
        \<and> decides_all (map fst detections) (det_holds env ev bloom detections) True x es)
      \<or> (\<exists>x. \<exists>e' \<in> set es. detail_and env ev bloom level detections mark es (out @ ext) = (False, base @ x)
        \<and> decides (map fst detections) (det_holds env ev bloom detections) False x e')"
      using True 7(5,6) by simp
    then show ?thesis
    proof
      assume "\<exists>x. detail_and env ev bloom level detections mark es (out @ ext) = (True, base @ (acc @ ext) @ x)
        \<and> decides_all (map fst detections) (det_holds env ev bloom detections) True x es"
      then obtain x where "detail_and env ev bloom level detections mark es (out @ ext)
          = (True, base @ (acc @ ext) @ x)"
        "decides_all (map fst detections) (det_holds env ev bloom detections) True x es" by blast
      with True r show ?thesis by (intro disjI1 exI [of _ "ext @ x"]) (simp add: decides_all_Cons)
    next
      assume "\<exists>x. \<exists>e' \<in> set es. detail_and env ev bloom level detections mark es (out @ ext) = (False, base @ x)
        \<and> decides (map fst detections) (det_holds env ev bloom detections) False x e'"
      with True r show ?thesis by (intro disjI2) auto
    qed
  qed
next
  case (9 env ev bloom level detections mark e es out)
  then have "counts_nonzero e" "list_all counts_nonzero es" by simp_all
  with 9(1,3) obtain b ext where r: "eval_condition_detail env ev bloom level detections e out = (b, out @ ext)"
    "decides (map fst detections) (det_holds env ev bloom detections) b ext e" by blast
  show ?case
  proof (cases b)
    case True
    with r 9(5,6) show ?thesis by (auto simp: drain_def)
  next
    case False
    from 9(2) [OF r(1) [symmetric] _ 9(3) \<open>list_all counts_nonzero es\<close>, of base "acc @ ext"]
    have "(\<exists>x. detail_or env ev bloom level detections mark es (out @ ext) = (False, base @ (acc @ ext) @ x)
        \<and> decides_all (map fst detections) (det_holds env ev bloom detections) False x es)
      \<or> (\<exists>x. \<exists>e' \<in> set es. detail_or env ev bloom level detections mark es (out @ ext) = (True, base @ x)
        \<and> decides (map fst detections) (det_holds env ev bloom detections) True x e')"
      using False 9(5,6) by simp
    then show ?thesis
    proof
      assume "\<exists>x. detail_or env ev bloom level detections mark es (out @ ext) = (False, base @ (acc @ ext) @ x)
        \<and> decides_all (map fst detections) (det_holds env ev bloom detections) False x es"
      then obtain x where "detail_or env ev bloom level detections mark es (out @ ext)
          = (False, base @ (acc @ ext) @ x)"
        "decides_all (map fst detections) (det_holds env ev bloom detections) False x es" by blast
      with False r show ?thesis by (intro disjI1 exI [of _ "ext @ x"]) (simp add: decides_all_Cons)
    next
      assume "\<exists>x. \<exists>e' \<in> set es. detail_or env ev bloom level detections mark es (out @ ext) = (True, base @ x)
        \<and> decides (map fst detections) (det_holds env ev bloom detections) True x e'"
      with False r show ?thesis by (intro disjI2) auto
    qed
  qed
qed auto

section \<open>Reported selections\<close>

lemma flatten_loop_names:
  "fst (flatten_loop seen names fms d) = names @ first_seen seen (map sd_name d)"
  by (induction seen names fms d rule: flatten_loop.induct) auto

lemma flatten_detail_names: "fst (flatten_detail d) = first_seen [] (map sd_name d)"
  by (simp add: flatten_detail_def flatten_loop_names)

lemma eval_condition_detail_verdict:
  assumes "distinct (map fst detections)" and "counts_nonzero e"
  shows "fst (eval_condition_detail env ev bloom level detections e out)
    = eval_condition_matches_with_bloom env ev bloom e detections"
proof -
  obtain b ext where "eval_condition_detail env ev bloom level detections e out = (b, out @ ext)"
    and "decides (map fst detections) (det_holds env ev bloom detections) b ext e"
    using eval_condition_detail_ok(1) [OF assms] by blast
  then show ?thesis
    using eval_condition_sem [OF assms] decides_value by fastforce
qed

text \<open>A rule fires on its first condition that holds.\<close>

lemma eval_conditions_loop_Some:
  "eval_conditions_loop env rule ev bloom level cs = Some r \<Longrightarrow>
   \<exists>c \<in> set cs. eval_condition_matches_with_bloom env ev bloom c (cru_detections rule)
     \<and> db_matched_selections (dr_body r)
       = fst (flatten_detail (snd (eval_condition_detail env ev bloom level (cru_detections rule) c [])))"
proof (induction cs)
  case Nil
  then show ?case by simp
next
  case (Cons c cs)
  show ?case
  proof (cases "eval_condition_matches_with_bloom env ev bloom c (cru_detections rule)")
    case True
    with Cons.prems show ?thesis by (auto split: prod.splits)
  next
    case False
    with Cons show ?thesis by auto
  qed
qed

lemma eval_conditions_loop_None:
  "eval_conditions_loop env rule ev bloom level cs = None \<longleftrightarrow>
   \<not> list_ex (\<lambda>c. eval_condition_matches_with_bloom env ev bloom c (cru_detections rule)) cs"
  by (induction cs) (auto split: prod.splits)

section \<open>Properties\<close>

text \<open>A rule with a filter, a count over a name pattern and a keyword selection.\<close>

definition sample_item :: "string \<Rightarrow> compiled_matcher \<Rightarrow> compiled_detection_item" where
  "sample_item field m =
     \<lparr> cdi_field = Some field, cdi_matcher = m, cdi_exists = None, cdi_bloom_eligible = True \<rparr>"

definition sample_detections :: "(string \<times> compiled_detection) list" where
  "sample_detections =
     [(''sel_img'', CdAllOf [sample_item ''Image'' (CmEndsWith ''.exe'' True)]),
      (''filter'', CdAllOf [sample_item ''User'' (CmContains ''system'' True)]),
      (''sel_cmd'', CdAllOf [sample_item ''Cmd'' (CmContains ''whoami'' True)]),
      (''kw'', CdKeywords (CmContains ''mimikatz'' True))]"

definition sample_condition :: condition_expr where
  "sample_condition =
     CondOr [CondAnd [CondIdentifier ''sel_img'', CondIdentifier ''filter''],
             CondAnd [CondSelector (QCount 2) (Pattern ''sel_*''),
                      CondNot (CondIdentifier ''filter'')]]"

definition sample_rule :: compiled_rule where
  "sample_rule = \<lparr>
     cru_title = ''t'', cru_id = None, cru_name = None, cru_level = Some High, cru_tags = [],
     cru_description = None, cru_falsepositives = [],
     cru_logsource = \<lparr> ls_category = None, ls_product = None, ls_service = None,
                       ls_definition = None, ls_custom = [] \<rparr>,
     cru_detections = sample_detections, cru_conditions = [sample_condition],
     cru_include_event = False, cru_custom_attributes = [] \<rparr>"

definition sample_event :: event where
  "sample_event = kv_event [(''Image'', ''CMD.EXE''), (''User'', ''bob''), (''Cmd'', ''WhoAmI /all'')]"

lemma sample_rule_ok:
  "distinct (map fst sample_detections)" "counts_nonzero sample_condition"
  by code_simp+

lemma sample_condition_holds:
  "eval_condition_matches_with_bloom literal_env sample_event no_bloom sample_condition
     sample_detections"
  by code_simp

lemma sample_rule_fires: "evaluate_rule literal_env sample_rule sample_event \<noteq> None"
  unfolding evaluate_rule_def evaluate_rule_with_bloom_def eval_conditions_loop_None
  using sample_condition_holds by (simp add: sample_rule_def)

text \<open>
  C10: The two evaluation passes agree: whatever the hash order, the detail level and the bloom
  answers, the detail pass returns the verdict of the short-circuiting boolean pass, which is the
  verdict the condition has over the truth values of the detections.
\<close>

theorem detail_pass_agrees:
  assumes "distinct (map fst detections)" and "counts_nonzero e"
  shows "fst (eval_condition_detail env ev bloom level detections e out)
      = eval_condition_matches_with_bloom env ev bloom e detections
    \<and> eval_condition_matches_with_bloom env ev bloom e detections
      = cond_sem (map fst detections) (det_holds env ev bloom detections) e"
  using eval_condition_detail_verdict [OF assms] eval_condition_sem [OF assms] by blast

lemma detail_pass_agrees_witness:
  "fst (eval_condition_detail literal_env sample_event no_bloom MdlFull sample_detections
     sample_condition [])"
  using detail_pass_agrees [OF sample_rule_ok] sample_condition_holds by blast

text \<open>
  C9: The reported selections explain the match.  When a rule fires, they are distinct, each names
  a detection that holds, and for the condition that fired they are enough: it stays true when any
  of the other detections are taken to be false.
\<close>

theorem matched_selections_decide:
  assumes "distinct (map fst (cru_detections rule))"
    and "list_all counts_nonzero (cru_conditions rule)"
    and "evaluate_rule_with_bloom env rule ev bloom level = Some r"
  shows "\<exists>c \<in> set (cru_conditions rule).
    let sel = db_matched_selections (dr_body r);
        names = map fst (cru_detections rule);
        holds = det_holds env ev bloom (cru_detections rule)
    in distinct sel \<and> set sel \<subseteq> set names \<and> list_all holds sel
       \<and> (\<forall>\<tau>. list_all \<tau> sel \<and> (\<forall>n. \<tau> n \<longrightarrow> holds n) \<longrightarrow> cond_sem names \<tau> c)"
proof -
  obtain c where c: "c \<in> set (cru_conditions rule)"
    "eval_condition_matches_with_bloom env ev bloom c (cru_detections rule)"
    "db_matched_selections (dr_body r)
      = fst (flatten_detail (snd (eval_condition_detail env ev bloom level (cru_detections rule) c [])))"
    using eval_conditions_loop_Some [of env rule ev bloom level "cru_conditions rule" r] assms(3)
    by (auto simp: evaluate_rule_with_bloom_def)
  then have cn: "counts_nonzero c" using assms(2) by (simp add: list_all_iff)
  obtain b ext where d: "eval_condition_detail env ev bloom level (cru_detections rule) c [] = (b, ext)"
    "decides (map fst (cru_detections rule)) (det_holds env ev bloom (cru_detections rule)) b ext c"
    using eval_condition_detail_ok(1) [OF assms(1) cn, of env ev bloom level "[]"] by auto
  have b: b
    using eval_condition_detail_verdict [OF assms(1) cn, of env ev bloom level "[]"] d(1) c(2) by simp
  have sel: "db_matched_selections (dr_body r) = first_seen [] (map sd_name ext)"
    using c(3) d(1) by (simp add: flatten_detail_names)
  have set: "set (db_matched_selections (dr_body r)) = sd_name ` set ext"
    unfolding sel set_first_seen by simp
  show ?thesis
  proof (intro bexI [OF _ c(1)])
    have "list_all (det_holds env ev bloom (cru_detections rule)) (db_matched_selections (dr_body r))"
      using d(2) unfolding decides_def list_all_iff set by blast
    moreover have "set (db_matched_selections (dr_body r)) \<subseteq> set (map fst (cru_detections rule))"
      using d(2) unfolding decides_def set by blast
    moreover have "cond_sem (map fst (cru_detections rule)) \<tau> c"
      if "list_all \<tau> (db_matched_selections (dr_body r))"
        "\<forall>n. \<tau> n \<longrightarrow> det_holds env ev bloom (cru_detections rule) n" for \<tau>
    proof -
      have "\<forall>sd \<in> set ext. \<tau> (sd_name sd)" using that(1) unfolding list_all_iff set by blast
      with d(2) that(2) b show ?thesis unfolding decides_def by blast
    qed
    moreover have "distinct (db_matched_selections (dr_body r))"
      unfolding sel by (rule distinct_first_seen)
    ultimately show "let sel = db_matched_selections (dr_body r);
        names = map fst (cru_detections rule);
        holds = det_holds env ev bloom (cru_detections rule)
      in distinct sel \<and> set sel \<subseteq> set names \<and> list_all holds sel
         \<and> (\<forall>\<tau>. list_all \<tau> sel \<and> (\<forall>n. \<tau> n \<longrightarrow> holds n) \<longrightarrow> cond_sem names \<tau> c)"
      unfolding Let_def by blast
  qed
qed

lemma matched_selections_decide_witness:
  "\<exists>r. evaluate_rule literal_env sample_rule sample_event = Some r
     \<and> distinct (db_matched_selections (dr_body r))"
proof -
  obtain r where r: "evaluate_rule literal_env sample_rule sample_event = Some r"
    using sample_rule_fires by blast
  have "distinct (map fst (cru_detections sample_rule))"
    and "list_all counts_nonzero (cru_conditions sample_rule)"
    using sample_rule_ok by (simp_all add: sample_rule_def)
  from matched_selections_decide [OF this r [unfolded evaluate_rule_def]] r
  show ?thesis by (auto simp: Let_def)
qed

end
