(* ===== verification/CorrEngine.thy ===== *)
theory CorrEngine
  imports Window Buffers Timestamp ConditionEval
begin

text \<open>
  The correlation engine (\<open>rsigma-eval/src/correlation_engine/mod.rs\<close>): its state, loading of
  correlations, the direct path from detections to windows, chaining, eviction and the filters of the
  \<open>generate\<close> flag.  The detections of an event and the identities of their rules are arguments, as
  they are for \<open>process_with_detection_identities\<close>; rules reach \<open>add_correlation\<close> after the
  processing pipelines.
\<close>

section \<open>Results and state\<close>

record correlation_body =
  cb_correlation_type :: correlation_type
  cb_group_key :: "(string \<times> string) list"
  cb_aggregated_value :: f64
  cb_timespan_secs :: nat
  cb_events :: "json_value list option"
  cb_event_refs :: "event_ref list option"

datatype result_body =
  RbDetection detection_body
| RbCorrelation correlation_body

record evaluation_result =
  er_header :: rule_header
  er_body :: result_body

fun as_correlation :: "evaluation_result \<Rightarrow> correlation_body option" where
  "as_correlation r = (case er_body r of RbCorrelation b \<Rightarrow> Some b | RbDetection _ \<Rightarrow> None)"

type_synonym rule_identity = "string option \<times> string option"
type_synonym corr_key = "nat \<times> group_key"

record corr_engine =
  ce_correlations :: "compiled_correlation list"
  ce_rule_index :: "(string \<times> nat list) list"
  ce_rule_ids :: "(string option \<times> string option \<times> string) list"
  ce_state :: "(corr_key \<times> window_state) list"
  ce_last_alert :: "(corr_key \<times> int) list"
  ce_event_buffers :: "(corr_key \<times> event_buffer) list"
  ce_event_ref_buffers :: "(corr_key \<times> event_ref_buffer) list"
  ce_correlation_only_rules :: "string set"
  ce_generated_rules :: "string set"
  ce_config :: correlation_config

definition with_engine :: "correlation_config \<Rightarrow> corr_engine" where
  "with_engine config = \<lparr>
     ce_correlations = [], ce_rule_index = [], ce_rule_ids = [], ce_state = [], ce_last_alert = [],
     ce_event_buffers = [], ce_event_ref_buffers = [], ce_correlation_only_rules = {},
     ce_generated_rules = {}, ce_config = config \<rparr>"

section \<open>Loading\<close>

definition apply_custom_attributes ::
    "('y \<Rightarrow> string option) \<Rightarrow> (string \<times> 'y) list \<Rightarrow> correlation_config \<Rightarrow> correlation_config" where
  "apply_custom_attributes yaml_as_str attrs config =
     (let attr = attr_str yaml_as_str attrs;
          config = (case attr ''rsigma.timestamp_field'' of
                      Some field \<Rightarrow>
                        if field \<in> set (cfg_timestamp_fields config) then config
                        else config\<lparr>cfg_timestamp_fields := field # cfg_timestamp_fields config\<rparr>
                    | None \<Rightarrow> config);
          config = (case attr ''rsigma.suppress'' of
                      Some v \<Rightarrow>
                        if cfg_suppress config = None then
                          (case timespan_parse v of
                             Inr t \<Rightarrow> config\<lparr>cfg_suppress := Some (ts_seconds t)\<rparr>
                           | Inl _ \<Rightarrow> config)
                        else config
                    | None \<Rightarrow> config)
      in case attr ''rsigma.action'' of
           Some v \<Rightarrow>
             if cfg_action_on_match config = CaAlert then
               (case correlation_action_from_str v of
                  Some a \<Rightarrow> config\<lparr>cfg_action_on_match := a\<rparr>
                | None \<Rightarrow> config)
             else config
         | None \<Rightarrow> config)"

text \<open>\<open>entry(rule_ref).or_default().push(idx)\<close> for each reference of a correlation.\<close>

definition index_push :: "nat \<Rightarrow> string \<Rightarrow> (string \<times> nat list) list \<Rightarrow> (string \<times> nat list) list" where
  "index_push idx rule_ref index =
     map_insert rule_ref
       ((case map_of index rule_ref of Some indices \<Rightarrow> indices | None \<Rightarrow> []) @ [idx]) index"

text \<open>One reference against the pair of the correlation-only and the generated rules.\<close>

definition generate_step ::
    "bool \<Rightarrow> string \<Rightarrow> string set \<times> string set \<Rightarrow> string set \<times> string set" where
  "generate_step generate rule_ref sets =
     (case sets of (only, generated) \<Rightarrow>
        if generate then (only - {rule_ref}, insert rule_ref generated)
        else if rule_ref \<notin> generated then (insert rule_ref only, generated)
        else (only, generated))"

definition add_compiled_correlation :: "compiled_correlation \<Rightarrow> corr_engine \<Rightarrow> corr_engine" where
  "add_compiled_correlation c e =
     (let idx = length (ce_correlations e);
          sets = fold (generate_step (cco_generate c)) (cco_rule_refs c)
                   (ce_correlation_only_rules e, ce_generated_rules e)
      in e\<lparr>ce_rule_index := fold (index_push idx) (cco_rule_refs c) (ce_rule_index e),
           ce_correlation_only_rules := fst sets,
           ce_generated_rules := snd sets,
           ce_correlations := ce_correlations e @ [c]\<rparr>)"

text \<open>The custom attributes stay applied when the correlation does not compile.\<close>

definition add_correlation ::
    "ext_env \<Rightarrow> ('y \<Rightarrow> string option) \<Rightarrow> ('y \<Rightarrow> json_value) \<Rightarrow> 'y correlation_rule \<Rightarrow> corr_engine
     \<Rightarrow> corr_error option \<times> corr_engine" where
  "add_correlation env yaml_as_str yaml_to_json corr e =
     (let e = e\<lparr>ce_config :=
                  apply_custom_attributes yaml_as_str (cr_custom_attributes corr) (ce_config e)\<rparr>
      in case compile_correlation env yaml_as_str yaml_to_json corr of
           Inl err \<Rightarrow> (Some err, e)
         | Inr compiled \<Rightarrow> (None, add_compiled_correlation compiled e))"

definition opt_list :: "'a option \<Rightarrow> 'a list" where
  "opt_list o' = (case o' of Some x \<Rightarrow> [x] | None \<Rightarrow> [])"

definition known_rules :: "corr_engine \<Rightarrow> string list" where
  "known_rules e =
     concat (map (\<lambda>(rid, name, _). opt_list rid @ opt_list name) (ce_rule_ids e)) @
     concat (map (\<lambda>c. opt_list (cco_id c) @ opt_list (cco_name c)) (ce_correlations e))"

definition validate_rule_refs :: "corr_engine \<Rightarrow> corr_error option" where
  "validate_rule_refs e =
     map_option CeUnknownRuleRef
       (find (\<lambda>r. r \<notin> set (known_rules e)) (concat (map cco_rule_refs (ce_correlations e))))"

section \<open>Per-correlation settings\<close>

definition resolve_event_mode :: "corr_engine \<Rightarrow> nat \<Rightarrow> correlation_event_mode" where
  "resolve_event_mode e idx =
     (case cco_event_mode (ce_correlations e ! idx) of
        Some m \<Rightarrow> m | None \<Rightarrow> cfg_correlation_event_mode (ce_config e))"

definition resolve_max_events :: "corr_engine \<Rightarrow> nat \<Rightarrow> nat" where
  "resolve_max_events e idx =
     (case cco_max_events (ce_correlations e ! idx) of
        Some m \<Rightarrow> m | None \<Rightarrow> cfg_max_correlation_events (ce_config e))"

definition option_or :: "'a option \<Rightarrow> 'a option \<Rightarrow> 'a option" where
  "option_or a b = (case a of Some _ \<Rightarrow> a | None \<Rightarrow> b)"

definition resolve_max_group_entries :: "corr_engine \<Rightarrow> nat \<Rightarrow> nat option" where
  "resolve_max_group_entries e idx =
     option_or (cco_max_group_entries (ce_correlations e ! idx)) (cfg_max_group_entries (ce_config e))"

definition resolve_suppress :: "corr_engine \<Rightarrow> nat \<Rightarrow> nat option" where
  "resolve_suppress e idx =
     option_or (cco_suppress_secs (ce_correlations e ! idx)) (cfg_suppress (ce_config e))"

definition resolve_action :: "corr_engine \<Rightarrow> nat \<Rightarrow> correlation_action" where
  "resolve_action e idx =
     (case cco_action (ce_correlations e ! idx) of
        Some a \<Rightarrow> a | None \<Rightarrow> cfg_action_on_match (ce_config e))"

section \<open>Recording an event\<close>

fun value_to_string_for_count :: "ext_env \<Rightarrow> event_value \<Rightarrow> string option" where
  "value_to_string_for_count env EvNull = Some ''null''"
| "value_to_string_for_count env v = ev_as_str env v"

definition count_key_part :: "ext_env \<Rightarrow> event \<Rightarrow> string \<Rightarrow> string option" where
  "count_key_part env ev field = Option.bind (ev_get_field ev field) (value_to_string_for_count env)"

definition composite_value_count_key :: "ext_env \<Rightarrow> event \<Rightarrow> string list \<Rightarrow> string option" where
  "composite_value_count_key env ev field_names =
     (case field_names of
        [field] \<Rightarrow> count_key_part env ev field
      | _ \<Rightarrow> map_option (join_str [CHR 0x1F]) (collect_options (count_key_part env ev) field_names))"

definition push_event ::
    "ext_env \<Rightarrow> compiled_correlation \<Rightarrow> event \<Rightarrow> int \<Rightarrow> string \<Rightarrow> window_state \<Rightarrow> window_state" where
  "push_event env corr ev ts rule_ref state =
     (let ct = cco_correlation_type corr; field = cc_field (cco_condition corr)
      in if ct = EventCount then push_event_count ts state
         else if ct = ValueCount then
           (case Option.bind field (composite_value_count_key env ev) of
              Some key \<Rightarrow> push_value_count ts key state
            | None \<Rightarrow> state)
         else if ct = Temporal \<or> ct = TemporalOrdered then push_temporal ts rule_ref state
         else
           (case field of
              Some (field_name # _) \<Rightarrow>
                (case Option.bind (ev_get_field ev field_name) (ev_as_f64 env) of
                   Some n \<Rightarrow> push_numeric ts n state
                 | None \<Rightarrow> state)
            | _ \<Rightarrow> state))"

definition truncate_group :: "nat option \<Rightarrow> window_mode \<Rightarrow> window_state \<Rightarrow> window_state" where
  "truncate_group cap mode state =
     (case cap of Some n \<Rightarrow> truncate_oldest state n (mode = Session) | None \<Rightarrow> state)"

text \<open>The state of a group, made on its first event.\<close>

definition group_state :: "corr_engine \<Rightarrow> corr_key \<Rightarrow> window_state" where
  "group_state e key =
     (case map_of (ce_state e) key of
        Some state \<Rightarrow> state
      | None \<Rightarrow> window_new_for (cco_correlation_type (ce_correlations e ! fst key)))"

text \<open>
  Window maintenance and insertion for one event: the new state of the group, and whether the window
  was reset; \<open>None\<close> when the event is discarded.
\<close>

definition open_and_push ::
    "corr_engine \<Rightarrow> corr_key \<Rightarrow> int \<Rightarrow> (window_state \<Rightarrow> window_state) \<Rightarrow> (window_state \<times> bool) option" where
  "open_and_push e key ts push =
     (let corr = ce_correlations e ! fst key
      in case apply_window_open (group_state e key) ts (cco_timespan_secs corr)
                (cco_window_mode corr) (cco_gap_secs corr) of
           (state, decision) \<Rightarrow>
             if decision = WdDiscard then None
             else Some (truncate_group (resolve_max_group_entries e (fst key)) (cco_window_mode corr)
                          (push state), decision = WdReset))"

definition maintain_buffer ::
    "(int \<Rightarrow> 'b \<Rightarrow> 'b) \<Rightarrow> ('b \<Rightarrow> 'b) \<Rightarrow> window_mode \<Rightarrow> int \<Rightarrow> bool \<Rightarrow> 'b \<Rightarrow> 'b" where
  "maintain_buffer evict clear mode cutoff reset buf =
     (if mode = Sliding then evict cutoff buf else if reset then clear buf else buf)"

definition buffer_event ::
    "ext_env \<Rightarrow> buffer_env \<Rightarrow> corr_key \<Rightarrow> event \<Rightarrow> int \<Rightarrow> bool \<Rightarrow> corr_engine \<Rightarrow> corr_engine" where
  "buffer_event env fe key ev ts reset e =
     (let corr = ce_correlations e ! fst key; mode = cco_window_mode corr;
          cutoff = sub_i64 ts (wrap_i64 (int (cco_timespan_secs corr)));
          max_events = resolve_max_events e (fst key)
      in case resolve_event_mode e (fst key) of
           CemFull \<Rightarrow>
             (let buf = (case map_of (ce_event_buffers e) key of
                           Some b \<Rightarrow> b | None \<Rightarrow> event_buffer_new max_events);
                  buf = maintain_buffer event_buffer_evict event_buffer_clear mode cutoff reset buf
              in e\<lparr>ce_event_buffers :=
                     map_insert key (event_buffer_push fe ts (ev_to_json ev) buf)
                       (ce_event_buffers e)\<rparr>)
         | CemRefs \<Rightarrow>
             (let buf = (case map_of (ce_event_ref_buffers e) key of
                           Some b \<Rightarrow> b | None \<Rightarrow> event_ref_buffer_new max_events);
                  buf = maintain_buffer event_ref_buffer_evict event_ref_buffer_clear mode cutoff
                          reset buf
              in e\<lparr>ce_event_ref_buffers :=
                     map_insert key (event_ref_buffer_push env ts (ev_to_json ev) buf)
                       (ce_event_ref_buffers e)\<rparr>)
         | CemNone \<Rightarrow> e)"

section \<open>Firing\<close>

definition corr_fired :: "compiled_correlation \<Rightarrow> window_state \<Rightarrow> f64 option" where
  "corr_fired corr state =
     window_check_condition state (cco_condition corr) (cco_correlation_type corr)
       (cco_rule_refs corr) (cco_extended_expr corr)"

definition suppressed :: "corr_engine \<Rightarrow> corr_key \<Rightarrow> int \<Rightarrow> bool" where
  "suppressed e key ts =
     (case (resolve_suppress e (fst key), map_of (ce_last_alert e) key) of
        (Some suppress, Some last_ts) \<Rightarrow> sub_i64 ts last_ts < wrap_i64 (int suppress)
      | _ \<Rightarrow> False)"

definition stored_events ::
    "buffer_env \<Rightarrow> corr_engine \<Rightarrow> corr_key \<Rightarrow> json_value list option \<times> event_ref list option" where
  "stored_events fe e key =
     (case resolve_event_mode e (fst key) of
        CemFull \<Rightarrow>
          (Some (case map_of (ce_event_buffers e) key of
                   Some buf \<Rightarrow> decompress_all fe buf | None \<Rightarrow> []), None)
      | CemRefs \<Rightarrow>
          (None, Some (case map_of (ce_event_ref_buffers e) key of
                         Some buf \<Rightarrow> erb_entries buf | None \<Rightarrow> []))
      | CemNone \<Rightarrow> (None, None))"

definition correlation_result ::
    "compiled_correlation \<Rightarrow> group_key \<Rightarrow> f64 \<Rightarrow> json_value list option \<times> event_ref list option
     \<Rightarrow> evaluation_result" where
  "correlation_result corr gk value stored = \<lparr>
     er_header = \<lparr> rh_rule_title = cco_title corr, rh_rule_id = cco_id corr, rh_level = cco_level corr,
                   rh_tags = cco_tags corr, rh_custom_attributes = cco_custom_attributes corr,
                   rh_enrichments = None \<rparr>,
     er_body = RbCorrelation \<lparr>
       cb_correlation_type = cco_correlation_type corr,
       cb_group_key = group_key_to_pairs gk (cco_group_by corr),
       cb_aggregated_value = value,
       cb_timespan_secs = cco_timespan_secs corr,
       cb_events = fst stored, cb_event_refs = snd stored \<rparr> \<rparr>"

definition map_modify :: "'k \<Rightarrow> ('v \<Rightarrow> 'v) \<Rightarrow> ('k \<times> 'v) list \<Rightarrow> ('k \<times> 'v) list" where
  "map_modify k f m = map (\<lambda>(k', v). (k', if k' = k then f v else v)) m"

definition reset_state :: "corr_key \<Rightarrow> corr_engine \<Rightarrow> corr_engine" where
  "reset_state key e = e\<lparr>ce_state := map_modify key window_clear (ce_state e)\<rparr>"

definition reset_buffers :: "corr_key \<Rightarrow> corr_engine \<Rightarrow> corr_engine" where
  "reset_buffers key e =
     e\<lparr>ce_event_buffers := map_modify key event_buffer_clear (ce_event_buffers e),
       ce_event_ref_buffers := map_modify key event_ref_buffer_clear (ce_event_ref_buffers e)\<rparr>"

definition record_alert :: "corr_key \<Rightarrow> int \<Rightarrow> corr_engine \<Rightarrow> corr_engine" where
  "record_alert key ts e = e\<lparr>ce_last_alert := map_insert key ts (ce_last_alert e)\<rparr>"

section \<open>The direct path\<close>

definition identity_refs :: "rule_identity \<Rightarrow> string list" where
  "identity_refs identity = opt_list (fst identity) @ opt_list (snd identity)"

definition matched_ref :: "compiled_correlation \<Rightarrow> string list \<Rightarrow> string" where
  "matched_ref corr ref_strs =
     (case find (\<lambda>r. r \<in> set (cco_rule_refs corr)) ref_strs of Some r \<Rightarrow> r | None \<Rightarrow> [])"

definition update_correlation ::
    "ext_env \<Rightarrow> buffer_env \<Rightarrow> nat \<Rightarrow> event \<Rightarrow> int \<Rightarrow> rule_identity \<Rightarrow> corr_engine
     \<Rightarrow> corr_engine \<times> evaluation_result option" where
  "update_correlation env fe idx ev ts identity e =
     (let corr = ce_correlations e ! idx; ref_strs = identity_refs identity;
          rule_ref = matched_ref corr ref_strs
      in case group_key_extract env ev (cco_group_by corr) ref_strs of
           None \<Rightarrow> (e, None)
         | Some gk \<Rightarrow>
             (let key = (idx, gk)
              in case open_and_push e key ts (push_event env corr ev ts rule_ref) of
                   None \<Rightarrow> (e\<lparr>ce_state := map_insert key (group_state e key) (ce_state e)\<rparr>, None)
                 | Some (state, reset) \<Rightarrow>
                     (let e = buffer_event env fe key ev ts reset
                                (e\<lparr>ce_state := map_insert key state (ce_state e)\<rparr>)
                      in case corr_fired corr state of
                           None \<Rightarrow> (e, None)
                         | Some value \<Rightarrow>
                             if suppressed e key ts then (e, None)
                             else
                               (let e' = record_alert key ts e
                                in (if resolve_action e idx = CaReset
                                      then reset_buffers key (reset_state key e') else e',
                                    Some (correlation_result corr gk value
                                            (stored_events fe e key)))))))"

text \<open>The correlations that reference a detection's rule, sorted and without duplicates.\<close>

definition referencing_correlations :: "corr_engine \<Rightarrow> rule_identity \<Rightarrow> nat list" where
  "referencing_correlations e identity =
     remdups_adj (sort (concat (map (\<lambda>r. case map_of (ce_rule_index e) r of
        Some indices \<Rightarrow> indices | None \<Rightarrow> []) (identity_refs identity))))"

type_synonym fired = "(evaluation_result \<times> nat) list"

fun feed_work ::
    "ext_env \<Rightarrow> buffer_env \<Rightarrow> event \<Rightarrow> int \<Rightarrow> (nat \<times> rule_identity) list \<Rightarrow> corr_engine
     \<Rightarrow> corr_engine \<times> fired" where
  "feed_work env fe ev ts [] e = (e, [])"
| "feed_work env fe ev ts ((idx, identity) # work) e =
     (case update_correlation env fe idx ev ts identity e of
        (e', out) \<Rightarrow>
          (case feed_work env fe ev ts work e' of
             (e'', rest) \<Rightarrow> (e'', map (\<lambda>r. (r, idx)) (opt_list out) @ rest)))"

definition feed_detections ::
    "ext_env \<Rightarrow> buffer_env \<Rightarrow> event \<Rightarrow> rule_identity list \<Rightarrow> int \<Rightarrow> corr_engine
     \<Rightarrow> corr_engine \<times> fired" where
  "feed_detections env fe ev identities ts e =
     feed_work env fe ev ts
       (concat (map (\<lambda>i. map (\<lambda>idx. (idx, i)) (referencing_correlations e i)) identities)) e"

section \<open>Chaining\<close>

definition max_chain_depth :: nat where
  "max_chain_depth = 10"

definition chain_lookup_keys :: "corr_engine \<Rightarrow> nat \<Rightarrow> string list" where
  "chain_lookup_keys e idx =
     (let corr = ce_correlations e ! idx
      in opt_list (cco_id corr) @
         (if cco_name corr \<noteq> cco_id corr then opt_list (cco_name corr) else []))"

type_synonym pending = "(nat \<times> (string \<times> string) list) list"
type_synonym chain_work = "(nat \<times> (string \<times> string) list \<times> string) list"

text \<open>The work items a level asks for; \<open>seen\<close> keeps one per parent and reference.\<close>

definition chain_requests :: "corr_engine \<Rightarrow> pending \<Rightarrow> chain_work" where
  "chain_requests e pending =
     concat (map (\<lambda>(source, gk). concat (map (\<lambda>key.
       case map_of (ce_rule_index e) key of
         Some indices \<Rightarrow> map (\<lambda>idx. (idx, gk, key)) indices
       | None \<Rightarrow> []) (chain_lookup_keys e source))) pending)"

fun dedup_work :: "(nat \<times> string) list \<Rightarrow> chain_work \<Rightarrow> chain_work" where
  "dedup_work seen [] = []"
| "dedup_work seen ((idx, gk, key) # work) =
     (if (idx, key) \<in> set seen then dedup_work seen work
      else (idx, gk, key) # dedup_work ((idx, key) # seen) work)"

definition chain_push :: "compiled_correlation \<Rightarrow> int \<Rightarrow> string \<Rightarrow> window_state \<Rightarrow> window_state" where
  "chain_push corr ts fired_ref state =
     (let ct = cco_correlation_type corr
      in if ct = EventCount then push_event_count ts state
         else if ct = Temporal \<or> ct = TemporalOrdered then push_temporal ts fired_ref state
         else push_event_count ts state)"

definition chain_step ::
    "nat \<times> (string \<times> string) list \<times> string \<Rightarrow> int \<Rightarrow> corr_engine
     \<Rightarrow> corr_engine \<times> evaluation_result option" where
  "chain_step item ts e =
     (case item of (idx, pairs, fired_ref) \<Rightarrow>
        let corr = ce_correlations e ! idx
        in case group_key_from_pairs pairs (cco_group_by corr) of
             None \<Rightarrow> (e, None)
           | Some gk \<Rightarrow>
               (let key = (idx, gk)
                in case open_and_push e key ts (chain_push corr ts fired_ref) of
                     None \<Rightarrow> (e\<lparr>ce_state := map_insert key (group_state e key) (ce_state e)\<rparr>, None)
                   | Some (state, _) \<Rightarrow>
                       (let e = e\<lparr>ce_state := map_insert key state (ce_state e)\<rparr>
                        in case corr_fired corr state of
                             None \<Rightarrow> (e, None)
                           | Some value \<Rightarrow>
                               if suppressed e key ts then (e, None)
                               else
                                 (let e' = record_alert key ts e
                                  in (if resolve_action e idx = CaReset then reset_state key e' else e',
                                      Some (correlation_result corr gk value (None, None)))))))"

fun chain_level :: "chain_work \<Rightarrow> int \<Rightarrow> corr_engine \<Rightarrow> corr_engine \<times> fired" where
  "chain_level [] ts e = (e, [])"
| "chain_level (item # work) ts e =
     (case chain_step item ts e of
        (e', out) \<Rightarrow>
          (case chain_level work ts e' of
             (e'', rest) \<Rightarrow> (e'', map (\<lambda>r. (r, fst item)) (opt_list out) @ rest)))"

definition pending_of :: "fired \<Rightarrow> pending" where
  "pending_of fired =
     filter_map (\<lambda>(r, idx). map_option (\<lambda>b. (idx, cb_group_key b)) (as_correlation r)) fired"

fun chain_loop :: "nat \<Rightarrow> pending \<Rightarrow> int \<Rightarrow> corr_engine \<Rightarrow> corr_engine \<times> fired" where
  "chain_loop 0 pending ts e = (e, [])"
| "chain_loop (Suc depth) pending ts e =
     (if pending = [] then (e, [])
      else case chain_level (dedup_work [] (chain_requests e pending)) ts e of
             (e', out) \<Rightarrow>
               (case chain_loop depth (pending_of out) ts e' of (e'', rest) \<Rightarrow> (e'', out @ rest)))"

definition chain_correlations :: "fired \<Rightarrow> int \<Rightarrow> corr_engine \<Rightarrow> corr_engine \<times> fired" where
  "chain_correlations fired ts e = chain_loop max_chain_depth (pending_of fired) ts e"

section \<open>Eviction\<close>

definition correlation_specs :: "corr_engine \<Rightarrow> (nat \<times> window_mode \<times> nat option) list" where
  "correlation_specs e =
     map (\<lambda>c. (cco_timespan_secs c, cco_window_mode c, cco_gap_secs c)) (ce_correlations e)"

definition evict_windows :: "int \<Rightarrow> corr_engine \<Rightarrow> (corr_key \<times> window_state) list" where
  "evict_windows now e =
     map_retain (\<lambda>(idx, _) state.
       let state = (if idx < length (ce_correlations e)
                    then evict_group now (correlation_specs e ! idx) state else state)
       in if window_is_empty state then None else Some state) (ce_state e)"

definition evict_buffers ::
    "(int \<Rightarrow> 'b \<Rightarrow> 'b) \<Rightarrow> ('b \<Rightarrow> bool) \<Rightarrow> int \<Rightarrow> corr_engine \<Rightarrow> (corr_key \<times> window_state) list
     \<Rightarrow> (corr_key \<times> 'b) list \<Rightarrow> (corr_key \<times> 'b) list" where
  "evict_buffers evict is_empty now e state buffers =
     map_retain (\<lambda>key buf.
       let keep = (\<lambda>buf. if is_empty buf then None else Some buf)
       in if fst key < length (ce_correlations e) then
            (case correlation_specs e ! fst key of (timespan, mode, _) \<Rightarrow>
               if mode = Sliding then keep (evict (sub_i64 now (wrap_i64 (int timespan))) buf)
               else if map_of state key = None then None
               else keep buf)
          else keep buf) buffers"

text \<open>
  The keys dropped at the hard cap: the \<open>excess\<close> smallest by latest timestamp.  The library's
  selection leaves open which of several equally stale groups go; here it is the first ones.
\<close>

definition staleness :: "corr_key \<times> window_state \<Rightarrow> int" where
  "staleness entry = (case latest_timestamp (snd entry) of Some ts \<Rightarrow> ts | None \<Rightarrow> i64_min)"

definition stalest_keys :: "nat \<Rightarrow> (corr_key \<times> window_state) list \<Rightarrow> corr_key list" where
  "stalest_keys excess state = map fst (take excess (sort_key staleness state))"

definition enforce_hard_cap :: "corr_engine \<Rightarrow> corr_engine" where
  "enforce_hard_cap e =
     (let cap = cfg_max_state_entries (ce_config e)
      in if cap \<le> length (ce_state e) then
           (let stalest = stalest_keys (length (ce_state e) - cap * 9 div 10) (ce_state e)
            in e\<lparr>ce_state := fold map_remove stalest (ce_state e),
                 ce_last_alert := fold map_remove stalest (ce_last_alert e),
                 ce_event_buffers := fold map_remove stalest (ce_event_buffers e),
                 ce_event_ref_buffers := fold map_remove stalest (ce_event_ref_buffers e)\<rparr>)
         else e)"

definition evict_last_alerts :: "int \<Rightarrow> corr_engine \<Rightarrow> corr_engine" where
  "evict_last_alerts now e =
     e\<lparr>ce_last_alert :=
         map_retain (\<lambda>key alert_ts.
           let suppress = (if fst key < length (ce_correlations e)
                           then (case resolve_suppress e (fst key) of Some s \<Rightarrow> s | None \<Rightarrow> 0) else 0)
           in if sub_i64 now alert_ts < wrap_i64 (int suppress) then Some alert_ts else None)
           (ce_last_alert e)\<rparr>"

definition evict_all :: "int \<Rightarrow> corr_engine \<Rightarrow> corr_engine" where
  "evict_all now e =
     (let state = evict_windows now e;
          e = e\<lparr>ce_state := state,
                ce_event_buffers := evict_buffers event_buffer_evict event_buffer_is_empty now e state
                  (ce_event_buffers e),
                ce_event_ref_buffers :=
                  evict_buffers event_ref_buffer_evict event_ref_buffer_is_empty now e state
                    (ce_event_ref_buffers e)\<rparr>
      in evict_last_alerts now (enforce_hard_cap e))"

section \<open>Filters and processing\<close>

definition is_correlation_only :: "corr_engine \<Rightarrow> string list \<Rightarrow> bool" where
  "is_correlation_only e identities =
     (\<not> cfg_emit_detections (ce_config e) \<and>
      list_ex (\<lambda>i. i \<in> ce_correlation_only_rules e) identities \<and>
      \<not> list_ex (\<lambda>i. i \<in> ce_generated_rules e) identities)"

definition filter_detections ::
    "corr_engine \<Rightarrow> (evaluation_result \<times> rule_identity) list \<Rightarrow> evaluation_result list" where
  "filter_detections e detections =
     (if \<not> cfg_emit_detections (ce_config e) \<and> ce_correlation_only_rules e \<noteq> {} then
        map fst (filter (\<lambda>(_, identity). \<not> is_correlation_only e (identity_refs identity)) detections)
      else map fst detections)"

definition corr_identities :: "compiled_correlation \<Rightarrow> string list" where
  "corr_identities corr = opt_list (cco_id corr) @ opt_list (cco_name corr)"

definition filter_correlations :: "corr_engine \<Rightarrow> fired \<Rightarrow> evaluation_result list" where
  "filter_correlations e fired =
     map fst (filter (\<lambda>(_, idx). \<not> is_correlation_only e (corr_identities (ce_correlations e ! idx)))
       fired)"

definition clamp_ts :: "int \<Rightarrow> int" where
  "clamp_ts ts = max 0 (min ts (i64_max div 2))"

definition correlate_event ::
    "ext_env \<Rightarrow> buffer_env \<Rightarrow> event \<Rightarrow> rule_identity list \<Rightarrow> int \<Rightarrow> corr_engine
     \<Rightarrow> corr_engine \<times> fired" where
  "correlate_event env fe ev identities ts e =
     (let e = (if cfg_max_state_entries (ce_config e) \<le> length (ce_state e) then evict_all ts e else e)
      in case feed_detections env fe ev identities ts e of
           (e', direct) \<Rightarrow>
             (case chain_correlations direct ts e' of (e'', chained) \<Rightarrow> (e'', direct @ chained)))"

definition process_with_detection_identities ::
    "ext_env \<Rightarrow> buffer_env \<Rightarrow> event \<Rightarrow> (evaluation_result \<times> rule_identity) list \<Rightarrow> int \<Rightarrow> corr_engine
     \<Rightarrow> corr_engine \<times> evaluation_result list" where
  "process_with_detection_identities env fe ev detections timestamp_secs e =
     (case correlate_event env fe ev (map snd detections) (clamp_ts timestamp_secs) e of
        (e', fired) \<Rightarrow> (e', filter_detections e' detections @ filter_correlations e' fired))"

section \<open>Timestamps and identities\<close>

fun parse_timestamp_value :: "ext_env \<Rightarrow> event_value \<Rightarrow> int option" where
  "parse_timestamp_value env (EvInt i) = epoch_seconds_from_int env i"
| "parse_timestamp_value env (EvFloat f) = epoch_seconds_from_float env f"
| "parse_timestamp_value env (EvStr s) =
     Option.bind (parse_timestamp_str env s)
       (\<lambda>dt. if 0 \<le> dt_timestamp dt then Some (dt_timestamp dt) else None)"
| "parse_timestamp_value env _ = None"

definition extract_event_ts :: "ext_env \<Rightarrow> event \<Rightarrow> string list \<Rightarrow> int option" where
  "extract_event_ts env ev timestamp_fields =
     find_map (\<lambda>field. Option.bind (ev_get_field ev field) (parse_timestamp_value env)) timestamp_fields"

text \<open>The wall clock is an argument.\<close>

definition correlate_with_identities ::
    "ext_env \<Rightarrow> buffer_env \<Rightarrow> int \<Rightarrow> event \<Rightarrow> (evaluation_result \<times> rule_identity) list \<Rightarrow> corr_engine
     \<Rightarrow> corr_engine \<times> evaluation_result list" where
  "correlate_with_identities env fe wall_clock ev detections e =
     (case extract_event_ts env ev (cfg_timestamp_fields (ce_config e)) of
        Some ts \<Rightarrow> process_with_detection_identities env fe ev detections ts e
      | None \<Rightarrow>
          (case cfg_timestamp_fallback (ce_config e) of
             TfWallClock \<Rightarrow> process_with_detection_identities env fe ev detections wall_clock e
           | TfSkip \<Rightarrow> (e, filter_detections e detections)))"

definition find_rule_identity :: "corr_engine \<Rightarrow> rule_header \<Rightarrow> rule_identity" where
  "find_rule_identity e header =
     (case Option.bind (rh_rule_id header) (\<lambda>match_id.
             find (\<lambda>(rid, _, _). rid = Some match_id) (ce_rule_ids e)) of
        Some (rid, name, _) \<Rightarrow> (rid, name)
      | None \<Rightarrow>
          (case filter (\<lambda>(_, _, title). title = rh_rule_title header) (ce_rule_ids e) of
             [(rid, name, _)] \<Rightarrow> (rid, name)
           | _ \<Rightarrow> (rh_rule_id header, None)))"

definition process_with_detections ::
    "ext_env \<Rightarrow> buffer_env \<Rightarrow> event \<Rightarrow> evaluation_result list \<Rightarrow> int \<Rightarrow> corr_engine
     \<Rightarrow> corr_engine \<times> evaluation_result list" where
  "process_with_detections env fe ev all_detections timestamp_secs e =
     process_with_detection_identities env fe ev
       (map (\<lambda>d. (d, find_rule_identity e (er_header d))) all_detections) timestamp_secs e"

end
