(* ===== verification/AlertTypes.thy ===== *)
theory AlertTypes
  imports CorrEngine
begin

text \<open>
  What the stages after the engine share: the field selectors (\<open>rsigma-runtime/src/selector.rs\<close>),
  the scope filter (\<open>scope.rs\<close>) and the matchers of silences and inhibition rules
  (\<open>alert_pipeline/matcher.rs\<close>).
\<close>

section \<open>Environment\<close>

text \<open>
  The libraries: regex error texts, \<open>serde_json\<close> printing and serialization, globs, UUIDs (a new one
  may depend on what is in use) and chrono's printing.
\<close>

record alert_env =
  al_ext :: ext_env
  al_re_error :: "string \<Rightarrow> string"
  al_json_text :: "json_value \<Rightarrow> string"
  al_result_json :: "evaluation_result \<Rightarrow> json_value option"
  al_glob :: "string \<Rightarrow> string + (string \<Rightarrow> bool)"
  al_uuid :: "string list \<Rightarrow> string"
  al_rfc3339 :: "int \<Rightarrow> string"
  al_duration_text :: "nat \<Rightarrow> nat \<Rightarrow> string"

text \<open>\<open>std::time::Duration\<close>, and its whole seconds as an \<open>i64\<close>.\<close>

record duration =
  du_secs :: nat
  du_nanos :: nat

definition seconds :: "nat \<Rightarrow> duration" where
  "seconds n = \<lparr> du_secs = n, du_nanos = 0 \<rparr>"

definition as_secs_i64 :: "duration \<Rightarrow> int" where
  "as_secs_i64 d = wrap_i64 (int (du_secs d))"

text \<open>Ordered maps: \<open>BTreeMap\<close> and \<open>serde_json::Map\<close>, by their sorted entries.\<close>

fun btree_insert :: "'k :: linorder \<Rightarrow> 'v \<Rightarrow> ('k \<times> 'v) list \<Rightarrow> ('k \<times> 'v) list" where
  "btree_insert k v [] = [(k, v)]"
| "btree_insert k v ((k', v') # m) =
     (if k = k' then (k, v) # m
      else if k < k' then (k, v) # (k', v') # m
      else (k', v') # btree_insert k v m)"

lemma map_of_btree_insert [simp]: "map_of (btree_insert k v m) = (map_of m)(k \<mapsto> v)"
  by (induction k v m rule: btree_insert.induct) auto

lemma keys_btree_insert: "fst ` set (btree_insert k v m) = insert k (fst ` set m)"
  by (induction k v m rule: btree_insert.induct) auto

lemma distinct_btree_insert:
  "sorted_wrt (<) (map fst m) \<Longrightarrow> sorted_wrt (<) (map fst (btree_insert k v m))"
  by (induction k v m rule: btree_insert.induct) (auto simp: keys_btree_insert image_iff)

section \<open>Text\<close>

text \<open>\<open>str::trim\<close>: the characters with the Unicode property White\_Space, as UTF-8.\<close>

definition white_space :: "string list" where
  "white_space =
     map (\<lambda>n. [char_of (n :: nat)]) [9, 10, 11, 12, 13, 32]
     @ map (\<lambda>n. [char_of (0xC2 :: nat), char_of (n :: nat)]) [0x85, 0xA0]
     @ [map char_of [0xE1 :: nat, 0x9A, 0x80]]
     @ map (\<lambda>n. [char_of (0xE2 :: nat), char_of (0x80 :: nat), char_of (n :: nat)])
         ([0x80 ..< 0x8B] @ [0xA8, 0xA9, 0xAF])
     @ [map char_of [0xE2 :: nat, 0x81, 0x9F], map char_of [0xE3 :: nat, 0x80, 0x80]]"

fun skip_any :: "string list \<Rightarrow> string \<Rightarrow> string option" where
  "skip_any [] s = None"
| "skip_any (w # ws) s =
     (if w \<noteq> [] \<and> starts_with s w then Some (drop (length w) s) else skip_any ws s)"

lemma skip_any_length: "skip_any ws s = Some r \<Longrightarrow> length r < length s"
  by (induction ws) (auto simp: starts_with_iff split: if_splits)

function drop_any :: "string list \<Rightarrow> string \<Rightarrow> string" where
  "drop_any ws s = (case skip_any ws s of None \<Rightarrow> s | Some r \<Rightarrow> drop_any ws r)"
  by pat_completeness auto
termination
  by (relation "measure (\<lambda>(ws, s). length s)") (auto dest: skip_any_length)

declare drop_any.simps [simp del]

definition trim :: "string \<Rightarrow> string" where
  "trim s = rev (drop_any (map rev white_space) (rev (drop_any white_space s)))"

section \<open>Selectors\<close>

datatype selector =
  SelRule
| SelLevel
| SelEvent "string list"
| SelMatch string
| SelEnrichment "string list"
| SelCorrelationGroupKey string

record selector_parse_error =
  spe_selector :: string
  spe_message :: string

definition show_selector_parse_error :: "selector_parse_error \<Rightarrow> string" where
  "show_selector_parse_error e = ''invalid selector '' @ [CHR 0x27] @ spe_selector e @ [CHR 0x27] @ '': '' @ spe_message e"

definition split_path :: "string \<Rightarrow> string list" where
  "split_path s = filter (\<lambda>seg. seg \<noteq> []) (split_char (CHR ''.'') s)"

definition selector_parse :: "string \<Rightarrow> selector_parse_error + selector" where
  "selector_parse raw =
     (let s = trim raw;
          err = (\<lambda>message. Inl \<lparr> spe_selector = raw, spe_message = message \<rparr>)
      in if s = ''rule'' then Inr SelRule
         else if s = ''level'' then Inr SelLevel
         else case strip_prefix s ''correlation.group_key.'' of
           Some rest \<Rightarrow>
             if rest = [] then err ''empty correlation.group_key field''
             else Inr (SelCorrelationGroupKey rest)
         | None \<Rightarrow> case strip_prefix s ''event.'' of
           Some rest \<Rightarrow>
             (let path = split_path rest
              in if path = [] then err ''empty event path'' else Inr (SelEvent path))
         | None \<Rightarrow> case strip_prefix s ''match.'' of
           Some rest \<Rightarrow> if rest = [] then err ''empty match field'' else Inr (SelMatch rest)
         | None \<Rightarrow> case strip_prefix s ''enrichment.'' of
           Some rest \<Rightarrow>
             (let path = split_path rest
              in if path = [] then err ''empty enrichment key'' else Inr (SelEnrichment path))
         | None \<Rightarrow> err (''unknown namespace (expected rule, level, event.<path>, match.<field>, ''
                        @ ''enrichment.<key>, or correlation.group_key.<field>)''))"

fun selector_as_str :: "selector \<Rightarrow> string" where
  "selector_as_str SelRule = ''rule''"
| "selector_as_str SelLevel = ''level''"
| "selector_as_str (SelEvent path) = ''event.'' @ join_str ''.'' path"
| "selector_as_str (SelMatch field) = ''match.'' @ field"
| "selector_as_str (SelEnrichment path) = ''enrichment.'' @ join_str ''.'' path"
| "selector_as_str (SelCorrelationGroupKey field) = ''correlation.group_key.'' @ field"

text \<open>\<open>Value::get\<close> with a key, and a walk along a path.\<close>

fun json_get :: "json_value \<Rightarrow> string \<Rightarrow> json_value option" where
  "json_get (JObject m) key = map_of m key"
| "json_get _ key = None"

fun dig :: "json_value \<Rightarrow> string list \<Rightarrow> json_value option" where
  "dig cur [] = Some cur"
| "dig cur (seg # path) = (case json_get cur seg of None \<Rightarrow> None | Some v \<Rightarrow> dig v path)"

definition rule_of_header :: "rule_header \<Rightarrow> string" where
  "rule_of_header h = (case rh_rule_id h of Some i \<Rightarrow> i | None \<Rightarrow> rh_rule_title h)"

fun selector_resolve :: "selector \<Rightarrow> evaluation_result \<Rightarrow> json_value option" where
  "selector_resolve SelRule r = Some (JString (rule_of_header (er_header r)))"
| "selector_resolve SelLevel r = map_option (\<lambda>l. JString (level_as_str l)) (rh_level (er_header r))"
| "selector_resolve (SelEvent path) r =
     (case er_body r of
        RbDetection d \<Rightarrow> (case db_event d of None \<Rightarrow> None | Some ev \<Rightarrow> dig ev path)
      | RbCorrelation _ \<Rightarrow> None)"
| "selector_resolve (SelMatch field) r =
     (case er_body r of
        RbDetection d \<Rightarrow> map_option fm_value (find (\<lambda>m. fm_field m = field) (db_matched_fields d))
      | RbCorrelation _ \<Rightarrow> None)"
| "selector_resolve (SelEnrichment path) r =
     (case rh_enrichments (er_header r) of
        None \<Rightarrow> None
      | Some m \<Rightarrow>
          (case path of
             [] \<Rightarrow> None
           | first # rest \<Rightarrow> (case map_of m first of None \<Rightarrow> None | Some cur \<Rightarrow> dig cur rest)))"
| "selector_resolve (SelCorrelationGroupKey field) r =
     (case er_body r of
        RbCorrelation c \<Rightarrow> map_option (\<lambda>e. JString (snd e)) (find (\<lambda>e. fst e = field) (cb_group_key c))
      | RbDetection _ \<Rightarrow> None)"

text \<open>A resolved value as text: strings as they are, anything else as compact JSON.\<close>

definition value_to_string :: "alert_env \<Rightarrow> json_value \<Rightarrow> string" where
  "value_to_string al v = (case v of JString s \<Rightarrow> s | other \<Rightarrow> al_json_text al other)"

definition resolved_text :: "alert_env \<Rightarrow> selector \<Rightarrow> evaluation_result \<Rightarrow> string" where
  "resolved_text al sel r =
     (case selector_resolve sel r of Some v \<Rightarrow> value_to_string al v | None \<Rightarrow> [])"

section \<open>Scope\<close>

datatype tag_pattern = TpExact string | TpPrefix string

record scope_filter =
  sf_rule_ids :: "string list"
  sf_rule_title_globs :: "(string \<Rightarrow> bool) list"
  sf_tag_globs :: "tag_pattern list"
  sf_levels :: "level list"

definition scope_default :: scope_filter where
  "scope_default = \<lparr> sf_rule_ids = [], sf_rule_title_globs = [], sf_tag_globs = [], sf_levels = [] \<rparr>"

definition has_glob_meta :: "string \<Rightarrow> bool" where
  "has_glob_meta s =
     (CHR ''*'' \<in> set s \<or> CHR ''?'' \<in> set s \<or> CHR ''['' \<in> set s)"

definition tag_pattern_of :: "string \<Rightarrow> tag_pattern" where
  "tag_pattern_of t =
     (case strip_suffix t ''.*'' of
        Some p \<Rightarrow> TpPrefix p
      | None \<Rightarrow>
          if ends_with t ''*'' then TpPrefix (rev (dropWhile (\<lambda>c. c = CHR ''*'') (rev t)))
          else TpExact t)"

fun scope_rules ::
    "alert_env \<Rightarrow> string list \<Rightarrow> string + string list \<times> (string \<Rightarrow> bool) list" where
  "scope_rules al [] = Inr ([], [])"
| "scope_rules al (r # rs) =
     (if has_glob_meta r then
        (case al_glob al r of
           Inl e \<Rightarrow> Inl (''invalid scope.rules glob '' @ [CHR 0x27] @ r @ [CHR 0x27] @ '': '' @ e)
         | Inr g \<Rightarrow> result_map (\<lambda>(ids, globs). (ids, g # globs)) (scope_rules al rs))
      else result_map (\<lambda>(ids, globs). (r # ids, globs)) (scope_rules al rs))"

definition scope_new ::
    "alert_env \<Rightarrow> string list \<Rightarrow> string list \<Rightarrow> string list \<Rightarrow> string + scope_filter" where
  "scope_new al rules tags levels =
     result_bind (scope_rules al rules) (\<lambda>(ids, globs).
       result_map (\<lambda>parsed. \<lparr> sf_rule_ids = ids, sf_rule_title_globs = globs,
                             sf_tag_globs = map tag_pattern_of tags, sf_levels = parsed \<rparr>)
         (collect_results
            (\<lambda>l. case level_from_str l of
                    Some lvl \<Rightarrow> Inr lvl
                  | None \<Rightarrow> Inl (''invalid scope.levels entry '' @ [CHR 0x27] @ l @ [CHR 0x27]))
            levels))"

definition is_unrestricted :: "scope_filter \<Rightarrow> bool" where
  "is_unrestricted sc =
     (sf_rule_ids sc = [] \<and> sf_rule_title_globs sc = [] \<and> sf_tag_globs sc = [] \<and> sf_levels sc = [])"

fun tag_pattern_matches :: "tag_pattern \<Rightarrow> string \<Rightarrow> bool" where
  "tag_pattern_matches (TpExact t) tag = (t = tag)"
| "tag_pattern_matches (TpPrefix p) tag = starts_with tag p"

definition scope_matches :: "scope_filter \<Rightarrow> evaluation_result \<Rightarrow> bool" where
  "scope_matches sc r =
     (let h = er_header r
      in is_unrestricted sc
         \<or> ((sf_rule_ids sc = [] \<and> sf_rule_title_globs sc = []
             \<or> (case rh_rule_id h of Some i \<Rightarrow> i \<in> set (sf_rule_ids sc) | None \<Rightarrow> False)
             \<or> list_ex (\<lambda>g. g (rh_rule_title h)) (sf_rule_title_globs sc))
            \<and> (sf_tag_globs sc = []
               \<or> list_ex (\<lambda>t. list_ex (\<lambda>p. tag_pattern_matches p t) (sf_tag_globs sc)) (rh_tags h))
            \<and> (sf_levels sc = []
               \<or> (case rh_level h of Some l \<Rightarrow> l \<in> set (sf_levels sc) | None \<Rightarrow> False))))"

section \<open>Matchers\<close>

datatype match_op = MoEq | MoNe | MoReMatch | MoReNotMatch

record matcher_spec =
  ms_selector :: string
  ms_op :: match_op
  ms_value :: string

datatype matcher_error = MeSelector selector_parse_error | MeRegex string string

fun show_matcher_error :: "matcher_error \<Rightarrow> string" where
  "show_matcher_error (MeSelector e) = show_selector_parse_error e"
| "show_matcher_error (MeRegex v message) = ''invalid matcher regex '' @ [CHR 0x27] @ v @ [CHR 0x27] @ '': '' @ message"

record alert_matcher =
  am_selector :: selector
  am_op :: match_op
  am_value :: string
  am_regex :: "string option"

definition matcher_compile :: "alert_env \<Rightarrow> matcher_spec \<Rightarrow> matcher_error + alert_matcher" where
  "matcher_compile al spec =
     result_bind (map_error MeSelector (selector_parse (ms_selector spec))) (\<lambda>sel.
       result_map
         (\<lambda>regex. \<lparr> am_selector = sel, am_op = ms_op spec, am_value = ms_value spec, am_regex = regex \<rparr>)
         (if ms_op spec = MoReMatch \<or> ms_op spec = MoReNotMatch then
            (let anchored = ''^(?:'' @ ms_value spec @ '')$''
             in if re_new_ok (al_ext al) anchored then Inr (Some anchored)
                else Inl (MeRegex (ms_value spec) (al_re_error al anchored)))
          else Inr None))"

definition matcher_to_spec :: "alert_matcher \<Rightarrow> matcher_spec" where
  "matcher_to_spec m =
     \<lparr> ms_selector = selector_as_str (am_selector m), ms_op = am_op m, ms_value = am_value m \<rparr>"

definition matcher_matches :: "alert_env \<Rightarrow> alert_matcher \<Rightarrow> evaluation_result \<Rightarrow> bool" where
  "matcher_matches al m r =
     (let resolved = resolved_text al (am_selector m) r
      in case am_op m of
           MoEq \<Rightarrow> resolved = am_value m
         | MoNe \<Rightarrow> resolved \<noteq> am_value m
         | MoReMatch \<Rightarrow> (case am_regex m of Some re \<Rightarrow> re_is_match (al_ext al) re resolved | None \<Rightarrow> False)
         | MoReNotMatch \<Rightarrow>
             (case am_regex m of Some re \<Rightarrow> \<not> re_is_match (al_ext al) re resolved | None \<Rightarrow> False))"

type_synonym matcher_set = "alert_matcher list"

definition matcher_set_compile :: "alert_env \<Rightarrow> matcher_spec list \<Rightarrow> matcher_error + matcher_set" where
  "matcher_set_compile al specs = collect_results (matcher_compile al) specs"

definition matcher_set_matches :: "alert_env \<Rightarrow> matcher_set \<Rightarrow> evaluation_result \<Rightarrow> bool" where
  "matcher_set_matches al ms r = (ms \<noteq> [] \<and> list_all (\<lambda>m. matcher_matches al m r) ms)"

definition matcher_set_to_specs :: "matcher_set \<Rightarrow> matcher_spec list" where
  "matcher_set_to_specs ms = map matcher_to_spec ms"

end
