(* ===== verification/AlertDedup.thy ===== *)
theory AlertDedup
  imports AlertTypes "HOL-Library.Word"
begin

text \<open>
  Deduplication by fingerprint (\<open>rsigma-runtime/src/alert_pipeline/dedup.rs\<close>): the first result of a
  fingerprint passes and opens an active alert, the following ones are folded into it, and a
  periodic tick repeats and resolves alerts.
\<close>

section \<open>Fingerprints\<close>

text \<open>FNV-1a on 64 bits.\<close>

definition fnv_step :: "64 word \<Rightarrow> char \<Rightarrow> 64 word" where
  "fnv_step hash byte = (xor hash (of_nat (of_char byte))) * 0x100000001B3"

definition fnv1a64 :: "string \<Rightarrow> 64 word" where
  "fnv1a64 bytes = fold (\<lambda>byte hash. fnv_step hash byte) bytes 0xCBF29CE484222325"

text \<open>\<open>format!("{:016x}")\<close>.\<close>

definition hex_digit :: "nat \<Rightarrow> char" where
  "hex_digit n = char_of (if n < 10 then 48 + n else 87 + n)"

definition hex16 :: "64 word \<Rightarrow> string" where
  "hex16 w = map (\<lambda>i. hex_digit (unat w div 16 ^ (15 - i) mod 16)) [0 ..< 16]"

definition unit_separator :: string where "unit_separator = [CHR 0x1F]"

definition fingerprint_text :: "alert_env \<Rightarrow> selector list \<Rightarrow> evaluation_result \<Rightarrow> string" where
  "fingerprint_text al selectors r =
     ''rule='' @ rule_of_header (er_header r)
     @ concat (map (\<lambda>sel.
         unit_separator @ selector_as_str sel @ ''=''
         @ (case selector_resolve sel r of
              Some v \<Rightarrow> value_to_string al v
            | None \<Rightarrow> CHR 0x00 # ''null'')) selectors)"

definition fingerprint :: "alert_env \<Rightarrow> selector list \<Rightarrow> evaluation_result \<Rightarrow> string" where
  "fingerprint al selectors r = hex16 (fnv1a64 (fingerprint_text al selectors r))"

definition resolve_fields :: "selector list \<Rightarrow> evaluation_result \<Rightarrow> (string \<times> json_value) list" where
  "resolve_fields selectors r =
     map (\<lambda>sel. (selector_as_str sel,
       case selector_resolve sel r of Some v \<Rightarrow> v | None \<Rightarrow> JNull)) selectors"

text \<open>\<open>strip_event_payloads\<close> of \<open>alert_pipeline/mod.rs\<close>.\<close>

definition strip_event_payloads :: "evaluation_result \<Rightarrow> evaluation_result" where
  "strip_event_payloads r =
     (case er_body r of
        RbDetection d \<Rightarrow> r \<lparr> er_body := RbDetection (d \<lparr> db_event := None \<rparr>) \<rparr>
      | RbCorrelation c \<Rightarrow>
          r \<lparr> er_body := RbCorrelation (c \<lparr> cb_events := None, cb_event_refs := None \<rparr>) \<rparr>)"

definition sample_of :: "alert_env \<Rightarrow> evaluation_result \<Rightarrow> json_value" where
  "sample_of al r =
     (case al_result_json al (strip_event_payloads r) of Some v \<Rightarrow> v | None \<Rightarrow> JNull)"

section \<open>Active alerts\<close>

record dedup_config =
  dc_fingerprint :: "selector list"
  dc_repeat_interval :: duration
  dc_resolve_timeout :: duration
  dc_max_active_alerts :: nat

record active_alert =
  aa_first_seen :: int
  aa_last_seen :: int
  aa_last_emitted :: int
  aa_fire_count :: nat
  aa_emitted_count :: nat
  aa_sample :: json_value
  aa_fields :: "(string \<times> json_value) list"

type_synonym dedup_store = "(string \<times> active_alert) list"

datatype dedup_state = DsRepeat | DsResolved

fun dedup_state_str :: "dedup_state \<Rightarrow> string" where
  "dedup_state_str DsRepeat = ''repeat''"
| "dedup_state_str DsResolved = ''resolved''"

record dedup_record =
  dr_state :: dedup_state
  dr_json :: json_value

definition dedup_contains :: "dedup_store \<Rightarrow> string \<Rightarrow> bool" where
  "dedup_contains st fp = (map_of st fp \<noteq> None)"

definition dedup_fold :: "string \<Rightarrow> int \<Rightarrow> dedup_store \<Rightarrow> dedup_store" where
  "dedup_fold fp now st =
     (case map_of st fp of
        Some alert \<Rightarrow>
          map_insert fp (alert \<lparr> aa_fire_count := aa_fire_count alert + 1, aa_last_seen := now \<rparr>) st
      | None \<Rightarrow> st)"

definition dedup_insert ::
    "string \<Rightarrow> int \<Rightarrow> json_value \<Rightarrow> (string \<times> json_value) list \<Rightarrow> dedup_store \<Rightarrow> dedup_store" where
  "dedup_insert fp now sample fs st =
     map_insert fp
       \<lparr> aa_first_seen = now, aa_last_seen = now, aa_last_emitted = now, aa_fire_count = 1,
         aa_emitted_count = 1, aa_sample = sample, aa_fields = fs \<rparr> st"

definition json_of_nat :: "nat \<Rightarrow> json_value" where
  "json_of_nat n = JNumber (JInt (int n))"

definition json_of_int :: "int \<Rightarrow> json_value" where
  "json_of_int i = JNumber (JInt i)"

definition object_of :: "json_value \<Rightarrow> (string \<times> json_value) list" where
  "object_of v = (case v of JObject m \<Rightarrow> m | _ \<Rightarrow> [])"

definition build_record :: "active_alert \<Rightarrow> string \<Rightarrow> dedup_state \<Rightarrow> json_value" where
  "build_record alert fp state =
     (let obj = object_of (aa_sample alert);
          enrichments = (case map_of obj ''enrichments'' of Some v \<Rightarrow> object_of v | None \<Rightarrow> []);
          m1 = btree_insert ''dedup_state'' (JString (dedup_state_str state)) enrichments;
          m2 = btree_insert ''dedup_fingerprint'' (JString fp) m1;
          m3 = btree_insert ''dedup_fire_count'' (json_of_nat (aa_fire_count alert)) m2;
          m4 = btree_insert ''dedup_first_seen'' (json_of_int (aa_first_seen alert)) m3;
          m5 = btree_insert ''dedup_last_seen'' (json_of_int (aa_last_seen alert)) m4;
          fs = fold (\<lambda>(k, v) m. btree_insert k v m) (aa_fields alert) [];
          m6 = btree_insert ''dedup_fields'' (JObject fs) m5
      in JObject (btree_insert ''enrichments'' (JObject m6) obj))"

text \<open>One alert in a tick: what is emitted, and what stays.\<close>

definition dedup_tick_alert ::
    "dedup_config \<Rightarrow> int \<Rightarrow> string \<Rightarrow> active_alert \<Rightarrow> dedup_record option \<times> active_alert option" where
  "dedup_tick_alert cfg now fp alert =
     (let resolve_secs = as_secs_i64 (dc_resolve_timeout cfg);
          repeat_secs = as_secs_i64 (dc_repeat_interval cfg)
      in if resolve_secs \<le> sub_i64 now (aa_last_seen alert) then
           (Some \<lparr> dr_state = DsResolved, dr_json = build_record alert fp DsResolved \<rparr>, None)
         else if 0 < repeat_secs \<and> repeat_secs \<le> sub_i64 now (aa_last_emitted alert)
                 \<and> aa_emitted_count alert < aa_fire_count alert then
           (Some \<lparr> dr_state = DsRepeat, dr_json = build_record alert fp DsRepeat \<rparr>,
            Some (alert \<lparr> aa_last_emitted := now, aa_emitted_count := aa_fire_count alert \<rparr>))
         else (None, Some alert))"

definition dedup_tick :: "dedup_config \<Rightarrow> int \<Rightarrow> dedup_store \<Rightarrow> dedup_record list \<times> dedup_store" where
  "dedup_tick cfg now st =
     (filter_map (\<lambda>(fp, alert). fst (dedup_tick_alert cfg now fp alert)) st,
      map_retain (\<lambda>fp alert. snd (dedup_tick_alert cfg now fp alert)) st)"

definition dedup_snapshot :: "dedup_store \<Rightarrow> (string \<times> active_alert) list" where
  "dedup_snapshot st = st"

definition dedup_restore ::
    "(string \<times> active_alert) list \<Rightarrow> int \<Rightarrow> int \<Rightarrow> dedup_store \<Rightarrow> dedup_store" where
  "dedup_restore alerts now resolve_secs st =
     fold (\<lambda>(fp, alert) m. if sub_i64 now (aa_last_seen alert) < resolve_secs then map_insert fp alert m else m)
       alerts st"

text \<open>\<open>sort_unstable\<close> of distinct pairs of a time and a key.\<close>

definition by_age :: "(int \<times> 'k :: linorder) list \<Rightarrow> (int \<times> 'k) list" where
  "by_age xs = sort_key fst (sort_key snd xs)"

definition oldest_keys :: "nat \<Rightarrow> (int \<times> 'k :: linorder) list \<Rightarrow> 'k list" where
  "oldest_keys excess xs = map snd (take excess (by_age xs))"

definition dedup_enforce_cap :: "nat \<Rightarrow> dedup_store \<Rightarrow> nat \<times> dedup_store" where
  "dedup_enforce_cap limit st =
     (let excess = length st - limit
      in if excess = 0 then (0, st)
         else (excess,
               fold map_remove
                 (oldest_keys excess (map (\<lambda>(fp, alert). (aa_last_seen alert, fp)) st)) st))"

end
