(* ===== verification/AlertGroup.thy ===== *)
theory AlertGroup
  imports AlertDedup
begin

text \<open>
  Incident grouping (\<open>rsigma-runtime/src/alert_pipeline/grouping.rs\<close>): by equal values, or by
  joining the incidents that share an entity value.  Incidents are reported by timers and resolved
  when they are quiet.
\<close>

section \<open>Configuration\<close>

datatype grouping_mode = GmGroupBy | GmEntityGraph

datatype include_mode = ImRefs | ImResults

record caps =
  cp_max_open_incidents :: nat
  cp_max_entities_per_incident :: nat
  cp_max_results_per_incident :: nat
  cp_max_value_cardinality :: nat

definition caps_default :: caps where
  "caps_default =
     \<lparr> cp_max_open_incidents = 10000, cp_max_entities_per_incident = 1000,
       cp_max_results_per_incident = 1000, cp_max_value_cardinality = 10000 \<rparr>"

record group_config =
  gc_mode :: grouping_mode
  gc_by :: "selector list"
  gc_entities :: "selector list"
  gc_group_wait :: duration
  gc_group_interval :: duration
  gc_repeat_interval :: duration
  gc_resolve_timeout :: duration
  gc_include :: include_mode
  gc_caps :: caps
  gc_stop_values :: "string list"
  gc_nats_subject :: "string option"

section \<open>Incidents\<close>

record incident_ref =
  ir_rule_name :: string
  ir_level :: "string option"

datatype sample_mode = SmNone | SmRefs | SmResults | SmMixed

record incident_result =
  io_incident_id :: string
  io_state :: string
  io_trigger :: string
  io_first_seen :: int
  io_last_seen :: int
  io_max_level :: "string option"
  io_result_count :: nat
  io_rule_counts :: "(string \<times> nat) list"
  io_group_by :: "(string \<times> json_value) list"
  io_entities :: "(string \<times> json_value) list"
  io_refs :: "incident_ref list option"
  io_results :: "json_value list option"
  io_sample_mode :: "sample_mode option"
  io_bundle_ready :: "bool option"

record incident =
  in_id :: string
  in_first_seen :: int
  in_last_seen :: int
  in_last_emitted :: int
  in_emitted_count :: nat
  in_opened :: bool
  in_dirty :: bool
  in_group_by :: "(string \<times> json_value) list"
  in_entities :: "(string \<times> string list) list"
  in_max_level :: "level option"
  in_rule_counts :: "(string \<times> nat) list"
  in_result_count :: nat
  in_refs :: "incident_ref list"
  in_results :: "json_value list"

definition incident_new :: "string \<Rightarrow> int \<Rightarrow> (string \<times> json_value) list \<Rightarrow> incident" where
  "incident_new i now group_by =
     \<lparr> in_id = i, in_first_seen = now, in_last_seen = now, in_last_emitted = now, in_emitted_count = 0,
       in_opened = False, in_dirty = True, in_group_by = group_by, in_entities = [], in_max_level = None,
       in_rule_counts = [], in_result_count = 0, in_refs = [], in_results = [] \<rparr>"

fun level_rank :: "level \<Rightarrow> nat" where
  "level_rank Informational = 0"
| "level_rank Low = 1"
| "level_rank Medium = 2"
| "level_rank High = 3"
| "level_rank Critical = 4"

fun max_level :: "level option \<Rightarrow> level option \<Rightarrow> level option" where
  "max_level (Some x) (Some y) = Some (if level_rank y \<le> level_rank x then x else y)"
| "max_level (Some x) None = Some x"
| "max_level None b = b"

definition btree_get :: "'v \<Rightarrow> ('k \<times> 'v) list \<Rightarrow> 'k \<Rightarrow> 'v" where
  "btree_get d m k = (case map_of m k of Some v \<Rightarrow> v | None \<Rightarrow> d)"

definition absorb :: "alert_env \<Rightarrow> group_config \<Rightarrow> evaluation_result \<Rightarrow> int \<Rightarrow> incident \<Rightarrow> incident" where
  "absorb al cfg r now inc =
     (let h = er_header r;
          rule = rule_of_header h;
          limit = cp_max_results_per_incident (gc_caps cfg);
          inc1 = inc \<lparr> in_last_seen := now, in_dirty := True, in_result_count := in_result_count inc + 1,
                       in_max_level := max_level (in_max_level inc) (rh_level h),
                       in_rule_counts := btree_insert rule (btree_get 0 (in_rule_counts inc) rule + 1)
                                           (in_rule_counts inc) \<rparr>
      in case gc_include cfg of
           ImRefs \<Rightarrow>
             (if length (in_refs inc1) < limit
              then inc1 \<lparr> in_refs := in_refs inc1
                     @ [\<lparr> ir_rule_name = rule, ir_level = map_option level_as_str (rh_level h) \<rparr>] \<rparr>
              else inc1)
         | ImResults \<Rightarrow>
             (if length (in_results inc1) < limit
              then inc1 \<lparr> in_results := in_results inc1 @ [sample_of al r] \<rparr> else inc1))"

definition to_result :: "string \<Rightarrow> string \<Rightarrow> include_mode \<Rightarrow> incident \<Rightarrow> incident_result" where
  "to_result state trigger mode inc =
     \<lparr> io_incident_id = in_id inc, io_state = state, io_trigger = trigger,
       io_first_seen = in_first_seen inc, io_last_seen = in_last_seen inc,
       io_max_level = map_option level_as_str (in_max_level inc),
       io_result_count = in_result_count inc, io_rule_counts = in_rule_counts inc,
       io_group_by = fold (\<lambda>(k, v) m. btree_insert k v m) (in_group_by inc) [],
       io_entities = map (\<lambda>(sel, vs). (sel, JArray (map JString vs))) (in_entities inc),
       io_refs = (if mode = ImRefs \<or> in_refs inc \<noteq> [] then Some (in_refs inc) else None),
       io_results = (if mode = ImResults \<or> in_results inc \<noteq> [] then Some (in_results inc) else None),
       io_sample_mode = None, io_bundle_ready = None \<rparr>"

definition sample_mode_of :: "incident \<Rightarrow> sample_mode" where
  "sample_mode_of inc =
     (if in_refs inc \<noteq> [] then (if in_results inc \<noteq> [] then SmMixed else SmRefs)
      else if in_results inc \<noteq> [] then SmResults else SmNone)"

definition to_snapshot :: "include_mode \<Rightarrow> incident \<Rightarrow> incident_result" where
  "to_snapshot mode inc =
     (to_result ''open'' ''snapshot'' mode inc)
       \<lparr> io_sample_mode := Some (sample_mode_of inc), io_bundle_ready := Some (in_opened inc) \<rparr>"

definition group_fingerprint ::
    "alert_env \<Rightarrow> selector list \<Rightarrow> evaluation_result \<Rightarrow> string \<times> (string \<times> json_value) list" where
  "group_fingerprint al selectors r =
     (let v = (\<lambda>sel. case selector_resolve sel r of Some x \<Rightarrow> x | None \<Rightarrow> JNull)
      in (hex16 (fnv1a64 (concat (map (\<lambda>sel. unit_separator @ selector_as_str sel @ ''=''
              @ value_to_string al (v sel)) selectors))),
          map (\<lambda>sel. (selector_as_str sel, v sel)) selectors))"

section \<open>The store\<close>

type_synonym entity = "string \<times> string"

record incident_store =
  st_incidents :: "(string \<times> incident) list"
  st_entity_index :: "(entity \<times> string) list"
  st_value_counts :: "(entity \<times> nat) list"

definition incident_store_empty :: incident_store where
  "incident_store_empty = \<lparr> st_incidents = [], st_entity_index = [], st_value_counts = [] \<rparr>"

datatype overmerge_guard = StopValue | CardinalityCeiling

definition can_assign :: "incident_store \<Rightarrow> string \<Rightarrow> nat \<Rightarrow> bool" where
  "can_assign st i limit = (map_of (st_incidents st) i \<noteq> None \<or> length (st_incidents st) < limit)"

definition incidents_snapshot :: "include_mode \<Rightarrow> incident_store \<Rightarrow> incident_result list" where
  "incidents_snapshot mode st = map (to_snapshot mode \<circ> snd) (st_incidents st)"

definition snapshot_one :: "string \<Rightarrow> include_mode \<Rightarrow> incident_store \<Rightarrow> incident_result option" where
  "snapshot_one i mode st = map_option (to_snapshot mode) (map_of (st_incidents st) i)"

definition assign_group_by ::
    "alert_env \<Rightarrow> group_config \<Rightarrow> evaluation_result \<Rightarrow> int \<Rightarrow> incident_store \<Rightarrow> string option \<times> incident_store" where
  "assign_group_by al cfg r now st =
     (case group_fingerprint al (gc_by cfg) r of (i, key) \<Rightarrow>
        (case map_of (st_incidents st) i of
           None \<Rightarrow>
             if cp_max_open_incidents (gc_caps cfg) \<le> length (st_incidents st) then (None, st)
             else (Some i, st \<lparr> st_incidents :=
                     map_insert i (absorb al cfg r now (incident_new i now key)) (st_incidents st) \<rparr>)
         | Some inc \<Rightarrow>
             (Some i, st \<lparr> st_incidents := map_insert i (absorb al cfg r now inc) (st_incidents st) \<rparr>)))"

section \<open>The entity graph\<close>

text \<open>The join keys of a result, and the values that a guard held back.\<close>

definition entity_pair ::
    "alert_env \<Rightarrow> group_config \<Rightarrow> evaluation_result \<Rightarrow> incident_store \<Rightarrow> selector \<Rightarrow> (overmerge_guard + entity) option" where
  "entity_pair al cfg r st sel =
     (case selector_resolve sel r of
        None \<Rightarrow> None
      | Some v \<Rightarrow>
          (let text = value_to_string al v; key = (selector_as_str sel, text)
           in if text \<in> set (gc_stop_values cfg) then Some (Inl StopValue)
              else if cp_max_value_cardinality (gc_caps cfg) \<le> btree_get 0 (st_value_counts st) key
              then Some (Inl CardinalityCeiling) else Some (Inr key)))"

definition join_pairs ::
    "alert_env \<Rightarrow> group_config \<Rightarrow> evaluation_result \<Rightarrow> incident_store \<Rightarrow> entity list" where
  "join_pairs al cfg r st =
     filter_map (\<lambda>sel. case entity_pair al cfg r st sel of Some (Inr key) \<Rightarrow> Some key | _ \<Rightarrow> None)
       (gc_entities cfg)"

definition guards_hit ::
    "alert_env \<Rightarrow> group_config \<Rightarrow> evaluation_result \<Rightarrow> incident_store \<Rightarrow> overmerge_guard list" where
  "guards_hit al cfg r st =
     filter_map (\<lambda>sel. case entity_pair al cfg r st sel of Some (Inl g) \<Rightarrow> Some g | _ \<Rightarrow> None)
       (gc_entities cfg)"

text \<open>The open incidents a result touches; index entries of incidents that are gone are dropped.\<close>

definition touch_pair :: "entity \<Rightarrow> string list \<times> incident_store \<Rightarrow> string list \<times> incident_store" where
  "touch_pair pair acc =
     (case acc of (touched, st) \<Rightarrow>
        (case map_of (st_entity_index st) pair of
           None \<Rightarrow> (touched, st)
         | Some i \<Rightarrow>
             if map_of (st_incidents st) i = None then
               (touched, st \<lparr> st_entity_index := map_remove pair (st_entity_index st),
                              st_value_counts := map_remove pair (st_value_counts st) \<rparr>)
             else if i \<in> set touched then (touched, st) else (touched @ [i], st)))"

definition entities_of :: "incident \<Rightarrow> entity list" where
  "entities_of inc = concat (map (\<lambda>(sel, vs). map (Pair sel) vs) (in_entities inc))"

text \<open>\<open>extend\<close> of a \<open>BTreeSet\<close>.\<close>

definition set_extend :: "string list \<Rightarrow> string list \<Rightarrow> string list" where
  "set_extend new vs = fold insort_insert new vs"

definition absorb_victim :: "nat \<Rightarrow> incident \<Rightarrow> incident \<Rightarrow> incident" where
  "absorb_victim limit victim inc =
     inc \<lparr> in_first_seen := min (in_first_seen inc) (in_first_seen victim),
           in_last_seen := max (in_last_seen inc) (in_last_seen victim),
           in_result_count := in_result_count inc + in_result_count victim,
           in_dirty := True,
           in_max_level := max_level (in_max_level inc) (in_max_level victim),
           in_rule_counts := fold (\<lambda>(rule, n) m. btree_insert rule (btree_get 0 m rule + n) m)
             (in_rule_counts victim) (in_rule_counts inc),
           in_entities := fold (\<lambda>(sel, vs) m. btree_insert sel (set_extend vs (btree_get [] m sel)) m)
             (in_entities victim) (in_entities inc),
           in_refs := take limit (in_refs inc @ in_refs victim),
           in_results := take limit (in_results inc @ in_results victim) \<rparr>"

definition merge_incidents :: "string \<Rightarrow> nat \<Rightarrow> string \<Rightarrow> incident_store \<Rightarrow> incident_store" where
  "merge_incidents survivor limit other st =
     (if survivor = other then st
      else case map_of (st_incidents st) other of
        None \<Rightarrow> st
      | Some victim \<Rightarrow>
          (let incs = map_remove other (st_incidents st);
               index = fold (\<lambda>e m. map_insert e survivor m) (entities_of victim) (st_entity_index st)
           in st \<lparr> st_incidents :=
                     (case map_of incs survivor of
                        Some inc \<Rightarrow> map_insert survivor (absorb_victim limit victim inc) incs
                      | None \<Rightarrow> incs),
                   st_entity_index := index \<rparr>))"

text \<open>Storing the join keys: a value already stored, or while there is room for its selector.\<close>

definition store_pair :: "nat \<Rightarrow> entity \<Rightarrow> entity list \<times> incident \<Rightarrow> entity list \<times> incident" where
  "store_pair limit pair acc =
     (case (pair, acc) of ((sel, v), (stored, inc)) \<Rightarrow>
        let vs = btree_get [] (in_entities inc) sel
        in if v \<in> set vs \<or> length vs < limit
           then (stored @ [(sel, v)],
                 inc \<lparr> in_entities := btree_insert sel (insort_insert v vs) (in_entities inc) \<rparr>)
           else (stored, inc \<lparr> in_entities := btree_insert sel vs (in_entities inc) \<rparr>))"

definition register_pair :: "string \<Rightarrow> entity \<Rightarrow> incident_store \<Rightarrow> incident_store" where
  "register_pair i pair st =
     st \<lparr> st_value_counts := map_insert pair (btree_get 0 (st_value_counts st) pair + 1) (st_value_counts st),
          st_entity_index := map_insert pair i (st_entity_index st) \<rparr>"

definition absorb_into ::
    "alert_env \<Rightarrow> group_config \<Rightarrow> evaluation_result \<Rightarrow> int \<Rightarrow> entity list \<Rightarrow> string \<Rightarrow> incident_store \<Rightarrow> incident_store" where
  "absorb_into al cfg r now pairs i st =
     (case map_of (st_incidents st) i of
        None \<Rightarrow> st
      | Some inc \<Rightarrow>
          (case fold (store_pair (cp_max_entities_per_incident (gc_caps cfg))) pairs ([], inc) of
             (stored, inc') \<Rightarrow>
               fold (register_pair i) stored
                 (st \<lparr> st_incidents := map_insert i (absorb al cfg r now inc') (st_incidents st) \<rparr>)))"

definition assign_entity_graph ::
    "alert_env \<Rightarrow> group_config \<Rightarrow> evaluation_result \<Rightarrow> int \<Rightarrow> incident_store \<Rightarrow> string option \<times> incident_store" where
  "assign_entity_graph al cfg r now st =
     (let pairs = join_pairs al cfg r st
      in case fold touch_pair pairs ([], st) of (touched, st1) \<Rightarrow>
        (case touched of
           [] \<Rightarrow>
             if cp_max_open_incidents (gc_caps cfg) \<le> length (st_incidents st1) then (None, st1)
             else (let i = al_uuid al (map fst (st_incidents st1));
                       st2 = st1 \<lparr> st_incidents := map_insert i (incident_new i now []) (st_incidents st1) \<rparr>
                   in (Some i, absorb_into al cfg r now pairs i st2))
         | survivor # others \<Rightarrow>
             (let st2 = fold (merge_incidents survivor (cp_max_results_per_incident (gc_caps cfg))) others st1
              in (Some survivor, absorb_into al cfg r now pairs survivor st2))))"

definition incident_assign ::
    "alert_env \<Rightarrow> group_config \<Rightarrow> evaluation_result \<Rightarrow> int \<Rightarrow> incident_store \<Rightarrow> string option \<times> incident_store" where
  "incident_assign al cfg r now st =
     (case gc_mode cfg of
        GmGroupBy \<Rightarrow> assign_group_by al cfg r now st
      | GmEntityGraph \<Rightarrow> assign_entity_graph al cfg r now st)"

section \<open>Timers\<close>

record incident_emission =
  ie_trigger :: string
  ie_result :: incident_result

text \<open>One incident in a tick: what is emitted, and what stays (nothing once it is resolved).\<close>

definition emission :: "string \<Rightarrow> string \<Rightarrow> group_config \<Rightarrow> incident \<Rightarrow> incident_emission" where
  "emission state trigger cfg inc =
     \<lparr> ie_trigger = trigger, ie_result = to_result state trigger (gc_include cfg) inc \<rparr>"

definition tick_incident ::
    "group_config \<Rightarrow> int \<Rightarrow> incident \<Rightarrow> incident_emission option \<times> incident option" where
  "tick_incident cfg now inc =
     (let wait = as_secs_i64 (gc_group_wait cfg); interval = as_secs_i64 (gc_group_interval cfg);
          again = as_secs_i64 (gc_repeat_interval cfg); resolve = as_secs_i64 (gc_resolve_timeout cfg)
      in if \<not> in_opened inc then
           (if wait \<le> sub_i64 now (in_first_seen inc) then
              (Some (emission ''open'' ''group_wait'' cfg inc),
               Some (inc \<lparr> in_opened := True, in_dirty := False, in_last_emitted := now,
                           in_emitted_count := in_result_count inc \<rparr>))
            else (None, Some inc))
         else if resolve \<le> sub_i64 now (in_last_seen inc) then
           (Some (emission ''resolved'' ''resolved'' cfg inc), None)
         else if in_dirty inc \<and> interval \<le> sub_i64 now (in_last_emitted inc) then
           (Some (emission ''open'' ''group_interval'' cfg inc),
            Some (inc \<lparr> in_dirty := False, in_last_emitted := now,
                        in_emitted_count := in_result_count inc \<rparr>))
         else if 0 < again \<and> again \<le> sub_i64 now (in_last_emitted inc) then
           (Some (emission ''open'' ''repeat'' cfg inc), Some (inc \<lparr> in_last_emitted := now \<rparr>))
         else (None, Some inc))"

definition forget_entities :: "entity list \<Rightarrow> incident_store \<Rightarrow> incident_store" where
  "forget_entities es st =
     st \<lparr> st_entity_index := fold map_remove es (st_entity_index st),
          st_value_counts := fold map_remove es (st_value_counts st) \<rparr>"

definition incident_tick ::
    "group_config \<Rightarrow> int \<Rightarrow> incident_store \<Rightarrow> incident_emission list \<times> incident_store" where
  "incident_tick cfg now st =
     (filter_map (\<lambda>(_, inc). fst (tick_incident cfg now inc)) (st_incidents st),
      forget_entities
        (concat (map (\<lambda>(_, inc). entities_of inc)
          (filter (\<lambda>(_, inc). snd (tick_incident cfg now inc) = None) (st_incidents st))))
        (st \<lparr> st_incidents := map_retain (\<lambda>_ inc. snd (tick_incident cfg now inc)) (st_incidents st) \<rparr>))"

section \<open>Persistence and caps\<close>

definition incidents_export :: "incident_store \<Rightarrow> incident list" where
  "incidents_export st = map snd (st_incidents st)"

definition forget_value :: "string \<Rightarrow> entity \<Rightarrow> incident_store \<Rightarrow> incident_store" where
  "forget_value i key st =
     (if map_of (st_entity_index st) key = Some i
      then st \<lparr> st_entity_index := map_remove key (st_entity_index st),
                st_value_counts := map_remove key (st_value_counts st) \<rparr>
      else st)"

definition evict_incident :: "string \<Rightarrow> incident_store \<Rightarrow> incident_store" where
  "evict_incident i st =
     (case map_of (st_incidents st) i of
        None \<Rightarrow> st
      | Some inc \<Rightarrow>
          fold (forget_value i) (entities_of inc)
            (st \<lparr> st_incidents := map_remove i (st_incidents st) \<rparr>))"

text \<open>\<open>pop_last\<close> takes the greatest value first.\<close>

definition cut_incident :: "caps \<Rightarrow> incident \<Rightarrow> incident" where
  "cut_incident cp inc =
     inc \<lparr> in_refs := take (cp_max_results_per_incident cp) (in_refs inc),
           in_results := take (cp_max_results_per_incident cp) (in_results inc),
           in_entities := map (\<lambda>(sel, vs). (sel, take (cp_max_entities_per_incident cp) vs)) (in_entities inc) \<rparr>"

definition cut_values :: "caps \<Rightarrow> incident \<Rightarrow> entity list" where
  "cut_values cp inc =
     concat (map (\<lambda>(sel, vs). map (Pair sel) (rev (drop (cp_max_entities_per_incident cp) vs))) (in_entities inc))"

definition incident_enforce_caps :: "caps \<Rightarrow> incident_store \<Rightarrow> nat \<times> incident_store" where
  "incident_enforce_caps cp st =
     (let excess = length (st_incidents st) - cp_max_open_incidents cp;
          st1 = (if 0 < excess
                 then fold evict_incident
                   (oldest_keys excess (map (\<lambda>(_, inc). (in_last_seen inc, in_id inc)) (st_incidents st))) st
                 else st);
          dropped = concat (map (\<lambda>(_, inc). map (Pair (in_id inc)) (cut_values cp inc)) (st_incidents st1));
          st2 = st1 \<lparr> st_incidents := map (\<lambda>(i, inc). (i, cut_incident cp inc)) (st_incidents st1) \<rparr>
      in (excess, fold (\<lambda>(i, key). forget_value i key) dropped st2))"

definition incident_restore ::
    "incident list \<Rightarrow> int \<Rightarrow> int \<Rightarrow> caps \<Rightarrow> incident_store \<Rightarrow> nat \<times> incident_store" where
  "incident_restore incidents now resolve_secs cp st =
     (let st1 = st \<lparr> st_incidents :=
            fold (\<lambda>inc m. if sub_i64 now (in_last_seen inc) < resolve_secs then map_insert (in_id inc) inc m else m)
              incidents (st_incidents st) \<rparr>
      in case incident_enforce_caps cp st1 of (evicted, st2) \<Rightarrow>
        (evicted,
         st2 \<lparr> st_entity_index :=
           fold (\<lambda>(_, inc) m. fold (\<lambda>e. map_insert e (in_id inc)) (entities_of inc) m) (st_incidents st2) [] \<rparr>))"

end
