(* ===== verification/AlertGroupProps.thy ===== *)
theory AlertGroupProps
  imports AlertGroup
begin

text \<open>
  Incident stores: every entity value is indexed to the one open incident that stores it, in every
  reachable store; and an incident that stays quiet is reported and resolved.
\<close>

section \<open>Sample data\<close>

text \<open>Libraries that are good enough for concrete runs, and a detection with matched fields.\<close>

definition literal_alert :: alert_env where
  "literal_alert =
     \<lparr> al_ext = literal_env, al_re_error = (\<lambda>_. ''invalid''), al_json_text = (\<lambda>_. ''json''),
       al_result_json = (\<lambda>_. Some (JObject [])), al_glob = (\<lambda>g. Inr (\<lambda>s. s = g)),
       al_uuid = (\<lambda>used. replicate (Suc (foldr (\<lambda>u. max (length u)) used 0)) (CHR ''u'')),
       al_rfc3339 = (\<lambda>_. ''time''), al_duration_text = (\<lambda>_ _. ''span'') \<rparr>"

definition sample_detection :: "string \<Rightarrow> (string \<times> string) list \<Rightarrow> evaluation_result" where
  "sample_detection title fs =
     \<lparr> er_header = \<lparr> rh_rule_title = title, rh_rule_id = None, rh_level = Some High, rh_tags = [],
                      rh_custom_attributes = [], rh_enrichments = None \<rparr>,
       er_body = RbDetection \<lparr> db_matched_selections = [],
         db_matched_fields = map (\<lambda>(f, v). field_match_new f (JString v)) fs, db_event = None \<rparr> \<rparr>"

definition sample_graph :: group_config where
  "sample_graph =
     \<lparr> gc_mode = GmEntityGraph, gc_by = [], gc_entities = [SelMatch ''u'', SelMatch ''h''],
       gc_group_wait = seconds 5, gc_group_interval = seconds 60, gc_repeat_interval = seconds 0,
       gc_resolve_timeout = seconds 30, gc_include = ImRefs,
       gc_caps = \<lparr> cp_max_open_incidents = 5, cp_max_entities_per_incident = 5,
                   cp_max_results_per_incident = 5, cp_max_value_cardinality = 5 \<rparr>,
       gc_stop_values = [''-''], gc_nats_subject = None \<rparr>"

lemma literal_fresh: "length (al_uuid literal_alert used) > length u" if "u \<in> set used"
proof -
  have "length u \<le> foldr (\<lambda>u. max (length u)) used 0" using that by (induction used) auto
  then show ?thesis by (simp add: literal_alert_def)
qed

section \<open>Entity sets\<close>

definition ents :: "(string \<times> string list) list \<Rightarrow> entity set" where
  "ents m = {(sel, v). \<exists>vs. (sel, vs) \<in> set m \<and> v \<in> set vs}"

definition ents_ok :: "(string \<times> string list) list \<Rightarrow> bool" where
  "ents_ok m \<longleftrightarrow> sorted_wrt (<) (map fst m) \<and> (\<forall>(sel, vs) \<in> set m. sorted_wrt (<) vs)"

lemma set_entities_of: "set (entities_of inc) = ents (in_entities inc)"
  by (auto simp: entities_of_def ents_def)

lemma ents_Nil [simp]: "ents [] = {}" "ents_ok []"
  by (simp_all add: ents_def ents_ok_def)

lemma btree_set:
  "sorted_wrt (<) (map fst m) \<Longrightarrow>
   set (btree_insert k v m) = insert (k, v) {e \<in> set m. fst e \<noteq> k}"
proof (induction k v m rule: btree_insert.induct)
  case (2 k v k' v' m)
  then show ?case by (auto simp: less_le)
qed simp

lemma ents_insert:
  assumes "ents_ok m"
  shows "ents (btree_insert sel vs m) = {e \<in> ents m. fst e \<noteq> sel} \<union> Pair sel ` set vs"
  using assms by (auto simp: ents_def ents_ok_def btree_set)

lemma ents_ok_insert: "ents_ok m \<Longrightarrow> sorted_wrt (<) vs \<Longrightarrow> ents_ok (btree_insert sel vs m)"
  by (auto simp: ents_ok_def distinct_btree_insert btree_set)

lemma get_ents:
  assumes "ents_ok m"
  shows "Pair sel ` set (btree_get [] m sel) = {e \<in> ents m. fst e = sel}"
    and "sorted_wrt (<) (btree_get [] m sel)"
proof -
  have d: "distinct (map fst m)" using assms by (simp add: ents_ok_def strict_sorted_iff)
  show "Pair sel ` set (btree_get [] m sel) = {e \<in> ents m. fst e = sel}"
    using d by (auto simp: btree_get_def ents_def image_iff split: option.splits
        dest: map_of_SomeD weak_map_of_SomeI intro: map_of_is_SomeI)
  show "sorted_wrt (<) (btree_get [] m sel)"
    using assms by (auto simp: btree_get_def ents_ok_def split: option.splits dest: map_of_SomeD)
qed

lemma insort_strict: "sorted_wrt (<) vs \<Longrightarrow> sorted_wrt (<) (insort_insert v vs)" for v :: string
  by (simp add: strict_sorted_iff sorted_insort_insert distinct_insort_insert)

lemma set_extend_set: "set (set_extend new vs) = set new \<union> set vs"
  by (induction new arbitrary: vs) (auto simp: set_extend_def set_insort_insert)

lemma set_extend_strict: "sorted_wrt (<) vs \<Longrightarrow> sorted_wrt (<) (set_extend new vs)"
  by (induction new arbitrary: vs) (auto simp: set_extend_def insort_strict)

lemma store_pair_ents:
  assumes "ents_ok (in_entities inc)" and "store_pair limit pair (stored, inc) = (stored', inc')"
  shows "ents_ok (in_entities inc')" and "in_id inc' = in_id inc"
    and "\<exists>new. stored' = stored @ new \<and> set new \<subseteq> {pair}
      \<and> ents (in_entities inc') = ents (in_entities inc) \<union> set new"
proof -
  obtain sel v where p: "pair = (sel, v)" by fastforce
  let ?vs = "btree_get [] (in_entities inc) sel"
  note g = get_ents [OF assms(1), of sel]
  have e: "ents (btree_insert sel vs' (in_entities inc)) = ents (in_entities inc) \<union> Pair sel ` set vs'"
    if "set ?vs \<subseteq> set vs'" for vs'
    unfolding ents_insert [OF assms(1)] using that g(1) by auto
  show "ents_ok (in_entities inc')" "in_id inc' = in_id inc"
    using assms g(2) insort_strict [OF g(2)]
    by (auto simp: store_pair_def p Let_def ents_ok_insert split: if_splits)
  have "ents (btree_insert sel (insort_insert v ?vs) (in_entities inc)) = ents (in_entities inc) \<union> {(sel, v)}"
    using e [of "insort_insert v ?vs"] g(1) by (auto simp: set_insort_insert)
  moreover have "ents (btree_insert sel ?vs (in_entities inc)) = ents (in_entities inc)"
    using e [of ?vs] g(1) by auto
  ultimately show "\<exists>new. stored' = stored @ new \<and> set new \<subseteq> {pair}
      \<and> ents (in_entities inc') = ents (in_entities inc) \<union> set new"
    using assms(2) by (auto simp: store_pair_def p Let_def split: if_splits)
qed

lemma store_pairs_ents:
  "ents_ok (in_entities inc) \<Longrightarrow> fold (store_pair limit) pairs (stored, inc) = (stored', inc') \<Longrightarrow>
   ents_ok (in_entities inc') \<and> in_id inc' = in_id inc
   \<and> (\<exists>new. stored' = stored @ new \<and> set new \<subseteq> set pairs
        \<and> ents (in_entities inc') = ents (in_entities inc) \<union> set new)"
proof (induction pairs arbitrary: stored inc)
  case (Cons p pairs)
  obtain s1 i1 where s: "store_pair limit p (stored, inc) = (s1, i1)" by fastforce
  from Cons.IH [of i1 s1] Cons.prems s store_pair_ents [OF Cons.prems(1) s]
  show ?case by fastforce
qed auto

lemma victim_ents:
  assumes "ents_ok (in_entities inc)"
  shows "ents_ok (in_entities (absorb_victim limit victim inc))"
    and "ents (in_entities (absorb_victim limit victim inc)) = ents (in_entities inc) \<union> ents (in_entities victim)"
    and "in_id (absorb_victim limit victim inc) = in_id inc"
proof -
  have "ents_ok (fold (\<lambda>(sel, vs) m. btree_insert sel (set_extend vs (btree_get [] m sel)) m) es m)
    \<and> ents (fold (\<lambda>(sel, vs) m. btree_insert sel (set_extend vs (btree_get [] m sel)) m) es m) = ents m \<union> ents es"
    if "ents_ok m" for es m
    using that
  proof (induction es arbitrary: m)
    case (Cons e es)
    obtain sel vs where e: "e = (sel, vs)" by fastforce
    let ?m = "btree_insert sel (set_extend vs (btree_get [] m sel)) m"
    note g = get_ents [OF Cons.prems, of sel]
    have ok: "ents_ok ?m" by (rule ents_ok_insert [OF Cons.prems set_extend_strict [OF g(2)]])
    have "ents ?m = ents m \<union> Pair sel ` set vs"
      unfolding ents_insert [OF Cons.prems] set_extend_set using g(1) by auto
    moreover have "ents (e # es) = Pair sel ` set vs \<union> ents es" by (auto simp: ents_def e)
    ultimately show ?case using Cons.IH [OF ok] by (auto simp: e)
  qed simp
  from this [OF assms, of "in_entities victim"]
  show "ents_ok (in_entities (absorb_victim limit victim inc))"
    "ents (in_entities (absorb_victim limit victim inc)) = ents (in_entities inc) \<union> ents (in_entities victim)"
    by (simp_all add: absorb_victim_def)
qed (simp add: absorb_victim_def)

section \<open>The index invariant\<close>

definition incidents_ok :: "(string \<times> incident) list \<Rightarrow> bool" where
  "incidents_ok incs \<longleftrightarrow>
     distinct (map fst incs) \<and> (\<forall>(i, inc) \<in> set incs. in_id inc = i \<and> ents_ok (in_entities inc))"

definition owner :: "(string \<times> incident) list \<Rightarrow> entity \<Rightarrow> string \<Rightarrow> bool" where
  "owner incs e i \<longleftrightarrow> (\<exists>inc. map_of incs i = Some inc \<and> e \<in> ents (in_entities inc))"

definition store_wf :: "incident_store \<Rightarrow> bool" where
  "store_wf st \<longleftrightarrow>
     incidents_ok (st_incidents st)
     \<and> (\<forall>e i. map_of (st_entity_index st) e = Some i \<longleftrightarrow> owner (st_incidents st) e i)
     \<and> (\<forall>e. map_of (st_value_counts st) e \<noteq> None \<longrightarrow> map_of (st_entity_index st) e \<noteq> None)"

lemma incidents_okD:
  assumes "incidents_ok incs" and "map_of incs i = Some inc"
  shows "in_id inc = i" "ents_ok (in_entities inc)"
  using assms by (auto simp: incidents_ok_def dest: map_of_SomeD)

lemma incidents_ok_insert:
  "incidents_ok incs \<Longrightarrow> in_id inc = i \<Longrightarrow> ents_ok (in_entities inc) \<Longrightarrow> incidents_ok (map_insert i inc incs)"
  using set_map_insert [of i inc incs] by (fastforce simp: incidents_ok_def distinct_map_insert)

lemma set_map_remove: "set (map_remove i incs) \<subseteq> set incs"
  by (auto simp: map_remove_def)

lemma incidents_ok_remove: "incidents_ok incs \<Longrightarrow> incidents_ok (map_remove i incs)"
  using set_map_remove [of i incs] by (fastforce simp: incidents_ok_def distinct_map_remove)

lemma store_wfD:
  assumes "store_wf st"
  shows "incidents_ok (st_incidents st)"
    and "map_of (st_entity_index st) e = Some i \<longleftrightarrow> owner (st_incidents st) e i"
    and "map_of (st_value_counts st) e \<noteq> None \<Longrightarrow> map_of (st_entity_index st) e \<noteq> None"
  using assms unfolding store_wf_def by blast+

lemma store_wf_frame:
  assumes "store_wf st" and "incidents_ok incs"
    and "\<And>e k. owner incs e k \<longleftrightarrow> owner (st_incidents st) e k"
  shows "store_wf (st \<lparr> st_incidents := incs \<rparr>)"
  unfolding store_wf_def
  by (intro conjI allI; use assms in \<open>simp add: store_wfD(2,3) del: not_None_eq\<close>)

lemma store_wf_empty: "store_wf incident_store_empty"
  by (simp add: store_wf_def incident_store_empty_def incidents_ok_def owner_def)

text \<open>Touching finds the owners, in a well-formed store without a stale entry.\<close>

lemma touch_pair_wf:
  assumes "store_wf st" and "distinct touched"
  shows "\<exists>t. touch_pair pair (touched, st) = (t, st) \<and> distinct t
    \<and> set t = set touched \<union> {i. map_of (st_entity_index st) pair = Some i}"
proof (cases "map_of (st_entity_index st) pair")
  case (Some i)
  then have "map_of (st_incidents st) i \<noteq> None"
    using store_wfD(2) [OF assms(1)] by (auto simp: owner_def)
  with Some assms(2) show ?thesis by (auto simp: touch_pair_def)
qed (use assms(2) in \<open>simp add: touch_pair_def\<close>)

lemma touch_pairs_wf:
  "store_wf st \<Longrightarrow> distinct touched \<Longrightarrow>
   \<exists>t. fold touch_pair pairs (touched, st) = (t, st) \<and> distinct t
     \<and> set t = set touched \<union> {i. \<exists>p \<in> set pairs. map_of (st_entity_index st) p = Some i}"
proof (induction pairs arbitrary: touched)
  case (Cons p pairs)
  from touch_pair_wf [OF Cons.prems] obtain t where
    t: "touch_pair p (touched, st) = (t, st)" "distinct t"
      "set t = set touched \<union> {i. map_of (st_entity_index st) p = Some i}" by blast
  from Cons.IH [OF Cons.prems(1) t(2)] t show ?case by auto
qed simp

lemma index_repoint: "map_of (fold (\<lambda>e m. map_insert e i m) es m) e = (if e \<in> set es then Some i else map_of m e)"
  by (induction es arbitrary: m) auto

text \<open>Merging: the survivor takes over what the victim stored.\<close>

lemma merge_wf:
  assumes wf: "store_wf st" and open': "map_of (st_incidents st) survivor \<noteq> None"
    "map_of (st_incidents st) other \<noteq> None" and ne: "survivor \<noteq> other"
  shows "store_wf (merge_incidents survivor limit other st)"
    and "map_of (st_incidents (merge_incidents survivor limit other st)) j \<noteq> None
      \<longleftrightarrow> j \<noteq> other \<and> map_of (st_incidents st) j \<noteq> None"
    and "map_of (st_entity_index (merge_incidents survivor limit other st)) e
      = (if map_of (st_entity_index st) e = Some other then Some survivor else map_of (st_entity_index st) e)"
proof -
  obtain inc victim where i: "map_of (st_incidents st) survivor = Some inc"
    and v: "map_of (st_incidents st) other = Some victim" using open' by blast
  let ?st = "merge_incidents survivor limit other st" and ?inc = "absorb_victim limit victim inc"
  note ok = store_wfD(1) [OF wf] and index = store_wfD(2) [OF wf]
  note ents = victim_ents [OF incidents_okD(2) [OF ok i], of limit victim]
  have incs: "st_incidents ?st = map_insert survivor ?inc (map_remove other (st_incidents st))"
    and ix: "st_entity_index ?st = fold (\<lambda>e m. map_insert e survivor m) (entities_of victim) (st_entity_index st)"
    and counts: "st_value_counts ?st = st_value_counts st"
    using i v ne by (simp_all add: merge_incidents_def Let_def)
  have own: "e \<in> ents (in_entities victim) \<longleftrightarrow> map_of (st_entity_index st) e = Some other" for e
    using index v by (auto simp: owner_def)
  show ixm: "map_of (st_entity_index ?st) e
      = (if map_of (st_entity_index st) e = Some other then Some survivor else map_of (st_entity_index st) e)" for e
    by (simp add: ix index_repoint set_entities_of own)
  show "map_of (st_incidents ?st) j \<noteq> None \<longleftrightarrow> j \<noteq> other \<and> map_of (st_incidents st) j \<noteq> None"
    using ne i by (auto simp: incs)
  have "incidents_ok (st_incidents ?st)"
    unfolding incs using ents incidents_okD(1) [OF ok i]
    by (intro incidents_ok_insert incidents_ok_remove ok) simp_all
  moreover have "map_of (st_entity_index ?st) e = Some k \<longleftrightarrow> owner (st_incidents ?st) e k" for e k
  proof (cases "k = survivor")
    case True
    then show ?thesis
      using index [of e survivor] i own [of e] ents(2) by (auto simp: ixm incs owner_def)
  next
    case False
    then show ?thesis using index [of e k] index [of e other] by (auto simp: ixm incs owner_def)
  qed
  moreover have "map_of (st_entity_index ?st) e \<noteq> None" if "map_of (st_value_counts ?st) e \<noteq> None" for e
    using store_wfD(3) [OF wf, of e] that by (simp add: counts ixm)
  ultimately show "store_wf ?st" by (simp add: store_wf_def)
qed

lemma merges_wf:
  "store_wf st \<Longrightarrow> map_of (st_incidents st) survivor \<noteq> None \<Longrightarrow>
   \<forall>o' \<in> set others. map_of (st_incidents st) o' \<noteq> None \<Longrightarrow> distinct others \<Longrightarrow> survivor \<notin> set others \<Longrightarrow>
   store_wf (fold (merge_incidents survivor limit) others st)
   \<and> map_of (st_incidents (fold (merge_incidents survivor limit) others st)) survivor \<noteq> None
   \<and> (\<forall>e. map_of (st_entity_index (fold (merge_incidents survivor limit) others st)) e
        = (case map_of (st_entity_index st) e of Some i \<Rightarrow> Some (if i \<in> set others then survivor else i)
           | None \<Rightarrow> None))"
proof (induction others arbitrary: st)
  case Nil
  then show ?case by (auto split: option.split)
next
  case (Cons other others)
  have ne: "survivor \<noteq> other" and o': "map_of (st_incidents st) other \<noteq> None" using Cons.prems by auto
  note m = merge_wf [OF Cons.prems(1,2) o' ne, where limit = limit]
  let ?st = "merge_incidents survivor limit other st"
  have "store_wf (fold (merge_incidents survivor limit) others ?st)
   \<and> map_of (st_incidents (fold (merge_incidents survivor limit) others ?st)) survivor \<noteq> None
   \<and> (\<forall>e. map_of (st_entity_index (fold (merge_incidents survivor limit) others ?st)) e
        = (case map_of (st_entity_index ?st) e of Some i \<Rightarrow> Some (if i \<in> set others then survivor else i)
           | None \<Rightarrow> None))"
    using Cons.prems m(2) ne by (intro Cons.IH m(1)) auto
  then show ?case using Cons.prems(4,5) by (auto simp: m(3) split: option.splits)
qed

text \<open>Absorbing a result: its join keys belong to no other incident.\<close>

lemma absorb_frame [simp]:
  "in_id (absorb al cfg r now inc) = in_id inc" "in_entities (absorb al cfg r now inc) = in_entities inc"
  by (simp_all add: absorb_def Let_def split: include_mode.split)

lemma register_pairs:
  "st_incidents (fold (register_pair i) ps st) = st_incidents st"
  "map_of (st_entity_index (fold (register_pair i) ps st)) e
     = (if e \<in> set ps then Some i else map_of (st_entity_index st) e)"
  "map_of (st_value_counts (fold (register_pair i) ps st)) e \<noteq> None
     \<longleftrightarrow> e \<in> set ps \<or> map_of (st_value_counts st) e \<noteq> None"
  by (induction ps arbitrary: st) (auto simp: register_pair_def)

lemma absorb_into_wf:
  assumes wf: "store_wf st" and i: "map_of (st_incidents st) i \<noteq> None"
    and free: "\<And>p k. p \<in> set pairs \<Longrightarrow> map_of (st_entity_index st) p = Some k \<Longrightarrow> k = i"
  shows "store_wf (absorb_into al cfg r now pairs i st)"
proof -
  obtain inc where inc: "map_of (st_incidents st) i = Some inc" using i by blast
  obtain stored inc' where s: "fold (store_pair (cp_max_entities_per_incident (gc_caps cfg))) pairs ([], inc)
      = (stored, inc')" by fastforce
  note ok = store_wfD(1) [OF wf] and index = store_wfD(2) [OF wf]
  from store_pairs_ents [OF incidents_okD(2) [OF ok inc] s] incidents_okD(1) [OF ok inc]
  have e: "ents_ok (in_entities inc')" "in_id inc' = i" "set stored \<subseteq> set pairs"
    "ents (in_entities inc') = ents (in_entities inc) \<union> set stored" by auto
  let ?st = "absorb_into al cfg r now pairs i st"
  have incs: "st_incidents ?st = map_insert i (absorb al cfg r now inc') (st_incidents st)"
    and ix: "map_of (st_entity_index ?st) e
      = (if e \<in> set stored then Some i else map_of (st_entity_index st) e)"
    and counts: "map_of (st_value_counts ?st) e \<noteq> None
      \<longleftrightarrow> e \<in> set stored \<or> map_of (st_value_counts st) e \<noteq> None" for e
    by (simp_all add: absorb_into_def inc s register_pairs del: not_None_eq)
  have "incidents_ok (st_incidents ?st)"
    unfolding incs by (rule incidents_ok_insert) (simp_all add: ok e)
  moreover have "map_of (st_entity_index ?st) e = Some k \<longleftrightarrow> owner (st_incidents ?st) e k" for e k
  proof (cases "k = i")
    case True
    then show ?thesis using index [of e i] inc by (auto simp: ix incs owner_def e(4))
  next
    case False
    have "\<not> owner (st_incidents st) e k" if "e \<in> set stored"
      using index [of e k] free [of e k] that e(3) False by blast
    with False show ?thesis using index [of e k] by (auto simp: ix incs owner_def)
  qed
  moreover have "map_of (st_entity_index ?st) e \<noteq> None" if "map_of (st_value_counts ?st) e \<noteq> None" for e
    using store_wfD(3) [OF wf, of e] that by (cases "e \<in> set stored") (simp_all add: counts ix del: not_None_eq)
  ultimately show ?thesis by (simp add: store_wf_def)
qed

lemma new_incident_wf:
  assumes wf: "store_wf st" and new: "map_of (st_incidents st) i = None"
    and inc: "in_id inc = i" "in_entities inc = []"
  shows "store_wf (st \<lparr> st_incidents := map_insert i inc (st_incidents st) \<rparr>)"
  unfolding store_wf_def
proof (intro conjI allI)
  show "incidents_ok (st_incidents (st\<lparr>st_incidents := map_insert i inc (st_incidents st)\<rparr>))"
    using incidents_ok_insert [OF store_wfD(1) [OF wf] inc(1)] by (simp add: inc(2))
  fix e k
  show "map_of (st_entity_index (st\<lparr>st_incidents := map_insert i inc (st_incidents st)\<rparr>)) e = Some k
      \<longleftrightarrow> owner (st_incidents (st\<lparr>st_incidents := map_insert i inc (st_incidents st)\<rparr>)) e k"
    using store_wfD(2) [OF wf, of e k] new inc by (auto simp: owner_def)
qed (use store_wfD(3) [OF wf] in auto)

lemma group_by_wf:
  assumes wf: "store_wf st"
  shows "store_wf (snd (assign_group_by al cfg r now st))"
proof -
  obtain i key where f: "group_fingerprint al (gc_by cfg) r = (i, key)" by fastforce
  note ok = store_wfD(1) [OF wf] and index = store_wfD(2) [OF wf]
  show ?thesis
  proof (cases "map_of (st_incidents st) i")
    case None
    then show ?thesis
      using new_incident_wf [OF wf None] by (simp add: assign_group_by_def f wf incident_new_def)
  next
    case (Some inc)
    let ?st = "st\<lparr>st_incidents := map_insert i (absorb al cfg r now inc) (st_incidents st)\<rparr>"
    have "incidents_ok (map_insert i (absorb al cfg r now inc) (st_incidents st))"
      using incidents_okD [OF ok Some] by (intro incidents_ok_insert ok) simp_all
    then have "store_wf ?st"
      by (rule store_wf_frame [OF wf]) (use Some in \<open>auto simp: owner_def\<close>)
    then show ?thesis by (simp add: assign_group_by_def f Some)
  qed
qed

text \<open>A new UUID is none of those in use.\<close>

definition fresh_uuid_law :: "alert_env \<Rightarrow> bool" where
  "fresh_uuid_law al \<longleftrightarrow> (\<forall>used. al_uuid al used \<notin> set used)"

lemma entity_graph_wf:
  assumes wf: "store_wf st" and law: "fresh_uuid_law al"
  shows "store_wf (snd (assign_entity_graph al cfg r now st))"
proof -
  let ?pairs = "join_pairs al cfg r st"
  from touch_pairs_wf [OF wf, of "[]" ?pairs] obtain touched where
    t: "fold touch_pair ?pairs ([], st) = (touched, st)" "distinct touched"
      "set touched = {i. \<exists>p \<in> set ?pairs. map_of (st_entity_index st) p = Some i}" by auto
  have open': "map_of (st_incidents st) i \<noteq> None" if "i \<in> set touched" for i
    using that store_wfD(2) [OF wf] by (auto simp: t(3) owner_def)
  show ?thesis
  proof (cases touched)
    case Nil
    let ?i = "al_uuid al (map fst (st_incidents st))"
    let ?st = "st \<lparr> st_incidents := map_insert ?i (incident_new ?i now []) (st_incidents st) \<rparr>"
    have new: "map_of (st_incidents st) ?i = None"
      using law unfolding fresh_uuid_law_def map_of_eq_None_iff by (simp del: set_map add: set_map [symmetric])
    have "store_wf ?st" by (rule new_incident_wf [OF wf new]) (simp_all add: incident_new_def)
    then have "store_wf (absorb_into al cfg r now ?pairs ?i ?st)"
      by (rule absorb_into_wf) (use t(3) Nil in auto)
    then show ?thesis by (simp add: assign_entity_graph_def t(1) Nil Let_def wf)
  next
    case (Cons survivor others)
    let ?st = "fold (merge_incidents survivor (cp_max_results_per_incident (gc_caps cfg))) others st"
    have m: "store_wf ?st \<and> map_of (st_incidents ?st) survivor \<noteq> None
      \<and> (\<forall>e. map_of (st_entity_index ?st) e = (case map_of (st_entity_index st) e of
           Some i \<Rightarrow> Some (if i \<in> set others then survivor else i) | None \<Rightarrow> None))"
      using open' t(2) by (intro merges_wf wf) (auto simp: Cons)
    have free: "k = survivor" if p: "p \<in> set ?pairs" "map_of (st_entity_index ?st) p = Some k" for p k
    proof -
      have "(case map_of (st_entity_index st) p of
           Some i \<Rightarrow> Some (if i \<in> set others then survivor else i) | None \<Rightarrow> None) = Some k"
        using m p(2) by metis
      then obtain i where i: "map_of (st_entity_index st) p = Some i"
        "k = (if i \<in> set others then survivor else i)"
        by (cases "map_of (st_entity_index st) p") simp_all
      moreover have "i \<in> set touched" using p(1) i(1) t(3) by blast
      ultimately show ?thesis by (simp add: Cons split: if_splits)
    qed
    have "store_wf (absorb_into al cfg r now ?pairs survivor ?st)"
      by (rule absorb_into_wf) (use m free in blast)+
    then show ?thesis by (simp add: assign_entity_graph_def t(1) Cons Let_def)
  qed
qed

text \<open>Removing incidents together with what the index says of them.\<close>

lemma forget_value_simps [simp]:
  "st_incidents (forget_value i k st) = st_incidents st"
  "map_of (st_entity_index (forget_value i k st)) e
     = (if e = k \<and> map_of (st_entity_index st) e = Some i then None else map_of (st_entity_index st) e)"
  "map_of (st_value_counts (forget_value i k st)) e
     = (if e = k \<and> map_of (st_entity_index st) e = Some i then None else map_of (st_value_counts st) e)"
  by (auto simp: forget_value_def)

lemma forgotten: "map_of (fold map_remove es m) e = (if e \<in> set es then None else map_of m e)"
  by (induction es arbitrary: m) auto

lemma ticked_incident:
  "snd (tick_incident cfg now inc) = Some inc' \<Longrightarrow> in_entities inc' = in_entities inc \<and> in_id inc' = in_id inc"
  by (auto simp: tick_incident_def Let_def split: if_splits)

lemma incidents_ok_retain:
  assumes "incidents_ok incs" and "\<And>i inc inc'. f i inc = Some inc' \<Longrightarrow> in_entities inc' = in_entities inc \<and> in_id inc' = in_id inc"
  shows "incidents_ok (map_retain f incs)"
  using assms by (fastforce simp: incidents_ok_def distinct_map_retain set_map_retain)

lemma tick_wf:
  assumes wf: "store_wf st"
  shows "store_wf (snd (incident_tick cfg now st))"
proof -
  let ?f = "\<lambda>_ :: string. \<lambda>inc. snd (tick_incident cfg now inc)"
  let ?es = "concat (map (\<lambda>(_, inc). entities_of inc)
    (filter (\<lambda>(_, inc). snd (tick_incident cfg now inc) = None) (st_incidents st)))"
  let ?st = "snd (incident_tick cfg now st)"
  note ok = store_wfD(1) [OF wf] and index = store_wfD(2) [OF wf]
  have d: "distinct (map fst (st_incidents st))" using ok by (simp add: incidents_ok_def)
  have incs: "st_incidents ?st = map_retain ?f (st_incidents st)"
    and ix: "map_of (st_entity_index ?st) e = (if e \<in> set ?es then None else map_of (st_entity_index st) e)"
    and counts: "map_of (st_value_counts ?st) e = (if e \<in> set ?es then None else map_of (st_value_counts st) e)" for e
    by (simp_all add: incident_tick_def forget_entities_def forgotten)
  have es: "e \<in> set ?es \<longleftrightarrow> (\<exists>i. owner (st_incidents st) e i
      \<and> snd (tick_incident cfg now (the (map_of (st_incidents st) i))) = None)" for e
    using d by (force simp: set_entities_of owner_def)
  have "incidents_ok (st_incidents ?st)"
    unfolding incs by (rule incidents_ok_retain [OF ok]) (rule ticked_incident)
  moreover have "owner (st_incidents ?st) e k \<longleftrightarrow> owner (st_incidents st) e k
      \<and> snd (tick_incident cfg now (the (map_of (st_incidents st) k))) \<noteq> None" for e k
    using d ticked_incident by (cases "map_of (st_incidents st) k") (fastforce simp: incs owner_def map_of_map_retain)+
  moreover have "map_of (st_entity_index ?st) e = Some k \<longleftrightarrow> owner (st_incidents st) e k
      \<and> snd (tick_incident cfg now (the (map_of (st_incidents st) k))) \<noteq> None" for e k
    unfolding ix es index [symmetric] by auto
  moreover have "map_of (st_entity_index ?st) e \<noteq> None" if "map_of (st_value_counts ?st) e \<noteq> None" for e
    using store_wfD(3) [OF wf, of e] that by (auto simp: counts ix split: if_splits)
  ultimately show ?thesis by (simp add: store_wf_def)
qed

lemma forget_values:
  "st_incidents (fold (forget_value i) es st) = st_incidents st"
  "map_of (st_entity_index (fold (forget_value i) es st)) e
     = (if e \<in> set es \<and> map_of (st_entity_index st) e = Some i then None else map_of (st_entity_index st) e)"
  "map_of (st_value_counts (fold (forget_value i) es st)) e
     = (if e \<in> set es \<and> map_of (st_entity_index st) e = Some i then None else map_of (st_value_counts st) e)"
  by (induction es arbitrary: st) auto

lemma evict_wf:
  assumes wf: "store_wf st"
  shows "store_wf (evict_incident i st)"
proof (cases "map_of (st_incidents st) i")
  case (Some inc)
  note ok = store_wfD(1) [OF wf] and index = store_wfD(2) [OF wf]
  have "e \<in> set (entities_of inc) \<longleftrightarrow> map_of (st_entity_index st) e = Some i" for e
    using index Some by (auto simp: set_entities_of owner_def)
  then have ix: "map_of (st_entity_index (evict_incident i st)) e
      = (if map_of (st_entity_index st) e = Some i then None else map_of (st_entity_index st) e)"
    and counts: "map_of (st_value_counts (evict_incident i st)) e
      = (if map_of (st_entity_index st) e = Some i then None else map_of (st_value_counts st) e)" for e
    by (simp_all add: evict_incident_def Some forget_values)
  have incs: "st_incidents (evict_incident i st) = map_remove i (st_incidents st)"
    by (simp add: evict_incident_def Some forget_values)
  have "map_of (st_entity_index (evict_incident i st)) e = Some k
      \<longleftrightarrow> owner (st_incidents (evict_incident i st)) e k" for e k
    using index [of e k] by (auto simp: ix incs owner_def)
  moreover have "map_of (st_entity_index (evict_incident i st)) e \<noteq> None"
    if "map_of (st_value_counts (evict_incident i st)) e \<noteq> None" for e
    using store_wfD(3) [OF wf, of e] that by (auto simp: ix counts split: if_splits)
  ultimately show ?thesis by (simp add: store_wf_def incs incidents_ok_remove [OF ok])
qed (simp add: evict_incident_def wf)

lemma ents_cut:
  assumes "ents_ok (in_entities inc)"
  shows "ents_ok (in_entities (cut_incident cp inc))"
    and "ents (in_entities (cut_incident cp inc)) = ents (in_entities inc) - set (cut_values cp inc)"
proof -
  let ?n = "cp_max_entities_per_incident cp"
  have d: "distinct (map fst (in_entities inc))" and s: "\<And>sel vs. (sel, vs) \<in> set (in_entities inc) \<Longrightarrow> sorted_wrt (<) vs"
    using assms by (auto simp: ents_ok_def strict_sorted_iff)
  show "ents_ok (in_entities (cut_incident cp inc))"
    using assms s by (auto simp: ents_ok_def cut_incident_def sorted_wrt_take comp_def case_prod_unfold)
  have part: "v \<in> set (take ?n vs) \<longleftrightarrow> v \<in> set vs \<and> v \<notin> set (drop ?n vs)"
    if "(sel, vs) \<in> set (in_entities inc)" for sel vs v
  proof -
    have "distinct vs" using s [OF that] by (simp add: strict_sorted_iff)
    then have "set (take ?n vs) \<inter> set (drop ?n vs) = {}" by (simp add: set_take_disj_set_drop_if_distinct)
    moreover have "set vs = set (take ?n vs) \<union> set (drop ?n vs)"
      by (metis append_take_drop_id set_append)
    ultimately show ?thesis by blast
  qed
  have uniq: "vs = vs'" if "(sel, vs) \<in> set (in_entities inc)" "(sel, vs') \<in> set (in_entities inc)" for sel vs vs'
    using d that by (simp add: eq_key_imp_eq_value)
  have kept: "(sel, v) \<in> ents (in_entities (cut_incident cp inc))
      \<longleftrightarrow> (\<exists>vs. (sel, vs) \<in> set (in_entities inc) \<and> v \<in> set (take ?n vs))" for sel v
    by (force simp: ents_def cut_incident_def)
  have cut: "(sel, v) \<in> set (cut_values cp inc)
      \<longleftrightarrow> (\<exists>vs. (sel, vs) \<in> set (in_entities inc) \<and> v \<in> set (drop ?n vs))" for sel v
    by (force simp: cut_values_def)
  have "(sel, v) \<in> ents (in_entities (cut_incident cp inc))
      \<longleftrightarrow> (sel, v) \<in> ents (in_entities inc) \<and> (sel, v) \<notin> set (cut_values cp inc)" for sel v
    unfolding kept cut using part uniq unfolding ents_def by blast
  then show "ents (in_entities (cut_incident cp inc)) = ents (in_entities inc) - set (cut_values cp inc)"
    by auto
qed

text \<open>What the caps leave of the incidents does not depend on the index.\<close>

lemma forget_all:
  "st_incidents (fold (\<lambda>(i, key). forget_value i key) ds st) = st_incidents st"
  "map_of (st_entity_index (fold (\<lambda>(i, key). forget_value i key) ds st)) e
     = (case map_of (st_entity_index st) e of
          Some i \<Rightarrow> if (i, e) \<in> set ds then None else Some i | None \<Rightarrow> None)"
  "map_of (st_value_counts (fold (\<lambda>(i, key). forget_value i key) ds st)) e
     = (case map_of (st_entity_index st) e of
          Some i \<Rightarrow> if (i, e) \<in> set ds then None else map_of (st_value_counts st) e
        | None \<Rightarrow> map_of (st_value_counts st) e)"
proof (induction ds arbitrary: st)
  case (Cons d ds)
  obtain j k where d: "d = (j, k)" by (cases d)
  {
    case 1
    then show ?case by (simp add: d Cons)
  next
    case 2
    then show ?case by (cases "map_of (st_entity_index st) e") (auto simp: d Cons(2))
  next
    case 3
    then show ?case by (cases "map_of (st_entity_index st) e") (auto simp: d Cons(3))
  }
qed (simp_all split: option.split)

lemma map_remove_absent: "map_of m k = None \<Longrightarrow> map_remove k m = m"
  by (auto simp: map_remove_def map_of_eq_None_iff intro!: filter_True)

lemma evict_incidents: "st_incidents (evict_incident i st) = map_remove i (st_incidents st)"
  by (simp add: evict_incident_def forget_values map_remove_absent split: option.split)

lemma evictions:
  "st_incidents (fold evict_incident ks st) = fold map_remove ks (st_incidents st)"
  "store_wf st \<Longrightarrow> store_wf (fold evict_incident ks st)"
  by (induction ks arbitrary: st) (simp_all add: evict_incidents evict_wf)

definition capped :: "caps \<Rightarrow> (string \<times> incident) list \<Rightarrow> (string \<times> incident) list" where
  "capped cp incs =
     map (\<lambda>(i, inc). (i, cut_incident cp inc))
       (fold map_remove
         (oldest_keys (length incs - cp_max_open_incidents cp) (map (\<lambda>(_, inc). (in_last_seen inc, in_id inc)) incs))
         incs)"

lemma caps_incidents: "st_incidents (snd (incident_enforce_caps cp st)) = capped cp (st_incidents st)"
  by (simp add: incident_enforce_caps_def Let_def capped_def forget_all evictions oldest_keys_def)

lemma owner_cut:
  assumes "incidents_ok incs"
  shows "owner (map (\<lambda>(i, inc). (i, cut_incident cp inc)) incs) e i
    \<longleftrightarrow> owner incs e i \<and> e \<notin> set (cut_values cp (the (map_of incs i)))"
proof -
  have "map_of (map (\<lambda>(i, inc). (i, cut_incident cp inc)) incs) i = map_option (cut_incident cp) (map_of incs i)"
    by (simp add: map_of_map)
  then show ?thesis using incidents_okD(2) [OF assms] by (auto simp: owner_def ents_cut)
qed

lemma caps_wf:
  assumes "store_wf st"
  shows "store_wf (snd (incident_enforce_caps cp st))"
proof -
  let ?old = "oldest_keys (length (st_incidents st) - cp_max_open_incidents cp)
    (map (\<lambda>(_, inc). (in_last_seen inc, in_id inc)) (st_incidents st))"
  define st1 where "st1 = fold evict_incident ?old st"
  have wf: "store_wf st1" unfolding st1_def by (rule evictions(2) [OF assms])
  note ok = store_wfD(1) [OF wf] and index = store_wfD(2) [OF wf]
  let ?incs = "map (\<lambda>(i, inc). (i, cut_incident cp inc)) (st_incidents st1)"
  define ds where "ds = concat (map (\<lambda>(_, inc). map (Pair (in_id inc)) (cut_values cp inc)) (st_incidents st1))"
  let ?st = "fold (\<lambda>(i, key). forget_value i key) ds (st1 \<lparr> st_incidents := ?incs \<rparr>)"
  have st: "snd (incident_enforce_caps cp st) = ?st"
    by (simp add: incident_enforce_caps_def Let_def st1_def oldest_keys_def ds_def)
  have d: "distinct (map fst (st_incidents st1))" and ids: "\<And>i inc. (i, inc) \<in> set (st_incidents st1) \<Longrightarrow> in_id inc = i"
    using ok by (auto simp: incidents_ok_def)
  have dropped: "(i, e) \<in> set ds \<longleftrightarrow> (\<exists>inc. map_of (st_incidents st1) i = Some inc \<and> e \<in> set (cut_values cp inc))"
    for i e unfolding ds_def using d ids by force
  have "incidents_ok ?incs"
    using ok by (auto simp: incidents_ok_def comp_def case_prod_unfold ents_cut) (auto simp: cut_incident_def)
  moreover have "map_of (st_entity_index ?st) e = Some i \<longleftrightarrow> owner ?incs e i" for e i
    unfolding owner_cut [OF ok] index [symmetric]
    using index [of e i] by (auto simp: forget_all dropped owner_def split: option.splits)
  moreover have "map_of (st_entity_index ?st) e \<noteq> None" if "map_of (st_value_counts ?st) e \<noteq> None" for e
    using store_wfD(3) [OF wf, of e] that by (auto simp: forget_all split: option.splits if_splits)
  ultimately show ?thesis unfolding st by (simp add: store_wf_def forget_all)
qed

section \<open>Restart\<close>

definition incidents_unique :: "(string \<times> incident) list \<Rightarrow> bool" where
  "incidents_unique incs \<longleftrightarrow> incidents_ok incs \<and> (\<forall>e i j. owner incs e i \<longrightarrow> owner incs e j \<longrightarrow> i = j)"

lemma store_wf_unique: "store_wf st \<Longrightarrow> incidents_unique (st_incidents st)"
  unfolding incidents_unique_def store_wf_def by (metis option.inject)

definition index_of :: "(string \<times> incident) list \<Rightarrow> (entity \<times> string) list \<Rightarrow> (entity \<times> string) list" where
  "index_of incs m = fold (\<lambda>(_, inc) m. fold (\<lambda>e. map_insert e (in_id inc)) (entities_of inc) m) incs m"

lemma index_of_map:
  "map_of (index_of incs m) e = Some i \<Longrightarrow>
     (\<exists>(j, inc) \<in> set incs. e \<in> ents (in_entities inc) \<and> in_id inc = i) \<or> map_of m e = Some i"
  "(\<exists>(j, inc) \<in> set incs. e \<in> ents (in_entities inc)) \<or> map_of m e \<noteq> None \<Longrightarrow> map_of (index_of incs m) e \<noteq> None"
proof (induction incs arbitrary: m)
  case (Cons p incs)
  obtain j inc where p: "p = (j, inc)" by (cases p)
  {
    case 1
    from Cons(1) [OF 1 [unfolded index_of_def fold_Cons comp_def, folded index_of_def]]
    show ?case by (auto simp: p index_repoint set_entities_of split: if_splits)
  next
    case 2
    then show ?case
      using Cons(2) [of "fold (\<lambda>e. map_insert e (in_id inc)) (entities_of inc) m"]
      by (auto simp: index_of_def p index_repoint set_entities_of)
  }
qed (simp_all add: index_of_def)

lemma index_of_exact:
  assumes "incidents_unique incs"
  shows "map_of (index_of incs []) e = Some i \<longleftrightarrow> owner incs e i"
proof -
  have ok: "incidents_ok incs" and d: "distinct (map fst incs)"
    using assms by (auto simp: incidents_unique_def incidents_ok_def)
  have "owner incs e k" if "map_of (index_of incs []) e = Some k" for k
    using index_of_map(1) [OF that] ok d by (fastforce simp: owner_def incidents_ok_def)
  moreover have "map_of (index_of incs []) e \<noteq> None" if "owner incs e i"
    by (rule index_of_map(2)) (use that in \<open>auto simp: owner_def dest: map_of_SomeD\<close>)
  ultimately show ?thesis using assms unfolding incidents_unique_def by blast
qed

lemma rebuilt_wf:
  assumes "incidents_unique incs"
  shows "store_wf \<lparr> st_incidents = incs, st_entity_index = index_of incs [], st_value_counts = [] \<rparr>"
  using assms by (simp add: store_wf_def index_of_exact incidents_unique_def)

lemma capped_unique: "incidents_unique incs \<Longrightarrow> incidents_unique (capped cp incs)"
  using store_wf_unique [OF caps_wf [OF rebuilt_wf]] by (simp add: caps_incidents)

text \<open>With an empty index there is nothing to forget.\<close>

lemma forget_unindexed: "st_entity_index st = [] \<Longrightarrow> forget_value i e st = st"
  by (simp add: forget_value_def)

lemma evict_unindexed:
  "st_entity_index st = [] \<Longrightarrow>
   st_entity_index (fold evict_incident ks st) = [] \<and> st_value_counts (fold evict_incident ks st) = st_value_counts st"
proof (induction ks arbitrary: st)
  case (Cons i ks)
  have "fold (forget_value i) es st' = st'" if "st_entity_index st' = []" for es st'
    using that by (induction es) (simp_all add: forget_unindexed)
  then have "st_entity_index (evict_incident i st) = [] \<and> st_value_counts (evict_incident i st) = st_value_counts st"
    using Cons.prems by (simp add: evict_incident_def split: option.split)
  with Cons.IH [of "evict_incident i st"] show ?case by simp
qed simp

lemma caps_unindexed:
  assumes "st_entity_index st = []"
  shows "st_value_counts (snd (incident_enforce_caps cp st)) = st_value_counts st"
proof -
  have "fold (\<lambda>(i, key). forget_value i key) ds st' = st'" if "st_entity_index st' = []" for ds st'
    using that by (induction ds) (auto simp: forget_unindexed)
  then show ?thesis using evict_unindexed [OF assms] assms by (simp add: incident_enforce_caps_def Let_def)
qed

text \<open>What survives the snapshot, in the order it is read.\<close>

lemma restored_list:
  "distinct (map in_id xs) \<Longrightarrow> fst ` set m \<inter> in_id ` set xs = {} \<Longrightarrow>
   fold (\<lambda>inc m. if P inc then map_insert (in_id inc) inc m else m) xs m
     = m @ map (\<lambda>inc. (in_id inc, inc)) (filter P xs)"
proof (induction xs arbitrary: m)
  case (Cons inc xs)
  then show ?case using map_insert_new [of "in_id inc" m inc] by (auto simp: Cons.IH)
qed simp

lemma export_ids: "incidents_ok incs \<Longrightarrow> map (\<lambda>inc. (in_id inc, inc)) (filter P (map snd incs)) = filter (P \<circ> snd) incs"
  by (induction incs) (auto simp: incidents_ok_def)

lemma owner_filter: "distinct (map fst incs) \<Longrightarrow> owner (filter (P \<circ> snd) incs) e i \<Longrightarrow> owner incs e i"
  by (auto simp: owner_def distinct_map_filter)

lemma filter_unique:
  assumes "incidents_unique incs"
  shows "incidents_unique (filter (P \<circ> snd) incs)"
proof -
  have "incidents_ok (filter (P \<circ> snd) incs)" and d: "distinct (map fst incs)"
    using assms by (auto simp: incidents_unique_def incidents_ok_def distinct_map_filter)
  with assms owner_filter [OF d, of P] show ?thesis unfolding incidents_unique_def by blast
qed

lemma restart_wf:
  assumes "store_wf st"
  shows "store_wf (snd (incident_restore (incidents_export st) now resolve_secs cp incident_store_empty))"
proof -
  let ?P = "\<lambda>inc. sub_i64 now (in_last_seen inc) < resolve_secs"
  let ?incs = "filter (?P \<circ> snd) (st_incidents st)"
  let ?st1 = "incident_store_empty \<lparr> st_incidents := ?incs \<rparr>"
  note u = store_wf_unique [OF assms]
  have ok: "incidents_ok (st_incidents st)" and u': "incidents_unique ?incs"
    using u filter_unique [OF u] by (simp_all add: incidents_unique_def)
  have m: "map in_id (map snd (st_incidents st)) = map fst (st_incidents st)"
    using ok by (auto simp: incidents_ok_def)
  have dist: "distinct (map in_id (map snd (st_incidents st)))" unfolding m using ok by (simp add: incidents_ok_def)
  have l: "fold (\<lambda>inc m. if ?P inc then map_insert (in_id inc) inc m else m) (incidents_export st) [] = ?incs"
    unfolding incidents_export_def restored_list [OF dist, of "[]" ?P, simplified] export_ids [OF ok] ..
  let ?st2 = "snd (incident_enforce_caps cp ?st1)"
  have i2: "st_incidents ?st2 = capped cp ?incs" by (simp add: caps_incidents)
  have c2: "map_of (st_value_counts ?st2) e = None" for e
    by (simp add: caps_unindexed incident_store_empty_def)
  have "snd (incident_restore (incidents_export st) now resolve_secs cp incident_store_empty)
      = ?st2 \<lparr> st_entity_index := index_of (capped cp ?incs) [] \<rparr>"
    using l i2 by (simp add: incident_restore_def incident_store_empty_def index_of_def case_prod_unfold Let_def)
  then show ?thesis
    using index_of_exact [OF capped_unique [OF u'], of cp] capped_unique [OF u', of cp] c2 i2
    by (simp add: store_wf_def incidents_unique_def)
qed

section \<open>Reachable stores\<close>

text \<open>
  What happens to the store of a running daemon: results are assigned and ticks pass, under
  configurations that a reload may change, caps are enforced, and a restart reads back a snapshot.
\<close>

inductive incident_store_reached :: "alert_env \<Rightarrow> incident_store \<Rightarrow> bool" for al where
  fresh: "incident_store_reached al incident_store_empty"
| assigned: "incident_store_reached al st \<Longrightarrow> incident_store_reached al (snd (incident_assign al cfg r now st))"
| ticked: "incident_store_reached al st \<Longrightarrow> incident_store_reached al (snd (incident_tick cfg now st))"
| capped: "incident_store_reached al st \<Longrightarrow> incident_store_reached al (snd (incident_enforce_caps cp st))"
| restarted: "incident_store_reached al st \<Longrightarrow>
    incident_store_reached al
      (snd (incident_restore (incidents_export st) now resolve_secs cp incident_store_empty))"

lemma reached_wf:
  assumes "incident_store_reached al st" and "fresh_uuid_law al"
  shows "store_wf st"
  using assms(1)
proof induction
  case (assigned st cfg r now)
  then show ?case
    using group_by_wf entity_graph_wf [OF _ assms(2)]
    by (simp add: incident_assign_def split: grouping_mode.split)
qed (simp_all add: store_wf_empty tick_wf caps_wf restart_wf)

text \<open>
  C13: In every store that a daemon reaches, a value is indexed to an incident exactly when that incident
  is open and stores the value: no entry is stale, none is missing, and no two open incidents share
  a value.
\<close>

theorem entity_index_exact:
  assumes "incident_store_reached al st" and "fresh_uuid_law al"
  shows "map_of (st_entity_index st) e = Some i
    \<longleftrightarrow> (\<exists>inc. map_of (st_incidents st) i = Some inc \<and> e \<in> set (entities_of inc))"
  using store_wfD(2) [OF reached_wf [OF assms]] by (simp add: owner_def set_entities_of)

text \<open>
  A detection on user \<open>a\<close>, one on host \<open>x\<close>, then one on both, which merges their incidents, and
  a last one on a stop value and host \<open>y\<close>.
\<close>

definition sample_results :: "evaluation_result list" where
  "sample_results =
     [sample_detection ''one'' [(''u'', ''a'')], sample_detection ''two'' [(''h'', ''x'')],
      sample_detection ''both'' [(''u'', ''a''), (''h'', ''x'')],
      sample_detection ''stop'' [(''u'', ''-''), (''h'', ''y'')]]"

definition assign_all :: "evaluation_result list \<Rightarrow> incident_store \<Rightarrow> incident_store" where
  "assign_all rs st = fold (\<lambda>r st. snd (incident_assign literal_alert sample_graph r 100 st)) rs st"

lemma literal_fresh_law: "fresh_uuid_law literal_alert"
  unfolding fresh_uuid_law_def using literal_fresh by (metis less_irrefl)

lemma sample_reached: "incident_store_reached literal_alert (assign_all rs incident_store_empty)"
proof -
  have "incident_store_reached literal_alert st \<Longrightarrow> incident_store_reached literal_alert (assign_all rs st)" for st
    unfolding assign_all_def by (induction rs arbitrary: st) (simp_all add: incident_store_reached.assigned)
  then show ?thesis using incident_store_reached.fresh by blast
qed

lemma sample_store:
  "st_entity_index (assign_all sample_results incident_store_empty)
     = [((''match.u'', ''a''), ''u''), ((''match.h'', ''x''), ''u''), ((''match.h'', ''y''), ''uu'')]"
  "map (\<lambda>(i, inc). (i, in_result_count inc, in_opened inc, in_first_seen inc, in_last_seen inc))
     (st_incidents (assign_all sample_results incident_store_empty))
     = [(''u'', 3, False, 100, 100), (''uu'', 1, False, 100, 100)]"
  by code_simp+

lemma entity_index_exact_witness:
  "(\<exists>inc. map_of (st_incidents (assign_all sample_results incident_store_empty)) ''u'' = Some inc
     \<and> (''match.h'', ''x'') \<in> set (entities_of inc))"
  using entity_index_exact [OF sample_reached literal_fresh_law, of sample_results "(''match.h'', ''x'')" "''u''"]
  by (simp add: sample_store(1))

section \<open>The life of an incident\<close>

text \<open>Ticks at the given times, with no result in between: what is emitted, and the store left.\<close>

fun incident_ticks :: "group_config \<Rightarrow> int list \<Rightarrow> incident_store \<Rightarrow> incident_emission list \<times> incident_store" where
  "incident_ticks cfg [] st = ([], st)"
| "incident_ticks cfg (now # ts) st =
     (case incident_tick cfg now st of (out, st1) \<Rightarrow>
        (case incident_ticks cfg ts st1 of (out', st2) \<Rightarrow> (out @ out', st2)))"

text \<open>The same for one incident.\<close>

fun incident_life :: "group_config \<Rightarrow> int list \<Rightarrow> incident option \<Rightarrow> incident_emission list \<times> incident option" where
  "incident_life cfg ts None = ([], None)"
| "incident_life cfg [] (Some inc) = ([], Some inc)"
| "incident_life cfg (now # ts) (Some inc) =
     (case tick_incident cfg now inc of (e, inc') \<Rightarrow>
        (case incident_life cfg ts inc' of (es, final) \<Rightarrow>
           ((case e of Some x \<Rightarrow> [x] | None \<Rightarrow> []) @ es, final)))"

abbreviation of_incident :: "string \<Rightarrow> incident_emission \<Rightarrow> bool" where
  "of_incident i e \<equiv> io_incident_id (ie_result e) = i"

lemma emission_simps [simp]:
  "ie_trigger (emission state trigger cfg inc) = trigger"
  "io_incident_id (ie_result (emission state trigger cfg inc)) = in_id inc"
  "io_result_count (ie_result (emission state trigger cfg inc)) = in_result_count inc"
  "io_state (ie_result (emission state trigger cfg inc)) = state"
  by (simp_all add: emission_def to_result_def)

lemma tick_emission:
  assumes "fst (tick_incident cfg now inc) = Some e"
  shows "of_incident (in_id inc) e" "io_result_count (ie_result e) = in_result_count inc"
  using assms by (auto simp: tick_incident_def Let_def split: if_splits)

lemma tick_keeps:
  assumes "snd (tick_incident cfg now inc) = Some inc'"
  shows "in_id inc' = in_id inc" "in_first_seen inc' = in_first_seen inc" "in_last_seen inc' = in_last_seen inc"
    "in_result_count inc' = in_result_count inc" "in_opened inc \<Longrightarrow> in_opened inc'"
  using assms by (auto simp: tick_incident_def Let_def split: if_splits)

text \<open>A tick of the store is a tick of each incident.\<close>

lemma emissions_of:
  "incidents_ok incs \<Longrightarrow>
   filter (of_incident i) (filter_map (\<lambda>(_, inc). fst (tick_incident cfg now inc)) incs)
     = (case map_of incs i of
          Some inc \<Rightarrow> (case fst (tick_incident cfg now inc) of Some e \<Rightarrow> [e] | None \<Rightarrow> [])
        | None \<Rightarrow> [])"
proof (induction incs)
  case (Cons p incs)
  obtain j inc where p: "p = (j, inc)" by (cases p)
  have ok: "incidents_ok incs" and j: "in_id inc = j" "j \<notin> fst ` set incs"
    using Cons.prems by (auto simp: incidents_ok_def p)
  have "map_of incs j = None" using j(2) by (simp add: map_of_eq_None_iff)
  with Cons.IH [OF ok] j(1) show ?case
    by (auto simp: p split: option.split dest: tick_emission(1))
qed simp

lemma store_life:
  "store_wf st \<Longrightarrow> incident_ticks cfg ts st = (out, st') \<Longrightarrow>
   (filter (of_incident i) out, map_of (st_incidents st') i) = incident_life cfg ts (map_of (st_incidents st) i)"
proof (induction ts arbitrary: st out)
  case Nil
  then show ?case by (cases "map_of (st_incidents st) i") auto
next
  case (Cons now ts)
  let ?st1 = "snd (incident_tick cfg now st)"
  obtain out' where o': "incident_ticks cfg ts ?st1 = (out', st')" "out = fst (incident_tick cfg now st) @ out'"
    using Cons.prems(2) by (auto split: prod.splits)
  note ok = store_wfD(1) [OF Cons.prems(1)]
  have d: "distinct (map fst (st_incidents st))" using ok by (simp add: incidents_ok_def)
  have i1: "map_of (st_incidents ?st1) i
      = Option.bind (map_of (st_incidents st) i) (\<lambda>inc. snd (tick_incident cfg now inc))"
    by (simp add: incident_tick_def forget_entities_def map_of_map_retain d)
  have e1: "filter (of_incident i) (fst (incident_tick cfg now st))
      = (case map_of (st_incidents st) i of
          Some inc \<Rightarrow> (case fst (tick_incident cfg now inc) of Some e \<Rightarrow> [e] | None \<Rightarrow> [])
        | None \<Rightarrow> [])"
    by (simp add: incident_tick_def emissions_of [OF ok])
  from Cons.IH [OF tick_wf [OF Cons.prems(1)] o'(1)] show ?case
    by (cases "map_of (st_incidents st) i") (auto simp: o'(2) i1 e1 split: prod.split option.split)
qed

lemma life_counts:
  "incident_life cfg ts (Some inc) = (es, final) \<Longrightarrow> e \<in> set es \<Longrightarrow> io_result_count (ie_result e) = in_result_count inc"
proof (induction cfg ts "Some inc" arbitrary: inc es rule: incident_life.induct)
  case (3 cfg now ts inc)
  obtain x inc' where t: "tick_incident cfg now inc = (x, inc')" by fastforce
  have IH: "io_result_count (ie_result e) = in_result_count inc1"
    if "inc' = Some inc1" "incident_life cfg ts (Some inc1) = (es', final)" "e \<in> set es'" for inc1 es'
    using 3(1) t that by simp
  obtain es' where l: "incident_life cfg ts inc' = (es', final)"
    "es = (case x of Some y \<Rightarrow> [y] | None \<Rightarrow> []) @ es'"
    using 3(2) t by (auto split: prod.splits)
  show ?case
  proof (cases inc')
    case None
    then show ?thesis using l 3(3) tick_emission(2) [of cfg now inc] t by (auto split: option.splits)
  next
    case (Some inc1)
    then show ?thesis
      using l 3(3) tick_emission(2) [of cfg now inc] tick_keeps(4) [of cfg now inc inc1] t IH [OF Some, of es']
      by (auto split: option.splits)
  qed
qed auto

lemma life_append:
  "incident_life cfg (ts @ us) inc
     = (fst (incident_life cfg ts inc) @ fst (incident_life cfg us (snd (incident_life cfg ts inc))),
        snd (incident_life cfg us (snd (incident_life cfg ts inc))))"
  by (induction cfg ts inc rule: incident_life.induct) (auto split: prod.splits)

lemma life_keeps:
  "snd (incident_life cfg ts (Some inc)) = Some inc' \<Longrightarrow>
   in_first_seen inc' = in_first_seen inc \<and> in_last_seen inc' = in_last_seen inc \<and> (in_opened inc \<longrightarrow> in_opened inc')"
proof (induction ts arbitrary: inc)
  case (Cons now ts)
  obtain x inc1 where t: "tick_incident cfg now inc = (x, inc1)" by fastforce
  show ?case
  proof (cases inc1)
    case (Some inc2)
    then show ?thesis
      using Cons.IH [of inc2] Cons.prems tick_keeps [of cfg now inc inc2] t by (auto split: prod.splits)
  qed (use Cons.prems t in simp)
qed simp

text \<open>An open incident ends at a tick that finds it quiet for long enough.\<close>

lemma life_ends:
  assumes "in_opened inc" and "t \<in> set ts" and "as_secs_i64 (gc_resolve_timeout cfg) \<le> sub_i64 t (in_last_seen inc)"
  shows "snd (incident_life cfg ts (Some inc)) = None"
proof -
  from assms(2) obtain us vs where ts: "ts = us @ t # vs" by (auto dest: split_list)
  show ?thesis
  proof (cases "snd (incident_life cfg us (Some inc))")
    case (Some inc')
    then have "in_opened inc'" "in_last_seen inc' = in_last_seen inc" using life_keeps assms(1) by blast+
    then have "tick_incident cfg t inc' = (Some (emission ''resolved'' ''resolved'' cfg inc'), None)"
      using assms(3) by (simp add: tick_incident_def Let_def)
    then show ?thesis by (simp add: ts life_append Some)
  qed (simp add: ts life_append)
qed

lemma life_resolves:
  assumes "as_secs_i64 (gc_group_wait cfg) \<le> sub_i64 t1 (in_first_seen inc)"
    and "as_secs_i64 (gc_resolve_timeout cfg) \<le> sub_i64 t2 (in_last_seen inc)"
  shows "snd (incident_life cfg (us @ t1 # vs @ t2 # ws) (Some inc)) = None"
proof (cases "snd (incident_life cfg (us @ [t1]) (Some inc))")
  case None
  then show ?thesis using life_append [of cfg "us @ [t1]" "vs @ t2 # ws" "Some inc"] by simp
next
  case (Some inc')
  then obtain inc0 where inc0: "snd (incident_life cfg us (Some inc)) = Some inc0"
    "snd (tick_incident cfg t1 inc0) = Some inc'"
    by (cases "snd (incident_life cfg us (Some inc))")
      (auto simp: life_append split: prod.splits, metis incident_life.simps(1,2) not_Some_eq snd_conv)
  have "in_opened inc'"
    using inc0(2) life_keeps [OF inc0(1)] assms(1) by (auto simp: tick_incident_def Let_def split: if_splits)
  moreover have "in_last_seen inc' = in_last_seen inc" using life_keeps [OF Some] by blast
  ultimately have "snd (incident_life cfg (vs @ t2 # ws) (Some inc')) = None"
    using assms(2) by (intro life_ends) auto
  then show ?thesis using life_append [of cfg "us @ [t1]" "vs @ t2 # ws" "Some inc"] Some by simp
qed

text \<open>The triggers of an incident that ends, in order.\<close>

lemma life_triggers:
  "incident_life cfg ts (Some inc) = (es, None) \<Longrightarrow>
   \<exists>mid. map ie_trigger es = (if in_opened inc then [] else [''group_wait'']) @ mid @ [''resolved'']
     \<and> set mid \<subseteq> {''group_interval'', ''repeat''}"
proof (induction ts arbitrary: inc es)
  case (Cons now ts)
  obtain x inc' where t: "tick_incident cfg now inc = (x, inc')" by fastforce
  obtain es' where l: "incident_life cfg ts inc' = (es', None)"
    "es = (case x of Some y \<Rightarrow> [y] | None \<Rightarrow> []) @ es'"
    using Cons.prems t by (auto split: prod.splits)
  show ?case
  proof (cases inc')
    case None
    then have "in_opened inc \<and> map ie_trigger es = [''resolved'']"
      using t l by (auto simp: tick_incident_def Let_def split: if_splits)
    then show ?thesis by (intro exI [of _ "[]"]) simp
  next
    case (Some inc1)
    obtain mid where mid: "map ie_trigger es' = (if in_opened inc1 then [] else [''group_wait'']) @ mid @ [''resolved'']"
      "set mid \<subseteq> {''group_interval'', ''repeat''}" using Cons.IH l(1) Some by blast
    have "x = None \<and> in_opened inc1 = in_opened inc
      \<or> (\<exists>y. x = Some y \<and> in_opened inc1
          \<and> (if in_opened inc then ie_trigger y \<in> {''group_interval'', ''repeat''} else ie_trigger y = ''group_wait''))"
      using t Some by (auto simp: tick_incident_def Let_def split: if_splits)
    then show ?thesis
    proof (elim disjE exE conjE)
      fix y assume y: "x = Some y" "in_opened inc1"
        "if in_opened inc then ie_trigger y \<in> {''group_interval'', ''repeat''} else ie_trigger y = ''group_wait''"
      then show ?thesis
        using mid by (intro exI [of _ "if in_opened inc then ie_trigger y # mid else mid"])
          (auto simp: l(2) split: if_splits)
    qed (use mid l(2) in \<open>auto intro: exI [of _ mid]\<close>)
  qed
qed simp

text \<open>
  C14: Once no result reaches an incident any more, it is closed as soon as a tick at least
  the group wait after its start is followed by a tick at least the resolve timeout after its last
  result.
  It is announced once (unless it was already), then updated or repeated, then resolved once and for
  all, and every report carries its full count.
\<close>

theorem quiet_incident_resolves:
  assumes "incident_store_reached al st" and "fresh_uuid_law al"
    and "map_of (st_incidents st) i = Some inc"
    and "ts = us @ t1 # vs @ t2 # ws"
    and "as_secs_i64 (gc_group_wait cfg) \<le> sub_i64 t1 (in_first_seen inc)"
    and "as_secs_i64 (gc_resolve_timeout cfg) \<le> sub_i64 t2 (in_last_seen inc)"
    and "incident_ticks cfg ts st = (out, st')"
  shows "map_of (st_incidents st') i = None
    \<and> (\<exists>mid. map ie_trigger (filter (of_incident i) out)
          = (if in_opened inc then [] else [''group_wait'']) @ mid @ [''resolved'']
        \<and> set mid \<subseteq> {''group_interval'', ''repeat''})
    \<and> list_all (\<lambda>e. io_result_count (ie_result e) = in_result_count inc) (filter (of_incident i) out)"
proof -
  have life: "incident_life cfg ts (Some inc) = (filter (of_incident i) out, map_of (st_incidents st') i)"
    using store_life [OF reached_wf [OF assms(1,2)] assms(7)] assms(3) by simp
  have "snd (incident_life cfg ts (Some inc)) = None"
    unfolding assms(4) by (rule life_resolves [OF assms(5,6)])
  then have "map_of (st_incidents st') i = None" by (simp add: life)
  with life life_triggers [of cfg ts inc] life_counts [of cfg ts inc] show ?thesis
    by (auto simp: list_all_iff)
qed

lemma quiet_incident_resolves_witness:
  "map_of (st_incidents (snd (incident_ticks sample_graph [101, 106, 120, 131]
     (assign_all sample_results incident_store_empty)))) ''u'' = None
   \<and> map ie_trigger (filter (of_incident ''u'')
     (fst (incident_ticks sample_graph [101, 106, 120, 131] (assign_all sample_results incident_store_empty))))
     = [''group_wait'', ''resolved'']"
proof -
  let ?st = "assign_all sample_results incident_store_empty"
  from sample_store(2) obtain inc where inc: "map_of (st_incidents ?st) ''u'' = Some inc"
    "in_opened inc = False" "in_first_seen inc = 100" "in_last_seen inc = 100"
    by (auto simp: map_eq_Cons_conv)
  obtain out st' where run: "incident_ticks sample_graph [101, 106, 120, 131] ?st = (out, st')" by fastforce
  from quiet_incident_resolves [OF sample_reached literal_fresh_law inc(1), of "[101, 106, 120, 131]" "[101]" 106
      "[120]" 131 "[]" sample_graph, OF _ _ _ run]
  have "map_of (st_incidents st') ''u'' = None"
    by (auto simp: inc(2,3,4) sample_graph_def seconds_def as_secs_i64_def wrap_i64_def sub_i64_def)
  moreover have "map ie_trigger (filter (of_incident ''u'') (fst (incident_ticks sample_graph [101, 106, 120, 131] ?st)))
      = [''group_wait'', ''resolved'']" by code_simp
  ultimately show ?thesis by (simp add: run del: incident_ticks.simps)
qed

end
