(* ===== verification/AlertCapture.thy ===== *)
theory AlertCapture
  imports AlertDedup
begin

text \<open>
  Capture of admitted evidence (\<open>rsigma-runtime/src/capture.rs\<close>): results that survive inhibition and
  silencing are collected, equal payloads of one incident are coalesced, and a ring bounded in bytes,
  incidents and events retains them.
\<close>

section \<open>What is offered\<close>

record admitted_match =
  ma_rule_id :: string
  ma_rule_title :: string
  ma_fingerprint :: "string option"

record admitted_event =
  ae_incident_id :: string
  ae_is_fresh_generation :: bool
  ae_event :: json_value
  ae_matches :: "admitted_match list"

datatype capture_reject = CrUnsupportedResultKind | CrNotAssignable | CrMissingEvent

fun capture_reject_str :: "capture_reject \<Rightarrow> string" where
  "capture_reject_str CrUnsupportedResultKind = ''unsupported_result_kind''"
| "capture_reject_str CrNotAssignable = ''not_assignable''"
| "capture_reject_str CrMissingEvent = ''missing_event''"

datatype capture_incompatibility = CiMissingGroupBy | CiEntityGraph | CiDedupSelectorsMissing "string list"

fun show_capture_incompatibility :: "capture_incompatibility \<Rightarrow> string" where
  "show_capture_incompatibility CiMissingGroupBy =
     ''capture requires an alert pipeline with group.mode: group_by''"
| "show_capture_incompatibility CiEntityGraph = ''capture does not support group.mode: entity_graph''"
| "show_capture_incompatibility (CiDedupSelectorsMissing selectors) =
     ''dedup.fingerprint must include every group.by selector (missing: '' @ join_str '', '' selectors @ '')''"

record pending_admit =
  pa_incident_id :: string
  pa_is_fresh_generation :: bool
  pa_event :: json_value
  pa_match :: admitted_match

datatype pending_capture = PcAdmit pending_admit | PcReject capture_reject

definition encode_event :: "alert_env \<Rightarrow> json_value \<Rightarrow> string" where
  "encode_event al ev = al_json_text al ev"

text \<open>Equal payloads of one incident become one admission, in the order first seen.\<close>

definition coalesce_step :: "alert_env \<Rightarrow> pending_admit
     \<Rightarrow> ((string \<times> string) \<times> admitted_event) list \<Rightarrow> ((string \<times> string) \<times> admitted_event) list" where
  "coalesce_step al item m =
     (let key = (pa_incident_id item, encode_event al (pa_event item))
      in case map_of m key of
           Some existing \<Rightarrow>
             map_insert key (existing \<lparr> ae_matches := ae_matches existing @ [pa_match item],
                 ae_is_fresh_generation := ae_is_fresh_generation existing \<or> pa_is_fresh_generation item \<rparr>) m
         | None \<Rightarrow>
             map_insert key \<lparr> ae_incident_id = pa_incident_id item,
                 ae_is_fresh_generation = pa_is_fresh_generation item,
                 ae_event = pa_event item, ae_matches = [pa_match item] \<rparr> m)"

definition coalesce_admits :: "alert_env \<Rightarrow> pending_admit list \<Rightarrow> admitted_event list" where
  "coalesce_admits al pending = map snd (fold (coalesce_step al) pending [])"

text \<open>What a sink receives: the rejections, then the coalesced admissions.\<close>

definition flush_pending :: "alert_env \<Rightarrow> pending_capture list \<Rightarrow> capture_reject list \<times> admitted_event list" where
  "flush_pending al pending =
     (filter_map (\<lambda>p. case p of PcReject r \<Rightarrow> Some r | PcAdmit _ \<Rightarrow> None) pending,
      coalesce_admits al (filter_map (\<lambda>p. case p of PcAdmit a \<Rightarrow> Some a | PcReject _ \<Rightarrow> None) pending))"

section \<open>The ring\<close>

record capture_config =
  rc_max_captured_incidents :: nat
  rc_max_events_per_incident :: nat
  rc_max_event_bytes :: nat
  rc_max_bytes_per_incident :: nat
  rc_max_capture_bytes :: nat
  rc_ttl :: duration

definition capture_config_default :: capture_config where
  "capture_config_default =
     \<lparr> rc_max_captured_incidents = 1000, rc_max_events_per_incident = 1000,
       rc_max_event_bytes = 1024 * 1024, rc_max_bytes_per_incident = 16 * 1024 * 1024,
       rc_max_capture_bytes = 256 * 1024 * 1024, rc_ttl = seconds (24 * 60 * 60) \<rparr>"

datatype capture_config_error = NonPositive string | InvertedBounds

fun show_capture_config_error :: "capture_config_error \<Rightarrow> string" where
  "show_capture_config_error (NonPositive field) =
     ''daemon.capture.'' @ field @ '' must be greater than zero''"
| "show_capture_config_error InvertedBounds =
     ''daemon.capture requires max_event_bytes <= max_bytes_per_incident <= max_capture_bytes''"

definition capture_config_validate :: "capture_config \<Rightarrow> capture_config_error + unit" where
  "capture_config_validate c =
     (if rc_max_captured_incidents c = 0 then Inl (NonPositive ''max_captured_incidents'')
      else if rc_max_events_per_incident c = 0 then Inl (NonPositive ''max_events_per_incident'')
      else if rc_max_event_bytes c = 0 then Inl (NonPositive ''max_event_bytes'')
      else if rc_max_bytes_per_incident c = 0 then Inl (NonPositive ''max_bytes_per_incident'')
      else if rc_max_capture_bytes c = 0 then Inl (NonPositive ''max_capture_bytes'')
      else if du_secs (rc_ttl c) = 0 then Inl (NonPositive ''ttl'')
      else if rc_max_bytes_per_incident c < rc_max_event_bytes c
              \<or> rc_max_capture_bytes c < rc_max_bytes_per_incident c
      then Inl InvertedBounds else Inr ())"

text \<open>The digest is SHA-256, a parameter of the ring.\<close>

record captured_event =
  cv_event_digest :: string
  cv_captured_at :: int
  cv_matches :: "admitted_match list"
  cv_event :: json_value
  cv_event_bytes :: nat

record capture_snapshot =
  cn_incident_id :: string
  cn_first_seen :: int
  cn_last_seen :: int
  cn_events :: "captured_event list"
  cn_bytes :: nat

record capture_stats =
  ct_incidents :: nat
  ct_events :: nat
  ct_bytes :: nat

record ring_incident =
  ri_first_seen :: int
  ri_last_seen :: int
  ri_events :: "captured_event list"
  ri_bytes :: nat
  ri_fingerprint_keys :: "(string \<times> string) list"

record capture_ring =
  cr_config :: capture_config
  cr_incidents :: "(string \<times> ring_incident) list"
  cr_order :: "string list"
  cr_fingerprint_index :: "((string \<times> string) \<times> string) list"
  cr_total_bytes :: nat

definition capture_ring_new :: "capture_config \<Rightarrow> capture_ring" where
  "capture_ring_new config =
     \<lparr> cr_config = config, cr_incidents = [], cr_order = [], cr_fingerprint_index = [], cr_total_bytes = 0 \<rparr>"

definition ring_stats :: "capture_ring \<Rightarrow> capture_stats" where
  "ring_stats ring =
     \<lparr> ct_incidents = length (cr_incidents ring),
       ct_events = sum_list (map (\<lambda>(_, inc). length (ri_events inc)) (cr_incidents ring)),
       ct_bytes = cr_total_bytes ring \<rparr>"

definition snapshot_incident :: "capture_ring \<Rightarrow> string \<Rightarrow> capture_snapshot option" where
  "snapshot_incident ring i =
     map_option (\<lambda>inc. \<lparr> cn_incident_id = i, cn_first_seen = ri_first_seen inc,
                        cn_last_seen = ri_last_seen inc, cn_events = ri_events inc,
                        cn_bytes = ri_bytes inc \<rparr>) (map_of (cr_incidents ring) i)"

definition snapshot_fingerprint :: "capture_ring \<Rightarrow> string \<Rightarrow> string \<Rightarrow> capture_snapshot option" where
  "snapshot_fingerprint ring rule_id fp =
     (case map_of (cr_fingerprint_index ring) (rule_id, fp) of
        None \<Rightarrow> None
      | Some i \<Rightarrow> snapshot_incident ring i)"

definition drop_index_key :: "string \<Rightarrow> string \<times> string
     \<Rightarrow> ((string \<times> string) \<times> string) list \<Rightarrow> ((string \<times> string) \<times> string) list" where
  "drop_index_key i key index = (if map_of index key = Some i then map_remove key index else index)"

definition remove_incident_at :: "string \<Rightarrow> capture_ring \<Rightarrow> capture_ring" where
  "remove_incident_at i ring =
     (case map_of (cr_incidents ring) i of
        None \<Rightarrow> ring
      | Some inc \<Rightarrow>
          ring \<lparr> cr_incidents := map_remove i (cr_incidents ring),
                 cr_total_bytes := cr_total_bytes ring - ri_bytes inc,
                 cr_fingerprint_index :=
                   fold (drop_index_key i) (ri_fingerprint_keys inc) (cr_fingerprint_index ring) \<rparr>)"

definition remove_incident :: "string \<Rightarrow> capture_ring \<Rightarrow> capture_ring" where
  "remove_incident i ring = remove_incident_at i (ring \<lparr> cr_order := remove1 i (cr_order ring) \<rparr>)"

text \<open>The oldest incident but the excepted one; \<open>None\<close> when there is none.\<close>

definition evict_oldest :: "string \<Rightarrow> capture_ring \<Rightarrow> capture_ring option" where
  "evict_oldest skip ring =
     (case find (\<lambda>i. i \<noteq> skip) (cr_order ring) of
        None \<Rightarrow> None
      | Some i \<Rightarrow> Some (remove_incident_at i (ring \<lparr> cr_order := remove1 i (cr_order ring) \<rparr>)))"

lemma evict_oldest_order:
  "evict_oldest skip ring = Some ring' \<Longrightarrow> length (cr_order ring') < length (cr_order ring)"
proof -
  assume "evict_oldest skip ring = Some ring'"
  then obtain i where i: "find (\<lambda>i. i \<noteq> skip) (cr_order ring) = Some i"
    and r: "ring' = remove_incident_at i (ring \<lparr> cr_order := remove1 i (cr_order ring) \<rparr>)"
    by (auto simp: evict_oldest_def split: option.splits)
  from i have "i \<in> set (cr_order ring)" by (auto simp: find_Some_iff)
  then have "length (remove1 i (cr_order ring)) < length (cr_order ring)"
    using length_pos_if_in_set [of i "cr_order ring"] by (simp add: length_remove1)
  then show ?thesis by (auto simp: r remove_incident_at_def split: option.splits)
qed

text \<open>\<open>while p(ring) { if !evict_oldest { break } }\<close>.\<close>

function evict_while :: "(capture_ring \<Rightarrow> bool) \<Rightarrow> string \<Rightarrow> capture_ring \<Rightarrow> capture_ring" where
  "evict_while p skip ring =
     (if p ring then (case evict_oldest skip ring of None \<Rightarrow> ring | Some r \<Rightarrow> evict_while p skip r) else ring)"
  by pat_completeness auto
termination
  by (relation "measure (\<lambda>(p, skip, ring). length (cr_order ring))") (auto dest: evict_oldest_order)

declare evict_while.simps [simp del]

text \<open>\<open>i64::saturating_sub\<close>.\<close>

definition sat_sub_i64 :: "int \<Rightarrow> int \<Rightarrow> int" where
  "sat_sub_i64 a b = max i64_min (min i64_max (a - b))"

definition ring_expire :: "int \<Rightarrow> capture_ring \<Rightarrow> capture_ring" where
  "ring_expire now ring =
     (let ttl = as_secs_i64 (rc_ttl (cr_config ring));
          stale = map fst (filter (\<lambda>(_, inc). ttl \<le> sat_sub_i64 now (ri_last_seen inc)) (cr_incidents ring))
      in fold remove_incident stale ring)"

definition index_matches :: "string \<Rightarrow> admitted_match list
     \<Rightarrow> ((string \<times> string) \<times> string) list \<times> (string \<times> string) list
     \<Rightarrow> ((string \<times> string) \<times> string) list \<times> (string \<times> string) list" where
  "index_matches i ms acc =
     fold (\<lambda>m (index, keys).
       case ma_fingerprint m of
         None \<Rightarrow> (index, keys)
       | Some fp \<Rightarrow>
           (let key = (ma_rule_id m, fp)
            in (map_insert key i index, if key \<in> set keys then keys else keys @ [key]))) ms acc"

datatype drop_reason = DropTooLarge | DropEventCap | DropIncidentBytes | DropGlobalBytes

definition ring_store ::
    "alert_env \<Rightarrow> (string \<Rightarrow> string) \<Rightarrow> admitted_event \<Rightarrow> int \<Rightarrow> capture_ring \<Rightarrow> capture_ring" where
  "ring_store al digest ev now ring =
     (let encoded = encode_event al (ae_event ev);
          captured = \<lparr> cv_event_digest = digest encoded, cv_captured_at = now, cv_matches = ae_matches ev,
                       cv_event = ae_event ev, cv_event_bytes = length encoded \<rparr>;
          i = ae_incident_id ev
      in case map_of (cr_incidents ring) i of
           Some inc \<Rightarrow>
             (case index_matches i (ae_matches ev) (cr_fingerprint_index ring, ri_fingerprint_keys inc) of
                (index, keys) \<Rightarrow>
                  ring \<lparr> cr_incidents := map_insert i
                           (inc \<lparr> ri_last_seen := now, ri_bytes := ri_bytes inc + length encoded,
                                  ri_events := ri_events inc @ [captured], ri_fingerprint_keys := keys \<rparr>)
                           (cr_incidents ring),
                         cr_fingerprint_index := index,
                         cr_total_bytes := cr_total_bytes ring + length encoded \<rparr>)
         | None \<Rightarrow>
             (case index_matches i (ae_matches ev) (cr_fingerprint_index ring, []) of
                (index, keys) \<Rightarrow>
                  ring \<lparr> cr_incidents := map_insert i
                           \<lparr> ri_first_seen = now, ri_last_seen = now, ri_events = [captured],
                             ri_bytes = length encoded, ri_fingerprint_keys = keys \<rparr> (cr_incidents ring),
                         cr_order := cr_order ring @ [i],
                         cr_fingerprint_index := index,
                         cr_total_bytes := cr_total_bytes ring + length encoded \<rparr>))"

definition ring_admit ::
    "alert_env \<Rightarrow> (string \<Rightarrow> string) \<Rightarrow> admitted_event \<Rightarrow> int \<Rightarrow> capture_ring
     \<Rightarrow> drop_reason option \<times> capture_ring" where
  "ring_admit al digest ev now ring =
     (let config = cr_config ring; i = ae_incident_id ev;
          event_bytes = length (encode_event al (ae_event ev))
      in if rc_max_event_bytes config < event_bytes then (Some DropTooLarge, ring)
         else
           let ring1 = (if ae_is_fresh_generation ev \<and> map_of (cr_incidents ring) i \<noteq> None
                        then remove_incident i ring else ring);
               full = (\<lambda>r. rc_max_captured_incidents config \<le> length (cr_incidents r));
               ring2 = (if map_of (cr_incidents ring1) i = None then evict_while full i ring1 else ring1)
           in if map_of (cr_incidents ring1) i = None \<and> full ring2 then (Some DropGlobalBytes, ring2)
              else case (case map_of (cr_incidents ring2) i of
                     Some inc \<Rightarrow>
                       if rc_max_events_per_incident config \<le> length (ri_events inc) then Some DropEventCap
                       else if rc_max_bytes_per_incident config < ri_bytes inc + event_bytes
                       then Some DropIncidentBytes else None
                   | None \<Rightarrow> if rc_max_bytes_per_incident config < event_bytes
                             then Some DropIncidentBytes else None) of
                Some reason \<Rightarrow> (Some reason, ring2)
              | None \<Rightarrow>
                  (let over = (\<lambda>r. rc_max_capture_bytes config < cr_total_bytes r + event_bytes);
                       ring3 = evict_while over i ring2
                   in if over ring3 then (Some DropGlobalBytes, ring3)
                      else (None, ring_store al digest ev now ring3)))"

end
