(* ===== verification/AlertRingProps.thy ===== *)
theory AlertRingProps
  imports AlertGroupProps AlertCapture
begin

text \<open>
  The capture ring: what it retains stays within its bounds, and a configuration that was validated
  never refuses an event for lack of global space.
\<close>

section \<open>Sums and maps\<close>

lemma sum_map_remove:
  "distinct (map fst m) \<Longrightarrow> map_of m k = Some v \<Longrightarrow>
   sum_list (map f m) = f (k, v) + (sum_list (map f (map_remove k m)) :: nat)"
proof (induction m)
  case (Cons e m)
  obtain k' v' where e: "e = (k', v')" by (cases e)
  show ?case
  proof (cases "k' = k")
    case True
    then have "map_of m k = None" using Cons.prems(1) by (simp add: e map_of_eq_None_iff)
    then show ?thesis
      using map_remove_absent [of m k] Cons.prems(2) True by (simp add: e map_remove_def)
  next
    case False
    then show ?thesis using Cons by (simp add: e map_remove_def)
  qed
qed simp

lemma sum_map_insert_old:
  "map_of m k = Some v \<Longrightarrow>
   sum_list (map f (map_insert k v' m)) + f (k, v) = f (k, v') + (sum_list (map f m) :: nat)"
  by (induction k v' m rule: map_insert.induct) auto

lemma sum_map_insert_new:
  "map_of m k = None \<Longrightarrow> sum_list (map f (map_insert k v m)) = f (k, v) + (sum_list (map f m) :: nat)"
  by (simp add: map_of_eq_None_iff map_insert_new)

section \<open>The invariant\<close>

definition match_key :: "admitted_match \<Rightarrow> (string \<times> string) option" where
  "match_key m = map_option (Pair (ma_rule_id m)) (ma_fingerprint m)"

definition event_keys :: "captured_event list \<Rightarrow> (string \<times> string) set" where
  "event_keys evs = {key. \<exists>ev \<in> set evs. \<exists>m \<in> set (cv_matches ev). match_key m = Some key}"

definition incident_fits :: "capture_config \<Rightarrow> ring_incident \<Rightarrow> bool" where
  "incident_fits config inc \<longleftrightarrow>
     ri_bytes inc = sum_list (map cv_event_bytes (ri_events inc))
     \<and> ri_bytes inc \<le> rc_max_bytes_per_incident config
     \<and> length (ri_events inc) \<le> rc_max_events_per_incident config
     \<and> set (ri_fingerprint_keys inc) = event_keys (ri_events inc)"

definition ring_ok :: "capture_config \<Rightarrow> capture_ring \<Rightarrow> bool" where
  "ring_ok config ring \<longleftrightarrow>
     cr_config ring = config
     \<and> distinct (map fst (cr_incidents ring)) \<and> distinct (cr_order ring)
     \<and> set (cr_order ring) = dom (map_of (cr_incidents ring))
     \<and> cr_total_bytes ring = sum_list (map (\<lambda>e. ri_bytes (snd e)) (cr_incidents ring))
     \<and> (\<forall>i inc. map_of (cr_incidents ring) i = Some inc \<longrightarrow> incident_fits config inc)
     \<and> (\<forall>key i. map_of (cr_fingerprint_index ring) key = Some i
          \<longrightarrow> (\<exists>inc. map_of (cr_incidents ring) i = Some inc \<and> key \<in> set (ri_fingerprint_keys inc)))"

lemma dropped_keys:
  "map_of (fold (drop_index_key i) keys index) key
     = (if key \<in> set keys \<and> map_of index key = Some i then None else map_of index key)"
  by (induction keys arbitrary: index) (auto simp: drop_index_key_def)

lemma ring_new_ok: "ring_ok config (capture_ring_new config)"
  by (simp add: ring_ok_def capture_ring_new_def)

text \<open>Removing an incident.\<close>

lemma remove_ok:
  assumes ok: "ring_ok config ring"
  shows "ring_ok config (remove_incident i ring)"
    and "cr_incidents (remove_incident i ring) = map_remove i (cr_incidents ring)"
proof -
  let ?ring = "remove_incident i ring"
  show incs: "cr_incidents ?ring = map_remove i (cr_incidents ring)"
    by (simp add: remove_incident_def remove_incident_at_def map_remove_absent split: option.split)
  show "ring_ok config ?ring"
  proof (cases "map_of (cr_incidents ring) i")
    case None
    then have "i \<notin> set (cr_order ring)" using ok by (auto simp: ring_ok_def)
    then have "?ring = ring" using None by (simp add: remove_incident_def remove_incident_at_def remove1_idem)
    then show ?thesis using ok by simp
  next
    case (Some inc)
    have total: "cr_total_bytes ring = ri_bytes inc
        + sum_list (map (\<lambda>e. ri_bytes (snd e)) (map_remove i (cr_incidents ring)))"
      using ok sum_map_remove [OF _ Some, of "\<lambda>e. ri_bytes (snd e)"] by (simp add: ring_ok_def)
    have index: "map_of (cr_fingerprint_index ?ring) key
        = (if key \<in> set (ri_fingerprint_keys inc) \<and> map_of (cr_fingerprint_index ring) key = Some i
           then None else map_of (cr_fingerprint_index ring) key)" for key
      by (simp add: remove_incident_def remove_incident_at_def Some dropped_keys)
    have rest: "cr_config ?ring = cr_config ring" "cr_order ?ring = remove1 i (cr_order ring)"
      "cr_total_bytes ?ring = cr_total_bytes ring - ri_bytes inc"
      by (simp_all add: remove_incident_def remove_incident_at_def Some)
    have pointed: "\<exists>inc'. map_of (cr_incidents ?ring) j = Some inc' \<and> key \<in> set (ri_fingerprint_keys inc')"
      if "map_of (cr_fingerprint_index ?ring) key = Some j" for key j
    proof -
      have j: "map_of (cr_fingerprint_index ring) key = Some j" and
        n: "\<not> (key \<in> set (ri_fingerprint_keys inc) \<and> j = i)"
        using that by (auto simp: index split: if_splits)
      then obtain inc' where "map_of (cr_incidents ring) j = Some inc'" "key \<in> set (ri_fingerprint_keys inc')"
        using ok unfolding ring_ok_def by blast
      then show ?thesis using n Some by (auto simp: incs)
    qed
    show ?thesis
      unfolding ring_ok_def
    proof (intro conjI allI impI)
      show "cr_total_bytes ?ring = sum_list (map (\<lambda>e. ri_bytes (snd e)) (cr_incidents ?ring))"
        by (simp add: rest incs total)
      show "set (cr_order ?ring) = dom (map_of (cr_incidents ?ring))"
        using ok by (auto simp: ring_ok_def rest incs set_remove1_eq)
      show "\<exists>inc'. map_of (cr_incidents ?ring) j = Some inc' \<and> key \<in> set (ri_fingerprint_keys inc')"
        if "map_of (cr_fingerprint_index ?ring) key = Some j" for key j
        using pointed that .
      show "incident_fits config inc'" if "map_of (cr_incidents ?ring) j = Some inc'" for j inc'
        using ok that unfolding ring_ok_def by (auto simp: incs split: if_splits)
    qed (use ok in \<open>simp_all add: ring_ok_def rest incs distinct_map_remove distinct_remove1\<close>)
  qed
qed

lemma evict_oldest_Some:
  assumes "evict_oldest skip ring = Some ring'"
  shows "\<exists>i. i \<noteq> skip \<and> ring' = remove_incident i ring"
  using assms by (auto simp: evict_oldest_def remove_incident_def find_Some_iff split: option.splits)

lemma evict_oldest_None:
  assumes "ring_ok config ring" and "evict_oldest skip ring = None"
    and "map_of (cr_incidents ring) i \<noteq> None"
  shows "i = skip"
proof -
  have "i \<in> set (cr_order ring)" using assms(1,3) unfolding ring_ok_def by blast
  then show ?thesis using assms(2) by (auto simp: evict_oldest_def find_None_iff split: option.splits)
qed

lemma evict_while_ok:
  "ring_ok config ring \<Longrightarrow>
   ring_ok config (evict_while p skip ring)
   \<and> map_of (cr_incidents (evict_while p skip ring)) skip = map_of (cr_incidents ring) skip
   \<and> (p (evict_while p skip ring)
        \<longrightarrow> (\<forall>i. map_of (cr_incidents (evict_while p skip ring)) i \<noteq> None \<longrightarrow> i = skip))"
proof (induction p skip ring rule: evict_while.induct)
  case (1 p skip ring)
  show ?case
  proof (cases "p ring \<and> evict_oldest skip ring \<noteq> None")
    case True
    then obtain ring' where e: "evict_oldest skip ring = Some ring'" by blast
    from evict_oldest_Some [OF e] obtain i where i: "i \<noteq> skip" "ring' = remove_incident i ring" by blast
    have w: "evict_while p skip ring = evict_while p skip ring'"
      using True e by (subst evict_while.simps) simp
    show ?thesis
      unfolding w using "1.IH" [of ring'] True e remove_ok [OF "1.prems", of i] i by simp
  next
    case False
    then have w: "evict_while p skip ring = ring"
      by (subst evict_while.simps) (auto split: option.split)
    show ?thesis unfolding w using False "1.prems" evict_oldest_None [OF "1.prems"] by blast
  qed
qed

definition capped_ring :: "capture_config \<Rightarrow> capture_ring \<Rightarrow> bool" where
  "capped_ring config ring \<longleftrightarrow>
     length (cr_incidents ring) \<le> rc_max_captured_incidents config
     \<and> cr_total_bytes ring \<le> rc_max_capture_bytes config"

lemma remove_capped:
  assumes "ring_ok config ring" and "capped_ring config' ring"
  shows "capped_ring config' (remove_incident i ring)"
proof -
  have "length (map_remove i (cr_incidents ring)) \<le> length (cr_incidents ring)"
    by (simp add: map_remove_def)
  moreover have "cr_total_bytes (remove_incident i ring) \<le> cr_total_bytes ring"
    by (simp add: remove_incident_def remove_incident_at_def split: option.split)
  ultimately show ?thesis using assms by (simp add: capped_ring_def remove_ok(2))
qed

lemma evict_while_capped:
  "ring_ok config ring \<Longrightarrow> capped_ring config' ring \<Longrightarrow> capped_ring config' (evict_while p skip ring)"
proof (induction p skip ring rule: evict_while.induct)
  case (1 p skip ring)
  show ?case
  proof (cases "p ring \<and> evict_oldest skip ring \<noteq> None")
    case True
    then obtain ring' where e: "evict_oldest skip ring = Some ring'" by blast
    from evict_oldest_Some [OF e] obtain i where i: "ring' = remove_incident i ring" by blast
    have w: "evict_while p skip ring = evict_while p skip ring'"
      using True e by (subst evict_while.simps) simp
    show ?thesis
      unfolding w using "1.IH" [of ring'] True e remove_ok(1) [OF "1.prems"(1), of i]
        remove_capped [OF "1.prems", of i] i by simp
  next
    case False
    then have "evict_while p skip ring = ring"
      by (subst evict_while.simps) (auto split: option.split)
    then show ?thesis using "1.prems"(2) by simp
  qed
qed

text \<open>Storing an event that fits.\<close>

lemma indexed_matches:
  "map_of (fst (index_matches i ms (index, keys))) key
     = (if \<exists>m \<in> set ms. match_key m = Some key then Some i else map_of index key)"
  "set (snd (index_matches i ms (index, keys))) = set keys \<union> {key. \<exists>m \<in> set ms. match_key m = Some key}"
  by (induction ms arbitrary: index keys) (auto simp: index_matches_def match_key_def Let_def split: option.splits)

definition captured_form :: "alert_env \<Rightarrow> (string \<Rightarrow> string) \<Rightarrow> admitted_event \<Rightarrow> int \<Rightarrow> captured_event" where
  "captured_form al digest ev now =
     \<lparr> cv_event_digest = digest (encode_event al (ae_event ev)), cv_captured_at = now,
       cv_matches = ae_matches ev, cv_event = ae_event ev,
       cv_event_bytes = length (encode_event al (ae_event ev)) \<rparr>"

definition held_events :: "string \<Rightarrow> capture_ring \<Rightarrow> captured_event list" where
  "held_events i ring = (case map_of (cr_incidents ring) i of Some inc \<Rightarrow> ri_events inc | None \<Rightarrow> [])"

definition held_bytes :: "string \<Rightarrow> capture_ring \<Rightarrow> nat" where
  "held_bytes i ring = (case map_of (cr_incidents ring) i of Some inc \<Rightarrow> ri_bytes inc | None \<Rightarrow> 0)"

lemma store_incidents:
  fixes ev :: admitted_event and al :: alert_env and digest :: "string \<Rightarrow> string" and now :: int
  defines "i \<equiv> ae_incident_id ev" and "c \<equiv> captured_form al digest ev now"
  obtains inc where
    "cr_incidents (ring_store al digest ev now ring) = map_insert i inc (cr_incidents ring)"
    "ri_events inc = held_events i ring @ [c]" "ri_bytes inc = held_bytes i ring + cv_event_bytes c"
    "set (ri_fingerprint_keys inc)
       = (case map_of (cr_incidents ring) i of Some old \<Rightarrow> set (ri_fingerprint_keys old) | None \<Rightarrow> {})
         \<union> {key. \<exists>m \<in> set (ae_matches ev). match_key m = Some key}"
    "cr_total_bytes (ring_store al digest ev now ring) = cr_total_bytes ring + cv_event_bytes c"
    "cr_config (ring_store al digest ev now ring) = cr_config ring"
    "cr_order (ring_store al digest ev now ring)
       = (if map_of (cr_incidents ring) i = None then cr_order ring @ [i] else cr_order ring)"
    "\<And>key. map_of (cr_fingerprint_index (ring_store al digest ev now ring)) key
       = (if \<exists>m \<in> set (ae_matches ev). match_key m = Some key then Some i
          else map_of (cr_fingerprint_index ring) key)"
proof (cases "map_of (cr_incidents ring) i")
  case None
  obtain index keys where x: "index_matches i (ae_matches ev) (cr_fingerprint_index ring, []) = (index, keys)"
    by fastforce
  show thesis
    by (rule that [of "\<lparr> ri_first_seen = now, ri_last_seen = now, ri_events = [c],
          ri_bytes = cv_event_bytes c, ri_fingerprint_keys = keys \<rparr>"])
      (use indexed_matches [of i "ae_matches ev" "cr_fingerprint_index ring" "[]", unfolded x] None x in
      \<open>simp_all add: ring_store_def Let_def c_def captured_form_def held_events_def held_bytes_def i_def\<close>)
next
  case (Some old)
  obtain index keys where x: "index_matches i (ae_matches ev) (cr_fingerprint_index ring, ri_fingerprint_keys old) = (index, keys)"
    by fastforce
  show thesis
    by (rule that [of "old \<lparr> ri_last_seen := now, ri_bytes := ri_bytes old + cv_event_bytes c,
          ri_events := ri_events old @ [c], ri_fingerprint_keys := keys \<rparr>"])
      (use indexed_matches [of i "ae_matches ev" "cr_fingerprint_index ring" "ri_fingerprint_keys old", unfolded x] Some x in
      \<open>simp_all add: ring_store_def Let_def c_def captured_form_def held_events_def held_bytes_def i_def\<close>)
qed

lemma store_ok:
  assumes ok: "ring_ok config ring"
    and fits: "length (held_events (ae_incident_id ev) ring) < rc_max_events_per_incident config"
      "held_bytes (ae_incident_id ev) ring + length (encode_event al (ae_event ev)) \<le> rc_max_bytes_per_incident config"
  shows "ring_ok config (ring_store al digest ev now ring)"
proof -
  let ?i = "ae_incident_id ev" and ?c = "captured_form al digest ev now" and ?ring = "ring_store al digest ev now ring"
  let ?new = "{key. \<exists>m \<in> set (ae_matches ev). match_key m = Some key}"
  obtain inc where st: "cr_incidents ?ring = map_insert ?i inc (cr_incidents ring)"
    "ri_events inc = held_events ?i ring @ [?c]" "ri_bytes inc = held_bytes ?i ring + cv_event_bytes ?c"
    "set (ri_fingerprint_keys inc)
       = (case map_of (cr_incidents ring) ?i of Some old \<Rightarrow> set (ri_fingerprint_keys old) | None \<Rightarrow> {}) \<union> ?new"
    "cr_total_bytes ?ring = cr_total_bytes ring + cv_event_bytes ?c" "cr_config ?ring = cr_config ring"
    "cr_order ?ring = (if map_of (cr_incidents ring) ?i = None then cr_order ring @ [?i] else cr_order ring)"
    "\<And>key. map_of (cr_fingerprint_index ?ring) key
       = (if key \<in> ?new then Some ?i else map_of (cr_fingerprint_index ring) key)"
    by (rule store_incidents [where ev = ev and al = al and digest = digest and now = now and ring = ring])
      (rule that, simp_all)
  have bytes: "cv_event_bytes ?c = length (encode_event al (ae_event ev))" by (simp add: captured_form_def)
  have fit: "incident_fits config old" if "map_of (cr_incidents ring) j = Some old" for j old
    using ok that unfolding ring_ok_def by blast
  have "incident_fits config inc"
    using fits fit [of ?i] st(2,3,4) bytes
    by (auto simp: incident_fits_def held_events_def held_bytes_def event_keys_def captured_form_def
        split: option.splits)
  moreover have "cr_total_bytes ?ring = sum_list (map (\<lambda>e. ri_bytes (snd e)) (cr_incidents ?ring))"
  proof (cases "map_of (cr_incidents ring) ?i")
    case None
    then show ?thesis
      using ok st(1,3,5) sum_map_insert_new [OF None, of "\<lambda>e. ri_bytes (snd e)" inc]
      by (simp add: ring_ok_def held_bytes_def)
  next
    case (Some old)
    then show ?thesis
      using ok st(1,3,5) sum_map_insert_old [OF Some, of "\<lambda>e. ri_bytes (snd e)" inc]
      by (simp add: ring_ok_def held_bytes_def)
  qed
  moreover have "\<exists>inc'. map_of (cr_incidents ?ring) j = Some inc' \<and> key \<in> set (ri_fingerprint_keys inc')"
    if j: "map_of (cr_fingerprint_index ?ring) key = Some j" for key j
  proof (cases "key \<in> ?new")
    case False
    then obtain old where old: "map_of (cr_incidents ring) j = Some old" "key \<in> set (ri_fingerprint_keys old)"
      using ok j st(8) unfolding ring_ok_def by (metis (no_types, lifting))
    then show ?thesis using st(1,4) by (cases "j = ?i") auto
  qed (use j st(1,4,8) in auto)
  moreover have "distinct (cr_order ?ring)" "set (cr_order ?ring) = dom (map_of (cr_incidents ?ring))"
    using ok st(1,7) by (auto simp: ring_ok_def)
  ultimately show ?thesis
    using ok st(1,6) fit unfolding ring_ok_def by (auto simp: distinct_map_insert)
qed

section \<open>Admission\<close>

lemma lone_incident:
  assumes ok: "ring_ok config ring" and lone: "\<And>j. map_of (cr_incidents ring) j \<noteq> None \<Longrightarrow> j = i"
  shows "cr_total_bytes ring = held_bytes i ring" "length (cr_incidents ring) \<le> 1"
proof -
  have keys: "fst e = i" if "e \<in> set (cr_incidents ring)" for e
  proof -
    have "map_of (cr_incidents ring) (fst e) \<noteq> None"
      using that by (metis map_of_eq_None_iff image_eqI)
    then show ?thesis by (rule lone)
  qed
  have "cr_incidents ring = [] \<or> (\<exists>inc. cr_incidents ring = [(i, inc)])"
  proof (cases "cr_incidents ring")
    case (Cons e es)
    have "es = []"
    proof (cases es)
      case (Cons e' es')
      have "fst e = i" "fst e' = i" using keys \<open>cr_incidents ring = e # es\<close> Cons by auto
      then show ?thesis using ok \<open>cr_incidents ring = e # es\<close> Cons by (simp add: ring_ok_def)
    qed
    then show ?thesis using Cons keys [of e] by (cases e) auto
  qed simp
  then show "cr_total_bytes ring = held_bytes i ring" "length (cr_incidents ring) \<le> 1"
    using ok by (auto simp: ring_ok_def held_bytes_def)
qed

lemma held_cong:
  "map_of (cr_incidents ring') i = map_of (cr_incidents ring) i \<Longrightarrow>
   held_bytes i ring' = held_bytes i ring \<and> held_events i ring' = held_events i ring"
  by (simp add: held_bytes_def held_events_def)

text \<open>What decides over an event, of the incident as it stands after a new generation cleared it.\<close>

definition admission :: "capture_config \<Rightarrow> nat \<Rightarrow> ring_incident option \<Rightarrow> drop_reason option" where
  "admission config n held =
     (if rc_max_event_bytes config < n then Some DropTooLarge
      else case held of
        Some inc \<Rightarrow>
          (if rc_max_events_per_incident config \<le> length (ri_events inc) then Some DropEventCap
           else if rc_max_bytes_per_incident config < ri_bytes inc + n then Some DropIncidentBytes else None)
      | None \<Rightarrow> None)"

definition held_before :: "admitted_event \<Rightarrow> capture_ring \<Rightarrow> ring_incident option" where
  "held_before ev ring =
     (if ae_is_fresh_generation ev then None else map_of (cr_incidents ring) (ae_incident_id ev))"

lemma no_incident:
  assumes "\<And>j. map_of (cr_incidents ring) j = None"
  shows "cr_incidents ring = []"
proof (cases "cr_incidents ring")
  case (Cons e es)
  then show ?thesis using assms [of "fst e"] by simp
qed

lemma evict_while_length:
  assumes "ring_ok config ring"
  shows "length (cr_incidents (evict_while p skip ring)) \<le> length (cr_incidents ring)"
proof -
  let ?config = "config \<lparr> rc_max_captured_incidents := length (cr_incidents ring),
    rc_max_capture_bytes := cr_total_bytes ring \<rparr>"
  have "capped_ring ?config ring" by (simp add: capped_ring_def)
  from evict_while_capped [OF assms this] show ?thesis by (simp add: capped_ring_def)
qed

lemma valid_config:
  "capture_config_validate config = Inr () \<Longrightarrow>
   0 < rc_max_captured_incidents config \<and> 0 < rc_max_events_per_incident config
   \<and> rc_max_event_bytes config \<le> rc_max_bytes_per_incident config
   \<and> rc_max_bytes_per_incident config \<le> rc_max_capture_bytes config"
  by (auto simp: capture_config_validate_def split: if_splits)

text \<open>Making room for an incident, then for the bytes of an event.\<close>

lemma room_for_incident:
  fixes config ring
  defines "full \<equiv> (\<lambda>r. rc_max_captured_incidents config \<le> length (cr_incidents r))"
  assumes "ring_ok config ring" and "0 < rc_max_captured_incidents config"
    and "map_of (cr_incidents ring) i = None"
  shows "\<not> full (evict_while full i ring)"
proof
  let ?r = "evict_while full i ring"
  assume f: "full ?r"
  note w = evict_while_ok [OF assms(2), of full i]
  have "map_of (cr_incidents ?r) j = None" for j
    using w f assms(4) by (metis (no_types, lifting))
  then have "cr_incidents ?r = []" by (rule no_incident)
  then show False using f assms(3) by (simp add: full_def)
qed

lemma room_for_bytes:
  fixes config ring and n :: nat
  defines "over \<equiv> (\<lambda>r. rc_max_capture_bytes config < cr_total_bytes r + n)"
  assumes "ring_ok config ring" and "held_bytes i ring + n \<le> rc_max_capture_bytes config"
  shows "\<not> over (evict_while over i ring)"
proof
  let ?r = "evict_while over i ring"
  assume f: "over ?r"
  note w = evict_while_ok [OF assms(2), of over i]
  have lone: "j = i" if "map_of (cr_incidents ?r) j \<noteq> None" for j
    using w f that by blast
  have "cr_total_bytes ?r = held_bytes i ?r" using w lone_incident(1) [of config ?r i] lone by blast
  also have "\<dots> = held_bytes i ring" using w by (simp add: held_bytes_def)
  finally show False using f assms(3) by (simp add: over_def)
qed

lemma stored_capped:
  assumes "capped_ring config ring" and "cr_config ring = config"
    and "map_of (cr_incidents ring) (ae_incident_id ev) \<noteq> None
      \<or> length (cr_incidents ring) < rc_max_captured_incidents config"
    and "cr_total_bytes ring + length (encode_event al (ae_event ev)) \<le> rc_max_capture_bytes config"
  shows "capped_ring config (ring_store al digest ev now ring)"
proof -
  obtain inc where "cr_incidents (ring_store al digest ev now ring)
      = map_insert (ae_incident_id ev) inc (cr_incidents ring)"
    "cr_total_bytes (ring_store al digest ev now ring)
      = cr_total_bytes ring + cv_event_bytes (captured_form al digest ev now)"
    by (rule store_incidents [where ev = ev and al = al and digest = digest and now = now and ring = ring])
      (rule that, simp_all)
  moreover have "map_of (cr_incidents ring) (ae_incident_id ev) \<noteq> None
      \<longleftrightarrow> ae_incident_id ev \<in> fst ` set (cr_incidents ring)"
    by (simp add: map_of_eq_None_iff)
  ultimately show ?thesis
    using assms by (auto simp: capped_ring_def length_map_insert captured_form_def)
qed

lemma held_stored:
  "held_events (ae_incident_id ev) (ring_store al digest ev now ring)
     = held_events (ae_incident_id ev) ring @ [captured_form al digest ev now]"
proof -
  obtain inc where "cr_incidents (ring_store al digest ev now ring)
      = map_insert (ae_incident_id ev) inc (cr_incidents ring)"
    "ri_events inc = held_events (ae_incident_id ev) ring @ [captured_form al digest ev now]"
    by (rule store_incidents [where ev = ev and al = al and digest = digest and now = now and ring = ring])
      (rule that, simp_all)
  then show ?thesis by (simp add: held_events_def)
qed

lemma admit_exact:
  fixes ev :: admitted_event and al :: alert_env
  defines "i \<equiv> ae_incident_id ev" and "n \<equiv> length (encode_event al (ae_event ev))"
  assumes ok: "ring_ok config ring" and capped: "capped_ring config ring"
    and valid: "capture_config_validate config = Inr ()"
    and admit: "ring_admit al digest ev now ring = (outcome, ring')"
  shows "outcome = admission config n (held_before ev ring)
    \<and> ring_ok config ring' \<and> capped_ring config ring'
    \<and> (outcome = None \<longrightarrow> held_events i ring'
      = (case held_before ev ring of Some inc \<Rightarrow> ri_events inc | None \<Rightarrow> [])
        @ [captured_form al digest ev now])"
proof (cases "rc_max_event_bytes config < n")
  case True
  moreover have "cr_config ring = config" using ok by (simp add: ring_ok_def)
  ultimately show ?thesis using admit ok capped by (auto simp: ring_admit_def admission_def n_def)
next
  case small: False
  note v = valid_config [OF valid]
  have config: "cr_config ring = config" using ok by (simp add: ring_ok_def)
  define full :: "capture_ring \<Rightarrow> bool" where "full = (\<lambda>r. rc_max_captured_incidents config \<le> length (cr_incidents r))"
  define over :: "capture_ring \<Rightarrow> bool" where "over = (\<lambda>r. rc_max_capture_bytes config < cr_total_bytes r + n)"
  define ring1 where "ring1 = (if ae_is_fresh_generation ev \<and> map_of (cr_incidents ring) i \<noteq> None
    then remove_incident i ring else ring)"
  define ring2 where "ring2 = (if map_of (cr_incidents ring1) i = None then evict_while full i ring1 else ring1)"
  define ring3 where "ring3 = evict_while over i ring2"
  let ?held = "held_before ev ring"
  have ok1: "ring_ok config ring1" "capped_ring config ring1" and h1: "map_of (cr_incidents ring1) i = ?held"
    using ok capped remove_ok [OF ok, of i] remove_capped [OF ok capped, of i]
    by (auto simp: ring1_def held_before_def i_def)
  have ok2: "ring_ok config ring2" "capped_ring config ring2" and h2: "map_of (cr_incidents ring2) i = ?held"
    using ok1 h1 evict_while_ok [OF ok1(1), of full i] evict_while_capped [OF ok1, of full i]
    by (auto simp: ring2_def)
  have room: "\<not> full ring2" if "?held = None"
    using room_for_incident [OF ok1(1), of i] v h1 that unfolding ring2_def full_def by simp
  have ok3: "ring_ok config ring3" "capped_ring config ring3" and h3: "map_of (cr_incidents ring3) i = ?held"
    using h2 evict_while_ok [OF ok2(1), of over i] evict_while_capped [OF ok2, of over i]
    by (auto simp: ring3_def)
  have step: "(outcome, ring') =
      (if map_of (cr_incidents ring1) i = None \<and> full ring2 then (Some DropGlobalBytes, ring2)
       else case (case map_of (cr_incidents ring2) i of
           Some inc \<Rightarrow>
             if rc_max_events_per_incident config \<le> length (ri_events inc) then Some DropEventCap
             else if rc_max_bytes_per_incident config < ri_bytes inc + n then Some DropIncidentBytes else None
         | None \<Rightarrow> if rc_max_bytes_per_incident config < n then Some DropIncidentBytes else None) of
           Some reason \<Rightarrow> (Some reason, ring2)
         | None \<Rightarrow> if over ring3 then (Some DropGlobalBytes, ring3)
                   else (None, ring_store al digest ev now ring3))"
    using small unfolding admit [symmetric] ring_admit_def Let_def config ring3_def ring2_def ring1_def
      full_def over_def i_def n_def by (simp only: if_False)
  have outcome: "(outcome, ring') = (case admission config n ?held of
        Some reason \<Rightarrow> (Some reason, ring2)
      | None \<Rightarrow> if over ring3 then (Some DropGlobalBytes, ring3) else (None, ring_store al digest ev now ring3))"
  proof (cases ?held)
    case None
    have "admission config n ?held = (if rc_max_bytes_per_incident config < n then Some DropIncidentBytes else None)"
      using None small v by (simp add: admission_def)
    then show ?thesis using step room None h1 h2 by simp
  next
    case (Some inc)
    then show ?thesis using step small h1 h2 by (simp add: admission_def)
  qed
  show ?thesis
  proof (cases "admission config n ?held")
    case (Some reason)
    then show ?thesis using outcome ok2 by simp
  next
    case None
    have held: "held_bytes i r + n \<le> rc_max_bytes_per_incident config"
      "length (held_events i r) < rc_max_events_per_incident config"
      if "map_of (cr_incidents r) i = ?held" for r
      using None small v that by (auto simp: admission_def held_bytes_def held_events_def split: option.splits if_splits)
    have "held_bytes i ring2 + n \<le> rc_max_capture_bytes config" using held(1) [OF h2] v by linarith
    from room_for_bytes [OF ok2(1) this] have fits: "\<not> over ring3" by (simp add: over_def ring3_def)
    then have out: "outcome = None" "ring' = ring_store al digest ev now ring3" using outcome None by auto
    have "ring_ok config ring'"
      unfolding out(2) using held [OF h3] by (intro store_ok ok3(1)) (simp_all add: i_def n_def)
    moreover have "capped_ring config ring'"
      unfolding out(2)
    proof (rule stored_capped [OF ok3(2)])
      show "cr_config ring3 = config" using ok3(1) by (simp add: ring_ok_def)
      show "map_of (cr_incidents ring3) (ae_incident_id ev) \<noteq> None
          \<or> length (cr_incidents ring3) < rc_max_captured_incidents config"
        using room h3 evict_while_length [OF ok2(1), of over i] unfolding full_def ring3_def i_def
        by (cases ?held) auto
      show "cr_total_bytes ring3 + length (encode_event al (ae_event ev)) \<le> rc_max_capture_bytes config"
        using fits by (simp add: over_def n_def)
    qed
    moreover have "held_events i ring' = (case ?held of Some inc \<Rightarrow> ri_events inc | None \<Rightarrow> [])
        @ [captured_form al digest ev now]"
      using held_stored [of ev al digest now ring3] h3 by (simp add: out(2) i_def held_events_def split: option.split)
    ultimately show ?thesis using None out(1) by simp
  qed
qed

section \<open>Reachable rings\<close>

inductive ring_reached :: "alert_env \<Rightarrow> (string \<Rightarrow> string) \<Rightarrow> capture_config \<Rightarrow> capture_ring \<Rightarrow> bool"
  for al digest config where
  created: "capture_config_validate config = Inr () \<Longrightarrow> ring_reached al digest config (capture_ring_new config)"
| admitted: "ring_reached al digest config ring \<Longrightarrow>
    ring_reached al digest config (snd (ring_admit al digest ev now ring))"
| expired: "ring_reached al digest config ring \<Longrightarrow> ring_reached al digest config (ring_expire now ring)"
| released: "ring_reached al digest config ring \<Longrightarrow> ring_reached al digest config (remove_incident i ring)"

lemma removals_ok:
  "ring_ok config ring \<Longrightarrow> capped_ring config ring \<Longrightarrow>
   ring_ok config (fold remove_incident ks ring) \<and> capped_ring config (fold remove_incident ks ring)"
  by (induction ks arbitrary: ring) (simp_all add: remove_ok remove_capped)

lemma reached_ring:
  "ring_reached al digest config ring \<Longrightarrow>
   capture_config_validate config = Inr () \<and> ring_ok config ring \<and> capped_ring config ring"
proof (induction rule: ring_reached.induct)
  case created
  then show ?case by (simp add: ring_new_ok) (simp add: capped_ring_def capture_ring_new_def)
next
  case (admitted ring ev now)
  obtain outcome ring' where a: "ring_admit al digest ev now ring = (outcome, ring')" by fastforce
  then show ?case using admitted admit_exact [OF _ _ _ a] by simp
qed (auto simp: ring_expire_def Let_def removals_ok remove_ok intro: remove_capped)

text \<open>
  C17: An event offered to the capture ring is refused exactly when it is too large, or its incident
  holds the most events or bytes it may; a new generation starts over.  Under a configuration that
  was validated, global space is never a reason: older incidents make room.  An event that is
  admitted is the last one of its incident's snapshot, after those held before.
\<close>

theorem ring_admit_exact:
  assumes "ring_reached al digest config ring"
    and "ring_admit al digest ev now ring = (outcome, ring')"
  shows "outcome = admission config (length (encode_event al (ae_event ev))) (held_before ev ring)
    \<and> (outcome \<noteq> None \<or> map_option cn_events (snapshot_incident ring' (ae_incident_id ev))
         = Some ((case held_before ev ring of Some inc \<Rightarrow> ri_events inc | None \<Rightarrow> [])
             @ [captured_form al digest ev now]))"
proof -
  from reached_ring [OF assms(1)] admit_exact [OF _ _ _ assms(2)]
  have a: "outcome = admission config (length (encode_event al (ae_event ev))) (held_before ev ring)"
    "outcome = None \<longrightarrow> held_events (ae_incident_id ev) ring'
      = (case held_before ev ring of Some inc \<Rightarrow> ri_events inc | None \<Rightarrow> [])
        @ [captured_form al digest ev now]" by blast+
  then show ?thesis
    by (cases "map_of (cr_incidents ring') (ae_incident_id ev)")
      (auto simp: held_events_def snapshot_incident_def)
qed

definition sample_capture :: capture_config where
  "sample_capture =
     \<lparr> rc_max_captured_incidents = 2, rc_max_events_per_incident = 2, rc_max_event_bytes = 8,
       rc_max_bytes_per_incident = 16, rc_max_capture_bytes = 16, rc_ttl = seconds 60 \<rparr>"

definition sample_admit :: "string \<Rightarrow> admitted_event" where
  "sample_admit i =
     \<lparr> ae_incident_id = i, ae_is_fresh_generation = False, ae_event = JNull,
       ae_matches = [\<lparr> ma_rule_id = ''r'', ma_rule_title = ''r'', ma_fingerprint = Some i \<rparr>] \<rparr>"

definition sample_ring :: capture_ring where
  "sample_ring =
     fold (\<lambda>i ring. snd (ring_admit literal_alert rev (sample_admit i) 5 ring)) [''i'', ''j'', ''j'']
       (capture_ring_new sample_capture)"

lemma sample_ring_reached: "ring_reached literal_alert rev sample_capture sample_ring"
  unfolding sample_ring_def fold_simps
  by (intro ring_reached.admitted ring_reached.created) (simp add: capture_config_validate_def sample_capture_def seconds_def)

text \<open>The third event of incident \<open>j\<close> is one too many; a new incident pushes out the oldest one.\<close>

lemma ring_admit_exact_witness:
  "fst (ring_admit literal_alert rev (sample_admit ''j'') 6 sample_ring) = Some DropEventCap
   \<and> map_option cn_events (snapshot_incident (snd (ring_admit literal_alert rev (sample_admit ''k'') 6 sample_ring)) ''k'')
       = Some [captured_form literal_alert rev (sample_admit ''k'') 6]"
proof -
  obtain out ring' where a: "ring_admit literal_alert rev (sample_admit ''k'') 6 sample_ring = (out, ring')" by fastforce
  obtain out2 ring2 where b: "ring_admit literal_alert rev (sample_admit ''j'') 6 sample_ring = (out2, ring2)" by fastforce
  have k: "held_before (sample_admit ''k'') sample_ring = None"
    "map_option (length \<circ> ri_events) (held_before (sample_admit ''j'') sample_ring) = Some 2"
    by code_simp+
  have n: "length (encode_event literal_alert (ae_event (sample_admit i))) = 4" for i
    by (simp add: encode_event_def literal_alert_def)
  have i: "ae_incident_id (sample_admit ''k'') = ''k''" by (simp add: sample_admit_def)
  from ring_admit_exact [OF sample_ring_reached a] ring_admit_exact [OF sample_ring_reached b]
  show ?thesis using k by (auto simp: a b n i admission_def sample_capture_def)
qed

text \<open>
  C18: A capture ring never holds more incidents, events or bytes than configured, its byte counts
  are those of the events it holds, and a snapshot found by rule and fingerprint contains an event
  with a match of that rule and fingerprint.
\<close>

theorem capture_ring_bounded:
  assumes "ring_reached al digest config ring"
  shows "ct_incidents (ring_stats ring) \<le> rc_max_captured_incidents config
    \<and> ct_bytes (ring_stats ring) \<le> rc_max_capture_bytes config
    \<and> ct_bytes (ring_stats ring)
        = sum_list (map (\<lambda>(_, inc). sum_list (map cv_event_bytes (ri_events inc))) (cr_incidents ring))
    \<and> list_all (\<lambda>(_, inc). length (ri_events inc) \<le> rc_max_events_per_incident config
          \<and> ri_bytes inc \<le> rc_max_bytes_per_incident config) (cr_incidents ring)
    \<and> (case snapshot_fingerprint ring rule fp of
          None \<Rightarrow> True
        | Some snap \<Rightarrow> list_ex (\<lambda>ev. list_ex (\<lambda>m. ma_rule_id m = rule \<and> ma_fingerprint m = Some fp)
              (cv_matches ev)) (cn_events snap))"
proof -
  note r = reached_ring [OF assms]
  then have ok: "ring_ok config ring" and capped: "capped_ring config ring" by auto
  have fit: "incident_fits config inc" if "(i, inc) \<in> set (cr_incidents ring)" for i inc
    using ok that unfolding ring_ok_def by (metis map_of_eq_Some_iff)
  have bytes: "ri_bytes inc = sum_list (map cv_event_bytes (ri_events inc))"
    if "(i, inc) \<in> set (cr_incidents ring)" for i inc using fit [OF that] by (simp add: incident_fits_def)
  have "ct_bytes (ring_stats ring)
      = sum_list (map (\<lambda>(_, inc). sum_list (map cv_event_bytes (ri_events inc))) (cr_incidents ring))"
    using ok bytes by (auto simp: ring_ok_def ring_stats_def intro!: arg_cong [where f = sum_list])
  moreover have "case snapshot_fingerprint ring rule fp of
          None \<Rightarrow> True
        | Some snap \<Rightarrow> list_ex (\<lambda>ev. list_ex (\<lambda>m. ma_rule_id m = rule \<and> ma_fingerprint m = Some fp)
              (cv_matches ev)) (cn_events snap)"
  proof (cases "map_of (cr_fingerprint_index ring) (rule, fp)")
    case (Some i)
    then obtain inc where inc: "map_of (cr_incidents ring) i = Some inc" "(rule, fp) \<in> set (ri_fingerprint_keys inc)"
      using ok unfolding ring_ok_def by blast
    then have "(rule, fp) \<in> event_keys (ri_events inc)"
      using ok unfolding ring_ok_def incident_fits_def by blast
    then show ?thesis
      using Some inc(1)
      by (auto simp: snapshot_fingerprint_def snapshot_incident_def event_keys_def match_key_def list_ex_iff)
  qed (simp add: snapshot_fingerprint_def)
  moreover have "list_all (\<lambda>(_, inc). length (ri_events inc) \<le> rc_max_events_per_incident config
      \<and> ri_bytes inc \<le> rc_max_bytes_per_incident config) (cr_incidents ring)"
    using fit by (fastforce simp: list_all_iff incident_fits_def)
  ultimately show ?thesis using capped by (simp add: capped_ring_def ring_stats_def)
qed

lemma capture_ring_bounded_witness:
  "ct_incidents (ring_stats sample_ring) \<le> 2 \<and> ct_bytes (ring_stats sample_ring) \<le> 16
   \<and> map_option (length \<circ> cn_events) (snapshot_fingerprint sample_ring ''r'' ''j'') = Some 2"
proof -
  have "map_option (length \<circ> cn_events) (snapshot_fingerprint sample_ring ''r'' ''j'') = Some 2" by code_simp
  moreover have "rc_max_captured_incidents sample_capture = 2" "rc_max_capture_bytes sample_capture = 16"
    by (simp_all add: sample_capture_def)
  ultimately show ?thesis using capture_ring_bounded [OF sample_ring_reached] by metis
qed

end
