(* ===== verification/AlertSilence.thy ===== *)
theory AlertSilence
  imports AlertTypes
begin

text \<open>
  Operator silences (\<open>rsigma-runtime/src/alert_pipeline/silence.rs\<close>): a silence mutes the results
  that match it for a stretch of time.  Silences come from the configuration or from the API.
\<close>

section \<open>Limits of API silences\<close>

record silence_limits =
  sl_max_duration :: "duration option"
  sl_allow_broad :: bool

definition default_max_silence_duration :: duration where
  "default_max_silence_duration = seconds (720 * 3600)"

definition silence_limits_default :: silence_limits where
  "silence_limits_default =
     \<lparr> sl_max_duration = Some default_max_silence_duration, sl_allow_broad = False \<rparr>"

datatype silence_origin = SoStatic | SoApi

datatype silence_state = SsPending | SsActive | SsExpired

record silence_spec =
  sps_id :: "string option"
  sps_matchers :: "matcher_spec list"
  sps_starts_at :: "string option"
  sps_ends_at :: "string option"
  sps_created_by :: "string option"
  sps_comment :: "string option"

record silence_view =
  sv_id :: string
  sv_matchers :: "matcher_spec list"
  sv_starts_at :: "string option"
  sv_ends_at :: "string option"
  sv_created_by :: "string option"
  sv_comment :: "string option"
  sv_origin :: silence_origin
  sv_state :: silence_state

record silence_snap =
  sn_id :: string
  sn_matchers :: "matcher_spec list"
  sn_starts_at :: "int option"
  sn_ends_at :: "int option"
  sn_created_by :: "string option"
  sn_comment :: "string option"

datatype silence_error =
  SeEmptyMatchers
| SeMatcher matcher_error
| SeTime string string
| SeWindow
| SeUnbounded duration
| SeTooLong duration
| SeTooBroad

fun show_silence_error :: "alert_env \<Rightarrow> silence_error \<Rightarrow> string" where
  "show_silence_error al SeEmptyMatchers = ''a silence requires at least one matcher''"
| "show_silence_error al (SeMatcher e) = show_matcher_error e"
| "show_silence_error al (SeTime field v) =
     ''invalid '' @ field @ '' '' @ [CHR 0x27] @ v @ [CHR 0x27] @ '': expected an RFC 3339 timestamp''"
| "show_silence_error al SeWindow = ''ends_at must be after starts_at''"
| "show_silence_error al (SeUnbounded m) =
     ''a silence created over the API needs ends_at (max_silence_duration is ''
     @ al_duration_text al (du_secs m) (du_nanos m) @ '')''"
| "show_silence_error al (SeTooLong m) =
     ''ends_at is more than max_silence_duration ('' @ al_duration_text al (du_secs m) (du_nanos m)
     @ '') from now''"
| "show_silence_error al SeTooBroad =
     ''a silence created over the API needs at least one `=` matcher with a non-empty value on rule, ''
     @ ''match.<field>, or correlation.group_key.<field> (allow_broad_silences is off)''"

text \<open>\<open>checked_add\<close> of \<open>i64\<close>s.\<close>

definition checked_add_i64 :: "int \<Rightarrow> int \<Rightarrow> int option" where
  "checked_add_i64 a b = (if in_i64 (a + b) then Some (a + b) else None)"

definition is_scoping_matcher :: "matcher_spec \<Rightarrow> bool" where
  "is_scoping_matcher m =
     (ms_op m = MoEq \<and> ms_value m \<noteq> []
      \<and> (case selector_parse (ms_selector m) of
           Inr SelRule \<Rightarrow> True
         | Inr (SelMatch _) \<Rightarrow> True
         | Inr (SelCorrelationGroupKey _) \<Rightarrow> True
         | _ \<Rightarrow> False))"

definition latest_end :: "duration \<Rightarrow> int \<Rightarrow> int" where
  "latest_end m now =
     (let max_secs = du_secs m + (if 0 < du_nanos m then 1 else 0)
      in case (if int max_secs \<le> i64_max then checked_add_i64 now (int max_secs) else None) of
           Some t \<Rightarrow> t | None \<Rightarrow> i64_max)"

definition check_limits ::
    "matcher_spec list \<Rightarrow> int option \<Rightarrow> silence_limits \<Rightarrow> int \<Rightarrow> silence_error + unit" where
  "check_limits matchers ends_at limits now =
     (let broad = (if \<not> sl_allow_broad limits \<and> \<not> list_ex is_scoping_matcher matchers
                   then Inl SeTooBroad else Inr ())
      in case sl_max_duration limits of
           None \<Rightarrow> broad
         | Some m \<Rightarrow>
             (case ends_at of
                None \<Rightarrow> Inl (SeUnbounded m)
              | Some e \<Rightarrow> if latest_end m now < e then Inl (SeTooLong m) else broad))"

section \<open>A silence\<close>

record silence =
  si_id :: string
  si_matchers :: matcher_set
  si_starts_at :: "int option"
  si_ends_at :: "int option"
  si_created_by :: "string option"
  si_comment :: "string option"
  si_origin :: silence_origin

definition parse_time :: "alert_env \<Rightarrow> string option \<Rightarrow> string \<Rightarrow> silence_error + int option" where
  "parse_time al raw field =
     (case raw of
        None \<Rightarrow> Inr None
      | Some s \<Rightarrow>
          (case dt_parse_rfc3339 (al_ext al) s of
             Some dt \<Rightarrow> Inr (Some (dt_timestamp dt))
           | None \<Rightarrow> Inl (SeTime field s)))"

definition silence_build ::
    "alert_env \<Rightarrow> string list \<Rightarrow> silence_spec \<Rightarrow> silence_origin \<Rightarrow> silence_error + silence" where
  "silence_build al used spec origin =
     (if sps_matchers spec = [] then Inl SeEmptyMatchers
      else result_bind (map_error SeMatcher (matcher_set_compile al (sps_matchers spec))) (\<lambda>matchers.
        result_bind (parse_time al (sps_starts_at spec) ''starts_at'') (\<lambda>starts_at.
          result_bind (parse_time al (sps_ends_at spec) ''ends_at'') (\<lambda>ends_at.
            if (case (starts_at, ends_at) of (Some s, Some e) \<Rightarrow> e \<le> s | _ \<Rightarrow> False)
            then Inl SeWindow
            else Inr \<lparr> si_id = (case sps_id spec of Some i \<Rightarrow> i | None \<Rightarrow> al_uuid al used),
                       si_matchers = matchers, si_starts_at = starts_at, si_ends_at = ends_at,
                       si_created_by = sps_created_by spec, si_comment = sps_comment spec,
                       si_origin = origin \<rparr>))))"

definition silence_build_api ::
    "alert_env \<Rightarrow> string list \<Rightarrow> silence_spec \<Rightarrow> silence_limits \<Rightarrow> int \<Rightarrow> silence_error + silence" where
  "silence_build_api al used spec limits now =
     result_bind (silence_build al used spec SoApi) (\<lambda>s.
       result_map (\<lambda>_. s) (check_limits (sps_matchers spec) (si_ends_at s) limits now))"

definition silence_state_at :: "silence \<Rightarrow> int \<Rightarrow> silence_state" where
  "silence_state_at s now =
     (if (case si_starts_at s of Some b \<Rightarrow> now < b | None \<Rightarrow> False) then SsPending
      else if (case si_ends_at s of Some e \<Rightarrow> e \<le> now | None \<Rightarrow> False) then SsExpired
      else SsActive)"

definition silence_mutes :: "alert_env \<Rightarrow> silence \<Rightarrow> evaluation_result \<Rightarrow> int \<Rightarrow> bool" where
  "silence_mutes al s r now = (silence_state_at s now = SsActive \<and> matcher_set_matches al (si_matchers s) r)"

definition silence_to_snap :: "silence \<Rightarrow> silence_snap" where
  "silence_to_snap s =
     \<lparr> sn_id = si_id s, sn_matchers = matcher_set_to_specs (si_matchers s),
       sn_starts_at = si_starts_at s, sn_ends_at = si_ends_at s,
       sn_created_by = si_created_by s, sn_comment = si_comment s \<rparr>"

definition silence_from_snap :: "alert_env \<Rightarrow> silence_snap \<Rightarrow> silence_error + silence" where
  "silence_from_snap al sn =
     (if sn_matchers sn = [] then Inl SeEmptyMatchers
      else result_map
        (\<lambda>matchers. \<lparr> si_id = sn_id sn, si_matchers = matchers, si_starts_at = sn_starts_at sn,
                      si_ends_at = sn_ends_at sn, si_created_by = sn_created_by sn,
                      si_comment = sn_comment sn, si_origin = SoApi \<rparr>)
        (map_error SeMatcher (matcher_set_compile al (sn_matchers sn))))"

definition silence_view_at :: "alert_env \<Rightarrow> silence \<Rightarrow> int \<Rightarrow> silence_view" where
  "silence_view_at al s now =
     \<lparr> sv_id = si_id s, sv_matchers = matcher_set_to_specs (si_matchers s),
       sv_starts_at = map_option (al_rfc3339 al) (si_starts_at s),
       sv_ends_at = map_option (al_rfc3339 al) (si_ends_at s),
       sv_created_by = si_created_by s, sv_comment = si_comment s,
       sv_origin = si_origin s, sv_state = silence_state_at s now \<rparr>"

section \<open>The store\<close>

type_synonym silence_store = "silence list"

definition silence_add :: "silence \<Rightarrow> silence_store \<Rightarrow> silence_store" where
  "silence_add s st = st @ [s]"

definition dynamic_count :: "silence_store \<Rightarrow> nat" where
  "dynamic_count st = length (filter (\<lambda>s. si_origin s = SoApi) st)"

definition silence_try_add :: "silence \<Rightarrow> nat \<Rightarrow> silence_store \<Rightarrow> bool \<times> silence_store" where
  "silence_try_add s max_dynamic st =
     (if max_dynamic \<le> dynamic_count st then (False, st) else (True, st @ [s]))"

definition silence_remove :: "string \<Rightarrow> silence_store \<Rightarrow> bool \<times> silence_store" where
  "silence_remove i st =
     (let st' = filter (\<lambda>s. si_id s \<noteq> i) st in (length st' \<noteq> length st, st'))"

definition set_static :: "silence list \<Rightarrow> silence_store \<Rightarrow> silence_store" where
  "set_static statics st = filter (\<lambda>s. si_origin s \<noteq> SoStatic) st @ statics"

definition silence_gc :: "int \<Rightarrow> silence_store \<Rightarrow> silence_store" where
  "silence_gc now st = filter (\<lambda>s. silence_state_at s now \<noteq> SsExpired) st"

definition active_match :: "alert_env \<Rightarrow> evaluation_result \<Rightarrow> int \<Rightarrow> silence_store \<Rightarrow> string option" where
  "active_match al r now st = map_option si_id (find (\<lambda>s. silence_mutes al s r now) st)"

definition silence_active_count :: "int \<Rightarrow> silence_store \<Rightarrow> nat" where
  "silence_active_count now st = length (filter (\<lambda>s. silence_state_at s now = SsActive) st)"

definition silence_snapshot :: "alert_env \<Rightarrow> int \<Rightarrow> silence_store \<Rightarrow> silence_view list" where
  "silence_snapshot al now st = map (\<lambda>s. silence_view_at al s now) st"

definition api_snapshot :: "silence_store \<Rightarrow> silence_snap list" where
  "api_snapshot st = map silence_to_snap (filter (\<lambda>s. si_origin s = SoApi) st)"

definition api_over_limits :: "silence_limits \<Rightarrow> int \<Rightarrow> silence_store \<Rightarrow> string list" where
  "api_over_limits limits now st =
     map si_id
       (filter (\<lambda>s. isl (check_limits (matcher_set_to_specs (si_matchers s)) (si_ends_at s) limits now))
         (filter (\<lambda>s. si_origin s = SoApi \<and> silence_state_at s now \<noteq> SsExpired) st))"

definition restore_api :: "alert_env \<Rightarrow> silence_snap list \<Rightarrow> int \<Rightarrow> silence_store \<Rightarrow> silence_store" where
  "restore_api al snaps now st =
     st @ filter_map
       (\<lambda>sn. case silence_from_snap al sn of
               Inr s \<Rightarrow> if silence_state_at s now \<noteq> SsExpired then Some s else None
             | Inl _ \<Rightarrow> None) snaps"

end
