(* ===== verification/AlertInhibit.thy ===== *)
theory AlertInhibit
  imports AlertDedup
begin

text \<open>
  Inhibition (\<open>rsigma-runtime/src/alert_pipeline/inhibit.rs\<close>): while a source was seen within the
  duration of a rule, the targets of the rule with the same values are muted.  A muted result is no
  source; a silenced one is.
\<close>

record inhibit_rule =
  ih_name :: string
  ih_source_match :: matcher_set
  ih_target_match :: matcher_set
  ih_equal :: "selector list"
  ih_duration :: duration

record inhibit_config =
  ic_rules :: "inhibit_rule list"
  ic_max_sources :: nat

record inhibit_source_snap =
  is_rule :: string
  is_equal_key :: string
  is_last_seen :: int

type_synonym inhibit_store = "((string \<times> string) \<times> int) list"

definition equal_key :: "alert_env \<Rightarrow> selector list \<Rightarrow> evaluation_result \<Rightarrow> string" where
  "equal_key al equal r = concat (map (\<lambda>sel. unit_separator @ resolved_text al sel r) equal)"

definition source_key :: "alert_env \<Rightarrow> inhibit_rule \<Rightarrow> evaluation_result \<Rightarrow> string \<times> string" where
  "source_key al rule r = (ih_name rule, equal_key al (ih_equal rule) r)"

definition source_live :: "inhibit_rule \<Rightarrow> int \<Rightarrow> int \<Rightarrow> bool" where
  "source_live rule now last_seen = (sub_i64 now last_seen < as_secs_i64 (ih_duration rule))"

definition inhibits :: "alert_env \<Rightarrow> inhibit_rule \<Rightarrow> evaluation_result \<Rightarrow> int \<Rightarrow> inhibit_store \<Rightarrow> bool" where
  "inhibits al rule r now st =
     (matcher_set_matches al (ih_target_match rule) r \<and> \<not> matcher_set_matches al (ih_source_match rule) r
      \<and> (case map_of st (source_key al rule r) of
           Some t \<Rightarrow> source_live rule now t
         | None \<Rightarrow> False))"

text \<open>A result that is not inhibited is recorded for the rules it is a source of; at the cap a new
  source is refused.\<close>

definition record_source ::
    "alert_env \<Rightarrow> inhibit_config \<Rightarrow> evaluation_result \<Rightarrow> int \<Rightarrow> inhibit_rule \<Rightarrow> inhibit_store \<Rightarrow> inhibit_store" where
  "record_source al cfg r now rule st =
     (if matcher_set_matches al (ih_source_match rule) r then
        let key = source_key al rule r
        in if map_of st key \<noteq> None \<or> length st < ic_max_sources cfg then map_insert key now st else st
      else st)"

definition inhibit_evaluate ::
    "alert_env \<Rightarrow> inhibit_config \<Rightarrow> evaluation_result \<Rightarrow> int \<Rightarrow> inhibit_store \<Rightarrow> string option \<times> inhibit_store" where
  "inhibit_evaluate al cfg r now st =
     (case find (\<lambda>rule. inhibits al rule r now st) (ic_rules cfg) of
        Some rule \<Rightarrow> (Some (ih_name rule), st)
      | None \<Rightarrow> (None, fold (record_source al cfg r now) (ic_rules cfg) st))"

definition source_kept :: "inhibit_config \<Rightarrow> int \<Rightarrow> string \<Rightarrow> int \<Rightarrow> bool" where
  "source_kept cfg now name last_seen =
     (case find (\<lambda>r. ih_name r = name) (ic_rules cfg) of
        Some r \<Rightarrow> source_live r now last_seen
      | None \<Rightarrow> False)"

definition inhibit_gc :: "inhibit_config \<Rightarrow> int \<Rightarrow> inhibit_store \<Rightarrow> inhibit_store" where
  "inhibit_gc cfg now st = filter (\<lambda>((name, _), t). source_kept cfg now name t) st"

definition inhibit_snapshot :: "inhibit_store \<Rightarrow> inhibit_source_snap list" where
  "inhibit_snapshot st =
     map (\<lambda>((rule, key), t). \<lparr> is_rule = rule, is_equal_key = key, is_last_seen = t \<rparr>) st"

definition inhibit_restore ::
    "inhibit_source_snap list \<Rightarrow> inhibit_config \<Rightarrow> int \<Rightarrow> inhibit_store \<Rightarrow> inhibit_store" where
  "inhibit_restore snaps cfg now st =
     fold (\<lambda>sn m. if source_kept cfg now (is_rule sn) (is_last_seen sn)
                  then map_insert (is_rule sn, is_equal_key sn) (is_last_seen sn) m else m) snaps st"

definition inhibit_enforce_cap :: "nat \<Rightarrow> inhibit_store \<Rightarrow> nat \<times> inhibit_store" where
  "inhibit_enforce_cap limit st =
     (let excess = length st - limit
      in if excess = 0 then (0, st)
         else (excess,
               fold map_remove
                 (map snd (take excess
                    (sort_key fst (sort_key (\<lambda>e. fst (snd e)) (sort_key (\<lambda>e. snd (snd e))
                       (map (\<lambda>(key, t). (t, key)) st)))))) st))"

definition inhibit_active_count :: "inhibit_config \<Rightarrow> int \<Rightarrow> inhibit_store \<Rightarrow> nat" where
  "inhibit_active_count cfg now st = length (filter (\<lambda>((name, _), t). source_kept cfg now name t) st)"

end
