(* ===== verification/AlertPipeline.thy ===== *)
theory AlertPipeline
  imports AlertSilence AlertInhibit AlertGroup AlertCapture
begin

text \<open>
  The alert pipeline (\<open>rsigma-runtime/src/alert_pipeline/mod.rs\<close>, \<open>config.rs\<close>, \<open>state.rs\<close>,
  \<open>snapshot.rs\<close>): the stages in order over the results of one event, the tick, snapshots and the
  configuration.  Metrics and logging are left out.
\<close>

section \<open>State and configuration\<close>

record alert_state =
  as_dedup :: dedup_store
  as_incidents :: incident_store
  as_silences :: silence_store
  as_inhibit :: inhibit_store

definition alert_state_default :: alert_state where
  "alert_state_default =
     \<lparr> as_dedup = [], as_incidents = incident_store_empty, as_silences = [], as_inhibit = [] \<rparr>"

record alert_pipeline =
  ap_scope :: scope_filter
  ap_strip_event :: bool
  ap_dedup :: "dedup_config option"
  ap_group :: "group_config option"
  ap_static_silences :: "silence list"
  ap_inhibit :: "inhibit_config option"
  ap_max_silences :: nat
  ap_silence_limits :: silence_limits

definition group_by_selectors :: "alert_pipeline \<Rightarrow> selector list option" where
  "group_by_selectors ap =
     (case ap_group ap of
        Some g \<Rightarrow> if gc_mode g = GmGroupBy then Some (gc_by g) else None
      | None \<Rightarrow> None)"

definition capture_incompatibility_of :: "alert_pipeline \<Rightarrow> capture_incompatibility option" where
  "capture_incompatibility_of ap =
     (case ap_group ap of
        None \<Rightarrow> Some CiMissingGroupBy
      | Some g \<Rightarrow>
          if gc_mode g = GmEntityGraph then Some CiEntityGraph
          else (case ap_dedup ap of
            None \<Rightarrow> None
          | Some d \<Rightarrow>
              (let missing = map selector_as_str (filter (\<lambda>sel. sel \<notin> set (dc_fingerprint d)) (gc_by g))
               in if missing = [] then None else Some (CiDedupSelectorsMissing missing))))"

section \<open>Processing\<close>

definition annotate_incident :: "evaluation_result \<Rightarrow> string \<Rightarrow> evaluation_result" where
  "annotate_incident r i =
     r \<lparr> er_header := (er_header r)
           \<lparr> rh_enrichments := Some (btree_insert ''incident_id'' (JString i)
               (case rh_enrichments (er_header r) of Some m \<Rightarrow> m | None \<Rightarrow> [])) \<rparr> \<rparr>"

definition offer_capture ::
    "alert_env \<Rightarrow> alert_pipeline \<Rightarrow> evaluation_result \<Rightarrow> incident_store \<Rightarrow> bool \<Rightarrow> pending_capture option" where
  "offer_capture al ap r incidents capture_ok =
     (case er_body r of
        RbCorrelation _ \<Rightarrow> Some (PcReject CrUnsupportedResultKind)
      | RbDetection d \<Rightarrow>
          if \<not> capture_ok then None
          else (case db_event d of
            None \<Rightarrow> Some (PcReject CrMissingEvent)
          | Some ev \<Rightarrow>
              (case ap_group ap of
                 None \<Rightarrow> None
               | Some gcfg \<Rightarrow>
                   (let i = fst (group_fingerprint al (gc_by gcfg) r)
                    in if \<not> can_assign incidents i (cp_max_open_incidents (gc_caps gcfg))
                       then Some (PcReject CrNotAssignable)
                       else Some (PcAdmit
                         \<lparr> pa_incident_id = i,
                           pa_is_fresh_generation = (map_of (st_incidents incidents) i = None),
                           pa_event = ev,
                           pa_match = \<lparr> ma_rule_id = rule_of_header (er_header r),
                                        ma_rule_title = rh_rule_title (er_header r),
                                        ma_fingerprint = map_option
                                          (\<lambda>cfg. fingerprint al (dc_fingerprint cfg) r) (ap_dedup ap) \<rparr> \<rparr>)))))"

text \<open>The stages: \<open>Inl\<close> with the reason a result is dropped.\<close>

datatype drop_kind = Inhibited string | Silenced string | Folded

definition inhibit_stage ::
    "alert_env \<Rightarrow> alert_pipeline \<Rightarrow> evaluation_result \<Rightarrow> int \<Rightarrow> alert_state \<Rightarrow> string option \<times> alert_state" where
  "inhibit_stage al ap r now st =
     (case ap_inhibit ap of
        None \<Rightarrow> (None, st)
      | Some icfg \<Rightarrow>
          (case inhibit_evaluate al icfg r now (as_inhibit st) of
             (dropped, sources) \<Rightarrow> (dropped, st \<lparr> as_inhibit := sources \<rparr>)))"

definition dedup_stage ::
    "alert_env \<Rightarrow> alert_pipeline \<Rightarrow> evaluation_result \<Rightarrow> int \<Rightarrow> alert_state \<Rightarrow> bool \<times> alert_state" where
  "dedup_stage al ap r now st =
     (case ap_dedup ap of
        None \<Rightarrow> (False, st)
      | Some cfg \<Rightarrow>
          (let fp = fingerprint al (dc_fingerprint cfg) r
           in if dedup_contains (as_dedup st) fp
              then (True, st \<lparr> as_dedup := dedup_fold fp now (as_dedup st) \<rparr>)
              else if length (as_dedup st) < dc_max_active_alerts cfg
              then (False, st \<lparr> as_dedup := dedup_insert fp now (sample_of al r)
                                  (resolve_fields (dc_fingerprint cfg) r) (as_dedup st) \<rparr>)
              else (False, st)))"

definition group_stage ::
    "alert_env \<Rightarrow> alert_pipeline \<Rightarrow> evaluation_result \<Rightarrow> int \<Rightarrow> alert_state \<Rightarrow> string option \<times> alert_state" where
  "group_stage al ap r now st =
     (case ap_group ap of
        None \<Rightarrow> (None, st)
      | Some gcfg \<Rightarrow>
          (case incident_assign al gcfg r now (as_incidents st) of
             (i, incidents) \<Rightarrow> (i, st \<lparr> as_incidents := incidents \<rparr>)))"

definition emitted_form :: "alert_pipeline \<Rightarrow> evaluation_result \<Rightarrow> string option \<Rightarrow> evaluation_result" where
  "emitted_form ap r incident_id =
     (let r1 = (if ap_strip_event ap then strip_event_payloads r else r)
      in case incident_id of Some i \<Rightarrow> annotate_incident r1 i | None \<Rightarrow> r1)"

text \<open>One result: kept or dropped, the state after it, and what it offers to a capture sink.\<close>

definition process_one ::
    "alert_env \<Rightarrow> alert_pipeline \<Rightarrow> int \<Rightarrow> bool \<Rightarrow> evaluation_result \<Rightarrow> alert_state
     \<Rightarrow> (drop_kind + evaluation_result) \<times> alert_state \<times> pending_capture option" where
  "process_one al ap now capturing r st =
     (if \<not> scope_matches (ap_scope ap) r then (Inr r, st, None)
      else case inhibit_stage al ap r now st of
        (Some rule, st1) \<Rightarrow> (Inl (Inhibited rule), st1, None)
      | (None, st1) \<Rightarrow>
          (case active_match al r now (as_silences st1) of
             Some i \<Rightarrow> (Inl (Silenced i), st1, None)
           | None \<Rightarrow>
               (let offered = (if capturing
                      then offer_capture al ap r (as_incidents st1) (capture_incompatibility_of ap = None)
                      else None)
                in case dedup_stage al ap r now st1 of
                     (True, st2) \<Rightarrow> (Inl Folded, st2, offered)
                   | (False, st2) \<Rightarrow>
                       (case group_stage al ap r now st2 of
                          (i, st3) \<Rightarrow> (Inr (emitted_form ap r i), st3, offered)))))"

fun process_results ::
    "alert_env \<Rightarrow> alert_pipeline \<Rightarrow> int \<Rightarrow> bool \<Rightarrow> evaluation_result list \<Rightarrow> alert_state
     \<Rightarrow> evaluation_result list \<times> alert_state \<times> pending_capture list" where
  "process_results al ap now capturing [] st = ([], st, [])"
| "process_results al ap now capturing (r # rs) st =
     (case process_one al ap now capturing r st of (outcome, st1, offered) \<Rightarrow>
        (case process_results al ap now capturing rs st1 of (kept, st2, pending) \<Rightarrow>
           ((case outcome of Inr r' \<Rightarrow> [r'] | Inl _ \<Rightarrow> []) @ kept, st2,
            (case offered of Some p \<Rightarrow> [p] | None \<Rightarrow> []) @ pending)))"

definition process_with_capture ::
    "alert_env \<Rightarrow> alert_pipeline \<Rightarrow> evaluation_result list \<Rightarrow> alert_state \<Rightarrow> int \<Rightarrow> bool
     \<Rightarrow> evaluation_result list \<times> alert_state \<times> capture_reject list \<times> admitted_event list" where
  "process_with_capture al ap results st now capturing =
     (case process_results al ap now capturing results st of (kept, st', pending) \<Rightarrow>
        (kept, st', flush_pending al pending))"

definition process_alerts ::
    "alert_env \<Rightarrow> alert_pipeline \<Rightarrow> evaluation_result list \<Rightarrow> alert_state \<Rightarrow> int
     \<Rightarrow> evaluation_result list \<times> alert_state" where
  "process_alerts al ap results st now =
     (case process_with_capture al ap results st now False of (kept, st', _) \<Rightarrow> (kept, st'))"

section \<open>Time\<close>

record tick_output =
  to_dedup_lines :: "json_value list"
  to_incidents :: "incident_result list"

definition alert_tick :: "alert_pipeline \<Rightarrow> alert_state \<Rightarrow> int \<Rightarrow> tick_output \<times> alert_state" where
  "alert_tick ap st now =
     (let d = (case ap_dedup ap of None \<Rightarrow> ([], as_dedup st) | Some cfg \<Rightarrow> dedup_tick cfg now (as_dedup st));
          g = (case ap_group ap of None \<Rightarrow> ([], as_incidents st)
               | Some gcfg \<Rightarrow> incident_tick gcfg now (as_incidents st))
      in (\<lparr> to_dedup_lines = map dr_json (fst d), to_incidents = map ie_result (fst g) \<rparr>,
          st \<lparr> as_dedup := snd d, as_incidents := snd g,
               as_silences := silence_gc now (as_silences st),
               as_inhibit := (case ap_inhibit ap of None \<Rightarrow> as_inhibit st
                              | Some icfg \<Rightarrow> inhibit_gc icfg now (as_inhibit st)) \<rparr>))"

section \<open>Snapshots\<close>

definition alert_snapshot_version :: nat where "alert_snapshot_version = 1"

record alert_snapshot =
  an_version :: nat
  an_dedup :: "(string \<times> active_alert) list"
  an_incidents :: "incident list"
  an_silences :: "silence_snap list"
  an_inhibit_sources :: "inhibit_source_snap list"

definition alert_snapshot_of :: "alert_state \<Rightarrow> alert_snapshot" where
  "alert_snapshot_of st =
     \<lparr> an_version = alert_snapshot_version, an_dedup = dedup_snapshot (as_dedup st),
       an_incidents = incidents_export (as_incidents st), an_silences = api_snapshot (as_silences st),
       an_inhibit_sources = inhibit_snapshot (as_inhibit st) \<rparr>"

record cap_trim =
  ctr_dedup_alerts :: nat
  ctr_incidents :: nat
  ctr_inhibit_sources :: nat

definition alert_enforce_caps :: "alert_pipeline \<Rightarrow> alert_state \<Rightarrow> cap_trim \<times> alert_state" where
  "alert_enforce_caps ap st =
     (let d = (case ap_dedup ap of None \<Rightarrow> (0, as_dedup st)
               | Some cfg \<Rightarrow> dedup_enforce_cap (dc_max_active_alerts cfg) (as_dedup st));
          g = (case ap_group ap of None \<Rightarrow> (0, as_incidents st)
               | Some gcfg \<Rightarrow> incident_enforce_caps (gc_caps gcfg) (as_incidents st));
          i = (case ap_inhibit ap of None \<Rightarrow> (0, as_inhibit st)
               | Some icfg \<Rightarrow> inhibit_enforce_cap (ic_max_sources icfg) (as_inhibit st))
      in (\<lparr> ctr_dedup_alerts = fst d, ctr_incidents = fst g, ctr_inhibit_sources = fst i \<rparr>,
          st \<lparr> as_dedup := snd d, as_incidents := snd g, as_inhibit := snd i \<rparr>))"

definition alert_restore ::
    "alert_env \<Rightarrow> alert_pipeline \<Rightarrow> alert_snapshot \<Rightarrow> int \<Rightarrow> alert_state \<Rightarrow> bool \<times> alert_state" where
  "alert_restore al ap snap now st =
     (if an_version snap \<noteq> alert_snapshot_version then (False, st)
      else (True,
        st \<lparr> as_silences := restore_api al (an_silences snap) now (as_silences st),
             as_dedup := (case ap_dedup ap of None \<Rightarrow> as_dedup st
               | Some cfg \<Rightarrow> snd (dedup_enforce_cap (dc_max_active_alerts cfg)
                   (dedup_restore (an_dedup snap) now (as_secs_i64 (dc_resolve_timeout cfg)) (as_dedup st)))),
             as_incidents := (case ap_group ap of None \<Rightarrow> as_incidents st
               | Some g \<Rightarrow> snd (incident_restore (an_incidents snap) now
                   (as_secs_i64 (gc_resolve_timeout g)) (gc_caps g) (as_incidents st))),
             as_inhibit := (case ap_inhibit ap of None \<Rightarrow> as_inhibit st
               | Some icfg \<Rightarrow> snd (inhibit_enforce_cap (ic_max_sources icfg)
                   (inhibit_restore (an_inhibit_sources snap) icfg now (as_inhibit st)))) \<rparr>))"

section \<open>Building from a configuration file\<close>

record inhibit_rule_file =
  ihf_name :: "string option"
  ihf_source_match :: "matcher_spec list"
  ihf_target_match :: "matcher_spec list"
  ihf_equal :: "string list"
  ihf_duration :: "duration option"

record scope_config =
  scf_rules :: "string list"
  scf_tags :: "string list"
  scf_levels :: "string list"

record dedup_file =
  df_fingerprint :: "string list"
  df_repeat_interval :: "duration option"
  df_resolve_timeout :: "duration option"
  df_max_active_alerts :: "nat option"

record caps_file =
  cf_max_open_incidents :: "nat option"
  cf_max_entities_per_incident :: "nat option"
  cf_max_results_per_incident :: "nat option"
  cf_max_value_cardinality :: "nat option"

record group_file =
  gf_mode :: grouping_mode
  gf_by :: "string list"
  gf_entities :: "string list"
  gf_group_wait :: "duration option"
  gf_group_interval :: "duration option"
  gf_repeat_interval :: "duration option"
  gf_resolve_timeout :: "duration option"
  gf_include :: include_mode
  gf_caps :: "caps_file option"
  gf_stop_values :: "string list"
  gf_nats_subject :: "string option"

record alert_pipeline_file =
  pf_strip_event :: bool
  pf_scope :: "scope_config option"
  pf_dedup :: "dedup_file option"
  pf_group :: "group_file option"
  pf_silences :: "silence_spec list"
  pf_max_silences :: "nat option"
  pf_max_silence_duration :: "duration option"
  pf_allow_broad_silences :: bool
  pf_inhibit_rules :: "inhibit_rule_file list"
  pf_max_inhibit_sources :: "nat option"

datatype alert_config_error =
  AceSelector selector_parse_error
| AceScope string
| AceEmptyFingerprint
| AceGroupSelector selector_parse_error
| AceEmptyGroupBy
| AceEmptyEntities
| AceSilence silence_error
| AceInhibitMatcher matcher_error
| AceInhibitSelector selector_parse_error
| AceEmptyInhibitMatch

definition or_default :: "'a option \<Rightarrow> 'a \<Rightarrow> 'a" where
  "or_default x d = (case x of Some v \<Rightarrow> v | None \<Rightarrow> d)"

definition build_dedup :: "dedup_file \<Rightarrow> alert_config_error + dedup_config" where
  "build_dedup d =
     result_bind (map_error AceSelector (collect_results selector_parse (df_fingerprint d))) (\<lambda>fp.
       if fp = [] then Inl AceEmptyFingerprint
       else Inr \<lparr> dc_fingerprint = fp,
                  dc_repeat_interval = or_default (df_repeat_interval d) (seconds 0),
                  dc_resolve_timeout = or_default (df_resolve_timeout d) (seconds 3600),
                  dc_max_active_alerts = or_default (df_max_active_alerts d) 100000 \<rparr>)"

definition build_inhibit_rule ::
    "alert_env \<Rightarrow> nat \<times> inhibit_rule_file \<Rightarrow> alert_config_error + inhibit_rule" where
  "build_inhibit_rule al ir =
     (case ir of (i, rule) \<Rightarrow>
        if ihf_source_match rule = [] \<or> ihf_target_match rule = [] then Inl AceEmptyInhibitMatch
        else
          result_bind (map_error AceInhibitMatcher (matcher_set_compile al (ihf_source_match rule))) (\<lambda>source.
            result_bind (map_error AceInhibitMatcher (matcher_set_compile al (ihf_target_match rule))) (\<lambda>target.
              result_map
                (\<lambda>equal. \<lparr> ih_name = or_default (ihf_name rule) (''inhibit_rule_'' @ show_nat i),
                           ih_source_match = source, ih_target_match = target, ih_equal = equal,
                           ih_duration = or_default (ihf_duration rule) (seconds 300) \<rparr>)
                (map_error AceInhibitSelector (collect_results selector_parse (ihf_equal rule))))))"

definition build_inhibit ::
    "alert_env \<Rightarrow> inhibit_rule_file list \<Rightarrow> nat \<Rightarrow> alert_config_error + inhibit_config" where
  "build_inhibit al rules max_sources =
     result_map (\<lambda>out. \<lparr> ic_rules = out, ic_max_sources = max_sources \<rparr>)
       (collect_results (build_inhibit_rule al) (zip [0 ..< length rules] rules))"

definition build_caps :: "caps_file option \<Rightarrow> caps" where
  "build_caps cf =
     (case cf of
        None \<Rightarrow> caps_default
      | Some c \<Rightarrow>
          \<lparr> cp_max_open_incidents = or_default (cf_max_open_incidents c) (cp_max_open_incidents caps_default),
            cp_max_entities_per_incident =
              or_default (cf_max_entities_per_incident c) (cp_max_entities_per_incident caps_default),
            cp_max_results_per_incident =
              or_default (cf_max_results_per_incident c) (cp_max_results_per_incident caps_default),
            cp_max_value_cardinality =
              or_default (cf_max_value_cardinality c) (cp_max_value_cardinality caps_default) \<rparr>)"

definition build_group :: "group_file \<Rightarrow> alert_config_error + group_config" where
  "build_group g =
     result_bind (map_error AceGroupSelector (collect_results selector_parse (gf_by g))) (\<lambda>sels.
       result_bind (map_error AceGroupSelector (collect_results selector_parse (gf_entities g))) (\<lambda>entities.
         if gf_mode g = GmGroupBy \<and> sels = [] then Inl AceEmptyGroupBy
         else if gf_mode g = GmEntityGraph \<and> entities = [] then Inl AceEmptyEntities
         else Inr
           \<lparr> gc_mode = gf_mode g, gc_by = sels, gc_entities = entities,
             gc_group_wait = or_default (gf_group_wait g) (seconds 30),
             gc_group_interval = or_default (gf_group_interval g) (seconds 300),
             gc_repeat_interval = or_default (gf_repeat_interval g) (seconds 0),
             gc_resolve_timeout = or_default (gf_resolve_timeout g) (seconds 3600),
             gc_include = gf_include g, gc_caps = build_caps (gf_caps g),
             gc_stop_values = sort_dedup (gf_stop_values g),
             gc_nats_subject = gf_nats_subject g \<rparr>))"

definition build_alert_pipeline ::
    "alert_env \<Rightarrow> alert_pipeline_file \<Rightarrow> alert_config_error + alert_pipeline" where
  "build_alert_pipeline al file =
     result_bind
       (case pf_scope file of
          None \<Rightarrow> Inr scope_default
        | Some s \<Rightarrow> map_error AceScope (scope_new al (scf_rules s) (scf_tags s) (scf_levels s))) (\<lambda>sc.
     result_bind
       (case pf_dedup file of None \<Rightarrow> Inr None | Some d \<Rightarrow> result_map Some (build_dedup d)) (\<lambda>dedup.
     result_bind
       (case pf_group file of None \<Rightarrow> Inr None | Some g \<Rightarrow> result_map Some (build_group g)) (\<lambda>group.
     result_bind
       (collect_results (\<lambda>spec. map_error AceSilence (silence_build al [] spec SoStatic)) (pf_silences file)) (\<lambda>statics.
     result_map
       (\<lambda>inhibit.
          \<lparr> ap_scope = sc, ap_strip_event = pf_strip_event file, ap_dedup = dedup, ap_group = group,
            ap_static_silences = statics, ap_inhibit = inhibit,
            ap_max_silences = or_default (pf_max_silences file) 1000,
            ap_silence_limits =
              \<lparr> sl_max_duration =
                  (case pf_max_silence_duration file of
                     Some d \<Rightarrow> if d = seconds 0 then None else Some d
                   | None \<Rightarrow> Some default_max_silence_duration),
                sl_allow_broad = pf_allow_broad_silences file \<rparr> \<rparr>)
       (if pf_inhibit_rules file = [] then Inr None
        else result_map Some
          (build_inhibit al (pf_inhibit_rules file) (or_default (pf_max_inhibit_sources file) 100000)))))))"

end
