(* ===== verification/AlertProps.thy ===== *)
theory AlertProps
  imports AlertRingProps AlertPipeline
begin

text \<open>
  What the stages promise over a stream of results: deduplication passes the first result of each
  fingerprint and counts the others, and inhibition mutes by the history of unmuted results.
\<close>

section \<open>Deduplication\<close>

text \<open>
  What a batch lets through, from the fingerprints active at its start: results out of scope, and of
  the others that no silence mutes the first of each fingerprint that is not active, which becomes
  active while the table has room.
\<close>

fun let_through ::
    "alert_env \<Rightarrow> alert_pipeline \<Rightarrow> dedup_config \<Rightarrow> int \<Rightarrow> silence_store \<Rightarrow> string list \<Rightarrow> evaluation_result list
     \<Rightarrow> evaluation_result list" where
  "let_through al ap cfg now silences active [] = []"
| "let_through al ap cfg now silences active (r # rs) =
     (let fp = fingerprint al (dc_fingerprint cfg) r
      in if \<not> scope_matches (ap_scope ap) r then r # let_through al ap cfg now silences active rs
         else if active_match al r now silences \<noteq> None \<or> fp \<in> set active
         then let_through al ap cfg now silences active rs
         else r # let_through al ap cfg now silences
                (if length active < dc_max_active_alerts cfg then active @ [fp] else active) rs)"

definition counted ::
    "alert_env \<Rightarrow> alert_pipeline \<Rightarrow> dedup_config \<Rightarrow> int \<Rightarrow> silence_store \<Rightarrow> string \<Rightarrow> evaluation_result \<Rightarrow> bool" where
  "counted al ap cfg now silences fp r \<longleftrightarrow>
     scope_matches (ap_scope ap) r \<and> active_match al r now silences = None
     \<and> fingerprint al (dc_fingerprint cfg) r = fp"

definition fires :: "dedup_store \<Rightarrow> string \<Rightarrow> nat" where
  "fires st fp = (case map_of st fp of Some alert \<Rightarrow> aa_fire_count alert | None \<Rightarrow> 0)"

lemma dedup_keys_insert:
  "map fst (map_insert k v m) = (if map_of m k = None then map fst m @ [k] else map fst m)"
  by (induction m) auto

lemma not_key: "map_of m k = None \<longleftrightarrow> k \<notin> set (map fst m)"
  by (auto simp: map_of_eq_None_iff)

text \<open>The dedup stage on one result.\<close>

lemma dedup_stage_steps:
  fixes ap :: alert_pipeline
  assumes "ap_dedup ap = Some cfg" and "dedup_stage al ap r now st = (folded, st')"
    and "fp = fingerprint al (dc_fingerprint cfg) r"
  shows "folded \<longleftrightarrow> map_of (as_dedup st) fp \<noteq> None"
    and "map fst (as_dedup st') = (if map_of (as_dedup st) fp = None \<and> length (as_dedup st) < dc_max_active_alerts cfg
        then map fst (as_dedup st) @ [fp] else map fst (as_dedup st))"
    and "fires (as_dedup st') k = fires (as_dedup st) k
        + (if k = fp \<and> (folded \<or> length (as_dedup st) < dc_max_active_alerts cfg) then 1 else 0)"
    and "as_silences st' = as_silences st"
  using assms
  by (auto simp: dedup_stage_def Let_def dedup_contains_def dedup_fold_def dedup_insert_def fires_def
      dedup_keys_insert split: if_splits option.splits)

lemma group_stage_frame:
  assumes "group_stage al ap r now st = (i, st')"
  shows "as_dedup st' = as_dedup st" "as_silences st' = as_silences st"
  using assms by (auto simp: group_stage_def split: option.splits prod.splits)

text \<open>One result through the stages, without inhibition: out of scope, silenced, or deduplicated.\<close>

lemma process_one_dedup:
  assumes "ap_dedup ap = Some cfg" and "ap_inhibit ap = None"
    and one: "process_one al ap now capturing r st = (outcome, st', offered)"
    and fp: "fp = fingerprint al (dc_fingerprint cfg) r"
  obtains (out) "\<not> scope_matches (ap_scope ap) r" "outcome = Inr r" "st' = st"
  | (silenced) d where "scope_matches (ap_scope ap) r" "active_match al r now (as_silences st) \<noteq> None"
      "outcome = Inl d" "st' = st"
  | (folded) d where "scope_matches (ap_scope ap) r" "active_match al r now (as_silences st) = None"
      "fp \<in> set (map fst (as_dedup st))" "outcome = Inl d" "as_silences st' = as_silences st"
      "map fst (as_dedup st') = map fst (as_dedup st)"
      "\<And>k. fires (as_dedup st') k = fires (as_dedup st) k + (if k = fp then 1 else 0)"
  | (passed) i where "scope_matches (ap_scope ap) r" "active_match al r now (as_silences st) = None"
      "fp \<notin> set (map fst (as_dedup st))" "outcome = Inr (emitted_form ap r i)" "as_silences st' = as_silences st"
      "map fst (as_dedup st') = (if length (as_dedup st) < dc_max_active_alerts cfg
        then map fst (as_dedup st) @ [fp] else map fst (as_dedup st))"
      "\<And>k. fires (as_dedup st') k = fires (as_dedup st) k
        + (if k = fp \<and> length (as_dedup st) < dc_max_active_alerts cfg then 1 else 0)"
proof -
  have unmuted: "inhibit_stage al ap r now st = (None, st)"
    using assms(2) by (simp add: inhibit_stage_def)
  obtain b st1 where d: "dedup_stage al ap r now st = (b, st1)" by fastforce
  obtain i st2 where g: "group_stage al ap r now st1 = (i, st2)" by fastforce
  note s = dedup_stage_steps [OF assms(1) d fp] and f = group_stage_frame [OF g]
  show thesis
  proof (cases "scope_matches (ap_scope ap) r")
    case False
    with one show thesis by (intro out) (simp_all add: process_one_def)
  next
    case scope: True
    show thesis
    proof (cases "active_match al r now (as_silences st)")
      case (Some i)
      with scope one unmuted show thesis by (intro silenced) (auto simp: process_one_def)
    next
      case None
      show thesis
      proof (cases b)
        case True
        with one unmuted scope None d have "outcome = Inl Folded" "st' = st1"
          by (auto simp: process_one_def Let_def)
        moreover have "map_of (as_dedup st) fp \<noteq> None" using s(1) True by simp
        ultimately show thesis
          using scope None s(2-4) True by (intro folded) (auto simp: not_key)
      next
        case False
        with one unmuted scope None d g have "outcome = Inr (emitted_form ap r i)" "st' = st2"
          by (auto simp: process_one_def Let_def)
        moreover have "map_of (as_dedup st) fp = None" using s(1) False by simp
        ultimately show thesis
          using scope None s(2-4) False f by (intro passed) (auto simp: not_key)
      qed
    qed
  qed
qed

lemma process_results_dedup:
  assumes "ap_dedup ap = Some cfg" and "ap_inhibit ap = None"
    and "process_results al ap now capturing rs st = (kept, st', pending)"
  shows "list_all2 (\<lambda>r k. if scope_matches (ap_scope ap) r then \<exists>i. k = emitted_form ap r i else k = r)
      (let_through al ap cfg now (as_silences st) (map fst (as_dedup st)) rs) kept
    \<and> (map_of (as_dedup st') fp \<noteq> None \<longrightarrow>
        fires (as_dedup st') fp = fires (as_dedup st) fp
          + length (filter (counted al ap cfg now (as_silences st) fp) rs))
    \<and> (dc_max_active_alerts cfg \<le> length (as_dedup st) \<longrightarrow> map fst (as_dedup st') = map fst (as_dedup st))"
  using assms(3)
proof (induction rs arbitrary: st kept pending)
  case (Cons r rs)
  let ?fp = "fingerprint al (dc_fingerprint cfg) r" and ?active = "map fst (as_dedup st)"
  obtain outcome st1 offered where one: "process_one al ap now capturing r st = (outcome, st1, offered)"
    by (metis prod_cases3)
  with Cons.prems obtain kept1 pending1 where rest: "process_results al ap now capturing rs st1 = (kept1, st', pending1)"
    and kept: "kept = (case outcome of Inr r' \<Rightarrow> [r'] | Inl _ \<Rightarrow> []) @ kept1"
    by (auto split: prod.splits)
  note IH = Cons.IH [OF rest]
  show ?case
  proof (rule process_one_dedup [OF assms(1,2) one refl])
    assume "\<not> scope_matches (ap_scope ap) r" "outcome = Inr r" "st1 = st"
    with IH show ?case by (simp add: kept counted_def)
  next
    fix d assume "scope_matches (ap_scope ap) r" "active_match al r now (as_silences st) \<noteq> None"
      "outcome = Inl d" "st1 = st"
    with IH show ?case by (auto simp: kept counted_def Let_def)
  next
    fix d assume "scope_matches (ap_scope ap) r" "active_match al r now (as_silences st) = None"
      "?fp \<in> set ?active" "outcome = Inl d" "as_silences st1 = as_silences st" "map fst (as_dedup st1) = ?active"
      "\<And>k. fires (as_dedup st1) k = fires (as_dedup st) k + (if k = ?fp then 1 else 0)"
    moreover from this have "length (as_dedup st1) = length (as_dedup st)" by (metis length_map)
    ultimately show ?case using IH by (simp add: kept counted_def Let_def)
  next
    fix i assume passed: "scope_matches (ap_scope ap) r" "active_match al r now (as_silences st) = None"
      "?fp \<notin> set ?active" "outcome = Inr (emitted_form ap r i)" "as_silences st1 = as_silences st"
      "map fst (as_dedup st1) = (if length (as_dedup st) < dc_max_active_alerts cfg then ?active @ [?fp] else ?active)"
      "\<And>k. fires (as_dedup st1) k = fires (as_dedup st) k
        + (if k = ?fp \<and> length (as_dedup st) < dc_max_active_alerts cfg then 1 else 0)"
    show ?case
    proof (cases "length (as_dedup st) < dc_max_active_alerts cfg")
      case True
      with IH passed show ?thesis by (auto simp: kept counted_def Let_def)
    next
      case False
      then have "length (as_dedup st1) = length (as_dedup st)" using passed(6) by (metis length_map)
      with False have full: "dc_max_active_alerts cfg \<le> length (as_dedup st1)" by simp
      with IH passed(6) False have "map fst (as_dedup st') = ?active" by simp
      then have "map_of (as_dedup st') ?fp = None" using passed(3) unfolding not_key by metis
      with IH passed False full \<open>map fst (as_dedup st') = ?active\<close> show ?thesis
        by (auto simp: kept counted_def Let_def)
    qed
  qed
qed simp

text \<open>
  C16: With deduplication on and no inhibition rules, a batch of results lets through, in order, the
  results out of scope, unchanged, and of the results in scope that no silence mutes exactly the first
  of each fingerprint that is not active, in the form the stages emit; a fingerprint let through
  becomes active as long as the table has fewer than its maximum of active alerts, and beyond that its
  results all pass.  For every fingerprint active after the batch, the fire count grew by the number of
  its results in scope and not silenced.
\<close>

theorem dedup_exact:
  assumes "ap_dedup ap = Some cfg" and "ap_inhibit ap = None"
    and "process_alerts al ap rs st now = (kept, st')"
  shows "list_all2 (\<lambda>r k. if scope_matches (ap_scope ap) r then \<exists>i. k = emitted_form ap r i else k = r)
      (let_through al ap cfg now (as_silences st) (map fst (as_dedup st)) rs) kept
    \<and> (map_of (as_dedup st') fp \<noteq> None \<longrightarrow>
        fires (as_dedup st') fp = fires (as_dedup st) fp
          + length (filter (counted al ap cfg now (as_silences st) fp) rs))"
proof -
  obtain pending where "process_results al ap now False rs st = (kept, st', pending)"
    using assms(3) by (auto simp: process_alerts_def process_with_capture_def split: prod.splits)
  from process_results_dedup [OF assms(1,2) this] show ?thesis by blast
qed

definition sample_dedup :: alert_pipeline where
  "sample_dedup =
     \<lparr> ap_scope = scope_default, ap_strip_event = True,
       ap_dedup = Some \<lparr> dc_fingerprint = [SelMatch ''u''], dc_repeat_interval = seconds 0,
                        dc_resolve_timeout = seconds 60, dc_max_active_alerts = 10 \<rparr>,
       ap_group = None, ap_static_silences = [], ap_inhibit = None, ap_max_silences = 10,
       ap_silence_limits = \<lparr> sl_max_duration = None, sl_allow_broad = False \<rparr> \<rparr>"

text \<open>The same result twice: one is let through, and two are counted.\<close>

lemma dedup_exact_witness:
  defines "r \<equiv> sample_detection ''one'' [(''u'', ''a'')]"
  shows "length (fst (process_alerts literal_alert sample_dedup [r, r] alert_state_default 5)) = 1
    \<and> fires (as_dedup (snd (process_alerts literal_alert sample_dedup [r, r] alert_state_default 5)))
        (fingerprint literal_alert [SelMatch ''u''] r) = 2"
proof -
  obtain kept st' where p: "process_alerts literal_alert sample_dedup [r, r] alert_state_default 5 = (kept, st')" by fastforce
  let ?cfg = "\<lparr> dc_fingerprint = [SelMatch ''u''], dc_repeat_interval = seconds 0,
      dc_resolve_timeout = seconds 60, dc_max_active_alerts = 10 \<rparr>"
  have cfg: "ap_dedup sample_dedup = Some ?cfg" "ap_inhibit sample_dedup = None"
    by (simp_all add: sample_dedup_def)
  have scope: "scope_matches (ap_scope sample_dedup) x" for x
    by (simp add: sample_dedup_def scope_matches_def is_unrestricted_def scope_default_def)
  have state: "as_silences alert_state_default = []" "as_dedup alert_state_default = []"
    by (simp_all add: alert_state_default_def)
  have quiet: "active_match literal_alert x 5 [] = None" for x by (simp add: active_match_def)
  have "map_of (as_dedup st') (fingerprint literal_alert [SelMatch ''u''] r) \<noteq> None"
  proof -
    obtain out1 st1 off1 where one: "process_one literal_alert sample_dedup 5 False r alert_state_default = (out1, st1, off1)"
      by (metis prod_cases3)
    obtain out2 st2 off2 where two: "process_one literal_alert sample_dedup 5 False r st1 = (out2, st2, off2)"
      by (metis prod_cases3)
    have "st' = st2"
      using p by (simp add: process_alerts_def process_with_capture_def one two split: prod.splits)
    moreover have "fingerprint literal_alert [SelMatch ''u''] r \<in> set (map fst (as_dedup st1))"
      by (rule process_one_dedup [OF cfg one refl]) (simp_all del: set_map add: scope state quiet)
    ultimately have "fingerprint literal_alert [SelMatch ''u''] r \<in> set (map fst (as_dedup st'))"
      by - (rule process_one_dedup [OF cfg two refl], simp_all del: set_map)
    then show ?thesis by (simp only: not_key) simp
  qed
  with dedup_exact [OF cfg p, of "fingerprint literal_alert [SelMatch ''u''] r"]
  show ?thesis
    by (auto simp: p state quiet scope counted_def fires_def Let_def dest: list_all2_lengthD)
qed

section \<open>Inhibition\<close>

text \<open>
  What reaches the inhibition store: a result at a time, or a tick that collects dead sources.  The
  verdicts on the results, in order.
\<close>

datatype inhibit_event = InResult int evaluation_result | InTick int

fun event_time :: "inhibit_event \<Rightarrow> int" where
  "event_time (InResult now r) = now"
| "event_time (InTick now) = now"

fun inhibit_run :: "alert_env \<Rightarrow> inhibit_config \<Rightarrow> inhibit_event list \<Rightarrow> inhibit_store \<Rightarrow> string option list" where
  "inhibit_run al cfg [] st = []"
| "inhibit_run al cfg (InResult now r # es) st =
     (case inhibit_evaluate al cfg r now st of (verdict, st') \<Rightarrow> verdict # inhibit_run al cfg es st')"
| "inhibit_run al cfg (InTick now # es) st = inhibit_run al cfg es (inhibit_gc cfg now st)"

text \<open>Every time a result arrives, the store has room for one more source of each rule.\<close>

fun roomy :: "alert_env \<Rightarrow> inhibit_config \<Rightarrow> inhibit_event list \<Rightarrow> inhibit_store \<Rightarrow> bool" where
  "roomy al cfg [] st = True"
| "roomy al cfg (InResult now r # es) st =
     (length st + length (ic_rules cfg) \<le> ic_max_sources cfg
      \<and> roomy al cfg es (snd (inhibit_evaluate al cfg r now st)))"
| "roomy al cfg (InTick now # es) st = roomy al cfg es (inhibit_gc cfg now st)"

text \<open>The verdicts by the history: the results that were not muted, with their times, newest first.\<close>

type_synonym unmuted = "(int \<times> evaluation_result) list"

definition latest_source :: "alert_env \<Rightarrow> inhibit_rule \<Rightarrow> string \<Rightarrow> unmuted \<Rightarrow> int option" where
  "latest_source al rule key h =
     map_option fst (find (\<lambda>(_, s). matcher_set_matches al (ih_source_match rule) s
       \<and> equal_key al (ih_equal rule) s = key) h)"

definition muted_by :: "alert_env \<Rightarrow> unmuted \<Rightarrow> int \<Rightarrow> evaluation_result \<Rightarrow> inhibit_rule \<Rightarrow> bool" where
  "muted_by al h now r rule \<longleftrightarrow>
     matcher_set_matches al (ih_target_match rule) r \<and> \<not> matcher_set_matches al (ih_source_match rule) r
     \<and> (case latest_source al rule (equal_key al (ih_equal rule) r) h of
          Some t \<Rightarrow> source_live rule now t | None \<Rightarrow> False)"

fun muted_run :: "alert_env \<Rightarrow> inhibit_config \<Rightarrow> inhibit_event list \<Rightarrow> unmuted \<Rightarrow> string option list" where
  "muted_run al cfg [] h = []"
| "muted_run al cfg (InResult now r # es) h =
     (case find (muted_by al h now r) (ic_rules cfg) of
        Some rule \<Rightarrow> Some (ih_name rule) # muted_run al cfg es h
      | None \<Rightarrow> None # muted_run al cfg es ((now, r) # h))"
| "muted_run al cfg (InTick now # es) h = muted_run al cfg es h"

text \<open>The store holds the latest source of each rule and key, or has dropped it because it is dead.\<close>

definition tracks :: "alert_env \<Rightarrow> inhibit_config \<Rightarrow> int \<Rightarrow> unmuted \<Rightarrow> inhibit_store \<Rightarrow> bool" where
  "tracks al cfg now h st \<longleftrightarrow>
     (\<forall>rule key. rule \<in> set (ic_rules cfg) \<longrightarrow>
        map_of st (ih_name rule, key) = latest_source al rule key h
        \<or> map_of st (ih_name rule, key) = None
          \<and> (\<exists>t. latest_source al rule key h = Some t \<and> \<not> source_live rule now t))
     \<and> (\<forall>e \<in> set h. in_time (fst e) \<and> fst e \<le> now)"

lemma tracksD:
  assumes "tracks al cfg now h st" and "rule \<in> set (ic_rules cfg)"
  shows "map_of st (ih_name rule, key) = latest_source al rule key h
    \<or> map_of st (ih_name rule, key) = None
      \<and> (\<exists>t. latest_source al rule key h = Some t \<and> \<not> source_live rule now t)"
  using assms unfolding tracks_def by blast

lemma find_SomeD: "find P xs = Some x \<Longrightarrow> x \<in> set xs \<and> P x"
  by (induction xs) (auto split: if_splits)

lemma latest_in_time:
  assumes "tracks al cfg now h st" and "latest_source al rule key h = Some t"
  shows "in_time t" "t \<le> now"
proof -
  obtain s where "(t, s) \<in> set h"
    using assms(2) by (auto simp: latest_source_def dest!: find_SomeD)
  then show "in_time t" "t \<le> now" using assms(1) unfolding tracks_def by auto
qed

lemma source_dead_later:
  "in_time t \<Longrightarrow> in_time now \<Longrightarrow> in_time later \<Longrightarrow> now \<le> later \<Longrightarrow> \<not> source_live rule now t
    \<Longrightarrow> \<not> source_live rule later t"
  by (simp add: source_live_def)

lemma tracks_later:
  assumes "tracks al cfg now h st" and "now \<le> later" and "in_time now" and "in_time later"
  shows "tracks al cfg later h st"
  using assms latest_in_time [OF assms(1)] source_dead_later [OF _ assms(3,4,2)]
  unfolding tracks_def by (metis order_trans)

lemma tracked_verdict:
  assumes "tracks al cfg now h st" and "rule \<in> set (ic_rules cfg)"
  shows "inhibits al rule r now st \<longleftrightarrow> muted_by al h now r rule"
proof -
  from assms have "map_of st (source_key al rule r) = latest_source al rule (equal_key al (ih_equal rule) r) h
      \<or> map_of st (source_key al rule r) = None \<and> (\<exists>t. latest_source al rule (equal_key al (ih_equal rule) r) h = Some t
          \<and> \<not> source_live rule now t)"
    unfolding tracks_def source_key_def by blast
  then show ?thesis unfolding inhibits_def muted_by_def by auto
qed

lemma find_cong_set: "(\<And>x. x \<in> set xs \<Longrightarrow> P x = Q x) \<Longrightarrow> find P xs = find Q xs"
  by (induction xs) auto

lemma map_of_filter_pairs:
  "distinct (map fst m) \<Longrightarrow>
   map_of (filter P m) k = (case map_of m k of Some v \<Rightarrow> if P (k, v) then Some v else None | None \<Rightarrow> None)"
proof (induction m)
  case (Cons e m)
  have "map_of m (fst e) = None" using Cons.prems by (simp add: map_of_eq_None_iff)
  then show ?case using Cons by (cases e) (auto split: option.split)
qed simp

lemma recorded:
  "distinct (map ih_name rules) \<Longrightarrow> length st + length rules \<le> ic_max_sources cfg \<Longrightarrow>
   map_of (fold (record_source al cfg r now) rules st) (name, key)
     = (if \<exists>rule \<in> set rules. ih_name rule = name \<and> matcher_set_matches al (ih_source_match rule) r
            \<and> equal_key al (ih_equal rule) r = key then Some now else map_of st (name, key))
   \<and> length (fold (record_source al cfg r now) rules st) \<le> length st + length rules
   \<and> (distinct (map fst st) \<longrightarrow> distinct (map fst (fold (record_source al cfg r now) rules st)))"
proof (induction rules arbitrary: st)
  case (Cons rule rules)
  let ?st = "record_source al cfg r now rule st"
  have len: "length ?st \<le> Suc (length st)"
    by (simp add: record_source_def Let_def length_map_insert)
  have one: "map_of ?st (name, key)
      = (if ih_name rule = name \<and> matcher_set_matches al (ih_source_match rule) r
            \<and> equal_key al (ih_equal rule) r = key then Some now else map_of st (name, key))"
    using Cons.prems(2) by (auto simp: record_source_def Let_def source_key_def)
  have "distinct (map fst st) \<Longrightarrow> distinct (map fst ?st)"
    by (simp add: record_source_def Let_def distinct_map_insert)
  with Cons.IH [of ?st] Cons.prems len one show ?case by fastforce
qed simp

lemma latest_Cons:
  "latest_source al rule key ((now, r) # h)
     = (if matcher_set_matches al (ih_source_match rule) r \<and> equal_key al (ih_equal rule) r = key
        then Some now else latest_source al rule key h)"
  by (simp add: latest_source_def)

lemma tracks_recorded:
  assumes "tracks al cfg now h st" and "in_time now" and "distinct (map ih_name (ic_rules cfg))"
    and "length st + length (ic_rules cfg) \<le> ic_max_sources cfg"
  shows "tracks al cfg now ((now, r) # h) (fold (record_source al cfg r now) (ic_rules cfg) st)"
  unfolding tracks_def
proof (intro conjI allI impI)
  fix rule key assume rule: "rule \<in> set (ic_rules cfg)"
  have same: "rule' = rule" if "rule' \<in> set (ic_rules cfg)" "ih_name rule' = ih_name rule" for rule'
    using assms(3) rule that by (simp add: distinct_map inj_on_def)
  have "map_of (fold (record_source al cfg r now) (ic_rules cfg) st) (ih_name rule, key)
      = (if matcher_set_matches al (ih_source_match rule) r \<and> equal_key al (ih_equal rule) r = key
         then Some now else map_of st (ih_name rule, key))"
    using recorded [OF assms(3,4), of al r now "ih_name rule" key] rule same by metis
  then show "map_of (fold (record_source al cfg r now) (ic_rules cfg) st) (ih_name rule, key)
        = latest_source al rule key ((now, r) # h)
      \<or> map_of (fold (record_source al cfg r now) (ic_rules cfg) st) (ih_name rule, key) = None
        \<and> (\<exists>t. latest_source al rule key ((now, r) # h) = Some t \<and> \<not> source_live rule now t)"
    using assms(1) rule unfolding tracks_def latest_Cons by simp
qed (use assms(1,2) in \<open>auto simp: tracks_def\<close>)

lemma tracks_collected:
  assumes "tracks al cfg now h st" and "distinct (map ih_name (ic_rules cfg))" and "distinct (map fst st)"
  shows "tracks al cfg now h (inhibit_gc cfg now st)"
  unfolding tracks_def
proof (intro conjI allI impI)
  fix rule key assume rule: "rule \<in> set (ic_rules cfg)"
  have "find (\<lambda>r. ih_name r = ih_name rule) (ic_rules cfg) = Some rule"
  proof (cases "find (\<lambda>r. ih_name r = ih_name rule) (ic_rules cfg)")
    case None
    then show ?thesis using rule by (auto simp: find_None_iff)
  next
    case (Some rule')
    then show ?thesis using find_SomeD [OF Some] assms(2) rule by (auto simp: distinct_map inj_on_def)
  qed
  then have "map_of (inhibit_gc cfg now st) (ih_name rule, key)
      = (case map_of st (ih_name rule, key) of Some t \<Rightarrow> if source_live rule now t then Some t else None | None \<Rightarrow> None)"
    by (simp add: inhibit_gc_def map_of_filter_pairs [OF assms(3)] source_kept_def split: option.split)
  then show "map_of (inhibit_gc cfg now st) (ih_name rule, key) = latest_source al rule key h
      \<or> map_of (inhibit_gc cfg now st) (ih_name rule, key) = None
        \<and> (\<exists>t. latest_source al rule key h = Some t \<and> \<not> source_live rule now t)"
    using tracksD [OF assms(1) rule, of key] by (auto split: option.splits if_splits)
qed (use assms(1) in \<open>auto simp: tracks_def\<close>)

lemma inhibit_tracked:
  "tracks al cfg past h st \<Longrightarrow> in_time past \<Longrightarrow> distinct (map ih_name (ic_rules cfg)) \<Longrightarrow> distinct (map fst st) \<Longrightarrow>
   sorted (past # map event_time es) \<Longrightarrow> list_all (\<lambda>e. in_time (event_time e)) es \<Longrightarrow>
   roomy al cfg es st \<Longrightarrow>
   inhibit_run al cfg es st = muted_run al cfg es h"
proof (induction es arbitrary: past h st)
  case (Cons e es)
  let ?now = "event_time e"
  have now: "past \<le> ?now" "in_time ?now" "sorted (?now # map event_time es)" "list_all (\<lambda>e. in_time (event_time e)) es"
    using Cons.prems(5,6) by auto
  have t: "tracks al cfg ?now h st" by (rule tracks_later [OF Cons.prems(1) now(1) Cons.prems(2) now(2)])
  show ?case
  proof (cases e)
    case (InResult now r)
    have f: "find (\<lambda>rule. inhibits al rule r now st) (ic_rules cfg) = find (muted_by al h now r) (ic_rules cfg)"
      using t InResult by (intro find_cong_set) (simp add: tracked_verdict)
    have room: "length st + length (ic_rules cfg) \<le> ic_max_sources cfg"
      and roomy: "roomy al cfg es (snd (inhibit_evaluate al cfg r now st))"
      using Cons.prems(7) InResult by simp_all
    note rec = recorded [OF Cons.prems(3) room, of al r now]
    let ?st = "fold (record_source al cfg r now) (ic_rules cfg) st"
    show ?thesis
    proof (cases "find (muted_by al h now r) (ic_rules cfg)")
      case None
      then have "inhibit_run al cfg es ?st = muted_run al cfg es ((now, r) # h)"
        using rec tracks_recorded [OF t [unfolded InResult event_time.simps] _ Cons.prems(3) room, of r] now
          Cons.prems(3,4) InResult roomy
        by (intro Cons.IH [of now]) (auto simp: inhibit_evaluate_def f)
      with None show ?thesis by (simp add: InResult inhibit_evaluate_def f)
    next
      case (Some rule)
      then have "inhibit_run al cfg es st = muted_run al cfg es h"
        using t now Cons.prems(3,4) roomy by (intro Cons.IH [of ?now]) (auto simp: inhibit_evaluate_def f)
      with Some show ?thesis by (simp add: InResult inhibit_evaluate_def f)
    qed
  next
    case (InTick now)
    have d: "distinct (map fst (inhibit_gc cfg now st))"
      using Cons.prems(4) by (simp add: inhibit_gc_def distinct_map_filter)
    have "inhibit_run al cfg es (inhibit_gc cfg now st) = muted_run al cfg es h"
      using tracks_collected [OF t Cons.prems(3,4)] now Cons.prems(3,7) d InTick
      by (intro Cons.IH [of now]) auto
    then show ?thesis by (simp add: InTick)
  qed
qed simp

text \<open>
  C15: Take inhibition rules with distinct names, and a stream of results and ticks in time order, at
  times an instant can have, along which the store of sources is never short of room (whenever a result
  arrives, it can take one more source of each rule below its maximum).  A result is muted exactly when
  it is a target of a rule, not a source of it, and the latest unmuted source of the rule with the same
  values was seen within the duration of the rule; the first such rule names the verdict.  Collecting
  dead sources on ticks is not observable.
\<close>

theorem inhibition_exact:
  assumes "distinct (map ih_name (ic_rules cfg))" and "sorted (map event_time es)"
    and "list_all (\<lambda>e. in_time (event_time e)) es"
    and "roomy al cfg es []"
  shows "inhibit_run al cfg es [] = muted_run al cfg es []"
proof (cases es)
  case (Cons e es')
  have "tracks al cfg (event_time e) [] []" by (simp add: tracks_def latest_source_def)
  then show ?thesis
    using assms Cons by (intro inhibit_tracked [of al cfg "event_time e"]) auto
qed simp

definition sample_inhibit :: inhibit_config where
  "sample_inhibit =
     (let rule_is = (\<lambda>title. \<lparr> am_selector = SelRule, am_op = MoEq, am_value = title, am_regex = None \<rparr>)
      in \<lparr> ic_rules = [\<lparr> ih_name = ''quiet'', ih_source_match = [rule_is ''source''],
                         ih_target_match = [rule_is ''target''], ih_equal = [SelMatch ''u''],
                         ih_duration = seconds 60 \<rparr>],
           ic_max_sources = 10 \<rparr>)"

definition sample_inhibit_events :: "inhibit_event list" where
  "sample_inhibit_events =
     [InResult 100 (sample_detection ''source'' [(''u'', ''a'')]), InTick 130,
      InResult 150 (sample_detection ''target'' [(''u'', ''a'')]),
      InResult 150 (sample_detection ''target'' [(''u'', ''b'')]), InTick 160,
      InResult 170 (sample_detection ''target'' [(''u'', ''a'')])]"

lemma inhibition_exact_witness:
  "inhibit_run literal_alert sample_inhibit sample_inhibit_events [] = [None, Some ''quiet'', None, None]"
proof -
  have "muted_run literal_alert sample_inhibit sample_inhibit_events [] = [None, Some ''quiet'', None, None]"
    by code_simp
  moreover have "inhibit_run literal_alert sample_inhibit sample_inhibit_events []
      = muted_run literal_alert sample_inhibit sample_inhibit_events []"
  proof (rule inhibition_exact)
    show "roomy literal_alert sample_inhibit sample_inhibit_events []" by code_simp
  qed (simp_all add: sample_inhibit_def sample_inhibit_events_def in_time_def i64_max_def)
  ultimately show ?thesis by simp
qed

end
