(* ===== verification/Risk.thy ===== *)
theory Risk
  imports AlertDedup
begin

text \<open>
  Risk-based alerting (\<open>rsigma-runtime/src/risk/*.rs\<close>): results are annotated with a score and the
  entities they concern, and an accumulator raises an incident when the risk of an entity within a
  sliding window crosses a threshold.  Metrics are left out; the text of a new UUID is an argument.
\<close>

section \<open>Scores\<close>

datatype reducer = RedSum | RedMax

datatype risk_tag = RtExact string | RtPrefix string

definition risk_tag_parse :: "string \<Rightarrow> risk_tag" where
  "risk_tag_parse raw =
     (case strip_suffix raw ''.*'' of Some p \<Rightarrow> RtPrefix (p @ ''.'') | None \<Rightarrow> RtExact raw)"

fun risk_tag_matches :: "risk_tag \<Rightarrow> string \<Rightarrow> bool" where
  "risk_tag_matches (RtExact t) tag = (tag = t)"
| "risk_tag_matches (RtPrefix p) tag = starts_with tag p"

record score_config =
  sg_attribute :: string
  sg_tag_scores :: "(risk_tag \<times> int) list"
  sg_reducer :: reducer
  sg_level_scores :: "(level \<times> int) list"
  sg_default_score :: int

definition default_score_attribute :: string where
  "default_score_attribute = ''rsigma.risk_score''"

definition score_config_new ::
    "string option \<Rightarrow> (string \<times> int) list \<Rightarrow> reducer \<Rightarrow> (level \<times> int) list \<Rightarrow> int \<Rightarrow> score_config" where
  "score_config_new attribute tags red levels d =
     \<lparr> sg_attribute = (case attribute of Some a \<Rightarrow> a | None \<Rightarrow> default_score_attribute),
       sg_tag_scores = map (\<lambda>(raw, score). (risk_tag_parse raw, score)) tags,
       sg_reducer = red, sg_level_scores = levels, sg_default_score = d \<rparr>"

text \<open>\<open>f64::round\<close>: halves away from zero.\<close>

fun f64_round :: "f64 \<Rightarrow> f64" where
  "f64_round (Fin r) =
     (let n = (if r < 0 then - \<lfloor>1 / 2 - r\<rfloor> else \<lfloor>r + 1 / 2\<rfloor>)
      in if r < 0 \<and> n = 0 then NegZero else Fin (of_int n))"
| "f64_round x = x"

definition risk_value_as_i64 :: "ext_env \<Rightarrow> json_value \<Rightarrow> int option" where
  "risk_value_as_i64 env v =
     (case v of
        JNumber n \<Rightarrow>
          (case json_number_as_i64 n of
             Some i \<Rightarrow> Some i
           | None \<Rightarrow> Some (f64_as_i64 (f64_round (json_number_as_f64 n))))
      | JString s \<Rightarrow>
          (case parse_i64 (trim s) of
             Some i \<Rightarrow> Some i
           | None \<Rightarrow> map_option (\<lambda>f. f64_as_i64 (f64_round f)) (f64_from_str env (trim s)))
      | _ \<Rightarrow> None)"

definition score_resolve :: "alert_env \<Rightarrow> score_config \<Rightarrow> evaluation_result \<Rightarrow> int" where
  "score_resolve al cfg r =
     (let h = er_header r;
          matched = concat (map (\<lambda>tag. filter_map
            (\<lambda>(p, score). if risk_tag_matches p tag then Some score else None) (sg_tag_scores cfg)) (rh_tags h))
      in case Option.bind (map_of (rh_custom_attributes h) (sg_attribute cfg)) (risk_value_as_i64 (al_ext al)) of
           Some score \<Rightarrow> score
         | None \<Rightarrow>
             (case matched of
                m # ms \<Rightarrow>
                  (case sg_reducer cfg of
                     RedSum \<Rightarrow> wrap_i64 (sum_list matched)
                   | RedMax \<Rightarrow> fold max ms m)
              | [] \<Rightarrow>
                  (case Option.bind (rh_level h) (map_of (sg_level_scores cfg)) of
                     Some score \<Rightarrow> score
                   | None \<Rightarrow> sg_default_score cfg)))"

section \<open>Objects and tactics\<close>

record object_selector =
  ob_type :: string
  ob_selector :: selector

record risk_object =
  ro_type :: string
  ro_value :: string

definition scalar_to_string :: "ext_env \<Rightarrow> json_value \<Rightarrow> string option" where
  "scalar_to_string env v =
     (case v of
        JString s \<Rightarrow> if s = [] then None else Some s
      | JNumber n \<Rightarrow> Some (json_number_text env n)
      | JBool b \<Rightarrow> Some (show_bool b)
      | _ \<Rightarrow> None)"

text \<open>\<open>if !xs.contains(&x) { xs.push(x) }\<close>.\<close>

definition push_distinct :: "'a \<Rightarrow> 'a list \<Rightarrow> 'a list" where
  "push_distinct x xs = (if x \<in> set xs then xs else xs @ [x])"

definition object_of_selector :: "alert_env \<Rightarrow> evaluation_result \<Rightarrow> object_selector \<Rightarrow> risk_object option" where
  "object_of_selector al r sel =
     map_option (\<lambda>v. \<lparr> ro_type = ob_type sel, ro_value = v \<rparr>)
       (Option.bind (selector_resolve (ob_selector sel) r) (scalar_to_string (al_ext al)))"

definition extract_objects :: "alert_env \<Rightarrow> evaluation_result \<Rightarrow> object_selector list \<Rightarrow> risk_object list" where
  "extract_objects al r sels = fold push_distinct (filter_map (object_of_selector al r) sels) []"

definition tactics :: "string list" where
  "tactics =
     [''reconnaissance'', ''resource-development'', ''initial-access'', ''execution'', ''persistence'',
      ''privilege-escalation'', ''defense-evasion'', ''credential-access'', ''discovery'',
      ''lateral-movement'', ''collection'', ''command-and-control'', ''exfiltration'', ''impact'']"

definition tactic_slug :: "string \<Rightarrow> string option" where
  "tactic_slug short =
     find (\<lambda>slug. slug = map (\<lambda>c. if c = CHR ''_'' then CHR ''-'' else c) short) tactics"

definition tactic_of_tag :: "string \<Rightarrow> string option" where
  "tactic_of_tag tag = Option.bind (strip_prefix (map ascii_lower_char tag) ''attack.'') tactic_slug"

definition extract_tactics :: "string list \<Rightarrow> string list" where
  "extract_tactics tags = fold push_distinct (filter_map tactic_of_tag tags) []"

section \<open>The accumulator\<close>

record risk_caps =
  kc_max_open_entities :: nat
  kc_max_sources_per_entity :: nat
  kc_max_results_per_incident :: nat

definition risk_caps_default :: risk_caps where
  "risk_caps_default =
     \<lparr> kc_max_open_entities = 100000, kc_max_sources_per_entity = 1000, kc_max_results_per_incident = 1000 \<rparr>"

datatype risk_include = RiRefs | RiResults

record incident_config =
  kf_window :: duration
  kf_score_threshold :: "int option"
  kf_tactic_count_threshold :: "nat option"
  kf_cooldown :: duration
  kf_include :: risk_include
  kf_nats_subject :: "string option"
  kf_caps :: risk_caps

definition window_secs :: "incident_config \<Rightarrow> int" where
  "window_secs cfg = as_secs_i64 (kf_window cfg)"

record contribution =
  cb_ts :: int
  cb_score :: int
  cb_tactics :: "string list"
  cb_rule :: string
  cb_level :: "string option"
  cb_result :: "json_value option"

record entity_window =
  ew_contributions :: "contribution list"
  ew_last_fired :: "int option"
  ew_last_seen :: int

definition entity_window_default :: entity_window where
  "entity_window_default = \<lparr> ew_contributions = [], ew_last_fired = None, ew_last_seen = 0 \<rparr>"

definition prune_window :: "int \<Rightarrow> entity_window \<Rightarrow> entity_window" where
  "prune_window cutoff w = w \<lparr> ew_contributions := dropWhile (\<lambda>c. cb_ts c \<le> cutoff) (ew_contributions w) \<rparr>"

record window_stats =
  wt_score :: int
  wt_tactics :: "string list"
  wt_sources :: "string list"
  wt_source_count :: nat
  wt_result_count :: nat
  wt_window_start :: int
  wt_window_end :: int

definition window_stats_of :: "contribution list \<Rightarrow> nat \<Rightarrow> window_stats" where
  "window_stats_of cs max_sources =
     (let sources = fold (\<lambda>c. push_distinct (cb_rule c)) cs []
      in \<lparr> wt_score = fold (\<lambda>c s. wrap_i64 (s + cb_score c)) cs 0,
           wt_tactics = fold (\<lambda>c. fold push_distinct (cb_tactics c)) cs [],
           wt_sources = take max_sources sources,
           wt_source_count = length sources,
           wt_result_count = length cs,
           wt_window_start = (if cs = [] then 0 else fold (\<lambda>c. min (cb_ts c)) cs i64_max),
           wt_window_end = (if cs = [] then 0 else fold (\<lambda>c. max (cb_ts c)) cs i64_min) \<rparr>)"

record risk_ref =
  rf_rule :: string
  rf_level :: "string option"
  rf_score :: int
  rf_timestamp :: int

record risk_incident =
  kn_id :: string
  kn_entity_type :: string
  kn_entity_value :: string
  kn_trigger :: string
  kn_score :: int
  kn_score_threshold :: "int option"
  kn_tactic_count :: nat
  kn_tactic_count_threshold :: "nat option"
  kn_tactics :: "string list"
  kn_sources :: "string list"
  kn_source_count :: nat
  kn_window_start :: int
  kn_window_end :: int
  kn_result_count :: nat
  kn_refs :: "risk_ref list option"
  kn_results :: "json_value list option"

type_synonym risk_state = "((string \<times> string) \<times> entity_window) list"

definition ref_of :: "contribution \<Rightarrow> risk_ref" where
  "ref_of c = \<lparr> rf_rule = cb_rule c, rf_level = cb_level c, rf_score = cb_score c, rf_timestamp = cb_ts c \<rparr>"

definition build_incident ::
    "string \<Rightarrow> incident_config \<Rightarrow> string \<times> string \<Rightarrow> string \<Rightarrow> nat \<Rightarrow> window_stats \<Rightarrow> contribution list
     \<Rightarrow> risk_incident" where
  "build_incident uuid cfg key trigger tactic_count stats cs =
     (let recent = drop (length cs - min (kc_max_results_per_incident (kf_caps cfg)) (length cs)) cs
      in \<lparr> kn_id = uuid, kn_entity_type = fst key, kn_entity_value = snd key, kn_trigger = trigger,
           kn_score = wt_score stats, kn_score_threshold = kf_score_threshold cfg,
           kn_tactic_count = tactic_count, kn_tactic_count_threshold = kf_tactic_count_threshold cfg,
           kn_tactics = wt_tactics stats, kn_sources = wt_sources stats,
           kn_source_count = wt_source_count stats, kn_window_start = wt_window_start stats,
           kn_window_end = wt_window_end stats, kn_result_count = wt_result_count stats,
           kn_refs = (case kf_include cfg of RiRefs \<Rightarrow> Some (map ref_of recent) | RiResults \<Rightarrow> None),
           kn_results = (case kf_include cfg of RiRefs \<Rightarrow> None
                         | RiResults \<Rightarrow> Some (filter_map cb_result recent)) \<rparr>)"

definition risk_trigger :: "incident_config \<Rightarrow> window_stats \<Rightarrow> string option" where
  "risk_trigger cfg stats =
     (if (case kf_score_threshold cfg of Some t \<Rightarrow> t \<le> wt_score stats | None \<Rightarrow> False) then Some ''score''
      else if (case kf_tactic_count_threshold cfg of
                 Some t \<Rightarrow> t \<le> length (wt_tactics stats) | None \<Rightarrow> False) then Some ''tactic_count''
      else None)"

definition cooling_down :: "incident_config \<Rightarrow> int \<Rightarrow> int option \<Rightarrow> bool" where
  "cooling_down cfg now last_fired =
     (case last_fired of Some lf \<Rightarrow> sub_i64 now lf < as_secs_i64 (kf_cooldown cfg) | None \<Rightarrow> False)"

text \<open>\<open>while len > max { pop_front }\<close>.\<close>

definition keep_last :: "nat \<Rightarrow> 'a list \<Rightarrow> 'a list" where
  "keep_last n xs = drop (length xs - n) xs"

record record_outcome =
  oc_incident :: "risk_incident option"
  oc_evicted :: bool

definition risk_record ::
    "string \<Rightarrow> incident_config \<Rightarrow> string \<times> string \<Rightarrow> contribution \<Rightarrow> int \<Rightarrow> risk_state
     \<Rightarrow> record_outcome \<times> risk_state" where
  "risk_record uuid cfg key contribution now st =
     (if map_of st key = None \<and> kc_max_open_entities (kf_caps cfg) \<le> length st
      then (\<lparr> oc_incident = None, oc_evicted = True \<rparr>, st)
      else
        (let w0 = (case map_of st key of Some w \<Rightarrow> w | None \<Rightarrow> entity_window_default);
             w1 = prune_window (sub_i64 now (window_secs cfg)) w0;
             cs = keep_last (kc_max_results_per_incident (kf_caps cfg)) (ew_contributions w1 @ [contribution]);
             w2 = w1 \<lparr> ew_last_seen := now, ew_contributions := cs \<rparr>;
             stats = window_stats_of cs (kc_max_sources_per_entity (kf_caps cfg))
         in case risk_trigger cfg stats of
              None \<Rightarrow> (\<lparr> oc_incident = None, oc_evicted = False \<rparr>, map_insert key w2 st)
            | Some trigger \<Rightarrow>
                (if cooling_down cfg now (ew_last_fired w2)
                 then (\<lparr> oc_incident = None, oc_evicted = False \<rparr>, map_insert key w2 st)
                 else
                   (\<lparr> oc_incident = Some (build_incident uuid cfg key trigger (length (wt_tactics stats)) stats cs),
                      oc_evicted = False \<rparr>,
                    map_insert key (w2 \<lparr> ew_last_fired := Some now \<rparr>) st))))"

definition risk_state_tick :: "incident_config \<Rightarrow> int \<Rightarrow> risk_state \<Rightarrow> nat \<times> risk_state" where
  "risk_state_tick cfg now st =
     (let st' = map_retain (\<lambda>_ w. let w' = prune_window (sub_i64 now (window_secs cfg)) w
                                   in if ew_contributions w' = [] then None else Some w') st
      in (length st - length st', st'))"

definition risk_total_entries :: "risk_state \<Rightarrow> nat" where
  "risk_total_entries st = sum_list (map (\<lambda>(_, w). length (ew_contributions w)) st)"

section \<open>Snapshots and views\<close>

record entity_snapshot =
  ep_entity_type :: string
  ep_entity_value :: string
  ep_last_fired :: "int option"
  ep_last_seen :: int
  ep_contributions :: "contribution list"

record risk_snapshot =
  rp_version :: nat
  rp_entities :: "entity_snapshot list"

definition risk_snapshot_version :: nat where "risk_snapshot_version = 1"

definition risk_state_snapshot :: "risk_state \<Rightarrow> risk_snapshot" where
  "risk_state_snapshot st =
     \<lparr> rp_version = risk_snapshot_version,
       rp_entities = map (\<lambda>((t, v), w). \<lparr> ep_entity_type = t, ep_entity_value = v,
         ep_last_fired = ew_last_fired w, ep_last_seen = ew_last_seen w,
         ep_contributions = ew_contributions w \<rparr>) st \<rparr>"

fun restore_entities :: "nat \<Rightarrow> int \<Rightarrow> entity_snapshot list \<Rightarrow> risk_state \<Rightarrow> risk_state" where
  "restore_entities limit cutoff [] st = st"
| "restore_entities limit cutoff (e # es) st =
     (if limit \<le> length st then st
      else
        (let cs = filter (\<lambda>c. cutoff < cb_ts c) (ep_contributions e)
         in restore_entities limit cutoff es
              (if cs = [] then st
               else map_insert (ep_entity_type e, ep_entity_value e)
                      \<lparr> ew_contributions = cs, ew_last_fired = ep_last_fired e, ew_last_seen = ep_last_seen e \<rparr> st)))"

definition risk_state_restore ::
    "risk_snapshot \<Rightarrow> int \<Rightarrow> nat \<Rightarrow> int \<Rightarrow> risk_state \<Rightarrow> bool \<times> risk_state" where
  "risk_state_restore snap window limit now st =
     (if rp_version snap \<noteq> risk_snapshot_version then (False, st)
      else (True, restore_entities limit (sub_i64 now window) (rp_entities snap) st))"

record risk_entity_view =
  rv_entity_type :: string
  rv_entity_value :: string
  rv_score :: int
  rv_tactic_count :: nat
  rv_source_count :: nat
  rv_result_count :: nat
  rv_window_start :: int
  rv_window_end :: int
  rv_last_fired :: "int option"

definition risk_views :: "incident_config \<Rightarrow> int \<Rightarrow> risk_state \<Rightarrow> risk_entity_view list" where
  "risk_views cfg now st =
     filter_map (\<lambda>((t, v), w).
       let stats = window_stats_of
             (filter (\<lambda>c. sub_i64 now (window_secs cfg) < cb_ts c) (ew_contributions w))
             (kc_max_sources_per_entity (kf_caps cfg))
       in if wt_result_count stats = 0 then None
          else Some \<lparr> rv_entity_type = t, rv_entity_value = v, rv_score = wt_score stats,
                      rv_tactic_count = length (wt_tactics stats), rv_source_count = wt_source_count stats,
                      rv_result_count = wt_result_count stats, rv_window_start = wt_window_start stats,
                      rv_window_end = wt_window_end stats, rv_last_fired = ew_last_fired w \<rparr>) st"

section \<open>The layer\<close>

record risk_layer =
  rl_scope :: scope_filter
  rl_strip_event :: bool
  rl_score :: score_config
  rl_objects :: "object_selector list"
  rl_emit_risk_events :: bool
  rl_nats_subject :: "string option"
  rl_incident :: "incident_config option"

record risk_output =
  rt_kept :: "evaluation_result list"
  rt_risk_events :: "json_value list"
  rt_incidents :: "risk_incident list"

definition object_json :: "risk_object \<Rightarrow> json_value" where
  "object_json ob = JObject [(''type'', JString (ro_type ob)), (''value'', JString (ro_value ob))]"

definition risk_annotate :: "int \<Rightarrow> risk_object list \<Rightarrow> evaluation_result \<Rightarrow> evaluation_result" where
  "risk_annotate score objects r =
     (let m = (case rh_enrichments (er_header r) of Some m \<Rightarrow> m | None \<Rightarrow> []);
          m1 = btree_insert ''risk.score'' (JNumber (JInt score)) m;
          m2 = (if objects = [] then m1
                else btree_insert ''risk.objects'' (JArray (map object_json objects)) m1)
      in r \<lparr> er_header := (er_header r) \<lparr> rh_enrichments := Some m2 \<rparr> \<rparr>)"

definition risk_event :: "evaluation_result \<Rightarrow> int \<Rightarrow> int \<Rightarrow> risk_object \<Rightarrow> json_value" where
  "risk_event r score now ob =
     (let h = er_header r
      in JObject (fold (\<lambda>(k, v). btree_insert k v)
           ([(''risk_event'', JBool True), (''timestamp'', JNumber (JInt now)),
             (''rule'', JString (rule_of_header h)), (''rule_title'', JString (rh_rule_title h))]
            @ (case rh_level h of Some l \<Rightarrow> [(''level'', JString (level_as_str l))] | None \<Rightarrow> [])
            @ [(''risk_score'', JNumber (JInt score)), (''risk_object'', object_json ob)]) []))"

definition contribution_of ::
    "alert_env \<Rightarrow> incident_config \<Rightarrow> evaluation_result \<Rightarrow> int \<Rightarrow> int \<Rightarrow> contribution" where
  "contribution_of al cfg r score now =
     \<lparr> cb_ts = now, cb_score = score, cb_tactics = extract_tactics (rh_tags (er_header r)),
       cb_rule = rule_of_header (er_header r),
       cb_level = map_option level_as_str (rh_level (er_header r)),
       cb_result = (case kf_include cfg of
          RiResults \<Rightarrow> al_result_json al (strip_event_payloads r) | RiRefs \<Rightarrow> None) \<rparr>"

text \<open>The objects of one result in turn; a new UUID may depend on those given before.\<close>

fun risk_accumulate ::
    "alert_env \<Rightarrow> incident_config \<Rightarrow> contribution \<Rightarrow> int \<Rightarrow> risk_object list \<Rightarrow> risk_incident list \<Rightarrow> risk_state
     \<Rightarrow> risk_incident list \<times> risk_state" where
  "risk_accumulate al cfg c now [] out st = (out, st)"
| "risk_accumulate al cfg c now (ob # obs) out st =
     (case risk_record (al_uuid al (map kn_id out)) cfg (ro_type ob, ro_value ob) c now st of
        (outcome, st') \<Rightarrow>
          risk_accumulate al cfg c now obs
            (case oc_incident outcome of Some i \<Rightarrow> out @ [i] | None \<Rightarrow> out) st')"

definition risk_process_one ::
    "alert_env \<Rightarrow> risk_layer \<Rightarrow> int \<Rightarrow> evaluation_result \<Rightarrow> risk_output \<times> risk_state \<Rightarrow> risk_output \<times> risk_state" where
  "risk_process_one al ly now r acc =
     (case acc of (out, st) \<Rightarrow>
        if \<not> scope_matches (rl_scope ly) r then (out \<lparr> rt_kept := rt_kept out @ [r] \<rparr>, st)
        else
          (let score = score_resolve al (rl_score ly) r;
               objects = extract_objects al r (rl_objects ly);
               r1 = risk_annotate score objects r;
               events = (if rl_emit_risk_events ly then map (risk_event r1 score now) objects else []);
               acc1 = (case rl_incident ly of
                  Some cfg \<Rightarrow>
                    if objects = [] then (rt_incidents out, st)
                    else risk_accumulate al cfg (contribution_of al cfg r1 score now) now objects (rt_incidents out) st
                | None \<Rightarrow> (rt_incidents out, st));
               r2 = (if rl_strip_event ly then strip_event_payloads r1 else r1)
           in (out \<lparr> rt_kept := rt_kept out @ [r2], rt_risk_events := rt_risk_events out @ events,
                     rt_incidents := fst acc1 \<rparr>, snd acc1)))"

definition risk_process ::
    "alert_env \<Rightarrow> risk_layer \<Rightarrow> evaluation_result list \<Rightarrow> risk_state \<Rightarrow> int \<Rightarrow> risk_output \<times> risk_state" where
  "risk_process al ly results st now =
     fold (risk_process_one al ly now) results
       (\<lparr> rt_kept = [], rt_risk_events = [], rt_incidents = [] \<rparr>, st)"

definition risk_tick :: "risk_layer \<Rightarrow> risk_state \<Rightarrow> int \<Rightarrow> risk_state" where
  "risk_tick ly st now =
     (case rl_incident ly of None \<Rightarrow> st | Some cfg \<Rightarrow> snd (risk_state_tick cfg now st))"

definition risk_restore :: "risk_layer \<Rightarrow> risk_state \<Rightarrow> risk_snapshot \<Rightarrow> int \<Rightarrow> bool \<times> risk_state" where
  "risk_restore ly st snap now =
     (case rl_incident ly of
        None \<Rightarrow> (False, st)
      | Some cfg \<Rightarrow> risk_state_restore snap (window_secs cfg) (kc_max_open_entities (kf_caps cfg)) now st)"

section \<open>Configuration\<close>

record risk_caps_file =
  kcf_max_open_entities :: "nat option"
  kcf_max_sources_per_entity :: "nat option"
  kcf_max_results_per_incident :: "nat option"

record incident_file =
  nf_window :: "duration option"
  nf_score_threshold :: "int option"
  nf_tactic_count_threshold :: "nat option"
  nf_cooldown :: "duration option"
  nf_include :: risk_include
  nf_nats_subject :: "string option"
  nf_caps :: "risk_caps_file option"

record score_file =
  sof_attribute :: "string option"
  sof_tag_scores :: "(string \<times> int) list"
  sof_tag_reducer :: reducer
  sof_level_scores :: "(level \<times> int) list"
  sof_default_score :: int

record object_file =
  of_type :: string
  of_selector :: string

record risk_scope_config =
  rs_rules :: "string list"
  rs_tags :: "string list"
  rs_levels :: "string list"

record risk_file =
  kl_strip_event :: bool
  kl_scope :: "risk_scope_config option"
  kl_score :: score_file
  kl_objects :: "object_file list"
  kl_emit_risk_events :: bool
  kl_nats_subject :: "string option"
  kl_incident :: "incident_file option"

datatype risk_config_error =
  RceScope string
| RceObjectSelector selector_parse_error
| RceEmptyObjectType
| RceNoObjects
| RceNoThreshold

definition given_or :: "'a option \<Rightarrow> 'a \<Rightarrow> 'a" where
  "given_or x d = (case x of Some v \<Rightarrow> v | None \<Rightarrow> d)"

definition build_risk_caps :: "risk_caps_file option \<Rightarrow> risk_caps" where
  "build_risk_caps cf =
     (case cf of
        None \<Rightarrow> risk_caps_default
      | Some c \<Rightarrow>
          \<lparr> kc_max_open_entities = given_or (kcf_max_open_entities c) (kc_max_open_entities risk_caps_default),
            kc_max_sources_per_entity =
              given_or (kcf_max_sources_per_entity c) (kc_max_sources_per_entity risk_caps_default),
            kc_max_results_per_incident =
              given_or (kcf_max_results_per_incident c) (kc_max_results_per_incident risk_caps_default) \<rparr>)"

definition build_incident_config :: "incident_file \<Rightarrow> risk_config_error + incident_config" where
  "build_incident_config f =
     (if nf_score_threshold f = None \<and> nf_tactic_count_threshold f = None then Inl RceNoThreshold
      else Inr
        \<lparr> kf_window = given_or (nf_window f) (seconds (24 * 3600)),
          kf_score_threshold = nf_score_threshold f,
          kf_tactic_count_threshold = nf_tactic_count_threshold f,
          kf_cooldown = given_or (nf_cooldown f) (seconds 3600), kf_include = nf_include f,
          kf_nats_subject = nf_nats_subject f, kf_caps = build_risk_caps (nf_caps f) \<rparr>)"

definition build_object :: "object_file \<Rightarrow> risk_config_error + object_selector" where
  "build_object ob =
     (if trim (of_type ob) = [] then Inl RceEmptyObjectType
      else result_map (\<lambda>sel. \<lparr> ob_type = of_type ob, ob_selector = sel \<rparr>)
             (map_error RceObjectSelector (selector_parse (of_selector ob))))"

definition build_risk_layer :: "alert_env \<Rightarrow> risk_file \<Rightarrow> risk_config_error + risk_layer" where
  "build_risk_layer al f =
     result_bind
       (case kl_scope f of
          None \<Rightarrow> Inr scope_default
        | Some s \<Rightarrow> map_error RceScope (scope_new al (rs_rules s) (rs_tags s) (rs_levels s))) (\<lambda>sc.
       if kl_objects f = [] then Inl RceNoObjects
       else
         result_bind (collect_results build_object (kl_objects f)) (\<lambda>objects.
           result_map
             (\<lambda>incident.
                \<lparr> rl_scope = sc, rl_strip_event = kl_strip_event f,
                  rl_score = (let s = kl_score f in score_config_new (sof_attribute s) (sof_tag_scores s)
                    (sof_tag_reducer s) (sof_level_scores s) (sof_default_score s)),
                  rl_objects = objects, rl_emit_risk_events = kl_emit_risk_events f,
                  rl_nats_subject = kl_nats_subject f, rl_incident = incident \<rparr>)
             (case kl_incident f of None \<Rightarrow> Inr None
              | Some i \<Rightarrow> result_map Some (build_incident_config i))))"

end
