(* ===== verification/RiskProps.thy ===== *)
theory RiskProps
  imports Risk Window
begin

text \<open>
  The risk accumulator over a stream of contributions and ticks raises exactly the incidents that the
  history of the entity calls for.
\<close>

section \<open>The last elements of a list\<close>

lemma keep_last_rev: "keep_last n xs = rev (take n (rev xs))"
  by (simp add: keep_last_def take_rev)

lemma keep_last_append:
  "keep_last n (xs @ [x]) = (if n = 0 then [] else keep_last (n - 1) xs @ [x])"
  by (cases n) (simp_all add: keep_last_rev)

lemma keep_last_idem: "keep_last n (keep_last n xs @ [x]) = keep_last n (xs @ [x])"
  by (cases n) (simp_all add: keep_last_rev)

lemma keep_last_Nil: "keep_last n xs = [] \<longleftrightarrow> n = 0 \<or> xs = []"
  by (simp add: keep_last_rev)

lemma set_keep_last: "set (keep_last n xs) \<subseteq> set xs"
  by (simp add: keep_last_def set_drop_subset)

text \<open>In time order, what is still live are the last elements.\<close>

abbreviation in_order :: "contribution list \<Rightarrow> bool" where
  "in_order cs \<equiv> sorted (map cb_ts cs)"

abbreviation live_at :: "int \<Rightarrow> contribution list \<Rightarrow> contribution list" where
  "live_at cutoff cs \<equiv> filter (\<lambda>c. cutoff < cb_ts c) cs"

lemma live_dropWhile: "in_order cs \<Longrightarrow> dropWhile (\<lambda>c. cb_ts c \<le> cutoff) cs = live_at cutoff cs"
proof (induction cs)
  case (Cons c cs)
  have "live_at cutoff cs = cs" if "cutoff < cb_ts c"
    using Cons.prems that by (intro filter_True) force
  with Cons show ?case by auto
qed simp

lemma live_keep_last: "in_order cs \<Longrightarrow> live_at cutoff (keep_last n cs) = keep_last n (live_at cutoff cs)"
proof (induction cs arbitrary: n rule: rev_induct)
  case (snoc c cs)
  have order: "in_order cs" "\<And>d. d \<in> set cs \<Longrightarrow> cb_ts d \<le> cb_ts c"
    using snoc.prems by (auto simp: sorted_append)
  show ?case
  proof (cases "cutoff < cb_ts c")
    case True
    then show ?thesis using snoc.IH [OF order(1)] by (simp add: keep_last_append)
  next
    case False
    then have dead: "live_at cutoff xs = []" if "set xs \<subseteq> set (cs @ [c])" for xs
      using order(2) that by (fastforce simp: filter_empty_conv)
    have "live_at cutoff (cs @ [c]) = []" by (rule dead) simp
    moreover have "live_at cutoff (keep_last n (cs @ [c])) = []" by (rule dead [OF set_keep_last])
    ultimately show ?thesis by (simp add: keep_last_def)
  qed
qed (simp add: keep_last_def)

section \<open>Runs\<close>

text \<open>
  What reaches the accumulator: a contribution to an entity, at its own time and with the UUID that
  an incident would draw, or a tick.  The run gives the incident of each contribution, if any.
\<close>

datatype risk_step = RkContribution string "string \<times> string" contribution | RkTick int

fun step_time :: "risk_step \<Rightarrow> int" where
  "step_time (RkContribution uuid key c) = cb_ts c"
| "step_time (RkTick now) = now"

fun risk_run :: "incident_config \<Rightarrow> risk_step list \<Rightarrow> risk_state \<Rightarrow> risk_incident option list" where
  "risk_run cfg [] st = []"
| "risk_run cfg (RkContribution uuid key c # es) st =
     (case risk_record uuid cfg key c (cb_ts c) st of
        (outcome, st') \<Rightarrow> oc_incident outcome # risk_run cfg es st')"
| "risk_run cfg (RkTick now # es) st = risk_run cfg es (snd (risk_state_tick cfg now st))"

text \<open>
  The same by the history of each entity, the time of its last incident and the entities being
  followed: an entity is let in while there is room, and let go by a tick that finds nothing of its
  history in the window.  The time of its last incident is never forgotten.  The sums, counts and
  bounds are those of the contributions themselves.
\<close>

type_synonym risk_history = "string \<times> string \<Rightarrow> contribution list"

definition recent_of :: "incident_config \<Rightarrow> int \<Rightarrow> contribution list \<Rightarrow> contribution list" where
  "recent_of cfg now cs =
     (let live = filter (\<lambda>c. now - int (du_secs (kf_window cfg)) < cb_ts c) cs
      in drop (length live - kc_max_results_per_incident (kf_caps cfg)) live)"

definition risk_sum :: "contribution list \<Rightarrow> int" where
  "risk_sum cs = wrap_i64 (sum_list (map cb_score cs))"

definition tactics_met :: "contribution list \<Rightarrow> string set" where
  "tactics_met cs = (\<Union>c \<in> set cs. set (cb_tactics c))"

definition reached :: "incident_config \<Rightarrow> contribution list \<Rightarrow> string option" where
  "reached cfg cs =
     (if \<exists>t. kf_score_threshold cfg = Some t \<and> t \<le> risk_sum cs then Some ''score''
      else if \<exists>t. kf_tactic_count_threshold cfg = Some t \<and> t \<le> card (tactics_met cs) then Some ''tactic_count''
      else None)"

definition cooling :: "incident_config \<Rightarrow> int \<Rightarrow> int option \<Rightarrow> bool" where
  "cooling cfg now fired \<longleftrightarrow> (\<exists>f. fired = Some f \<and> now < f + int (du_secs (kf_cooldown cfg)))"

definition first_uses :: "'a list \<Rightarrow> 'a list" where
  "first_uses xs = rev (remdups (rev xs))"

definition incident_for ::
    "string \<Rightarrow> incident_config \<Rightarrow> string \<times> string \<Rightarrow> string \<Rightarrow> contribution list \<Rightarrow> risk_incident" where
  "incident_for uuid cfg key trigger cs =
     \<lparr> kn_id = uuid, kn_entity_type = fst key, kn_entity_value = snd key, kn_trigger = trigger,
       kn_score = risk_sum cs, kn_score_threshold = kf_score_threshold cfg,
       kn_tactic_count = card (tactics_met cs), kn_tactic_count_threshold = kf_tactic_count_threshold cfg,
       kn_tactics = first_uses (concat (map cb_tactics cs)),
       kn_sources = take (kc_max_sources_per_entity (kf_caps cfg)) (first_uses (map cb_rule cs)),
       kn_source_count = card (cb_rule ` set cs), kn_window_start = cb_ts (hd cs),
       kn_window_end = cb_ts (last cs), kn_result_count = length cs,
       kn_refs = (if kf_include cfg = RiRefs
         then Some (map (\<lambda>c. \<lparr> rf_rule = cb_rule c, rf_level = cb_level c, rf_score = cb_score c,
                              rf_timestamp = cb_ts c \<rparr>) cs) else None),
       kn_results = (if kf_include cfg = RiResults
         then Some (map the (filter (\<lambda>x. x \<noteq> None) (map cb_result cs))) else None) \<rparr>"

definition has_room :: "incident_config \<Rightarrow> (string \<times> string) list \<Rightarrow> string \<times> string \<Rightarrow> bool" where
  "has_room cfg followed key \<longleftrightarrow>
     key \<in> set followed \<or> length followed < kc_max_open_entities (kf_caps cfg)"

fun called_for :: "incident_config \<Rightarrow> risk_step list \<Rightarrow> (string \<times> string) list \<Rightarrow> risk_history
    \<Rightarrow> (string \<times> string \<Rightarrow> int option) \<Rightarrow> risk_incident option list" where
  "called_for cfg [] followed h fired = []"
| "called_for cfg (RkContribution uuid key c # es) followed h fired =
     (if \<not> has_room cfg followed key then None # called_for cfg es followed h fired
      else
        (let h' = h(key := h key @ [c]);
             followed' = (if key \<in> set followed then followed else followed @ [key]);
             cs = recent_of cfg (cb_ts c) (h' key)
         in case reached cfg cs of
              None \<Rightarrow> None # called_for cfg es followed' h' fired
            | Some trigger \<Rightarrow>
                (if cooling cfg (cb_ts c) (fired key) then None # called_for cfg es followed' h' fired
                 else Some (incident_for uuid cfg key trigger cs)
                      # called_for cfg es followed' h' (fired(key := Some (cb_ts c))))))"
| "called_for cfg (RkTick now # es) followed h fired =
     called_for cfg es (filter (\<lambda>key. recent_of cfg now (h key) \<noteq> []) followed) h fired"

text \<open>The same window, as the store prunes it.\<close>

definition in_window :: "incident_config \<Rightarrow> int \<Rightarrow> contribution list \<Rightarrow> contribution list" where
  "in_window cfg now cs =
     keep_last (kc_max_results_per_incident (kf_caps cfg)) (live_at (sub_i64 now (window_secs cfg)) cs)"

text \<open>
  The stored window of an entity holds what is live of its history; what the store has forgotten of
  its last incident is no longer of interest.
\<close>

definition stored_of :: "risk_state \<Rightarrow> string \<times> string \<Rightarrow> contribution list" where
  "stored_of st key = (case map_of st key of Some w \<Rightarrow> ew_contributions w | None \<Rightarrow> [])"

definition fired_of :: "risk_state \<Rightarrow> string \<times> string \<Rightarrow> int option" where
  "fired_of st key = Option.bind (map_of st key) ew_last_fired"

definition entity_tracked ::
    "incident_config \<Rightarrow> int \<Rightarrow> risk_history \<Rightarrow> (string \<times> string \<Rightarrow> int option) \<Rightarrow> risk_state
     \<Rightarrow> string \<times> string \<Rightarrow> bool" where
  "entity_tracked cfg now h fired st key \<longleftrightarrow>
     in_order (h key) \<and> in_order (stored_of st key)
     \<and> list_all (\<lambda>c. in_time (cb_ts c) \<and> cb_ts c \<le> now) (h key)
     \<and> live_at (sub_i64 now (window_secs cfg)) (stored_of st key) = in_window cfg now (h key)
     \<and> (case fired key of
          None \<Rightarrow> True
        | Some f \<Rightarrow> in_time f \<and> h key \<noteq> [] \<and> f \<le> cb_ts (last (h key)))
     \<and> (fired_of st key = fired key \<or> fired_of st key = None \<and> \<not> cooling_down cfg now (fired key))"

definition risk_config_ok :: "incident_config \<Rightarrow> bool" where
  "risk_config_ok cfg \<longleftrightarrow>
     0 < du_secs (kf_window cfg) \<and> span_ok (du_secs (kf_window cfg)) \<and> du_secs (kf_cooldown cfg) \<le> du_secs (kf_window cfg)
     \<and> 0 < kc_max_results_per_incident (kf_caps cfg)"

lemma config_spans:
  assumes "risk_config_ok cfg"
  shows "window_secs cfg = int (du_secs (kf_window cfg))"
    and "as_secs_i64 (kf_cooldown cfg) = int (du_secs (kf_cooldown cfg))"
    and "in_time now \<Longrightarrow> sub_i64 now (window_secs cfg) = now - int (du_secs (kf_window cfg))"
  using assms by (auto simp: risk_config_ok_def window_secs_def as_secs_i64_def span_ok_def)

lemma in_window_recent: "risk_config_ok cfg \<Longrightarrow> in_time now \<Longrightarrow> in_window cfg now cs = recent_of cfg now cs"
  by (simp add: in_window_def recent_of_def keep_last_def Let_def config_spans(3))

lemma cooling_down_cooling:
  assumes "risk_config_ok cfg" and "in_time now" and "\<And>f. fired = Some f \<Longrightarrow> in_time f"
  shows "cooling_down cfg now fired = cooling cfg now fired"
  using assms(2,3) by (cases fired) (auto simp: cooling_down_def cooling_def config_spans(2) [OF assms(1)])

section \<open>Statistics of a window\<close>

lemma wrap_add: "wrap_i64 (wrap_i64 a + b) = wrap_i64 (a + b)"
proof -
  have "((a + n) mod m - n + b + n) mod m = (a + b + n) mod m" for n m :: int
  proof -
    have "((a + n) mod m - n + b + n) mod m = ((a + n) mod m + b) mod m" by (simp add: algebra_simps)
    also have "\<dots> = (a + n + b) mod m" by (rule mod_add_left_eq)
    finally show ?thesis by (simp add: algebra_simps)
  qed
  then show ?thesis by (simp only: wrap_i64_def)
qed

lemma stats_score: "fold (\<lambda>c s. wrap_i64 (s + cb_score c)) cs 0 = risk_sum cs"
proof (induction cs rule: rev_induct)
  case (snoc c cs)
  then show ?case by (simp add: risk_sum_def wrap_add)
qed (simp add: risk_sum_def wrap_i64_def)

lemma push_first_uses: "fold push_distinct xs [] = first_uses xs"
  by (induction xs rule: rev_induct) (auto simp: first_uses_def push_distinct_def)

lemma stats_tactics: "fold (\<lambda>c. fold push_distinct (cb_tactics c)) cs [] = first_uses (concat (map cb_tactics cs))"
proof -
  have "fold (\<lambda>c. fold push_distinct (cb_tactics c)) cs acc = fold push_distinct (concat (map cb_tactics cs)) acc" for acc
    by (induction cs arbitrary: acc) simp_all
  then show ?thesis by (simp add: push_first_uses)
qed

lemma stats_sources: "fold (\<lambda>c. push_distinct (cb_rule c)) cs [] = first_uses (map cb_rule cs)"
  by (simp add: push_first_uses [symmetric] fold_map comp_def)

lemma length_first_uses: "length (first_uses xs) = card (set xs)"
  by (simp add: first_uses_def length_remdups_card_conv)

lemma stats_start:
  assumes "in_order cs" and "cs \<noteq> []" and "\<And>c. c \<in> set cs \<Longrightarrow> in_time (cb_ts c)"
  shows "fold (\<lambda>c. min (cb_ts c)) cs i64_max = cb_ts (hd cs)"
proof -
  have low: "(\<And>c. c \<in> set ds \<Longrightarrow> a \<le> cb_ts c) \<Longrightarrow> fold (\<lambda>c. min (cb_ts c)) ds a = a" for ds and a :: int
    by (induction ds) (simp_all add: min_absorb2)
  obtain c ds where cs: "cs = c # ds" using assms(2) by (cases cs) simp
  then have "min (cb_ts c) i64_max = cb_ts c"
    using assms(3) [of c] by (simp add: in_time_def i64_half i64_max_def min_def)
  then show ?thesis using assms(1) by (simp add: cs low)
qed

lemma stats_end:
  "in_order cs \<Longrightarrow> cs \<noteq> [] \<Longrightarrow> (\<And>c. c \<in> set cs \<Longrightarrow> in_time (cb_ts c)) \<Longrightarrow>
   fold (\<lambda>c. max (cb_ts c)) cs i64_min = cb_ts (last cs)"
proof (induction cs rule: rev_induct)
  case (snoc c cs)
  show ?case
  proof (cases "cs = []")
    case True
    then show ?thesis using snoc.prems(3) by (simp add: in_time_def i64_min_def max_def)
  next
    case False
    then have "fold (\<lambda>c. max (cb_ts c)) cs i64_min = cb_ts (last cs)"
      using snoc by (simp add: sorted_append)
    moreover have "cb_ts (last cs) \<le> cb_ts c" using snoc.prems(1) False by (simp add: sorted_append)
    ultimately show ?thesis by (simp add: max_absorb1)
  qed
qed simp

lemma tactics_met_concat: "set (concat (map cb_tactics cs)) = tactics_met cs"
  by (simp add: tactics_met_def)

lemma trigger_reached: "risk_trigger cfg (window_stats_of cs n) = reached cfg cs"
  by (simp add: risk_trigger_def reached_def window_stats_of_def Let_def stats_score stats_tactics
      length_first_uses tactics_met_def split: option.split)

lemma results_given: "filter_map f cs = map the (filter (\<lambda>x. x \<noteq> None) (map f cs))"
  by (induction cs) (auto split: option.splits)

lemma incident_built:
  assumes "in_order cs" and "cs \<noteq> []" and "\<And>c. c \<in> set cs \<Longrightarrow> in_time (cb_ts c)"
    and "length cs \<le> kc_max_results_per_incident (kf_caps cfg)"
  defines "stats \<equiv> window_stats_of cs (kc_max_sources_per_entity (kf_caps cfg))"
  shows "build_incident uuid cfg key trigger (length (wt_tactics stats)) stats cs
    = incident_for uuid cfg key trigger cs"
proof -
  have "cb_rule ` set cs = set (map cb_rule cs)" by simp
  then show ?thesis
    using stats_start [OF assms(1-3)] stats_end [OF assms(1-3)] assms(2,4)
    by (cases "kf_include cfg")
      (simp_all add: build_incident_def incident_for_def stats_def window_stats_of_def Let_def stats_score
        stats_tactics stats_sources length_first_uses tactics_met_def results_given ref_of_def)
qed

text \<open>Later, less is live.\<close>

lemma live_later: "(a :: int) \<le> b \<Longrightarrow> live_at b (live_at a cs) = live_at b cs"
  by (induction cs) auto

lemma tracked_later:
  assumes ok: "risk_config_ok cfg" and t: "entity_tracked cfg now h fired st key"
    and "now \<le> later" "in_time now" "in_time later"
  shows "entity_tracked cfg later h fired st key"
proof -
  let ?cut = "sub_i64 now (window_secs cfg)" and ?cut' = "sub_i64 later (window_secs cfg)"
    and ?n = "kc_max_results_per_incident (kf_caps cfg)"
  have cut: "?cut \<le> ?cut'" using assms(3,4,5) by (simp add: config_spans(3) [OF ok])
  have order: "in_order (h key)" and live: "live_at ?cut (stored_of st key) = in_window cfg now (h key)"
    using t by (simp_all add: entity_tracked_def)
  have "live_at ?cut' (stored_of st key) = live_at ?cut' (in_window cfg now (h key))"
    using live_later [OF cut, of "stored_of st key"] live by simp
  also have "\<dots> = keep_last ?n (live_at ?cut' (live_at ?cut (h key)))"
    unfolding in_window_def by (rule live_keep_last) (simp add: order sorted_filter)
  also have "\<dots> = in_window cfg later (h key)" by (simp only: live_later [OF cut] in_window_def)
  finally have "live_at ?cut' (stored_of st key) = in_window cfg later (h key)" .
  moreover have "\<not> cooling_down cfg later (fired key)" if "\<not> cooling_down cfg now (fired key)"
  proof (cases "fired key")
    case (Some f)
    then have "in_time f" using t by (simp add: entity_tracked_def)
    then show ?thesis using that assms(3,4,5) by (simp add: cooling_down_def Some)
  qed (simp add: cooling_down_def)
  moreover have "list_all (\<lambda>c. in_time (cb_ts c) \<and> cb_ts c \<le> later) (h key)"
    using t assms(3) unfolding entity_tracked_def list_all_iff by (meson order_trans)
  ultimately show ?thesis using t unfolding entity_tracked_def by blast
qed

lemma window_order: "in_order cs \<Longrightarrow> in_order (in_window cfg now cs)"
proof -
  assume "in_order cs"
  then have "in_order (live_at (sub_i64 now (window_secs cfg)) cs)" by (rule sorted_filter)
  then have "sorted (drop n (map cb_ts (live_at (sub_i64 now (window_secs cfg)) cs)))" for n
    by (rule sorted_wrt_drop)
  then show ?thesis unfolding in_window_def keep_last_def drop_map .
qed

lemma window_live: "live_at (sub_i64 now (window_secs cfg)) (in_window cfg now cs) = in_window cfg now cs"
proof (rule filter_True, rule ballI)
  fix c assume "c \<in> set (in_window cfg now cs)"
  then have "c \<in> set (live_at (sub_i64 now (window_secs cfg)) cs)"
    unfolding in_window_def by (rule subsetD [OF set_keep_last])
  then show "sub_i64 now (window_secs cfg) < cb_ts c" by simp
qed

text \<open>Pruning leaves the window of the history.\<close>

lemma pruned_window:
  assumes "entity_tracked cfg now h fired st key"
  shows "dropWhile (\<lambda>c. cb_ts c \<le> sub_i64 now (window_secs cfg)) (stored_of st key) = in_window cfg now (h key)"
  using assms by (simp add: entity_tracked_def live_dropWhile)

lemma window_snoc:
  assumes ok: "risk_config_ok cfg" and "in_time (cb_ts c)"
  shows "keep_last (kc_max_results_per_incident (kf_caps cfg)) (in_window cfg (cb_ts c) cs @ [c])
    = in_window cfg (cb_ts c) (cs @ [c])"
proof -
  have "sub_i64 (cb_ts c) (window_secs cfg) < cb_ts c"
    using assms by (simp add: config_spans(3) [OF ok]) (simp add: risk_config_ok_def)
  then show ?thesis by (simp add: in_window_def keep_last_idem)
qed

lemma cooling_same:
  assumes "entity_tracked cfg now h fired st key"
  shows "cooling_down cfg now (fired_of st key) = cooling_down cfg now (fired key)"
  using assms by (auto simp: entity_tracked_def cooling_down_def)

text \<open>What \<open>risk_record\<close> does on a tracked entity.\<close>

definition recorded_window :: "incident_config \<Rightarrow> int \<Rightarrow> contribution list \<Rightarrow> int option \<Rightarrow> entity_window" where
  "recorded_window cfg now cs fired = \<lparr> ew_contributions = cs, ew_last_fired = fired, ew_last_seen = now \<rparr>"

lemma recorded_state:
  assumes ok: "risk_config_ok cfg" and t: "entity_tracked cfg (cb_ts c) h fired st key" and "in_time (cb_ts c)"
    and room: "has_room cfg (map fst st) key"
  defines "cs \<equiv> in_window cfg (cb_ts c) (h key @ [c])"
  defines "stats \<equiv> window_stats_of cs (kc_max_sources_per_entity (kf_caps cfg))"
  shows "risk_record uuid cfg key c (cb_ts c) st =
    (case risk_trigger cfg stats of
       None \<Rightarrow> (\<lparr> oc_incident = None, oc_evicted = False \<rparr>,
                map_insert key (recorded_window cfg (cb_ts c) cs (fired_of st key)) st)
     | Some trigger \<Rightarrow>
         if cooling_down cfg (cb_ts c) (fired key)
         then (\<lparr> oc_incident = None, oc_evicted = False \<rparr>,
               map_insert key (recorded_window cfg (cb_ts c) cs (fired_of st key)) st)
         else (\<lparr> oc_incident = Some (build_incident uuid cfg key trigger (length (wt_tactics stats)) stats cs),
                 oc_evicted = False \<rparr>,
               map_insert key (recorded_window cfg (cb_ts c) cs (Some (cb_ts c))) st))"
proof -
  define w1 where "w1 = prune_window (sub_i64 (cb_ts c) (window_secs cfg))
    (case map_of st key of Some w \<Rightarrow> w | None \<Rightarrow> entity_window_default)"
  have w1: "ew_contributions w1 = in_window cfg (cb_ts c) (h key)" "ew_last_fired w1 = fired_of st key"
    using pruned_window [OF t]
    by (auto simp: w1_def prune_window_def stored_of_def fired_of_def entity_window_default_def split: option.split)
  have cs: "keep_last (kc_max_results_per_incident (kf_caps cfg)) (ew_contributions w1 @ [c]) = cs"
    unfolding w1 cs_def by (rule window_snoc [OF ok assms(3)])
  have rw: "w1 \<lparr> ew_last_seen := cb_ts c, ew_contributions := cs \<rparr> = recorded_window cfg (cb_ts c) cs (fired_of st key)"
    by (simp add: recorded_window_def w1(2))
  have "\<not> (map_of st key = None \<and> kc_max_open_entities (kf_caps cfg) \<le> length st)"
    using room by (auto simp: has_room_def map_of_eq_None_iff)
  then show ?thesis
    using cooling_same [OF t]
    by (simp add: risk_record_def Let_def w1_def [symmetric] cs rw stats_def [symmetric] split: option.split)
      (simp add: recorded_window_def)
qed

text \<open>An entity whose stored window is replaced by what is live of its history stays tracked.\<close>

lemma tracked_replaced:
  assumes "entity_tracked cfg now h fired st key"
    and "stored_of st' key = in_window cfg now (h' key)" and "in_order (h' key)"
    and "list_all (\<lambda>c. in_time (cb_ts c) \<and> cb_ts c \<le> now) (h' key)"
    and "case fired' key of None \<Rightarrow> True
        | Some f \<Rightarrow> in_time f \<and> h' key \<noteq> [] \<and> f \<le> cb_ts (last (h' key))"
    and "fired_of st' key = fired' key \<or> fired_of st' key = None \<and> \<not> cooling_down cfg now (fired' key)"
  shows "entity_tracked cfg now h' fired' st' key"
  using assms(2-) by (simp add: entity_tracked_def window_order window_live)

lemma tracked_other:
  "entity_tracked cfg now h fired st key \<Longrightarrow> h' key = h key \<Longrightarrow> fired' key = fired key \<Longrightarrow>
   map_of st' key = map_of st key \<Longrightarrow> entity_tracked cfg now h' fired' st' key"
  unfolding entity_tracked_def stored_of_def fired_of_def by (simp only:)

definition risk_tracked ::
    "incident_config \<Rightarrow> int \<Rightarrow> (string \<times> string) list \<Rightarrow> risk_history \<Rightarrow> (string \<times> string \<Rightarrow> int option)
     \<Rightarrow> risk_state \<Rightarrow> bool" where
  "risk_tracked cfg now followed h fired st \<longleftrightarrow>
     map fst st = followed \<and> distinct followed \<and> (\<forall>key. entity_tracked cfg now h fired st key)"

lemma keys_inserted: "map fst (map_insert key w st) = push_distinct key (map fst st)"
  by (induction key w st rule: map_insert.induct) (auto simp: push_distinct_def)

lemma tracked_recorded:
  assumes ok: "risk_config_ok cfg" and t: "risk_tracked cfg (cb_ts c) followed h fired st"
    and c: "in_time (cb_ts c)"
    and f: "f = fired_of st key \<and> fired' = fired \<or> f = Some (cb_ts c) \<and> fired' = fired(key := Some (cb_ts c))"
  shows "risk_tracked cfg (cb_ts c) (push_distinct key followed) (h(key := h key @ [c])) fired'
    (map_insert key (recorded_window cfg (cb_ts c) (in_window cfg (cb_ts c) (h key @ [c])) f) st)"
proof -
  let ?st = "map_insert key (recorded_window cfg (cb_ts c) (in_window cfg (cb_ts c) (h key @ [c])) f) st"
  let ?h = "h(key := h key @ [c])"
  have e: "entity_tracked cfg (cb_ts c) h fired st k" for k
    using t unfolding risk_tracked_def by blast
  have same: "entity_tracked cfg (cb_ts c) ?h fired' ?st key"
  proof (rule tracked_replaced [OF e])
    show "stored_of ?st key = in_window cfg (cb_ts c) (?h key)"
      by (simp add: stored_of_def recorded_window_def)
    have le: "\<And>d. d \<in> set (h key) \<Longrightarrow> in_time (cb_ts d) \<and> cb_ts d \<le> cb_ts c"
      using e [of key] by (simp add: entity_tracked_def list_all_iff)
    then show "in_order (?h key)" using e [of key] by (simp add: entity_tracked_def sorted_append)
    show "list_all (\<lambda>d. in_time (cb_ts d) \<and> cb_ts d \<le> cb_ts c) (?h key)"
      using le c by (simp add: list_all_iff)
    have "g \<le> cb_ts c" if "h key \<noteq> []" "g \<le> cb_ts (last (h key))" for g
      using le [of "last (h key)"] that by simp
    then show "case fired' key of None \<Rightarrow> True
        | Some f \<Rightarrow> in_time f \<and> ?h key \<noteq> [] \<and> f \<le> cb_ts (last (?h key))"
      using f e [of key] c by (auto simp: entity_tracked_def split: option.splits)
    show "fired_of ?st key = fired' key \<or> fired_of ?st key = None \<and> \<not> cooling_down cfg (cb_ts c) (fired' key)"
      using f e [of key] by (auto simp: entity_tracked_def fired_of_def recorded_window_def)
  qed
  have "entity_tracked cfg (cb_ts c) ?h fired' ?st k" for k
  proof (cases "k = key")
    case False
    then show ?thesis using f by (intro tracked_other [OF e]) auto
  qed (simp add: same)
  then show ?thesis
    using t distinct_map_insert [of st key] by (simp add: risk_tracked_def keys_inserted)
qed

lemma tick_window:
  assumes "map_of st key = Some w" and "entity_tracked cfg now h fired st key"
  shows "prune_window (sub_i64 now (window_secs cfg)) w = w \<lparr> ew_contributions := in_window cfg now (h key) \<rparr>"
  using pruned_window [OF assms(2)] assms(1) by (simp add: prune_window_def stored_of_def)

lemma tick_keys:
  assumes "distinct (map fst st)" and "\<And>key. entity_tracked cfg now h fired st key"
  shows "map fst (snd (risk_state_tick cfg now st)) = filter (\<lambda>key. in_window cfg now (h key) \<noteq> []) (map fst st)"
proof -
  let ?f = "\<lambda>_ w. let w' = prune_window (sub_i64 now (window_secs cfg)) w
    in if ew_contributions w' = [] then None else Some w'"
  have "map fst (map_retain ?f m) = filter (\<lambda>key. in_window cfg now (h key) \<noteq> []) (map fst m)"
    if "set m \<subseteq> set st" for m
    using that
  proof (induction m)
    case (Cons e m)
    obtain k w where e: "e = (k, w)" by (cases e)
    then have "map_of st k = Some w" using Cons.prems assms(1) by simp
    from tick_window [OF this assms(2)] Cons show ?case
      by (simp add: e map_retain_Cons Let_def)
  qed simp
  then show ?thesis by (simp add: risk_state_tick_def Let_def)
qed

lemma tick_lookup:
  assumes "distinct (map fst st)" and "\<And>key. entity_tracked cfg now h fired st key"
  shows "map_of (snd (risk_state_tick cfg now st)) key =
    (if in_window cfg now (h key) = [] then None
     else map_option (\<lambda>w. w \<lparr> ew_contributions := in_window cfg now (h key) \<rparr>) (map_of st key))"
proof (cases "map_of st key")
  case None
  then show ?thesis by (simp add: risk_state_tick_def Let_def map_of_map_retain [OF assms(1)])
next
  case (Some w)
  then show ?thesis using tick_window [OF Some assms(2)]
    by (simp add: risk_state_tick_def Let_def map_of_map_retain [OF assms(1)])
qed

text \<open>What a tick forgets has cooled down.\<close>

lemma cooled_down:
  assumes ok: "risk_config_ok cfg" and t: "entity_tracked cfg now h fired st key" and now: "in_time now"
    and gone: "in_window cfg now (h key) = []"
  shows "\<not> cooling_down cfg now (fired key)"
proof (cases "fired key")
  case (Some f)
  then have f: "in_time f" "h key \<noteq> []" "f \<le> cb_ts (last (h key))" using t by (simp_all add: entity_tracked_def)
  have "live_at (sub_i64 now (window_secs cfg)) (h key) = []"
    using gone ok by (simp add: in_window_def keep_last_Nil risk_config_ok_def)
  then have "cb_ts (last (h key)) \<le> now - int (du_secs (kf_window cfg))"
    using f(2) by (simp add: filter_empty_conv config_spans(3) [OF ok now] not_less)
  then show ?thesis
    using f ok now by (simp add: cooling_down_def Some config_spans(2)) (simp add: risk_config_ok_def)
qed (simp add: cooling_down_def)

lemma tracked_tick:
  assumes ok: "risk_config_ok cfg" and t: "risk_tracked cfg now followed h fired st" and now: "in_time now"
  shows "risk_tracked cfg now (filter (\<lambda>key. in_window cfg now (h key) \<noteq> []) followed) h fired
    (snd (risk_state_tick cfg now st))"
proof -
  let ?st = "snd (risk_state_tick cfg now st)"
  have d: "distinct (map fst st)" and e: "\<And>key. entity_tracked cfg now h fired st key"
    and keys: "map fst st = followed"
    using t unfolding risk_tracked_def by blast+
  have "entity_tracked cfg now h fired ?st key" for key
  proof (rule tracked_replaced [OF e])
    have "in_window cfg now (h key) = []" if "map_of st key = None"
      using e [of key] that by (simp add: entity_tracked_def stored_of_def)
    then show "stored_of ?st key = in_window cfg now (h key)"
      by (auto simp: stored_of_def tick_lookup [OF d e] split: option.split)
    show "fired_of ?st key = fired key \<or> fired_of ?st key = None \<and> \<not> cooling_down cfg now (fired key)"
    proof (cases "in_window cfg now (h key) = []")
      case True
      then show ?thesis using cooled_down [OF ok e now] by (simp add: fired_of_def tick_lookup [OF d e])
    next
      case False
      then have "fired_of ?st key = fired_of st key"
        by (cases "map_of st key") (simp_all add: fired_of_def tick_lookup [OF d e])
      then show ?thesis using e [of key] by (simp add: entity_tracked_def)
    qed
  qed (use e [of key] in \<open>simp_all add: entity_tracked_def\<close>)
  then show ?thesis
    using d by (simp add: risk_tracked_def tick_keys [OF d e] keys [symmetric])
qed

lemma risk_tracked_later:
  "risk_config_ok cfg \<Longrightarrow> risk_tracked cfg now followed h fired st \<Longrightarrow> now \<le> later \<Longrightarrow> in_time now \<Longrightarrow>
   in_time later \<Longrightarrow> risk_tracked cfg later followed h fired st"
  unfolding risk_tracked_def using tracked_later by blast

lemma risk_refused:
  "\<not> has_room cfg (map fst st) key \<Longrightarrow>
   risk_record uuid cfg key c now st = (\<lparr> oc_incident = None, oc_evicted = True \<rparr>, st)"
  by (simp add: has_room_def risk_record_def map_of_eq_None_iff)

text \<open>What the store computes of the window of a tracked entity, by its history.\<close>

lemma incident_called:
  assumes ok: "risk_config_ok cfg" and t: "entity_tracked cfg (cb_ts c) h fired st key" and "in_time (cb_ts c)"
  defines "cs \<equiv> in_window cfg (cb_ts c) (h key @ [c])"
  defines "stats \<equiv> window_stats_of cs (kc_max_sources_per_entity (kf_caps cfg))"
  shows "risk_trigger cfg stats = reached cfg cs"
    and "cooling_down cfg (cb_ts c) (fired key) = cooling cfg (cb_ts c) (fired key)"
    and "build_incident uuid cfg key trigger (length (wt_tactics stats)) stats cs = incident_for uuid cfg key trigger cs"
proof -
  have times: "\<And>d. d \<in> set (h key @ [c]) \<Longrightarrow> in_time (cb_ts d) \<and> cb_ts d \<le> cb_ts c"
    using t assms(3) by (auto simp: entity_tracked_def list_all_iff)
  have "in_order (h key @ [c])"
    using t times by (simp add: entity_tracked_def sorted_append)
  then have order: "in_order cs" unfolding cs_def by (rule window_order)
  have sub: "set cs \<subseteq> set (h key @ [c])"
    unfolding cs_def in_window_def using set_keep_last filter_is_subset by (rule subset_trans)
  have "cs = keep_last (kc_max_results_per_incident (kf_caps cfg)) (in_window cfg (cb_ts c) (h key) @ [c])"
    unfolding cs_def by (rule window_snoc [OF ok assms(3), symmetric])
  then have cs: "cs \<noteq> []" "length cs \<le> kc_max_results_per_incident (kf_caps cfg)"
    using ok by (auto simp: keep_last_Nil risk_config_ok_def keep_last_def)
  show "risk_trigger cfg stats = reached cfg cs" unfolding stats_def by (rule trigger_reached)
  show "cooling_down cfg (cb_ts c) (fired key) = cooling cfg (cb_ts c) (fired key)"
    using t by (intro cooling_down_cooling [OF ok assms(3)]) (simp add: entity_tracked_def)
  show "build_incident uuid cfg key trigger (length (wt_tactics stats)) stats cs = incident_for uuid cfg key trigger cs"
    unfolding stats_def using times sub by (intro incident_built order cs) blast
qed

lemma run_called:
  assumes ok: "risk_config_ok cfg"
  shows "risk_tracked cfg past followed h fired st \<Longrightarrow> in_time past \<Longrightarrow> sorted (past # map step_time es) \<Longrightarrow>
    list_all (\<lambda>e. in_time (step_time e)) es \<Longrightarrow>
    risk_run cfg es st = called_for cfg es followed h fired"
proof (induction es arbitrary: past followed h fired st)
  case (Cons e es)
  let ?now = "step_time e"
  have now: "past \<le> ?now" "in_time ?now" "sorted (?now # map step_time es)"
    "list_all (\<lambda>e. in_time (step_time e)) es"
    using Cons.prems(3,4) by auto
  have t: "risk_tracked cfg ?now followed h fired st"
    by (rule risk_tracked_later [OF ok Cons.prems(1) now(1) Cons.prems(2) now(2)])
  have keys: "map fst st = followed" using t by (simp add: risk_tracked_def)
  note IH = Cons.IH [OF _ now(2,3,4)]
  show ?case
  proof (cases e)
    case (RkTick tick)
    with now(2) have "in_time tick" by simp
    then show ?thesis using IH [OF tracked_tick [OF ok t now(2)]] by (simp add: RkTick in_window_recent [OF ok])
  next
    case (RkContribution uuid key c)
    show ?thesis
    proof (cases "has_room cfg followed key")
      case False
      then show ?thesis using IH [OF t] by (simp add: RkContribution risk_refused keys)
    next
      case True
      have ct: "in_time (cb_ts c)" "risk_tracked cfg (cb_ts c) followed h fired st"
        using now(2) t RkContribution by simp_all
      then have et: "entity_tracked cfg (cb_ts c) h fired st key" unfolding risk_tracked_def by blast
      let ?cs = "recent_of cfg (cb_ts c) (h key @ [c])"
      note rec = recorded_state [OF ok et ct(1), unfolded keys, OF True, unfolded in_window_recent [OF ok ct(1)]]
      note called = incident_called [OF ok et ct(1), unfolded in_window_recent [OF ok ct(1)]]
      have kept: "risk_run cfg es (map_insert key (recorded_window cfg (cb_ts c) ?cs (fired_of st key)) st)
          = called_for cfg es (if key \<in> set followed then followed else followed @ [key]) (h(key := h key @ [c])) fired"
        unfolding in_window_recent [OF ok ct(1), symmetric]
        by (rule IH, unfold RkContribution step_time.simps, rule tracked_recorded [OF ok ct(2,1), unfolded push_distinct_def]) blast
      have new: "risk_run cfg es (map_insert key (recorded_window cfg (cb_ts c) ?cs (Some (cb_ts c))) st)
          = called_for cfg es (if key \<in> set followed then followed else followed @ [key]) (h(key := h key @ [c])) (fired(key := Some (cb_ts c)))"
        unfolding in_window_recent [OF ok ct(1), symmetric]
        by (rule IH, unfold RkContribution step_time.simps, rule tracked_recorded [OF ok ct(2,1), unfolded push_distinct_def]) blast
      show ?thesis
        by (simp add: RkContribution True rec called Let_def kept new split: option.split)
    qed
  qed
qed simp

section \<open>Property\<close>

text \<open>
  C29: an incident is raised exactly when the history of an entity calls for it.  Over any sequence of
  contributions and ticks in time order (at times between 0 and half of the range of i64), starting
  with an empty store, a contribution to an entity raises an incident if and only if the entity is
  followed or there is room for it, the newest of its contributions of the last window (at most as
  many as the cap on results) reach the score or the tactic threshold, and it has raised none within
  the cooldown; the incident carries the numbers of those contributions.  An entity is let go by a
  tick that finds nothing of it within the window, and what it has then forgotten, its last incident
  included, makes no difference.  The window must be positive and no shorter than the cooldown, and
  the cap on results not 0.
\<close>

theorem risk_incidents_exact:
  assumes "risk_config_ok cfg" and "sorted (map step_time es)"
    and "list_all (\<lambda>e. in_time (step_time e)) es"
  shows "risk_run cfg es [] = called_for cfg es [] (\<lambda>_. []) (\<lambda>_. None)"
proof (rule run_called [OF assms(1)])
  show "risk_tracked cfg 0 [] (\<lambda>_. []) (\<lambda>_. None) []"
    by (simp add: risk_tracked_def entity_tracked_def stored_of_def fired_of_def in_window_def keep_last_def)
  show "in_time 0" by (simp add: in_time_def i64_max_def)
  show "sorted (0 # map step_time es)"
    using assms(2,3) by (auto simp: in_time_def list_all_iff)
qed (rule assms(3))

text \<open>
  An entity reaches the threshold, cools down, is let go by a tick, and reaches the threshold again.
\<close>

definition sample_incident_config :: incident_config where
  "sample_incident_config =
     \<lparr> kf_window = seconds 10, kf_score_threshold = Some 5, kf_tactic_count_threshold = None,
       kf_cooldown = seconds 4, kf_include = RiRefs, kf_nats_subject = None,
       kf_caps = \<lparr> kc_max_open_entities = 2, kc_max_sources_per_entity = 2, kc_max_results_per_incident = 2 \<rparr> \<rparr>"

definition sample_contribution :: "int \<Rightarrow> int \<Rightarrow> contribution" where
  "sample_contribution now score =
     \<lparr> cb_ts = now, cb_score = score, cb_tactics = [], cb_rule = ''r'', cb_level = None, cb_result = None \<rparr>"

definition sample_risk_steps :: "risk_step list" where
  "sample_risk_steps =
     (let alice = (''user'', ''alice'')
      in [RkContribution ''u'' alice (sample_contribution 1 3), RkContribution ''u'' alice (sample_contribution 2 3),
          RkContribution ''u'' alice (sample_contribution 3 3), RkTick 20,
          RkContribution ''u'' alice (sample_contribution 21 6)])"

theorem risk_incidents_exact_witness:
  "map (map_option kn_score) (risk_run sample_incident_config sample_risk_steps [])
     = [None, Some 6, None, Some 6]
   \<and> map (map_option kn_score) (called_for sample_incident_config sample_risk_steps [] (\<lambda>_. []) (\<lambda>_. None))
     = [None, Some 6, None, Some 6]"
proof -
  have "risk_config_ok sample_incident_config"
    by (simp add: risk_config_ok_def sample_incident_config_def seconds_def span_ok_def i64_max_def)
  moreover have "sorted (map step_time sample_risk_steps)"
    by (simp add: sample_risk_steps_def sample_contribution_def Let_def)
  moreover have "list_all (\<lambda>e. in_time (step_time e)) sample_risk_steps"
    by (simp add: sample_risk_steps_def sample_contribution_def Let_def in_time_def i64_max_def)
  ultimately have "risk_run sample_incident_config sample_risk_steps []
      = called_for sample_incident_config sample_risk_steps [] (\<lambda>_. []) (\<lambda>_. None)"
    by (rule risk_incidents_exact)
  moreover have "map (map_option kn_score) (risk_run sample_incident_config sample_risk_steps [])
     = [None, Some 6, None, Some 6]"
    by code_simp
  ultimately show ?thesis by simp
qed

text \<open>
  The condition on the cooldown is needed: a tick forgets the last incident with the entity, and a
  cooldown longer than the window is not kept.
\<close>

lemma cooldown_forgotten:
  "(let cfg = sample_incident_config \<lparr> kf_cooldown := seconds 30 \<rparr>;
        hit = \<lambda>now. RkContribution ''u'' (''user'', ''alice'') (sample_contribution now 6)
    in map (map_option kn_score) (risk_run cfg [hit 1, hit 20] []) = [Some 6, None]
     \<and> map (map_option kn_score) (risk_run cfg [hit 1, RkTick 15, hit 20] []) = [Some 6, Some 6])"
  by code_simp

end
