(* ===== verification/IpAddr.thy ===== *)
theory IpAddr
  imports Prelude
begin

text \<open>
  The text parser of the standard library's IP addresses (\<open>str::parse::<IpAddr>\<close>), which the
  CIDR check of \<open>rsigma-parser/src/validate.rs\<close> uses: a recursive descent over the bytes that
  restores its position when a part does not parse, as functions from the rest of the text to the
  value read and the rest after it.
\<close>

type_synonym 'a reader = "string \<Rightarrow> ('a \<times> string) option"

section \<open>Numbers\<close>

definition hex_val :: "char \<Rightarrow> nat option" where
  "hex_val c =
     (let n = (of_char c :: nat) in
      if 48 \<le> n \<and> n \<le> 57 then Some (n - 48)
      else if 97 \<le> n \<and> n \<le> 102 then Some (n - 87)
      else if 65 \<le> n \<and> n \<le> 70 then Some (n - 55)
      else None)"

definition radix_val :: "nat \<Rightarrow> char \<Rightarrow> nat option" where
  "radix_val radix c = (case hex_val c of Some d \<Rightarrow> if d < radix then Some d else None | None \<Rightarrow> None)"

text \<open>
  The digit loop of \<open>read_number\<close> with its count and value; more than \<open>max_digits\<close> digits or a
  value over \<open>limit\<close> (the target type's maximum) is no number.
\<close>

fun read_digits :: "nat \<Rightarrow> nat \<Rightarrow> nat \<Rightarrow> nat \<Rightarrow> nat \<Rightarrow> string \<Rightarrow> (nat \<times> nat \<times> string) option" where
  "read_digits radix max_digits limit count acc [] = Some (count, acc, [])"
| "read_digits radix max_digits limit count acc (c # cs) =
     (case radix_val radix c of
        None \<Rightarrow> Some (count, acc, c # cs)
      | Some d \<Rightarrow>
          (let acc' = acc * radix + d
           in if limit < acc' \<or> max_digits < Suc count then None
              else read_digits radix max_digits limit (Suc count) acc' cs))"

definition read_number :: "nat \<Rightarrow> nat \<Rightarrow> bool \<Rightarrow> nat \<Rightarrow> nat reader" where
  "read_number radix max_digits allow_zero_prefix limit s =
     (case read_digits radix max_digits limit 0 0 s of
        None \<Rightarrow> None
      | Some (count, n, r) \<Rightarrow>
          if count = 0 then None
          else if \<not> allow_zero_prefix \<and> starts_with s ''0'' \<and> 1 < count then None
          else Some (n, r))"

section \<open>Addresses\<close>

definition read_given_char :: "char \<Rightarrow> unit reader" where
  "read_given_char c s = (case s of d # r \<Rightarrow> if d = c then Some ((), r) else None | [] \<Rightarrow> None)"

definition read_separator :: "char \<Rightarrow> nat \<Rightarrow> 'a reader \<Rightarrow> 'a reader" where
  "read_separator sep index inner s =
     (if 0 < index
      then (case read_given_char sep s of Some (_, r) \<Rightarrow> inner r | None \<Rightarrow> None)
      else inner s)"

fun read_octets :: "nat \<Rightarrow> nat \<Rightarrow> nat list reader" where
  "read_octets index 0 s = Some ([], s)"
| "read_octets index (Suc n) s =
     (case read_separator (CHR ''.'') index (read_number 10 3 False 255) s of
        None \<Rightarrow> None
      | Some (octet, r) \<Rightarrow>
          (case read_octets (Suc index) n r of
             None \<Rightarrow> None
           | Some (octets, r') \<Rightarrow> Some (octet # octets, r')))"

definition read_ipv4_addr :: "nat list reader" where
  "read_ipv4_addr = read_octets 0 4"

text \<open>
  \<open>read_groups\<close> fills at most \<open>room\<close> groups of sixteen bits and tells whether they end in an
  embedded IPv4 address, which takes two groups; \<open>index\<close> counts the groups read so far.
\<close>

fun read_groups :: "nat \<Rightarrow> nat \<Rightarrow> string \<Rightarrow> nat list \<times> bool \<times> string" where
  "read_groups index 0 s = ([], False, s)"
| "read_groups index (Suc room) s =
     (case (if 0 < room then read_separator (CHR '':'') index read_ipv4_addr s else None) of
        Some (octets, r) \<Rightarrow>
          ([octets ! 0 * 256 + octets ! 1, octets ! 2 * 256 + octets ! 3], True, r)
      | None \<Rightarrow>
          (case read_separator (CHR '':'') index (read_number 16 4 True 65535) s of
             None \<Rightarrow> ([], False, s)
           | Some (g, r) \<Rightarrow>
               (case read_groups (Suc index) room r of
                  (gs, v4, r') \<Rightarrow> (g # gs, v4, r'))))"

definition read_ipv6_addr :: "nat list reader" where
  "read_ipv6_addr s =
     (case read_groups 0 8 s of
        (head, head_ipv4, r) \<Rightarrow>
          if length head = 8 then Some (head, r)
          else if head_ipv4 then None
          else
            (case read_given_char (CHR '':'') r of
               None \<Rightarrow> None
             | Some (_, r1) \<Rightarrow>
                 (case read_given_char (CHR '':'') r1 of
                    None \<Rightarrow> None
                  | Some (_, r2) \<Rightarrow>
                      (case read_groups 0 (8 - (length head + 1)) r2 of
                         (tail, _, r3) \<Rightarrow>
                           Some (head @ replicate (8 - length head - length tail) 0 @ tail, r3)))))"

datatype ip_addr = IpV4 "nat list" | IpV6 "nat list"

definition ip_addr_parse :: "string \<Rightarrow> ip_addr option" where
  "ip_addr_parse s =
     (case (case read_ipv4_addr s of
              Some (octets, r) \<Rightarrow> Some (IpV4 octets, r)
            | None \<Rightarrow> (case read_ipv6_addr s of
                         Some (groups, r) \<Rightarrow> Some (IpV6 groups, r)
                       | None \<Rightarrow> None)) of
        Some (addr, []) \<Rightarrow> Some addr
      | _ \<Rightarrow> None)"

text \<open>\<open>u32::from\<close> of an IPv4 address and \<open>u128::from\<close> of an IPv6 address: big-endian digits.\<close>

definition big_endian :: "nat \<Rightarrow> nat list \<Rightarrow> nat" where
  "big_endian base ds = fold (\<lambda>d n. n * base + d) ds 0"

fun ip_bits :: "ip_addr \<Rightarrow> nat" where
  "ip_bits (IpV4 octets) = big_endian 256 octets"
| "ip_bits (IpV6 groups) = big_endian 65536 groups"

fun ip_width :: "ip_addr \<Rightarrow> nat" where
  "ip_width (IpV4 _) = 32"
| "ip_width (IpV6 _) = 128"

section \<open>Lemmas\<close>

lemma big_endian_snoc [simp]: "big_endian b (ds @ [d]) = big_endian b ds * b + d"
  by (simp add: big_endian_def)

lemma big_endian_bound:
  "list_all (\<lambda>d. d < b) ds \<Longrightarrow> big_endian b ds < b ^ length ds"
proof (induction ds rule: rev_induct)
  case Nil
  then show ?case by (simp add: big_endian_def)
next
  case (snoc d ds)
  then have "Suc (big_endian b ds) \<le> b ^ length ds" and d: "d < b"
    by (simp_all add: Suc_le_eq)
  from mult_le_mono1 [OF this(1), of b] d show ?case by (simp add: mult.commute)
qed

end
