(* ===== verification/Validate.thy ===== *)
theory Validate
  imports Ast Env IpAddr
begin

text \<open>
  The semantic checks on parsed detections (\<open>rsigma-parser/src/validate.rs\<close>) and the errors of the
  parser (\<open>rsigma-parser/src/error.rs\<close>): modifier chains, CIDR and regex values, detection items,
  whole detections, and the references of a condition.
\<close>

unbundle bit_operations_syntax

section \<open>Errors\<close>

text \<open>
  \<open>SigmaParserError\<close>; the errors of the YAML library and of the operating system are held as their
  texts, a source location as its line and column.
\<close>

datatype sigma_parser_error =
  PeYaml string
| PeCondition string "(nat \<times> nat) option"
| PeUnknownModifier string
| PeDuplicateModifier string
| PeNotIsNotAModifier
| PeInvalidFieldSpec string
| PeInvalidModifiers string
| PeInvalidRule string
| PeMissingField string
| PeInvalidDetection string
| PeInvalidCorrelation string
| PeInvalidTimespan string
| PeInvalidValue string
| PeInvalidAction string
| PeIo string
| PeMergeTooDeep nat
| PeConditionTooLong nat nat

definition format_with_location :: "string \<Rightarrow> (nat \<times> nat) option \<Rightarrow> string" where
  "format_with_location msg loc =
     (case loc of
        Some (line, col) \<Rightarrow>
          ''Condition parse error at '' @ show_nat line @ '':'' @ show_nat col @ '': '' @ msg
      | None \<Rightarrow> ''Condition parse error: '' @ msg)"

fun show_parser_error :: "sigma_parser_error \<Rightarrow> string" where
  "show_parser_error (PeYaml e) = ''YAML parsing error: '' @ e"
| "show_parser_error (PeCondition msg loc) = format_with_location msg loc"
| "show_parser_error (PeUnknownModifier m) = ''Unknown modifier '' @ [CHR 0x27] @ m @ [CHR 0x27]"
| "show_parser_error (PeDuplicateModifier m) =
     ''Modifier '' @ [CHR 0x27] @ m @ [CHR 0x27] @ '' is applied more than once''"
| "show_parser_error PeNotIsNotAModifier =
     [CHR 0x60] @ ''not'' @ [CHR 0x60] @ '' is not a value modifier in Sigma; express negation in the ''
     @ ''condition (e.g. '' @ [CHR 0x60] @ ''not selection'' @ [CHR 0x60]
     @ '') or move the inverted check into a separate detection used as a filter (e.g. ''
     @ [CHR 0x60] @ ''selection and not other'' @ [CHR 0x60] @ '')''"
| "show_parser_error (PeInvalidFieldSpec m) = ''Invalid field specification: '' @ m"
| "show_parser_error (PeInvalidModifiers m) = ''Invalid modifier combination: '' @ m"
| "show_parser_error (PeInvalidRule m) = ''Invalid rule: '' @ m"
| "show_parser_error (PeMissingField f) =
     ''Missing required field '' @ [CHR 0x27] @ f @ [CHR 0x27]"
| "show_parser_error (PeInvalidDetection m) = ''Invalid detection: '' @ m"
| "show_parser_error (PeInvalidCorrelation m) = ''Invalid correlation rule: '' @ m"
| "show_parser_error (PeInvalidTimespan t) = ''Invalid timespan '' @ [CHR 0x27] @ t @ [CHR 0x27]"
| "show_parser_error (PeInvalidValue m) = ''Invalid value: '' @ m"
| "show_parser_error (PeInvalidAction a) =
     ''Invalid collection action '' @ [CHR 0x27] @ a @ [CHR 0x27]"
| "show_parser_error (PeIo e) = ''IO error: '' @ e"
| "show_parser_error (PeMergeTooDeep d) =
     ''YAML merge exceeds maximum depth ('' @ show_nat d @ '')''"
| "show_parser_error (PeConditionTooLong n m) =
     ''Condition string too long ('' @ show_nat n @ '' bytes, max '' @ show_nat m @ '')''"

definition parser_error_location :: "sigma_parser_error \<Rightarrow> (nat \<times> nat) option" where
  "parser_error_location e = (case e of PeCondition _ loc \<Rightarrow> loc | _ \<Rightarrow> None)"

section \<open>Modifier chains\<close>

fun modifier_str :: "modifier \<Rightarrow> string" where
  "modifier_str MdContains = ''contains''"
| "modifier_str MdStartsWith = ''startswith''"
| "modifier_str MdEndsWith = ''endswith''"
| "modifier_str MdAll = ''all''"
| "modifier_str MdBase64 = ''base64''"
| "modifier_str MdBase64Offset = ''base64offset''"
| "modifier_str MdWide = ''wide''"
| "modifier_str MdUtf16be = ''utf16be''"
| "modifier_str MdUtf16 = ''utf16''"
| "modifier_str MdWindAsh = ''windash''"
| "modifier_str MdRe = ''re''"
| "modifier_str MdCidr = ''cidr''"
| "modifier_str MdCased = ''cased''"
| "modifier_str MdExists = ''exists''"
| "modifier_str MdExpand = ''expand''"
| "modifier_str MdFieldRef = ''fieldref''"
| "modifier_str MdGt = ''gt''"
| "modifier_str MdGte = ''gte''"
| "modifier_str MdLt = ''lt''"
| "modifier_str MdLte = ''lte''"
| "modifier_str MdNeq = ''neq''"
| "modifier_str MdIgnoreCase = ''i''"
| "modifier_str MdMultiline = ''m''"
| "modifier_str MdDotAll = ''s''"
| "modifier_str MdMinute = ''minute''"
| "modifier_str MdHour = ''hour''"
| "modifier_str MdDay = ''day''"
| "modifier_str MdWeek = ''week''"
| "modifier_str MdMonth = ''month''"
| "modifier_str MdYear = ''year''"

definition string_operators :: "modifier list" where
  "string_operators = [MdContains, MdStartsWith, MdEndsWith]"

definition numeric_comparisons :: "modifier list" where
  "numeric_comparisons = [MdGt, MdGte, MdLt, MdLte]"

definition timestamp_parts :: "modifier list" where
  "timestamp_parts = [MdMinute, MdHour, MdDay, MdWeek, MdMonth, MdYear]"

definition utf16_encodings :: "modifier list" where
  "utf16_encodings = [MdWide, MdUtf16, MdUtf16be]"

definition value_transforms :: "modifier list" where
  "value_transforms = [MdBase64, MdBase64Offset, MdWide, MdUtf16, MdUtf16be, MdWindAsh, MdExpand]"

definition regex_flags :: "modifier list" where
  "regex_flags = [MdIgnoreCase, MdMultiline, MdDotAll]"

definition string_only_modifiers :: "modifier list" where
  "string_only_modifiers =
     [MdContains, MdStartsWith, MdEndsWith, MdBase64, MdBase64Offset, MdWide, MdUtf16, MdUtf16be,
      MdWindAsh, MdRe, MdCidr, MdExpand, MdFieldRef, MdCased]"

definition present_in :: "modifier list \<Rightarrow> modifier list \<Rightarrow> modifier list" where
  "present_in modifiers ms = filter (\<lambda>m. m \<in> set modifiers) ms"

definition has_any :: "modifier list \<Rightarrow> modifier list \<Rightarrow> bool" where
  "has_any modifiers ms = list_ex (\<lambda>m. m \<in> set modifiers) ms"

text \<open>\<open>fieldref_conflicts\<close>: what \<open>fieldref\<close> may not be combined with.\<close>

definition fieldref_conflicts :: "modifier list \<Rightarrow> bool" where
  "fieldref_conflicts ms =
     (MdRe \<in> set ms \<or> MdCidr \<in> set ms \<or> MdExists \<in> set ms \<or> has_any ms numeric_comparisons
      \<or> has_any ms timestamp_parts \<or> 1 < length (present_in ms string_operators))"

definition string_operator_before_fieldref :: "modifier list \<Rightarrow> modifier option" where
  "string_operator_before_fieldref ms =
     (if MdFieldRef \<in> set ms
      then find (\<lambda>m. m \<in> set string_operators) (takeWhile (\<lambda>m. m \<noteq> MdFieldRef) ms)
      else None)"

text \<open>The operators of a chain, in the order the check collects their names.\<close>

definition chain_operators :: "modifier list \<Rightarrow> modifier list" where
  "chain_operators ms =
     present_in ms [MdContains, MdStartsWith, MdEndsWith, MdRe, MdCidr, MdExists]
     @ (if MdFieldRef \<in> set ms \<and> fieldref_conflicts ms then [MdFieldRef] else [])
     @ present_in ms numeric_comparisons
     @ filter (\<lambda>m. m \<in> set timestamp_parts) ms
     @ (if MdCased \<in> set ms
           \<and> (MdRe \<in> set ms \<or> MdCidr \<in> set ms \<or> MdExists \<in> set ms
              \<or> has_any ms numeric_comparisons \<or> has_any ms timestamp_parts)
        then [MdCased] else [])"

definition bar_list :: "modifier list \<Rightarrow> string" where
  "bar_list ms = join_str '', |'' (map modifier_str ms)"

definition check_modifiers :: "modifier list \<Rightarrow> string + unit" where
  "check_modifiers ms =
     (let encodings = present_in ms utf16_encodings;
          non_string_operator =
            (MdRe \<in> set ms \<or> MdCidr \<in> set ms \<or> MdExists \<in> set ms \<or> MdFieldRef \<in> set ms
             \<or> has_any ms numeric_comparisons \<or> has_any ms timestamp_parts);
          transforms = present_in ms value_transforms;
          flags = present_in ms regex_flags
      in case (if MdFieldRef \<in> set ms \<and> \<not> fieldref_conflicts ms
               then string_operator_before_fieldref ms else None) of
           Some m \<Rightarrow> Inl (''|'' @ modifier_str m @ '' must follow |fieldref'')
         | None \<Rightarrow>
             if 1 < length (chain_operators ms) then
               Inl (''at most one operator may be set per field; got |'' @ bar_list (chain_operators ms))
             else if 1 < length encodings then
               Inl (''|wide, |utf16, and |utf16be are mutually exclusive UTF-16 encodings; got |''
                    @ bar_list encodings)
             else if MdBase64 \<in> set ms \<and> MdBase64Offset \<in> set ms then
               Inl ''|base64 and |base64offset are mutually exclusive base64 strategies; pick one''
             else if non_string_operator \<and> transforms \<noteq> [] then
               Inl (''value transformations |'' @ bar_list transforms
                    @ '' only apply to string match operators (default eq, ''
                    @ ''contains, startswith, endswith) and cannot be combined with the operator that ''
                    @ ''is also set on this field'')
             else if MdRe \<notin> set ms \<and> flags \<noteq> [] then
               Inl (''regex flag modifiers |'' @ bar_list flags
                    @ '' have no effect without |re; case sensitivity for ''
                    @ ''substring or equality matching is controlled by |cased (or its absence, which ''
                    @ ''keeps the default case-insensitive behavior)'')
             else if MdRe \<in> set ms
                  \<and> list_ex (\<lambda>m. m \<in> set regex_flags) (takeWhile (\<lambda>m. m \<noteq> MdRe) ms) then
               Inl ''regex flag modifiers |i, |m, and |s must follow |re''
             else Inr ())"

section \<open>Values\<close>

definition parse_u32 :: "string \<Rightarrow> nat option" where
  "parse_u32 s = (case parse_u64 s of Some n \<Rightarrow> if n < 2 ^ 32 then Some n else None | None \<Rightarrow> None)"

text \<open>\<open>u128::MAX.checked_shr(n).unwrap_or(0)\<close>.\<close>

definition u128_max_shr :: "nat \<Rightarrow> nat" where
  "u128_max_shr n = (if n < 128 then drop_bit n (2 ^ 128 - 1) else 0)"

definition check_cidr :: "string \<Rightarrow> string + unit" where
  "check_cidr cidr =
     (let invalid = (\<lambda>reason. Inl (''invalid CIDR expression '' @ [CHR 0x27] @ cidr @ [CHR 0x27]
                                   @ '': '' @ reason))
      in case split_once (CHR ''/'') cidr of
           None \<Rightarrow> invalid ''expected address/prefix''
         | Some (addr, prefix_len) \<Rightarrow>
             (case ip_addr_parse addr of
                None \<Rightarrow> invalid ''invalid IP address''
              | Some a \<Rightarrow>
                  (case parse_u32 prefix_len of
                     None \<Rightarrow> invalid ''invalid prefix length''
                   | Some p \<Rightarrow>
                       if ip_width a < p then invalid ''invalid prefix length''
                       else if ip_bits a AND u128_max_shr (128 - ip_width a + p) \<noteq> 0
                       then invalid ''host bits set''
                       else Inr ())))"

definition check_regex :: "ext_env \<Rightarrow> string \<Rightarrow> string + unit" where
  "check_regex env pattern =
     (if re_syntax_ok env pattern then Inr ()
      else case fancy_regex_error env pattern of None \<Rightarrow> Inr () | Some e \<Rightarrow> Inl e)"

fun exists_flag :: "sigma_value \<Rightarrow> bool option" where
  "exists_flag (SvBool b) = Some b"
| "exists_flag _ = None"

fun sv_is_numeric :: "sigma_value \<Rightarrow> bool" where
  "sv_is_numeric (SvInteger _) = True"
| "sv_is_numeric (SvFloat _) = True"
| "sv_is_numeric _ = False"

definition show_bool :: "bool \<Rightarrow> string" where
  "show_bool b = (if b then ''true'' else ''false'')"

fun show_sigma_value :: "ext_env \<Rightarrow> sigma_value \<Rightarrow> string" where
  "show_sigma_value env (SvString s) = original s"
| "show_sigma_value env (SvInteger n) = show_int n"
| "show_sigma_value env (SvFloat f) = f64_display env f"
| "show_sigma_value env (SvBool b) = show_bool b"
| "show_sigma_value env SvNull = ''null''"

definition describe_value :: "ext_env \<Rightarrow> sigma_value \<Rightarrow> string" where
  "describe_value env v =
     (case v of SvString s \<Rightarrow> [CHR 0x27] @ original s @ [CHR 0x27]
      | other \<Rightarrow> show_sigma_value env other)"

section \<open>Detection items\<close>

definition item_subject :: "detection_item \<Rightarrow> string" where
  "item_subject item =
     (case fs_name (di_field item) of
        Some name \<Rightarrow> ''field '' @ [CHR 0x27] @ name @ [CHR 0x27]
      | None \<Rightarrow> ''keyword'')"

definition invalid_value :: "detection_item \<Rightarrow> string \<Rightarrow> sigma_parser_error" where
  "invalid_value item msg = PeInvalidValue (item_subject item @ '': '' @ msg)"

text \<open>The checks of a string value after the type checks, in order; the first failure wins.\<close>

definition check_string_value ::
    "ext_env \<Rightarrow> modifier list \<Rightarrow> sigma_string \<Rightarrow> string + unit" where
  "check_string_value env ms s =
     (let base64 = (MdBase64 \<in> set ms \<or> MdBase64Offset \<in> set ms);
          utf16 = has_any ms utf16_encodings;
          regex = (if MdRe \<in> set ms then check_regex env (original s) else Inr ());
          cidr = (if MdCidr \<in> set ms
                  then check_cidr (case as_plain s of Some t \<Rightarrow> t | None \<Rightarrow> original s) else Inr ())
      in case regex of
           Inl e \<Rightarrow> Inl (''invalid regular expression: '' @ e)
         | Inr _ \<Rightarrow>
             (case cidr of
                Inl e \<Rightarrow> Inl e
              | Inr _ \<Rightarrow>
                  if MdFieldRef \<in> set ms \<and> contains_wildcards s then
                    Inl ''a field reference must not contain wildcards''
                  else if base64 \<and> contains_wildcards s then
                    Inl (''|base64 and |base64offset do not support wildcards; escape * and ? as ''
                         @ [bs] @ ''* and '' @ [bs] @ ''? to match them literally'')
                  else if utf16 \<and> \<not> base64 \<and> \<not> is_ascii (original s) then
                    Inl ''|wide, |utf16, and |utf16be without |base64 or |base64offset require an ASCII value''
                  else Inr ()))"

definition check_item_value ::
    "ext_env \<Rightarrow> modifier list \<Rightarrow> sigma_value \<Rightarrow> string + unit" where
  "check_item_value env ms v =
     (case find (\<lambda>m. m \<in> set ms) (numeric_comparisons @ timestamp_parts) of
        Some m \<Rightarrow>
          if sv_is_numeric v then Inr ()
          else Inl (''|'' @ modifier_str m @ '' requires a numeric value, got '' @ describe_value env v)
      | None \<Rightarrow>
          (case find (\<lambda>m. m \<in> set ms) string_only_modifiers of
             None \<Rightarrow> Inr ()
           | Some m \<Rightarrow>
               (case v of
                  SvString s \<Rightarrow> check_string_value env ms s
                | _ \<Rightarrow> Inl (''|'' @ modifier_str m @ '' requires a string value, got ''
                            @ describe_value env v))))"

definition check_detection_item ::
    "ext_env \<Rightarrow> detection_item \<Rightarrow> sigma_parser_error + unit" where
  "check_detection_item env item =
     (let ms = fs_modifiers (di_field item); vs = di_values item
      in case check_modifiers ms of
           Inl e \<Rightarrow> Inl (PeInvalidModifiers (item_subject item @ '': '' @ e))
         | Inr _ \<Rightarrow>
             if MdExists \<in> set ms then
               (if fs_name (di_field item) = None
                then Inl (invalid_value item ''|exists must be applied to a field'')
                else case vs of
                       [SvBool _] \<Rightarrow> Inr ()
                     | _ \<Rightarrow> Inl (invalid_value item
                                  ''|exists takes a single boolean value, true or false''))
             else if MdAll \<in> set ms \<and> vs = [] then
               Inl (PeInvalidModifiers (item_subject item @ '': |all requires at least one value''))
             else if vs = [] \<and> fs_name (di_field item) = None then
               Inl (invalid_value item ''an empty value list must be bound to a field'')
             else try_for_each (\<lambda>v. map_error (invalid_value item) (check_item_value env ms v)) vs)"

section \<open>Conditions and detections\<close>

datatype unresolved = UnIdentifier string | UnSelector quantifier selector_pattern

fun show_unresolved :: "unresolved \<Rightarrow> string" where
  "show_unresolved (UnIdentifier n) =
     ''condition references unknown detection identifier '' @ [CHR 0x27] @ n @ [CHR 0x27]"
| "show_unresolved (UnSelector q p) =
     ''selector '' @ [CHR 0x27] @ show_quantifier q @ '' of '' @ show_pattern p @ [CHR 0x27]
     @ '' matches no detection identifier''"

text \<open>\<open>collect_unresolved\<close> pushes to \<open>out\<close>; the value is the list pushed.\<close>

fun unresolved_references :: "condition_expr \<Rightarrow> string list \<Rightarrow> unresolved list" where
  "unresolved_references (CondAnd exprs) names =
     concat (map (\<lambda>e. unresolved_references e names) exprs)"
| "unresolved_references (CondOr exprs) names =
     concat (map (\<lambda>e. unresolved_references e names) exprs)"
| "unresolved_references (CondNot inner) names = unresolved_references inner names"
| "unresolved_references (CondIdentifier n) names = (if n \<in> set names then [] else [UnIdentifier n])"
| "unresolved_references (CondSelector q p) names =
     (if list_ex (matches_detection_name p) names then [] else [UnSelector q p])"

definition check_condition :: "condition_expr \<Rightarrow> string list \<Rightarrow> sigma_parser_error + unit" where
  "check_condition expr names =
     (case unresolved_references expr names of
        [] \<Rightarrow> Inr ()
      | u # _ \<Rightarrow> Inl (PeInvalidDetection (show_unresolved u)))"

definition invalid_detection :: "string \<Rightarrow> string \<Rightarrow> sigma_parser_error" where
  "invalid_detection name msg = PeInvalidDetection ([CHR 0x27] @ name @ [CHR 0x27] @ '' '' @ msg)"

fun check_detection :: "string \<Rightarrow> detection \<Rightarrow> sigma_parser_error + unit" where
  "check_detection name (DAllOf items) =
     (if items = [] then Inl (invalid_detection name ''is empty'') else Inr ())"
| "check_detection name (DAnyOf subs) =
     (if subs = [] then Inl (invalid_detection name ''is empty'')
      else try_for_each (check_detection name) subs)"
| "check_detection name (DAnd subs) =
     (if subs = [] then Inl (invalid_detection name ''is empty'')
      else try_for_each (check_detection name) subs)"
| "check_detection name (DKeywords vs) =
     (if vs = [] then Inl (invalid_detection name ''is empty'')
      else if SvNull \<in> set vs then
        Inl (invalid_detection name ''uses null as a keyword; keywords match text anywhere in the event'')
      else Inr ())"
| "check_detection name (DArrayMatch _ _ body) = check_detection name body"
| "check_detection name (DConditional named condition) =
     (case try_for_each (\<lambda>(sub_name, sub). check_detection sub_name sub) named of
        Inl e \<Rightarrow> Inl e
      | Inr _ \<Rightarrow> check_condition condition (map fst named))"

section \<open>Lemmas\<close>

lemma present_in_iff: "m \<in> set (present_in ms ls) \<longleftrightarrow> m \<in> set ms \<and> m \<in> set ls"
  by (auto simp: present_in_def)

lemma host_mask: "w \<le> 128 \<Longrightarrow> p \<le> w \<Longrightarrow> u128_max_shr (128 - w + p) = mask (w - p)"
proof -
  assume w: "w \<le> 128" "p \<le> w"
  show ?thesis
  proof (cases "w - p = 0")
    case True
    with w show ?thesis by (simp add: u128_max_shr_def)
  next
    case False
    with w have "128 - w + p < 128" and "128 - (128 - w + p) = w - p" by simp_all
    moreover have "drop_bit k (2 ^ 128 - 1 :: nat) = mask (128 - k)" if "k < 128" for k
      using drop_bit_mask_eq [of k 128, where ?'a = nat] by (simp add: mask_eq_exp_minus_1)
    ultimately show ?thesis by (simp add: u128_max_shr_def)
  qed
qed

lemma ip_width_le: "ip_width a \<le> 128"
  by (cases a) simp_all

section \<open>Properties\<close>

text \<open>
  C26: A CIDR value is accepted exactly when it is an address, a slash and a prefix length within the
  width of the address, and the bits after the prefix are all zero.
\<close>

theorem check_cidr_exact:
  "check_cidr cidr = Inr () \<longleftrightarrow>
     (\<exists>addr len a p. split_once (CHR ''/'') cidr = Some (addr, len) \<and> ip_addr_parse addr = Some a
        \<and> parse_u32 len = Some p \<and> p \<le> ip_width a \<and> 2 ^ (ip_width a - p) dvd ip_bits a)"
proof -
  have "ip_bits a AND u128_max_shr (128 - ip_width a + p) = 0 \<longleftrightarrow>
      2 ^ (ip_width a - p) dvd ip_bits a" if "p \<le> ip_width a" for a p
    using that host_mask [OF ip_width_le that]
    by (simp add: take_bit_eq_mod dvd_eq_mod_eq_0 flip: take_bit_eq_mask)
  then show ?thesis
    by (auto simp: check_cidr_def Let_def not_less split: option.splits)
qed

end
