(* ===== verification/ConditionParse.thy ===== *)
theory ConditionParse
  imports Validate
begin

text \<open>
  The parser of condition expressions: the grammar \<open>rsigma-parser/src/sigma.pest\<close> as a recogniser of
  texts, and the construction of the AST from its pairs (\<open>rsigma-parser/src/condition.rs\<close>).  The
  grammar is a PEG: alternatives are tried in order and committed, repetition is greedy, and the
  rules that are not atomic skip white space between their parts.  The parser library gives the
  message and place of a failed parse and the line and column of an offset; both are parameters.
\<close>

section \<open>Pairs of the grammar\<close>

text \<open>
  A position is the length of the input from there to its end.  An \<open>expr\<close> pair is its first operand
  and the further ones with the operators before them; an operand is the number of its \<open>not\<close>
  prefixes and its primary.
\<close>

datatype quantifier_pair = QpAll | QpAny | QpUint nat string

datatype target_pair = TpThem | TpPattern string

datatype primary_pair =
  PrSelector nat quantifier_pair target_pair
| PrExpr nat "(nat \<times> primary_pair) \<times> (binary_op \<times> nat \<times> primary_pair) list"
| PrIdent string

type_synonym operand = "nat \<times> primary_pair"
type_synonym expr_pair = "operand \<times> (binary_op \<times> operand) list"

section \<open>The grammar\<close>

definition is_space :: "char \<Rightarrow> bool" where
  "is_space c = (c = CHR '' '' \<or> c = CHR 0x09 \<or> c = CHR 0x0A)"

definition skip_ws :: "string \<Rightarrow> string" where
  "skip_ws s = dropWhile is_space s"

definition is_digit_char :: "char \<Rightarrow> bool" where
  "is_digit_char c = (digit_val c \<noteq> None)"

definition is_ident_char :: "char \<Rightarrow> bool" where
  "is_ident_char c =
     (let n = of_char c :: nat
      in is_digit_char c \<or> 65 \<le> n \<and> n \<le> 90 \<or> 97 \<le> n \<and> n \<le> 122
         \<or> c = CHR ''_'' \<or> c = CHR ''-'')"

definition word_ends :: "string \<Rightarrow> bool" where
  "word_ends s = (case s of [] \<Rightarrow> True | c # _ \<Rightarrow> \<not> is_ident_char c)"

text \<open>An atomic keyword: the text, not followed by a character of identifiers.\<close>

definition peg_keyword :: "string \<Rightarrow> string \<Rightarrow> string option" where
  "peg_keyword kw s =
     (case strip_prefix s kw of Some r \<Rightarrow> (if word_ends r then Some r else None) | None \<Rightarrow> None)"

definition peg_infix :: "string \<Rightarrow> (binary_op \<times> string) option" where
  "peg_infix s =
     (case peg_keyword ''or'' s of
        Some r \<Rightarrow> Some (OpOr, r)
      | None \<Rightarrow> map_option (Pair OpAnd) (peg_keyword ''and'' s))"

definition peg_many1 :: "(char \<Rightarrow> bool) \<Rightarrow> string \<Rightarrow> (string \<times> string) option" where
  "peg_many1 P s =
     (case takeWhile P s of [] \<Rightarrow> None | w \<Rightarrow> Some (w, dropWhile P s))"

definition reserved_words :: "string list" where
  "reserved_words = [''and'', ''or'', ''not'', ''all'', ''any'', ''of'', ''them'']"

definition peg_ident :: "string \<Rightarrow> (string \<times> string) option" where
  "peg_ident s =
     (if list_ex (\<lambda>w. peg_keyword w s \<noteq> None) reserved_words then None
      else peg_many1 is_ident_char s)"

definition peg_quantifier :: "string \<Rightarrow> (quantifier_pair \<times> string) option" where
  "peg_quantifier s =
     (case peg_keyword ''all'' s of
        Some r \<Rightarrow> Some (QpAll, r)
      | None \<Rightarrow>
          (case peg_keyword ''any'' s of
             Some r \<Rightarrow> Some (QpAny, r)
           | None \<Rightarrow> map_option (\<lambda>(d, r). (QpUint (length s) d, r)) (peg_many1 is_digit_char s)))"

definition peg_target :: "string \<Rightarrow> (target_pair \<times> string) option" where
  "peg_target s =
     (case peg_keyword ''them'' s of
        Some r \<Rightarrow> Some (TpThem, r)
      | None \<Rightarrow> map_option (\<lambda>(p, r). (TpPattern p, r))
                  (peg_many1 (\<lambda>c. is_ident_char c \<or> c = CHR ''*'') s))"

definition peg_selector :: "string \<Rightarrow> (primary_pair \<times> string) option" where
  "peg_selector s =
     (case peg_quantifier s of
        None \<Rightarrow> None
      | Some (q, r) \<Rightarrow>
          (case peg_keyword ''of'' (skip_ws r) of
             None \<Rightarrow> None
           | Some r' \<Rightarrow> map_option (\<lambda>(t, r''). (PrSelector (length s) q t, r''))
                          (peg_target (skip_ws r'))))"

text \<open>\<open>prefix*\<close>, with the white space up to the primary.\<close>

function peg_nots :: "string \<Rightarrow> nat \<times> string" where
  "peg_nots s =
     (case peg_keyword ''not'' s of
        None \<Rightarrow> (0, s)
      | Some r \<Rightarrow> (case peg_nots (skip_ws r) of (n, r') \<Rightarrow> (Suc n, r')))"
  by auto

lemma length_skip_ws: "length (skip_ws s) \<le> length s"
  by (simp add: skip_ws_def length_dropWhile_le)

lemma peg_keyword_Some: "peg_keyword kw s = Some r \<longleftrightarrow> s = kw @ r \<and> word_ends r"
  by (auto simp: peg_keyword_def strip_prefix_Some split: option.splits)
     (metis option.distinct(1) strip_prefix_Some)+

termination peg_nots
  by (relation "measure length")
     (auto simp: peg_keyword_Some intro: le_less_trans [OF length_skip_ws])

declare peg_nots.simps [simp del]

text \<open>
  The recursive rules.  The fuel bounds the length of the text; \<open>peg_fuel\<close> below shows that the
  length of the text is enough.  White space before a failed \<open>(infix ...)\<close> is left for the rule that
  follows, which skips it.
\<close>

fun peg_expr :: "nat \<Rightarrow> string \<Rightarrow> (expr_pair \<times> string) option"
and peg_primary :: "nat \<Rightarrow> string \<Rightarrow> (primary_pair \<times> string) option"
and peg_tail :: "nat \<Rightarrow> string \<Rightarrow> (binary_op \<times> operand) list \<times> string" where
  "peg_expr n s =
     (case peg_nots s of (k, r) \<Rightarrow>
        case peg_primary n r of
          None \<Rightarrow> None
        | Some (p, r') \<Rightarrow> (case peg_tail n r' of (xs, r'') \<Rightarrow> Some (((k, p), xs), r'')))"
| "peg_primary n s =
     (case peg_selector s of
        Some (p, r) \<Rightarrow> Some (p, r)
      | None \<Rightarrow>
          (case (case (n, s) of
                   (Suc m, c # s') \<Rightarrow>
                     if c = CHR ''('' then
                       (case peg_expr m (skip_ws s') of
                          None \<Rightarrow> None
                        | Some (x, r) \<Rightarrow>
                            (case skip_ws r of
                               [] \<Rightarrow> None
                             | d # r' \<Rightarrow>
                                 if d = CHR '')'' then Some (PrExpr (length (skip_ws s')) x, r')
                                 else None))
                     else None
                 | _ \<Rightarrow> None) of
             Some (p, r) \<Rightarrow> Some (p, r)
           | None \<Rightarrow> map_option (\<lambda>(w, r). (PrIdent w, r)) (peg_ident s)))"
| "peg_tail n s =
     (case (n, peg_infix (skip_ws s)) of
        (Suc m, Some (op, r)) \<Rightarrow>
          (case peg_nots (skip_ws r) of (k, r') \<Rightarrow>
             case peg_primary m r' of
               None \<Rightarrow> ([], s)
             | Some (p, r'') \<Rightarrow> (case peg_tail m r'' of (xs, r3) \<Rightarrow> ((op, k, p) # xs, r3)))
      | _ \<Rightarrow> ([], s))"

declare peg_expr.simps [simp del] peg_primary.simps [simp del] peg_tail.simps [simp del]

definition peg_condition :: "string \<Rightarrow> expr_pair option" where
  "peg_condition s =
     (case peg_expr (length s) (skip_ws s) of
        Some (x, r) \<Rightarrow> (if skip_ws r = [] then Some x else None)
      | None \<Rightarrow> None)"

section \<open>From pairs to the condition\<close>

record pest_env =
  pest_failure :: "string \<Rightarrow> string \<times> (nat \<times> nat) option"  \<comment> \<open>message and place of a failed parse\<close>
  pest_line_col :: "string \<Rightarrow> nat \<Rightarrow> nat \<times> nat"             \<comment> \<open>line and column of an offset\<close>

text \<open>A message with its place: \<open>PrattError\<close>, and the payload of a condition error.\<close>

type_synonym pratt_error = "string \<times> (nat \<times> nat) option"

definition max_condition_len :: nat where "max_condition_len = 65536"
definition max_condition_depth :: nat where "max_condition_depth = 64"

definition pair_location :: "pest_env \<Rightarrow> string \<Rightarrow> nat \<Rightarrow> nat \<times> nat" where
  "pair_location pe input pos = pest_line_col pe input (length input - pos)"

definition quoted :: "string \<Rightarrow> string" where
  "quoted s = CHR 0x27 # s @ [CHR 0x27]"

fun parse_quantifier :: "pest_env \<Rightarrow> string \<Rightarrow> quantifier_pair \<Rightarrow> pratt_error + quantifier" where
  "parse_quantifier pe input QpAll = Inr QAll"
| "parse_quantifier pe input QpAny = Inr QAny"
| "parse_quantifier pe input (QpUint pos s) =
     (case parse_quantifier_uint s of
        Inr q \<Rightarrow> Inr q
      | Inl InvalidNumber \<Rightarrow>
          Inl (''invalid quantifier number: number too large to fit in target type'', None)
      | Inl ZeroOf \<Rightarrow>
          Inl (quoted ''0 of'' @ '' is always true and matches every event; use '' @ quoted ''not 1 of''
               @ '' to require that none of the detections match'', Some (pair_location pe input pos)))"

fun parse_selector_target :: "target_pair \<Rightarrow> selector_pattern" where
  "parse_selector_target TpThem = Them"
| "parse_selector_target (TpPattern p) = Pattern p"

definition parse_selector ::
    "pest_env \<Rightarrow> string \<Rightarrow> quantifier_pair \<Rightarrow> target_pair \<Rightarrow> pratt_error + condition_expr" where
  "parse_selector pe input q t =
     result_map (\<lambda>q'. CondSelector q' (parse_selector_target t)) (parse_quantifier pe input q)"

text \<open>\<open>PrattError::from_error\<close>: an error without a place gets the one of the primary.\<close>

definition with_fallback :: "nat \<times> nat \<Rightarrow> pratt_error + 'a \<Rightarrow> pratt_error + 'a" where
  "with_fallback loc r =
     map_error (\<lambda>(m, l). (m, case l of None \<Rightarrow> Some loc | Some _ \<Rightarrow> l)) r"

definition errors_of :: "('e + 'a) list \<Rightarrow> 'e list" where
  "errors_of rs = filter_map (\<lambda>r. case r of Inl e \<Rightarrow> Some e | Inr _ \<Rightarrow> None) rs"

definition located_message :: "pratt_error \<Rightarrow> string" where
  "located_message e =
     (case snd e of
        Some (line, col) \<Rightarrow> ''at '' @ show_nat line @ '':'' @ show_nat col @ '': '' @ fst e
      | None \<Rightarrow> fst e)"

definition combined_error :: "pratt_error list \<Rightarrow> pratt_error" where
  "combined_error es =
     (case es of
        [e] \<Rightarrow> e
      | _ \<Rightarrow> (join_str ''; '' (map located_message es), find_map snd es))"

text \<open>
  The Pratt parser of the library on a left operand and the operators with their right operands:
  \<open>and\<close> binds tighter than \<open>or\<close>, both to the left; \<open>not\<close> binds tightest.
\<close>

fun and_groups :: "condition_expr \<Rightarrow> (binary_op \<times> condition_expr) list \<Rightarrow> condition_expr list" where
  "and_groups l [] = [l]"
| "and_groups l ((OpAnd, r) # xs) = and_groups (merge_binary OpAnd l r) xs"
| "and_groups l ((OpOr, r) # xs) = l # and_groups r xs"

definition pratt_fold :: "condition_expr \<Rightarrow> (binary_op \<times> condition_expr) list \<Rightarrow> condition_expr" where
  "pratt_fold l xs =
     (case and_groups l xs of
        g # gs \<Rightarrow> foldl (merge_binary OpOr) g gs
      | [] \<Rightarrow> l)"

definition negations :: "nat \<Rightarrow> condition_expr \<Rightarrow> condition_expr" where
  "negations k e = (CondNot ^^ k) e"

definition primary_value :: "pratt_error + condition_expr \<Rightarrow> condition_expr" where
  "primary_value r = (case r of Inr e \<Rightarrow> e | Inl _ \<Rightarrow> CondIdentifier [])"

text \<open>One \<open>expr\<close> pair, given what its primaries parse to.\<close>

definition pratt_parse ::
    "('p \<Rightarrow> pratt_error + condition_expr) \<Rightarrow> (nat \<times> 'p) \<times> (binary_op \<times> nat \<times> 'p) list
      \<Rightarrow> pratt_error + condition_expr" where
  "pratt_parse f x =
     (case x of ((k, p), xs) \<Rightarrow>
        (let es = errors_of (f p # map (\<lambda>(_, _, q). f q) xs)
         in if es = []
            then Inr (pratt_fold (negations k (primary_value (f p)))
                        (map (\<lambda>(op, k', q). (op, negations k' (primary_value (f q)))) xs))
            else Inl (combined_error es)))"

lemma pratt_parse_cong [fundef_cong]:
  assumes "x = y"
    and "\<And>p. p = snd (fst y) \<or> p \<in> snd ` snd ` set (snd y) \<Longrightarrow> f p = g p"
  shows "pratt_parse f x = pratt_parse g y"
proof -
  obtain k p xs where y: "y = ((k, p), xs)" by (metis surj_pair)
  have *: "f q = g q" if "q = p \<or> (\<exists>op k'. (op, k', q) \<in> set xs)" for q
    using assms(2) [of q] that by (force simp: y)
  then have "f q = g q" if "(op, k', q) \<in> set xs" for op k' q
    using that by blast
  then have maps: "map (\<lambda>(_, _, q). f q) xs = map (\<lambda>(_, _, q). g q) xs"
    "map (\<lambda>(op, k', q). (op, negations k' (primary_value (f q)))) xs
      = map (\<lambda>(op, k', q). (op, negations k' (primary_value (g q)))) xs"
    by (auto simp: case_prod_unfold)
  have "f p = g p" using * by blast
  then show ?thesis
    unfolding assms(1) y pratt_parse_def prod.case maps by (rule arg_cong)
qed

text \<open>
  \<open>parse_expr\<close>, on an \<open>expr\<close> pair and the nesting depth around it, and \<open>map_primary\<close>.
\<close>

definition too_deep :: pratt_error where
  "too_deep = (''condition nesting exceeds maximum depth (64)'', None)"

function primary_pair_value :: "pest_env \<Rightarrow> string \<Rightarrow> nat \<Rightarrow> primary_pair \<Rightarrow> pratt_error + condition_expr"
where
  "primary_pair_value pe input depth (PrIdent s) = Inr (CondIdentifier s)"
| "primary_pair_value pe input depth (PrSelector pos q t) =
     with_fallback (pair_location pe input pos) (parse_selector pe input q t)"
| "primary_pair_value pe input depth (PrExpr pos x) =
     with_fallback (pair_location pe input pos)
       (if max_condition_depth < depth then Inl too_deep
        else pratt_parse (primary_pair_value pe input (Suc depth)) x)"
  by pat_completeness auto
termination
proof (relation "measure (\<lambda>(_, _, _, p). size p)")
  fix pe :: pest_env and input depth pos p and x :: expr_pair
  assume p: "p = snd (fst x) \<or> p \<in> snd ` snd ` set (snd x)"
  obtain k q xs where x: "x = ((k, q), xs)" by (metis surj_pair)
  have "size p \<le> size_list (size_prod (\<lambda>_. 0) (size_prod (\<lambda>_. 0) size)) xs"
    if "(op, k', p) \<in> set xs" for op k'
    by (rule size_list_estimation' [OF that]) simp
  with p show "((pe, input, Suc depth, p), pe, input, depth, PrExpr pos x)
      \<in> measure (\<lambda>(_, _, _, p). size p)"
    by (fastforce simp: x)
qed simp

definition parse_expr :: "pest_env \<Rightarrow> string \<Rightarrow> nat \<Rightarrow> expr_pair \<Rightarrow> pratt_error + condition_expr" where
  "parse_expr pe input depth x =
     (if max_condition_depth < depth then Inl too_deep
      else pratt_parse (primary_pair_value pe input (Suc depth)) x)"

lemma primary_pair_value_expr:
  "primary_pair_value pe input depth (PrExpr pos x) =
     with_fallback (pair_location pe input pos) (parse_expr pe input depth x)"
  by (simp add: parse_expr_def)

declare primary_pair_value.simps(3) [simp del]

definition parse_condition :: "pest_env \<Rightarrow> string \<Rightarrow> sigma_parser_error + condition_expr" where
  "parse_condition pe input =
     (if max_condition_len < length input then Inl (PeConditionTooLong (length input) max_condition_len)
      else (case peg_condition input of
              None \<Rightarrow> (case pest_failure pe input of (m, loc) \<Rightarrow> Inl (PeCondition m loc))
            | Some x \<Rightarrow>
                map_error (\<lambda>(m, loc). PeCondition m loc) (parse_expr pe input 0 x)))"

section \<open>The fuel is enough\<close>

lemma peg_keyword_length: "peg_keyword kw s = Some r \<Longrightarrow> length r \<le> length s"
  by (simp add: peg_keyword_Some)

lemma skip_keyword_length: "peg_keyword kw (skip_ws s) = Some r \<Longrightarrow> length r \<le> length s"
  using peg_keyword_length length_skip_ws le_trans by blast

lemma peg_nots_length: "length (snd (peg_nots s)) \<le> length s"
proof (induction s rule: peg_nots.induct)
  case (1 s)
  show ?case
  proof (cases "peg_keyword ''not'' s")
    case None
    then show ?thesis by (simp add: peg_nots.simps [of s])
  next
    case (Some r)
    have "length (snd (peg_nots (skip_ws r))) \<le> length (skip_ws r)"
      using "1.IH" [OF Some] .
    also have "\<dots> \<le> length r" by (rule length_skip_ws)
    also have "\<dots> \<le> length s" using peg_keyword_length [OF Some] .
    finally show ?thesis by (simp add: peg_nots.simps [of s] Some case_prod_unfold)
  qed
qed

lemma peg_many1_Some: "peg_many1 P s = Some (w, r) \<longleftrightarrow> w = takeWhile P s \<and> w \<noteq> [] \<and> r = dropWhile P s"
  by (auto simp: peg_many1_def split: list.splits)

lemma peg_many1_length: "peg_many1 P s = Some (w, r) \<Longrightarrow> length r < length s"
proof -
  assume "peg_many1 P s = Some (w, r)"
  then have "s = w @ r" and "w \<noteq> []" by (auto simp: peg_many1_Some)
  then show ?thesis by simp
qed

lemma peg_infix_length: "peg_infix s = Some (op, r) \<Longrightarrow> length r < length s"
  by (auto simp: peg_infix_def peg_keyword_Some split: option.splits)

lemma peg_target_length: "peg_target s = Some (t, r) \<Longrightarrow> length r < length s"
  by (auto simp: peg_target_def peg_keyword_Some dest: peg_many1_length split: option.splits)

lemma peg_quantifier_length: "peg_quantifier s = Some (q, r) \<Longrightarrow> length r < length s"
  by (auto simp: peg_quantifier_def peg_keyword_Some dest: peg_many1_length split: option.splits)

lemma peg_selector_length: 
  assumes "peg_selector s = Some (p, r)"
  shows "length r < length s"
proof -
  from assms obtain q r1 r2 t where "peg_quantifier s = Some (q, r1)"
    and "peg_keyword ''of'' (skip_ws r1) = Some r2" and "peg_target (skip_ws r2) = Some (t, r)"
    unfolding peg_selector_def by (auto split: option.splits)
  with peg_quantifier_length skip_keyword_length peg_target_length length_skip_ws [of r2]
  show ?thesis by fastforce
qed

text \<open>The parenthesized alternative, apart.\<close>

definition peg_group :: "nat \<Rightarrow> string \<Rightarrow> (primary_pair \<times> string) option" where
  "peg_group n s =
     (case (n, s) of
        (Suc m, c # s') \<Rightarrow>
          if c = CHR ''('' then
            (case peg_expr m (skip_ws s') of
               None \<Rightarrow> None
             | Some (x, r) \<Rightarrow>
                 (case skip_ws r of
                    [] \<Rightarrow> None
                  | d # r' \<Rightarrow>
                      if d = CHR '')'' then Some (PrExpr (length (skip_ws s')) x, r') else None))
          else None
      | _ \<Rightarrow> None)"

lemma peg_primary_group:
  "peg_primary n s =
     (case peg_selector s of
        Some (p, r) \<Rightarrow> Some (p, r)
      | None \<Rightarrow>
          (case peg_group n s of
             Some (p, r) \<Rightarrow> Some (p, r)
           | None \<Rightarrow> map_option (\<lambda>(w, r). (PrIdent w, r)) (peg_ident s)))"
  unfolding peg_primary.simps [of n s] peg_group_def ..

lemma peg_group_Some:
  "peg_group n s = Some (p, r) \<longleftrightarrow>
     (\<exists>m s' x r'. n = Suc m \<and> s = CHR ''('' # s' \<and> peg_expr m (skip_ws s') = Some (x, r')
        \<and> skip_ws r' = CHR '')'' # r \<and> p = PrExpr (length (skip_ws s')) x)"
  unfolding peg_group_def
  by (auto split: nat.splits list.splits option.splits if_splits)

lemma peg_ident_length: "peg_ident s = Some (w, r) \<Longrightarrow> length r < length s"
  by (auto simp: peg_ident_def dest: peg_many1_length split: if_splits)

lemma peg_lengths:
  "peg_expr n s = Some (x, r) \<Longrightarrow> length r < length s"
  "peg_primary n s = Some (p, r) \<Longrightarrow> length r < length s"
  "peg_tail n s = (xs, r) \<Longrightarrow> length r \<le> length s"
proof (induction n arbitrary: s x r p xs rule: less_induct)
  case (less n)
  have primary: "length r < length s" if p: "peg_primary n s = Some (p, r)" for s p r
  proof (cases "peg_selector s")
    case (Some _)
    with p show ?thesis by (auto simp: peg_primary_group dest: peg_selector_length)
  next
    case None
    show ?thesis
    proof (cases "peg_group n s")
      case None
      with p \<open>peg_selector s = None\<close> show ?thesis
        by (auto simp: peg_primary_group dest: peg_ident_length)
    next
      case (Some _)
      with p \<open>peg_selector s = None\<close> have "peg_group n s = Some (p, r)"
        by (auto simp: peg_primary_group)
      then obtain m s' x r' where "n = Suc m" and s: "s = CHR ''('' # s'"
        and "peg_expr m (skip_ws s') = Some (x, r')" and r: "skip_ws r' = CHR '')'' # r"
        by (auto simp: peg_group_Some)
      with less.IH(1) have "length r' < length (skip_ws s')" by blast
      with length_skip_ws [of s'] length_skip_ws [of r'] r s show ?thesis by simp
    qed
  qed
  have tail: "length r \<le> length s" if t: "peg_tail n s = (xs, r)" for s xs r
  proof (cases "\<exists>m op r1 p r2. n = Suc m \<and> peg_infix (skip_ws s) = Some (op, r1)
      \<and> peg_primary m (snd (peg_nots (skip_ws r1))) = Some (p, r2)")
    case False
    with t show ?thesis
      by (auto simp: peg_tail.simps [of n s] case_prod_unfold split: nat.splits option.splits)
  next
    case True
    then obtain m op r1 p r2 where n: "n = Suc m" and i: "peg_infix (skip_ws s) = Some (op, r1)"
      and p: "peg_primary m (snd (peg_nots (skip_ws r1))) = Some (p, r2)" by blast
    with t have "snd (peg_tail m r2) = r"
      by (auto simp: peg_tail.simps [of "Suc m" s] case_prod_unfold)
    with less.IH(3) [of m r2 "fst (peg_tail m r2)" r] n have "length r \<le> length r2"
      by (metis lessI prod.collapse)
    also have "length r2 < length (snd (peg_nots (skip_ws r1)))"
      using less.IH(2) [OF _ p] n by simp
    also have "\<dots> \<le> length (skip_ws r1)" by (rule peg_nots_length)
    also have "\<dots> \<le> length r1" by (rule length_skip_ws)
    also have "\<dots> < length (skip_ws s)" using peg_infix_length [OF i] .
    also have "\<dots> \<le> length s" by (rule length_skip_ws)
    finally show ?thesis by simp
  qed
  have expr: "length r < length s" if x: "peg_expr n s = Some (x, r)" for s x r
  proof -
    from x obtain p r' where p: "peg_primary n (snd (peg_nots s)) = Some (p, r')"
      and t: "peg_tail n r' = (snd x, r)"
      by (auto simp: peg_expr.simps [of n s] case_prod_unfold split: option.splits)
    from tail [OF t] primary [OF p] peg_nots_length [of s] show ?thesis by simp
  qed
  { case 1 then show ?case by (rule expr) }
  { case 2 then show ?case by (rule primary) }
  { case 3 then show ?case by (rule tail) }
qed

lemma peg_fuel:
  "length s \<le> n \<Longrightarrow> peg_expr n s = peg_expr (length s) s"
  "length s \<le> n \<Longrightarrow> peg_primary n s = peg_primary (length s) s"
  "length s \<le> n \<Longrightarrow> peg_tail n s = peg_tail (length s) s"
proof (induction "length s" arbitrary: s n rule: less_induct)
  case less
  have expr: "peg_expr m u = peg_expr k u" if "length u < length s" "length u \<le> m" "length u \<le> k" for m k u
    using less(1) [of u] that by metis
  have primary': "peg_primary m u = peg_primary k u"
    if "length u < length s" "length u \<le> m" "length u \<le> k" for m k u
    using less(2) [of u] that by metis
  have tail': "peg_tail m u = peg_tail k u"
    if "length u < length s" "length u \<le> m" "length u \<le> k" for m k u
    using less(3) [of u] that by metis
  have group: "peg_group n u = peg_group k u"
    if u: "length u \<le> length s" "length u \<le> n" "length u \<le> k" for n k u
  proof (cases u)
    case Nil
    then show ?thesis by (cases n; cases k) (simp_all add: peg_group_def)
  next
    case (Cons c u')
    with u obtain n' k' where n: "n = Suc n'" "k = Suc k'"
      and *: "length u' < length s" "length u' \<le> n'" "length u' \<le> k'"
      by (cases n; cases k) auto
    have "peg_expr n' (skip_ws u') = peg_expr k' (skip_ws u')"
      by (rule expr) (use * length_skip_ws [of u'] in linarith)+
    with Cons n show ?thesis by (simp add: peg_group_def)
  qed
  have primary: "peg_primary n u = peg_primary k u"
    if "length u \<le> length s" "length u \<le> n" "length u \<le> k" for n k u
    unfolding peg_primary_group group [OF that] ..
  have tail: "peg_tail n u = peg_tail k u"
    if u: "length u \<le> length s" "length u \<le> n" "length u \<le> k" for n k u
  proof (cases "peg_infix (skip_ws u)")
    case None
    then show ?thesis by (simp add: peg_tail.simps [of n u] peg_tail.simps [of k u] split: nat.splits)
  next
    case (Some v)
    obtain op r where v: "v = (op, r)" by (cases v)
    define r' where "r' = snd (peg_nots (skip_ws r))"
    have "length r' \<le> length r"
      using peg_nots_length [of "skip_ws r"] length_skip_ws [of r] by (simp add: r'_def)
    moreover have "length r < length u"
      using peg_infix_length [OF Some [unfolded v]] length_skip_ws [of u] by simp
    moreover obtain n' k' where n: "n = Suc n'" "k = Suc k'"
      using u calculation by (cases n; cases k) auto
    ultimately have r': "length r' < length s" "length r' \<le> n'" "length r' \<le> k'"
      using u by simp_all
    have p: "peg_primary n' r' = peg_primary k' r'" by (rule primary') (use r' in simp_all)
    have "peg_tail n' t = peg_tail k' t" if "peg_primary k' r' = Some (q, t)" for q t
      by (rule tail') (use peg_lengths(2) [OF that] r' in simp_all)
    with p Some v n show ?thesis
      by (simp add: peg_tail.simps [of "Suc n'"] peg_tail.simps [of "Suc k'"] case_prod_unfold
          flip: r'_def split: option.splits)
  qed
  { case 1
    define r where "r = snd (peg_nots s)"
    have r: "length r \<le> length s" using peg_nots_length by (simp add: r_def)
    have p: "peg_primary n r = peg_primary (length s) r"
      by (rule primary) (use r 1 in simp_all)
    have "peg_tail n t = peg_tail (length s) t" if "peg_primary (length s) r = Some (q, t)" for q t
      by (rule tail) (use peg_lengths(2) [OF that] r 1 in simp_all)
    with p show ?case
      by (simp add: peg_expr.simps [of n] peg_expr.simps [of "length s"] case_prod_unfold
          flip: r_def split: option.splits)
  next
    case 2
    then show ?case by (intro primary) simp_all
  next
    case 3
    then show ?case by (intro tail) simp_all }
qed

end
