(* ===== verification/Bloom.thy ===== *)
theory Bloom
  imports ConditionEval "HOL-Library.Word" "HOL-Library.Multiset"
begin

text \<open>
  The per-field bloom filters (\<open>rsigma-eval/src/engine/bloom_index.rs\<close>): trigram filters over the
  positive substring needles of all rules, their construction, incremental extension and probes.
  The lemmas show that a filter never hides a match of a rule whose needles it holds, and state
  when appending a rule keeps that.
\<close>

unbundle bit_operations_syntax

section \<open>Constants and parameters\<close>

definition ngram_size :: nat where "ngram_size = 3"
definition max_bloom_scan_bytes :: nat where "max_bloom_scan_bytes = 4096"
definition default_max_total_bytes :: nat where "default_max_total_bytes = 1024 * 1024"
definition min_bits_per_pattern :: nat where "min_bits_per_pattern = 16"
definition max_bytes_per_field :: nat where "max_bytes_per_field = 64 * 1024"
definition incremental_rebuild_floor :: nat where "incremental_rebuild_floor = 64"

text \<open>
  The parameters: the ideal bit and hash counts, computed with \<open>ln\<close> by the float library, and the
  keyed \<open>ahash\<close> digest of a prefix byte and a trigram.
\<close>

record bloom_env =
  be_ideal_bits :: "nat \<Rightarrow> nat"
  be_ideal_hashes :: "nat \<Rightarrow> nat \<Rightarrow> nat"
  be_hash :: "nat \<Rightarrow> string \<Rightarrow> 64 word"

section \<open>One filter\<close>

record field_bloom =
  fb_bits :: "64 word list"
  fb_num_bits :: nat
  fb_num_hashes :: nat

definition div_ceil :: "nat \<Rightarrow> nat \<Rightarrow> nat" where
  "div_ceil a b = (a + b - 1) div b"

definition field_bloom_new :: "bloom_env \<Rightarrow> nat \<Rightarrow> field_bloom option" where
  "field_bloom_new be n_items =
     (if n_items = 0 then None
      else
        let m_ideal = be_ideal_bits be n_items;
            wanted = max m_ideal (min_bits_per_pattern * n_items);
            rounded = div_ceil wanted 64 * 64;
            max_bits = max_bytes_per_field * 8;
            num_bits = (if max_bits < rounded then max_bits else rounded)
        in if num_bits div 8 < div_ceil n_items 8 then None
           else Some \<lparr> fb_bits = replicate (num_bits div 64) 0, fb_num_bits = num_bits,
                       fb_num_hashes = min 12 (max 2 (be_ideal_hashes be num_bits n_items)) \<rparr>)"

definition byte_size :: "field_bloom \<Rightarrow> nat" where
  "byte_size b = length (fb_bits b) * 8"

definition hash_pair :: "bloom_env \<Rightarrow> string \<Rightarrow> 64 word \<times> 64 word" where
  "hash_pair be trigram = (be_hash be 0xA1 trigram, be_hash be 0xB2 trigram)"

text \<open>The position of probe \<open>i\<close>: wrapping arithmetic on \<open>u64\<close>, then \<open>% num_bits\<close>.\<close>

definition probe_pos :: "bloom_env \<Rightarrow> nat \<Rightarrow> string \<Rightarrow> nat \<Rightarrow> nat" where
  "probe_pos be num_bits trigram i =
     (case hash_pair be trigram of (h1, h2) \<Rightarrow> unat (h1 + of_nat i * h2) mod num_bits)"

definition set_bloom_bit :: "64 word list \<Rightarrow> nat \<Rightarrow> 64 word list" where
  "set_bloom_bit bits pos = bits[pos div 64 := bits ! (pos div 64) OR push_bit (pos mod 64) 1]"

definition get_bloom_bit :: "64 word list \<Rightarrow> nat \<Rightarrow> bool" where
  "get_bloom_bit bits pos = (bits ! (pos div 64) AND push_bit (pos mod 64) 1 \<noteq> 0)"

definition insert_trigram :: "bloom_env \<Rightarrow> field_bloom \<Rightarrow> string \<Rightarrow> field_bloom" where
  "insert_trigram be b trigram =
     b \<lparr> fb_bits := fold (\<lambda>i bits. set_bloom_bit bits (probe_pos be (fb_num_bits b) trigram i))
                      [0 ..< fb_num_hashes b] (fb_bits b) \<rparr>"

definition contains_trigram :: "bloom_env \<Rightarrow> field_bloom \<Rightarrow> string \<Rightarrow> bool" where
  "contains_trigram be b trigram =
     list_all (\<lambda>i. get_bloom_bit (fb_bits b) (probe_pos be (fb_num_bits b) trigram i))
       [0 ..< fb_num_hashes b]"

text \<open>\<open>windows(n)\<close>.\<close>

definition windows :: "nat \<Rightarrow> string \<Rightarrow> string list" where
  "windows n s = map (\<lambda>i. take n (drop i s)) [0 ..< Suc (length s) - n]"

definition insert_needle_trigrams :: "bloom_env \<Rightarrow> field_bloom \<Rightarrow> string \<Rightarrow> field_bloom" where
  "insert_needle_trigrams be b needle =
     (if length needle < ngram_size then b
      else fold (\<lambda>w b. insert_trigram be b w) (windows ngram_size needle) b)"

definition count_unique_trigrams :: "string list \<Rightarrow> nat" where
  "count_unique_trigrams needles =
     length (first_seen [] (concat (map (\<lambda>n. if length n < ngram_size then []
                                           else windows ngram_size n) needles)))"

section \<open>Collecting needles\<close>

fun is_positive_substring_matcher :: "compiled_matcher \<Rightarrow> bool" where
  "is_positive_substring_matcher (CmContains _ _) = True"
| "is_positive_substring_matcher (CmStartsWith _ _) = True"
| "is_positive_substring_matcher (CmEndsWith _ _) = True"
| "is_positive_substring_matcher (CmAhoCorasickSet _ _) = True"
| "is_positive_substring_matcher (CmAnyOf children) =
     list_all is_positive_substring_matcher children"
| "is_positive_substring_matcher (CmCaseInsensitiveGroup children _) =
     list_all is_positive_substring_matcher children"
| "is_positive_substring_matcher _ = False"

definition bloom_needle :: "string \<Rightarrow> bool \<Rightarrow> string" where
  "bloom_needle v ci = (if ci then v else if is_ascii v then map ascii_lower_char v else [])"

definition needles_are_representable :: "string list \<Rightarrow> bool" where
  "needles_are_representable needles = list_all (\<lambda>n. ngram_size \<le> length n) needles"

text \<open>\<open>out.entry(field).or_default()\<close> extended by \<open>ns\<close>.\<close>

definition entry_extend ::
    "string \<Rightarrow> string list \<Rightarrow> (string \<times> string list) list \<Rightarrow> (string \<times> string list) list" where
  "entry_extend field ns out =
     map_insert field ((case map_of out field of Some xs \<Rightarrow> xs | None \<Rightarrow> []) @ ns) out"

fun extract_from_matcher ::
    "compiled_matcher \<Rightarrow> string \<Rightarrow> bool \<Rightarrow> (string \<times> string list) list
     \<Rightarrow> (string \<times> string list) list" where
  "extract_from_matcher m field True out = out"
| "extract_from_matcher (CmContains v ci) field False out =
     entry_extend field [bloom_needle v ci] out"
| "extract_from_matcher (CmStartsWith v ci) field False out =
     entry_extend field [bloom_needle v ci] out"
| "extract_from_matcher (CmEndsWith v ci) field False out =
     entry_extend field [bloom_needle v ci] out"
| "extract_from_matcher (CmAhoCorasickSet ci needles) field False out =
     entry_extend field (map (\<lambda>n. bloom_needle n ci) needles) out"
| "extract_from_matcher (CmAnyOf children) field False out =
     fold (\<lambda>c out. extract_from_matcher c field False out) children out"
| "extract_from_matcher (CmAllOf children) field False out =
     fold (\<lambda>c out. extract_from_matcher c field False out) children out"
| "extract_from_matcher (CmCaseInsensitiveGroup children mode) field False out =
     fold (\<lambda>c out. extract_from_matcher c field False out) children out"
| "extract_from_matcher (CmNot inner) field False out = extract_from_matcher inner field True out"
| "extract_from_matcher m field False out = out"

fun collect_positive_substring_needles ::
    "compiled_detection \<Rightarrow> (string \<times> string list) list \<Rightarrow> (string \<times> string list) list" where
  "collect_positive_substring_needles (CdAllOf items) out =
     fold (\<lambda>item out. case cdi_field item of
             Some field \<Rightarrow> extract_from_matcher (cdi_matcher item) field False out
           | None \<Rightarrow> out) items out"
| "collect_positive_substring_needles (CdAnyOf subs) out =
     fold (\<lambda>s out. collect_positive_substring_needles s out) subs out"
| "collect_positive_substring_needles (CdAnd subs) out =
     fold (\<lambda>s out. collect_positive_substring_needles s out) subs out"
| "collect_positive_substring_needles (CdArrayMatch _ _ _) out = out"
| "collect_positive_substring_needles (CdConditional _ _) out = out"
| "collect_positive_substring_needles (CdKeywords _) out = out"

definition collect_rule_needles ::
    "compiled_rule \<Rightarrow> (string \<times> string list) list \<Rightarrow> (string \<times> string list) list" where
  "collect_rule_needles rule out =
     fold (\<lambda>d out. collect_positive_substring_needles d out) (map snd (cru_detections rule)) out"

section \<open>The index\<close>

record field_bloom_index =
  fbi_filters :: "(string \<times> field_bloom) list"
  fbi_rebuild_baseline :: nat

definition fbi_empty :: field_bloom_index where
  "fbi_empty = \<lparr> fbi_filters = [], fbi_rebuild_baseline = 0 \<rparr>"

record built_filter =
  bu_field :: string
  bu_bloom :: field_bloom
  bu_n_patterns :: nat

definition build_filter :: "bloom_env \<Rightarrow> string \<times> string list \<Rightarrow> built_filter option" where
  "build_filter be fn =
     (let needles = remdups_adj (sort (snd fn))
      in if \<not> needles_are_representable needles then None
         else case field_bloom_new be (count_unique_trigrams needles) of
                None \<Rightarrow> None
              | Some b \<Rightarrow>
                  Some \<lparr> bu_field = fst fn,
                         bu_bloom = fold (\<lambda>n b. insert_needle_trigrams be b n) needles b,
                         bu_n_patterns = length needles \<rparr>)"

definition density :: "built_filter \<Rightarrow> f64" where
  "density b =
     f64_div (f64_of_int (int (byte_size (bu_bloom b)))) (f64_of_int (int (max 1 (bu_n_patterns b))))"

text \<open>The budget loop: \<open>pop\<close> filters from the end until the total fits.\<close>

function drop_to_budget :: "nat \<Rightarrow> nat \<Rightarrow> built_filter list \<Rightarrow> built_filter list" where
  "drop_to_budget tot max_tot [] = []"
| "drop_to_budget tot max_tot (b # built) =
     (if max_tot < tot then
        (let victim = last (b # built)
         in drop_to_budget (tot - byte_size (bu_bloom victim)) max_tot (butlast (b # built)))
      else b # built)"
  by pat_completeness auto
termination
  by (relation "measure (\<lambda>(_, _, built). length built)") auto

definition build_with_budget ::
    "bloom_env \<Rightarrow> compiled_rule list \<Rightarrow> nat \<Rightarrow> field_bloom_index" where
  "build_with_budget be rules max_tot =
     (let field_needles = fold collect_rule_needles rules [];
          built = filter_map (build_filter be) field_needles;
          tot = sum_list (map (\<lambda>b. byte_size (bu_bloom b)) built);
          kept = (if max_tot < tot
                  then drop_to_budget tot max_tot (sort_key (\<lambda>b. f64_neg (density b)) built)
                  else built)
      in \<lparr> fbi_filters = map (\<lambda>b. (bu_field b, bu_bloom b)) kept,
           fbi_rebuild_baseline = length rules \<rparr>)"

definition bloom_build :: "bloom_env \<Rightarrow> compiled_rule list \<Rightarrow> field_bloom_index" where
  "bloom_build be rules = build_with_budget be rules default_max_total_bytes"

text \<open>\<open>append_rule\<close>: the loop body for one field of the new rule.\<close>

definition append_field ::
    "bloom_env \<Rightarrow> string \<times> string list \<Rightarrow> field_bloom_index \<Rightarrow> field_bloom_index" where
  "append_field be fn idx =
     (let field = fst fn; needles = remdups_adj (sort (snd fn)) in
      if needles = [] then idx
      else if \<not> needles_are_representable needles then
        idx \<lparr> fbi_filters := filter (\<lambda>(f, _). f \<noteq> field) (fbi_filters idx) \<rparr>
      else case map_of (fbi_filters idx) field of
             Some b \<Rightarrow>
               idx \<lparr> fbi_filters :=
                 map_insert field (fold (\<lambda>n b. insert_needle_trigrams be b n) needles b)
                   (fbi_filters idx) \<rparr>
           | None \<Rightarrow>
               (case field_bloom_new be (count_unique_trigrams needles) of
                  Some b \<Rightarrow>
                    idx \<lparr> fbi_filters :=
                      map_insert field (fold (\<lambda>n b. insert_needle_trigrams be b n) needles b)
                        (fbi_filters idx) \<rparr>
                | None \<Rightarrow> idx))"

definition bloom_append_rule ::
    "bloom_env \<Rightarrow> field_bloom_index \<Rightarrow> compiled_rule \<Rightarrow> field_bloom_index" where
  "bloom_append_rule be idx rule = fold (append_field be) (collect_rule_needles rule []) idx"

definition bloom_should_rebuild :: "field_bloom_index \<Rightarrow> nat \<Rightarrow> bool" where
  "bloom_should_rebuild idx rule_count =
     (let threshold = max (min u64_max (fbi_rebuild_baseline idx * 2)) incremental_rebuild_floor
      in threshold \<le> rule_count \<and> fbi_rebuild_baseline idx < rule_count)"

definition bloom_probe ::
    "bloom_env \<Rightarrow> ext_env \<Rightarrow> field_bloom_index \<Rightarrow> string \<Rightarrow> string \<Rightarrow> bloom_verdict" where
  "bloom_probe be env idx field v =
     (case map_of (fbi_filters idx) field of
        None \<Rightarrow> MaybeMatch
      | Some b \<Rightarrow>
          (if length v < ngram_size then MaybeMatch
           else if max_bloom_scan_bytes < length v then MaybeMatch
           else if list_ex (contains_trigram be b)
                     (windows ngram_size (ascii_lowercase_cow env v))
           then MaybeMatch else DefinitelyNoMatch))"

section \<open>The per-event cache\<close>

definition bloom_compute ::
    "bloom_env \<Rightarrow> ext_env \<Rightarrow> field_bloom_index \<Rightarrow> event \<Rightarrow> string \<Rightarrow> bloom_verdict" where
  "bloom_compute be env idx ev field =
     (case ev_get_field ev field of
        Some (EvStr s) \<Rightarrow> bloom_probe be env idx field s
      | _ \<Rightarrow> MaybeMatch)"

text \<open>\<open>verdict_for_field\<close> with its \<open>RefCell\<close>ed cache threaded through.\<close>

definition bloom_verdict_for_field ::
    "bloom_env \<Rightarrow> ext_env \<Rightarrow> field_bloom_index \<Rightarrow> event \<Rightarrow> (string \<times> bloom_verdict) list
     \<Rightarrow> string \<Rightarrow> bloom_verdict \<times> (string \<times> bloom_verdict) list" where
  "bloom_verdict_for_field be env idx ev cache field =
     (case map_of cache field of
        Some v \<Rightarrow> (v, cache)
      | None \<Rightarrow>
          (let verdict = bloom_compute be env idx ev field
           in (verdict, map_insert field verdict cache)))"

section \<open>Filters\<close>

definition fb_wf :: "field_bloom \<Rightarrow> bool" where
  "fb_wf b = (0 < fb_num_bits b \<and> fb_num_bits b = 64 * length (fb_bits b))"

lemma get_bloom_bit_bit: "get_bloom_bit bits p = bit (bits ! (p div 64)) (p mod 64)"
  by (simp add: get_bloom_bit_def push_bit_eq_mult and_exp_eq_0_iff_not_bit)

lemma get_set_bloom_bit:
  assumes "p < 64 * length bits" and "q < 64 * length bits"
  shows "get_bloom_bit (set_bloom_bit bits p) q = (p = q \<or> get_bloom_bit bits q)"
proof -
  have dp: "p div 64 < length bits" and dq: "q div 64 < length bits"
    using assms by (simp_all add: less_mult_imp_div_less)
  have eq: "p = q \<longleftrightarrow> p div 64 = q div 64 \<and> p mod 64 = q mod 64"
    by (metis div_mult_mod_eq)
  have "bit (push_bit (p mod 64) (1 :: 64 word)) (q mod 64) \<longleftrightarrow> p mod 64 = q mod 64"
    by (auto simp: bit_simps)
  then show ?thesis
    using dp dq eq
    by (cases "p div 64 = q div 64") (auto simp: get_bloom_bit_bit set_bloom_bit_def bit_or_iff)
qed

lemma length_set_bloom_bit [simp]: "length (set_bloom_bit bits p) = length bits"
  by (simp add: set_bloom_bit_def)

lemma get_fold_set:
  assumes "\<And>i. i \<in> set is \<Longrightarrow> pos i < 64 * length bits" and "q < 64 * length bits"
  shows "get_bloom_bit (fold (\<lambda>i bits. set_bloom_bit bits (pos i)) is bits) q
      = (q \<in> pos ` set is \<or> get_bloom_bit bits q)
    \<and> length (fold (\<lambda>i bits. set_bloom_bit bits (pos i)) is bits) = length bits"
  using assms
proof (induction "is" arbitrary: bits)
  case Nil
  then show ?case by simp
next
  case (Cons i is')
  then show ?case by (auto simp: get_set_bloom_bit)
qed

lemma probe_pos_lt: "0 < nb \<Longrightarrow> probe_pos be nb t i < nb"
  by (simp add: probe_pos_def split: prod.splits)

lemma insert_trigram_fields [simp]:
  "fb_num_bits (insert_trigram be b t) = fb_num_bits b"
  "fb_num_hashes (insert_trigram be b t) = fb_num_hashes b"
  by (simp_all add: insert_trigram_def)

lemma insert_trigram_get:
  assumes "fb_wf b" and "q < fb_num_bits b"
  shows "get_bloom_bit (fb_bits (insert_trigram be b t)) q
      = (q \<in> probe_pos be (fb_num_bits b) t ` {0 ..< fb_num_hashes b} \<or> get_bloom_bit (fb_bits b) q)
    \<and> length (fb_bits (insert_trigram be b t)) = length (fb_bits b)"
proof -
  have nb: "fb_num_bits b = 64 * length (fb_bits b)" "0 < fb_num_bits b"
    using assms(1) unfolding fb_wf_def by blast+
  have p: "probe_pos be (fb_num_bits b) t i < 64 * length (fb_bits b)" for i
    using probe_pos_lt [OF nb(2)] nb(1) by metis
  have q: "q < 64 * length (fb_bits b)" using assms(2) nb(1) by simp
  have bits: "fb_bits (insert_trigram be b t)
      = fold (\<lambda>i bits. set_bloom_bit bits (probe_pos be (fb_num_bits b) t i))
          [0 ..< fb_num_hashes b] (fb_bits b)"
    by (simp add: insert_trigram_def)
  show ?thesis
    unfolding bits set_upt [symmetric] by (rule get_fold_set [OF p q])
qed

lemmas insert_trigram_bit = insert_trigram_get [THEN conjunct1]

lemma insert_trigram_wf [simp]: "fb_wf b \<Longrightarrow> fb_wf (insert_trigram be b t)"
  using insert_trigram_get [of b 0 be t] unfolding fb_wf_def by force

lemma contains_insert_same: "fb_wf b \<Longrightarrow> contains_trigram be (insert_trigram be b t) t"
  by (auto simp: contains_trigram_def list_all_iff insert_trigram_bit probe_pos_lt fb_wf_def)

lemma contains_insert_mono:
  "fb_wf b \<Longrightarrow> contains_trigram be b t' \<Longrightarrow> contains_trigram be (insert_trigram be b t) t'"
  by (auto simp: contains_trigram_def list_all_iff insert_trigram_bit probe_pos_lt fb_wf_def)

lemma fold_insert_trigram:
  assumes "fb_wf b"
  shows "fb_wf (fold (\<lambda>w b. insert_trigram be b w) ws b)
    \<and> (\<forall>t. t \<in> set ws \<or> contains_trigram be b t
          \<longrightarrow> contains_trigram be (fold (\<lambda>w b. insert_trigram be b w) ws b) t)"
  using assms
proof (induction ws arbitrary: b)
  case Nil
  then show ?case by simp
next
  case (Cons w ws)
  then have "fb_wf (insert_trigram be b w)" by simp
  from Cons.IH [OF this] show ?case
    using contains_insert_same [OF Cons.prems] contains_insert_mono [OF Cons.prems] by auto
qed

text \<open>A filter holds a needle when it has all of its trigrams, and there is one.\<close>

definition holds_needle :: "bloom_env \<Rightarrow> field_bloom \<Rightarrow> string \<Rightarrow> bool" where
  "holds_needle be b n =
     (fb_wf b \<and> ngram_size \<le> length n \<and> list_all (contains_trigram be b) (windows ngram_size n))"

lemma insert_needle_trigrams_ok:
  assumes "fb_wf b"
  shows "fb_wf (insert_needle_trigrams be b n)"
    and "ngram_size \<le> length n \<Longrightarrow> holds_needle be (insert_needle_trigrams be b n) n"
    and "holds_needle be b m \<Longrightarrow> holds_needle be (insert_needle_trigrams be b n) m"
  using fold_insert_trigram [OF assms, of be "windows ngram_size n"] assms
  by (auto simp: insert_needle_trigrams_def holds_needle_def list_all_iff)

lemma fold_insert_needles:
  assumes "fb_wf b" and "list_all (\<lambda>n. ngram_size \<le> length n) ns"
  shows "fb_wf (fold (\<lambda>n b. insert_needle_trigrams be b n) ns b)
    \<and> (\<forall>m. m \<in> set ns \<or> holds_needle be b m
          \<longrightarrow> holds_needle be (fold (\<lambda>n b. insert_needle_trigrams be b n) ns b) m)"
  using assms
proof (induction ns arbitrary: b)
  case Nil
  then show ?case by simp
next
  case (Cons n ns)
  then have "fb_wf (insert_needle_trigrams be b n)" by (simp add: insert_needle_trigrams_ok)
  from Cons.IH [OF this] Cons.prems show ?case
    using insert_needle_trigrams_ok [OF Cons.prems(1)] by auto
qed

lemma field_bloom_new_zero [simp]: "field_bloom_new be 0 = None"
  by (simp add: field_bloom_new_def)

lemma field_bloom_new_wf:
  assumes "field_bloom_new be n = Some b" shows "fb_wf b"
proof -
  define k where "k = max (be_ideal_bits be n) (min_bits_per_pattern * n)"
  define r where "r = div_ceil k 64"
  define m where "m = (if max_bytes_per_field * 8 < r * 64 then max_bytes_per_field * 8 else r * 64)"
  have n: "n \<noteq> 0" using assms by (cases n) simp_all
  have "1 \<le> k" using n by (simp add: k_def min_bits_per_pattern_def)
  then have "1 \<le> r" by (simp add: r_def div_ceil_def Suc_le_eq div_greater_zero_iff)
  then have m0: "0 < m" and md: "m = 64 * (m div 64)"
    by (simp_all add: m_def max_bytes_per_field_def)
  have "fb_bits b = replicate (m div 64) 0 \<and> fb_num_bits b = m"
    using assms n unfolding field_bloom_new_def Let_def k_def [symmetric] r_def [symmetric]
      m_def [symmetric] by (auto split: if_splits)
  then show ?thesis using m0 md by (simp add: fb_wf_def)
qed

section \<open>The needles collected\<close>

definition needles_of :: "(string \<times> string list) list \<Rightarrow> string \<Rightarrow> string list" where
  "needles_of out field = (case map_of out field of Some xs \<Rightarrow> xs | None \<Rightarrow> [])"

fun matcher_needles :: "compiled_matcher \<Rightarrow> string list" where
  "matcher_needles (CmContains v ci) = [bloom_needle v ci]"
| "matcher_needles (CmStartsWith v ci) = [bloom_needle v ci]"
| "matcher_needles (CmEndsWith v ci) = [bloom_needle v ci]"
| "matcher_needles (CmAhoCorasickSet ci needles) = map (\<lambda>n. bloom_needle n ci) needles"
| "matcher_needles (CmAnyOf children) = concat (map matcher_needles children)"
| "matcher_needles (CmAllOf children) = concat (map matcher_needles children)"
| "matcher_needles (CmCaseInsensitiveGroup children mode) = concat (map matcher_needles children)"
| "matcher_needles _ = []"

definition item_needles :: "string \<Rightarrow> compiled_detection_item \<Rightarrow> string list" where
  "item_needles g item = (if cdi_field item = Some g then matcher_needles (cdi_matcher item) else [])"

fun detection_needles :: "string \<Rightarrow> compiled_detection \<Rightarrow> string list" where
  "detection_needles g (CdAllOf items) = concat (map (item_needles g) items)"
| "detection_needles g (CdAnyOf subs) = concat (map (detection_needles g) subs)"
| "detection_needles g (CdAnd subs) = concat (map (detection_needles g) subs)"
| "detection_needles g _ = []"

definition rule_needles :: "string \<Rightarrow> compiled_rule \<Rightarrow> string list" where
  "rule_needles g rule = concat (map (detection_needles g) (map snd (cru_detections rule)))"

lemma needles_of_Nil [simp]: "needles_of [] g = []"
  by (simp add: needles_of_def)

lemma needles_of_extend:
  "needles_of (entry_extend f ns out) g = needles_of out g @ (if g = f then ns else [])"
  by (simp add: needles_of_def entry_extend_def split: option.splits)

text \<open>A fold whose step appends \<open>h x\<close> at \<open>g\<close> appends all of them.\<close>

lemma needles_of_fold:
  assumes "\<And>x out. x \<in> set xs \<Longrightarrow> needles_of (step x out) g = needles_of out g @ h x"
  shows "needles_of (fold step xs out) g = needles_of out g @ concat (map h xs)"
  using assms by (induction xs arbitrary: out) auto

lemma concat_if_empty: "concat (map (\<lambda>x. if p then h x else []) xs) = (if p then concat (map h xs) else [])"
  by (induction xs) auto

lemma needles_of_extract:
  "needles_of (extract_from_matcher m f False out) g
   = needles_of out g @ (if g = f then matcher_needles m else [])"
proof (induction m arbitrary: out rule: matcher_needles.induct)
  case (5 children)
  then show ?case
    using needles_of_fold [of children "\<lambda>c. extract_from_matcher c f False" g
        "\<lambda>c. if g = f then matcher_needles c else []"] by (auto simp: concat_if_empty)
next
  case (6 children)
  then show ?case
    using needles_of_fold [of children "\<lambda>c. extract_from_matcher c f False" g
        "\<lambda>c. if g = f then matcher_needles c else []"] by (auto simp: concat_if_empty)
next
  case (7 children mode)
  then show ?case
    using needles_of_fold [of children "\<lambda>c. extract_from_matcher c f False" g
        "\<lambda>c. if g = f then matcher_needles c else []"] by (auto simp: concat_if_empty)
qed (simp_all add: needles_of_extend)

lemma needles_of_collect:
  "needles_of (collect_positive_substring_needles det out) g
   = needles_of out g @ detection_needles g det"
proof (induction det arbitrary: out rule: detection_needles.induct)
  case (1 g items)
  show ?case
    unfolding collect_positive_substring_needles.simps detection_needles.simps
    by (rule needles_of_fold) (auto simp: item_needles_def needles_of_extract split: option.splits)
next
  case (2 g subs)
  then show ?case by (simp add: needles_of_fold [where h = "detection_needles g"])
next
  case (3 g subs)
  then show ?case by (simp add: needles_of_fold [where h = "detection_needles g"])
qed simp_all

lemma needles_of_rule:
  "needles_of (collect_rule_needles rule out) g = needles_of out g @ rule_needles g rule"
  unfolding collect_rule_needles_def rule_needles_def
  by (rule needles_of_fold) (simp add: needles_of_collect)

lemma needles_of_rules:
  "needles_of (fold collect_rule_needles rules out) g
   = needles_of out g @ concat (map (rule_needles g) rules)"
  by (rule needles_of_fold) (simp add: needles_of_rule)

text \<open>Collecting keeps one entry per field.\<close>

lemma distinct_fold:
  assumes "\<And>x out. x \<in> set xs \<Longrightarrow> distinct (map fst out) \<Longrightarrow> distinct (map fst (step x out))"
    and "distinct (map fst out)"
  shows "distinct (map fst (fold step xs out))"
  using assms by (induction xs arbitrary: out) auto

lemma distinct_extract:
  "distinct (map fst out) \<Longrightarrow> distinct (map fst (extract_from_matcher m f False out))"
proof (induction m arbitrary: out rule: matcher_needles.induct)
  case (5 children)
  then show ?case by (simp add: distinct_fold)
next
  case (6 children)
  then show ?case by (simp add: distinct_fold)
next
  case (7 children mode)
  then show ?case by (simp add: distinct_fold)
qed (simp_all add: entry_extend_def distinct_map_insert)

lemma distinct_collect:
  "distinct (map fst out) \<Longrightarrow> distinct (map fst (collect_positive_substring_needles det out))"
proof (induction det out rule: collect_positive_substring_needles.induct)
  case (1 items out)
  show ?case
    unfolding collect_positive_substring_needles.simps
    by (rule distinct_fold) (auto simp: distinct_extract 1 split: option.splits)
next
  case (2 subs out)
  then show ?case by (simp add: distinct_fold)
next
  case (3 subs out)
  then show ?case by (simp add: distinct_fold)
qed simp_all

lemma distinct_rules:
  "distinct (map fst out) \<Longrightarrow> distinct (map fst (fold collect_rule_needles rules out))"
  by (intro distinct_fold) (auto simp: collect_rule_needles_def intro!: distinct_fold distinct_collect)

section \<open>What a filter knows\<close>

text \<open>A filter of good shape that holds all of \<open>ns\<close>; the index, for each field that has one.\<close>

definition holds_all :: "bloom_env \<Rightarrow> field_bloom \<Rightarrow> string list \<Rightarrow> bool" where
  "holds_all be b ns = (fb_wf b \<and> list_all (holds_needle be b) ns)"

definition index_holds ::
    "bloom_env \<Rightarrow> field_bloom_index \<Rightarrow> (string \<Rightarrow> string list) \<Rightarrow> bool" where
  "index_holds be idx needles =
     (\<forall>f b. map_of (fbi_filters idx) f = Some b \<longrightarrow> holds_all be b (needles f))"

lemma holds_all_set: "set ns = set ms \<Longrightarrow> holds_all be b ns = holds_all be b ms"
  by (simp add: holds_all_def list_all_iff)

lemma set_prepared: "set (remdups_adj (sort ns)) = set ns"
  by simp

lemma representable_prepared:
  "needles_are_representable (remdups_adj (sort ns)) = needles_are_representable ns"
  by (simp add: needles_are_representable_def list_all_iff)

lemma sort_Nil [simp]: "sort_key g ns = [] \<longleftrightarrow> ns = []"
  by (metis set_sort set_empty)

lemma prepared_Nil: "remdups_adj (sort ns) = [] \<longleftrightarrow> ns = []"
  by simp

lemma fold_needles_hold:
  assumes "holds_all be b olds" and "needles_are_representable ns"
  shows "holds_all be (fold (\<lambda>n b. insert_needle_trigrams be b n) ns b) (olds @ ns)"
proof -
  have wf: "fb_wf b" using assms(1) by (simp add: holds_all_def)
  have rep: "list_all (\<lambda>n. ngram_size \<le> length n) ns"
    using assms(2) by (simp add: needles_are_representable_def)
  have olds: "\<And>m. m \<in> set olds \<Longrightarrow> holds_needle be b m"
    using assms(1) by (simp add: holds_all_def list_all_iff)
  note * = fold_insert_needles [OF wf rep, of be]
  show ?thesis
    unfolding holds_all_def list_all_iff set_append using * olds by blast
qed

lemma fold_prepared_hold:
  assumes "holds_all be b olds" and "needles_are_representable ns"
  shows "holds_all be
    (fold (\<lambda>n b. insert_needle_trigrams be b n) (remdups_adj (sort ns)) b) (olds @ ns)"
proof -
  have "holds_all be (fold (\<lambda>n b. insert_needle_trigrams be b n) (remdups_adj (sort ns)) b)
      (olds @ remdups_adj (sort ns))"
    by (rule fold_needles_hold) (simp_all add: assms representable_prepared)
  then show ?thesis
    by (rule holds_all_set [THEN iffD1, rotated]) simp
qed

lemma holds_all_Nil: "holds_all be b [] = fb_wf b"
  by (simp add: holds_all_def)

lemma new_filter_hold:
  assumes "field_bloom_new be n = Some b" and "needles_are_representable ns"
  shows "holds_all be (fold (\<lambda>n b. insert_needle_trigrams be b n) (remdups_adj (sort ns)) b) ns"
  using fold_prepared_hold [of be b "[]" ns] assms field_bloom_new_wf [OF assms(1)]
  by (simp add: holds_all_Nil)

lemma build_filter_holds:
  assumes "build_filter be (f, ns) = Some bu"
  shows "bu_field bu = f" and "holds_all be (bu_bloom bu) ns"
proof -
  have rep: "needles_are_representable ns"
    using assms representable_prepared [of ns]
    by (auto simp: build_filter_def Let_def split: if_splits)
  from assms obtain n b where new: "field_bloom_new be n = Some b" and bu:
      "bu = \<lparr> bu_field = f,
              bu_bloom = fold (\<lambda>n b. insert_needle_trigrams be b n) (remdups_adj (sort ns)) b,
              bu_n_patterns = length (remdups_adj (sort ns)) \<rparr>"
    unfolding build_filter_def Let_def fst_conv snd_conv
    by (cases "field_bloom_new be (count_unique_trigrams (remdups_adj (sort ns)))")
       (simp_all split: if_splits)
  show "bu_field bu = f" by (simp add: bu)
  show "holds_all be (bu_bloom bu) ns"
    using new_filter_hold [OF new rep] by (simp add: bu)
qed

lemma set_drop_to_budget: "set (drop_to_budget tot max_tot built) \<subseteq> set built"
proof (induction tot max_tot built rule: drop_to_budget.induct)
  case (2 tot max_tot b built)
  have sub: "set (butlast (b # built)) \<subseteq> set (b # built)"
    using in_set_butlastD by fast
  show ?case
  proof (cases "max_tot < tot")
    case True
    from 2 [OF True refl] sub
    have "set (drop_to_budget (tot - byte_size (bu_bloom (last (b # built)))) max_tot
        (butlast (b # built))) \<subseteq> set (b # built)" by (rule subset_trans)
    then show ?thesis using True by (simp only: drop_to_budget.simps Let_def if_True)
  next
    case False
    then show ?thesis by (simp only: drop_to_budget.simps if_False subset_refl)
  qed
next
  case (1 tot max_tot)
  then show ?case by (simp only: drop_to_budget.simps subset_refl)
qed

lemma build_index_filters:
  assumes "(f, b) \<in> set (fbi_filters (build_with_budget be rules budget))"
  shows "\<exists>bu \<in> set (filter_map (build_filter be) (fold collect_rule_needles rules [])).
           bu_field bu = f \<and> bu_bloom bu = b"
proof -
  define built where "built = filter_map (build_filter be) (fold collect_rule_needles rules [])"
  define tot where "tot = sum_list (map (\<lambda>b. byte_size (bu_bloom b)) built)"
  have "fbi_filters (build_with_budget be rules budget)
      = map (\<lambda>b. (bu_field b, bu_bloom b))
          (if budget < tot then drop_to_budget tot budget (sort_key (\<lambda>b. f64_neg (density b)) built)
           else built)"
    by (simp only: build_with_budget_def Let_def built_def tot_def field_bloom_index.simps)
  moreover have "set (if budget < tot
      then drop_to_budget tot budget (sort_key (\<lambda>b. f64_neg (density b)) built) else built)
      \<subseteq> set built"
    using set_drop_to_budget [of tot budget "sort_key (\<lambda>b. f64_neg (density b)) built"]
    by simp
  ultimately have "(f, b) \<in> (\<lambda>b. (bu_field b, bu_bloom b)) ` set built"
    using assms by (metis (no_types, lifting) image_mono set_map subsetD)
  then show ?thesis unfolding built_def by auto
qed

lemma build_index_holds:
  "index_holds be (build_with_budget be rules budget) (\<lambda>f. concat (map (rule_needles f) rules))"
  unfolding index_holds_def
proof (intro allI impI)
  fix f b
  define fn where "fn = fold collect_rule_needles rules []"
  assume "map_of (fbi_filters (build_with_budget be rules budget)) f = Some b"
  then obtain bu where bu: "bu \<in> set (filter_map (build_filter be) fn)"
      "bu_field bu = f" "bu_bloom bu = b"
    using build_index_filters [OF map_of_SomeD] unfolding fn_def by blast
  then obtain g ns where fn: "(g, ns) \<in> set fn" "build_filter be (g, ns) = Some bu"
    by (auto simp: set_filter_map)
  have "g = f" using build_filter_holds(1) [OF fn(2)] bu(2) by simp
  moreover have "distinct (map fst fn)" by (simp add: fn_def distinct_rules)
  ultimately have "map_of fn f = Some ns" using fn(1) by simp
  then have "concat (map (rule_needles f) rules) = ns"
    using needles_of_rules [of rules "[]" f] by (simp add: fn_def needles_of_def)
  then show "holds_all be b (concat (map (rule_needles f) rules))"
    using build_filter_holds(2) [OF fn(2)] bu(3) by simp
qed

text \<open>
  Appending keeps the index sound only where a filter exists for every field of the new rule, or
  the rules so far have no needle for it.
\<close>

lemma map_of_filter_out: "map_of (filter (\<lambda>(k, _). k \<noteq> f) m) g = (if g = f then None else map_of m g)"
  by (induction m) auto

lemma append_field_cases:
  "map_of (fbi_filters (append_field be (f, ns) idx)) =
     (if ns = [] then map_of (fbi_filters idx)
      else if \<not> needles_are_representable ns then (map_of (fbi_filters idx))(f := None)
      else case map_of (fbi_filters idx) f of
             Some b \<Rightarrow> (map_of (fbi_filters idx))(f \<mapsto>
               fold (\<lambda>n b. insert_needle_trigrams be b n) (remdups_adj (sort ns)) b)
           | None \<Rightarrow>
               (case field_bloom_new be (count_unique_trigrams (remdups_adj (sort ns))) of
                  Some b \<Rightarrow> (map_of (fbi_filters idx))(f \<mapsto>
                    fold (\<lambda>n b. insert_needle_trigrams be b n) (remdups_adj (sort ns)) b)
                | None \<Rightarrow> map_of (fbi_filters idx)))"
proof -
  have "map_of (filter (\<lambda>(k, _). k \<noteq> f) (fbi_filters idx)) = (map_of (fbi_filters idx))(f := None)"
    by (rule ext) (simp add: map_of_filter_out)
  then show ?thesis
    by (simp add: append_field_def Let_def prepared_Nil representable_prepared split: option.split)
qed

lemma append_field_other:
  "g \<noteq> f \<Longrightarrow> map_of (fbi_filters (append_field be (f, ns) idx)) g = map_of (fbi_filters idx) g"
  by (simp add: append_field_cases split: option.split)

lemma append_field_same:
  assumes b: "map_of (fbi_filters (append_field be (f, ns) idx)) f = Some b"
    and old: "\<And>b. map_of (fbi_filters idx) f = Some b \<Longrightarrow> holds_all be b olds"
    and guard: "ns \<noteq> [] \<Longrightarrow> map_of (fbi_filters idx) f = None \<Longrightarrow> olds = []"
  shows "holds_all be b (olds @ ns)"
proof -
  consider "ns = []" | "ns \<noteq> []" "\<not> needles_are_representable ns"
    | "ns \<noteq> []" "needles_are_representable ns" by blast
  then show ?thesis
  proof cases
    case 1
    then show ?thesis using b old by (simp add: append_field_cases)
  next
    case 2
    then show ?thesis using b by (simp add: append_field_cases)
  next
    case 3
    show ?thesis
    proof (cases "map_of (fbi_filters idx) f")
      case (Some c)
      then show ?thesis
        using b 3 fold_prepared_hold [OF old [OF Some] 3(2)] by (simp add: append_field_cases)
    next
      case None
      then show ?thesis
        using b 3 guard [OF 3(1) None] new_filter_hold [OF _ 3(2)]
        by (auto simp: append_field_cases split: option.splits)
    qed
  qed
qed

text \<open>The guard of one rule.\<close>

definition append_guard ::
    "field_bloom_index \<Rightarrow> (string \<Rightarrow> string list) \<Rightarrow> (string \<Rightarrow> string list) \<Rightarrow> bool" where
  "append_guard idx olds news =
     (\<forall>f. news f \<noteq> [] \<longrightarrow> olds f \<noteq> [] \<longrightarrow> map_of (fbi_filters idx) f \<noteq> None)"

lemma append_fields_hold:
  assumes "index_holds be idx olds" and "distinct (map fst fn)"
    and "append_guard idx olds (needles_of fn)"
  shows "index_holds be (fold (append_field be) fn idx) (\<lambda>f. olds f @ needles_of fn f)"
  using assms
proof (induction fn arbitrary: idx olds)
  case Nil
  then show ?case by simp
next
  case (Cons p fn)
  obtain f ns where p: "p = (f, ns)" by (cases p)
  define idx' where "idx' = append_field be (f, ns) idx"
  have f: "f \<notin> fst ` set fn" using Cons.prems(2) by (simp add: p)
  then have nf: "needles_of fn f = []"
    by (auto simp: needles_of_def split: option.splits dest: map_of_SomeD)
       (metis fst_conv image_eqI map_of_SomeD)
  have split: "needles_of (p # fn) g = (if g = f then ns else needles_of fn g)" for g
    by (simp add: needles_of_def p)
  have other: "map_of (fbi_filters idx') g = map_of (fbi_filters idx) g" if "g \<noteq> f" for g
    using that by (simp add: idx'_def append_field_other)
  have "index_holds be idx' (olds (f := olds f @ ns))"
    unfolding index_holds_def
  proof (intro allI impI)
    fix g b assume b: "map_of (fbi_filters idx') g = Some b"
    show "holds_all be b ((olds(f := olds f @ ns)) g)"
    proof (cases "g = f")
      case True
      have guard: "ns \<noteq> [] \<Longrightarrow> map_of (fbi_filters idx) f = None \<Longrightarrow> olds f = []"
        using Cons.prems(3) split [of f] unfolding append_guard_def by auto
      have "holds_all be b (olds f @ ns)"
        using append_field_same [of be f ns idx b "olds f", OF _ _ guard] b Cons.prems(1) True
        unfolding idx'_def index_holds_def by blast
      then show ?thesis using True by simp
    next
      case False
      then show ?thesis using b other [OF False] Cons.prems(1) by (simp add: index_holds_def)
    qed
  qed
  moreover have "append_guard idx' (olds (f := olds f @ ns)) (needles_of fn)"
    unfolding append_guard_def
  proof (intro allI impI)
    fix g assume g: "needles_of fn g \<noteq> []" "(olds(f := olds f @ ns)) g \<noteq> []"
    then have "g \<noteq> f" using nf by auto
    then show "map_of (fbi_filters idx') g \<noteq> None"
      using g other Cons.prems(3) split [of g] by (simp add: append_guard_def)
  qed
  ultimately have *: "index_holds be (fold (append_field be) fn idx')
      (\<lambda>g. (olds (f := olds f @ ns)) g @ needles_of fn g)"
  proof -
    assume "index_holds be idx' (olds (f := olds f @ ns))"
      and "append_guard idx' (olds (f := olds f @ ns)) (needles_of fn)"
    moreover have "distinct (map fst fn)" using Cons.prems(2) by simp
    ultimately show ?thesis by (intro Cons.IH)
  qed
  have eq: "(\<lambda>g. (olds (f := olds f @ ns)) g @ needles_of fn g) = (\<lambda>g. olds g @ needles_of (p # fn) g)"
    by (rule ext) (simp add: split nf)
  from * show ?case unfolding eq by (simp add: idx'_def p)
qed

lemma append_rule_holds:
  assumes "index_holds be idx olds" and "append_guard idx olds (\<lambda>f. rule_needles f rule)"
  shows "index_holds be (bloom_append_rule be idx rule) (\<lambda>f. olds f @ rule_needles f rule)"
proof -
  have n: "needles_of (collect_rule_needles rule []) = (\<lambda>f. rule_needles f rule)"
    by (rule ext) (simp add: needles_of_rule)
  have "distinct (map fst (collect_rule_needles rule []))"
    using distinct_rules [of "[]" "[rule]"] by simp
  then show ?thesis
    using append_fields_hold [OF assms(1), of "collect_rule_needles rule []"] assms(2)
    by (simp add: n bloom_append_rule_def)
qed

section \<open>What a verdict means\<close>

text \<open>
  The laws the pre-filter relies on: lowercasing keeps an ASCII substring (ASCII letters lower one
  by one, whatever surrounds them), and an automaton that reports a match has found a needle.
\<close>

definition lower_ascii_law :: "ext_env \<Rightarrow> bool" where
  "lower_ascii_law env =
     (\<forall>s n. is_ascii n \<longrightarrow> contains_str s n
        \<longrightarrow> contains_str (to_lowercase env s) (map ascii_lower_char n))"

definition ac_sound_law :: "ext_env \<Rightarrow> bool" where
  "ac_sound_law env = (\<forall>ns s. ac_is_match env ns s \<longrightarrow> list_ex (contains_str s) ns)"

text \<open>A group that needs all of its children has one.\<close>

fun groups_nonempty :: "compiled_matcher \<Rightarrow> bool" where
  "groups_nonempty (CmAnyOf children) = list_all groups_nonempty children"
| "groups_nonempty (CmAllOf children) = list_all groups_nonempty children"
| "groups_nonempty (CmCaseInsensitiveGroup children mode) =
     (children \<noteq> [] \<and> list_all groups_nonempty children)"
| "groups_nonempty (CmNot inner) = groups_nonempty inner"
| "groups_nonempty _ = True"

lemma starts_contains: "starts_with s n \<Longrightarrow> contains_str s n"
  by (metis append_Nil contains_str_iff starts_with_iff)

lemma ends_contains: "ends_with s n \<Longrightarrow> contains_str s n"
  by (metis append.right_neutral append_assoc contains_str_iff ends_with_iff)

lemma bloom_needle_contained:
  assumes "lower_ascii_law env"
    and "if ci then contains_str (to_lowercase env s) v else contains_str s v"
  shows "contains_str (to_lowercase env s) (bloom_needle v ci)"
  using assms by (auto simp: bloom_needle_def lower_ascii_law_def split: if_splits)

lemma list_ex_needle:
  assumes "list_ex p cs"
    and "\<And>c. c \<in> set cs \<Longrightarrow> p c \<Longrightarrow> \<exists>n \<in> set (matcher_needles c). q n"
  shows "\<exists>n \<in> set (concat (map matcher_needles cs)). q n"
  using assms by (force simp: list_ex_iff)

lemma ac_needle:
  assumes "ac_sound_law env" and "ac_is_match env needles s"
  shows "\<exists>n \<in> set needles. contains_str s n"
  using assms by (auto simp: ac_sound_law_def list_ex_iff)

lemma pre_lowered_needle:
  assumes "ac_sound_law env" and "is_positive_substring_matcher m" and "groups_nonempty m"
    and "matches_pre_lowered env m s"
  shows "\<exists>n \<in> set (matcher_needles m). contains_str s n"
  using assms
proof (induction env m s rule: matches_pre_lowered.induct)
  case (9 env ms s)
  then show ?case
    using list_ex_needle [of "\<lambda>m. matches_pre_lowered env m s" ms "contains_str s"]
    by (auto simp: list_all_iff)
next
  case (11 env children s)
  then show ?case
    using list_ex_needle [of "\<lambda>m. matches_pre_lowered env m s" children "contains_str s"]
    by (auto simp: list_all_iff)
next
  case (12 env children s)
  then have "list_ex (\<lambda>m. matches_pre_lowered env m s) children"
    by (cases children) auto
  then show ?case
    using 12 list_ex_needle [of "\<lambda>m. matches_pre_lowered env m s" children "contains_str s"]
    by (auto simp: list_all_iff)
next
  case (6 env needles s)
  then show ?case by (simp add: bloom_needle_def ac_needle)
qed (auto simp: bloom_needle_def starts_contains ends_contains)

lemma positive_match_needle:
  assumes "ac_sound_law env" and "lower_ascii_law env"
    and "is_positive_substring_matcher m" and "groups_nonempty m"
    and "matches env ev m (EvStr s)"
  shows "\<exists>n \<in> set (matcher_needles m). contains_str (to_lowercase env s) n"
  using assms
proof (induction m rule: matcher_needles.induct)
  case (1 v ci)
  then show ?case by (simp add: bloom_needle_contained)
next
  case (2 v ci)
  then show ?case by (auto intro!: bloom_needle_contained simp: starts_contains)
next
  case (3 v ci)
  then show ?case by (auto intro!: bloom_needle_contained simp: ends_contains)
next
  case (4 ci needles)
  then obtain n where "n \<in> set needles"
      "if ci then contains_str (to_lowercase env s) n else contains_str s n"
    using ac_needle [OF 4(1), of needles] by (auto simp: ascii_lowercase_cow_eq split: if_splits)
  then show ?case using bloom_needle_contained [OF 4(2), of ci s n] by auto
next
  case (5 children)
  then show ?case
    using list_ex_needle [of "\<lambda>m. matches env ev m (EvStr s)" children
        "contains_str (to_lowercase env s)"]
    by (auto simp: list_all_iff)
next
  case (7 children mode)
  have all: "\<And>c. c \<in> set children \<Longrightarrow> is_positive_substring_matcher c \<and> groups_nonempty c"
    and ne: "children \<noteq> []"
    using 7(4,5) by (auto simp: list_all_iff)
  have "list_ex (\<lambda>c. matches_pre_lowered env c (to_lowercase env s)) children"
    using 7(6) ne by (cases mode; cases children) (auto simp: ascii_lowercase_cow_eq Let_def)
  then show ?case
    using list_ex_needle [of "\<lambda>c. matches_pre_lowered env c (to_lowercase env s)" children
        "contains_str (to_lowercase env s)"] pre_lowered_needle [OF 7(2)] all
    by (auto simp del: set_concat)
qed auto

text \<open>A contained needle of at least three bytes has a window that is a window of the value.\<close>

lemma windows_append:
  assumes "n \<le> length m"
  shows "take n m \<in> set (windows n m)" and "set (windows n m) \<subseteq> set (windows n (l @ m @ r))"
proof -
  show "take n m \<in> set (windows n m)"
    using assms by (auto simp: windows_def intro!: image_eqI [where x = 0])
  show "set (windows n m) \<subseteq> set (windows n (l @ m @ r))"
  proof
    fix w assume "w \<in> set (windows n m)"
    then obtain i where i: "i < Suc (length m) - n" "w = take n (drop i m)"
      by (auto simp: windows_def)
    then have "w = take n (drop (length l + i) (l @ m @ r))"
      and "length l + i < Suc (length (l @ m @ r)) - n"
      by auto
    then show "w \<in> set (windows n (l @ m @ r))"
      unfolding windows_def set_map set_upt by (intro image_eqI) auto
  qed
qed

lemma held_needle_found:
  assumes "holds_needle be b n" and "contains_str v n"
  shows "list_ex (contains_trigram be b) (windows ngram_size v)"
proof -
  obtain l r where "v = l @ n @ r" using assms(2) by (auto simp: contains_str_iff)
  then have "take ngram_size n \<in> set (windows ngram_size v)"
    using windows_append(1) [of ngram_size n] windows_append(2) [of ngram_size n l r] assms(1)
    by (auto simp: holds_needle_def)
  moreover have "contains_trigram be b (take ngram_size n)"
    using windows_append(1) [of ngram_size n] assms(1) by (auto simp: holds_needle_def list_all_iff)
  ultimately show ?thesis by (auto simp: list_ex_iff)
qed

text \<open>What the index must cover for one item: its matcher's needles, in the filter of its field.\<close>

definition bloom_covers ::
    "bloom_env \<Rightarrow> ext_env \<Rightarrow> field_bloom_index \<Rightarrow> string \<Rightarrow> compiled_matcher \<Rightarrow> bool" where
  "bloom_covers be env idx f m =
     (lower_ascii_law env \<and> ac_sound_law env \<and> is_positive_substring_matcher m \<and> groups_nonempty m
      \<and> (\<forall>b. map_of (fbi_filters idx) f = Some b \<longrightarrow> list_all (holds_needle be b) (matcher_needles m)))"

lemma compute_sound:
  assumes "bloom_covers be env idx f m"
    and "bloom_compute be env idx ev f = DefinitelyNoMatch"
    and "ev_get_field ev f = Some v"
  shows "\<not> matches env ev m v"
proof
  assume m: "matches env ev m v"
  from assms(2,3) obtain s b where s: "v = EvStr s" and b: "map_of (fbi_filters idx) f = Some b"
      "\<not> list_ex (contains_trigram be b) (windows ngram_size (to_lowercase env s))"
    by (auto simp: bloom_compute_def bloom_probe_def ascii_lowercase_cow_eq
        split: event_value.splits option.splits if_splits)
  obtain n where "n \<in> set (matcher_needles m)" "contains_str (to_lowercase env s) n"
    using positive_match_needle [of env m ev s] assms(1) m s by (auto simp: bloom_covers_def)
  then show False
    using held_needle_found b assms(1) by (auto simp: bloom_covers_def list_all_iff)
qed

section \<open>The interface of a lookup\<close>

text \<open>
  The contract of \<open>BloomLookup\<close>: where the lookup covers the matcher of a field, a
  \<open>DefinitelyNoMatch\<close> means that the matcher does not match the field's value.  Detections whose
  eligible items are all covered are evaluated as without pre-filter, in both passes.
\<close>

definition item_covered ::
    "(string \<Rightarrow> compiled_matcher \<Rightarrow> bool) \<Rightarrow> compiled_detection_item \<Rightarrow> bool" where
  "item_covered covered item =
     (case cdi_field item of
        Some f \<Rightarrow> cdi_bloom_eligible item \<longrightarrow> covered f (cdi_matcher item)
      | None \<Rightarrow> True)"

fun det_all :: "(compiled_detection_item \<Rightarrow> bool) \<Rightarrow> compiled_detection \<Rightarrow> bool" where
  "det_all p (CdAllOf items) = list_all p items"
| "det_all p (CdAnyOf subs) = list_all (det_all p) subs"
| "det_all p (CdAnd subs) = list_all (det_all p) subs"
| "det_all p (CdConditional named condition) = list_all (\<lambda>nd. det_all p (snd nd)) named"
| "det_all p _ = True"

definition same_item ::
    "ext_env \<Rightarrow> event \<Rightarrow> (string \<Rightarrow> bloom_verdict) \<Rightarrow> (string \<Rightarrow> bloom_verdict)
     \<Rightarrow> compiled_detection_item \<Rightarrow> bool" where
  "same_item env ev b b' item =
     (eval_detection_item_with_bloom env ev b item = eval_detection_item_with_bloom env ev b' item
      \<and> (\<forall>sel level out. eval_item_recording env sel item ev b level out
           = eval_item_recording env sel item ev b' level out))"

lemma eval_same:
  "list_all (\<lambda>nd. det_all (same_item env ev b b') (snd nd)) named \<Longrightarrow>
   eval_condition_matches_with_bloom env ev b e named
   = eval_condition_matches_with_bloom env ev b' e named"
  "det_all (same_item env ev b b') d \<Longrightarrow>
   eval_detection_with_bloom env ev b d = eval_detection_with_bloom env ev b' d"
proof (induction env ev b e named and env ev b d
    rule: eval_condition_matches_with_bloom_eval_detection_with_bloom.induct)
  case (1 env ev bloom name detections)
  show ?case
  proof (cases "map_of detections name")
    case (Some det)
    then have "det_all (same_item env ev bloom b') det"
      using 1(2) by (auto simp: list_all_iff dest!: map_of_SomeD)
    then show ?thesis using 1(1) [OF Some] by (simp add: Some)
  qed simp
next
  case (5 env ev bloom q pattern detections)
  let ?m = "filter (\<lambda>nd. matches_detection_name pattern (fst nd)) detections"
  have same: "eval_detection_with_bloom env ev bloom (snd nd) = eval_detection_with_bloom env ev b' (snd nd)"
    if "nd \<in> set ?m" for nd
    using that 5 by (cases q) (auto simp: list_all_iff)
  have "list_ex (\<lambda>nd. eval_detection_with_bloom env ev bloom (snd nd)) ?m
      = list_ex (\<lambda>nd. eval_detection_with_bloom env ev b' (snd nd)) ?m"
    "list_all (\<lambda>nd. eval_detection_with_bloom env ev bloom (snd nd)) ?m
      = list_all (\<lambda>nd. eval_detection_with_bloom env ev b' (snd nd)) ?m"
    "count_any n 0 (\<lambda>nd. eval_detection_with_bloom env ev bloom (snd nd)) ?m
      = count_any n 0 (\<lambda>nd. eval_detection_with_bloom env ev b' (snd nd)) ?m" for n
    by (rule list_ex_cong list_all_cong count_any_cong; simp add: same)+
  then show ?case by (simp split: quantifier.split)
next
  case (6 env ev bloom items)
  then show ?case by (auto simp: list_all_iff same_item_def)
qed (auto simp: list_all_iff list_ex_iff)

lemma record_items_same:
  "list_all (same_item env ev b b') items \<Longrightarrow>
   record_items env sel ev b level mark items out = record_items env sel ev b' level mark items out"
  by (induction items arbitrary: out) (auto simp: same_item_def split: prod.splits)

lemma recording_same:
  "det_all (same_item env ev b b') d \<Longrightarrow>
   eval_detection_recording env sel ev b level d out = eval_detection_recording env sel ev b' level d out"
  "list_all (det_all (same_item env ev b b')) ds \<Longrightarrow>
   record_any env sel ev b level acc ds out = record_any env sel ev b' level acc ds out"
  "list_all (det_all (same_item env ev b b')) ds \<Longrightarrow>
   record_and env sel ev b level mark ds out = record_and env sel ev b' level mark ds out"
proof (induction env sel ev b level d out and env sel ev b level acc ds out
    and env sel ev b level mark ds out
    rule: eval_detection_recording_record_any_record_and.induct)
  case (6 env selection ev bloom level named condition out)
  then show ?case using eval_same(1) by simp
qed (auto simp: record_items_same split: prod.splits option.splits)

lemma selector_loop_same:
  "list_all (\<lambda>nd. det_all (same_item env ev b b') (snd nd)) nds \<Longrightarrow>
   selector_loop env ev b level cm nds = selector_loop env ev b' level cm nds"
proof (induction env ev b level cm nds rule: selector_loop.induct)
  case (2 env ev bloom level candidates matched name det rest)
  then show ?case
    using recording_same(1) [of env ev bloom b' det name level "[]"] by (simp split: prod.splits)
qed simp

lemma detail_same:
  assumes "list_all (\<lambda>nd. det_all (same_item env ev b b') (snd nd)) dets"
  shows "eval_condition_detail env ev b level dets e out = eval_condition_detail env ev b' level dets e out"
    and "detail_and env ev b level dets mark es out = detail_and env ev b' level dets mark es out"
    and "detail_or env ev b level dets mark es out = detail_or env ev b' level dets mark es out"
  using assms
proof (induction env ev b level dets e out and env ev b level dets mark es out
    and env ev b level dets mark es out
    rule: eval_condition_detail_detail_and_detail_or.induct)
  case (1 env ev bloom level detections name out)
  show ?case
  proof (cases "map_of detections name")
    case (Some det)
    then have "det_all (same_item env ev bloom b') det"
      using 1 by (auto simp: list_all_iff dest!: map_of_SomeD)
    from recording_same(1) [OF this] show ?thesis by (simp add: Some)
  qed simp
next
  case (5 env ev bloom level detections q pattern out)
  then have "list_all (\<lambda>nd. det_all (same_item env ev bloom b') (snd nd))
      (filter (\<lambda>nd. matches_detection_name pattern (fst nd)) detections)"
    by (auto simp: list_all_iff)
  from selector_loop_same [OF this] show ?case by simp
qed (auto split: prod.splits)

lemma rule_same:
  assumes "list_all (\<lambda>nd. det_all (same_item env ev b b') (snd nd)) (cru_detections rule)"
  shows "evaluate_rule_with_bloom env rule ev b = evaluate_rule_with_bloom env rule ev b'"
proof (rule ext)
  fix level
  have "eval_conditions_loop env rule ev b level cs = eval_conditions_loop env rule ev b' level cs"
    for level cs
    using eval_same(1) [OF assms] detail_same(1) [OF assms] by (induction cs) simp_all
  then show "evaluate_rule_with_bloom env rule ev b level = evaluate_rule_with_bloom env rule ev b' level"
    by (simp add: evaluate_rule_with_bloom_def)
qed

lemma det_all_mono:
  "det_all p d \<Longrightarrow> (\<And>i. p i \<Longrightarrow> q i) \<Longrightarrow> det_all q d"
  by (induction p d rule: det_all.induct) (auto simp: list_all_iff)

locale bloom_lookup =
  fixes env :: ext_env and ev :: event
    and verdict :: "string \<Rightarrow> bloom_verdict"
    and covered :: "string \<Rightarrow> compiled_matcher \<Rightarrow> bool"
  assumes verdict_sound:
    "covered f m \<Longrightarrow> verdict f = DefinitelyNoMatch \<Longrightarrow> ev_get_field ev f = Some v
       \<Longrightarrow> \<not> matches env ev m v"
begin

lemma covered_same: "item_covered covered item \<Longrightarrow> same_item env ev verdict no_bloom item"
  unfolding same_item_def
  using verdict_sound
  by (auto simp: item_covered_def eval_detection_item_with_bloom_def eval_item_recording_def
      no_bloom_def Let_def split: option.splits)

lemma rule_result:
  assumes "list_all (\<lambda>nd. det_all (item_covered covered) (snd nd)) (cru_detections rule)"
  shows "evaluate_rule_with_bloom env rule ev verdict level
    = evaluate_rule_with_bloom env rule ev no_bloom level"
  using assms det_all_mono [OF _ covered_same]
  by (intro fun_cong [OF rule_same]) (auto simp: list_all_iff)

end

text \<open>The stub that disables pre-filtering, and the probes of an index.\<close>

interpretation nb: bloom_lookup env ev no_bloom "\<lambda>_ _. True" for env ev
  by unfold_locales (simp add: no_bloom_def)

interpretation bc: bloom_lookup env ev "bloom_compute be env idx ev" "bloom_covers be env idx"
  for env ev be idx
  by unfold_locales (rule compute_sound)

section \<open>Rules whose eligible items the index covers\<close>

definition item_ready :: "compiled_detection_item \<Rightarrow> bool" where
  "item_ready item =
     (cdi_bloom_eligible item \<longrightarrow>
        is_positive_substring_matcher (cdi_matcher item) \<and> groups_nonempty (cdi_matcher item))"

text \<open>A \<open>Conditional\<close> contributes no needles, so its items must not be eligible.\<close>

fun det_ready :: "compiled_detection \<Rightarrow> bool" where
  "det_ready (CdAllOf items) = list_all item_ready items"
| "det_ready (CdAnyOf subs) = list_all det_ready subs"
| "det_ready (CdAnd subs) = list_all det_ready subs"
| "det_ready (CdConditional named condition) =
     list_all (\<lambda>nd. det_all (\<lambda>i. \<not> cdi_bloom_eligible i) (snd nd)) named"
| "det_ready _ = True"

definition rule_ready :: "compiled_rule \<Rightarrow> bool" where
  "rule_ready rule = list_all (\<lambda>nd. det_ready (snd nd)) (cru_detections rule)"

lemma det_ready_covered:
  assumes "lower_ascii_law env" and "ac_sound_law env" and "index_holds be idx needles"
    and "det_ready d" and "\<And>f. set (detection_needles f d) \<subseteq> set (needles f)"
  shows "det_all (item_covered (bloom_covers be env idx)) d"
  using assms(4,5)
proof (induction d rule: det_ready.induct)
  case (1 items)
  have "item_covered (bloom_covers be env idx) item" if item: "item \<in> set items" for item
    unfolding item_covered_def
  proof (clarsimp split: option.split)
    fix f assume f: "cdi_field item = Some f" and el: "cdi_bloom_eligible item"
    have "set (matcher_needles (cdi_matcher item)) \<subseteq> set (needles f)"
      using 1(2) [of f] item f by (force simp: item_needles_def)
    moreover have "holds_all be b (needles f)" if "map_of (fbi_filters idx) f = Some b" for b
      using assms(3) that unfolding index_holds_def by blast
    ultimately have "list_all (holds_needle be b) (matcher_needles (cdi_matcher item))"
      if "map_of (fbi_filters idx) f = Some b" for b
      using that unfolding holds_all_def list_all_iff by blast
    moreover have "item_ready item" using 1(1) item by (simp add: list_all_iff)
    ultimately show "bloom_covers be env idx f (cdi_matcher item)"
      using assms(1,2) el unfolding bloom_covers_def item_ready_def by blast
  qed
  then show ?case by (simp add: list_all_iff)
next
  case (2 subs)
  then show ?case by (fastforce simp: list_all_iff)
next
  case (3 subs)
  then show ?case by (fastforce simp: list_all_iff)
next
  case (4 named condition)
  have "det_all (item_covered (bloom_covers be env idx)) (snd nd)"
    if "det_all (\<lambda>i. \<not> cdi_bloom_eligible i) (snd nd)" for nd :: "string \<times> compiled_detection"
    using that by (rule det_all_mono) (simp add: item_covered_def split: option.split)
  then show ?case using 4 by (simp add: list_all_iff)
qed simp_all

lemma prefilter_exact:
  assumes "lower_ascii_law env" and "ac_sound_law env" and "index_holds be idx needles"
    and "rule_ready rule" and "\<And>f. set (rule_needles f rule) \<subseteq> set (needles f)"
  shows "evaluate_rule_with_bloom env rule ev (bloom_compute be env idx ev) level
    = evaluate_rule_with_bloom env rule ev no_bloom level"
proof (rule bc.rule_result)
  show "list_all (\<lambda>nd. det_all (item_covered (bloom_covers be env idx)) (snd nd)) (cru_detections rule)"
    unfolding list_all_iff
  proof
    fix nd assume nd: "nd \<in> set (cru_detections rule)"
    show "det_all (item_covered (bloom_covers be env idx)) (snd nd)"
    proof (rule det_ready_covered [OF assms(1-3)])
      show "det_ready (snd nd)" using assms(4) nd by (auto simp: rule_ready_def list_all_iff)
      show "set (detection_needles f (snd nd)) \<subseteq> set (needles f)" for f
        using assms(5) [of f] nd by (force simp: rule_needles_def)
    qed
  qed
qed

section \<open>The cache and the budget\<close>

definition cache_ok ::
    "bloom_env \<Rightarrow> ext_env \<Rightarrow> field_bloom_index \<Rightarrow> event \<Rightarrow> (string \<times> bloom_verdict) list \<Rightarrow> bool" where
  "cache_ok be env idx ev cache =
     (\<forall>f v. map_of cache f = Some v \<longrightarrow> v = bloom_compute be env idx ev f)"

lemma verdict_for_field_ok:
  assumes "cache_ok be env idx ev cache"
    and "bloom_verdict_for_field be env idx ev cache f = (v, cache')"
  shows "v = bloom_compute be env idx ev f" and "cache_ok be env idx ev cache'"
  using assms
  by (auto simp: bloom_verdict_for_field_def cache_ok_def Let_def split: option.splits if_splits)

text \<open>The verdicts of a sequence of probes of one event.\<close>

fun cached_verdicts ::
    "bloom_env \<Rightarrow> ext_env \<Rightarrow> field_bloom_index \<Rightarrow> event \<Rightarrow> (string \<times> bloom_verdict) list
     \<Rightarrow> string list \<Rightarrow> bloom_verdict list" where
  "cached_verdicts be env idx ev cache [] = []"
| "cached_verdicts be env idx ev cache (f # fs) =
     (case bloom_verdict_for_field be env idx ev cache f of
        (v, cache') \<Rightarrow> v # cached_verdicts be env idx ev cache' fs)"

lemma cached_verdicts_ok:
  "cache_ok be env idx ev cache \<Longrightarrow>
   cached_verdicts be env idx ev cache fs = map (bloom_compute be env idx ev) fs"
proof (induction fs arbitrary: cache)
  case (Cons f fs)
  obtain v cache' where v: "bloom_verdict_for_field be env idx ev cache f = (v, cache')"
    by (meson surj_pair)
  then show ?case using verdict_for_field_ok [OF Cons.prems v] Cons.IH by simp
qed simp

lemma drop_to_budget_le:
  "tot = sum_list (map (\<lambda>b. byte_size (bu_bloom b)) built) \<Longrightarrow>
   sum_list (map (\<lambda>b. byte_size (bu_bloom b)) (drop_to_budget tot max_tot built)) \<le> max_tot"
proof (induction tot max_tot built rule: drop_to_budget.induct)
  case (1 tot max_tot)
  then show ?case by simp
next
  case (2 tot max_tot b built)
  let ?sz = "\<lambda>b. byte_size (bu_bloom b)"
  let ?l = "b # built"
  show ?case
  proof (cases "max_tot < tot")
    case True
    have "sum_list (map ?sz ?l) = sum_list (map ?sz (butlast ?l @ [last ?l]))"
      by (simp only: append_butlast_last_id list.distinct not_False_eq_True)
    then have "tot - ?sz (last ?l) = sum_list (map ?sz (butlast ?l))"
      using 2(2) by (simp only: map_append sum_list_append list.map sum_list.Cons sum_list.Nil)
    from 2(1) [OF True refl this] show ?thesis
      using True by (simp only: drop_to_budget.simps Let_def if_True)
  next
    case False
    then show ?thesis using 2(2) by (simp only: drop_to_budget.simps if_False)
  qed
qed

section \<open>Instances\<close>

definition literal_bloom :: bloom_env where
  "literal_bloom = \<lparr>
     be_ideal_bits = (\<lambda>n. 10 * n),
     be_ideal_hashes = (\<lambda>_ _. 2),
     be_hash = (\<lambda>p s. of_nat (fold (\<lambda>c h. h + of_char c) s p)) \<rparr>"

lemma literal_lower: "to_lowercase literal_env s = map ascii_lower_char s"
  by (simp add: to_lowercase_def literal_env_def)

lemma literal_bloom_laws: "lower_ascii_law literal_env" "ac_sound_law literal_env"
  by (auto simp: lower_ascii_law_def ac_sound_law_def literal_lower contains_str_iff) blast

definition contains_rule :: "string \<Rightarrow> string \<Rightarrow> compiled_rule" where
  "contains_rule field needle =
     sample_rule \<lparr> cru_detections := [(''sel'', CdAllOf [sample_item field (CmContains needle True)])],
                   cru_conditions := [CondIdentifier ''sel''] \<rparr>"

lemma sample_rule_ready: "rule_ready sample_rule" by code_simp

lemma contains_rule_needles:
  "collect_rule_needles (contains_rule f n) [] = [(f, [n])]"
  by (simp add: collect_rule_needles_def contains_rule_def sample_item_def entry_extend_def
      bloom_needle_def)

lemma short_needle_no_filter:
  "length n < 3 \<Longrightarrow> bloom_build be [contains_rule f n] = \<lparr> fbi_filters = [], fbi_rebuild_baseline = 1 \<rparr>"
  by (simp add: bloom_build_def build_with_budget_def contains_rule_needles build_filter_def
      needles_are_representable_def ngram_size_def)

lemma new_filter_four:
  "field_bloom_new literal_bloom 4 =
     Some \<lparr> fb_bits = [0], fb_num_bits = 64, fb_num_hashes = 2 \<rparr>"
  by (simp add: field_bloom_new_def literal_bloom_def min_bits_per_pattern_def div_ceil_def
      max_bytes_per_field_def)

lemma whoami_windows: "windows ngram_size ''whoami'' = [''who'', ''hoa'', ''oam'', ''ami'']"
  by code_simp

lemma whoami_count: "count_unique_trigrams [''whoami''] = 4"
  by code_simp

lemma whoami_insert:
  "insert_needle_trigrams be b ''whoami''
   = fold (\<lambda>w b. insert_trigram be b w) [''who'', ''hoa'', ''oam'', ''ami''] b"
  unfolding insert_needle_trigrams_def whoami_windows by (simp add: ngram_size_def)

lemma whoami_bits:
  "fold (\<lambda>w b. insert_trigram literal_bloom b w) [''who'', ''hoa'', ''oam'', ''ami'']
     \<lparr> fb_bits = [0], fb_num_bits = 64, fb_num_hashes = 2 \<rparr>
   = \<lparr> fb_bits = [0x80004300200A], fb_num_bits = 64, fb_num_hashes = 2 \<rparr>"
  by (simp add: insert_trigram_def upt_conv_Cons probe_pos_def hash_pair_def literal_bloom_def
      set_bloom_bit_def)

lemma whoami_filter:
  "fbi_filters (bloom_append_rule literal_bloom \<lparr> fbi_filters = [], fbi_rebuild_baseline = 1 \<rparr>
     (contains_rule f ''whoami''))
   = [(f, \<lparr> fb_bits = [0x80004300200A], fb_num_bits = 64, fb_num_hashes = 2 \<rparr>)]"
  by (simp add: bloom_append_rule_def contains_rule_needles append_field_def
      needles_are_representable_def whoami_count new_filter_four whoami_insert
      whoami_bits [simplified] ngram_size_def)

lemma short_value_pruned:
  assumes "fbi_filters idx = [(''Cmd'', \<lparr> fb_bits = [0x80004300200A], fb_num_bits = 64, fb_num_hashes = 2 \<rparr>)]"
  shows "bloom_compute literal_bloom literal_env idx (kv_event [(''Cmd'', ''xxabxx'')]) ''Cmd''
    = DefinitelyNoMatch"
proof -
  have "ev_get_field (kv_event [(''Cmd'', ''xxabxx'')]) ''Cmd'' = Some (EvStr ''xxabxx'')"
    by code_simp
  moreover have "windows ngram_size (ascii_lowercase_cow literal_env ''xxabxx'')
      = [''xxa'', ''xab'', ''abx'', ''bxx'']"
    by code_simp
  ultimately show ?thesis
    by (simp add: bloom_compute_def bloom_probe_def assms contains_trigram_def upt_conv_Cons
        probe_pos_def hash_pair_def literal_bloom_def get_bloom_bit_def ngram_size_def
        max_bloom_scan_bytes_def)
qed

lemma literal_evaluation:
  "evaluate_rule literal_env (contains_rule ''Cmd'' ''ab'') (kv_event [(''Cmd'', ''xxabxx'')]) \<noteq> None"
  "bloom ''Cmd'' = DefinitelyNoMatch \<Longrightarrow>
   evaluate_rule_with_bloom literal_env (contains_rule ''Cmd'' ''ab'')
     (kv_event [(''Cmd'', ''xxabxx'')]) bloom MdlOff = None"
proof -
  have g: "ev_get_field (kv_event [(''Cmd'', ''xxabxx'')]) ''Cmd'' = Some (EvStr ''xxabxx'')"
    and h: "contains_str (to_lowercase literal_env ''xxabxx'') ''ab''"
    by code_simp+
  show "evaluate_rule literal_env (contains_rule ''Cmd'' ''ab'') (kv_event [(''Cmd'', ''xxabxx'')]) \<noteq> None"
    unfolding evaluate_rule_def evaluate_rule_with_bloom_def eval_conditions_loop_None
    by (simp add: contains_rule_def sample_item_def eval_detection_item_with_bloom_def g h no_bloom_def)
  show "evaluate_rule_with_bloom literal_env (contains_rule ''Cmd'' ''ab'')
     (kv_event [(''Cmd'', ''xxabxx'')]) bloom MdlOff = None"
    if "bloom ''Cmd'' = DefinitelyNoMatch"
    unfolding evaluate_rule_with_bloom_def eval_conditions_loop_None
    using that by (simp add: contains_rule_def sample_item_def eval_detection_item_with_bloom_def g)
qed

section \<open>Properties\<close>

text \<open>
  C12: Pre-filtering is invisible: with the index built from a rule set under any memory budget and
  any hash function, evaluating a rule of the set returns exactly the result of evaluating it
  without the index (match, selections and recorded fields), at every detail level.
\<close>

theorem bloom_prefilter_exact:
  assumes "lower_ascii_law env" and "ac_sound_law env"
    and "rule \<in> set rules" and "rule_ready rule"
  shows "evaluate_rule_with_bloom env rule ev
      (bloom_compute be env (build_with_budget be rules budget) ev) level
    = evaluate_rule_with_bloom env rule ev no_bloom level"
  by (rule prefilter_exact [OF assms(1,2) build_index_holds assms(4)]) (use assms(3) in auto)

theorem bloom_prefilter_exact_witness:
  "evaluate_rule_with_bloom literal_env sample_rule sample_event
      (bloom_compute literal_bloom literal_env
        (build_with_budget literal_bloom [sample_rule] 1024) sample_event) MdlFull
    = evaluate_rule_with_bloom literal_env sample_rule sample_event no_bloom MdlFull"
  by (rule bloom_prefilter_exact [OF literal_bloom_laws _ sample_rule_ready]) simp

text \<open>
  C31: Appending a rule to an index keeps it exact for the old rules and the new one, provided that
  each field for which the new rule has needles either has a filter or had no needle so far.
\<close>

theorem bloom_append_exact:
  assumes "lower_ascii_law env" and "ac_sound_law env"
    and "append_guard (build_with_budget be rules budget)
           (\<lambda>f. concat (map (rule_needles f) rules)) (\<lambda>f. rule_needles f new)"
    and "rule \<in> set (rules @ [new])" and "rule_ready rule"
  shows "evaluate_rule_with_bloom env rule ev
      (bloom_compute be env (bloom_append_rule be (build_with_budget be rules budget) new) ev) level
    = evaluate_rule_with_bloom env rule ev no_bloom level"
  by (rule prefilter_exact [OF assms(1,2) append_rule_holds [OF build_index_holds assms(3)] assms(5)])
     (use assms(4) in auto)

theorem bloom_append_exact_witness:
  "evaluate_rule_with_bloom literal_env sample_rule sample_event
      (bloom_compute literal_bloom literal_env
        (bloom_append_rule literal_bloom (build_with_budget literal_bloom [] 1024) sample_rule)
        sample_event) MdlFull
    = evaluate_rule_with_bloom literal_env sample_rule sample_event no_bloom MdlFull"
  by (rule bloom_append_exact [OF literal_bloom_laws _ _ sample_rule_ready])
     (simp_all add: append_guard_def)

text \<open>
  Without that proviso the pre-filter loses matches: a rule whose needle is too short for a
  filter matches an event; after appending a rule with a long needle on the same field, the index
  answers DefinitelyNoMatch and the first rule no longer matches.
\<close>

theorem bloom_append_loses_match:
  "evaluate_rule literal_env (contains_rule ''Cmd'' ''ab'') (kv_event [(''Cmd'', ''xxabxx'')]) \<noteq> None
   \<and> evaluate_rule_with_bloom literal_env (contains_rule ''Cmd'' ''ab'')
       (kv_event [(''Cmd'', ''xxabxx'')])
       (bloom_compute literal_bloom literal_env
         (bloom_append_rule literal_bloom (bloom_build literal_bloom [contains_rule ''Cmd'' ''ab''])
           (contains_rule ''Cmd'' ''whoami''))
         (kv_event [(''Cmd'', ''xxabxx'')])) MdlOff = None"
proof -
  have "bloom_build literal_bloom [contains_rule ''Cmd'' ''ab'']
      = \<lparr> fbi_filters = [], fbi_rebuild_baseline = 1 \<rparr>"
    by (rule short_needle_no_filter) simp
  then show ?thesis
    using literal_evaluation short_value_pruned [OF whoami_filter] by simp
qed

text \<open>
  The filters of a built index fit the memory budget.
\<close>

theorem bloom_build_within_budget:
  "sum_list (map (\<lambda>fb. byte_size (snd fb)) (fbi_filters (build_with_budget be rules budget))) \<le> budget"
proof -
  define built where "built = filter_map (build_filter be) (fold collect_rule_needles rules [])"
  define tot where "tot = sum_list (map (\<lambda>b. byte_size (bu_bloom b)) built)"
  have "tot = sum_list (map (\<lambda>b. byte_size (bu_bloom b)) (sort_key (\<lambda>b. f64_neg (density b)) built))"
    unfolding tot_def by (simp only: sum_mset_sum_list [symmetric] mset_map mset_sort)
  from drop_to_budget_le [OF this, of budget] show ?thesis
    unfolding build_with_budget_def Let_def built_def [symmetric] tot_def [symmetric]
    by (simp add: comp_def tot_def)
qed

text \<open>
  The per-event cache is transparent: any sequence of probes through it, starting empty,
  answers what the uncached probes answer.
\<close>

theorem bloom_cache_transparent:
  "cached_verdicts be env idx ev [] names = map (bloom_compute be env idx ev) names"
  by (rule cached_verdicts_ok) (simp add: cache_ok_def)

end
