(* ===== verification/Encoding.thy ===== *)
theory Encoding
  imports Hir Validate
begin

text \<open>
  Encoding modifiers (\<open>rsigma-ir/src/encoding.rs\<close>) and the errors of the lowering
  (\<open>rsigma-ir/src/error.rs\<close>): windash variants, UTF-16 code units, base64 and the three alignments
  of a value inside base64 text.  The lemmas show that the windash variants are exactly the patterns
  with any dash at each dash position, and that base64 of any text around a value contains the
  pattern of the value's alignment.
\<close>

section \<open>Errors\<close>

datatype ir_error =
  IeLowering string
| IeUnknownDetection string
| IeInvalidModifiers string
| IeIncompatibleValue string
| IeExpectedNumeric string
| IeNoSelectorMatches string
| IeCustomAttribute string string
| IeParser sigma_parser_error

section \<open>Windash\<close>

text \<open>The five dash characters as UTF-8: \<open>-\<close>, \<open>/\<close>, and U+2013 to U+2015.\<close>

definition windash_chars :: "string list" where
  "windash_chars =
     [''-'', ''/'', [CHR 0xE2, CHR 0x80, CHR 0x93], [CHR 0xE2, CHR 0x80, CHR 0x94],
      [CHR 0xE2, CHR 0x80, CHR 0x95]]"

definition max_windash_dashes :: nat where "max_windash_dashes = 8"

text \<open>
  \<open>char_indices\<close> filtered to the dash characters.  The encodings of the dashes occur in UTF-8 text
  only at character boundaries.
\<close>

definition dash_at :: "string \<Rightarrow> bool" where
  "dash_at s = list_ex (starts_with s) windash_chars"

text \<open>\<open>text[byte..].chars().next().map_or(1, char::len_utf8)\<close>: the width by the leading byte.\<close>

definition utf8_width :: "string \<Rightarrow> nat" where
  "utf8_width s =
     (case s of [] \<Rightarrow> 1
      | c # _ \<Rightarrow>
          (let b = (of_char c :: nat)
           in if b < 128 then 1 else if b < 224 then 2 else if b < 240 then 3 else 4))"

fun dash_positions :: "nat \<Rightarrow> string \<Rightarrow> nat list" where
  "dash_positions byte [] = []"
| "dash_positions byte (c # cs) =
     (if dash_at (c # cs) then byte # dash_positions (Suc byte) cs
      else dash_positions (Suc byte) cs)"

definition pattern_positions :: "ir_pattern \<Rightarrow> (nat \<times> nat) list" where
  "pattern_positions p =
     concat (map (\<lambda>(i, part).
       case part of IpLiteral text \<Rightarrow> map (Pair i) (dash_positions 0 text) | _ \<Rightarrow> [])
       (enumerate 0 (ip_parts p)))"

definition replace_dash :: "nat \<Rightarrow> string \<Rightarrow> string \<Rightarrow> string" where
  "replace_dash byte replacement text =
     take byte text @ replacement @ drop (byte + utf8_width (drop byte text)) text"

text \<open>One step of the inner loop: the parts and the rest of the combination number.\<close>

definition windash_step ::
    "nat \<times> nat \<Rightarrow> ir_pattern_part list \<times> nat \<Rightarrow> ir_pattern_part list \<times> nat" where
  "windash_step pos state =
     (case pos of (part, byte) \<Rightarrow> case state of (ps, idx) \<Rightarrow>
        ((case ps ! part of
            IpLiteral text \<Rightarrow>
              ps[part := IpLiteral (replace_dash byte (windash_chars ! (idx mod 5)) text)]
          | _ \<Rightarrow> ps),
         idx div 5))"

definition windash_variant :: "ir_pattern \<Rightarrow> nat \<Rightarrow> ir_pattern" where
  "windash_variant p combo =
     \<lparr> ip_parts = fst (fold windash_step (rev (pattern_positions p)) (ip_parts p, combo)) \<rparr>"

text \<open>\<open>5u64.saturating_pow(n)\<close>.\<close>

definition windash_variants :: "ir_pattern \<Rightarrow> ir_error + ir_pattern list" where
  "windash_variants p =
     (let n = length (pattern_positions p) in
      if n = 0 then Inr [p]
      else if max_windash_dashes < n then
        Inl (IeInvalidModifiers
          (''windash modifier: value contains '' @ show_nat n @ '' dash or slash characters, max is ''
           @ show_nat max_windash_dashes @ '' (would generate '' @ show_nat (min u64_max (5 ^ n))
           @ '' variants)''))
      else Inr (map (windash_variant p) [0 ..< 5 ^ n]))"

section \<open>UTF-16\<close>

text \<open>
  \<open>str::chars\<close>: the code points of UTF-8 text.  The bytes the code passes are those of a string,
  so the decoding never meets a malformed sequence.
\<close>

definition cont_bits :: "char \<Rightarrow> nat" where
  "cont_bits c = of_char c mod 64"

fun utf8_chars :: "string \<Rightarrow> nat list" where
  "utf8_chars [] = []"
| "utf8_chars (a # r) =
     (let n = (of_char a :: nat) in
      if n < 128 then n # utf8_chars r
      else case r of
        b # r1 \<Rightarrow>
          if n < 224 then (n mod 32 * 64 + cont_bits b) # utf8_chars r1
          else (case r1 of
            c # r2 \<Rightarrow>
              if n < 240 then (n mod 16 * 4096 + cont_bits b * 64 + cont_bits c) # utf8_chars r2
              else (case r2 of
                d # r3 \<Rightarrow>
                  (n mod 8 * 262144 + cont_bits b * 4096 + cont_bits c * 64 + cont_bits d)
                  # utf8_chars r3
              | [] \<Rightarrow> [])
          | [] \<Rightarrow> [])
      | [] \<Rightarrow> [])"

definition encode_utf16 :: "nat \<Rightarrow> nat list" where
  "encode_utf16 cp =
     (if cp < 65536 then [cp]
      else [55296 + (cp - 65536) div 1024, 56320 + (cp - 65536) mod 1024])"

definition u16_le :: "nat \<Rightarrow> string" where
  "u16_le u = [char_of (u mod 256), char_of (u div 256)]"

definition u16_be :: "nat \<Rightarrow> string" where
  "u16_be u = [char_of (u div 256), char_of (u mod 256)]"

definition to_utf16le_bytes :: "string \<Rightarrow> string" where
  "to_utf16le_bytes s = concat (map u16_le (concat (map encode_utf16 (utf8_chars s))))"

definition to_utf16be_bytes :: "string \<Rightarrow> string" where
  "to_utf16be_bytes s = concat (map u16_be (concat (map encode_utf16 (utf8_chars s))))"

definition to_utf16_bom_bytes :: "string \<Rightarrow> string" where
  "to_utf16_bom_bytes s = [CHR 0xFF, CHR 0xFE] @ to_utf16le_bytes s"

text \<open>
  \<open>utf16_pattern\<close> interleaves a zero byte with every character.  The lowering rejects patterns
  with non-ASCII literals here, so a character is a byte; U+FEFF is its UTF-8 encoding.
\<close>

definition nul :: char where "nul = CHR 0x00"

fun utf16_part :: "ir_encoding \<Rightarrow> ir_pattern_part \<Rightarrow> ir_pattern_part" where
  "utf16_part encoding (IpLiteral text) =
     IpLiteral (concat (map (\<lambda>c. if encoding = EncUtf16Be then [nul, c] else [c, nul]) text))"
| "utf16_part encoding other = other"

definition utf16_pattern :: "ir_encoding \<Rightarrow> ir_pattern \<Rightarrow> ir_pattern" where
  "utf16_pattern encoding p =
     \<lparr> ip_parts =
         (if encoding = EncUtf16 then [IpLiteral [CHR 0xEF, CHR 0xBB, CHR 0xBF]] else [])
         @ map (utf16_part encoding) (ip_parts p) \<rparr>"

section \<open>Base64\<close>

definition b64_start :: "nat \<Rightarrow> nat" where "b64_start offset = [0, 2, 3] ! offset"
definition b64_end_trim :: "nat \<Rightarrow> nat" where "b64_end_trim r = [0, 3, 2] ! r"

definition base64_offset_pattern :: "ext_env \<Rightarrow> string \<Rightarrow> nat \<Rightarrow> string option" where
  "base64_offset_pattern env v offset =
     (let encoded = base64_encode env (replicate offset nul @ v);
          end_at = length encoded - b64_end_trim ((length v + offset) mod 3)
      in if b64_start offset < end_at
         then Some (drop (b64_start offset) (take end_at encoded)) else None)"

definition base64_offset_patterns :: "ext_env \<Rightarrow> string \<Rightarrow> string list" where
  "base64_offset_patterns env v = filter_map (base64_offset_pattern env v) [0, 1, 2]"

section \<open>Expansion\<close>

definition is_utf16_encoding :: "ir_encoding \<Rightarrow> bool" where
  "is_utf16_encoding e = (e = EncWide \<or> e = EncUtf16 \<or> e = EncUtf16Be)"

definition is_base64_encoding :: "ir_encoding \<Rightarrow> bool" where
  "is_base64_encoding e = (e = EncBase64 \<or> e = EncBase64Offset)"

definition encoded_literal :: "string \<Rightarrow> ir_pattern" where
  "encoded_literal text = \<lparr> ip_parts = [IpLiteral text] \<rparr>"

definition utf16_bytes :: "ir_encoding option \<Rightarrow> string \<Rightarrow> string" where
  "utf16_bytes utf16 plain =
     (case utf16 of
        Some EncWide \<Rightarrow> to_utf16le_bytes plain
      | Some EncUtf16Be \<Rightarrow> to_utf16be_bytes plain
      | Some EncUtf16 \<Rightarrow> to_utf16_bom_bytes plain
      | _ \<Rightarrow> plain)"

definition expand_variant ::
    "ext_env \<Rightarrow> ir_encoding option \<Rightarrow> ir_encoding option \<Rightarrow> ir_str_op \<Rightarrow> ir_pattern
     \<Rightarrow> ir_error + (ir_str_op \<times> ir_pattern) list" where
  "expand_variant env utf16 base64 op variant =
     (case base64 of
        None \<Rightarrow>
          Inr [(op, case utf16 of Some e \<Rightarrow> utf16_pattern e variant | None \<Rightarrow> variant)]
      | Some b64 \<Rightarrow>
          (case ir_pattern_as_plain variant of
             None \<Rightarrow> Inl (IeInvalidModifiers ''|base64 and |base64offset do not support wildcards'')
           | Some plain \<Rightarrow>
               (let bytes = utf16_bytes utf16 plain
                in if b64 = EncBase64
                   then Inr [(op, encoded_literal (base64_encode env bytes))]
                   else Inr (map (\<lambda>p. (OpContains, encoded_literal p))
                               (base64_offset_patterns env bytes)))))"

definition expand_encoded ::
    "ext_env \<Rightarrow> ir_encoding list \<Rightarrow> ir_str_op \<Rightarrow> ir_pattern
     \<Rightarrow> ir_error + (ir_str_op \<times> ir_pattern) list" where
  "expand_encoded env encodings op pattern =
     result_bind (if EncWindash \<in> set encodings then windash_variants pattern else Inr [pattern])
       (\<lambda>variants. result_map concat
          (collect_results
             (expand_variant env (find is_utf16_encoding encodings)
                (find is_base64_encoding encodings) op) variants))"

text \<open>
  \<open>expand_encoded_matcher\<close> and \<open>expand_detection\<close> rewrite in place; the value is the rewritten
  tree, or the first error.
\<close>

definition str_variants :: "bool \<Rightarrow> (ir_str_op \<times> ir_pattern) list \<Rightarrow> ir_matcher" where
  "str_variants ci variants =
     (case map (\<lambda>(op, p). ImStr op p ci) variants of [m] \<Rightarrow> m | ms \<Rightarrow> ImAnyOf ms)"

fun expand_encoded_matcher :: "ext_env \<Rightarrow> ir_matcher \<Rightarrow> ir_error + ir_matcher" where
  "expand_encoded_matcher env (ImEncoded encodings op pattern ci) =
     result_map (str_variants ci) (expand_encoded env encodings op pattern)"
| "expand_encoded_matcher env (ImNot inner) = result_map ImNot (expand_encoded_matcher env inner)"
| "expand_encoded_matcher env (ImTimestampPart part inner) =
     result_map (ImTimestampPart part) (expand_encoded_matcher env inner)"
| "expand_encoded_matcher env (ImAnyOf ms) =
     result_map ImAnyOf (collect_results (expand_encoded_matcher env) ms)"
| "expand_encoded_matcher env (ImAllOf ms) =
     result_map ImAllOf (collect_results (expand_encoded_matcher env) ms)"
| "expand_encoded_matcher env m = Inr m"

definition expand_item :: "ext_env \<Rightarrow> ir_detection_item \<Rightarrow> ir_error + ir_detection_item" where
  "expand_item env item =
     result_map (\<lambda>m. item \<lparr> idi_matcher := m \<rparr>) (expand_encoded_matcher env (idi_matcher item))"

fun expand_detection :: "ext_env \<Rightarrow> ir_detection \<Rightarrow> ir_error + ir_detection" where
  "expand_detection env (IdAllOf items) =
     result_map IdAllOf (collect_results (expand_item env) items)"
| "expand_detection env (IdAnyOf dets) =
     result_map IdAnyOf (collect_results (expand_detection env) dets)"
| "expand_detection env (IdAnd dets) =
     result_map IdAnd (collect_results (expand_detection env) dets)"
| "expand_detection env (IdKeywords m) = result_map IdKeywords (expand_encoded_matcher env m)"
| "expand_detection env (IdArrayMatch field q body) =
     result_map (IdArrayMatch field q) (expand_detection env body)"
| "expand_detection env (IdConditional named condition) =
     result_map (\<lambda>n. IdConditional n condition) (collect_values (expand_detection env) named)"

definition expand_encoded_detections ::
    "ext_env \<Rightarrow> (string \<times> ir_detection) list \<Rightarrow> ir_error + (string \<times> ir_detection) list" where
  "expand_encoded_detections env detections = collect_values (expand_detection env) detections"

section \<open>Base64 of a value in a longer text\<close>

lemma length_base64_digits [simp]: "length (base64_digits k n) = k"
  by (simp add: base64_digits_def)

lemma nth_base64_digits [simp]:
  "i < k \<Longrightarrow> base64_digits k n ! i = base64_char (n div 64 ^ (3 - i) mod 64)"
  by (simp add: base64_digits_def)

lemma length_rfc4648: "length (rfc4648 x) = 4 * ((length x + 2) div 3)"
proof (induction x rule: rfc4648.induct)
  case (4 a b c r)
  have "(length (a # b # c # r) + 2) div 3 = (length r + 2 + 1 * 3) div 3" by simp
  also have "\<dots> = (length r + 2) div 3 + 1" by (subst div_mult_self1) simp_all
  finally show ?case using 4 by (simp del: div_add_self1 div_add_self2)
qed simp_all

lemma rfc4648_append: "length p mod 3 = 0 \<Longrightarrow> rfc4648 (p @ r) = rfc4648 p @ rfc4648 r"
  by (induction p rule: rfc4648.induct) (simp_all add: mod_Suc split: if_splits)

text \<open>The six bits a full digit of the encoding stands for; they lie in at most two bytes.\<close>

definition byte_at :: "string \<Rightarrow> nat \<Rightarrow> nat" where
  "byte_at x i = of_char (x ! i)"

definition sextet :: "string \<Rightarrow> nat \<Rightarrow> nat" where
  "sextet x i =
     (let g = 3 * (i div 4) in
      if i mod 4 = 0 then byte_at x g div 4
      else if i mod 4 = 1 then byte_at x g mod 4 * 16 + byte_at x (g + 1) div 16
      else if i mod 4 = 2 then byte_at x (g + 1) mod 16 * 4 + byte_at x (g + 2) div 64
      else byte_at x (g + 2) mod 64)"

lemma group_digits:
  fixes a b c :: nat
  assumes a: "a < 256" and b: "b < 256" and c: "c < 256"
  shows "(a * 65536 + b * 256 + c) div 262144 mod 64 = a div 4"
    and "(a * 65536 + b * 256 + c) div 4096 mod 64 = a mod 4 * 16 + b div 16"
    and "(a * 65536 + b * 256 + c) div 64 mod 64 = b mod 16 * 4 + c div 64"
    and "(a * 65536 + b * 256 + c) mod 64 = c mod 64"
proof -
  define x where "x = a * 65536 + b * 256 + c"
  have x256: "x div 256 = a * 256 + b" using c by (simp add: x_def)
  have "x div 65536 = x div 256 div 256" by (simp flip: div_mult2_eq)
  also have "\<dots> = a" using b by (simp add: x256)
  finally have x65536: "x div 65536 = a" .
  have "x div 262144 = x div 65536 div 4" by (simp flip: div_mult2_eq)
  then have "x div 262144 = a div 4" by (simp add: x65536)
  then show "(a * 65536 + b * 256 + c) div 262144 mod 64 = a div 4" using a by (simp add: x_def)
  have "x div 4096 = x div 256 div 16" by (simp flip: div_mult2_eq)
  then have "x div 4096 = a * 16 + b div 16" by (simp add: x256)
  moreover have "(a * 16 + y) mod 64 = a mod 4 * 16 + y" if "y < 16" for y
    using that mod_mult2_eq [of "a * 16 + y" 16 4] by simp
  ultimately show "(a * 65536 + b * 256 + c) div 4096 mod 64 = a mod 4 * 16 + b div 16"
    using b by (simp add: x_def)
  have "x div 64 = a * 1024 + b * 4 + c div 64" by (simp add: x_def)
  moreover have "(a * 1024 + b * 4 + y) mod 64 = b mod 16 * 4 + y" if "y < 4" for y
  proof -
    have "a * 1024 + b * 4 + y = (a * 256 + b) * 4 + y" by simp
    then have "(a * 1024 + b * 4 + y) div 4 = a * 256 + b"
      and "(a * 1024 + b * 4 + y) mod 4 = y"
      using that div_mult_self3 [of 4 "a * 256 + b" y] mod_mult_self3 [of "a * 256 + b" 4 y]
      by (simp_all only: div_less mod_less)
    moreover have "(a * 256 + b) mod 16 = b mod 16"
      using mod_mult_self2 [of b 16 "a * 16"] by (simp add: algebra_simps)
    ultimately show ?thesis
      using mod_mult2_eq [of "a * 1024 + b * 4 + y" 4 16] by simp
  qed
  ultimately show "(a * 65536 + b * 256 + c) div 64 mod 64 = b mod 16 * 4 + c div 64"
    using c by (simp add: x_def)
  have "(a * 65536 + b * 256 + c) mod 64 = (c + (a * 1024 + b * 4) * 64) mod 64"
    by (simp add: algebra_simps)
  then show "(a * 65536 + b * 256 + c) mod 64 = c mod 64" by (metis mod_mult_self1)
qed

lemma sextet_cons: "sextet (a # b # c # r) (i + 4) = sextet r i"
proof -
  have bytes: "byte_at (a # b # c # r) (n + 3) = byte_at r n"
    "byte_at (a # b # c # r) (n + 3 + 1) = byte_at r (n + 1)"
    "byte_at (a # b # c # r) (n + 3 + 2) = byte_at r (n + 2)" for n
    by (simp_all add: byte_at_def numeral_3_eq_3)
  have "3 * ((i + 4) div 4) = 3 * (i div 4) + 3" and "(i + 4) mod 4 = i mod 4" by simp_all
  then show ?thesis unfolding sextet_def Let_def by (simp only: bytes)
qed

lemma nth_rfc4648: "6 * i + 5 < 8 * length x \<Longrightarrow> rfc4648 x ! i = base64_char (sextet x i)"
proof (induction x arbitrary: i rule: rfc4648.induct)
  case 1
  then show ?case by simp
next
  case (2 a)
  then have "i = 0" by simp
  with group_digits(1) [OF of_char_lt_256 [of a], of 0 0] show ?case
    by (simp add: sextet_def byte_at_def nth_append)
next
  case (3 a b)
  then have "i = 0 \<or> i = 1" by auto
  with group_digits [OF of_char_lt_256 [of a] of_char_lt_256 [of b], of 0] show ?case
    by (auto simp: sextet_def byte_at_def nth_append)
next
  case (4 a b c r)
  note digits = group_digits [OF of_char_lt_256 [of a] of_char_lt_256 [of b] of_char_lt_256 [of c]]
  show ?case
  proof (cases "i < 4")
    case True
    then have "i = 0 \<or> i = 1 \<or> i = 2 \<or> i = 3" by auto
    with digits show ?thesis
      by (auto simp: sextet_def byte_at_def nth_append)
  next
    case False
    then obtain j where j: "i = j + 4" by (metis add.commute le_Suc_ex not_less)
    have "rfc4648 (a # b # c # r) ! i = rfc4648 r ! j"
      by (simp add: j nth_append)
    with 4 show ?thesis by (simp add: j sextet_cons del: rfc4648.simps)
  qed
qed

lemma sextet_agree:
  assumes lo: "8 * lo \<le> 6 * i" and hi: "6 * i + 5 < 8 * hi"
    and same: "\<And>j. lo \<le> j \<Longrightarrow> j < hi \<Longrightarrow> x ! j = y ! j"
  shows "sextet x i = sextet y i"
proof -
  obtain q r where i: "i = 4 * q + r" and r: "r < 4"
    by (metis mod_less_divisor mult_div_mod_eq zero_less_numeral)
  have div: "i div 4 = q" and mod: "i mod 4 = r" using r by (simp_all add: i)
  have byte: "byte_at x j = byte_at y j" if "lo \<le> j" "j < hi" for j
    using same [OF that] by (simp add: byte_at_def)
  from r consider "r = 0" | "r = 1" | "r = 2" | "r = 3" by linarith
  then show ?thesis
  proof cases
    case 1
    then have "byte_at x (3 * q) = byte_at y (3 * q)" using lo hi by (intro byte) (simp_all add: i)
    with 1 show ?thesis by (simp add: sextet_def Let_def div mod)
  next
    case 2
    then have "byte_at x (3 * q) = byte_at y (3 * q)"
      and "byte_at x (3 * q + 1) = byte_at y (3 * q + 1)"
      using lo hi by (intro byte; simp add: i)+
    with 2 show ?thesis by (simp add: sextet_def Let_def div mod)
  next
    case 3
    then have "byte_at x (3 * q + 1) = byte_at y (3 * q + 1)"
      and "byte_at x (3 * q + 2) = byte_at y (3 * q + 2)"
      using lo hi by (intro byte; simp add: i)+
    with 3 show ?thesis by (simp add: sextet_def Let_def div mod)
  next
    case 4
    then have "byte_at x (3 * q + 2) = byte_at y (3 * q + 2)"
      using lo hi by (intro byte) (simp_all add: i)
    with 4 show ?thesis by (simp add: sextet_def Let_def div mod)
  qed
qed

text \<open>The bounds of the stable part: every digit in it stands for bytes of the value only.\<close>

lemma stable_digit:
  assumes "i < 4 * ((n + 2) div 3) - b64_end_trim (n mod 3)"
  shows "6 * i + 5 < 8 * n"
proof -
  obtain k m where n: "n = 3 * k + m" and m: "m < 3"
    by (metis mod_less_divisor mult_div_mod_eq zero_less_numeral)
  have "(n + 2) div 3 = k + (m + 2) div 3" and "n mod 3 = m"
    using m div_mult_self2 [of 3 "m + 2" k] by (simp_all add: n add.commute)
  with assms have i: "i < 4 * (k + (m + 2) div 3) - b64_end_trim m" by simp
  from m consider "m = 0" | "m = 1" | "m = 2" by linarith
  then show ?thesis
    using i by cases (simp_all add: n b64_end_trim_def)
qed

lemma stable_start: "p < 3 \<Longrightarrow> b64_start p \<le> i \<Longrightarrow> 8 * p \<le> 6 * i"
  by (auto simp: b64_start_def less_Suc_eq numeral_3_eq_3)

lemma slice_eq:
  assumes "n \<le> length xs" "n \<le> length ys" "\<And>i. m \<le> i \<Longrightarrow> i < n \<Longrightarrow> xs ! i = ys ! i"
  shows "drop m (take n xs) = drop m (take n ys)"
  using assms by (intro nth_equalityI) (auto simp: nth_append)

lemma contains_slice: "contains_str s (drop m (take n s))"
proof -
  have "s = take m (take n s) @ drop m (take n s) @ drop n s"
    by (metis append.assoc append_take_drop_id)
  then show ?thesis by (auto simp: contains_str_iff)
qed

lemma offset_pattern_found:
  assumes law: "base64_law env" and p: "base64_offset_pattern env v (length pre mod 3) = Some p"
  shows "contains_str (base64_encode env (pre @ v @ suf)) p"
proof -
  define k where "k = length pre mod 3"
  define q where "q = take (length pre - k) pre"
  define r where "r = drop (length pre - k) pre"
  have k: "k < 3" "k \<le> length pre" by (simp_all add: k_def)
  have pre: "pre = q @ r" and r: "length r = k" and q: "length q mod 3 = 0"
    using k by (simp_all add: q_def r_def) (simp add: k_def flip: minus_mod_eq_div_mult)
  define x where "x = replicate k nul @ v"
  define y where "y = r @ v @ suf"
  define e where "e = length (rfc4648 x) - b64_end_trim ((length v + k) mod 3)"
  have e: "e = 4 * ((length x + 2) div 3) - b64_end_trim (length x mod 3)"
    by (simp add: e_def x_def length_rfc4648 add.commute)
  have p: "p = drop (b64_start k) (take e (rfc4648 x))"
    using p law by (simp add: base64_offset_pattern_def base64_law_def Let_def e_def x_def k_def
        split: if_splits)
  have len: "length x \<le> length y" by (simp add: x_def y_def r)
  have "rfc4648 x ! i = rfc4648 y ! i" if "b64_start k \<le> i" "i < e" for i
  proof -
    have i: "6 * i + 5 < 8 * length x" using that(2) unfolding e by (rule stable_digit)
    have "x ! j = y ! j" if "k \<le> j" "j < length x" for j
    proof -
      from that have "j - k < length v" by (simp add: x_def)
      with that show ?thesis by (simp add: x_def y_def nth_append r)
    qed
    then have "sextet x i = sextet y i"
      by (rule sextet_agree [OF stable_start [OF k(1) that(1)] i])
    with i len show ?thesis by (simp add: nth_rfc4648)
  qed
  moreover have "e \<le> length (rfc4648 x)" by (simp add: e_def)
  moreover have "length (rfc4648 x) \<le> length (rfc4648 y)"
    using len by (simp add: length_rfc4648 div_le_mono)
  ultimately have "p = drop (b64_start k) (take e (rfc4648 y))"
    unfolding p by (intro slice_eq) simp_all
  then have "contains_str (rfc4648 y) p" by (simp add: contains_slice)
  moreover have "base64_encode env (pre @ v @ suf) = rfc4648 q @ rfc4648 y"
    using law q by (simp add: base64_law_def pre y_def rfc4648_append)
  ultimately show ?thesis by (auto simp: contains_str_iff) (metis append.assoc)
qed

lemma offset_pattern_exists:
  assumes law: "base64_law env" and v: "2 \<le> length v" and k: "k < 3"
  shows "base64_offset_pattern env v k \<noteq> None"
proof -
  obtain j m where n: "length v + k = 3 * j + m" and m: "m < 3"
    by (metis mod_less_divisor mult_div_mod_eq zero_less_numeral)
  have d: "(length v + k + 2) div 3 = j + (m + 2) div 3" and r: "(length v + k) mod 3 = m"
    unfolding n using m div_mult_self2 [of 3 "m + 2" j] by (simp_all add: add.commute)
  from k have k': "k = 0 \<or> k = 1 \<or> k = 2" by linarith
  from m consider "m = 0" | "m = 1" | "m = 2" by linarith
  then have "b64_start k < 4 * (j + (m + 2) div 3) - b64_end_trim m"
    using k' v n by cases (auto simp: b64_start_def b64_end_trim_def)
  then have "b64_start k < 4 * ((length v + k + 2) div 3) - b64_end_trim ((length v + k) mod 3)"
    unfolding d r .
  then show ?thesis
    using law by (simp add: base64_offset_pattern_def base64_law_def length_rfc4648 Let_def
        add.commute add.left_commute)
qed

section \<open>The windash variants\<close>

text \<open>
  The specification: a variant of a text has the same characters, except that any dash may stand
  where the text has a dash; a variant of a pattern keeps its wildcards.
\<close>

inductive dash_variant :: "string \<Rightarrow> string \<Rightarrow> bool" where
  Empty: "dash_variant [] []"
| Keep: "\<not> dash_at (c # s) \<Longrightarrow> dash_variant s t \<Longrightarrow> dash_variant (c # s) (c # t)"
| Dash: "d \<in> set windash_chars \<Longrightarrow> e \<in> set windash_chars \<Longrightarrow> dash_variant s t
         \<Longrightarrow> dash_variant (d @ s) (e @ t)"

fun part_variant :: "ir_pattern_part \<Rightarrow> ir_pattern_part \<Rightarrow> bool" where
  "part_variant (IpLiteral s) (IpLiteral t) = dash_variant s t"
| "part_variant p q = (p = q)"

lemma windash_chars_cases:
  assumes "d \<in> set windash_chars"
  obtains "d = ''-''" | "d = ''/''" | x where "d = [CHR 0xE2, CHR 0x80, x]"
    and "x \<in> {CHR 0x93, CHR 0x94, CHR 0x95}"
  using assms by (auto simp: windash_chars_def)

lemma dash_at_iff: "dash_at s \<longleftrightarrow> (\<exists>d \<in> set windash_chars. \<exists>r. s = d @ r)"
  by (auto simp: dash_at_def list_ex_iff starts_with_iff)

lemma dash_width: "d \<in> set windash_chars \<Longrightarrow> utf8_width (d @ r) = length d"
  by (erule windash_chars_cases) (auto simp: utf8_width_def)

lemma not_dash_80: "\<not> dash_at (CHR 0x80 # s)" and not_dash_9x:
  "x \<in> {CHR 0x93, CHR 0x94, CHR 0x95} \<Longrightarrow> \<not> dash_at (x # s)"
  by (auto simp: dash_at_iff windash_chars_def)

lemma dash_positions_dash:
  assumes "d \<in> set windash_chars"
  shows "dash_positions b (d @ r) = b # dash_positions (b + length d) r"
proof -
  have "dash_at (d @ r)" using assms by (auto simp: dash_at_iff)
  with assms show ?thesis
    by (cases rule: windash_chars_cases) (auto simp: not_dash_80 not_dash_9x)
qed

lemma dash_induct [case_names Empty Keep Dash]:
  assumes "P []"
    and "\<And>c s. \<not> dash_at (c # s) \<Longrightarrow> P s \<Longrightarrow> P (c # s)"
    and "\<And>d s. d \<in> set windash_chars \<Longrightarrow> P s \<Longrightarrow> P (d @ s)"
  shows "P s"
proof (induction "length s" arbitrary: s rule: less_induct)
  case less
  show ?case
  proof (cases s)
    case Nil
    with assms(1) show ?thesis by simp
  next
    case (Cons c cs)
    show ?thesis
    proof (cases "dash_at s")
      case True
      then obtain d r where d: "d \<in> set windash_chars" "s = d @ r" by (auto simp: dash_at_iff)
      then have "d \<noteq> []" by (auto simp: windash_chars_def)
      with d less have "P r" by simp
      with d assms(3) show ?thesis by simp
    next
      case False
      with less Cons assms(2) show ?thesis by simp
    qed
  qed
qed

text \<open>The loop on one text, and its value from the front: what is left of the number is carried.\<close>

definition text_step :: "nat \<Rightarrow> string \<times> nat \<Rightarrow> string \<times> nat" where
  "text_step byte state =
     (replace_dash byte (windash_chars ! (snd state mod 5)) (fst state), snd state div 5)"

lemma text_step_pair:
  "text_step byte (s, idx) = (replace_dash byte (windash_chars ! (idx mod 5)) s, idx div 5)"
  by (simp add: text_step_def)

lemma length_windash_chars [simp]: "length windash_chars = 5"
  by (simp add: windash_chars_def)

lemma replace_dash_at:
  "d \<in> set windash_chars \<Longrightarrow> replace_dash (length pre) e (pre @ d @ s) = pre @ e @ s"
  by (simp add: replace_dash_def dash_width)

lemma text_loop_sound:
  "\<exists>t. dash_variant s t \<and> foldr text_step (dash_positions (length pre) s) (pre @ s, idx)
      = (pre @ t, idx div 5 ^ length (dash_positions (length pre) s))"
proof (induction s arbitrary: pre idx rule: dash_induct)
  case Empty
  then show ?case by (auto intro: dash_variant.Empty)
next
  case (Keep c s)
  from Keep(2) [of "pre @ [c]" idx] Keep(1) show ?case
    by (auto intro: dash_variant.Keep)
next
  case (Dash d s)
  let ?n = "length (dash_positions (length pre + length d) s)"
  from Dash(2) [of "pre @ d" idx] obtain t where t: "dash_variant s t"
    "foldr text_step (dash_positions (length pre + length d) s) (pre @ d @ s, idx)
      = (pre @ d @ t, idx div 5 ^ ?n)"
    by auto
  define e where "e = windash_chars ! (idx div 5 ^ ?n mod 5)"
  have "e \<in> set windash_chars" by (simp add: e_def)
  with Dash(1) t(1) have "dash_variant (d @ s) (e @ t)" by (intro dash_variant.Dash)
  moreover have "idx div 5 ^ ?n div 5 = idx div 5 ^ Suc ?n"
    by (metis div_mult2_eq mult.commute power_Suc)
  ultimately show ?case
    using Dash(1) t(2)
    by (auto simp: dash_positions_dash text_step_pair replace_dash_at e_def)
qed

lemma dash_positions_shift:
  "length (dash_positions b s) = length (dash_positions 0 s)"
proof -
  have "length (dash_positions b s) = length (dash_positions b' s)" for b b'
    by (induction s arbitrary: b b') (auto simp: Let_def)
  then show ?thesis .
qed

lemma text_loop_complete:
  assumes "dash_variant s t"
  shows "\<exists>m < 5 ^ length (dash_positions b s). \<forall>pre j. length pre = b \<longrightarrow>
    foldr text_step (dash_positions b s) (pre @ s, j * 5 ^ length (dash_positions b s) + m)
      = (pre @ t, j)"
  using assms
proof (induction arbitrary: b)
  case Empty
  then show ?case by simp
next
  case (Keep c s t)
  from Keep.IH [of "Suc b"] obtain m where m: "m < 5 ^ length (dash_positions (Suc b) s)"
    "\<And>pre j. length pre = Suc b \<Longrightarrow> foldr text_step (dash_positions (Suc b) s)
        (pre @ s, j * 5 ^ length (dash_positions (Suc b) s) + m) = (pre @ t, j)"
    by blast
  from m(2) [of "pre @ [c]" for pre] m(1) Keep.hyps(1) show ?case by auto
next
  case (Dash d e s t)
  define n where "n = length (dash_positions (b + length d) s)"
  from Dash.IH [of "b + length d"] obtain m where m: "m < 5 ^ n"
    "\<And>pre j. length pre = b + length d \<Longrightarrow>
       foldr text_step (dash_positions (b + length d) s) (pre @ s, j * 5 ^ n + m) = (pre @ t, j)"
    unfolding n_def by blast
  from Dash.hyps(2) obtain i where i: "i < 5" "e = windash_chars ! i"
    by (metis in_set_conv_nth length_windash_chars)
  have bound: "i * 5 ^ n + m < 5 ^ Suc n"
  proof -
    have "i * 5 ^ n + m < Suc i * 5 ^ n" using m(1) by simp
    also have "\<dots> \<le> 5 * 5 ^ n" using i(1) by (intro mult_le_mono1) simp
    finally show ?thesis by simp
  qed
  have "foldr text_step (dash_positions b (d @ s)) (pre @ d @ s, j * 5 ^ Suc n + (i * 5 ^ n + m))
      = (pre @ e @ t, j)" if "length pre = b" for pre j
  proof -
    have split: "j * 5 ^ Suc n + (i * 5 ^ n + m) = (j * 5 + i) * 5 ^ n + m"
      by (simp add: algebra_simps)
    show ?thesis
      unfolding split using m(2) [of "pre @ d" "j * 5 + i"] that Dash.hyps(1) i
      by (auto simp: dash_positions_dash text_step_pair replace_dash_at)
  qed
  with bound show ?case
    using Dash.hyps(1) by (auto simp: dash_positions_dash n_def [symmetric])
qed

text \<open>The same for the parts of a pattern, whose positions carry the index of their part.\<close>

definition positions_from :: "nat \<Rightarrow> ir_pattern_part list \<Rightarrow> (nat \<times> nat) list" where
  "positions_from n ps = concat (map (\<lambda>(i, part).
     case part of IpLiteral text \<Rightarrow> map (Pair i) (dash_positions 0 text) | _ \<Rightarrow> []) (enumerate n ps))"

lemma positions_from_simps [simp]:
  "positions_from n [] = []"
  "positions_from n (IpLiteral t # ps) =
     map (Pair n) (dash_positions 0 t) @ positions_from (Suc n) ps"
  "\<not> is_ip_literal p \<Longrightarrow> positions_from n (p # ps) = positions_from (Suc n) ps"
  by (auto simp: positions_from_def split: ir_pattern_part.splits)

lemma part_loop:
  "foldr windash_step (map (Pair (length pre)) bytes) (pre @ IpLiteral s # r, idx)
   = (let x = foldr text_step bytes (s, idx) in (pre @ IpLiteral (fst x) # r, snd x))"
  by (induction bytes) (auto simp: windash_step_def text_step_def Let_def)

lemma pattern_loop_sound:
  "\<exists>qs. list_all2 part_variant ps qs
     \<and> fst (foldr windash_step (positions_from (length pre) ps) (pre @ ps, idx)) = pre @ qs"
proof (induction ps arbitrary: pre)
  case Nil
  then show ?case by simp
next
  case (Cons p ps)
  from Cons.IH [of "pre @ [p]"] obtain qs where qs: "list_all2 part_variant ps qs"
    "fst (foldr windash_step (positions_from (Suc (length pre)) ps) (pre @ p # ps, idx))
      = pre @ p # qs"
    by auto
  then obtain idx' where fold:
    "foldr windash_step (positions_from (Suc (length pre)) ps) (pre @ p # ps, idx)
      = (pre @ p # qs, idx')"
    by (metis prod.collapse)
  show ?case
  proof (cases p)
    case (IpLiteral s)
    from text_loop_sound [of s "[]" idx'] obtain t where "dash_variant s t"
      "fst (foldr text_step (dash_positions 0 s) (s, idx')) = t"
      by auto
    with fold qs(1) IpLiteral show ?thesis
      by (intro exI [of _ "IpLiteral t # qs"]) (simp add: part_loop Let_def)
  qed (use fold qs in \<open>auto intro!: exI [of _ "p # qs"]\<close>)
qed

lemma pattern_loop_complete:
  assumes "list_all2 part_variant ps qs"
  shows "\<exists>m < 5 ^ length (positions_from n ps). \<forall>pre j. length pre = n \<longrightarrow>
    foldr windash_step (positions_from n ps)
      (pre @ ps, j * 5 ^ length (positions_from n ps) + m) = (pre @ qs, j)"
  using assms
proof (induction arbitrary: n rule: list_all2_induct)
  case Nil
  then show ?case by simp
next
  case (Cons p ps q qs)
  define k where "k = length (positions_from (Suc n) ps)"
  from Cons.IH [of "Suc n"] obtain m where m: "m < 5 ^ k"
    "\<And>pre j. length pre = Suc n \<Longrightarrow>
       foldr windash_step (positions_from (Suc n) ps) (pre @ ps, j * 5 ^ k + m) = (pre @ qs, j)"
    unfolding k_def by blast
  show ?case
  proof (cases p)
    case (IpLiteral s)
    with Cons.hyps(1) obtain t where q: "q = IpLiteral t" and "dash_variant s t"
      by (cases q) auto
    define l where "l = length (dash_positions 0 s)"
    from text_loop_complete [OF \<open>dash_variant s t\<close>, of 0] obtain i where i: "i < 5 ^ l"
      "\<And>j. foldr text_step (dash_positions 0 s) (s, j * 5 ^ l + i) = (t, j)"
      unfolding l_def by auto
    have "Suc i * 5 ^ k \<le> 5 ^ l * 5 ^ k" using i(1) by (intro mult_le_mono1) simp
    with m(1) have bound: "i * 5 ^ k + m < 5 ^ (l + k)" by (simp add: power_add)
    have "foldr windash_step (positions_from n (p # ps))
        (pre @ p # ps, j * 5 ^ (l + k) + (i * 5 ^ k + m)) = (pre @ q # qs, j)"
      if "length pre = n" for pre j
    proof -
      have split: "j * 5 ^ (l + k) + (i * 5 ^ k + m) = (j * 5 ^ l + i) * 5 ^ k + m"
        by (simp add: algebra_simps power_add)
      show ?thesis
        unfolding split using m(2) [of "pre @ [p]" "j * 5 ^ l + i"] that
          part_loop [of pre "dash_positions 0 s" s qs "j * 5 ^ l + i"] i(2)
        by (simp add: IpLiteral q Let_def)
    qed
    moreover have "length (positions_from n (p # ps)) = l + k" by (simp add: IpLiteral l_def k_def)
    ultimately show ?thesis using bound by (metis (no_types, lifting))
  next
    case IpWildcardMulti
    with Cons.hyps(1) m(1) m(2) [of "pre @ [p]" for pre] show ?thesis by (auto simp: k_def)
  next
    case IpWildcardSingle
    with Cons.hyps(1) m(1) m(2) [of "pre @ [p]" for pre] show ?thesis by (auto simp: k_def)
  qed
qed

lemma windash_variants_exact:
  assumes "windash_variants p = Inr vs"
  shows "ip_parts ` set vs = {qs. list_all2 part_variant (ip_parts p) qs}"
    and "length vs = 5 ^ length (pattern_positions p)"
    and "length (pattern_positions p) \<le> max_windash_dashes"
proof -
  define n where "n = length (pattern_positions p)"
  have pos: "pattern_positions p = positions_from (length ([] :: ir_pattern_part list)) (ip_parts p)"
    by (simp add: pattern_positions_def positions_from_def)
  have loop: "ip_parts (windash_variant p idx)
      = fst (foldr windash_step (pattern_positions p) (ip_parts p, idx))" for idx
    by (simp add: windash_variant_def foldr_conv_fold)
  have vs: "vs = map (windash_variant p) [0 ..< 5 ^ n]" and n: "n \<le> max_windash_dashes"
    using assms unfolding windash_variants_def Let_def n_def [symmetric]
    by (auto simp: windash_variant_def pos n_def split: if_splits)
  have "list_all2 part_variant (ip_parts p) (ip_parts (windash_variant p idx))" for idx
    using pattern_loop_sound [of "ip_parts p" "[]" idx] by (auto simp: loop pos)
  moreover have "qs \<in> ip_parts ` set vs" if "list_all2 part_variant (ip_parts p) qs" for qs
  proof -
    from pattern_loop_complete [OF that, of 0] obtain m where "m < 5 ^ n"
      "foldr windash_step (pattern_positions p) (ip_parts p, m) = (qs, 0)"
      unfolding n_def pos by (metis add_0 append_Nil list.size(3) mult_zero_left)
    then have "m \<in> set [0 ..< 5 ^ n]" and "ip_parts (windash_variant p m) = qs"
      by (simp_all add: loop)
    then show ?thesis unfolding vs by (force simp del: set_upt)
  qed
  ultimately show "ip_parts ` set vs = {qs. list_all2 part_variant (ip_parts p) qs}"
    by (auto simp: vs)
  show "length vs = 5 ^ length (pattern_positions p)" by (simp add: vs n_def)
  show "length (pattern_positions p) \<le> max_windash_dashes" using n by (simp add: n_def)
qed

section \<open>Properties\<close>

text \<open>
  C24: The windash modifier expands a pattern to exactly the patterns that have any of the five dashes
  at each of its dash positions, keeping the operator; there are at most 390625 of them.
\<close>

theorem windash_expansion_exact:
  assumes "expand_encoded env [EncWindash] op p = Inr vs"
  shows "(\<forall>v \<in> set vs. fst v = op)
    \<and> (ip_parts \<circ> snd) ` set vs = {qs. list_all2 part_variant (ip_parts p) qs}
    \<and> length vs \<le> 390625"
proof -
  from assms obtain ps where ps: "windash_variants p = Inr ps" and vs: "vs = map (Pair op) ps"
  proof -
    have one: "collect_results (expand_variant env None None op) ps = Inr (map (\<lambda>q. [(op, q)]) ps)" for ps
      by (induction ps) (simp_all add: expand_variant_def)
    have "concat (map (\<lambda>q. [(op, q)]) ps) = map (Pair op) ps" for ps
      by (induction ps) simp_all
    with assms one that show ?thesis
      by (auto simp: expand_encoded_def result_simps is_utf16_encoding_def is_base64_encoding_def)
  qed
  have "length ps \<le> 5 ^ 8"
    using windash_variants_exact(2,3) [OF ps] power_increasing [of _ 8 "5 :: nat"]
    by (simp add: max_windash_dashes_def)
  with windash_variants_exact(1) [OF ps] show ?thesis
    by (auto simp: vs image_comp comp_def)
qed

theorem windash_expansion_exact_witness:
  "\<exists>vs. expand_encoded literal_env [EncWindash] OpContains \<lparr> ip_parts = [IpLiteral ''-x''] \<rparr> = Inr vs
     \<and> length vs = 5
     \<and> (ip_parts \<circ> snd) ` set vs = {qs. list_all2 part_variant [IpLiteral ''-x''] qs}"
proof -
  let ?p = "\<lparr> ip_parts = [IpLiteral ''-x''] \<rparr>"
  have vs: "expand_encoded literal_env [EncWindash] OpContains ?p
      = Inr (map (Pair OpContains) (map (windash_variant ?p) [0 ..< 5]))"
    by code_simp
  from windash_expansion_exact [OF vs] vs show ?thesis by simp
qed

lemma iex_patterns: "base64_offset_patterns literal_env ''IEX'' = [''SUVY'', ''lFW'', ''JRV'']"
proof -
  note b64 = base64_digits_def base64_char_def upt_rec nul_def char_of_def bit_Suc_0_iff
  have "rfc4648 ''IEX'' = ''SUVY''" "rfc4648 (nul # ''IEX'') = ''AElFWA==''"
    "rfc4648 (nul # nul # ''IEX'') = ''AABJRVg=''"
    by (simp_all add: b64)
  then show ?thesis
    by (simp add: base64_offset_patterns_def base64_offset_pattern_def b64_start_def b64_end_trim_def
        numeral_2_eq_2 del: rfc4648.simps)
qed

text \<open>
  C25: Whatever surrounds a value of at least two bytes, the base64 text of the whole contains one of
  the substrings the base64offset modifier expands the value to.
\<close>

theorem base64offset_finds:
  assumes "base64_law env" and "2 \<le> length v"
  shows "\<exists>vs. expand_encoded env [EncBase64Offset] op \<lparr> ip_parts = [IpLiteral v] \<rparr> = Inr vs
    \<and> (\<forall>pre suf. \<exists>p. (OpContains, encoded_literal p) \<in> set vs
         \<and> contains_str (base64_encode env (pre @ v @ suf)) p)"
proof -
  have "\<exists>p \<in> set (base64_offset_patterns env v). contains_str (base64_encode env (pre @ v @ suf)) p"
    for pre suf
  proof -
    define k where "k = length pre mod 3"
    have "k < 3" by (simp add: k_def)
    then obtain p where p: "base64_offset_pattern env v k = Some p"
      using offset_pattern_exists [OF assms] by blast
    moreover from \<open>k < 3\<close> have "k \<in> set [0, 1, 2]" by auto
    ultimately have "p \<in> set (base64_offset_patterns env v)"
      unfolding base64_offset_patterns_def set_filter_map by blast
    with offset_pattern_found [OF assms(1) p [unfolded k_def]] show ?thesis by blast
  qed
  moreover have "expand_encoded env [EncBase64Offset] op \<lparr> ip_parts = [IpLiteral v] \<rparr>
      = Inr (map (\<lambda>p. (OpContains, encoded_literal p)) (base64_offset_patterns env v))"
    by (simp add: expand_encoded_def expand_variant_def is_utf16_encoding_def is_base64_encoding_def
        ir_pattern_as_plain_def ir_pattern_is_plain_def utf16_bytes_def)
  ultimately show ?thesis by (simp add: image_iff) blast
qed

theorem base64offset_finds_witness:
  "\<exists>p \<in> {''SUVY'', ''lFW'', ''JRV''}. contains_str (base64_encode literal_env (''a'' @ ''IEX'' @ ''z'')) p"
proof -
  have vs: "expand_encoded literal_env [EncBase64Offset] OpContains \<lparr> ip_parts = [IpLiteral ''IEX''] \<rparr>
      = Inr (map (\<lambda>p. (OpContains, encoded_literal p)) [''SUVY'', ''lFW'', ''JRV''])"
    by (simp add: expand_encoded_def expand_variant_def is_utf16_encoding_def
        is_base64_encoding_def ir_pattern_as_plain_def ir_pattern_is_plain_def utf16_bytes_def
        iex_patterns)
  have "base64_law literal_env" by (simp add: base64_law_def)
  from base64offset_finds [OF this, of "''IEX''" OpContains]
  have "\<exists>p. (OpContains, encoded_literal p)
        \<in> set (map (\<lambda>p. (OpContains, encoded_literal p)) [''SUVY'', ''lFW'', ''JRV''])
      \<and> contains_str (base64_encode literal_env (pre @ ''IEX'' @ suf)) p" for pre suf
    unfolding vs by (simp del: rfc4648.simps)
  then have "\<exists>p. (OpContains, encoded_literal p)
        \<in> set (map (\<lambda>p. (OpContains, encoded_literal p)) [''SUVY'', ''lFW'', ''JRV''])
      \<and> contains_str (base64_encode literal_env (''a'' @ ''IEX'' @ ''z'')) p" .
  then show ?thesis by (auto simp: encoded_literal_def simp del: rfc4648.simps)
qed

end
