(* ===== verification/Lower.thy ===== *)
theory Lower
  imports Encoding
begin

text \<open>
  Lowering of parsed rules to the intermediate representation (\<open>rsigma-ir/src/lower/\<close>): the
  modifier context of an item, values under a context, items, detections, conditions, and whole
  detection, correlation and filter rules.
\<close>

section \<open>YAML values\<close>

text \<open>
  \<open>yaml_serde::Value\<close> over the library's numbers \<open>'n\<close>; what the code calls of the YAML and JSON
  libraries is a parameter.
\<close>

datatype 'n yaml_value =
  YNull
| YBool bool
| YNumber 'n
| YString string
| YSequence "'n yaml_value list"
| YMapping "('n yaml_value \<times> 'n yaml_value) list"
| YTagged string "'n yaml_value"

record 'n yaml_env =
  yn_as_i64 :: "'n \<Rightarrow> int option"
  yn_as_u64 :: "'n \<Rightarrow> nat option"
  yn_as_f64 :: "'n \<Rightarrow> f64 option"
  yv_as_str :: "'n yaml_value \<Rightarrow> string option"
  json_to_text :: "json_value \<Rightarrow> string option"      \<comment> \<open>\<open>serde_json::to_string\<close>\<close>
  yaml_from_text :: "string \<Rightarrow> 'n yaml_value option"  \<comment> \<open>\<open>yaml_serde::from_str\<close>\<close>

definition yaml_number_to_json :: "'n yaml_env \<Rightarrow> 'n \<Rightarrow> json_value" where
  "yaml_number_to_json ye n =
     (case yn_as_i64 ye n of
        Some i \<Rightarrow> JNumber (JInt i)
      | None \<Rightarrow>
          (case yn_as_u64 ye n of
             Some u \<Rightarrow> JNumber (JInt (int u))
           | None \<Rightarrow>
               (case yn_as_f64 ye n of
                  Some f \<Rightarrow> if f64_is_finite f then JNumber (JFloat f) else JNull
                | None \<Rightarrow> JNull)))"

fun yaml_to_json :: "'n yaml_env \<Rightarrow> 'n yaml_value \<Rightarrow> json_value" where
  "yaml_to_json ye YNull = JNull"
| "yaml_to_json ye (YBool b) = JBool b"
| "yaml_to_json ye (YNumber n) = yaml_number_to_json ye n"
| "yaml_to_json ye (YString s) = JString s"
| "yaml_to_json ye (YSequence vs) = JArray (map (yaml_to_json ye) vs)"
| "yaml_to_json ye (YMapping m) =
     JObject (map_collect (concat (map (\<lambda>(k, v).
       case yv_as_str ye k of Some s \<Rightarrow> [(s, yaml_to_json ye v)] | None \<Rightarrow> []) m)))"
| "yaml_to_json ye (YTagged _ v) = yaml_to_json ye v"

definition yaml_to_json_map ::
    "'n yaml_env \<Rightarrow> (string \<times> 'n yaml_value) list \<Rightarrow> (string \<times> json_value) list" where
  "yaml_to_json_map ye m = map (\<lambda>(k, v). (k, yaml_to_json ye v)) m"

text \<open>A library whose numbers are integers and whose texts are opaque.\<close>

definition literal_yaml :: "int yaml_env" where
  "literal_yaml = \<lparr>
     yn_as_i64 = (\<lambda>n. if in_i64 n then Some n else None),
     yn_as_u64 = (\<lambda>n. if 0 \<le> n \<and> n < 2 ^ 64 then Some (nat n) else None), yn_as_f64 = (\<lambda>n. None),
     yv_as_str = (\<lambda>v. case v of YString s \<Rightarrow> Some s | _ \<Rightarrow> None),
     json_to_text = (\<lambda>v. case v of JString s \<Rightarrow> Some s | _ \<Rightarrow> None),
     yaml_from_text = (\<lambda>t. Some (YString t)) \<rparr>"

section \<open>The modifier context\<close>

record mod_ctx =
  mc_contains :: bool
  mc_startswith :: bool
  mc_endswith :: bool
  mc_all :: bool
  mc_base64 :: bool
  mc_base64offset :: bool
  mc_wide :: bool
  mc_utf16be :: bool
  mc_utf16 :: bool
  mc_windash :: bool
  mc_re :: bool
  mc_cidr :: bool
  mc_cased :: bool
  mc_exists :: bool
  mc_fieldref :: bool
  mc_gt :: bool
  mc_gte :: bool
  mc_lt :: bool
  mc_lte :: bool
  mc_neq :: bool
  mc_ignore_case :: bool
  mc_multiline :: bool
  mc_dotall :: bool
  mc_expand :: bool
  mc_timestamp_part :: "time_part option"

definition mod_ctx_empty :: mod_ctx where
  "mod_ctx_empty = \<lparr>
     mc_contains = False, mc_startswith = False, mc_endswith = False, mc_all = False,
     mc_base64 = False, mc_base64offset = False, mc_wide = False, mc_utf16be = False,
     mc_utf16 = False, mc_windash = False, mc_re = False, mc_cidr = False, mc_cased = False,
     mc_exists = False, mc_fieldref = False, mc_gt = False, mc_gte = False, mc_lt = False,
     mc_lte = False, mc_neq = False, mc_ignore_case = False, mc_multiline = False,
     mc_dotall = False, mc_expand = False, mc_timestamp_part = None \<rparr>"

fun mod_ctx_set :: "modifier \<Rightarrow> mod_ctx \<Rightarrow> mod_ctx" where
  "mod_ctx_set MdContains ctx = ctx \<lparr> mc_contains := True \<rparr>"
| "mod_ctx_set MdStartsWith ctx = ctx \<lparr> mc_startswith := True \<rparr>"
| "mod_ctx_set MdEndsWith ctx = ctx \<lparr> mc_endswith := True \<rparr>"
| "mod_ctx_set MdAll ctx = ctx \<lparr> mc_all := True \<rparr>"
| "mod_ctx_set MdBase64 ctx = ctx \<lparr> mc_base64 := True \<rparr>"
| "mod_ctx_set MdBase64Offset ctx = ctx \<lparr> mc_base64offset := True \<rparr>"
| "mod_ctx_set MdWide ctx = ctx \<lparr> mc_wide := True \<rparr>"
| "mod_ctx_set MdUtf16be ctx = ctx \<lparr> mc_utf16be := True \<rparr>"
| "mod_ctx_set MdUtf16 ctx = ctx \<lparr> mc_utf16 := True \<rparr>"
| "mod_ctx_set MdWindAsh ctx = ctx \<lparr> mc_windash := True \<rparr>"
| "mod_ctx_set MdRe ctx = ctx \<lparr> mc_re := True \<rparr>"
| "mod_ctx_set MdCidr ctx = ctx \<lparr> mc_cidr := True \<rparr>"
| "mod_ctx_set MdCased ctx = ctx \<lparr> mc_cased := True \<rparr>"
| "mod_ctx_set MdExists ctx = ctx \<lparr> mc_exists := True \<rparr>"
| "mod_ctx_set MdFieldRef ctx = ctx \<lparr> mc_fieldref := True \<rparr>"
| "mod_ctx_set MdGt ctx = ctx \<lparr> mc_gt := True \<rparr>"
| "mod_ctx_set MdGte ctx = ctx \<lparr> mc_gte := True \<rparr>"
| "mod_ctx_set MdLt ctx = ctx \<lparr> mc_lt := True \<rparr>"
| "mod_ctx_set MdLte ctx = ctx \<lparr> mc_lte := True \<rparr>"
| "mod_ctx_set MdNeq ctx = ctx \<lparr> mc_neq := True \<rparr>"
| "mod_ctx_set MdIgnoreCase ctx = ctx \<lparr> mc_ignore_case := True \<rparr>"
| "mod_ctx_set MdMultiline ctx = ctx \<lparr> mc_multiline := True \<rparr>"
| "mod_ctx_set MdDotAll ctx = ctx \<lparr> mc_dotall := True \<rparr>"
| "mod_ctx_set MdExpand ctx = ctx \<lparr> mc_expand := True \<rparr>"
| "mod_ctx_set MdHour ctx = ctx \<lparr> mc_timestamp_part := Some TpHour \<rparr>"
| "mod_ctx_set MdDay ctx = ctx \<lparr> mc_timestamp_part := Some TpDay \<rparr>"
| "mod_ctx_set MdWeek ctx = ctx \<lparr> mc_timestamp_part := Some TpWeek \<rparr>"
| "mod_ctx_set MdMonth ctx = ctx \<lparr> mc_timestamp_part := Some TpMonth \<rparr>"
| "mod_ctx_set MdYear ctx = ctx \<lparr> mc_timestamp_part := Some TpYear \<rparr>"
| "mod_ctx_set MdMinute ctx = ctx \<lparr> mc_timestamp_part := Some TpMinute \<rparr>"

definition mod_ctx_from :: "modifier list \<Rightarrow> mod_ctx" where
  "mod_ctx_from modifiers = fold mod_ctx_set modifiers mod_ctx_empty"

definition mod_ctx_ci :: "mod_ctx \<Rightarrow> bool" where
  "mod_ctx_ci ctx = (\<not> mc_cased ctx)"

definition mod_ctx_numeric :: "mod_ctx \<Rightarrow> bool" where
  "mod_ctx_numeric ctx = (mc_gt ctx \<or> mc_gte ctx \<or> mc_lt ctx \<or> mc_lte ctx)"

section \<open>Values\<close>

fun pattern_part_of :: "string_part \<Rightarrow> ir_pattern_part" where
  "pattern_part_of (Plain t) = IpLiteral t"
| "pattern_part_of (Special WildcardMulti) = IpWildcardMulti"
| "pattern_part_of (Special WildcardSingle) = IpWildcardSingle"

definition pattern_from_sigma :: "sigma_string \<Rightarrow> ir_pattern" where
  "pattern_from_sigma s = \<lparr> ip_parts = map pattern_part_of (parts s) \<rparr>"

definition plain_pattern :: "string \<Rightarrow> ir_pattern" where
  "plain_pattern s = \<lparr> ip_parts = [IpLiteral s] \<rparr>"

definition plain_or_original :: "sigma_string \<Rightarrow> string" where
  "plain_or_original s = (case as_plain s of Some t \<Rightarrow> t | None \<Rightarrow> original s)"

fun value_to_plain_string :: "ext_env \<Rightarrow> sigma_value \<Rightarrow> ir_error + string" where
  "value_to_plain_string env (SvString s) = Inr (plain_or_original s)"
| "value_to_plain_string env (SvInteger n) = Inr (show_int n)"
| "value_to_plain_string env (SvFloat f) = Inr (f64_display env f)"
| "value_to_plain_string env (SvBool b) = Inr (show_bool b)"
| "value_to_plain_string env SvNull = Inl (IeIncompatibleValue ''null value for string modifier'')"

text \<open>The text \<open>format!("{value:?}")\<close> of the values that are not numbers or strings.\<close>

definition debug_value :: "sigma_value \<Rightarrow> string" where
  "debug_value v = (case v of SvBool b \<Rightarrow> ''Bool('' @ show_bool b @ '')'' | _ \<Rightarrow> ''Null'')"

fun value_to_number :: "ext_env \<Rightarrow> sigma_value \<Rightarrow> ir_error + numeric_literal" where
  "value_to_number env (SvInteger n) = Inr (NlInteger n)"
| "value_to_number env (SvFloat f) = Inr (NlFloat f)"
| "value_to_number env (SvString s) =
     (case numeric_literal_parse env (plain_or_original s) of
        Some n \<Rightarrow> Inr n
      | None \<Rightarrow> Inl (IeExpectedNumeric (plain_or_original s)))"
| "value_to_number env v = Inl (IeExpectedNumeric (debug_value v))"

definition fieldref_name :: "ext_env \<Rightarrow> sigma_value \<Rightarrow> ir_error + string" where
  "fieldref_name env v =
     (case v of
        SvString s \<Rightarrow>
          (case as_plain s of
             Some t \<Rightarrow> Inr t
           | None \<Rightarrow> Inl (IeIncompatibleValue ''field reference must not contain wildcards''))
      | other \<Rightarrow> value_to_plain_string env other)"

definition ctx_str_op :: "mod_ctx \<Rightarrow> ir_str_op" where
  "ctx_str_op ctx =
     (if mc_contains ctx then OpContains else if mc_startswith ctx then OpStartsWith
      else if mc_endswith ctx then OpEndsWith else OpExact)"

definition ctx_encodings :: "mod_ctx \<Rightarrow> ir_encoding list" where
  "ctx_encodings ctx =
     (if mc_wide ctx then [EncWide] else []) @ (if mc_utf16be ctx then [EncUtf16Be] else [])
     @ (if mc_utf16 ctx then [EncUtf16] else []) @ (if mc_base64 ctx then [EncBase64] else [])
     @ (if mc_base64offset ctx then [EncBase64Offset] else [])
     @ (if mc_windash ctx then [EncWindash] else [])"

definition lower_str :: "ir_pattern \<Rightarrow> mod_ctx \<Rightarrow> ir_matcher" where
  "lower_str pattern ctx = ImStr (ctx_str_op ctx) pattern (mod_ctx_ci ctx)"

fun ascii_literal :: "ir_pattern_part \<Rightarrow> bool" where
  "ascii_literal (IpLiteral t) = is_ascii t"
| "ascii_literal _ = True"

definition check_encodable :: "ir_encoding list \<Rightarrow> ir_pattern \<Rightarrow> ir_error + unit" where
  "check_encodable encodings pattern =
     (let base64 = list_ex is_base64_encoding encodings;
          utf16 = list_ex is_utf16_encoding encodings;
          non_ascii = list_ex (\<lambda>p. \<not> ascii_literal p) (ip_parts pattern)
      in if base64 \<and> ir_pattern_has_wildcards pattern then
           Inl (IeIncompatibleValue
             (''|base64 and |base64offset do not support wildcards; escape * and ? as ''
              @ [bs] @ ''* and '' @ [bs] @ ''? to match them literally''))
         else if utf16 \<and> \<not> base64 \<and> non_ascii then
           Inl (IeIncompatibleValue
             ''|wide, |utf16, and |utf16be without |base64 or |base64offset require an ASCII value'')
         else Inr ())"

definition lower_timestamp :: "ext_env \<Rightarrow> time_part \<Rightarrow> sigma_value \<Rightarrow> ir_error + ir_matcher" where
  "lower_timestamp env part v =
     result_map (\<lambda>n. ImTimestampPart part (ImNumericEq (NumLiteral n)))
       (case v of
          SvInteger n \<Rightarrow> Inr (NlInteger n)
        | SvFloat f \<Rightarrow> Inr (NlFloat f)
        | SvString s \<Rightarrow>
            (case numeric_literal_parse env (plain_or_original s) of
               Some n \<Rightarrow> Inr n
             | None \<Rightarrow> Inl (IeIncompatibleValue
                 (''timestamp part modifier requires numeric value, got: '' @ plain_or_original s)))
        | _ \<Rightarrow> Inl (IeIncompatibleValue ''timestamp part modifier requires numeric value''))"

definition lower_numeric_comparison ::
    "ext_env \<Rightarrow> mod_ctx \<Rightarrow> sigma_value \<Rightarrow> ir_error + ir_matcher" where
  "lower_numeric_comparison env ctx v =
     result_map
       (\<lambda>n. if mc_gt ctx then ImNumericGt (NumLiteral n)
            else if mc_gte ctx then ImNumericGte (NumLiteral n)
            else if mc_lt ctx then ImNumericLt (NumLiteral n) else ImNumericLte (NumLiteral n))
       (value_to_number env v)"

definition substring_ctx :: "mod_ctx \<Rightarrow> bool" where
  "substring_ctx ctx = (mc_contains ctx \<or> mc_startswith ctx \<or> mc_endswith ctx)"

definition lower_string :: "mod_ctx \<Rightarrow> sigma_string \<Rightarrow> ir_error + ir_matcher" where
  "lower_string ctx s =
     (let enc = ctx_encodings ctx; pattern = pattern_from_sigma s
      in if enc \<noteq> [] then
           (case check_encodable enc pattern of
              Inl e \<Rightarrow> Inl e
            | Inr _ \<Rightarrow> Inr (ImEncoded enc (ctx_str_op ctx) pattern (mod_ctx_ci ctx)))
         else Inr (lower_str pattern ctx))"

text \<open>\<open>lower_value\<close> after its test for \<open>expand\<close>.\<close>

definition lower_value_plain :: "ext_env \<Rightarrow> mod_ctx \<Rightarrow> sigma_value \<Rightarrow> ir_error + ir_matcher" where
  "lower_value_plain env ctx v =
     (case mc_timestamp_part ctx of
        Some part \<Rightarrow> lower_timestamp env part v
      | None \<Rightarrow>
          if mc_fieldref ctx then
            result_map (\<lambda>f. ImFieldRef f (ctx_str_op ctx) (mod_ctx_ci ctx)) (fieldref_name env v)
          else if mc_re ctx then
            result_map
              (\<lambda>p. ImRegex p (mc_ignore_case ctx) (mc_multiline ctx) (mc_dotall ctx) (mc_cased ctx))
              (value_to_plain_string env v)
          else if mc_cidr ctx then
            result_bind (value_to_plain_string env v) (\<lambda>c.
              case check_cidr c of
                Inl e \<Rightarrow> Inl (IeIncompatibleValue e)
              | Inr _ \<Rightarrow> Inr (ImCidr c))
          else if mod_ctx_numeric ctx then lower_numeric_comparison env ctx v
          else
            (case v of
               SvInteger n \<Rightarrow>
                 Inr (if substring_ctx ctx then lower_str (plain_pattern (show_int n)) ctx
                      else ImNumericEq (NumLiteral (NlInteger n)))
             | SvFloat f \<Rightarrow>
                 Inr (if substring_ctx ctx then lower_str (plain_pattern (f64_display env f)) ctx
                      else ImNumericEq (NumLiteral (NlFloat f)))
             | SvBool b \<Rightarrow> Inr (ImBoolEq b)
             | SvNull \<Rightarrow> Inr ImNull
             | SvString s \<Rightarrow> lower_string ctx s))"

section \<open>Expand templates\<close>

datatype expand_segment = SegLiteral string | SegWildcard special_char | SegPlaceholder string

definition percent :: char where "percent = CHR ''%''"

definition flush_segment :: "expand_segment list \<Rightarrow> string \<Rightarrow> expand_segment list" where
  "flush_segment segments literal =
     (if literal \<noteq> [] then segments @ [SegLiteral literal] else segments)"

definition expand_stop :: "char \<Rightarrow> bool" where
  "expand_stop c = (c = percent \<or> c = star \<or> c = qmark \<or> c = bs)"

text \<open>
  The loop of \<open>scan_expand\<close> over the rest of the text, with its \<open>segments\<close> and \<open>literal\<close>.  A
  placeholder runs up to the next \<open>%\<close>, \<open>*\<close>, \<open>?\<close> or backslash, which must be a \<open>%\<close>.
\<close>

function scan_expand_loop :: "expand_segment list \<Rightarrow> string \<Rightarrow> string \<Rightarrow> expand_segment list" where
  "scan_expand_loop segments literal [] = flush_segment segments literal"
| "scan_expand_loop segments literal (c # cs) =
     (if c = bs then
        (case cs of
           n # rest \<Rightarrow>
             if n = star \<or> n = qmark \<or> n = percent \<or> n = bs
             then scan_expand_loop segments (literal @ [n]) rest
             else scan_expand_loop segments (literal @ [bs]) cs
         | [] \<Rightarrow> scan_expand_loop segments (literal @ [bs]) [])
      else if c = star \<or> c = qmark then
        scan_expand_loop
          (flush_segment segments literal
           @ [SegWildcard (if c = star then WildcardMulti else WildcardSingle)]) [] cs
      else if c = percent then
        (let name = takeWhile (\<lambda>x. \<not> expand_stop x) cs;
             rest = dropWhile (\<lambda>x. \<not> expand_stop x) cs
         in if name \<noteq> [] \<and> rest \<noteq> [] \<and> hd rest = percent
            then scan_expand_loop (flush_segment segments literal @ [SegPlaceholder name]) [] (tl rest)
            else scan_expand_loop segments (literal @ [percent]) cs)
      else scan_expand_loop segments (literal @ [c]) cs)"
  by pat_completeness auto
termination
proof -
  have "length (dropWhile P cs) - Suc 0 < Suc (length cs)" for P :: "char \<Rightarrow> bool" and cs
    using length_dropWhile_le [of P cs] by linarith
  then show ?thesis
    by (relation "measure (\<lambda>(segments, literal, cs). length cs)") auto
qed

definition scan_expand :: "string \<Rightarrow> expand_segment list" where
  "scan_expand raw = scan_expand_loop [] [] raw"

fun segment_template :: "expand_segment \<Rightarrow> ir_expand_part list" where
  "segment_template (SegLiteral t) = [ExLiteral t]"
| "segment_template (SegWildcard _) = []"
| "segment_template (SegPlaceholder n) = [ExPlaceholder n]"

fun segment_parts :: "expand_segment \<Rightarrow> string_part list" where
  "segment_parts (SegLiteral t) = [Plain t]"
| "segment_parts (SegWildcard w) = [Special w]"
| "segment_parts (SegPlaceholder _) = []"

fun is_placeholder :: "expand_segment \<Rightarrow> bool" where
  "is_placeholder (SegPlaceholder _) = True"
| "is_placeholder _ = False"

fun is_wildcard_segment :: "expand_segment \<Rightarrow> bool" where
  "is_wildcard_segment (SegWildcard _) = True"
| "is_wildcard_segment _ = False"

definition lower_expand :: "ext_env \<Rightarrow> mod_ctx \<Rightarrow> sigma_string \<Rightarrow> ir_error + ir_matcher" where
  "lower_expand env ctx s =
     (let segments = scan_expand (original s);
          template = concat (map segment_template segments);
          ps = concat (map segment_parts segments)
      in if \<not> list_ex is_placeholder segments then
           lower_value_plain env (ctx \<lparr> mc_expand := False \<rparr>)
             (SvString \<lparr> parts = ps, original = original s \<rparr>)
         else if list_ex is_wildcard_segment segments then
           Inl (IeIncompatibleValue
             ''|expand placeholders that no pipeline resolved cannot be combined with wildcards'')
         else if ctx_encodings ctx \<noteq> [] then
           Inl (IeIncompatibleValue
             (''|expand placeholders that no pipeline resolved cannot be combined with ''
              @ ''encoding modifiers''))
         else Inr (ImExpand template (ctx_str_op ctx) (mod_ctx_ci ctx)))"

definition lower_value :: "ext_env \<Rightarrow> mod_ctx \<Rightarrow> sigma_value \<Rightarrow> ir_error + ir_matcher" where
  "lower_value env ctx v =
     (case v of
        SvString s \<Rightarrow> if mc_expand ctx then lower_expand env ctx s else lower_value_plain env ctx v
      | _ \<Rightarrow> lower_value_plain env ctx v)"

fun lower_value_keywords :: "sigma_value \<Rightarrow> ir_error + ir_matcher" where
  "lower_value_keywords (SvString s) = Inr (ImStr OpContains (pattern_from_sigma s) True)"
| "lower_value_keywords (SvInteger n) = Inr (ImNumericEq (NumLiteral (NlInteger n)))"
| "lower_value_keywords (SvFloat f) = Inr (ImNumericEq (NumLiteral (NlFloat f)))"
| "lower_value_keywords (SvBool b) =
     Inr (ImStr OpContains (plain_pattern (if b then ''true'' else ''false'')) True)"
| "lower_value_keywords SvNull = Inr ImNull"

section \<open>Items\<close>

record lower_options =
  lo_permissive_placeholders :: bool

definition reject_placeholders :: "sigma_value \<Rightarrow> ir_error + unit" where
  "reject_placeholders v =
     (case v of
        SvString s \<Rightarrow>
          if contains_str (original s) ''${source.''
          then Inl (IeLowering (''unresolved source placeholder in detection value: '' @ original s))
          else Inr ()
      | _ \<Rightarrow> Inr ())"

definition invalid_regex_value :: "ext_env \<Rightarrow> sigma_value \<Rightarrow> bool" where
  "invalid_regex_value env v =
     (case v of SvString s \<Rightarrow> \<not> is_ok (check_regex env (original s)) | _ \<Rightarrow> False)"

text \<open>How the outcome of the item check continues: an error of the lowering, or go on.\<close>

definition lower_checked :: "ext_env \<Rightarrow> detection_item \<Rightarrow> ir_error + unit" where
  "lower_checked env item =
     (let ms = fs_modifiers (di_field item)
      in case check_detection_item env item of
           Inr _ \<Rightarrow> Inr ()
         | Inl (PeInvalidModifiers message) \<Rightarrow> Inl (IeInvalidModifiers message)
         | Inl (PeInvalidValue message) \<Rightarrow>
             if MdRe \<in> set ms \<and> list_ex (invalid_regex_value env) (di_values item) then Inr ()
             else if has_any ms numeric_comparisons then Inl (IeExpectedNumeric message)
             else Inl (IeIncompatibleValue (show_parser_error (PeInvalidValue message)))
         | Inl other \<Rightarrow> Inl (IeIncompatibleValue (show_parser_error other)))"

definition lower_exists_item :: "detection_item \<Rightarrow> ir_error + ir_detection_item" where
  "lower_exists_item item =
     (if fs_name (di_field item) = None then
        Inl (IeIncompatibleValue ''|exists must be applied to a field'')
      else
        (case (case di_values item of [v] \<Rightarrow> exists_flag v | _ \<Rightarrow> None) of
           None \<Rightarrow> Inl (IeIncompatibleValue ''|exists takes a single boolean value'')
         | Some expect \<Rightarrow>
             Inr \<lparr> idi_field = fs_name (di_field item), idi_matcher = ImExists expect,
                   idi_exists = Some expect \<rparr>))"

definition combine_values :: "mod_ctx \<Rightarrow> ir_matcher list \<Rightarrow> ir_matcher" where
  "combine_values ctx ms =
     (let combined =
        (if mc_all ctx then (case ms of [m] \<Rightarrow> m | _ \<Rightarrow> ImAllOf ms)
         else (case ms of [m] \<Rightarrow> m | _ \<Rightarrow> ImAnyOf ms))
      in if mc_neq ctx then ImNot combined else combined)"

definition lower_detection_item ::
    "ext_env \<Rightarrow> lower_options \<Rightarrow> detection_item \<Rightarrow> ir_error + ir_detection_item" where
  "lower_detection_item env opts item =
     (let ctx = mod_ctx_from (fs_modifiers (di_field item)); field = fs_name (di_field item)
      in case (if lo_permissive_placeholders opts then Inr ()
               else try_for_each reject_placeholders (di_values item)) of
           Inl e \<Rightarrow> Inl e
         | Inr _ \<Rightarrow>
             (case lower_checked env item of
                Inl e \<Rightarrow> Inl e
              | Inr _ \<Rightarrow>
                  if mc_exists ctx then lower_exists_item item
                  else if di_values item = [] then
                    (if field = None then
                       Inl (IeIncompatibleValue ''an empty value list must be bound to a field'')
                     else Inr \<lparr> idi_field = field,
                                idi_matcher = (if mc_neq ctx then ImNot ImNull else ImNull),
                                idi_exists = None \<rparr>)
                  else
                    result_map
                      (\<lambda>ms. \<lparr> idi_field = field, idi_matcher = combine_values ctx ms,
                              idi_exists = None \<rparr>)
                      (collect_results (lower_value env (ctx \<lparr> mc_neq := False \<rparr>))
                         (di_values item))))"

section \<open>Conditions and detections\<close>

fun lower_condition :: "string list \<Rightarrow> condition_expr \<Rightarrow> ir_error + ir_condition" where
  "lower_condition names (CondIdentifier n) =
     (if n \<in> set names then Inr (IcDetection n) else Inl (IeUnknownDetection n))"
| "lower_condition names (CondAnd exprs) =
     result_map IcAnd (collect_results (lower_condition names) exprs)"
| "lower_condition names (CondOr exprs) =
     result_map IcOr (collect_results (lower_condition names) exprs)"
| "lower_condition names (CondNot inner) = result_map IcNot (lower_condition names inner)"
| "lower_condition names (CondSelector q p) =
     (if list_ex (matches_detection_name p) names then Inr (IcSelector q p)
      else Inl (IeNoSelectorMatches (show_quantifier q @ '' of '' @ show_pattern p)))"

definition lower_keywords :: "sigma_value list \<Rightarrow> ir_error + ir_detection" where
  "lower_keywords vs =
     result_bind (collect_results lower_value_keywords vs)
       (\<lambda>ms. case ms of
          [] \<Rightarrow> Inl (IeInvalidModifiers ''Keywords detection must not be empty'')
        | [m] \<Rightarrow> Inr (IdKeywords m)
        | _ \<Rightarrow> Inr (IdKeywords (ImAnyOf ms)))"

fun lower_detection :: "ext_env \<Rightarrow> lower_options \<Rightarrow> detection \<Rightarrow> ir_error + ir_detection" where
  "lower_detection env opts (DAllOf items) =
     (if items = [] then
        Inl (IeInvalidModifiers ''AllOf detection must not be empty (vacuous truth)'')
      else result_map IdAllOf (collect_results (lower_detection_item env opts) items))"
| "lower_detection env opts (DAnyOf dets) =
     (if dets = [] then
        Inl (IeInvalidModifiers ''AnyOf detection must not be empty (would never match)'')
      else result_map IdAnyOf (collect_results (lower_detection env opts) dets))"
| "lower_detection env opts (DArrayMatch field q body) =
     result_map (IdArrayMatch field q) (lower_detection env opts body)"
| "lower_detection env opts (DAnd dets) =
     (if dets = [] then Inl (IeInvalidModifiers ''And detection must not be empty'')
      else result_map IdAnd (collect_results (lower_detection env opts) dets))"
| "lower_detection env opts (DConditional named condition) =
     (if named = [] then
        Inl (IeInvalidModifiers ''Conditional detection must have at least one named sub-selection'')
      else
        result_bind (collect_values (lower_detection env opts) named)
          (\<lambda>lowered. result_map (IdConditional lowered)
             (lower_condition (map fst lowered) condition)))"
| "lower_detection env opts (DKeywords vs) = lower_keywords vs"

section \<open>Rules\<close>

definition metadata_from_rule :: "'n yaml_env \<Rightarrow> 'n yaml_value sigma_rule \<Rightarrow> ir_rule_metadata" where
  "metadata_from_rule ye r = \<lparr>
     im_title = sr_title r, im_id = sr_id r, im_name = sr_name r, im_level = sr_level r,
     im_tags = sr_tags r, im_status = sr_status r, im_description = sr_description r,
     im_author = sr_author r, im_date = sr_date r, im_modified = sr_modified r,
     im_references = sr_references r, im_falsepositives = sr_falsepositives r,
     im_fields = sr_fields r, im_related = sr_related r, im_license = sr_license r,
     im_taxonomy = sr_taxonomy r, im_scope = sr_scope r,
     im_custom_attributes = yaml_to_json_map ye (sr_custom_attributes r),
     im_schema_affinity = None \<rparr>"

definition metadata_from_correlation ::
    "'n yaml_env \<Rightarrow> 'n yaml_value correlation_rule \<Rightarrow> ir_rule_metadata" where
  "metadata_from_correlation ye r = \<lparr>
     im_title = cr_title r, im_id = cr_id r, im_name = cr_name r, im_level = cr_level r,
     im_tags = cr_tags r, im_status = cr_status r, im_description = cr_description r,
     im_author = cr_author r, im_date = cr_date r, im_modified = cr_modified r,
     im_references = cr_references r, im_falsepositives = cr_falsepositives r,
     im_fields = cr_fields r, im_related = cr_related r, im_license = cr_license r,
     im_taxonomy = cr_taxonomy r, im_scope = cr_scope r,
     im_custom_attributes = yaml_to_json_map ye (cr_custom_attributes r),
     im_schema_affinity = None \<rparr>"

definition metadata_from_filter ::
    "'n yaml_env \<Rightarrow> 'n yaml_value filter_rule \<Rightarrow> ir_rule_metadata" where
  "metadata_from_filter ye r = \<lparr>
     im_title = fr_title r, im_id = fr_id r, im_name = fr_name r, im_level = fr_level r,
     im_tags = fr_tags r, im_status = fr_status r, im_description = fr_description r,
     im_author = fr_author r, im_date = fr_date r, im_modified = fr_modified r,
     im_references = fr_references r, im_falsepositives = fr_falsepositives r,
     im_fields = fr_fields r, im_related = fr_related r, im_license = fr_license r,
     im_taxonomy = fr_taxonomy r, im_scope = fr_scope r,
     im_custom_attributes = yaml_to_json_map ye (fr_custom_attributes r),
     im_schema_affinity = None \<rparr>"

definition lower_conditions :: "detections \<Rightarrow> ir_error + ir_condition list" where
  "lower_conditions section_of =
     collect_results (lower_condition (map fst (dets_named section_of))) (dets_conditions section_of)"

definition lower_rule ::
    "ext_env \<Rightarrow> 'n yaml_env \<Rightarrow> lower_options \<Rightarrow> 'n yaml_value sigma_rule \<Rightarrow> ir_error + ir_rule" where
  "lower_rule env ye opts rule =
     result_bind (collect_values (lower_detection env opts) (dets_named (sr_detection rule)))
       (\<lambda>detections.
          result_map
            (\<lambda>conditions. \<lparr>
               ir_metadata = metadata_from_rule ye rule, ir_logsource = sr_logsource rule,
               ir_sigma_version = sr_sigma_version rule, ir_detections = detections,
               ir_conditions = conditions \<rparr>)
            (collect_results (lower_condition (map fst detections))
               (dets_conditions (sr_detection rule))))"

record ir_correlation =
  ico_metadata :: ir_rule_metadata
  ico_sigma_version :: "nat option"
  ico_correlation_type :: correlation_type
  ico_rules :: "string list"
  ico_group_by :: "string list"
  ico_timespan :: timespan
  ico_window :: window_mode
  ico_gap :: "timespan option"
  ico_condition :: correlation_condition
  ico_aliases :: "field_alias list"
  ico_generate :: bool

text \<open>\<open>lower_correlation\<close> returns a \<open>Result\<close> and never fails.\<close>

definition lower_correlation ::
    "'n yaml_env \<Rightarrow> 'n yaml_value correlation_rule \<Rightarrow> ir_error + ir_correlation" where
  "lower_correlation ye corr = Inr \<lparr>
     ico_metadata = metadata_from_correlation ye corr, ico_sigma_version = cr_sigma_version corr,
     ico_correlation_type = cr_correlation_type corr, ico_rules = cr_rules corr,
     ico_group_by = cr_group_by corr, ico_timespan = cr_timespan corr, ico_window = cr_window corr,
     ico_gap = cr_gap corr, ico_condition = cr_condition corr, ico_aliases = cr_aliases corr,
     ico_generate = cr_generate corr \<rparr>"

record ir_filter =
  ifl_metadata :: ir_rule_metadata
  ifl_sigma_version :: "nat option"
  ifl_rules :: filter_rule_target
  ifl_logsource :: "log_source option"
  ifl_detections :: "(string \<times> ir_detection) list"
  ifl_conditions :: "ir_condition list"

definition lower_filter ::
    "ext_env \<Rightarrow> 'n yaml_env \<Rightarrow> lower_options \<Rightarrow> 'n yaml_value filter_rule \<Rightarrow> ir_error + ir_filter" where
  "lower_filter env ye opts f =
     result_bind (collect_values (lower_detection env opts) (dets_named (fr_detection f)))
       (\<lambda>detections.
          result_map
            (\<lambda>conditions. \<lparr>
               ifl_metadata = metadata_from_filter ye f, ifl_sigma_version = fr_sigma_version f,
               ifl_rules = fr_rules f, ifl_logsource = fr_logsource f, ifl_detections = detections,
               ifl_conditions = conditions \<rparr>)
            (lower_conditions (fr_detection f)))"

end
