(* ===== verification/Compile.thy ===== *)
theory Compile
  imports Bloom Lower
begin

text \<open>
  Compilation of the intermediate representation to physical matchers
  (\<open>rsigma-eval/src/compiler/\{from_ir,value,helpers\}.rs\<close>), and the errors of
  \<open>rsigma-eval/src/error.rs\<close>.
\<close>

section \<open>Errors\<close>

text \<open>
  The errors of the regex and network libraries are kept without their payload.  The debug text of
  an attribute name is the name in quotes; a name that needs escapes there is not escaped.
\<close>

datatype eval_error =
  EeInvalidRegex
| EeInvalidCidr
| EeBase64 string
| EeUnknownDetection string
| EeInvalidModifiers string
| EeIncompatibleValue string
| EeExpectedNumeric string
| EePipeline string
| EeParser sigma_parser_error
| EeCorrelationError string
| EeUnknownRuleRef string
| EeCorrelationCycle string
| EeIr string
| EeHirCache string

fun eval_error_from_ir :: "ir_error \<Rightarrow> eval_error" where
  "eval_error_from_ir (IeUnknownDetection name) = EeUnknownDetection name"
| "eval_error_from_ir (IeInvalidModifiers msg) = EeInvalidModifiers msg"
| "eval_error_from_ir (IeIncompatibleValue msg) = EeIncompatibleValue msg"
| "eval_error_from_ir (IeExpectedNumeric msg) = EeExpectedNumeric msg"
| "eval_error_from_ir (IeParser e) = EeParser e"
| "eval_error_from_ir (IeLowering msg) = EeIr (''lowering error: '' @ msg)"
| "eval_error_from_ir (IeNoSelectorMatches s) =
     EeIr (''selector '' @ [CHR 0x27] @ s @ [CHR 0x27] @ '' matches no detection identifier'')"
| "eval_error_from_ir (IeCustomAttribute k msg) =
     EeIr (''custom attribute '' @ [CHR 0x22] @ k @ [CHR 0x22] @ '' could not be projected: '' @ msg)"

section \<open>String matchers\<close>

definition build_regex :: "ext_env \<Rightarrow> string \<Rightarrow> bool \<Rightarrow> bool \<Rightarrow> bool \<Rightarrow> eval_error + string" where
  "build_regex env pattern case_insensitive multiline dotall =
     (let flags = (if case_insensitive then ''i'' else []) @ (if multiline then ''m'' else [])
                  @ (if dotall then ''s'' else []);
          full_pattern = (if flags = [] then pattern else ''(?'' @ flags @ '')'' @ pattern)
      in if re_new_ok env full_pattern then Inr full_pattern else Inl EeInvalidRegex)"

definition compile_plain :: "ext_env \<Rightarrow> ir_str_op \<Rightarrow> string \<Rightarrow> bool \<Rightarrow> compiled_matcher" where
  "compile_plain env op plain ci =
     (let v = (if ci then to_lowercase env plain else plain)
      in case op of
           OpContains \<Rightarrow> CmContains v ci
         | OpStartsWith \<Rightarrow> CmStartsWith v ci
         | OpEndsWith \<Rightarrow> CmEndsWith v ci
         | OpExact \<Rightarrow> CmExact v ci)"

fun pattern_part_regex :: "ext_env \<Rightarrow> ir_pattern_part \<Rightarrow> string" where
  "pattern_part_regex env (IpLiteral text) = re_escape env text"
| "pattern_part_regex env IpWildcardMulti = ''.*''"
| "pattern_part_regex env IpWildcardSingle = ''.''"

definition wildcard_regex :: "ext_env \<Rightarrow> ir_str_op \<Rightarrow> ir_pattern \<Rightarrow> bool \<Rightarrow> string" where
  "wildcard_regex env op pattern ci =
     (if ci then ''(?is)'' else ''(?s)'')
     @ (if op \<noteq> OpContains \<and> op \<noteq> OpEndsWith then ''^'' else [])
     @ concat (map (pattern_part_regex env) (ip_parts pattern))
     @ (if op \<noteq> OpContains \<and> op \<noteq> OpStartsWith then ''$'' else [])"

definition compile_wildcard ::
    "ext_env \<Rightarrow> ir_str_op \<Rightarrow> ir_pattern \<Rightarrow> bool \<Rightarrow> eval_error + compiled_matcher" where
  "compile_wildcard env op pattern ci =
     (let re = wildcard_regex env op pattern ci
      in if re_new_ok env re then Inr (CmRegex re) else Inl EeInvalidRegex)"

definition compile_str ::
    "ext_env \<Rightarrow> ir_str_op \<Rightarrow> ir_pattern \<Rightarrow> bool \<Rightarrow> eval_error + compiled_matcher" where
  "compile_str env op pattern ci =
     (case ir_pattern_as_plain pattern of
        Some plain \<Rightarrow> Inr (compile_plain env op plain ci)
      | None \<Rightarrow> compile_wildcard env op pattern ci)"

definition any_of_or_single :: "compiled_matcher list \<Rightarrow> compiled_matcher" where
  "any_of_or_single ms = (case ms of [m] \<Rightarrow> m | _ \<Rightarrow> CmAnyOf ms)"

definition compile_encoded ::
    "ext_env \<Rightarrow> ir_encoding list \<Rightarrow> ir_str_op \<Rightarrow> ir_pattern \<Rightarrow> bool \<Rightarrow> eval_error + compiled_matcher"
where
  "compile_encoded env encodings op pattern ci =
     result_bind (map_error eval_error_from_ir (expand_encoded env encodings op pattern))
       (\<lambda>variants. result_map any_of_or_single
          (collect_results (\<lambda>(op, pattern). compile_str env op pattern ci) variants))"

section \<open>Matchers\<close>

fun ir_number_literal :: "ir_number \<Rightarrow> eval_error + numeric_literal" where
  "ir_number_literal (NumLiteral v) = Inr v"
| "ir_number_literal (NumDynamicSourceRef source_id _) =
     Inl (EeIncompatibleValue
       (''unresolved dynamic source reference '' @ [CHR 0x27] @ source_id @ [CHR 0x27]
        @ '' cannot be compiled; specialize the IR first''))"

fun compile_ir_matcher :: "ext_env \<Rightarrow> ir_matcher \<Rightarrow> eval_error + compiled_matcher" where
  "compile_ir_matcher env (ImStr op pattern ci) = compile_str env op pattern ci"
| "compile_ir_matcher env (ImEncoded encodings op pattern ci) =
     compile_encoded env encodings op pattern ci"
| "compile_ir_matcher env (ImRegex pattern ci multiline dotall cased) =
     result_map CmRegex (build_regex env pattern ci multiline dotall)"
| "compile_ir_matcher env (ImCidr network) =
     (case ip_net_parse env network of
        Some net \<Rightarrow> Inr (CmCidr net)
      | None \<Rightarrow> Inl EeInvalidCidr)"
| "compile_ir_matcher env (ImNumericEq n) = result_map CmNumericEq (ir_number_literal n)"
| "compile_ir_matcher env (ImNumericGt n) = result_map CmNumericGt (ir_number_literal n)"
| "compile_ir_matcher env (ImNumericGte n) = result_map CmNumericGte (ir_number_literal n)"
| "compile_ir_matcher env (ImNumericLt n) = result_map CmNumericLt (ir_number_literal n)"
| "compile_ir_matcher env (ImNumericLte n) = result_map CmNumericLte (ir_number_literal n)"
| "compile_ir_matcher env (ImExists b) = Inr (CmExists b)"
| "compile_ir_matcher env (ImFieldRef field op ci) = Inr (CmFieldRef field op ci)"
| "compile_ir_matcher env ImNull = Inr CmNull"
| "compile_ir_matcher env (ImBoolEq b) = Inr (CmBoolEq b)"
| "compile_ir_matcher env (ImExpand template op ci) = Inr (CmExpand template op ci)"
| "compile_ir_matcher env (ImTimestampPart part inner) =
     result_map (CmTimestampPart part) (compile_ir_matcher env inner)"
| "compile_ir_matcher env (ImNot inner) = result_map CmNot (compile_ir_matcher env inner)"
| "compile_ir_matcher env (ImAnyOf ms) =
     result_map (optimize_any_of env) (collect_results (compile_ir_matcher env) ms)"
| "compile_ir_matcher env (ImAllOf ms) =
     result_map CmAllOf (collect_results (compile_ir_matcher env) ms)"

fun compile_keyword_matcher :: "ext_env \<Rightarrow> ir_matcher \<Rightarrow> eval_error + compiled_matcher" where
  "compile_keyword_matcher env (ImStr op pattern ci) =
     (if op = OpExact then compile_str env OpContains pattern ci
      else compile_ir_matcher env (ImStr op pattern ci))"
| "compile_keyword_matcher env (ImEncoded encodings op pattern ci) =
     (if op = OpExact then compile_encoded env encodings OpContains pattern ci
      else compile_ir_matcher env (ImEncoded encodings op pattern ci))"
| "compile_keyword_matcher env (ImNumericEq n) =
     result_bind (ir_number_literal n)
       (\<lambda>v. compile_str env OpContains (plain_pattern (show_numeric_literal env v)) True)"
| "compile_keyword_matcher env (ImNot inner) =
     result_map CmNot (compile_keyword_matcher env inner)"
| "compile_keyword_matcher env (ImAnyOf ms) =
     result_map (optimize_any_of env) (collect_results (compile_keyword_matcher env) ms)"
| "compile_keyword_matcher env (ImAllOf ms) =
     result_map CmAllOf (collect_results (compile_keyword_matcher env) ms)"
| "compile_keyword_matcher env other = compile_ir_matcher env other"

section \<open>Detections\<close>

fun ir_condition_to_expr :: "ir_condition \<Rightarrow> condition_expr" where
  "ir_condition_to_expr (IcDetection name) = CondIdentifier name"
| "ir_condition_to_expr (IcAnd exprs) = CondAnd (map ir_condition_to_expr exprs)"
| "ir_condition_to_expr (IcOr exprs) = CondOr (map ir_condition_to_expr exprs)"
| "ir_condition_to_expr (IcNot inner) = CondNot (ir_condition_to_expr inner)"
| "ir_condition_to_expr (IcSelector q pattern) = CondSelector q pattern"

datatype scope = ScEvent | ScElement

definition compile_ir_detection_item_in ::
    "ext_env \<Rightarrow> ir_detection_item \<Rightarrow> scope \<Rightarrow> eval_error + compiled_detection_item" where
  "compile_ir_detection_item_in env item sc =
     result_map
       (\<lambda>m. \<lparr> cdi_field = idi_field item, cdi_matcher = m, cdi_exists = idi_exists item,
              cdi_bloom_eligible = (idi_field item \<noteq> None \<and> is_positive_substring_matcher m) \<rparr>)
       (if idi_field item = None \<and> sc = ScEvent
        then compile_keyword_matcher env (idi_matcher item)
        else compile_ir_matcher env (idi_matcher item))"

definition keyword_group :: "ext_env \<Rightarrow> compiled_matcher \<Rightarrow> compiled_matcher" where
  "keyword_group env m = (case m of CmAnyOf ms \<Rightarrow> optimize_any_of env ms | other \<Rightarrow> other)"

fun compile_ir_detection_in ::
    "ext_env \<Rightarrow> ir_detection \<Rightarrow> scope \<Rightarrow> eval_error + compiled_detection" where
  "compile_ir_detection_in env (IdAllOf items) sc =
     (if items = [] then
        Inl (EeInvalidModifiers ''AllOf detection must not be empty (vacuous truth)'')
      else result_map CdAllOf
             (collect_results (\<lambda>item. compile_ir_detection_item_in env item sc) items))"
| "compile_ir_detection_in env (IdAnyOf dets) sc =
     (if dets = [] then
        Inl (EeInvalidModifiers ''AnyOf detection must not be empty (would never match)'')
      else result_map CdAnyOf (collect_results (\<lambda>d. compile_ir_detection_in env d sc) dets))"
| "compile_ir_detection_in env (IdArrayMatch field q body) sc =
     result_map (CdArrayMatch field q) (compile_ir_detection_in env body ScElement)"
| "compile_ir_detection_in env (IdAnd dets) sc =
     (if dets = [] then Inl (EeInvalidModifiers ''And detection must not be empty'')
      else result_map CdAnd (collect_results (\<lambda>d. compile_ir_detection_in env d sc) dets))"
| "compile_ir_detection_in env (IdConditional named condition) sc =
     (if named = [] then
        Inl (EeInvalidModifiers ''Conditional detection must have at least one named sub-selection'')
      else result_map (\<lambda>n. CdConditional n (ir_condition_to_expr condition))
             (collect_values (\<lambda>d. compile_ir_detection_in env d sc) named))"
| "compile_ir_detection_in env (IdKeywords matcher) sc =
     result_map (\<lambda>m. CdKeywords (keyword_group env m))
       (case sc of
          ScEvent \<Rightarrow> compile_keyword_matcher env matcher
        | ScElement \<Rightarrow> compile_ir_matcher env matcher)"

definition compile_ir_detection :: "ext_env \<Rightarrow> ir_detection \<Rightarrow> eval_error + compiled_detection" where
  "compile_ir_detection env detection = compile_ir_detection_in env detection ScEvent"

section \<open>Rules\<close>

definition include_event_attribute :: "(string \<times> json_value) list \<Rightarrow> bool" where
  "include_event_attribute attrs = (map_of attrs ''rsigma.include_event'' = Some (JString ''true''))"

definition compile_to_compiled :: "ext_env \<Rightarrow> ir_rule \<Rightarrow> eval_error + compiled_rule" where
  "compile_to_compiled env ir =
     result_map
       (\<lambda>detections.
          let meta = ir_metadata ir
          in \<lparr> cru_title = im_title meta, cru_id = im_id meta, cru_name = im_name meta,
               cru_level = im_level meta, cru_tags = im_tags meta,
               cru_description = im_description meta, cru_falsepositives = im_falsepositives meta,
               cru_logsource = ir_logsource ir, cru_detections = detections,
               cru_conditions = map ir_condition_to_expr (ir_conditions ir),
               cru_include_event = include_event_attribute (im_custom_attributes meta),
               cru_custom_attributes = im_custom_attributes meta \<rparr>)
       (collect_values (compile_ir_detection env) (ir_detections ir))"

definition default_lower_options :: lower_options where
  "default_lower_options = \<lparr> lo_permissive_placeholders = False \<rparr>"

definition compile_rule ::
    "ext_env \<Rightarrow> 'n yaml_env \<Rightarrow> 'n yaml_value sigma_rule \<Rightarrow> eval_error + compiled_rule" where
  "compile_rule env ye rule =
     result_bind (map_error eval_error_from_ir (lower_rule env ye default_lower_options rule))
       (compile_to_compiled env)"

definition compile_detection :: "ext_env \<Rightarrow> detection \<Rightarrow> eval_error + compiled_detection" where
  "compile_detection env detection =
     result_bind
       (map_error eval_error_from_ir
          (lower_detection env \<lparr> lo_permissive_placeholders = True \<rparr> detection))
       (compile_ir_detection env)"

end
