(* ===== verification/LogSource.thy ===== *)
theory LogSource
  imports ConditionEval
begin

text \<open>
  The log source of an event (\<open>rsigma-eval/src/logsource.rs\<close>) and the filter rules with the log
  source comparisons (\<open>rsigma-eval/src/engine/filters.rs\<close>).  The lemmas show that injecting a filter
  into a rule conjoins the filter's own condition, without the two seeing each other's detections.
\<close>

section \<open>Extraction\<close>

text \<open>\<open>str::trim\<close>: the UTF-8 encodings of the code points with the Unicode property White\_Space.\<close>

definition whitespace_encodings :: "string list" where
  "whitespace_encodings =
     map (\<lambda>b. [b]) [CHR 0x09, CHR 0x0A, CHR 0x0B, CHR 0x0C, CHR 0x0D, CHR 0x20]
     @ [[CHR 0xC2, CHR 0x85], [CHR 0xC2, CHR 0xA0], [CHR 0xE1, CHR 0x9A, CHR 0x80]]
     @ map (\<lambda>b. [CHR 0xE2, CHR 0x80, b])
         [CHR 0x80, CHR 0x81, CHR 0x82, CHR 0x83, CHR 0x84, CHR 0x85, CHR 0x86, CHR 0x87, CHR 0x88,
          CHR 0x89, CHR 0x8A, CHR 0xA8, CHR 0xA9, CHR 0xAF]
     @ [[CHR 0xE2, CHR 0x81, CHR 0x9F], [CHR 0xE3, CHR 0x80, CHR 0x80]]"

definition strip_first :: "(string \<Rightarrow> string \<Rightarrow> string option) \<Rightarrow> string \<Rightarrow> string option" where
  "strip_first strip s = find_map (strip s) whitespace_encodings"

lemma whitespace_nonempty: "ws \<in> set whitespace_encodings \<Longrightarrow> ws \<noteq> []"
  by (auto simp: whitespace_encodings_def)

lemma strip_prefix_less:
  "ws \<in> set whitespace_encodings \<Longrightarrow> strip_prefix s ws = Some r \<Longrightarrow> length r < length s"
  using whitespace_nonempty by (auto simp: strip_prefix_Some)

lemma strip_suffix_less:
  "ws \<in> set whitespace_encodings \<Longrightarrow> strip_suffix s ws = Some r \<Longrightarrow> length r < length s"
  using whitespace_nonempty by (auto simp: strip_suffix_Some)

function trim_start :: "string \<Rightarrow> string" where
  "trim_start s = (case strip_first strip_prefix s of Some r \<Rightarrow> trim_start r | None \<Rightarrow> s)"
  by auto
termination
  by (relation "measure length")
     (auto simp: strip_first_def dest!: find_map_Some_in intro: strip_prefix_less)

function trim_end :: "string \<Rightarrow> string" where
  "trim_end s = (case strip_first strip_suffix s of Some r \<Rightarrow> trim_end r | None \<Rightarrow> s)"
  by auto
termination
  by (relation "measure length")
     (auto simp: strip_first_def dest!: find_map_Some_in intro: strip_suffix_less)

declare trim_start.simps [simp del] trim_end.simps [simp del]

definition str_trim :: "string \<Rightarrow> string" where
  "str_trim s = trim_end (trim_start s)"

record log_source_extractor =
  lse_product_field :: string
  lse_service_field :: string
  lse_category_field :: string
  lse_custom_fields :: "(string \<times> string) list"
  lse_defaults :: log_source

definition log_source_default :: log_source where
  "log_source_default =
     \<lparr> ls_category = None, ls_product = None, ls_service = None, ls_definition = None, ls_custom = [] \<rparr>"

definition log_source_extractor_new :: log_source_extractor where
  "log_source_extractor_new =
     \<lparr> lse_product_field = ''product'', lse_service_field = ''service'',
       lse_category_field = ''category'', lse_custom_fields = [],
       lse_defaults = log_source_default \<rparr>"

text \<open>The text of a field, when it is present and not blank.\<close>

definition field_text :: "ext_env \<Rightarrow> event \<Rightarrow> string \<Rightarrow> string option" where
  "field_text env ev field =
     (case ev_get_field ev field of
        Some v \<Rightarrow>
          (case ev_as_str env v of
             Some s \<Rightarrow> (let trimmed = str_trim s in if trimmed \<noteq> [] then Some trimmed else None)
           | None \<Rightarrow> None)
      | None \<Rightarrow> None)"

definition lse_resolve :: "ext_env \<Rightarrow> event \<Rightarrow> string \<Rightarrow> string option \<Rightarrow> string option" where
  "lse_resolve env ev field dflt =
     (case field_text env ev field of Some s \<Rightarrow> Some s | None \<Rightarrow> dflt)"

definition lse_extract :: "ext_env \<Rightarrow> log_source_extractor \<Rightarrow> event \<Rightarrow> log_source" where
  "lse_extract env ex ev =
     \<lparr> ls_category = lse_resolve env ev (lse_category_field ex) (ls_category (lse_defaults ex)),
       ls_product = lse_resolve env ev (lse_product_field ex) (ls_product (lse_defaults ex)),
       ls_service = lse_resolve env ev (lse_service_field ex) (ls_service (lse_defaults ex)),
       ls_definition = None,
       ls_custom = fold (\<lambda>(dimension, field) custom.
           case field_text env ev field of
             Some trimmed \<Rightarrow> map_insert dimension trimmed custom
           | None \<Rightarrow> custom) (lse_custom_fields ex) (ls_custom (lse_defaults ex)) \<rparr>"

section \<open>Comparisons\<close>

definition eq_ignore_ascii_case :: "string \<Rightarrow> string \<Rightarrow> bool" where
  "eq_ignore_ascii_case a b = (map ascii_lower_char a = map ascii_lower_char b)"

definition ls_field_contains :: "string option \<Rightarrow> string option \<Rightarrow> bool" where
  "ls_field_contains filter_field rule_field =
     (case filter_field of
        None \<Rightarrow> True
      | Some fv \<Rightarrow> (case rule_field of Some rv \<Rightarrow> eq_ignore_ascii_case fv rv | None \<Rightarrow> False))"

definition filter_logsource_contains :: "log_source \<Rightarrow> log_source \<Rightarrow> bool" where
  "filter_logsource_contains filter_ls rule_ls =
     (ls_field_contains (ls_category filter_ls) (ls_category rule_ls)
      \<and> ls_field_contains (ls_product filter_ls) (ls_product rule_ls)
      \<and> ls_field_contains (ls_service filter_ls) (ls_service rule_ls))"

definition ls_conflicts :: "string option \<Rightarrow> string option \<Rightarrow> bool" where
  "ls_conflicts rule_field event_field =
     (case (rule_field, event_field) of
        (Some r, Some e) \<Rightarrow> \<not> eq_ignore_ascii_case r e
      | _ \<Rightarrow> False)"

definition logsource_compatible :: "log_source \<Rightarrow> log_source \<Rightarrow> bool" where
  "logsource_compatible rule_ls event_ls =
     (let custom_conflict = list_ex (\<lambda>(key, rule_value).
            case map_of (ls_custom event_ls) key of
              Some event_value \<Rightarrow> \<not> eq_ignore_ascii_case rule_value event_value
            | None \<Rightarrow> False) (ls_custom rule_ls)
      in \<not> (ls_conflicts (ls_product rule_ls) (ls_product event_ls)
            \<or> ls_conflicts (ls_service rule_ls) (ls_service event_ls)
            \<or> ls_conflicts (ls_category rule_ls) (ls_category event_ls)
            \<or> custom_conflict))"

text \<open>Each dimension a rule names must be present and equal: \<open>ls_field_contains\<close> again.\<close>

definition logsource_matches :: "log_source \<Rightarrow> log_source \<Rightarrow> bool" where
  "logsource_matches rule_ls event_ls =
     (if \<not> ls_field_contains (ls_category rule_ls) (ls_category event_ls) then False
      else if \<not> ls_field_contains (ls_product rule_ls) (ls_product event_ls) then False
      else if \<not> ls_field_contains (ls_service rule_ls) (ls_service event_ls) then False
      else True)"

section \<open>Filter rules\<close>

definition filter_detection_key :: "nat \<Rightarrow> string \<Rightarrow> string" where
  "filter_detection_key counter name =
     ''__filter_'' @ show_nat counter @ ''_''
       @ (if starts_with name ''_'' then ''h'' else ''v'') @ ''_'' @ name"

fun rewrite_condition_identifiers :: "nat \<Rightarrow> condition_expr \<Rightarrow> condition_expr" where
  "rewrite_condition_identifiers counter (CondIdentifier name) =
     CondIdentifier (filter_detection_key counter name)"
| "rewrite_condition_identifiers counter (CondAnd children) =
     CondAnd (map (rewrite_condition_identifiers counter) children)"
| "rewrite_condition_identifiers counter (CondOr children) =
     CondOr (map (rewrite_condition_identifiers counter) children)"
| "rewrite_condition_identifiers counter (CondNot child) =
     CondNot (rewrite_condition_identifiers counter child)"
| "rewrite_condition_identifiers counter (CondSelector q pattern) =
     CondSelector q (case pattern of
         Them \<Rightarrow> Pattern (filter_detection_key counter ''*'')
       | Pattern p \<Rightarrow> Pattern (filter_detection_key counter p))"

record filter_target =
  ft_id :: "string option"
  ft_name :: "string option"
  ft_title :: string
  ft_logsource :: log_source

definition stable_references ::
    "'y filter_rule \<Rightarrow> (string option \<times> string option) list \<Rightarrow> string list" where
  "stable_references fr identities =
     (case fr_rules fr of
        TargetAny \<Rightarrow> []
      | TargetSpecific refs \<Rightarrow>
          filter (\<lambda>reference.
            list_ex (\<lambda>(id, name). id = Some reference \<or> name = Some reference) identities) refs)"

definition filter_targets :: "'y filter_rule \<Rightarrow> string list \<Rightarrow> filter_target \<Rightarrow> bool" where
  "filter_targets fr steady rule =
     (let referenced = (case fr_rules fr of
            TargetAny \<Rightarrow> True
          | TargetSpecific refs \<Rightarrow>
              list_ex (\<lambda>reference.
                let identity_match = (ft_id rule = Some reference \<or> ft_name rule = Some reference);
                    title_match = (reference \<notin> set steady \<and> \<not> identity_match
                                   \<and> ft_title rule = reference)
                in identity_match \<or> title_match) refs)
      in referenced
         \<and> (case fr_logsource fr of
              Some filter_ls \<Rightarrow> filter_logsource_contains filter_ls (ft_logsource rule)
            | None \<Rightarrow> True))"

definition namespaced_filter_condition :: "'y filter_rule \<Rightarrow> nat \<Rightarrow> condition_expr" where
  "namespaced_filter_condition fr counter =
     (case dets_conditions (fr_detection fr) of
        cond_expr # _ \<Rightarrow> rewrite_condition_identifiers counter cond_expr
      | [] \<Rightarrow>
          (let names = sort (map fst (dets_named (fr_detection fr)));
               ids = map (\<lambda>name. CondIdentifier (filter_detection_key counter name)) names
           in case ids of [c] \<Rightarrow> c | _ \<Rightarrow> CondAnd ids))"

text \<open>\<open>apply_filters\<close>, on the parsed rules of a collection.\<close>

definition apply_filter_to_rule ::
    "'y filter_rule \<Rightarrow> nat \<Rightarrow> string list \<Rightarrow> condition_expr \<Rightarrow> 'y sigma_rule \<Rightarrow> 'y sigma_rule" where
  "apply_filter_to_rule fr counter steady condition rule =
     (let target = \<lparr> ft_id = sr_id rule, ft_name = sr_name rule, ft_title = sr_title rule,
                     ft_logsource = sr_logsource rule \<rparr>
      in if \<not> filter_targets fr steady target then rule
         else let d = sr_detection rule;
                  named = fold (\<lambda>(name, detection) named.
                      map_insert (filter_detection_key counter name) detection named)
                    (dets_named (fr_detection fr)) (dets_named d);
                  conditions = map (\<lambda>cond. CondAnd [cond, condition]) (dets_conditions d)
              in rule \<lparr> sr_detection := d \<lparr> dets_named := named, dets_conditions := conditions,
                          dets_condition_strings := map show_condition conditions \<rparr> \<rparr>)"

definition apply_filters ::
    "'y sigma_rule list \<Rightarrow> 'y filter_rule list \<Rightarrow> 'y sigma_rule list" where
  "apply_filters collection_rules filters =
     fold (\<lambda>(counter, fr) rules.
       if dets_named (fr_detection fr) = [] then rules
       else let identities = map (\<lambda>r. (sr_id r, sr_name r)) collection_rules;
                steady = stable_references fr identities;
                condition = namespaced_filter_condition fr counter
            in map (apply_filter_to_rule fr counter steady condition) rules)
     (enumerate 0 filters) collection_rules"

section \<open>Namespacing\<close>

text \<open>The detections a filter injects, under their keys.\<close>

definition injected :: "nat \<Rightarrow> (string \<times> 'd) list \<Rightarrow> (string \<times> 'd) list" where
  "injected counter named = map (\<lambda>(name, d). (filter_detection_key counter name, d)) named"

definition filter_prefix :: "nat \<Rightarrow> string" where
  "filter_prefix counter = ''__filter_'' @ show_nat counter @ ''_''"

text \<open>
  Names and patterns that cannot see the detections injected under \<open>counter\<close> or a later number:
  those of the rule's author, and those of the filters applied before.
\<close>

definition earlier_key :: "nat \<Rightarrow> string \<Rightarrow> bool" where
  "earlier_key counter name = list_ex (\<lambda>c. starts_with name (filter_prefix c)) [0..<counter]"

definition name_apart :: "nat \<Rightarrow> string \<Rightarrow> bool" where
  "name_apart counter name = (\<not> starts_with name ''__filter_'' \<or> earlier_key counter name)"

fun condition_apart :: "nat \<Rightarrow> condition_expr \<Rightarrow> bool" where
  "condition_apart counter (CondIdentifier name) = name_apart counter name"
| "condition_apart counter (CondAnd es) = list_all (condition_apart counter) es"
| "condition_apart counter (CondOr es) = list_all (condition_apart counter) es"
| "condition_apart counter (CondNot e) = condition_apart counter e"
| "condition_apart counter (CondSelector q pattern) =
     (case pattern of
        Them \<Rightarrow> True
      | Pattern p \<Rightarrow> \<not> starts_with p ''_'' \<or> earlier_key counter p)"

lemma digits_val_digits: "digits_val a s = Some n \<Longrightarrow> c \<in> set s \<Longrightarrow> digit_val c \<noteq> None"
  by (induction a s rule: digits_val.induct) (auto split: option.splits)

lemma show_nat_digits: "c \<in> set (show_nat n) \<Longrightarrow> digit_val c \<noteq> None"
  by (rule digits_val_digits [OF digits_val_show_nat])

lemma underscore_digit: "CHR ''_'' \<notin> set (show_nat n)" and star_digit: "CHR ''*'' \<notin> set (show_nat n)"
proof -
  have "digit_val (CHR ''_'') = None" "digit_val (CHR ''*'') = None" by code_simp+
  then show "CHR ''_'' \<notin> set (show_nat n)" "CHR ''*'' \<notin> set (show_nat n)"
    using show_nat_digits by blast+
qed

lemma starts_with_append: "starts_with (p @ r) (p @ q) = starts_with r q"
  by (simp add: starts_with_iff)

lemma filter_prefix_inj:
  assumes "starts_with s (filter_prefix c)" and "starts_with s (filter_prefix d)"
  shows "c = d"
proof -
  obtain x y where "show_nat c @ CHR ''_'' # x = show_nat d @ CHR ''_'' # y"
    using assms by (auto simp: starts_with_iff filter_prefix_def)
  then have "split_once (CHR ''_'') (show_nat c @ CHR ''_'' # x)
      = split_once (CHR ''_'') (show_nat d @ CHR ''_'' # y)" by (rule arg_cong)
  then show ?thesis by (simp add: split_once_Some underscore_digit show_nat_inj)
qed

lemma key_prefix: "starts_with (filter_detection_key c n) (filter_prefix c)"
  by (auto simp: filter_detection_key_def filter_prefix_def starts_with_iff)

lemma earlier_not_key: "earlier_key c s \<Longrightarrow> \<not> starts_with s (filter_prefix c)"
  unfolding earlier_key_def list_ex_iff by (metis atLeastLessThan_iff filter_prefix_inj less_irrefl set_upt)

lemma apart_not_key: "name_apart c n \<Longrightarrow> filter_detection_key c m \<noteq> n"
  using earlier_not_key [of c n] key_prefix [of c m]
  by (auto simp: name_apart_def filter_detection_key_def starts_with_iff)

text \<open>A literal prefix without a star is matched literally, whatever the rest of the pattern.\<close>

lemma ends_with_append: "length b \<le> length n \<Longrightarrow> ends_with (p @ n) b = ends_with n b"
  by (simp add: ends_with_def)

lemma ends_with_length: "ends_with n b \<Longrightarrow> length b \<le> length n"
  by (simp add: ends_with_def)

lemma glob_star_cases:
  assumes "CHR ''*'' \<notin> set a"
  shows "detection_name_matches (a @ CHR ''*'' # b) name =
    (case strip_suffix (a @ CHR ''*'' # b) ''*'' of
       Some pre \<Rightarrow> starts_with name pre
     | None \<Rightarrow> if a = [] then ends_with name b
              else length a + length b \<le> length name \<and> starts_with name a \<and> ends_with name b)"
proof (cases "strip_suffix (a @ CHR ''*'' # b) ''*''")
  case (Some pre)
  then have "a @ CHR ''*'' # b = pre @ ''*''" by (simp add: strip_suffix_Some)
  with Some show ?thesis
    by (cases "pre = []") (auto simp: detection_name_matches_def)
next
  case None
  then have "b \<noteq> []" by (auto simp: strip_suffix_def ends_with_iff)
  then have ne: "a @ CHR ''*'' # b \<noteq> ''*''" by (cases a) auto
  show ?thesis
  proof (cases "a = []")
    case True
    have "strip_prefix (CHR ''*'' # b) ''*'' = Some b" by (simp add: strip_prefix_Some)
    with None ne True show ?thesis by (simp add: detection_name_matches_def)
  next
    case False
    with assms have "strip_prefix (a @ CHR ''*'' # b) ''*'' = None"
      by (cases a) (auto simp: strip_prefix_def starts_with_def)
    with None ne False split_once_Some [OF assms, of b] show ?thesis
      by (simp add: detection_name_matches_def)
  qed
qed

lemma strip_suffix_append:
  "strip_suffix (p @ a @ CHR ''*'' # b) ''*'' = map_option ((@) p) (strip_suffix (a @ CHR ''*'' # b) ''*'')"
proof (cases "strip_suffix (a @ CHR ''*'' # b) ''*''")
  case None
  then have "ends_with (a @ CHR ''*'' # b) ''*'' = False" by (simp add: strip_suffix_def split: if_splits)
  moreover have "ends_with (p @ a @ CHR ''*'' # b) ''*'' = ends_with (a @ CHR ''*'' # b) ''*''"
    by (rule ends_with_append) simp
  ultimately show ?thesis using None by (simp add: strip_suffix_def)
next
  case (Some pre)
  then have "p @ a @ CHR ''*'' # b = (p @ pre) @ ''*''" by (simp add: strip_suffix_Some)
  then have "strip_suffix (p @ a @ CHR ''*'' # b) ''*'' = Some (p @ pre)"
    by (simp only: strip_suffix_Some)
  with Some show ?thesis by simp
qed

lemma glob_prefix:
  assumes "CHR ''*'' \<notin> set p" and "p \<noteq> []"
  shows "detection_name_matches (p @ pat) (p @ n) = detection_name_matches pat n"
    and "\<not> starts_with name p \<Longrightarrow> \<not> detection_name_matches (p @ pat) name"
proof -
  consider (literal) "CHR ''*'' \<notin> set pat"
    | (star) a b where "pat = a @ CHR ''*'' # b" "CHR ''*'' \<notin> set a"
    using split_list_first [of "CHR ''*''" pat] by blast
  then have "detection_name_matches (p @ pat) (p @ n) = detection_name_matches pat n
      \<and> (\<not> starts_with name p \<longrightarrow> \<not> detection_name_matches (p @ pat) name)"
  proof cases
    case literal
    with assms show ?thesis by (simp add: glob_literal) (auto simp: starts_with_iff)
  next
    case star
    have pa: "CHR ''*'' \<notin> set (p @ a)" using assms star(2) by simp
    note own = glob_star_cases [OF star(2), of b]
    note all = glob_star_cases [OF pa, of b, unfolded append.assoc strip_suffix_append]
    show ?thesis
    proof (cases "strip_suffix (a @ CHR ''*'' # b) ''*''")
      case (Some pre)
      with own all star(1) show ?thesis
        by (simp add: starts_with_append) (auto simp: starts_with_iff)
    next
      case None
      have whole: "detection_name_matches (p @ pat) m
          \<longleftrightarrow> length p + length a + length b \<le> length m \<and> starts_with m (p @ a) \<and> ends_with m b" for m
        using None all assms(2) star(1) by simp
      have own: "detection_name_matches pat n
          \<longleftrightarrow> length a + length b \<le> length n \<and> starts_with n a \<and> ends_with n b"
        using None own star(1) ends_with_length [of n b]
        by (auto simp: starts_with_def)
      have "detection_name_matches (p @ pat) (p @ n) = detection_name_matches pat n"
        by (cases "length a + length b \<le> length n")
           (simp_all add: whole own starts_with_append ends_with_append)
      moreover have "starts_with name (p @ a) \<Longrightarrow> starts_with name p"
        by (auto simp: starts_with_iff)
      ultimately show ?thesis using whole [of name] by blast
    qed
  qed
  then show "detection_name_matches (p @ pat) (p @ n) = detection_name_matches pat n"
    and "\<not> starts_with name p \<Longrightarrow> \<not> detection_name_matches (p @ pat) name" by blast+
qed

section \<open>Injecting a filter\<close>

lemma filter_key_inj: "filter_detection_key c m = filter_detection_key c n \<longleftrightarrow> m = n"
  by (auto simp: filter_detection_key_def split: if_splits)

lemma filter_key_underscore: "starts_with (filter_detection_key c n) ''_''"
  by (simp add: filter_detection_key_def starts_with_def)

lemma key_scope_prefix:
  "filter_detection_key c n =
     (filter_prefix c @ (if starts_with n ''_'' then ''h_'' else ''v_'')) @ n"
  by (simp add: filter_detection_key_def filter_prefix_def)

lemma filter_prefix_no_star: "CHR ''*'' \<notin> set (filter_prefix c)"
  using star_digit [of c] by (simp add: filter_prefix_def)

lemma rewritten_pattern_key:
  "detection_name_matches (filter_detection_key c pat) (filter_detection_key c n)
   \<longleftrightarrow> (starts_with pat ''_'' \<longleftrightarrow> starts_with n ''_'') \<and> detection_name_matches pat n"
proof (cases "starts_with pat ''_'' \<longleftrightarrow> starts_with n ''_''")
  case True
  let ?p = "filter_prefix c @ (if starts_with n ''_'' then ''h_'' else ''v_'')"
  have "CHR ''*'' \<notin> set ?p" and "?p \<noteq> []" using filter_prefix_no_star [of c] by auto
  from glob_prefix(1) [OF this, of pat n] True show ?thesis by (simp add: key_scope_prefix)
next
  case False
  let ?p = "filter_prefix c @ (if starts_with pat ''_'' then ''h_'' else ''v_'')"
  have "CHR ''*'' \<notin> set ?p" and "?p \<noteq> []" using filter_prefix_no_star [of c] by auto
  moreover have "\<not> starts_with (filter_detection_key c n) ?p"
    using False by (auto simp: key_scope_prefix starts_with_iff)
  ultimately show ?thesis
    using glob_prefix(2) [of ?p "filter_detection_key c n" pat] False by (simp add: key_scope_prefix)
qed

lemma hidden_pattern: "starts_with pat ''_'' \<Longrightarrow> detection_name_matches pat n \<Longrightarrow> starts_with n ''_''"
  using glob_prefix(2) [of "''_''" n] by (auto simp: starts_with_iff)

text \<open>The rewritten pattern selects the injected keys of the detections the pattern selects.\<close>

lemma rewritten_selects:
  "matches_detection_name
     (case pattern of Them \<Rightarrow> Pattern (filter_detection_key c ''*'')
      | Pattern p \<Rightarrow> Pattern (filter_detection_key c p)) (filter_detection_key c n)
   = matches_detection_name pattern n"
proof (cases pattern)
  case Them
  have "\<not> starts_with ''*'' ''_''" and "detection_name_matches ''*'' n" by code_simp+
  with Them show ?thesis by (simp add: filter_key_underscore rewritten_pattern_key)
next
  case (Pattern p)
  then show ?thesis
    using hidden_pattern [of p n] by (auto simp: filter_key_underscore rewritten_pattern_key)
qed

lemma rewritten_selects_own:
  assumes "\<not> starts_with name (filter_prefix c)"
  shows "\<not> matches_detection_name
     (case pattern of Them \<Rightarrow> Pattern (filter_detection_key c ''*'')
      | Pattern p \<Rightarrow> Pattern (filter_detection_key c p)) name"
proof -
  have "\<not> detection_name_matches (filter_detection_key c p) name" for p
    using glob_prefix(2) [OF filter_prefix_no_star [of c] _ assms]
    by (simp add: key_scope_prefix) (simp add: filter_prefix_def)
  then show ?thesis by (cases pattern) simp_all
qed

lemma apart_pattern_blind:
  assumes "condition_apart c (CondSelector q pattern)"
  shows "\<not> matches_detection_name pattern (filter_detection_key c n)"
proof (cases pattern)
  case Them
  then show ?thesis by (simp add: filter_key_underscore)
next
  case (Pattern p)
  show ?thesis
  proof (cases "starts_with p ''_''")
    case False
    with Pattern show ?thesis by (simp add: filter_key_underscore)
  next
    case True
    with assms Pattern obtain d where d: "d < c" "starts_with p (filter_prefix d)"
      by (auto simp: earlier_key_def list_ex_iff)
    then obtain r where "p = filter_prefix d @ r" by (auto simp: starts_with_iff)
    moreover have "\<not> starts_with (filter_detection_key c n) (filter_prefix d)"
      using filter_prefix_inj [OF key_prefix [of c n], of d] d(1) by auto
    ultimately show ?thesis
      using glob_prefix(2) [OF filter_prefix_no_star] Pattern by (simp add: filter_prefix_def)
  qed
qed

lemma map_of_injected:
  "map_of (injected c named) (filter_detection_key c n) = map_of named n"
  by (induction named) (auto simp: injected_def filter_key_inj)

lemma map_of_injected_apart: "name_apart c n \<Longrightarrow> map_of (injected c named) n = None"
  by (auto simp: injected_def map_of_eq_None_iff apart_not_key dest: apart_not_key)

lemma count_any_map: "count_any r m p (map f xs) = count_any r m (\<lambda>x. p (f x)) xs"
  by (induction xs arbitrary: m) (simp_all add: Let_def)

lemma filter_injected:
  "filter (\<lambda>nd. matches_detection_name pattern (fst nd)) (injected c named)
   = injected c (filter (\<lambda>nd. matches_detection_name pattern (filter_detection_key c (fst nd))) named)"
  by (simp add: injected_def filter_map comp_def case_prod_unfold)

text \<open>What the rule's author wrote does not see the injected detections.\<close>

lemma author_condition:
  "condition_apart c e \<Longrightarrow>
   eval_condition_matches_with_bloom env ev bloom e (dets @ injected c named)
   = eval_condition_matches_with_bloom env ev bloom e dets"
proof (induction e)
  case (CondIdentifier n)
  then show ?case by (simp add: map_of_injected_apart map_add_def split: option.split)
next
  case (CondAnd es)
  then show ?case by (auto simp: list_all_iff)
next
  case (CondOr es)
  then show ?case by (auto simp: list_all_iff list_ex_iff)
next
  case (CondSelector q pattern)
  have "filter (\<lambda>nd. matches_detection_name pattern (fst nd)) (injected c named) = []"
    using apart_pattern_blind [OF CondSelector] by (auto simp: injected_def filter_empty_conv)
  then show ?case by simp
qed simp

text \<open>The rewritten condition means over the enlarged rule what it meant over the filter.\<close>

lemma filter_condition:
  assumes "\<And>n. n \<in> fst ` set dets \<Longrightarrow> \<not> starts_with n (filter_prefix c)"
  shows "eval_condition_matches_with_bloom env ev bloom (rewrite_condition_identifiers c e)
      (dets @ injected c named)
    = eval_condition_matches_with_bloom env ev bloom e named"
proof (induction e)
  case (CondIdentifier n)
  have "map_of dets (filter_detection_key c n) = None"
    using assms key_prefix [of c n] by (auto simp: map_of_eq_None_iff)
  then show ?case by (simp add: map_add_def map_of_injected split: option.split)
next
  case (CondAnd es)
  then show ?case by (auto simp: list_all_iff)
next
  case (CondOr es)
  then show ?case by (auto simp: list_ex_iff)
next
  case (CondSelector q pattern)
  let ?pat = "case pattern of Them \<Rightarrow> Pattern (filter_detection_key c ''*'')
      | Pattern p \<Rightarrow> Pattern (filter_detection_key c p)"
  have "filter (\<lambda>nd. matches_detection_name ?pat (fst nd)) dets = []"
    using assms rewritten_selects_own by (force simp: filter_empty_conv)
  moreover have "filter (\<lambda>nd. matches_detection_name ?pat (fst nd)) (injected c named)
      = injected c (filter (\<lambda>nd. matches_detection_name pattern (fst nd)) named)"
    by (simp only: filter_injected rewritten_selects)
  ultimately show ?case
    by (cases q) (simp_all add: injected_def count_any_map list_all_iff list_ex_iff comp_def case_prod_unfold)
qed simp

lemma fold_inject:
  "distinct (map fst named) \<Longrightarrow> (\<And>n. n \<in> fst ` set named \<Longrightarrow> filter_detection_key c n \<notin> fst ` set dets) \<Longrightarrow>
   fold (\<lambda>(name, d) m. map_insert (filter_detection_key c name) d m) named dets = dets @ injected c named"
proof (induction named arbitrary: dets)
  case Nil
  then show ?case by (simp add: injected_def)
next
  case (Cons x named)
  obtain n d where x: "x = (n, d)" by (cases x)
  have "filter_detection_key c n \<notin> fst ` set dets" using Cons.prems(2) by (simp add: x)
  then have "map_insert (filter_detection_key c n) d dets = dets @ [(filter_detection_key c n, d)]"
    by (rule map_insert_new)
  moreover have "fold (\<lambda>(name, d) m. map_insert (filter_detection_key c name) d m) named
      (dets @ [(filter_detection_key c n, d)])
      = (dets @ [(filter_detection_key c n, d)]) @ injected c named"
    by (rule Cons.IH) (use Cons.prems in \<open>auto simp: x filter_key_inj\<close>)
  ultimately show ?case by (simp add: x injected_def)
qed

end
