(* ===== verification/PipelineState.thy ===== *)
theory PipelineState
  imports ConditionParse Compile LogSource
begin

text \<open>
  The state of a processing pipeline (\<open>rsigma-eval/src/pipeline/state.rs\<close>): which transformations
  were applied to the rule at hand and to earlier ones, which fields and detection items they
  renamed or changed, the values transformations set, the variables, and the status of dynamic
  sources.  A \<open>HashSet\<close> is a list without repetitions.
\<close>

section \<open>Parameters\<close>

text \<open>
  The libraries the pipelines call: those of evaluation and condition parsing, the place and the
  replacement of regex matches, and the Unicode tables on non-ASCII characters.
\<close>

record pipe_env =
  pl_ext :: ext_env
  pl_pest :: pest_env
  pl_re_find :: "string \<Rightarrow> string \<Rightarrow> nat option"               \<comment> \<open>start of the leftmost match\<close>
  pl_re_replace_all :: "string \<Rightarrow> string \<Rightarrow> string \<Rightarrow> string" \<comment> \<open>regex, text, replacement\<close>
  pl_re_error :: "string \<Rightarrow> string"                         \<comment> \<open>the error of \<open>Regex::new\<close>\<close>
  pl_uni_upper :: "string \<Rightarrow> string"                        \<comment> \<open>\<open>str::to_uppercase\<close> on non-ASCII text\<close>
  pl_uni_alphanumeric :: "string \<Rightarrow> bool"                   \<comment> \<open>\<open>char::is_alphanumeric\<close>\<close>
  pl_uni_uppercase :: "string \<Rightarrow> bool"                      \<comment> \<open>\<open>char::is_uppercase\<close>\<close>

section \<open>Equality of items\<close>

text \<open>Floats compare by value: \<open>NaN\<close> is unequal to itself, the zeros are equal.\<close>

fun sigma_value_eq :: "sigma_value \<Rightarrow> sigma_value \<Rightarrow> bool" where
  "sigma_value_eq (SvFloat a) (SvFloat b) = f64_eq a b"
| "sigma_value_eq a b = (a = b)"

definition detection_item_eq :: "detection_item \<Rightarrow> detection_item \<Rightarrow> bool" where
  "detection_item_eq a b =
     (di_field a = di_field b \<and> list_all2 sigma_value_eq (di_values a) (di_values b))"

section \<open>The state\<close>

datatype source_status = SsPending | SsResolved | SsFailed

record pipeline_state =
  pst_applied_items :: "string list"
  pst_rule_applied :: "string list"
  pst_field_name_applied :: "(string \<times> string list) list"
  pst_detection_item_applied :: "(detection_item \<times> string list) list"
  pst_current_item_id :: "string option"
  pst_track_detection_items :: bool
  pst_state :: "(string \<times> json_value) list"
  pst_vars :: "(string \<times> string list) list"
  pst_source_status :: "(string \<times> source_status) list"

definition pipeline_state_default :: pipeline_state where
  "pipeline_state_default = \<lparr> pst_applied_items = [], pst_rule_applied = [],
     pst_field_name_applied = [], pst_detection_item_applied = [], pst_current_item_id = None,
     pst_track_detection_items = False, pst_state = [], pst_vars = [], pst_source_status = [] \<rparr>"

definition pipeline_state_new :: "(string \<times> string list) list \<Rightarrow> pipeline_state" where
  "pipeline_state_new vars = pipeline_state_default \<lparr> pst_vars := vars \<rparr>"

definition mark_applied :: "string \<Rightarrow> pipeline_state \<Rightarrow> pipeline_state" where
  "mark_applied i st = st \<lparr> pst_applied_items := List.insert i (pst_applied_items st),
                           pst_rule_applied := List.insert i (pst_rule_applied st) \<rparr>"

definition was_applied :: "string \<Rightarrow> pipeline_state \<Rightarrow> bool" where
  "was_applied i st = (i \<in> set (pst_applied_items st) \<or> i \<in> set (pst_rule_applied st))"

definition insert_id :: "string option \<Rightarrow> string list \<Rightarrow> string list" where
  "insert_id i ids = (case i of Some x \<Rightarrow> List.insert x ids | None \<Rightarrow> ids)"

definition track_field_rename ::
    "string \<Rightarrow> string list \<Rightarrow> string option \<Rightarrow> pipeline_state \<Rightarrow> pipeline_state" where
  "track_field_rename source destinations i st =
     (if destinations = [source] then st
      else
        (let m = pst_field_name_applied st;
             ids = insert_id i (map_get [] m source)
         in st \<lparr> pst_field_name_applied :=
                  fold (\<lambda>destination m. map_insert destination ids m) destinations
                    (map_remove source m) \<rparr>))"

definition track_field_renames :: "(string \<times> string list) list \<Rightarrow> pipeline_state \<Rightarrow> pipeline_state" where
  "track_field_renames renames st =
     fold (\<lambda>(source, destinations). track_field_rename source destinations (pst_current_item_id st))
       renames st"

definition field_was_processed_by :: "string \<Rightarrow> string \<Rightarrow> pipeline_state \<Rightarrow> bool" where
  "field_was_processed_by field i st =
     (case map_of (pst_field_name_applied st) field of Some ids \<Rightarrow> i \<in> set ids | None \<Rightarrow> False)"

definition detection_item_ids :: "detection_item \<Rightarrow> pipeline_state \<Rightarrow> string list option" where
  "detection_item_ids item st =
     map_option snd
       (find (\<lambda>(tracked, _). detection_item_eq tracked item) (pst_detection_item_applied st))"

fun extend_tracked ::
    "detection_item \<Rightarrow> string list \<Rightarrow> (detection_item \<times> string list) list
      \<Rightarrow> (detection_item \<times> string list) list" where
  "extend_tracked after ids [] = [(after, ids)]"
| "extend_tracked after ids ((item, existing) # r) =
     (if detection_item_eq item after then (item, fold List.insert ids existing) # r
      else (item, existing) # extend_tracked after ids r)"

definition track_detection_item_change ::
    "detection_item option \<Rightarrow> detection_item \<Rightarrow> string option \<Rightarrow> pipeline_state \<Rightarrow> pipeline_state" where
  "track_detection_item_change before after i st =
     (let inherited = (case before of
            Some b \<Rightarrow> (case detection_item_ids b st of Some ids \<Rightarrow> ids | None \<Rightarrow> [])
          | None \<Rightarrow> []);
          ids = insert_id i inherited
      in if ids = [] then st
         else st \<lparr> pst_detection_item_applied :=
                     extend_tracked after ids (pst_detection_item_applied st) \<rparr>)"

definition detection_item_was_processed_by :: "detection_item \<Rightarrow> string \<Rightarrow> pipeline_state \<Rightarrow> bool" where
  "detection_item_was_processed_by item i st =
     (case detection_item_ids item st of Some ids \<Rightarrow> i \<in> set ids | None \<Rightarrow> False)"

definition get_state :: "string \<Rightarrow> pipeline_state \<Rightarrow> json_value option" where
  "get_state key st = map_of (pst_state st) key"

definition set_state :: "string \<Rightarrow> json_value \<Rightarrow> pipeline_state \<Rightarrow> pipeline_state" where
  "set_state key v st = st \<lparr> pst_state := map_insert key v (pst_state st) \<rparr>"

definition state_matches :: "string \<Rightarrow> string \<Rightarrow> pipeline_state \<Rightarrow> bool" where
  "state_matches key v st =
     (case get_state key st of Some (JString s) \<Rightarrow> s = v | _ \<Rightarrow> False)"

definition reset_rule :: "pipeline_state \<Rightarrow> pipeline_state" where
  "reset_rule st = st \<lparr> pst_rule_applied := [], pst_field_name_applied := [],
                        pst_detection_item_applied := [] \<rparr>"

definition init_sources :: "string list \<Rightarrow> pipeline_state \<Rightarrow> pipeline_state" where
  "init_sources ids st =
     st \<lparr> pst_source_status := fold (\<lambda>i. map_insert i SsPending) ids (pst_source_status st) \<rparr>"

definition mark_source :: "source_status \<Rightarrow> string \<Rightarrow> pipeline_state \<Rightarrow> pipeline_state" where
  "mark_source status i st =
     st \<lparr> pst_source_status := map_insert i status (pst_source_status st) \<rparr>"

definition source_status_of :: "string \<Rightarrow> pipeline_state \<Rightarrow> source_status option" where
  "source_status_of i st = map_of (pst_source_status st) i"

definition all_sources_resolved :: "pipeline_state \<Rightarrow> bool" where
  "all_sources_resolved st = list_all (\<lambda>(_, s). s = SsResolved) (pst_source_status st)"

definition pending_sources :: "pipeline_state \<Rightarrow> string list" where
  "pending_sources st = map fst (filter (\<lambda>(_, s). s = SsPending) (pst_source_status st))"

end
