(* ===== verification/PipelineCond.thy ===== *)
theory PipelineCond
  imports PipelineState
begin

text \<open>
  The conditions of pipeline transformations (\<open>rsigma-eval/src/pipeline/conditions.rs\<close>): lists of
  conditions with their linking, the three kinds of conditions, and condition expressions.  A
  compiled regex is its pattern.
\<close>

section \<open>Linking\<close>

datatype condition_op = CoAnd | CoOr

record 'c condition_set =
  cs_conditions :: "(string \<times> 'c) list"
  cs_op :: condition_op
  cs_negated :: bool
  cs_expression :: "string option"

definition condition_set_default :: "'c condition_set" where
  "condition_set_default = \<lparr> cs_conditions = [], cs_op = CoAnd, cs_negated = False, cs_expression = None \<rparr>"

text \<open>A map collected from pairs keeps the last value of a key.\<close>

definition collected :: "('k \<times> 'v) list \<Rightarrow> 'k \<Rightarrow> 'v option" where
  "collected m = map_of (rev m)"

fun eval_parsed_condition :: "condition_expr \<Rightarrow> (string \<times> bool) list \<Rightarrow> bool" where
  "eval_parsed_condition (CondIdentifier i) results =
     (case collected results i of Some b \<Rightarrow> b | None \<Rightarrow> False)"
| "eval_parsed_condition (CondAnd children) results =
     list_all (\<lambda>c. eval_parsed_condition c results) children"
| "eval_parsed_condition (CondOr children) results =
     list_ex (\<lambda>c. eval_parsed_condition c results) children"
| "eval_parsed_condition (CondNot child) results = (\<not> eval_parsed_condition child results)"
| "eval_parsed_condition (CondSelector q p) results = False"

definition eval_condition_expr :: "pipe_env \<Rightarrow> string \<Rightarrow> (string \<times> bool) list \<Rightarrow> bool" where
  "eval_condition_expr pl expr results =
     (case parse_condition (pl_pest pl) expr of
        Inr parsed \<Rightarrow> eval_parsed_condition parsed results
      | Inl _ \<Rightarrow> False)"

definition condition_set_matches :: "pipe_env \<Rightarrow> 'c condition_set \<Rightarrow> ('c \<Rightarrow> bool) \<Rightarrow> bool" where
  "condition_set_matches pl cset matcher =
     (let matched =
            (case cs_expression cset of
               Some expr \<Rightarrow>
                 eval_condition_expr pl expr (map (\<lambda>(i, c). (i, matcher c)) (cs_conditions cset))
             | None \<Rightarrow>
                 (case cs_op cset of
                    CoAnd \<Rightarrow> list_all (\<lambda>(_, c). matcher c) (cs_conditions cset)
                  | CoOr \<Rightarrow> list_ex (\<lambda>(_, c). matcher c) (cs_conditions cset)))
      in if cs_negated cset then \<not> matched else matched)"

text \<open>
  The validation of an expression.  The order of the names in its messages is that of the first
  reference here; the code iterates over a hash set.
\<close>

fun collect_condition_ids :: "condition_expr \<Rightarrow> unit + string list" where
  "collect_condition_ids (CondIdentifier i) = Inr [i]"
| "collect_condition_ids (CondAnd children) =
     result_map concat (collect_results collect_condition_ids children)"
| "collect_condition_ids (CondOr children) =
     result_map concat (collect_results collect_condition_ids children)"
| "collect_condition_ids (CondNot child) = collect_condition_ids child"
| "collect_condition_ids (CondSelector q p) = Inl ()"

definition validate_condition_expr ::
    "pipe_env \<Rightarrow> string \<Rightarrow> string list \<Rightarrow> string \<Rightarrow> eval_error + unit" where
  "validate_condition_expr pl expr ids label =
     (case parse_condition (pl_pest pl) expr of
        Inl e \<Rightarrow> Inl (EePipeline (''invalid '' @ label @ '' expression '' @ quoted expr @ '': ''
                                 @ show_parser_error e))
      | Inr parsed \<Rightarrow>
          (case collect_condition_ids parsed of
             Inl _ \<Rightarrow> Inl (EePipeline (label @
               '' expression must contain only condition identifiers and boolean operators''))
           | Inr found \<Rightarrow>
               (let referenced = first_seen [] found;
                    unknown = filter (\<lambda>i. i \<notin> set ids) referenced;
                    unreferenced = filter (\<lambda>i. i \<notin> set referenced) ids
                in if unknown \<noteq> [] then
                     Inl (EePipeline (label @ '' expression references unknown condition identifier(s): ''
                                      @ join_str '', '' unknown))
                   else if unreferenced \<noteq> [] then
                     Inl (EePipeline (label @ '' expression leaves condition identifier(s) unreferenced: ''
                                      @ join_str '', '' unreferenced))
                   else Inr ())))"

section \<open>Comparison of state values\<close>

definition json_number_eq :: "json_number \<Rightarrow> json_number \<Rightarrow> bool" where
  "json_number_eq a b =
     (case (a, b) of
        (JInt i, JInt j) \<Rightarrow> i = j
      | (JFloat x, JFloat y) \<Rightarrow> f64_eq x y
      | _ \<Rightarrow> False)"

primrec json_eq :: "json_value \<Rightarrow> json_value \<Rightarrow> bool" where
  "json_eq JNull y = (y = JNull)"
| "json_eq (JBool b) y = (y = JBool b)"
| "json_eq (JNumber n) y = (case y of JNumber m \<Rightarrow> json_number_eq n m | _ \<Rightarrow> False)"
| "json_eq (JString s) y = (y = JString s)"
| "json_eq (JArray xs) y =
     (case y of JArray ys \<Rightarrow> list_all2 (\<lambda>f. f) (map json_eq xs) ys | _ \<Rightarrow> False)"
| "json_eq (JObject m) y =
     (case y of
        JObject m' \<Rightarrow>
          length m = length m'
          \<and> list_all (\<lambda>(k, f). case map_of m' k of Some w \<Rightarrow> f w | None \<Rightarrow> False)
              (map (map_prod id json_eq) m)
      | _ \<Rightarrow> False)"

definition json_number_as_u64 :: "json_number \<Rightarrow> nat option" where
  "json_number_as_u64 n =
     (case n of JInt i \<Rightarrow> if 0 \<le> i \<and> i < 2 ^ 64 then Some (nat i) else None | JFloat _ \<Rightarrow> None)"

definition is_json_float :: "json_number \<Rightarrow> bool" where
  "is_json_float n = (case n of JFloat _ \<Rightarrow> True | JInt _ \<Rightarrow> False)"

definition f64_partial_cmp :: "f64 \<Rightarrow> f64 \<Rightarrow> ordering option" where
  "f64_partial_cmp a b =
     (if f64_lt a b then Some Less else if f64_lt b a then Some Greater
      else if f64_eq a b then Some Equal else None)"

definition compare_json_numbers :: "json_number \<Rightarrow> json_number \<Rightarrow> ordering option" where
  "compare_json_numbers a b =
     (if is_json_float a \<or> is_json_float b then
        f64_partial_cmp (json_number_as_f64 a) (json_number_as_f64 b)
      else
        (case (json_number_as_i64 a, json_number_as_i64 b) of
           (Some i, Some j) \<Rightarrow> Some (cmp_of i j)
         | _ \<Rightarrow>
             (case (json_number_as_u64 a, json_number_as_u64 b) of
                (Some m, Some n) \<Rightarrow> Some (cmp_of m n)
              | _ \<Rightarrow>
                  (case (json_number_as_i64 a, json_number_as_u64 b) of
                     (Some i, Some n) \<Rightarrow> Some (if i < 0 then Less else cmp_of (nat i) n)
                   | _ \<Rightarrow>
                       (case (json_number_as_u64 a, json_number_as_i64 b) of
                          (Some m, Some j) \<Rightarrow> Some (if j < 0 then Greater else cmp_of m (nat j))
                        | _ \<Rightarrow> None)))))"

definition compare_state_values :: "json_value \<Rightarrow> json_value \<Rightarrow> ordering option" where
  "compare_state_values actual expected =
     (case (actual, expected) of
        (JNumber a, JNumber b) \<Rightarrow> compare_json_numbers a b
      | (JString a, JString b) \<Rightarrow> Some (cmp_of a b)
      | (JBool a, JBool b) \<Rightarrow> Some (cmp_of a b)
      | _ \<Rightarrow> None)"

definition state_values_equal :: "json_value \<Rightarrow> json_value \<Rightarrow> bool" where
  "state_values_equal actual expected =
     (case (actual, expected) of
        (JNumber _, JNumber _) \<Rightarrow> compare_state_values actual expected = Some Equal
      | _ \<Rightarrow> json_eq actual expected)"

datatype state_operator = SoEq | SoNe | SoGte | SoGt | SoLte | SoLt

fun state_operator_matches :: "state_operator \<Rightarrow> json_value \<Rightarrow> json_value \<Rightarrow> bool" where
  "state_operator_matches SoEq a b = state_values_equal a b"
| "state_operator_matches SoNe a b = (\<not> state_values_equal a b)"
| "state_operator_matches SoGte a b = (compare_state_values a b \<in> {Some Greater, Some Equal})"
| "state_operator_matches SoGt a b = (compare_state_values a b = Some Greater)"
| "state_operator_matches SoLte a b = (compare_state_values a b \<in> {Some Less, Some Equal})"
| "state_operator_matches SoLt a b = (compare_state_values a b = Some Less)"

definition state_holds :: "pipeline_state \<Rightarrow> string \<Rightarrow> json_value \<Rightarrow> state_operator \<Rightarrow> bool" where
  "state_holds st key val op =
     (case get_state key st of Some actual \<Rightarrow> state_operator_matches op actual val | None \<Rightarrow> False)"

section \<open>Rule conditions\<close>

definition ls_condition_matches ::
    "log_source \<Rightarrow> string option \<Rightarrow> string option \<Rightarrow> string option \<Rightarrow> bool" where
  "ls_condition_matches ls category product service =
     (ls_field_contains category (ls_category ls) \<and> ls_field_contains product (ls_product ls)
      \<and> ls_field_contains service (ls_service ls))"

definition value_is_text :: "ext_env \<Rightarrow> string \<Rightarrow> sigma_value \<Rightarrow> bool" where
  "value_is_text env val v =
     (case v of
        SvString s \<Rightarrow> eq_ignore_ascii_case (plain_or_original s) val
      | SvInteger i \<Rightarrow> show_int i = val
      | SvFloat f \<Rightarrow> f64_display env f = val
      | SvBool b \<Rightarrow> (if b then ''true'' else ''false'') = val
      | SvNull \<Rightarrow> val = ''null'')"

definition item_matches :: "ext_env \<Rightarrow> detection_item \<Rightarrow> string \<Rightarrow> string option \<Rightarrow> bool" where
  "item_matches env item field v =
     ((case fs_name (di_field item) of Some n \<Rightarrow> eq_ignore_ascii_case n field | None \<Rightarrow> False)
      \<and> (case v of Some val \<Rightarrow> list_ex (value_is_text env val) (di_values item) | None \<Rightarrow> True))"

fun detection_contains_item :: "ext_env \<Rightarrow> detection \<Rightarrow> string \<Rightarrow> string option \<Rightarrow> bool" where
  "detection_contains_item env (DAllOf items) field v = list_ex (\<lambda>i. item_matches env i field v) items"
| "detection_contains_item env (DAnyOf subs) field v =
     list_ex (\<lambda>s. detection_contains_item env s field v) subs"
| "detection_contains_item env (DArrayMatch _ _ body) field v = detection_contains_item env body field v"
| "detection_contains_item env (DAnd subs) field v =
     list_ex (\<lambda>s. detection_contains_item env s field v) subs"
| "detection_contains_item env (DConditional named _) field v =
     list_ex (\<lambda>(_, s). detection_contains_item env s field v) named"
| "detection_contains_item env (DKeywords _) field v = False"

definition rule_contains_detection_item ::
    "ext_env \<Rightarrow> (string \<times> detection) list \<Rightarrow> string \<Rightarrow> string option \<Rightarrow> bool" where
  "rule_contains_detection_item env named field v =
     list_ex (\<lambda>(_, d). detection_contains_item env d field v) named"

fun status_debug :: "status \<Rightarrow> string" where
  "status_debug Stable = ''Stable''"
| "status_debug Test = ''Test''"
| "status_debug Experimental = ''Experimental''"
| "status_debug Deprecated = ''Deprecated''"
| "status_debug Unsupported = ''Unsupported''"

definition opt_is :: "('a \<Rightarrow> bool) \<Rightarrow> 'a option \<Rightarrow> bool" where
  "opt_is P x = (case x of Some a \<Rightarrow> P a | None \<Rightarrow> False)"

text \<open>The debug text of a level differs from its name in case only.\<close>

definition rule_attribute_matches :: "'y sigma_rule \<Rightarrow> string \<Rightarrow> string \<Rightarrow> bool" where
  "rule_attribute_matches rule attribute v =
     (if attribute = ''level'' then
        opt_is (\<lambda>l. eq_ignore_ascii_case (level_as_str l) v) (sr_level rule)
      else if attribute = ''status'' then
        opt_is (\<lambda>s. eq_ignore_ascii_case (status_debug s) v) (sr_status rule)
      else if attribute = ''author'' then opt_is (\<lambda>a. eq_ignore_ascii_case a v) (sr_author rule)
      else if attribute = ''title'' then eq_ignore_ascii_case (sr_title rule) v
      else if attribute = ''id'' then opt_is (\<lambda>i. i = v) (sr_id rule)
      else if attribute = ''date'' then opt_is (\<lambda>d. d = v) (sr_date rule)
      else if attribute = ''description'' then opt_is (\<lambda>d. contains_str d v) (sr_description rule)
      else False)"

datatype rule_condition =
  RcLogsource "string option" "string option" "string option"
| RcContainsDetectionItem string "string option"
| RcProcessingItemApplied string
| RcProcessingState string json_value state_operator
| RcIsSigmaRule
| RcIsSigmaCorrelationRule
| RcRuleAttribute string string
| RcTag string

fun matches_rule :: "ext_env \<Rightarrow> rule_condition \<Rightarrow> 'y sigma_rule \<Rightarrow> pipeline_state \<Rightarrow> bool" where
  "matches_rule env (RcLogsource category product service) rule st =
     ls_condition_matches (sr_logsource rule) category product service"
| "matches_rule env (RcContainsDetectionItem field v) rule st =
     rule_contains_detection_item env (dets_named (sr_detection rule)) field v"
| "matches_rule env (RcProcessingItemApplied i) rule st = was_applied i st"
| "matches_rule env (RcProcessingState key val op) rule st = state_holds st key val op"
| "matches_rule env RcIsSigmaRule rule st = True"
| "matches_rule env RcIsSigmaCorrelationRule rule st = False"
| "matches_rule env (RcRuleAttribute attribute v) rule st = rule_attribute_matches rule attribute v"
| "matches_rule env (RcTag tag) rule st = (tag \<in> set (sr_tags rule))"

fun matches_correlation :: "rule_condition \<Rightarrow> pipeline_state \<Rightarrow> bool" where
  "matches_correlation RcIsSigmaRule st = False"
| "matches_correlation RcIsSigmaCorrelationRule st = True"
| "matches_correlation (RcProcessingItemApplied i) st = was_applied i st"
| "matches_correlation (RcProcessingState key val op) st = state_holds st key val op"
| "matches_correlation _ st = False"

section \<open>Detection item conditions\<close>

datatype value_match = VmAny | VmAll

definition value_match_combine :: "value_match \<Rightarrow> bool list \<Rightarrow> bool" where
  "value_match_combine m results =
     (case m of VmAny \<Rightarrow> list_ex (\<lambda>b. b) results | VmAll \<Rightarrow> list_all (\<lambda>b. b) results)"

definition matches_at_start :: "pipe_env \<Rightarrow> string \<Rightarrow> string \<Rightarrow> bool" where
  "matches_at_start pl regex t = (pl_re_find pl regex t = Some 0)"

definition non_string_modifiers :: "modifier list" where
  "non_string_modifiers =
     [MdFieldRef, MdRe, MdCidr, MdExists, MdGt, MdGte, MdLt, MdLte, MdBase64, MdBase64Offset, MdWide,
      MdUtf16be, MdUtf16, MdWindAsh, MdMinute, MdHour, MdDay, MdWeek, MdMonth, MdYear]"

definition escape_wildcards :: "string \<Rightarrow> string" where
  "escape_wildcards s = concat (map (\<lambda>c. if c = star \<or> c = qmark then [bs, c] else [c]) s)"

fun pattern_text :: "string_part \<Rightarrow> string" where
  "pattern_text (Plain p) = escape_wildcards p"
| "pattern_text (Special WildcardMulti) = [star]"
| "pattern_text (Special WildcardSingle) = [qmark]"

definition string_value_text :: "detection_item \<Rightarrow> sigma_string \<Rightarrow> string option" where
  "string_value_text item s =
     (let ms = fs_modifiers (di_field item)
      in if list_ex (\<lambda>m. m \<in> set non_string_modifiers) ms then None
         else
           (let ps = parts s;
                t = concat (map pattern_text ps);
                starts_wild = (ps \<noteq> [] \<and> hd ps = Special WildcardMulti);
                ends_wild = (ps \<noteq> [] \<and> last ps = Special WildcardMulti);
                contains = MdContains \<in> set ms;
                prefixed = ((contains \<or> MdEndsWith \<in> set ms) \<and> \<not> starts_wild);
                t1 = (if prefixed then star # t else t);
                ends_wild1 = (ends_wild \<or> prefixed \<and> ps = [])
            in Some (if (contains \<or> MdStartsWith \<in> set ms) \<and> \<not> ends_wild1 then t1 @ [star] else t1)))"

datatype detection_item_condition =
  DcMatchString string bool value_match
| DcIsNull bool value_match
| DcProcessingItemApplied string
| DcProcessingState string json_value state_operator

fun matches_item :: "pipe_env \<Rightarrow> detection_item_condition \<Rightarrow> detection_item \<Rightarrow> pipeline_state \<Rightarrow> bool"
where
  "matches_item pl (DcMatchString regex negate cond) item st =
     value_match_combine cond
       (map (\<lambda>v.
          (case v of
             SvString s \<Rightarrow>
               (case string_value_text item s of
                  Some t \<Rightarrow> matches_at_start pl regex t
                | None \<Rightarrow> False)
           | _ \<Rightarrow> False) \<noteq> negate) (di_values item))"
| "matches_item pl (DcIsNull negate cond) item st =
     (value_match_combine cond (map (\<lambda>v. v = SvNull) (di_values item)) \<noteq> negate)"
| "matches_item pl (DcProcessingItemApplied i) item st = detection_item_was_processed_by item i st"
| "matches_item pl (DcProcessingState key val op) item st = state_holds st key val op"

section \<open>Field name conditions\<close>

datatype field_matcher = FmPlain "string list" | FmRegex "string list"

fun field_matches :: "pipe_env \<Rightarrow> string \<Rightarrow> field_matcher \<Rightarrow> bool" where
  "field_matches pl name (FmPlain fs) = (name \<in> set fs)"
| "field_matches pl name (FmRegex rs) = list_ex (\<lambda>re. matches_at_start pl re name) rs"

datatype field_name_condition =
  FcIncludeFields field_matcher
| FcExcludeFields field_matcher
| FcProcessingItemApplied string
| FcProcessingState string json_value state_operator

fun matches_field :: "pipe_env \<Rightarrow> field_name_condition \<Rightarrow> string option \<Rightarrow> pipeline_state \<Rightarrow> bool" where
  "matches_field pl (FcIncludeFields m) name st = opt_is (\<lambda>n. field_matches pl n m) name"
| "matches_field pl (FcExcludeFields m) name st = (\<not> opt_is (\<lambda>n. field_matches pl n m) name)"
| "matches_field pl (FcProcessingItemApplied i) name st =
     opt_is (\<lambda>n. field_was_processed_by n i st) name"
| "matches_field pl (FcProcessingState key val op) name st = state_holds st key val op"

definition matches_field_name :: "pipe_env \<Rightarrow> field_name_condition \<Rightarrow> string \<Rightarrow> pipeline_state \<Rightarrow> bool" where
  "matches_field_name pl c name st = matches_field pl c (Some name) st"

definition matches_detection_item ::
    "pipe_env \<Rightarrow> field_name_condition \<Rightarrow> detection_item \<Rightarrow> pipeline_state \<Rightarrow> bool" where
  "matches_detection_item pl c item st =
     (matches_field pl c (fs_name (di_field item)) st
      \<or> (MdFieldRef \<in> set (fs_modifiers (di_field item))
         \<and> list_ex (\<lambda>v.
              case v of
                SvString target \<Rightarrow> opt_is (\<lambda>n. matches_field pl c (Some n) st) (as_plain target)
              | _ \<Rightarrow> False) (di_values item)))"

end
