(* ===== verification/Transform.thy ===== *)
theory Transform
  imports PipelineCond
begin

text \<open>
  The operations of pipeline transformations on detections
  (\<open>rsigma-eval/src/pipeline/transformations/helpers.rs\<close>).  A rule is transformed in place there;
  here an error leaves no rule, as the callers drop it.
\<close>

section \<open>Matching items\<close>

definition detection_conditions_match ::
    "pipe_env \<Rightarrow> pipeline_state \<Rightarrow> detection_item_condition condition_set list \<Rightarrow> detection_item \<Rightarrow> bool"
where
  "detection_conditions_match pl st dcs item =
     list_all (\<lambda>cs. condition_set_matches pl cs (\<lambda>c. matches_item pl c item st)) dcs"

definition field_conditions_match ::
    "pipe_env \<Rightarrow> pipeline_state \<Rightarrow> field_name_condition condition_set list \<Rightarrow> string \<Rightarrow> bool" where
  "field_conditions_match pl st fcs name =
     list_all (\<lambda>cs. condition_set_matches pl cs (\<lambda>c. matches_field_name pl c name st)) fcs"

definition item_conditions_match ::
    "pipe_env \<Rightarrow> pipeline_state \<Rightarrow> detection_item_condition condition_set list
      \<Rightarrow> field_name_condition condition_set list \<Rightarrow> detection_item \<Rightarrow> bool" where
  "item_conditions_match pl st dcs fcs item =
     (detection_conditions_match pl st dcs item
      \<and> list_all (\<lambda>cs. condition_set_matches pl cs (\<lambda>c. matches_detection_item pl c item st)) fcs)"

text \<open>The walk over a detection that changes items one by one, and keyword lists.\<close>

fun map_detection ::
    "(detection_item \<Rightarrow> detection_item) \<Rightarrow> (sigma_value list \<Rightarrow> sigma_value list) \<Rightarrow> detection \<Rightarrow> detection"
where
  "map_detection f g (DAllOf items) = DAllOf (map f items)"
| "map_detection f g (DAnyOf subs) = DAnyOf (map (map_detection f g) subs)"
| "map_detection f g (DArrayMatch field q body) = DArrayMatch field q (map_detection f g body)"
| "map_detection f g (DAnd subs) = DAnd (map (map_detection f g) subs)"
| "map_detection f g (DConditional named c) =
     DConditional (map (\<lambda>(k, d). (k, map_detection f g d)) named) c"
| "map_detection f g (DKeywords vs) = DKeywords (g vs)"

definition on_values ::
    "(detection_item \<Rightarrow> bool) \<Rightarrow> (sigma_value list \<Rightarrow> sigma_value list) \<Rightarrow> detection_item \<Rightarrow> detection_item"
where
  "on_values P f item = (if P item then item \<lparr> di_values := f (di_values item) \<rparr> else item)"

definition map_named :: "('d \<Rightarrow> 'd) \<Rightarrow> (string \<times> 'd) list \<Rightarrow> (string \<times> 'd) list" where
  "map_named f named = map (\<lambda>(k, d). (k, f d)) named"

section \<open>Field names\<close>

definition max_field_mapping_combinations :: nat where "max_field_mapping_combinations = 4096"

type_synonym field_rename = "string \<times> string list"
type_synonym field_mapper = "string \<Rightarrow> string list option"

definition usize_saturating_mul :: "nat \<Rightarrow> nat \<Rightarrow> nat" where
  "usize_saturating_mul a b = min (a * b) u64_max"

fun rename_field_list ::
    "pipe_env \<Rightarrow> pipeline_state \<Rightarrow> field_name_condition condition_set list \<Rightarrow> field_mapper \<Rightarrow> string list
      \<Rightarrow> string list \<times> field_rename list" where
  "rename_field_list pl st fcs f [] = ([], [])"
| "rename_field_list pl st fcs f (field # r) =
     (case rename_field_list pl st fcs f r of (renamed, renames) \<Rightarrow>
        (case f field of
           Some names \<Rightarrow>
             if names \<noteq> [] \<and> field_conditions_match pl st fcs field
             then (names @ renamed, (field, names) # renames)
             else (field # renamed, renames)
         | None \<Rightarrow> (field # renamed, renames)))"

text \<open>The loop over the values of a field reference: the mapped values so far, and the renames.\<close>

fun reference_values ::
    "pipe_env \<Rightarrow> pipeline_state \<Rightarrow> field_name_condition condition_set list \<Rightarrow> field_mapper \<Rightarrow> string
      \<Rightarrow> sigma_value list \<Rightarrow> field_rename list \<Rightarrow> sigma_value list
      \<Rightarrow> eval_error + sigma_value list \<times> field_rename list" where
  "reference_values pl st fcs f title mapped renames [] = Inr (mapped, renames)"
| "reference_values pl st fcs f title mapped renames (v # r) =
     (case (case v of SvString s \<Rightarrow> as_plain s | _ \<Rightarrow> None) of
        None \<Rightarrow> reference_values pl st fcs f title (mapped @ [v]) renames r
      | Some name \<Rightarrow>
          (if \<not> field_conditions_match pl st fcs name
           then reference_values pl st fcs f title (mapped @ [v]) renames r
           else
             (case f name of
                None \<Rightarrow> reference_values pl st fcs f title (mapped @ [v]) renames r
              | Some names \<Rightarrow>
                  if names = [] then reference_values pl st fcs f title (mapped @ [v]) renames r
                  else if max_field_mapping_combinations < length mapped + length names then
                    Inl (EePipeline (''field reference mapping would produce more than 4096 values (rule: ''
                                     @ title @ '')''))
                  else
                    reference_values pl st fcs f title
                      (mapped @ map (\<lambda>n. SvString (sigma_string_new n)) names)
                      (renames @ [(name, names)]) r)))"

definition transform_field_reference_values ::
    "pipe_env \<Rightarrow> pipeline_state \<Rightarrow> field_name_condition condition_set list \<Rightarrow> field_mapper \<Rightarrow> string
      \<Rightarrow> detection_item \<Rightarrow> eval_error + detection_item \<times> field_rename list" where
  "transform_field_reference_values pl st fcs f title item =
     (if MdFieldRef \<notin> set (fs_modifiers (di_field item)) then Inr (item, [])
      else result_map (\<lambda>(vs, renames). (item \<lparr> di_values := vs \<rparr>, renames))
             (reference_values pl st fcs f title [] [] (di_values item)))"

datatype resolved = RsUnchanged | RsRenamed string | RsExpanded "string list"

definition resolve_name ::
    "pipe_env \<Rightarrow> pipeline_state \<Rightarrow> field_name_condition condition_set list \<Rightarrow> field_mapper
      \<Rightarrow> detection_item \<Rightarrow> bool \<Rightarrow> resolved" where
  "resolve_name pl st fcs f item item_ok =
     (case fs_name (di_field item) of
        Some name \<Rightarrow>
          if item_ok \<and> field_conditions_match pl st fcs name then
            (case f name of
               Some [] \<Rightarrow> RsUnchanged
             | Some [new] \<Rightarrow> RsRenamed new
             | Some names \<Rightarrow> RsExpanded names
             | None \<Rightarrow> RsUnchanged)
          else RsUnchanged
      | None \<Rightarrow> RsUnchanged)"

definition with_name :: "detection_item \<Rightarrow> string \<Rightarrow> detection_item" where
  "with_name item name = item \<lparr> di_field := (di_field item) \<lparr> fs_name := Some name \<rparr> \<rparr>"

fun item_alternatives :: "detection_item \<Rightarrow> resolved \<Rightarrow> detection_item list" where
  "item_alternatives item (RsExpanded names) = map (with_name item) names"
| "item_alternatives item (RsRenamed name) = [with_name item name]"
| "item_alternatives item RsUnchanged = [item]"

fun is_expanded :: "resolved \<Rightarrow> bool" where
  "is_expanded (RsExpanded _) = True"
| "is_expanded _ = False"

definition renamed_item :: "detection_item \<Rightarrow> resolved \<Rightarrow> detection_item" where
  "renamed_item item r = (case r of RsRenamed name \<Rightarrow> with_name item name | _ \<Rightarrow> item)"

definition cartesian_product :: "'a list list \<Rightarrow> 'a list list" where
  "cartesian_product input =
     fold (\<lambda>group result. concat (map (\<lambda>prefix. map (\<lambda>elem. prefix @ [elem]) group) result)) input [[]]"

definition show_list :: "string list \<Rightarrow> string" where
  "show_list xs = ''['' @ join_str '', '' xs @ '']''"

text \<open>The second half of the \<open>AllOf\<close> case: the items with their resolved names.\<close>

definition rebuild_items :: "string \<Rightarrow> (detection_item \<times> resolved) list \<Rightarrow> eval_error + detection" where
  "rebuild_items title items =
     (if \<not> list_ex (is_expanded \<circ> snd) items then Inr (DAllOf (map (\<lambda>(i, r). renamed_item i r) items))
      else
        (let alternatives = map (\<lambda>(i, r). item_alternatives i r) items;
             total = foldl usize_saturating_mul 1 (map length alternatives)
         in if max_field_mapping_combinations < total then
              Inl (EePipeline (''field name mapping cartesian expansion would produce '' @ show_nat total
                @ '' branches, exceeding the limit of 4096 (rule: '' @ title
                @ '', per-item alternative counts: '' @ show_list (map (show_nat \<circ> length) alternatives)
                @ ''); reduce the number of one-to-many alternatives or split the AllOf''))
            else Inr (DAnyOf (map DAllOf (cartesian_product alternatives)))))"

definition transform_items ::
    "pipe_env \<Rightarrow> pipeline_state \<Rightarrow> detection_item_condition condition_set list
      \<Rightarrow> field_name_condition condition_set list \<Rightarrow> field_mapper \<Rightarrow> string \<Rightarrow> detection_item list
      \<Rightarrow> eval_error + detection \<times> field_rename list" where
  "transform_items pl st dcs fcs f title items =
     (let oks = map (item_conditions_match pl st dcs fcs) items
      in result_bind
           (collect_results
              (\<lambda>(item, ok). if ok then transform_field_reference_values pl st fcs f title item
                            else Inr (item, [])) (zip items oks))
           (\<lambda>rs.
              let items1 = map fst rs;
                  resolved = map (\<lambda>(item, ok). (item, resolve_name pl st fcs f item ok)) (zip items1 oks)
              in result_map (\<lambda>d. (d, concat (map snd rs))) (rebuild_items title resolved)))"

definition gather :: "('a \<times> 'r list) list \<Rightarrow> 'a list \<times> 'r list" where
  "gather xs = (map fst xs, concat (map snd xs))"

fun transform_detection_fields ::
    "pipe_env \<Rightarrow> pipeline_state \<Rightarrow> detection_item_condition condition_set list
      \<Rightarrow> field_name_condition condition_set list \<Rightarrow> field_mapper \<Rightarrow> string \<Rightarrow> detection
      \<Rightarrow> eval_error + detection \<times> field_rename list" where
  "transform_detection_fields pl st dcs fcs f title (DAllOf items) =
     transform_items pl st dcs fcs f title items"
| "transform_detection_fields pl st dcs fcs f title (DAnyOf subs) =
     result_map (map_prod DAnyOf id \<circ> gather)
       (collect_results (transform_detection_fields pl st dcs fcs f title) subs)"
| "transform_detection_fields pl st dcs fcs f title (DArrayMatch field q body) =
     result_map (map_prod (DArrayMatch field q) id) (transform_detection_fields pl st dcs fcs f title body)"
| "transform_detection_fields pl st dcs fcs f title (DAnd subs) =
     result_map (map_prod DAnd id \<circ> gather)
       (collect_results (transform_detection_fields pl st dcs fcs f title) subs)"
| "transform_detection_fields pl st dcs fcs f title (DConditional named c) =
     result_map (\<lambda>m. (DConditional (map (\<lambda>(k, d, _). (k, d)) m) c, concat (map (\<lambda>(_, _, r). r) m)))
       (collect_values (transform_detection_fields pl st dcs fcs f title) named)"
| "transform_detection_fields pl st dcs fcs f title (DKeywords vs) = Inr (DKeywords vs, [])"

definition apply_field_name_transform ::
    "pipe_env \<Rightarrow> detection_item_condition condition_set list \<Rightarrow> field_name_condition condition_set list
      \<Rightarrow> field_mapper \<Rightarrow> 'y sigma_rule \<Rightarrow> pipeline_state \<Rightarrow> eval_error + 'y sigma_rule \<times> pipeline_state"
where
  "apply_field_name_transform pl dcs fcs f rule st =
     (case rename_field_list pl st fcs f (sr_fields rule) of (names, renames) \<Rightarrow>
        result_map
          (\<lambda>m. (rule \<lparr> sr_fields := names,
                       sr_detection := (sr_detection rule)
                         \<lparr> dets_named := map (\<lambda>(k, d, _). (k, d)) m \<rparr> \<rparr>,
                track_field_renames (renames @ concat (map (\<lambda>(_, _, r). r) m)) st))
          (collect_values (transform_detection_fields pl st dcs fcs f (sr_title rule))
             (dets_named (sr_detection rule))))"

end
