(* ===== verification/TransformOps.thy ===== *)
theory TransformOps
  imports Transform
begin

text \<open>
  The transformations of values and of the shape of a detection
  (\<open>rsigma-eval/src/pipeline/transformations/helpers.rs\<close>, from \<open>drop_detection_items\<close> on), and the
  record of the items a transformation changed.
\<close>

type_synonym item_conditions = "detection_item_condition condition_set list"
type_synonym name_conditions = "field_name_condition condition_set list"

definition map_named_detections :: "(detection \<Rightarrow> detection) \<Rightarrow> 'y sigma_rule \<Rightarrow> 'y sigma_rule" where
  "map_named_detections f rule =
     rule \<lparr> sr_detection := (sr_detection rule)
       \<lparr> dets_named := map_named f (dets_named (sr_detection rule)) \<rparr> \<rparr>"

definition try_named_detections ::
    "(detection \<Rightarrow> 'e + detection) \<Rightarrow> 'y sigma_rule \<Rightarrow> 'e + 'y sigma_rule" where
  "try_named_detections f rule =
     result_map (\<lambda>m. rule \<lparr> sr_detection := (sr_detection rule) \<lparr> dets_named := m \<rparr> \<rparr>)
       (collect_values f (dets_named (sr_detection rule)))"

section \<open>Drop detection items\<close>

fun drop_from_detection :: "(detection_item \<Rightarrow> bool) \<Rightarrow> detection \<Rightarrow> detection" where
  "drop_from_detection P (DAllOf items) = DAllOf (filter (\<lambda>i. \<not> P i) items)"
| "drop_from_detection P (DAnyOf subs) = DAnyOf (map (drop_from_detection P) subs)"
| "drop_from_detection P (DArrayMatch field q body) = DArrayMatch field q (drop_from_detection P body)"
| "drop_from_detection P (DAnd subs) = DAnd (map (drop_from_detection P) subs)"
| "drop_from_detection P (DConditional named c) =
     DConditional (map (\<lambda>(k, d). (k, drop_from_detection P d)) named) c"
| "drop_from_detection P (DKeywords vs) = DKeywords vs"

definition drop_detection_items ::
    "pipe_env \<Rightarrow> item_conditions \<Rightarrow> name_conditions \<Rightarrow> 'y sigma_rule \<Rightarrow> pipeline_state \<Rightarrow> 'y sigma_rule" where
  "drop_detection_items pl dcs fcs rule st =
     map_named_detections (drop_from_detection (item_conditions_match pl st dcs fcs)) rule"

section \<open>Add conditions\<close>

record added_condition =
  ac_conditions :: "(string \<times> sigma_value list) list"
  ac_field_refs :: "(string \<times> string) list"
  ac_negated :: bool
  ac_prepend :: bool
  ac_name :: "string option"
  ac_template :: bool

definition template_start :: "char \<Rightarrow> bool" where
  "template_start c = (c = CHR ''_'' \<or> (let n = of_char c :: nat in 65 \<le> n \<and> n \<le> 90 \<or> 97 \<le> n \<and> n \<le> 122))"

definition template_continue :: "char \<Rightarrow> bool" where
  "template_continue c = (template_start c \<or> digit_val c \<noteq> None)"

definition template_lookup :: "log_source \<Rightarrow> string \<Rightarrow> string option" where
  "template_lookup ls name =
     (if name = ''category'' then ls_category ls
      else if name = ''product'' then ls_product ls
      else if name = ''service'' then ls_service ls else None)"

text \<open>The name after a dollar sign and the length it takes; nothing is \<open>([], 0)\<close>.\<close>

definition template_name :: "string \<Rightarrow> string \<times> nat" where
  "template_name after =
     (case after of
        [] \<Rightarrow> ([], 0)
      | c # braced \<Rightarrow>
          if c = CHR ''{'' then
            (case find_char (CHR ''}'') braced of
               Some e \<Rightarrow>
                 (let name = take e braced
                  in if name \<noteq> [] \<and> template_start (hd name) \<and> list_all template_continue name
                     then (name, e + 2) else ([], 0))
             | None \<Rightarrow> ([], 0))
          else if template_start c then
            (let name = takeWhile template_continue after in (name, length name))
          else ([], 0))"

function substitute_logsource_template :: "log_source \<Rightarrow> string \<Rightarrow> string" where
  "substitute_logsource_template ls [] = []"
| "substitute_logsource_template ls (c # after) =
     (if c \<noteq> CHR ''$'' then c # substitute_logsource_template ls after
      else
        (case strip_prefix after ''$'' of
           Some stripped \<Rightarrow> CHR ''$'' # substitute_logsource_template ls stripped
         | None \<Rightarrow>
             (case template_name after of (name, consumed) \<Rightarrow>
                (case template_lookup ls name of
                   Some v \<Rightarrow>
                     if 0 < consumed then v @ substitute_logsource_template ls (drop consumed after)
                     else CHR ''$'' # substitute_logsource_template ls after
                 | None \<Rightarrow> CHR ''$'' # substitute_logsource_template ls after))))"
  by pat_completeness auto
termination
  by (relation "measure (length \<circ> snd)") (auto simp: strip_prefix_def split: if_splits)

definition template_value :: "log_source \<Rightarrow> sigma_value \<Rightarrow> sigma_value" where
  "template_value ls v =
     (case v of
        SvString s \<Rightarrow> SvString (sigma_string_new (substitute_logsource_template ls (original s)))
      | _ \<Rightarrow> v)"

definition added_items :: "log_source \<Rightarrow> added_condition \<Rightarrow> detection_item list" where
  "added_items ls added =
     map (\<lambda>(field, vs).
        \<lparr> di_field = \<lparr> fs_name = Some field, fs_modifiers = [] \<rparr>,
          di_values = (if ac_template added then map (template_value ls) vs else vs) \<rparr>)
       (ac_conditions added)
     @ map (\<lambda>(field, target).
        \<lparr> di_field = \<lparr> fs_name = Some field, fs_modifiers = [MdFieldRef] \<rparr>,
          di_values = [SvString (sigma_string_new target)] \<rparr>)
       (ac_field_refs added)"

definition added_reference :: "added_condition \<Rightarrow> string \<Rightarrow> condition_expr" where
  "added_reference added name =
     (if ac_negated added then CondNot (CondIdentifier name) else CondIdentifier name)"

definition conjoin_added :: "added_condition \<Rightarrow> string \<Rightarrow> condition_expr \<Rightarrow> condition_expr" where
  "conjoin_added added name existing =
     CondAnd (if ac_prepend added then [added_reference added name, existing]
              else [existing, added_reference added name])"

definition add_conditions :: "added_condition \<Rightarrow> 'y sigma_rule \<Rightarrow> eval_error + 'y sigma_rule" where
  "add_conditions added rule =
     (let ds = sr_detection rule;
          items = added_items (sr_logsource rule) added;
          finish = (\<lambda>name. Inr (rule \<lparr> sr_detection := ds
             \<lparr> dets_named := map_insert name (DAllOf items) (dets_named ds),
               dets_conditions := map (conjoin_added added name) (dets_conditions ds) \<rparr> \<rparr>))
      in case ac_name added of
           Some name \<Rightarrow>
             if map_of (dets_named ds) name \<noteq> None then
               Inl (EePipeline (''add_condition name '' @ quoted name
                 @ '' collides with an existing detection (rule: '' @ sr_title rule @ '')''))
             else finish name
         | None \<Rightarrow> finish (''__pipeline_cond_'' @ show_nat (length (dets_named ds))))"

section \<open>Replace strings\<close>

record string_replace =
  rp_replacement :: string
  rp_skip_special :: bool
  rp_interpret_special :: bool

fun merge_plain_step :: "string_part list \<Rightarrow> string_part \<Rightarrow> string_part list" where
  "merge_plain_step merged (Plain t) =
     (case rev merged of
        Plain l # before \<Rightarrow> rev before @ [Plain (l @ t)]
      | _ \<Rightarrow> if t = [] then merged else merged @ [Plain t])"
| "merge_plain_step merged (Special w) = merged @ [Special w]"

definition merge_plain_parts :: "string_part list \<Rightarrow> string_part list" where
  "merge_plain_parts ps = foldl merge_plain_step [] ps"

fun part_to_original :: "string_part \<Rightarrow> string" where
  "part_to_original (Plain t) =
     concat (map (\<lambda>c. if c = star \<or> c = qmark \<or> c = bs then [bs, c] else [c]) t)"
| "part_to_original (Special WildcardMulti) = [star]"
| "part_to_original (Special WildcardSingle) = [qmark]"

definition parts_to_original :: "string_part list \<Rightarrow> string" where
  "parts_to_original ps = concat (map part_to_original ps)"

definition replace_part :: "pipe_env \<Rightarrow> string \<Rightarrow> string_replace \<Rightarrow> string_part \<Rightarrow> string_part list" where
  "replace_part pl re rp part =
     (case part of
        Plain t \<Rightarrow>
          (let replaced = pl_re_replace_all pl re t (rp_replacement rp)
           in if rp_interpret_special rp then parts (sigma_string_new replaced) else [Plain replaced])
      | Special w \<Rightarrow> [Special w])"

definition replace_string_value :: "pipe_env \<Rightarrow> string \<Rightarrow> string_replace \<Rightarrow> sigma_value \<Rightarrow> sigma_value" where
  "replace_string_value pl re rp v =
     (case v of
        SvString s \<Rightarrow>
          if rp_skip_special rp then
            (let new = merge_plain_parts (concat (map (replace_part pl re rp) (parts s)))
             in if new \<noteq> parts s then SvString \<lparr> parts = new, original = parts_to_original new \<rparr> else v)
          else
            (let replaced = pl_re_replace_all pl re (original s) (rp_replacement rp)
             in if replaced \<noteq> original s then SvString (sigma_string_new replaced) else v)
      | _ \<Rightarrow> v)"

definition replace_strings_in_values ::
    "pipe_env \<Rightarrow> string \<Rightarrow> string_replace \<Rightarrow> sigma_value list \<Rightarrow> sigma_value list" where
  "replace_strings_in_values pl re rp vs = map (replace_string_value pl re rp) vs"

definition replace_strings_in_detection ::
    "(detection_item \<Rightarrow> bool) \<Rightarrow> pipe_env \<Rightarrow> string \<Rightarrow> string_replace \<Rightarrow> detection \<Rightarrow> detection" where
  "replace_strings_in_detection P pl re rp d =
     map_detection (on_values P (replace_strings_in_values pl re rp)) (replace_strings_in_values pl re rp) d"

definition replace_strings_in_rule ::
    "pipe_env \<Rightarrow> item_conditions \<Rightarrow> name_conditions \<Rightarrow> string \<Rightarrow> string_replace \<Rightarrow> 'y sigma_rule
      \<Rightarrow> pipeline_state \<Rightarrow> 'y sigma_rule" where
  "replace_strings_in_rule pl dcs fcs re rp rule st =
     map_named_detections
       (replace_strings_in_detection (item_conditions_match pl st dcs fcs) pl re rp) rule"

section \<open>Placeholders\<close>

record placeholder_expansion =
  pe_vars :: "(string \<times> string list) list"
  pe_wildcard :: bool
  pe_allow_unresolved :: bool
  pe_include :: "string list option"
  pe_exclude :: "string list option"

definition handles :: "placeholder_expansion \<Rightarrow> string \<Rightarrow> bool" where
  "handles pe name =
     ((case pe_include pe of Some names \<Rightarrow> name \<in> set names | None \<Rightarrow> True)
      \<and> (case pe_exclude pe of Some names \<Rightarrow> name \<notin> set names | None \<Rightarrow> True)
      \<and> (pe_wildcard pe \<or> \<not> pe_allow_unresolved pe \<or> map_of (pe_vars pe) name \<noteq> None))"

datatype segment = SegLiteral string | SegPlaceholder string

definition is_template_special :: "char \<Rightarrow> bool" where
  "is_template_special c = (c = CHR ''%'' \<or> c = star \<or> c = qmark \<or> c = bs)"

definition flush_template :: "string \<Rightarrow> segment list" where
  "flush_template lit = (if lit = [] then [] else [SegLiteral lit])"

text \<open>A placeholder right after a percent sign: its name, and the text after the closing percent.\<close>

definition placeholder_at :: "string \<Rightarrow> (string \<times> string) option" where
  "placeholder_at s =
     (let name = takeWhile (\<lambda>c. \<not> is_template_special c) s;
          after = dropWhile (\<lambda>c. \<not> is_template_special c) s
      in if name \<noteq> [] \<and> after \<noteq> [] \<and> hd after = CHR ''%'' then Some (name, tl after) else None)"

lemma placeholder_at_length:
  assumes "placeholder_at s = Some (name, r)"
  shows "length r < length s"
proof -
  from assms have "r = tl (dropWhile (\<lambda>c. \<not> is_template_special c) s)" "s \<noteq> []"
    by (auto simp: placeholder_at_def Let_def split: if_splits)
  then show ?thesis
    using length_dropWhile_le [of "\<lambda>c. \<not> is_template_special c" s] by (cases s) (auto simp: le_less_trans)
qed

function segment_loop :: "string \<Rightarrow> string \<Rightarrow> segment list" where
  "segment_loop lit [] = flush_template lit"
| "segment_loop lit (c # s) =
     (if c = bs then
        (case s of
           d # s' \<Rightarrow>
             if is_template_special d then segment_loop (lit @ [c, d]) s' else segment_loop (lit @ [c]) s
         | [] \<Rightarrow> segment_loop (lit @ [c]) [])
      else if c = CHR ''%'' then
        (case placeholder_at s of
           Some (name, r) \<Rightarrow> flush_template lit @ SegPlaceholder name # segment_loop [] r
         | None \<Rightarrow> segment_loop (lit @ [c]) s)
      else segment_loop (lit @ [c]) s)"
  by pat_completeness auto
termination
  by (relation "measure (length \<circ> snd)") (auto dest: placeholder_at_length)

definition placeholder_segments :: "string \<Rightarrow> segment list" where
  "placeholder_segments s = segment_loop [] s"

fun escape_bare_percent :: "string \<Rightarrow> string" where
  "escape_bare_percent [] = []"
| "escape_bare_percent [c] = (if c = CHR ''%'' then [bs, c] else [c])"
| "escape_bare_percent (c # d # s) =
     (if c = bs then
        (if is_template_special d then c # d # escape_bare_percent s else c # escape_bare_percent (d # s))
      else if c = CHR ''%'' then bs # c # escape_bare_percent (d # s)
      else c # escape_bare_percent (d # s))"

definition max_placeholder_combinations :: nat where "max_placeholder_combinations = 4096"

definition escape_percent :: "string \<Rightarrow> string" where
  "escape_percent v = concat (map (\<lambda>c. if c = CHR ''%'' then [bs, c] else [c]) v)"

definition placeholder_values ::
    "placeholder_expansion \<Rightarrow> string \<Rightarrow> string \<Rightarrow> eval_error + string list" where
  "placeholder_values pe title name =
     (if pe_wildcard pe then Inr [[star]]
      else
        (case map_of (pe_vars pe) name of
           Some vs \<Rightarrow> Inr (map escape_percent vs)
         | None \<Rightarrow> Inl (EePipeline (''placeholder replacement variable '' @ quoted name
                       @ '' is not defined (rule: '' @ title @ '')''))))"

fun substitute_segment ::
    "placeholder_expansion \<Rightarrow> string \<Rightarrow> string list \<Rightarrow> segment \<Rightarrow> eval_error + string list" where
  "substitute_segment pe title combos (SegLiteral t) = Inr (map (\<lambda>c. c @ escape_bare_percent t) combos)"
| "substitute_segment pe title combos (SegPlaceholder name) =
     (if \<not> handles pe name then Inr (map (\<lambda>c. c @ CHR ''%'' # name @ ''%'') combos)
      else
        result_bind (placeholder_values pe title name)
          (\<lambda>reps.
             let total = usize_saturating_mul (length combos) (length reps)
             in if max_placeholder_combinations < total then
                  Inl (EePipeline (''placeholder expansion would produce '' @ show_nat total
                    @ '' values, exceeding the limit of 4096 (rule: '' @ title @ '')''))
                else Inr (concat (map (\<lambda>prefix. map (\<lambda>rep. prefix @ rep) reps) combos))))"

fun substitute_segments ::
    "placeholder_expansion \<Rightarrow> string \<Rightarrow> string list \<Rightarrow> segment list \<Rightarrow> eval_error + string list" where
  "substitute_segments pe title combos [] = Inr combos"
| "substitute_segments pe title combos (seg # segs) =
     result_bind (substitute_segment pe title combos seg) (\<lambda>cs. substitute_segments pe title cs segs)"

definition expand_placeholder_string ::
    "placeholder_expansion \<Rightarrow> string \<Rightarrow> string \<Rightarrow> eval_error + sigma_value list" where
  "expand_placeholder_string pe title s =
     result_map (map (\<lambda>v. SvString (sigma_string_new v)))
       (substitute_segments pe title [[]] (placeholder_segments s))"

definition expand_placeholder_value ::
    "placeholder_expansion \<Rightarrow> string \<Rightarrow> sigma_value \<Rightarrow> eval_error + sigma_value list" where
  "expand_placeholder_value pe title v =
     (case v of
        SvString s \<Rightarrow>
          if CHR ''%'' \<in> set (original s) then expand_placeholder_string pe title (original s)
          else Inr [v]
      | _ \<Rightarrow> Inr [v])"

definition expand_placeholders_in_values ::
    "placeholder_expansion \<Rightarrow> string \<Rightarrow> sigma_value list \<Rightarrow> eval_error + sigma_value list" where
  "expand_placeholders_in_values pe title vs =
     result_map concat (collect_results (expand_placeholder_value pe title) vs)"

definition expand_placeholders_in_item ::
    "placeholder_expansion \<Rightarrow> string \<Rightarrow> detection_item \<Rightarrow> eval_error + detection_item" where
  "expand_placeholders_in_item pe title item =
     (if MdExpand \<in> set (fs_modifiers (di_field item)) then
        result_map (\<lambda>vs. item \<lparr> di_values := vs \<rparr>)
          (expand_placeholders_in_values pe title (di_values item))
      else Inr item)"

text \<open>The walk over a detection with an action on the items that may fail.\<close>

fun try_items :: "(detection_item list \<Rightarrow> 'e + detection) \<Rightarrow> detection \<Rightarrow> 'e + detection" where
  "try_items f (DAllOf items) = f items"
| "try_items f (DAnyOf subs) = result_map DAnyOf (collect_results (try_items f) subs)"
| "try_items f (DArrayMatch field q body) = result_map (DArrayMatch field q) (try_items f body)"
| "try_items f (DAnd subs) = result_map DAnd (collect_results (try_items f) subs)"
| "try_items f (DConditional named c) =
     result_map (\<lambda>m. DConditional m c) (collect_values (try_items f) named)"
| "try_items f (DKeywords vs) = Inr (DKeywords vs)"

definition expand_placeholders_in_detection ::
    "placeholder_expansion \<Rightarrow> string \<Rightarrow> detection \<Rightarrow> eval_error + detection" where
  "expand_placeholders_in_detection pe title d =
     try_items (\<lambda>items. result_map DAllOf
       (collect_results (expand_placeholders_in_item pe title) items)) d"

definition expand_placeholders_in_rule ::
    "placeholder_expansion \<Rightarrow> 'y sigma_rule \<Rightarrow> eval_error + 'y sigma_rule" where
  "expand_placeholders_in_rule pe rule =
     try_named_detections (expand_placeholders_in_detection pe (sr_title rule)) rule"

end
