(* ===== verification/TransformValues.thy ===== *)
theory TransformValues
  imports TransformOps Encoding
begin

text \<open>
  The transformations of values that go by name, type or case, hash fields, and the record of the
  items a transformation changed
  (\<open>rsigma-eval/src/pipeline/transformations/helpers.rs\<close>, from \<open>apply_named_string_fn\<close> on).
\<close>

section \<open>Characters\<close>

text \<open>The characters of a text, each as its bytes.\<close>

lemma utf8_width_pos: "0 < utf8_width s"
  by (auto simp: utf8_width_def Let_def split: list.splits)

function utf8_chars :: "string \<Rightarrow> string list" where
  "utf8_chars s =
     (if s = [] then [] else take (utf8_width s) s # utf8_chars (drop (utf8_width s) s))"
  by auto
termination
  by (relation "measure length") (auto simp: utf8_width_pos)

declare utf8_chars.simps [simp del]

definition is_ascii_lower :: "char \<Rightarrow> bool" where
  "is_ascii_lower c = (97 \<le> (of_char c :: nat) \<and> of_char c \<le> (122 :: nat))"

definition ascii_upper_char :: "char \<Rightarrow> char" where
  "ascii_upper_char c = (if is_ascii_lower c then char_of ((of_char c :: nat) - 32) else c)"

definition to_uppercase :: "pipe_env \<Rightarrow> string \<Rightarrow> string" where
  "to_uppercase pl s = (if is_ascii s then map ascii_upper_char s else pl_uni_upper pl s)"

definition is_uppercase :: "pipe_env \<Rightarrow> string \<Rightarrow> bool" where
  "is_uppercase pl ch = (if is_ascii ch then list_all is_ascii_upper ch else pl_uni_uppercase pl ch)"

definition is_alphanumeric :: "pipe_env \<Rightarrow> string \<Rightarrow> bool" where
  "is_alphanumeric pl ch =
     (if is_ascii ch then list_all (\<lambda>c. is_ascii_upper c \<or> is_ascii_lower c \<or> digit_val c \<noteq> None) ch
      else pl_uni_alphanumeric pl ch)"

text \<open>\<open>split\<close> at the characters that satisfy a predicate.\<close>

fun split_where :: "('a \<Rightarrow> bool) \<Rightarrow> 'a list \<Rightarrow> 'a list list" where
  "split_where P [] = [[]]"
| "split_where P (c # cs) =
     (if P c then [] # split_where P cs
      else (case split_where P cs of w # ws \<Rightarrow> (c # w) # ws | [] \<Rightarrow> [[c]]))"

definition title_word :: "pipe_env \<Rightarrow> string list \<Rightarrow> string" where
  "title_word pl w =
     (case w of
        [] \<Rightarrow> []
      | f # r \<Rightarrow> to_uppercase pl f @ to_lowercase (pl_ext pl) (concat r))"

text \<open>The first character of the lower-case form of a character.\<close>

definition first_lower :: "pipe_env \<Rightarrow> string \<Rightarrow> string" where
  "first_lower pl ch =
     (let l = to_lowercase (pl_ext pl) ch in if l = [] then ch else take (utf8_width l) l)"

definition snake_step :: "pipe_env \<Rightarrow> nat \<times> string \<Rightarrow> string" where
  "snake_step pl ich =
     (case ich of (i, ch) \<Rightarrow> (if is_uppercase pl ch \<and> 0 < i then ''_'' else []) @ first_lower pl ch)"

definition apply_named_string_fn :: "pipe_env \<Rightarrow> string \<Rightarrow> string \<Rightarrow> string" where
  "apply_named_string_fn pl func s =
     (if func \<in> {''lower'', ''lowercase''} then to_lowercase (pl_ext pl) s
      else if func \<in> {''upper'', ''uppercase''} then to_uppercase pl s
      else if func = ''title'' then
        join_str ''_'' (map (title_word pl)
          (filter (\<lambda>w. w \<noteq> []) (split_where (\<lambda>ch. \<not> is_alphanumeric pl ch) (utf8_chars s))))
      else if func = ''snake_case'' then concat (map (snake_step pl) (List.enumerate 0 (utf8_chars s)))
      else s)"

section \<open>Hashes\<close>

record hashes_fields =
  hf_valid_hash_algos :: "string list"
  hf_field_prefix :: string
  hf_drop_algo_prefix :: bool
  hf_field_to_parse :: "string list"

definition plain_text_with_wildcards :: "sigma_string \<Rightarrow> string" where
  "plain_text_with_wildcards s =
     concat (map (\<lambda>p. case p of Plain t \<Rightarrow> t | Special WildcardMulti \<Rightarrow> [star]
                                 | Special WildcardSingle \<Rightarrow> [qmark]) (parts s))"

definition trim_wildcards :: "string \<Rightarrow> string" where
  "trim_wildcards s =
     (let w = (\<lambda>c. c = star \<or> c = qmark) in rev (dropWhile w (rev (dropWhile w s))))"

definition algo_of_length :: "nat \<Rightarrow> string" where
  "algo_of_length n =
     (if n = 32 then ''MD5'' else if n = 40 then ''SHA1'' else if n = 64 then ''SHA256''
      else if n = 128 then ''SHA512'' else [])"

definition hash_pieces :: "pipe_env \<Rightarrow> string \<Rightarrow> string \<times> string" where
  "hash_pieces pl plain =
     (case (if CHR ''|'' \<in> set plain then split_char (CHR ''|'') plain else split_char (CHR ''='') plain) of
        [algo, hash] \<Rightarrow> (to_uppercase pl (dropWhile (\<lambda>c. c = star) algo), trim_wildcards hash)
      | ps \<Rightarrow> (let hash = trim_wildcards (hd ps) in (algo_of_length (length hash), hash)))"

text \<open>Values of one field in the order of the first use of the field.\<close>

definition push_hash ::
    "pipe_env \<Rightarrow> hashes_fields \<Rightarrow> (string \<times> sigma_value list) list \<Rightarrow> sigma_value
      \<Rightarrow> (string \<times> sigma_value list) list" where
  "push_hash pl hf by_field v =
     (case v of
        SvString s \<Rightarrow>
          (case hash_pieces pl (plain_text_with_wildcards s) of (algo, hash) \<Rightarrow>
             if algo = [] \<or> algo \<notin> set (hf_valid_hash_algos hf) then by_field
             else
               (let field = hf_field_prefix hf @ (if hf_drop_algo_prefix hf then [] else algo)
                in if field = [] then by_field
                   else push_at field (SvString (sigma_string_new hash)) by_field))
      | _ \<Rightarrow> by_field)"

definition field_item :: "string \<Rightarrow> sigma_value list \<Rightarrow> detection_item" where
  "field_item field vs = \<lparr> di_field = \<lparr> fs_name = Some field, fs_modifiers = [] \<rparr>, di_values = vs \<rparr>"

definition hash_value_group ::
    "pipe_env \<Rightarrow> hashes_fields \<Rightarrow> string \<Rightarrow> detection_item \<Rightarrow> eval_error + detection" where
  "hash_value_group pl hf title item =
     (let by_field = foldl (push_hash pl hf) [] (di_values item)
      in if by_field = [] then
           Inl (EePipeline (''no valid hash algorithm found in field ''
             @ quoted (case fs_name (di_field item) of Some n \<Rightarrow> n | None \<Rightarrow> [])
             @ ''; use one of: '' @ join_str '', '' (hf_valid_hash_algos hf)
             @ '' (rule: '' @ title @ '')''))
         else Inr (DAnyOf (map (\<lambda>(field, vs). DAllOf [field_item field vs]) by_field)))"

definition is_string_value :: "sigma_value \<Rightarrow> bool" where
  "is_string_value v = (case v of SvString _ \<Rightarrow> True | _ \<Rightarrow> False)"

definition parses_hashes :: "(detection_item \<Rightarrow> bool) \<Rightarrow> hashes_fields \<Rightarrow> detection_item \<Rightarrow> bool" where
  "parses_hashes P hf item =
     (opt_is (\<lambda>n. n \<in> set (hf_field_to_parse hf)) (fs_name (di_field item))
      \<and> list_all is_string_value (di_values item)
      \<and> MdFieldRef \<notin> set (fs_modifiers (di_field item)) \<and> P item)"

definition decompose_hash_items ::
    "pipe_env \<Rightarrow> (detection_item \<Rightarrow> bool) \<Rightarrow> hashes_fields \<Rightarrow> string \<Rightarrow> detection_item list
      \<Rightarrow> eval_error + detection" where
  "decompose_hash_items pl P hf title items =
     (let kept = filter (\<lambda>i. \<not> parses_hashes P hf i) items
      in result_map
           (\<lambda>groups.
              if groups = [] then DAllOf kept
              else
                (case (if kept = [] then groups else DAllOf kept # groups) of
                   [p] \<Rightarrow> p
                 | ps \<Rightarrow> DAnd ps))
           (collect_results (hash_value_group pl hf title) (filter (parses_hashes P hf) items)))"

definition decompose_hashes_in_detection ::
    "pipe_env \<Rightarrow> (detection_item \<Rightarrow> bool) \<Rightarrow> hashes_fields \<Rightarrow> string \<Rightarrow> detection \<Rightarrow> eval_error + detection"
where
  "decompose_hashes_in_detection pl P hf title d = try_items (decompose_hash_items pl P hf title) d"

definition decompose_hashes_field ::
    "pipe_env \<Rightarrow> item_conditions \<Rightarrow> name_conditions \<Rightarrow> hashes_fields \<Rightarrow> 'y sigma_rule \<Rightarrow> pipeline_state
      \<Rightarrow> eval_error + 'y sigma_rule" where
  "decompose_hashes_field pl dcs fcs hf rule st =
     try_named_detections
       (decompose_hashes_in_detection pl (item_conditions_match pl st dcs fcs) hf (sr_title rule)) rule"

section \<open>Map strings\<close>

definition map_string_first :: "(string \<times> string list) list \<Rightarrow> sigma_value \<Rightarrow> sigma_value" where
  "map_string_first m v =
     (case v of
        SvString s \<Rightarrow>
          (case map_of m (plain_or_original s) of
             Some (r # _) \<Rightarrow> SvString (sigma_string_new r)
           | _ \<Rightarrow> v)
      | _ \<Rightarrow> v)"

definition map_string_extra ::
    "(string \<times> string list) list \<Rightarrow> nat \<times> sigma_value \<Rightarrow> (nat \<times> sigma_value list) option" where
  "map_string_extra m iv =
     (case iv of (i, v) \<Rightarrow>
        (case v of
           SvString s \<Rightarrow>
             (case map_of m (plain_or_original s) of
                Some (_ # r # rs) \<Rightarrow> Some (i, map (\<lambda>t. SvString (sigma_string_new t)) (r # rs))
              | _ \<Rightarrow> None)
         | _ \<Rightarrow> None))"

definition insert_at :: "nat \<Rightarrow> 'a \<Rightarrow> 'a list \<Rightarrow> 'a list" where
  "insert_at i x xs = take i xs @ x # drop i xs"

definition insert_extras :: "nat \<times> 'a list \<Rightarrow> 'a list \<Rightarrow> 'a list" where
  "insert_extras e vs =
     (case e of (i, extras) \<Rightarrow>
        fold (\<lambda>(j, v). insert_at (i + 1 + j) v) (List.enumerate 0 extras) vs)"

definition map_string_expand_values ::
    "(string \<times> string list) list \<Rightarrow> sigma_value list \<Rightarrow> sigma_value list" where
  "map_string_expand_values m vs =
     fold insert_extras (rev (filter_map (map_string_extra m) (List.enumerate 0 vs)))
       (map (map_string_first m) vs)"

definition map_strings_in_detection ::
    "(detection_item \<Rightarrow> bool) \<Rightarrow> (string \<times> string list) list \<Rightarrow> detection \<Rightarrow> detection" where
  "map_strings_in_detection P m d = map_detection (on_values P (map_string_expand_values m)) (map_string_expand_values m) d"

definition map_string_values ::
    "pipe_env \<Rightarrow> item_conditions \<Rightarrow> name_conditions \<Rightarrow> (string \<times> string list) list \<Rightarrow> 'y sigma_rule \<Rightarrow> pipeline_state
      \<Rightarrow> 'y sigma_rule" where
  "map_string_values pl dcs fcs m rule st =
     map_named_detections (map_strings_in_detection (item_conditions_match pl st dcs fcs) m) rule"

section \<open>Set and convert values\<close>

definition set_values_in_detection ::
    "(detection_item \<Rightarrow> bool) \<Rightarrow> sigma_value \<Rightarrow> detection \<Rightarrow> detection" where
  "set_values_in_detection P v d = map_detection (on_values P (\<lambda>_. [v])) (\<lambda>vs. vs) d"

definition set_detection_item_values ::
    "pipe_env \<Rightarrow> item_conditions \<Rightarrow> name_conditions \<Rightarrow> sigma_value \<Rightarrow> 'y sigma_rule \<Rightarrow> pipeline_state
      \<Rightarrow> 'y sigma_rule" where
  "set_detection_item_values pl dcs fcs v rule st =
     map_named_detections (set_values_in_detection (item_conditions_match pl st dcs fcs) v) rule"

definition convert_to_string :: "ext_env \<Rightarrow> sigma_value \<Rightarrow> sigma_value" where
  "convert_to_string env v =
     (case v of
        SvString _ \<Rightarrow> v
      | SvInteger n \<Rightarrow> SvString (sigma_string_new (show_int n))
      | SvFloat f \<Rightarrow> SvString (sigma_string_new (f64_display env f))
      | SvBool b \<Rightarrow> SvString (sigma_string_new (if b then ''true'' else ''false''))
      | SvNull \<Rightarrow> SvString (sigma_string_new ''null''))"

definition convert_to_integer :: "sigma_value \<Rightarrow> sigma_value" where
  "convert_to_integer v =
     (case v of
        SvString s \<Rightarrow> (case parse_i64 (plain_or_original s) of Some i \<Rightarrow> SvInteger i | None \<Rightarrow> v)
      | SvFloat f \<Rightarrow> SvInteger (f64_as_i64 f)
      | SvBool b \<Rightarrow> SvInteger (if b then 1 else 0)
      | _ \<Rightarrow> v)"

definition convert_to_float :: "ext_env \<Rightarrow> sigma_value \<Rightarrow> sigma_value" where
  "convert_to_float env v =
     (case v of
        SvString s \<Rightarrow> (case f64_from_str env (plain_or_original s) of Some f \<Rightarrow> SvFloat f | None \<Rightarrow> v)
      | SvInteger n \<Rightarrow> SvFloat (f64_of_int n)
      | SvBool b \<Rightarrow> SvFloat (Fin (if b then 1 else 0))
      | _ \<Rightarrow> v)"

definition convert_to_bool :: "ext_env \<Rightarrow> sigma_value \<Rightarrow> sigma_value" where
  "convert_to_bool env v =
     (case v of
        SvString s \<Rightarrow>
          (let t = to_lowercase env (plain_or_original s)
           in if t \<in> {''true'', ''1'', ''yes''} then SvBool True
              else if t \<in> {''false'', ''0'', ''no''} then SvBool False else v)
      | SvInteger n \<Rightarrow> SvBool (n \<noteq> 0)
      | SvFloat f \<Rightarrow> SvBool (\<not> f64_eq f (Fin 0))
      | _ \<Rightarrow> v)"

definition convert_value :: "ext_env \<Rightarrow> string \<Rightarrow> sigma_value \<Rightarrow> sigma_value" where
  "convert_value env target v =
     (if target \<in> {''str'', ''string''} then convert_to_string env v
      else if target \<in> {''int'', ''integer''} then convert_to_integer v
      else if target = ''float'' then convert_to_float env v
      else if target \<in> {''bool'', ''boolean''} then convert_to_bool env v
      else v)"

definition convert_types_in_detection ::
    "(detection_item \<Rightarrow> bool) \<Rightarrow> ext_env \<Rightarrow> string \<Rightarrow> detection \<Rightarrow> detection" where
  "convert_types_in_detection P env target d = map_detection (on_values P (map (convert_value env target))) (\<lambda>vs. vs) d"

definition convert_detection_item_types ::
    "pipe_env \<Rightarrow> item_conditions \<Rightarrow> name_conditions \<Rightarrow> string \<Rightarrow> 'y sigma_rule \<Rightarrow> pipeline_state
      \<Rightarrow> 'y sigma_rule" where
  "convert_detection_item_types pl dcs fcs target rule st =
     map_named_detections (convert_types_in_detection (item_conditions_match pl st dcs fcs) (pl_ext pl) target) rule"

section \<open>Case\<close>

definition case_text :: "pipe_env \<Rightarrow> string \<Rightarrow> string \<Rightarrow> string option" where
  "case_text pl case_type t =
     (if case_type \<in> {''lower'', ''lowercase''} then Some (to_lowercase (pl_ext pl) t)
      else if case_type \<in> {''upper'', ''uppercase''} then Some (to_uppercase pl t)
      else if case_type = ''snake_case'' then Some (apply_named_string_fn pl ''snake_case'' t)
      else None)"

definition apply_case_to_value :: "pipe_env \<Rightarrow> string \<Rightarrow> sigma_value \<Rightarrow> sigma_value" where
  "apply_case_to_value pl case_type v =
     (case v of
        SvString s \<Rightarrow>
          (case case_text pl case_type (original s) of
             Some t \<Rightarrow> if t \<noteq> original s then SvString (sigma_string_new t) else v
           | None \<Rightarrow> v)
      | _ \<Rightarrow> v)"

definition apply_case_in_detection ::
    "(detection_item \<Rightarrow> bool) \<Rightarrow> pipe_env \<Rightarrow> string \<Rightarrow> detection \<Rightarrow> detection" where
  "apply_case_in_detection P pl case_type d = map_detection (on_values P (map (apply_case_to_value pl case_type))) (map (apply_case_to_value pl case_type)) d"

definition apply_case_transformation ::
    "pipe_env \<Rightarrow> item_conditions \<Rightarrow> name_conditions \<Rightarrow> string \<Rightarrow> 'y sigma_rule \<Rightarrow> pipeline_state
      \<Rightarrow> 'y sigma_rule" where
  "apply_case_transformation pl dcs fcs case_type rule st =
     map_named_detections (apply_case_in_detection (item_conditions_match pl st dcs fcs) pl case_type) rule"

section \<open>Matching and changed items\<close>

fun detection_has_matching_item :: "(detection_item \<Rightarrow> bool) \<Rightarrow> detection \<Rightarrow> bool" where
  "detection_has_matching_item P (DAllOf items) = list_ex P items"
| "detection_has_matching_item P (DAnyOf subs) = list_ex (detection_has_matching_item P) subs"
| "detection_has_matching_item P (DArrayMatch _ _ body) = detection_has_matching_item P body"
| "detection_has_matching_item P (DAnd subs) = list_ex (detection_has_matching_item P) subs"
| "detection_has_matching_item P (DConditional named _) =
     list_ex (\<lambda>(_, d). detection_has_matching_item P d) named"
| "detection_has_matching_item P (DKeywords _) = False"

definition rule_has_matching_item ::
    "pipe_env \<Rightarrow> item_conditions \<Rightarrow> name_conditions \<Rightarrow> 'y sigma_rule \<Rightarrow> pipeline_state \<Rightarrow> bool" where
  "rule_has_matching_item pl dcs fcs rule st =
     list_ex (\<lambda>(_, d). detection_has_matching_item (item_conditions_match pl st dcs fcs) d)
       (dets_named (sr_detection rule))"

type_synonym item_change = "detection_item option \<times> detection_item"

definition diff_items :: "detection_item list \<Rightarrow> detection_item list \<Rightarrow> item_change list" where
  "diff_items old new =
     map (\<lambda>(o', n). (Some o', n)) (filter (\<lambda>(o', n). \<not> detection_item_eq o' n) (zip old new))"

fun items_of :: "detection \<Rightarrow> detection_item list" where
  "items_of (DAllOf items) = items"
| "items_of (DAnyOf subs) = concat (map items_of subs)"
| "items_of (DArrayMatch _ _ body) = items_of body"
| "items_of (DAnd subs) = concat (map items_of subs)"
| "items_of (DConditional named _) = concat (map (\<lambda>(_, d). items_of d) named)"
| "items_of (DKeywords _) = []"

definition new_items :: "detection \<Rightarrow> detection \<Rightarrow> item_change list" where
  "new_items old new =
     map (Pair None)
       (filter (\<lambda>i. \<not> list_ex (\<lambda>o'. detection_item_eq o' i) (items_of old)) (items_of new))"

fun all_of_items :: "nat \<Rightarrow> detection \<Rightarrow> detection_item list option" where
  "all_of_items n (DAllOf items) = (if length items = n then Some items else None)"
| "all_of_items n _ = None"

lemma member_size: "x \<in> set xs \<Longrightarrow> size x < Suc (size_list size xs)"
  using size_list_estimation' [of x xs "size x" size] by simp

lemma entry_size: "(k, x) \<in> set xs \<Longrightarrow> size x < Suc (size_list (size_prod (\<lambda>k. 0) size) xs)"
  using size_list_estimation' [of "(k, x)" xs "size x" "size_prod (\<lambda>k. 0) size"] by simp

function (sequential) diff_detection :: "detection \<Rightarrow> detection \<Rightarrow> item_change list" where
  "diff_detection (DAllOf old) (DAllOf new) =
     (if length old = length new then diff_items old new else new_items (DAllOf old) (DAllOf new))"
| "diff_detection (DAllOf old) (DAnyOf branches) =
     (case collect_options (all_of_items (length old)) branches of
        Some news \<Rightarrow> concat (map (diff_items old) news)
      | None \<Rightarrow> new_items (DAllOf old) (DAnyOf branches))"
| "diff_detection (DAnyOf old) (DAnyOf new) =
     (if length old = length new then concat (map (\<lambda>(o', n). diff_detection o' n) (zip old new))
      else new_items (DAnyOf old) (DAnyOf new))"
| "diff_detection (DAnd old) (DAnd new) =
     (if length old = length new then concat (map (\<lambda>(o', n). diff_detection o' n) (zip old new))
      else new_items (DAnd old) (DAnd new))"
| "diff_detection (DArrayMatch _ _ old) (DArrayMatch _ _ new) = diff_detection old new"
| "diff_detection (DConditional old _) (DConditional new _) =
     concat (map (\<lambda>(k, n). case map_of old k of Some o' \<Rightarrow> diff_detection o' n | None \<Rightarrow> []) new)"
| "diff_detection old new = new_items old new"
  by pat_completeness auto

termination
  by (relation "measure (size \<circ> snd)")
     (auto dest!: set_zip_rightD simp: member_size less_SucI entry_size)

definition track_detection_item_changes ::
    "(string \<times> detection) list \<Rightarrow> (string \<times> detection) list \<Rightarrow> pipeline_state \<Rightarrow> pipeline_state" where
  "track_detection_item_changes before after st =
     (let changes = concat (map (\<lambda>(name, d).
            case map_of before name of Some p \<Rightarrow> diff_detection p d | None \<Rightarrow> []) after)
      in fold (\<lambda>(p, c). track_detection_item_change p c (pst_current_item_id st)) changes st)"

end
