(* ===== verification/Pipeline.thy ===== *)
theory Pipeline
  imports TransformValues
begin

text \<open>
  Processing pipelines (\<open>rsigma-eval/src/pipeline/mod.rs\<close>) and the 26 transformations
  (\<open>rsigma-eval/src/pipeline/transformations/mod.rs\<close>).  A step returns whether it applied, the rule
  and the pipeline state; an error leaves neither, as every caller drops both.
\<close>

section \<open>Types\<close>

datatype transformation =
  TfFieldNameMapping "(string \<times> string list) list"
| TfFieldNamePrefixMapping "(string \<times> string) list"
| TfFieldNamePrefix string
| TfFieldNameSuffix string
| TfDropDetectionItem
| TfAddCondition added_condition
| TfChangeLogsource "string option" "string option" "string option"
| TfReplaceString string string_replace
| TfValuePlaceholders bool "string list option" "string list option"
| TfWildcardPlaceholders "string list option" "string list option"
| TfQueryExpressionPlaceholders string
| TfSetState string json_value
| TfRuleFailure string
| TfDetectionItemFailure string
| TfFieldNameTransform string "(string \<times> string) list"
| TfHashesFields hashes_fields
| TfMapString "(string \<times> string list) list"
| TfSetValue sigma_value
| TfConvertType string
| TfRegex
| TfAddField string
| TfRemoveField string
| TfSetField "string list"
| TfSetCustomAttribute string string
| TfCaseTransformation string
| TfNest "transformation_item list"
| TfInclude string
and transformation_item =
  TransformationItem
    (ti_id: "string option")
    (ti_transformation: transformation)
    (ti_rule_conditions: "rule_condition condition_set")
    (ti_detection_item_conditions: "detection_item_condition condition_set")
    (ti_field_name_conditions: "field_name_condition condition_set")

datatype finalizer = FnConcat string string string | FnJson "nat option" | FnTemplate string

datatype ref_location = RlVar string | RlTransformationField nat string | RlInclude nat

record source_ref =
  sf_source_id :: string
  sf_sub_path :: "string option"
  sf_location :: ref_location
  sf_raw_template :: string

record pipeline =
  pp_name :: string
  pp_priority :: int
  pp_vars :: "(string \<times> string list) list"
  pp_transformations :: "transformation_item list"
  pp_finalizers :: "finalizer list"
  pp_source_refs :: "source_ref list"

section \<open>Field name mappers\<close>

definition mapping_names :: "(string \<times> string list) list \<Rightarrow> field_mapper" where
  "mapping_names m name = map_of m name"

definition prefix_mapping_names :: "(string \<times> string) list \<Rightarrow> field_mapper" where
  "prefix_mapping_names m name =
     find_map (\<lambda>(p, replacement). map_option (\<lambda>r. [replacement @ r]) (strip_prefix name p)) m"

definition prefix_names :: "string \<Rightarrow> field_mapper" where
  "prefix_names p name = Some [p @ name]"

definition suffix_names :: "string \<Rightarrow> field_mapper" where
  "suffix_names s name = Some [name @ s]"

definition transform_names :: "pipe_env \<Rightarrow> string \<Rightarrow> (string \<times> string) list \<Rightarrow> field_mapper" where
  "transform_names pl func m name =
     Some [case map_of m name of Some mapped \<Rightarrow> mapped | None \<Rightarrow> apply_named_string_fn pl func name]"

section \<open>Application to detection rules\<close>

type_synonym 'n applied = "eval_error + bool \<times> 'n yaml_value sigma_rule \<times> pipeline_state"

definition applied_rule :: "eval_error + 'n yaml_value sigma_rule \<Rightarrow> pipeline_state \<Rightarrow> 'n applied" where
  "applied_rule r st = result_map (\<lambda>rule. (True, rule, st)) r"

definition rule_conditions_hold ::
    "pipe_env \<Rightarrow> transformation_item \<Rightarrow> 'y sigma_rule \<Rightarrow> pipeline_state \<Rightarrow> bool" where
  "rule_conditions_hold pl item rule st =
     (cs_conditions (ti_rule_conditions item) = []
      \<or> condition_set_matches pl (ti_rule_conditions item) (\<lambda>c. matches_rule (pl_ext pl) c rule st))"

definition change_logsource ::
    "string option \<Rightarrow> string option \<Rightarrow> string option \<Rightarrow> log_source \<Rightarrow> log_source" where
  "change_logsource category product service ls =
     ls \<lparr> ls_category := (case category of Some c \<Rightarrow> Some c | None \<Rightarrow> ls_category ls),
          ls_product := (case product of Some p \<Rightarrow> Some p | None \<Rightarrow> ls_product ls),
          ls_service := (case service of Some s \<Rightarrow> Some s | None \<Rightarrow> ls_service ls) \<rparr>"

definition failure_message :: "string \<Rightarrow> string \<Rightarrow> string \<Rightarrow> string \<Rightarrow> eval_error" where
  "failure_message kind message what title =
     EePipeline (kind @ '': '' @ message @ '' ('' @ what @ '': '' @ title @ '')'')"

definition mark_if :: "bool \<Rightarrow> string option \<Rightarrow> pipeline_state \<Rightarrow> pipeline_state" where
  "mark_if applied i st = (case i of Some x \<Rightarrow> if applied then mark_applied x st else st | None \<Rightarrow> st)"

text \<open>The transformations other than a nested pipeline.\<close>

definition apply_field_names ::
    "pipe_env \<Rightarrow> item_conditions \<Rightarrow> name_conditions \<Rightarrow> field_mapper \<Rightarrow> 'n yaml_value sigma_rule
      \<Rightarrow> pipeline_state \<Rightarrow> 'n applied" where
  "apply_field_names pl dcs fcs f rule st =
     result_map (\<lambda>(rule', st'). (True, rule', st')) (apply_field_name_transform pl dcs fcs f rule st)"

fun apply_simple ::
    "pipe_env \<Rightarrow> transformation \<Rightarrow> item_conditions \<Rightarrow> name_conditions \<Rightarrow> 'n yaml_value sigma_rule
      \<Rightarrow> pipeline_state \<Rightarrow> 'n applied" where
  "apply_simple pl (TfFieldNameMapping m) dcs fcs rule st =
     apply_field_names pl dcs fcs (mapping_names m) rule st"
| "apply_simple pl (TfFieldNamePrefixMapping m) dcs fcs rule st =
     apply_field_names pl dcs fcs (prefix_mapping_names m) rule st"
| "apply_simple pl (TfFieldNamePrefix p) dcs fcs rule st =
     apply_field_names pl dcs fcs (prefix_names p) rule st"
| "apply_simple pl (TfFieldNameSuffix s) dcs fcs rule st =
     apply_field_names pl dcs fcs (suffix_names s) rule st"
| "apply_simple pl TfDropDetectionItem dcs fcs rule st =
     Inr (True, drop_detection_items pl dcs fcs rule st, st)"
| "apply_simple pl (TfAddCondition added) dcs fcs rule st = applied_rule (add_conditions added rule) st"
| "apply_simple pl (TfChangeLogsource c p s) dcs fcs rule st =
     Inr (True, rule \<lparr> sr_logsource := change_logsource c p s (sr_logsource rule) \<rparr>, st)"
| "apply_simple pl (TfReplaceString re rp) dcs fcs rule st =
     (if re_new_ok (pl_ext pl) re
      then Inr (True, replace_strings_in_rule pl dcs fcs re rp rule st, st)
      else Inl (EePipeline (''bad regex: '' @ pl_re_error pl re)))"
| "apply_simple pl (TfValuePlaceholders allow incl excl) dcs fcs rule st =
     applied_rule (expand_placeholders_in_rule
       \<lparr> pe_vars = pst_vars st, pe_wildcard = False, pe_allow_unresolved = allow,
          pe_include = incl, pe_exclude = excl \<rparr> rule) st"
| "apply_simple pl (TfWildcardPlaceholders incl excl) dcs fcs rule st =
     applied_rule (expand_placeholders_in_rule
       \<lparr> pe_vars = pst_vars st, pe_wildcard = True, pe_allow_unresolved = False,
          pe_include = incl, pe_exclude = excl \<rparr> rule) st"
| "apply_simple pl (TfQueryExpressionPlaceholders e) dcs fcs rule st =
     Inr (True, rule, set_state ''query_expression_template'' (JString e) st)"
| "apply_simple pl (TfSetState key v) dcs fcs rule st = Inr (True, rule, set_state key v st)"
| "apply_simple pl (TfRuleFailure message) dcs fcs rule st =
     Inl (failure_message ''rule failure'' message ''rule'' (sr_title rule))"
| "apply_simple pl (TfDetectionItemFailure message) dcs fcs rule st =
     (if rule_has_matching_item pl dcs fcs rule st
      then Inl (failure_message ''detection item failure'' message ''rule'' (sr_title rule))
      else Inr (False, rule, st))"
| "apply_simple pl (TfFieldNameTransform func m) dcs fcs rule st =
     apply_field_names pl dcs fcs (transform_names pl func m) rule st"
| "apply_simple pl (TfHashesFields hf) dcs fcs rule st =
     applied_rule (decompose_hashes_field pl dcs fcs hf rule st) st"
| "apply_simple pl (TfMapString m) dcs fcs rule st = Inr (True, map_string_values pl dcs fcs m rule st, st)"
| "apply_simple pl (TfSetValue v) dcs fcs rule st =
     Inr (True, set_detection_item_values pl dcs fcs v rule st, st)"
| "apply_simple pl (TfConvertType target) dcs fcs rule st =
     Inr (True, convert_detection_item_types pl dcs fcs target rule st, st)"
| "apply_simple pl TfRegex dcs fcs rule st = Inr (False, rule, st)"
| "apply_simple pl (TfAddField field) dcs fcs rule st =
     Inr (True, (if field \<in> set (sr_fields rule) then rule
                 else rule \<lparr> sr_fields := sr_fields rule @ [field] \<rparr>), st)"
| "apply_simple pl (TfRemoveField field) dcs fcs rule st =
     Inr (True, rule \<lparr> sr_fields := filter (\<lambda>f. f \<noteq> field) (sr_fields rule) \<rparr>, st)"
| "apply_simple pl (TfSetField fs) dcs fcs rule st = Inr (True, rule \<lparr> sr_fields := fs \<rparr>, st)"
| "apply_simple pl (TfSetCustomAttribute a v) dcs fcs rule st =
     Inr (True, rule \<lparr> sr_custom_attributes := map_insert a (YString v) (sr_custom_attributes rule) \<rparr>, st)"
| "apply_simple pl (TfCaseTransformation c) dcs fcs rule st =
     Inr (True, apply_case_transformation pl dcs fcs c rule st, st)"
| "apply_simple pl (TfNest items) dcs fcs rule st = Inr (True, rule, st)"
| "apply_simple pl (TfInclude t) dcs fcs rule st = Inr (False, rule, st)"

text \<open>\<open>apply_with_condition_sets\<close>, \<open>apply_tracked\<close>, and the loop over the items of a nested pipeline.\<close>

definition track_changes ::
    "'y sigma_rule \<Rightarrow> pipeline_state \<Rightarrow> bool \<times> 'y sigma_rule \<times> pipeline_state
      \<Rightarrow> bool \<times> 'y sigma_rule \<times> pipeline_state" where
  "track_changes before st x =
     (case x of (applied, rule, st') \<Rightarrow>
        (applied, rule,
         if pst_track_detection_items st then
           track_detection_item_changes (dets_named (sr_detection before)) (dets_named (sr_detection rule)) st'
         else st'))"

fun apply_with_condition_sets ::
    "pipe_env \<Rightarrow> transformation \<Rightarrow> item_conditions \<Rightarrow> name_conditions \<Rightarrow> 'n yaml_value sigma_rule
      \<Rightarrow> pipeline_state \<Rightarrow> 'n applied"
and apply_tracked ::
    "pipe_env \<Rightarrow> transformation_item \<Rightarrow> 'n yaml_value sigma_rule \<Rightarrow> pipeline_state \<Rightarrow> 'n applied"
and nest_loop ::
    "pipe_env \<Rightarrow> transformation_item list \<Rightarrow> string option \<Rightarrow> 'n yaml_value sigma_rule \<Rightarrow> pipeline_state
      \<Rightarrow> eval_error + 'n yaml_value sigma_rule \<times> pipeline_state"
where
  "apply_with_condition_sets pl t dcs fcs rule st =
     (case t of
        TfNest items \<Rightarrow>
          result_map (\<lambda>(rule', st'). (True, rule', st'))
            (nest_loop pl items (pst_current_item_id st) rule st)
      | _ \<Rightarrow> apply_simple pl t dcs fcs rule st)"
| "apply_tracked pl (TransformationItem i t rc dc fc) rule st =
     result_map (track_changes rule st) (apply_with_condition_sets pl t [dc] [fc] rule st)"
| "nest_loop pl [] outer rule st = Inr (rule, st)"
| "nest_loop pl (item # items) outer rule st =
     (if \<not> rule_conditions_hold pl item rule st then nest_loop pl items outer rule st
      else
        result_bind (apply_tracked pl item rule (st \<lparr> pst_current_item_id := ti_id item \<rparr>))
          (\<lambda>(applied, rule', st').
             nest_loop pl items outer rule'
               (mark_if applied (ti_id item) (st' \<lparr> pst_current_item_id := outer \<rparr>))))"

declare apply_with_condition_sets.simps [simp del]

fun is_item_applied_condition :: "detection_item_condition \<Rightarrow> bool" where
  "is_item_applied_condition (DcProcessingItemApplied _) = True"
| "is_item_applied_condition _ = False"

fun uses_detection_item_applied :: "transformation_item list \<Rightarrow> bool"
and item_uses_applied :: "transformation_item \<Rightarrow> bool"
and nest_uses_applied :: "transformation \<Rightarrow> bool" where
  "uses_detection_item_applied [] = False"
| "uses_detection_item_applied (item # items) =
     (item_uses_applied item \<or> uses_detection_item_applied items)"
| "item_uses_applied (TransformationItem i t rc dc fc) =
     (list_ex (\<lambda>(_, c). is_item_applied_condition c) (cs_conditions dc) \<or> nest_uses_applied t)"
| "nest_uses_applied t = (case t of TfNest items \<Rightarrow> uses_detection_item_applied items | _ \<Rightarrow> False)"

text \<open>\<open>Pipeline::apply\<close>.  Its loop is that of a nested pipeline with no item around it.\<close>

definition pipeline_apply ::
    "pipe_env \<Rightarrow> pipeline \<Rightarrow> 'n yaml_value sigma_rule \<Rightarrow> pipeline_state
      \<Rightarrow> eval_error + 'n yaml_value sigma_rule \<times> pipeline_state" where
  "pipeline_apply pl p rule st =
     nest_loop pl (pp_transformations p) None rule
       ((reset_rule st) \<lparr> pst_track_detection_items := uses_detection_item_applied (pp_transformations p) \<rparr>)"

fun apply_to_rules ::
    "pipe_env \<Rightarrow> pipeline \<Rightarrow> 'n yaml_value sigma_rule list \<Rightarrow> pipeline_state
      \<Rightarrow> eval_error + 'n yaml_value sigma_rule list" where
  "apply_to_rules pl p [] st = Inr []"
| "apply_to_rules pl p (rule # rules) st =
     result_bind (pipeline_apply pl p rule st)
       (\<lambda>(rule', st'). result_map ((#) rule') (apply_to_rules pl p rules st'))"

definition apply_to_collection ::
    "pipe_env \<Rightarrow> pipeline \<Rightarrow> 'n yaml_value sigma_rule list \<Rightarrow> eval_error + 'n yaml_value sigma_rule list" where
  "apply_to_collection pl p rules = apply_to_rules pl p rules (pipeline_state_new (pp_vars p))"

definition is_dynamic :: "pipeline \<Rightarrow> bool" where
  "is_dynamic p = (pp_source_refs p \<noteq> [])"

section \<open>Application to correlation rules\<close>

definition rename_with ::
    "pipe_env \<Rightarrow> pipeline_state \<Rightarrow> field_name_condition condition_set \<Rightarrow> field_mapper \<Rightarrow> field_mapper" where
  "rename_with pl st fc f name =
     (case f name of
        Some names \<Rightarrow> if names \<noteq> [] \<and> field_conditions_match pl st [fc] name then Some names else None
      | None \<Rightarrow> None)"

text \<open>A name in a place for one name: its new name, and the rename.\<close>

definition rename_scalar ::
    "field_mapper \<Rightarrow> (nat \<Rightarrow> string) \<Rightarrow> string \<Rightarrow> eval_error + string \<times> field_rename list" where
  "rename_scalar rename message field =
     (case rename field of
        None \<Rightarrow> Inr (field, [])
      | Some names \<Rightarrow>
          if 1 < length names then Inl (EePipeline (message (length names)))
          else Inr (hd names, [(field, names)]))"

definition rename_alias :: "field_mapper \<Rightarrow> field_alias \<Rightarrow> eval_error + field_alias \<times> field_rename list" where
  "rename_alias rename al =
     result_map (\<lambda>m. (al \<lparr> fa_mapping := map (\<lambda>(k, f, _). (k, f)) m \<rparr>, concat (map (\<lambda>(_, _, r). r) m)))
       (collect_results
          (\<lambda>(rule_ref, field). result_map (Pair rule_ref)
             (rename_scalar rename
                (\<lambda>n. ''field_name_mapping one-to-many cannot be applied to correlation alias mapping (alias ''
                     @ quoted (fa_alias al) @ '', rule '' @ quoted rule_ref @ '', field '' @ quoted field
                     @ '' maps to '' @ show_nat n @ '' alternatives)'') field))
          (fa_mapping al))"

definition rename_group_by :: "field_mapper \<Rightarrow> string list \<Rightarrow> string list \<Rightarrow> string list \<times> field_rename list" where
  "rename_group_by rename alias_names fs =
     (let step = (\<lambda>f. if f \<in> set alias_names then ([f], [])
                      else (case rename f of None \<Rightarrow> ([f], []) | Some names \<Rightarrow> (names, [(f, names)])))
      in (concat (map (fst \<circ> step) fs), concat (map (snd \<circ> step) fs)))"

definition rename_threshold ::
    "field_mapper \<Rightarrow> correlation_condition \<Rightarrow> eval_error + correlation_condition \<times> field_rename list" where
  "rename_threshold rename c =
     (case c of
        Threshold ps (Some fs) pct \<Rightarrow>
          result_map (\<lambda>m. (Threshold ps (Some (map fst m)) pct, concat (map snd m)))
            (collect_results
               (\<lambda>f. rename_scalar rename
                  (\<lambda>n. ''field_name_mapping one-to-many cannot be applied to correlation condition field reference (''
                       @ quoted f @ '' maps to '' @ show_nat n @ '' alternatives)'') f) fs)
      | _ \<Rightarrow> Inr (c, []))"

definition map_correlation_fields ::
    "pipe_env \<Rightarrow> field_name_condition condition_set \<Rightarrow> field_mapper \<Rightarrow> 'y correlation_rule \<Rightarrow> pipeline_state
      \<Rightarrow> eval_error + 'y correlation_rule \<times> pipeline_state" where
  "map_correlation_fields pl fc f corr st =
     (let rename = rename_with pl st fc f
      in case rename_field_list pl st [fc] f (cr_fields corr) of (names, renames) \<Rightarrow>
           result_bind (collect_results (rename_alias rename) (cr_aliases corr))
             (\<lambda>als.
                case rename_group_by rename (map fa_alias (cr_aliases corr)) (cr_group_by corr) of
                  (group_by, grenames) \<Rightarrow>
                    result_map
                      (\<lambda>(c, crenames).
                         (corr \<lparr> cr_fields := names, cr_group_by := group_by, cr_condition := c,
                                 cr_aliases := map fst als \<rparr>,
                          track_field_renames
                            (renames @ concat (map snd als) @ grenames @ crenames) st))
                      (rename_threshold rename (cr_condition corr))))"

definition correlation_conditions_hold ::
    "pipe_env \<Rightarrow> transformation_item \<Rightarrow> pipeline_state \<Rightarrow> bool" where
  "correlation_conditions_hold pl item st =
     (cs_conditions (ti_rule_conditions item) = []
      \<or> condition_set_matches pl (ti_rule_conditions item) (\<lambda>c. matches_correlation c st))"

type_synonym 'n corr_applied = "eval_error + bool \<times> 'n yaml_value correlation_rule \<times> pipeline_state"

definition apply_correlation_names ::
    "pipe_env \<Rightarrow> field_name_condition condition_set \<Rightarrow> field_mapper \<Rightarrow> 'n yaml_value correlation_rule
      \<Rightarrow> pipeline_state \<Rightarrow> 'n corr_applied" where
  "apply_correlation_names pl fc f corr st =
     result_map (\<lambda>(corr', st'). (True, corr', st')) (map_correlation_fields pl fc f corr st)"

fun apply_correlation_simple ::
    "pipe_env \<Rightarrow> transformation \<Rightarrow> field_name_condition condition_set \<Rightarrow> 'n yaml_value correlation_rule
      \<Rightarrow> pipeline_state \<Rightarrow> 'n corr_applied" where
  "apply_correlation_simple pl (TfFieldNameMapping m) fc corr st =
     apply_correlation_names pl fc (mapping_names m) corr st"
| "apply_correlation_simple pl (TfFieldNamePrefixMapping m) fc corr st =
     apply_correlation_names pl fc (prefix_mapping_names m) corr st"
| "apply_correlation_simple pl (TfFieldNamePrefix p) fc corr st =
     apply_correlation_names pl fc (prefix_names p) corr st"
| "apply_correlation_simple pl (TfFieldNameSuffix s) fc corr st =
     apply_correlation_names pl fc (suffix_names s) corr st"
| "apply_correlation_simple pl (TfFieldNameTransform func m) fc corr st =
     apply_correlation_names pl fc (transform_names pl func m) corr st"
| "apply_correlation_simple pl (TfSetCustomAttribute a v) fc corr st =
     Inr (True, corr \<lparr> cr_custom_attributes := map_insert a (YString v) (cr_custom_attributes corr) \<rparr>, st)"
| "apply_correlation_simple pl (TfSetState key v) fc corr st = Inr (True, corr, set_state key v st)"
| "apply_correlation_simple pl (TfRuleFailure message) fc corr st =
     Inl (failure_message ''rule failure'' message ''correlation'' (cr_title corr))"
| "apply_correlation_simple pl _ fc corr st = Inr (False, corr, st)"

fun apply_correlation_items ::
    "pipe_env \<Rightarrow> transformation_item list \<Rightarrow> 'n yaml_value correlation_rule \<Rightarrow> pipeline_state
      \<Rightarrow> eval_error + 'n yaml_value correlation_rule \<times> pipeline_state"
and apply_correlation_item ::
    "pipe_env \<Rightarrow> transformation_item \<Rightarrow> 'n yaml_value correlation_rule \<Rightarrow> pipeline_state \<Rightarrow> 'n corr_applied"
and apply_correlation_transformation ::
    "pipe_env \<Rightarrow> transformation \<Rightarrow> field_name_condition condition_set \<Rightarrow> 'n yaml_value correlation_rule
      \<Rightarrow> pipeline_state \<Rightarrow> 'n corr_applied"
where
  "apply_correlation_items pl [] corr st = Inr (corr, st)"
| "apply_correlation_items pl (item # items) corr st =
     (if \<not> correlation_conditions_hold pl item st then apply_correlation_items pl items corr st
      else
        result_bind (apply_correlation_item pl item corr (st \<lparr> pst_current_item_id := ti_id item \<rparr>))
          (\<lambda>(applied, corr', st').
             apply_correlation_items pl items corr'
               (mark_if applied (ti_id item) (st' \<lparr> pst_current_item_id := pst_current_item_id st \<rparr>))))"
| "apply_correlation_item pl (TransformationItem i t rc dc fc) corr st =
     apply_correlation_transformation pl t fc corr st"
| "apply_correlation_transformation pl t fc corr st =
     (case t of
        TfNest items \<Rightarrow>
          result_map (\<lambda>(corr', st'). (True, corr', st')) (apply_correlation_items pl items corr st)
      | _ \<Rightarrow> apply_correlation_simple pl t fc corr st)"

declare apply_correlation_transformation.simps [simp del]

definition apply_to_correlation ::
    "pipe_env \<Rightarrow> pipeline \<Rightarrow> 'n yaml_value correlation_rule \<Rightarrow> pipeline_state
      \<Rightarrow> eval_error + 'n yaml_value correlation_rule \<times> pipeline_state" where
  "apply_to_correlation pl p corr st = apply_correlation_items pl (pp_transformations p) corr (reset_rule st)"

section \<open>Several pipelines\<close>

definition merge_pipelines :: "pipeline list \<Rightarrow> pipeline list" where
  "merge_pipelines ps = sort_key pp_priority ps"

fun apply_pipelines ::
    "pipe_env \<Rightarrow> pipeline list \<Rightarrow> 'n yaml_value sigma_rule \<Rightarrow> eval_error + 'n yaml_value sigma_rule" where
  "apply_pipelines pl [] rule = Inr rule"
| "apply_pipelines pl (p # ps) rule =
     result_bind (pipeline_apply pl p rule (pipeline_state_new (pp_vars p)))
       (\<lambda>(rule', _). apply_pipelines pl ps rule')"

definition merge_state :: "pipeline_state \<Rightarrow> pipeline_state \<Rightarrow> pipeline_state" where
  "merge_state merged st =
     merged \<lparr> pst_applied_items := fold List.insert (pst_applied_items st) (pst_applied_items merged),
              pst_state := fold (\<lambda>(k, v). map_insert k v) (pst_state st) (pst_state merged),
              pst_vars := fold (\<lambda>(k, v). map_insert k v) (pst_vars st) (pst_vars merged) \<rparr>"

fun apply_pipelines_from ::
    "pipe_env \<Rightarrow> pipeline list \<Rightarrow> 'n yaml_value sigma_rule \<Rightarrow> pipeline_state
      \<Rightarrow> eval_error + 'n yaml_value sigma_rule \<times> pipeline_state" where
  "apply_pipelines_from pl [] rule merged = Inr (rule, merged)"
| "apply_pipelines_from pl (p # ps) rule merged =
     result_bind (pipeline_apply pl p rule (pipeline_state_new (pp_vars p)))
       (\<lambda>(rule', st). apply_pipelines_from pl ps rule' (merge_state merged st))"

definition apply_pipelines_with_state ::
    "pipe_env \<Rightarrow> pipeline list \<Rightarrow> 'n yaml_value sigma_rule
      \<Rightarrow> eval_error + 'n yaml_value sigma_rule \<times> pipeline_state" where
  "apply_pipelines_with_state pl ps rule = apply_pipelines_from pl ps rule pipeline_state_default"

record 'y transformed_rule =
  tr_rule :: "'y sigma_rule"
  tr_applied_items :: "string list"
  tr_state :: pipeline_state

definition transform_rule ::
    "pipe_env \<Rightarrow> pipeline list \<Rightarrow> 'n yaml_value sigma_rule \<Rightarrow> eval_error + 'n yaml_value transformed_rule" where
  "transform_rule pl ps rule =
     result_map (\<lambda>(rule', st). \<lparr> tr_rule = rule', tr_applied_items = sort (pst_applied_items st), tr_state = st \<rparr>)
       (apply_pipelines_with_state pl ps rule)"

definition transform_collection ::
    "pipe_env \<Rightarrow> pipeline list \<Rightarrow> 'n yaml_value sigma_rule list
      \<Rightarrow> eval_error + 'n yaml_value transformed_rule list" where
  "transform_collection pl ps rules = collect_results (transform_rule pl ps) rules"

fun correlation_pipelines_from ::
    "pipe_env \<Rightarrow> pipeline list \<Rightarrow> 'n yaml_value correlation_rule \<Rightarrow> pipeline_state
      \<Rightarrow> eval_error + 'n yaml_value correlation_rule \<times> pipeline_state" where
  "correlation_pipelines_from pl [] corr merged = Inr (corr, merged)"
| "correlation_pipelines_from pl (p # ps) corr merged =
     result_bind (apply_to_correlation pl p corr (pipeline_state_new (pp_vars p)))
       (\<lambda>(corr', st). correlation_pipelines_from pl ps corr' (merge_state merged st))"

definition apply_pipelines_to_correlation ::
    "pipe_env \<Rightarrow> pipeline list \<Rightarrow> 'n yaml_value correlation_rule
      \<Rightarrow> eval_error + 'n yaml_value correlation_rule \<times> pipeline_state" where
  "apply_pipelines_to_correlation pl ps corr = correlation_pipelines_from pl ps corr pipeline_state_default"

end
