(* ===== verification/Witness.thy ===== *)
theory Witness
  imports Bloom "HOL-Library.Product_Lexorder"
begin

text \<open>
  Static extraction of witnesses (\<open>rsigma-eval/src/witness.rs\<close>): conditions on an event, one of which
  holds whenever the rule matches.  The lemmas show that: the analysis of every matcher, detection,
  condition and rule is a gate of its evaluation.
\<close>

section \<open>Witnesses\<close>

datatype witness =
  WExact string string
| WSubstring string string
| WKeyword string
| WPresence string

definition long_literal :: nat where
  "long_literal = 8"

fun witness_rank :: "witness \<Rightarrow> nat" where
  "witness_rank (WExact field v) = 0"
| "witness_rank (WSubstring field needle) = (if long_literal \<le> length needle then 1 else 2)"
| "witness_rank (WKeyword needle) = (if long_literal \<le> length needle then 3 else 4)"
| "witness_rank (WPresence field) = 5"

datatype rule_witness = RwOpen | RwAnyOf "witness list"

datatype analysis = AnOpen | AnWitnesses "witness list"

fun witness_sort_key :: "witness \<Rightarrow> nat \<times> string \<times> string" where
  "witness_sort_key (WExact field v) = (witness_rank (WExact field v), field, v)"
| "witness_sort_key (WSubstring field needle) =
     (witness_rank (WSubstring field needle), field, needle)"
| "witness_sort_key (WKeyword needle) = (witness_rank (WKeyword needle), [], needle)"
| "witness_sort_key (WPresence field) = (witness_rank (WPresence field), field, [])"

section \<open>Combinators\<close>

fun or_combine_loop :: "witness list \<Rightarrow> analysis list \<Rightarrow> analysis" where
  "or_combine_loop acc [] = AnWitnesses acc"
| "or_combine_loop acc (AnOpen # branches) = AnOpen"
| "or_combine_loop acc (AnWitnesses ws # branches) = or_combine_loop (acc @ ws) branches"

definition or_combine :: "analysis list \<Rightarrow> analysis" where
  "or_combine branches = or_combine_loop [] branches"

definition set_score :: "witness list \<Rightarrow> nat \<times> nat" where
  "set_score ws =
     (if ws = [] then 255 else fold max (map witness_rank ws) 0, length ws)"

fun and_combine_loop :: "witness list option \<Rightarrow> analysis list \<Rightarrow> witness list option" where
  "and_combine_loop best [] = best"
| "and_combine_loop best (AnOpen # branches) = and_combine_loop best branches"
| "and_combine_loop best (AnWitnesses ws # branches) =
     (if ws = [] then and_combine_loop best branches
      else if (case best of None \<Rightarrow> True | Some b \<Rightarrow> set_score ws < set_score b)
        then and_combine_loop (Some ws) branches
      else and_combine_loop best branches)"

definition and_combine :: "analysis list \<Rightarrow> analysis" where
  "and_combine branches =
     (case and_combine_loop None branches of Some ws \<Rightarrow> AnWitnesses ws | None \<Rightarrow> AnOpen)"

section \<open>Literals\<close>

definition fold_literal :: "string \<Rightarrow> bool \<Rightarrow> string option" where
  "fold_literal v ci =
     (if v = [] then None
      else if ci then Some v
      else if is_ascii v then Some (map ascii_lower_char v)
      else None)"

definition substring_witness :: "string \<Rightarrow> bool \<Rightarrow> string option \<Rightarrow> analysis" where
  "substring_witness v ci field =
     (case (fold_literal v ci, field) of
        (Some needle, Some f) \<Rightarrow> AnWitnesses [WSubstring f needle]
      | (Some needle, None) \<Rightarrow> AnWitnesses [WKeyword needle]
      | (None, _) \<Rightarrow> AnOpen)"

section \<open>Regex literals\<close>

text \<open>\<open>str::from_utf8\<close>: the well-formed byte sequences of the Unicode standard.\<close>

definition byte_in :: "nat \<Rightarrow> nat \<Rightarrow> char \<Rightarrow> bool" where
  "byte_in lo hi c = (lo \<le> of_char c \<and> of_char c \<le> hi)"

fun valid_utf8 :: "string \<Rightarrow> bool" where
  "valid_utf8 [] = True"
| "valid_utf8 (b # s) =
     (if byte_in 0 127 b then valid_utf8 s
      else if byte_in 194 223 b then
        (case s of c1 # s1 \<Rightarrow> byte_in 128 191 c1 \<and> valid_utf8 s1 | _ \<Rightarrow> False)
      else if byte_in 224 239 b then
        (case s of
           c1 # c2 # s2 \<Rightarrow>
             byte_in (if of_char b = (224 :: nat) then 160 else 128)
                     (if of_char b = (237 :: nat) then 159 else 191) c1
             \<and> byte_in 128 191 c2 \<and> valid_utf8 s2
         | _ \<Rightarrow> False)
      else if byte_in 240 244 b then
        (case s of
           c1 # c2 # c3 # s3 \<Rightarrow>
             byte_in (if of_char b = (240 :: nat) then 144 else 128)
                     (if of_char b = (244 :: nat) then 143 else 191) c1
             \<and> byte_in 128 191 c2 \<and> byte_in 128 191 c3 \<and> valid_utf8 s3
         | _ \<Rightarrow> False)
      else False)"

text \<open>
  \<open>max_by_key\<close> with the key (length of the shortest literal, \<open>Reverse\<close> of the number of literals):
  the last of the greatest.
\<close>

definition shortest_literal :: "string list \<Rightarrow> nat" where
  "shortest_literal lits =
     (case map length lits of [] \<Rightarrow> 0 | n # ns \<Rightarrow> fold min ns n)"

definition literals_le :: "string list \<Rightarrow> string list \<Rightarrow> bool" where
  "literals_le a b =
     (shortest_literal a < shortest_literal b
      \<or> (shortest_literal a = shortest_literal b \<and> length b \<le> length a))"

fun best_literals :: "string list option \<Rightarrow> string list list \<Rightarrow> string list option" where
  "best_literals best [] = best"
| "best_literals None (lits # rest) = best_literals (Some lits) rest"
| "best_literals (Some b) (lits # rest) =
     best_literals (Some (if literals_le b lits then lits else b)) rest"

fun hir_mandatory_literals :: "re_hir \<Rightarrow> string list option" where
  "hir_mandatory_literals (HirLiteral lit) =
     (if valid_utf8 lit then (if lit = [] then None else Some [lit]) else None)"
| "hir_mandatory_literals (HirConcat children) =
     best_literals None (filter_map hir_mandatory_literals children)"
| "hir_mandatory_literals (HirAlternation children) =
     map_option concat (collect_options hir_mandatory_literals children)"
| "hir_mandatory_literals (HirRepetition least sub) =
     (if 1 \<le> least then hir_mandatory_literals sub else None)"
| "hir_mandatory_literals (HirCapture sub) = hir_mandatory_literals sub"
| "hir_mandatory_literals HirOther = None"

definition regex_mandatory_literals :: "ext_env \<Rightarrow> string \<Rightarrow> string list option" where
  "regex_mandatory_literals env pattern =
     (case re_parse_hir env pattern of
        None \<Rightarrow> None
      | Some hir \<Rightarrow>
          (case hir_mandatory_literals hir of
             None \<Rightarrow> None
           | Some literals \<Rightarrow>
               if list_ex (\<lambda>l. length l < 2) literals then None else Some literals))"

definition regex_witness :: "ext_env \<Rightarrow> string \<Rightarrow> string option \<Rightarrow> analysis" where
  "regex_witness env pattern field =
     (case regex_mandatory_literals env pattern of
        None \<Rightarrow> AnOpen
      | Some literals \<Rightarrow> or_combine (map (\<lambda>lit. substring_witness lit False field) literals))"

section \<open>Matchers\<close>

fun analyze_matcher :: "ext_env \<Rightarrow> string option \<Rightarrow> compiled_matcher \<Rightarrow> analysis" where
  "analyze_matcher env field (CmExact v ci) =
     (case (fold_literal v ci, field) of
        (Some w, Some f) \<Rightarrow> AnWitnesses [WExact f w]
      | (Some w, None) \<Rightarrow> AnWitnesses [WKeyword w]
      | (None, _) \<Rightarrow> AnOpen)"
| "analyze_matcher env field (CmContains v ci) = substring_witness v ci field"
| "analyze_matcher env field (CmStartsWith v ci) = substring_witness v ci field"
| "analyze_matcher env field (CmEndsWith v ci) = substring_witness v ci field"
| "analyze_matcher env field (CmAhoCorasickSet ci needles) =
     or_combine (map (\<lambda>n. substring_witness n ci field) needles)"
| "analyze_matcher env field (CmRegex re) = regex_witness env re field"
| "analyze_matcher env field (CmRegexSetMatch ps mode) =
     (let branches = map (\<lambda>p. regex_witness env p field) ps
      in case mode of GmAny \<Rightarrow> or_combine branches | GmAll \<Rightarrow> and_combine branches)"
| "analyze_matcher env field (CmAnyOf children) =
     or_combine (map (analyze_matcher env field) children)"
| "analyze_matcher env field (CmAllOf children) =
     and_combine (map (analyze_matcher env field) children)"
| "analyze_matcher env field (CmCaseInsensitiveGroup children mode) =
     (let branches = map (analyze_matcher env field) children
      in case mode of GmAny \<Rightarrow> or_combine branches | GmAll \<Rightarrow> and_combine branches)"
| "analyze_matcher env field (CmTimestampPart part inner) = AnOpen"
| "analyze_matcher env field (CmExpand template op ci) = AnOpen"
| "analyze_matcher env field (CmNumericEq n) = AnOpen"
| "analyze_matcher env field (CmNumericGt n) = AnOpen"
| "analyze_matcher env field (CmNumericGte n) = AnOpen"
| "analyze_matcher env field (CmNumericLt n) = AnOpen"
| "analyze_matcher env field (CmNumericLte n) = AnOpen"
| "analyze_matcher env field (CmBoolEq b) = AnOpen"
| "analyze_matcher env field (CmCidr net) = AnOpen"
| "analyze_matcher env field (CmExists expect) = AnOpen"
| "analyze_matcher env field (CmFieldRef ref_field op ci) = AnOpen"
| "analyze_matcher env field CmNull = AnOpen"
| "analyze_matcher env field (CmNot inner) = AnOpen"

section \<open>Detections, conditions and rules\<close>

definition analyze_item :: "ext_env \<Rightarrow> compiled_detection_item \<Rightarrow> analysis" where
  "analyze_item env item =
     (case cdi_field item of
        None \<Rightarrow> analyze_matcher env None (cdi_matcher item)
      | Some field \<Rightarrow>
          (case cdi_exists item of
             Some False \<Rightarrow> AnOpen
           | Some True \<Rightarrow> AnWitnesses [WPresence field]
           | None \<Rightarrow>
               if matches_absent (cdi_matcher item) then AnOpen
               else case analyze_matcher env (Some field) (cdi_matcher item) of
                      AnWitnesses (w # ws) \<Rightarrow> AnWitnesses (w # ws)
                    | _ \<Rightarrow> AnWitnesses [WPresence field]))"

fun analyze_detection :: "ext_env \<Rightarrow> compiled_detection \<Rightarrow> analysis" where
  "analyze_detection env (CdAllOf items) =
     (if items = [] then AnOpen else and_combine (map (analyze_item env) items))"
| "analyze_detection env (CdAnyOf subs) =
     (if subs = [] then AnOpen else or_combine (map (analyze_detection env) subs))"
| "analyze_detection env (CdAnd subs) =
     (if subs = [] then AnOpen else and_combine (map (analyze_detection env) subs))"
| "analyze_detection env (CdKeywords matcher) = analyze_matcher env None matcher"
| "analyze_detection env (CdArrayMatch field q body) =
     (case q of
        AqAny \<Rightarrow> AnWitnesses [WPresence field]
      | AqAll \<Rightarrow> AnWitnesses [WPresence field]
      | AqAllOrEmpty \<Rightarrow> AnOpen
      | AqNone \<Rightarrow> AnOpen)"
| "analyze_detection env (CdConditional named condition) = AnOpen"

fun analyze_condition ::
    "ext_env \<Rightarrow> (string \<times> compiled_detection) list \<Rightarrow> condition_expr \<Rightarrow> analysis" where
  "analyze_condition env detections (CondIdentifier name) =
     (case map_of detections name of Some det \<Rightarrow> analyze_detection env det | None \<Rightarrow> AnOpen)"
| "analyze_condition env detections (CondAnd branches) =
     and_combine (map (analyze_condition env detections) branches)"
| "analyze_condition env detections (CondOr branches) =
     or_combine (map (analyze_condition env detections) branches)"
| "analyze_condition env detections (CondNot inner) = AnOpen"
| "analyze_condition env detections (CondSelector q pattern) =
     (let selected = map snd (filter (\<lambda>nd. matches_detection_name pattern (fst nd)) detections);
          branches = map (analyze_detection env) selected
      in case q of
           QAll \<Rightarrow> if selected = [] then AnOpen else and_combine branches
         | _ \<Rightarrow> or_combine branches)"

definition analyze_rule :: "ext_env \<Rightarrow> compiled_rule \<Rightarrow> rule_witness" where
  "analyze_rule env rule =
     (if cru_conditions rule = [] then RwOpen
      else case or_combine (map (analyze_condition env (cru_detections rule)) (cru_conditions rule)) of
             AnOpen \<Rightarrow> RwOpen
           | AnWitnesses ws \<Rightarrow>
               (let ws' = remdups_adj (sort_key witness_sort_key ws)
                in if ws' = [] then RwOpen else RwAnyOf ws'))"

section \<open>What a witness says of an event\<close>

definition holds_witness :: "ext_env \<Rightarrow> event \<Rightarrow> witness \<Rightarrow> bool" where
  "holds_witness env ev w =
     (case w of
        WExact f v \<Rightarrow>
          (case ev_get_field ev f of
             Some x \<Rightarrow> list_ex (\<lambda>s. to_lowercase env s = v) (value_strings env x)
           | None \<Rightarrow> False)
      | WSubstring f n \<Rightarrow>
          (case ev_get_field ev f of
             Some x \<Rightarrow> list_ex (\<lambda>s. contains_str (to_lowercase env s) n) (value_strings env x)
           | None \<Rightarrow> False)
      | WKeyword n \<Rightarrow> list_ex (\<lambda>s. contains_str (to_lowercase env s) n) (ev_all_string_values ev)
      | WPresence f \<Rightarrow> ev_get_field ev f \<noteq> None)"

text \<open>A literal witness of the given scope, on one string.\<close>

fun lit_holds :: "ext_env \<Rightarrow> string option \<Rightarrow> string \<Rightarrow> witness \<Rightarrow> bool" where
  "lit_holds env field s (WExact f v) = (field = Some f \<and> to_lowercase env s = v)"
| "lit_holds env field s (WSubstring f n) =
     (field = Some f \<and> contains_str (to_lowercase env s) n)"
| "lit_holds env field s (WKeyword n) = (field = None \<and> contains_str (to_lowercase env s) n)"
| "lit_holds env field s (WPresence f) = False"

text \<open>\<open>P\<close> holds of some witness of the analysis, unless it is open.\<close>

definition gates :: "analysis \<Rightarrow> (witness \<Rightarrow> bool) \<Rightarrow> bool" where
  "gates a P = (\<forall>ws. a = AnWitnesses ws \<longrightarrow> (\<exists>w \<in> set ws. P w))"

lemma gates_open [simp]: "gates AnOpen P"
  by (simp add: gates_def)

lemma gates_witnesses [simp]: "gates (AnWitnesses ws) P \<longleftrightarrow> (\<exists>w \<in> set ws. P w)"
  by (auto simp: gates_def)

lemma gates_mono: "gates a P \<Longrightarrow> (\<And>w. P w \<Longrightarrow> Q w) \<Longrightarrow> gates a Q"
  by (auto simp: gates_def)

lemma or_combine_loop_cases:
  "or_combine_loop acc branches = AnWitnesses ws \<Longrightarrow>
   set acc \<subseteq> set ws \<and> (\<forall>p \<in> set branches. \<exists>vs. p = AnWitnesses vs \<and> set vs \<subseteq> set ws)"
  by (induction acc branches rule: or_combine_loop.induct) auto

lemma or_gate:
  assumes "p \<in> set branches" and "gates p P"
  shows "gates (or_combine branches) P"
  using assms or_combine_loop_cases [of "[]" branches]
  unfolding or_combine_def gates_def by fastforce

lemma and_combine_loop_from:
  "and_combine_loop best branches = Some ws \<Longrightarrow> best = Some ws \<or> AnWitnesses ws \<in> set branches"
  by (induction best branches rule: and_combine_loop.induct) (auto split: if_splits)

lemma and_gate:
  assumes "\<And>p. p \<in> set branches \<Longrightarrow> gates p P"
  shows "gates (and_combine branches) P"
proof (cases "and_combine_loop None branches")
  case None
  then show ?thesis by (simp add: and_combine_def)
next
  case (Some ws)
  then have "AnWitnesses ws \<in> set branches" using and_combine_loop_from by fastforce
  from assms [OF this] Some show ?thesis by (simp add: and_combine_def)
qed

lemma or_gate_elem: "x \<in> set xs \<Longrightarrow> gates (f x) P \<Longrightarrow> gates (or_combine (map f xs)) P"
  by (rule or_gate [of "f x"]) simp_all

lemma or_gate_map: "list_ex p xs \<Longrightarrow> (\<And>x. x \<in> set xs \<Longrightarrow> p x \<Longrightarrow> gates (f x) P) \<Longrightarrow>
    gates (or_combine (map f xs)) P"
  unfolding list_ex_iff by (blast intro: or_gate_elem)

lemma and_gate_map: "list_all p xs \<Longrightarrow> (\<And>x. x \<in> set xs \<Longrightarrow> p x \<Longrightarrow> gates (f x) P) \<Longrightarrow>
    gates (and_combine (map f xs)) P"
  by (rule and_gate) (auto simp: list_all_iff)

section \<open>Laws\<close>

text \<open>
  What the analysis relies on in the third-party code: a regex set reports a pattern only when it
  matches, lowercasing twice is lowercasing once, and a regex matches a text only where a word of
  its HIR stands (\<open>re_word\<close> reads classes and assertions as any text, so it over-approximates).
\<close>

inductive re_word :: "re_hir \<Rightarrow> string \<Rightarrow> bool" where
  "re_word (HirLiteral lit) lit"
| "length ts = length hs \<Longrightarrow> (\<forall>i < length hs. re_word (hs ! i) (ts ! i)) \<Longrightarrow>
   re_word (HirConcat hs) (concat ts)"
| "h \<in> set hs \<Longrightarrow> re_word h t \<Longrightarrow> re_word (HirAlternation hs) t"
| "least \<le> length ts \<Longrightarrow> (\<forall>t \<in> set ts. re_word h t) \<Longrightarrow>
   re_word (HirRepetition least h) (concat ts)"
| "re_word h t \<Longrightarrow> re_word (HirCapture h) t"
| "re_word HirOther t"

definition re_hir_law :: "ext_env \<Rightarrow> bool" where
  "re_hir_law env =
     (\<forall>p h s. re_parse_hir env p = Some h \<longrightarrow> re_is_match env p s
        \<longrightarrow> (\<exists>t. re_word h t \<and> contains_str s t))"

definition re_set_sound_law :: "ext_env \<Rightarrow> bool" where
  "re_set_sound_law env =
     (\<forall>ps s. (re_set_is_match env ps s \<longrightarrow> list_ex (\<lambda>p. re_is_match env p s) ps)
        \<and> (length (re_set_matches env ps s) = length ps \<longrightarrow> list_all (\<lambda>p. re_is_match env p s) ps))"

definition lower_idem_law :: "ext_env \<Rightarrow> bool" where
  "lower_idem_law env = (\<forall>s. to_lowercase env (to_lowercase env s) = to_lowercase env s)"

definition witness_laws :: "ext_env \<Rightarrow> bool" where
  "witness_laws env =
     (lower_ascii_law env \<and> ac_sound_law env \<and> re_hir_law env \<and> re_set_sound_law env
      \<and> lower_idem_law env)"

section \<open>Soundness of the literals\<close>

lemma contains_concat: "t \<in> set ts \<Longrightarrow> contains_str (concat ts) t"
  by (metis concat.simps(2) concat_append contains_str_iff split_list)

lemma contains_trans: "contains_str a b \<Longrightarrow> contains_str b c \<Longrightarrow> contains_str a c"
  unfolding contains_str_iff by (metis append.assoc)

lemma contains_refl: "contains_str s s"
  by (metis append.right_neutral append_Nil contains_str_iff)

lemma best_literals_from:
  "best_literals best cands = Some lits \<Longrightarrow> best = Some lits \<or> lits \<in> set cands"
  by (induction best cands rule: best_literals.induct) (auto split: if_splits)

lemma mandatory_literal:
  "re_word h t \<Longrightarrow> hir_mandatory_literals h = Some lits \<Longrightarrow> \<exists>l \<in> set lits. contains_str t l"
proof (induction arbitrary: lits rule: re_word.induct)
  case (1 lit)
  then show ?case by (auto split: if_splits simp: contains_refl)
next
  case (2 ts hs)
  then have "lits \<in> set (filter_map hir_mandatory_literals hs)"
    using best_literals_from by fastforce
  then obtain i where "i < length hs" "hir_mandatory_literals (hs ! i) = Some lits"
    by (auto simp: set_filter_map in_set_conv_nth)
  with 2(2) have "\<exists>l \<in> set lits. contains_str (ts ! i) l" by blast
  then show ?case
    using 2(1) \<open>i < length hs\<close> by (metis contains_concat contains_trans nth_mem)
next
  case (3 h hs t)
  then obtain yss where yss: "list_all2 (\<lambda>x y. hir_mandatory_literals x = Some y) hs yss"
      and lits: "lits = concat yss"
    by (auto simp: result_simps)
  then obtain ys where "hir_mandatory_literals h = Some ys" "ys \<in> set yss"
    using 3(1) by (fastforce simp: in_set_conv_nth list_all2_conv_all_nth)
  with 3(3) lits show ?case by auto
next
  case (4 least ts h)
  then have sub: "hir_mandatory_literals h = Some lits" and "1 \<le> least"
    by (auto split: if_splits)
  with 4(1) obtain t where "t \<in> set ts" by (cases ts) auto
  with 4(2) sub show ?case by (metis contains_concat contains_trans)
qed auto

lemma substring_gate:
  assumes "lower_ascii_law env"
    and "if ci then contains_str (to_lowercase env s) v else contains_str s v"
  shows "gates (substring_witness v ci field) (lit_holds env field s)"
  using assms
  by (auto simp: substring_witness_def fold_literal_def lower_ascii_law_def split: option.splits
      if_splits)

lemma regex_gate:
  assumes "lower_ascii_law env" and "re_hir_law env" and "re_is_match env p s"
  shows "gates (regex_witness env p field) (lit_holds env field s)"
proof (cases "regex_mandatory_literals env p")
  case None
  then show ?thesis by (simp add: regex_witness_def)
next
  case (Some lits)
  then obtain h where "re_parse_hir env p = Some h" "hir_mandatory_literals h = Some lits"
    by (auto simp: regex_mandatory_literals_def split: option.splits if_splits)
  moreover from this(1) obtain t where "re_word h t" "contains_str s t"
    using assms(2,3) unfolding re_hir_law_def by blast
  ultimately obtain l where l: "l \<in> set lits" "contains_str s l"
    using mandatory_literal contains_trans by metis
  then have "gates (substring_witness l False field) (lit_holds env field s)"
    by (intro substring_gate [OF assms(1)]) simp
  with l Some show ?thesis by (simp add: regex_witness_def or_gate_elem)
qed

section \<open>Soundness of the matchers\<close>

lemma ac_gate:
  assumes "witness_laws env" and "ac_is_match env needles (if ci then to_lowercase env s else s)"
  shows "gates (or_combine (map (\<lambda>n. substring_witness n ci field) needles)) (lit_holds env field s)"
proof (rule or_gate_map [where p = "contains_str (if ci then to_lowercase env s else s)"])
  show "list_ex (contains_str (if ci then to_lowercase env s else s)) needles"
    using assms by (simp add: witness_laws_def ac_sound_law_def)
  show "gates (substring_witness n ci field) (lit_holds env field s)"
    if "contains_str (if ci then to_lowercase env s else s) n" for n
    using assms(1) that by (intro substring_gate) (auto simp: witness_laws_def split: if_splits)
qed

lemma regex_set_gate:
  assumes "witness_laws env" and "regex_set_matches env ps mode s"
  shows "gates (analyze_matcher env field (CmRegexSetMatch ps mode)) (lit_holds env field s)"
proof -
  have re: "gates (regex_witness env p field) (lit_holds env field s)" if "re_is_match env p s" for p
    using assms(1) that by (intro regex_gate) (simp_all add: witness_laws_def)
  have "re_set_sound_law env" using assms(1) by (simp add: witness_laws_def)
  with assms(2) re show ?thesis
    by (cases mode)
       (auto simp: re_set_sound_law_def intro: or_gate_map and_gate_map)
qed

text \<open>Children of a case-insensitive group are tested on the lowered text.\<close>

lemma lit_holds_lowered:
  "lower_idem_law env \<Longrightarrow> lit_holds env field (to_lowercase env s) w \<Longrightarrow> lit_holds env field s w"
  by (cases w) (simp_all add: lower_idem_law_def)

lemma exact_gate:
  assumes "lower_ascii_law env" and "if ci then to_lowercase env s = v else s = v"
  shows "gates (analyze_matcher env field (CmExact v ci)) (lit_holds env field s)"
proof -
  have "to_lowercase env s = w" if "fold_literal v ci = Some w" for w
    using assms(2) that
    by (auto simp: fold_literal_def to_lowercase_ascii split: if_splits)
  then show ?thesis
    by (auto simp: contains_refl split: option.splits)
qed

lemma pre_lowered_gate:
  assumes "witness_laws env"
  shows "matches_pre_lowered env m (to_lowercase env s) \<Longrightarrow>
    gates (analyze_matcher env field m) (lit_holds env field s)"
proof (induction m)
  case (CmExact v ci)
  then show ?case using exact_gate [of env ci s v] assms by (cases ci) (auto simp: witness_laws_def)
next
  case (CmContains v ci)
  then show ?case using substring_gate [of env ci s v] assms
    by (cases ci) (auto simp: witness_laws_def)
next
  case (CmStartsWith v ci)
  then show ?case using substring_gate [of env ci s v] assms
    by (cases ci) (auto simp: witness_laws_def starts_contains)
next
  case (CmEndsWith v ci)
  then show ?case using substring_gate [of env ci s v] assms
    by (cases ci) (auto simp: witness_laws_def ends_contains)
next
  case (CmRegex re)
  then show ?case
    using regex_gate [of env re "to_lowercase env s"] assms
    by (auto simp: witness_laws_def intro: gates_mono lit_holds_lowered)
next
  case (CmAhoCorasickSet ci needles)
  then show ?case using ac_gate [OF assms, of needles ci s] by (cases ci) auto
next
  case (CmRegexSetMatch ps mode)
  then have "gates (analyze_matcher env field (CmRegexSetMatch ps mode))
      (lit_holds env field (to_lowercase env s))"
    by (intro regex_set_gate [OF assms]) simp
  with assms show ?case
    by (auto simp: witness_laws_def intro: gates_mono lit_holds_lowered
        simp del: analyze_matcher.simps)
next
  case (CmAnyOf ms)
  then show ?case by (auto intro!: or_gate_map)
next
  case (CmAllOf ms)
  then show ?case by (auto intro!: and_gate_map)
next
  case (CmCaseInsensitiveGroup children mode)
  then show ?case by (cases mode) (auto intro!: or_gate_map and_gate_map)
qed auto

lemma str_gate:
  assumes "witness_laws env"
  shows "matches_str env m s \<Longrightarrow> gates (analyze_matcher env field m) (lit_holds env field s)"
proof (induction m)
  case (CmExact v ci)
  then show ?case using exact_gate [of env ci s v] assms by (auto simp: witness_laws_def)
next
  case (CmContains v ci)
  then show ?case using substring_gate [of env ci s v] assms by (auto simp: witness_laws_def)
next
  case (CmStartsWith v ci)
  then show ?case using substring_gate [of env ci s v] assms
    by (cases ci) (auto simp: witness_laws_def starts_contains)
next
  case (CmEndsWith v ci)
  then show ?case using substring_gate [of env ci s v] assms
    by (cases ci) (auto simp: witness_laws_def ends_contains)
next
  case (CmRegex re)
  then show ?case using regex_gate [of env re s] assms by (auto simp: witness_laws_def)
next
  case (CmAhoCorasickSet ci needles)
  then show ?case using ac_gate [OF assms, of needles ci s]
    by (cases ci) (auto simp: ascii_lowercase_cow_eq)
next
  case (CmRegexSetMatch ps mode)
  then show ?case by (intro regex_set_gate [OF assms]) simp
next
  case (CmAnyOf ms)
  then show ?case by (auto intro!: or_gate_map)
next
  case (CmAllOf ms)
  then show ?case by (auto intro!: and_gate_map)
next
  case (CmCaseInsensitiveGroup children mode)
  then have "matches_pre_lowered env (CmCaseInsensitiveGroup children mode) (to_lowercase env s)"
    by (cases mode) (simp_all add: ascii_lowercase_cow_eq)
  then show ?case by (rule pre_lowered_gate [OF assms])
qed auto

text \<open>On a field value some string form carries the witness; in keyword scope, some text of the event.\<close>

lemma value_witness:
  assumes "ev_get_field ev f = Some v" and "s \<in> set (value_strings env v)"
    and "lit_holds env (Some f) s w"
  shows "holds_witness env ev w"
  using assms by (cases w) (auto simp: holds_witness_def list_ex_iff)

lemma leaf_gate:
  assumes "witness_laws env" and "ev_get_field ev f = Some v" and "str_leaf m" and "matches env ev m v"
  shows "gates (analyze_matcher env (Some f) m) (holds_witness env ev)"
proof -
  obtain s where s: "s \<in> set (value_strings env v)" "matches_str env m s"
    using assms(3,4) by (auto simp: matches_str_leaf match_str_value_iff list_ex_iff)
  show ?thesis
    by (rule gates_mono [OF str_gate [OF assms(1) s(2)]]) (rule value_witness [OF assms(2) s(1)])
qed

lemma keyword_witness:
  assumes "s \<in> set (ev_all_string_values ev)" and "lit_holds env None s w"
  shows "holds_witness env ev w"
  using assms by (cases w) (auto simp: holds_witness_def list_ex_iff)

lemma any_string_gate:
  assumes "witness_laws env" and "event_wf ev" and "ev_any_string_value ev (\<lambda>s. matches_str env m s)"
  shows "gates (analyze_matcher env None m) (holds_witness env ev)"
proof -
  obtain s where s: "s \<in> set (ev_all_string_values ev)" "matches_str env m s"
    using assms(2,3) by (auto simp: event_wf_def list_ex_iff)
  show ?thesis
    by (rule gates_mono [OF str_gate [OF assms(1) s(2)]]) (rule keyword_witness [OF s(1)])
qed

lemma value_gate:
  assumes "witness_laws env" and "ev_get_field ev f = Some v"
  shows "matches env ev m v \<Longrightarrow> gates (analyze_matcher env (Some f) m) (holds_witness env ev)"
proof (induction m)
  case (CmAnyOf ms)
  then show ?case by (auto intro!: or_gate_map)
next
  case (CmAllOf ms)
  then show ?case by (auto intro!: and_gate_map)
qed ((rule leaf_gate [OF assms], simp, assumption) | simp)+

lemma keyword_gate:
  assumes "witness_laws env" and "event_wf ev"
  shows "matches_keyword env ev m \<Longrightarrow> gates (analyze_matcher env None m) (holds_witness env ev)"
proof (induction m)
  case (CmAllOf ms)
  then show ?case by (auto intro!: and_gate_map)
next
  case (CmCaseInsensitiveGroup children mode)
  show ?case
  proof (cases mode)
    case GmAny
    with CmCaseInsensitiveGroup.prems show ?thesis
      by (intro any_string_gate [OF assms]) (simp only: matches_keyword.simps)
  next
    case GmAll
    with CmCaseInsensitiveGroup show ?thesis by (auto intro!: and_gate_map)
  qed
next
  case (CmNot m)
  then show ?case by simp
qed (rule any_string_gate [OF assms], simp only: matches_keyword.simps)+

section \<open>Soundness of the analysis\<close>

text \<open>
  An item without a field carries an existence flag only with the matcher \<open>Exists\<close>: the evaluator
  then looks at the flag, the analysis at the matcher.
\<close>

definition item_flagged :: "compiled_detection_item \<Rightarrow> bool" where
  "item_flagged item =
     (cdi_field item = None \<longrightarrow> cdi_exists item \<noteq> None
        \<longrightarrow> (case cdi_matcher item of CmExists _ \<Rightarrow> True | _ \<Rightarrow> False))"

fun detection_flagged :: "compiled_detection \<Rightarrow> bool" where
  "detection_flagged (CdAllOf items) = list_all item_flagged items"
| "detection_flagged (CdAnyOf subs) = list_all detection_flagged subs"
| "detection_flagged (CdAnd subs) = list_all detection_flagged subs"
| "detection_flagged _ = True"

definition rule_flagged :: "compiled_rule \<Rightarrow> bool" where
  "rule_flagged rule =
     (list_all (\<lambda>nd. detection_flagged (snd nd)) (cru_detections rule)
      \<and> list_all counts_nonzero (cru_conditions rule))"

lemma presence_witness: "ev_get_field ev f \<noteq> None \<Longrightarrow> holds_witness env ev (WPresence f)"
  by (simp add: holds_witness_def)

lemma item_gate:
  assumes "witness_laws env" and "event_wf ev" and "item_flagged item"
    and "eval_detection_item_with_bloom env ev bloom item"
  shows "gates (analyze_item env item) (holds_witness env ev)"
proof (cases "cdi_field item")
  case None
  show ?thesis
  proof (cases "cdi_exists item")
    case (Some e)
    with None assms(3) show ?thesis
      by (auto simp: item_flagged_def analyze_item_def split: compiled_matcher.splits)
  next
    case ex: None
    with None assms show ?thesis
      by (auto simp: analyze_item_def eval_detection_item_with_bloom_def intro: keyword_gate)
  qed
next
  case (Some f)
  show ?thesis
  proof (cases "cdi_exists item")
    case ex: (Some e)
    with Some assms(4) show ?thesis
      by (cases e) (simp_all add: analyze_item_def eval_detection_item_with_bloom_def holds_witness_def)
  next
    case ex: None
    show ?thesis
    proof (cases "ev_get_field ev f")
      case None
      with Some ex assms(4) show ?thesis
        by (simp add: analyze_item_def eval_detection_item_with_bloom_def)
    next
      case get: (Some v)
      with Some ex assms(4) have "matches env ev (cdi_matcher item) v"
        by (auto simp: eval_detection_item_with_bloom_def split: if_splits)
      from value_gate [OF assms(1) get this] get Some ex show ?thesis
        by (auto simp: analyze_item_def holds_witness_def split: analysis.split list.split)
    qed
  qed
qed

lemma array_present:
  assumes "q = AqAny \<or> q = AqAll"
    and "eval_detection_with_bloom env ev bloom (CdArrayMatch field q body)"
  shows "holds_witness env ev (WPresence field)"
  using assms
  by (auto simp: holds_witness_def array_quantifier_matches_empty_def split: option.splits)

lemma detection_gate:
  assumes "witness_laws env" and "event_wf ev"
  shows "detection_flagged det \<Longrightarrow> eval_detection_with_bloom env ev bloom det \<Longrightarrow>
    gates (analyze_detection env det) (holds_witness env ev)"
proof (induction det)
  case (CdAllOf items)
  then show ?case by (auto simp: list_all_iff intro!: and_gate item_gate [OF assms])
next
  case (CdAnyOf subs)
  then show ?case by (auto simp: list_all_iff list_ex_iff intro!: or_gate_elem)
next
  case (CdAnd subs)
  then show ?case by (auto simp: list_all_iff intro!: and_gate)
next
  case (CdKeywords matcher)
  then show ?case by (auto intro: keyword_gate [OF assms])
next
  case (CdArrayMatch field q body)
  then show ?case using array_present [of q env ev bloom field body]
    by (cases q) (simp_all del: eval_detection_with_bloom.simps)
qed simp

lemma count_any_ex: "0 < r \<Longrightarrow> count_any r 0 p xs \<Longrightarrow> \<exists>x \<in> set xs. p x"
  by (auto simp: count_any_iff simp flip: length_filter_pos_iff list_ex_iff)

lemma condition_gate:
  assumes "witness_laws env" and "event_wf ev"
    and flagged: "list_all (\<lambda>nd. detection_flagged (snd nd)) dets"
  shows "counts_nonzero c \<Longrightarrow> eval_condition_matches_with_bloom env ev bloom c dets \<Longrightarrow>
    gates (analyze_condition env dets c) (holds_witness env ev)"
proof (induction c)
  case (CondIdentifier n)
  then obtain det where det: "map_of dets n = Some det" "eval_detection_with_bloom env ev bloom det"
    by (auto split: option.splits)
  then have "detection_flagged det"
    using flagged by (fastforce simp: list_all_iff dest: map_of_SomeD)
  with det show ?case by (simp add: detection_gate [OF assms(1,2)])
next
  case (CondAnd es)
  then show ?case by (auto simp: list_all_iff intro!: and_gate)
next
  case (CondOr es)
  then show ?case by (auto simp: list_all_iff list_ex_iff intro!: or_gate_elem)
next
  case (CondSelector q pat)
  let ?sel = "filter (\<lambda>nd. matches_detection_name pat (fst nd)) dets"
  let ?holds = "\<lambda>nd. eval_detection_with_bloom env ev bloom (snd nd)"
  have gate: "gates (analyze_detection env (snd nd)) (holds_witness env ev)"
    if "nd \<in> set ?sel" "?holds nd" for nd
    using flagged that by (auto simp: list_all_iff intro!: detection_gate [OF assms(1,2)])
  have some: "gates (or_combine (map (analyze_detection env) (map snd ?sel))) (holds_witness env ev)"
    if "\<exists>nd \<in> set ?sel. ?holds nd"
    using that gate by (auto intro!: or_gate_elem)
  show ?case
  proof (cases q)
    case QAny
    with CondSelector.prems some show ?thesis by (auto simp: Let_def list_ex_iff)
  next
    case QAll
    with CondSelector.prems gate show ?thesis
      by (auto simp: Let_def list_all_iff intro!: and_gate)
  next
    case (QCount n)
    with CondSelector.prems have "\<exists>nd \<in> set ?sel. ?holds nd"
      by (intro count_any_ex [of n]) (simp_all add: Let_def)
    with QCount some show ?thesis by (simp add: Let_def)
  qed
qed simp

text \<open>Every rule that fires has a witness on the event.\<close>

lemma rule_gate:
  assumes laws: "witness_laws env" "event_wf ev" and flagged: "rule_flagged rule"
    and ws: "analyze_rule env rule = RwAnyOf ws"
    and fires: "evaluate_rule_with_bloom env rule ev bloom level \<noteq> None"
  shows "\<exists>w \<in> set ws. holds_witness env ev w"
proof -
  let ?a = "or_combine (map (analyze_condition env (cru_detections rule)) (cru_conditions rule))"
  obtain c where c: "c \<in> set (cru_conditions rule)"
      "eval_condition_matches_with_bloom env ev bloom c (cru_detections rule)"
    using fires by (auto simp: evaluate_rule_with_bloom_def eval_conditions_loop_None list_ex_iff)
  have "gates (analyze_condition env (cru_detections rule) c) (holds_witness env ev)"
    using flagged c by (intro condition_gate [OF laws]) (auto simp: rule_flagged_def list_all_iff)
  then have "gates ?a (holds_witness env ev)" by (rule or_gate_elem [OF c(1)])
  moreover obtain vs where "?a = AnWitnesses vs" "ws = remdups_adj (sort_key witness_sort_key vs)"
    using ws by (auto simp: analyze_rule_def Let_def split: analysis.splits if_splits)
  ultimately show ?thesis by simp
qed

lemma analyze_rule_nonempty: "analyze_rule env rule = RwAnyOf ws \<Longrightarrow> ws \<noteq> []"
  by (auto simp: analyze_rule_def Let_def split: analysis.splits if_splits)

end
