(* ===== verification/CandidateIndex.thy ===== *)
theory CandidateIndex
  imports Witness
begin

text \<open>
  The candidate index (\<open>rsigma-eval/src/candidate_index.rs\<close>): the inverted index from the witnesses
  of the rules to the rules, the probing of an event, appending, and the product partition of the
  rules without a witness.  The lemmas show that it never leaves out a rule that matches.
\<close>

section \<open>Parameters\<close>

text \<open>
  The Aho-Corasick automata (\<open>Standard\<close>, ASCII case-insensitive): whether the DFA and the default
  kind build, and the pattern numbers an overlapping search reports.
\<close>

record index_env =
  ix_dfa_ok :: "string list \<Rightarrow> bool"
  ix_auto_ok :: "string list \<Rightarrow> bool"
  ix_overlapping :: "string list \<Rightarrow> string \<Rightarrow> nat list"

section \<open>State\<close>

definition max_needles_per_automaton :: nat where
  "max_needles_per_automaton = 65536"

definition index_rebuild_floor :: nat where
  "index_rebuild_floor = 64"

record needle_set =
  ns_automaton :: "string list"
  ns_pattern_to_rules :: "nat list list"

record field_entry =
  fe_presence :: "nat list"
  fe_exact :: "(string \<times> nat list) list"
  fe_needles :: "needle_set option"

record candidate_index =
  ci_fields :: "(string \<times> field_entry) list"
  ci_fields_for_event_key :: "(string \<times> string list) list"
  ci_keyword :: "needle_set option"
  ci_always :: "nat list"
  ci_always_by_product :: "(string option \<times> nat list) list"
  ci_pending :: "nat list"
  ci_rule_count :: nat
  ci_rebuild_baseline :: nat

definition field_entry_default :: field_entry where
  "field_entry_default = \<lparr> fe_presence = [], fe_exact = [], fe_needles = None \<rparr>"

definition candidate_index_empty :: candidate_index where
  "candidate_index_empty =
     \<lparr> ci_fields = [], ci_fields_for_event_key = [], ci_keyword = None, ci_always = [],
       ci_always_by_product = [], ci_pending = [], ci_rule_count = 0, ci_rebuild_baseline = 0 \<rparr>"

definition needs_value :: "field_entry \<Rightarrow> bool" where
  "needs_value entry = (fe_exact entry \<noteq> [] \<or> fe_needles entry \<noteq> None)"

section \<open>Needle sets\<close>

definition needle_set_build :: "index_env \<Rightarrow> (string \<times> nat list) list \<Rightarrow> needle_set option" where
  "needle_set_build ie needle_to_rules =
     (if needle_to_rules = [] \<or> max_needles_per_automaton < length needle_to_rules then None
      else let entries = sort_key fst needle_to_rules;
               patterns = map fst entries;
               pattern_to_rules = map (\<lambda>e. sort_dedup (snd e)) entries
           in if ix_dfa_ok ie patterns \<or> ix_auto_ok ie patterns
              then Some \<lparr> ns_automaton = patterns, ns_pattern_to_rules = pattern_to_rules \<rparr>
              else None)"

definition rules_of :: "(string \<times> nat list) list \<Rightarrow> nat list" where
  "rules_of needle_to_rules = sort_dedup (concat (map snd needle_to_rules))"

record candidate_set =
  cs_seen :: "bool list"
  cs_out :: "nat list"

definition candidate_set_new :: "nat \<Rightarrow> candidate_set" where
  "candidate_set_new rule_count = \<lparr> cs_seen = replicate rule_count False, cs_out = [] \<rparr>"

definition candidate_set_push :: "nat \<Rightarrow> candidate_set \<Rightarrow> candidate_set" where
  "candidate_set_push idx acc =
     (if idx < length (cs_seen acc) \<and> \<not> cs_seen acc ! idx
      then acc \<lparr> cs_seen := (cs_seen acc)[idx := True], cs_out := cs_out acc @ [idx] \<rparr>
      else acc)"

definition candidate_set_extend :: "nat list \<Rightarrow> candidate_set \<Rightarrow> candidate_set" where
  "candidate_set_extend rules acc = fold candidate_set_push rules acc"

definition candidate_set_finish :: "candidate_set \<Rightarrow> nat list" where
  "candidate_set_finish acc = sort (cs_out acc)"

definition mark_haystack ::
    "index_env \<Rightarrow> needle_set \<Rightarrow> string \<Rightarrow> candidate_set \<Rightarrow> candidate_set" where
  "mark_haystack ie ns haystack out =
     fold (\<lambda>pattern out.
             if pattern < length (ns_pattern_to_rules ns)
             then candidate_set_extend (ns_pattern_to_rules ns ! pattern) out else out)
       (ix_overlapping ie (ns_automaton ns) haystack) out"

definition needle_set_mark ::
    "ext_env \<Rightarrow> index_env \<Rightarrow> needle_set \<Rightarrow> string \<Rightarrow> candidate_set \<Rightarrow> candidate_set" where
  "needle_set_mark env ie ns haystack out =
     (if is_ascii haystack then mark_haystack ie ns haystack out
      else mark_haystack ie ns (ascii_lowercase_cow env haystack) out)"

section \<open>Registering fields\<close>

definition push_probe_field ::
    "string \<Rightarrow> string \<Rightarrow> (string \<times> string list) list \<Rightarrow> (string \<times> string list) list" where
  "push_probe_field key field m =
     map_entry [] key (\<lambda>bucket. if field \<in> set bucket then bucket else bucket @ [field]) m"

definition nested_root_key :: "string \<Rightarrow> string option" where
  "nested_root_key field =
     (case first_unescaped field (CHR ''.'') of
        None \<Rightarrow> None
      | Some pos \<Rightarrow>
          if pos = 0 then None
          else let segment = take pos field;
                   name = (case first_unescaped segment lbracket of
                             Some p \<Rightarrow> if 0 < p then take p segment else segment
                           | None \<Rightarrow> segment)
               in if name = [] then None else Some (unescape_brackets name))"

definition positional_root_key :: "string \<Rightarrow> string option" where
  "positional_root_key field =
     (if first_unescaped field (CHR ''.'') \<noteq> None then None
      else case first_unescaped field lbracket of
             None \<Rightarrow> None
           | Some pos \<Rightarrow> if pos = 0 then None else Some (unescape_brackets (take pos field)))"

text \<open>\<open>entry\<close>: registers the field under its event keys and hands its entry to \<open>f\<close>.\<close>

definition probe_root :: "string \<Rightarrow> string option" where
  "probe_root field =
     (case nested_root_key field of Some topk \<Rightarrow> Some topk | None \<Rightarrow> positional_root_key field)"

definition index_entry ::
    "string \<Rightarrow> (field_entry \<Rightarrow> field_entry) \<Rightarrow> candidate_index \<Rightarrow> candidate_index" where
  "index_entry field f ix =
     (let probes = push_probe_field (unescape_brackets field) field (ci_fields_for_event_key ix);
          probes' = (case probe_root field of
                       Some topk \<Rightarrow> push_probe_field topk field probes
                     | None \<Rightarrow> probes)
      in ix \<lparr> ci_fields_for_event_key := probes',
             ci_fields := map_entry field_entry_default field f (ci_fields ix) \<rparr>)"

definition rule_product :: "ext_env \<Rightarrow> compiled_rule \<Rightarrow> string option" where
  "rule_product env rule = map_option (to_lowercase env) (ls_product (cru_logsource rule))"

definition mark_always ::
    "ext_env \<Rightarrow> nat \<Rightarrow> compiled_rule \<Rightarrow> candidate_index \<Rightarrow> candidate_index" where
  "mark_always env rule_idx rule ix =
     ix \<lparr> ci_always := ci_always ix @ [rule_idx],
          ci_always_by_product := push_at (rule_product env rule) rule_idx (ci_always_by_product ix) \<rparr>"

definition mark_all_always ::
    "ext_env \<Rightarrow> nat list \<Rightarrow> compiled_rule list \<Rightarrow> candidate_index \<Rightarrow> candidate_index" where
  "mark_all_always env rule_indices rules ix =
     fold (\<lambda>i ix. if i < length rules then mark_always env i (rules ! i) ix else ix) rule_indices ix"

section \<open>Building\<close>

text \<open>The index under construction with the needle maps of the fields and of the keywords.\<close>

record index_build =
  ib_index :: candidate_index
  ib_field_needles :: "(string \<times> (string \<times> nat list) list) list"
  ib_keyword_needles :: "(string \<times> nat list) list"

fun build_witness :: "nat \<Rightarrow> witness \<Rightarrow> index_build \<Rightarrow> index_build" where
  "build_witness rule_idx (WPresence field) b =
     b \<lparr> ib_index := index_entry field
           (\<lambda>e. e \<lparr> fe_presence := fe_presence e @ [rule_idx] \<rparr>) (ib_index b) \<rparr>"
| "build_witness rule_idx (WExact field v) b =
     b \<lparr> ib_index := index_entry field
           (\<lambda>e. e \<lparr> fe_exact := push_at v rule_idx (fe_exact e) \<rparr>) (ib_index b) \<rparr>"
| "build_witness rule_idx (WSubstring field needle) b =
     b \<lparr> ib_field_needles := map_entry [] field (push_at needle rule_idx) (ib_field_needles b) \<rparr>"
| "build_witness rule_idx (WKeyword needle) b =
     b \<lparr> ib_keyword_needles := push_at needle rule_idx (ib_keyword_needles b) \<rparr>"

definition build_rule :: "ext_env \<Rightarrow> nat \<times> compiled_rule \<Rightarrow> index_build \<Rightarrow> index_build" where
  "build_rule env e b =
     (case e of (rule_idx, rule) \<Rightarrow>
        case analyze_rule env rule of
          RwOpen \<Rightarrow> b \<lparr> ib_index := mark_always env rule_idx rule (ib_index b) \<rparr>
        | RwAnyOf witnesses \<Rightarrow> fold (build_witness rule_idx) witnesses b)"

definition build_field_needles ::
    "ext_env \<Rightarrow> index_env \<Rightarrow> compiled_rule list \<Rightarrow> string \<times> (string \<times> nat list) list
     \<Rightarrow> candidate_index \<Rightarrow> candidate_index" where
  "build_field_needles env ie rules e ix =
     (case e of (field, needles) \<Rightarrow>
        case needle_set_build ie needles of
          Some s \<Rightarrow> index_entry field (\<lambda>e. e \<lparr> fe_needles := Some s \<rparr>) ix
        | None \<Rightarrow> mark_all_always env (rules_of needles) rules ix)"

definition sort_buckets :: "candidate_index \<Rightarrow> candidate_index" where
  "sort_buckets ix =
     ix \<lparr> ci_fields := map (\<lambda>(f, e). (f, e \<lparr> fe_presence := sort_dedup (fe_presence e),
            fe_exact := map (\<lambda>(v, rs). (v, sort_dedup rs)) (fe_exact e) \<rparr>)) (ci_fields ix),
          ci_fields_for_event_key :=
            map (\<lambda>(k, fs). (k, sort_dedup fs)) (ci_fields_for_event_key ix),
          ci_always := sort_dedup (ci_always ix),
          ci_always_by_product :=
            map (\<lambda>(p, rs). (p, sort_dedup rs)) (ci_always_by_product ix) \<rparr>"

definition build_start :: "compiled_rule list \<Rightarrow> index_build" where
  "build_start rules =
     \<lparr> ib_index = candidate_index_empty \<lparr> ci_rule_count := length rules,
                                           ci_rebuild_baseline := length rules \<rparr>,
       ib_field_needles = [], ib_keyword_needles = [] \<rparr>"

definition build_needles ::
    "ext_env \<Rightarrow> index_env \<Rightarrow> compiled_rule list \<Rightarrow> index_build \<Rightarrow> candidate_index" where
  "build_needles env ie rules b =
     (let ix = fold (build_field_needles env ie rules) (ib_field_needles b) (ib_index b);
          keyword = needle_set_build ie (ib_keyword_needles b);
          ix' = ix \<lparr> ci_keyword := keyword \<rparr>
      in if keyword = None then mark_all_always env (rules_of (ib_keyword_needles b)) rules ix'
         else ix')"

definition candidate_index_build ::
    "ext_env \<Rightarrow> index_env \<Rightarrow> compiled_rule list \<Rightarrow> candidate_index" where
  "candidate_index_build env ie rules =
     sort_buckets (build_needles env ie rules
       (fold (build_rule env) (enumerate 0 rules) (build_start rules)))"

section \<open>Appending\<close>

fun needs_automaton :: "witness \<Rightarrow> bool" where
  "needs_automaton (WSubstring _ _) = True"
| "needs_automaton (WKeyword _) = True"
| "needs_automaton _ = False"

fun append_witness :: "nat \<Rightarrow> witness \<Rightarrow> candidate_index \<Rightarrow> candidate_index" where
  "append_witness rule_idx (WPresence field) ix =
     index_entry field (\<lambda>e. e \<lparr> fe_presence := fe_presence e @ [rule_idx] \<rparr>) ix"
| "append_witness rule_idx (WExact field v) ix =
     index_entry field (\<lambda>e. e \<lparr> fe_exact := push_at v rule_idx (fe_exact e) \<rparr>) ix"
| "append_witness rule_idx _ ix = ix"

definition index_append_rule ::
    "ext_env \<Rightarrow> nat \<Rightarrow> compiled_rule \<Rightarrow> candidate_index \<Rightarrow> candidate_index" where
  "index_append_rule env rule_idx rule ix =
     (let ix1 = (if ci_rule_count ix < rule_idx + 1 then ix \<lparr> ci_rule_count := rule_idx + 1 \<rparr>
                 else ix)
      in case analyze_rule env rule of
           RwOpen \<Rightarrow> mark_always env rule_idx rule ix1
         | RwAnyOf witnesses \<Rightarrow>
             if list_ex needs_automaton witnesses
             then ix1 \<lparr> ci_pending := ci_pending ix1 @ [rule_idx] \<rparr>
             else fold (append_witness rule_idx) witnesses ix1)"

definition index_should_rebuild :: "candidate_index \<Rightarrow> nat \<Rightarrow> bool" where
  "index_should_rebuild ix rule_count =
     (max (min u64_max (ci_rebuild_baseline ix * 2)) index_rebuild_floor \<le> rule_count
      \<and> ci_rebuild_baseline ix < rule_count)"

section \<open>Probing\<close>

text \<open>\<open>for_each_projection\<close>: the visitor is a function on its captured state.\<close>

fun for_each_projection :: "ext_env \<Rightarrow> event_value \<Rightarrow> (string \<Rightarrow> 's \<Rightarrow> 's) \<Rightarrow> 's \<Rightarrow> 's" where
  "for_each_projection env (EvStr s) visit st = visit s st"
| "for_each_projection env (EvInt n) visit st = visit (show_int n) st"
| "for_each_projection env (EvFloat f) visit st = visit (f64_display env f) st"
| "for_each_projection env (EvBool b) visit st = visit (show_bool b) st"
| "for_each_projection env (EvArray members) visit st =
     fold (\<lambda>m st. for_each_projection env m visit st) members st"
| "for_each_projection env _ visit st = st"

definition probe_projection ::
    "ext_env \<Rightarrow> index_env \<Rightarrow> field_entry \<Rightarrow> string \<Rightarrow> candidate_set \<Rightarrow> candidate_set" where
  "probe_projection env ie entry projection acc =
     (if fe_exact entry \<noteq> [] then
        (let folded = ascii_lowercase_cow env projection;
             acc' = (case map_of (fe_exact entry) folded of
                       Some rules \<Rightarrow> candidate_set_extend rules acc
                     | None \<Rightarrow> acc)
         in case fe_needles entry of
              Some needles \<Rightarrow> mark_haystack ie needles folded acc'
            | None \<Rightarrow> acc')
      else case fe_needles entry of
             Some needles \<Rightarrow> needle_set_mark env ie needles projection acc
           | None \<Rightarrow> acc)"

definition apply_field_hit ::
    "ext_env \<Rightarrow> index_env \<Rightarrow> event \<Rightarrow> string \<Rightarrow> field_entry \<Rightarrow> candidate_set \<Rightarrow> candidate_set" where
  "apply_field_hit env ie ev field entry acc =
     (case ev_get_field ev field of
        None \<Rightarrow> acc
      | Some v \<Rightarrow>
          (let acc' = candidate_set_extend (fe_presence entry) acc
           in if \<not> needs_value entry then acc'
              else for_each_projection env v (probe_projection env ie entry) acc'))"

definition collect_field_hits ::
    "ext_env \<Rightarrow> index_env \<Rightarrow> candidate_index \<Rightarrow> event \<Rightarrow> candidate_set \<Rightarrow> candidate_set" where
  "collect_field_hits env ie ix ev acc =
     (case ev_top_level_keys ev of
        Some keys \<Rightarrow>
          fold (\<lambda>key acc.
            case map_of (ci_fields_for_event_key ix) key of
              Some fs \<Rightarrow>
                fold (\<lambda>field acc.
                  case map_of (ci_fields ix) field of
                    Some entry \<Rightarrow> apply_field_hit env ie ev field entry acc
                  | None \<Rightarrow> acc) fs acc
            | None \<Rightarrow> acc) keys acc
      | None \<Rightarrow>
          fold (\<lambda>(field, entry) acc. apply_field_hit env ie ev field entry acc) (ci_fields ix) acc)"

definition collect_keyword_hits ::
    "ext_env \<Rightarrow> index_env \<Rightarrow> candidate_index \<Rightarrow> event \<Rightarrow> candidate_set \<Rightarrow> candidate_set" where
  "collect_keyword_hits env ie ix ev acc =
     (case ci_keyword ix of
        None \<Rightarrow> acc
      | Some keyword \<Rightarrow> fold (needle_set_mark env ie keyword) (ev_all_string_values ev) acc)"

definition candidates ::
    "ext_env \<Rightarrow> index_env \<Rightarrow> candidate_index \<Rightarrow> event \<Rightarrow> nat list" where
  "candidates env ie ix ev =
     candidate_set_finish
       (collect_keyword_hits env ie ix ev
         (collect_field_hits env ie ix ev
           (candidate_set_extend (ci_pending ix)
             (candidate_set_extend (ci_always ix) (candidate_set_new (ci_rule_count ix))))))"

definition candidates_with_logsource ::
    "ext_env \<Rightarrow> index_env \<Rightarrow> candidate_index \<Rightarrow> event \<Rightarrow> string option \<Rightarrow> nat list" where
  "candidates_with_logsource env ie ix ev event_product =
     (case map_option (to_lowercase env) event_product of
        None \<Rightarrow> candidates env ie ix ev
      | Some prod_name \<Rightarrow>
          candidate_set_finish
            (collect_keyword_hits env ie ix ev
              (collect_field_hits env ie ix ev
                (candidate_set_extend (ci_pending ix)
                  (fold candidate_set_extend
                    (filter_map (map_of (ci_always_by_product ix)) [None, Some prod_name])
                    (candidate_set_new (ci_rule_count ix)))))))"

definition conflicting_unindexable_count ::
    "ext_env \<Rightarrow> candidate_index \<Rightarrow> string option \<Rightarrow> nat" where
  "conflicting_unindexable_count env ix event_product =
     (case map_option (to_lowercase env) event_product of
        None \<Rightarrow> 0
      | Some prod_name \<Rightarrow>
          length (ci_always ix)
          - length (map_get [] (ci_always_by_product ix) None)
          - length (map_get [] (ci_always_by_product ix) (Some prod_name)))"

end
