(* ===== verification/EventInput.thy ===== *)
theory EventInput
  imports Event
begin

text \<open>
  The events an engine is given: the four \<open>Event\<close> implementations over raw data, and the decoded input
  line of the runtime (\<open>rsigma-runtime/src/input/mod.rs\<close>), which delegates to one of them.
  \<open>MappedEvent\<close> is not among them: the router wraps an event in it for correlation only, after
  detection has run.
\<close>

datatype event_input_decoded =
  EidJson json_value
| EidKv "(string \<times> string) list"
| EidPlain string

fun decoded_inner :: "ext_env \<Rightarrow> event_input_decoded \<Rightarrow> event" where
  "decoded_inner env (EidJson v) = json_event env v"
| "decoded_inner env (EidKv kvs) = kv_event kvs"
| "decoded_inner env (EidPlain raw) = plain_event raw"

text \<open>
  The delegation leaves \<open>top_level_keys\<close> at the default of the trait, so a decoded line has no key
  list and the candidate index looks up every indexed field.
\<close>

definition decoded_event :: "ext_env \<Rightarrow> event_input_decoded \<Rightarrow> event" where
  "decoded_event env d = (decoded_inner env d) \<lparr> ev_top_level_keys := None \<rparr>"

inductive engine_event :: "ext_env \<Rightarrow> event \<Rightarrow> bool" for env where
  json: "engine_event env (json_event env v)"
| kv: "engine_event env (kv_event kvs)"
| plain: "engine_event env (plain_event raw)"
| flat: "engine_event env (map_event inner)"
| decoded: "engine_event env (decoded_event env d)"

lemma engine_event_wf: "engine_event env ev \<Longrightarrow> event_wf ev"
proof (induction rule: engine_event.induct)
  case (decoded d)
  have "event_wf (decoded_inner env d)"
    by (cases d) (simp_all add: event_wf_json event_wf_kv event_wf_plain)
  then show ?case by (simp add: decoded_event_def event_wf_def)
qed (rule event_wf_json event_wf_kv event_wf_plain event_wf_map)+

end
