(* ===== verification/CandidateProps.thy ===== *)
theory CandidateProps
  imports CandidateIndex EventInput
begin

text \<open>
  The candidate index never leaves out a rule that matches: what each probing step marks, what the
  index holds of every rule after building and after appending, and the two put together.
\<close>

section \<open>Accumulating candidates\<close>

definition cs_ok :: "nat \<Rightarrow> candidate_set \<Rightarrow> bool" where
  "cs_ok n acc =
     (length (cs_seen acc) = n \<and> distinct (cs_out acc) \<and> set (cs_out acc) \<subseteq> {..<n}
      \<and> (\<forall>i < n. cs_seen acc ! i = (i \<in> set (cs_out acc))))"

text \<open>\<open>g\<close> keeps the accumulator well-formed, what it holds, and adds the rules of \<open>R\<close>.\<close>

definition marks :: "nat \<Rightarrow> nat set \<Rightarrow> (candidate_set \<Rightarrow> candidate_set) \<Rightarrow> bool" where
  "marks n R g =
     (\<forall>acc. cs_ok n acc \<longrightarrow> cs_ok n (g acc) \<and> set (cs_out acc) \<union> R \<inter> {..<n} \<subseteq> set (cs_out (g acc)))"

named_theorems marks_intros "what the probing steps mark"

lemma marksI:
  "(\<And>acc. cs_ok n acc \<Longrightarrow> cs_ok n (g acc)) \<Longrightarrow>
   (\<And>acc. cs_ok n acc \<Longrightarrow> set (cs_out acc) \<union> R \<inter> {..<n} \<subseteq> set (cs_out (g acc))) \<Longrightarrow> marks n R g"
  by (simp add: marks_def)

lemma marks_id: "marks n {} (\<lambda>acc. acc)"
  by (simp add: marks_def)

lemma marks_mono: "marks n S g \<Longrightarrow> R \<subseteq> S \<Longrightarrow> marks n R g"
  unfolding marks_def by blast

lemma marks_comp: "marks n R f \<Longrightarrow> marks n S g \<Longrightarrow> marks n (R \<union> S) (\<lambda>acc. g (f acc))"
  unfolding marks_def by blast

lemma marks_fold:
  "(\<And>x. x \<in> set xs \<Longrightarrow> marks n (R x) (f x)) \<Longrightarrow> marks n (\<Union>x \<in> set xs. R x) (\<lambda>acc. fold f xs acc)"
proof (induction xs)
  case Nil
  show ?case by (simp add: marks_id)
next
  case (Cons x xs)
  have "marks n (R x \<union> (\<Union>y \<in> set xs. R y)) (\<lambda>acc. fold f xs (f x acc))"
    by (rule marks_comp) (use Cons in auto)
  then show ?case by simp
qed

lemma marks_fold_mono:
  assumes "\<And>x. x \<in> set xs \<Longrightarrow> marks n (R x) (f x)" and "S \<subseteq> (\<Union>x \<in> set xs. R x)"
  shows "marks n S (\<lambda>acc. fold f xs acc)"
  by (rule marks_mono [OF marks_fold assms(2)]) (rule assms(1))

lemma marks_push: "marks n {i} (candidate_set_push i)"
proof (rule marksI)
  fix acc
  assume ok: "cs_ok n acc"
  show "cs_ok n (candidate_set_push i acc)"
    using ok by (auto simp: cs_ok_def candidate_set_push_def nth_list_update)
  show "set (cs_out acc) \<union> {i} \<inter> {..<n} \<subseteq> set (cs_out (candidate_set_push i acc))"
    using ok by (auto simp: cs_ok_def candidate_set_push_def)
qed

lemma marks_extend: "marks n (set rules) (candidate_set_extend rules)"
  unfolding candidate_set_extend_def by (rule marks_fold_mono [OF marks_push]) auto

lemma cs_ok_new: "cs_ok n (candidate_set_new n)"
  by (simp add: cs_ok_def candidate_set_new_def)

section \<open>Probing\<close>

text \<open>The overlapping search reports the patterns that occur in the text, ignoring ASCII case.\<close>

definition overlapping_law :: "index_env \<Rightarrow> bool" where
  "overlapping_law ie =
     (\<forall>ps h. ix_dfa_ok ie ps \<or> ix_auto_ok ie ps \<longrightarrow>
        set (ix_overlapping ie ps h)
        = {i. i < length ps \<and> contains_str (map ascii_lower_char h) (map ascii_lower_char (ps ! i))})"

definition needle_set_ok :: "index_env \<Rightarrow> needle_set \<Rightarrow> bool" where
  "needle_set_ok ie ns =
     ((ix_dfa_ok ie (ns_automaton ns) \<or> ix_auto_ok ie (ns_automaton ns))
      \<and> length (ns_pattern_to_rules ns) = length (ns_automaton ns))"

definition needle_has :: "needle_set \<Rightarrow> string \<Rightarrow> nat \<Rightarrow> bool" where
  "needle_has ns needle idx =
     (\<exists>i < length (ns_automaton ns). ns_automaton ns ! i = needle \<and> idx \<in> set (ns_pattern_to_rules ns ! i))"

lemma contains_map: "contains_str h n \<Longrightarrow> contains_str (map f h) (map f n)"
  unfolding contains_str_iff by (metis map_append)

definition needle_hits :: "ext_env \<Rightarrow> needle_set \<Rightarrow> string \<Rightarrow> nat set" where
  "needle_hits env ns s =
     {idx. \<exists>n. needle_has ns n idx \<and> contains_str (to_lowercase env s) n}"

lemma marks_haystack:
  assumes "overlapping_law ie" and "needle_set_ok ie ns"
    and "\<And>n. contains_str (to_lowercase env s) n \<Longrightarrow>
      contains_str (map ascii_lower_char h) (map ascii_lower_char n)"
  shows "marks n (needle_hits env ns s) (mark_haystack ie ns h)"
  unfolding mark_haystack_def
proof (rule marks_fold_mono)
  let ?rules = "ns_pattern_to_rules ns"
  show "marks n (if p < length ?rules then set (?rules ! p) else {})
      (\<lambda>out. if p < length ?rules then candidate_set_extend (?rules ! p) out else out)" for p
    by (cases "p < length ?rules") (simp_all add: marks_extend marks_id)
  show "needle_hits env ns s
      \<subseteq> (\<Union>p \<in> set (ix_overlapping ie (ns_automaton ns) h). if p < length ?rules then set (?rules ! p) else {})"
  proof
    fix idx
    assume "idx \<in> needle_hits env ns s"
    then obtain i where i: "i < length (ns_automaton ns)" "idx \<in> set (?rules ! i)"
        "contains_str (to_lowercase env s) (ns_automaton ns ! i)"
      by (auto simp: needle_hits_def needle_has_def)
    have "set (ix_overlapping ie (ns_automaton ns) h)
        = {i. i < length (ns_automaton ns)
            \<and> contains_str (map ascii_lower_char h) (map ascii_lower_char (ns_automaton ns ! i))}"
      using assms(1,2) unfolding needle_set_ok_def overlapping_law_def by blast
    with i assms(2,3) have "i \<in> set (ix_overlapping ie (ns_automaton ns) h)" and "i < length ?rules"
      by (simp_all add: needle_set_ok_def)
    with i(2) show "idx \<in> (\<Union>p \<in> set (ix_overlapping ie (ns_automaton ns) h).
        if p < length ?rules then set (?rules ! p) else {})" by force
  qed
qed

lemma marks_folded_haystack:
  "overlapping_law ie \<Longrightarrow> needle_set_ok ie ns \<Longrightarrow>
   marks n (needle_hits env ns s) (mark_haystack ie ns (ascii_lowercase_cow env s))"
  by (rule marks_haystack) (simp_all add: ascii_lowercase_cow_eq contains_map)

lemma marks_needles:
  assumes "overlapping_law ie" and "needle_set_ok ie ns"
  shows "marks n (needle_hits env ns s) (needle_set_mark env ie ns s)"
proof (cases "is_ascii s")
  case True
  have "contains_str (map ascii_lower_char s) (map ascii_lower_char n)"
    if "contains_str (to_lowercase env s) n" for n
    using contains_map [OF that, of ascii_lower_char] True by (simp add: to_lowercase_ascii comp_def)
  with marks_haystack [OF assms] True show ?thesis
    by (simp add: needle_set_mark_def [abs_def])
next
  case False
  then show ?thesis
    using marks_folded_haystack [OF assms] by (simp add: needle_set_mark_def [abs_def])
qed

lemma for_each_projection_fold:
  "for_each_projection env v visit st = fold visit (value_strings env v) st"
proof (induction env v visit st rule: for_each_projection.induct)
  case (5 env members visit st)
  have "fold (\<lambda>m st. for_each_projection env m visit st) ms st
      = fold visit (concat (map (value_strings env) ms)) st" if "set ms \<subseteq> set members" for ms st
    using that by (induction ms arbitrary: st) (simp_all add: 5)
  then show ?case by simp
qed simp_all

text \<open>The rules an entry marks when one string form of the field is probed, and for the field.\<close>

definition projection_hits :: "ext_env \<Rightarrow> field_entry \<Rightarrow> string \<Rightarrow> nat set" where
  "projection_hits env entry s =
     set (map_get [] (fe_exact entry) (to_lowercase env s))
     \<union> (case fe_needles entry of Some ns \<Rightarrow> needle_hits env ns s | None \<Rightarrow> {})"

definition field_hits :: "ext_env \<Rightarrow> event \<Rightarrow> string \<Rightarrow> field_entry \<Rightarrow> nat set" where
  "field_hits env ev field entry =
     (case ev_get_field ev field of
        None \<Rightarrow> {}
      | Some v \<Rightarrow>
          set (fe_presence entry) \<union> (\<Union>s \<in> set (value_strings env v). projection_hits env entry s))"

definition entry_ok :: "index_env \<Rightarrow> field_entry \<Rightarrow> bool" where
  "entry_ok ie entry = (case fe_needles entry of Some ns \<Rightarrow> needle_set_ok ie ns | None \<Rightarrow> True)"

lemma marks_projection:
  assumes "overlapping_law ie" and "entry_ok ie entry"
  shows "marks n (projection_hits env entry s) (probe_projection env ie entry s)"
proof -
  define look where "look = (\<lambda>acc. case map_of (fe_exact entry) (ascii_lowercase_cow env s) of
      Some rules \<Rightarrow> candidate_set_extend rules acc | None \<Rightarrow> acc)"
  have look: "marks n (set (map_get [] (fe_exact entry) (to_lowercase env s))) look"
    by (cases "map_of (fe_exact entry) (ascii_lowercase_cow env s)")
       (simp_all add: look_def map_get_def ascii_lowercase_cow_eq marks_id marks_extend)
  show ?thesis
  proof (cases "fe_needles entry")
    case None
    then have "probe_projection env ie entry s = look"
      by (auto simp: probe_projection_def look_def fun_eq_iff)
    with look None show ?thesis by (simp add: projection_hits_def)
  next
    case (Some ns)
    with assms(2) have ok: "needle_set_ok ie ns" by (simp add: entry_ok_def)
    show ?thesis
    proof (cases "fe_exact entry = []")
      case True
      with Some have "probe_projection env ie entry s = needle_set_mark env ie ns s"
        by (simp add: probe_projection_def fun_eq_iff)
      with marks_needles [OF assms(1) ok] True Some show ?thesis
        by (simp add: projection_hits_def map_get_def)
    next
      case False
      with Some have "probe_projection env ie entry s
          = (\<lambda>acc. mark_haystack ie ns (ascii_lowercase_cow env s) (look acc))"
        by (simp add: probe_projection_def look_def fun_eq_iff Let_def)
      with marks_comp [OF look marks_folded_haystack [OF assms(1) ok]] Some show ?thesis
        by (simp add: projection_hits_def)
    qed
  qed
qed

lemma no_value_no_hits: "\<not> needs_value entry \<Longrightarrow> projection_hits env entry s = {}"
  by (simp add: needs_value_def projection_hits_def map_get_def)

lemma marks_field:
  assumes "overlapping_law ie" and "entry_ok ie entry"
  shows "marks n (field_hits env ev field entry) (apply_field_hit env ie ev field entry)"
proof (cases "ev_get_field ev field")
  case None
  then show ?thesis by (simp add: field_hits_def apply_field_hit_def [abs_def] marks_id)
next
  case (Some v)
  show ?thesis
  proof (cases "needs_value entry")
    case False
    with Some show ?thesis
      by (simp add: field_hits_def apply_field_hit_def [abs_def] no_value_no_hits marks_extend)
  next
    case True
    have "marks n (set (fe_presence entry) \<union> (\<Union>s \<in> set (value_strings env v). projection_hits env entry s))
        (\<lambda>acc. fold (probe_projection env ie entry) (value_strings env v)
          (candidate_set_extend (fe_presence entry) acc))"
      by (rule marks_comp [OF marks_extend marks_fold]) (rule marks_projection [OF assms])
    with True Some show ?thesis
      by (simp add: field_hits_def apply_field_hit_def [abs_def] for_each_projection_fold)
  qed
qed

section \<open>What the index holds of a rule\<close>

abbreviation entry_of :: "candidate_index \<Rightarrow> string \<Rightarrow> field_entry" where
  "entry_of ix \<equiv> map_get field_entry_default (ci_fields ix)"

fun index_has :: "candidate_index \<Rightarrow> nat \<Rightarrow> witness \<Rightarrow> bool" where
  "index_has ix idx (WPresence f) = (idx \<in> set (fe_presence (entry_of ix f)))"
| "index_has ix idx (WExact f v) = (idx \<in> set (map_get [] (fe_exact (entry_of ix f)) v))"
| "index_has ix idx (WSubstring f n) =
     (case fe_needles (entry_of ix f) of Some ns \<Rightarrow> needle_has ns n idx | None \<Rightarrow> False)"
| "index_has ix idx (WKeyword n) =
     (case ci_keyword ix of Some ns \<Rightarrow> needle_has ns n idx | None \<Rightarrow> False)"

text \<open>The event keys under which the index looks for a field.\<close>

definition probe_keys :: "string \<Rightarrow> string list" where
  "probe_keys field =
     unescape_brackets field # (case probe_root field of Some r \<Rightarrow> [r] | None \<Rightarrow> [])"

definition fields_registered :: "candidate_index \<Rightarrow> bool" where
  "fields_registered ix =
     (distinct (map fst (ci_fields ix))
      \<and> (\<forall>f \<in> fst ` set (ci_fields ix). \<forall>k \<in> set (probe_keys f).
            f \<in> set (map_get [] (ci_fields_for_event_key ix) k)))"

definition index_wf :: "index_env \<Rightarrow> candidate_index \<Rightarrow> bool" where
  "index_wf ie ix =
     ((\<forall>f. entry_ok ie (entry_of ix f)) \<and> fields_registered ix
      \<and> (case ci_keyword ix of Some ns \<Rightarrow> needle_set_ok ie ns | None \<Rightarrow> True))"

text \<open>A field the event has is one the index probes.\<close>

definition probed :: "event \<Rightarrow> string \<Rightarrow> bool" where
  "probed ev field =
     (case ev_top_level_keys ev of
        None \<Rightarrow> True
      | Some keys \<Rightarrow>
          ev_get_field ev field \<noteq> None \<longrightarrow> list_ex (\<lambda>k. k \<in> set (probe_keys field)) keys)"

lemma map_get_Some: "map_get d m k \<noteq> d \<Longrightarrow> \<exists>v. map_of m k = Some v \<and> map_get d m k = v"
  by (cases "map_of m k") (simp_all add: map_get_def)

lemma field_hits_default: "field_hits env ev f field_entry_default = {}"
  by (auto simp: field_hits_def projection_hits_def field_entry_default_def map_get_def
      split: option.splits)

lemma marks_probed_fields:
  assumes "overlapping_law ie" and "index_wf ie ix"
  shows "marks n (\<Union>f \<in> {f. probed ev f}. field_hits env ev f (entry_of ix f))
    (collect_field_hits env ie ix ev)" (is "marks n ?hits _")
proof -
  have entries: "marks n (field_hits env ev g entry) (apply_field_hit env ie ev g entry)"
    if "map_of (ci_fields ix) g = Some entry" for g entry
  proof -
    have "entry_of ix g = entry" using that by (simp add: map_get_def)
    with assms(2) have "entry_ok ie entry" unfolding index_wf_def by metis
    then show ?thesis by (rule marks_field [OF assms(1)])
  qed
  let ?probe = "\<lambda>field acc. case map_of (ci_fields ix) field of
      Some entry \<Rightarrow> apply_field_hit env ie ev field entry acc | None \<Rightarrow> acc"
  have probe: "marks n (field_hits env ev g (entry_of ix g)) (?probe g)" for g
    using entries [of g]
    by (cases "map_of (ci_fields ix) g") (simp_all add: map_get_def marks_id field_hits_default)
  show ?thesis
  proof (cases "ev_top_level_keys ev")
    case None
    have "marks n ?hits
        (\<lambda>acc. fold (\<lambda>(field, entry) acc. apply_field_hit env ie ev field entry acc) (ci_fields ix) acc)"
    proof (rule marks_fold_mono)
      show "marks n (field_hits env ev (fst e) (snd e))
          (case e of (field, entry) \<Rightarrow> apply_field_hit env ie ev field entry)" if "e \<in> set (ci_fields ix)" for e
        using entries [of "fst e" "snd e"] that assms(2)
        by (cases e) (simp add: index_wf_def fields_registered_def)
      have "field_hits env ev f (entry_of ix f)
          \<subseteq> (\<Union>e \<in> set (ci_fields ix). field_hits env ev (fst e) (snd e))" for f
        by (cases "map_of (ci_fields ix) f")
           (force simp: map_get_def field_hits_default dest: map_of_SomeD)+
      then show "?hits \<subseteq> (\<Union>e \<in> set (ci_fields ix). field_hits env ev (fst e) (snd e))" by blast
    qed
    with None show ?thesis by (simp add: collect_field_hits_def [abs_def])
  next
    case (Some keys)
    let ?bucket = "\<lambda>key. map_get [] (ci_fields_for_event_key ix) key"
    have bucket: "marks n (\<Union>g \<in> set (?bucket key). field_hits env ev g (entry_of ix g))
        (\<lambda>acc. case map_of (ci_fields_for_event_key ix) key of
          Some fs \<Rightarrow> fold ?probe fs acc | None \<Rightarrow> acc)" for key
      using marks_fold [of _ n, OF probe]
      by (cases "map_of (ci_fields_for_event_key ix) key") (simp_all add: map_get_def marks_id)
    have "marks n ?hits
        (\<lambda>acc. fold (\<lambda>key acc. case map_of (ci_fields_for_event_key ix) key of
          Some fs \<Rightarrow> fold ?probe fs acc | None \<Rightarrow> acc) keys acc)"
    proof (rule marks_fold_mono [OF bucket])
      show "?hits \<subseteq> (\<Union>key \<in> set keys. \<Union>g \<in> set (?bucket key). field_hits env ev g (entry_of ix g))"
      proof
        fix idx
        assume "idx \<in> ?hits"
        then obtain f where f: "probed ev f" and idx: "idx \<in> field_hits env ev f (entry_of ix f)"
          by blast
        from idx have "ev_get_field ev f \<noteq> None" by (auto simp: field_hits_def split: option.splits)
        with f Some obtain k where k: "k \<in> set keys" "k \<in> set (probe_keys f)"
          by (auto simp: probed_def list_ex_iff)
        from idx have "entry_of ix f \<noteq> field_entry_default" by (auto simp: field_hits_default)
        then have "f \<in> fst ` set (ci_fields ix)"
          by (metis map_get_Some map_of_eq_None_iff option.distinct(1))
        with assms(2) k(2) have "f \<in> set (?bucket k)"
          unfolding index_wf_def fields_registered_def by blast
        with k(1) idx show "idx \<in> (\<Union>key \<in> set keys. \<Union>g \<in> set (?bucket key). field_hits env ev g (entry_of ix g))"
          by blast
      qed
    qed
    with Some show ?thesis by (simp add: collect_field_hits_def [abs_def])
  qed
qed

lemma marks_keywords:
  assumes "overlapping_law ie" and "index_wf ie ix"
  shows "marks n (case ci_keyword ix of
        Some ns \<Rightarrow> (\<Union>s \<in> set (ev_all_string_values ev). needle_hits env ns s) | None \<Rightarrow> {})
      (collect_keyword_hits env ie ix ev)"
proof (cases "ci_keyword ix")
  case None
  then show ?thesis by (simp add: collect_keyword_hits_def [abs_def] marks_id)
next
  case (Some ns)
  with assms(2) have "needle_set_ok ie ns" by (simp add: index_wf_def)
  with Some show ?thesis
    by (simp add: collect_keyword_hits_def [abs_def] marks_fold marks_needles [OF assms(1)])
qed

definition witness_probed :: "event \<Rightarrow> witness \<Rightarrow> bool" where
  "witness_probed ev w =
     (case w of
        WExact f v \<Rightarrow> probed ev f
      | WSubstring f n \<Rightarrow> probed ev f
      | WPresence f \<Rightarrow> probed ev f
      | WKeyword n \<Rightarrow> True)"

lemma marks_witness:
  assumes "overlapping_law ie" and "index_wf ie ix" and "index_has ix idx w"
    and "holds_witness env ev w" and "witness_probed ev w"
  shows "marks n {idx} (\<lambda>acc. collect_keyword_hits env ie ix ev (collect_field_hits env ie ix ev acc))"
proof (rule marks_mono [OF marks_comp [OF marks_probed_fields [OF assms(1,2)] marks_keywords [OF assms(1,2)]]])
  have hit: "idx \<in> field_hits env ev f (entry_of ix f)"
    if "w = WPresence f \<or> (\<exists>v. w = WExact f v) \<or> (\<exists>n. w = WSubstring f n)" for f
    using that assms(3,4)
    by (auto simp: field_hits_def projection_hits_def needle_hits_def holds_witness_def list_ex_iff
        split: option.splits)
  show "{idx} \<subseteq> (\<Union>f \<in> {f. probed ev f}. field_hits env ev f (entry_of ix f))
      \<union> (case ci_keyword ix of
          Some ns \<Rightarrow> (\<Union>s \<in> set (ev_all_string_values ev). needle_hits env ns s) | None \<Rightarrow> {})"
  proof (cases w)
    case (WKeyword n)
    with assms(3,4) show ?thesis
      by (auto simp: holds_witness_def needle_hits_def list_ex_iff split: option.splits)
  qed (use assms(5) hit in \<open>auto simp: witness_probed_def\<close>)
qed

text \<open>
  What the index must hold: every rule is always evaluated, pending, or found under each of its
  witnesses; and the always-evaluated rules are partitioned by product.
\<close>

definition rule_indexed :: "ext_env \<Rightarrow> candidate_index \<Rightarrow> nat \<Rightarrow> compiled_rule \<Rightarrow> bool" where
  "rule_indexed env ix idx rule =
     (idx \<in> set (ci_always ix) \<or> idx \<in> set (ci_pending ix)
      \<or> (case analyze_rule env rule of
           RwOpen \<Rightarrow> False
         | RwAnyOf ws \<Rightarrow> list_all (index_has ix idx) ws))"

definition always_partitioned ::
    "ext_env \<Rightarrow> compiled_rule list \<Rightarrow> candidate_index \<Rightarrow> bool" where
  "always_partitioned env rules ix =
     ((\<forall>i \<in> set (ci_always ix). i < length rules)
      \<and> (\<forall>i p. i \<in> set (map_get [] (ci_always_by_product ix) p)
               \<longleftrightarrow> i \<in> set (ci_always ix) \<and> p = rule_product env (rules ! i)))"

definition index_for ::
    "ext_env \<Rightarrow> index_env \<Rightarrow> compiled_rule list \<Rightarrow> candidate_index \<Rightarrow> bool" where
  "index_for env ie rules ix =
     (index_wf ie ix \<and> ci_rule_count ix = length rules \<and> always_partitioned env rules ix
      \<and> distinct (ci_always ix) \<and> (\<forall>p. distinct (map_get [] (ci_always_by_product ix) p))
      \<and> (\<forall>i < length rules. rule_indexed env ix i (rules ! i)))"

definition index_laws :: "ext_env \<Rightarrow> index_env \<Rightarrow> bool" where
  "index_laws env ie = (witness_laws env \<and> overlapping_law ie)"

definition rule_probed :: "ext_env \<Rightarrow> event \<Rightarrow> compiled_rule \<Rightarrow> bool" where
  "rule_probed env ev rule =
     (case analyze_rule env rule of
        RwOpen \<Rightarrow> True
      | RwAnyOf ws \<Rightarrow> list_all (witness_probed ev) ws)"

section \<open>No rule is left out\<close>

lemma marks_extend_two: "marks n (set xs \<union> set ys) (\<lambda>acc. candidate_set_extend ys (candidate_set_extend xs acc))"
  by (rule marks_comp [OF marks_extend marks_extend])

lemma marks_buckets:
  "marks n (\<Union>p \<in> set ps. set (map_get [] m p)) (\<lambda>acc. fold candidate_set_extend (filter_map (map_of m) ps) acc)"
proof (rule marks_fold_mono [OF marks_extend])
  have "set (map_get [] m p) \<subseteq> (\<Union>rs \<in> set (filter_map (map_of m) ps). set rs)" if "p \<in> set ps" for p
    using that by (cases "map_of m p") (auto simp: map_get_def set_filter_map)
  then show "(\<Union>p \<in> set ps. set (map_get [] m p)) \<subseteq> (\<Union>rs \<in> set (filter_map (map_of m) ps). set rs)"
    by blast
qed

lemma rule_marked:
  assumes laws: "index_laws env ie" and wf: "event_wf ev" and ix: "index_for env ie rules ix"
    and i: "i < length rules" "rule_flagged (rules ! i)" "rule_probed env ev (rules ! i)"
    and fires: "evaluate_rule_with_bloom env (rules ! i) ev bloom level \<noteq> None"
  shows "i \<in> set (ci_always ix) \<or> i \<in> set (ci_pending ix)
    \<or> marks n {i} (\<lambda>acc. collect_keyword_hits env ie ix ev (collect_field_hits env ie ix ev acc))"
proof (cases "i \<in> set (ci_always ix) \<or> i \<in> set (ci_pending ix)")
  case False
  moreover have "rule_indexed env ix i (rules ! i)" using ix i(1) by (simp add: index_for_def)
  ultimately obtain ws where ws: "analyze_rule env (rules ! i) = RwAnyOf ws" "list_all (index_has ix i) ws"
    by (cases "analyze_rule env (rules ! i)") (auto simp: rule_indexed_def)
  then obtain w where "w \<in> set ws" "holds_witness env ev w"
    using rule_gate [OF _ wf i(2) ws(1) fires] laws by (auto simp: index_laws_def)
  moreover have "witness_probed ev w" "index_has ix i w"
    using i(3) ws \<open>w \<in> set ws\<close> by (auto simp: rule_probed_def list_all_iff)
  ultimately show ?thesis
    using marks_witness [of ie ix i w env ev] laws ix by (auto simp: index_laws_def index_for_def)
qed auto

lemma marks_nothing:
  assumes "index_laws env ie" and "index_wf ie ix"
  shows "marks n {} (\<lambda>acc. collect_keyword_hits env ie ix ev (collect_field_hits env ie ix ev acc))"
  using assms
  by (intro marks_mono [OF marks_comp [OF marks_probed_fields marks_keywords]])
     (simp_all add: index_laws_def)

lemma finish_in:
  assumes "marks n R g" and "i \<in> R" and "i < n"
  shows "i \<in> set (candidate_set_finish (g (candidate_set_new n)))"
  using assms cs_ok_new [of n] unfolding marks_def candidate_set_finish_def by fastforce

lemma finish_sorted:
  assumes "marks n R g"
  shows "sorted (candidate_set_finish (g (candidate_set_new n)))"
    and "distinct (candidate_set_finish (g (candidate_set_new n)))"
    and "set (candidate_set_finish (g (candidate_set_new n))) \<subseteq> {..<n}"
  using assms cs_ok_new [of n] by (auto simp: marks_def candidate_set_finish_def cs_ok_def)

text \<open>Both lookups are one shape: a starting set, then the field and keyword hits.\<close>

lemma lookup_complete:
  assumes laws: "index_laws env ie" and wf: "event_wf ev" and ix: "index_for env ie rules ix"
    and i: "i < length rules" "rule_flagged (rules ! i)" "rule_probed env ev (rules ! i)"
    and fires: "evaluate_rule_with_bloom env (rules ! i) ev bloom level \<noteq> None"
    and start: "marks (length rules) S start" "i \<in> set (ci_always ix) \<union> set (ci_pending ix) \<longrightarrow> i \<in> S"
  shows "i \<in> set (candidate_set_finish (collect_keyword_hits env ie ix ev
      (collect_field_hits env ie ix ev (start (candidate_set_new (length rules))))))"
proof -
  let ?probe = "\<lambda>acc. collect_keyword_hits env ie ix ev (collect_field_hits env ie ix ev acc)"
  have "\<exists>R. marks (length rules) R (\<lambda>acc. ?probe (start acc)) \<and> i \<in> R"
  proof (cases "i \<in> set (ci_always ix) \<union> set (ci_pending ix)")
    case True
    with start(2) have "i \<in> S \<union> {}" by blast
    moreover have "marks (length rules) {} ?probe"
      using laws ix by (intro marks_nothing) (simp_all add: index_for_def)
    ultimately show ?thesis using marks_comp [OF start(1)] by blast
  next
    case False
    with rule_marked [OF laws wf ix i fires] have "marks (length rules) {i} ?probe" by blast
    from marks_comp [OF start(1) this] show ?thesis by blast
  qed
  then show ?thesis using finish_in [OF _ _ i(1)] by blast
qed

lemma candidates_complete:
  assumes "index_laws env ie" and "event_wf ev" and "index_for env ie rules ix"
    and "i < length rules" and "rule_flagged (rules ! i)" and "rule_probed env ev (rules ! i)"
    and "evaluate_rule_with_bloom env (rules ! i) ev bloom level \<noteq> None"
  shows "i \<in> set (candidates env ie ix ev)"
proof -
  have "ci_rule_count ix = length rules" using assms(3) by (simp add: index_for_def)
  then show ?thesis
    unfolding candidates_def
    using lookup_complete [OF assms marks_extend_two [of "length rules" "ci_always ix" "ci_pending ix"]]
    by simp
qed

lemma candidates_with_logsource_complete:
  assumes "index_laws env ie" and "event_wf ev" and ix: "index_for env ie rules ix"
    and "i < length rules" and "rule_flagged (rules ! i)" and "rule_probed env ev (rules ! i)"
    and "evaluate_rule_with_bloom env (rules ! i) ev bloom level \<noteq> None"
    and prod: "rule_product env (rules ! i) = None
      \<or> rule_product env (rules ! i) = map_option (to_lowercase env) event_product"
  shows "i \<in> set (candidates_with_logsource env ie ix ev event_product)"
proof (cases event_product)
  case None
  then show ?thesis
    using candidates_complete [OF assms(1-7)] by (simp add: candidates_with_logsource_def)
next
  case (Some p)
  let ?ps = "[None, Some (to_lowercase env p)]"
  let ?start = "\<lambda>acc. candidate_set_extend (ci_pending ix)
    (fold candidate_set_extend (filter_map (map_of (ci_always_by_product ix)) ?ps) acc)"
  have start: "marks (length rules)
      ((\<Union>p \<in> set ?ps. set (map_get [] (ci_always_by_product ix) p)) \<union> set (ci_pending ix)) ?start"
    by (rule marks_comp [OF marks_buckets marks_extend])
  have "i \<in> set (map_get [] (ci_always_by_product ix) (rule_product env (rules ! i)))"
    if "i \<in> set (ci_always ix)"
    using that ix unfolding index_for_def always_partitioned_def by blast
  with prod Some lookup_complete [OF assms(1-7) start] ix show ?thesis
    by (auto simp: candidates_with_logsource_def index_for_def)
qed

lemma candidates_sorted:
  assumes "index_laws env ie" and "index_for env ie rules ix"
  shows "sorted (candidates env ie ix ev)" and "distinct (candidates env ie ix ev)"
    and "set (candidates env ie ix ev) \<subseteq> {..<length rules}"
proof -
  have n: "ci_rule_count ix = length rules" and wf: "index_wf ie ix"
    using assms(2) by (simp_all add: index_for_def)
  note m = marks_comp [OF marks_extend_two marks_nothing [OF assms(1) wf, of "length rules"],
      of "ci_always ix" "ci_pending ix" ev]
  show "sorted (candidates env ie ix ev)" "distinct (candidates env ie ix ev)"
    "set (candidates env ie ix ev) \<subseteq> {..<length rules}"
    using finish_sorted [OF m] n by (simp_all add: candidates_def)
qed

lemma candidates_with_logsource_sorted:
  assumes "index_laws env ie" and "index_for env ie rules ix"
  shows "sorted (candidates_with_logsource env ie ix ev p)"
    and "distinct (candidates_with_logsource env ie ix ev p)"
    and "set (candidates_with_logsource env ie ix ev p) \<subseteq> {..<length rules}"
proof -
  have n: "ci_rule_count ix = length rules" and wf: "index_wf ie ix"
    using assms(2) by (simp_all add: index_for_def)
  let ?cands = "candidates_with_logsource env ie ix ev p"
  have "sorted ?cands \<and> distinct ?cands \<and> set ?cands \<subseteq> {..<length rules}"
  proof (cases p)
    case None
    with candidates_sorted [OF assms] show ?thesis by (simp add: candidates_with_logsource_def)
  next
    case (Some q)
    note m = marks_comp [OF marks_comp [OF marks_buckets marks_extend]
        marks_nothing [OF assms(1) wf, of "length rules"],
        of "ci_always_by_product ix" "[None, Some (to_lowercase env q)]" "ci_pending ix" ev]
    from finish_sorted [OF m] Some n show ?thesis
      by (simp add: candidates_with_logsource_def del: filter_map.simps)
  qed
  then show "sorted ?cands" "distinct ?cands" "set ?cands \<subseteq> {..<length rules}" by blast+
qed

section \<open>Which fields are probed\<close>

text \<open>
  Paths whose lookup goes through a key the index registers: not starting with a dot, and without
  escapes when they start with a bracket.
\<close>

definition indexable_path :: "string \<Rightarrow> bool" where
  "indexable_path path =
     (\<not> starts_with path ''.'' \<and> (starts_with path ''['' \<longrightarrow> backslash \<notin> set path))"

lemma first_unescaped_zero: "first_unescaped path c = Some 0 \<longleftrightarrow> starts_with path [c]"
  by (cases path) (auto simp: first_unescaped_def starts_with_def is_unescaped_def
      dest: first_unescaped_from_Some)

lemma first_unescaped_take_zero:
  "first_unescaped (take (Suc n) s) c = Some 0 \<longleftrightarrow> first_unescaped s c = Some 0"
  by (cases s) (simp_all add: first_unescaped_zero starts_with_def)

lemma root_key_probed: "path_root_key path = Some k \<Longrightarrow> k \<in> set (probe_keys path)"
  by (auto simp: path_root_key_def probe_keys_def probe_root_def nested_root_key_def
      positional_root_key_def Let_def split: option.splits nat.splits if_splits)

lemma parse_path_first:
  "\<exists>ops. parse_path_ops path = parse_path_part (hd (split_char (CHR ''.'') path)) @ ops"
proof -
  obtain ps where "split_char (CHR ''.'') path = hd (split_char (CHR ''.'') path) # ps"
    by (metis list.exhaust_sel split_char_nonempty)
  then have "parse_path_ops path
      = parse_path_part (hd (split_char (CHR ''.'') path)) @ concat (map parse_path_part ps)"
    unfolding parse_path_ops_def by (metis concat.simps(2) list.simps(9))
  then show ?thesis by blast
qed

lemma bracket_path_probed:
  assumes "starts_with path ''[''" and "backslash \<notin> set path"
    and "walk_path (JObject obj) path \<noteq> None"
  shows "\<exists>k \<in> fst ` set obj. k \<in> set (probe_keys path)"
proof -
  let ?part = "hd (split_char (CHR ''.'') path)"
  have part: "?part = takeWhile (\<lambda>x. x \<noteq> CHR ''.'') path" by (rule hd_split_char)
  have nb: "backslash \<notin> set ?part" using assms(2) by (auto simp: part dest: set_takeWhileD)
  have b0: "starts_with ?part ''[''"
    using assms(1) unfolding part by (cases path) (auto simp: starts_with_def)
  obtain ops where ops: "parse_path_ops path = parse_path_part ?part @ ops"
    using parse_path_first by blast
  have "first_unescaped ?part lbracket = Some 0" using b0 by (simp add: first_unescaped_zero)
  moreover have "parse_index_groups ?part = None"
  proof (rule ccontr)
    assume "parse_index_groups ?part \<noteq> None"
    then obtain idxs where idxs: "parse_index_groups ?part = Some idxs" by blast
    have "idxs \<noteq> []"
      using idxs b0 by (subst (asm) parse_index_groups.simps)
        (auto simp: starts_with_def split: option.splits if_splits)
    then obtain i rest where "parse_path_ops path = Index i # rest"
      using ops idxs \<open>first_unescaped ?part lbracket = Some 0\<close>
      by (cases idxs) (auto simp: parse_path_part_def)
    then show False using assms(3) by (simp add: walk_path_def pack_collected_def)
  qed
  ultimately have "parse_path_ops path = Key ?part # ops"
    using ops nb by (simp add: parse_path_part_def unescape_brackets_id)
  then have "map_of obj ?part \<noteq> None"
    using assms(3) by (auto simp: walk_path_def pack_collected_def split: option.splits)
  then have key: "?part \<in> fst ` set obj" by (simp add: map_of_eq_None_iff)
  have "?part \<in> set (probe_keys path)"
  proof (cases "find_char (CHR ''.'') path")
    case None
    then have "?part = path" by (simp add: part find_char_None takeWhile_no)
    then show ?thesis using assms(2) by (simp add: probe_keys_def unescape_brackets_id)
  next
    case (Some pos)
    have seg: "take pos path = ?part" using Some by (simp add: part take_find_char)
    have "pos \<noteq> 0" using Some assms(1) by (cases path) (auto simp: starts_with_def)
    moreover have "first_unescaped path (CHR ''.'') = Some pos"
      using Some assms(2) by (simp add: first_unescaped_find)
    ultimately have "nested_root_key path = Some ?part"
      using seg b0 nb \<open>first_unescaped ?part lbracket = Some 0\<close>
      by (auto simp: nested_root_key_def Let_def unescape_brackets_id starts_with_def)
    then show ?thesis by (simp add: probe_keys_def probe_root_def)
  qed
  with key show ?thesis by blast
qed

lemma json_probed:
  assumes "indexable_path path"
    and "\<And>obj. v = JObject obj \<Longrightarrow> map_of obj path \<noteq> None \<Longrightarrow> unescape_brackets path = path"
  shows "probed (json_event env v) path"
proof (cases v)
  case (JObject obj)
  have "\<exists>k \<in> fst ` set obj. k \<in> set (probe_keys path)" if get: "json_get_field v path \<noteq> None"
  proof (cases "map_of obj path")
    case (Some x)
    with assms(2) JObject have "path \<in> set (probe_keys path)" by (simp add: probe_keys_def)
    with Some show ?thesis by (metis map_of_eq_None_iff option.distinct(1))
  next
    case None
    show ?thesis
    proof (cases "path_root_key path")
      case (Some k)
      with get None JObject have "map_of obj k \<noteq> None"
        by (auto simp: json_get_field_def split: if_splits)
      then have "k \<in> fst ` set obj" by (simp add: map_of_eq_None_iff)
      with root_key_probed [OF Some] show ?thesis by blast
    next
      case no_root: None
      with get None JObject have walk: "walk_path (JObject obj) path \<noteq> None" "path_is_compound path"
        by (auto simp: json_get_field_def split: if_splits)
      have "path \<noteq> []" using walk(2) by (auto simp: path_is_compound_def)
      with no_root assms(1) have "starts_with path ''[''"
        by (auto simp: path_root_key_def indexable_path_def first_unescaped_zero [symmetric] first_unescaped_take_zero Let_def
            split: option.splits nat.splits if_splits)
      with assms(1) walk(1) show ?thesis
        by (intro bracket_path_probed) (simp_all add: indexable_path_def)
    qed
  qed
  with JObject show ?thesis
    by (auto simp: probed_def json_event_def json_top_level_keys_def list_ex_iff split: option.split)
qed (simp_all add: probed_def json_event_def json_top_level_keys_def)

section \<open>Rules over plain field names\<close>

text \<open>
  A plain field name has no backslash and does not start with a dot.  An indexable rule names plain
  fields only; it has no selector of zero detections, and an existence flag without a field comes with
  the matcher \<open>Exists\<close>, both as the parser and the compiler make it.
\<close>

definition plain_field :: "string \<Rightarrow> bool" where
  "plain_field f = (backslash \<notin> set f \<and> \<not> starts_with f ''.'')"

definition item_indexable :: "compiled_detection_item \<Rightarrow> bool" where
  "item_indexable item =
     (item_flagged item \<and> (case cdi_field item of Some f \<Rightarrow> plain_field f | None \<Rightarrow> True))"

fun detection_indexable :: "compiled_detection \<Rightarrow> bool" where
  "detection_indexable (CdAllOf items) = list_all item_indexable items"
| "detection_indexable (CdAnyOf subs) = list_all detection_indexable subs"
| "detection_indexable (CdAnd subs) = list_all detection_indexable subs"
| "detection_indexable (CdArrayMatch field q body) = plain_field field"
| "detection_indexable _ = True"

definition rule_indexable :: "compiled_rule \<Rightarrow> bool" where
  "rule_indexable rule =
     (list_all (\<lambda>nd. detection_indexable (snd nd)) (cru_detections rule)
      \<and> list_all counts_nonzero (cru_conditions rule))"

lemma detection_indexable_flagged: "detection_indexable d \<Longrightarrow> detection_flagged d"
  by (induction d) (auto simp: list_all_iff item_indexable_def)

lemma rule_indexable_flagged: "rule_indexable rule \<Longrightarrow> rule_flagged rule"
  by (auto simp: rule_indexable_def rule_flagged_def list_all_iff detection_indexable_flagged)

lemma found_key: "find (\<lambda>(k, _). k = f) kvs = Some e \<Longrightarrow> f \<in> fst ` set kvs"
  by (induction kvs) (auto split: if_splits)

lemma flat_probed:
  assumes "backslash \<notin> set f"
    and "ev_get_field ev f = map_option (\<lambda>(_, v). EvStr v) (find (\<lambda>(k, _). k = f) kvs)"
    and "ev_top_level_keys ev = Some (map fst kvs)"
  shows "probed ev f"
  using assms found_key [of f kvs]
  by (auto simp: probed_def probe_keys_def unescape_brackets_id list_ex_iff)

lemma plain_field_probed: "engine_event env ev \<Longrightarrow> plain_field f \<Longrightarrow> probed ev f"
proof (induction rule: engine_event.induct)
  case (json v)
  then show ?case
    by (intro json_probed) (auto simp: plain_field_def indexable_path_def unescape_brackets_id)
next
  case (decoded d)
  then show ?case by (simp add: probed_def decoded_event_def)
next
  case (kv kvs)
  then show ?case
    by (intro flat_probed [where kvs = kvs]) (auto simp: plain_field_def kv_event_def case_prod_unfold)
next
  case (plain raw)
  then show ?case by (simp add: probed_def plain_event_def)
next
  case (flat inner)
  then show ?case by (intro flat_probed [where kvs = inner]) (auto simp: plain_field_def map_event_def)
qed

text \<open>All witnesses of an analysis satisfy a predicate.\<close>

definition all_witnesses :: "(witness \<Rightarrow> bool) \<Rightarrow> analysis \<Rightarrow> bool" where
  "all_witnesses P a = (\<forall>ws. a = AnWitnesses ws \<longrightarrow> list_all P ws)"

lemma all_witnesses_simps [simp]:
  "all_witnesses P AnOpen" "all_witnesses P (AnWitnesses ws) = list_all P ws"
  by (simp_all add: all_witnesses_def)

lemma or_combine_loop_all:
  "list_all P acc \<Longrightarrow> list_all (all_witnesses P) branches \<Longrightarrow> all_witnesses P (or_combine_loop acc branches)"
  by (induction acc branches rule: or_combine_loop.induct) auto

lemma or_combine_all: "list_all (all_witnesses P) branches \<Longrightarrow> all_witnesses P (or_combine branches)"
  by (simp add: or_combine_def or_combine_loop_all)

lemma and_combine_all: "list_all (all_witnesses P) branches \<Longrightarrow> all_witnesses P (and_combine branches)"
  using and_combine_loop_from [of None branches]
  by (fastforce simp: and_combine_def list_all_iff [of "all_witnesses P"] split: option.split)

definition about_field :: "string option \<Rightarrow> witness \<Rightarrow> bool" where
  "about_field field w =
     (case w of WExact f v \<Rightarrow> field = Some f | WSubstring f n \<Rightarrow> field = Some f
      | WPresence f \<Rightarrow> field = Some f | WKeyword n \<Rightarrow> True)"

lemma substring_witness_field: "all_witnesses (about_field field) (substring_witness v ci field)"
  by (auto simp: substring_witness_def about_field_def split: option.split)

lemma regex_witness_field: "all_witnesses (about_field field) (regex_witness env p field)"
  by (auto simp: regex_witness_def list_all_iff substring_witness_field
      intro!: or_combine_all split: option.split)

lemma analyze_matcher_field: "all_witnesses (about_field field) (analyze_matcher env field m)"
proof (induction m)
  case (CmAhoCorasickSet ci needles)
  then show ?case by (auto simp: list_all_iff substring_witness_field intro!: or_combine_all)
next
  case (CmAnyOf children)
  then show ?case by (auto simp: list_all_iff intro!: or_combine_all)
next
  case (CmAllOf children)
  then show ?case by (auto simp: list_all_iff intro!: and_combine_all)
next
  case (CmExact v ci)
  then show ?case by (auto simp: about_field_def split: option.split)
next
  case (CmRegexSetMatch ps mode)
  then show ?case
    by (cases mode) (auto simp: list_all_iff regex_witness_field intro!: or_combine_all and_combine_all)
next
  case (CmCaseInsensitiveGroup children mode)
  then show ?case
    by (cases mode) (auto simp: list_all_iff intro!: or_combine_all and_combine_all)
qed (simp_all add: substring_witness_field regex_witness_field)

lemma about_plain_probed:
  assumes "engine_event env' ev" and "about_field field w" and "case field of Some f \<Rightarrow> plain_field f | None \<Rightarrow> True"
  shows "witness_probed ev w"
  using assms plain_field_probed [OF assms(1)]
  by (cases w) (auto simp: about_field_def witness_probed_def)

lemma all_witnesses_mono: "all_witnesses P a \<Longrightarrow> (\<And>w. P w \<Longrightarrow> Q w) \<Longrightarrow> all_witnesses Q a"
  by (auto simp: all_witnesses_def list_all_iff)

lemma analyze_item_probed:
  assumes "engine_event env' ev" and "item_indexable item"
  shows "all_witnesses (witness_probed ev) (analyze_item env item)"
proof -
  have "all_witnesses (witness_probed ev) (analyze_matcher env (cdi_field item) (cdi_matcher item))"
    by (rule all_witnesses_mono [OF analyze_matcher_field about_plain_probed [OF assms(1)]])
       (use assms(2) in \<open>auto simp: item_indexable_def split: option.split\<close>)
  then show ?thesis
    using assms(2) plain_field_probed [OF assms(1)]
    by (auto simp: analyze_item_def item_indexable_def witness_probed_def
        split: option.splits analysis.splits list.splits bool.splits)
qed

lemma analyze_detection_probed:
  assumes "engine_event env' ev"
  shows "detection_indexable d \<Longrightarrow> all_witnesses (witness_probed ev) (analyze_detection env d)"
proof (induction d)
  case (CdKeywords m)
  then show ?case
    by (auto intro: all_witnesses_mono [OF analyze_matcher_field about_plain_probed [OF assms]])
next
  case (CdArrayMatch field q body)
  then show ?case
    by (cases q) (simp_all add: witness_probed_def plain_field_probed [OF assms])
qed (auto simp: list_all_iff analyze_item_probed [OF assms] intro!: or_combine_all and_combine_all)

lemma analyze_condition_probed:
  assumes "engine_event env' ev" and "list_all (\<lambda>nd. detection_indexable (snd nd)) dets"
  shows "all_witnesses (witness_probed ev) (analyze_condition env dets c)"
proof (induction c)
  case (CondIdentifier n)
  have "detection_indexable d" if "map_of dets n = Some d" for d
    using that assms(2) by (fastforce simp: list_all_iff dest: map_of_SomeD)
  then show ?case
    by (auto simp: analyze_detection_probed [OF assms(1)] split: option.split)
next
  case (CondSelector q pat)
  then show ?case
    using assms(2)
    by (cases q) (auto simp: Let_def list_all_iff analyze_detection_probed [OF assms(1)]
        intro!: or_combine_all and_combine_all)
qed (auto simp: list_all_iff intro!: or_combine_all and_combine_all)

lemma rule_indexable_probed:
  assumes "engine_event env' ev" and "rule_indexable rule"
  shows "rule_probed env ev rule"
proof -
  have "all_witnesses (witness_probed ev)
      (or_combine (map (analyze_condition env (cru_detections rule)) (cru_conditions rule)))"
    using assms(2)
    by (intro or_combine_all) (auto simp: list_all_iff rule_indexable_def analyze_condition_probed [OF assms(1)])
  then show ?thesis
    by (auto simp: rule_probed_def analyze_rule_def Let_def list_all_iff split: analysis.split)
qed

end
