(* ===== verification/CandidateBuild.thy ===== *)
theory CandidateBuild
  imports CandidateProps
begin

text \<open>
  Building the index and appending to it: every rule ends up indexed, the fields registered under
  their event keys, the always-evaluated rules in the bucket of their product.
\<close>

section \<open>Registering\<close>

lemma entry_of_index_entry [simp]:
  "entry_of (index_entry f g ix) f' = (if f' = f then g (entry_of ix f) else entry_of ix f')"
  by (simp add: index_entry_def Let_def)

lemma index_entry_simps [simp]:
  "ci_always (index_entry f g ix) = ci_always ix"
  "ci_always_by_product (index_entry f g ix) = ci_always_by_product ix"
  "ci_pending (index_entry f g ix) = ci_pending ix"
  "ci_rule_count (index_entry f g ix) = ci_rule_count ix"
  "ci_keyword (index_entry f g ix) = ci_keyword ix"
  by (simp_all add: index_entry_def Let_def)

lemma mark_always_simps [simp]:
  "ci_always (mark_always env i rule ix) = ci_always ix @ [i]"
  "ci_fields (mark_always env i rule ix) = ci_fields ix"
  "ci_fields_for_event_key (mark_always env i rule ix) = ci_fields_for_event_key ix"
  "ci_pending (mark_always env i rule ix) = ci_pending ix"
  "ci_rule_count (mark_always env i rule ix) = ci_rule_count ix"
  "ci_keyword (mark_always env i rule ix) = ci_keyword ix"
  by (simp_all add: mark_always_def)

lemma probe_field_in:
  "set (map_get [] (push_probe_field k f m) k')
   = (if k' = k then insert f (set (map_get [] m k)) else set (map_get [] m k'))"
  by (auto simp: push_probe_field_def)

lemma index_entry_probes:
  "set (map_get [] (ci_fields_for_event_key (index_entry f g ix)) k)
   = (if k \<in> set (probe_keys f) then insert f (set (map_get [] (ci_fields_for_event_key ix) k))
      else set (map_get [] (ci_fields_for_event_key ix) k))"
  by (auto simp: index_entry_def Let_def probe_keys_def probe_field_in split: option.split)

lemma registered_index_entry:
  assumes "fields_registered ix"
  shows "fields_registered (index_entry f g ix)"
proof -
  have "fst ` set (ci_fields (index_entry f g ix)) = insert f (fst ` set (ci_fields ix))"
    and "distinct (map fst (ci_fields (index_entry f g ix)))"
    using assms by (simp_all add: index_entry_def Let_def keys_map_entry distinct_map_entry fields_registered_def)
  with assms show ?thesis by (auto simp: fields_registered_def index_entry_probes)
qed

lemma partitioned_mark:
  assumes "always_partitioned env rules ix" and "i < length rules"
  shows "always_partitioned env rules (mark_always env i (rules ! i) ix)"
  using assms by (auto simp: always_partitioned_def mark_always_def)

lemma partitioned_index_entry [simp]:
  "always_partitioned env rules (index_entry f g ix) = always_partitioned env rules ix"
  by (simp add: always_partitioned_def)

lemma mark_all_always_simps [simp]:
  "ci_fields (mark_all_always env is rules ix) = ci_fields ix"
  "ci_fields_for_event_key (mark_all_always env is rules ix) = ci_fields_for_event_key ix"
  "ci_pending (mark_all_always env is rules ix) = ci_pending ix"
  "ci_rule_count (mark_all_always env is rules ix) = ci_rule_count ix"
  "ci_keyword (mark_all_always env is rules ix) = ci_keyword ix"
  unfolding mark_all_always_def by (induction "is" arbitrary: ix) auto

lemma set_mark_all_always:
  "set (ci_always (mark_all_always env is rules ix)) = set (ci_always ix) \<union> (set is \<inter> {..<length rules})"
  unfolding mark_all_always_def by (induction "is" arbitrary: ix) auto

lemma partitioned_mark_all:
  "always_partitioned env rules ix \<Longrightarrow> always_partitioned env rules (mark_all_always env is rules ix)"
  unfolding mark_all_always_def
  by (induction "is" arbitrary: ix) (simp_all add: partitioned_mark)

lemma fields_registered_cong:
  "ci_fields ix = ci_fields jx \<Longrightarrow> ci_fields_for_event_key ix = ci_fields_for_event_key jx \<Longrightarrow>
   fields_registered ix = fields_registered jx"
  by (simp add: fields_registered_def)

section \<open>The first pass\<close>

fun build_has :: "index_build \<Rightarrow> nat \<Rightarrow> witness \<Rightarrow> bool" where
  "build_has b idx (WPresence f) = index_has (ib_index b) idx (WPresence f)"
| "build_has b idx (WExact f v) = index_has (ib_index b) idx (WExact f v)"
| "build_has b idx (WSubstring f n) = (idx \<in> set (map_get [] (map_get [] (ib_field_needles b) f) n))"
| "build_has b idx (WKeyword n) = (idx \<in> set (map_get [] (ib_keyword_needles b) n))"

definition build_wf :: "ext_env \<Rightarrow> compiled_rule list \<Rightarrow> index_build \<Rightarrow> bool" where
  "build_wf env rules b =
     ((\<forall>f. fe_needles (entry_of (ib_index b) f) = None) \<and> fields_registered (ib_index b)
      \<and> ci_keyword (ib_index b) = None \<and> ci_rule_count (ib_index b) = length rules
      \<and> ci_pending (ib_index b) = [] \<and> always_partitioned env rules (ib_index b)
      \<and> distinct (map fst (ib_field_needles b)))"

lemma build_witness_has: "build_has (build_witness i w b) i w"
  by (cases w) auto

lemma build_witness_keeps: "build_has b j v \<Longrightarrow> build_has (build_witness i w b) j v"
  by (cases w; cases v) auto

lemma build_witness_always [simp]:
  "ci_always (ib_index (build_witness i w b)) = ci_always (ib_index b)"
  by (cases w) auto

lemma build_witness_wf: "build_wf env rules b \<Longrightarrow> build_wf env rules (build_witness i w b)"
  by (cases w) (auto simp: build_wf_def registered_index_entry distinct_map_entry)

lemma build_witnesses:
  "build_wf env rules b \<Longrightarrow> build_wf env rules (fold (build_witness i) ws b)"
  "build_has b j v \<Longrightarrow> build_has (fold (build_witness i) ws b) j v"
  "ci_always (ib_index (fold (build_witness i) ws b)) = ci_always (ib_index b)"
  "w \<in> set ws \<Longrightarrow> build_has (fold (build_witness i) ws b) i w"
proof (induction ws arbitrary: b j v)
  case (Cons x xs)
  {
    case 4
    moreover have "build_has (fold (build_witness i) xs (build_witness i x b)) i x"
      by (rule Cons(2)) (rule build_witness_has)
    ultimately show ?case using Cons(4) [of "build_witness i x b"] by auto
  }
qed (simp_all add: build_witness_wf build_witness_keeps)

definition build_indexed :: "ext_env \<Rightarrow> index_build \<Rightarrow> nat \<Rightarrow> compiled_rule \<Rightarrow> bool" where
  "build_indexed env b idx rule =
     (idx \<in> set (ci_always (ib_index b))
      \<or> (case analyze_rule env rule of
           RwOpen \<Rightarrow> False
         | RwAnyOf ws \<Rightarrow> list_all (build_has b idx) ws))"

lemma build_indexed_mono:
  assumes "build_indexed env b i rule"
    and "\<And>w. build_has b i w \<Longrightarrow> build_has c i w"
    and "set (ci_always (ib_index b)) \<subseteq> set (ci_always (ib_index c))"
  shows "build_indexed env c i rule"
  using assms by (auto simp: build_indexed_def list_all_iff split: rule_witness.splits)

lemma build_has_mark [simp]:
  "build_has (b\<lparr>ib_index := mark_always env i rule (ib_index b)\<rparr>) j w = build_has b j w"
  by (cases w) simp_all

lemma build_rule_step:
  assumes "build_wf env rules b" and "i < length rules"
  shows "build_wf env rules (build_rule env (i, rules ! i) b)"
    and "build_indexed env (build_rule env (i, rules ! i) b) i (rules ! i)"
    and "build_indexed env b j rule \<Longrightarrow> build_indexed env (build_rule env (i, rules ! i) b) j rule"
proof -
  let ?c = "build_rule env (i, rules ! i) b"
  show "build_wf env rules ?c"
  proof (cases "analyze_rule env (rules ! i)")
    case RwOpen
    let ?ix = "mark_always env i (rules ! i) (ib_index b)"
    have "fields_registered ?ix = fields_registered (ib_index b)"
      by (rule fields_registered_cong) simp_all
    with assms RwOpen show ?thesis by (simp add: build_rule_def build_wf_def partitioned_mark)
  next
    case (RwAnyOf ws)
    with assms show ?thesis by (simp add: build_rule_def build_witnesses(1))
  qed
  show "build_indexed env ?c i (rules ! i)"
    by (cases "analyze_rule env (rules ! i)")
       (simp_all add: build_rule_def build_indexed_def list_all_iff build_witnesses)
  show "build_indexed env b j rule \<Longrightarrow> build_indexed env ?c j rule"
    by (erule build_indexed_mono; cases "analyze_rule env (rules ! i)")
       (auto simp: build_rule_def build_witnesses)
qed

lemma build_rules_fold:
  assumes "build_wf env rules b" and "k + length rs \<le> length rules"
    and "rs = take (length rs) (drop k rules)"
    and "\<forall>j < k. build_indexed env b j (rules ! j)"
  shows "build_wf env rules (fold (build_rule env) (enumerate k rs) b)
    \<and> (\<forall>j < k + length rs. build_indexed env (fold (build_rule env) (enumerate k rs) b) j (rules ! j))"
  using assms
proof (induction rs arbitrary: k b)
  case Nil
  then show ?case by simp
next
  case (Cons r rs)
  then have k: "k < length rules" by simp
  with Cons.prems(3) have r: "r = rules ! k" and rs: "rs = take (length rs) (drop (Suc k) rules)"
    by (simp_all add: take_Suc_conv_app_nth Cons_nth_drop_Suc [symmetric])
  note step = build_rule_step [OF Cons.prems(1) k]
  have "\<forall>j < Suc k. build_indexed env (build_rule env (k, r) b) j (rules ! j)"
    using Cons.prems(4) step(2,3) by (auto simp: r less_Suc_eq)
  with Cons.IH [of "build_rule env (k, r) b" "Suc k"] Cons.prems(2) step(1) rs show ?case
    by (simp add: r)
qed

lemma build_start_wf: "build_wf env rules (build_start rules)"
  by (simp add: build_wf_def build_start_def candidate_index_empty_def fields_registered_def
      always_partitioned_def field_entry_default_def)

section \<open>The needle sets\<close>

lemma needle_set_build_Some:
  assumes "needle_set_build ie m = Some ns"
  shows "needle_set_ok ie ns" and "i \<in> set (map_get [] m n) \<Longrightarrow> needle_has ns n i"
proof -
  let ?entries = "sort_key fst m"
  have ns: "ns = \<lparr> ns_automaton = map fst ?entries,
      ns_pattern_to_rules = map (\<lambda>e. sort_dedup (snd e)) ?entries \<rparr>"
    and ok: "ix_dfa_ok ie (map fst ?entries) \<or> ix_auto_ok ie (map fst ?entries)"
    using assms by (auto simp: needle_set_build_def Let_def split: if_splits)
  show "needle_set_ok ie ns" using ok by (simp add: ns needle_set_ok_def)
  assume i: "i \<in> set (map_get [] m n)"
  then obtain rs where "map_of m n = Some rs" "i \<in> set rs"
    by (cases "map_of m n") (simp_all add: map_get_def)
  then have "(n, rs) \<in> set ?entries" by (simp add: map_of_SomeD)
  then obtain k where "k < length ?entries" "?entries ! k = (n, rs)" by (metis in_set_conv_nth)
  with \<open>i \<in> set rs\<close> show "needle_has ns n i"
    by (auto simp: needle_has_def ns intro!: exI [of _ k])
qed

lemma rules_of_in: "i \<in> set (map_get [] m n) \<Longrightarrow> i \<in> set (rules_of m)"
  unfolding rules_of_def map_get_def by (cases "map_of m n") (auto dest!: map_of_SomeD intro!: bexI)

text \<open>The second pass keeps what the first registered and adds the automata of the fields.\<close>

definition needles_wf :: "ext_env \<Rightarrow> index_env \<Rightarrow> compiled_rule list \<Rightarrow> candidate_index \<Rightarrow> bool" where
  "needles_wf env ie rules ix =
     (index_wf ie ix \<and> ci_rule_count ix = length rules \<and> ci_pending ix = []
      \<and> always_partitioned env rules ix)"

lemma field_needles_step:
  assumes "needles_wf env ie rules ix"
  shows "needles_wf env ie rules (build_field_needles env ie rules (f, needles) ix)"
proof (cases "needle_set_build ie needles")
  case None
  let ?jx = "mark_all_always env (rules_of needles) rules ix"
  have "fields_registered ?jx = fields_registered ix"
    by (rule fields_registered_cong) simp_all
  with None assms show ?thesis
    by (simp add: build_field_needles_def needles_wf_def index_wf_def partitioned_mark_all)
next
  case (Some ns)
  have "needle_set_ok ie ns" by (rule needle_set_build_Some(1) [OF Some])
  with Some assms show ?thesis
    by (auto simp: build_field_needles_def needles_wf_def index_wf_def entry_ok_def
        registered_index_entry)
qed

lemma field_needles_frame:
  "set (ci_always ix) \<subseteq> set (ci_always (build_field_needles env ie rules (f, needles) ix))"
  "ci_keyword (build_field_needles env ie rules (f, needles) ix) = ci_keyword ix"
  "g \<noteq> f \<Longrightarrow> entry_of (build_field_needles env ie rules (f, needles) ix) g = entry_of ix g"
  "fe_presence (entry_of (build_field_needles env ie rules (f, needles) ix) g)
   = fe_presence (entry_of ix g)"
  "fe_exact (entry_of (build_field_needles env ie rules (f, needles) ix) g) = fe_exact (entry_of ix g)"
  by (cases "needle_set_build ie needles"; auto simp: build_field_needles_def set_mark_all_always)+

lemma field_needles_hit:
  assumes "i \<in> set (map_get [] needles n)" and "i < length rules"
  shows "i \<in> set (ci_always (build_field_needles env ie rules (f, needles) ix))
    \<or> index_has (build_field_needles env ie rules (f, needles) ix) i (WSubstring f n)"
proof (cases "needle_set_build ie needles")
  case None
  with rules_of_in [OF assms(1)] assms(2) show ?thesis
    by (simp add: build_field_needles_def set_mark_all_always)
next
  case (Some ns)
  with needle_set_build_Some(2) [OF Some assms(1)] show ?thesis
    by (simp add: build_field_needles_def)
qed

lemma field_needles_fold:
  "needles_wf env ie rules ix \<Longrightarrow>
   needles_wf env ie rules (fold (build_field_needles env ie rules) fns ix)"
  "set (ci_always ix) \<subseteq> set (ci_always (fold (build_field_needles env ie rules) fns ix))"
  "g \<notin> fst ` set fns \<Longrightarrow>
   entry_of (fold (build_field_needles env ie rules) fns ix) g = entry_of ix g"
  "fe_presence (entry_of (fold (build_field_needles env ie rules) fns ix) g) = fe_presence (entry_of ix g)"
  "fe_exact (entry_of (fold (build_field_needles env ie rules) fns ix) g) = fe_exact (entry_of ix g)"
proof (induction fns arbitrary: ix)
  case (Cons x fns)
  {
    case 1
    then show ?case by (cases x) (simp add: Cons(1) field_needles_step)
  next
    case 2
    show ?case
      using Cons(2) [of "build_field_needles env ie rules x ix"]
        field_needles_frame(1) [of ix env ie rules "fst x" "snd x"] by auto
  next
    case 3
    then show ?case
      using field_needles_frame(3) [of g "fst x" env ie rules "snd x" ix] by (cases x) (simp add: Cons(3))
  next
    case 4
    show ?case
      using field_needles_frame(4) [of env ie rules "fst x" "snd x" ix g] by (simp add: Cons(4))
  next
    case 5
    show ?case
      using field_needles_frame(5) [of env ie rules "fst x" "snd x" ix g] by (simp add: Cons(5))
  }
qed simp_all

lemma field_needles_all:
  assumes "distinct (map fst fns)" and "i \<in> set (map_get [] (map_get [] fns f) n)" and "i < length rules"
  shows "i \<in> set (ci_always (fold (build_field_needles env ie rules) fns ix))
    \<or> index_has (fold (build_field_needles env ie rules) fns ix) i (WSubstring f n)"
  using assms(1,2)
proof (induction fns arbitrary: ix)
  case Nil
  then show ?case by simp
next
  case (Cons x fns)
  obtain g needles where x: "x = (g, needles)" by (cases x)
  let ?jx = "build_field_needles env ie rules x ix"
  show ?case
  proof (cases "g = f")
    case True
    then have i: "i \<in> set (map_get [] needles n)" using Cons.prems(2) by (simp add: x map_get_def)
    have "entry_of (fold (build_field_needles env ie rules) fns ?jx) f = entry_of ?jx f"
      using Cons.prems(1) True by (intro field_needles_fold(3)) (auto simp: x)
    with field_needles_hit [OF i assms(3), of env ie f ix] field_needles_fold(2) [of ?jx env ie rules fns]
    show ?thesis by (auto simp: x True)
  next
    case False
    with Cons show ?thesis by (simp add: x map_get_def)
  qed
qed

section \<open>The finished index\<close>

lemma map_get_sorted_buckets:
  "map_get [] (map (\<lambda>(k, xs). (k, sort_dedup xs)) m) k = sort_dedup (map_get [] m k)"
  using map_get_map_values [of sort_dedup "[]"] by simp

definition sort_entry :: "field_entry \<Rightarrow> field_entry" where
  "sort_entry e = e \<lparr> fe_presence := sort_dedup (fe_presence e),
     fe_exact := map (\<lambda>(v, rs). (v, sort_dedup rs)) (fe_exact e) \<rparr>"

lemma sort_entry_default: "sort_entry field_entry_default = field_entry_default"
  by (simp add: sort_entry_def field_entry_default_def)

lemma sort_buckets_alt:
  "sort_buckets ix = ix \<lparr> ci_fields := map (\<lambda>(f, e). (f, sort_entry e)) (ci_fields ix),
     ci_fields_for_event_key := map (\<lambda>(k, fs). (k, sort_dedup fs)) (ci_fields_for_event_key ix),
     ci_always := sort_dedup (ci_always ix),
     ci_always_by_product := map (\<lambda>(p, rs). (p, sort_dedup rs)) (ci_always_by_product ix) \<rparr>"
  by (simp add: sort_buckets_def sort_entry_def)

lemma entry_of_sort_buckets [simp]: "entry_of (sort_buckets ix) f = sort_entry (entry_of ix f)"
  using map_get_map_values [of sort_entry field_entry_default "ci_fields ix" f]
  by (simp add: sort_buckets_alt sort_entry_default)

lemma keys_sort_buckets [simp]: "map fst (ci_fields (sort_buckets ix)) = map fst (ci_fields ix)"
  by (simp add: sort_buckets_alt comp_def case_prod_unfold)

lemma sort_buckets_simps [simp]:
  "map_get [] (ci_fields_for_event_key (sort_buckets ix)) k
   = sort_dedup (map_get [] (ci_fields_for_event_key ix) k)"
  "map_get [] (ci_always_by_product (sort_buckets ix)) p
   = sort_dedup (map_get [] (ci_always_by_product ix) p)"
  "ci_always (sort_buckets ix) = sort_dedup (ci_always ix)"
  "ci_pending (sort_buckets ix) = ci_pending ix"
  "ci_rule_count (sort_buckets ix) = ci_rule_count ix"
  "ci_keyword (sort_buckets ix) = ci_keyword ix"
  by (simp_all add: sort_buckets_alt map_get_sorted_buckets)

lemma sort_buckets_has: "index_has (sort_buckets ix) i = index_has ix i"
proof
  show "index_has (sort_buckets ix) i w = index_has ix i w" for w
    by (cases w) (simp_all add: sort_entry_def map_get_sorted_buckets)
qed

lemma sort_buckets_wf: "index_wf ie ix \<Longrightarrow> index_wf ie (sort_buckets ix)"
proof -
  assume wf: "index_wf ie ix"
  have "fst ` set (ci_fields (sort_buckets ix)) = fst ` set (ci_fields ix)"
    using arg_cong [OF keys_sort_buckets [of ix], of set] by (simp only: set_map)
  with wf show ?thesis
    by (simp add: index_wf_def fields_registered_def sort_entry_def entry_ok_def)
qed

lemma sort_buckets_for:
  assumes "index_wf ie ix" and "ci_rule_count ix = length rules" and "always_partitioned env rules ix"
    and "\<And>i. i < length rules \<Longrightarrow> rule_indexed env ix i (rules ! i)"
  shows "index_for env ie rules (sort_buckets ix)"
proof -
  have "rule_indexed env (sort_buckets ix) i rule = rule_indexed env ix i rule" for i rule
    unfolding rule_indexed_def sort_buckets_has by simp
  with assms show ?thesis by (simp add: index_for_def sort_buckets_wf always_partitioned_def)
qed

lemma build_needles_for:
  assumes "build_wf env rules b" and "\<And>i. i < length rules \<Longrightarrow> build_indexed env b i (rules ! i)"
  shows "index_for env ie rules (sort_buckets (build_needles env ie rules b))"
proof -
  let ?ix = "fold (build_field_needles env ie rules) (ib_field_needles b) (ib_index b)"
  let ?kw = "needle_set_build ie (ib_keyword_needles b)"
  let ?jx = "build_needles env ie rules b"
  have "needles_wf env ie rules (ib_index b)"
    using assms(1) by (auto simp: build_wf_def needles_wf_def index_wf_def entry_ok_def)
  then have ix: "needles_wf env ie rules ?ix" by (rule field_needles_fold(1))
  have jx: "?jx = (if ?kw = None then mark_all_always env (rules_of (ib_keyword_needles b)) rules
      (?ix\<lparr>ci_keyword := ?kw\<rparr>) else ?ix\<lparr>ci_keyword := ?kw\<rparr>)"
    by (simp add: build_needles_def Let_def)
  have fields: "ci_fields ?jx = ci_fields ?ix" and keyword: "ci_keyword ?jx = ?kw"
    and keys: "ci_fields_for_event_key ?jx = ci_fields_for_event_key ?ix"
    and always: "set (ci_always ?ix) \<subseteq> set (ci_always ?jx)"
    and simple: "ci_rule_count ?jx = length rules" "ci_pending ?jx = []"
    using ix by (auto simp: jx set_mark_all_always needles_wf_def)
  have "always_partitioned env rules (?ix\<lparr>ci_keyword := ?kw\<rparr>)"
    using ix by (simp add: needles_wf_def always_partitioned_def)
  then have part: "always_partitioned env rules ?jx"
    by (cases ?kw) (simp_all add: jx partitioned_mark_all)
  have "fields_registered ?jx = fields_registered ?ix"
    by (rule fields_registered_cong) (simp_all add: fields keys)
  then have wf: "index_wf ie ?jx"
    using ix needle_set_build_Some(1) [of ie "ib_keyword_needles b"] unfolding needles_wf_def index_wf_def
    by (simp add: fields keyword split: option.split)
  have hit: "i \<in> set (ci_always ?jx) \<or> index_has ?jx i w"
    if "build_has b i w" "i < length rules" for i w
  proof (cases w)
    case (WSubstring f n)
    have "distinct (map fst (ib_field_needles b))" using assms(1) by (simp add: build_wf_def)
    from field_needles_all [OF this, of i f n rules env ie "ib_index b"] that WSubstring always
    show ?thesis by (auto simp: fields)
  next
    case (WKeyword n)
    with that have i: "i \<in> set (map_get [] (ib_keyword_needles b) n)" by simp
    show ?thesis
    proof (cases ?kw)
      case None
      with rules_of_in [OF i] that(2) show ?thesis by (simp add: jx set_mark_all_always)
    next
      case (Some ns)
      with needle_set_build_Some(2) [OF Some i] WKeyword show ?thesis by (simp add: keyword)
    qed
  qed (use that in \<open>simp_all add: fields field_needles_fold\<close>)
  have "rule_indexed env ?jx i (rules ! i)" if i: "i < length rules" for i
  proof (cases "i \<in> set (ci_always (ib_index b))")
    case True
    with always field_needles_fold(2) [of "ib_index b" env ie rules "ib_field_needles b"]
    show ?thesis by (auto simp: rule_indexed_def)
  next
    case False
    with assms(2) [OF i] obtain ws where ws: "analyze_rule env (rules ! i) = RwAnyOf ws"
        "list_all (build_has b i) ws"
      by (cases "analyze_rule env (rules ! i)") (auto simp: build_indexed_def)
    with hit [OF _ i] show ?thesis by (auto simp: rule_indexed_def list_all_iff)
  qed
  then show ?thesis by (intro sort_buckets_for wf simple(1) part)
qed

lemma candidate_index_build_for: "index_for env ie rules (candidate_index_build env ie rules)"
proof -
  have "build_wf env rules (fold (build_rule env) (enumerate 0 rules) (build_start rules))
      \<and> (\<forall>j < length rules. build_indexed env
            (fold (build_rule env) (enumerate 0 rules) (build_start rules)) j (rules ! j))"
    using build_rules_fold [OF build_start_wf, of 0 rules rules env] by simp
  then show ?thesis
    unfolding candidate_index_build_def by (intro build_needles_for) simp_all
qed

section \<open>Appending\<close>

lemma append_witness_has:
  "\<not> needs_automaton w \<Longrightarrow> index_has (append_witness i w ix) i w"
  by (cases w) auto

lemma append_witness_keeps: "index_has ix j v \<Longrightarrow> index_has (append_witness i w ix) j v"
  by (cases w; cases v) (auto split: option.splits)

lemma append_witness_simps [simp]:
  "ci_always (append_witness i w ix) = ci_always ix"
  "ci_always_by_product (append_witness i w ix) = ci_always_by_product ix"
  "ci_pending (append_witness i w ix) = ci_pending ix"
  "ci_rule_count (append_witness i w ix) = ci_rule_count ix"
  by (cases w; simp)+

lemma append_witness_wf: "index_wf ie ix \<Longrightarrow> index_wf ie (append_witness i w ix)"
  by (cases w) (auto simp: index_wf_def entry_ok_def registered_index_entry)

lemma append_witnesses:
  "ci_always (fold (append_witness i) ws ix) = ci_always ix"
  "ci_always_by_product (fold (append_witness i) ws ix) = ci_always_by_product ix"
  "ci_pending (fold (append_witness i) ws ix) = ci_pending ix"
  "ci_rule_count (fold (append_witness i) ws ix) = ci_rule_count ix"
  "index_wf ie ix \<Longrightarrow> index_wf ie (fold (append_witness i) ws ix)"
  "index_has ix j v \<Longrightarrow> index_has (fold (append_witness i) ws ix) j v"
  by (induction ws arbitrary: ix) (simp_all add: append_witness_wf append_witness_keeps)

lemma append_witnesses_has:
  "w \<in> set ws \<Longrightarrow> \<not> needs_automaton w \<Longrightarrow> index_has (fold (append_witness i) ws ix) i w"
  by (induction ws arbitrary: ix) (auto simp: append_witness_has append_witnesses(6))

lemma rule_indexed_mono:
  assumes "rule_indexed env ix i rule"
    and "set (ci_always ix) \<subseteq> set (ci_always jx)" and "set (ci_pending ix) \<subseteq> set (ci_pending jx)"
    and "\<And>w. index_has ix i w \<Longrightarrow> index_has jx i w"
  shows "rule_indexed env jx i rule"
  using assms by (cases "analyze_rule env rule") (auto simp: rule_indexed_def list_all_iff)

lemma index_has_cong:
  "ci_fields ix = ci_fields jx \<Longrightarrow> ci_keyword ix = ci_keyword jx \<Longrightarrow> index_has ix i w = index_has jx i w"
  by (cases w) simp_all

lemma index_wf_cong:
  "ci_fields ix = ci_fields jx \<Longrightarrow> ci_fields_for_event_key ix = ci_fields_for_event_key jx \<Longrightarrow>
   ci_keyword ix = ci_keyword jx \<Longrightarrow> index_wf ie ix = index_wf ie jx"
  by (simp add: index_wf_def fields_registered_def)

text \<open>\<open>index_for\<close> apart from the last rule: all that appending has to establish.\<close>

lemma index_forI:
  assumes old: "index_for env ie rules ix" and wf: "index_wf ie jx"
    and count: "ci_rule_count jx = Suc (length rules)"
    and mono: "set (ci_pending ix) \<subseteq> set (ci_pending jx)" "\<And>i w. index_has ix i w \<Longrightarrow> index_has jx i w"
    and always: "ci_always jx = ci_always ix \<and> ci_always_by_product jx = ci_always_by_product ix
      \<or> ci_always jx = ci_always ix @ [length rules]
        \<and> ci_always_by_product jx = push_at (rule_product env rule) (length rules) (ci_always_by_product ix)"
    and new: "rule_indexed env jx (length rules) rule"
  shows "index_for env ie (rules @ [rule]) jx"
proof -
  have part: "always_partitioned env rules ix" and dist: "distinct (ci_always ix)"
    and buckets: "\<And>p. distinct (map_get [] (ci_always_by_product ix) p)"
    using old by (simp_all add: index_for_def)
  have lt: "i < length rules" if "i \<in> set (ci_always ix)" for i
    using part that by (simp add: always_partitioned_def)
  have bucket: "i \<in> set (map_get [] (ci_always_by_product ix) p)
      \<longleftrightarrow> i \<in> set (ci_always ix) \<and> p = rule_product env (rules ! i)" for i p
    using part by (simp add: always_partitioned_def)
  have fresh: "length rules \<notin> set (ci_always ix)" using lt by blast
  have set_bucket: "set (map_get [] (ci_always_by_product jx) p) = set (map_get [] (ci_always_by_product ix) p)
      \<union> (if length rules \<in> set (ci_always jx) \<and> p = rule_product env rule then {length rules} else {})" for p
    using always fresh by (auto split: if_splits)
  have set_always: "set (ci_always jx)
      = set (ci_always ix) \<union> (if length rules \<in> set (ci_always jx) then {length rules} else {})"
    using always lt by auto
  have part': "always_partitioned env (rules @ [rule]) jx"
    unfolding always_partitioned_def set_bucket using set_always bucket
    by (auto simp: nth_append split: if_splits dest: lt)
  have dist': "distinct (ci_always jx) \<and> (\<forall>p. distinct (map_get [] (ci_always_by_product jx) p))"
    using always dist buckets fresh bucket by auto
  have "rule_indexed env jx i ((rules @ [rule]) ! i)" if "i < Suc (length rules)" for i
  proof (cases "i = length rules")
    case True
    with new show ?thesis by simp
  next
    case False
    with that have "i < length rules" by simp
    with old have "rule_indexed env ix i (rules ! i)" by (simp add: index_for_def)
    then have "rule_indexed env jx i (rules ! i)"
      by (rule rule_indexed_mono) (use always mono in auto)
    with \<open>i < length rules\<close> show ?thesis by (simp add: nth_append)
  qed
  with wf count part' dist' show ?thesis by (simp add: index_for_def)
qed

lemma append_rule_for:
  assumes "index_for env ie rules ix"
  shows "index_for env ie (rules @ [rule]) (index_append_rule env (length rules) rule ix)"
proof -
  let ?ix = "ix\<lparr>ci_rule_count := Suc (length rules)\<rparr>"
  have count: "ci_rule_count ix < length rules + 1" and wf: "index_wf ie ix"
    using assms by (simp_all add: index_for_def)
  have wf1: "index_wf ie ?ix" using wf by (simp add: index_wf_cong [of ?ix ix])
  have has1: "index_has ?ix i w = index_has ix i w" for i w by (rule index_has_cong) simp_all
  show ?thesis
  proof (cases "analyze_rule env rule")
    case RwOpen
    then have jx: "index_append_rule env (length rules) rule ix = mark_always env (length rules) rule ?ix"
      using count by (simp add: index_append_rule_def)
    have "index_wf ie (mark_always env (length rules) rule ?ix)"
      using wf1 by (simp add: index_wf_cong [of "mark_always env (length rules) rule ?ix" ?ix])
    moreover have "index_has (mark_always env (length rules) rule ?ix) i w = index_has ix i w" for i w
      by (rule index_has_cong) simp_all
    ultimately show ?thesis
      unfolding jx by (intro index_forI [OF assms]) (simp_all add: mark_always_def rule_indexed_def)
  next
    case (RwAnyOf ws)
    show ?thesis
    proof (cases "list_ex needs_automaton ws")
      case True
      let ?jx = "?ix\<lparr>ci_pending := ci_pending ix @ [length rules]\<rparr>"
      have jx: "index_append_rule env (length rules) rule ix = ?jx"
        using count True RwAnyOf by (simp add: index_append_rule_def)
      have "index_wf ie ?jx" using wf1 by (simp add: index_wf_cong [of ?jx ?ix])
      moreover have "index_has ?jx i w = index_has ix i w" for i w
        by (rule index_has_cong) simp_all
      ultimately show ?thesis
        unfolding jx by (intro index_forI [OF assms]) (auto simp: rule_indexed_def)
    next
      case False
      let ?jx = "fold (append_witness (length rules)) ws ?ix"
      have jx: "index_append_rule env (length rules) rule ix = ?jx"
        using count False RwAnyOf by (simp add: index_append_rule_def)
      have "list_all (index_has ?jx (length rules)) ws"
        using False by (auto simp: list_all_iff list_ex_iff intro: append_witnesses_has)
      with RwAnyOf have "rule_indexed env ?jx (length rules) rule" by (simp add: rule_indexed_def)
      then show ?thesis
        unfolding jx
        by (intro index_forI [OF assms])
           (simp_all add: append_witnesses wf1 has1)
    qed
  qed
qed

end
