(* ===== verification/Engine.thy ===== *)
theory Engine
  imports CandidateBuild LogSource
begin

text \<open>
  The detection engine (\<open>rsigma-eval/src/engine/mod.rs\<close>): its rules with the two indexes, the
  incremental and the full maintenance of the indexes, filters, and the evaluation of an event over
  the candidates, compared with the scan of all rules.  The optional cross-rule automaton (a Cargo
  feature, off by default) is not part of the model.
\<close>

section \<open>State\<close>

record engine =
  en_rules :: "compiled_rule list"
  en_include_event :: bool
  en_match_detail :: match_detail_level
  en_filter_counter :: nat
  en_rule_index :: candidate_index
  en_bloom_index :: field_bloom_index
  en_bloom_prefilter :: bool
  en_bloom_max_bytes :: "nat option"
  en_logsource_extractor :: "log_source_extractor option"
  en_logsource_pruned :: nat
  en_logsource_absent :: nat

record identified_evaluation =
  iev_result :: detection_result
  iev_rule_id :: "string option"
  iev_rule_name :: "string option"

definition engine_from_parts :: "log_source_extractor option \<Rightarrow> engine" where
  "engine_from_parts extractor =
     \<lparr> en_rules = [], en_include_event = False, en_match_detail = MdlOff, en_filter_counter = 0,
       en_rule_index = candidate_index_empty, en_bloom_index = fbi_empty,
       en_bloom_prefilter = False, en_bloom_max_bytes = None, en_logsource_extractor = extractor,
       en_logsource_pruned = 0, en_logsource_absent = 0 \<rparr>"

section \<open>The indexes\<close>

definition engine_build_bloom :: "bloom_env \<Rightarrow> nat option \<Rightarrow> compiled_rule list \<Rightarrow> field_bloom_index" where
  "engine_build_bloom be max_bytes rules =
     (case max_bytes of
        Some budget \<Rightarrow> build_with_budget be rules budget
      | None \<Rightarrow> bloom_build be rules)"

definition rebuild_index :: "bloom_env \<Rightarrow> ext_env \<Rightarrow> index_env \<Rightarrow> engine \<Rightarrow> engine" where
  "rebuild_index be env ie e =
     e \<lparr> en_rule_index := candidate_index_build env ie (en_rules e),
         en_bloom_index := engine_build_bloom be (en_bloom_max_bytes e) (en_rules e) \<rparr>"

definition index_append_last_rule :: "bloom_env \<Rightarrow> ext_env \<Rightarrow> index_env \<Rightarrow> engine \<Rightarrow> engine" where
  "index_append_last_rule be env ie e =
     (let rules = en_rules e;
          new_idx = length rules - 1;
          rule = rules ! new_idx;
          rule_index = index_append_rule env new_idx rule (en_rule_index e);
          bloom_index = bloom_append_rule be (en_bloom_index e) rule;
          rule_index' = (if index_should_rebuild rule_index (length rules)
                         then candidate_index_build env ie rules else rule_index);
          bloom_index' = (if bloom_should_rebuild bloom_index (length rules)
                          then engine_build_bloom be (en_bloom_max_bytes e) rules else bloom_index)
      in e \<lparr> en_rule_index := rule_index', en_bloom_index := bloom_index' \<rparr>)"

definition add_compiled_rule ::
    "bloom_env \<Rightarrow> ext_env \<Rightarrow> index_env \<Rightarrow> compiled_rule \<Rightarrow> engine \<Rightarrow> engine" where
  "add_compiled_rule be env ie rule e =
     index_append_last_rule be env ie (e \<lparr> en_rules := en_rules e @ [rule] \<rparr>)"

definition extend_compiled_rules ::
    "bloom_env \<Rightarrow> ext_env \<Rightarrow> index_env \<Rightarrow> compiled_rule list \<Rightarrow> engine \<Rightarrow> engine" where
  "extend_compiled_rules be env ie rules e =
     rebuild_index be env ie (e \<lparr> en_rules := en_rules e @ rules \<rparr>)"

section \<open>Settings\<close>

definition set_bloom_prefilter :: "bool \<Rightarrow> engine \<Rightarrow> engine" where
  "set_bloom_prefilter enabled e = e \<lparr> en_bloom_prefilter := enabled \<rparr>"

definition set_bloom_max_bytes ::
    "bloom_env \<Rightarrow> ext_env \<Rightarrow> index_env \<Rightarrow> nat \<Rightarrow> engine \<Rightarrow> engine" where
  "set_bloom_max_bytes be env ie max_bytes e =
     (let e' = e \<lparr> en_bloom_max_bytes := Some max_bytes \<rparr>
      in if en_rules e' \<noteq> [] then rebuild_index be env ie e' else e')"

definition set_logsource_extractor :: "log_source_extractor option \<Rightarrow> engine \<Rightarrow> engine" where
  "set_logsource_extractor extractor e = e \<lparr> en_logsource_extractor := extractor \<rparr>"

definition set_include_event :: "bool \<Rightarrow> engine \<Rightarrow> engine" where
  "set_include_event include e = e \<lparr> en_include_event := include \<rparr>"

definition set_match_detail :: "match_detail_level \<Rightarrow> engine \<Rightarrow> engine" where
  "set_match_detail level e = e \<lparr> en_match_detail := level \<rparr>"

definition logsource_eligibility :: "engine \<Rightarrow> log_source \<Rightarrow> nat \<times> nat" where
  "logsource_eligibility e event_ls =
     fold (\<lambda>rule (eligible, pruned).
       if logsource_compatible (cru_logsource rule) event_ls then (eligible + 1, pruned)
       else (eligible, pruned + 1)) (en_rules e) (0, 0)"

section \<open>Filters\<close>

text \<open>
  \<open>apply_filter_no_rebuild\<close> from its compiled detections on: the closure body for one rule, and the
  loop over the rules.
\<close>

definition inject_filter ::
    "nat \<Rightarrow> (string \<times> compiled_detection) list \<Rightarrow> condition_expr \<Rightarrow> compiled_rule \<Rightarrow> compiled_rule" where
  "inject_filter fc filter_detections rewritten_cond rule =
     rule \<lparr> cru_detections := fold (\<lambda>(name, d) m. map_insert (filter_detection_key fc name) d m)
              filter_detections (cru_detections rule),
            cru_conditions := map (\<lambda>cond. CondAnd [cond, rewritten_cond]) (cru_conditions rule) \<rparr>"

definition rule_target :: "compiled_rule \<Rightarrow> filter_target" where
  "rule_target rule = \<lparr> ft_id = cru_id rule, ft_name = cru_name rule, ft_title = cru_title rule,
                        ft_logsource = cru_logsource rule \<rparr>"

definition apply_compiled_filter ::
    "'y filter_rule \<Rightarrow> (string \<times> compiled_detection) list \<Rightarrow> engine \<Rightarrow> engine" where
  "apply_compiled_filter fr filter_detections e =
     (if filter_detections = [] then e
      else let fc = en_filter_counter e;
               identities = map (\<lambda>rule. (cru_id rule, cru_name rule)) (en_rules e);
               steady = stable_references fr identities;
               rewritten_cond = namespaced_filter_condition fr fc
           in e \<lparr> en_filter_counter := fc + 1,
                  en_rules := map (\<lambda>rule.
                    if filter_targets fr steady (rule_target rule)
                    then inject_filter fc filter_detections rewritten_cond rule else rule)
                    (en_rules e) \<rparr>)"

section \<open>Evaluation\<close>

definition evaluate_one ::
    "ext_env \<Rightarrow> engine \<Rightarrow> compiled_rule \<Rightarrow> event \<Rightarrow> (string \<Rightarrow> bloom_verdict) \<Rightarrow> detection_result option" where
  "evaluate_one env e rule ev bloom =
     (case evaluate_rule_with_bloom env rule ev bloom (en_match_detail e) of
        None \<Rightarrow> None
      | Some m \<Rightarrow>
          Some (if en_include_event e \<and> db_event (dr_body m) = None
                then m \<lparr> dr_body := (dr_body m) \<lparr> db_event := Some (ev_to_json ev) \<rparr> \<rparr>
                else m))"

text \<open>\<open>fetch_add\<close> on an \<open>AtomicU64\<close> wraps around.\<close>

definition fetch_add_u64 :: "nat \<Rightarrow> nat \<Rightarrow> nat" where
  "fetch_add_u64 counter n = (counter + n) mod (u64_max + 1)"

definition record_logsource_pruned :: "nat \<Rightarrow> engine \<Rightarrow> engine" where
  "record_logsource_pruned pruned e =
     (if 0 < pruned then e \<lparr> en_logsource_pruned := fetch_add_u64 (en_logsource_pruned e) pruned \<rparr>
      else e)"

definition logsource_candidates ::
    "ext_env \<Rightarrow> index_env \<Rightarrow> engine \<Rightarrow> event \<Rightarrow> log_source option \<Rightarrow> nat list \<times> engine" where
  "logsource_candidates env ie e ev event_logsource =
     (case event_logsource of
        Some ls \<Rightarrow>
          (let e1 = (if ls_product ls = None \<and> ls_service ls = None \<and> ls_category ls = None
                     then e \<lparr> en_logsource_absent := fetch_add_u64 (en_logsource_absent e) 1 \<rparr> else e);
               pruned = conflicting_unindexable_count env (en_rule_index e) (ls_product ls)
           in (candidates_with_logsource env ie (en_rule_index e) ev (ls_product ls),
               record_logsource_pruned pruned e1))
      | None \<Rightarrow> (candidates env ie (en_rule_index e) ev, e))"

fun candidates_loop ::
    "ext_env \<Rightarrow> engine \<Rightarrow> event \<Rightarrow> log_source option \<Rightarrow> (string \<Rightarrow> bloom_verdict) \<Rightarrow> nat list
     \<Rightarrow> identified_evaluation list \<times> nat" where
  "candidates_loop env e ev event_logsource bloom [] = ([], 0)"
| "candidates_loop env e ev event_logsource bloom (idx # rest) =
     (let rule = en_rules e ! idx;
          (results, pruned) = candidates_loop env e ev event_logsource bloom rest
      in if (case event_logsource of
               Some event_ls \<Rightarrow> \<not> logsource_compatible (cru_logsource rule) event_ls
             | None \<Rightarrow> False)
         then (results, pruned + 1)
         else case evaluate_one env e rule ev bloom of
                Some m \<Rightarrow> (\<lparr> iev_result = m, iev_rule_id = cru_id rule, iev_rule_name = cru_name rule \<rparr>
                           # results, pruned)
              | None \<Rightarrow> (results, pruned))"

definition evaluate_candidates ::
    "ext_env \<Rightarrow> index_env \<Rightarrow> engine \<Rightarrow> event \<Rightarrow> log_source option \<Rightarrow> (string \<Rightarrow> bloom_verdict)
     \<Rightarrow> identified_evaluation list \<times> engine" where
  "evaluate_candidates env ie e ev event_logsource bloom =
     (case logsource_candidates env ie e ev event_logsource of
        (cands, e1) \<Rightarrow>
          (case candidates_loop env e ev event_logsource bloom cands of
             (results, pruned) \<Rightarrow> (results, record_logsource_pruned pruned e1)))"

text \<open>The lookup a call of \<open>evaluate\<close> uses: the cached bloom index, or \<open>NoBloom\<close>.\<close>

definition engine_bloom :: "bloom_env \<Rightarrow> ext_env \<Rightarrow> engine \<Rightarrow> event \<Rightarrow> string \<Rightarrow> bloom_verdict" where
  "engine_bloom be env e ev =
     (if en_bloom_prefilter e then bloom_compute be env (en_bloom_index e) ev else no_bloom)"

definition evaluate_identified_inner ::
    "bloom_env \<Rightarrow> ext_env \<Rightarrow> index_env \<Rightarrow> engine \<Rightarrow> event \<Rightarrow> log_source option
     \<Rightarrow> identified_evaluation list \<times> engine" where
  "evaluate_identified_inner be env ie e ev event_logsource =
     evaluate_candidates env ie e ev event_logsource (engine_bloom be env e ev)"

definition evaluate_identified ::
    "bloom_env \<Rightarrow> ext_env \<Rightarrow> index_env \<Rightarrow> engine \<Rightarrow> event \<Rightarrow> identified_evaluation list \<times> engine" where
  "evaluate_identified be env ie e ev =
     evaluate_identified_inner be env ie e ev
       (map_option (\<lambda>ex. lse_extract env ex ev) (en_logsource_extractor e))"

definition engine_evaluate ::
    "bloom_env \<Rightarrow> ext_env \<Rightarrow> index_env \<Rightarrow> engine \<Rightarrow> event \<Rightarrow> detection_result list \<times> engine" where
  "engine_evaluate be env ie e ev = apfst (map iev_result) (evaluate_identified be env ie e ev)"

definition evaluate_pruned ::
    "bloom_env \<Rightarrow> ext_env \<Rightarrow> index_env \<Rightarrow> engine \<Rightarrow> event \<Rightarrow> log_source
     \<Rightarrow> detection_result list \<times> engine" where
  "evaluate_pruned be env ie e ev event_logsource =
     apfst (map iev_result) (evaluate_identified_inner be env ie e ev (Some event_logsource))"

definition evaluate_with_logsource ::
    "bloom_env \<Rightarrow> ext_env \<Rightarrow> index_env \<Rightarrow> engine \<Rightarrow> event \<Rightarrow> log_source \<Rightarrow> detection_result list" where
  "evaluate_with_logsource be env ie e ev event_logsource =
     filter_map (\<lambda>idx.
         let rule = en_rules e ! idx
         in if logsource_matches (cru_logsource rule) event_logsource
            then evaluate_one env e rule ev (engine_bloom be env e ev) else None)
       (candidates env ie (en_rule_index e) ev)"

text \<open>\<open>full_scan_filtered\<close>: every rule, no index, no filter.\<close>

definition full_scan ::
    "ext_env \<Rightarrow> engine \<Rightarrow> event \<Rightarrow> (compiled_rule \<Rightarrow> bool) \<Rightarrow> detection_result list" where
  "full_scan env e ev keep =
     filter_map (\<lambda>rule. if keep rule then evaluate_one env e rule ev no_bloom else None) (en_rules e)"

fun evaluate_batch ::
    "bloom_env \<Rightarrow> ext_env \<Rightarrow> index_env \<Rightarrow> engine \<Rightarrow> event list \<Rightarrow> detection_result list list \<times> engine" where
  "evaluate_batch be env ie e [] = ([], e)"
| "evaluate_batch be env ie e (ev # evs) =
     (case engine_evaluate be env ie e ev of
        (rs, e1) \<Rightarrow> apfst ((#) rs) (evaluate_batch be env ie e1 evs))"

section \<open>Incremental indexes\<close>

text \<open>
  What the engine relies on in an index it maintains rule by rule: building and appending establish
  \<open>holds\<close> for the rules so far, appending under a guard.  Rebuilding may happen at any point, so the
  rebuild policy is arbitrary.
\<close>

locale incremental_index =
  fixes build :: "'r list \<Rightarrow> 'ix"
    and append_rule :: "'r list \<Rightarrow> 'r \<Rightarrow> 'ix \<Rightarrow> 'ix"
    and guard :: "'r list \<Rightarrow> 'r \<Rightarrow> 'ix \<Rightarrow> bool"
    and holds :: "'r list \<Rightarrow> 'ix \<Rightarrow> bool"
  assumes build_holds: "holds rules (build rules)"
    and append_holds: "holds rules ix \<Longrightarrow> guard rules rule ix \<Longrightarrow> holds (rules @ [rule]) (append_rule rules rule ix)"
begin

definition maintain :: "('ix \<Rightarrow> nat \<Rightarrow> bool) \<Rightarrow> 'r list \<Rightarrow> 'r \<Rightarrow> 'ix \<Rightarrow> 'ix" where
  "maintain should_rebuild rules rule ix =
     (let ix' = append_rule rules rule ix
      in if should_rebuild ix' (length rules + 1) then build (rules @ [rule]) else ix')"

lemma maintain_holds:
  assumes "holds rules ix"
    and "guard rules rule ix \<or> should_rebuild (append_rule rules rule ix) (length rules + 1)"
  shows "holds (rules @ [rule]) (maintain should_rebuild rules rule ix)"
  using assms by (auto simp: maintain_def Let_def build_holds append_holds)

end

definition bloom_for :: "bloom_env \<Rightarrow> compiled_rule list \<Rightarrow> field_bloom_index \<Rightarrow> bool" where
  "bloom_for be rules idx = index_holds be idx (\<lambda>f. concat (map (rule_needles f) rules))"

definition bloom_guard :: "compiled_rule list \<Rightarrow> compiled_rule \<Rightarrow> field_bloom_index \<Rightarrow> bool" where
  "bloom_guard rules rule idx =
     append_guard idx (\<lambda>f. concat (map (rule_needles f) rules)) (\<lambda>f. rule_needles f rule)"

interpretation cand: incremental_index
    "candidate_index_build env ie" "\<lambda>rules. index_append_rule env (length rules)"
    "\<lambda>rules rule ix. True" "index_for env ie"
  for env ie
  by unfold_locales (simp_all add: candidate_index_build_for append_rule_for)

interpretation blm: incremental_index
    "engine_build_bloom be max_bytes" "\<lambda>rules rule ix. bloom_append_rule be ix rule"
    bloom_guard "bloom_for be"
  for be max_bytes
proof
  show "bloom_for be rules (engine_build_bloom be max_bytes rules)" for rules
    by (auto simp: bloom_for_def engine_build_bloom_def bloom_build_def build_index_holds split: option.split)
  show "bloom_for be (rules @ [rule]) (bloom_append_rule be ix rule)"
    if "bloom_for be rules ix" "bloom_guard rules rule ix" for rules ix rule
    using append_rule_holds [of be ix _ rule] that by (simp add: bloom_for_def bloom_guard_def)
qed

end
