(* ===== verification/EngineLoad.thy ===== *)
theory EngineLoad
  imports Pipeline Engine
begin

text \<open>
  Loading parsed rules into the engine (the parsed-rule paths of \<open>rsigma-eval/src/engine/mod.rs\<close>):
  pipelines, lowering, compilation, filters, and the HIR cache (\<open>rsigma-ir/src/cache.rs\<close>).  A call
  that fails midway keeps what it has done so far, so the results carry the engine.
\<close>

section \<open>The HIR cache\<close>

record hir_cache_header =
  hch_ir_schema_version :: nat
  hch_rsigma_version :: string

definition hir_schema_version :: nat where "hir_schema_version = 4"

text \<open>The encoder of the cache: a value is written at the end, and read from the front.\<close>

record cbor_env =
  cbor_package_version :: string
  cbor_write_header :: "hir_cache_header \<Rightarrow> string + string"
  cbor_write_rules :: "ir_rule list \<Rightarrow> string + string"
  cbor_read_header :: "string \<Rightarrow> string + hir_cache_header \<times> string"
  cbor_read_rules :: "string \<Rightarrow> string + ir_rule list"

datatype cache_error = CeEncode string | CeDecode string | CeSchemaMismatch nat nat

fun show_cache_error :: "cache_error \<Rightarrow> string" where
  "show_cache_error (CeEncode m) = ''HIR cache encode failed: '' @ m"
| "show_cache_error (CeDecode m) = ''HIR cache decode failed: '' @ m"
| "show_cache_error (CeSchemaMismatch expected found) =
     ''HIR cache schema mismatch: blob is v'' @ show_nat found @ '', this build expects v'' @ show_nat expected"

definition eval_error_from_cache :: "cache_error \<Rightarrow> eval_error" where
  "eval_error_from_cache e = EeHirCache (show_cache_error e)"

definition current_header :: "cbor_env \<Rightarrow> hir_cache_header" where
  "current_header cb =
     \<lparr> hch_ir_schema_version = hir_schema_version, hch_rsigma_version = cbor_package_version cb \<rparr>"

definition encode_rules :: "cbor_env \<Rightarrow> ir_rule list \<Rightarrow> cache_error + string" where
  "encode_rules cb rules =
     result_bind (map_error CeEncode (cbor_write_header cb (current_header cb)))
       (\<lambda>h. result_map (\<lambda>r. h @ r) (map_error CeEncode (cbor_write_rules cb rules)))"

definition decode_rules :: "cbor_env \<Rightarrow> string \<Rightarrow> cache_error + ir_rule list" where
  "decode_rules cb blob =
     result_bind (map_error CeDecode (cbor_read_header cb blob))
       (\<lambda>(header, r).
          if hch_ir_schema_version header \<noteq> hir_schema_version
          then Inl (CeSchemaMismatch hir_schema_version (hch_ir_schema_version header))
          else map_error CeDecode (cbor_read_rules cb r))"

text \<open>
  Equality of rules as the derived \<open>PartialEq\<close> has it: hash maps are equal when they have the same keys
  with equal values, in whatever order each iterates.
\<close>

definition map_same :: "('v \<Rightarrow> 'w \<Rightarrow> bool) \<Rightarrow> ('k \<times> 'v) list \<Rightarrow> ('k \<times> 'w) list \<Rightarrow> bool" where
  "map_same R m n \<longleftrightarrow>
     mset (map fst m) = mset (map fst n) \<and> (\<forall>k. rel_option R (map_of m k) (map_of n k))"

lemma map_same_mono [mono]: "R \<le> S \<Longrightarrow> map_same R \<le> map_same S"
  by (auto simp: map_same_def option.rel_mono [THEN predicate2D])

inductive ir_same :: "ir_detection \<Rightarrow> ir_detection \<Rightarrow> bool" where
  "ir_same (IdAllOf items) (IdAllOf items)"
| "ir_same (IdKeywords m) (IdKeywords m)"
| "list_all2 ir_same ds es \<Longrightarrow> ir_same (IdAnyOf ds) (IdAnyOf es)"
| "list_all2 ir_same ds es \<Longrightarrow> ir_same (IdAnd ds) (IdAnd es)"
| "ir_same d e \<Longrightarrow> ir_same (IdArrayMatch f q d) (IdArrayMatch f q e)"
| "map_same ir_same m n \<Longrightarrow> ir_same (IdConditional m c) (IdConditional n c)"

definition metadata_same :: "ir_rule_metadata \<Rightarrow> ir_rule_metadata \<Rightarrow> bool" where
  "metadata_same a b \<longleftrightarrow>
     a \<lparr> im_custom_attributes := [] \<rparr> = b \<lparr> im_custom_attributes := [] \<rparr>
     \<and> map_same (=) (im_custom_attributes a) (im_custom_attributes b)"

definition ir_rule_same :: "ir_rule \<Rightarrow> ir_rule \<Rightarrow> bool" where
  "ir_rule_same a b \<longleftrightarrow>
     metadata_same (ir_metadata a) (ir_metadata b) \<and> ir_logsource a = ir_logsource b
     \<and> ir_sigma_version a = ir_sigma_version b \<and> ir_conditions a = ir_conditions b
     \<and> map_same ir_same (ir_detections a) (ir_detections b)"

text \<open>What is written is read back as an equal value, whatever follows a header.\<close>

definition cbor_law :: "cbor_env \<Rightarrow> bool" where
  "cbor_law cb \<longleftrightarrow>
     (\<forall>h b r. cbor_write_header cb h = Inr b \<longrightarrow> cbor_read_header cb (b @ r) = Inr (h, r))
     \<and> (\<forall>rules b. cbor_write_rules cb rules = Inr b
          \<longrightarrow> (\<exists>rules'. cbor_read_rules cb b = Inr rules' \<and> list_all2 ir_rule_same rules rules'))"

section \<open>State\<close>

text \<open>The libraries that loading depends on.\<close>

record 'n load_env =
  ld_pipe :: pipe_env
  ld_yaml :: "'n yaml_env"
  ld_bloom :: bloom_env
  ld_index :: index_env
  ld_cbor :: cbor_env

definition ld_ext :: "'n load_env \<Rightarrow> ext_env" where
  "ld_ext le = pl_ext (ld_pipe le)"

text \<open>The rules, indexes and settings are \<open>engine\<close>; these are the other fields of the engine.\<close>

record loader =
  lo_engine :: engine
  lo_ir_rules :: "ir_rule list"
  lo_retain_hir :: bool
  lo_unretained_hir :: nat
  lo_pipelines :: "pipeline list"

record 'n sigma_collection =
  sc_rules :: "'n yaml_value sigma_rule list"
  sc_correlations :: "'n yaml_value correlation_rule list"
  sc_filters :: "'n yaml_value filter_rule list"

definition loader_from_parts :: "pipeline list \<Rightarrow> log_source_extractor option \<Rightarrow> loader" where
  "loader_from_parts pipelines extractor =
     \<lparr> lo_engine = engine_from_parts extractor, lo_ir_rules = [], lo_retain_hir = False,
       lo_unretained_hir = 0, lo_pipelines = pipelines \<rparr>"

definition engine_new :: loader where
  "engine_new = loader_from_parts [] None"

definition new_with_pipeline :: "pipeline \<Rightarrow> loader" where
  "new_with_pipeline p = loader_from_parts [p] None"

definition set_retain_hir :: "bool \<Rightarrow> loader \<Rightarrow> loader" where
  "set_retain_hir enabled e =
     (let e1 = (if enabled then e
                else e \<lparr> lo_ir_rules := [],
                         lo_unretained_hir := lo_unretained_hir e + length (lo_ir_rules e) \<rparr>)
      in e1 \<lparr> lo_retain_hir := enabled \<rparr>)"

definition engine_add_pipeline :: "pipeline \<Rightarrow> loader \<Rightarrow> loader" where
  "engine_add_pipeline p e = e \<lparr> lo_pipelines := sort_key pp_priority (lo_pipelines e @ [p]) \<rparr>"

section \<open>Rules\<close>

definition lower_with_pipelines ::
    "'n load_env \<Rightarrow> loader \<Rightarrow> 'n yaml_value sigma_rule \<Rightarrow> eval_error + ir_rule" where
  "lower_with_pipelines le e rule =
     (let lower = (\<lambda>r. map_error eval_error_from_ir
                         (lower_rule (ld_ext le) (ld_yaml le) default_lower_options r))
      in if lo_pipelines e = [] then lower rule
         else result_bind (apply_pipelines (ld_pipe le) (lo_pipelines e) rule) lower)"

definition store_rule :: "ir_rule \<Rightarrow> compiled_rule \<Rightarrow> loader \<Rightarrow> loader" where
  "store_rule ir compiled e =
     (let e1 = (if lo_retain_hir e then e \<lparr> lo_ir_rules := lo_ir_rules e @ [ir] \<rparr>
                else e \<lparr> lo_unretained_hir := lo_unretained_hir e + 1 \<rparr>)
      in e1 \<lparr> lo_engine := (lo_engine e1) \<lparr> en_rules := en_rules (lo_engine e1) @ [compiled] \<rparr> \<rparr>)"

definition compile_and_store ::
    "'n load_env \<Rightarrow> 'n yaml_value sigma_rule \<Rightarrow> loader \<Rightarrow> eval_error + loader" where
  "compile_and_store le rule e =
     result_bind (lower_with_pipelines le e rule)
       (\<lambda>ir. result_map (\<lambda>compiled. store_rule ir compiled e) (compile_to_compiled (ld_ext le) ir))"

definition loader_rebuild :: "'n load_env \<Rightarrow> loader \<Rightarrow> loader" where
  "loader_rebuild le e =
     e \<lparr> lo_engine := rebuild_index (ld_bloom le) (ld_ext le) (ld_index le) (lo_engine e) \<rparr>"

definition add_rule ::
    "'n load_env \<Rightarrow> 'n yaml_value sigma_rule \<Rightarrow> loader \<Rightarrow> eval_error + loader" where
  "add_rule le rule e =
     result_map
       (\<lambda>e'. e' \<lparr> lo_engine :=
          index_append_last_rule (ld_bloom le) (ld_ext le) (ld_index le) (lo_engine e') \<rparr>)
       (compile_and_store le rule e)"

fun store_all ::
    "'n load_env \<Rightarrow> nat \<Rightarrow> 'n yaml_value sigma_rule list \<Rightarrow> loader \<Rightarrow> (nat \<times> eval_error) list \<times> loader" where
  "store_all le idx [] e = ([], e)"
| "store_all le idx (rule # rules) e =
     (case compile_and_store le rule e of
        Inr e' \<Rightarrow> store_all le (Suc idx) rules e'
      | Inl err \<Rightarrow> apfst ((#) (idx, err)) (store_all le (Suc idx) rules e))"

definition add_rules ::
    "'n load_env \<Rightarrow> 'n yaml_value sigma_rule list \<Rightarrow> loader \<Rightarrow> (nat \<times> eval_error) list \<times> loader" where
  "add_rules le rules e = apsnd (loader_rebuild le) (store_all le 0 rules e)"

section \<open>Filters and collections\<close>

definition apply_filter_no_rebuild ::
    "'n load_env \<Rightarrow> 'n yaml_value filter_rule \<Rightarrow> loader \<Rightarrow> eval_error + loader" where
  "apply_filter_no_rebuild le fr e =
     result_map (\<lambda>dets. e \<lparr> lo_engine := apply_compiled_filter fr dets (lo_engine e) \<rparr>)
       (collect_values (compile_detection (ld_ext le)) (dets_named (fr_detection fr)))"

definition apply_filter ::
    "'n load_env \<Rightarrow> 'n yaml_value filter_rule \<Rightarrow> loader \<Rightarrow> eval_error + loader" where
  "apply_filter le fr e = result_map (loader_rebuild le) (apply_filter_no_rebuild le fr e)"

text \<open>A loop that stops at the first error, with the engine as it is then.\<close>

fun load_each :: "('a \<Rightarrow> loader \<Rightarrow> eval_error + loader) \<Rightarrow> 'a list \<Rightarrow> loader \<Rightarrow> (eval_error + unit) \<times> loader" where
  "load_each f [] e = (Inr (), e)"
| "load_each f (x # xs) e = (case f x e of Inl err \<Rightarrow> (Inl err, e) | Inr e' \<Rightarrow> load_each f xs e')"

definition add_collection ::
    "'n load_env \<Rightarrow> 'n sigma_collection \<Rightarrow> loader \<Rightarrow> (eval_error + unit) \<times> loader" where
  "add_collection le coll e =
     (case load_each (compile_and_store le) (sc_rules coll) e of
        (Inl err, e1) \<Rightarrow> (Inl err, e1)
      | (Inr _, e1) \<Rightarrow>
          (case load_each (apply_filter_no_rebuild le) (sc_filters coll) e1 of
             (Inl err, e2) \<Rightarrow> (Inl err, e2)
           | (Inr _, e2) \<Rightarrow> (Inr (), loader_rebuild le e2)))"

definition add_collection_with_pipelines ::
    "'n load_env \<Rightarrow> 'n sigma_collection \<Rightarrow> pipeline list \<Rightarrow> loader \<Rightarrow> (eval_error + unit) \<times> loader" where
  "add_collection_with_pipelines le coll pipelines e =
     (case add_collection le coll (e \<lparr> lo_pipelines := sort_key pp_priority pipelines \<rparr>) of
        (r, e') \<Rightarrow> (r, e' \<lparr> lo_pipelines := lo_pipelines e \<rparr>))"

definition engine_transform_rule ::
    "'n load_env \<Rightarrow> loader \<Rightarrow> 'n yaml_value sigma_rule \<Rightarrow> eval_error + 'n yaml_value transformed_rule" where
  "engine_transform_rule le e rule = transform_rule (ld_pipe le) (lo_pipelines e) rule"

definition engine_transform_collection ::
    "'n load_env \<Rightarrow> loader \<Rightarrow> 'n sigma_collection \<Rightarrow> eval_error + 'n yaml_value transformed_rule list" where
  "engine_transform_collection le e coll = transform_collection (ld_pipe le) (lo_pipelines e) (sc_rules coll)"

section \<open>Saving and loading the HIR\<close>

definition save_hir :: "'n load_env \<Rightarrow> loader \<Rightarrow> eval_error + string" where
  "save_hir le e =
     (if \<not> lo_retain_hir e then
        Inl (EeHirCache ''HIR retention is off; call Engine::set_retain_hir(true) before loading rules'')
      else if 0 < lo_unretained_hir e then
        Inl (EeHirCache (show_nat (lo_unretained_hir e)
          @ '' rules were loaded while HIR retention was off and cannot be saved''))
      else map_error eval_error_from_cache (encode_rules (ld_cbor le) (lo_ir_rules e)))"

definition load_ir :: "'n load_env \<Rightarrow> ir_rule \<Rightarrow> loader \<Rightarrow> eval_error + loader" where
  "load_ir le ir e = result_map (\<lambda>compiled. store_rule ir compiled e) (compile_to_compiled (ld_ext le) ir)"

definition load_hir :: "'n load_env \<Rightarrow> string \<Rightarrow> loader \<Rightarrow> (eval_error + unit) \<times> loader" where
  "load_hir le blob e =
     (case map_error eval_error_from_cache (decode_rules (ld_cbor le) blob) of
        Inl err \<Rightarrow> (Inl err, e)
      | Inr rules \<Rightarrow>
          (case load_each (load_ir le) rules e of
             (Inl err, e1) \<Rightarrow> (Inl err, e1)
           | (Inr _, e1) \<Rightarrow> (Inr (), loader_rebuild le e1)))"

end
