(* ===== verification/CompileProps.thy ===== *)
theory CompileProps
  imports Compile ConditionEval
begin

text \<open>
  What a rule means, read off its intermediate representation: a reference semantics of matchers,
  items, detections and rules, with the values of an item tested one by one.  The compiled rule,
  with its automata, regex sets and lowered groups, decides the same.
\<close>

section \<open>Reference semantics of matchers\<close>

text \<open>A string operator over a pattern, on one text.\<close>

definition text_matches :: "ext_env \<Rightarrow> ir_str_op \<Rightarrow> ir_pattern \<Rightarrow> bool \<Rightarrow> string \<Rightarrow> bool" where
  "text_matches env op pattern ci s =
     (case ir_pattern_as_plain pattern of
        Some plain \<Rightarrow> runtime_str_match env op s plain ci
      | None \<Rightarrow> re_is_match env (wildcard_regex env op pattern ci) s)"

definition encoded_matches ::
    "ext_env \<Rightarrow> ir_encoding list \<Rightarrow> ir_str_op \<Rightarrow> ir_pattern \<Rightarrow> bool \<Rightarrow> string \<Rightarrow> bool" where
  "encoded_matches env encodings op pattern ci s =
     (case expand_encoded env encodings op pattern of
        Inl _ \<Rightarrow> False
      | Inr variants \<Rightarrow> list_ex (\<lambda>(op, pattern). text_matches env op pattern ci s) variants)"

definition regex_matches :: "ext_env \<Rightarrow> string \<Rightarrow> bool \<Rightarrow> bool \<Rightarrow> bool \<Rightarrow> string \<Rightarrow> bool" where
  "regex_matches env pattern ci multiline dotall s =
     (case build_regex env pattern ci multiline dotall of
        Inl _ \<Rightarrow> False
      | Inr re \<Rightarrow> re_is_match env re s)"

fun number_matches :: "ext_env \<Rightarrow> numeric_op \<Rightarrow> ir_number \<Rightarrow> event_value \<Rightarrow> bool" where
  "number_matches env op (NumLiteral n) v = match_numeric_value env v op n"
| "number_matches env op (NumDynamicSourceRef _ _) v = False"

text \<open>A matcher on the value of a field.\<close>

fun ir_matches :: "ext_env \<Rightarrow> event \<Rightarrow> ir_matcher \<Rightarrow> event_value \<Rightarrow> bool" where
  "ir_matches env ev (ImStr op pattern ci) v = match_str_value env (text_matches env op pattern ci) v"
| "ir_matches env ev (ImEncoded encodings op pattern ci) v =
     match_str_value env (encoded_matches env encodings op pattern ci) v"
| "ir_matches env ev (ImRegex pattern ci multiline dotall cased) v =
     match_str_value env (regex_matches env pattern ci multiline dotall) v"
| "ir_matches env ev (ImCidr network) v =
     (case ip_net_parse env network of Some net \<Rightarrow> match_cidr env v net | None \<Rightarrow> False)"
| "ir_matches env ev (ImNumericEq n) v = number_matches env NoEq n v"
| "ir_matches env ev (ImNumericGt n) v = number_matches env NoGt n v"
| "ir_matches env ev (ImNumericGte n) v = number_matches env NoGte n v"
| "ir_matches env ev (ImNumericLt n) v = number_matches env NoLt n v"
| "ir_matches env ev (ImNumericLte n) v = number_matches env NoLte n v"
| "ir_matches env ev (ImExists b) v = b"
| "ir_matches env ev (ImFieldRef field op ci) v = match_field_ref env ev field op ci v"
| "ir_matches env ev ImNull v = ev_is_null v"
| "ir_matches env ev (ImBoolEq b) v = match_bool_eq env b v"
| "ir_matches env ev (ImExpand template op ci) v =
     match_str_value env (\<lambda>s. runtime_str_match env op s (expand_template env template ev) ci) v"
| "ir_matches env ev (ImTimestampPart part inner) v =
     match_timestamp env part (\<lambda>x. ir_matches env ev inner x) v"
| "ir_matches env ev (ImNot m) v = (\<not> ir_matches env ev m v)"
| "ir_matches env ev (ImAnyOf ms) v = list_ex (\<lambda>m. ir_matches env ev m v) ms"
| "ir_matches env ev (ImAllOf ms) v = list_all (\<lambda>m. ir_matches env ev m v) ms"

text \<open>A matcher on a field the event does not have.\<close>

fun ir_absent :: "ir_matcher \<Rightarrow> bool" where
  "ir_absent ImNull = True"
| "ir_absent (ImExists b) = (\<not> b)"
| "ir_absent (ImNot m) = (\<not> ir_absent m)"
| "ir_absent (ImAnyOf ms) = list_ex ir_absent ms"
| "ir_absent (ImAllOf ms) = list_all ir_absent ms"
| "ir_absent _ = False"

text \<open>A keyword leaf on one string of the event: exact values and numbers match as substrings.\<close>

definition keyword_op :: "ir_str_op \<Rightarrow> ir_str_op" where
  "keyword_op op = (if op = OpExact then OpContains else op)"

fun keyword_text :: "ext_env \<Rightarrow> ir_matcher \<Rightarrow> string \<Rightarrow> bool" where
  "keyword_text env (ImStr op pattern ci) s = text_matches env (keyword_op op) pattern ci s"
| "keyword_text env (ImEncoded encodings op pattern ci) s =
     encoded_matches env encodings (keyword_op op) pattern ci s"
| "keyword_text env (ImRegex pattern ci multiline dotall cased) s =
     regex_matches env pattern ci multiline dotall s"
| "keyword_text env (ImNumericEq (NumLiteral n)) s =
     runtime_str_match env OpContains s (show_numeric_literal env n) True"
| "keyword_text env (ImAnyOf ms) s = list_ex (\<lambda>m. keyword_text env m s) ms"
| "keyword_text env _ s = False"

fun ir_keyword :: "ext_env \<Rightarrow> event \<Rightarrow> ir_matcher \<Rightarrow> bool" where
  "ir_keyword env ev (ImNot m) = (\<not> ir_keyword env ev m)"
| "ir_keyword env ev (ImAllOf ms) = list_all (ir_keyword env ev) ms"
| "ir_keyword env ev m = list_ex (keyword_text env m) (ev_all_string_values ev)"

section \<open>Alternatives without negation or conjunction\<close>

fun ir_disjunctive :: "ir_matcher \<Rightarrow> bool" where
  "ir_disjunctive (ImNot _) = False"
| "ir_disjunctive (ImAllOf _) = False"
| "ir_disjunctive (ImAnyOf ms) = list_all ir_disjunctive ms"
| "ir_disjunctive _ = True"

fun groups_flat :: "ir_matcher \<Rightarrow> bool" where
  "groups_flat (ImNot m) = groups_flat m"
| "groups_flat (ImTimestampPart _ m) = groups_flat m"
| "groups_flat (ImAllOf ms) = list_all groups_flat ms"
| "groups_flat (ImAnyOf ms) = list_all (\<lambda>m. ir_disjunctive m \<and> groups_flat m) ms"
| "groups_flat _ = True"

text \<open>No regex comes out of the compilation.\<close>

fun regex_free :: "ir_matcher \<Rightarrow> bool" where
  "regex_free (ImStr _ pattern _) = ir_pattern_is_plain pattern"
| "regex_free (ImEncoded _ _ _ _) = False"
| "regex_free (ImRegex _ _ _ _ _) = False"
| "regex_free (ImNot m) = regex_free m"
| "regex_free (ImAnyOf ms) = list_all regex_free ms"
| "regex_free (ImAllOf ms) = list_all regex_free ms"
| "regex_free _ = True"

section \<open>What optimized groups keep\<close>

lemma sets_built_optimize:
  assumes "list_all (sets_built env) ms"
  shows "sets_built env (optimize_any_of env ms)"
proof -
  let ?P = "\<lambda>m. \<not> sets_built env m"
  have "batch_law env ?P" by (simp add: batch_law_def list_ex_iff)
  moreover have "?P (wrap_ci_group_or_anyof env cs) = list_ex ?P cs" for cs
    by (simp add: wrap_ci_group_or_anyof_def not_list_all)
  ultimately have "?P (optimize_any_of env ms) = list_ex ?P ms"
    by (intro optimize_any_of_semantics [where Q = "\<lambda>_. True"]) simp_all
  with assms show ?thesis by (metis list_all_not_ex)
qed

lemma has_regex_optimize: "has_regex (optimize_any_of env ms) = list_ex has_regex ms"
  by (rule optimize_any_of_semantics [OF batch_law_has_regex, where Q = "\<lambda>_. True"])
     (simp_all add: wrap_ci_group_or_anyof_def)

text \<open>The laws of the libraries an optimized group relies on.\<close>

definition matcher_laws :: "ext_env \<Rightarrow> bool" where
  "matcher_laws env \<longleftrightarrow> ac_law env \<and> re_set_law env \<and> re_ci_law env"

lemma literal_matcher_laws: "matcher_laws literal_env"
  using literal_env_laws literal_env_ci by (simp add: matcher_laws_def)

lemma is_ascii_show_nat: "is_ascii (show_nat n)"
proof (induction n rule: show_nat.induct)
  case (1 n)
  have "is_ascii_char (digit_char d)" if "d < 10" for d
    using that by (simp add: is_ascii_char_def digit_char_def of_char_of)
  with 1 show ?case by (subst show_nat.simps) (simp add: is_ascii_def)
qed

lemma is_ascii_show_int: "is_ascii (show_int n)"
  using is_ascii_show_nat by (simp add: show_int_def is_ascii_def is_ascii_char_def)

section \<open>String matchers\<close>

lemma compile_plain_str:
  "matches_str env (compile_plain env op plain ci) s = runtime_str_match env op s plain ci"
  by (cases op; cases ci) (simp_all add: compile_plain_def runtime_str_match_def Let_def)

lemma compile_plain_leaf:
  "str_leaf (compile_plain env op plain ci)" "\<not> has_regex (compile_plain env op plain ci)"
  "sets_built env (compile_plain env op plain ci)" "disjunctive (compile_plain env op plain ci)"
  "\<not> matches_absent (compile_plain env op plain ci)"
  by (cases op; simp add: compile_plain_def Let_def)+

lemma compile_str_Inr:
  assumes "compile_str env op pattern ci = Inr c"
  shows "str_leaf c" "matches_str env c s = text_matches env op pattern ci s" "disjunctive c"
    "sets_built env c" "\<not> matches_absent c" "ir_pattern_is_plain pattern \<Longrightarrow> \<not> has_regex c"
  using assms compile_plain_leaf compile_plain_str
  by (auto simp: compile_str_def text_matches_def compile_wildcard_def ir_pattern_as_plain_def Let_def
      split: option.splits if_splits)

lemma compile_encoded_Inr:
  assumes "compile_encoded env encodings op pattern ci = Inr c"
  obtains cs where "c = any_of_or_single cs" "list_all str_leaf cs" "list_all disjunctive cs"
    "list_all (sets_built env) cs" "\<not> list_ex matches_absent cs"
    "\<And>s. list_ex (\<lambda>c. matches_str env c s) cs = encoded_matches env encodings op pattern ci s"
proof -
  from assms obtain vs cs where vs: "expand_encoded env encodings op pattern = Inr vs"
    and cs: "collect_results (\<lambda>(op, pattern). compile_str env op pattern ci) vs = Inr cs"
    and c: "c = any_of_or_single cs"
    unfolding compile_encoded_def
    by (cases "expand_encoded env encodings op pattern") (auto simp: result_map_Inr map_error_def)
  have all: "list_all2 (\<lambda>v c. compile_str env (fst v) (snd v) ci = Inr c) vs cs"
    using cs by (simp add: collect_results_Inr case_prod_unfold)
  have "str_leaf c \<and> disjunctive c \<and> sets_built env c \<and> \<not> matches_absent c" if mem: "c \<in> set cs" for c
  proof -
    obtain v where "compile_str env (fst v) (snd v) ci = Inr c"
      using all mem by (auto simp: list_all2_conv_all_nth in_set_conv_nth)
    from compile_str_Inr [OF this] show ?thesis by blast
  qed
  moreover have "list_ex (\<lambda>c. matches_str env c s) cs = encoded_matches env encodings op pattern ci s" for s
  proof -
    have "list_ex (\<lambda>c. matches_str env c s) cs
        = list_ex (\<lambda>v. text_matches env (fst v) (snd v) ci s) vs"
      using all by (induction rule: list_all2_induct) (auto simp: compile_str_Inr(2))
    then show ?thesis by (simp add: encoded_matches_def vs case_prod_unfold)
  qed
  ultimately show ?thesis using that [OF c] by (simp add: list_all_iff list_ex_iff)
qed

lemma any_of_or_single:
  "matches env ev (any_of_or_single cs) v = list_ex (\<lambda>c. matches env ev c v) cs"
  "matches_str env (any_of_or_single cs) s = list_ex (\<lambda>c. matches_str env c s) cs"
  "matches_absent (any_of_or_single cs) = list_ex matches_absent cs"
  "disjunctive (any_of_or_single cs) = list_all disjunctive cs"
  "sets_built env (any_of_or_single cs) = list_all (sets_built env) cs"
  by (simp_all add: any_of_or_single_def split: list.splits)

section \<open>Matchers\<close>

text \<open>The results of compiling a list, related member by member.\<close>

lemma collect_results_pointwise:
  assumes "collect_results f xs = Inr ys" and "\<And>x y. x \<in> set xs \<Longrightarrow> f x = Inr y \<Longrightarrow> P x = Q y"
  shows "list_ex P xs = list_ex Q ys" "list_all P xs = list_all Q ys"
  using assms unfolding collect_results_Inr list_all2_conv_all_nth
  by (auto simp: list_ex_iff list_all_iff in_set_conv_nth) (metis nth_mem)+

lemma regex_Inr:
  "build_regex env p ci m d = Inr re \<Longrightarrow> regex_matches env p ci m d = re_is_match env re"
  by (rule ext) (simp add: regex_matches_def)

definition compiled_well :: "ext_env \<Rightarrow> ir_matcher \<Rightarrow> compiled_matcher \<Rightarrow> bool" where
  "compiled_well env m c \<longleftrightarrow>
     sets_built env c \<and> (ir_disjunctive m \<longrightarrow> disjunctive c) \<and> (regex_free m \<longrightarrow> \<not> has_regex c)
     \<and> matches_absent c = ir_absent m"

lemma group_well:
  assumes "collect_results f ms = Inr cs" and "\<And>m c. m \<in> set ms \<Longrightarrow> f m = Inr c \<Longrightarrow> compiled_well env m c"
    and "list_all ir_disjunctive ms"
  shows "compiled_well env (ImAnyOf ms) (optimize_any_of env cs)"
    and "list_all disjunctive cs" "list_all (sets_built env) cs"
    "list_all regex_free ms \<Longrightarrow> \<not> list_ex has_regex cs"
proof -
  have well: "\<exists>m \<in> set ms. compiled_well env m c" if "c \<in> set cs" for c
    using assms(1,2) that unfolding collect_results_Inr list_all2_conv_all_nth in_set_conv_nth
    by (metis nth_mem)
  show disj: "list_all disjunctive cs" and built: "list_all (sets_built env) cs"
    and re: "list_all regex_free ms \<Longrightarrow> \<not> list_ex has_regex cs"
    using well assms(3) by (fastforce simp: list_all_iff list_ex_iff compiled_well_def)+
  have "matches_absent (optimize_any_of env cs) = list_ex matches_absent cs"
    using optimize_any_of_absent_aux [of env "[]" cs] disj built
    by (simp add: group_ok_def lower_safe_def)
  also have "\<dots> = list_ex ir_absent ms"
    using collect_results_pointwise(1) [OF assms(1), of ir_absent matches_absent] assms(2)
    by (simp add: compiled_well_def)
  finally show "compiled_well env (ImAnyOf ms) (optimize_any_of env cs)"
    using disj built re
    by (simp add: compiled_well_def sets_built_optimize optimize_any_of_disjunctive has_regex_optimize)
qed

lemma str_well:
  assumes "compile_str env op pattern ci = Inr c" and "ir_disjunctive m" "\<not> ir_absent m"
    and "regex_free m \<Longrightarrow> ir_pattern_is_plain pattern"
  shows "compiled_well env m c"
  using compile_str_Inr [OF assms(1)] assms(2-) by (auto simp: compiled_well_def)

lemma encoded_well:
  assumes "compile_encoded env encs op pattern ci = Inr c"
  shows "compiled_well env (ImEncoded encs' op' pattern' ci') c"
proof -
  obtain cs where "c = any_of_or_single cs" "list_all disjunctive cs" "list_all (sets_built env) cs"
    "\<not> list_ex matches_absent cs"
    using compile_encoded_Inr [OF assms] by metis
  then show ?thesis by (simp add: compiled_well_def any_of_or_single)
qed

lemma number_Inr: "ir_number_literal n = Inr l \<Longrightarrow> n = NumLiteral l"
  by (cases n rule: ir_number_literal.cases) auto

lemma compile_well:
  "groups_flat m \<Longrightarrow> compile_ir_matcher env m = Inr c \<Longrightarrow> compiled_well env m c"
proof (induction m arbitrary: c)
  case (ImAnyOf ms)
  then obtain cs where cs: "collect_results (compile_ir_matcher env) ms = Inr cs"
    and c: "c = optimize_any_of env cs" by (auto simp: result_map_Inr)
  show ?case unfolding c
    by (rule group_well [OF cs]) (use ImAnyOf in \<open>auto simp: list_all_iff\<close>)
next
  case (ImAllOf ms)
  then obtain cs where cs: "collect_results (compile_ir_matcher env) ms = Inr cs"
    and c: "c = CmAllOf cs" by (auto simp: result_map_Inr)
  have well: "compiled_well env x y" if "x \<in> set ms" "compile_ir_matcher env x = Inr y" for x y
    using ImAllOf that by (auto simp: list_all_iff)
  have "list_all ir_absent ms = list_all matches_absent cs"
    by (rule collect_results_pointwise(2) [OF cs]) (use well in \<open>simp add: compiled_well_def\<close>)
  moreover have "\<not> list_ex has_regex cs" if "list_all regex_free ms"
    using cs well that unfolding collect_results_Inr list_all2_conv_all_nth compiled_well_def
    by (auto simp: list_all_iff list_ex_iff in_set_conv_nth) (metis nth_mem)
  ultimately show ?case by (simp add: compiled_well_def c)
next
  case (ImStr op pattern ci)
  then show ?case by (auto intro: str_well)
next
  case (ImEncoded encs op pattern ci)
  then show ?case by (auto intro: encoded_well)
qed (auto simp: compiled_well_def result_map_Inr split: option.splits)

lemma match_timestamp_cong:
  "(\<And>n. f (EvInt n) = g (EvInt n)) \<Longrightarrow> match_timestamp env part f v = match_timestamp env part g v"
  by (induction env part f v rule: match_timestamp.induct)
     (auto simp: list_ex_iff split: option.splits)

text \<open>The strings of a value are ASCII, or no regex is involved.\<close>

abbreviation text_safe :: "ext_env \<Rightarrow> ir_matcher \<Rightarrow> string list \<Rightarrow> bool" where
  "text_safe env m ss \<equiv> regex_free m \<or> list_all is_ascii ss"

lemma compile_matcher_exact:
  "matcher_laws env \<Longrightarrow> groups_flat m \<Longrightarrow> compile_ir_matcher env m = Inr c \<Longrightarrow>
   text_safe env m (value_strings env v) \<Longrightarrow> matches env ev c v = ir_matches env ev m v"
proof (induction m arbitrary: c v)
  case (ImStr op pattern ci)
  then have "compile_str env op pattern ci = Inr c" by simp
  note c = compile_str_Inr [OF this]
  have "matches_str env c = text_matches env op pattern ci" by (rule ext) (rule c(2))
  then show ?case by (simp add: matches_str_leaf [OF c(1)])
next
  case (ImEncoded encs op pattern ci)
  then have "compile_encoded env encs op pattern ci = Inr c" by simp
  then obtain cs where cs: "c = any_of_or_single cs" "list_all str_leaf cs"
    "\<And>s. list_ex (\<lambda>c. matches_str env c s) cs = encoded_matches env encs op pattern ci s"
    using compile_encoded_Inr by metis
  have "list_ex (\<lambda>c. matches env ev c v) cs
      = list_ex (\<lambda>c. list_ex (matches_str env c) (value_strings env v)) cs"
    by (rule list_ex_cong_on)
       (use cs(2) matches_str_leaf in \<open>auto simp: list_all_iff match_str_value_iff\<close>)
  also have "\<dots> = list_ex (\<lambda>s. list_ex (\<lambda>c. matches_str env c s) cs) (value_strings env v)"
    by (rule list_ex_swap)
  finally show ?case
    by (simp add: cs(1,3) any_of_or_single match_str_value_iff)
next
  case (ImTimestampPart part inner)
  then obtain d where d: "compile_ir_matcher env inner = Inr d" "c = CmTimestampPart part d"
    by (auto simp: result_map_Inr)
  have "matches env ev d (EvInt n) = ir_matches env ev inner (EvInt n)" for n
    using ImTimestampPart d is_ascii_show_int by simp
  then show ?case using d by (simp cong: match_timestamp_cong)
next
  case (ImAnyOf ms)
  then obtain cs where cs: "collect_results (compile_ir_matcher env) ms = Inr cs"
    and c: "c = optimize_any_of env cs" by (auto simp: result_map_Inr)
  have flat: "list_all ir_disjunctive ms" "list_all groups_flat ms"
    using ImAnyOf.prems(2) by (auto simp: list_all_iff)
  have well: "compiled_well env x y" if "x \<in> set ms" "compile_ir_matcher env x = Inr y" for x y
    using flat that by (auto simp: list_all_iff intro: compile_well)
  note group = group_well [OF cs well flat(1)]
  have "group_ok env (value_strings env v) cs"
    using group ImAnyOf.prems(4) by (auto simp: group_ok_def lower_safe_def)
  then have "matches env ev c v = list_ex (\<lambda>m. matches env ev m v) cs"
    using optimize_any_of_matches_aux ImAnyOf.prems(1) c by (simp add: matcher_laws_def)
  also have "\<dots> = list_ex (\<lambda>m. ir_matches env ev m v) ms"
    by (rule collect_results_pointwise(1) [OF cs, symmetric])
       (use ImAnyOf flat in \<open>auto simp: list_all_iff\<close>)
  finally show ?case by simp
next
  case (ImAllOf ms)
  then obtain cs where cs: "collect_results (compile_ir_matcher env) ms = Inr cs"
    and c: "c = CmAllOf cs" by (auto simp: result_map_Inr)
  have "list_all (\<lambda>m. ir_matches env ev m v) ms = list_all (\<lambda>m. matches env ev m v) cs"
    by (rule collect_results_pointwise(2) [OF cs]) (use ImAllOf in \<open>auto simp: list_all_iff\<close>)
  then show ?case by (simp add: c)
next
  case (ImRegex pattern ci multiline dotall cased)
  then show ?case by (auto simp: result_map_Inr regex_Inr)
qed (auto simp: result_map_Inr dest!: number_Inr split: option.splits)

section \<open>Keywords\<close>

lemma keyword_well:
  "groups_flat m \<Longrightarrow> compile_keyword_matcher env m = Inr c \<Longrightarrow>
   sets_built env c \<and> (ir_disjunctive m \<longrightarrow> disjunctive c) \<and> (regex_free m \<longrightarrow> \<not> has_regex c)"
proof (induction m arbitrary: c)
  case (ImAnyOf ms)
  then obtain cs where cs: "collect_results (compile_keyword_matcher env) ms = Inr cs"
    and c: "c = optimize_any_of env cs" by (auto simp: result_map_Inr)
  have "\<exists>m \<in> set ms. compile_keyword_matcher env m = Inr x" if "x \<in> set cs" for x
    using cs that unfolding collect_results_Inr list_all2_conv_all_nth in_set_conv_nth by (metis nth_mem)
  with ImAnyOf have "list_all disjunctive cs" "list_all (sets_built env) cs"
    "list_all regex_free ms \<Longrightarrow> \<not> list_ex has_regex cs"
    by (fastforce simp: list_all_iff list_ex_iff)+
  then show ?case by (simp add: c sets_built_optimize optimize_any_of_disjunctive has_regex_optimize)
next
  case (ImAllOf ms)
  then obtain cs where cs: "collect_results (compile_keyword_matcher env) ms = Inr cs"
    and c: "c = CmAllOf cs" by (auto simp: result_map_Inr)
  have "\<exists>m \<in> set ms. compile_keyword_matcher env m = Inr x" if "x \<in> set cs" for x
    using cs that unfolding collect_results_Inr list_all2_conv_all_nth in_set_conv_nth by (metis nth_mem)
  with ImAllOf have "list_all regex_free ms \<Longrightarrow> \<not> list_ex has_regex cs"
    by (fastforce simp: list_all_iff list_ex_iff)
  then show ?case by (simp add: c)
next
  case (ImStr op pattern ci)
  then obtain op' where "compile_str env op' pattern ci = Inr c" by (auto split: if_splits)
  from compile_str_Inr [OF this] show ?case by simp
next
  case (ImEncoded encs op pattern ci)
  then obtain op' where "compile_encoded env encs op' pattern ci = Inr c" by (auto split: if_splits)
  from encoded_well [OF this] show ?case by (simp add: compiled_well_def)
next
  case (ImNumericEq n)
  then obtain l where "compile_str env OpContains (plain_pattern (show_numeric_literal env l)) True = Inr c"
    by (auto simp: result_bind_Inr)
  from compile_str_Inr [OF this] show ?case
    by (simp add: plain_pattern_def ir_pattern_is_plain_def)
qed (auto simp: result_map_Inr split: option.splits)

lemma keyword_str_exact:
  "matcher_laws env \<Longrightarrow> groups_flat m \<Longrightarrow> ir_disjunctive m \<Longrightarrow> compile_keyword_matcher env m = Inr c \<Longrightarrow>
   text_safe env m [s] \<Longrightarrow> matches_str env c s = keyword_text env m s"
proof (induction m arbitrary: c)
  case (ImAnyOf ms)
  then obtain cs where cs: "collect_results (compile_keyword_matcher env) ms = Inr cs"
    and c: "c = optimize_any_of env cs" by (auto simp: result_map_Inr)
  have "\<exists>m \<in> set ms. compile_keyword_matcher env m = Inr x" if "x \<in> set cs" for x
    using cs that unfolding collect_results_Inr list_all2_conv_all_nth in_set_conv_nth by (metis nth_mem)
  with ImAnyOf.prems(2) keyword_well have "list_all disjunctive cs" "list_all (sets_built env) cs"
    "list_all regex_free ms \<Longrightarrow> \<not> list_ex has_regex cs"
    by (fastforce simp: list_all_iff list_ex_iff)+
  then have "group_ok env [s] cs"
    using ImAnyOf.prems(5) by (auto simp: group_ok_def lower_safe_def)
  then have "matches_str env c s = list_ex (\<lambda>m. matches_str env m s) cs"
    using optimize_any_of_str_aux ImAnyOf.prems(1) c by (simp add: matcher_laws_def)
  also have "\<dots> = list_ex (\<lambda>m. keyword_text env m s) ms"
    by (rule collect_results_pointwise(1) [OF cs, symmetric])
       (use ImAnyOf in \<open>auto simp: list_all_iff\<close>)
  finally show ?case by simp
next
  case (ImStr op pattern ci)
  then have "compile_str env (keyword_op op) pattern ci = Inr c"
    by (auto simp: keyword_op_def split: if_splits)
  from compile_str_Inr [OF this] show ?case by simp
next
  case (ImEncoded encs op pattern ci)
  then have "compile_encoded env encs (keyword_op op) pattern ci = Inr c"
    by (auto simp: keyword_op_def split: if_splits)
  then obtain cs where "c = any_of_or_single cs"
    "\<And>s. list_ex (\<lambda>c. matches_str env c s) cs = encoded_matches env encs (keyword_op op) pattern ci s"
    using compile_encoded_Inr by metis
  then show ?case by (simp add: any_of_or_single)
next
  case (ImNumericEq n)
  then obtain l where n: "n = NumLiteral l"
    and c: "compile_str env OpContains (plain_pattern (show_numeric_literal env l)) True = Inr c"
    by (auto simp: result_bind_Inr dest!: number_Inr)
  have "ir_pattern_as_plain (plain_pattern (show_numeric_literal env l)) = Some (show_numeric_literal env l)"
    by (simp add: ir_pattern_as_plain_def ir_pattern_is_plain_def plain_pattern_def)
  with compile_str_Inr(2) [OF c] show ?case by (simp add: n text_matches_def)
next
  case (ImRegex pattern ci multiline dotall cased)
  then show ?case by (auto simp: result_map_Inr regex_Inr)
qed (auto simp: result_map_Inr split: option.splits)

lemma keyword_leaf_exact:
  assumes "matcher_laws env" "event_wf ev" "groups_flat m" "compile_keyword_matcher env m = Inr c"
    and "text_safe env m (ev_all_string_values ev)" and d: "ir_disjunctive m"
  shows "matches_keyword env ev c = list_ex (keyword_text env m) (ev_all_string_values ev)"
proof -
  have "disjunctive c" using keyword_well [OF assms(3,4)] d by simp
  then have "matches_keyword env ev c = list_ex (matches_str env c) (ev_all_string_values ev)"
    by (intro matches_keyword_iff [OF assms(2)]) auto
  also have "\<dots> = list_ex (keyword_text env m) (ev_all_string_values ev)"
    by (rule list_ex_cong_on, rule keyword_str_exact [OF assms(1,3) d assms(4)])
       (use assms(5) in \<open>auto simp: list_all_iff\<close>)
  finally show ?thesis .
qed

lemma compile_keyword_exact:
  "matcher_laws env \<Longrightarrow> event_wf ev \<Longrightarrow> groups_flat m \<Longrightarrow> compile_keyword_matcher env m = Inr c \<Longrightarrow>
   text_safe env m (ev_all_string_values ev) \<Longrightarrow> matches_keyword env ev c = ir_keyword env ev m"
proof (induction m arbitrary: c)
  case (ImNot m)
  then show ?case by (auto simp: result_map_Inr)
next
  case (ImAllOf ms)
  then obtain cs where cs: "collect_results (compile_keyword_matcher env) ms = Inr cs"
    and c: "c = CmAllOf cs" by (auto simp: result_map_Inr)
  have "list_all (ir_keyword env ev) ms = list_all (matches_keyword env ev) cs"
    by (rule collect_results_pointwise(2) [OF cs]) (use ImAllOf in \<open>auto simp: list_all_iff\<close>)
  then show ?case by (simp add: c)
next
  case (ImAnyOf ms)
  have "ir_disjunctive (ImAnyOf ms)" using ImAnyOf.prems(3) by (auto simp: list_all_iff)
  from keyword_leaf_exact [OF ImAnyOf.prems this] show ?case by (simp only: ir_keyword.simps)
qed (simp only: ir_keyword.simps, rule keyword_leaf_exact; simp)+

end
