(* ===== verification/Raise.thy ===== *)
theory Raise
  imports Lower
begin

text \<open>
  Raising of the intermediate representation back to parsed rules (\<open>rsigma-ir/src/raise.rs\<close>), the
  inverse of the lowering: matchers become modifiers and values, detections and conditions keep
  their shape.
\<close>

section \<open>Values\<close>

fun string_part_of :: "ir_pattern_part \<Rightarrow> string_part" where
  "string_part_of (IpLiteral t) = Plain t"
| "string_part_of IpWildcardMulti = Special WildcardMulti"
| "string_part_of IpWildcardSingle = Special WildcardSingle"

fun part_text :: "ir_pattern_part \<Rightarrow> string" where
  "part_text (IpLiteral t) = t"
| "part_text IpWildcardMulti = [star]"
| "part_text IpWildcardSingle = [qmark]"

definition ir_pattern_to_sigma :: "ir_pattern \<Rightarrow> sigma_string" where
  "ir_pattern_to_sigma p =
     \<lparr> parts = map string_part_of (ip_parts p), original = concat (map part_text (ip_parts p)) \<rparr>"

fun op_modifiers :: "ir_str_op \<Rightarrow> modifier list" where
  "op_modifiers OpExact = []"
| "op_modifiers OpContains = [MdContains]"
| "op_modifiers OpStartsWith = [MdStartsWith]"
| "op_modifiers OpEndsWith = [MdEndsWith]"

fun encoding_modifier :: "ir_encoding \<Rightarrow> modifier" where
  "encoding_modifier EncWide = MdWide"
| "encoding_modifier EncUtf16 = MdUtf16"
| "encoding_modifier EncUtf16Be = MdUtf16be"
| "encoding_modifier EncBase64 = MdBase64"
| "encoding_modifier EncBase64Offset = MdBase64Offset"
| "encoding_modifier EncWindash = MdWindAsh"

fun time_modifier :: "time_part \<Rightarrow> modifier" where
  "time_modifier TpMinute = MdMinute"
| "time_modifier TpHour = MdHour"
| "time_modifier TpDay = MdDay"
| "time_modifier TpWeek = MdWeek"
| "time_modifier TpMonth = MdMonth"
| "time_modifier TpYear = MdYear"

fun number_value :: "ir_number \<Rightarrow> ir_error + sigma_value" where
  "number_value (NumLiteral (NlInteger n)) = Inr (SvInteger n)"
| "number_value (NumLiteral (NlFloat f)) = Inr (SvFloat f)"
| "number_value (NumDynamicSourceRef source_id _) =
     Inl (IeLowering (''cannot raise a dynamic source reference (${source.'' @ source_id
                      @ ''}) to a static value''))"

fun expand_part_source :: "ir_expand_part \<Rightarrow> string" where
  "expand_part_source (ExLiteral text) =
     concat (map (\<lambda>c. if expand_stop c then [bs, c] else [c]) text)"
| "expand_part_source (ExPlaceholder name) = percent # name @ [percent]"

definition expand_source :: "ir_expand_part list \<Rightarrow> string" where
  "expand_source template = concat (map expand_part_source template)"

section \<open>Matchers\<close>

abbreviation cased_modifier :: "bool \<Rightarrow> modifier list" where
  "cased_modifier ci \<equiv> (if ci then [] else [MdCased])"

definition raised_number ::
    "modifier list \<Rightarrow> ir_number \<Rightarrow> ir_error + modifier list \<times> sigma_value list" where
  "raised_number ms n = result_map (\<lambda>v. (ms, [v])) (number_value n)"

text \<open>
  \<open>raise_list\<close> is the loop of \<open>raise_value_list\<close> with its \<open>shared\<close> modifiers.
\<close>

fun raise_matcher :: "ir_matcher \<Rightarrow> ir_error + modifier list \<times> sigma_value list"
  and raise_list ::
    "modifier list option \<Rightarrow> ir_matcher list \<Rightarrow> ir_error + modifier list option \<times> sigma_value list"
where
  "raise_matcher (ImStr op pattern ci) =
     Inr (op_modifiers op @ cased_modifier ci, [SvString (ir_pattern_to_sigma pattern)])"
| "raise_matcher (ImEncoded encodings op pattern ci) =
     Inr (map encoding_modifier encodings @ op_modifiers op @ cased_modifier ci,
          [SvString (ir_pattern_to_sigma pattern)])"
| "raise_matcher (ImRegex pattern ci multiline dotall cased) =
     Inr ([MdRe] @ (if ci then [MdIgnoreCase] else []) @ (if multiline then [MdMultiline] else [])
            @ (if dotall then [MdDotAll] else []) @ (if cased then [MdCased] else []),
          [SvString (sigma_string_from_raw pattern)])"
| "raise_matcher (ImCidr network) = Inr ([MdCidr], [SvString (sigma_string_from_raw network)])"
| "raise_matcher (ImNumericEq n) = raised_number [] n"
| "raise_matcher (ImNumericGt n) = raised_number [MdGt] n"
| "raise_matcher (ImNumericGte n) = raised_number [MdGte] n"
| "raise_matcher (ImNumericLt n) = raised_number [MdLt] n"
| "raise_matcher (ImNumericLte n) = raised_number [MdLte] n"
| "raise_matcher (ImExists expect) = Inr ([MdExists], [SvBool expect])"
| "raise_matcher (ImFieldRef field op ci) =
     Inr ([MdFieldRef] @ op_modifiers op @ cased_modifier ci,
          [SvString (sigma_string_from_raw field)])"
| "raise_matcher ImNull = Inr ([], [SvNull])"
| "raise_matcher (ImBoolEq b) = Inr ([], [SvBool b])"
| "raise_matcher (ImExpand template op ci) =
     Inr (op_modifiers op @ [MdExpand] @ cased_modifier ci,
          [SvString (sigma_string_new (expand_source template))])"
| "raise_matcher (ImTimestampPart part inner) =
     result_map (\<lambda>(ms, vs). (time_modifier part # ms, vs)) (raise_matcher inner)"
| "raise_matcher (ImNot inner) =
     (case inner of
        ImNot positive \<Rightarrow> raise_matcher positive
      | _ \<Rightarrow> result_map (\<lambda>(ms, vs). (ms @ [MdNeq], vs)) (raise_matcher inner))"
| "raise_matcher (ImAnyOf subs) =
     result_map (\<lambda>(shared, vs). (case shared of Some ms \<Rightarrow> ms | None \<Rightarrow> [], vs))
       (raise_list None subs)"
| "raise_matcher (ImAllOf subs) =
     result_map (\<lambda>(shared, vs). ((case shared of Some ms \<Rightarrow> ms | None \<Rightarrow> []) @ [MdAll], vs))
       (raise_list None subs)"
| "raise_list shared [] = Inr (shared, [])"
| "raise_list shared (m # subs) =
     (case raise_matcher m of
        Inl e \<Rightarrow> Inl e
      | Inr (ms, vs) \<Rightarrow>
          if length vs \<noteq> 1 then
            Inl (IeLowering ''cannot raise a nested value list to a single detection item'')
          else if shared \<noteq> None \<and> shared \<noteq> Some ms then
            Inl (IeLowering ''cannot raise a heterogeneous value list to a single detection item'')
          else result_map (\<lambda>(s, ws). (s, vs @ ws)) (raise_list (Some ms) subs))"

section \<open>Detections, conditions and rules\<close>

fun raise_condition :: "ir_condition \<Rightarrow> condition_expr" where
  "raise_condition (IcDetection name) = CondIdentifier name"
| "raise_condition (IcAnd cs) = CondAnd (map raise_condition cs)"
| "raise_condition (IcOr cs) = CondOr (map raise_condition cs)"
| "raise_condition (IcNot inner) = CondNot (raise_condition inner)"
| "raise_condition (IcSelector q p) = CondSelector q p"

text \<open>The error of a keyword matcher carries its debug text; the model keeps its head.\<close>

definition raise_detection_item :: "ir_detection_item \<Rightarrow> ir_error + detection_item" where
  "raise_detection_item item =
     result_map (\<lambda>(ms, vs). \<lparr> di_field = \<lparr> fs_name = idi_field item, fs_modifiers = ms \<rparr>,
                              di_values = vs \<rparr>)
       (raise_matcher (idi_matcher item))"

fun keyword_value :: "ir_matcher \<Rightarrow> ir_error + sigma_value" where
  "keyword_value (ImStr op pattern ci) = Inr (SvString (ir_pattern_to_sigma pattern))"
| "keyword_value (ImNumericEq n) = number_value n"
| "keyword_value (ImBoolEq b) = Inr (SvBool b)"
| "keyword_value ImNull = Inr SvNull"
| "keyword_value other = Inl (IeLowering ''cannot raise keyword matcher: '')"

definition raise_keywords :: "ir_matcher \<Rightarrow> ir_error + sigma_value list" where
  "raise_keywords m =
     (case m of
        ImAnyOf subs \<Rightarrow> collect_results keyword_value subs
      | single \<Rightarrow> result_map (\<lambda>v. [v]) (keyword_value single))"

fun raise_detection :: "ir_detection \<Rightarrow> ir_error + detection" where
  "raise_detection (IdAllOf items) = result_map DAllOf (collect_results raise_detection_item items)"
| "raise_detection (IdAnyOf dets) = result_map DAnyOf (collect_results raise_detection dets)"
| "raise_detection (IdAnd dets) = result_map DAnd (collect_results raise_detection dets)"
| "raise_detection (IdKeywords m) = result_map DKeywords (raise_keywords m)"
| "raise_detection (IdArrayMatch field q body) =
     result_map (DArrayMatch field q) (raise_detection body)"
| "raise_detection (IdConditional named condition) =
     result_map (\<lambda>n. DConditional n (raise_condition condition))
       (collect_values raise_detection named)"

definition json_to_yaml :: "'n yaml_env \<Rightarrow> json_value \<Rightarrow> 'n yaml_value" where
  "json_to_yaml ye v =
     (case yaml_from_text ye (case json_to_text ye v of Some t \<Rightarrow> t | None \<Rightarrow> ''null'') of
        Some y \<Rightarrow> y
      | None \<Rightarrow> YNull)"

record raise_options =
  ro_include_custom_attributes :: bool

definition raise_rule ::
    "'n yaml_env \<Rightarrow> raise_options \<Rightarrow> ir_rule \<Rightarrow> ir_error + 'n yaml_value sigma_rule" where
  "raise_rule ye opts rule =
     result_map
       (\<lambda>named.
          let conditions = map raise_condition (ir_conditions rule); meta = ir_metadata rule
          in \<lparr> sr_title = im_title meta, sr_logsource = ir_logsource rule,
               sr_detection =
                 \<lparr> dets_named = named, dets_conditions = conditions,
                   dets_condition_strings = map show_condition conditions, dets_timeframe = None \<rparr>,
               sr_sigma_version = ir_sigma_version rule, sr_id = im_id meta, sr_name = im_name meta,
               sr_related = im_related meta, sr_taxonomy = im_taxonomy meta,
               sr_status = im_status meta, sr_description = im_description meta,
               sr_license = im_license meta, sr_author = im_author meta,
               sr_references = im_references meta, sr_date = im_date meta,
               sr_modified = im_modified meta, sr_fields = im_fields meta,
               sr_falsepositives = im_falsepositives meta, sr_level = im_level meta,
               sr_tags = im_tags meta, sr_scope = im_scope meta,
               sr_custom_attributes =
                 (if ro_include_custom_attributes opts
                  then map (\<lambda>(k, v). (k, json_to_yaml ye v)) (im_custom_attributes meta) else []) \<rparr>)
       (collect_values raise_detection (ir_detections rule))"

end
