(* ===== verification/LowerProps.thy ===== *)
theory LowerProps
  imports Lower
begin

text \<open>
  What the checks on a modifier chain give the lowering: the flags of the context are the modifiers
  of the chain, operators exclude each other, and the values have the types the operator needs.
\<close>

named_theorems ctx_flags "the flags of a context are the modifiers of its chain"

section \<open>Flags\<close>

lemma mod_ctx_set_flags:
  "mc_contains (mod_ctx_set m c) \<longleftrightarrow> m = MdContains \<or> mc_contains c"
  "mc_startswith (mod_ctx_set m c) \<longleftrightarrow> m = MdStartsWith \<or> mc_startswith c"
  "mc_endswith (mod_ctx_set m c) \<longleftrightarrow> m = MdEndsWith \<or> mc_endswith c"
  "mc_all (mod_ctx_set m c) \<longleftrightarrow> m = MdAll \<or> mc_all c"
  "mc_base64 (mod_ctx_set m c) \<longleftrightarrow> m = MdBase64 \<or> mc_base64 c"
  "mc_base64offset (mod_ctx_set m c) \<longleftrightarrow> m = MdBase64Offset \<or> mc_base64offset c"
  "mc_wide (mod_ctx_set m c) \<longleftrightarrow> m = MdWide \<or> mc_wide c"
  "mc_utf16be (mod_ctx_set m c) \<longleftrightarrow> m = MdUtf16be \<or> mc_utf16be c"
  "mc_utf16 (mod_ctx_set m c) \<longleftrightarrow> m = MdUtf16 \<or> mc_utf16 c"
  "mc_windash (mod_ctx_set m c) \<longleftrightarrow> m = MdWindAsh \<or> mc_windash c"
  "mc_re (mod_ctx_set m c) \<longleftrightarrow> m = MdRe \<or> mc_re c"
  "mc_cidr (mod_ctx_set m c) \<longleftrightarrow> m = MdCidr \<or> mc_cidr c"
  by (cases m; simp)+

lemma mod_ctx_set_flags':
  "mc_cased (mod_ctx_set m c) \<longleftrightarrow> m = MdCased \<or> mc_cased c"
  "mc_exists (mod_ctx_set m c) \<longleftrightarrow> m = MdExists \<or> mc_exists c"
  "mc_fieldref (mod_ctx_set m c) \<longleftrightarrow> m = MdFieldRef \<or> mc_fieldref c"
  "mc_gt (mod_ctx_set m c) \<longleftrightarrow> m = MdGt \<or> mc_gt c"
  "mc_gte (mod_ctx_set m c) \<longleftrightarrow> m = MdGte \<or> mc_gte c"
  "mc_lt (mod_ctx_set m c) \<longleftrightarrow> m = MdLt \<or> mc_lt c"
  "mc_lte (mod_ctx_set m c) \<longleftrightarrow> m = MdLte \<or> mc_lte c"
  "mc_neq (mod_ctx_set m c) \<longleftrightarrow> m = MdNeq \<or> mc_neq c"
  "mc_ignore_case (mod_ctx_set m c) \<longleftrightarrow> m = MdIgnoreCase \<or> mc_ignore_case c"
  "mc_multiline (mod_ctx_set m c) \<longleftrightarrow> m = MdMultiline \<or> mc_multiline c"
  "mc_dotall (mod_ctx_set m c) \<longleftrightarrow> m = MdDotAll \<or> mc_dotall c"
  "mc_expand (mod_ctx_set m c) \<longleftrightarrow> m = MdExpand \<or> mc_expand c"
  by (cases m; simp)+

definition part_of_modifier :: "modifier \<Rightarrow> time_part option" where
  "part_of_modifier m =
     (case m of MdMinute \<Rightarrow> Some TpMinute | MdHour \<Rightarrow> Some TpHour | MdDay \<Rightarrow> Some TpDay
      | MdWeek \<Rightarrow> Some TpWeek | MdMonth \<Rightarrow> Some TpMonth | MdYear \<Rightarrow> Some TpYear | _ \<Rightarrow> None)"

lemma mod_ctx_set_part:
  "mc_timestamp_part (mod_ctx_set m c)
   = (case part_of_modifier m of Some p \<Rightarrow> Some p | None \<Rightarrow> mc_timestamp_part c)"
  by (cases m) (simp_all add: part_of_modifier_def)

lemma part_of_modifier_None: "part_of_modifier m = None \<longleftrightarrow> m \<notin> set timestamp_parts"
  by (cases m) (simp_all add: part_of_modifier_def timestamp_parts_def)

lemma fold_flag:
  assumes "\<And>m c. flag (mod_ctx_set m c) \<longleftrightarrow> m = x \<or> flag c"
  shows "flag (fold mod_ctx_set ms c) \<longleftrightarrow> x \<in> set ms \<or> flag c"
  using assms by (induction ms arbitrary: c) auto

lemma from_flag:
  assumes "\<And>m c. flag (mod_ctx_set m c) \<longleftrightarrow> m = x \<or> flag c" and "\<not> flag mod_ctx_empty"
  shows "flag (mod_ctx_from ms) \<longleftrightarrow> x \<in> set ms"
  using fold_flag [of flag, OF assms(1)] assms(2) by (simp add: mod_ctx_from_def)

lemma mod_ctx_from_flags [ctx_flags]:
  "mc_contains (mod_ctx_from ms) \<longleftrightarrow> MdContains \<in> set ms"
  "mc_startswith (mod_ctx_from ms) \<longleftrightarrow> MdStartsWith \<in> set ms"
  "mc_endswith (mod_ctx_from ms) \<longleftrightarrow> MdEndsWith \<in> set ms"
  "mc_all (mod_ctx_from ms) \<longleftrightarrow> MdAll \<in> set ms"
  "mc_base64 (mod_ctx_from ms) \<longleftrightarrow> MdBase64 \<in> set ms"
  "mc_base64offset (mod_ctx_from ms) \<longleftrightarrow> MdBase64Offset \<in> set ms"
  "mc_wide (mod_ctx_from ms) \<longleftrightarrow> MdWide \<in> set ms"
  "mc_utf16be (mod_ctx_from ms) \<longleftrightarrow> MdUtf16be \<in> set ms"
  "mc_utf16 (mod_ctx_from ms) \<longleftrightarrow> MdUtf16 \<in> set ms"
  "mc_windash (mod_ctx_from ms) \<longleftrightarrow> MdWindAsh \<in> set ms"
  "mc_re (mod_ctx_from ms) \<longleftrightarrow> MdRe \<in> set ms"
  "mc_cidr (mod_ctx_from ms) \<longleftrightarrow> MdCidr \<in> set ms"
  by (rule from_flag; simp add: mod_ctx_set_flags mod_ctx_empty_def)+

lemma mod_ctx_from_flags' [ctx_flags]:
  "mc_cased (mod_ctx_from ms) \<longleftrightarrow> MdCased \<in> set ms"
  "mc_exists (mod_ctx_from ms) \<longleftrightarrow> MdExists \<in> set ms"
  "mc_fieldref (mod_ctx_from ms) \<longleftrightarrow> MdFieldRef \<in> set ms"
  "mc_gt (mod_ctx_from ms) \<longleftrightarrow> MdGt \<in> set ms"
  "mc_gte (mod_ctx_from ms) \<longleftrightarrow> MdGte \<in> set ms"
  "mc_lt (mod_ctx_from ms) \<longleftrightarrow> MdLt \<in> set ms"
  "mc_lte (mod_ctx_from ms) \<longleftrightarrow> MdLte \<in> set ms"
  "mc_neq (mod_ctx_from ms) \<longleftrightarrow> MdNeq \<in> set ms"
  "mc_ignore_case (mod_ctx_from ms) \<longleftrightarrow> MdIgnoreCase \<in> set ms"
  "mc_multiline (mod_ctx_from ms) \<longleftrightarrow> MdMultiline \<in> set ms"
  "mc_dotall (mod_ctx_from ms) \<longleftrightarrow> MdDotAll \<in> set ms"
  "mc_expand (mod_ctx_from ms) \<longleftrightarrow> MdExpand \<in> set ms"
  by (rule from_flag; simp add: mod_ctx_set_flags' mod_ctx_empty_def)+

lemma fold_part_None:
  "mc_timestamp_part (fold mod_ctx_set ms c) = None \<longleftrightarrow>
     \<not> has_any ms timestamp_parts \<and> mc_timestamp_part c = None"
proof (induction ms arbitrary: c)
  case Nil
  then show ?case by (simp add: has_any_def timestamp_parts_def)
next
  case (Cons m ms)
  have "has_any (m # ms) timestamp_parts \<longleftrightarrow> m \<in> set timestamp_parts \<or> has_any ms timestamp_parts"
    by (auto simp: has_any_def list_ex_iff)
  with Cons [of "mod_ctx_set m c"] part_of_modifier_None [of m] show ?case
    by (auto simp: mod_ctx_set_part split: option.splits)
qed

lemma mod_ctx_part_None:
  "mc_timestamp_part (mod_ctx_from ms) = None \<longleftrightarrow> \<not> has_any ms timestamp_parts"
  by (simp add: mod_ctx_from_def fold_part_None mod_ctx_empty_def)

section \<open>Linking modifiers\<close>

text \<open>\<open>all\<close> and \<open>neq\<close> act on an item's values together; the checks and the values ignore them.\<close>

definition linking :: "modifier list \<Rightarrow> bool" where
  "linking ms = list_all (\<lambda>m. m = MdAll \<or> m = MdNeq) ms"

lemma linking_member: "linking ls \<Longrightarrow> m \<noteq> MdAll \<Longrightarrow> m \<noteq> MdNeq \<Longrightarrow> m \<notin> set ls"
  by (auto simp: linking_def list_all_iff)

lemma linking_filter: "linking ls \<Longrightarrow> MdAll \<notin> S \<Longrightarrow> MdNeq \<notin> S \<Longrightarrow> filter (\<lambda>m. m \<in> S) ls = []"
  by (auto simp: linking_def list_all_iff filter_empty_conv)

lemma present_in_linking:
  "linking ls \<Longrightarrow> MdAll \<notin> set S \<Longrightarrow> MdNeq \<notin> set S \<Longrightarrow> present_in (ms @ ls) S = present_in ms S"
  unfolding present_in_def by (rule filter_cong) (auto simp: linking_def list_all_iff)

lemma has_any_linking:
  "linking ls \<Longrightarrow> MdAll \<notin> set S \<Longrightarrow> MdNeq \<notin> set S \<Longrightarrow> has_any (ms @ ls) S = has_any ms S"
  by (auto simp: has_any_def list_ex_iff linking_def list_all_iff)

lemma takeWhile_present: "x \<in> set ms \<Longrightarrow> takeWhile (\<lambda>m. m \<noteq> x) (ms @ ls) = takeWhile (\<lambda>m. m \<noteq> x) ms"
  by (induction ms) auto

lemma check_modifiers_linking:
  assumes "linking ls"
  shows "check_modifiers (ms @ ls) = check_modifiers ms"
proof -
  note sets = string_operators_def numeric_comparisons_def timestamp_parts_def utf16_encodings_def
    value_transforms_def regex_flags_def
  have member: "m \<in> set (ms @ ls) \<longleftrightarrow> m \<in> set ms" if "m \<noteq> MdAll" "m \<noteq> MdNeq" for m
    using linking_member [OF assms that] by auto
  have conflicts: "fieldref_conflicts (ms @ ls) = fieldref_conflicts ms"
    unfolding fieldref_conflicts_def
    by (simp add: present_in_linking has_any_linking assms member sets del: set_append)
  have parts: "filter (\<lambda>m. m \<in> set timestamp_parts) ls = []"
    by (rule linking_filter [OF assms]) (simp_all add: sets)
  have operators: "chain_operators (ms @ ls) = chain_operators ms"
    unfolding chain_operators_def filter_append parts
    by (simp add: present_in_linking has_any_linking assms member sets conflicts del: set_append)
  have before: "string_operator_before_fieldref (ms @ ls) = string_operator_before_fieldref ms"
    unfolding string_operator_before_fieldref_def
    by (simp add: member takeWhile_present del: set_append)
  have pres: "present_in (ms @ ls) utf16_encodings = present_in ms utf16_encodings"
    "present_in (ms @ ls) value_transforms = present_in ms value_transforms"
    "present_in (ms @ ls) regex_flags = present_in ms regex_flags"
    by (rule present_in_linking [OF assms]; simp add: sets)+
  have anys: "has_any (ms @ ls) numeric_comparisons = has_any ms numeric_comparisons"
    "has_any (ms @ ls) timestamp_parts = has_any ms timestamp_parts"
    by (rule has_any_linking [OF assms]; simp add: sets)+
  have members: "(MdBase64 \<in> set (ms @ ls)) = (MdBase64 \<in> set ms)"
    "(MdBase64Offset \<in> set (ms @ ls)) = (MdBase64Offset \<in> set ms)"
    "(MdRe \<in> set (ms @ ls)) = (MdRe \<in> set ms)" "(MdCidr \<in> set (ms @ ls)) = (MdCidr \<in> set ms)"
    "(MdFieldRef \<in> set (ms @ ls)) = (MdFieldRef \<in> set ms)"
    "(MdExists \<in> set (ms @ ls)) = (MdExists \<in> set ms)"
    by (rule member; simp)+
  have re: "MdRe \<in> set (ms @ ls) \<and> list_ex P (takeWhile (\<lambda>m. m \<noteq> MdRe) (ms @ ls))
      \<longleftrightarrow> MdRe \<in> set ms \<and> list_ex P (takeWhile (\<lambda>m. m \<noteq> MdRe) ms)" for P
    using member [of MdRe] takeWhile_present [of MdRe ms ls] by auto
  show ?thesis
    unfolding check_modifiers_def re unfolding pres anys members conflicts operators before ..
qed

lemma check_item_value_linking:
  assumes "linking ls"
  shows "check_item_value env (ms @ ls) v = check_item_value env ms v"
proof -
  have member: "m \<in> set (ms @ ls) \<longleftrightarrow> m \<in> set ms" if "m \<noteq> MdAll" "m \<noteq> MdNeq" for m
    using linking_member [OF assms that] by auto
  have find: "find (\<lambda>m. m \<in> set (ms @ ls)) S = find (\<lambda>m. m \<in> set ms) S"
    if "MdAll \<notin> set S" "MdNeq \<notin> set S" for S
    using that by (induction S) (auto simp: member simp del: set_append)
  have utf16: "has_any (ms @ ls) utf16_encodings = has_any ms utf16_encodings"
    by (rule has_any_linking [OF assms]) (simp_all add: utf16_encodings_def)
  have members: "(MdBase64 \<in> set (ms @ ls)) = (MdBase64 \<in> set ms)"
    "(MdBase64Offset \<in> set (ms @ ls)) = (MdBase64Offset \<in> set ms)"
    "(MdRe \<in> set (ms @ ls)) = (MdRe \<in> set ms)" "(MdCidr \<in> set (ms @ ls)) = (MdCidr \<in> set ms)"
    "(MdFieldRef \<in> set (ms @ ls)) = (MdFieldRef \<in> set ms)"
    by (rule member; simp)+
  have str: "check_string_value env (ms @ ls) s = check_string_value env ms s" for s
    unfolding check_string_value_def utf16 members ..
  have finds: "find (\<lambda>m. m \<in> set (ms @ ls)) (numeric_comparisons @ timestamp_parts)
      = find (\<lambda>m. m \<in> set ms) (numeric_comparisons @ timestamp_parts)"
    "find (\<lambda>m. m \<in> set (ms @ ls)) string_only_modifiers = find (\<lambda>m. m \<in> set ms) string_only_modifiers"
    by (rule find; simp add: numeric_comparisons_def timestamp_parts_def string_only_modifiers_def)+
  show ?thesis
    unfolding check_item_value_def str finds ..
qed

text \<open>The context of a value: the chain's, with \<open>neq\<close> cleared.\<close>

definition value_ctx :: "modifier list \<Rightarrow> mod_ctx" where
  "value_ctx ms = (mod_ctx_from ms) \<lparr> mc_neq := False \<rparr>"

lemma linking_fold: "linking ls \<Longrightarrow> \<exists>a n. fold mod_ctx_set ls c = c \<lparr> mc_all := a, mc_neq := n \<rparr>"
proof (induction ls arbitrary: c)
  case Nil
  show ?case by (rule exI [of _ "mc_all c"], rule exI [of _ "mc_neq c"]) simp
next
  case (Cons m ls)
  then have ls: "linking ls" and m: "m = MdAll \<or> m = MdNeq" by (simp_all add: linking_def)
  obtain a n where "fold mod_ctx_set ls (mod_ctx_set m c)
      = (mod_ctx_set m c) \<lparr> mc_all := a, mc_neq := n \<rparr>"
    using Cons.IH [OF ls] by blast
  moreover have "(mod_ctx_set m c) \<lparr> mc_all := a, mc_neq := n \<rparr> = c \<lparr> mc_all := a, mc_neq := n \<rparr>"
    using m by (cases m) simp_all
  ultimately have "fold mod_ctx_set (m # ls) c = c \<lparr> mc_all := a, mc_neq := n \<rparr>" by simp
  then show ?case by blast
qed

lemma lower_value_all: "lower_value env (c \<lparr> mc_all := a \<rparr>) v = lower_value env c v"
proof -
  have flags: "ctx_str_op (c \<lparr> mc_all := a \<rparr>) = ctx_str_op c"
    "ctx_encodings (c \<lparr> mc_all := a \<rparr>) = ctx_encodings c" for c
    by (simp_all add: ctx_str_op_def ctx_encodings_def)
  have ci: "mod_ctx_ci (c \<lparr> mc_all := a \<rparr>) = mod_ctx_ci c" for c by (simp add: mod_ctx_ci_def)
  have str: "lower_str p (c \<lparr> mc_all := a \<rparr>) = lower_str p c"
    "lower_string (c \<lparr> mc_all := a \<rparr>) s = lower_string c s" for p s c
    by (simp_all only: lower_string_def lower_str_def flags ci)
  have cmp: "lower_numeric_comparison env (c \<lparr> mc_all := a \<rparr>) v
      = lower_numeric_comparison env c v" for c v
    by (cases "mc_gt c"; cases "mc_gte c"; cases "mc_lt c")
       (simp_all add: lower_numeric_comparison_def)
  have plain: "lower_value_plain env (c \<lparr> mc_all := a \<rparr>) v = lower_value_plain env c v" for c v
    by (cases "mc_timestamp_part c"; cases v)
       (simp_all add: lower_value_plain_def cmp str flags ci
          mod_ctx_numeric_def substring_ctx_def)
  have expand: "c \<lparr> mc_all := a, mc_expand := False \<rparr> = c \<lparr> mc_expand := False \<rparr> \<lparr> mc_all := a \<rparr>"
    by simp
  have "lower_expand env (c \<lparr> mc_all := a \<rparr>) s = lower_expand env c s" for s
    unfolding lower_expand_def expand plain by (simp add: flags mod_ctx_ci_def Let_def)
  then show ?thesis by (simp add: lower_value_def plain split: sigma_value.splits)
qed

lemma lower_value_linking:
  assumes "linking ls"
  shows "lower_value env (value_ctx (ms @ ls)) v = lower_value env (value_ctx ms) v"
proof -
  obtain a n where "mod_ctx_from (ms @ ls) = (mod_ctx_from ms) \<lparr> mc_all := a, mc_neq := n \<rparr>"
    using linking_fold [OF assms, of "mod_ctx_from ms"] by (auto simp: mod_ctx_from_def)
  then have "value_ctx (ms @ ls) = (value_ctx ms) \<lparr> mc_all := a \<rparr>" by (simp add: value_ctx_def)
  then show ?thesis by (simp add: lower_value_all)
qed

lemma value_ctx_flags [ctx_flags]:
  "mc_contains (value_ctx ms) = mc_contains (mod_ctx_from ms)"
  "mc_startswith (value_ctx ms) = mc_startswith (mod_ctx_from ms)"
  "mc_endswith (value_ctx ms) = mc_endswith (mod_ctx_from ms)"
  "mc_base64 (value_ctx ms) = mc_base64 (mod_ctx_from ms)"
  "mc_base64offset (value_ctx ms) = mc_base64offset (mod_ctx_from ms)"
  "mc_wide (value_ctx ms) = mc_wide (mod_ctx_from ms)"
  "mc_utf16be (value_ctx ms) = mc_utf16be (mod_ctx_from ms)"
  "mc_utf16 (value_ctx ms) = mc_utf16 (mod_ctx_from ms)"
  "mc_windash (value_ctx ms) = mc_windash (mod_ctx_from ms)"
  "mc_re (value_ctx ms) = mc_re (mod_ctx_from ms)"
  "mc_cidr (value_ctx ms) = mc_cidr (mod_ctx_from ms)"
  "mc_cased (value_ctx ms) = mc_cased (mod_ctx_from ms)"
  "mc_fieldref (value_ctx ms) = mc_fieldref (mod_ctx_from ms)"
  "mc_gt (value_ctx ms) = mc_gt (mod_ctx_from ms)"
  "mc_gte (value_ctx ms) = mc_gte (mod_ctx_from ms)"
  "mc_lt (value_ctx ms) = mc_lt (mod_ctx_from ms)"
  "mc_lte (value_ctx ms) = mc_lte (mod_ctx_from ms)"
  "mc_ignore_case (value_ctx ms) = mc_ignore_case (mod_ctx_from ms)"
  "mc_multiline (value_ctx ms) = mc_multiline (mod_ctx_from ms)"
  "mc_dotall (value_ctx ms) = mc_dotall (mod_ctx_from ms)"
  "mc_expand (value_ctx ms) = mc_expand (mod_ctx_from ms)"
  "mc_timestamp_part (value_ctx ms) = mc_timestamp_part (mod_ctx_from ms)"
  by (simp_all add: value_ctx_def)

lemma numeric_flag [ctx_flags]:
  "mod_ctx_numeric (value_ctx ms) \<longleftrightarrow> has_any ms numeric_comparisons"
  by (simp add: mod_ctx_numeric_def ctx_flags has_any_def numeric_comparisons_def)

section \<open>What a checked chain excludes\<close>

lemma two_members: "x \<in> set xs \<Longrightarrow> y \<in> set xs \<Longrightarrow> x \<noteq> y \<Longrightarrow> 1 < length xs"
  by (cases xs; cases "tl xs") auto

lemma checked_operators: "check_modifiers ms = Inr () \<Longrightarrow> \<not> 1 < length (chain_operators ms)"
  and checked_utf16: "check_modifiers ms = Inr () \<Longrightarrow> \<not> 1 < length (present_in ms utf16_encodings)"
  and checked_base64: "check_modifiers ms = Inr () \<Longrightarrow> \<not> (MdBase64 \<in> set ms \<and> MdBase64Offset \<in> set ms)"
  unfolding check_modifiers_def Let_def by (auto split: option.splits if_splits)

lemma operator_exclusive:
  assumes "check_modifiers ms = Inr ()" "x \<in> set (chain_operators ms)" "y \<in> set (chain_operators ms)"
  shows "x = y"
  using checked_operators [OF assms(1)] two_members [OF assms(2,3)] by blast

lemma re_cidr_alone:
  assumes "check_modifiers ms = Inr ()" and x: "x = MdRe \<or> x = MdCidr" and "x \<in> set ms"
  shows "MdCased \<notin> set ms" and "\<not> has_any ms numeric_comparisons" and "\<not> has_any ms timestamp_parts"
proof -
  have op: "x \<in> set (chain_operators ms)"
    using x assms(3) by (auto simp: chain_operators_def present_in_iff)
  show "MdCased \<notin> set ms"
  proof
    assume "MdCased \<in> set ms"
    then have "MdCased \<in> set (chain_operators ms)"
      using x assms(3) by (auto simp: chain_operators_def)
    from operator_exclusive [OF assms(1) op this] x show False by auto
  qed
  show "\<not> has_any ms numeric_comparisons"
  proof
    assume "has_any ms numeric_comparisons"
    then obtain y where y: "y \<in> set numeric_comparisons" "y \<in> set ms"
      by (auto simp: has_any_def list_ex_iff)
    then have "y \<in> set (chain_operators ms)" by (simp add: chain_operators_def present_in_iff)
    from operator_exclusive [OF assms(1) op this] x y(1) show False
      by (auto simp: numeric_comparisons_def)
  qed
  show "\<not> has_any ms timestamp_parts"
  proof
    assume "has_any ms timestamp_parts"
    then obtain y where y: "y \<in> set timestamp_parts" "y \<in> set ms"
      by (auto simp: has_any_def list_ex_iff)
    then have "y \<in> set (chain_operators ms)" by (simp add: chain_operators_def)
    from operator_exclusive [OF assms(1) op this] x y(1) show False
      by (auto simp: timestamp_parts_def)
  qed
qed

lemma fieldref_alone:
  assumes "check_modifiers ms = Inr ()" and "MdFieldRef \<in> set ms"
  shows "\<not> has_any ms numeric_comparisons"
proof
  assume "has_any ms numeric_comparisons"
  then obtain y where y: "y \<in> set numeric_comparisons" "y \<in> set ms" "fieldref_conflicts ms"
    by (auto simp: has_any_def list_ex_iff fieldref_conflicts_def)
  then have "y \<in> set (chain_operators ms)" and "MdFieldRef \<in> set (chain_operators ms)"
    using assms(2) by (simp_all add: chain_operators_def present_in_iff)
  from operator_exclusive [OF assms(1) this] y(1) show False by (auto simp: numeric_comparisons_def)
qed

lemma find_any_None: "find (\<lambda>m. m \<in> set ms) S = None \<longleftrightarrow> \<not> has_any ms S"
  by (auto simp: find_None_iff has_any_def list_ex_iff)

lemma string_only_value:
  assumes "check_item_value env ms v = Inr ()" and "has_any ms string_only_modifiers"
    and "\<not> has_any ms numeric_comparisons" "\<not> has_any ms timestamp_parts"
  obtains s where "v = SvString s" "check_string_value env ms s = Inr ()"
proof -
  have "find (\<lambda>m. m \<in> set ms) (numeric_comparisons @ timestamp_parts) = None"
    using assms(3,4) by (auto simp: find_any_None has_any_def)
  moreover obtain m where "find (\<lambda>m. m \<in> set ms) string_only_modifiers = Some m"
    using assms(2) by (metis find_any_None not_None_eq)
  ultimately show ?thesis
    using assms(1) that by (auto simp: check_item_value_def split: sigma_value.splits)
qed

lemma numeric_value:
  assumes "check_item_value env ms v = Inr ()"
    and "has_any ms numeric_comparisons \<or> has_any ms timestamp_parts"
  shows "sv_is_numeric v"
proof -
  have "has_any ms (numeric_comparisons @ timestamp_parts)"
    using assms(2) by (auto simp: has_any_def)
  then obtain m where "find (\<lambda>m. m \<in> set ms) (numeric_comparisons @ timestamp_parts) = Some m"
    by (metis find_any_None not_None_eq)
  with assms(1) show ?thesis by (auto simp: check_item_value_def split: if_splits)
qed

text \<open>The encodings of a checked chain: at most one of each sort, in this order.\<close>

definition encodings_ok :: "ir_encoding list \<Rightarrow> bool" where
  "encodings_ok encs = (\<exists>u b w. encs = u @ b @ w
     \<and> u \<in> {[], [EncWide], [EncUtf16], [EncUtf16Be]}
     \<and> b \<in> {[], [EncBase64], [EncBase64Offset]} \<and> w \<in> {[], [EncWindash]})"

lemma ctx_encodings_ok:
  assumes "check_modifiers ms = Inr ()"
  shows "encodings_ok (ctx_encodings (value_ctx ms))"
proof -
  let ?u = "(if MdWide \<in> set ms then [EncWide] else [])
    @ (if MdUtf16be \<in> set ms then [EncUtf16Be] else []) @ (if MdUtf16 \<in> set ms then [EncUtf16] else [])"
  let ?b = "(if MdBase64 \<in> set ms then [EncBase64] else [])
    @ (if MdBase64Offset \<in> set ms then [EncBase64Offset] else [])"
  let ?w = "if MdWindAsh \<in> set ms then [EncWindash] else []"
  have utf16: "x = y" if "x \<in> set ms" "y \<in> set ms" "x \<in> set utf16_encodings" "y \<in> set utf16_encodings"
    for x y
    using checked_utf16 [OF assms] two_members [of x "present_in ms utf16_encodings" y] that
    by (auto simp: present_in_iff)
  have "?u \<in> {[], [EncWide], [EncUtf16], [EncUtf16Be]}"
    using utf16 [of MdWide MdUtf16be] utf16 [of MdWide MdUtf16] utf16 [of MdUtf16be MdUtf16]
    by (auto simp: utf16_encodings_def)
  moreover have "?b \<in> {[], [EncBase64], [EncBase64Offset]}" using checked_base64 [OF assms] by auto
  moreover have "ctx_encodings (value_ctx ms) = ?u @ ?b @ ?w" by (simp add: ctx_encodings_def ctx_flags)
  moreover have "?w \<in> {[], [EncWindash]}" by simp
  ultimately show ?thesis unfolding encodings_ok_def by blast
qed

lemma expand_alone:
  assumes "check_modifiers ms = Inr ()" and "MdExpand \<in> set ms"
  shows "MdRe \<notin> set ms" "MdCidr \<notin> set ms" "MdFieldRef \<notin> set ms"
    "\<not> has_any ms numeric_comparisons" "\<not> has_any ms timestamp_parts"
proof -
  have "MdExpand \<in> set (present_in ms value_transforms)"
    using assms(2) by (simp add: present_in_iff value_transforms_def)
  then have "present_in ms value_transforms \<noteq> []" by auto
  with assms(1) have "\<not> (MdRe \<in> set ms \<or> MdCidr \<in> set ms \<or> MdExists \<in> set ms \<or> MdFieldRef \<in> set ms
      \<or> has_any ms numeric_comparisons \<or> has_any ms timestamp_parts)"
    unfolding check_modifiers_def Let_def by (auto split: option.splits if_splits)
  then show "MdRe \<notin> set ms" "MdCidr \<notin> set ms" "MdFieldRef \<notin> set ms"
    "\<not> has_any ms numeric_comparisons" "\<not> has_any ms timestamp_parts"
    by blast+
qed

lemma check_modifiersI:
  assumes "\<not> 1 < length (chain_operators ms)" "\<not> 1 < length (present_in ms utf16_encodings)"
    "\<not> (MdBase64 \<in> set ms \<and> MdBase64Offset \<in> set ms)" "MdRe \<notin> set ms" "MdCidr \<notin> set ms"
    "MdExists \<notin> set ms" "MdFieldRef \<notin> set ms" "\<not> has_any ms numeric_comparisons"
    "\<not> has_any ms timestamp_parts" "present_in ms regex_flags = []"
  shows "check_modifiers ms = Inr ()"
  unfolding check_modifiers_def Let_def
  using assms by (simp only: if_False option.case simp_thms)

end
