(* ===== verification/RaiseProps.thy ===== *)
theory RaiseProps
  imports Raise LowerProps
begin

text \<open>
  Lowering after raising: what the lowering produces from a checked rule is raised to a rule that
  lowers to the same representation.
\<close>

section \<open>Escapes\<close>

text \<open>
  \<open>unescaped s t\<close>: \<open>t\<close> is \<open>s\<close> without some of the backslashes that stand before an escapable
  character.  Texts without escapable characters occur in both or in neither.
\<close>

inductive unescaped :: "string \<Rightarrow> string \<Rightarrow> bool" where
  Done: "unescaped [] []"
| Keep: "unescaped s t \<Longrightarrow> unescaped (c # s) (c # t)"
| Drop: "expand_stop c \<Longrightarrow> unescaped s t \<Longrightarrow> unescaped (bs # c # s) (c # t)"

inductive_cases unescaped_ConsE: "unescaped s (c # t)"
inductive_cases unescaped_NilE: "unescaped s []"

lemma unescaped_refl [simp]: "unescaped s s"
  by (induction s) (auto intro: unescaped.intros)

lemma unescaped_append: "unescaped s t \<Longrightarrow> unescaped s' t' \<Longrightarrow> unescaped (s @ s') (t @ t')"
  by (induction rule: unescaped.induct) (auto intro: unescaped.intros)

lemma unescaped_prefix:
  "unescaped s (w @ r) \<Longrightarrow> list_all (\<lambda>c. \<not> expand_stop c) w \<Longrightarrow> \<exists>r'. s = w @ r'"
  by (induction w arbitrary: s) (auto elim!: unescaped_ConsE)

lemma unescaped_contains:
  assumes "unescaped s t" "list_all (\<lambda>c. \<not> expand_stop c) w" "contains_str t w"
  shows "contains_str s w"
proof -
  from assms(3) obtain l r where "t = l @ w @ r" by (auto simp: contains_str_iff)
  with assms(1) have "\<exists>l' r'. s = l' @ w @ r'"
  proof (induction l arbitrary: s t)
    case Nil
    with unescaped_prefix [of s w r] assms(2) show ?case by (metis append_Nil)
  next
    case (Cons c l)
    then have "unescaped s (c # (l @ w @ r))" by simp
    then show ?case
    proof (rule unescaped_ConsE)
      fix s' assume "s = c # s'" "unescaped s' (l @ w @ r)"
      with Cons.IH [of s' "l @ w @ r"] show ?thesis by (metis append_Cons)
    next
      fix s' assume "s = bs # c # s'" "unescaped s' (l @ w @ r)"
      with Cons.IH [of s' "l @ w @ r"] show ?thesis by (metis append_Cons)
    qed
  qed
  then show ?thesis by (auto simp: contains_str_iff)
qed

lemma unescaped_suffix:
  "unescaped (w @ r) t \<Longrightarrow> list_all (\<lambda>c. \<not> expand_stop c) w \<Longrightarrow> \<exists>r'. t = w @ r'"
proof (induction w arbitrary: t)
  case Nil
  then show ?case by simp
next
  case (Cons c w)
  then have c: "c \<noteq> bs" by (auto simp: expand_stop_def)
  from Cons.prems(1) show ?case
  proof (cases rule: unescaped.cases)
    case (Keep s t' d)
    with Cons show ?thesis by auto
  qed (use c in simp_all)
qed

lemma contains_unescaped:
  assumes "unescaped s t" "list_all (\<lambda>c. \<not> expand_stop c) w" "contains_str s w"
  shows "contains_str t w"
proof -
  from assms(3) obtain l r where "s = l @ w @ r" by (auto simp: contains_str_iff)
  with assms(1) have "\<exists>l' r'. t = l' @ w @ r'"
  proof (induction arbitrary: l rule: unescaped.induct)
    case Done
    then show ?case by auto
  next
    case (Keep s t c)
    show ?case
    proof (cases l)
      case Nil
      with Keep.prems have "unescaped (w @ r) (c # t)"
        using unescaped.Keep [OF Keep.hyps, of c] by simp
      with unescaped_suffix assms(2) show ?thesis by (metis append_Nil)
    next
      case (Cons d l')
      with Keep.prems Keep.IH [of l'] show ?thesis by (metis append_Cons list.inject)
    qed
  next
    case (Drop c s t)
    show ?case
    proof (cases l)
      case Nil
      with Drop.prems have "unescaped (w @ r) (c # t)"
        using unescaped.Drop [OF Drop.hyps] by simp
      with unescaped_suffix assms(2) show ?thesis by (metis append_Nil)
    next
      case l: (Cons d l')
      show ?thesis
      proof (cases l')
        case Nil
        with l Drop.prems have wr: "w @ r = c # s" by simp
        show ?thesis
        proof (cases w)
          case Nil
          then show ?thesis by (metis append_Nil append_Nil2)
        next
          case (Cons x w')
          with wr Drop.hyps(1) assms(2) show ?thesis by simp
        qed
      next
        case (Cons x l'')
        with l Drop.prems Drop.IH [of l''] show ?thesis by (metis append_Cons list.inject)
      qed
    qed
  qed
  then show ?thesis by (auto simp: contains_str_iff)
qed

section \<open>The texts of parsed strings\<close>

definition parts_text :: "string_part list \<Rightarrow> string" where
  "parts_text ps = concat (map (part_text \<circ> pattern_part_of) ps)"

lemma parts_text_simps [simp]:
  "parts_text [] = []"
  "parts_text (Plain t # ps) = t @ parts_text ps"
  "parts_text (Special WildcardMulti # ps) = star # parts_text ps"
  "parts_text (Special WildcardSingle # ps) = qmark # parts_text ps"
  "parts_text (ps @ qs) = parts_text ps @ parts_text qs"
  by (simp_all add: parts_text_def)

lemma parts_text_flush [simp]: "parts_text (flush_plain ps acc) = parts_text ps @ acc"
  by (simp add: flush_plain_def)

lemma loop_unescaped:
  "\<exists>t. parts_text (sigma_string_loop ps acc esc cs) = parts_text ps @ acc @ t
     \<and> unescaped ((if esc then [bs] else []) @ cs) t"
proof (induction ps acc esc cs rule: sigma_string_loop.induct)
  case (1 ps acc escaped)
  then show ?case by auto
next
  case (2 ps acc escaped c cs)
  show ?case
  proof (cases escaped)
    case True
    show ?thesis
    proof (cases "c = star \<or> c = qmark \<or> c = bs")
      case stop: True
      from 2(1) [OF True stop] True stop obtain t where
        "parts_text (sigma_string_loop ps acc escaped (c # cs)) = parts_text ps @ acc @ c # t"
        "unescaped cs t" by auto
      moreover from stop have "expand_stop c" by (auto simp: expand_stop_def)
      ultimately show ?thesis using True by (auto intro: unescaped.Drop)
    next
      case False
      from 2(2) [OF True False] True False obtain t where
        "parts_text (sigma_string_loop ps acc escaped (c # cs)) = parts_text ps @ acc @ bs # c # t"
        "unescaped cs t" by auto
      then show ?thesis using True by (auto intro: unescaped.Keep)
    qed
  next
    case False
    then consider "c = bs" | "c = star" | "c = qmark" | "c \<notin> {bs, star, qmark}" by blast
    then show ?thesis
    proof cases
      case 1
      with False 2(3) show ?thesis by auto
    next
      case 2
      with False "2.IH"(4) show ?thesis by (auto intro: unescaped.Keep)
    next
      case 3
      with False "2.IH"(5) show ?thesis by (auto intro: unescaped.Keep)
    next
      case 4
      with False "2.IH"(6) show ?thesis by (auto intro: unescaped.Keep)
    qed
  qed
qed

text \<open>The strings the parser makes: with wildcards, or taken as they are.\<close>

definition string_parsed :: "sigma_string \<Rightarrow> bool" where
  "string_parsed s = (s = sigma_string_new (original s) \<or> s = sigma_string_from_raw (original s))"

lemma parsed_text: "string_parsed s \<Longrightarrow> unescaped (original s) (parts_text (parts s))"
proof -
  assume "string_parsed s"
  moreover have "unescaped (original s) (parts_text (parts (sigma_string_new (original s))))"
    using loop_unescaped [of "[]" "[]" False "original s"] by (auto simp: sigma_string_new_def)
  moreover have "parts_text (parts (sigma_string_from_raw (original s))) = original s"
    by (simp add: sigma_string_from_raw_def)
  ultimately show ?thesis unfolding string_parsed_def by (metis unescaped_refl)
qed

lemma plain_parts_text: "list_all is_plain_part ps \<Longrightarrow> parts_text ps = concat (map plain_text ps)"
proof (induction ps)
  case Nil
  then show ?case by simp
next
  case (Cons q qs)
  then show ?case by (cases q) simp_all
qed

lemma as_plain_text: "as_plain s = Some t \<Longrightarrow> parts_text (parts s) = t"
  by (auto simp: as_plain_def sigma_string_is_plain_def plain_parts_text split: if_splits)

lemma plain_or_original_text:
  "plain_or_original s = original s \<or> plain_or_original s = parts_text (parts s)"
  by (auto simp: plain_or_original_def as_plain_text split: option.splits)

lemma pattern_text: "concat (map part_text (ip_parts (pattern_from_sigma s))) = parts_text (parts s)"
  by (simp add: pattern_from_sigma_def parts_text_def)

section \<open>Expand templates\<close>

fun template_segment :: "ir_expand_part \<Rightarrow> expand_segment" where
  "template_segment (ExLiteral t) = SegLiteral t"
| "template_segment (ExPlaceholder n) = SegPlaceholder n"

text \<open>
  The templates a scan gives: literals are not empty and not next to each other, names are not empty
  and have no escapable character.
\<close>

fun template_normal :: "ir_expand_part list \<Rightarrow> bool" where
  "template_normal [] = True"
| "template_normal (ExLiteral t # ps) =
     (t \<noteq> [] \<and> (case ps of ExLiteral _ # _ \<Rightarrow> False | _ \<Rightarrow> True) \<and> template_normal ps)"
| "template_normal (ExPlaceholder n # ps) =
     (n \<noteq> [] \<and> list_all (\<lambda>c. \<not> expand_stop c) n \<and> template_normal ps)"

lemma scan_escaped:
  "scan_expand_loop segs lit (expand_part_source (ExLiteral t) @ r) = scan_expand_loop segs (lit @ t) r"
proof (induction t arbitrary: lit)
  case Nil
  then show ?case by simp
next
  case (Cons c t)
  show ?case
  proof (cases "expand_stop c")
    case True
    with Cons [of "lit @ [c]"] show ?thesis by (auto simp: expand_stop_def)
  next
    case False
    with Cons [of "lit @ [c]"] show ?thesis by (auto simp: expand_stop_def)
  qed
qed

lemma stop_chars [simp]: "expand_stop percent" "expand_stop star" "expand_stop qmark" "expand_stop bs"
  by (simp_all add: expand_stop_def)

lemma percent_neq [simp]: "percent \<noteq> bs" "percent \<noteq> star" "percent \<noteq> qmark"
  "bs \<noteq> percent" "star \<noteq> percent" "qmark \<noteq> percent"
  by (simp_all add: percent_def)

lemma scan_placeholder:
  assumes "n \<noteq> []" "list_all (\<lambda>c. \<not> expand_stop c) n"
  shows "scan_expand_loop segs lit (percent # n @ percent # r)
    = scan_expand_loop (flush_segment segs lit @ [SegPlaceholder n]) [] r"
proof -
  from assms(2) have "takeWhile (\<lambda>x. \<not> expand_stop x) (n @ percent # r) = n"
    and "dropWhile (\<lambda>x. \<not> expand_stop x) (n @ percent # r) = percent # r"
    by (simp_all add: list_all_iff)
  with assms(1) show ?thesis by (simp add: Let_def)
qed

lemma scan_source:
  assumes "template_normal t" and "lit = [] \<or> (case t of ExLiteral _ # _ \<Rightarrow> False | _ \<Rightarrow> True)"
  shows "scan_expand_loop segs lit (expand_source t) = flush_segment segs lit @ map template_segment t"
  using assms
proof (induction t arbitrary: segs lit rule: template_normal.induct)
  case 1
  then show ?case by (simp add: expand_source_def)
next
  case (2 t ps)
  then have "lit = []" by simp
  with 2 scan_escaped [of segs lit t "expand_source ps"] show ?case
    by (simp add: expand_source_def flush_segment_def)
next
  case (3 n ps)
  from 3 scan_placeholder [of n segs lit "expand_source ps"] show ?case
    by (simp add: expand_source_def flush_segment_def)
qed

lemma scan_expand_source: "template_normal t \<Longrightarrow> scan_expand (expand_source t) = map template_segment t"
  using scan_source [of t "[]" "[]"] by (simp add: scan_expand_def flush_segment_def)

text \<open>What a scan gives is normal, and its text is the scanned text unescaped.\<close>

fun segment_text :: "expand_segment \<Rightarrow> string" where
  "segment_text (SegLiteral t) = t"
| "segment_text (SegWildcard w) = (if w = WildcardMulti then [star] else [qmark])"
| "segment_text (SegPlaceholder n) = percent # n @ [percent]"

fun segments_normal :: "expand_segment list \<Rightarrow> bool" where
  "segments_normal [] = True"
| "segments_normal (SegLiteral t # ps) =
     (t \<noteq> [] \<and> (case ps of SegLiteral _ # _ \<Rightarrow> False | _ \<Rightarrow> True) \<and> segments_normal ps)"
| "segments_normal (SegWildcard _ # ps) = segments_normal ps"
| "segments_normal (SegPlaceholder n # ps) =
     (n \<noteq> [] \<and> list_all (\<lambda>c. \<not> expand_stop c) n \<and> segments_normal ps)"

fun is_literal_segment :: "expand_segment \<Rightarrow> bool" where
  "is_literal_segment (SegLiteral _) = True"
| "is_literal_segment _ = False"

definition segments_open :: "expand_segment list \<Rightarrow> bool" where
  "segments_open segs = (segments_normal segs \<and> (segs = [] \<or> \<not> is_literal_segment (last segs)))"

lemma segments_normal_snoc:
  "segments_normal segs \<Longrightarrow> \<not> is_literal_segment s \<Longrightarrow> segments_normal [s]
   \<Longrightarrow> segments_normal (segs @ [s])"
  by (induction segs rule: segments_normal.induct)
     (cases s; auto split: list.splits expand_segment.splits)+

lemma segments_normal_literal:
  "segments_open segs \<Longrightarrow> t \<noteq> [] \<Longrightarrow> segments_normal (segs @ [SegLiteral t])"
  unfolding segments_open_def
  by (induction segs rule: segments_normal.induct)
     (auto split: list.splits expand_segment.splits if_splits)

lemma flush_normal: "segments_open segs \<Longrightarrow> segments_normal (flush_segment segs lit)"
  by (auto simp: flush_segment_def segments_normal_literal) (simp add: segments_open_def)

lemma flush_open:
  "segments_open segs \<Longrightarrow> \<not> is_literal_segment s \<Longrightarrow> segments_normal [s]
   \<Longrightarrow> segments_open (flush_segment segs lit @ [s])"
  using segments_normal_snoc [OF flush_normal] by (simp add: segments_open_def)

lemma flush_segment_text [simp]:
  "concat (map segment_text (flush_segment segs lit)) = concat (map segment_text segs) @ lit"
  by (simp add: flush_segment_def)

lemma stop_name:
  "list_all (\<lambda>c. \<not> expand_stop c) (takeWhile (\<lambda>x. \<not> expand_stop x) cs)"
  by (auto simp: list_all_iff dest: set_takeWhileD)

lemma scan_normal: "segments_open segs \<Longrightarrow> segments_normal (scan_expand_loop segs lit cs)"
proof (induction segs lit cs rule: scan_expand_loop.induct)
  case (1 segs lit)
  then show ?case by (simp add: flush_normal)
next
  case (2 segs lit c cs)
  consider "c = bs" | "c = star \<or> c = qmark" | "c = percent" | "\<not> expand_stop c"
    by (auto simp: expand_stop_def)
  then show ?case
  proof cases
    case 1
    with 2 show ?thesis by (cases cs) auto
  next
    case c: 2
    then have "c \<noteq> bs" by auto
    from 2(4) [OF this c flush_open [OF 2(8)]] c show ?thesis by auto
  next
    case 3
    let ?name = "takeWhile (\<lambda>x. \<not> expand_stop x) cs" and ?rest = "dropWhile (\<lambda>x. \<not> expand_stop x) cs"
    show ?thesis
    proof (cases "?name \<noteq> [] \<and> ?rest \<noteq> [] \<and> hd ?rest = percent")
      case True
      then have "segments_normal [SegPlaceholder ?name]" by (simp add: stop_name)
      from flush_open [OF 2(8) _ this, of lit] 2(5) True 3 show ?thesis by (simp add: Let_def)
    next
      case False
      with 2(6) 2(8) 3 show ?thesis by (auto simp: Let_def)
    qed
  next
    case 4
    with 2 show ?thesis by (auto simp: expand_stop_def)
  qed
qed

lemma scan_unescaped:
  "\<exists>t. concat (map segment_text (scan_expand_loop segs lit cs))
      = concat (map segment_text segs) @ lit @ t \<and> unescaped cs t"
proof (induction segs lit cs rule: scan_expand_loop.induct)
  case (1 segs lit)
  then show ?case by auto
next
  case (2 segs lit c cs)
  have keep: ?case if "concat (map segment_text (scan_expand_loop segs lit (c # cs)))
      = concat (map segment_text segs) @ lit @ c # t" "unescaped cs t" for t
    using that by (auto intro: unescaped.Keep)
  consider "c = bs" | "c = star \<or> c = qmark" | "c = percent" | "\<not> expand_stop c"
    by (auto simp: expand_stop_def)
  then show ?case
  proof cases
    case 1
    show ?thesis
    proof (cases cs)
      case Nil
      with 1 2(1) keep show ?thesis by auto
    next
      case (Cons n rest)
      show ?thesis
      proof (cases "n = star \<or> n = qmark \<or> n = percent \<or> n = bs")
        case True
        from 2(2) [OF 1 Cons True] True 1 Cons obtain t where
          "concat (map segment_text (scan_expand_loop segs lit (c # cs)))
            = concat (map segment_text segs) @ lit @ n # t" "unescaped rest t" by auto
        moreover have "expand_stop n" using True by auto
        ultimately show ?thesis using 1 Cons by (auto intro: unescaped.Drop)
      next
        case False
        from 2(3) [OF 1 Cons False] False 1 Cons keep show ?thesis by auto
      qed
    qed
  next
    case c: 2
    then have "c \<noteq> bs" by auto
    from 2(4) [OF this c] c keep show ?thesis by (auto split: if_splits)
  next
    case 3
    let ?name = "takeWhile (\<lambda>x. \<not> expand_stop x) cs" and ?rest = "dropWhile (\<lambda>x. \<not> expand_stop x) cs"
    show ?thesis
    proof (cases "?name \<noteq> [] \<and> ?rest \<noteq> [] \<and> hd ?rest = percent")
      case True
      then have cs: "cs = ?name @ percent # tl ?rest"
        by (metis list.collapse takeWhile_dropWhile_id)
      from 2(5) [OF _ _ 3] True 3 obtain t where
        "concat (map segment_text (scan_expand_loop segs lit (c # cs)))
          = concat (map segment_text segs) @ lit @ percent # ?name @ percent # t"
        "unescaped (tl ?rest) t" by (auto simp: Let_def)
      moreover from this(2) have "unescaped cs (?name @ percent # t)"
        by (subst cs) (intro unescaped_append unescaped_refl unescaped.Keep)
      ultimately show ?thesis using 3 keep by auto
    next
      case False
      from 2(6) [OF _ _ 3 refl refl False] 3 obtain t where
        "concat (map segment_text (scan_expand_loop segs (lit @ [percent]) cs))
          = concat (map segment_text segs) @ lit @ percent # t" "unescaped cs t" by auto
      with False 3 show ?thesis by (intro keep [of t]) (auto simp: Let_def)
    qed
  next
    case 4
    with 2(7) keep show ?thesis by (auto simp: expand_stop_def)
  qed
qed

lemma template_of_segments:
  "segments_normal segs \<Longrightarrow> \<not> list_ex is_wildcard_segment segs \<Longrightarrow>
   template_normal (concat (map segment_template segs))"
  by (induction segs rule: segments_normal.induct)
     (auto split: list.splits expand_segment.splits ir_expand_part.splits)

lemma source_unescaped:
  "unescaped (expand_source t) (concat (map (segment_text \<circ> template_segment) t))"
proof -
  have escaped: "unescaped (concat (map (\<lambda>c. if expand_stop c then [bs, c] else [c]) s)) s" for s
    by (induction s) (auto intro: unescaped.intros)
  have "unescaped (expand_part_source p) (segment_text (template_segment p))" for p
    by (cases p) (simp_all add: escaped)
  then show ?thesis
    unfolding expand_source_def by (induction t) (auto intro: unescaped_append unescaped.Done)
qed

lemma segments_template_text:
  "\<not> list_ex is_wildcard_segment segs \<Longrightarrow>
   concat (map (segment_text \<circ> template_segment) (concat (map segment_template segs)))
   = concat (map segment_text segs)"
proof (induction segs)
  case Nil
  then show ?case by simp
next
  case (Cons s segs)
  then show ?case by (cases s) simp_all
qed

lemma parts_of_segments:
  "\<not> list_ex is_placeholder segs \<Longrightarrow>
   parts_text (concat (map segment_parts segs)) = concat (map segment_text segs)"
proof (induction segs)
  case Nil
  then show ?case by simp
next
  case (Cons s segs)
  have "parts_text (Special w # ps) = segment_text (SegWildcard w) @ parts_text ps" for w ps
    by (cases w) simp_all
  with Cons show ?case by (cases s) simp_all
qed

section \<open>Leaves\<close>

text \<open>\<open>clean\<close>: the check for source placeholders passes on the text.\<close>

definition clean :: "lower_options \<Rightarrow> string \<Rightarrow> bool" where
  "clean opts t = (lo_permissive_placeholders opts \<or> \<not> contains_str t ''${source.'')"

lemma placeholder_no_stop: "list_all (\<lambda>c. \<not> expand_stop c) ''${source.''"
  by (simp add: expand_stop_def percent_def)

lemma clean_unescaped: "unescaped s t \<Longrightarrow> clean opts s = clean opts t"
  unfolding clean_def
  using unescaped_contains [OF _ placeholder_no_stop] contains_unescaped [OF _ placeholder_no_stop]
  by blast

fun is_number_literal :: "ir_number \<Rightarrow> bool" where
  "is_number_literal (NumLiteral _) = True"
| "is_number_literal (NumDynamicSourceRef _ _) = False"

text \<open>The matchers the lowering of one value gives.\<close>

fun leaf_ok :: "lower_options \<Rightarrow> ir_matcher \<Rightarrow> bool" where
  "leaf_ok opts (ImStr op p ci) = clean opts (concat (map part_text (ip_parts p)))"
| "leaf_ok opts (ImEncoded encs op p ci) =
     (clean opts (concat (map part_text (ip_parts p))) \<and> encs \<noteq> [] \<and> encodings_ok encs
      \<and> check_encodable encs p = Inr ())"
| "leaf_ok opts (ImRegex p i m d cased) = (clean opts p \<and> \<not> cased)"
| "leaf_ok opts (ImCidr c) = (clean opts c \<and> check_cidr c = Inr ())"
| "leaf_ok opts (ImNumericEq n) = is_number_literal n"
| "leaf_ok opts (ImNumericGt n) = is_number_literal n"
| "leaf_ok opts (ImNumericGte n) = is_number_literal n"
| "leaf_ok opts (ImNumericLt n) = is_number_literal n"
| "leaf_ok opts (ImNumericLte n) = is_number_literal n"
| "leaf_ok opts (ImFieldRef f op ci) = clean opts f"
| "leaf_ok opts ImNull = True"
| "leaf_ok opts (ImBoolEq b) = True"
| "leaf_ok opts (ImExpand t op ci) =
     (template_normal t \<and> list_ex (\<lambda>p. is_placeholder (template_segment p)) t
      \<and> clean opts (expand_source t))"
| "leaf_ok opts (ImTimestampPart part (ImNumericEq n)) = is_number_literal n"
| "leaf_ok opts _ = False"

text \<open>A value of a parsed item, past the test for source placeholders.\<close>

definition value_parsed :: "lower_options \<Rightarrow> sigma_value \<Rightarrow> bool" where
  "value_parsed opts v =
     (case v of SvString s \<Rightarrow> string_parsed s \<and> clean opts (original s) | _ \<Rightarrow> True)"

lemma parsed_clean:
  "value_parsed opts (SvString s) \<Longrightarrow> clean opts (parts_text (parts s))"
  using clean_unescaped [OF parsed_text] by (auto simp: value_parsed_def)

lemma plain_clean: "value_parsed opts (SvString s) \<Longrightarrow> clean opts (plain_or_original s)"
  using plain_or_original_text [of s] parsed_clean [of opts s] by (auto simp: value_parsed_def)

lemma lower_string_leaf:
  assumes "check_modifiers ms = Inr ()" and "clean opts (parts_text (parts s))"
    and "lower_string (value_ctx ms) s = Inr m"
  shows "leaf_ok opts m"
  using assms ctx_encodings_ok [OF assms(1)]
  by (auto simp: lower_string_def lower_str_def pattern_text Let_def split: if_splits sum.splits)

lemma lower_plain_leaf:
  assumes check: "check_modifiers ms = Inr ()" "check_item_value env ms v = Inr ()"
    and v: "value_parsed opts v" and m: "lower_value_plain env (value_ctx ms) v = Inr m"
  shows "leaf_ok opts m"
proof (cases "has_any ms timestamp_parts")
  case True
  then obtain p where "mc_timestamp_part (value_ctx ms) = Some p"
    using mod_ctx_part_None [of ms]
    by (cases "mc_timestamp_part (mod_ctx_from ms)") (auto simp: ctx_flags)
  with m show ?thesis
    by (auto simp: lower_value_plain_def lower_timestamp_def result_simps)
next
  case ts: False
  then have part: "mc_timestamp_part (mod_ctx_from ms) = None" by (simp add: mod_ctx_part_None)
  consider (ref) "MdFieldRef \<in> set ms" | (re) "MdRe \<in> set ms" "MdFieldRef \<notin> set ms"
    | (cidr) "MdCidr \<in> set ms" "MdRe \<notin> set ms" "MdFieldRef \<notin> set ms"
    | (num) "has_any ms numeric_comparisons" "MdCidr \<notin> set ms" "MdRe \<notin> set ms" "MdFieldRef \<notin> set ms"
    | (str) "\<not> has_any ms numeric_comparisons" "MdCidr \<notin> set ms" "MdRe \<notin> set ms" "MdFieldRef \<notin> set ms"
    by blast
  then show ?thesis
  proof cases
    case ref
    then have "has_any ms string_only_modifiers"
      by (auto simp: has_any_def string_only_modifiers_def)
    from string_only_value [OF check(2) this fieldref_alone [OF check(1) ref] ts]
    obtain s where s: "v = SvString s" .
    with m part ref show ?thesis
      using parsed_clean [OF v [unfolded s]]
      by (auto simp: lower_value_plain_def ctx_flags fieldref_name_def as_plain_text
          split: option.splits)
  next
    case re
    then have "has_any ms string_only_modifiers"
      by (auto simp: has_any_def string_only_modifiers_def)
    from string_only_value [OF check(2) this re_cidr_alone(2) [OF check(1) _ re(1)] ts]
    obtain s where s: "v = SvString s" by auto
    with m part re show ?thesis
      using plain_clean [OF v [unfolded s]] re_cidr_alone(1) [OF check(1) _ re(1)]
      by (auto simp: lower_value_plain_def ctx_flags)
  next
    case cidr
    then have "has_any ms string_only_modifiers"
      by (auto simp: has_any_def string_only_modifiers_def)
    from string_only_value [OF check(2) this re_cidr_alone(2) [OF check(1) _ cidr(1)] ts]
    obtain s where s: "v = SvString s" by auto
    with m part cidr show ?thesis
      using plain_clean [OF v [unfolded s]]
      by (auto simp: lower_value_plain_def ctx_flags split: sum.splits)
  next
    case num
    with m part show ?thesis
      by (auto simp: lower_value_plain_def ctx_flags lower_numeric_comparison_def result_simps)
  next
    case str
    show ?thesis
    proof (cases v)
      case (SvString s)
      with m part str lower_string_leaf [OF check(1) parsed_clean [OF v [unfolded SvString]]]
      show ?thesis by (simp add: lower_value_plain_def ctx_flags)
    next
      case (SvInteger n)
      have "\<not> has_any ms string_only_modifiers"
        using string_only_value [OF check(2) _ str(1) ts] SvInteger by blast
      with m part str SvInteger show ?thesis
        by (auto simp: lower_value_plain_def ctx_flags substring_ctx_def has_any_def
            string_only_modifiers_def)
    next
      case (SvFloat f)
      have "\<not> has_any ms string_only_modifiers"
        using string_only_value [OF check(2) _ str(1) ts] SvFloat by blast
      with m part str SvFloat show ?thesis
        by (auto simp: lower_value_plain_def ctx_flags substring_ctx_def has_any_def
            string_only_modifiers_def)
    next
      case (SvBool b)
      with m part str show ?thesis by (auto simp: lower_value_plain_def ctx_flags)
    next
      case SvNull
      with m part str show ?thesis by (auto simp: lower_value_plain_def ctx_flags)
    qed
  qed
qed

lemma lower_expand_leaf:
  assumes check: "check_modifiers ms = Inr ()" and expand: "MdExpand \<in> set ms"
    and v: "value_parsed opts (SvString s)" and m: "lower_expand env (value_ctx ms) s = Inr m"
  shows "leaf_ok opts m"
proof -
  define segs where "segs = scan_expand (original s)"
  have normal: "segments_normal segs"
    unfolding segs_def scan_expand_def by (rule scan_normal) (simp add: segments_open_def)
  have "unescaped (original s) (concat (map segment_text segs))"
    using scan_unescaped [of "[]" "[]" "original s"] by (auto simp: segs_def scan_expand_def)
  with v have clean: "clean opts (concat (map segment_text segs))"
    using clean_unescaped by (auto simp: value_parsed_def)
  show ?thesis
  proof (cases "list_ex is_placeholder segs")
    case True
    with m have w: "\<not> list_ex is_wildcard_segment segs" and "m = ImExpand
        (concat (map segment_template segs)) (ctx_str_op (value_ctx ms)) (mod_ctx_ci (value_ctx ms))"
      by (auto simp: lower_expand_def segs_def [symmetric] Let_def split: if_splits)
    moreover have "list_ex (\<lambda>p. is_placeholder (template_segment p)) (concat (map segment_template segs))"
    proof -
      from True obtain n where "SegPlaceholder n \<in> set segs"
        by (auto simp: list_ex_iff elim!: is_placeholder.elims)
      then have "ExPlaceholder n \<in> set (concat (map segment_template segs))"
        by (auto intro!: bexI [of _ "SegPlaceholder n"])
      then show ?thesis by (auto simp: list_ex_iff intro!: bexI [of _ "ExPlaceholder n"])
    qed
    moreover have "clean opts (expand_source (concat (map segment_template segs)))"
      using clean_unescaped [OF source_unescaped] clean by (simp add: segments_template_text w)
    ultimately show ?thesis using template_of_segments [OF normal] by simp
  next
    case False
    let ?s = "\<lparr> parts = concat (map segment_parts segs), original = original s \<rparr>"
    have "mc_timestamp_part (mod_ctx_from ms) = None"
      using expand_alone(5) [OF check expand] by (simp add: mod_ctx_part_None)
    with False m expand_alone [OF check expand]
    have "lower_string ((value_ctx ms) \<lparr> mc_expand := False \<rparr>) ?s = Inr m"
      by (simp add: lower_expand_def segs_def [symmetric] Let_def lower_value_plain_def ctx_flags
          mod_ctx_numeric_def has_any_def numeric_comparisons_def)
    moreover have "lower_string (c \<lparr> mc_expand := False \<rparr>) t = lower_string c t" for c t
    proof -
      have "ctx_str_op (c \<lparr> mc_expand := False \<rparr>) = ctx_str_op c"
        "ctx_encodings (c \<lparr> mc_expand := False \<rparr>) = ctx_encodings c"
        "mod_ctx_ci (c \<lparr> mc_expand := False \<rparr>) = mod_ctx_ci c"
        by (simp_all add: ctx_str_op_def ctx_encodings_def mod_ctx_ci_def)
      then show ?thesis by (simp only: lower_string_def lower_str_def)
    qed
    ultimately show ?thesis
      using clean parts_of_segments [OF False]
      by (intro lower_string_leaf [OF check, of opts ?s m]) simp_all
  qed
qed

lemma lower_value_leaf:
  assumes "check_modifiers ms = Inr ()" "check_item_value env ms v = Inr ()"
    and "value_parsed opts v" and "lower_value env (value_ctx ms) v = Inr m"
  shows "leaf_ok opts m"
  using assms lower_plain_leaf [OF assms(1-3)] lower_expand_leaf [OF assms(1)]
  by (auto simp: lower_value_def ctx_flags split: sigma_value.splits if_splits)

section \<open>Raised leaves\<close>

definition raised_ok ::
    "ext_env \<Rightarrow> lower_options \<Rightarrow> ir_matcher \<Rightarrow> modifier list \<Rightarrow> sigma_value \<Rightarrow> bool" where
  "raised_ok env opts m ms v =
     (check_modifiers ms = Inr () \<and> MdExists \<notin> set ms \<and> MdAll \<notin> set ms \<and> MdNeq \<notin> set ms
      \<and> (lo_permissive_placeholders opts \<or> reject_placeholders v = Inr ())
      \<and> lower_value env (value_ctx ms) v = Inr m
      \<and> (check_item_value env ms v = Inr () \<or> MdRe \<in> set ms \<and> invalid_regex_value env v))"

lemma sigma_of_pattern [simp]: "pattern_from_sigma (ir_pattern_to_sigma p) = p"
proof -
  have "pattern_part_of (string_part_of q) = q" for q by (cases q) simp_all
  then show ?thesis by (simp add: pattern_from_sigma_def ir_pattern_to_sigma_def comp_def)
qed

lemma raw_plain [simp]: "as_plain (sigma_string_from_raw s) = Some s"
  "contains_wildcards (sigma_string_from_raw s) = False" "original (sigma_string_from_raw s) = s"
  by (simp_all add: as_plain_def sigma_string_is_plain_def sigma_string_from_raw_def
      contains_wildcards_def)

lemma raw_or_original [simp]: "plain_or_original (sigma_string_from_raw s) = s"
  by (simp add: plain_or_original_def)

lemma reject_clean:
  "reject_placeholders (SvString s) = Inr () \<longleftrightarrow> \<not> contains_str (original s) ''${source.''"
  by (simp add: reject_placeholders_def)

lemma original_of_pattern [simp]:
  "original (ir_pattern_to_sigma p) = concat (map part_text (ip_parts p))"
  by (simp add: ir_pattern_to_sigma_def)

lemmas chain_simps = check_modifiers_def chain_operators_def present_in_def has_any_def
  fieldref_conflicts_def string_operator_before_fieldref_def string_operators_def
  numeric_comparisons_def timestamp_parts_def utf16_encodings_def value_transforms_def
  regex_flags_def Let_def

lemmas value_simps = lower_value_def lower_value_plain_def lower_string_def lower_str_def
  value_ctx_def mod_ctx_from_def mod_ctx_empty_def ctx_str_op_def ctx_encodings_def mod_ctx_ci_def
  mod_ctx_numeric_def lower_numeric_comparison_def substring_ctx_def check_item_value_def check_string_value_def string_only_modifiers_def

lemma raised_str:
  assumes "leaf_ok opts (ImStr op p ci)"
  shows "raised_ok env opts (ImStr op p ci) (op_modifiers op @ cased_modifier ci)
    (SvString (ir_pattern_to_sigma p))"
  using assms
  by (cases op; cases ci)
     (auto simp: raised_ok_def clean_def reject_clean chain_simps value_simps)

lemma raised_fieldref:
  assumes "leaf_ok opts (ImFieldRef f op ci)"
  shows "raised_ok env opts (ImFieldRef f op ci) ([MdFieldRef] @ op_modifiers op @ cased_modifier ci)
    (SvString (sigma_string_from_raw f))"
  using assms
  by (cases op; cases ci)
     (auto simp: raised_ok_def clean_def reject_clean chain_simps value_simps fieldref_name_def)

lemma raised_regex:
  assumes "leaf_ok opts (ImRegex p i m d cased)"
  shows "raised_ok env opts (ImRegex p i m d cased)
    ([MdRe] @ (if i then [MdIgnoreCase] else []) @ (if m then [MdMultiline] else [])
      @ (if d then [MdDotAll] else []) @ (if cased then [MdCased] else []))
    (SvString (sigma_string_from_raw p))"
  using assms
  by (cases i; cases m; cases d; cases "check_regex env p")
     (auto simp: raised_ok_def clean_def reject_clean chain_simps value_simps invalid_regex_value_def)

lemma raised_cidr:
  assumes "leaf_ok opts (ImCidr c)"
  shows "raised_ok env opts (ImCidr c) [MdCidr] (SvString (sigma_string_from_raw c))"
  using assms
  by (auto simp: raised_ok_def clean_def reject_clean chain_simps value_simps)

lemma raised_expand:
  assumes "leaf_ok opts (ImExpand t op ci)"
  shows "raised_ok env opts (ImExpand t op ci) (op_modifiers op @ [MdExpand] @ cased_modifier ci)
    (SvString (sigma_string_new (expand_source t)))"
proof -
  have ok: "template_normal t" "list_ex (\<lambda>p. is_placeholder (template_segment p)) t"
    "clean opts (expand_source t)" using assms by simp_all
  have orig: "original (sigma_string_new (expand_source t)) = expand_source t"
    by (simp add: sigma_string_new_def)
  have seg: "segment_template (template_segment p) = [p]"
    "\<not> is_wildcard_segment (template_segment p)" for p
    by (cases p; simp)+
  then have "concat (map segment_template (map template_segment t)) = t"
    and "\<not> list_ex is_wildcard_segment (map template_segment t)"
    by (induction t) simp_all
  moreover have "list_ex is_placeholder (map template_segment t)" using ok(2) by (simp add: comp_def)
  ultimately have lower: "ctx_encodings ctx = [] \<Longrightarrow>
      lower_expand env ctx (sigma_string_new (expand_source t))
      = Inr (ImExpand t (ctx_str_op ctx) (mod_ctx_ci ctx))" for ctx
    by (simp add: lower_expand_def orig scan_expand_source [OF ok(1)] Let_def del: map_map)
  show ?thesis
    using ok(3)
    by (cases op; cases ci)
       (auto simp: raised_ok_def clean_def reject_clean orig chain_simps value_simps lower)
qed

definition numeric_matcher :: "modifier list \<Rightarrow> ir_number \<Rightarrow> ir_matcher" where
  "numeric_matcher ms n =
     (if ms = [MdGt] then ImNumericGt n else if ms = [MdGte] then ImNumericGte n
      else if ms = [MdLt] then ImNumericLt n else if ms = [MdLte] then ImNumericLte n
      else ImNumericEq n)"

lemma raised_number_value:
  assumes "number_value n = Inr v" and "ms = [] \<or> ms = [MdGt] \<or> ms = [MdGte] \<or> ms = [MdLt] \<or> ms = [MdLte]"
  shows "raised_ok env opts (numeric_matcher ms n) ms v"
proof -
  from assms(1) consider i where "n = NumLiteral (NlInteger i)" "v = SvInteger i"
    | f where "n = NumLiteral (NlFloat f)" "v = SvFloat f"
    by (cases n rule: number_value.cases) auto
  then show ?thesis
    using assms(2)
    by (elim disjE; cases)
       (simp_all add: numeric_matcher_def raised_ok_def reject_placeholders_def chain_simps value_simps)
qed

lemma number_literal_value: "is_number_literal n \<Longrightarrow> \<exists>v. number_value n = Inr v"
  by (cases n rule: number_value.cases) auto

lemma raised_time:
  assumes "number_value n = Inr v"
  shows "raised_ok env opts (ImTimestampPart part (ImNumericEq n)) [time_modifier part] v"
proof -
  from assms consider i where "n = NumLiteral (NlInteger i)" "v = SvInteger i"
    | f where "n = NumLiteral (NlFloat f)" "v = SvFloat f"
    by (cases n rule: number_value.cases) auto
  then show ?thesis
  proof cases
    case 1
    then show ?thesis
      by (cases part)
         (simp_all add: raised_ok_def reject_placeholders_def chain_simps value_simps lower_timestamp_def)
  next
    case 2
    then show ?thesis
      by (cases part)
         (simp_all add: raised_ok_def reject_placeholders_def chain_simps value_simps lower_timestamp_def)
  qed
qed

text \<open>Encoded values: the chain has the modifiers of the encodings.\<close>

lemma encoding_modifier_eq:
  "encoding_modifier x = MdWide \<longleftrightarrow> x = EncWide" "encoding_modifier x = MdUtf16 \<longleftrightarrow> x = EncUtf16"
  "encoding_modifier x = MdUtf16be \<longleftrightarrow> x = EncUtf16Be"
  "encoding_modifier x = MdBase64 \<longleftrightarrow> x = EncBase64"
  "encoding_modifier x = MdBase64Offset \<longleftrightarrow> x = EncBase64Offset"
  "encoding_modifier x = MdWindAsh \<longleftrightarrow> x = EncWindash"
  by (cases x; simp)+

lemma encoding_modifier_mem:
  "MdWide \<in> encoding_modifier ` E \<longleftrightarrow> EncWide \<in> E"
  "MdUtf16 \<in> encoding_modifier ` E \<longleftrightarrow> EncUtf16 \<in> E"
  "MdUtf16be \<in> encoding_modifier ` E \<longleftrightarrow> EncUtf16Be \<in> E"
  "MdBase64 \<in> encoding_modifier ` E \<longleftrightarrow> EncBase64 \<in> E"
  "MdBase64Offset \<in> encoding_modifier ` E \<longleftrightarrow> EncBase64Offset \<in> E"
  "MdWindAsh \<in> encoding_modifier ` E \<longleftrightarrow> EncWindash \<in> E"
  unfolding image_iff by (metis encoding_modifier_eq)+

lemma encoding_modifier_range:
  "encoding_modifier x \<in> {MdWide, MdUtf16, MdUtf16be, MdBase64, MdBase64Offset, MdWindAsh}"
  by (cases x) simp_all

lemma encoding_modifier_other:
  "m \<notin> {MdWide, MdUtf16, MdUtf16be, MdBase64, MdBase64Offset, MdWindAsh} \<Longrightarrow>
   m \<notin> encoding_modifier ` E"
  using encoding_modifier_range by blast

lemma encodings_exclusive:
  assumes "encodings_ok encs"
  shows "\<not> (EncWide \<in> set encs \<and> EncUtf16 \<in> set encs)" "\<not> (EncWide \<in> set encs \<and> EncUtf16Be \<in> set encs)"
    "\<not> (EncUtf16 \<in> set encs \<and> EncUtf16Be \<in> set encs)"
    "\<not> (EncBase64 \<in> set encs \<and> EncBase64Offset \<in> set encs)"
  using assms by (auto simp: encodings_ok_def)

definition encoded_chain :: "ir_encoding list \<Rightarrow> ir_str_op \<Rightarrow> bool \<Rightarrow> modifier list" where
  "encoded_chain encs op ci = map encoding_modifier encs @ op_modifiers op @ cased_modifier ci"

lemma encoded_chain_mem:
  "MdWide \<in> set (encoded_chain encs op ci) \<longleftrightarrow> EncWide \<in> set encs"
  "MdUtf16 \<in> set (encoded_chain encs op ci) \<longleftrightarrow> EncUtf16 \<in> set encs"
  "MdUtf16be \<in> set (encoded_chain encs op ci) \<longleftrightarrow> EncUtf16Be \<in> set encs"
  "MdBase64 \<in> set (encoded_chain encs op ci) \<longleftrightarrow> EncBase64 \<in> set encs"
  "MdBase64Offset \<in> set (encoded_chain encs op ci) \<longleftrightarrow> EncBase64Offset \<in> set encs"
  "MdWindAsh \<in> set (encoded_chain encs op ci) \<longleftrightarrow> EncWindash \<in> set encs"
  "MdContains \<in> set (encoded_chain encs op ci) \<longleftrightarrow> op = OpContains"
  "MdStartsWith \<in> set (encoded_chain encs op ci) \<longleftrightarrow> op = OpStartsWith"
  "MdEndsWith \<in> set (encoded_chain encs op ci) \<longleftrightarrow> op = OpEndsWith"
  "MdCased \<in> set (encoded_chain encs op ci) \<longleftrightarrow> \<not> ci"
  by (cases op; simp add: encoded_chain_def encoding_modifier_mem encoding_modifier_other)+

lemma encoded_chain_other:
  "m \<notin> {MdWide, MdUtf16, MdUtf16be, MdBase64, MdBase64Offset, MdWindAsh, MdContains, MdStartsWith,
     MdEndsWith, MdCased} \<Longrightarrow> m \<notin> set (encoded_chain encs op ci)"
  using encoding_modifier_other [of m "set encs"] by (cases op) (auto simp: encoded_chain_def)

lemma encoded_chain_parts: "filter (\<lambda>m. m \<in> set timestamp_parts) (encoded_chain encs op ci) = []"
  using encoded_chain_other [of _ encs op ci]
  by (auto simp: filter_empty_conv timestamp_parts_def)

lemma encoded_chain_checked:
  assumes "encodings_ok encs"
  shows "check_modifiers (encoded_chain encs op ci) = Inr ()"
proof -
  note mem = encoded_chain_mem encoded_chain_other
  have any: "\<not> has_any (encoded_chain encs op ci) numeric_comparisons"
    "\<not> has_any (encoded_chain encs op ci) timestamp_parts"
    by (simp_all add: has_any_def numeric_comparisons_def timestamp_parts_def mem)
  have numeric: "present_in (encoded_chain encs op ci) numeric_comparisons = []"
    by (simp add: present_in_def numeric_comparisons_def mem)
  have ops: "\<not> 1 < length (chain_operators (encoded_chain encs op ci))"
    unfolding chain_operators_def encoded_chain_parts numeric
    using any by (cases op) (simp_all add: present_in_def mem)
  have utf16: "\<not> 1 < length (present_in (encoded_chain encs op ci) utf16_encodings)"
    using encodings_exclusive [OF assms]
    by (cases "EncWide \<in> set encs"; cases "EncUtf16 \<in> set encs"; cases "EncUtf16Be \<in> set encs")
       (simp_all add: present_in_def mem utf16_encodings_def)
  have flags: "present_in (encoded_chain encs op ci) regex_flags = []"
    by (simp add: present_in_def regex_flags_def mem)
  show ?thesis
    by (rule check_modifiersI [OF ops utf16 _ _ _ _ _ any flags])
       (use encodings_exclusive(4) [OF assms] in \<open>simp_all add: mem\<close>)
qed

lemma ctx_encodings_chain:
  assumes "encodings_ok encs"
  shows "ctx_encodings (value_ctx (encoded_chain encs op ci)) = encs"
proof -
  have "ctx_encodings (value_ctx (encoded_chain encs op ci))
      = (if EncWide \<in> set encs then [EncWide] else [])
        @ (if EncUtf16Be \<in> set encs then [EncUtf16Be] else [])
        @ (if EncUtf16 \<in> set encs then [EncUtf16] else [])
        @ (if EncBase64 \<in> set encs then [EncBase64] else [])
        @ (if EncBase64Offset \<in> set encs then [EncBase64Offset] else [])
        @ (if EncWindash \<in> set encs then [EncWindash] else [])"
    by (simp add: ctx_encodings_def ctx_flags encoded_chain_mem)
  also have "\<dots> = encs"
    using assms unfolding encodings_ok_def by (elim exE conjE insertE emptyE) simp_all
  finally show ?thesis .
qed

lemma pattern_wildcards: "contains_wildcards (ir_pattern_to_sigma p) = ir_pattern_has_wildcards p"
proof -
  have "is_plain_part (string_part_of q) = is_ip_literal q" for q by (cases q) simp_all
  then show ?thesis
    by (simp add: contains_wildcards_def ir_pattern_to_sigma_def ir_pattern_has_wildcards_def
        ir_pattern_is_plain_def comp_def not_list_all)
qed

lemma ascii_pattern_text:
  "list_all ascii_literal ps \<Longrightarrow> is_ascii (concat (map part_text ps))"
proof (induction ps)
  case Nil
  then show ?case by (simp add: is_ascii_def)
next
  case (Cons p ps)
  then show ?case by (cases p) (auto simp: is_ascii_def is_ascii_char_def)
qed

lemma raised_encoded:
  assumes leaf: "leaf_ok opts (ImEncoded encs op p ci)"
  shows "raised_ok env opts (ImEncoded encs op p ci) (encoded_chain encs op ci)
    (SvString (ir_pattern_to_sigma p))"
proof -
  let ?ms = "encoded_chain encs op ci" and ?s = "ir_pattern_to_sigma p"
  note mem = encoded_chain_mem encoded_chain_other
  have ok: "encodings_ok encs" "encs \<noteq> []" "check_encodable encs p = Inr ()"
    "clean opts (concat (map part_text (ip_parts p)))" using leaf by simp_all
  have any: "\<not> has_any ?ms numeric_comparisons" "\<not> has_any ?ms timestamp_parts"
    by (simp_all add: has_any_def numeric_comparisons_def timestamp_parts_def mem)
  then have part: "mc_timestamp_part (mod_ctx_from ?ms) = None"
    by (simp add: mod_ctx_part_None)
  have "lower_value_plain env (value_ctx ?ms) (SvString ?s) = lower_string (value_ctx ?ms) ?s"
    using any(1) by (simp add: lower_value_plain_def ctx_flags part mem)
  moreover have "ctx_str_op (value_ctx ?ms) = op" and "mod_ctx_ci (value_ctx ?ms) = ci"
    by (cases op) (simp_all add: ctx_str_op_def mod_ctx_ci_def ctx_flags mem)
  ultimately have lower: "lower_value env (value_ctx ?ms) (SvString ?s) = Inr (ImEncoded encs op p ci)"
    using ok by (simp add: lower_value_def ctx_flags mem lower_string_def ctx_encodings_chain)
  have base64: "list_ex is_base64_encoding encs \<longleftrightarrow> MdBase64 \<in> set ?ms \<or> MdBase64Offset \<in> set ?ms"
    by (auto simp: list_ex_iff is_base64_encoding_def mem)
  have utf16: "list_ex is_utf16_encoding encs \<longleftrightarrow> has_any ?ms utf16_encodings"
    by (auto simp: list_ex_iff is_utf16_encoding_def has_any_def utf16_encodings_def mem)
  have "check_string_value env ?ms ?s = Inr ()"
    using ok(3) ascii_pattern_text [of "ip_parts p"]
    by (auto simp: check_string_value_def mem pattern_wildcards check_encodable_def base64 utf16
        Let_def not_list_ex list_all_iff split: if_splits)
  moreover have "find (\<lambda>m. m \<in> set ?ms) (numeric_comparisons @ timestamp_parts) = None"
    using any by (simp add: find_any_None has_any_def)
  ultimately have "check_item_value env ?ms (SvString ?s) = Inr ()"
    by (simp add: check_item_value_def split: option.split)
  with lower encoded_chain_checked [OF ok(1)] ok(4) show ?thesis
    by (auto simp: raised_ok_def mem clean_def reject_clean)
qed

lemma raised_leaf:
  assumes "leaf_ok opts m"
  shows "\<exists>ms v. raise_matcher m = Inr (ms, [v]) \<and> raised_ok env opts m ms v"
  using assms
proof (cases m)
  case (ImNumericEq n)
  with assms raised_number_value [of n _ "[]"] number_literal_value [of n] show ?thesis
    by (auto simp: raised_number_def numeric_matcher_def)
next
  case (ImNumericGt n)
  with assms raised_number_value [of n _ "[MdGt]"] number_literal_value [of n] show ?thesis
    by (auto simp: raised_number_def numeric_matcher_def)
next
  case (ImNumericGte n)
  with assms raised_number_value [of n _ "[MdGte]"] number_literal_value [of n] show ?thesis
    by (auto simp: raised_number_def numeric_matcher_def)
next
  case (ImNumericLt n)
  with assms raised_number_value [of n _ "[MdLt]"] number_literal_value [of n] show ?thesis
    by (auto simp: raised_number_def numeric_matcher_def)
next
  case (ImNumericLte n)
  with assms raised_number_value [of n _ "[MdLte]"] number_literal_value [of n] show ?thesis
    by (auto simp: raised_number_def numeric_matcher_def)
next
  case (ImTimestampPart part inner)
  with assms obtain n where n: "inner = ImNumericEq n" "is_number_literal n"
    by (cases inner) simp_all
  then obtain v where "number_value n = Inr v" using number_literal_value by blast
  with raised_time [OF this] ImTimestampPart n show ?thesis by (auto simp: raised_number_def)
next
  case (ImEncoded encs op p ci)
  with assms raised_encoded [of opts encs op p ci] show ?thesis by (auto simp: encoded_chain_def)
next
  case ImNull
  have "raised_ok env opts ImNull [] SvNull"
    by (simp add: raised_ok_def reject_placeholders_def chain_simps value_simps)
  with ImNull show ?thesis by simp
next
  case (ImBoolEq b)
  have "raised_ok env opts (ImBoolEq b) [] (SvBool b)"
    by (simp add: raised_ok_def reject_placeholders_def chain_simps value_simps)
  with ImBoolEq show ?thesis by simp
next
  case (ImStr op p ci)
  with assms raised_str [of opts op p ci] show ?thesis by auto
next
  case (ImRegex p i m d c)
  with assms raised_regex [of opts p i m d c] show ?thesis
    unfolding ImRegex raise_matcher.simps by blast
next
  case (ImCidr c)
  with assms raised_cidr [of opts c] show ?thesis by auto
next
  case (ImFieldRef f op ci)
  with assms raised_fieldref [of opts f op ci] show ?thesis
    unfolding ImFieldRef raise_matcher.simps by blast
next
  case (ImExpand t op ci)
  with assms raised_expand [of opts t op ci] show ?thesis
    unfolding ImExpand raise_matcher.simps by blast
qed simp_all

section \<open>Items\<close>

lemma raise_list_leaves:
  assumes "raise_list shared subs = Inr (s, vs)" and "list_all (leaf_ok opts) subs" and "subs \<noteq> []"
  shows "\<exists>ms. s = Some ms \<and> (shared = None \<or> shared = Some ms)
    \<and> list_all2 (\<lambda>m v. raised_ok env opts m ms v) subs vs"
  using assms
proof (induction subs arbitrary: shared vs)
  case Nil
  then show ?case by simp
next
  case (Cons m subs)
  obtain ms v where m: "raise_matcher m = Inr (ms, [v])" "raised_ok env opts m ms v"
    using raised_leaf [of opts m env] Cons.prems(2) by auto
  with Cons.prems(1) obtain ws where rest: "raise_list (Some ms) subs = Inr (s, ws)" "vs = v # ws"
    and shared: "shared = None \<or> shared = Some ms"
    by (auto simp: result_simps split: if_splits)
  show ?case
  proof (cases "subs = []")
    case True
    with rest shared m show ?thesis by auto
  next
    case False
    with Cons.IH [OF rest(1)] Cons.prems(2) rest shared m show ?thesis by auto
  qed
qed

lemma try_for_each_Inl: "try_for_each f xs = Inl e \<Longrightarrow> \<exists>x \<in> set xs. f x = Inl e"
  by (induction xs) (auto split: sum.splits)

lemma checked_values:
  assumes vs: "vs \<noteq> []" and vals: "list_all2 (\<lambda>m v. raised_ok env opts m ms v) leaves vs"
    and ls: "linking ls"
  shows "lower_checked env \<lparr> di_field = \<lparr> fs_name = f, fs_modifiers = ms @ ls \<rparr>, di_values = vs \<rparr> = Inr ()"
proof -
  let ?item = "\<lparr> di_field = \<lparr> fs_name = f, fs_modifiers = ms @ ls \<rparr>, di_values = vs \<rparr>"
  have ok: "\<exists>m. raised_ok env opts m ms v" if "v \<in> set vs" for v
    using vals that by (metis in_set_conv_nth list_all2_conv_all_nth)
  with vs obtain v m where "raised_ok env opts m ms v" by (meson last_in_set)
  then have chain: "check_modifiers (ms @ ls) = Inr ()" and "MdExists \<notin> set (ms @ ls)"
    using ls by (auto simp: raised_ok_def check_modifiers_linking linking_def list_all_iff)
  then have check: "check_detection_item env ?item
      = try_for_each (\<lambda>v. map_error (invalid_value ?item) (check_item_value env ms v)) vs"
    using vs by (simp add: check_detection_item_def check_item_value_linking [OF ls])
  show ?thesis
  proof (cases "check_detection_item env ?item")
    case (Inr u)
    then show ?thesis by (simp add: lower_checked_def)
  next
    case (Inl e)
    then obtain v where v: "v \<in> set vs" "map_error (invalid_value ?item) (check_item_value env ms v) = Inl e"
      using try_for_each_Inl check by metis
    then obtain msg where "e = PeInvalidValue msg"
      by (cases "check_item_value env ms v") (auto simp: invalid_value_def)
    moreover from v(2) have "check_item_value env ms v \<noteq> Inr ()" by auto
    with ok [OF v(1)] have "MdRe \<in> set ms" and "invalid_regex_value env v"
      by (auto simp: raised_ok_def)
    with v(1) have "MdRe \<in> set (ms @ ls)" and "list_ex (invalid_regex_value env) vs"
      by (auto simp: list_ex_iff)
    ultimately show ?thesis by (simp add: lower_checked_def Inl)
  qed
qed

lemma relower_item:
  assumes vs: "vs \<noteq> []" and vals: "list_all2 (\<lambda>m v. raised_ok env opts m ms v) leaves vs"
    and ls: "linking ls"
  shows "lower_detection_item env opts
      \<lparr> di_field = \<lparr> fs_name = f, fs_modifiers = ms @ ls \<rparr>, di_values = vs \<rparr>
    = Inr \<lparr> idi_field = f, idi_matcher = combine_values (mod_ctx_from (ms @ ls)) leaves,
            idi_exists = None \<rparr>"
proof -
  have ok: "\<exists>m. raised_ok env opts m ms v" if "v \<in> set vs" for v
    using vals that by (metis in_set_conv_nth list_all2_conv_all_nth)
  with vs obtain v m where "raised_ok env opts m ms v" by (meson last_in_set)
  then have "\<not> mc_exists (mod_ctx_from (ms @ ls))"
    using ls by (auto simp: raised_ok_def ctx_flags linking_def list_all_iff)
  moreover have "(if lo_permissive_placeholders opts then Inr () else try_for_each reject_placeholders vs)
      = Inr ()"
    using ok by (auto simp: try_for_each_Inr raised_ok_def)
  moreover have "collect_results (lower_value env ((mod_ctx_from (ms @ ls)) \<lparr> mc_neq := False \<rparr>)) vs
      = Inr leaves"
    using vals lower_value_linking [OF ls]
    by (simp add: collect_results_Inr value_ctx_def raised_ok_def list_all2_conv_all_nth)
  ultimately show ?thesis
    using vs checked_values [OF assms, of f]
    by (cases "lo_permissive_placeholders opts") (simp_all add: lower_detection_item_def Let_def)
qed

lemma chain_all_neq:
  assumes "raised_ok env opts m ms v"
  shows "mc_all (mod_ctx_from (ms @ ls)) = mc_all (mod_ctx_from ls)"
    "mc_neq (mod_ctx_from (ms @ ls)) = mc_neq (mod_ctx_from ls)"
  using assms by (simp_all add: ctx_flags raised_ok_def)

lemma leaf_not_ImNot: "leaf_ok opts m \<Longrightarrow> m \<noteq> ImNot x" by (cases m) auto

text \<open>Raising what an item's values were combined to.\<close>

lemma raise_combined:
  assumes leaves: "list_all (leaf_ok opts) leaves" "leaves \<noteq> []"
    and raised: "raise_matcher (combine_values ctx leaves) = Inr (ms, vs)"
  obtains base ls where "ms = base @ ls" "linking ls" "vs \<noteq> []"
    "list_all2 (\<lambda>m v. raised_ok env opts m base v) leaves vs"
    "combine_values (mod_ctx_from (base @ ls)) leaves = combine_values ctx leaves"
proof -
  define inner where "inner = combine_values (ctx \<lparr> mc_neq := False \<rparr>) leaves"
  have inner: "combine_values ctx leaves = (if mc_neq ctx then ImNot inner else inner)"
    by (simp add: inner_def combine_values_def Let_def)
  have not: "inner \<noteq> ImNot x" for x
    using leaves leaf_not_ImNot [of opts "hd leaves"]
    by (cases leaves; cases "tl leaves") (auto simp: inner_def combine_values_def Let_def)
  obtain ms' where ms': "raise_matcher inner = Inr (ms', vs)"
    and ms: "ms = ms' @ (if mc_neq ctx then [MdNeq] else [])"
    using raised not by (auto simp: inner result_simps split: if_splits ir_matcher.splits)
  have "\<exists>base ls. ms' = base @ ls \<and> linking ls \<and> MdNeq \<notin> set ls \<and> vs \<noteq> []
      \<and> list_all2 (\<lambda>m v. raised_ok env opts m base v) leaves vs
      \<and> (1 < length leaves \<longrightarrow> (MdAll \<in> set ls \<longleftrightarrow> mc_all ctx))"
  proof (cases "length leaves = 1")
    case True
    then obtain m where m: "leaves = [m]" by (auto simp: length_Suc_conv)
    then have "inner = m" by (simp add: inner_def combine_values_def Let_def)
    with raised_leaf [of opts m env] leaves(1) m ms' show ?thesis
      by (intro exI [of _ ms'] exI [of _ "[]"]) (auto simp: linking_def)
  next
    case False
    with leaves(2) obtain a b cs where "leaves = a # b # cs" by (metis length_0_conv length_Suc_conv
        One_nat_def list.exhaust)
    then have i: "inner = (if mc_all ctx then ImAllOf leaves else ImAnyOf leaves)"
      by (simp add: inner_def combine_values_def Let_def)
    with ms' obtain s where s: "raise_list None leaves = Inr (s, vs)"
      and base: "ms' = (case s of Some ms \<Rightarrow> ms | None \<Rightarrow> []) @ (if mc_all ctx then [MdAll] else [])"
      by (auto simp: result_simps split: if_splits)
    from raise_list_leaves [OF s leaves, of env] obtain bs where bs: "s = Some bs"
      "list_all2 (\<lambda>m v. raised_ok env opts m bs v) leaves vs" by auto
    with base leaves(2) show ?thesis
      by (intro exI [of _ bs] exI [of _ "if mc_all ctx then [MdAll] else []"])
         (auto simp: linking_def)
  qed
  then obtain base ls where base: "ms' = base @ ls" "linking ls" "MdNeq \<notin> set ls" "vs \<noteq> []"
    "list_all2 (\<lambda>m v. raised_ok env opts m base v) leaves vs"
    "1 < length leaves \<longrightarrow> (MdAll \<in> set ls \<longleftrightarrow> mc_all ctx)" by blast
  define ls' where "ls' = ls @ (if mc_neq ctx then [MdNeq] else [])"
  have "linking ls'" using base(2) by (simp add: ls'_def linking_def)
  obtain m v where "raised_ok env opts m base v"
    using base(4,5) by (cases leaves; cases vs) auto
  note flags = chain_all_neq [OF this, of ls']
  have "mc_neq (mod_ctx_from (base @ ls')) = mc_neq ctx"
    unfolding flags using base(3) by (simp add: ctx_flags ls'_def)
  moreover have "1 < length leaves \<Longrightarrow> mc_all (mod_ctx_from (base @ ls')) = mc_all ctx"
    unfolding flags using base(6) by (auto simp: ctx_flags ls'_def)
  ultimately have "combine_values (mod_ctx_from (base @ ls')) leaves = combine_values ctx leaves"
    using leaves(2) by (cases leaves; cases "tl leaves") (simp_all add: combine_values_def Let_def)
  with \<open>linking ls'\<close> base show ?thesis
    by (intro that [of base ls']) (simp_all add: ms ls'_def)
qed

text \<open>The items the parser makes: checked, with parsed strings.\<close>

definition item_parsed :: "ext_env \<Rightarrow> detection_item \<Rightarrow> bool" where
  "item_parsed env item =
     (check_detection_item env item = Inr ()
      \<and> list_all (\<lambda>v. case v of SvString s \<Rightarrow> string_parsed s | _ \<Rightarrow> True) (di_values item))"

lemma parsed_item_values:
  assumes "item_parsed env item" and "MdExists \<notin> set (fs_modifiers (di_field item))"
  shows "check_modifiers (fs_modifiers (di_field item)) = Inr ()"
    and "v \<in> set (di_values item) \<Longrightarrow> check_item_value env (fs_modifiers (di_field item)) v = Inr ()"
proof -
  from assms have check: "check_detection_item env item = Inr ()" by (simp add: item_parsed_def)
  then show "check_modifiers (fs_modifiers (di_field item)) = Inr ()"
    by (auto simp: check_detection_item_def Let_def split: sum.splits)
  have "\<forall>v \<in> set (di_values item).
      map_error (invalid_value item) (check_item_value env (fs_modifiers (di_field item)) v) = Inr ()"
    using check assms(2)
    by (auto simp: check_detection_item_def Let_def try_for_each_Inr split: sum.splits if_splits)
  then show "v \<in> set (di_values item) \<Longrightarrow>
      check_item_value env (fs_modifiers (di_field item)) v = Inr ()"
    by (simp add: map_error_Inr)
qed

lemma lowered_leaves:
  assumes parsed: "item_parsed env item" and "MdExists \<notin> set (fs_modifiers (di_field item))"
    and reject: "lo_permissive_placeholders opts \<or> try_for_each reject_placeholders (di_values item) = Inr ()"
    and ms: "collect_results (lower_value env (value_ctx (fs_modifiers (di_field item)))) (di_values item) = Inr ms"
  shows "list_all (leaf_ok opts) ms"
proof -
  have "leaf_ok opts m" if v: "v \<in> set (di_values item)"
    and m: "lower_value env (value_ctx (fs_modifiers (di_field item))) v = Inr m" for v m
  proof (rule lower_value_leaf [OF parsed_item_values [OF assms(1,2)] _ m])
    show "v \<in> set (di_values item)" by (rule v)
    show "value_parsed opts v"
    proof (cases v)
      case (SvString s)
      with v parsed have "string_parsed s"
        by (auto simp: item_parsed_def list_all_iff)
      moreover have "lo_permissive_placeholders opts \<or> reject_placeholders v = Inr ()"
        using reject v by (auto simp: try_for_each_Inr)
      then have "clean opts (original s)" by (auto simp: SvString reject_clean clean_def)
      ultimately show ?thesis by (simp add: SvString value_parsed_def)
    qed (simp_all add: value_parsed_def)
  qed
  note leaf = this
  from ms have len: "length ms = length (di_values item)"
    and low: "\<And>i. i < length ms \<Longrightarrow>
      lower_value env (value_ctx (fs_modifiers (di_field item))) (di_values item ! i) = Inr (ms ! i)"
    by (auto simp: collect_results_Inr list_all2_conv_all_nth)
  show ?thesis
    unfolding list_all_length by (intro allI impI leaf [OF _ low]) (simp add: len)
qed

section \<open>Items, keywords and conditions\<close>

lemma lower_item_cases:
  assumes "lower_detection_item env opts item = Inr ir"
  obtains
    (exists_flag) b where "MdExists \<in> set (fs_modifiers (di_field item))"
      "ir = \<lparr> idi_field = fs_name (di_field item), idi_matcher = ImExists b, idi_exists = Some b \<rparr>"
      "fs_name (di_field item) \<noteq> None"
  | (nothing) "di_values item = []" "fs_name (di_field item) \<noteq> None"
      "ir = \<lparr> idi_field = fs_name (di_field item), idi_matcher =
              (if MdNeq \<in> set (fs_modifiers (di_field item)) then ImNot ImNull else ImNull),
              idi_exists = None \<rparr>"
  | (leaves) ms where "MdExists \<notin> set (fs_modifiers (di_field item))" "ms \<noteq> []"
      "lo_permissive_placeholders opts \<or> try_for_each reject_placeholders (di_values item) = Inr ()"
      "collect_results (lower_value env (value_ctx (fs_modifiers (di_field item)))) (di_values item) = Inr ms"
      "ir = \<lparr> idi_field = fs_name (di_field item),
              idi_matcher = combine_values (mod_ctx_from (fs_modifiers (di_field item))) ms,
              idi_exists = None \<rparr>"
proof -
  let ?ctx = "mod_ctx_from (fs_modifiers (di_field item))"
  have reject: "lo_permissive_placeholders opts \<or> try_for_each reject_placeholders (di_values item) = Inr ()"
    using assms by (auto simp: lower_detection_item_def Let_def split: sum.splits if_splits)
  have rest: "(if mc_exists ?ctx then lower_exists_item item
      else if di_values item = [] then
        (if fs_name (di_field item) = None then
           Inl (IeIncompatibleValue ''an empty value list must be bound to a field'')
         else Inr \<lparr> idi_field = fs_name (di_field item),
                    idi_matcher = (if mc_neq ?ctx then ImNot ImNull else ImNull),
                    idi_exists = None \<rparr>)
      else result_map (\<lambda>ms. \<lparr> idi_field = fs_name (di_field item),
             idi_matcher = combine_values ?ctx ms, idi_exists = None \<rparr>)
           (collect_results (lower_value env (?ctx \<lparr> mc_neq := False \<rparr>)) (di_values item))) = Inr ir"
    using assms unfolding lower_detection_item_def Let_def by (auto split: sum.splits if_splits)
  consider "mc_exists ?ctx" | "\<not> mc_exists ?ctx" "di_values item = []"
    | "\<not> mc_exists ?ctx" "di_values item \<noteq> []" by blast
  then show ?thesis
  proof cases
    case 1
    with rest have "lower_exists_item item = Inr ir" by simp
    then obtain b where "ir = \<lparr> idi_field = fs_name (di_field item), idi_matcher = ImExists b,
        idi_exists = Some b \<rparr>" "fs_name (di_field item) \<noteq> None"
      by (auto simp: lower_exists_item_def split: if_splits option.splits)
    with 1 show ?thesis by (intro exists_flag) (simp_all add: ctx_flags)
  next
    case 2
    from 2 rest have "fs_name (di_field item) \<noteq> None" by (auto split: if_splits)
    moreover with 2 rest have "ir = \<lparr> idi_field = fs_name (di_field item),
        idi_matcher = (if mc_neq ?ctx then ImNot ImNull else ImNull), idi_exists = None \<rparr>" by auto
    ultimately show ?thesis using 2 by (intro that(2)) (simp_all add: ctx_flags)
  next
    case 3
    with rest obtain ms where ms: "collect_results (lower_value env (value_ctx (fs_modifiers (di_field item))))
        (di_values item) = Inr ms"
      and "ir = \<lparr> idi_field = fs_name (di_field item), idi_matcher = combine_values ?ctx ms,
                  idi_exists = None \<rparr>"
      by (auto simp: result_map_Inr value_ctx_def)
    moreover have "ms \<noteq> []"
      using ms 3(2) by (auto simp: collect_results_Inr list_all2_Nil2)
    ultimately show ?thesis using 3 reject by (intro leaves) (simp_all add: ctx_flags)
  qed
qed

lemma null_raised: "raised_ok env opts ImNull [] SvNull"
  by (simp add: raised_ok_def reject_placeholders_def chain_simps value_simps)

lemma relower_null:
  "linking ls \<Longrightarrow> lower_detection_item env opts
      \<lparr> di_field = \<lparr> fs_name = f, fs_modifiers = ls \<rparr>, di_values = [SvNull] \<rparr>
    = Inr \<lparr> idi_field = f, idi_matcher = combine_values (mod_ctx_from ls) [ImNull],
            idi_exists = None \<rparr>"
  using relower_item [of "[SvNull]" env opts "[]" "[ImNull]" ls f] null_raised by simp

lemma relower_exists:
  "lower_detection_item env opts
      \<lparr> di_field = \<lparr> fs_name = Some f, fs_modifiers = [MdExists] \<rparr>, di_values = [SvBool b] \<rparr>
    = Inr \<lparr> idi_field = Some f, idi_matcher = ImExists b, idi_exists = Some b \<rparr>"
  by (simp add: lower_detection_item_def lower_checked_def check_detection_item_def chain_simps
      ctx_flags reject_placeholders_def lower_exists_item_def)

lemma item_round_trip:
  assumes parsed: "item_parsed env item" and ir: "lower_detection_item env opts item = Inr ir"
    and raised: "raise_detection_item ir = Inr item'"
  shows "lower_detection_item env opts item' = Inr ir"
  using ir
proof (cases rule: lower_item_cases)
  case (exists_flag b)
  then show ?thesis
    using raised relower_exists by (auto simp: raise_detection_item_def)
next
  case nothing
  then show ?thesis
    using raised relower_null [of "[]" env opts] relower_null [of "[MdNeq]" env opts]
    by (auto simp: raise_detection_item_def linking_def combine_values_def ctx_flags split: if_splits)
next
  case (leaves ms)
  have "list_all (leaf_ok opts) ms" by (rule lowered_leaves [OF parsed leaves(1,3,4)])
  moreover obtain chain vs where r: "raise_matcher
      (combine_values (mod_ctx_from (fs_modifiers (di_field item))) ms) = Inr (chain, vs)"
    and item': "item' = \<lparr> di_field = \<lparr> fs_name = fs_name (di_field item), fs_modifiers = chain \<rparr>,
                          di_values = vs \<rparr>"
    using raised leaves by (auto simp: raise_detection_item_def result_map_Inr)
  ultimately obtain base ls where "chain = base @ ls" "linking ls" "vs \<noteq> []"
    "list_all2 (\<lambda>m v. raised_ok env opts m base v) ms vs"
    "combine_values (mod_ctx_from (base @ ls)) ms
     = combine_values (mod_ctx_from (fs_modifiers (di_field item))) ms"
    using raise_combined [OF _ leaves(2) r] by blast
  then show ?thesis using relower_item leaves by (simp add: item')
qed

lemma keyword_round_trip:
  "lower_value_keywords v = Inr m \<Longrightarrow> keyword_value m = Inr v' \<Longrightarrow> lower_value_keywords v' = Inr m"
  by (cases v) auto

lemma collect_round_trip:
  assumes "collect_results f xs = Inr ys" and "collect_results g ys = Inr zs"
    and "\<And>x y z. x \<in> set xs \<Longrightarrow> f x = Inr y \<Longrightarrow> g y = Inr z \<Longrightarrow> f' z = Inr y"
  shows "collect_results f' zs = Inr ys"
  using assms unfolding collect_results_Inr list_all2_conv_all_nth by (metis nth_mem)

lemma lowered_keyword: "lower_value_keywords v = Inr m \<Longrightarrow> m \<noteq> ImAnyOf ms"
  by (cases v) auto

lemma keywords_round_trip:
  assumes low: "lower_keywords vs = Inr (IdKeywords m)" and raised: "raise_keywords m = Inr vs'"
  shows "lower_keywords vs' = Inr (IdKeywords m)"
proof -
  from low obtain ms where ms: "collect_results lower_value_keywords vs = Inr ms"
    and m: "ms = [m] \<or> m = ImAnyOf ms \<and> 1 < length ms"
    unfolding lower_keywords_def
    by (cases "collect_results lower_value_keywords vs") (auto split: list.splits)
  have "collect_results keyword_value ms = Inr vs'"
  proof (cases "ms = [m]")
    case True
    with ms have "m \<noteq> ImAnyOf xs" for xs
      using lowered_keyword by (auto simp: collect_results_Inr list_all2_Cons2)
    with raised True show ?thesis
      by (cases m) (auto simp: raise_keywords_def result_map_Inr)
  next
    case False
    with m raised show ?thesis by (simp add: raise_keywords_def)
  qed
  then have "collect_results lower_value_keywords vs' = Inr ms"
    by (rule collect_round_trip [OF ms]) (rule keyword_round_trip)
  with m show ?thesis by (auto simp: lower_keywords_def split: list.splits)
qed

lemma condition_round_trip:
  "lower_condition names e = Inr c \<Longrightarrow> raise_condition c = e"
proof (induction names e arbitrary: c rule: lower_condition.induct)
  case (2 names exprs)
  from "2.prems" obtain cs where cs: "collect_results (lower_condition names) exprs = Inr cs" "c = IcAnd cs"
    by (auto simp: result_simps)
  then have "map raise_condition cs = exprs"
    using "2.IH" by (auto simp: collect_results_Inr list_all2_conv_all_nth intro!: nth_equalityI)
  with cs show ?case by simp
next
  case (3 names exprs)
  from "3.prems" obtain cs where cs: "collect_results (lower_condition names) exprs = Inr cs" "c = IcOr cs"
    by (auto simp: result_simps)
  then have "map raise_condition cs = exprs"
    using "3.IH" by (auto simp: collect_results_Inr list_all2_conv_all_nth intro!: nth_equalityI)
  with cs show ?case by simp
qed (auto simp: result_simps split: if_splits)

section \<open>Detections and rules\<close>

fun detection_parsed :: "ext_env \<Rightarrow> detection \<Rightarrow> bool" where
  "detection_parsed env (DAllOf items) = list_all (item_parsed env) items"
| "detection_parsed env (DAnyOf dets) = list_all (detection_parsed env) dets"
| "detection_parsed env (DArrayMatch _ _ body) = detection_parsed env body"
| "detection_parsed env (DAnd dets) = list_all (detection_parsed env) dets"
| "detection_parsed env (DConditional named _) = list_all (\<lambda>e. detection_parsed env (snd e)) named"
| "detection_parsed env (DKeywords _) = True"


lemma values_round_trip:
  assumes low: "collect_values f m = Inr n" and raised: "collect_values g n = Inr m'"
    and step: "\<And>e y z. e \<in> set m \<Longrightarrow> f (snd e) = Inr y \<Longrightarrow> g y = Inr z \<Longrightarrow> f' z = Inr y"
  shows "collect_values f' m' = Inr n"
  using assms unfolding collect_values_Inr list_all2_conv_all_nth by (metis nth_mem)

lemma detection_round_trip:
  "detection_parsed env d \<Longrightarrow> lower_detection env opts d = Inr i \<Longrightarrow> raise_detection i = Inr d' \<Longrightarrow>
   lower_detection env opts d' = Inr i"
proof (induction env opts d arbitrary: i d' rule: lower_detection.induct)
  case (1 env opts items)
  then obtain irs where low: "collect_results (lower_detection_item env opts) items = Inr irs"
    "items \<noteq> []" "i = IdAllOf irs" by (auto simp: result_map_Inr split: if_splits)
  with 1 obtain items' where raised: "collect_results raise_detection_item irs = Inr items'"
    "d' = DAllOf items'" by (auto simp: result_map_Inr)
  have "collect_results (lower_detection_item env opts) items' = Inr irs"
  proof (rule collect_round_trip [OF low(1) raised(1)])
    fix x y z
    assume "x \<in> set items" and low: "lower_detection_item env opts x = Inr y"
      and raised: "raise_detection_item y = Inr z"
    with "1.prems"(1) have "item_parsed env x" by (simp add: list_all_iff)
    from item_round_trip [OF this low raised] show "lower_detection_item env opts z = Inr y" .
  qed
  moreover have "items' \<noteq> []" using low raised by (auto simp: collect_results_Inr)
  ultimately show ?case using low raised by simp
next
  case (2 env opts dets)
  then obtain irs where low: "collect_results (lower_detection env opts) dets = Inr irs"
    "dets \<noteq> []" "i = IdAnyOf irs" by (auto simp: result_map_Inr split: if_splits)
  with 2 obtain dets' where raised: "collect_results raise_detection irs = Inr dets'"
    "d' = DAnyOf dets'" by (auto simp: result_map_Inr)
  have "collect_results (lower_detection env opts) dets' = Inr irs"
  proof (rule collect_round_trip [OF low(1) raised(1)])
    fix x y z
    assume x: "x \<in> set dets" and steps: "lower_detection env opts x = Inr y" "raise_detection y = Inr z"
    with "2.prems"(1) have "detection_parsed env x" by (simp add: list_all_iff)
    from "2.IH" [OF low(2) x this steps] show "lower_detection env opts z = Inr y" .
  qed
  moreover have "dets' \<noteq> []" using low raised by (auto simp: collect_results_Inr)
  ultimately show ?case using low raised by simp
next
  case (3 env opts field q body)
  from "3.prems"(2) obtain b where b: "lower_detection env opts body = Inr b" "i = IdArrayMatch field q b"
    by (auto simp: result_map_Inr)
  with "3.prems"(3) obtain body' where r: "raise_detection b = Inr body'" "d' = DArrayMatch field q body'"
    by (auto simp: result_map_Inr)
  from "3.prems"(1) have "detection_parsed env body" by simp
  from "3.IH" [OF this b(1) r(1)] b r show ?case by simp
next
  case (4 env opts dets)
  then obtain irs where low: "collect_results (lower_detection env opts) dets = Inr irs"
    "dets \<noteq> []" "i = IdAnd irs" by (auto simp: result_map_Inr split: if_splits)
  with 4 obtain dets' where raised: "collect_results raise_detection irs = Inr dets'"
    "d' = DAnd dets'" by (auto simp: result_map_Inr)
  have "collect_results (lower_detection env opts) dets' = Inr irs"
  proof (rule collect_round_trip [OF low(1) raised(1)])
    fix x y z
    assume x: "x \<in> set dets" and steps: "lower_detection env opts x = Inr y" "raise_detection y = Inr z"
    with "4.prems"(1) have "detection_parsed env x" by (simp add: list_all_iff)
    from "4.IH" [OF low(2) x this steps] show "lower_detection env opts z = Inr y" .
  qed
  moreover have "dets' \<noteq> []" using low raised by (auto simp: collect_results_Inr)
  ultimately show ?case using low raised by simp
next
  case (5 env opts named condition)
  then obtain n c where low: "collect_values (lower_detection env opts) named = Inr n"
    "named \<noteq> []" "i = IdConditional n c" and c: "lower_condition (map fst n) condition = Inr c"
    by (auto simp: result_simps split: if_splits)
  with 5 obtain named' where raised: "collect_values raise_detection n = Inr named'"
    "d' = DConditional named' (raise_condition c)" by (auto simp: result_map_Inr)
  have "collect_values (lower_detection env opts) named' = Inr n"
  proof (rule values_round_trip [OF low(1) raised(1)])
    fix e y z
    assume e: "e \<in> set named"
      and steps: "lower_detection env opts (snd e) = Inr y" "raise_detection y = Inr z"
    with "5.prems"(1) have "detection_parsed env (snd e)" by (simp add: list_all_iff)
    from "5.IH" [OF low(2) e this steps] show "lower_detection env opts z = Inr y" .
  qed
  moreover have "named' \<noteq> []" using low raised by (auto simp: collect_values_Inr)
  ultimately show ?case using low raised c condition_round_trip [OF c] by simp
next
  case (6 env opts vs)
  then obtain m where "i = IdKeywords m"
    by (cases "collect_results lower_value_keywords vs")
       (auto simp: lower_keywords_def split: list.splits)
  moreover with "6.prems"(3) obtain vs' where "raise_keywords m = Inr vs'" "d' = DKeywords vs'"
    by (auto simp: result_map_Inr)
  ultimately show ?case using keywords_round_trip [of vs m vs'] "6.prems"(2) by simp
qed

section \<open>Raising succeeds\<close>

text \<open>Without \<open>expand\<close> the leaves of an item share the modifiers their context determines.\<close>

definition numeric_modifier :: "mod_ctx \<Rightarrow> modifier" where
  "numeric_modifier ctx =
     (if mc_gt ctx then MdGt else if mc_gte ctx then MdGte else if mc_lt ctx then MdLt else MdLte)"

definition leaf_modifiers :: "mod_ctx \<Rightarrow> modifier list" where
  "leaf_modifiers ctx =
     (case mc_timestamp_part ctx of
        Some p \<Rightarrow> [time_modifier p]
      | None \<Rightarrow>
          if mc_fieldref ctx then
            [MdFieldRef] @ op_modifiers (ctx_str_op ctx) @ cased_modifier (mod_ctx_ci ctx)
          else if mc_re ctx then
            [MdRe] @ (if mc_ignore_case ctx then [MdIgnoreCase] else [])
              @ (if mc_multiline ctx then [MdMultiline] else [])
              @ (if mc_dotall ctx then [MdDotAll] else []) @ (if mc_cased ctx then [MdCased] else [])
          else if mc_cidr ctx then [MdCidr]
          else if mod_ctx_numeric ctx then [numeric_modifier ctx]
          else map encoding_modifier (ctx_encodings ctx) @ op_modifiers (ctx_str_op ctx)
            @ cased_modifier (mod_ctx_ci ctx))"

lemma raise_number_literal: "\<exists>w. raised_number ms (NumLiteral n) = Inr (ms, [w])"
  by (cases n) (simp_all add: raised_number_def)

lemma lowered_number:
  assumes "lower_numeric_comparison env ctx v = Inr m"
  shows "\<exists>w. raise_matcher m = Inr ([numeric_modifier ctx], [w])"
proof -
  obtain n where "m = (if mc_gt ctx then ImNumericGt (NumLiteral n)
      else if mc_gte ctx then ImNumericGte (NumLiteral n)
      else if mc_lt ctx then ImNumericLt (NumLiteral n) else ImNumericLte (NumLiteral n))"
    using assms by (auto simp: lower_numeric_comparison_def result_map_Inr)
  then show ?thesis
    using raise_number_literal by (simp add: numeric_modifier_def)
qed

lemma lowered_time:
  assumes "lower_timestamp env p v = Inr m"
  shows "\<exists>w. raise_matcher m = Inr ([time_modifier p], [w])"
proof -
  obtain n where "m = ImTimestampPart p (ImNumericEq (NumLiteral n))"
    using assms by (auto simp: lower_timestamp_def result_map_Inr)
  then show ?thesis using raise_number_literal [of "[]" n] by auto
qed

lemma lowered_string:
  "lower_string ctx s = Inr m \<Longrightarrow> \<exists>w. raise_matcher m = Inr
     (map encoding_modifier (ctx_encodings ctx) @ op_modifiers (ctx_str_op ctx)
        @ cased_modifier (mod_ctx_ci ctx), [w])"
  by (auto simp: lower_string_def lower_str_def Let_def split: if_splits sum.splits)

lemma lowered_raises:
  assumes check: "check_item_value env ms v = Inr ()" and expand: "MdExpand \<notin> set ms"
    and m: "lower_value env (value_ctx ms) v = Inr m"
  shows "\<exists>w. raise_matcher m = Inr (leaf_modifiers (value_ctx ms), [w])"
proof -
  define ctx where "ctx = value_ctx ms"
  have "\<not> mc_expand ctx" using expand by (simp add: ctx_def ctx_flags)
  with m have m: "lower_value_plain env ctx v = Inr m"
    by (auto simp: lower_value_def ctx_def split: sigma_value.splits)
  show ?thesis unfolding ctx_def [symmetric]
  proof (cases "mc_timestamp_part ctx")
    case (Some p)
    with m lowered_time show "\<exists>w. raise_matcher m = Inr (leaf_modifiers ctx, [w])"
      by (simp add: lower_value_plain_def leaf_modifiers_def)
  next
    case None
    consider "mc_fieldref ctx" | "\<not> mc_fieldref ctx" "mc_re ctx"
      | "\<not> mc_fieldref ctx" "\<not> mc_re ctx" "mc_cidr ctx"
      | "\<not> mc_fieldref ctx" "\<not> mc_re ctx" "\<not> mc_cidr ctx" "mod_ctx_numeric ctx"
      | "\<not> mc_fieldref ctx" "\<not> mc_re ctx" "\<not> mc_cidr ctx" "\<not> mod_ctx_numeric ctx" by blast
    then show "\<exists>w. raise_matcher m = Inr (leaf_modifiers ctx, [w])"
    proof cases
      case 1
      with None m show ?thesis
        by (auto simp: lower_value_plain_def leaf_modifiers_def result_map_Inr)
    next
      case 2
      with None m show ?thesis
        by (auto simp: lower_value_plain_def leaf_modifiers_def result_map_Inr)
    next
      case 3
      with None m obtain c where "(case check_cidr c of Inl e \<Rightarrow> Inl (IeIncompatibleValue e)
          | Inr _ \<Rightarrow> Inr (ImCidr c)) = Inr m"
        by (auto simp: lower_value_plain_def result_bind_Inr)
      with None 3 show ?thesis by (cases "check_cidr c") (auto simp: leaf_modifiers_def)
    next
      case 4
      with None m lowered_number show ?thesis
        by (simp add: lower_value_plain_def leaf_modifiers_def)
    next
      case 5
      show ?thesis
      proof (cases "has_any ms string_only_modifiers")
        case True
        with check 5 None obtain s where "v = SvString s"
          by (auto simp: ctx_def ctx_flags mod_ctx_part_None elim: string_only_value)
        with 5 None m lowered_string show ?thesis
          by (simp add: lower_value_plain_def leaf_modifiers_def)
      next
        case False
        then have "leaf_modifiers ctx = []" "\<not> substring_ctx ctx" "lower_string ctx s = Inr (lower_str
            (pattern_from_sigma s) ctx)" "op_modifiers (ctx_str_op ctx) @ cased_modifier (mod_ctx_ci ctx) = []" for s
          using 5 None
          by (simp_all add: leaf_modifiers_def has_any_def string_only_modifiers_def ctx_def ctx_flags
              ctx_encodings_def ctx_str_op_def mod_ctx_ci_def substring_ctx_def lower_string_def)
        with 5 None m raise_number_literal [of "[]"] show ?thesis
          by (cases v) (auto simp: lower_value_plain_def lower_str_def)
      qed
    qed
  qed
qed

lemma raise_list_same:
  assumes "list_all (\<lambda>m. \<exists>w. raise_matcher m = Inr (ms, [w])) subs" and "shared = None \<or> shared = Some ms"
  shows "\<exists>s vs. raise_list shared subs = Inr (s, vs)"
  using assms
proof (induction subs arbitrary: shared)
  case Nil
  then show ?case by simp
next
  case (Cons m subs)
  then obtain w where "raise_matcher m = Inr (ms, [w])" by auto
  moreover obtain s vs where "raise_list (Some ms) subs = Inr (s, vs)"
    using Cons.IH [of "Some ms"] Cons.prems(1) by auto
  ultimately show ?case using Cons.prems(2) by auto
qed

lemma raise_combined_succeeds:
  assumes "list_all (\<lambda>m. \<exists>w. raise_matcher m = Inr (ms, [w])) leaves" and "leaves \<noteq> []"
    and leaf: "list_all (leaf_ok opts) leaves"
  shows "\<exists>r. raise_matcher (combine_values ctx leaves) = Inr r"
proof -
  define inner where "inner = combine_values (ctx \<lparr> mc_neq := False \<rparr>) leaves"
  have "combine_values ctx leaves = (if mc_neq ctx then ImNot inner else inner)"
    by (simp add: inner_def combine_values_def Let_def)
  moreover have "inner \<noteq> ImNot x" for x
    using leaf leaf_not_ImNot [of opts "hd leaves"] assms(2)
    by (cases leaves; cases "tl leaves") (auto simp: inner_def combine_values_def Let_def)
  moreover have "\<exists>r. raise_matcher inner = Inr r"
    using assms(1,2) raise_list_same [OF assms(1), of None]
    by (cases leaves; cases "tl leaves") (auto simp: inner_def combine_values_def Let_def)
  ultimately show ?thesis by (cases inner) auto
qed

text \<open>An item that raising can spell: \<open>expand\<close> templates may differ in kind from plain values.\<close>

definition item_raisable :: "detection_item \<Rightarrow> bool" where
  "item_raisable item \<longleftrightarrow>
     MdExpand \<notin> set (fs_modifiers (di_field item)) \<or> length (di_values item) \<le> 1"

lemma raise_item_succeeds:
  assumes parsed: "item_parsed env item" and ok: "item_raisable item"
    and ir: "lower_detection_item env opts item = Inr ir"
  shows "\<exists>item'. raise_detection_item ir = Inr item'"
  using ir
proof (cases rule: lower_item_cases)
  case (leaves ms)
  have leaf: "list_all (leaf_ok opts) ms" by (rule lowered_leaves [OF parsed leaves(1,3,4)])
  have "\<exists>chain. list_all (\<lambda>m. \<exists>w. raise_matcher m = Inr (chain, [w])) ms"
  proof (cases "MdExpand \<in> set (fs_modifiers (di_field item))")
    case True
    with ok leaves(2,4) obtain m where "ms = [m]"
      by (cases ms; cases "tl ms")
         (auto simp: item_raisable_def collect_results_Inr dest: list_all2_lengthD)
    with leaf raised_leaf [of opts m env] show ?thesis by auto
  next
    case False
    then have "list_all (\<lambda>m. \<exists>w. raise_matcher m =
        Inr (leaf_modifiers (value_ctx (fs_modifiers (di_field item))), [w])) ms"
      using leaves(4) lowered_raises [OF parsed_item_values(2) [OF parsed leaves(1)]]
      unfolding collect_results_Inr list_all2_conv_all_nth list_all_length by (metis nth_mem)
    then show ?thesis by blast
  qed
  from raise_combined_succeeds [OF _ leaves(2) leaf] this leaves(5) show ?thesis
    by (auto simp: raise_detection_item_def result_map_Inr)
qed (auto simp: raise_detection_item_def)

fun detection_raisable :: "detection \<Rightarrow> bool" where
  "detection_raisable (DAllOf items) = list_all item_raisable items"
| "detection_raisable (DAnyOf dets) = list_all detection_raisable dets"
| "detection_raisable (DArrayMatch _ _ body) = detection_raisable body"
| "detection_raisable (DAnd dets) = list_all detection_raisable dets"
| "detection_raisable (DConditional named _) = list_all (\<lambda>e. detection_raisable (snd e)) named"
| "detection_raisable (DKeywords _) = True"

lemma collect_succeeds:
  assumes "collect_results f xs = Inr ys" and "\<And>x y. x \<in> set xs \<Longrightarrow> f x = Inr y \<Longrightarrow> \<exists>z. g y = Inr z"
  shows "\<exists>zs. collect_results g ys = Inr zs"
  using assms
proof (induction xs arbitrary: ys)
  case Nil
  then show ?case by (auto simp: collect_results_Inr)
next
  case (Cons x xs)
  from Cons.prems(1) obtain y ys' where ys: "ys = y # ys'" "f x = Inr y" "collect_results f xs = Inr ys'"
    unfolding collect_results_Inr by (auto simp: list_all2_Cons1)
  from Cons.prems(2) ys(2) obtain z where "g y = Inr z" by auto
  moreover from Cons.IH [OF ys(3)] Cons.prems(2) obtain zs where "collect_results g ys' = Inr zs" by auto
  ultimately show ?case using ys by simp
qed

lemma values_succeed:
  assumes "collect_values f m = Inr n" and "\<And>e y. e \<in> set m \<Longrightarrow> f (snd e) = Inr y \<Longrightarrow> \<exists>z. g y = Inr z"
  shows "\<exists>m'. collect_values g n = Inr m'"
  unfolding collect_values_def
  by (rule collect_succeeds [OF assms(1) [unfolded collect_values_def]])
     (use assms(2) in \<open>auto simp: result_map_Inr\<close>)

lemma raise_keywords_succeeds:
  assumes "lower_keywords vs = Inr (IdKeywords m)"
  shows "\<exists>vs'. raise_keywords m = Inr vs'"
proof -
  from assms obtain ms where ms: "collect_results lower_value_keywords vs = Inr ms"
    and m: "ms = [m] \<or> m = ImAnyOf ms \<and> 1 < length ms"
    unfolding lower_keywords_def
    by (cases "collect_results lower_value_keywords vs") (auto split: list.splits)
  have one: "\<exists>w. keyword_value k = Inr w" if "lower_value_keywords v = Inr k" for v k
    using that by (cases v) auto
  from m show ?thesis
  proof
    assume "ms = [m]"
    with ms obtain v where v: "lower_value_keywords v = Inr m"
      by (auto simp: collect_results_Inr list_all2_Cons2)
    from one [OF v] obtain w where "keyword_value m = Inr w" by blast
    moreover have "m \<noteq> ImAnyOf xs" for xs by (rule lowered_keyword [OF v])
    ultimately show ?thesis by (cases m) (auto simp: raise_keywords_def)
  next
    assume "m = ImAnyOf ms \<and> 1 < length ms"
    with collect_succeeds [OF ms one] show ?thesis by (simp add: raise_keywords_def)
  qed
qed

lemma raise_detection_succeeds:
  "detection_parsed env d \<Longrightarrow> detection_raisable d \<Longrightarrow> lower_detection env opts d = Inr i \<Longrightarrow>
   \<exists>d'. raise_detection i = Inr d'"
proof (induction env opts d arbitrary: i rule: lower_detection.induct)
  case (1 env opts items)
  then obtain irs where low: "collect_results (lower_detection_item env opts) items = Inr irs"
    "i = IdAllOf irs" by (auto simp: result_map_Inr split: if_splits)
  have "\<exists>zs. collect_results raise_detection_item irs = Inr zs"
  proof (rule collect_succeeds [OF low(1)])
    fix x y assume "x \<in> set items" and y: "lower_detection_item env opts x = Inr y"
    with "1.prems"(1,2) have "item_parsed env x" "item_raisable x" by (simp_all add: list_all_iff)
    from raise_item_succeeds [OF this y] show "\<exists>z. raise_detection_item y = Inr z" .
  qed
  with low(2) show ?case by (auto simp: result_map_Inr)
next
  case (2 env opts dets)
  then obtain irs where low: "collect_results (lower_detection env opts) dets = Inr irs"
    "dets \<noteq> []" "i = IdAnyOf irs" by (auto simp: result_map_Inr split: if_splits)
  from collect_succeeds [OF low(1), of raise_detection] "2.IH" [OF low(2)] "2.prems"(1,2) low(3)
  show ?case by (auto simp: list_all_iff result_map_Inr)
next
  case (3 env opts field q body)
  from "3.prems"(3) obtain b where b: "lower_detection env opts body = Inr b" "i = IdArrayMatch field q b"
    by (auto simp: result_map_Inr)
  from "3.prems"(1,2) have "detection_parsed env body" "detection_raisable body" by simp_all
  from "3.IH" [OF this b(1)] b(2) show ?case by auto
next
  case (4 env opts dets)
  then obtain irs where low: "collect_results (lower_detection env opts) dets = Inr irs"
    "dets \<noteq> []" "i = IdAnd irs" by (auto simp: result_map_Inr split: if_splits)
  from collect_succeeds [OF low(1), of raise_detection] "4.IH" [OF low(2)] "4.prems"(1,2) low(3)
  show ?case by (auto simp: list_all_iff result_map_Inr)
next
  case (5 env opts named condition)
  then obtain n c where low: "collect_values (lower_detection env opts) named = Inr n"
    "named \<noteq> []" "i = IdConditional n c" by (auto simp: result_simps split: if_splits)
  from values_succeed [OF low(1), of raise_detection] "5.IH" [OF low(2)] "5.prems"(1,2) low(3)
  show ?case by (auto simp: list_all_iff result_map_Inr)
next
  case (6 env opts vs)
  then obtain m where "i = IdKeywords m"
    by (cases "collect_results lower_value_keywords vs")
       (auto simp: lower_keywords_def split: list.splits)
  with raise_keywords_succeeds [of vs m] "6.prems"(3) show ?case by (auto simp: result_map_Inr)
qed

text \<open>What raising does to the custom attributes: through JSON text to YAML, and back.\<close>

definition raised_attributes ::
    "'n yaml_env \<Rightarrow> raise_options \<Rightarrow> (string \<times> json_value) list \<Rightarrow> (string \<times> json_value) list" where
  "raised_attributes ye ro attrs =
     (if ro_include_custom_attributes ro
      then map (\<lambda>(k, v). (k, yaml_to_json ye (json_to_yaml ye v))) attrs else [])"

definition rule_parsed :: "ext_env \<Rightarrow> 'n yaml_value sigma_rule \<Rightarrow> bool" where
  "rule_parsed env rule =
     list_all (\<lambda>e. detection_parsed env (snd e)) (dets_named (sr_detection rule))"

lemma raise_rule_relowers:
  assumes parsed: "rule_parsed env rule" and low: "lower_rule env ye opts rule = Inr ir"
    and raised: "raise_rule ye ro ir = Inr rule'"
  shows "lower_rule env ye opts rule'
    = Inr (ir \<lparr> ir_metadata := (ir_metadata ir)
        \<lparr> im_custom_attributes := raised_attributes ye ro (im_custom_attributes (ir_metadata ir)) \<rparr> \<rparr>)"
proof -
  from low obtain ds cs where ds: "collect_values (lower_detection env opts) (dets_named (sr_detection rule)) = Inr ds"
    and cs: "collect_results (lower_condition (map fst ds)) (dets_conditions (sr_detection rule)) = Inr cs"
    and ir: "ir = \<lparr> ir_metadata = metadata_from_rule ye rule, ir_logsource = sr_logsource rule,
               ir_sigma_version = sr_sigma_version rule, ir_detections = ds, ir_conditions = cs \<rparr>"
    unfolding lower_rule_def by (auto simp: result_simps)
  from raised ir obtain named where named: "collect_values raise_detection ds = Inr named"
    and named': "dets_named (sr_detection rule') = named"
    by (auto simp: raise_rule_def result_map_Inr Let_def)
  have "collect_values (lower_detection env opts) named = Inr ds"
  proof (rule values_round_trip [OF ds named])
    fix e y z
    assume "e \<in> set (dets_named (sr_detection rule))"
      and steps: "lower_detection env opts (snd e) = Inr y" "raise_detection y = Inr z"
    with parsed have "detection_parsed env (snd e)" by (simp add: rule_parsed_def list_all_iff)
    from detection_round_trip [OF this steps] show "lower_detection env opts z = Inr y" .
  qed
  moreover have "map raise_condition cs = dets_conditions (sr_detection rule)"
    using cs condition_round_trip
    by (auto simp: collect_results_Inr list_all2_conv_all_nth intro!: nth_equalityI)
  ultimately show ?thesis
    using raised cs named ir
    by (auto simp: raise_rule_def result_map_Inr Let_def lower_rule_def metadata_from_rule_def
        raised_attributes_def yaml_to_json_map_def comp_def case_prod_unfold)
qed

definition rule_raisable :: "'n yaml_value sigma_rule \<Rightarrow> bool" where
  "rule_raisable rule =
     list_all (\<lambda>e. detection_raisable (snd e)) (dets_named (sr_detection rule))"

text \<open>
  C5: lowering, raising and lowering again gives the same intermediate representation: for a parsed
  rule whose expand items have one value each, raising succeeds, and the raised rule lowers to the
  original HIR, except that its custom attributes went through JSON text and YAML (or were dropped,
  when the options leave them out).
\<close>

theorem lower_raise_lower:
  assumes "rule_parsed env rule" and "rule_raisable rule" and "lower_rule env ye opts rule = Inr ir"
  shows "\<exists>rule'. raise_rule ye ro ir = Inr rule' \<and> lower_rule env ye opts rule'
    = Inr (ir \<lparr> ir_metadata := (ir_metadata ir)
        \<lparr> im_custom_attributes := raised_attributes ye ro (im_custom_attributes (ir_metadata ir)) \<rparr> \<rparr>)"
proof -
  from assms(3) obtain ds where ds: "collect_values (lower_detection env opts)
      (dets_named (sr_detection rule)) = Inr ds" and "ir_detections ir = ds"
    unfolding lower_rule_def by (auto simp: result_simps)
  moreover have "\<exists>named. collect_values raise_detection ds = Inr named"
  proof (rule values_succeed [OF ds])
    fix e y
    assume "e \<in> set (dets_named (sr_detection rule))" and y: "lower_detection env opts (snd e) = Inr y"
    with assms(1,2) have "detection_parsed env (snd e)" "detection_raisable (snd e)"
      by (simp_all add: rule_parsed_def rule_raisable_def list_all_iff)
    from raise_detection_succeeds [OF this y] show "\<exists>z. raise_detection y = Inr z" .
  qed
  ultimately have "\<exists>rule'. raise_rule ye ro ir = Inr rule'"
    by (auto simp: raise_rule_def)
  with raise_rule_relowers [OF assms(1,3)] show ?thesis by blast
qed

definition sample_sigma_rule :: "int yaml_value sigma_rule" where
  "sample_sigma_rule = \<lparr>
     sr_title = ''t'', sr_logsource = \<lparr> ls_category = None, ls_product = None, ls_service = None, ls_definition = None, ls_custom = [] \<rparr>,
     sr_detection = \<lparr>
       dets_named =
         [(''sel'', DAllOf
             [\<lparr> di_field = \<lparr> fs_name = Some ''cmd'', fs_modifiers = [MdContains, MdAll] \<rparr>,
                di_values = [SvString (sigma_string_new ''a*''), SvString (sigma_string_new ''b'')] \<rparr>,
              \<lparr> di_field = \<lparr> fs_name = Some ''n'', fs_modifiers = [MdGt] \<rparr>,
                di_values = [SvInteger 3] \<rparr>]),
          (''kw'', DKeywords [SvString (sigma_string_new ''x''), SvInteger 1])],
       dets_conditions = [CondAnd [CondIdentifier ''sel'', CondNot (CondIdentifier ''kw'')]],
       dets_condition_strings = [''sel and not kw''], dets_timeframe = None \<rparr>,
     sr_sigma_version = None, sr_id = None, sr_name = None, sr_related = [], sr_taxonomy = None,
     sr_status = None, sr_description = None, sr_license = None, sr_author = None,
     sr_references = [], sr_date = None, sr_modified = None, sr_fields = [],
     sr_falsepositives = [], sr_level = None, sr_tags = [], sr_scope = [],
     sr_custom_attributes = [(''k'', YString ''v'')] \<rparr>"

lemma sample_sigma_parsed: "rule_parsed literal_env sample_sigma_rule" and sample_sigma_raisable: "rule_raisable sample_sigma_rule"
  by code_simp+

lemma sample_sigma_lowers: "\<exists>ir. lower_rule literal_env literal_yaml \<lparr> lo_permissive_placeholders = False \<rparr> sample_sigma_rule = Inr ir"
proof -
  have "isl (lower_rule literal_env literal_yaml \<lparr> lo_permissive_placeholders = False \<rparr> sample_sigma_rule) = False"
    by code_simp
  then show ?thesis
    by (cases "lower_rule literal_env literal_yaml \<lparr> lo_permissive_placeholders = False \<rparr> sample_sigma_rule") auto
qed

theorem lower_raise_lower_witness:
  "\<exists>ir rule'. lower_rule literal_env literal_yaml \<lparr> lo_permissive_placeholders = False \<rparr> sample_sigma_rule = Inr ir
    \<and> raise_rule literal_yaml \<lparr> ro_include_custom_attributes = True \<rparr> ir = Inr rule'
    \<and> lower_rule literal_env literal_yaml \<lparr> lo_permissive_placeholders = False \<rparr> rule' = Inr ir"
proof -
  obtain ir where ir: "lower_rule literal_env literal_yaml \<lparr> lo_permissive_placeholders = False \<rparr> sample_sigma_rule = Inr ir"
    using sample_sigma_lowers by blast
  then have "raised_attributes literal_yaml \<lparr> ro_include_custom_attributes = True \<rparr>
      (im_custom_attributes (ir_metadata ir)) = im_custom_attributes (ir_metadata ir)"
    by (auto simp: lower_rule_def result_simps metadata_from_rule_def sample_sigma_rule_def
        yaml_to_json_map_def raised_attributes_def json_to_yaml_def literal_yaml_def)
  with lower_raise_lower [OF sample_sigma_parsed sample_sigma_raisable ir, of "\<lparr> ro_include_custom_attributes = True \<rparr>"] ir
  show ?thesis by auto
qed


text \<open>
  Without that condition raising can fail: of \<open>f|expand\<close> with a placeholder and a plain value the
  lowering makes a template and a string match, whose raised modifiers differ.
\<close>

lemma expand_mixture_not_raised:
  "result_bind
     (lower_detection_item literal_env \<lparr> lo_permissive_placeholders = False \<rparr>
        \<lparr> di_field = \<lparr> fs_name = Some ''f'', fs_modifiers = [MdExpand] \<rparr>,
          di_values = [SvString (sigma_string_new ''%a%''), SvString (sigma_string_new ''b'')] \<rparr>)
     raise_detection_item
   = Inl (IeLowering ''cannot raise a heterogeneous value list to a single detection item'')"
  by code_simp

end
