(* ===== verification/RuleSem.thy ===== *)
theory RuleSem
  imports CompileProps RaiseProps
begin

text \<open>
  What a rule of the intermediate representation says of an event, and that the compiled rule decides
  it: items at event scope and inside arrays, detections, and the conditions of the rule.
\<close>

section \<open>Items and detections\<close>

text \<open>The verdict of a matcher on an optional value.\<close>

definition on_value :: "ext_env \<Rightarrow> event \<Rightarrow> ir_matcher \<Rightarrow> event_value option \<Rightarrow> bool" where
  "on_value env ev m v = (case v of Some x \<Rightarrow> ir_matches env ev m x | None \<Rightarrow> ir_absent m)"

definition ir_item_holds :: "ext_env \<Rightarrow> event \<Rightarrow> ir_detection_item \<Rightarrow> bool" where
  "ir_item_holds env ev item =
     (case (idi_exists item, idi_field item) of
        (Some expect, Some field) \<Rightarrow> (ev_get_field ev field \<noteq> None) = expect
      | (Some expect, None) \<Rightarrow> \<not> expect
      | (None, Some field) \<Rightarrow> on_value env ev (idi_matcher item) (ev_get_field ev field)
      | (None, None) \<Rightarrow> ir_keyword env ev (idi_matcher item))"

definition ir_member_item_holds ::
    "ext_env \<Rightarrow> event \<Rightarrow> event_value \<Rightarrow> ir_detection_item \<Rightarrow> bool" where
  "ir_member_item_holds env ev member item =
     (case (idi_exists item, idi_field item) of
        (Some expect, Some field) \<Rightarrow> (element_field member field \<noteq> None) = expect
      | (Some expect, None) \<Rightarrow> expect
      | (None, Some field) \<Rightarrow> on_value env ev (idi_matcher item) (element_field member field)
      | (None, None) \<Rightarrow> ir_matches env ev (idi_matcher item) member)"

text \<open>The quantifier over the members of the value of an array field.\<close>

definition quantified :: "array_quantifier \<Rightarrow> (event_value \<Rightarrow> bool) \<Rightarrow> event_value option \<Rightarrow> bool" where
  "quantified q p v =
     (case v of
        Some x \<Rightarrow> array_quantifier_from_member_matches q (map p (snd (array_members x)))
      | None \<Rightarrow> array_quantifier_matches_empty q)"

text \<open>The condition over the named verdicts.\<close>

definition over_verdicts :: "(string \<times> bool) list \<Rightarrow> ir_condition \<Rightarrow> bool" where
  "over_verdicts verdicts c =
     cond_sem (map fst verdicts) (\<lambda>n. map_of verdicts n = Some True) (ir_condition_to_expr c)"

fun ir_member_holds :: "ext_env \<Rightarrow> event \<Rightarrow> ir_detection \<Rightarrow> event_value \<Rightarrow> bool" where
  "ir_member_holds env ev (IdAllOf items) member = list_all (ir_member_item_holds env ev member) items"
| "ir_member_holds env ev (IdAnyOf dets) member = list_ex (\<lambda>d. ir_member_holds env ev d member) dets"
| "ir_member_holds env ev (IdAnd dets) member = list_all (\<lambda>d. ir_member_holds env ev d member) dets"
| "ir_member_holds env ev (IdKeywords m) member = ir_matches env ev m member"
| "ir_member_holds env ev (IdArrayMatch field q body) member =
     quantified q (\<lambda>x. ir_member_holds env ev body x) (element_field member field)"
| "ir_member_holds env ev (IdConditional named c) member =
     over_verdicts (map (\<lambda>(n, d). (n, ir_member_holds env ev d member)) named) c"

fun ir_detection_holds :: "ext_env \<Rightarrow> event \<Rightarrow> ir_detection \<Rightarrow> bool" where
  "ir_detection_holds env ev (IdAllOf items) = list_all (ir_item_holds env ev) items"
| "ir_detection_holds env ev (IdAnyOf dets) = list_ex (ir_detection_holds env ev) dets"
| "ir_detection_holds env ev (IdAnd dets) = list_all (ir_detection_holds env ev) dets"
| "ir_detection_holds env ev (IdKeywords m) = ir_keyword env ev m"
| "ir_detection_holds env ev (IdArrayMatch field q body) =
     quantified q (ir_member_holds env ev body) (ev_get_field ev field)"
| "ir_detection_holds env ev (IdConditional named c) =
     over_verdicts (map (\<lambda>(n, d). (n, ir_detection_holds env ev d)) named) c"

definition ir_rule_holds :: "ext_env \<Rightarrow> event \<Rightarrow> ir_rule \<Rightarrow> bool" where
  "ir_rule_holds env ev ir =
     list_ex (over_verdicts (map (\<lambda>(n, d). (n, ir_detection_holds env ev d)) (ir_detections ir)))
       (ir_conditions ir)"

section \<open>Well-formed detections and safe texts\<close>

text \<open>
  The keys of a map are distinct and the counts of selectors are positive (both by their Rust types);
  alternatives contain neither negation nor conjunction.
\<close>

fun ir_detection_wf :: "ir_detection \<Rightarrow> bool" where
  "ir_detection_wf (IdAllOf items) = list_all (\<lambda>i. groups_flat (idi_matcher i)) items"
| "ir_detection_wf (IdAnyOf dets) = list_all ir_detection_wf dets"
| "ir_detection_wf (IdAnd dets) = list_all ir_detection_wf dets"
| "ir_detection_wf (IdKeywords m) = groups_flat m"
| "ir_detection_wf (IdArrayMatch field q body) = ir_detection_wf body"
| "ir_detection_wf (IdConditional named c) \<longleftrightarrow>
     distinct (map fst named) \<and> counts_nonzero (ir_condition_to_expr c)
     \<and> list_all (\<lambda>(n, d). ir_detection_wf d) named"

definition ir_rule_wf :: "ir_rule \<Rightarrow> bool" where
  "ir_rule_wf ir \<longleftrightarrow>
     distinct (map fst (ir_detections ir))
     \<and> list_all (\<lambda>c. counts_nonzero (ir_condition_to_expr c)) (ir_conditions ir)
     \<and> list_all (\<lambda>(n, d). ir_detection_wf d) (ir_detections ir)"

fun detection_regex_free :: "ir_detection \<Rightarrow> bool" where
  "detection_regex_free (IdAllOf items) = list_all (\<lambda>i. regex_free (idi_matcher i)) items"
| "detection_regex_free (IdAnyOf dets) = list_all detection_regex_free dets"
| "detection_regex_free (IdAnd dets) = list_all detection_regex_free dets"
| "detection_regex_free (IdKeywords m) = regex_free m"
| "detection_regex_free (IdArrayMatch field q body) = detection_regex_free body"
| "detection_regex_free (IdConditional named c) = list_all (\<lambda>(n, d). detection_regex_free d) named"

fun ascii_value :: "event_value \<Rightarrow> bool" where
  "ascii_value (EvStr s) = is_ascii s"
| "ascii_value (EvArray arr) = list_all ascii_value arr"
| "ascii_value (EvMap entries) = list_all (\<lambda>(k, v). ascii_value v) entries"
| "ascii_value _ = True"

text \<open>Numbers print as ASCII.\<close>

definition float_law :: "ext_env \<Rightarrow> bool" where
  "float_law env = (\<forall>f. is_ascii (f64_display env f))"

definition ascii_event :: "event \<Rightarrow> bool" where
  "ascii_event ev \<longleftrightarrow>
     (\<forall>f v. ev_get_field ev f = Some v \<longrightarrow> ascii_value v) \<and> list_all is_ascii (ev_all_string_values ev)"

lemma show_bool_ascii: "is_ascii (Event.show_bool b)"
  by (simp add: Event.show_bool_def is_ascii_def is_ascii_char_def)

lemma ascii_value_strings:
  "float_law env \<Longrightarrow> ascii_value v \<Longrightarrow> list_all is_ascii (value_strings env v)"
  by (induction env v rule: value_strings.induct)
     (auto simp: float_law_def is_ascii_show_int show_bool_ascii list_all_iff)

lemma ascii_map_of: "list_all (\<lambda>(k, v). ascii_value v) m \<Longrightarrow> map_of m k = Some v \<Longrightarrow> ascii_value v"
  by (induction m) (auto split: if_splits)

lemma ascii_nav: "ascii_value v \<Longrightarrow> nav_event_value v ops = Some w \<Longrightarrow> ascii_value w"
proof (induction v ops rule: nav_event_value.induct)
  case (2 current key rest)
  show ?case
  proof (cases current)
    case (EvMap entries)
    with "2.prems"(2) obtain x where x: "map_of entries key = Some x" "nav_event_value x rest = Some w"
      by (auto split: option.splits)
    moreover have "ascii_value x" using ascii_map_of [OF _ x(1)] "2.prems"(1) EvMap by simp
    ultimately show ?thesis using "2.IH" EvMap by blast
  next
    case (EvArray members)
    with "2.prems"(2) have "find_map (\<lambda>m. nav_event_value m (EoKey key # rest)) members = Some w" by simp
    then obtain m where "m \<in> set members" "nav_event_value m (EoKey key # rest) = Some w"
      by (auto dest: find_map_Some_in)
    with 2 EvArray show ?thesis by (auto simp: list_all_iff)
  qed (use "2.prems" in auto)
next
  case (3 current i rest)
  then show ?case
    by (auto simp: list_all_iff split: event_value.splits option.splits if_splits)
qed simp

lemma ascii_element: "ascii_value v \<Longrightarrow> element_field v f = Some w \<Longrightarrow> ascii_value w"
  using ascii_nav ascii_map_of
  by (auto simp: element_field_def split: option.splits event_value.splits)

lemma ascii_members: "ascii_value v \<Longrightarrow> m \<in> set (snd (array_members v)) \<Longrightarrow> ascii_value m"
  by (cases v) (auto simp: array_members_def list_all_iff)

section \<open>The compiled rule decides the same\<close>

text \<open>All matchers are regex free, or the text they see is ASCII.\<close>

lemma value_safe:
  "regex_free m \<or> float_law env \<and> ascii_value v \<Longrightarrow> text_safe env m (value_strings env v)"
  using ascii_value_strings by blast

lemma item_exact:
  assumes laws: "matcher_laws env" "event_wf ev" and flat: "groups_flat (idi_matcher item)"
    and safe: "regex_free (idi_matcher item) \<or> float_law env \<and> ascii_event ev"
    and c: "compile_ir_detection_item_in env item ScEvent = Inr ci"
  shows "eval_detection_item_with_bloom env ev no_bloom ci = ir_item_holds env ev item"
proof -
  obtain m where m: "(if idi_field item = None then compile_keyword_matcher env (idi_matcher item)
      else compile_ir_matcher env (idi_matcher item)) = Inr m"
    and ci: "ci = \<lparr> cdi_field = idi_field item, cdi_matcher = m, cdi_exists = idi_exists item,
              cdi_bloom_eligible = (idi_field item \<noteq> None \<and> is_positive_substring_matcher m) \<rparr>"
    using c by (auto simp: compile_ir_detection_item_in_def result_map_Inr)
  show ?thesis
  proof (cases "idi_field item")
    case None
    with m have k: "compile_keyword_matcher env (idi_matcher item) = Inr m" by simp
    have "matches_keyword env ev m = ir_keyword env ev (idi_matcher item)"
      by (rule compile_keyword_exact [OF laws flat k]) (use safe in \<open>auto simp: ascii_event_def\<close>)
    with None show ?thesis
      by (simp add: ci eval_detection_item_with_bloom_def ir_item_holds_def split: option.splits)
  next
    case (Some f)
    with m have k: "compile_ir_matcher env (idi_matcher item) = Inr m" by simp
    have "matches env ev m v = ir_matches env ev (idi_matcher item) v"
      if "ev_get_field ev f = Some v" for v
      by (rule compile_matcher_exact [OF laws(1) flat k value_safe])
         (use safe that in \<open>auto simp: ascii_event_def\<close>)
    moreover have "matches_absent m = ir_absent (idi_matcher item)"
      using compile_well [OF flat k] by (simp add: compiled_well_def)
    ultimately show ?thesis
      using Some
      by (simp add: ci eval_detection_item_with_bloom_def ir_item_holds_def on_value_def no_bloom_def
          split: option.splits)
  qed
qed

lemma member_item_exact:
  assumes laws: "matcher_laws env" and flat: "groups_flat (idi_matcher item)"
    and safe: "regex_free (idi_matcher item) \<or> float_law env \<and> ascii_value v"
    and c: "compile_ir_detection_item_in env item ScElement = Inr ci"
  shows "eval_array_item env ev ci v = ir_member_item_holds env ev v item"
proof -
  obtain m where m: "compile_ir_matcher env (idi_matcher item) = Inr m"
    and ci: "ci = \<lparr> cdi_field = idi_field item, cdi_matcher = m, cdi_exists = idi_exists item,
              cdi_bloom_eligible = (idi_field item \<noteq> None \<and> is_positive_substring_matcher m) \<rparr>"
    using c by (auto simp: compile_ir_detection_item_in_def result_map_Inr)
  have value_exact: "matches env ev m x = ir_matches env ev (idi_matcher item) x"
    if "float_law env \<and> ascii_value v \<Longrightarrow> ascii_value x" for x
    by (rule compile_matcher_exact [OF laws flat m value_safe]) (use safe that in blast)
  have "matches_absent m = ir_absent (idi_matcher item)"
    using compile_well [OF flat m] by (simp add: compiled_well_def)
  with value_exact ascii_element show ?thesis
    by (auto simp: ci eval_array_item_def ir_member_item_holds_def on_value_def split: option.splits)
qed

lemma array_condition_sem:
  "eval_array_condition env ev e named v
   = cond_sem (map fst named)
       (\<lambda>n. case map_of named n of Some d \<Rightarrow> eval_array_body env ev d v | None \<Rightarrow> False) e"
proof (induction e)
  case (CondIdentifier n)
  then show ?case by (auto split: option.splits dest: map_of_SomeD simp: rev_image_eqI)
next
  case (CondAnd es)
  then show ?case by (auto simp: list_all_iff)
next
  case (CondOr es)
  then show ?case by (auto simp: list_ex_iff)
next
  case (CondNot e)
  then show ?case by simp
next
  case (CondSelector q pat)
  define ns where "ns = filter (matches_detection_name pat) (map fst named)"
  have "length (filter P ns) = length ns \<longleftrightarrow> list_all P ns" for P
    unfolding list_all_iff by (metis filter_True length_filter_less less_irrefl)
  moreover have "0 < length (filter P ns) \<longleftrightarrow> list_ex P ns" for P
    by (auto simp: list_ex_iff filter_empty_conv)
  ultimately show ?case
    by (cases q) (simp_all add: Let_def ns_def [symmetric] Suc_le_eq del: filter_map length_greater_0_conv)
qed

lemma cond_sem_cong:
  "(\<And>n. n \<in> set keys \<Longrightarrow> \<sigma> n = \<tau> n) \<Longrightarrow> cond_sem keys \<sigma> e = cond_sem keys \<tau> e"
proof (induction e)
  case (CondSelector q pat)
  then have "filter \<sigma> (filter (matches_detection_name pat) keys)
      = filter \<tau> (filter (matches_detection_name pat) keys)"
    by (intro filter_cong) auto
  with CondSelector show ?case
    by (cases q) (auto simp: Let_def list_ex_iff list_all_iff)
qed (auto simp: list_all_iff list_ex_iff)

text \<open>Maps that are compiled entry by entry.\<close>

lemma values_verdicts:
  assumes n: "collect_values f named = Inr ds"
    and p: "\<And>k x y. (k, x) \<in> set named \<Longrightarrow> f x = Inr y \<Longrightarrow> P x = Q y"
  shows "map (\<lambda>(k, x). (k, P x)) named = map (\<lambda>(k, y). (k, Q y)) ds"
  using assms unfolding collect_values_Inr
proof (induction named arbitrary: ds)
  case Nil
  then show ?case by simp
next
  case (Cons e named)
  obtain k x where e: "e = (k, x)" by fastforce
  from Cons.prems(1) obtain y ds' where ds: "ds = (k, y) # ds'" "f x = Inr y"
    and rest: "list_all2 (\<lambda>e d. fst d = fst e \<and> f (snd e) = Inr (snd d)) named ds'"
    by (auto simp: list_all2_Cons1 e)
  have "P x = Q y" using Cons.prems(2) [of k x y] ds e by simp
  moreover have "map (\<lambda>(k, x). (k, P x)) named = map (\<lambda>(k, y). (k, Q y)) ds'"
    using Cons.IH [OF rest] Cons.prems(2) by (metis list.set_intros(2))
  ultimately show ?case by (simp add: ds e)
qed

lemma verdict_lookup:
  "(case map_of ds n of Some d \<Rightarrow> Q d | None \<Rightarrow> False)
   = (map_of (map (\<lambda>(k, y). (k, Q y)) ds) n = Some True)"
  by (induction ds) auto

lemma results_pointwise:
  assumes "collect_results f xs = Inr ys" and "\<And>x y. x \<in> set xs \<Longrightarrow> f x = Inr y \<Longrightarrow> P x = Q y"
  shows "list_ex Q ys = list_ex P xs" "list_all Q ys = list_all P xs"
  using collect_results_pointwise [OF assms] by simp_all

text \<open>The second optimization of a keyword group changes nothing either.\<close>

lemma any_of_disjunctive:
  "groups_flat m \<Longrightarrow> compile_ir_matcher env m = Inr (CmAnyOf cs) \<Longrightarrow> ir_disjunctive m"
  "groups_flat m \<Longrightarrow> compile_keyword_matcher env m = Inr (CmAnyOf cs) \<Longrightarrow> ir_disjunctive m"
  by (cases m; auto simp: result_map_Inr list_all_iff)+

lemma keyword_group_matches:
  assumes laws: "matcher_laws env" and flat: "groups_flat m" and k: "compile_ir_matcher env m = Inr k"
    and safe: "text_safe env m (value_strings env v)"
  shows "matches env ev (keyword_group env k) v = matches env ev k v"
proof (cases "\<exists>cs. k = CmAnyOf cs")
  case True
  then obtain cs where cs: "k = CmAnyOf cs" by blast
  have "disjunctive k" "sets_built env k" "regex_free m \<Longrightarrow> \<not> has_regex k"
    using compile_well [OF flat k] any_of_disjunctive(1) [OF flat] k cs by (auto simp: compiled_well_def)
  with safe have "group_ok env (value_strings env v) cs"
    by (auto simp: cs group_ok_def lower_safe_def)
  then show ?thesis
    using optimize_any_of_matches_aux laws by (simp add: cs keyword_group_def matcher_laws_def)
qed (auto simp: keyword_group_def split: compiled_matcher.splits)

lemma keyword_group_keyword:
  assumes laws: "matcher_laws env" "event_wf ev" and flat: "groups_flat m"
    and k: "compile_keyword_matcher env m = Inr k"
    and safe: "text_safe env m (ev_all_string_values ev)"
  shows "matches_keyword env ev (keyword_group env k) = matches_keyword env ev k"
proof (cases "\<exists>cs. k = CmAnyOf cs")
  case True
  then obtain cs where cs: "k = CmAnyOf cs" by blast
  have "disjunctive k" "sets_built env k" "regex_free m \<Longrightarrow> \<not> has_regex k"
    using keyword_well [OF flat k] any_of_disjunctive(2) [OF flat] k cs by auto
  with safe have ok: "list_all disjunctive cs" "group_ok env (ev_all_string_values ev) cs"
    by (auto simp: cs group_ok_def lower_safe_def)
  then have "disjunctive (optimize_any_of env cs)" by (simp add: optimize_any_of_disjunctive)
  then have "matches_keyword env ev (optimize_any_of env cs)
      = list_ex (matches_str env (optimize_any_of env cs)) (ev_all_string_values ev)"
    by (intro matches_keyword_iff [OF laws(2)]) auto
  also have "\<dots> = list_ex (matches_str env (CmAnyOf cs)) (ev_all_string_values ev)"
    by (rule list_ex_cong_on)
       (use optimize_any_of_str_aux group_ok_strings [OF ok(2)] laws(1) in \<open>simp add: matcher_laws_def\<close>)
  also have "\<dots> = matches_keyword env ev (CmAnyOf cs)"
    by (rule matches_keyword_iff [OF laws(2), symmetric]) auto
  finally show ?thesis by (simp add: cs keyword_group_def)
qed (auto simp: keyword_group_def split: compiled_matcher.splits)

lemma member_exact:
  "matcher_laws env \<Longrightarrow> ir_detection_wf d \<Longrightarrow>
   detection_regex_free d \<or> float_law env \<and> ascii_value v \<Longrightarrow>
   compile_ir_detection_in env d ScElement = Inr c \<Longrightarrow>
   eval_array_body env ev c v = ir_member_holds env ev d v"
proof (induction d arbitrary: c v)
  case (IdAllOf items)
  from IdAllOf.prems(4) obtain cs where
    cs: "collect_results (\<lambda>item. compile_ir_detection_item_in env item ScElement) items = Inr cs"
    and c: "c = CdAllOf cs" by (auto simp: result_map_Inr split: if_splits)
  have "list_all (\<lambda>i. eval_array_item env ev i v) cs = list_all (ir_member_item_holds env ev v) items"
    by (rule results_pointwise(2) [OF cs], rule member_item_exact [symmetric, OF IdAllOf.prems(1)])
       (use IdAllOf.prems(2,3) in \<open>auto simp: list_all_iff\<close>)
  then show ?case by (simp add: c)
next
  case (IdAnyOf dets)
  from IdAnyOf.prems(4) obtain cs where
    cs: "collect_results (\<lambda>d. compile_ir_detection_in env d ScElement) dets = Inr cs"
    and c: "c = CdAnyOf cs" by (auto simp: result_map_Inr split: if_splits)
  have "list_ex (\<lambda>i. eval_array_body env ev i v) cs = list_ex (\<lambda>d. ir_member_holds env ev d v) dets"
    by (rule results_pointwise(1) [OF cs], rule IdAnyOf.IH [symmetric, OF _ IdAnyOf.prems(1)])
       (use IdAnyOf.prems(2,3) in \<open>auto simp: list_all_iff\<close>)
  then show ?case by (simp add: c)
next
  case (IdAnd dets)
  from IdAnd.prems(4) obtain cs where
    cs: "collect_results (\<lambda>d. compile_ir_detection_in env d ScElement) dets = Inr cs"
    and c: "c = CdAnd cs" by (auto simp: result_map_Inr split: if_splits)
  have "list_all (\<lambda>i. eval_array_body env ev i v) cs = list_all (\<lambda>d. ir_member_holds env ev d v) dets"
    by (rule results_pointwise(2) [OF cs], rule IdAnd.IH [symmetric, OF _ IdAnd.prems(1)])
       (use IdAnd.prems(2,3) in \<open>auto simp: list_all_iff\<close>)
  then show ?case by (simp add: c)
next
  case (IdArrayMatch field q body)
  from IdArrayMatch.prems(4) obtain b where
    b: "compile_ir_detection_in env body ScElement = Inr b" and c: "c = CdArrayMatch field q b"
    by (auto simp: result_map_Inr)
  have "map (eval_array_body env ev b) (snd (array_members x))
      = map (ir_member_holds env ev body) (snd (array_members x))" if x: "element_field v field = Some x" for x
  proof (rule map_cong [OF refl])
    fix w assume w: "w \<in> set (snd (array_members x))"
    have wf: "ir_detection_wf body" using IdArrayMatch.prems(2) by simp
    have "detection_regex_free body \<or> float_law env \<and> ascii_value w"
      using IdArrayMatch.prems(3) ascii_members [OF ascii_element [OF _ x] w] by auto
    from IdArrayMatch.IH [OF IdArrayMatch.prems(1) wf this b]
    show "eval_array_body env ev b w = ir_member_holds env ev body w" .
  qed
  then show ?case
    by (cases "element_field v field")
       (simp_all only: c quantified_def eval_array_quantified_members eval_array_body.simps
          ir_member_holds.simps option.case)
next
  case (IdConditional named condition)
  from IdConditional.prems(4) obtain ds where
    ds: "collect_values (\<lambda>d. compile_ir_detection_in env d ScElement) named = Inr ds"
    and c: "c = CdConditional ds (ir_condition_to_expr condition)"
    by (auto simp: result_map_Inr split: if_splits)
  have "map (\<lambda>(k, x). (k, ir_member_holds env ev x v)) named
      = map (\<lambda>(k, y). (k, eval_array_body env ev y v)) ds"
  proof (rule values_verdicts [OF ds])
    fix k x y
    assume kx: "(k, x) \<in> set named" and y: "compile_ir_detection_in env x ScElement = Inr y"
    have "x \<in> Basic_BNFs.snds (k, x)" by simp
    note ih = IdConditional.IH [OF kx this IdConditional.prems(1) _ _ y]
    have "ir_detection_wf x" "detection_regex_free x \<or> float_law env \<and> ascii_value v"
      using IdConditional.prems(2,3) kx by (auto simp: list_all_iff)
    from ih [OF this] show "ir_member_holds env ev x v = eval_array_body env ev y v" ..
  qed
  moreover have "map fst ds = map fst named" by (rule keys_collect_values [OF ds])
  ultimately show ?case
    by (simp add: c over_verdicts_def array_condition_sem verdict_lookup comp_def case_prod_unfold)
next
  case (IdKeywords m)
  then obtain k where k: "compile_ir_matcher env m = Inr k" and c: "c = CdKeywords (keyword_group env k)"
    by (auto simp: result_map_Inr)
  have flat: "groups_flat m" using IdKeywords.prems(2) by simp
  have safe: "text_safe env m (value_strings env v)"
    using IdKeywords.prems(3) value_safe by auto
  have "matches env ev k v = ir_matches env ev m v"
    by (rule compile_matcher_exact [OF IdKeywords.prems(1) flat k safe])
  moreover have "matches env ev (keyword_group env k) v = matches env ev k v"
    by (rule keyword_group_matches [OF IdKeywords.prems(1) flat k safe])
  ultimately show ?case by (simp add: c)
qed

lemma detection_exact:
  "matcher_laws env \<Longrightarrow> event_wf ev \<Longrightarrow> ir_detection_wf d \<Longrightarrow>
   detection_regex_free d \<or> float_law env \<and> ascii_event ev \<Longrightarrow>
   compile_ir_detection_in env d ScEvent = Inr c \<Longrightarrow>
   eval_detection_with_bloom env ev no_bloom c = ir_detection_holds env ev d"
proof (induction d arbitrary: c)
  case (IdAllOf items)
  from IdAllOf.prems(5) obtain cs where
    cs: "collect_results (\<lambda>item. compile_ir_detection_item_in env item ScEvent) items = Inr cs"
    and c: "c = CdAllOf cs" by (auto simp: result_map_Inr split: if_splits)
  have "list_all (eval_detection_item_with_bloom env ev no_bloom) cs = list_all (ir_item_holds env ev) items"
    by (rule results_pointwise(2) [OF cs], rule item_exact [symmetric, OF IdAllOf.prems(1,2)])
       (use IdAllOf.prems(3,4) in \<open>auto simp: list_all_iff\<close>)
  then show ?case by (simp add: c)
next
  case (IdAnyOf dets)
  from IdAnyOf.prems(5) obtain cs where
    cs: "collect_results (\<lambda>d. compile_ir_detection_in env d ScEvent) dets = Inr cs"
    and c: "c = CdAnyOf cs" by (auto simp: result_map_Inr split: if_splits)
  have "list_ex (eval_detection_with_bloom env ev no_bloom) cs = list_ex (ir_detection_holds env ev) dets"
    by (rule results_pointwise(1) [OF cs], rule IdAnyOf.IH [symmetric, OF _ IdAnyOf.prems(1,2)])
       (use IdAnyOf.prems(3,4) in \<open>auto simp: list_all_iff\<close>)
  then show ?case by (simp add: c)
next
  case (IdAnd dets)
  from IdAnd.prems(5) obtain cs where
    cs: "collect_results (\<lambda>d. compile_ir_detection_in env d ScEvent) dets = Inr cs"
    and c: "c = CdAnd cs" by (auto simp: result_map_Inr split: if_splits)
  have "list_all (eval_detection_with_bloom env ev no_bloom) cs = list_all (ir_detection_holds env ev) dets"
    by (rule results_pointwise(2) [OF cs], rule IdAnd.IH [symmetric, OF _ IdAnd.prems(1,2)])
       (use IdAnd.prems(3,4) in \<open>auto simp: list_all_iff\<close>)
  then show ?case by (simp add: c)
next
  case (IdArrayMatch field q body)
  from IdArrayMatch.prems(5) obtain b where
    b: "compile_ir_detection_in env body ScElement = Inr b" and c: "c = CdArrayMatch field q b"
    by (auto simp: result_map_Inr)
  have "map (eval_array_body env ev b) (snd (array_members x))
      = map (ir_member_holds env ev body) (snd (array_members x))" if x: "ev_get_field ev field = Some x" for x
  proof (rule map_cong [OF refl])
    fix w assume w: "w \<in> set (snd (array_members x))"
    have wf: "ir_detection_wf body" using IdArrayMatch.prems(3) by simp
    have "detection_regex_free body \<or> float_law env \<and> ascii_value w"
      using IdArrayMatch.prems(4) ascii_members [OF _ w] x by (auto simp: ascii_event_def)
    from member_exact [OF IdArrayMatch.prems(1) wf this b]
    show "eval_array_body env ev b w = ir_member_holds env ev body w" .
  qed
  then show ?case
    by (cases "ev_get_field ev field")
       (simp_all only: c quantified_def eval_array_quantified_members eval_detection_with_bloom.simps
          ir_detection_holds.simps option.case)
next
  case (IdConditional named condition)
  from IdConditional.prems(5) obtain ds where
    ds: "collect_values (\<lambda>d. compile_ir_detection_in env d ScEvent) named = Inr ds"
    and c: "c = CdConditional ds (ir_condition_to_expr condition)"
    by (auto simp: result_map_Inr split: if_splits)
  have verdicts: "map (\<lambda>(k, x). (k, ir_detection_holds env ev x)) named
      = map (\<lambda>(k, y). (k, eval_detection_with_bloom env ev no_bloom y)) ds"
  proof (rule values_verdicts [OF ds])
    fix k x y
    assume kx: "(k, x) \<in> set named" and y: "compile_ir_detection_in env x ScEvent = Inr y"
    have "x \<in> Basic_BNFs.snds (k, x)" by simp
    note ih = IdConditional.IH [OF kx this IdConditional.prems(1,2) _ _ y]
    have "ir_detection_wf x" "detection_regex_free x \<or> float_law env \<and> ascii_event ev"
      using IdConditional.prems(3,4) kx by (auto simp: list_all_iff)
    from ih [OF this] show "ir_detection_holds env ev x = eval_detection_with_bloom env ev no_bloom y" ..
  qed
  have names: "map fst ds = map fst named" by (rule keys_collect_values [OF ds])
  have "eval_condition_matches_with_bloom env ev no_bloom (ir_condition_to_expr condition) ds
      = cond_sem (map fst ds) (det_holds env ev no_bloom ds) (ir_condition_to_expr condition)"
    by (rule eval_condition_sem) (use names IdConditional.prems(3) in simp_all)
  also have "\<dots> = over_verdicts (map (\<lambda>(k, x). (k, ir_detection_holds env ev x)) named) condition"
    unfolding verdicts over_verdicts_def
    by (simp add: det_holds_def [abs_def] verdict_lookup comp_def case_prod_unfold)
  finally show ?case by (simp add: c)
next
  case (IdKeywords m)
  then obtain k where k: "compile_keyword_matcher env m = Inr k" and c: "c = CdKeywords (keyword_group env k)"
    by (auto simp: result_map_Inr)
  have flat: "groups_flat m" using IdKeywords.prems(3) by simp
  have safe: "text_safe env m (ev_all_string_values ev)"
    using IdKeywords.prems(4) by (auto simp: ascii_event_def)
  show ?case
    using compile_keyword_exact [OF IdKeywords.prems(1,2) flat k safe]
      keyword_group_keyword [OF IdKeywords.prems(1,2) flat k safe] by (simp add: c)
qed

section \<open>Lowered rules are well-formed\<close>

lemma unit_result: "(\<forall>e. r \<noteq> Inl e) \<Longrightarrow> r = Inr ()"
  by (cases r) auto

lemma lower_plain_flat:
  "lower_value_plain env ctx v = Inr m \<Longrightarrow> ir_disjunctive m \<and> groups_flat m"
  by (auto simp: lower_value_plain_def lower_timestamp_def lower_numeric_comparison_def lower_str_def
      lower_string_def Let_def result_simps
      split: option.splits if_splits sigma_value.splits sum.splits dest!: unit_result)

lemma lower_value_flat:
  "lower_value env ctx v = Inr m \<Longrightarrow> ir_disjunctive m \<and> groups_flat m"
  by (auto simp: lower_value_def lower_expand_def Let_def lower_plain_flat
      split: sigma_value.splits if_splits)

lemma combine_flat:
  "list_all (\<lambda>m. ir_disjunctive m \<and> groups_flat m) ms \<Longrightarrow> groups_flat (combine_values ctx ms)"
  by (cases ms; cases "tl ms") (auto simp: combine_values_def Let_def list_all_iff)

lemma collect_list_all:
  assumes "collect_results f xs = Inr ys" and "\<And>x y. x \<in> set xs \<Longrightarrow> f x = Inr y \<Longrightarrow> P y"
  shows "list_all P ys"
  using assms unfolding collect_results_Inr list_all2_conv_all_nth list_all_length by (metis nth_mem)

lemma lower_item_flat:
  assumes "lower_detection_item env opts item = Inr ir"
  shows "groups_flat (idi_matcher ir)"
  using assms
proof (cases rule: lower_item_cases)
  case (leaves ms)
  have "list_all (\<lambda>m. ir_disjunctive m \<and> groups_flat m) ms"
    by (rule collect_list_all [OF leaves(4)]) (rule lower_value_flat)
  then show ?thesis by (simp add: leaves(5) combine_flat)
qed simp_all

lemma condition_expr_same: "ir_condition_to_expr c = raise_condition c"
  by (induction c) simp_all

text \<open>The Rust types of the parsed rule: distinct keys, positive counts.\<close>

fun detection_typed :: "detection \<Rightarrow> bool" where
  "detection_typed (DConditional named condition) \<longleftrightarrow>
     distinct (map fst named) \<and> counts_nonzero condition \<and> list_all (\<lambda>e. detection_typed (snd e)) named"
| "detection_typed (DAnyOf dets) = list_all detection_typed dets"
| "detection_typed (DAnd dets) = list_all detection_typed dets"
| "detection_typed (DArrayMatch field q body) = detection_typed body"
| "detection_typed d = True"

definition rule_typed :: "'n yaml_value sigma_rule \<Rightarrow> bool" where
  "rule_typed rule \<longleftrightarrow>
     distinct (map fst (dets_named (sr_detection rule)))
     \<and> list_all counts_nonzero (dets_conditions (sr_detection rule))
     \<and> list_all (\<lambda>e. detection_typed (snd e)) (dets_named (sr_detection rule))"

lemma lower_keywords_flat:
  assumes "lower_keywords vs = Inr i"
  shows "\<exists>m. i = IdKeywords m \<and> groups_flat m"
proof -
  from assms obtain ms where ms: "collect_results lower_value_keywords vs = Inr ms"
    and i: "(\<exists>m. ms = [m] \<and> i = IdKeywords m) \<or> i = IdKeywords (ImAnyOf ms)"
    unfolding lower_keywords_def
    by (cases "collect_results lower_value_keywords vs") (auto split: list.splits)
  have "list_all (\<lambda>m. ir_disjunctive m \<and> groups_flat m) ms"
  proof (rule collect_list_all [OF ms])
    fix x y assume "lower_value_keywords x = Inr y"
    then show "ir_disjunctive y \<and> groups_flat y" by (cases x) auto
  qed
  with i show ?thesis by auto
qed

lemma lowered_wf:
  "lower_detection env opts d = Inr i \<Longrightarrow> detection_typed d \<Longrightarrow> ir_detection_wf i"
proof (induction env opts d arbitrary: i rule: lower_detection.induct)
  case (1 env opts items)
  then obtain irs where low: "collect_results (lower_detection_item env opts) items = Inr irs"
    "i = IdAllOf irs" by (auto simp: result_map_Inr split: if_splits)
  have "list_all (\<lambda>i. groups_flat (idi_matcher i)) irs"
    by (rule collect_list_all [OF low(1)]) (rule lower_item_flat)
  with low show ?case by simp
next
  case (2 env opts dets)
  then obtain irs where low: "collect_results (lower_detection env opts) dets = Inr irs"
    "dets \<noteq> []" "i = IdAnyOf irs" by (auto simp: result_map_Inr split: if_splits)
  have "list_all ir_detection_wf irs"
    by (rule collect_list_all [OF low(1)]) (use "2.IH" [OF low(2)] "2.prems"(2) in \<open>simp add: list_all_iff\<close>)
  with low show ?case by simp
next
  case (4 env opts dets)
  then obtain irs where low: "collect_results (lower_detection env opts) dets = Inr irs"
    "dets \<noteq> []" "i = IdAnd irs" by (auto simp: result_map_Inr split: if_splits)
  have "list_all ir_detection_wf irs"
    by (rule collect_list_all [OF low(1)]) (use "4.IH" [OF low(2)] "4.prems"(2) in \<open>simp add: list_all_iff\<close>)
  with low show ?case by simp
next
  case (5 env opts named condition)
  then obtain n c where low: "collect_values (lower_detection env opts) named = Inr n"
    "named \<noteq> []" "i = IdConditional n c" and c: "lower_condition (map fst n) condition = Inr c"
    by (auto simp: result_simps split: if_splits)
  have "list_all (\<lambda>e. ir_detection_wf (snd e)) n"
    by (rule collect_list_all [OF low(1) [unfolded collect_values_def]])
       (use "5.IH" [OF low(2)] "5.prems"(2) in \<open>auto simp: list_all_iff result_map_Inr\<close>)
  with low keys_collect_values [OF low(1)] condition_round_trip [OF c] "5.prems"(2) show ?case
    by (simp add: condition_expr_same case_prod_unfold)
next
  case (6 env opts vs)
  then show ?case using lower_keywords_flat [of vs i] by auto
qed (auto simp: result_map_Inr)

lemma lowered_rule_wf:
  assumes "lower_rule env ye opts rule = Inr ir" and "rule_typed rule"
  shows "ir_rule_wf ir"
proof -
  from assms(1) obtain ds cs where
    ds: "collect_values (lower_detection env opts) (dets_named (sr_detection rule)) = Inr ds"
    and cs: "collect_results (lower_condition (map fst ds)) (dets_conditions (sr_detection rule)) = Inr cs"
    and ir: "ir_detections ir = ds" "ir_conditions ir = cs"
    unfolding lower_rule_def by (auto simp: result_simps)
  have "list_all (\<lambda>e. ir_detection_wf (snd e)) ds"
    by (rule collect_list_all [OF ds [unfolded collect_values_def]])
       (use lowered_wf assms(2) in \<open>auto simp: list_all_iff result_map_Inr rule_typed_def\<close>)
  moreover have "list_all (\<lambda>c. counts_nonzero (ir_condition_to_expr c)) cs"
    by (rule collect_list_all [OF cs])
       (use condition_round_trip assms(2) in \<open>auto simp: rule_typed_def list_all_iff condition_expr_same\<close>)
  ultimately show ?thesis
    using keys_collect_values [OF ds] assms(2) ir
    by (simp add: ir_rule_wf_def rule_typed_def case_prod_unfold)
qed

section \<open>Rules\<close>

lemma rule_exact:
  assumes laws: "matcher_laws env" "event_wf ev" and wf: "ir_rule_wf ir"
    and safe: "list_all (\<lambda>(n, d). detection_regex_free d) (ir_detections ir) \<or> float_law env \<and> ascii_event ev"
    and compiled: "compile_to_compiled env ir = Inr c"
  shows "evaluate_rule env c ev \<noteq> None \<longleftrightarrow> ir_rule_holds env ev ir"
proof -
  from compiled obtain ds where ds: "collect_values (compile_ir_detection env) (ir_detections ir) = Inr ds"
    and c: "cru_detections c = ds" "cru_conditions c = map ir_condition_to_expr (ir_conditions ir)"
    by (auto simp: compile_to_compiled_def result_map_Inr Let_def)
  have verdicts: "map (\<lambda>(k, x). (k, ir_detection_holds env ev x)) (ir_detections ir)
      = map (\<lambda>(k, y). (k, eval_detection_with_bloom env ev no_bloom y)) ds"
  proof (rule values_verdicts [OF ds])
    fix k x y
    assume kx: "(k, x) \<in> set (ir_detections ir)" and y: "compile_ir_detection env x = Inr y"
    have "ir_detection_wf x" "detection_regex_free x \<or> float_law env \<and> ascii_event ev"
      using wf safe kx by (auto simp: ir_rule_wf_def list_all_iff)
    from detection_exact [OF laws this y [unfolded compile_ir_detection_def]]
    show "ir_detection_holds env ev x = eval_detection_with_bloom env ev no_bloom y" ..
  qed
  have names: "map fst ds = map fst (ir_detections ir)" by (rule keys_collect_values [OF ds])
  have "eval_condition_matches_with_bloom env ev no_bloom (ir_condition_to_expr x) ds
      = over_verdicts (map (\<lambda>(k, x). (k, ir_detection_holds env ev x)) (ir_detections ir)) x"
    if "x \<in> set (ir_conditions ir)" for x
  proof -
    have "eval_condition_matches_with_bloom env ev no_bloom (ir_condition_to_expr x) ds
        = cond_sem (map fst ds) (det_holds env ev no_bloom ds) (ir_condition_to_expr x)"
      by (rule eval_condition_sem) (use names wf that in \<open>auto simp: ir_rule_wf_def list_all_iff\<close>)
    also have "\<dots> = over_verdicts (map (\<lambda>(k, x). (k, ir_detection_holds env ev x)) (ir_detections ir)) x"
      unfolding verdicts over_verdicts_def
      by (simp add: det_holds_def [abs_def] verdict_lookup comp_def case_prod_unfold)
    finally show ?thesis .
  qed
  then show ?thesis
    by (auto simp: evaluate_rule_def evaluate_rule_with_bloom_def eval_conditions_loop_None c
        ir_rule_holds_def list_ex_iff)
qed

text \<open>
  C3: a compiled rule means what its intermediate representation says.  Whenever compile_rule
  accepts a rule, the rule was lowered to some ir, and the compiled rule fires on an event exactly
  when one of the conditions of ir is true of its detections, with every item's values tested one
  by one: alternatives as a disjunction, all as a conjunction, neq as a negation, absent fields,
  keywords and array members each by their own reading.  The automata, regex sets and
  case-insensitive groups of the compiled form decide nothing else.  Texts must be ASCII unless the
  rule compiles without regexes; the laws are those of the matching libraries.
\<close>

theorem compile_rule_exact:
  assumes "matcher_laws env" and "event_wf ev" and "rule_typed rule"
    and "compile_rule env ye rule = Inr c" and "float_law env \<and> ascii_event ev
      \<or> (\<forall>ir. lower_rule env ye default_lower_options rule = Inr ir
           \<longrightarrow> list_all (\<lambda>(n, d). detection_regex_free d) (ir_detections ir))"
  shows "\<exists>ir. lower_rule env ye default_lower_options rule = Inr ir
    \<and> (evaluate_rule env c ev \<noteq> None \<longleftrightarrow> ir_rule_holds env ev ir)"
proof -
  from assms(4) obtain ir where ir: "lower_rule env ye default_lower_options rule = Inr ir"
    and c: "compile_to_compiled env ir = Inr c"
    unfolding compile_rule_def
    by (cases "lower_rule env ye default_lower_options rule") (auto simp: map_error_def)
  from rule_exact [OF assms(1,2) lowered_rule_wf [OF ir assms(3)] _ c] assms(5) ir
  show ?thesis by blast
qed

definition keyword_rule :: "int yaml_value sigma_rule" where
  "keyword_rule = sample_sigma_rule
     \<lparr> sr_detection := (sr_detection sample_sigma_rule) \<lparr> dets_conditions := [CondIdentifier ''kw''] \<rparr> \<rparr>"

lemma literal_float_law: "float_law literal_env"
  by (simp add: float_law_def literal_env_def is_ascii_show_int)

theorem compile_rule_exact_witness:
  "\<exists>c. compile_rule literal_env literal_yaml keyword_rule = Inr c
    \<and> evaluate_rule literal_env c (plain_event ''a X'') \<noteq> None"
proof -
  have "\<not> isl (compile_rule literal_env literal_yaml keyword_rule)" by code_simp
  then obtain c where c: "compile_rule literal_env literal_yaml keyword_rule = Inr c"
    by (cases "compile_rule literal_env literal_yaml keyword_rule") auto
  have typed: "rule_typed keyword_rule" by code_simp
  have ascii: "ascii_event (plain_event ''a X'')"
    by (simp add: ascii_event_def plain_event_def is_ascii_def is_ascii_char_def)
  have "case lower_rule literal_env literal_yaml default_lower_options keyword_rule of
      Inr ir \<Rightarrow> ir_rule_holds literal_env (plain_event ''a X'') ir | Inl _ \<Rightarrow> False"
    by code_simp
  with compile_rule_exact [OF literal_matcher_laws event_wf_plain typed c] literal_float_law ascii c
  show ?thesis by fastforce
qed

end
