(* ===== verification/PipelineProps.thy ===== *)
theory PipelineProps
  imports Pipeline RuleSem
begin

text \<open>
  What the transformations do to the meaning of a rule: one-to-many field mappings are alternatives,
  an added condition conjoins, placeholders expand to all combinations of their values, and replaced
  strings stay consistent with their text.
\<close>

lemma collect_results_append:
  "collect_results f (xs @ ys) = result_bind (collect_results f xs) (\<lambda>us. result_map ((@) us) (collect_results f ys))"
  by (induction xs) (auto simp: result_bind_def result_map_def split: sum.splits)

section \<open>Field mappings\<close>

text \<open>What an item says of an event, through its intermediate form.\<close>

definition item_verdict :: "ext_env \<Rightarrow> lower_options \<Rightarrow> event \<Rightarrow> detection_item \<Rightarrow> bool" where
  "item_verdict env opts ev item =
     (case lower_detection_item env opts item of Inr i \<Rightarrow> ir_item_holds env ev i | Inl _ \<Rightarrow> False)"

lemma lowered_items_hold:
  assumes "lower_detection env opts (DAllOf items) = Inr d"
  shows "ir_detection_holds env ev d \<longleftrightarrow> (\<forall>i \<in> set items. item_verdict env opts ev i)"
proof -
  from assms obtain ds where d: "d = IdAllOf ds"
    and ds: "collect_results (lower_detection_item env opts) items = Inr ds"
    by (auto simp: result_map_Inr split: if_splits)
  have "list_all (ir_item_holds env ev) ds = list_all (item_verdict env opts ev) items"
    using results_pointwise(2) [OF ds, of "item_verdict env opts ev" "ir_item_holds env ev"]
    by (simp add: item_verdict_def)
  then show ?thesis by (simp add: d list_all_iff)
qed

lemma lowered_branches_hold:
  assumes "lower_detection env opts (DAnyOf (map DAllOf brs)) = Inr d"
  shows "ir_detection_holds env ev d \<longleftrightarrow> (\<exists>b \<in> set brs. \<forall>i \<in> set b. item_verdict env opts ev i)"
proof -
  let ?P = "\<lambda>d. case d of DAllOf items \<Rightarrow> \<forall>i \<in> set items. item_verdict env opts ev i | _ \<Rightarrow> False"
  from assms obtain ds where d: "d = IdAnyOf ds"
    and ds: "collect_results (lower_detection env opts) (map DAllOf brs) = Inr ds"
    by (auto simp: result_map_Inr split: if_splits)
  have "list_ex (ir_detection_holds env ev) ds = list_ex ?P (map DAllOf brs)"
  proof (rule results_pointwise(1) [OF ds])
    fix x y
    assume "x \<in> set (map DAllOf brs)" "lower_detection env opts x = Inr y"
    then show "?P x = ir_detection_holds env ev y"
      using lowered_items_hold by (auto simp del: lower_detection.simps ir_detection_holds.simps)
  qed
  then show ?thesis by (auto simp: d list_ex_iff)
qed

lemma cartesian_step:
  "(\<exists>c \<in> set (fold (\<lambda>group result. concat (map (\<lambda>p. map (\<lambda>e. p @ [e]) group) result)) xss acc). \<forall>x \<in> set c. P x)
   \<longleftrightarrow> (\<exists>c \<in> set acc. \<forall>x \<in> set c. P x) \<and> (\<forall>xs \<in> set xss. \<exists>x \<in> set xs. P x)"
  by (induction xss arbitrary: acc) (auto simp: ball_Un)

lemma cartesian_exists:
  "(\<exists>c \<in> set (cartesian_product xss). \<forall>x \<in> set c. P x) \<longleftrightarrow> (\<forall>xs \<in> set xss. \<exists>x \<in> set xs. P x)"
  by (simp add: cartesian_product_def cartesian_step)

lemma length_cartesian_step:
  "length (fold (\<lambda>group result. concat (map (\<lambda>p. map (\<lambda>e. p @ [e]) group) result)) xss acc)
   = length acc * prod_list (map length xss)"
  by (induction xss arbitrary: acc) (simp_all add: length_concat comp_def sum_list_triv)

lemma length_cartesian: "length (cartesian_product xss) = prod_list (map length xss)"
  by (simp add: cartesian_product_def length_cartesian_step)

lemma saturating_product:
  "list_all (\<lambda>n. 0 < n) ns \<Longrightarrow>
   foldl usize_saturating_mul (min a u64_max) ns = min (a * prod_list ns) u64_max"
proof (induction ns arbitrary: a)
  case Nil
  then show ?case by simp
next
  case (Cons n ns)
  have "min (min a u64_max * n) u64_max = min (a * n) u64_max"
  proof (cases "a \<le> u64_max")
    case False
    then have "u64_max * 1 \<le> u64_max * n" "u64_max * 1 \<le> a * n"
      using Cons.prems by (intro mult_le_mono; simp)+
    then have "min (u64_max * n) u64_max = u64_max" "min (a * n) u64_max = u64_max"
      by (simp_all only: mult.right_neutral min_absorb2)
    with False show ?thesis by (simp add: min_absorb2)
  qed (simp add: min_def)
  then have "usize_saturating_mul (min a u64_max) n = min (a * n) u64_max"
    by (simp add: usize_saturating_mul_def)
  with Cons show ?case by (simp add: mult.assoc)
qed

text \<open>
  What a mapping makes of an item it applies to, from the names of the mapping alone: the plain field
  names among the values of a field reference become the names they map to, and the item has one
  alternative for each name its own field maps to.
\<close>

definition reference_targets ::
    "pipe_env \<Rightarrow> pipeline_state \<Rightarrow> name_conditions \<Rightarrow> field_mapper \<Rightarrow> sigma_value \<Rightarrow> sigma_value list" where
  "reference_targets pl st fcs f v =
     (case v of
        SvString s \<Rightarrow>
          (case as_plain s of
             Some name \<Rightarrow>
               (case f name of
                  Some (n # ns) \<Rightarrow>
                    if field_conditions_match pl st fcs name
                    then map (\<lambda>x. SvString (sigma_string_new x)) (n # ns) else [v]
                | _ \<Rightarrow> [v])
           | None \<Rightarrow> [v])
      | _ \<Rightarrow> [v])"

definition referred ::
    "pipe_env \<Rightarrow> pipeline_state \<Rightarrow> item_conditions \<Rightarrow> name_conditions \<Rightarrow> field_mapper \<Rightarrow> detection_item
     \<Rightarrow> detection_item" where
  "referred pl st dcs fcs f item =
     (if MdFieldRef \<in> set (fs_modifiers (di_field item)) \<and> item_conditions_match pl st dcs fcs item
      then item \<lparr> di_values := concat (map (reference_targets pl st fcs f) (di_values item)) \<rparr> else item)"

definition mapped_items ::
    "pipe_env \<Rightarrow> pipeline_state \<Rightarrow> item_conditions \<Rightarrow> name_conditions \<Rightarrow> field_mapper \<Rightarrow> detection_item
      \<Rightarrow> detection_item list" where
  "mapped_items pl st dcs fcs f item =
     (let item' = referred pl st dcs fcs f item
      in case fs_name (di_field item) of
           Some name \<Rightarrow>
             (case f name of
                Some (n # ns) \<Rightarrow>
                  if item_conditions_match pl st dcs fcs item \<and> field_conditions_match pl st fcs name
                  then map (\<lambda>x. item' \<lparr> di_field := (di_field item) \<lparr> fs_name := Some x \<rparr> \<rparr>) (n # ns)
                  else [item']
              | _ \<Rightarrow> [item'])
         | None \<Rightarrow> [item'])"

lemma mapped_items_nonempty: "mapped_items pl st dcs fcs f item \<noteq> []"
  by (auto simp: mapped_items_def Let_def split: option.split list.split)

lemma referred_field [simp]: "di_field (referred pl st dcs fcs f item) = di_field item"
  by (simp add: referred_def)

lemma resolved_alternatives:
  "item_alternatives (referred pl st dcs fcs f item)
     (resolve_name pl st fcs f (referred pl st dcs fcs f item) (item_conditions_match pl st dcs fcs item))
   = mapped_items pl st dcs fcs f item"
  by (auto simp: mapped_items_def resolve_name_def with_name_def Let_def split: option.split list.split)

lemma reference_values_mapped:
  "reference_values pl st fcs f title mapped renames vs = Inr (vs', renames') \<Longrightarrow>
   vs' = mapped @ concat (map (reference_targets pl st fcs f) vs)"
proof (induction vs arbitrary: mapped renames)
  case (Cons v r)
  show ?case
  proof (cases "\<exists>s name n ns. v = SvString s \<and> as_plain s = Some name \<and> f name = Some (n # ns)
      \<and> field_conditions_match pl st fcs name")
    case True
    then obtain s name n ns where v: "v = SvString s" "as_plain s = Some name" "f name = Some (n # ns)"
      "field_conditions_match pl st fcs name" by blast
    then have "reference_targets pl st fcs f v = map (\<lambda>x. SvString (sigma_string_new x)) (n # ns)"
      by (simp add: reference_targets_def)
    with Cons.prems Cons.IH [of "mapped @ map (\<lambda>x. SvString (sigma_string_new x)) (n # ns)"] v
    show ?thesis by (auto split: if_splits)
  next
    case False
    then have one: "reference_targets pl st fcs f v = [v]"
      by (auto simp: reference_targets_def split: sigma_value.split option.split list.split)
    from False Cons.prems have "reference_values pl st fcs f title (mapped @ [v]) renames r = Inr (vs', renames')"
      by (auto split: sigma_value.splits option.splits if_splits simp: neq_Nil_conv)
    from Cons.IH [OF this] one show ?thesis by simp
  qed
qed simp

lemma plain_alternative: "\<not> is_expanded r \<Longrightarrow> item_alternatives item r = [renamed_item item r]"
  by (cases r) (simp_all add: renamed_item_def)

text \<open>The items of a detection, rebuilt.\<close>

lemma transformed_items:
  assumes "transform_detection_fields pl st dcs fcs f title (DAllOf items) = Inr (d, renames)"
  shows "rebuild_items title (map (\<lambda>i. (referred pl st dcs fcs f i,
      resolve_name pl st fcs f (referred pl st dcs fcs f i) (item_conditions_match pl st dcs fcs i))) items) = Inr d"
proof -
  let ?ok = "item_conditions_match pl st dcs fcs"
  let ?step = "\<lambda>(item, ok). if ok then transform_field_reference_values pl st fcs f title item
                            else Inr (item, [])"
  from assms obtain rs where rs: "collect_results ?step (zip items (map ?ok items)) = Inr rs"
    and d: "rebuild_items title (map (\<lambda>(item, ok). (item, resolve_name pl st fcs f item ok))
        (zip (map fst rs) (map ?ok items))) = Inr d"
    by (auto simp: transform_items_def result_bind_Inr result_map_Inr Let_def)
  have one: "fst r = referred pl st dcs fcs f i" if "?step (i, ?ok i) = Inr r" for i r
    using that reference_values_mapped [of pl st fcs f title "[]" "[]" "di_values i"]
    by (auto simp: transform_field_reference_values_def referred_def result_map_Inr split: if_splits)
  have "map fst rs = map (referred pl st dcs fcs f) items"
    using rs one unfolding collect_results_Inr
    by (intro nth_equalityI) (auto simp: list_all2_conv_all_nth simp del: case_prod_conv)
  with d show ?thesis by (simp add: zip_map_map zip_same_conv_map comp_def)
qed

lemma rebuilt_hold:
  assumes r: "rebuild_items title rs = Inr d" and l: "lower_detection env opts d = Inr ird"
  shows "ir_detection_holds env ev ird
    \<longleftrightarrow> (\<forall>(item, r) \<in> set rs. \<exists>alt \<in> set (item_alternatives item r). item_verdict env opts ev alt)"
proof (cases "list_ex (is_expanded \<circ> snd) rs")
  case False
  then have d: "d = DAllOf (map (\<lambda>(i, r). renamed_item i r) rs)" using r by (simp add: rebuild_items_def)
  have "item_alternatives item r = [renamed_item item r]" if "(item, r) \<in> set rs" for item r
    using False that plain_alternative [of r item] by (fastforce simp: list_ex_iff)
  then show ?thesis
    unfolding lowered_items_hold [OF l [unfolded d]] by fastforce
next
  case True
  then have d: "d = DAnyOf (map DAllOf (cartesian_product (map (\<lambda>(i, r). item_alternatives i r) rs)))"
    using r by (simp add: rebuild_items_def Let_def split: if_splits)
  show ?thesis
    unfolding lowered_branches_hold [OF l [unfolded d]] cartesian_exists by (simp add: case_prod_beta')
qed

lemma rebuilt_bounded:
  assumes "rebuild_items title rs = Inr (DAnyOf ds)"
    and "\<And>item r. (item, r) \<in> set rs \<Longrightarrow> item_alternatives item r \<noteq> []"
  shows "length ds = prod_list (map (\<lambda>(item, r). length (item_alternatives item r)) rs)
    \<and> length ds \<le> max_field_mapping_combinations"
proof -
  let ?ns = "map (\<lambda>(item, r). length (item_alternatives item r)) rs"
  have ns: "map length (map (\<lambda>(i, r). item_alternatives i r) rs) = ?ns"
    by (simp add: comp_def case_prod_beta')
  from assms(1) have ds: "ds = map DAllOf (cartesian_product (map (\<lambda>(i, r). item_alternatives i r) rs))"
    and total: "foldl usize_saturating_mul 1 ?ns \<le> max_field_mapping_combinations"
    by (auto simp: rebuild_items_def Let_def not_less comp_def case_prod_beta' split: if_splits)
  have "list_all (\<lambda>n. 0 < n) ?ns" using assms(2) by (auto simp: list_all_iff)
  from saturating_product [OF this, of 1] total
  have "min (prod_list ?ns) u64_max \<le> max_field_mapping_combinations"
    by (simp add: min_def u64_max_def split: if_splits)
  then have "prod_list ?ns \<le> max_field_mapping_combinations"
    by (auto simp: u64_max_def max_field_mapping_combinations_def min_def split: if_splits)
  then show ?thesis by (simp add: ds length_cartesian comp_def case_prod_beta')
qed

text \<open>
  C35: A field mapping turns each item of a selection into its alternatives, one for each name its field
  maps to, whatever the modifiers of the item: the transformed selection holds on an event exactly when
  for every item one of the items with a mapped name holds, the field names among the values of a field
  reference being replaced by the names they map to.  Items to which the mapping or its conditions do
  not apply stay as they are.  A selection that had to be split has one branch for each combination of
  alternatives, and never more than 4096.
\<close>

theorem field_mapping_exact:
  assumes "transform_detection_fields pl st dcs fcs f title (DAllOf items) = Inr (d, renames)"
    and "lower_detection env opts d = Inr ird"
  shows "(ir_detection_holds env ev ird
      \<longleftrightarrow> (\<forall>item \<in> set items. \<exists>alt \<in> set (mapped_items pl st dcs fcs f item). item_verdict env opts ev alt))
    \<and> (\<forall>ds. d = DAnyOf ds \<longrightarrow> length ds \<le> max_field_mapping_combinations
        \<and> length ds = prod_list (map (\<lambda>i. length (mapped_items pl st dcs fcs f i)) items))"
proof -
  note r = transformed_items [OF assms(1)]
  have "ir_detection_holds env ev ird
      \<longleftrightarrow> (\<forall>item \<in> set items. \<exists>alt \<in> set (mapped_items pl st dcs fcs f item). item_verdict env opts ev alt)"
    using rebuilt_hold [OF r assms(2), of ev] by (simp add: resolved_alternatives)
  moreover have "length ds \<le> max_field_mapping_combinations
      \<and> length ds = prod_list (map (\<lambda>i. length (mapped_items pl st dcs fcs f i)) items)"
    if "d = DAnyOf ds" for ds
  proof -
    have "item_alternatives item res \<noteq> []" if "(item, res) \<in> set (map (\<lambda>i. (referred pl st dcs fcs f i,
        resolve_name pl st fcs f (referred pl st dcs fcs f i) (item_conditions_match pl st dcs fcs i))) items)" for item res
      using that mapped_items_nonempty by (auto simp: resolved_alternatives)
    from rebuilt_bounded [OF r [unfolded that] this] show ?thesis by (simp add: resolved_alternatives comp_def)
  qed
  ultimately show ?thesis by blast
qed

definition literal_pipe :: pipe_env where
  "literal_pipe = \<lparr>
     pl_ext = literal_env, pl_pest = \<lparr> pest_failure = \<lambda>_. ([], None), pest_line_col = \<lambda>_ _. (0, 0) \<rparr>,
     pl_re_find = (\<lambda>re t. if starts_with t re then Some 0 else None),
     pl_re_replace_all = (\<lambda>re t r. if t = re then r else t), pl_re_error = (\<lambda>_. []),
     pl_uni_upper = (\<lambda>s. s), pl_uni_alphanumeric = (\<lambda>_. True), pl_uni_uppercase = (\<lambda>_. False) \<rparr>"

definition sample_items :: "detection_item list" where
  "sample_items = [field_item ''Img'' [SvString (sigma_string_new ''cmd'')],
                   field_item ''User'' [SvString (sigma_string_new ''bob'')]]"

definition sample_mapping :: "(string \<times> string list) list" where
  "sample_mapping = [(''Img'', [''Image'', ''Exe''])]"

definition mapped_sample :: detection where
  "mapped_sample = DAnyOf (map (\<lambda>n. DAllOf [field_item n [SvString (sigma_string_new ''cmd'')],
                   field_item ''User'' [SvString (sigma_string_new ''bob'')]]) [''Image'', ''Exe''])"

theorem field_mapping_exact_witness:
  "\<exists>ird. lower_detection literal_env default_lower_options mapped_sample = Inr ird
     \<and> ir_detection_holds literal_env (kv_event [(''Exe'', ''cmd''), (''User'', ''bob'')]) ird
       = list_all (\<lambda>item. list_ex
             (item_verdict literal_env default_lower_options (kv_event [(''Exe'', ''cmd''), (''User'', ''bob'')]))
             (mapped_items literal_pipe pipeline_state_default [] [] (mapping_names sample_mapping) item))
           sample_items"
proof -
  have step: "collect_results (\<lambda>(item, ok). if ok
        then transform_field_reference_values literal_pipe pipeline_state_default [] (mapping_names sample_mapping) [] item
        else Inr (item, []))
      (zip sample_items (map (item_conditions_match literal_pipe pipeline_state_default [] []) sample_items))
      = Inr (map (\<lambda>i. (i, [])) sample_items)" by code_simp
  have r: "map (\<lambda>(item, ok). (item, resolve_name literal_pipe pipeline_state_default [] (mapping_names sample_mapping) item ok))
        (zip (map fst (map (\<lambda>i. (i, [] :: field_rename list)) sample_items))
          (map (item_conditions_match literal_pipe pipeline_state_default [] []) sample_items))
      = zip sample_items [RsExpanded [''Image'', ''Exe''], RsUnchanged]" by code_simp
  have "rebuild_items [] (zip sample_items [RsExpanded [''Image'', ''Exe''], RsUnchanged]) = Inr mapped_sample"
    by (simp add: rebuild_items_def sample_items_def mapped_sample_def cartesian_product_def with_name_def
        field_item_def usize_saturating_mul_def u64_max_def max_field_mapping_combinations_def)
  then have t: "transform_detection_fields literal_pipe pipeline_state_default [] [] (mapping_names sample_mapping)
      [] (DAllOf sample_items) = Inr (mapped_sample, [])"
    by (simp only: transform_detection_fields.simps transform_items_def Let_def step r result_bind_def result_map_def
        sum.case) (simp add: sample_items_def)
  have "is_ok (lower_detection literal_env default_lower_options mapped_sample)" by code_simp
  then obtain ird where l: "lower_detection literal_env default_lower_options mapped_sample = Inr ird"
    by (cases "lower_detection literal_env default_lower_options mapped_sample") simp_all
  from field_mapping_exact [OF t l] l show ?thesis by (auto simp: list_all_iff list_ex_iff)
qed

section \<open>Added conditions\<close>

text \<open>No selector of the condition asks for names that start with an underscore.\<close>

fun no_underscore_pattern :: "condition_expr \<Rightarrow> bool" where
  "no_underscore_pattern (CondIdentifier n) = True"
| "no_underscore_pattern (CondAnd es) = list_all no_underscore_pattern es"
| "no_underscore_pattern (CondOr es) = list_all no_underscore_pattern es"
| "no_underscore_pattern (CondNot e) = no_underscore_pattern e"
| "no_underscore_pattern (CondSelector q p) =
     (case p of Them \<Rightarrow> True | Pattern pat \<Rightarrow> \<not> starts_with pat ''_'')"

lemma underscore_hidden:
  "no_underscore_pattern (CondSelector q p) \<Longrightarrow> starts_with n ''_'' \<Longrightarrow> \<not> matches_detection_name p n"
  by (cases p) auto

lemma collected_member: "collect_results f xs = Inr ys \<Longrightarrow> x \<in> set xs \<Longrightarrow> \<exists>y. f x = Inr y"
  by (auto simp: collect_results_Inr list_all2_conv_all_nth in_set_conv_nth)

lemma lowered_expr: "lower_condition names e = Inr c \<Longrightarrow> ir_condition_to_expr c = e"
  by (simp add: condition_expr_same condition_round_trip)

lemma lowered_exprs:
  "collect_results (lower_condition names) es = Inr cs \<Longrightarrow> map ir_condition_to_expr cs = es"
  by (auto simp: collect_results_Inr list_all2_conv_all_nth intro!: nth_equalityI lowered_expr)

text \<open>One more hidden name changes nothing for a condition that was lowered without it.\<close>

lemma hidden_name_unseen:
  assumes n: "starts_with n ''_''" "n \<notin> set keys" and agree: "\<And>k. k \<in> set keys \<Longrightarrow> \<tau> k = \<sigma> k"
  shows "lower_condition keys e = Inr c \<Longrightarrow> no_underscore_pattern e
    \<Longrightarrow> cond_sem (keys @ [n]) \<tau> e = cond_sem keys \<sigma> e"
proof (induction e arbitrary: c)
  case (CondIdentifier i)
  then show ?case using n(2) agree by (auto split: if_splits)
next
  case (CondAnd es)
  then obtain cs where cs: "collect_results (lower_condition keys) es = Inr cs" by (auto simp: result_map_Inr)
  have "cond_sem (keys @ [n]) \<tau> x = cond_sem keys \<sigma> x" if "x \<in> set es" for x
    using collected_member [OF cs that] CondAnd.IH [OF that] CondAnd.prems(2) that by (auto simp: list_all_iff)
  then show ?case by (simp add: list_all_iff)
next
  case (CondOr es)
  then obtain cs where cs: "collect_results (lower_condition keys) es = Inr cs" by (auto simp: result_map_Inr)
  have "cond_sem (keys @ [n]) \<tau> x = cond_sem keys \<sigma> x" if "x \<in> set es" for x
    using collected_member [OF cs that] CondOr.IH [OF that] CondOr.prems(2) that by (auto simp: list_all_iff)
  then show ?case by (simp add: list_ex_iff)
next
  case (CondNot e)
  then show ?case by (auto simp: result_map_Inr)
next
  case (CondSelector q p)
  have "filter (matches_detection_name p) (keys @ [n]) = filter (matches_detection_name p) keys"
    using underscore_hidden [OF CondSelector.prems(2) n(1)] by simp
  moreover have "filter \<tau> (filter (matches_detection_name p) keys) = filter \<sigma> (filter (matches_detection_name p) keys)"
    by (rule filter_cong) (auto simp: agree)
  ultimately show ?case
    unfolding cond_sem.simps Let_def by (cases q) (auto simp: list_ex_iff list_all_iff agree)
qed

definition added_name :: "added_condition \<Rightarrow> 'y sigma_rule \<Rightarrow> string" where
  "added_name added rule =
     (case ac_name added of
        Some n \<Rightarrow> n
      | None \<Rightarrow> ''__pipeline_cond_'' @ show_nat (length (dets_named (sr_detection rule))))"

lemma added_rule:
  assumes "add_conditions added rule = Inr rule'"
    and "added_name added rule \<notin> set (map fst (dets_named (sr_detection rule)))"
  shows "rule' = rule \<lparr> sr_detection := (sr_detection rule)
      \<lparr> dets_named := dets_named (sr_detection rule)
           @ [(added_name added rule, DAllOf (added_items (sr_logsource rule) added))],
        dets_conditions := map (conjoin_added added (added_name added rule)) (dets_conditions (sr_detection rule)) \<rparr> \<rparr>"
  using assms
  by (auto simp: add_conditions_def added_name_def Let_def map_insert_new split: option.splits if_splits)

lemma conjoined_sem:
  "cond_sem keys \<sigma> (conjoin_added added n e)
   = (cond_sem keys \<sigma> e \<and> (n \<in> set keys \<and> \<sigma> n) \<noteq> ac_negated added)"
  by (auto simp: conjoin_added_def added_reference_def)

lemma rule_holds_exprs:
  assumes "collect_results (lower_condition names) es = Inr (ir_conditions ir)"
  shows "ir_rule_holds env ev ir = list_ex (cond_sem (map fst (ir_detections ir))
     (\<lambda>n. map_of (map (\<lambda>(n, d). (n, ir_detection_holds env ev d)) (ir_detections ir)) n = Some True)) es"
proof -
  have ks: "map fst (map (\<lambda>(n, d). (n, ir_detection_holds env ev d)) (ir_detections ir)) = map fst (ir_detections ir)"
    by (simp add: case_prod_beta' comp_def)
  show ?thesis
    unfolding lowered_exprs [OF assms, symmetric] ir_rule_holds_def over_verdicts_def ks
    by (simp add: list_ex_iff)
qed

text \<open>
  C36: Adding a condition to a rule conjoins it: the rule holds afterwards exactly when it held before
  and all added items hold, or not all of them when negated.  The added detection has a new name that
  starts with an underscore, as the generated ones do, and no pattern of the rule asks for such names.
\<close>

theorem added_condition_conjoins:
  assumes "add_conditions added rule = Inr rule'"
    and "starts_with (added_name added rule) ''_''"
    and "added_name added rule \<notin> set (map fst (dets_named (sr_detection rule)))"
    and "list_all no_underscore_pattern (dets_conditions (sr_detection rule))"
    and "lower_rule env ye opts rule = Inr ir" and "lower_rule env ye opts rule' = Inr ir'"
  shows "ir_rule_holds env ev ir' \<longleftrightarrow> ir_rule_holds env ev ir
    \<and> list_all (item_verdict env opts ev) (added_items (sr_logsource rule) added) \<noteq> ac_negated added"
proof -
  let ?ds = "sr_detection rule" and ?n = "added_name added rule"
  let ?items = "added_items (sr_logsource rule) added"
  obtain cs where dets: "collect_values (lower_detection env opts) (dets_named ?ds) = Inr (ir_detections ir)"
    and cs: "collect_results (lower_condition (map fst (ir_detections ir))) (dets_conditions ?ds) = Inr (ir_conditions ir)"
    using assms(5) by (auto simp: lower_rule_def result_simps)
  from assms(6) have dets': "collect_values (lower_detection env opts) (dets_named ?ds @ [(?n, DAllOf ?items)])
        = Inr (ir_detections ir')"
    and cs': "collect_results (lower_condition (map fst (ir_detections ir')))
        (map (conjoin_added added ?n) (dets_conditions ?ds)) = Inr (ir_conditions ir')"
    unfolding added_rule [OF assms(1,3)] by (auto simp: lower_rule_def result_simps)
  obtain d where d: "lower_detection env opts (DAllOf ?items) = Inr d"
    and ir': "ir_detections ir' = ir_detections ir @ [(?n, d)]"
    using dets' dets
    unfolding collect_values_def collect_results_append
    by (auto simp del: lower_detection.simps simp: result_bind_Inr result_map_Inr split: sum.splits)
  have ks: "map fst (ir_detections ir) = map fst (dets_named ?ds)"
    using dets by (auto simp: collect_values_Inr list_all2_conv_all_nth intro!: nth_equalityI)
  define \<sigma> where "\<sigma> = (\<lambda>n. map_of (map (\<lambda>(n, d). (n, ir_detection_holds env ev d)) (ir_detections ir)) n = Some True)"
  define \<tau> where "\<tau> = (\<lambda>n. map_of (map (\<lambda>(n, d). (n, ir_detection_holds env ev d)) (ir_detections ir')) n = Some True)"
  have new: "?n \<notin> fst ` set (ir_detections ir)" using assms(3) ks by (metis list.set_map)
  have agree: "\<tau> k = \<sigma> k" if "k \<in> set (map fst (ir_detections ir))" for k
  proof -
    have "k \<noteq> ?n" using that new by (metis list.set_map)
    then show ?thesis by (simp add: \<tau>_def \<sigma>_def ir' map_add_def split: option.split)
  qed
  have n: "\<tau> ?n = ir_detection_holds env ev d"
    using new by (auto simp: \<tau>_def ir' map_of_eq_None_iff image_image case_prod_beta' map_add_def split: option.splits dest!: map_of_SomeD)
  have "cond_sem (map fst (ir_detections ir')) \<tau> (conjoin_added added ?n e)
      \<longleftrightarrow> cond_sem (map fst (ir_detections ir)) \<sigma> e \<and> ir_detection_holds env ev d \<noteq> ac_negated added"
    if e: "e \<in> set (dets_conditions ?ds)" for e
  proof -
    obtain c where c: "lower_condition (map fst (ir_detections ir)) e = Inr c"
      using collected_member [OF cs e] by blast
    have fresh: "?n \<notin> set (map fst (ir_detections ir))" using assms(3) ks by simp
    have "no_underscore_pattern e" using assms(4) e by (simp add: list_all_iff)
    from hidden_name_unseen [OF assms(2) fresh agree c this] show ?thesis
      by (simp add: conjoined_sem ir' n)
  qed
  then show ?thesis
    unfolding rule_holds_exprs [OF cs'] rule_holds_exprs [OF cs] \<sigma>_def [symmetric] \<tau>_def [symmetric]
    using lowered_items_hold [OF d, of ev] by (auto simp: list_ex_iff list_all_iff)
qed

definition sample_added :: added_condition where
  "sample_added = \<lparr> ac_conditions = [(''User'', [SvString (sigma_string_new ''bob'')])], ac_field_refs = [],
     ac_negated = True, ac_prepend = False, ac_name = None, ac_template = False \<rparr>"

theorem added_condition_conjoins_witness:
  "\<exists>rule' ir ir'. add_conditions sample_added keyword_rule = Inr rule'
     \<and> lower_rule literal_env literal_yaml default_lower_options keyword_rule = Inr ir
     \<and> lower_rule literal_env literal_yaml default_lower_options rule' = Inr ir'
     \<and> ir_rule_holds literal_env (kv_event [(''User'', ''bob'')]) ir'
       = (ir_rule_holds literal_env (kv_event [(''User'', ''bob'')]) ir
          \<and> \<not> list_all (item_verdict literal_env default_lower_options (kv_event [(''User'', ''bob'')]))
               (added_items (sr_logsource keyword_rule) sample_added))"
proof -
  have "is_ok (result_bind (add_conditions sample_added keyword_rule)
      (\<lambda>r. map_error eval_error_from_ir (lower_rule literal_env literal_yaml default_lower_options r)))"
    by code_simp
  then obtain rule' ir' where r: "add_conditions sample_added keyword_rule = Inr rule'"
    and l': "lower_rule literal_env literal_yaml default_lower_options rule' = Inr ir'"
    by (auto simp: result_bind_def map_error_def split: sum.splits)
  have "is_ok (lower_rule literal_env literal_yaml default_lower_options keyword_rule)" by code_simp
  then obtain ir where l: "lower_rule literal_env literal_yaml default_lower_options keyword_rule = Inr ir"
    by (cases "lower_rule literal_env literal_yaml default_lower_options keyword_rule") simp_all
  have "starts_with (added_name sample_added keyword_rule) ''_''"
    "added_name sample_added keyword_rule \<notin> set (map fst (dets_named (sr_detection keyword_rule)))"
    "list_all no_underscore_pattern (dets_conditions (sr_detection keyword_rule))"
    "ac_negated sample_added"
    by code_simp+
  from added_condition_conjoins [OF r this(1-3) l l'] this(4) r l l' show ?thesis by auto
qed

section \<open>Placeholders\<close>

text \<open>The combinations of one element of each list, the last list varying fastest.\<close>

fun choices :: "'a list list \<Rightarrow> 'a list list" where
  "choices [] = [[]]"
| "choices (xs # xss) = concat (map (\<lambda>x. map ((#) x) (choices xss)) xs)"

lemma length_choices: "length (choices xss) = prod_list (map length xss)"
  by (induction xss) (simp_all add: length_concat comp_def sum_list_triv)

text \<open>
  The template of a raw text: a placeholder is a non-empty name without special characters between two
  percent signs; a backslash and a special character after it are text, as is every other character.
  Text between placeholders is kept whole.
\<close>

definition placeholder_name :: "string \<Rightarrow> bool" where
  "placeholder_name name \<longleftrightarrow> name \<noteq> [] \<and> set name \<inter> {CHR ''%'', CHR ''*'', CHR ''?'', backslash} = {}"

fun add_text :: "string \<Rightarrow> segment list \<Rightarrow> segment list" where
  "add_text t (SegLiteral u # segs) = SegLiteral (t @ u) # segs"
| "add_text t segs = SegLiteral t # segs"

inductive template_of :: "string \<Rightarrow> segment list \<Rightarrow> bool" where
  empty: "template_of [] []"
| hole: "placeholder_name name \<Longrightarrow> template_of s segs \<Longrightarrow>
    template_of (CHR ''%'' # name @ CHR ''%'' # s) (SegPlaceholder name # segs)"
| escape: "d \<in> {CHR ''%'', CHR ''*'', CHR ''?'', backslash} \<Longrightarrow> template_of s segs \<Longrightarrow>
    template_of (backslash # d # s) (add_text [backslash, d] segs)"
| char: "c = backslash \<longrightarrow> s = [] \<or> hd s \<notin> {CHR ''%'', CHR ''*'', CHR ''?'', backslash} \<Longrightarrow>
    c = CHR ''%'' \<longrightarrow> (\<nexists>name r. placeholder_name name \<and> s = name @ CHR ''%'' # r) \<Longrightarrow>
    template_of s segs \<Longrightarrow> template_of (c # s) (add_text [c] segs)"

fun segment_source :: "segment \<Rightarrow> string" where
  "segment_source (SegLiteral t) = t"
| "segment_source (SegPlaceholder name) = CHR ''%'' # name @ ''%''"

lemma source_add_text: "concat (map segment_source (add_text t segs)) = t @ concat (map segment_source segs)"
  by (induction t segs rule: add_text.induct) simp_all

lemma template_source: "template_of s segs \<Longrightarrow> concat (map segment_source segs) = s"
  by (induction rule: template_of.induct) (simp_all add: source_add_text)

lemma special_set: "is_template_special c \<longleftrightarrow> c \<in> {CHR ''%'', CHR ''*'', CHR ''?'', backslash}"
  by (auto simp: is_template_special_def)

lemma name_not_special: "placeholder_name name \<longleftrightarrow> name \<noteq> [] \<and> (\<forall>c \<in> set name. \<not> is_template_special c)"
  unfolding placeholder_name_def special_set by blast

lemma placeholder_at_name: "placeholder_name name \<Longrightarrow> placeholder_at (name @ CHR ''%'' # s) = Some (name, s)"
proof -
  assume n: "placeholder_name name"
  have "is_template_special (CHR ''%'')" by (simp add: is_template_special_def)
  with n have "takeWhile (\<lambda>c. \<not> is_template_special c) (name @ CHR ''%'' # s) = name"
    "dropWhile (\<lambda>c. \<not> is_template_special c) (name @ CHR ''%'' # s) = CHR ''%'' # s"
    by (simp_all add: name_not_special takeWhile_append2 dropWhile_append2)
  with n show ?thesis by (simp add: placeholder_at_def placeholder_name_def)
qed

lemma placeholder_at_None:
  assumes "\<nexists>name r. placeholder_name name \<and> s = name @ CHR ''%'' # r"
  shows "placeholder_at s = None"
proof (rule ccontr)
  define n r where "n = takeWhile (\<lambda>c. \<not> is_template_special c) s"
    and "r = dropWhile (\<lambda>c. \<not> is_template_special c) s"
  assume "placeholder_at s \<noteq> None"
  then have nr: "n \<noteq> []" "r \<noteq> []" "hd r = CHR ''%''"
    unfolding n_def r_def by (simp_all add: placeholder_at_def Let_def split: if_splits)
  have s: "s = n @ r" by (simp add: n_def r_def)
  from nr have "r = CHR ''%'' # tl r" by (metis list.collapse)
  with s have "s = n @ CHR ''%'' # tl r" by simp
  moreover have "\<forall>c \<in> set n. \<not> is_template_special c" by (auto simp: n_def dest: set_takeWhileD)
  with nr have "placeholder_name n" by (simp add: name_not_special)
  ultimately show False using assms by blast
qed

definition with_text :: "string \<Rightarrow> segment list \<Rightarrow> segment list" where
  "with_text t segs = (if t = [] then segs else add_text t segs)"

lemma with_text_hole: "with_text t (SegPlaceholder n # segs) = flush_template t @ SegPlaceholder n # segs"
  by (simp add: with_text_def flush_template_def)

lemma with_text_add: "u \<noteq> [] \<Longrightarrow> with_text t (add_text u segs) = with_text (t @ u) segs"
  by (induction u segs rule: add_text.induct) (simp_all add: with_text_def)

lemma template_loop: "template_of s segs \<Longrightarrow> segment_loop lit s = with_text lit segs"
proof (induction arbitrary: lit rule: template_of.induct)
  case empty
  then show ?case by (simp add: with_text_def flush_template_def)
next
  case (hole name s segs)
  then show ?case by (simp add: placeholder_at_name with_text_hole) (simp add: with_text_def)
next
  case (escape d s segs)
  then have "is_template_special d" by (simp only: special_set)
  with escape show ?case by (simp add: with_text_add)
next
  case (char c s segs)
  have pct: "placeholder_at s = None" if "c = CHR ''%''" using char(2) that placeholder_at_None by blast
  have esc: "s = [] \<or> \<not> is_template_special (hd s)" if "c = backslash" using char(1) that by (simp only: special_set)
  have "segment_loop lit (c # s) = segment_loop (lit @ [c]) s"
    using pct esc by (cases s) auto
  then show ?case by (simp add: char.IH with_text_add)
qed

lemma template_exists: "\<exists>segs. template_of s segs"
proof (induction s rule: length_induct)
  case (1 s)
  show ?case
  proof (cases s)
    case Nil
    then show ?thesis using template_of.empty by blast
  next
    case (Cons c r)
    consider (esc) d t where "c = backslash" "r = d # t" "d \<in> {CHR ''%'', CHR ''*'', CHR ''?'', backslash}"
      | (hole) name t where "c = CHR ''%''" "placeholder_name name" "r = name @ CHR ''%'' # t"
      | (char) "c = backslash \<longrightarrow> r = [] \<or> hd r \<notin> {CHR ''%'', CHR ''*'', CHR ''?'', backslash}"
          "c = CHR ''%'' \<longrightarrow> (\<nexists>name t. placeholder_name name \<and> r = name @ CHR ''%'' # t)"
      by (metis list.collapse)
    then show ?thesis
    proof cases
      case esc
      with Cons have "length t < length s" by simp
      with 1 obtain segs where "template_of t segs" by blast
      with esc Cons template_of.escape show ?thesis by blast
    next
      case hole
      with Cons have "length t < length s" by simp
      with 1 obtain segs where "template_of t segs" by blast
      with hole Cons template_of.hole show ?thesis by blast
    next
      case char
      from Cons have "length r < length s" by simp
      with 1 obtain segs where "template_of r segs" by blast
      from template_of.char [OF char this] Cons show ?thesis by auto
    qed
  qed
qed

lemma template_unique: "template_of s segs \<longleftrightarrow> segs = placeholder_segments s"
  using template_exists [of s] template_loop [of s _ "[]"]
  by (auto simp: placeholder_segments_def with_text_def)

text \<open>
  What a segment is replaced by.  In literal text a percent sign is escaped, unless a backslash escapes
  it already: read as tokens, an escaped special character stays as it is.
\<close>

fun tokens :: "string \<Rightarrow> string list" where
  "tokens [] = []"
| "tokens [c] = [[c]]"
| "tokens (c # d # s) =
     (if c = backslash \<and> d \<in> {CHR ''%'', CHR ''*'', CHR ''?'', backslash} then [c, d] # tokens s
      else [c] # tokens (d # s))"

definition guarded :: "string list \<Rightarrow> string" where
  "guarded ts = concat (map (\<lambda>t. if t = ''%'' then [backslash, CHR ''%''] else t) ts)"

definition replaced_name :: "placeholder_expansion \<Rightarrow> string \<Rightarrow> bool" where
  "replaced_name pe name \<longleftrightarrow>
     (\<forall>names. pe_include pe = Some names \<longrightarrow> name \<in> set names)
     \<and> (\<forall>names. pe_exclude pe = Some names \<longrightarrow> name \<notin> set names)
     \<and> (pe_allow_unresolved pe \<longrightarrow> pe_wildcard pe \<or> map_of (pe_vars pe) name \<noteq> None)"

fun segment_texts :: "placeholder_expansion \<Rightarrow> segment \<Rightarrow> string list" where
  "segment_texts pe (SegLiteral t) = [guarded (tokens t)]"
| "segment_texts pe (SegPlaceholder name) =
     (if \<not> replaced_name pe name then [CHR ''%'' # name @ ''%'']
      else if pe_wildcard pe then [''*'']
      else map (\<lambda>v. guarded (map (\<lambda>c. [c]) v)) (map_get [] (pe_vars pe) name))"

lemma escape_bare_tokens: "escape_bare_percent t = guarded (tokens t)"
  by (induction t rule: escape_bare_percent.induct)
     (simp_all add: guarded_def special_set del: insert_iff)

lemma escape_percent_tokens: "escape_percent v = guarded (map (\<lambda>c. [c]) v)"
  by (auto simp: escape_percent_def guarded_def comp_def intro!: arg_cong [where f = concat] map_cong)

lemma handles_replaced: "handles pe name = replaced_name pe name"
  by (auto simp: handles_def replaced_name_def split: option.splits)

text \<open>Every placeholder to replace has values.\<close>

fun segment_defined :: "placeholder_expansion \<Rightarrow> segment \<Rightarrow> bool" where
  "segment_defined pe (SegLiteral t) = True"
| "segment_defined pe (SegPlaceholder name) =
     (\<not> replaced_name pe name \<or> pe_wildcard pe
      \<or> (case map_of (pe_vars pe) name of Some vs \<Rightarrow> vs \<noteq> [] | None \<Rightarrow> False))"

definition extended :: "string list \<Rightarrow> string list list \<Rightarrow> string list" where
  "extended combos xss = concat (map (\<lambda>c. map (\<lambda>ts. c @ concat ts) (choices xss)) combos)"

lemma extended_Nil: "extended combos [] = combos"
  by (simp add: extended_def)

lemma extended_Cons:
  "extended combos (xs # xss) = extended (concat (map (\<lambda>c. map ((@) c) xs) combos)) xss"
  by (induction combos) (simp_all add: extended_def map_concat comp_def)

lemma segment_texts_pos: "segment_defined pe seg \<Longrightarrow> 0 < length (segment_texts pe seg)"
  by (cases seg) (auto simp: map_get_def split: option.splits)

lemma substitute_segment_exact:
  assumes "segment_defined pe seg" and "length combos \<le> max_placeholder_combinations"
  shows "length combos * length (segment_texts pe seg) \<le> max_placeholder_combinations \<Longrightarrow>
      substitute_segment pe title combos seg
      = Inr (concat (map (\<lambda>c. map ((@) c) (segment_texts pe seg)) combos))"
    and "max_placeholder_combinations < length combos * length (segment_texts pe seg) \<Longrightarrow>
      \<exists>e. substitute_segment pe title combos seg = Inl e"
  using assms
  by (cases seg; auto simp: escape_bare_tokens escape_percent_tokens [abs_def] handles_replaced
        placeholder_values_def usize_saturating_mul_def max_placeholder_combinations_def
        u64_max_def map_get_def comp_def min_def split: option.splits if_splits)+

lemma length_extended_one:
  "length (concat (map (\<lambda>c. map ((@) c) xs) combos)) = length combos * length xs"
  by (induction combos) simp_all

lemma substitute_segments_exact:
  assumes "list_all (segment_defined pe) segs" and "0 < length combos"
    and "length combos \<le> max_placeholder_combinations"
  shows "(length combos * prod_list (map (length \<circ> segment_texts pe) segs) \<le> max_placeholder_combinations \<longrightarrow>
      substitute_segments pe title combos segs = Inr (extended combos (map (segment_texts pe) segs)))
    \<and> (max_placeholder_combinations < length combos * prod_list (map (length \<circ> segment_texts pe) segs) \<longrightarrow>
      (\<exists>e. substitute_segments pe title combos segs = Inl e))"
  using assms
proof (induction segs arbitrary: combos)
  case Nil
  then show ?case by (simp add: extended_Nil)
next
  case (Cons seg segs)
  let ?cs = "concat (map (\<lambda>c. map ((@) c) (segment_texts pe seg)) combos)"
  let ?n = "length (segment_texts pe seg)" and ?m = "prod_list (map (length \<circ> segment_texts pe) segs)"
  have d: "segment_defined pe seg" using Cons.prems(1) by simp
  have "segment_texts pe s \<noteq> []" if "s \<in> set segs" for s
    using segment_texts_pos [of pe s] Cons.prems(1) that by (simp add: list_all_iff)
  then have "0 < ?m" by (auto simp: prod_list_zero_iff simp flip: neq0_conv)
  show ?case
  proof (cases "length combos * ?n \<le> max_placeholder_combinations")
    case True
    have "substitute_segment pe title combos seg = Inr ?cs"
      by (rule substitute_segment_exact(1) [OF d Cons.prems(3) True])
    moreover have "0 < length ?cs" "length ?cs \<le> max_placeholder_combinations"
      using True segment_texts_pos [OF d] Cons.prems(2) unfolding length_extended_one by simp_all
    ultimately show ?thesis
      using Cons.IH [of ?cs] Cons.prems(1) by (simp only: length_extended_one) (simp add: extended_Cons mult.assoc)
  next
    case False
    then have "max_placeholder_combinations < length combos * ?n * ?m"
      using \<open>0 < ?m\<close> by (metis One_nat_def Suc_leI less_le_trans mult.right_neutral mult_le_mono2 not_le)
    with False substitute_segment_exact(2) [OF d Cons.prems(3), of title] show ?thesis
      by (auto simp: mult.assoc comp_def)
  qed
qed

text \<open>
  C37: A text has exactly one template, its placeholders and the texts between them, which put back
  together are the text.  If every placeholder to replace (by the include and exclude lists) has values,
  its expansion gives all combinations of those values in order (the last placeholder varying fastest),
  or a star for each placeholder in wildcard mode, with placeholders not to replace kept and the texts
  between them kept, their percent signs escaped unless they are already; it succeeds exactly when there
  are no more than 4096 combinations.
\<close>

theorem placeholder_expansion_exact:
  "\<exists>segs. (\<forall>segs'. template_of s segs' \<longleftrightarrow> segs' = segs)
    \<and> concat (map segment_source segs) = s
    \<and> (list_all (segment_defined pe) segs \<longrightarrow>
        (case expand_placeholder_string pe title s of
           Inr vs \<Rightarrow> length vs \<le> max_placeholder_combinations
             \<and> vs = map (\<lambda>ts. SvString (sigma_string_new (concat ts))) (choices (map (segment_texts pe) segs))
         | Inl e \<Rightarrow> max_placeholder_combinations < prod_list (map (length \<circ> segment_texts pe) segs)))"
proof (intro exI conjI impI)
  let ?segs = "placeholder_segments s"
  show "\<forall>segs'. template_of s segs' \<longleftrightarrow> segs' = ?segs" by (simp add: template_unique)
  then show "concat (map segment_source ?segs) = s" by (simp add: template_source)
  assume defined: "list_all (segment_defined pe) ?segs"
  let ?xss = "map (segment_texts pe) ?segs"
  have one: "0 < length [[] :: string]" "length [[] :: string] \<le> max_placeholder_combinations"
    by (simp_all add: max_placeholder_combinations_def)
  have e: "extended [[]] ?xss = map concat (choices ?xss)" by (simp add: extended_def)
  have n: "length (choices ?xss) = prod_list (map (length \<circ> segment_texts pe) ?segs)"
    by (simp add: length_choices)
  show "case expand_placeholder_string pe title s of
      Inr vs \<Rightarrow> length vs \<le> max_placeholder_combinations
        \<and> vs = map (\<lambda>ts. SvString (sigma_string_new (concat ts))) (choices ?xss)
    | Inl e \<Rightarrow> max_placeholder_combinations < prod_list (map (length \<circ> segment_texts pe) ?segs)"
    using substitute_segments_exact [OF defined one, of title]
    unfolding expand_placeholder_string_def e
    by (cases "max_placeholder_combinations < length (choices ?xss)")
       (auto simp: n not_less result_map_def)
qed

definition sample_vars :: placeholder_expansion where
  "sample_vars = \<lparr> pe_vars = [(''a'', [''x'', ''y%'']), (''b'', [''1'', ''2''])], pe_wildcard = False,
     pe_allow_unresolved = True, pe_include = None, pe_exclude = Some [''c''] \<rparr>"

theorem placeholder_expansion_exact_witness:
  "expand_placeholder_string sample_vars [] ''%a%-%b%%c%''
   = Inr (map (\<lambda>ts. SvString (sigma_string_new (concat ts)))
       (choices [[''x'', [CHR ''y'', bs, CHR ''%'']], [''-''], [''1'', ''2''], [''%c%'']]))"
proof -
  let ?segs = "placeholder_segments ''%a%-%b%%c%''"
  have segs: "?segs = [SegPlaceholder ''a'', SegLiteral ''-'', SegPlaceholder ''b'', SegPlaceholder ''c'']" by code_simp
  have d: "list_all (segment_defined sample_vars) ?segs"
    unfolding segs by (simp add: sample_vars_def replaced_name_def)
  have t: "map (segment_texts sample_vars) ?segs
      = [[''x'', [CHR ''y'', bs, CHR ''%'']], [''-''], [''1'', ''2''], [''%c%'']]"
    unfolding segs by (simp add: sample_vars_def replaced_name_def guarded_def map_get_def)
  have l: "map (length \<circ> segment_texts sample_vars) ?segs = [2, 1, 2, 1]"
    unfolding map_map [symmetric] t by simp
  obtain segs where u: "\<forall>segs'. template_of ''%a%-%b%%c%'' segs' \<longleftrightarrow> segs' = segs"
    and x: "list_all (segment_defined sample_vars) segs \<longrightarrow>
      (case expand_placeholder_string sample_vars [] ''%a%-%b%%c%'' of
         Inr vs \<Rightarrow> length vs \<le> max_placeholder_combinations
           \<and> vs = map (\<lambda>ts. SvString (sigma_string_new (concat ts))) (choices (map (segment_texts sample_vars) segs))
       | Inl e \<Rightarrow> max_placeholder_combinations < prod_list (map (length \<circ> segment_texts sample_vars) segs))"
    using placeholder_expansion_exact [of "''%a%-%b%%c%''" sample_vars "[]"] by blast
  have "segs = ?segs" using u template_unique by blast
  with x d show ?thesis
    by (auto simp: t l max_placeholder_combinations_def split: sum.splits)
qed

text \<open>
  A variable value that ends in a backslash makes the wildcard after its placeholder a literal
  star: the directory placeholder followed by a star becomes a text without any wildcard.
\<close>

theorem backslash_value_hides_wildcard:
  "expand_placeholder_string
     \<lparr> pe_vars = [(''dir'', [[CHR ''C'', CHR '':'', bs]])], pe_wildcard = False, pe_allow_unresolved = False,
       pe_include = None, pe_exclude = None \<rparr> [] ''%dir%*''
   = Inr [SvString \<lparr> parts = [Plain ''C:*''], original = [CHR ''C'', CHR '':'', bs, star] \<rparr>]"
proof -
  let ?pe = "\<lparr> pe_vars = [(''dir'', [[CHR ''C'', CHR '':'', bs]])], pe_wildcard = False, pe_allow_unresolved = False,
       pe_include = None, pe_exclude = None \<rparr>"
  have s: "placeholder_segments ''%dir%*'' = [SegPlaceholder ''dir'', SegLiteral ''*'']" by code_simp
  show ?thesis
    unfolding expand_placeholder_string_def s
    by (simp add: handles_def placeholder_values_def escape_percent_def max_placeholder_combinations_def
        usize_saturating_mul_def u64_max_def sigma_string_new_def flush_plain_def)
qed

section \<open>Replaced strings\<close>

definition string_consistent :: "sigma_string \<Rightarrow> bool" where
  "string_consistent s \<longleftrightarrow> parts s = parts (sigma_string_new (original s))"

lemma loop_escaped_text:
  "sigma_string_loop ps acc False (part_to_original (Plain t) @ r) = sigma_string_loop ps (acc @ t) False r"
  by (induction t arbitrary: acc) simp_all

lemma loop_parts_to_original:
  assumes "parts_normal ps" and "acc = [] \<or> (case ps of Plain _ # _ \<Rightarrow> False | _ \<Rightarrow> True)"
  shows "sigma_string_loop qs acc False (parts_to_original ps) = flush_plain qs acc @ ps"
  using assms
proof (induction ps arbitrary: qs acc rule: parts_normal.induct)
  case 1
  then show ?case by (simp add: parts_to_original_def)
next
  case (2 w ps)
  then show ?case by (cases w) (simp_all add: flush_plain_def parts_to_original_def)
next
  case (3 t ps)
  then have "acc = []" by simp
  moreover have "parts_to_original (Plain t # ps) = part_to_original (Plain t) @ parts_to_original ps"
    by (simp add: parts_to_original_def)
  ultimately show ?case using 3 by (simp add: loop_escaped_text flush_plain_def del: part_to_original.simps)
qed

lemma parts_to_original_roundtrip:
  "parts_normal ps \<Longrightarrow> parts (sigma_string_new (parts_to_original ps)) = ps"
  by (simp add: sigma_string_new_def loop_parts_to_original flush_plain_def)

lemma parts_normal_extend:
  "parts_normal (ps @ [Plain t]) \<Longrightarrow> parts_normal (ps @ [Plain (t @ u)])"
proof (induction ps)
  case (Cons p ps)
  then show ?case by (cases p; cases ps) (auto split: string_part.splits)
qed simp

lemma merge_plain_step_normal: "parts_normal ps \<Longrightarrow> parts_normal (merge_plain_step ps p)"
proof (cases p)
  case (Plain t)
  assume n: "parts_normal ps"
  show ?thesis
  proof (cases ps rule: rev_cases)
    case Nil
    then show ?thesis using Plain by simp
  next
    case (snoc qs q)
    show ?thesis
    proof (cases q)
      case (Plain u)
      then show ?thesis using n snoc \<open>p = Plain t\<close> parts_normal_extend by simp
    next
      case (Special w)
      then have "ends_open ps" using n snoc by (simp add: ends_open_def)
      then show ?thesis using n snoc Special \<open>p = Plain t\<close> parts_normal_snoc_plain [of ps t] by simp
    qed
  qed
qed simp

lemma merge_plain_parts_normal: "parts_normal (merge_plain_parts ps)"
proof -
  have "parts_normal acc \<Longrightarrow> parts_normal (foldl merge_plain_step acc ps)" for acc
    by (induction ps arbitrary: acc) (simp_all add: merge_plain_step_normal)
  then show ?thesis by (simp add: merge_plain_parts_def)
qed

lemma new_original: "original (sigma_string_new t) = t"
  by (simp add: sigma_string_new_def)

text \<open>
  C38: Replacing text in the plain parts of a pattern, or in its source, leaves a pattern whose source
  text parses back to its parts: what is matched is what is printed.
\<close>

theorem replaced_string_consistent:
  assumes "replace_string_value pl re rp (SvString s) = SvString s'" and "string_consistent s"
  shows "string_consistent s'"
  using assms
  by (auto simp: replace_string_value_def Let_def string_consistent_def merge_plain_parts_normal
      parts_to_original_roundtrip new_original split: if_splits)

theorem replaced_string_consistent_witness:
  "\<exists>s'. replace_string_value literal_pipe ''a'' \<lparr> rp_replacement = ''*'', rp_skip_special = True, rp_interpret_special = False \<rparr>
       (SvString (sigma_string_new ''a?a'')) = SvString s'
     \<and> string_consistent s'"
proof -
  let ?rp = "\<lparr> rp_replacement = ''*'', rp_skip_special = True, rp_interpret_special = False \<rparr>"
  have "is_string_value (replace_string_value literal_pipe ''a'' ?rp (SvString (sigma_string_new ''a?a'')))"
    by code_simp
  then obtain s' where r: "replace_string_value literal_pipe ''a'' ?rp (SvString (sigma_string_new ''a?a'')) = SvString s'"
    by (auto simp: is_string_value_def split: sigma_value.splits)
  have "string_consistent (sigma_string_new ''a?a'')" by (simp add: string_consistent_def new_original)
  from replaced_string_consistent [OF r this] r show ?thesis by blast
qed

section \<open>Mapped strings\<close>

text \<open>What a value is replaced by: every alternative of its mapping, in order.\<close>

definition string_alternatives :: "(string \<times> string list) list \<Rightarrow> sigma_value \<Rightarrow> sigma_value list" where
  "string_alternatives m v =
     (case v of
        SvString s \<Rightarrow>
          (case map_of m (plain_or_original s) of
             Some (r # rs) \<Rightarrow> map (\<lambda>t. SvString (sigma_string_new t)) (r # rs)
           | _ \<Rightarrow> [v])
      | _ \<Rightarrow> [v])"

lemma insert_run:
  "length a = i + j \<Longrightarrow>
   fold (\<lambda>(j, v). insert_at (i + j) v) (List.enumerate j ex) (a @ b) = a @ ex @ b"
proof (induction ex arbitrary: a j)
  case (Cons x ex)
  then show ?case using Cons.IH [of "a @ [x]" "Suc j"] by (simp add: insert_at_def)
qed simp

lemma insert_extras_at:
  assumes "length a = Suc k"
  shows "insert_extras (k, ex) (a @ b) = a @ ex @ b"
  using insert_run [of a "Suc k" 0 ex b] assms by (simp add: insert_extras_def)

lemma inserted_alternatives:
  "length pre = k \<Longrightarrow>
   fold insert_extras (rev (filter_map (map_string_extra m) (List.enumerate k vs)))
     (pre @ map (map_string_first m) vs) = pre @ concat (map (string_alternatives m) vs)"
proof (induction vs arbitrary: k pre)
  case Nil
  then show ?case by simp
next
  case (Cons v vs)
  let ?pre = "pre @ [map_string_first m v]"
  have IH: "fold insert_extras (rev (filter_map (map_string_extra m) (List.enumerate (Suc k) vs)))
      (?pre @ map (map_string_first m) vs) = ?pre @ concat (map (string_alternatives m) vs)"
    by (rule Cons.IH) (use Cons.prems in simp)
  show ?case
  proof (cases "map_string_extra m (k, v)")
    case None
    then have "string_alternatives m v = [map_string_first m v]"
      by (auto simp: map_string_extra_def string_alternatives_def map_string_first_def
          split: sigma_value.splits option.splits list.splits)
    with None IH show ?thesis by simp
  next
    case (Some e)
    then obtain ex where e: "e = (k, ex)" and ex: "string_alternatives m v = map_string_first m v # ex"
      by (auto simp: map_string_extra_def string_alternatives_def map_string_first_def
          split: sigma_value.splits option.splits list.splits)
    have "insert_extras (k, ex) (?pre @ concat (map (string_alternatives m) vs))
        = ?pre @ ex @ concat (map (string_alternatives m) vs)"
      by (rule insert_extras_at) (use Cons.prems in simp)
    with Some e ex IH show ?thesis by simp
  qed
qed

text \<open>
  The in-place expansion of mapped strings, which replaces each value by its first alternative
  and then inserts the others from the back, gives the alternatives of the values in order.
\<close>

theorem map_string_expansion_exact:
  "map_string_expand_values m vs = concat (map (string_alternatives m) vs)"
  using inserted_alternatives [of "[]" 0 m vs] by (simp add: map_string_expand_values_def)

section \<open>Dropped items\<close>

text \<open>
  A pipeline that drops every item of a selection leaves a rule that does not load: lowering
  rejects the empty selection.
\<close>

theorem dropped_selection_rejected:
  assumes "(name, DAllOf items) \<in> set (dets_named (sr_detection rule))"
    and "list_all (item_conditions_match pl st dcs fcs) items"
  shows "\<exists>e. lower_rule env ye opts (drop_detection_items pl dcs fcs rule st) = Inl e"
proof (cases "lower_rule env ye opts (drop_detection_items pl dcs fcs rule st)")
  case (Inr ir)
  let ?named = "map_named (drop_from_detection (item_conditions_match pl st dcs fcs)) (dets_named (sr_detection rule))"
  from Inr obtain ds where "collect_values (lower_detection env opts) ?named = Inr ds"
    by (auto simp: lower_rule_def drop_detection_items_def map_named_detections_def result_simps)
  moreover have "(name, DAllOf []) \<in> set ?named"
  proof -
    have "(name, drop_from_detection (item_conditions_match pl st dcs fcs) (DAllOf items)) \<in> set ?named"
      using assms(1) by (auto simp: map_named_def intro!: rev_image_eqI)
    then show ?thesis using assms(2) by (simp add: list_all_iff)
  qed
  ultimately have False
    unfolding collect_values_def by (auto dest!: collected_member simp: result_map_Inr)
  then show ?thesis ..
qed simp

theorem dropped_selection_rejected_witness:
  "\<exists>e. lower_rule literal_env literal_yaml default_lower_options
     (drop_detection_items literal_pipe [] [] sample_sigma_rule pipeline_state_default) = Inl e"
proof (rule dropped_selection_rejected)
  show "(''sel'', DAllOf [\<lparr> di_field = \<lparr> fs_name = Some ''cmd'', fs_modifiers = [MdContains, MdAll] \<rparr>,
        di_values = [SvString (sigma_string_new ''a*''), SvString (sigma_string_new ''b'')] \<rparr>,
      \<lparr> di_field = \<lparr> fs_name = Some ''n'', fs_modifiers = [MdGt] \<rparr>, di_values = [SvInteger 3] \<rparr>])
    \<in> set (dets_named (sr_detection sample_sigma_rule))"
    by (simp add: sample_sigma_rule_def)
qed (simp add: item_conditions_match_def detection_conditions_match_def)

section \<open>Correlation rules\<close>

text \<open>
  A pipeline renames the group-by fields of a correlation as it renames the field list of a
  detection rule, but for the names of aliases, which it keeps.
\<close>

theorem group_by_renamed_alike:
  "fst (rename_group_by (rename_with pl st fc f) als fs)
   = concat (map (\<lambda>n. if n \<in> set als then [n] else fst (rename_field_list pl st [fc] f [n])) fs)"
  unfolding rename_group_by_def Let_def fst_conv
  by (rule arg_cong [where f = concat], rule map_cong) (auto simp: rename_with_def split: option.splits)

end
