(* ===== verification/EngineProps.thy ===== *)
theory EngineProps
  imports Engine
begin

text \<open>
  Properties of the engine: whatever its history, evaluating over the candidates gives the result of
  scanning all rules; the pruning counter is exact; filters conjoin their condition.
\<close>

section \<open>Candidates and scans\<close>

lemma filter_map_filter: "filter_map f xs = filter_map f (filter (\<lambda>x. f x \<noteq> None) xs)"
  by (induction xs) (auto split: option.splits)

lemma filter_map_map: "filter_map f (map g xs) = filter_map (\<lambda>x. f (g x)) xs"
  by (induction xs) (auto split: option.splits)

lemma filter_map_candidates:
  assumes "sorted xs" and "distinct xs" and "set xs \<subseteq> {..<n}"
    and "\<And>i. i < n \<Longrightarrow> f i \<noteq> None \<Longrightarrow> i \<in> set xs"
  shows "filter_map f xs = filter_map f [0..<n]"
proof -
  have "filter (\<lambda>i. f i \<noteq> None) xs = filter (\<lambda>i. f i \<noteq> None) [0..<n]"
  proof (rule sorted_distinct_set_unique)
    show "sorted (filter (\<lambda>i. f i \<noteq> None) xs)" using assms(1) by (rule sorted_wrt_filter)
    show "sorted (filter (\<lambda>i. f i \<noteq> None) [0..<n])" by (rule sorted_wrt_filter) simp
  qed (use assms in auto)
  then show ?thesis by (metis filter_map_filter)
qed

lemma filter_map_nth: "filter_map (\<lambda>i. f (xs ! i)) [0..<length xs] = filter_map f xs"
  using filter_map_map [of f "(!) xs" "[0..<length xs]"] by (simp add: map_nth)

text \<open>The rules one call evaluates.\<close>

definition kept :: "log_source option \<Rightarrow> compiled_rule \<Rightarrow> bool" where
  "kept event_logsource rule =
     (case event_logsource of
        Some event_ls \<Rightarrow> logsource_compatible (cru_logsource rule) event_ls
      | None \<Rightarrow> True)"

definition kept_result ::
    "ext_env \<Rightarrow> engine \<Rightarrow> event \<Rightarrow> (string \<Rightarrow> bloom_verdict) \<Rightarrow> (compiled_rule \<Rightarrow> bool) \<Rightarrow> compiled_rule
     \<Rightarrow> detection_result option" where
  "kept_result env e ev bloom keep rule = (if keep rule then evaluate_one env e rule ev bloom else None)"

lemma candidates_loop_results:
  "map iev_result (fst (candidates_loop env e ev ls bloom cands))
   = filter_map (\<lambda>i. kept_result env e ev bloom (kept ls) (en_rules e ! i)) cands"
  by (induction cands)
     (auto simp: kept_result_def kept_def Let_def split: prod.splits option.splits)

lemma candidates_loop_pruned:
  "snd (candidates_loop env e ev ls bloom cands)
   = length (filter (\<lambda>i. \<not> kept ls (en_rules e ! i)) cands)"
  by (induction cands) (auto simp: kept_def Let_def split: prod.splits option.splits)

lemma evaluate_one_fires:
  "evaluate_one env e rule ev bloom \<noteq> None
   \<longleftrightarrow> evaluate_rule_with_bloom env rule ev bloom (en_match_detail e) \<noteq> None"
  by (simp add: evaluate_one_def split: option.split)

section \<open>Exact evaluation\<close>

text \<open>ASCII case does not matter to lowercasing.\<close>

definition lower_ci_law :: "ext_env \<Rightarrow> bool" where
  "lower_ci_law env =
     (\<forall>a b. eq_ignore_ascii_case a b \<longrightarrow> to_lowercase env a = to_lowercase env b)"

definition engine_laws :: "ext_env \<Rightarrow> index_env \<Rightarrow> bool" where
  "engine_laws env ie = (index_laws env ie \<and> lower_ci_law env)"

text \<open>The rules are as the compiler makes them, and the event has their fields under probed keys.\<close>

definition rules_fit :: "ext_env \<Rightarrow> event \<Rightarrow> compiled_rule list \<Rightarrow> bool" where
  "rules_fit env ev rules =
     (event_wf ev \<and> list_all rule_flagged rules \<and> list_all (rule_probed env ev) rules)"

lemma rules_indexable_fit:
  "engine_event env' ev \<Longrightarrow> list_all rule_indexable rules \<Longrightarrow> rules_fit env ev rules"
  by (auto simp: rules_fit_def list_all_iff engine_event_wf rule_indexable_flagged rule_indexable_probed)

text \<open>The bloom pre-filter is off, or its index covers rules that are ready for it.\<close>

definition bloom_safe :: "bloom_env \<Rightarrow> engine \<Rightarrow> bool" where
  "bloom_safe be e =
     (en_bloom_prefilter e \<longrightarrow> bloom_for be (en_rules e) (en_bloom_index e) \<and> list_all rule_ready (en_rules e))"

definition engine_indexed :: "ext_env \<Rightarrow> index_env \<Rightarrow> engine \<Rightarrow> bool" where
  "engine_indexed env ie e = index_for env ie (en_rules e) (en_rule_index e)"

lemma evaluate_one_bloom:
  assumes "engine_laws env ie" and "bloom_safe be e" and "rule \<in> set (en_rules e)"
  shows "evaluate_one env e rule ev (engine_bloom be env e ev) = evaluate_one env e rule ev no_bloom"
proof (cases "en_bloom_prefilter e")
  case True
  have laws: "lower_ascii_law env" "ac_sound_law env"
    using assms(1) by (simp_all add: engine_laws_def index_laws_def witness_laws_def)
  have "index_holds be (en_bloom_index e) (\<lambda>f. concat (map (rule_needles f) (en_rules e)))"
    and "rule_ready rule"
    using True assms(2,3) by (auto simp: bloom_safe_def bloom_for_def list_all_iff)
  then have "evaluate_rule_with_bloom env rule ev (bloom_compute be env (en_bloom_index e) ev) level
      = evaluate_rule_with_bloom env rule ev no_bloom level" for level
    by (intro prefilter_exact [OF laws]) (use assms(3) in auto)
  with True show ?thesis by (simp add: evaluate_one_def engine_bloom_def)
qed (simp add: engine_bloom_def)

lemma kept_product:
  assumes "lower_ci_law env" and "logsource_compatible (cru_logsource rule) event_ls"
    and "ls_product event_ls \<noteq> None"
  shows "rule_product env rule = None
    \<or> rule_product env rule = map_option (to_lowercase env) (ls_product event_ls)"
  using assms
  by (auto simp: logsource_compatible_def ls_conflicts_def rule_product_def lower_ci_law_def
      split: option.splits)

lemma candidates_exact:
  assumes laws: "engine_laws env ie" and ix: "engine_indexed env ie e"
    and fit: "rules_fit env ev (en_rules e)"
  shows "filter_map (\<lambda>i. kept_result env e ev bloom keep (en_rules e ! i)) (candidates env ie (en_rule_index e) ev)
    = filter_map (kept_result env e ev bloom keep) (en_rules e)"
proof -
  have il: "index_laws env ie" using laws by (simp add: engine_laws_def)
  have ixf: "index_for env ie (en_rules e) (en_rule_index e)" using ix by (simp add: engine_indexed_def)
  have "filter_map (\<lambda>i. kept_result env e ev bloom keep (en_rules e ! i))
      (candidates env ie (en_rule_index e) ev)
    = filter_map (\<lambda>i. kept_result env e ev bloom keep (en_rules e ! i)) [0..<length (en_rules e)]"
  proof (rule filter_map_candidates [OF candidates_sorted [OF il ixf]])
    fix i
    assume i: "i < length (en_rules e)" "kept_result env e ev bloom keep (en_rules e ! i) \<noteq> None"
    then have "evaluate_rule_with_bloom env (en_rules e ! i) ev bloom (en_match_detail e) \<noteq> None"
      using evaluate_one_fires [of env e "en_rules e ! i" ev bloom]
      by (auto simp: kept_result_def split: if_splits)
    with i(1) fit show "i \<in> set (candidates env ie (en_rule_index e) ev)"
      by (intro candidates_complete [OF il _ ixf]) (auto simp: rules_fit_def list_all_length)
  qed
  also have "\<dots> = filter_map (kept_result env e ev bloom keep) (en_rules e)" by (rule filter_map_nth)
  finally show ?thesis .
qed

lemma logsource_candidates_exact:
  assumes laws: "engine_laws env ie" and ix: "engine_indexed env ie e"
    and fit: "rules_fit env ev (en_rules e)"
  shows "filter_map (\<lambda>i. kept_result env e ev bloom (kept ls) (en_rules e ! i))
      (fst (logsource_candidates env ie e ev ls))
    = filter_map (kept_result env e ev bloom (kept ls)) (en_rules e)"
proof (cases "\<exists>event_ls. ls = Some event_ls \<and> ls_product event_ls \<noteq> None")
  case False
  then have "fst (logsource_candidates env ie e ev ls) = candidates env ie (en_rule_index e) ev"
    by (auto simp: logsource_candidates_def candidates_with_logsource_def split: option.split)
  then show ?thesis by (simp add: candidates_exact [OF laws ix fit])
next
  case True
  then obtain event_ls where ls: "ls = Some event_ls" "ls_product event_ls \<noteq> None" by blast
  have il: "index_laws env ie" and ci: "lower_ci_law env" using laws by (simp_all add: engine_laws_def)
  have ixf: "index_for env ie (en_rules e) (en_rule_index e)" using ix by (simp add: engine_indexed_def)
  let ?cands = "candidates_with_logsource env ie (en_rule_index e) ev (ls_product event_ls)"
  have "filter_map (\<lambda>i. kept_result env e ev bloom (kept ls) (en_rules e ! i)) ?cands
    = filter_map (\<lambda>i. kept_result env e ev bloom (kept ls) (en_rules e ! i)) [0..<length (en_rules e)]"
  proof (rule filter_map_candidates [OF candidates_with_logsource_sorted [OF il ixf]])
    fix i
    assume i: "i < length (en_rules e)" "kept_result env e ev bloom (kept ls) (en_rules e ! i) \<noteq> None"
    then have fires: "evaluate_rule_with_bloom env (en_rules e ! i) ev bloom (en_match_detail e) \<noteq> None"
      and keep: "logsource_compatible (cru_logsource (en_rules e ! i)) event_ls"
      using ls evaluate_one_fires [of env e "en_rules e ! i" ev bloom]
      by (auto simp: kept_result_def kept_def split: if_splits)
    have "rule_product env (en_rules e ! i) = None
        \<or> rule_product env (en_rules e ! i) = map_option (to_lowercase env) (ls_product event_ls)"
      by (rule kept_product [OF ci keep ls(2)])
    with i(1) fit fires show "i \<in> set ?cands"
      by (intro candidates_with_logsource_complete [OF il _ ixf]) (auto simp: rules_fit_def list_all_length)
  qed
  also have "\<dots> = filter_map (kept_result env e ev bloom (kept ls)) (en_rules e)" by (rule filter_map_nth)
  finally show ?thesis using ls(1) by (simp add: logsource_candidates_def)
qed

lemma filter_map_kept_bloom:
  assumes "engine_laws env ie" and "bloom_safe be e"
  shows "filter_map (kept_result env e ev (engine_bloom be env e ev) keep) (en_rules e)
    = full_scan env e ev keep"
  unfolding full_scan_def
  by (rule filter_map_cong [OF refl]) (simp add: kept_result_def evaluate_one_bloom [OF assms])

lemma evaluate_inner_exact:
  assumes "engine_laws env ie" and "engine_indexed env ie e" and "bloom_safe be e"
    and "rules_fit env ev (en_rules e)"
  shows "map iev_result (fst (evaluate_identified_inner be env ie e ev ls)) = full_scan env e ev (kept ls)"
proof -
  have "map iev_result (fst (evaluate_identified_inner be env ie e ev ls))
      = filter_map (\<lambda>i. kept_result env e ev (engine_bloom be env e ev) (kept ls) (en_rules e ! i))
          (fst (logsource_candidates env ie e ev ls))"
    by (simp add: evaluate_identified_inner_def evaluate_candidates_def candidates_loop_results [symmetric]
        split: prod.split)
  then show ?thesis
    by (simp only: logsource_candidates_exact [OF assms(1,2,4)] filter_map_kept_bloom [OF assms(1,3)])
qed

section \<open>Histories\<close>

text \<open>What a client does with an engine; adding a filter rebuilds, as \<open>apply_filter\<close> does.\<close>

datatype 'y engine_op =
  OpAdd compiled_rule
| OpExtend "compiled_rule list"
| OpFilter "'y filter_rule" "(string \<times> compiled_detection) list"
| OpBloomPrefilter bool
| OpBloomMaxBytes nat
| OpExtractor "log_source_extractor option"
| OpIncludeEvent bool
| OpMatchDetail match_detail_level
| OpEvaluate event

fun engine_step ::
    "bloom_env \<Rightarrow> ext_env \<Rightarrow> index_env \<Rightarrow> 'y engine_op \<Rightarrow> engine \<Rightarrow> engine" where
  "engine_step be env ie (OpAdd rule) e = add_compiled_rule be env ie rule e"
| "engine_step be env ie (OpExtend rules) e = extend_compiled_rules be env ie rules e"
| "engine_step be env ie (OpFilter fr dets) e = rebuild_index be env ie (apply_compiled_filter fr dets e)"
| "engine_step be env ie (OpBloomPrefilter b) e = set_bloom_prefilter b e"
| "engine_step be env ie (OpBloomMaxBytes n) e = set_bloom_max_bytes be env ie n e"
| "engine_step be env ie (OpExtractor ex) e = set_logsource_extractor ex e"
| "engine_step be env ie (OpIncludeEvent b) e = set_include_event b e"
| "engine_step be env ie (OpMatchDetail l) e = set_match_detail l e"
| "engine_step be env ie (OpEvaluate ev) e = snd (engine_evaluate be env ie e ev)"

definition engine_run ::
    "bloom_env \<Rightarrow> ext_env \<Rightarrow> index_env \<Rightarrow> 'y engine_op list \<Rightarrow> engine \<Rightarrow> engine" where
  "engine_run be env ie ops e = fold (engine_step be env ie) ops e"

text \<open>
  Operations that always rebuild both indexes, and histories in which every rule added on its own is followed
  by one of them.
\<close>

fun rebuilds :: "'y engine_op \<Rightarrow> bool" where
  "rebuilds (OpExtend rules) = True"
| "rebuilds (OpFilter fr dets) = True"
| "rebuilds _ = False"

fun settled :: "'y engine_op list \<Rightarrow> bool" where
  "settled [] = True"
| "settled (OpAdd rule # ops) = (list_ex rebuilds ops \<and> settled ops)"
| "settled (oper # ops) = settled ops"

lemma index_for_empty: "index_for env ie [] candidate_index_empty"
  by (simp add: index_for_def index_wf_def fields_registered_def always_partitioned_def
      candidate_index_empty_def field_entry_default_def entry_ok_def)

lemma rebuild_indexed: "engine_indexed env ie (rebuild_index be env ie e)"
  by (simp add: engine_indexed_def rebuild_index_def candidate_index_build_for)

lemma append_last_maintain:
  "en_rule_index (index_append_last_rule be env ie (e\<lparr>en_rules := en_rules e @ [rule]\<rparr>))
   = cand.maintain env ie index_should_rebuild (en_rules e) rule (en_rule_index e)"
  "en_bloom_index (index_append_last_rule be env ie (e\<lparr>en_rules := en_rules e @ [rule]\<rparr>))
   = blm.maintain be (en_bloom_max_bytes e) bloom_should_rebuild (en_rules e) rule (en_bloom_index e)"
  "en_rules (index_append_last_rule be env ie (e\<lparr>en_rules := en_rules e @ [rule]\<rparr>)) = en_rules e @ [rule]"
  by (simp_all add: index_append_last_rule_def cand.maintain_def blm.maintain_def Let_def)

lemma add_rule_indexed:
  "engine_indexed env ie e \<Longrightarrow> engine_indexed env ie (add_compiled_rule be env ie rule e)"
  unfolding engine_indexed_def add_compiled_rule_def append_last_maintain
  by (rule cand.maintain_holds) simp_all

text \<open>The bloom index stays usable as long as each addition is covered by its guard or rebuilds.\<close>

lemma add_rule_bloom:
  assumes "bloom_for be (en_rules e) (en_bloom_index e)"
    and "bloom_guard (en_rules e) rule (en_bloom_index e)
      \<or> bloom_should_rebuild (bloom_append_rule be (en_bloom_index e) rule) (length (en_rules e) + 1)"
  shows "bloom_for be (en_rules (add_compiled_rule be env ie rule e))
    (en_bloom_index (add_compiled_rule be env ie rule e))"
  unfolding add_compiled_rule_def append_last_maintain
  by (rule blm.maintain_holds) (rule assms)+

lemma rebuild_bloom:
  "bloom_for be (en_rules (rebuild_index be env ie e)) (en_bloom_index (rebuild_index be env ie e))"
  by (simp add: rebuild_index_def blm.build_holds)

lemma record_pruned_frame [simp]:
  "en_rules (record_logsource_pruned n e) = en_rules e"
  "en_rule_index (record_logsource_pruned n e) = en_rule_index e"
  "en_bloom_index (record_logsource_pruned n e) = en_bloom_index e"
  "en_bloom_prefilter (record_logsource_pruned n e) = en_bloom_prefilter e"
  "en_logsource_absent (record_logsource_pruned n e) = en_logsource_absent e"
  by (simp_all add: record_logsource_pruned_def)

lemma evaluate_frame:
  "en_rules (snd (engine_evaluate be env ie e ev)) = en_rules e"
  "en_rule_index (snd (engine_evaluate be env ie e ev)) = en_rule_index e"
  by (simp_all add: engine_evaluate_def evaluate_identified_def evaluate_identified_inner_def
      evaluate_candidates_def logsource_candidates_def apfst_def Let_def
      split: prod.split option.split)

lemma engine_step_indexed:
  "engine_indexed env ie e \<Longrightarrow> engine_indexed env ie (engine_step be env ie oper e)"
  by (cases oper)
     (auto simp: add_rule_indexed rebuild_indexed extend_compiled_rules_def set_bloom_max_bytes_def
        set_bloom_prefilter_def set_logsource_extractor_def set_include_event_def set_match_detail_def
        evaluate_frame engine_indexed_def rebuild_indexed [unfolded engine_indexed_def]
        add_rule_indexed [unfolded engine_indexed_def] Let_def)

lemma engine_run_indexed:
  "engine_indexed env ie (engine_run be env ie ops (engine_from_parts ex))"
proof -
  have "engine_indexed env ie e \<Longrightarrow> engine_indexed env ie (fold (engine_step be env ie) ops e)" for e
    by (induction ops arbitrary: e) (simp_all add: engine_step_indexed)
  then show ?thesis
    by (simp add: engine_run_def engine_indexed_def engine_from_parts_def index_for_empty)
qed

text \<open>In a settled history the bloom index covers the rules.\<close>

abbreviation bloom_current :: "bloom_env \<Rightarrow> engine \<Rightarrow> bool" where
  "bloom_current be e \<equiv> bloom_for be (en_rules e) (en_bloom_index e)"

lemma evaluate_bloom_frame:
  "en_bloom_index (snd (engine_evaluate be env ie e ev)) = en_bloom_index e"
  by (simp add: engine_evaluate_def evaluate_identified_def evaluate_identified_inner_def
      evaluate_candidates_def logsource_candidates_def apfst_def Let_def
      split: prod.split option.split)

lemma rebuild_step_bloom: "rebuilds oper \<Longrightarrow> bloom_current be (engine_step be env ie oper e)"
  by (cases oper) (simp_all add: rebuild_bloom extend_compiled_rules_def)

lemma keep_step_bloom:
  assumes "bloom_current be e" and "\<forall>rule. oper \<noteq> OpAdd rule"
  shows "bloom_current be (engine_step be env ie oper e)"
  using assms
  by (cases oper)
     (auto simp: rebuild_bloom [unfolded bloom_for_def] bloom_for_def extend_compiled_rules_def
        set_bloom_max_bytes_def set_bloom_prefilter_def set_logsource_extractor_def set_include_event_def set_match_detail_def
        evaluate_frame evaluate_bloom_frame Let_def)

lemma settled_bloom:
  "settled ops \<Longrightarrow> bloom_current be e \<or> list_ex rebuilds ops \<Longrightarrow>
   bloom_current be (fold (engine_step be env ie) ops e)"
proof (induction ops arbitrary: e)
  case (Cons oper ops)
  show ?case
  proof (cases "\<exists>rule. oper = OpAdd rule")
    case True
    with Cons show ?thesis by auto
  next
    case False
    then have "settled ops" using Cons.prems(1) by (cases oper) simp_all
    moreover have "bloom_current be (engine_step be env ie oper e) \<or> list_ex rebuilds ops"
      using Cons.prems(2) False rebuild_step_bloom [of oper] keep_step_bloom [of be e oper] by auto
    ultimately show ?thesis by (simp add: Cons.IH)
  qed
qed simp

lemma bloom_empty: "bloom_current be (engine_from_parts ex)"
  by (simp add: bloom_for_def engine_from_parts_def fbi_empty_def index_holds_def)

section \<open>The pruning counter\<close>

text \<open>
  The count of always-evaluated rules skipped by product is a subtraction of lengths; it does not
  underflow and counts exactly the rules of another product.
\<close>

lemma conflicting_count_exact:
  assumes "index_for env ie rules ix"
  shows "conflicting_unindexable_count env ix (Some p)
      = length (filter (\<lambda>i. rule_product env (rules ! i) \<noteq> None
          \<and> rule_product env (rules ! i) \<noteq> Some (to_lowercase env p)) (ci_always ix))"
    and "length (map_get [] (ci_always_by_product ix) None)
      + length (map_get [] (ci_always_by_product ix) (Some (to_lowercase env p))) \<le> length (ci_always ix)"
proof -
  let ?b = "map_get [] (ci_always_by_product ix)"
  let ?q = "Some (to_lowercase env p)"
  let ?in = "\<lambda>k i. rule_product env (rules ! i) = k"
  have dist: "distinct (ci_always ix)" "\<And>k. distinct (?b k)"
    using assms by (simp_all add: index_for_def)
  have len: "length (?b k) = length (filter (?in k) (ci_always ix))" for k
  proof -
    have "set (?b k) = set (filter (?in k) (ci_always ix))"
      using assms by (auto simp: index_for_def always_partitioned_def)
    then show ?thesis using dist by (metis distinct_card distinct_filter)
  qed
  have "length (filter (?in None) xs) + length (filter (?in ?q) xs)
      + length (filter (\<lambda>i. \<not> ?in None i \<and> \<not> ?in ?q i) xs) = length xs" for xs
    by (induction xs) auto
  from this [of "ci_always ix"]
  show "conflicting_unindexable_count env ix (Some p)
      = length (filter (\<lambda>i. rule_product env (rules ! i) \<noteq> None
          \<and> rule_product env (rules ! i) \<noteq> Some (to_lowercase env p)) (ci_always ix))"
    and "length (?b None) + length (?b ?q) \<le> length (ci_always ix)"
    by (simp_all add: conflicting_unindexable_count_def len)
qed

section \<open>Filters conjoin\<close>

text \<open>The rule's boolean verdict, and the filter's own condition over its own detections.\<close>

definition rule_fires :: "ext_env \<Rightarrow> event \<Rightarrow> (string \<Rightarrow> bloom_verdict) \<Rightarrow> compiled_rule \<Rightarrow> bool" where
  "rule_fires env ev bloom rule =
     list_ex (\<lambda>c. eval_condition_matches_with_bloom env ev bloom c (cru_detections rule)) (cru_conditions rule)"

definition filter_holds ::
    "ext_env \<Rightarrow> event \<Rightarrow> (string \<Rightarrow> bloom_verdict) \<Rightarrow> 'y filter_rule
     \<Rightarrow> (string \<times> compiled_detection) list \<Rightarrow> bool" where
  "filter_holds env ev bloom fr fdets =
     (case dets_conditions (fr_detection fr) of
        c # _ \<Rightarrow> eval_condition_matches_with_bloom env ev bloom c fdets
      | [] \<Rightarrow> list_all (eval_detection_with_bloom env ev bloom) (map snd fdets))"

text \<open>
  A rule is apart from the filters numbered \<open>fc\<close> and up when none of its detections has one of their
  keys and none of its conditions can name one.
\<close>

definition rule_apart :: "nat \<Rightarrow> compiled_rule \<Rightarrow> bool" where
  "rule_apart fc rule =
     (list_all (\<lambda>nd. name_apart fc (fst nd)) (cru_detections rule)
      \<and> list_all (condition_apart fc) (cru_conditions rule))"

text \<open>The compiled detections of a filter: those of its document, in the document's order of names.\<close>

definition compiled_from :: "'y filter_rule \<Rightarrow> (string \<times> compiled_detection) list \<Rightarrow> bool" where
  "compiled_from fr fdets =
     (map fst fdets = map fst (dets_named (fr_detection fr)) \<and> distinct (map fst fdets))"

lemma compiled_from_distinct: "compiled_from fr fdets \<Longrightarrow> distinct (map fst fdets)"
  unfolding compiled_from_def by blast

lemma rule_fires_iff:
  "evaluate_rule_with_bloom env rule ev bloom level \<noteq> None \<longleftrightarrow> rule_fires env ev bloom rule"
  by (simp only: evaluate_rule_with_bloom_def eval_conditions_loop_None rule_fires_def not_not)

lemma name_apart_prefix: "name_apart c n \<Longrightarrow> \<not> starts_with n (filter_prefix c)"
  using earlier_not_key [of c n] by (auto simp: name_apart_def filter_prefix_def starts_with_iff)

lemma namespaced_filter_eval:
  assumes "compiled_from fr fdets"
    and "\<And>n. n \<in> fst ` set dets \<Longrightarrow> \<not> starts_with n (filter_prefix fc)"
  shows "eval_condition_matches_with_bloom env ev bloom (namespaced_filter_condition fr fc)
      (dets @ injected fc fdets)
    = filter_holds env ev bloom fr fdets"
proof (cases "dets_conditions (fr_detection fr)")
  case (Cons c cs)
  then show ?thesis
    using filter_condition [OF assms(2), where env = env and ev = ev and bloom = bloom
        and e = c and named = fdets]
    by (simp add: namespaced_filter_condition_def filter_holds_def)
next
  case Nil
  let ?eval = "\<lambda>e. eval_condition_matches_with_bloom env ev bloom e (dets @ injected fc fdets)"
  let ?ids = "map (\<lambda>n. CondIdentifier (filter_detection_key fc n)) (sort (map fst fdets))"
  have "?eval (namespaced_filter_condition fr fc) = list_all ?eval ?ids"
    using Nil assms(1)
    by (auto simp: namespaced_filter_condition_def compiled_from_def Let_def split: list.split)
  also have "\<dots> = (\<forall>n \<in> fst ` set fdets. ?eval (CondIdentifier (filter_detection_key fc n)))"
    by (simp add: list_all_iff)
  also have "\<dots> = (\<forall>(n, d) \<in> set fdets. eval_detection_with_bloom env ev bloom d)"
  proof -
    have "?eval (CondIdentifier (filter_detection_key fc n)) = eval_detection_with_bloom env ev bloom d"
      if "(n, d) \<in> set fdets" for n d
    proof -
      have "map_of fdets n = Some d"
        using that compiled_from_distinct [OF assms(1)] by simp
      then show ?thesis
        using filter_condition [OF assms(2), where env = env and ev = ev and bloom = bloom
            and e = "CondIdentifier n" and named = fdets] by simp
    qed
    then show ?thesis by force
  qed
  finally show ?thesis
    using Nil by (simp add: filter_holds_def list_all_iff case_prod_unfold)
qed

lemma inject_filter_fires:
  assumes "rule_apart fc rule" and "compiled_from fr fdets"
  shows "rule_fires env ev bloom (inject_filter fc fdets (namespaced_filter_condition fr fc) rule)
    \<longleftrightarrow> rule_fires env ev bloom rule \<and> filter_holds env ev bloom fr fdets"
proof -
  let ?dets = "cru_detections rule"
  have own: "\<not> starts_with n (filter_prefix fc)" if "n \<in> fst ` set ?dets" for n
    using assms(1) that name_apart_prefix by (auto simp: rule_apart_def list_all_iff)
  have "filter_detection_key fc n \<notin> fst ` set ?dets" for n
    using own key_prefix [of fc n] by blast
  then have dets: "fold (\<lambda>(name, d) m. map_insert (filter_detection_key fc name) d m) fdets ?dets
      = ?dets @ injected fc fdets"
    using compiled_from_distinct [OF assms(2)] by (intro fold_inject) simp_all
  have "eval_condition_matches_with_bloom env ev bloom c (?dets @ injected fc fdets)
      = eval_condition_matches_with_bloom env ev bloom c ?dets" if "c \<in> set (cru_conditions rule)" for c
    using assms(1) that by (intro author_condition) (simp add: rule_apart_def list_all_iff)
  then show ?thesis
    using namespaced_filter_eval [OF assms(2) own, where dets = ?dets]
    by (auto simp: rule_fires_def inject_filter_def dets list_ex_iff)
qed

text \<open>A rule that took a filter is apart from the next ones.\<close>

lemma name_apart_Suc: "name_apart c n \<Longrightarrow> name_apart (Suc c) n"
  by (auto simp: name_apart_def earlier_key_def)

lemma condition_apart_Suc: "condition_apart c e \<Longrightarrow> condition_apart (Suc c) e"
proof (induction e)
  case (CondSelector q pattern)
  then show ?case by (cases pattern) (auto simp: earlier_key_def)
qed (auto simp: name_apart_Suc list_all_iff)

lemma key_apart_Suc: "name_apart (Suc c) (filter_detection_key c n)"
  using key_prefix [of c n] by (simp add: name_apart_def earlier_key_def)

lemma rewritten_apart_Suc: "condition_apart (Suc c) (rewrite_condition_identifiers c e)"
proof (induction e)
  case (CondSelector q pattern)
  then show ?case
    using key_prefix [of c] by (cases pattern) (simp_all add: earlier_key_def)
qed (auto simp: key_apart_Suc list_all_iff)

lemma namespaced_apart_Suc: "condition_apart (Suc c) (namespaced_filter_condition fr c)"
  by (auto simp: namespaced_filter_condition_def rewritten_apart_Suc key_apart_Suc Let_def list_all_iff
      split: list.split)

lemma inject_filter_apart:
  assumes "rule_apart fc rule" and "compiled_from fr fdets"
  shows "rule_apart (Suc fc) (inject_filter fc fdets (namespaced_filter_condition fr fc) rule)"
proof -
  have "filter_detection_key fc n \<notin> fst ` set (cru_detections rule)" for n
    using assms(1) name_apart_prefix key_prefix [of fc n] by (auto simp: rule_apart_def list_all_iff)
  then have "fold (\<lambda>(name, d) m. map_insert (filter_detection_key fc name) d m) fdets (cru_detections rule)
      = cru_detections rule @ injected fc fdets"
    using compiled_from_distinct [OF assms(2)] by (intro fold_inject) simp_all
  with assms(1) show ?thesis
    by (auto simp: rule_apart_def inject_filter_def list_all_iff injected_def name_apart_Suc
        condition_apart_Suc key_apart_Suc namespaced_apart_Suc)
qed

lemma rule_apart_Suc: "rule_apart fc rule \<Longrightarrow> rule_apart (Suc fc) rule"
  by (auto simp: rule_apart_def list_all_iff name_apart_Suc condition_apart_Suc)

text \<open>A sequence of filters, as a collection applies them.\<close>

definition apply_filter_list ::
    "('y filter_rule \<times> (string \<times> compiled_detection) list) list \<Rightarrow> engine \<Rightarrow> engine" where
  "apply_filter_list fs e = fold (\<lambda>(fr, fdets). apply_compiled_filter fr fdets) fs e"

definition rule_identities :: "engine \<Rightarrow> (string option \<times> string option) list" where
  "rule_identities e = map (\<lambda>rule. (cru_id rule, cru_name rule)) (en_rules e)"

text \<open>Whether a filter of the list targets the rule, judged on the engine before any is applied.\<close>

definition targeted :: "engine \<Rightarrow> 'y filter_rule \<Rightarrow> compiled_rule \<Rightarrow> bool" where
  "targeted e fr rule = filter_targets fr (stable_references fr (rule_identities e)) (rule_target rule)"

lemma inject_filter_target [simp]:
  "rule_target (inject_filter fc fdets c rule) = rule_target rule"
  "cru_id (inject_filter fc fdets c rule) = cru_id rule"
  "cru_name (inject_filter fc fdets c rule) = cru_name rule"
  by (simp_all add: rule_target_def inject_filter_def)

lemma apply_filter_frame:
  "length (en_rules (apply_compiled_filter fr fdets e)) = length (en_rules e)"
  "rule_identities (apply_compiled_filter fr fdets e) = rule_identities e"
  "i < length (en_rules e) \<Longrightarrow>
   rule_target (en_rules (apply_compiled_filter fr fdets e) ! i) = rule_target (en_rules e ! i)"
  by (auto simp: apply_compiled_filter_def rule_identities_def Let_def)

lemma apply_filter_fires:
  assumes "list_all (rule_apart (en_filter_counter e)) (en_rules e)" and "compiled_from fr fdets"
    and "fdets \<noteq> []" and "i < length (en_rules e)"
  shows "rule_fires env ev bloom (en_rules (apply_compiled_filter fr fdets e) ! i)
    \<longleftrightarrow> rule_fires env ev bloom (en_rules e ! i)
      \<and> (targeted e fr (en_rules e ! i) \<longrightarrow> filter_holds env ev bloom fr fdets)"
    and "list_all (rule_apart (en_filter_counter (apply_compiled_filter fr fdets e)))
      (en_rules (apply_compiled_filter fr fdets e))"
proof -
  have "rule_apart (en_filter_counter e) (en_rules e ! i)"
    using assms(1,4) by (simp add: list_all_length)
  from inject_filter_fires [OF this assms(2)] assms(3,4)
  show "rule_fires env ev bloom (en_rules (apply_compiled_filter fr fdets e) ! i)
    \<longleftrightarrow> rule_fires env ev bloom (en_rules e ! i)
      \<and> (targeted e fr (en_rules e ! i) \<longrightarrow> filter_holds env ev bloom fr fdets)"
    by (simp add: apply_compiled_filter_def targeted_def rule_identities_def Let_def)
  show "list_all (rule_apart (en_filter_counter (apply_compiled_filter fr fdets e)))
      (en_rules (apply_compiled_filter fr fdets e))"
    using assms(1-3) inject_filter_apart [OF _ assms(2)]
    by (auto simp: apply_compiled_filter_def list_all_iff Let_def rule_apart_Suc)
qed

lemma apply_filter_list_fires:
  assumes "list_all (rule_apart (en_filter_counter e)) (en_rules e)"
    and "list_all (\<lambda>(fr, fdets). compiled_from fr fdets \<and> fdets \<noteq> []) fs"
    and "i < length (en_rules e)"
  shows "rule_fires env ev bloom (en_rules (apply_filter_list fs e) ! i)
    \<longleftrightarrow> rule_fires env ev bloom (en_rules e ! i)
      \<and> list_all (\<lambda>(fr, fdets). targeted e fr (en_rules e ! i) \<longrightarrow> filter_holds env ev bloom fr fdets) fs"
  using assms
proof (induction fs arbitrary: e)
  case Nil
  then show ?case by (simp add: apply_filter_list_def)
next
  case (Cons f fs)
  obtain fr fdets where f: "f = (fr, fdets)" by (cases f)
  have ok: "compiled_from fr fdets" "fdets \<noteq> []" using Cons.prems(2) by (simp_all add: f)
  let ?e = "apply_compiled_filter fr fdets e"
  have i: "i < length (en_rules ?e)" using Cons.prems(3) by (simp add: apply_filter_frame)
  note step = apply_filter_fires [OF Cons.prems(1) ok Cons.prems(3)]
  have "targeted ?e gr (en_rules ?e ! i) = targeted e gr (en_rules e ! i)" for gr :: "'a filter_rule"
    using Cons.prems(3) by (simp add: targeted_def apply_filter_frame)
  moreover have "rule_fires env ev bloom (en_rules (apply_filter_list fs ?e) ! i)
    \<longleftrightarrow> rule_fires env ev bloom (en_rules ?e ! i)
      \<and> list_all (\<lambda>(fr, fdets). targeted ?e fr (en_rules ?e ! i) \<longrightarrow> filter_holds env ev bloom fr fdets) fs"
    using Cons.prems(2) i by (intro Cons.IH step(2)) simp_all
  ultimately show ?case
    using step(1) [of env ev bloom] by (simp add: apply_filter_list_def f conj_assoc)
qed

section \<open>Instances\<close>

definition literal_index :: index_env where
  "literal_index =
     \<lparr> ix_dfa_ok = (\<lambda>_. True), ix_auto_ok = (\<lambda>_. True),
       ix_overlapping = (\<lambda>ps h. filter (\<lambda>i.
         contains_str (map ascii_lower_char h) (map ascii_lower_char (ps ! i))) [0..<length ps]) \<rparr>"

lemma literal_re_word: "re_parse_hir literal_env p = Some h \<Longrightarrow> re_is_match literal_env p s \<Longrightarrow>
    \<exists>t. re_word h t \<and> contains_str s t"
proof -
  assume h: "re_parse_hir literal_env p = Some h" and m: "re_is_match literal_env p s"
  show "\<exists>t. re_word h t \<and> contains_str s t"
  proof (cases "starts_with p ''(?i)''")
    case True
    with h have "h = HirOther" by simp
    then have "re_word h [] \<and> contains_str s []" by (simp add: re_word.intros contains_str_Nil)
    then show ?thesis by blast
  next
    case False
    with h m have "h = HirLiteral p" and "contains_str s p"
      by (simp_all add: literal_re_match_def strip_prefix_def)
    then show ?thesis by (auto intro: re_word.intros)
  qed
qed

lemma literal_engine_laws: "engine_laws literal_env literal_index"
proof -
  have "re_hir_law literal_env" using literal_re_word unfolding re_hir_law_def by blast
  moreover have "re_set_sound_law literal_env"
    unfolding re_set_sound_law_def
  proof (intro allI conjI impI)
    fix ps s
    show "re_set_is_match literal_env ps s \<Longrightarrow> list_ex (\<lambda>p. re_is_match literal_env p s) ps" by simp
    assume "length (re_set_matches literal_env ps s) = length ps"
    then have "list_all (\<lambda>i. literal_re_match (ps ! i) s) [0..<length ps]"
      using length_filter_all_iff [of "\<lambda>i. literal_re_match (ps ! i) s" "[0..<length ps]"]
      by (simp add: literal_env_def)
    then show "list_all (\<lambda>p. re_is_match literal_env p s) ps" by (simp add: list_all_length)
  qed
  moreover have "lower_idem_law literal_env" "lower_ci_law literal_env"
    by (simp_all add: lower_idem_law_def lower_ci_law_def literal_lower eq_ignore_ascii_case_def)
  moreover have "overlapping_law literal_index"
    by (auto simp: overlapping_law_def literal_index_def)
  ultimately show ?thesis
    using literal_bloom_laws by (simp add: engine_laws_def index_laws_def witness_laws_def)
qed

lemma sample_analysis:
  "analyze_rule literal_env sample_rule
   = RwAnyOf [WSubstring ''Cmd'' ''whoami'', WSubstring ''Image'' ''.exe'']"
  by code_simp

lemma sample_indexable: "rule_indexable sample_rule"
  by code_simp

lemma sample_engine_event: "engine_event literal_env sample_event"
  unfolding sample_event_def by (rule engine_event.kv)

section \<open>Properties\<close>

text \<open>
  C2: Take an engine after any sequence of operations since its creation (rules added one by one or in
  batches, filters, settings, evaluations), and an event of one of the kinds the crates define (JSON,
  key-value, plain, map, or a decoded input line).  If the rules then loaded, filter detections
  included, name plain fields only (no backslash, no leading dot) and are as the compiler makes them
  (no selector of zero; an existence flag without a field only with its matcher), and if the bloom
  pre-filter is off, or every rule added on its own was later followed by a batch of rules or a filter
  (which rebuild the indexes) and the rules have their eligible items ready for it, then evaluating
  the event over the candidates of the index gives exactly the results of scanning every loaded rule,
  in rule order, restricted to the rules whose log source does not conflict with the event's.
\<close>

theorem engine_scan_exact:
  fixes ops :: "'y engine_op list"
  assumes "engine_laws env ie"
    and "e = engine_run be env ie ops (engine_from_parts extractor)"
    and "engine_event env ev" and "list_all rule_indexable (en_rules e)"
    and "en_bloom_prefilter e \<Longrightarrow> settled ops \<and> list_all rule_ready (en_rules e)"
  shows "fst (engine_evaluate be env ie e ev)
    = full_scan env e ev (kept (map_option (\<lambda>ex. lse_extract env ex ev) (en_logsource_extractor e)))"
proof -
  have "engine_indexed env ie e" using assms(2) engine_run_indexed by simp
  moreover have "bloom_safe be e"
    using assms(2,5) settled_bloom [of ops be "engine_from_parts extractor"] bloom_empty
    by (auto simp: bloom_safe_def engine_run_def)
  ultimately have "map iev_result (fst (evaluate_identified_inner be env ie e ev ls)) = full_scan env e ev (kept ls)" for ls
    by (intro evaluate_inner_exact assms(1) rules_indexable_fit [OF assms(3,4)])
  then show ?thesis by (simp add: engine_evaluate_def evaluate_identified_def)
qed

theorem engine_scan_exact_witness:
  "let ops = [OpExtend [sample_rule], OpAdd sample_rule] :: nat engine_op list;
       e = engine_run literal_bloom literal_env literal_index ops (engine_from_parts None)
   in fst (engine_evaluate literal_bloom literal_env literal_index e sample_event)
      = full_scan literal_env e sample_event
          (kept (map_option (\<lambda>ex. lse_extract literal_env ex sample_event) (en_logsource_extractor e)))"
  unfolding Let_def
proof (rule engine_scan_exact [OF literal_engine_laws refl])
  let ?e = "engine_run literal_bloom literal_env literal_index
    ([OpExtend [sample_rule], OpAdd sample_rule] :: nat engine_op list) (engine_from_parts None)"
  have "en_rules ?e = [sample_rule, sample_rule]" and "\<not> en_bloom_prefilter ?e"
    by (simp_all add: engine_run_def extend_compiled_rules_def rebuild_index_def engine_from_parts_def
        add_compiled_rule_def index_append_last_rule_def Let_def)
  then show "list_all rule_indexable (en_rules ?e)"
    "en_bloom_prefilter ?e \<Longrightarrow> settled ([OpExtend [sample_rule], OpAdd sample_rule] :: nat engine_op list)
       \<and> list_all rule_ready (en_rules ?e)"
    by (simp_all add: sample_indexable)
qed (rule sample_engine_event)

text \<open>
  C7: The candidate index built from the rules never leaves out a rule that matches, when the rule names
  plain fields only (no backslash, no leading dot), is as the compiler makes it (no selector of zero; an
  existence flag without a field only with its matcher), and the event is of one of the kinds the crates
  define (JSON, key-value, plain, map, or a decoded input line): every such rule whose evaluation
  returns a result is among the candidates.
\<close>

theorem index_keeps_matches:
  assumes "index_laws env ie" and "engine_event env ev" and "i < length rules"
    and "rule_indexable (rules ! i)" and "evaluate_rule env (rules ! i) ev \<noteq> None"
  shows "i \<in> set (candidates env ie (candidate_index_build env ie rules) ev)"
  using assms(5) unfolding evaluate_rule_def
  by (rule candidates_complete [OF assms(1) engine_event_wf [OF assms(2)] candidate_index_build_for
        assms(3) rule_indexable_flagged [OF assms(4)] rule_indexable_probed [OF assms(2,4)]])

theorem index_keeps_matches_witness:
  "0 \<in> set (candidates literal_env literal_index
      (candidate_index_build literal_env literal_index [sample_rule]) sample_event)"
  using literal_engine_laws sample_indexable sample_engine_event sample_rule_fires
  by (intro index_keeps_matches) (simp_all add: engine_laws_def)

text \<open>
  C6: One of the witnesses extracted from a rule holds on every event the rule matches.
\<close>

theorem witnesses_sound:
  assumes "witness_laws env" and "event_wf ev" and "rule_flagged rule"
    and "analyze_rule env rule = RwAnyOf ws" and "evaluate_rule env rule ev \<noteq> None"
  shows "\<exists>w \<in> set ws. holds_witness env ev w"
  using assms(5) unfolding evaluate_rule_def by (rule rule_gate [OF assms(1-4)])

theorem witnesses_sound_witness:
  "\<exists>w \<in> set [WSubstring ''Cmd'' ''whoami'', WSubstring ''Image'' ''.exe''].
     holds_witness literal_env sample_event w"
  using literal_engine_laws sample_rule_fires sample_analysis engine_event_wf [OF sample_engine_event]
    rule_indexable_flagged [OF sample_indexable]
  by (intro witnesses_sound [of literal_env sample_event sample_rule])
     (simp_all add: engine_laws_def index_laws_def)

text \<open>
  C8: Filters conjoin.  Take a list of filters, each with at least one detection, compiled from its own
  document under distinct names, and rules that keep apart from them: no detection name of a rule and no
  identifier of its conditions is one of the keys (two underscores, the word filter and a number) that
  filters still to come inject, and no selector pattern of its conditions starts with an underscore
  (unless it is that of an earlier filter).  After the filters, a rule fires exactly when it fired before
  and the condition of each filter that targets it holds over that filter's own detections; neither side
  sees the other's detections.  Without the condition on patterns it does not hold (see the theorem on
  hidden patterns).
\<close>

theorem filters_conjoin:
  assumes "list_all (rule_apart (en_filter_counter e)) (en_rules e)"
    and "list_all (\<lambda>(fr, fdets). compiled_from fr fdets \<and> fdets \<noteq> []) fs"
    and "i < length (en_rules e)"
  shows "rule_fires env ev no_bloom (en_rules (apply_filter_list fs e) ! i)
    \<longleftrightarrow> rule_fires env ev no_bloom (en_rules e ! i)
      \<and> list_all (\<lambda>(fr, fdets). targeted e fr (en_rules e ! i) \<longrightarrow> filter_holds env ev no_bloom fr fdets) fs"
  by (rule apply_filter_list_fires [OF assms])

definition sample_filter :: "nat filter_rule" where
  "sample_filter =
     \<lparr> fr_title = ''f'', fr_sigma_version = None, fr_id = None, fr_name = None, fr_taxonomy = None,
       fr_status = None, fr_description = None, fr_author = None, fr_date = None, fr_modified = None,
       fr_related = [], fr_license = None, fr_references = [], fr_tags = [], fr_fields = [],
       fr_falsepositives = [], fr_level = None, fr_scope = [], fr_logsource = None,
       fr_rules = TargetAny,
       fr_detection = \<lparr> dets_named = [(''sel'', DAllOf [])],
         dets_conditions = [CondNot (CondSelector QAny Them)], dets_condition_strings = [],
         dets_timeframe = None \<rparr>,
       fr_custom_attributes = [] \<rparr>"

definition sample_filter_detections :: "(string \<times> compiled_detection) list" where
  "sample_filter_detections = [(''sel'', CdAllOf [sample_item ''User'' (CmContains ''bob'' True)])]"

theorem filters_conjoin_witness:
  "let e = engine_from_parts None \<lparr> en_rules := [sample_rule] \<rparr>;
       fs = [(sample_filter, sample_filter_detections)]
   in rule_fires literal_env sample_event no_bloom (en_rules (apply_filter_list fs e) ! 0)
      \<longleftrightarrow> rule_fires literal_env sample_event no_bloom (en_rules e ! 0)
        \<and> list_all (\<lambda>(fr, fdets). targeted e fr (en_rules e ! 0)
            \<longrightarrow> filter_holds literal_env sample_event no_bloom fr fdets) fs"
  unfolding Let_def
proof (rule filters_conjoin)
  have "rule_apart 0 sample_rule" by code_simp
  then show "list_all (rule_apart (en_filter_counter (engine_from_parts None\<lparr>en_rules := [sample_rule]\<rparr>)))
      (en_rules (engine_from_parts None\<lparr>en_rules := [sample_rule]\<rparr>))"
    by (simp add: engine_from_parts_def)
  show "list_all (\<lambda>(fr, fdets). compiled_from fr fdets \<and> fdets \<noteq> [])
      [(sample_filter, sample_filter_detections)]"
    by (simp add: compiled_from_def sample_filter_def sample_filter_detections_def)
qed simp

definition hidden_rule :: compiled_rule where
  "hidden_rule = sample_rule \<lparr>
     cru_detections := [(''_sel'', CdAllOf [sample_item ''User'' (CmContains ''bob'' True)])],
     cru_conditions := [CondSelector QAll (Pattern ''_*'')] \<rparr>"

definition alice_detections :: "(string \<times> compiled_detection) list" where
  "alice_detections = [(''sel'', CdAllOf [sample_item ''User'' (CmContains ''alice'' True)])]"

text \<open>
  A rule whose own pattern starts with an underscore does capture an injected detection: with
  the condition "all of _*" over a detection that holds, a filter whose detection does not hold,
  and whose condition is its negation, silences the rule.
\<close>

theorem hidden_pattern_captures:
  "rule_fires literal_env sample_event no_bloom hidden_rule
   \<and> filter_holds literal_env sample_event no_bloom sample_filter alice_detections
   \<and> \<not> rule_fires literal_env sample_event no_bloom
       (inject_filter 0 alice_detections (namespaced_filter_condition sample_filter 0) hidden_rule)"
  by code_simp

text \<open>
  The number of always-evaluated rules an event's product lets skip, computed as a difference of
  lengths, never underflows and is exactly the number of those rules that name another product.
\<close>

theorem pruned_count_exact:
  assumes "index_for env ie rules ix"
  shows "conflicting_unindexable_count env ix (Some p)
      = length (filter (\<lambda>i. rule_product env (rules ! i) \<noteq> None
          \<and> rule_product env (rules ! i) \<noteq> Some (to_lowercase env p)) (ci_always ix))
    \<and> length (map_get [] (ci_always_by_product ix) None)
      + length (map_get [] (ci_always_by_product ix) (Some (to_lowercase env p))) \<le> length (ci_always ix)"
  using conflicting_count_exact [OF assms] by blast

theorem pruned_count_exact_witness:
  "conflicting_unindexable_count literal_env
       (candidate_index_build literal_env literal_index [sample_rule]) (Some ''windows'')
     = length (filter (\<lambda>i. rule_product literal_env ([sample_rule] ! i) \<noteq> None
         \<and> rule_product literal_env ([sample_rule] ! i) \<noteq> Some (to_lowercase literal_env ''windows''))
         (ci_always (candidate_index_build literal_env literal_index [sample_rule])))"
  using pruned_count_exact [OF candidate_index_build_for] by blast

definition escaped_rule :: compiled_rule where
  "escaped_rule = sample_rule \<lparr>
     cru_detections := [(''sel'', CdAllOf [sample_item [CHR ''a'', bs, CHR ''['', CHR ''0'', bs, CHR '']'']
        (CmExact ''v'' True)])],
     cru_conditions := [CondIdentifier ''sel''] \<rparr>"

definition escaped_event :: event where
  "escaped_event = json_event literal_env
     (JObject [([CHR ''a'', bs, CHR ''['', CHR ''0'', bs, CHR '']''], JString ''v'')])"

text \<open>
  A field written with escaped brackets is read from a JSON key that contains the backslashes,
  and the rule matches; but the index registers only the unescaped key, so the rule is not among the
  candidates of that event.
\<close>

theorem escaped_key_missed:
  "evaluate_rule literal_env escaped_rule escaped_event \<noteq> None
   \<and> candidates literal_env literal_index
       (candidate_index_build literal_env literal_index [escaped_rule]) escaped_event = []"
  by code_simp

end
