(* ===== verification/EngineLoadProps.thy ===== *)
theory EngineLoadProps
  imports EngineLoad PipelineProps RuleSem EngineProps
begin

text \<open>
  What loading promises: the engine answers as the intermediate representation of the transformed
  rules does, with the filters conjoined; a failed load is silent; the HIR cache gives back the rules.
\<close>

lemma ex_list_all2_Cons:
  "(\<exists>qs. list_all2 P (x # xs) qs \<and> Q qs) \<longleftrightarrow> (\<exists>y ys. P x y \<and> list_all2 P xs ys \<and> Q (y # ys))"
  by (auto simp: list_all2_Cons1)

section \<open>Stored rules\<close>

text \<open>Storing compiled rules one by one.\<close>

fun store_pairs :: "(ir_rule \<times> compiled_rule) list \<Rightarrow> loader \<Rightarrow> loader" where
  "store_pairs [] e = e"
| "store_pairs ((ir, c) # ps) e = store_pairs ps (store_rule ir c e)"

lemma store_rule_frame [simp]:
  "lo_engine (store_rule ir c e) = (lo_engine e) \<lparr> en_rules := en_rules (lo_engine e) @ [c] \<rparr>"
  "lo_pipelines (store_rule ir c e) = lo_pipelines e"
  "lo_retain_hir (store_rule ir c e) = lo_retain_hir e"
  by (simp_all add: store_rule_def Let_def)

lemma store_rule_hir:
  "lo_ir_rules (store_rule ir c e) = lo_ir_rules e @ (if lo_retain_hir e then [ir] else [])"
  "lo_unretained_hir (store_rule ir c e) = lo_unretained_hir e + (if lo_retain_hir e then 0 else 1)"
  by (simp_all add: store_rule_def Let_def)

lemma store_pairs_frame:
  "lo_engine (store_pairs ps e) = (lo_engine e) \<lparr> en_rules := en_rules (lo_engine e) @ map snd ps \<rparr>"
  "lo_pipelines (store_pairs ps e) = lo_pipelines e"
  "lo_retain_hir (store_pairs ps e) = lo_retain_hir e"
  "lo_ir_rules (store_pairs ps e) = lo_ir_rules e @ (if lo_retain_hir e then map fst ps else [])"
  "lo_unretained_hir (store_pairs ps e) = lo_unretained_hir e + (if lo_retain_hir e then 0 else length ps)"
  by (induction ps e rule: store_pairs.induct) (simp_all add: store_rule_hir)

lemma compile_and_store_Inr:
  "compile_and_store le rule e = Inr e' \<longleftrightarrow>
   (\<exists>ir c. lower_with_pipelines le e rule = Inr ir \<and> compile_to_compiled (ld_ext le) ir = Inr c
      \<and> e' = store_rule ir c e)"
  by (auto simp: compile_and_store_def result_simps)


lemma lower_stored: "lower_with_pipelines le (store_rule ir c e) = lower_with_pipelines le e"
  by (rule ext) (simp add: lower_with_pipelines_def)

text \<open>A list of rules loads exactly when all of them lower and compile.\<close>

lemma load_rules_Inr:
  "load_each (compile_and_store le) rules e = (Inr (), e') \<longleftrightarrow>
   (\<exists>ps. list_all2 (\<lambda>r (ir, c). lower_with_pipelines le e r = Inr ir
            \<and> compile_to_compiled (ld_ext le) ir = Inr c) rules ps
      \<and> e' = store_pairs ps e)"
proof (induction rules arbitrary: e)
  case (Cons r rules)
  show ?case
  proof (cases "compile_and_store le r e")
    case (Inl err)
    then have "\<not> (\<exists>ir c. lower_with_pipelines le e r = Inr ir \<and> compile_to_compiled (ld_ext le) ir = Inr c)"
      using compile_and_store_Inr [of le r e] by fastforce
    with Inl show ?thesis by (simp add: ex_list_all2_Cons)
  next
    case (Inr e1)
    then obtain ir c where irc: "lower_with_pipelines le e r = Inr ir"
      "compile_to_compiled (ld_ext le) ir = Inr c" "e1 = store_rule ir c e"
      by (auto simp: compile_and_store_Inr)
    then show ?thesis unfolding ex_list_all2_Cons by (simp add: Inr Cons.IH lower_stored)
  qed
qed auto


section \<open>Filters\<close>

definition filter_detections ::
    "'n load_env \<Rightarrow> 'n yaml_value filter_rule \<Rightarrow> eval_error + (string \<times> compiled_detection) list" where
  "filter_detections le fr = collect_values (compile_detection (ld_ext le)) (dets_named (fr_detection fr))"

lemma apply_filter_Inr:
  "apply_filter_no_rebuild le fr e = Inr e' \<longleftrightarrow>
   (\<exists>ds. filter_detections le fr = Inr ds \<and> e' = e \<lparr> lo_engine := apply_compiled_filter fr ds (lo_engine e) \<rparr>)"
  unfolding apply_filter_no_rebuild_def filter_detections_def result_map_Inr by blast

lemma load_filters_Inr:
  "load_each (apply_filter_no_rebuild le) fs e = (Inr (), e') \<longleftrightarrow>
   (\<exists>dss. list_all2 (\<lambda>fr ds. filter_detections le fr = Inr ds) fs dss
      \<and> e' = e \<lparr> lo_engine := apply_filter_list (zip fs dss) (lo_engine e) \<rparr>)"
proof (induction fs arbitrary: e)
  case Nil
  then show ?case by (auto simp: apply_filter_list_def)
next
  case (Cons f fs)
  show ?case
  proof (cases "apply_filter_no_rebuild le f e")
    case (Inl err)
    then have "\<not> (\<exists>ds. filter_detections le f = Inr ds)"
      using apply_filter_Inr [of le f e] by fastforce
    with Inl show ?thesis by (simp add: ex_list_all2_Cons)
  next
    case (Inr e1)
    then obtain ds where "filter_detections le f = Inr ds"
      "e1 = e \<lparr> lo_engine := apply_compiled_filter f ds (lo_engine e) \<rparr>"
      by (auto simp: apply_filter_Inr)
    then show ?thesis unfolding ex_list_all2_Cons by (simp add: Inr Cons.IH apply_filter_list_def)
  qed
qed

section \<open>What a loaded engine answers\<close>

lemma add_collection_Inr:
  "add_collection le coll e = (Inr (), e') \<longleftrightarrow>
   (\<exists>ps dss. list_all2 (\<lambda>r (ir, c). lower_with_pipelines le e r = Inr ir
            \<and> compile_to_compiled (ld_ext le) ir = Inr c) (sc_rules coll) ps
      \<and> list_all2 (\<lambda>fr ds. filter_detections le fr = Inr ds) (sc_filters coll) dss
      \<and> e' = loader_rebuild le ((store_pairs ps e)
          \<lparr> lo_engine := apply_filter_list (zip (sc_filters coll) dss) (lo_engine (store_pairs ps e)) \<rparr>))"
    (is "?L \<longleftrightarrow> ?R")
proof
  assume ?L
  then obtain e1 where e1: "load_each (compile_and_store le) (sc_rules coll) e = (Inr (), e1)"
    by (auto simp: add_collection_def split: prod.splits sum.splits)
  with \<open>?L\<close> obtain e2 where "load_each (apply_filter_no_rebuild le) (sc_filters coll) e1 = (Inr (), e2)"
    and "e' = loader_rebuild le e2"
    by (auto simp: add_collection_def split: prod.splits sum.splits)
  with e1 show ?R unfolding load_rules_Inr load_filters_Inr by blast
next
  assume ?R
  then obtain ps dss where
    "load_each (compile_and_store le) (sc_rules coll) e = (Inr (), store_pairs ps e)"
    "load_each (apply_filter_no_rebuild le) (sc_filters coll) (store_pairs ps e)
      = (Inr (), (store_pairs ps e)
          \<lparr> lo_engine := apply_filter_list (zip (sc_filters coll) dss) (lo_engine (store_pairs ps e)) \<rparr>)"
    "e' = loader_rebuild le ((store_pairs ps e)
          \<lparr> lo_engine := apply_filter_list (zip (sc_filters coll) dss) (lo_engine (store_pairs ps e)) \<rparr>)"
    unfolding load_rules_Inr load_filters_Inr by blast
  then show ?L by (simp add: add_collection_def)
qed

text \<open>The reading of a rule and of a filter in the intermediate representation.\<close>

definition ir_target :: "ir_rule \<Rightarrow> filter_target" where
  "ir_target ir = \<lparr> ft_id = im_id (ir_metadata ir), ft_name = im_name (ir_metadata ir),
                    ft_title = im_title (ir_metadata ir), ft_logsource = ir_logsource ir \<rparr>"

definition lower_filter :: "ext_env \<Rightarrow> 'y filter_rule \<Rightarrow> ir_error + (string \<times> ir_detection) list" where
  "lower_filter env fr =
     collect_values (lower_detection env \<lparr> lo_permissive_placeholders = True \<rparr>) (dets_named (fr_detection fr))"

definition ir_filter_holds ::
    "ext_env \<Rightarrow> event \<Rightarrow> 'y filter_rule \<Rightarrow> (string \<times> ir_detection) list \<Rightarrow> bool" where
  "ir_filter_holds env ev fr dets =
     (case dets_conditions (fr_detection fr) of
        c # _ \<Rightarrow> cond_sem (map fst dets)
            (\<lambda>n. map_of (map (\<lambda>(n, d). (n, ir_detection_holds env ev d)) dets) n = Some True) c
      | [] \<Rightarrow> list_all (\<lambda>(n, d). ir_detection_holds env ev d) dets)"

text \<open>A rule is reported when it holds and no filter that targets it objects.\<close>

definition rule_reported ::
    "ext_env \<Rightarrow> event \<Rightarrow> ir_rule list \<Rightarrow> ('y filter_rule \<times> (string \<times> ir_detection) list) list \<Rightarrow> ir_rule \<Rightarrow> bool" where
  "rule_reported env ev irs fs ir \<longleftrightarrow>
     ir_rule_holds env ev ir
     \<and> list_all (\<lambda>(fr, dets).
          filter_targets fr
            (stable_references fr (map (\<lambda>r. (im_id (ir_metadata r), im_name (ir_metadata r))) irs))
            (ir_target ir)
          \<longrightarrow> ir_filter_holds env ev fr dets) fs"

text \<open>The types of a filter document, and that its detections are well-formed.\<close>

definition filter_typed :: "'y filter_rule \<Rightarrow> bool" where
  "filter_typed fr \<longleftrightarrow>
     dets_named (fr_detection fr) \<noteq> [] \<and> distinct (map fst (dets_named (fr_detection fr)))
     \<and> list_all counts_nonzero (dets_conditions (fr_detection fr))
     \<and> list_all (\<lambda>e. detection_typed (snd e)) (dets_named (fr_detection fr))"

definition ir_apart :: "ir_rule \<Rightarrow> bool" where
  "ir_apart ir \<longleftrightarrow> list_all (\<lambda>e. name_apart 0 (fst e)) (ir_detections ir)
     \<and> list_all (\<lambda>c. condition_apart 0 (ir_condition_to_expr c)) (ir_conditions ir)"

lemma compiled_fields:
  assumes "compile_to_compiled env ir = Inr c"
  shows "rule_target c = ir_target ir" "cru_logsource c = ir_logsource ir"
    "cru_title c = im_title (ir_metadata ir)" "cru_id c = im_id (ir_metadata ir)"
    "cru_name c = im_name (ir_metadata ir)" "ir_apart ir \<Longrightarrow> rule_apart 0 c"
  using assms
  by (auto simp: compile_to_compiled_def result_map_Inr Let_def rule_target_def ir_target_def
      rule_apart_def ir_apart_def list_all_iff dest!: keys_collect_values)
     (metis fst_conv image_eqI image_iff list.set_map)

lemma collect_values_bind:
  assumes "collect_values (\<lambda>d. result_bind (map_error g (f d)) h) m = Inr ds"
    and "collect_values f m = Inr is"
  shows "collect_values h is = Inr ds"
  using assms unfolding collect_values_Inr
proof (induction m arbitrary: "is" ds)
  case (Cons e m)
  then show ?case
    by (cases "is"; cases ds) (auto simp: result_bind_Inr map_error_def split: sum.splits)
qed simp

lemma filter_exact:
  assumes laws: "matcher_laws (ld_ext le)" "event_wf ev" "float_law (ld_ext le)" "ascii_event ev"
    and typed: "filter_typed fr" and low: "lower_filter (ld_ext le) fr = Inr irds"
    and ds: "filter_detections le fr = Inr ds"
  shows "filter_holds (ld_ext le) ev no_bloom fr ds \<longleftrightarrow> ir_filter_holds (ld_ext le) ev fr irds"
    and "compiled_from fr ds" and "ds \<noteq> []"
proof -
  let ?env = "ld_ext le"
  have ds': "collect_values (compile_ir_detection ?env) irds = Inr ds"
    by (rule collect_values_bind [OF _ low [unfolded lower_filter_def]])
       (use ds in \<open>simp add: filter_detections_def compile_detection_def [abs_def]\<close>)
  have names: "map fst ds = map fst irds" "map fst irds = map fst (dets_named (fr_detection fr))"
    using keys_collect_values [OF ds'] keys_collect_values [OF low [unfolded lower_filter_def]] by simp_all
  show "compiled_from fr ds" "ds \<noteq> []"
    using names typed by (auto simp: compiled_from_def filter_typed_def)
  have "list_all (\<lambda>e. ir_detection_wf (snd e)) irds"
    by (rule collect_list_all [OF low [unfolded lower_filter_def collect_values_def]])
       (use lowered_wf typed in \<open>auto simp: filter_typed_def list_all_iff result_map_Inr\<close>)
  then have det: "ir_detection_holds ?env ev x = eval_detection_with_bloom ?env ev no_bloom y"
    if "(k, x) \<in> set irds" "compile_ir_detection ?env x = Inr y" for k x y
    using that detection_exact [OF laws(1,2) _ _ that(2) [unfolded compile_ir_detection_def]] laws(3,4)
    by (auto simp: list_all_iff)
  have verdicts: "map (\<lambda>(n, d). (n, ir_detection_holds ?env ev d)) irds
      = map (\<lambda>(n, d). (n, eval_detection_with_bloom ?env ev no_bloom d)) ds"
    by (rule values_verdicts [OF ds']) (rule det)
  show "filter_holds ?env ev no_bloom fr ds \<longleftrightarrow> ir_filter_holds ?env ev fr irds"
  proof (cases "dets_conditions (fr_detection fr)")
    case Nil
    show ?thesis
      using arg_cong [OF verdicts, where f = "list_all snd"]
      by (simp add: Nil filter_holds_def ir_filter_holds_def list_all_iff case_prod_unfold)
  next
    case (Cons c cs)
    have "eval_condition_matches_with_bloom ?env ev no_bloom c ds
        = cond_sem (map fst ds) (det_holds ?env ev no_bloom ds) c"
      by (rule eval_condition_sem) (use names typed Cons in \<open>auto simp: filter_typed_def\<close>)
    also have "\<dots> = cond_sem (map fst irds)
        (\<lambda>n. map_of (map (\<lambda>(n, d). (n, ir_detection_holds ?env ev d)) irds) n = Some True) c"
      unfolding verdicts names(1) by (simp add: det_holds_def [abs_def] verdict_lookup)
    finally show ?thesis by (simp add: Cons filter_holds_def ir_filter_holds_def)
  qed
qed

text \<open>The parts of the results that are compared, and their traversal.\<close>

lemma filter_map_titles:
  assumes "list_all2 (\<lambda>ir c. (f c \<noteq> None \<longleftrightarrow> P ir) \<and> (\<forall>r. f c = Some r \<longrightarrow> g r = h ir)) irs cs"
  shows "map g (filter_map f cs) = map h (filter P irs)"
  using assms by (induction rule: list_all2_induct) auto

definition result_label :: "detection_result \<Rightarrow> string \<times> string option" where
  "result_label r = (rh_rule_title (dr_header r), rh_rule_id (dr_header r))"

definition rule_label :: "ir_rule \<Rightarrow> string \<times> string option" where
  "rule_label ir = (im_title (ir_metadata ir), im_id (ir_metadata ir))"

lemma conditions_loop_label:
  "eval_conditions_loop env rule ev bloom level cs = Some r \<Longrightarrow> result_label r = (cru_title rule, cru_id rule)"
  by (induction cs) (auto simp: result_label_def split: if_splits prod.splits)

lemma evaluate_one_label:
  "evaluate_one env e rule ev bloom = Some r \<Longrightarrow> result_label r = (cru_title rule, cru_id rule)"
  by (auto simp: evaluate_one_def evaluate_rule_with_bloom_def result_label_def
      dest!: conditions_loop_label split: option.splits)

lemma apply_filter_list_frame:
  "length (en_rules (apply_filter_list fs e)) = length (en_rules e)"
  "i < length (en_rules e) \<Longrightarrow> rule_target (en_rules (apply_filter_list fs e) ! i) = rule_target (en_rules e ! i)"
  "en_bloom_prefilter (apply_filter_list fs e) = en_bloom_prefilter e"
  "en_logsource_extractor (apply_filter_list fs e) = en_logsource_extractor e"
proof (induction fs arbitrary: e)
  case (Cons f fs)
  obtain fr ds where f: "f = (fr, ds)" by fastforce
  {
    case 1 show ?case using Cons.IH(1) by (simp add: f apply_filter_list_def apply_filter_frame)
  next
    case 2 then show ?case
      using Cons.IH(2) [of "apply_compiled_filter fr ds e"]
      by (simp add: f apply_filter_list_def apply_filter_frame)
  next
    case 3 show ?case using Cons.IH(3)
      by (simp add: f apply_filter_list_def apply_compiled_filter_def Let_def)
  next
    case 4 show ?case using Cons.IH(4)
      by (simp add: f apply_filter_list_def apply_compiled_filter_def Let_def)
  }
qed (simp_all add: apply_filter_list_def)


lemma loaded_parts:
  assumes "add_collection le coll (loader_from_parts pls extractor) = (Inr (), e)"
    and irs: "collect_results (lower_with_pipelines le (loader_from_parts pls extractor)) (sc_rules coll) = Inr irs"
  obtains cs dss where "length cs = length irs"
    and "\<And>i. i < length irs \<Longrightarrow> compile_to_compiled (ld_ext le) (irs ! i) = Inr (cs ! i)"
    and "list_all2 (\<lambda>fr ds. filter_detections le fr = Inr ds) (sc_filters coll) dss"
    and "lo_engine e = rebuild_index (ld_bloom le) (ld_ext le) (ld_index le)
      (apply_filter_list (zip (sc_filters coll) dss) ((engine_from_parts extractor) \<lparr> en_rules := cs \<rparr>))"
proof -
  let ?e0 = "loader_from_parts pls extractor"
  from assms(1) obtain ps dss where
    ps: "list_all2 (\<lambda>r (ir, c). lower_with_pipelines le ?e0 r = Inr ir
        \<and> compile_to_compiled (ld_ext le) ir = Inr c) (sc_rules coll) ps"
    and dss: "list_all2 (\<lambda>fr ds. filter_detections le fr = Inr ds) (sc_filters coll) dss"
    and e: "e = loader_rebuild le ((store_pairs ps ?e0)
      \<lparr> lo_engine := apply_filter_list (zip (sc_filters coll) dss) (lo_engine (store_pairs ps ?e0)) \<rparr>)"
    unfolding add_collection_Inr by blast
  have fsts: "irs = map fst ps"
    using irs ps unfolding collect_results_Inr
    by (auto simp: list_all2_conv_all_nth case_prod_unfold intro!: nth_equalityI)
  show thesis
  proof (rule that [of "map snd ps" dss])
    show "compile_to_compiled (ld_ext le) (irs ! i) = Inr (map snd ps ! i)" if "i < length irs" for i
      using that ps fsts by (auto simp: list_all2_conv_all_nth case_prod_unfold)
    show "lo_engine e = rebuild_index (ld_bloom le) (ld_ext le) (ld_index le)
      (apply_filter_list (zip (sc_filters coll) dss) ((engine_from_parts extractor) \<lparr> en_rules := map snd ps \<rparr>))"
      by (simp add: e loader_rebuild_def store_pairs_frame loader_from_parts_def engine_from_parts_def)
  qed (use fsts dss in simp_all)
qed

section \<open>Plain field names\<close>

text \<open>
  The fields a detection of the intermediate representation names at event scope are plain; lowering
  gives no existence flag without a field, so its compiled form is indexable.
\<close>

definition plain_name :: "string option \<Rightarrow> bool" where
  "plain_name field = (case field of Some f \<Rightarrow> plain_field f | None \<Rightarrow> True)"

fun ir_plain :: "ir_detection \<Rightarrow> bool" where
  "ir_plain (IdAllOf items) = list_all (\<lambda>i. plain_name (idi_field i)) items"
| "ir_plain (IdAnyOf dets) = list_all ir_plain dets"
| "ir_plain (IdAnd dets) = list_all ir_plain dets"
| "ir_plain (IdArrayMatch field q body) = plain_field field"
| "ir_plain _ = True"

definition ir_rule_plain :: "ir_rule \<Rightarrow> bool" where
  "ir_rule_plain ir = list_all (\<lambda>e. ir_plain (snd e)) (ir_detections ir)"

fun ir_fielded :: "ir_detection \<Rightarrow> bool" where
  "ir_fielded (IdAllOf items) = list_all (\<lambda>i. idi_field i = None \<longrightarrow> idi_exists i = None) items"
| "ir_fielded (IdAnyOf dets) = list_all ir_fielded dets"
| "ir_fielded (IdAnd dets) = list_all ir_fielded dets"
| "ir_fielded _ = True"

lemma lowered_item_fielded:
  "lower_detection_item env opts item = Inr i \<Longrightarrow> idi_field i = None \<Longrightarrow> idi_exists i = None"
  by (auto simp: lower_detection_item_def lower_exists_item_def Let_def result_map_Inr
      split: sum.splits if_splits option.splits list.splits)

lemma lowered_fielded: "lower_detection env opts d = Inr i \<Longrightarrow> ir_fielded i"
proof (induction env opts d arbitrary: i rule: lower_detection.induct)
  case (1 env opts items)
  then obtain irs where low: "collect_results (lower_detection_item env opts) items = Inr irs"
    "i = IdAllOf irs" by (auto simp: result_map_Inr split: if_splits)
  have "list_all (\<lambda>i. idi_field i = None \<longrightarrow> idi_exists i = None) irs"
    by (rule collect_list_all [OF low(1)]) (use lowered_item_fielded in blast)
  with low show ?case by simp
next
  case (2 env opts dets)
  then obtain irs where low: "collect_results (lower_detection env opts) dets = Inr irs"
    "dets \<noteq> []" "i = IdAnyOf irs" by (auto simp: result_map_Inr split: if_splits)
  have "list_all ir_fielded irs" by (rule collect_list_all [OF low(1)]) (rule "2.IH" [OF low(2)])
  with low show ?case by simp
next
  case (4 env opts dets)
  then obtain irs where low: "collect_results (lower_detection env opts) dets = Inr irs"
    "dets \<noteq> []" "i = IdAnd irs" by (auto simp: result_map_Inr split: if_splits)
  have "list_all ir_fielded irs" by (rule collect_list_all [OF low(1)]) (rule "4.IH" [OF low(2)])
  with low show ?case by simp
next
  case (6 env opts vs)
  then obtain ms where "(case ms of [] \<Rightarrow> Inl (IeInvalidModifiers ''Keywords detection must not be empty'')
      | [m] \<Rightarrow> Inr (IdKeywords m) | _ \<Rightarrow> Inr (IdKeywords (ImAnyOf ms))) = Inr i"
    by (auto simp: lower_keywords_def result_bind_Inr)
  then show ?case by (cases ms; cases "tl ms") auto
qed (auto simp: result_simps split: if_splits)

lemma compiled_indexable:
  "compile_ir_detection_in env d sc = Inr c \<Longrightarrow> ir_plain d \<Longrightarrow> ir_fielded d \<Longrightarrow> detection_indexable c"
proof (induction env d sc arbitrary: c rule: compile_ir_detection_in.induct)
  case (1 env items sc)
  then obtain cs where low: "collect_results (\<lambda>item. compile_ir_detection_item_in env item sc) items = Inr cs"
    "c = CdAllOf cs" by (auto simp: result_map_Inr split: if_splits)
  have "list_all item_indexable cs"
    by (rule collect_list_all [OF low(1)])
       (use 1(2,3) in \<open>auto simp: list_all_iff compile_ir_detection_item_in_def result_map_Inr
          item_indexable_def item_flagged_def plain_name_def split: option.splits\<close>)
  with low show ?case by simp
next
  case (2 env dets sc)
  then obtain cs where low: "collect_results (\<lambda>d. compile_ir_detection_in env d sc) dets = Inr cs"
    "dets \<noteq> []" "c = CdAnyOf cs" by (auto simp: result_map_Inr split: if_splits)
  have "list_all detection_indexable cs"
    by (rule collect_list_all [OF low(1)]) (use "2.IH" [OF low(2)] "2.prems" in \<open>simp add: list_all_iff\<close>)
  with low show ?case by simp
next
  case (4 env dets sc)
  then obtain cs where low: "collect_results (\<lambda>d. compile_ir_detection_in env d sc) dets = Inr cs"
    "dets \<noteq> []" "c = CdAnd cs" by (auto simp: result_map_Inr split: if_splits)
  have "list_all detection_indexable cs"
    by (rule collect_list_all [OF low(1)]) (use "4.IH" [OF low(2)] "4.prems" in \<open>simp add: list_all_iff\<close>)
  with low show ?case by simp
qed (auto simp: result_map_Inr split: if_splits)

lemma compiled_values_indexable:
  assumes "collect_values (compile_ir_detection env) irds = Inr ds"
    and "list_all (\<lambda>e. ir_plain (snd e)) irds" and "list_all (\<lambda>e. ir_fielded (snd e)) irds"
  shows "list_all (\<lambda>e. detection_indexable (snd e)) ds"
  using assms compiled_indexable
  unfolding collect_values_Inr compile_ir_detection_def list_all2_conv_all_nth list_all_length by metis

lemma compiled_rule_indexable:
  assumes "compile_to_compiled env ir = Inr c" and "ir_rule_plain ir" and "ir_rule_wf ir"
    and "list_all (\<lambda>e. ir_fielded (snd e)) (ir_detections ir)"
  shows "rule_indexable c"
proof -
  from assms(1) obtain ds where ds: "collect_values (compile_ir_detection env) (ir_detections ir) = Inr ds"
    and c: "cru_detections c = ds" "cru_conditions c = map ir_condition_to_expr (ir_conditions ir)"
    by (auto simp: compile_to_compiled_def result_map_Inr Let_def)
  from compiled_values_indexable [OF ds assms(2) [unfolded ir_rule_plain_def] assms(4)] c assms(3)
  show ?thesis by (simp add: rule_indexable_def ir_rule_wf_def list.pred_map comp_def)
qed

lemma lowered_values_fielded:
  assumes "collect_values (lower_detection env opts) ds = Inr irds"
  shows "list_all (\<lambda>e. ir_fielded (snd e)) irds"
  using assms lowered_fielded
  unfolding collect_values_Inr list_all2_conv_all_nth list_all_length by metis

lemma lower_rule_fielded:
  "lower_rule env ye opts rule = Inr ir \<Longrightarrow> list_all (\<lambda>e. ir_fielded (snd e)) (ir_detections ir)"
  by (auto simp: lower_rule_def result_simps intro: lowered_values_fielded)

lemma lowered_rule_fielded:
  "lower_with_pipelines le e rule = Inr ir \<Longrightarrow> list_all (\<lambda>e. ir_fielded (snd e)) (ir_detections ir)"
  by (cases "apply_pipelines (ld_pipe le) (lo_pipelines e) rule")
     (auto simp: lower_with_pipelines_def result_bind_def map_error_def Let_def dest: lower_rule_fielded
        split: if_splits sum.splits)

text \<open>Injecting a filter over plain fields keeps a rule indexable.\<close>

lemma fold_insert_all:
  "list_all (\<lambda>e. P (snd e)) m \<Longrightarrow> list_all (\<lambda>e. P (snd e)) fs \<Longrightarrow>
   list_all (\<lambda>e. P (snd e)) (fold (\<lambda>(k, v) m. map_insert (g k) v m) fs m)"
proof (induction fs arbitrary: m)
  case (Cons f fs)
  have "list_all (\<lambda>e. P (snd e)) (map_insert k v m)" if "P v" for k v
    using Cons.prems(1) that by (induction k v m rule: map_insert.induct) auto
  with Cons show ?case by (cases f) simp
qed simp

lemma rewritten_nonzero: "counts_nonzero c \<Longrightarrow> counts_nonzero (rewrite_condition_identifiers n c)"
  by (induction c) (auto simp: list_all_iff)

lemma namespaced_nonzero:
  "list_all counts_nonzero (dets_conditions (fr_detection fr)) \<Longrightarrow>
   counts_nonzero (namespaced_filter_condition fr n)"
  by (auto simp: namespaced_filter_condition_def rewritten_nonzero Let_def list_all_iff split: list.splits)

lemma apply_filter_indexable:
  assumes "list_all rule_indexable (en_rules e)" and "list_all (\<lambda>e. detection_indexable (snd e)) ds"
    and "list_all counts_nonzero (dets_conditions (fr_detection fr))"
  shows "list_all rule_indexable (en_rules (apply_compiled_filter fr ds e))"
proof -
  have "rule_indexable (inject_filter n ds (namespaced_filter_condition fr n) r)" if "rule_indexable r" for n r
    using that assms(2) namespaced_nonzero [OF assms(3)]
    by (simp add: rule_indexable_def inject_filter_def fold_insert_all list_all_iff [of counts_nonzero]) 
  with assms(1) show ?thesis
    by (auto simp: apply_compiled_filter_def Let_def list.pred_map comp_def elim!: list.pred_mono_strong)
qed

lemma apply_filter_list_indexable:
  assumes "list_all (\<lambda>(fr, ds). list_all (\<lambda>e. detection_indexable (snd e)) ds
      \<and> list_all counts_nonzero (dets_conditions (fr_detection fr))) fs"
    and "list_all rule_indexable (en_rules e)"
  shows "list_all rule_indexable (en_rules (apply_filter_list fs e))"
  using assms
proof (induction fs arbitrary: e)
  case (Cons f fs)
  then show ?case by (cases f) (simp add: apply_filter_list_def apply_filter_indexable)
qed (simp add: apply_filter_list_def)

section \<open>Loaded rules\<close>

text \<open>The loaded rules fire as their intermediate representation reports.\<close>

lemma loaded_fires:
  fixes e1 :: engine
  assumes laws: "matcher_laws (ld_ext le)" "float_law (ld_ext le)" and event: "event_wf ev" "ascii_event ev"
    and typed: "list_all (\<lambda>ir. ir_rule_wf ir \<and> ir_apart ir) irs" "list_all filter_typed frs"
    and cs: "length (en_rules e1) = length irs" "en_filter_counter e1 = 0"
      "\<And>i. i < length irs \<Longrightarrow> compile_to_compiled (ld_ext le) (irs ! i) = Inr (en_rules e1 ! i)"
    and dss: "list_all2 (\<lambda>fr ds. filter_detections le fr = Inr ds) frs dss"
    and fds: "collect_results (lower_filter (ld_ext le)) frs = Inr fds"
    and i: "i < length irs"
  shows "rule_fires (ld_ext le) ev no_bloom (en_rules (apply_filter_list (zip frs dss) e1) ! i)
    \<longleftrightarrow> rule_reported (ld_ext le) ev irs (zip frs fds) (irs ! i)"
proof -
  let ?env = "ld_ext le"
  have pairs: "j < length frs \<Longrightarrow> filter_detections le (frs ! j) = Inr (dss ! j)
      \<and> lower_filter ?env (frs ! j) = Inr (fds ! j)" "length dss = length frs" "length fds = length frs" for j
    using dss fds unfolding collect_results_Inr by (auto simp: list_all2_conv_all_nth)
  note filter = filter_exact [OF laws(1) event(1) laws(2) event(2)]
  have fit: "list_all (\<lambda>(fr, ds). compiled_from fr ds \<and> ds \<noteq> []) (zip frs dss)"
    using pairs typed(2) filter(2,3) by (fastforce simp: list_all_length)
  have apart: "list_all (rule_apart (en_filter_counter e1)) (en_rules e1)"
    using typed(1) cs compiled_fields(6) by (fastforce simp: list_all_length)
  have ids: "rule_identities e1 = map (\<lambda>r. (im_id (ir_metadata r), im_name (ir_metadata r))) irs"
    using compiled_fields(4,5) [OF cs(3)] cs(1)
    by (intro nth_equalityI) (simp_all add: rule_identities_def)
  have "evaluate_rule ?env (en_rules e1 ! i) ev \<noteq> None \<longleftrightarrow> ir_rule_holds ?env ev (irs ! i)"
    using rule_exact [OF laws(1) event(1) _ _ cs(3) [OF i]] typed(1) i laws(2) event(2)
    by (simp add: list_all_length)
  then have "rule_fires ?env ev no_bloom (en_rules e1 ! i) \<longleftrightarrow> ir_rule_holds ?env ev (irs ! i)"
    unfolding evaluate_rule_def rule_fires_iff .
  moreover have "targeted e1 fr (en_rules e1 ! i) \<longleftrightarrow>
      filter_targets fr (stable_references fr
        (map (\<lambda>r. (im_id (ir_metadata r), im_name (ir_metadata r))) irs)) (ir_target (irs ! i))"
    for fr :: "'a yaml_value filter_rule"
    using compiled_fields(1) [OF cs(3) [OF i]] by (simp add: targeted_def ids)
  ultimately show ?thesis
    using apply_filter_list_fires [OF apart fit, of i ?env ev no_bloom] i cs(1) pairs typed(2) filter(1)
    by (auto simp: rule_reported_def list_all_length)
qed

lemma loaded_indexable:
  assumes cs: "\<And>i. i < length irs \<Longrightarrow> compile_to_compiled (ld_ext le) (irs ! i) = Inr (cs ! i)"
    and len: "length cs = length irs"
    and dss: "list_all2 (\<lambda>fr ds. filter_detections le fr = Inr ds) frs dss"
    and irs: "collect_results (lower_with_pipelines le e0) rules = Inr irs"
    and fds: "collect_results (lower_filter (ld_ext le)) frs = Inr fds"
    and typed: "list_all (\<lambda>ir. ir_rule_wf ir \<and> ir_apart ir) irs" "list_all filter_typed frs"
    and plain: "list_all ir_rule_plain irs" "list_all (list_all (\<lambda>d. ir_plain (snd d))) fds"
    and e1: "en_rules e1 = cs"
  shows "list_all rule_indexable (en_rules (apply_filter_list (zip frs dss) e1))"
proof (rule apply_filter_list_indexable)
  have "list_all (\<lambda>ir. list_all (\<lambda>e. ir_fielded (snd e)) (ir_detections ir)) irs"
    by (rule collect_list_all [OF irs]) (rule lowered_rule_fielded)
  with typed(1) plain(1) have "rule_indexable (cs ! i)" if "i < length irs" for i
    using that by (intro compiled_rule_indexable [OF cs]) (simp_all add: list_all_length)
  with len show "list_all rule_indexable (en_rules e1)" unfolding e1 list_all_length by simp
  have "list_all (\<lambda>e. detection_indexable (snd e)) (dss ! j)
      \<and> list_all counts_nonzero (dets_conditions (fr_detection (frs ! j)))" if j: "j < length frs" for j
  proof -
    have low: "lower_filter (ld_ext le) (frs ! j) = Inr (fds ! j)"
      and ds: "filter_detections le (frs ! j) = Inr (dss ! j)" and "length fds = length frs"
      using j fds dss unfolding collect_results_Inr by (auto simp: list_all2_conv_all_nth)
    have "collect_values (compile_ir_detection (ld_ext le)) (fds ! j) = Inr (dss ! j)"
      by (rule collect_values_bind [OF _ low [unfolded lower_filter_def]])
         (use ds in \<open>simp add: filter_detections_def compile_detection_def [abs_def]\<close>)
    moreover have "list_all (\<lambda>e. ir_fielded (snd e)) (fds ! j)"
      by (rule lowered_values_fielded [OF low [unfolded lower_filter_def]])
    moreover have "list_all (\<lambda>e. ir_plain (snd e)) (fds ! j)"
      using plain(2) j \<open>length fds = length frs\<close> by (simp add: list_all_length)
    ultimately have "list_all (\<lambda>e. detection_indexable (snd e)) (dss ! j)"
      by (intro compiled_values_indexable)
    with typed(2) j show ?thesis by (simp add: filter_typed_def list_all_length)
  qed
  then show "list_all (\<lambda>(fr, ds). list_all (\<lambda>e. detection_indexable (snd e)) ds
      \<and> list_all counts_nonzero (dets_conditions (fr_detection fr))) (zip frs dss)"
    using list_all2_lengthD [OF dss] by (simp add: list_all_length)
qed

text \<open>
  C1: When a collection loads without error into a fresh engine with pipelines, the engine reports
  exactly the rules that hold: the results are, in the order of the collection, the rules whose
  intermediate representation (of the rule as the pipelines rewrite it) holds on the event, whose log
  source does not conflict with the event's, and for which the condition of every filter that targets
  them holds over the filter's own detections.  Indexes, automata and injected detections decide
  nothing.  The event is of one of the kinds the crates define (JSON, key-value, plain, map, or a decoded
  input line) and its texts are ASCII; rules and filters are as their Rust types allow (distinct keys,
  no count of zero, no negation or conjunction among alternatives); the fields they name have no
  backslash and no leading dot (escaped keys are missed by the index, as the theorem on escaped keys shows); and no
  rule's detection name or selector pattern can name the underscore keys that filters inject
  (see the theorem on hidden patterns).
\<close>

theorem loaded_engine_exact:
  assumes laws: "matcher_laws (ld_ext le)" "float_law (ld_ext le)" "engine_laws (ld_ext le) (ld_index le)"
    and event: "engine_event (ld_ext le) ev" "ascii_event ev"
    and loaded: "add_collection le coll (loader_from_parts pls extractor) = (Inr (), e)"
    and irs: "collect_results (lower_with_pipelines le (loader_from_parts pls extractor)) (sc_rules coll) = Inr irs"
    and fds: "collect_results (lower_filter (ld_ext le)) (sc_filters coll) = Inr fds"
    and typed: "list_all (\<lambda>ir. ir_rule_wf ir \<and> ir_apart ir) irs" "list_all filter_typed (sc_filters coll)"
    and plain: "list_all ir_rule_plain irs" "list_all (list_all (\<lambda>d. ir_plain (snd d))) fds"
  shows "map result_label (fst (engine_evaluate (ld_bloom le) (ld_ext le) (ld_index le) (lo_engine e) ev))
    = map rule_label
        (filter (\<lambda>ir. (case map_option (\<lambda>ex. lse_extract (ld_ext le) ex ev) extractor of
                        Some event_ls \<Rightarrow> logsource_compatible (ir_logsource ir) event_ls | None \<Rightarrow> True)
                   \<and> rule_reported (ld_ext le) ev irs (zip (sc_filters coll) fds) ir) irs)"
proof -
  obtain cs dss where len: "length cs = length irs"
    and cs: "\<And>i. i < length irs \<Longrightarrow> compile_to_compiled (ld_ext le) (irs ! i) = Inr (cs ! i)"
    and dss: "list_all2 (\<lambda>fr ds. filter_detections le fr = Inr ds) (sc_filters coll) dss"
    and lo: "lo_engine e = rebuild_index (ld_bloom le) (ld_ext le) (ld_index le)
      (apply_filter_list (zip (sc_filters coll) dss) ((engine_from_parts extractor) \<lparr> en_rules := cs \<rparr>))"
    by (rule loaded_parts [OF loaded irs]) (rule that)
  let ?env = "ld_ext le" and ?ls = "map_option (\<lambda>ex. lse_extract (ld_ext le) ex ev) extractor"
  let ?e1 = "(engine_from_parts extractor) \<lparr> en_rules := cs \<rparr>"
  let ?e2 = "apply_filter_list (zip (sc_filters coll) dss) ?e1"
  have fires: "rule_fires ?env ev no_bloom (en_rules ?e2 ! i)
      \<longleftrightarrow> rule_reported ?env ev irs (zip (sc_filters coll) fds) (irs ! i)" if "i < length irs" for i
    by (rule loaded_fires [OF laws(1,2) engine_event_wf [OF event(1)] event(2) typed _ _ _ dss fds that])
       (use len cs in \<open>simp_all add: engine_from_parts_def\<close>)
  have "engine_indexed ?env (ld_index le) (lo_engine e)" unfolding lo by (rule rebuild_indexed)
  moreover have "bloom_safe (ld_bloom le) (lo_engine e)" "en_logsource_extractor (lo_engine e) = extractor"
    and rules: "en_rules (lo_engine e) = en_rules ?e2"
    by (simp_all add: bloom_safe_def lo rebuild_index_def Let_def apply_filter_list_frame engine_from_parts_def)
  moreover have "rules_fit ?env ev (en_rules (lo_engine e))"
    unfolding rules
    by (rule rules_indexable_fit [OF event(1) loaded_indexable [OF cs len dss irs fds typed plain]])
       (simp_all add: engine_from_parts_def)
  ultimately have scan: "fst (engine_evaluate (ld_bloom le) ?env (ld_index le) (lo_engine e) ev)
      = full_scan ?env (lo_engine e) ev (kept ?ls)"
    using evaluate_inner_exact [OF laws(3)]
    by (simp add: engine_evaluate_def evaluate_identified_def)
  show ?thesis
    unfolding scan full_scan_def rules
  proof (rule filter_map_titles, rule list_all2_all_nthI)
    show "length irs = length (en_rules ?e2)" using len by (simp add: apply_filter_list_frame)
    fix i assume i: "i < length irs"
    have t: "rule_target (en_rules ?e2 ! i) = ir_target (irs ! i)"
      using i len compiled_fields(1) [OF cs [OF i]] by (simp add: apply_filter_list_frame)
    then have "cru_logsource (en_rules ?e2 ! i) = ir_logsource (irs ! i)"
      and "(cru_title (en_rules ?e2 ! i), cru_id (en_rules ?e2 ! i)) = rule_label (irs ! i)"
      by (simp_all add: rule_target_def ir_target_def rule_label_def)
    with fires [OF i] show "((if kept ?ls (en_rules ?e2 ! i)
          then evaluate_one ?env (lo_engine e) (en_rules ?e2 ! i) ev no_bloom else None) \<noteq> None
        \<longleftrightarrow> (case ?ls of Some event_ls \<Rightarrow> logsource_compatible (ir_logsource (irs ! i)) event_ls | None \<Rightarrow> True)
          \<and> rule_reported ?env ev irs (zip (sc_filters coll) fds) (irs ! i))
      \<and> (\<forall>r. (if kept ?ls (en_rules ?e2 ! i)
          then evaluate_one ?env (lo_engine e) (en_rules ?e2 ! i) ev no_bloom else None) = Some r
          \<longrightarrow> result_label r = rule_label (irs ! i))"
      using evaluate_one_label [of ?env "lo_engine e" "en_rules ?e2 ! i" ev no_bloom]
        evaluate_one_fires [of ?env "lo_engine e" "en_rules ?e2 ! i" ev no_bloom, unfolded rule_fires_iff]
      by (auto simp: kept_def split: option.splits)
  qed
qed

section \<open>Failed loads\<close>












section \<open>The HIR cache\<close>
























section \<open>Instances\<close>

text \<open>A cache encoder that knows one list of rules.\<close>

definition literal_cbor :: "ir_rule list \<Rightarrow> cbor_env" where
  "literal_cbor irs = \<lparr>
     cbor_package_version = ''0'',
     cbor_write_header = (\<lambda>h. if h = \<lparr> hch_ir_schema_version = hir_schema_version, hch_rsigma_version = ''0'' \<rparr>
       then Inr ''h'' else Inl ''header''),
     cbor_write_rules = (\<lambda>rs. if rs = irs then Inr ''r'' else Inl ''rules''),
     cbor_read_header = (\<lambda>b. case strip_prefix b ''h'' of
       Some r \<Rightarrow> Inr (\<lparr> hch_ir_schema_version = hir_schema_version, hch_rsigma_version = ''0'' \<rparr>, r)
     | None \<Rightarrow> Inl ''header''),
     cbor_read_rules = (\<lambda>b. if b = ''r'' then Inr irs else Inl ''rules'') \<rparr>"




definition literal_load :: "ir_rule list \<Rightarrow> int load_env" where
  "literal_load irs = \<lparr> ld_pipe = literal_pipe, ld_yaml = literal_yaml, ld_bloom = literal_bloom,
     ld_index = literal_index, ld_cbor = literal_cbor irs \<rparr>"

definition loaded_rule :: "int yaml_value sigma_rule" where
  "loaded_rule = sample_sigma_rule \<lparr> sr_title := ''shell'', sr_detection :=
     \<lparr> dets_named = [(''sel'', DAllOf [\<lparr> di_field = \<lparr> fs_name = Some ''Cmd'', fs_modifiers = [MdContains] \<rparr>,
           di_values = [SvString (sigma_string_new ''shell'')] \<rparr>])],
       dets_conditions = [CondIdentifier ''sel''], dets_condition_strings = [''sel''], dets_timeframe = None \<rparr> \<rparr>"

definition replacing_pipeline :: pipeline where
  "replacing_pipeline = \<lparr> pp_name = ''p'', pp_priority = 0, pp_vars = [],
     pp_transformations = [TransformationItem None
       (TfReplaceString ''shell'' \<lparr> rp_replacement = ''whoami'', rp_skip_special = True, rp_interpret_special = False \<rparr>)
       condition_set_default condition_set_default condition_set_default],
     pp_finalizers = [], pp_source_refs = [] \<rparr>"

definition loaded_filter :: "int yaml_value filter_rule" where
  "loaded_filter =
     \<lparr> fr_title = ''f'', fr_sigma_version = None, fr_id = None, fr_name = None, fr_taxonomy = None,
       fr_status = None, fr_description = None, fr_author = None, fr_date = None, fr_modified = None,
       fr_related = [], fr_license = None, fr_references = [], fr_tags = [], fr_fields = [],
       fr_falsepositives = [], fr_level = None, fr_scope = [], fr_logsource = None,
       fr_rules = TargetAny,
       fr_detection = \<lparr> dets_named = [(''usr'', DAllOf [\<lparr> di_field = \<lparr> fs_name = Some ''User'', fs_modifiers = [] \<rparr>,
           di_values = [SvString (sigma_string_new ''eve'')] \<rparr>])],
         dets_conditions = [CondNot (CondIdentifier ''usr'')], dets_condition_strings = [''not usr''],
         dets_timeframe = None \<rparr>,
       fr_custom_attributes = [] \<rparr>"

definition loaded_collection :: "int sigma_collection" where
  "loaded_collection = \<lparr> sc_rules = [loaded_rule], sc_correlations = [], sc_filters = [loaded_filter] \<rparr>"

definition loaded_once :: loader where
  "loaded_once = snd (load_each (compile_and_store (literal_load [])) (sc_rules loaded_collection)
     (loader_from_parts [replacing_pipeline] None))"

definition loaded_filtered :: loader where
  "loaded_filtered =
     snd (load_each (apply_filter_no_rebuild (literal_load [])) (sc_filters loaded_collection) loaded_once)"


lemma finished: "\<not> isl (fst p) \<Longrightarrow> p = (Inr (), snd p)" for p :: "('e + unit) \<times> 'a"
  by (cases "fst p") (auto simp: prod_eq_iff)

lemma loaded_sample:
  "add_collection (literal_load []) loaded_collection (loader_from_parts [replacing_pipeline] None)
    = (Inr (), loader_rebuild (literal_load []) loaded_filtered)"
proof -
  have "\<not> isl (fst (load_each (compile_and_store (literal_load [])) (sc_rules loaded_collection)
      (loader_from_parts [replacing_pipeline] None)))" by code_simp
  then have "load_each (compile_and_store (literal_load [])) (sc_rules loaded_collection)
      (loader_from_parts [replacing_pipeline] None) = (Inr (), loaded_once)"
    unfolding loaded_once_def by (rule finished)
  moreover have "\<not> isl (fst (load_each (apply_filter_no_rebuild (literal_load [])) (sc_filters loaded_collection)
      loaded_once))" by code_simp
  then have "load_each (apply_filter_no_rebuild (literal_load [])) (sc_filters loaded_collection) loaded_once
      = (Inr (), loaded_filtered)"
    unfolding loaded_filtered_def by (rule finished)
  ultimately show ?thesis by (simp add: add_collection_def)
qed

lemma literal_load_ext: "ld_ext (literal_load irs) = literal_env"
  by (simp add: ld_ext_def literal_load_def literal_pipe_def)

theorem loaded_engine_exact_witness:
  "\<exists>e. add_collection (literal_load []) loaded_collection (loader_from_parts [replacing_pipeline] None) = (Inr (), e)
    \<and> map result_label (fst (engine_evaluate literal_bloom literal_env literal_index (lo_engine e) sample_event))
      = [(''shell'', None)]"
proof -
  let ?low = "collect_results (lower_with_pipelines (literal_load []) (loader_from_parts [replacing_pipeline] None))
      (sc_rules loaded_collection)"
    and ?flt = "collect_results (lower_filter literal_env) (sc_filters loaded_collection)"
  have "case ?low of Inl _ \<Rightarrow> False | Inr irs \<Rightarrow> (case ?flt of Inl _ \<Rightarrow> False | Inr fds \<Rightarrow>
      list_all (\<lambda>ir. ir_rule_wf ir \<and> ir_apart ir) irs
      \<and> list_all ir_rule_plain irs \<and> list_all (list_all (\<lambda>d. ir_plain (snd d))) fds
      \<and> map rule_label (filter (rule_reported literal_env sample_event irs (zip (sc_filters loaded_collection) fds)) irs)
        = [(''shell'', None)])"
    by code_simp
  then obtain irs fds where r: "?low = Inr irs" "?flt = Inr fds" "list_all (\<lambda>ir. ir_rule_wf ir \<and> ir_apart ir) irs"
    "list_all ir_rule_plain irs" "list_all (list_all (\<lambda>d. ir_plain (snd d))) fds"
    "map rule_label (filter (rule_reported literal_env sample_event irs (zip (sc_filters loaded_collection) fds)) irs)
        = [(''shell'', None)]"
    by (auto split: sum.splits)
  have "ascii_event sample_event"
    by (auto simp: ascii_event_def sample_event_def kv_event_def is_ascii_def is_ascii_char_def split: if_splits)
  moreover have "list_all filter_typed (sc_filters loaded_collection)" by code_simp
  moreover have "ld_index (literal_load []) = literal_index" "ld_bloom (literal_load []) = literal_bloom"
    by (simp_all add: literal_load_def)
  ultimately show ?thesis
    using loaded_engine_exact [of "literal_load []" sample_event loaded_collection "[replacing_pipeline]" None
        "loader_rebuild (literal_load []) loaded_filtered" irs fds]
      literal_matcher_laws literal_float_law literal_engine_laws sample_engine_event loaded_sample r
    by (simp add: literal_load_ext)
qed







end
