(* ===== verification/ConditionProps.thy ===== *)
theory ConditionProps
  imports ConditionParse
begin

text \<open>
  Conditions read back what they print: the normal forms of conditions, what the grammar makes of
  the pieces of a printed condition, and the round trip of \<open>Display\<close> and \<open>parse_condition\<close>.
\<close>

section \<open>Normal forms\<close>

text \<open>
  A name the grammar reads as one identifier: not a reserved word, and not digits followed by
  \<open>of\<close>, which start a selector (\<open>1of x\<close>).
\<close>

definition ident_name :: "string \<Rightarrow> bool" where
  "ident_name s \<longleftrightarrow> s \<noteq> [] \<and> list_all is_ident_char s \<and> s \<notin> set reserved_words
     \<and> dropWhile is_digit_char s \<noteq> ''of''"

definition is_pattern_char :: "char \<Rightarrow> bool" where
  "is_pattern_char c = (is_ident_char c \<or> c = CHR ''*'')"

definition pattern_name :: "string \<Rightarrow> bool" where
  "pattern_name s \<longleftrightarrow> s \<noteq> [] \<and> list_all is_pattern_char s \<and> peg_keyword ''them'' s = None"

fun is_op :: "binary_op \<Rightarrow> condition_expr \<Rightarrow> bool" where
  "is_op OpAnd (CondAnd _) = True"
| "is_op OpOr (CondOr _) = True"
| "is_op _ _ = False"

text \<open>
  The form of the conditions the parser builds, over a predicate on identifiers: conjunctions and
  disjunctions have at least two parts, none of the same kind.
\<close>

fun cond_shape :: "(string \<Rightarrow> bool) \<Rightarrow> condition_expr \<Rightarrow> bool" where
  "cond_shape P (CondAnd es) = (2 \<le> length es \<and> list_all (\<lambda>e. cond_shape P e \<and> \<not> is_op OpAnd e) es)"
| "cond_shape P (CondOr es) = (2 \<le> length es \<and> list_all (\<lambda>e. cond_shape P e \<and> \<not> is_op OpOr e) es)"
| "cond_shape P (CondNot e) = cond_shape P e"
| "cond_shape P (CondIdentifier s) = P s"
| "cond_shape P (CondSelector q p) =
     (quantifier_wf q \<and> q \<noteq> QCount 1 \<and> (case p of Them \<Rightarrow> True | Pattern t \<Rightarrow> pattern_name t))"

abbreviation cond_normal :: "condition_expr \<Rightarrow> bool" where
  "cond_normal \<equiv> cond_shape ident_name"

text \<open>The nesting of parentheses in the printed form.\<close>

fun paren_depth :: "condition_expr \<Rightarrow> nat" where
  "paren_depth (CondAnd es) = Suc (fold max (map paren_depth es) 0)"
| "paren_depth (CondOr es) = Suc (fold max (map paren_depth es) 0)"
| "paren_depth (CondNot e) = paren_depth e"
| "paren_depth _ = 0"

lemma fold_max_bound: "fold max xs (a :: nat) \<le> m \<longleftrightarrow> a \<le> m \<and> (\<forall>x \<in> set xs. x \<le> m)"
  by (induction xs arbitrary: a) auto

lemma member_depth: "e \<in> set es \<Longrightarrow> paren_depth e \<le> fold max (map paren_depth es) 0"
  using fold_max_bound [of "map paren_depth es" 0 "fold max (map paren_depth es) 0"] by simp

section \<open>What may follow a printed operand\<close>

definition boundary :: "string \<Rightarrow> bool" where
  "boundary t \<longleftrightarrow> t = [] \<or> starts_with t '')'' \<or> starts_with t '' and '' \<or> starts_with t '' or ''"

lemma boundary_cases:
  assumes "boundary t"
  obtains "t = []" | u where "t = CHR '')'' # u" | u where "t = '' and '' @ u" | u where "t = '' or '' @ u"
  using assms by (auto simp: boundary_def starts_with_iff)

lemma char_classes [simp]:
  "\<not> is_ident_char (CHR '' '')" "\<not> is_ident_char (CHR ''('')" "\<not> is_ident_char (CHR '')'')"
  "\<not> is_ident_char (CHR ''*'')" "is_space (CHR '' '')" "\<not> is_space (CHR '')'')" "\<not> is_space (CHR ''('')"
  "\<not> is_space (CHR ''*'')" "\<not> is_space (CHR ''n'')"
  by (simp_all add: is_ident_char_def is_digit_char_def digit_val_def is_space_def)

lemma ident_not_space: "is_ident_char c \<Longrightarrow> \<not> is_space c"
  by (auto simp: is_space_def is_ident_char_def is_digit_char_def digit_val_def)

lemma pattern_not_space: "is_pattern_char c \<Longrightarrow> \<not> is_space c"
  by (auto simp: is_pattern_char_def ident_not_space)

lemma digit_ident: "is_digit_char c \<Longrightarrow> is_ident_char c"
  by (simp add: is_ident_char_def)

lemma boundary_word_ends: "boundary t \<Longrightarrow> word_ends t"
  by (erule boundary_cases) (auto simp: word_ends_def)

lemma skip_ws_Cons: "skip_ws (c # s) = (if is_space c then skip_ws s else c # s)"
  by (simp add: skip_ws_def)

lemma skip_ws_word: "s \<noteq> [] \<Longrightarrow> \<not> is_space (hd s) \<Longrightarrow> skip_ws (s @ t) = s @ t"
  by (cases s) (simp_all add: skip_ws_Cons)

text \<open>A keyword at a word: the word is the keyword.\<close>

lemma takeWhile_word:
  assumes "list_all P w" and "t = [] \<or> \<not> P (hd t)"
  shows "takeWhile P (w @ t) = w" and "dropWhile P (w @ t) = t"
  using assms by (auto simp: takeWhile_append dropWhile_append list_all_iff)
    (cases t; simp)+

lemma word_ends_hd: "word_ends t \<longleftrightarrow> t = [] \<or> \<not> is_ident_char (hd t)"
  by (cases t) (simp_all add: word_ends_def)

lemma peg_keyword_word:
  assumes "list_all is_ident_char kw" and "list_all is_ident_char w" and "word_ends t"
  shows "peg_keyword kw (w @ t) = (if w = kw then Some t else None)"
proof -
  have "w = kw \<and> r = t" if "w @ t = kw @ r" "word_ends r" for r
    using takeWhile_word [OF assms(2), of t] takeWhile_word [OF assms(1), of r] that assms(3)
    by (metis word_ends_hd)
  then have "peg_keyword kw (w @ t) = None" if "w \<noteq> kw"
    using that peg_keyword_Some not_None_eq by metis
  moreover have "peg_keyword kw (kw @ t) = Some t"
    using assms(3) by (simp add: peg_keyword_Some)
  ultimately show ?thesis by auto
qed

lemma keywords_ident [simp]:
  "list_all is_ident_char ''not''" "list_all is_ident_char ''and''" "list_all is_ident_char ''or''"
  "list_all is_ident_char ''all''" "list_all is_ident_char ''any''" "list_all is_ident_char ''of''"
  "list_all is_ident_char ''them''"
  by (simp_all add: is_ident_char_def)

lemma peg_keyword_other: "s = [] \<or> hd s \<noteq> k \<Longrightarrow> peg_keyword (k # ks) s = None"
  by (cases "peg_keyword (k # ks) s") (auto simp: peg_keyword_Some)

section \<open>Identifiers and selectors\<close>

lemma peg_nots_none: "peg_keyword ''not'' s = None \<Longrightarrow> peg_nots s = (0, s)"
  by (simp add: peg_nots.simps [of s])

lemma ident_word:
  assumes "ident_name i" and "word_ends t" and "kw \<in> set reserved_words"
  shows "peg_keyword kw (i @ t) = None"
proof -
  have "list_all is_ident_char kw"
    using assms(3) keywords_ident unfolding reserved_words_def by fastforce
  with peg_keyword_word [OF this _ assms(2), of i] assms(1,3) show ?thesis
    by (auto simp: ident_name_def)
qed

lemma boundary_not_of: "boundary t \<Longrightarrow> peg_keyword ''of'' (skip_ws t) = None"
  by (erule boundary_cases)
     (simp_all add: skip_ws_def is_space_def peg_keyword_def strip_prefix_def starts_with_def)

lemma boundary_not_digit: "boundary t \<Longrightarrow> t = [] \<or> \<not> is_digit_char (hd t)"
  by (erule boundary_cases) (auto simp: is_digit_char_def digit_val_def)

lemma ident_no_selector:
  assumes i: "ident_name i" and t: "boundary t"
  shows "peg_selector (i @ t) = None"
proof -
  have kws: "peg_keyword ''all'' (i @ t) = None" "peg_keyword ''any'' (i @ t) = None"
    using ident_word [OF i boundary_word_ends [OF t]] by (simp_all add: reserved_words_def)
  define j where "j = dropWhile is_digit_char i"
  have rest: "dropWhile is_digit_char (i @ t) = j @ t"
  proof (cases "j = []")
    case True
    then have "list_all is_digit_char i" by (simp add: j_def dropWhile_eq_Nil_conv list_all_iff)
    with True takeWhile_word(2) [of is_digit_char i t] boundary_not_digit [OF t] show ?thesis by simp
  next
    case False
    then show ?thesis by (auto simp: j_def dropWhile_append dropWhile_eq_Nil_conv)
  qed
  have "peg_keyword ''of'' (skip_ws (j @ t)) = None"
  proof (cases "j = []")
    case True
    with boundary_not_of [OF t] show ?thesis by simp
  next
    case False
    have idents: "list_all is_ident_char j"
      using i set_dropWhileD by (fastforce simp: ident_name_def j_def list_all_iff)
    with False have "skip_ws (j @ t) = j @ t"
      by (intro skip_ws_word) (simp_all add: ident_not_space list_all_iff)
    moreover have "j \<noteq> ''of''" using i by (simp add: ident_name_def j_def)
    ultimately show ?thesis
      using peg_keyword_word [OF keywords_ident(6) idents boundary_word_ends [OF t]] by simp
  qed
  with kws rest show ?thesis
    by (auto simp: peg_selector_def peg_quantifier_def peg_many1_Some split: option.splits)
qed

lemma ident_primary:
  assumes i: "ident_name i" and t: "boundary t"
  shows "peg_nots (i @ t) = (0, i @ t)" and "peg_primary n (i @ t) = Some (PrIdent i, t)"
proof -
  note word = ident_word [OF i boundary_word_ends [OF t]]
  show "peg_nots (i @ t) = (0, i @ t)"
    by (rule peg_nots_none, rule word) (simp add: reserved_words_def)
  have "peg_many1 is_ident_char (i @ t) = Some (i, t)"
    using takeWhile_word [of is_ident_char i t] i boundary_word_ends [OF t]
    by (auto simp: peg_many1_Some ident_name_def word_ends_hd)
  moreover have "\<not> list_ex (\<lambda>w. peg_keyword w (i @ t) \<noteq> None) reserved_words"
    using word by (simp add: list_ex_iff)
  moreover have "peg_group n (i @ t) = None"
    using i by (cases "peg_group n (i @ t)") (auto simp: peg_group_Some ident_name_def append_eq_Cons_conv)
  ultimately show "peg_primary n (i @ t) = Some (PrIdent i, t)"
    by (simp add: peg_primary_group ident_no_selector [OF i t] peg_ident_def)
qed

lemma show_nat_all_digits: "list_all is_digit_char (show_nat n)"
  by (induction n rule: show_nat.induct)
     (subst show_nat.simps, auto simp: is_digit_char_def digit_val_digit_char list_all_iff)

lemma pattern_target:
  assumes p: "pattern_name p" and t: "boundary t"
  shows "peg_target (p @ t) = Some (TpPattern p, t)"
proof -
  have "peg_keyword ''them'' (p @ t) = None"
  proof (rule ccontr)
    assume "peg_keyword ''them'' (p @ t) \<noteq> None"
    then obtain r where r: "p @ t = ''them'' @ r" "word_ends r" by (auto simp: peg_keyword_Some)
    then obtain u where u: "p = ''them'' @ u \<and> u @ t = r \<or> p @ u = ''them'' \<and> t = u @ r"
      unfolding append_eq_append_conv2 by blast
    then consider "p = ''them'' @ u" "r = u @ t" | "''them'' = p @ u" "t = u @ r" "u \<noteq> []"
      using r(2) by (cases "u = []") (simp, metis)
    then show False
    proof cases
      case 1
      with r have "word_ends u" by (cases u) (simp_all add: word_ends_def)
      then have "peg_keyword ''them'' p = Some u" using 1 by (simp add: peg_keyword_Some)
      with p show False by (simp add: pattern_name_def)
    next
      case 2
      have "p \<noteq> []" using p by (simp add: pattern_name_def)
      then obtain p' where "''hem'' = p' @ u"
        using 2(1) by (cases p) auto
      then have "set u \<subseteq> set ''hem''" by (metis set_append Un_upper2)
      moreover have "hd t \<in> set u" using 2 by (cases u) auto
      ultimately have "hd t \<in> set ''hem''" by blast
      moreover have "t \<noteq> []" using 2 by simp
      ultimately show False by (rule_tac boundary_cases [OF t]) auto
    qed
  qed
  moreover have "peg_many1 is_pattern_char (p @ t) = Some (p, t)"
  proof -
    have "t = [] \<or> \<not> is_pattern_char (hd t)"
      using t by (rule boundary_cases) (auto simp: is_pattern_char_def)
    with takeWhile_word [of is_pattern_char p t] p show ?thesis
      unfolding peg_many1_Some pattern_name_def by simp
  qed
  ultimately show ?thesis by (simp add: peg_target_def is_pattern_char_def [abs_def])
qed

section \<open>Operands\<close>

text \<open>
  The grammar and the parser on one operand that prints as \<open>s\<close>: the recogniser stops right after it,
  and its value is the expression.
\<close>

definition peg_operand :: "nat \<Rightarrow> string \<Rightarrow> (operand \<times> string) option" where
  "peg_operand n s =
     (case peg_nots s of (k, r) \<Rightarrow>
        map_option (\<lambda>(p, r'). ((k, p), r')) (peg_primary n r))"

definition operand_value :: "pest_env \<Rightarrow> string \<Rightarrow> nat \<Rightarrow> operand \<Rightarrow> condition_expr \<Rightarrow> bool" where
  "operand_value pe input d x e \<longleftrightarrow>
     (\<exists>v. primary_pair_value pe input d (snd x) = Inr v \<and> negations (fst x) v = e)"

definition reads_back :: "pest_env \<Rightarrow> string \<Rightarrow> nat \<Rightarrow> condition_expr \<Rightarrow> bool" where
  "reads_back pe input d e \<longleftrightarrow>
     (\<forall>n t. boundary t \<longrightarrow> length (show_condition e @ t) \<le> n \<longrightarrow>
        (\<exists>x. peg_operand n (show_condition e @ t) = Some (x, t) \<and> operand_value pe input d x e))"

lemma reads_backD:
  assumes "reads_back pe input d e" and "boundary t" and "length (show_condition e @ t) \<le> n"
  obtains k p v where "fst (peg_nots (show_condition e @ t)) = k"
    and "peg_primary n (snd (peg_nots (show_condition e @ t))) = Some (p, t)"
    and "primary_pair_value pe input d p = Inr v" and "negations k v = e"
proof -
  from assms obtain k p where x: "peg_operand n (show_condition e @ t) = Some ((k, p), t)"
    "operand_value pe input d (k, p) e"
    unfolding reads_back_def by force
  then obtain v where v: "primary_pair_value pe input d p = Inr v" "negations k v = e"
    unfolding operand_value_def by auto
  show ?thesis
  proof (rule that)
    show "fst (peg_nots (show_condition e @ t)) = k"
      using x(1) by (auto simp: peg_operand_def case_prod_unfold)
    show "peg_primary n (snd (peg_nots (show_condition e @ t))) = Some (p, t)"
      using x(1) by (auto simp: peg_operand_def case_prod_unfold)
  qed (use v in simp_all)
qed

lemma reads_identifier: "ident_name i \<Longrightarrow> reads_back pe input d (CondIdentifier i)"
  by (auto simp: reads_back_def peg_operand_def operand_value_def ident_primary negations_def)

text \<open>Everything printed begins with a character that is neither white space nor a star.\<close>

lemma show_nat_cons: "\<exists>c s. show_nat n = c # s \<and> is_digit_char c"
  using show_nat_all_digits [of n] by (cases "show_nat n") auto

lemma show_quantifier_word:
  "list_all is_ident_char (show_quantifier q) \<and> show_quantifier q \<noteq> [] \<and> show_quantifier q \<noteq> ''not''"
proof (cases q)
  case (QCount n)
  with show_nat_all_digits [of n] show ?thesis
    by (auto simp: list_all_iff intro: digit_ident) (simp add: is_digit_char_def digit_val_def)
qed (use keywords_ident in \<open>auto simp: is_ident_char_def is_digit_char_def digit_val_def\<close>)

lemma quantifier_reads:
  assumes "quantifier_wf q" and "q \<noteq> QCount 1" and "word_ends t"
    and "t = [] \<or> \<not> is_digit_char (hd t)"
  shows "\<exists>qp. peg_quantifier (show_quantifier q @ t) = Some (qp, t)
    \<and> parse_quantifier pe input qp = Inr q"
proof -
  have digits: "\<exists>qp. peg_quantifier (ds @ t) = Some (qp, t) \<and> (\<exists>pos. qp = QpUint pos ds)"
    if "list_all is_digit_char ds" "ds \<noteq> []" for ds
  proof -
    have "hd ds \<noteq> CHR ''a''"
      using that by (cases ds) (auto simp: is_digit_char_def digit_val_def)
    then have "peg_keyword ''all'' (ds @ t) = None" "peg_keyword ''any'' (ds @ t) = None"
      using that by (auto intro!: peg_keyword_other)
    moreover have "peg_many1 is_digit_char (ds @ t) = Some (ds, t)"
      using takeWhile_word [OF that(1) assms(4)] that(2) unfolding peg_many1_Some by simp
    ultimately show ?thesis by (auto simp: peg_quantifier_def)
  qed
  show ?thesis
  proof (cases q)
    case QAny
    have "list_all is_digit_char ''1''" by (simp add: is_digit_char_def digit_val_def)
    from digits [OF this] QAny show ?thesis
      by (auto simp: parse_quantifier_uint_def parse_u64_def digit_val_def u64_max_def)
  next
    case QAll
    have "peg_keyword ''all'' (''all'' @ t) = Some t" using assms(3) by (simp add: peg_keyword_Some)
    with QAll show ?thesis by (auto simp: peg_quantifier_def)
  next
    case (QCount n)
    with assms(1,2) have "1 < n" "n \<le> u64_max" by (auto simp: quantifier_wf_def)
    with parse_show_quantifier [of n] digits [OF show_nat_all_digits [of n]] QCount
    show ?thesis by auto
  qed
qed

lemma reads_selector:
  assumes q: "quantifier_wf q" "q \<noteq> QCount 1"
    and p: "case p of Them \<Rightarrow> True | Pattern t \<Rightarrow> pattern_name t"
  shows "reads_back pe input d (CondSelector q p)"
proof -
  have "\<exists>x. peg_operand n (show_quantifier q @ '' of '' @ show_pattern p @ t) = Some (x, t)
      \<and> operand_value pe input d x (CondSelector q p)" if t: "boundary t" for n t
  proof -
    let ?u = "'' of '' @ show_pattern p @ t"
    have ends: "word_ends ?u" by (simp add: word_ends_def)
    have "peg_keyword ''not'' (show_quantifier q @ ?u) = None"
      using peg_keyword_word [OF keywords_ident(1) _ ends] show_quantifier_word [of q] by simp
    then have nots: "peg_nots (show_quantifier q @ ?u) = (0, show_quantifier q @ ?u)"
      by (rule peg_nots_none)
    obtain qp where qp: "peg_quantifier (show_quantifier q @ ?u) = Some (qp, ?u)"
      "parse_quantifier pe input qp = Inr q"
      using quantifier_reads [OF q ends] by (auto simp: is_digit_char_def digit_val_def)
    have "peg_keyword ''of'' (skip_ws ?u) = Some ('' '' @ show_pattern p @ t)"
      by (simp add: peg_keyword_Some skip_ws_Cons is_space_def word_ends_def)
    moreover have "\<exists>tp. peg_target (skip_ws ('' '' @ show_pattern p @ t)) = Some (tp, t)
        \<and> parse_selector_target tp = p"
    proof (cases p)
      case Them
      have "peg_keyword ''them'' (''them'' @ t) = Some t"
        using boundary_word_ends [OF t] by (simp add: peg_keyword_Some)
      with Them show ?thesis by (auto simp: peg_target_def skip_ws_Cons is_space_def)
    next
      case (Pattern w)
      with p have w: "pattern_name w" by simp
      then have "skip_ws (w @ t) = w @ t"
        by (intro skip_ws_word) (auto simp: pattern_name_def list_all_iff pattern_not_space)
      with pattern_target [OF w t] Pattern show ?thesis by (auto simp: skip_ws_Cons)
    qed
    then obtain tp where "peg_target (skip_ws ('' '' @ show_pattern p @ t)) = Some (tp, t)"
      "parse_selector_target tp = p" by blast
    ultimately show ?thesis
      using qp nots
      by (auto simp: peg_operand_def peg_primary_group peg_selector_def operand_value_def
          parse_selector_def with_fallback_def negations_def)
  qed
  then show ?thesis by (auto simp: reads_back_def)
qed

section \<open>Negations and groups\<close>

definition word_start :: "string \<Rightarrow> bool" where
  "word_start s \<longleftrightarrow> s \<noteq> [] \<and> \<not> is_space (hd s)"

lemma show_word_start: "cond_normal e \<Longrightarrow> word_start (show_condition e)"
proof (cases e)
  case (CondSelector q p)
  with show_quantifier_word [of q] show ?thesis
    by (cases "show_quantifier q") (auto simp: word_start_def ident_not_space)
qed (auto simp: word_start_def ident_name_def list_all_iff ident_not_space)

lemma skip_word_start: "word_start s \<Longrightarrow> skip_ws (s @ t) = s @ t"
  by (simp add: word_start_def skip_ws_word)

lemma reads_not:
  assumes e: "reads_back pe input d e" and start: "word_start (show_condition e)"
  shows "reads_back pe input d (CondNot e)"
  unfolding reads_back_def
proof (intro allI impI)
  fix n t
  assume t: "boundary t" and n: "length (show_condition (CondNot e) @ t) \<le> n"
  then have len: "length (show_condition e @ t) \<le> n" by simp
  obtain k p v where x: "fst (peg_nots (show_condition e @ t)) = k"
    "peg_primary n (snd (peg_nots (show_condition e @ t))) = Some (p, t)"
    "primary_pair_value pe input d p = Inr v" "negations k v = e"
    by (rule reads_backD [OF e t len])
  have "peg_keyword ''not'' (show_condition (CondNot e) @ t) = Some ('' '' @ show_condition e @ t)"
    by (simp add: peg_keyword_Some word_ends_def)
  moreover have "skip_ws ('' '' @ show_condition e @ t) = show_condition e @ t"
    using skip_word_start [OF start] by (simp add: skip_ws_Cons)
  ultimately have "peg_nots (show_condition (CondNot e) @ t)
      = (Suc k, snd (peg_nots (show_condition e @ t)))"
    using x(1) by (subst peg_nots.simps) (auto split: prod.splits)
  with x show "\<exists>x. peg_operand n (show_condition (CondNot e) @ t) = Some (x, t)
      \<and> operand_value pe input d x (CondNot e)"
    by (auto simp: peg_operand_def operand_value_def negations_def)
qed

fun op_text :: "binary_op \<Rightarrow> string" where
  "op_text OpAnd = '' and ''"
| "op_text OpOr = '' or ''"

definition tail_text :: "binary_op \<Rightarrow> condition_expr list \<Rightarrow> string" where
  "tail_text op es = concat (map (\<lambda>e. op_text op @ show_condition e) es)"

lemma join_tail: "join_str (op_text op) (map show_condition (e # es)) = show_condition e @ tail_text op es"
  by (induction es arbitrary: e) (simp_all add: tail_text_def)

lemma boundary_tail: "boundary (tail_text op es @ CHR '')'' # t)"
  by (cases es; cases op) (simp_all add: boundary_def tail_text_def starts_with_def)

lemma infix_reads: "peg_infix (skip_ws (op_text op @ s)) = Some (op, '' '' @ s)"
proof (cases op)
  case OpAnd
  have "peg_keyword ''or'' (''and '' @ s) = None" by (rule peg_keyword_other) simp
  moreover have "peg_keyword ''and'' (''and '' @ s) = Some ('' '' @ s)"
    by (simp add: peg_keyword_Some word_ends_def)
  ultimately show ?thesis using OpAnd by (simp add: peg_infix_def skip_ws_Cons is_space_def)
next
  case OpOr
  have "peg_keyword ''or'' (''or '' @ s) = Some ('' '' @ s)"
    by (simp add: peg_keyword_Some word_ends_def)
  with OpOr show ?thesis by (simp add: peg_infix_def skip_ws_Cons is_space_def)
qed

definition reads_operand :: "pest_env \<Rightarrow> string \<Rightarrow> nat \<Rightarrow> condition_expr \<Rightarrow> bool" where
  "reads_operand pe input d e \<longleftrightarrow> reads_back pe input d e \<and> word_start (show_condition e)"

lemma tail_reads:
  assumes "list_all (reads_operand pe input d) es"
    and "length (tail_text op es @ CHR '')'' # t) \<le> n"
  shows "\<exists>xs. peg_tail n (tail_text op es @ CHR '')'' # t) = (xs, CHR '')'' # t)
    \<and> list_all2 (\<lambda>(op', x) e. op' = op \<and> operand_value pe input d x e) xs es"
  using assms
proof (induction es arbitrary: n)
  case Nil
  have "peg_infix (skip_ws (CHR '')'' # t)) = None"
    by (simp add: skip_ws_Cons peg_infix_def peg_keyword_other)
  then show ?case by (simp add: tail_text_def peg_tail.simps split: nat.splits)
next
  case (Cons e es)
  define more where "more = tail_text op es @ CHR '')'' # t"
  have shown: "tail_text op (e # es) @ CHR '')'' # t = op_text op @ show_condition e @ more"
    by (simp add: tail_text_def more_def)
  with Cons.prems(2) obtain m where n: "n = Suc m" and m: "length (show_condition e @ more) \<le> m"
    by (cases n; cases op) auto
  from Cons.prems(1) have e: "reads_back pe input d e" and start: "word_start (show_condition e)"
    by (simp_all add: reads_operand_def)
  obtain k p v where x: "fst (peg_nots (show_condition e @ more)) = k"
    "peg_primary m (snd (peg_nots (show_condition e @ more))) = Some (p, more)"
    "primary_pair_value pe input d p = Inr v" "negations k v = e"
    by (rule reads_backD [OF e _ m]) (simp_all add: more_def boundary_tail)
  obtain xs where xs: "peg_tail m more = (xs, CHR '')'' # t)"
    "list_all2 (\<lambda>(op', x) e. op' = op \<and> operand_value pe input d x e) xs es"
    using Cons.IH [of m] Cons.prems m by (auto simp: more_def)
  have "skip_ws ('' '' @ show_condition e @ more) = show_condition e @ more"
    using skip_word_start [OF start] by (simp add: skip_ws_Cons)
  then have "peg_tail n (op_text op @ show_condition e @ more) = ((op, k, p) # xs, CHR '')'' # t)"
    using x xs(1) unfolding n
    by (subst peg_tail.simps) (auto simp: infix_reads case_prod_unfold)
  with xs(2) x(3,4) show ?case
    unfolding shown by (auto simp: operand_value_def)
qed

lemma merge_arg_other: "\<not> is_op op e \<Longrightarrow> merge_arg op e = [e]"
  by (cases op; cases e) simp_all

lemma merge_arg_ctor [simp]: "merge_arg op (cond_ctor op es) = es"
  by (cases op) simp_all

lemma foldl_merge_ctor:
  "list_all (\<lambda>e. \<not> is_op op e) es \<Longrightarrow>
     foldl (merge_binary op) (cond_ctor op fs) es = cond_ctor op (fs @ es)"
  by (induction es arbitrary: fs) (simp_all add: merge_binary_def merge_arg_other)

lemma foldl_merge:
  assumes "list_all (\<lambda>e. \<not> is_op op e) (e # es)" and "es \<noteq> []"
  shows "foldl (merge_binary op) e es = cond_ctor op (e # es)"
  using assms by (cases es) (simp_all add: merge_binary_def merge_arg_other
      foldl_merge_ctor [of op _ "[_, _]", simplified])

lemma and_groups_and: "and_groups l (map (Pair OpAnd) es) = [foldl (merge_binary OpAnd) l es]"
  by (induction es arbitrary: l) simp_all

lemma and_groups_or: "and_groups l (map (Pair OpOr) es) = l # es"
  by (induction es arbitrary: l) simp_all

lemma pratt_fold_same:
  assumes "list_all (\<lambda>e. \<not> is_op op e) (e # es)" and "es \<noteq> []"
  shows "pratt_fold e (map (Pair op) es) = cond_ctor op (e # es)"
  using foldl_merge [OF assms]
  by (cases op) (simp_all add: pratt_fold_def and_groups_and and_groups_or)

lemma errors_of_Inr: "(\<And>r. r \<in> set rs \<Longrightarrow> \<exists>v. r = Inr v) \<Longrightarrow> errors_of rs = []"
  by (induction rs) (auto simp: errors_of_def, force)

lemma pratt_values:
  assumes "operand_value pe input d x e"
    and "list_all2 (\<lambda>(op', x) e. op' = op \<and> operand_value pe input d x e) xs es"
  shows "pratt_parse (primary_pair_value pe input d) (x, xs) = Inr (pratt_fold e (map (Pair op) es))"
proof -
  let ?f = "primary_pair_value pe input d"
  have "map (\<lambda>(op, k', q). (op, negations k' (primary_value (?f q)))) xs = map (Pair op) es
      \<and> errors_of (map (\<lambda>(_, _, q). ?f q) xs) = []"
    using assms(2)
    by (induction rule: list_all2_induct)
       (auto simp: operand_value_def primary_value_def errors_of_def)
  with assms(1) show ?thesis
    by (cases x) (auto simp: pratt_parse_def operand_value_def primary_value_def errors_of_def)
qed

lemma reads_group:
  assumes es: "list_all (reads_operand pe input (Suc d)) (e # es)"
    and others: "list_all (\<lambda>e. \<not> is_op op e) (e # es)" "es \<noteq> []"
    and depth: "d \<le> max_condition_depth"
  shows "reads_back pe input d (cond_ctor op (e # es))"
  unfolding reads_back_def
proof (intro allI impI)
  fix n t
  assume "boundary t" and n: "length (show_condition (cond_ctor op (e # es)) @ t) \<le> n"
  define more where "more = tail_text op es @ CHR '')'' # t"
  have shown: "show_condition (cond_ctor op (e # es)) @ t = CHR ''('' # show_condition e @ more"
    using join_tail [of op e es] by (cases op) (simp_all add: more_def)
  with n obtain m where m: "n = Suc m" and len: "length (show_condition e @ more) \<le> m"
    by (cases n) auto
  from es have e: "reads_back pe input (Suc d) e" and start: "word_start (show_condition e)"
    by (simp_all add: reads_operand_def)
  obtain k p v where x: "fst (peg_nots (show_condition e @ more)) = k"
    "peg_primary m (snd (peg_nots (show_condition e @ more))) = Some (p, more)"
    "primary_pair_value pe input (Suc d) p = Inr v" "negations k v = e"
    by (rule reads_backD [OF e _ len]) (simp_all add: more_def boundary_tail)
  obtain xs where xs: "peg_tail m more = (xs, CHR '')'' # t)"
    "list_all2 (\<lambda>(op', x) e. op' = op \<and> operand_value pe input (Suc d) x e) xs es"
    using tail_reads [of pe input "Suc d" es op t m] es len by (auto simp: more_def)
  have "peg_expr m (show_condition e @ more) = Some (((k, p), xs), CHR '')'' # t)"
    using x xs(1) by (subst peg_expr.simps) (auto simp: case_prod_unfold)
  then have "peg_group n (CHR ''('' # show_condition e @ more)
      = Some (PrExpr (length (show_condition e @ more)) ((k, p), xs), t)"
    unfolding m peg_group_Some using skip_word_start [OF start, of more] by (simp add: skip_ws_Cons)
  moreover have "peg_selector (CHR ''('' # s) = None" for s
    by (simp add: peg_selector_def peg_quantifier_def peg_keyword_other peg_many1_def
        is_digit_char_def digit_val_def)
  moreover have "peg_nots (CHR ''('' # s) = (0, CHR ''('' # s)" for s
    by (rule peg_nots_none, rule peg_keyword_other) simp
  moreover have "operand_value pe input (Suc d) (k, p) e" using x by (simp add: operand_value_def)
  note pratt_values [OF this xs(2)]
  then have "primary_pair_value pe input d (PrExpr pos ((k, p), xs)) = Inr (cond_ctor op (e # es))" for pos
    using depth pratt_fold_same [OF others]
    by (simp add: primary_pair_value_expr parse_expr_def with_fallback_def)
  ultimately show "\<exists>x. peg_operand n (show_condition (cond_ctor op (e # es)) @ t) = Some (x, t)
      \<and> operand_value pe input d x (cond_ctor op (e # es))"
    unfolding shown by (simp add: peg_operand_def peg_primary_group operand_value_def negations_def)
qed

section \<open>The round trip\<close>

lemma normal_reads:
  assumes "cond_normal e" and "paren_depth e + d \<le> Suc max_condition_depth"
  shows "reads_back pe input d e"
  using assms
proof (induction ident_name e arbitrary: d rule: cond_shape.induct)
  case (1 es)
  then obtain x xs where es: "es = x # xs" "xs \<noteq> []" by (cases es; cases "tl es") auto
  have "reads_operand pe input (Suc d) y" if "y \<in> set es" for y
    using 1 that member_depth [OF that]
    by (auto simp: reads_operand_def list_all_iff show_word_start)
  with 1 es reads_group [of pe input d x xs OpAnd] show ?case
    by (auto simp: list_all_iff)
next
  case (2 es)
  then obtain x xs where es: "es = x # xs" "xs \<noteq> []" by (cases es; cases "tl es") auto
  have "reads_operand pe input (Suc d) y" if "y \<in> set es" for y
    using 2 that member_depth [OF that]
    by (auto simp: reads_operand_def list_all_iff show_word_start)
  with 2 es reads_group [of pe input d x xs OpOr] show ?case
    by (auto simp: list_all_iff)
next
  case (3 e)
  then show ?case by (simp add: reads_not show_word_start)
next
  case (4 s)
  then show ?case by (simp add: reads_identifier)
next
  case (5 q p)
  then show ?case by (simp add: reads_selector)
qed

lemma condition_prints_parses:
  assumes "cond_normal e" and "paren_depth e \<le> max_condition_depth"
    and "length (show_condition e) \<le> max_condition_len"
  shows "parse_condition pe (show_condition e) = Inr e"
proof -
  let ?s = "show_condition e"
  have e: "reads_back pe ?s (Suc 0) e" by (rule normal_reads) (use assms in simp_all)
  have skip: "skip_ws ?s = ?s"
    using skip_word_start [OF show_word_start [OF assms(1)], of "[]"] by simp
  obtain k p v where x: "fst (peg_nots ?s) = k"
    "peg_primary (length ?s) (snd (peg_nots ?s)) = Some (p, [])"
    "primary_pair_value pe ?s (Suc 0) p = Inr v" "negations k v = e"
    using reads_backD [OF e, of "[]" "length ?s"] by (auto simp: boundary_def)
  have "peg_tail (length ?s) [] = ([], [])"
    by (simp add: peg_tail.simps skip_ws_def peg_infix_def peg_keyword_other split: nat.splits)
  then have "peg_expr (length ?s) ?s = Some (((k, p), []), [])"
    using x(1,2) by (simp add: peg_expr.simps case_prod_unfold)
  moreover have "skip_ws [] = []" by (simp add: skip_ws_def)
  ultimately have "peg_condition ?s = Some ((k, p), [])"
    by (simp add: peg_condition_def skip)
  moreover have "operand_value pe ?s (Suc 0) (k, p) e" using x by (simp add: operand_value_def)
  note pratt_values [OF this, where xs = "[]" and es = "[]"]
  ultimately show ?thesis
    using assms(3) by (simp add: parse_condition_def parse_expr_def pratt_fold_def)
qed

text \<open>
  C27: A condition that is printed and parsed again is the condition, for conditions in the form the
  parser builds: conjunctions and disjunctions of at least two parts, none of them of the same kind,
  names the grammar takes for identifiers, and no more nesting and text than the parser accepts.
\<close>

theorem condition_reparsed:
  assumes "cond_normal e" and "paren_depth e \<le> max_condition_depth"
    and "length (show_condition e) \<le> max_condition_len"
  shows "parse_condition pe (show_condition e) = Inr e"
  using assms by (rule condition_prints_parses)

theorem condition_reparsed_witness:
  "\<exists>e. e = CondAnd [CondIdentifier ''sel'', CondOr [CondNot (CondSelector QAny (Pattern ''f_*'')), CondSelector QAll Them]]
     \<and> parse_condition \<lparr> pest_failure = \<lambda>_. ([], None), pest_line_col = \<lambda>_ _. (0, 0) \<rparr> (show_condition e) = Inr e"
proof -
  let ?e = "CondAnd [CondIdentifier ''sel'', CondOr [CondNot (CondSelector QAny (Pattern ''f_*'')), CondSelector QAll Them]]"
  have "cond_normal ?e" by code_simp
  moreover have "paren_depth ?e \<le> max_condition_depth" by code_simp
  moreover have "length (show_condition ?e) \<le> max_condition_len" by (simp add: max_condition_len_def)
  ultimately show ?thesis using condition_reparsed by blast
qed

section \<open>What the parser builds\<close>

definition ident_text :: "string \<Rightarrow> bool" where
  "ident_text s \<longleftrightarrow> s \<noteq> [] \<and> list_all is_ident_char s \<and> s \<notin> set reserved_words"

inductive pair_ok :: "primary_pair \<Rightarrow> bool" where
  pair_ident: "ident_text w \<Longrightarrow> pair_ok (PrIdent w)"
| pair_them: "pair_ok (PrSelector pos q TpThem)"
| pair_pattern: "pattern_name w \<Longrightarrow> pair_ok (PrSelector pos q (TpPattern w))"
| pair_expr: "pair_ok p \<Longrightarrow> (\<And>op k q. (op, k, q) \<in> set xs \<Longrightarrow> pair_ok q)
    \<Longrightarrow> pair_ok (PrExpr pos ((k0, p), xs))"

lemma many1_word:
  assumes "peg_many1 P s = Some (w, r)"
  shows "w \<noteq> []" and "list_all P w" and "s = w @ r" and "r = [] \<or> \<not> P (hd r)"
  using assms hd_dropWhile [of P s]
  by (auto simp: peg_many1_Some list_all_iff dest: set_takeWhileD)

lemma peg_ident_ok:
  assumes "peg_ident s = Some (w, r)"
  shows "ident_text w"
proof -
  from assms have m: "peg_many1 is_ident_char s = Some (w, r)"
    and none: "\<And>kw. kw \<in> set reserved_words \<Longrightarrow> peg_keyword kw s = None"
    by (auto simp: peg_ident_def list_ex_iff split: if_splits)
  have "w \<notin> set reserved_words"
  proof
    assume "w \<in> set reserved_words"
    with none many1_word(3) [OF m] have "peg_keyword w (w @ r) = None" by simp
    moreover have "peg_keyword w (w @ r) = Some r"
      using many1_word(4) [OF m] by (simp add: peg_keyword_Some word_ends_hd)
    ultimately show False by simp
  qed
  with many1_word [OF m] show ?thesis by (simp add: ident_text_def)
qed

lemma peg_selector_ok:
  assumes "peg_selector s = Some (p, r)"
  shows "pair_ok p"
proof -
  from assms obtain q t u where p: "p = PrSelector (length s) q t" and t: "peg_target u = Some (t, r)"
    unfolding peg_selector_def by (auto split: option.splits)
  show ?thesis
  proof (cases t)
    case TpThem
    with p show ?thesis by (simp add: pair_them)
  next
    case (TpPattern w)
    with t have none: "peg_keyword ''them'' u = None" and m: "peg_many1 is_pattern_char u = Some (w, r)"
      by (auto simp: peg_target_def is_pattern_char_def [abs_def] split: option.splits)
    have "peg_keyword ''them'' w = None"
    proof (rule ccontr)
      assume "peg_keyword ''them'' w \<noteq> None"
      then obtain v where "w = ''them'' @ v" "word_ends v" by (auto simp: peg_keyword_Some)
      moreover from this many1_word(4) [OF m] have "word_ends (v @ r)"
        by (cases v) (auto simp: word_ends_hd is_pattern_char_def)
      ultimately have "peg_keyword ''them'' u = Some (v @ r)"
        using many1_word(3) [OF m] by (simp add: peg_keyword_Some)
      with none show False by simp
    qed
    with many1_word [OF m] have "pattern_name w" by (simp add: pattern_name_def)
    with p TpPattern show ?thesis by (simp add: pair_pattern)
  qed
qed

lemma peg_pairs_ok:
  "peg_primary n s = Some (p, r) \<Longrightarrow> pair_ok p"
  "peg_tail n s = (xs, r) \<Longrightarrow> \<forall>(op, k, q) \<in> set xs. pair_ok q"
proof (induction n arbitrary: s r p xs rule: less_induct)
  case (less n)
  have primary: "pair_ok p" if p: "peg_primary n s = Some (p, r)" for s p r
  proof (cases "peg_selector s")
    case (Some x)
    with p peg_selector_ok show ?thesis by (cases x) (auto simp: peg_primary_group)
  next
    case none: None
    show ?thesis
    proof (cases "peg_group n s")
      case None
      with p none show ?thesis by (auto simp: peg_primary_group intro: pair_ident dest: peg_ident_ok)
    next
      case (Some x)
      with p none have "peg_group n s = Some (p, r)" by (cases x) (auto simp: peg_primary_group)
      then obtain m s' x r' where m: "n = Suc m" and x: "peg_expr m (skip_ws s') = Some (x, r')"
        and p: "p = PrExpr (length (skip_ws s')) x"
        by (auto simp: peg_group_Some)
      from x obtain k q xs u v where "x = ((k, q), xs)" and "peg_primary m u = Some (q, v)"
        and "peg_tail m v = (xs, r')"
        by (auto simp: peg_expr.simps [of m] split: prod.splits option.splits)
      with less.IH(1) [of m u q v] less.IH(2) [of m v xs r'] m p show ?thesis
        by (auto intro!: pair_expr)
    qed
  qed
  have tail: "\<forall>(op, k, q) \<in> set xs. pair_ok q" if t: "peg_tail n s = (xs, r)" for s xs r
  proof (cases xs)
    case (Cons y ys)
    with t obtain m where n: "n = Suc m" by (cases n) (auto simp: peg_tail.simps)
    from t Cons obtain op' k' p u v w where "peg_primary m u = Some (p, v)" "peg_tail m v = (ys, w)"
      "y = (op', k', p)"
      unfolding n by (auto simp: peg_tail.simps [of "Suc m"] split: prod.splits option.splits)
    with less.IH(1) [of m u p v] less.IH(2) [of m v ys w] Cons n show ?thesis by auto
  qed simp
  { case 1 then show ?case by (rule primary) }
  { case 2 then show ?case by (rule tail) }
qed

lemma shape_merge:
  assumes "cond_shape P l" and "cond_shape P r"
  shows "cond_shape P (merge_binary op l r)"
proof -
  have parts: "list_all (\<lambda>e. cond_shape P e \<and> \<not> is_op op e) (merge_arg op e) \<and> merge_arg op e \<noteq> []"
    if "cond_shape P e" for e
    using that by (cases op; cases e) (auto simp: list_all_iff)
  have "2 \<le> length (merge_arg op l @ merge_arg op r)"
    using parts [OF assms(1)] parts [OF assms(2)] by (cases "merge_arg op l"; cases "merge_arg op r") auto
  with parts [OF assms(1)] parts [OF assms(2)] show ?thesis
    by (cases op) (simp_all add: merge_binary_def)
qed

lemma shape_foldl:
  "cond_shape P l \<Longrightarrow> list_all (cond_shape P) es \<Longrightarrow> cond_shape P (foldl (merge_binary op) l es)"
  by (induction es arbitrary: l) (simp_all add: shape_merge)

lemma shape_groups:
  "cond_shape P l \<Longrightarrow> list_all (cond_shape P \<circ> snd) xs \<Longrightarrow> list_all (cond_shape P) (and_groups l xs)"
  by (induction l xs rule: and_groups.induct) (simp_all add: shape_merge)

lemma shape_pratt:
  assumes "cond_shape P l" and "list_all (cond_shape P \<circ> snd) xs"
  shows "cond_shape P (pratt_fold l xs)"
  using shape_groups [OF assms] assms(1)
  by (auto simp: pratt_fold_def shape_foldl split: list.splits)

lemma shape_negations: "cond_shape P (negations k e) = cond_shape P e"
  by (induction k) (simp_all add: negations_def)

lemma errors_of_Nil: "errors_of rs = [] \<longleftrightarrow> (\<forall>r \<in> set rs. \<exists>v. r = Inr v)"
proof (induction rs)
  case (Cons r rs)
  then show ?case by (cases r) (auto simp: errors_of_def)
qed (simp add: errors_of_def)

lemma pratt_parse_shape:
  assumes "pratt_parse f ((k, p), xs) = Inr e"
    and "\<And>v. f p = Inr v \<Longrightarrow> cond_shape P v"
    and "\<And>op k q v. (op, k, q) \<in> set xs \<Longrightarrow> f q = Inr v \<Longrightarrow> cond_shape P v"
  shows "cond_shape P e"
proof -
  from assms(1) have ok: "errors_of (f p # map (\<lambda>(_, _, q). f q) xs) = []"
    and e: "e = pratt_fold (negations k (primary_value (f p)))
      (map (\<lambda>(op, k', q). (op, negations k' (primary_value (f q)))) xs)"
    by (auto simp: pratt_parse_def Let_def split: if_splits)
  from ok obtain v where "f p = Inr v" by (auto simp: errors_of_Nil)
  moreover have "list_all (cond_shape P \<circ> snd)
      (map (\<lambda>(op, k', q). (op, negations k' (primary_value (f q)))) xs)"
  proof -
    have "cond_shape P (primary_value (f q))" if x: "(op, k', q) \<in> set xs" for op k' q
    proof -
      from ok x obtain v where "f q = Inr v" by (force simp: errors_of_Nil)
      with assms(3) [OF x this] show ?thesis by (simp add: primary_value_def)
    qed
    then show ?thesis by (auto simp: list_all_iff shape_negations)
  qed
  ultimately show ?thesis
    unfolding e using assms(2) by (intro shape_pratt) (simp_all add: shape_negations primary_value_def)
qed

lemma with_fallback_Inr: "with_fallback loc r = Inr e \<longleftrightarrow> r = Inr e"
  by (simp add: with_fallback_def map_error_Inr)

lemma parsed_quantifier:
  "parse_quantifier pe input q = Inr q' \<Longrightarrow> quantifier_wf q' \<and> q' \<noteq> QCount 1"
proof (cases q)
  case (QpUint pos s)
  assume "parse_quantifier pe input q = Inr q'"
  with QpUint have s: "parse_quantifier_uint s = Inr q'"
    by (auto split: sum.splits quantifier_error.splits)
  with parse_quantifier_wf show ?thesis
    by (auto simp: parse_quantifier_uint_def split: option.splits if_splits)
qed (auto simp: quantifier_wf_def)

lemma pair_value_shape:
  "pair_ok p \<Longrightarrow> primary_pair_value pe input d p = Inr e \<Longrightarrow> cond_shape ident_text e"
proof (induction arbitrary: d e rule: pair_ok.induct)
  case (pair_ident w)
  then show ?case by auto
next
  case (pair_expr p xs pos k0)
  then show ?case
    by (auto simp: primary_pair_value_expr parse_expr_def with_fallback_Inr split: if_splits
        elim!: pratt_parse_shape)
next
  case (pair_them pos q)
  then show ?case
    by (auto simp: with_fallback_Inr parse_selector_def result_map_Inr dest: parsed_quantifier)
next
  case (pair_pattern w pos q)
  then show ?case
    by (auto simp: with_fallback_Inr parse_selector_def result_map_Inr dest: parsed_quantifier)
qed

text \<open>
  C28: Whatever text the parser accepts, it builds a condition of this form: identifiers of the
  characters of names that are no reserved words, conjunctions and disjunctions of at least two
  parts with none of the same kind inside, counts of at least two, patterns that are not them.
\<close>

theorem parsed_condition_shape:
  assumes "parse_condition pe input = Inr e"
  shows "cond_shape ident_text e"
proof -
  from assms obtain x where "peg_condition input = Some x" and e: "parse_expr pe input 0 x = Inr e"
    by (auto simp: parse_condition_def map_error_Inr split: if_splits option.splits prod.splits)
  then obtain r where x: "peg_expr (length input) (skip_ws input) = Some (x, r)"
    by (auto simp: peg_condition_def split: option.splits if_splits)
  obtain k p xs where xs: "x = ((k, p), xs)" by (metis surj_pair)
  from x obtain u v where "peg_primary (length input) u = Some (p, v)"
    and "peg_tail (length input) v = (xs, r)"
    unfolding xs by (auto simp: peg_expr.simps [of "length input"] split: prod.splits option.splits)
  then have ok: "pair_ok p" "\<And>op k q. (op, k, q) \<in> set xs \<Longrightarrow> pair_ok q"
    using peg_pairs_ok by fastforce+
  from e show ?thesis
    unfolding xs parse_expr_def
    by (auto split: if_splits elim!: pratt_parse_shape intro: pair_value_shape ok)
qed

theorem parsed_condition_shape_witness:
  "\<exists>e. parse_condition \<lparr> pest_failure = \<lambda>_. ([], None), pest_line_col = \<lambda>_ _. (0, 0) \<rparr>
         ''(not a and b)'' = Inr e \<and> cond_shape ident_text e"
proof -
  let ?pe = "\<lparr> pest_failure = \<lambda>_. ([], None), pest_line_col = \<lambda>_ _. (0, 0) \<rparr>"
  let ?e = "CondAnd [CondNot (CondIdentifier ''a''), CondIdentifier ''b'']"
  have "cond_normal ?e" by code_simp
  then have "parse_condition ?pe (show_condition ?e) = Inr ?e"
    by (rule condition_prints_parses)
       (simp_all add: max_condition_len_def max_condition_depth_def)
  then have e: "parse_condition ?pe ''(not a and b)'' = Inr ?e" by simp
  from parsed_condition_shape [OF e] e show ?thesis by blast
qed

end
