(* ===== verification/CorrCycles.thy ===== *)
theory CorrCycles
  imports CorrEngine
begin

text \<open>
  The cycle check of the reference graph of the correlations (\<open>detect_correlation_cycles\<close> and
  \<open>dfs_find_cycle\<close> of \<open>rsigma-eval/src/correlation_engine/mod.rs\<close>): a depth-first search with
  white (0), gray (1) and black (2) nodes.  It terminates because every descent turns a white node
  gray, it reports a cycle exactly when there is one, and what it reports is a cycle.
\<close>

section \<open>The search\<close>

definition whites :: "nat list \<Rightarrow> nat" where
  "whites state = length (filter (\<lambda>c. c = 0) state)"

lemma whites_update:
  "i < length state \<Longrightarrow> state ! i = 0 \<Longrightarrow> c \<noteq> 0 \<Longrightarrow> Suc (whites (state[i := c])) = whites state"
proof (induction state arbitrary: i)
  case (Cons x state)
  then show ?case by (cases i) (auto simp: whites_def)
qed simp

lemma whites_update_le: "c \<noteq> 0 \<Longrightarrow> whites (state[i := c]) \<le> whites state"
proof (induction state arbitrary: i)
  case (Cons x state)
  then show ?case by (cases i) (auto simp: whites_def intro: le_SucI)
qed (simp add: whites_def)

text \<open>
  The loop over the successors of the node at the end of \<open>path\<close>, with the entry (gray, push) and the
  exit (pop, black) of the descent inlined.  A successor outside of the graph, on which the code
  would panic, is skipped: \<open>reference_graph\<close> has none.
\<close>

function dfs_nexts ::
    "nat list list \<Rightarrow> nat list \<Rightarrow> nat list \<Rightarrow> nat list \<Rightarrow> nat list option \<times> nat list \<times> nat list" where
  "dfs_nexts adj [] state path = (None, state, path)"
| "dfs_nexts adj (next # rest) state path =
     (if \<not> next < length state then dfs_nexts adj rest state path
      else if state ! next = 1 \<and> next \<in> set path then
        (Some (dropWhile (\<lambda>n. n \<noteq> next) path @ [next]), state, path)
      else if state ! next = 0 then
        (let r = dfs_nexts adj (adj ! next) (state[next := 1]) (path @ [next])
         in case fst r of
              Some cycle \<Rightarrow> r
            | None \<Rightarrow> dfs_nexts adj rest ((fst (snd r))[next := 2]) (butlast (snd (snd r))))
      else dfs_nexts adj rest state path)"
  by pat_completeness auto

termination
proof -
  have shrinks: "length (fst (snd (dfs_nexts adj nexts state path))) = length state \<and>
      whites (fst (snd (dfs_nexts adj nexts state path))) \<le> whites state"
    if "dfs_nexts_dom (adj, nexts, state, path)" for adj nexts state path
    using that
  proof (induction adj nexts state path rule: dfs_nexts.pinduct)
    case (1 adj state path)
    then show ?case by (simp add: dfs_nexts.psimps)
  next
    case (2 adj nxt rest state path)
    let ?r = "dfs_nexts adj (adj ! nxt) (state[nxt := 1]) (path @ [nxt])"
    show ?case
    proof (cases "nxt < length state \<and> \<not> (state ! nxt = 1 \<and> nxt \<in> set path) \<and> state ! nxt = 0")
      case True
      have r: "length (fst (snd ?r)) = length state" "whites (fst (snd ?r)) \<le> whites state"
        using "2.IH"(2) True whites_update_le [of 1 state nxt] by auto
      have "whites ((fst (snd ?r))[nxt := 2]) \<le> whites state"
        using whites_update_le [of 2 "fst (snd ?r)" nxt] r(2) by simp
      then show ?thesis
        using "2.IH"(3) [OF _ _ _ refl] True r
        by (auto simp: dfs_nexts.psimps(2) [OF "2.hyps"] Let_def split: option.split)
    next
      case False
      then show ?thesis using "2.IH"(1,4) by (auto simp: dfs_nexts.psimps(2) [OF "2.hyps"])
    qed
  qed
  show ?thesis
  proof (relation "measures [\<lambda>(adj, nexts, state, path). whites state, \<lambda>(adj, nexts, state, path). length nexts]")
    fix adj :: "nat list list" and nxt rest and state :: "nat list" and path
    assume n: "\<not> \<not> nxt < length state" "state ! nxt = 0"
    show "((adj, adj ! nxt, state[nxt := 1], path @ [nxt]), (adj, nxt # rest, state, path))
        \<in> measures [\<lambda>(adj, nexts, state, path). whites state, \<lambda>(adj, nexts, state, path). length nexts]"
      using whites_update [of nxt state 1] n by simp
  next
    fix adj :: "nat list list" and nxt rest and state :: "nat list" and path r
    assume n: "\<not> \<not> nxt < length state" "state ! nxt = 0"
      and r: "r = dfs_nexts adj (adj ! nxt) (state[nxt := 1]) (path @ [nxt])"
      and dom: "dfs_nexts_dom (adj, adj ! nxt, state[nxt := 1], path @ [nxt])"
    have "whites ((fst (snd r))[nxt := 2]) < whites state"
      using shrinks [OF dom] whites_update [of nxt state 1] n
        whites_update_le [of 2 "fst (snd r)" nxt] by (simp add: r)
    then show "((adj, rest, (fst (snd r))[nxt := 2], butlast (snd (snd r))), (adj, nxt # rest, state, path))
        \<in> measures [\<lambda>(adj, nexts, state, path). whites state, \<lambda>(adj, nexts, state, path). length nexts]"
      by simp
  qed auto
qed

definition dfs_find_cycle ::
    "nat \<Rightarrow> nat list list \<Rightarrow> nat list \<Rightarrow> nat list \<Rightarrow> nat list option \<times> nat list \<times> nat list" where
  "dfs_find_cycle node adj state path =
     (let r = dfs_nexts adj (adj ! node) (state[node := 1]) (path @ [node])
      in case fst r of
           Some cycle \<Rightarrow> r
         | None \<Rightarrow> (None, (fst (snd r))[node := 2], butlast (snd (snd r))))"

fun search_starts :: "nat list list \<Rightarrow> nat list \<Rightarrow> nat list \<Rightarrow> nat list \<Rightarrow> nat list option" where
  "search_starts adj [] state path = None"
| "search_starts adj (start # starts) state path =
     (if state ! start = 0 then
        (case dfs_find_cycle start adj state path of
           (Some cycle, _) \<Rightarrow> Some cycle
         | (None, state', path') \<Rightarrow> search_starts adj starts state' path')
      else search_starts adj starts state path)"

section \<open>The reference graph\<close>

definition correlation_index :: "compiled_correlation list \<Rightarrow> (string \<times> nat) list" where
  "correlation_index corrs =
     fold (\<lambda>(idx, c) m. fold (\<lambda>k m. map_insert k idx m) (corr_identities c) m) (enumerate 0 corrs) []"

definition reference_graph :: "compiled_correlation list \<Rightarrow> nat list list" where
  "reference_graph corrs =
     map (\<lambda>c. filter_map (map_of (correlation_index corrs)) (cco_rule_refs c)) corrs"

definition corr_display_name :: "compiled_correlation \<Rightarrow> string" where
  "corr_display_name c =
     (case option_or (cco_id c) (cco_name c) of Some n \<Rightarrow> n | None \<Rightarrow> cco_title c)"

definition find_correlation_cycle :: "compiled_correlation list \<Rightarrow> nat list option" where
  "find_correlation_cycle corrs =
     search_starts (reference_graph corrs) [0..<length corrs] (replicate (length corrs) 0) []"

definition detect_correlation_cycles :: "corr_engine \<Rightarrow> corr_error option" where
  "detect_correlation_cycles e =
     map_option (\<lambda>cycle. CeCycle (join_str '' -> ''
         (map (\<lambda>i. corr_display_name (ce_correlations e ! i)) cycle)))
       (find_correlation_cycle (ce_correlations e))"

section \<open>Correctness of the search\<close>

definition edge :: "nat list list \<Rightarrow> nat \<Rightarrow> nat \<Rightarrow> bool" where
  "edge adj i j = (i < length adj \<and> j \<in> set (adj ! i))"

definition is_cycle :: "nat list list \<Rightarrow> nat list \<Rightarrow> bool" where
  "is_cycle adj c = (2 \<le> length c \<and> hd c = last c \<and> successively (edge adj) c)"

definition graph_wf :: "nat list list \<Rightarrow> bool" where
  "graph_wf adj = (\<forall>i < length adj. \<forall>j \<in> set (adj ! i). j < length adj)"

abbreviation on_cycle :: "nat list list \<Rightarrow> nat \<Rightarrow> bool" where
  "on_cycle adj i \<equiv> (edge adj)\<^sup>+\<^sup>+ i i"

text \<open>Gray nodes are the path; black nodes are closed under successors and on no cycle.\<close>

definition dfs_inv :: "nat list list \<Rightarrow> nat list \<Rightarrow> nat list \<Rightarrow> bool" where
  "dfs_inv adj state path =
     (length state = length adj \<and> set path \<subseteq> {..<length adj} \<and> distinct path \<and>
      (\<forall>i < length adj. state ! i = 1 \<longleftrightarrow> i \<in> set path) \<and> (\<forall>i < length adj. state ! i \<le> 2) \<and>
      successively (edge adj) path \<and>
      (\<forall>i < length adj. state ! i = 2 \<longrightarrow>
         \<not> on_cycle adj i \<and> (\<forall>j. edge adj i j \<longrightarrow> state ! j = 2)))"

lemma edge_lt: "graph_wf adj \<Longrightarrow> edge adj i j \<Longrightarrow> i < length adj \<and> j < length adj"
  by (auto simp: graph_wf_def edge_def)

lemma successively_tranclp:
  "successively r c \<Longrightarrow> 2 \<le> length c \<Longrightarrow> r\<^sup>+\<^sup>+ (hd c) (last c)"
proof (induction c)
  case (Cons x c)
  then obtain y c' where c: "c = y # c'" by (cases c) auto
  show ?case
  proof (cases c')
    case Nil
    then show ?thesis using Cons.prems by (simp add: c)
  next
    case (Cons z zs)
    have "r x y" "r\<^sup>+\<^sup>+ y (last c)" using Cons.prems Cons.IH by (simp_all add: c Cons)
    then show ?thesis by (simp add: c tranclp_into_tranclp2)
  qed
qed simp

lemma is_cycle_on_cycle: "is_cycle adj c \<Longrightarrow> on_cycle adj (hd c)"
  unfolding is_cycle_def using successively_tranclp [of "edge adj" c] by simp

lemma back_edge_cycle:
  assumes "successively (edge adj) path" and "n \<in> set path" and "edge adj (last path) n"
  shows "is_cycle adj (dropWhile (\<lambda>m. m \<noteq> n) path @ [n])"
proof -
  obtain p q where path: "path = p @ n # q" "n \<notin> set p" using assms(2) by (meson split_list_first)
  then have d: "dropWhile (\<lambda>m. m \<noteq> n) path = n # q"
    by (simp add: dropWhile_append3) (metis dropWhile_append2)
  have "successively (edge adj) (n # q)" using assms(1) by (simp add: path successively_append_iff)
  moreover have "edge adj (last (n # q)) n" using assms(3) by (simp add: path)
  ultimately have "successively (edge adj) ((n # q) @ [n])" unfolding successively_append_iff by simp
  then show ?thesis by (simp add: is_cycle_def d)
qed

lemma dfs_invI:
  assumes "length state = length adj" and "\<And>i. i \<in> set path \<Longrightarrow> i < length adj" and "distinct path"
    and "\<And>i. i < length adj \<Longrightarrow> state ! i = 1 \<longleftrightarrow> i \<in> set path"
    and "\<And>i. i < length adj \<Longrightarrow> state ! i \<le> 2" and "successively (edge adj) path"
    and "\<And>i. i < length adj \<Longrightarrow> state ! i = 2 \<Longrightarrow> \<not> on_cycle adj i"
    and "\<And>i j. i < length adj \<Longrightarrow> state ! i = 2 \<Longrightarrow> edge adj i j \<Longrightarrow> state ! j = 2"
  shows "dfs_inv adj state path"
  unfolding dfs_inv_def using assms by blast

lemma dfs_invD:
  assumes "dfs_inv adj state path"
  shows "length state = length adj" and "distinct path" and "successively (edge adj) path"
    and "i \<in> set path \<Longrightarrow> i < length adj"
    and "i < length adj \<Longrightarrow> state ! i = 1 \<longleftrightarrow> i \<in> set path"
    and "i < length adj \<Longrightarrow> state ! i \<le> 2"
    and "i < length adj \<Longrightarrow> state ! i = 2 \<Longrightarrow> edge adj i j \<Longrightarrow> state ! j = 2"
    and "i < length adj \<Longrightarrow> state ! i = 2 \<Longrightarrow> \<not> on_cycle adj i"
proof -
  note I = assms [unfolded dfs_inv_def]
  show "length state = length adj" "distinct path" "successively (edge adj) path" using I by blast+
  show "i \<in> set path \<Longrightarrow> i < length adj" using I by blast
  show "i < length adj \<Longrightarrow> state ! i = 1 \<longleftrightarrow> i \<in> set path" using I by blast
  show "i < length adj \<Longrightarrow> state ! i \<le> 2" using I by blast
  show "i < length adj \<Longrightarrow> state ! i = 2 \<Longrightarrow> edge adj i j \<Longrightarrow> state ! j = 2" using I by blast
  show "i < length adj \<Longrightarrow> state ! i = 2 \<Longrightarrow> \<not> on_cycle adj i" using I by blast
qed

lemma dfs_inv_black:
  "dfs_inv adj state path \<Longrightarrow> i < length adj \<Longrightarrow> state ! i \<noteq> 0 \<Longrightarrow> state ! i \<noteq> 1 \<Longrightarrow> state ! i = 2"
  using dfs_invD(6) [of adj state path i] by linarith

text \<open>Black nodes reach only black nodes.\<close>

lemma black_reach:
  assumes "(edge adj)\<^sup>+\<^sup>+ i j" and "dfs_inv adj state path" and "state ! i = 2" and "graph_wf adj"
  shows "state ! j = 2"
  using assms
proof (induction rule: tranclp_induct)
  case (base j)
  then show ?case using edge_lt [of adj i j] dfs_invD(7) by blast
next
  case (step j k)
  then show ?case using edge_lt [of adj j k] dfs_invD(7) by blast
qed

lemma dfs_inv_push:
  assumes "dfs_inv adj state path" and "n < length adj" and "state ! n = 0"
    and "path = [] \<or> edge adj (last path) n"
  shows "dfs_inv adj (state[n := 1]) (path @ [n])"
proof -
  note f = dfs_invD [OF assms(1)]
  have n: "n \<notin> set path" using f(5) [OF assms(2)] assms(3) by auto
  have at: "state[n := 1] ! i = (if i = n then 1 else state ! i)" for i
    using f(1) assms(2) by simp
  have old: "i \<noteq> n \<and> state ! i = 2" if "state[n := 1] ! i = 2" for i
    using that unfolding at by (simp split: if_splits)
  note at = at [unfolded One_nat_def]
  show ?thesis
  proof (rule dfs_invI)
    show "successively (edge adj) (path @ [n])"
      using f(3) assms(4) by (auto simp: successively_append_iff)
    show "state[n := 1] ! j = 2" if "i < length adj" "state[n := 1] ! i = 2" "edge adj i j" for i j
    proof -
      have "state ! j = 2" using old [OF that(2)] f(7) that(1,3) by blast
      then show ?thesis using assms(3) by (cases "j = n") simp_all
    qed
    show "i < length adj \<Longrightarrow> state[n := 1] ! i = 2 \<Longrightarrow> \<not> on_cycle adj i" for i
      using old [of i] f(8) [of i] by blast
    show "i < length adj \<Longrightarrow> state[n := 1] ! i = 1 \<longleftrightarrow> i \<in> set (path @ [n])" for i
      using f(5) [of i] by (simp add: at)
    show "i < length adj \<Longrightarrow> state[n := 1] ! i \<le> 2" for i using f(6) [of i] by (simp add: at)
    show "i \<in> set (path @ [n]) \<Longrightarrow> i < length adj" for i using f(4) [of i] assms(2) by auto
  qed (use f(1,2) n in simp_all)
qed

lemma dfs_inv_pop:
  assumes inv: "dfs_inv adj state (path @ [n])" and wf: "graph_wf adj"
    and fin: "\<forall>j \<in> set (adj ! n). state ! j = 2"
  shows "dfs_inv adj (state[n := 2]) path"
proof -
  note f = dfs_invD [OF inv]
  have n: "n < length adj" "n \<notin> set path" using f(2) f(4) [of n] by auto
  then have gray: "state ! n = 1" using f(5) [of n] by auto
  have at: "state[n := 2] ! i = (if i = n then 2 else state ! i)" for i using f(1) n by simp
  have succ: "edge adj n j \<Longrightarrow> state ! j = 2" for j using fin by (simp add: edge_def)
  have acyc: "\<not> on_cycle adj n"
  proof
    assume "on_cycle adj n"
    then obtain j where j: "edge adj n j" "j = n \<or> (edge adj)\<^sup>+\<^sup>+ j n"
      by (metis tranclpD rtranclpD)
    then have "state ! n = 2" using succ [OF j(1)] black_reach [OF _ inv _ wf, of j n] by auto
    then show False using gray by simp
  qed
  show ?thesis
  proof (rule dfs_invI)
    show "successively (edge adj) path" using f(3) by (simp add: successively_append_iff)
    show "i < length adj \<Longrightarrow> state[n := 2] ! i = 2 \<Longrightarrow> edge adj i j \<Longrightarrow> state[n := 2] ! j = 2" for i j
      using succ [of j] f(7) [of i j] by (auto simp: at split: if_splits)
    show "i < length adj \<Longrightarrow> state[n := 2] ! i = 2 \<Longrightarrow> \<not> on_cycle adj i" for i
      using acyc f(8) [of i] by (cases "i = n") (simp_all add: at)
    show "i < length adj \<Longrightarrow> state[n := 2] ! i = 1 \<longleftrightarrow> i \<in> set path" for i
      using f(5) [of i] n by (auto simp: at)
    show "i < length adj \<Longrightarrow> state[n := 2] ! i \<le> 2" for i using f(6) [of i] by (simp add: at)
    show "i \<in> set path \<Longrightarrow> i < length adj" for i using f(4) [of i] by simp
  qed (use f(1,2) in simp_all)
qed

lemma dfs_nexts_spec:
  assumes "dfs_inv adj state path" and "path \<noteq> []" and "\<forall>j \<in> set nexts. edge adj (last path) j"
    and "graph_wf adj"
  shows "case dfs_nexts adj nexts state path of
      (Some c, _) \<Rightarrow> is_cycle adj c
    | (None, state', path') \<Rightarrow> path' = path \<and> dfs_inv adj state' path
        \<and> (\<forall>i < length adj. state ! i = 2 \<longrightarrow> state' ! i = 2) \<and> (\<forall>j \<in> set nexts. state' ! j = 2)"
  using assms
proof (induction adj nexts state path rule: dfs_nexts.induct)
  case (2 adj nxt rest state path)
  have e: "edge adj (last path) nxt" and lt: "nxt < length adj" "length state = length adj"
    using "2.prems" edge_lt [of adj "last path" nxt] dfs_invD(1) by auto
  note f = dfs_invD [OF "2.prems"(1)]
  show ?case
  proof (cases "state ! nxt = 1")
    case True
    then show ?thesis
      using lt f(5) [OF lt(1)] back_edge_cycle [OF f(3) _ e] by simp
  next
    case gray: False
    show ?thesis
    proof (cases "state ! nxt = 0")
      case False
      then have b: "state ! nxt = 2" using gray dfs_inv_black "2.prems"(1) lt by blast
      have "case dfs_nexts adj rest state path of
            (Some c, _) \<Rightarrow> is_cycle adj c
          | (None, state', path') \<Rightarrow> path' = path \<and> dfs_inv adj state' path
              \<and> (\<forall>i < length adj. state ! i = 2 \<longrightarrow> state' ! i = 2) \<and> (\<forall>j \<in> set rest. state' ! j = 2)"
        using "2.IH"(4) "2.prems" gray False lt by simp
      then show ?thesis using b gray False lt by (auto split: prod.splits option.splits)
    next
      case white: True
      obtain c s p where r: "dfs_nexts adj (adj ! nxt) (state[nxt := 1]) (path @ [nxt]) = (c, s, p)"
        by (cases "dfs_nexts adj (adj ! nxt) (state[nxt := 1]) (path @ [nxt])")
      have inv1: "dfs_inv adj (state[nxt := 1]) (path @ [nxt])"
        using dfs_inv_push "2.prems" lt white e by blast
      have sub: "\<forall>j \<in> set (adj ! nxt). edge adj (last (path @ [nxt])) j" using lt by (simp add: edge_def)
      note IH = "2.IH"(2) [OF _ _ white, simplified r prod.case, OF _ _ inv1 _ sub "2.prems"(4)]
      show ?thesis
      proof (cases c)
        case (Some cyc)
        then show ?thesis using IH lt gray white r by simp
      next
        case None
        have p: "p = path @ [nxt]" and inv2: "dfs_inv adj s (path @ [nxt])"
          and keep: "\<forall>i < length adj. state[nxt := 1] ! i = 2 \<longrightarrow> s ! i = 2"
          and fin: "\<forall>j \<in> set (adj ! nxt). s ! j = 2"
          using IH lt gray None by simp_all
        have inv3: "dfs_inv adj (s[nxt := 2]) path" by (rule dfs_inv_pop [OF inv2 "2.prems"(4) fin])
        have step: "dfs_nexts adj (nxt # rest) state path = dfs_nexts adj rest (s[nxt := 2]) path"
          using lt gray white r None p by simp
        have ls: "length s = length adj" using inv2 by (simp add: dfs_inv_def)
        have keep3: "\<forall>i < length adj. state ! i = 2 \<longrightarrow> s[nxt := 2] ! i = 2"
          using keep white lt ls by (auto simp: nth_list_update)
        have IH3: "case dfs_nexts adj rest (s[nxt := 2]) path of
            (Some c, _) \<Rightarrow> is_cycle adj c
          | (None, state', path') \<Rightarrow> path' = path \<and> dfs_inv adj state' path
              \<and> (\<forall>i < length adj. s[nxt := 2] ! i = 2 \<longrightarrow> state' ! i = 2) \<and> (\<forall>j \<in> set rest. state' ! j = 2)"
          using "2.IH"(3) [OF _ _ white refl, unfolded r None p] inv3 "2.prems"(2-4) lt gray
        by (simp only: fst_conv snd_conv butlast_snoc) simp
        show ?thesis
          using IH3 keep3 lt ls unfolding step by (auto split: prod.splits option.splits)
      qed
    qed
  qed
qed simp

lemma dfs_find_cycle_spec:
  assumes inv: "dfs_inv adj state []" and "n < length adj" and "state ! n = 0" and wf: "graph_wf adj"
  shows "case dfs_find_cycle n adj state [] of
      (Some c, _) \<Rightarrow> is_cycle adj c
    | (None, state', path') \<Rightarrow> path' = [] \<and> dfs_inv adj state' [] \<and> state' ! n = 2
        \<and> (\<forall>i < length adj. state ! i = 2 \<longrightarrow> state' ! i = 2)"
proof -
  obtain c s p where r: "dfs_nexts adj (adj ! n) (state[n := 1]) [n] = (c, s, p)"
    by (cases "dfs_nexts adj (adj ! n) (state[n := 1]) [n]")
  have "dfs_inv adj (state[n := 1]) [n]" using dfs_inv_push [OF assms(1-3)] by simp
  note spec = dfs_nexts_spec [OF this _ _ wf, of "adj ! n", unfolded r prod.case]
  show ?thesis
  proof (cases c)
    case None
    have p: "p = [n]" and inv2: "dfs_inv adj s ([] @ [n])" and fin: "\<forall>j \<in> set (adj ! n). s ! j = 2"
      and keep: "\<forall>i < length adj. state[n := 1] ! i = 2 \<longrightarrow> s ! i = 2"
      using spec assms(2) by (auto simp: None edge_def)
    have "length s = length adj" using inv2 by (simp add: dfs_inv_def)
    then show ?thesis
      using dfs_inv_pop [OF inv2 wf fin] keep assms(2,3) p dfs_invD(1) [OF inv] r [unfolded None]
      by (auto simp: dfs_find_cycle_def nth_list_update split: if_splits)
  qed (use spec assms(2) r in \<open>simp add: dfs_find_cycle_def edge_def\<close>)
qed

lemma search_starts_spec:
  assumes "dfs_inv adj state []" and "\<forall>n \<in> set starts. n < length adj" and "graph_wf adj"
  shows "case search_starts adj starts state [] of
      Some c \<Rightarrow> is_cycle adj c
    | None \<Rightarrow> \<forall>i < length adj. state ! i = 2 \<or> i \<in> set starts \<longrightarrow> \<not> on_cycle adj i"
  using assms(1,2)
proof (induction starts arbitrary: state)
  case Nil
  then show ?case using dfs_invD(8) by (auto simp del: length_greater_0_conv)
next
  case (Cons n starts)
  have n: "n < length adj" using Cons.prems by simp
  show ?case
  proof (cases "state ! n = 0")
    case True
    obtain c s p where r: "dfs_find_cycle n adj state [] = (c, s, p)" by (cases "dfs_find_cycle n adj state []")
    note spec = dfs_find_cycle_spec [OF Cons.prems(1) n True assms(3), unfolded r prod.case]
    show ?thesis
    proof (cases c)
      case None
      have s: "p = []" "dfs_inv adj s []" "s ! n = 2" "\<forall>i < length adj. state ! i = 2 \<longrightarrow> s ! i = 2"
        using spec by (simp_all add: None)
      then show ?thesis
        using Cons.IH [OF s(2)] Cons.prems True r None n by (auto split: option.splits)
    qed (use spec True r in simp)
  next
    case False
    then have "state ! n = 2"
      using dfs_invD(5) [OF Cons.prems(1) n] dfs_inv_black [OF Cons.prems(1) n] by auto
    then show ?thesis using Cons.IH [OF Cons.prems(1)] Cons.prems False n by (auto split: option.splits)
  qed
qed

text \<open>From white nodes everywhere, the search decides whether there is a cycle.\<close>

lemma search_all_spec:
  assumes "graph_wf adj"
  shows "case search_starts adj [0..<length adj] (replicate (length adj) 0) [] of
      Some c \<Rightarrow> is_cycle adj c
    | None \<Rightarrow> \<forall>i. \<not> on_cycle adj i"
proof -
  have "dfs_inv adj (replicate (length adj) 0) []" by (simp add: dfs_inv_def)
  from search_starts_spec [OF this _ assms, of "[0..<length adj]"]
  have "case search_starts adj [0..<length adj] (replicate (length adj) 0) [] of
      Some c \<Rightarrow> is_cycle adj c
    | None \<Rightarrow> \<forall>i < length adj. \<not> on_cycle adj i" by (auto split: option.splits)
  moreover have "on_cycle adj i \<Longrightarrow> i < length adj" for i
    using edge_lt [OF assms] by (metis tranclpD)
  ultimately show ?thesis by (auto split: option.splits)
qed

section \<open>The reference graph and the check\<close>

text \<open>An identity names the last correlation loaded under it.\<close>

definition names_correlation :: "compiled_correlation list \<Rightarrow> string \<Rightarrow> nat \<Rightarrow> bool" where
  "names_correlation corrs r j =
     (j < length corrs \<and> r \<in> set (corr_identities (corrs ! j)) \<and>
      (\<forall>k. j < k \<and> k < length corrs \<longrightarrow> r \<notin> set (corr_identities (corrs ! k))))"

definition refers_to :: "compiled_correlation list \<Rightarrow> nat \<Rightarrow> nat \<Rightarrow> bool" where
  "refers_to corrs i j =
     (i < length corrs \<and> (\<exists>r \<in> set (cco_rule_refs (corrs ! i)). names_correlation corrs r j))"

lemma map_of_insert_all:
  "map_of (fold (\<lambda>k m. map_insert k i m) ks m) r = (if r \<in> set ks then Some i else map_of m r)"
  by (induction ks arbitrary: m) auto

lemma names_correlation_snoc:
  "names_correlation (corrs @ [c]) r j \<longleftrightarrow>
     (if r \<in> set (corr_identities c) then j = length corrs else names_correlation corrs r j)"
proof (cases "j < length corrs")
  case True
  have "(\<forall>k. j < k \<and> k < Suc (length corrs) \<longrightarrow> r \<notin> set (corr_identities ((corrs @ [c]) ! k))) \<longleftrightarrow>
      (\<forall>k. j < k \<and> k < length corrs \<longrightarrow> r \<notin> set (corr_identities (corrs ! k))) \<and>
      r \<notin> set (corr_identities c)"
    using True by (fastforce simp: nth_append less_Suc_eq)
  then show ?thesis using True by (simp add: names_correlation_def nth_append)
next
  case False
  then show ?thesis by (auto simp: names_correlation_def nth_append)
qed

lemma map_of_correlation_index:
  "map_of (correlation_index corrs) r = Some j \<longleftrightarrow> names_correlation corrs r j"
proof (induction corrs arbitrary: j rule: rev_induct)
  case (snoc c corrs)
  have "correlation_index (corrs @ [c]) =
      fold (\<lambda>k m. map_insert k (length corrs) m) (corr_identities c) (correlation_index corrs)"
    by (simp add: correlation_index_def enumerate_append_eq)
  then show ?case using snoc by (auto simp: map_of_insert_all names_correlation_snoc)
qed (simp add: correlation_index_def names_correlation_def)

lemma edge_reference_graph: "edge (reference_graph corrs) = refers_to corrs"
  by (intro ext)
     (auto simp: edge_def reference_graph_def refers_to_def set_filter_map map_of_correlation_index)

lemma reference_graph_wf: "graph_wf (reference_graph corrs)"
  by (auto simp: graph_wf_def reference_graph_def set_filter_map map_of_correlation_index
      names_correlation_def)

lemma find_correlation_cycle_spec:
  "case find_correlation_cycle corrs of
     Some c \<Rightarrow> 2 \<le> length c \<and> hd c = last c \<and> successively (refers_to corrs) c
   | None \<Rightarrow> \<forall>i. \<not> (refers_to corrs)\<^sup>+\<^sup>+ i i"
proof -
  have l: "length (reference_graph corrs) = length corrs" by (simp add: reference_graph_def)
  show ?thesis
    using search_all_spec [OF reference_graph_wf, of corrs]
    unfolding find_correlation_cycle_def l edge_reference_graph is_cycle_def
    by (auto split: option.splits)
qed

section \<open>Properties\<close>

text \<open>
  C21: Loading is refused for a cycle exactly when the correlations refer to each other in a cycle,
  by id or name, and the cycle that is reported is one.
\<close>

theorem cycle_check_exact:
  "(detect_correlation_cycles e = None \<longleftrightarrow> \<not> (\<exists>i. (refers_to (ce_correlations e))\<^sup>+\<^sup>+ i i)) \<and>
   (case find_correlation_cycle (ce_correlations e) of
      Some c \<Rightarrow> 2 \<le> length c \<and> hd c = last c \<and> successively (refers_to (ce_correlations e)) c
    | None \<Rightarrow> True)"
proof (cases "find_correlation_cycle (ce_correlations e)")
  case None
  then show ?thesis
    using find_correlation_cycle_spec [of "ce_correlations e"] by (simp add: detect_correlation_cycles_def)
next
  case (Some c)
  then have c: "2 \<le> length c" "hd c = last c" "successively (refers_to (ce_correlations e)) c"
    using find_correlation_cycle_spec [of "ce_correlations e"] by simp_all
  then show ?thesis
    using successively_tranclp [OF c(3,1)] Some by (auto simp: detect_correlation_cycles_def)
qed

end
