(* ===== verification/CorrRun.thy ===== *)
theory CorrRun
  imports CorrEngine
begin

text \<open>
  Runs of the correlation engine: what one step does to the group it touches, a locale for
  properties kept by every step, the state invariant, alert suppression, the bound on the state and
  the independence of groups.
\<close>

section \<open>Touching a group\<close>

text \<open>The part of the engine that processing never changes.\<close>

definition static_of :: "corr_engine \<Rightarrow> _" where
  "static_of e = (ce_correlations e, ce_rule_index e, ce_rule_ids e, ce_correlation_only_rules e,
     ce_generated_rules e, ce_config e)"

lemma static_ofD:
  assumes "static_of e' = static_of e"
  shows "ce_correlations e' = ce_correlations e" and "ce_rule_index e' = ce_rule_index e"
    and "ce_config e' = ce_config e"
    and "resolve_suppress e' = resolve_suppress e" and "resolve_action e' = resolve_action e"
    and "resolve_event_mode e' = resolve_event_mode e" and "resolve_max_events e' = resolve_max_events e"
    and "resolve_max_group_entries e' = resolve_max_group_entries e"
  using assms
  by (auto simp: static_of_def resolve_suppress_def [abs_def] resolve_action_def [abs_def]
      resolve_event_mode_def [abs_def] resolve_max_events_def [abs_def]
      resolve_max_group_entries_def [abs_def] cong: option.case_cong)

definition fires :: "corr_engine \<Rightarrow> corr_key \<Rightarrow> int \<Rightarrow> (window_state \<times> bool) option \<Rightarrow> bool" where
  "fires e key ts opened =
     (case opened of
        None \<Rightarrow> False
      | Some (state, _) \<Rightarrow>
          corr_fired (ce_correlations e ! fst key) state \<noteq> None \<and> \<not> suppressed e key ts)"

definition new_window ::
    "corr_engine \<Rightarrow> corr_key \<Rightarrow> int \<Rightarrow> (window_state \<times> bool) option \<Rightarrow> window_state" where
  "new_window e key ts opened =
     (case opened of
        None \<Rightarrow> group_state e key
      | Some (state, _) \<Rightarrow>
          if fires e key ts opened \<and> resolve_action e (fst key) = CaReset then window_clear state
          else state)"

definition output_of :: "compiled_correlation \<Rightarrow> group_key \<Rightarrow> evaluation_result \<Rightarrow> bool" where
  "output_of corr gk result = (\<exists>value stored. result = correlation_result corr gk value stored)"

lemma output_of_result [simp]: "output_of corr gk (correlation_result corr gk value stored)"
  unfolding output_of_def by blast

definition keys_grow :: "corr_key \<Rightarrow> (corr_key \<times> 'b) list \<Rightarrow> (corr_key \<times> 'b) list \<Rightarrow> bool" where
  "keys_grow key m m' =
     ((distinct (map fst m) \<longrightarrow> distinct (map fst m')) \<and> fst ` set m' \<subseteq> insert key (fst ` set m))"

text \<open>
  The effect of a step on one group: its window, its last alert and the result; nothing else but
  the event buffers changes.
\<close>

definition touches ::
    "corr_engine \<Rightarrow> corr_key \<Rightarrow> int \<Rightarrow> (window_state \<times> bool) option
     \<Rightarrow> corr_engine \<times> evaluation_result option \<Rightarrow> bool" where
  "touches e key ts opened r =
     (static_of (fst r) = static_of e \<and>
      ce_state (fst r) = map_insert key (new_window e key ts opened) (ce_state e) \<and>
      ce_last_alert (fst r) =
        (if fires e key ts opened then map_insert key ts (ce_last_alert e) else ce_last_alert e) \<and>
      keys_grow key (ce_event_buffers e) (ce_event_buffers (fst r)) \<and>
      keys_grow key (ce_event_ref_buffers e) (ce_event_ref_buffers (fst r)) \<and>
      (snd r = None \<longleftrightarrow> \<not> fires e key ts opened) \<and>
      (\<forall>result. snd r = Some result \<longrightarrow>
         output_of (ce_correlations e ! fst key) (snd key) result))"

lemma map_modify_insert:
  "distinct (map fst m) \<Longrightarrow> map_modify k f (map_insert k v m) = map_insert k (f v) m"
proof (induction k v m rule: map_insert.induct)
  case (2 k v k' v' m)
  have same: "k \<notin> fst ` set m \<Longrightarrow> map_modify k f m = m" for m
    by (induction m) (auto simp: map_modify_def)
  show ?case using 2 same [of m] by (auto simp: map_modify_def)
qed (simp add: map_modify_def)

lemma keys_grow_refl [simp]: "keys_grow key m m"
  by (auto simp: keys_grow_def)

lemma map_fst_map_modify: "map fst (map_modify k f m) = map fst m"
  by (simp add: map_modify_def case_prod_unfold comp_def)

lemma keys_grow_modify [simp]: "keys_grow key m (map_modify k f m') = keys_grow key m m'"
  unfolding keys_grow_def list.set_map [symmetric] map_fst_map_modify ..

lemma keys_grow_insert [simp]: "keys_grow key m (map_insert key v m)"
  using keys_map_insert [of key v m] by (simp add: keys_grow_def distinct_map_insert)

lemma buffer_event_buffers [simp]:
  "keys_grow key (ce_event_buffers e) (ce_event_buffers (buffer_event env fe key ev ts reset e))"
  "keys_grow key (ce_event_ref_buffers e) (ce_event_ref_buffers (buffer_event env fe key ev ts reset e))"
  by (simp_all add: buffer_event_def Let_def split: correlation_event_mode.split)

lemma buffer_event_after_state [simp]:
  "keys_grow key (ce_event_buffers e)
     (ce_event_buffers (buffer_event env fe key ev ts reset (e\<lparr>ce_state := st\<rparr>)))"
  "keys_grow key (ce_event_ref_buffers e)
     (ce_event_ref_buffers (buffer_event env fe key ev ts reset (e\<lparr>ce_state := st\<rparr>)))"
  using buffer_event_buffers [of key "e\<lparr>ce_state := st\<rparr>"] by simp_all

lemma buffer_event_frame [simp]:
  "static_of (buffer_event env fe key ev ts reset e) = static_of e"
  "ce_correlations (buffer_event env fe key ev ts reset e) = ce_correlations e"
  "ce_state (buffer_event env fe key ev ts reset e) = ce_state e"
  "ce_last_alert (buffer_event env fe key ev ts reset e) = ce_last_alert e"
  by (simp_all add: buffer_event_def Let_def static_of_def split: correlation_event_mode.split)

lemma reset_frames [simp]:
  "static_of (reset_state key e) = static_of e" "static_of (reset_buffers key e) = static_of e"
  "static_of (record_alert key ts e) = static_of e"
  "ce_last_alert (reset_state key e) = ce_last_alert e"
  "ce_last_alert (reset_buffers key e) = ce_last_alert e"
  "ce_state (reset_buffers key e) = ce_state e"
  "ce_state (record_alert key ts e) = ce_state e"
  "ce_state (reset_state key e) = map_modify key window_clear (ce_state e)"
  "ce_last_alert (record_alert key ts e) = map_insert key ts (ce_last_alert e)"
  "ce_event_buffers (record_alert key ts e) = ce_event_buffers e"
  "ce_event_ref_buffers (record_alert key ts e) = ce_event_ref_buffers e"
  "ce_event_buffers (reset_state key e) = ce_event_buffers e"
  "ce_event_ref_buffers (reset_state key e) = ce_event_ref_buffers e"
  "ce_event_buffers (reset_buffers key e) = map_modify key event_buffer_clear (ce_event_buffers e)"
  "ce_event_ref_buffers (reset_buffers key e) =
     map_modify key event_ref_buffer_clear (ce_event_ref_buffers e)"
  by (simp_all add: reset_state_def reset_buffers_def record_alert_def static_of_def)

lemma static_state_update [simp]: "static_of (e\<lparr>ce_state := s\<rparr>) = static_of e"
  by (simp add: static_of_def)

lemma suppressed_cong:
  "static_of e' = static_of e \<Longrightarrow> ce_last_alert e' = ce_last_alert e \<Longrightarrow>
   suppressed e' key ts = suppressed e key ts"
  using static_ofD(4) [of e' e] by (simp add: suppressed_def)

lemma update_correlation_touches:
  assumes "distinct (map fst (ce_state e))"
    and "group_key_extract env ev (cco_group_by (ce_correlations e ! idx)) (identity_refs identity) = Some gk"
    and "opened = open_and_push e (idx, gk) ts
      (push_event env (ce_correlations e ! idx) ev ts
        (matched_ref (ce_correlations e ! idx) (identity_refs identity)))"
  shows "touches e (idx, gk) ts opened (update_correlation env fe idx ev ts identity e)"
proof (cases opened)
  case None
  then show ?thesis
    using assms by (simp add: update_correlation_def touches_def fires_def new_window_def Let_def)
next
  case (Some sr)
  obtain state reset where sr: "sr = (state, reset)" by (cases sr)
  let ?e = "buffer_event env fe (idx, gk) ev ts reset
    (e\<lparr>ce_state := map_insert (idx, gk) state (ce_state e)\<rparr>)"
  note opn = assms(3) [symmetric, unfolded Some sr]
  have static: "static_of ?e = static_of e" by simp
  have supp: "suppressed ?e (idx, gk) ts = suppressed e (idx, gk) ts"
    by (rule suppressed_cong) simp_all
  have act: "resolve_action ?e = resolve_action e" by (rule static_ofD(5) [OF static])
  have upd: "update_correlation env fe idx ev ts identity e =
      (case corr_fired (ce_correlations e ! idx) state of
         None \<Rightarrow> (?e, None)
       | Some value \<Rightarrow>
           if suppressed ?e (idx, gk) ts then (?e, None)
           else
             (let e' = record_alert (idx, gk) ts ?e
              in (if resolve_action ?e idx = CaReset
                    then reset_buffers (idx, gk) (reset_state (idx, gk) e') else e',
                  Some (correlation_result (ce_correlations e ! idx) gk value
                          (stored_events fe ?e (idx, gk))))))"
    by (simp only: update_correlation_def Let_def assms(2) opn option.simps(4,5) case_prod_conv)
  show ?thesis
  proof (cases "corr_fired (ce_correlations e ! idx) state")
    case None
    then show ?thesis using Some sr by (simp add: upd touches_def fires_def new_window_def)
  next
    case fired: (Some v)
    show ?thesis
      unfolding upd using Some sr fired assms(1)
      by (auto simp: supp act touches_def fires_def new_window_def Let_def map_modify_insert)
  qed
qed

lemma update_correlation_idle:
  "group_key_extract env ev (cco_group_by (ce_correlations e ! idx)) (identity_refs identity) = None \<Longrightarrow>
   update_correlation env fe idx ev ts identity e = (e, None)"
  by (simp add: update_correlation_def)

lemma chain_step_touches:
  assumes "distinct (map fst (ce_state e))"
    and "group_key_from_pairs pairs (cco_group_by (ce_correlations e ! idx)) = Some gk"
    and "opened = open_and_push e (idx, gk) ts (chain_push (ce_correlations e ! idx) ts fired_ref)"
  shows "touches e (idx, gk) ts opened (chain_step (idx, pairs, fired_ref) ts e)"
proof (cases opened)
  case None
  then show ?thesis
    using assms by (simp add: chain_step_def touches_def fires_def new_window_def Let_def)
next
  case (Some sr)
  obtain state reset where sr: "sr = (state, reset)" by (cases sr)
  let ?e = "e\<lparr>ce_state := map_insert (idx, gk) state (ce_state e)\<rparr>"
  note opn = assms(3) [symmetric, unfolded Some sr]
  have static: "static_of ?e = static_of e" by simp
  have supp: "suppressed ?e (idx, gk) ts = suppressed e (idx, gk) ts"
    by (rule suppressed_cong) simp_all
  have act: "resolve_action ?e = resolve_action e" by (rule static_ofD(5) [OF static])
  have upd: "chain_step (idx, pairs, fired_ref) ts e =
      (case corr_fired (ce_correlations e ! idx) state of
         None \<Rightarrow> (?e, None)
       | Some value \<Rightarrow>
           if suppressed ?e (idx, gk) ts then (?e, None)
           else
             (let e' = record_alert (idx, gk) ts ?e
              in (if resolve_action ?e idx = CaReset then reset_state (idx, gk) e' else e',
                  Some (correlation_result (ce_correlations e ! idx) gk value (None, None)))))"
    by (simp only: chain_step_def Let_def assms(2) opn option.simps(4,5) case_prod_conv)
  show ?thesis
  proof (cases "corr_fired (ce_correlations e ! idx) state")
    case None
    then show ?thesis using Some sr by (simp add: upd touches_def fires_def new_window_def)
  next
    case fired: (Some v)
    show ?thesis
      unfolding upd using Some sr fired assms(1)
      by (auto simp: supp act touches_def fires_def new_window_def Let_def map_modify_insert)
  qed
qed

lemma chain_step_idle:
  "group_key_from_pairs pairs (cco_group_by (ce_correlations e ! idx)) = None \<Longrightarrow>
   chain_step (idx, pairs, fired_ref) ts e = (e, None)"
  by (simp add: chain_step_def)

section \<open>Properties kept by every step\<close>

definition indexed :: "corr_engine \<Rightarrow> nat \<Rightarrow> bool" where
  "indexed e idx = (\<exists>r indices. map_of (ce_rule_index e) r = Some indices \<and> idx \<in> set indices)"

definition well_keyed :: "compiled_correlation \<Rightarrow> group_key \<Rightarrow> bool" where
  "well_keyed corr gk = (\<exists>vs. gk = map Some vs \<and> length vs = length (cco_group_by corr))"

fun window_times :: "window_state \<Rightarrow> int set" where
  "window_times (WsEventCount timestamps) = set timestamps"
| "window_times (WsValueCount entries) = fst ` set entries"
| "window_times (WsTemporal hits) = (\<Union>h \<in> set hits. set (snd h))"
| "window_times (WsNumericAgg entries) = fst ` set entries"

fun window_kind :: "window_state \<Rightarrow> nat" where
  "window_kind (WsEventCount _) = 0"
| "window_kind (WsValueCount _) = 1"
| "window_kind (WsTemporal _) = 2"
| "window_kind (WsNumericAgg _) = 3"

text \<open>Recording keeps the kind of a window and adds no other timestamp.\<close>

definition records :: "int \<Rightarrow> (window_state \<Rightarrow> window_state) \<Rightarrow> bool" where
  "records ts push =
     (\<forall>state. window_kind (push state) = window_kind state \<and>
        window_times (push state) \<subseteq> insert ts (window_times state))"

lemma push_records [simp]:
  "records ts (push_event_count ts)" "records ts (push_value_count ts v)"
  "records ts (push_temporal ts r)" "records ts (push_numeric ts x)" "records ts (\<lambda>state. state)"
proof -
  show "records ts (push_event_count ts)" "records ts (push_value_count ts v)"
    "records ts (push_numeric ts x)" "records ts (\<lambda>state. state)"
    by (auto simp: records_def elim!: push_event_count.elims push_value_count.elims push_numeric.elims
        split: prod.splits) (case_tac state; auto)+
  show "records ts (push_temporal ts r)"
    unfolding records_def
  proof
    fix state
    show "window_kind (push_temporal ts r state) = window_kind state \<and>
        window_times (push_temporal ts r state) \<subseteq> insert ts (window_times state)"
    proof (cases state)
      case (WsTemporal hits)
      let ?old = "case map_of hits r of Some h \<Rightarrow> h | None \<Rightarrow> []"
      have "set h \<subseteq> window_times state" if "map_of hits r = Some h" for h
        using map_of_SomeD [OF that] by (force simp: WsTemporal)
      then have "set ?old \<subseteq> window_times state" by (cases "map_of hits r") simp_all
      moreover have "set (map_insert r (?old @ [ts]) hits) \<subseteq> insert (r, ?old @ [ts]) (set hits)"
        by (rule set_map_insert)
      then have "window_times (push_temporal ts r state) \<subseteq> insert ts (set ?old \<union> window_times state)"
        by (fastforce simp: WsTemporal)
      ultimately have "window_times (push_temporal ts r state) \<subseteq> insert ts (window_times state)" by blast
      then show ?thesis by (simp add: WsTemporal)
    qed auto
  qed
qed

lemma push_event_records: "records ts (push_event env corr ev ts r)"
  unfolding records_def
proof
  fix state
  have r: "records ts p \<Longrightarrow> window_kind (p state) = window_kind state \<and>
      window_times (p state) \<subseteq> insert ts (window_times state)" for p
    by (simp add: records_def)
  show "window_kind (push_event env corr ev ts r state) = window_kind state \<and>
      window_times (push_event env corr ev ts r state) \<subseteq> insert ts (window_times state)"
    unfolding push_event_def Let_def
    using r [OF push_records(1)] r [OF push_records(2)] r [OF push_records(3)] r [OF push_records(4)]
    by (simp add: subset_insertI split: option.split list.split)
qed

lemma chain_push_records: "records ts (chain_push corr ts r)"
  using push_records(1,3) by (simp add: records_def chain_push_def Let_def)

lemma extract_well_keyed:
  "group_key_extract env ev (cco_group_by corr) refs = Some gk \<Longrightarrow> well_keyed corr gk"
proof -
  have "collect_options f xs = Some ys \<Longrightarrow> \<forall>x y. f x = Some y \<longrightarrow> (\<exists>v. y = Some v) \<Longrightarrow>
      \<exists>vs. ys = map Some vs \<and> length vs = length xs" for f :: "'a \<Rightarrow> 'b option option" and xs ys
  proof (induction xs arbitrary: ys)
    case (Cons x xs)
    then obtain y zs where "f x = Some y" "collect_options f xs = Some zs" "ys = y # zs"
      by (auto split: option.splits)
    moreover from this Cons obtain v vs where "y = Some v" "zs = map Some vs" "length vs = length xs"
      by blast
    ultimately have "ys = map Some (v # vs) \<and> length (v # vs) = length (x # xs)" by simp
    then show ?case by blast
  qed simp
  note * = this
  show "group_key_extract env ev (cco_group_by corr) refs = Some gk \<Longrightarrow> well_keyed corr gk"
    unfolding group_key_extract_def well_keyed_def by (rule *) (auto split: option.splits)
qed

lemma from_pairs_well_keyed:
  "group_key_from_pairs pairs (cco_group_by corr) = Some gk \<Longrightarrow> well_keyed corr gk"
proof -
  have "collect_options (\<lambda>x. map_option (\<lambda>kv. Some (g kv)) (f x)) xs = Some ys \<Longrightarrow>
      \<exists>vs. ys = map Some vs \<and> length vs = length xs"
    for f :: "'a \<Rightarrow> 'b option" and g :: "'b \<Rightarrow> 'c" and xs ys
  proof (induction xs arbitrary: ys)
    case (Cons x xs)
    then obtain y zs where "f x = Some y" "ys = Some (g y) # zs"
        "collect_options (\<lambda>x. map_option (\<lambda>kv. Some (g kv)) (f x)) xs = Some zs"
      by (auto split: option.splits)
    moreover from this Cons obtain vs where "zs = map Some vs" "length vs = length xs" by blast
    ultimately have "ys = map Some (g y # vs) \<and> length (g y # vs) = length (x # xs)" by simp
    then show ?case by blast
  qed simp
  note * = this [of snd]
  show "group_key_from_pairs pairs (cco_group_by corr) = Some gk \<Longrightarrow> well_keyed corr gk"
    unfolding group_key_from_pairs_def well_keyed_def by (rule *)
qed

text \<open>What a step may do to an engine: touch one group, through a window opened at its time.\<close>

definition step_at ::
    "int \<Rightarrow> nat \<Rightarrow> corr_engine \<Rightarrow> corr_engine \<times> evaluation_result option \<Rightarrow> bool" where
  "step_at ts idx e r =
     (r = (e, None) \<or>
      (\<exists>gk push. well_keyed (ce_correlations e ! idx) gk \<and> records ts push \<and>
         touches e (idx, gk) ts (open_and_push e (idx, gk) ts push) r))"

lemma update_step:
  assumes "distinct (map fst (ce_state e))"
  shows "step_at ts idx e (update_correlation env fe idx ev ts identity e)"
proof (cases "group_key_extract env ev (cco_group_by (ce_correlations e ! idx)) (identity_refs identity)")
  case None
  then show ?thesis by (simp add: update_correlation_idle step_at_def)
next
  case (Some gk)
  show ?thesis
    unfolding step_at_def
    using update_correlation_touches [OF assms Some refl] extract_well_keyed [OF Some] push_event_records
    by blast
qed

lemma chain_step_step:
  assumes "distinct (map fst (ce_state e))"
  shows "step_at ts (fst item) e (chain_step item ts e)"
proof -
  obtain idx pairs fired_ref where item: "item = (idx, pairs, fired_ref)" by (cases item)
  show ?thesis
  proof (cases "group_key_from_pairs pairs (cco_group_by (ce_correlations e ! idx))")
    case None
    then show ?thesis by (simp add: chain_step_idle step_at_def item)
  next
    case (Some gk)
    have "touches e (idx, gk) ts
        (open_and_push e (idx, gk) ts (chain_push (ce_correlations e ! idx) ts fired_ref))
        (chain_step item ts e)"
      unfolding item by (rule chain_step_touches [OF assms Some refl])
    moreover have "well_keyed (ce_correlations e ! idx) gk" by (rule from_pairs_well_keyed [OF Some])
    ultimately show ?thesis
      unfolding step_at_def using chain_push_records by (auto simp: item)
  qed
qed

lemma step_static: "step_at ts idx e r \<Longrightarrow> static_of (fst r) = static_of e"
  by (auto simp: step_at_def touches_def)

lemma evict_all_static [simp]: "static_of (evict_all now e) = static_of e"
  by (simp add: evict_all_def enforce_hard_cap_def evict_last_alerts_def static_of_def Let_def)

text \<open>
  A property \<open>P\<close> of engines and a property \<open>Q\<close> of the results, at the times \<open>ok\<close> and where eviction
  is \<open>calm\<close>.
\<close>

locale engine_run =
  fixes P :: "corr_engine \<Rightarrow> bool" and Q :: "int \<Rightarrow> evaluation_result \<times> nat \<Rightarrow> bool"
    and ok :: "int \<Rightarrow> bool" and calm :: "int \<Rightarrow> corr_engine \<Rightarrow> bool"
  assumes P_distinct: "P e \<Longrightarrow> distinct (map fst (ce_state e))"
    and P_step: "P e \<Longrightarrow> ok ts \<Longrightarrow> indexed e idx \<Longrightarrow> step_at ts idx e r \<Longrightarrow>
      P (fst r) \<and> (\<forall>result. snd r = Some result \<longrightarrow> Q ts (result, idx))"
    and P_evict: "P e \<Longrightarrow> ok ts \<Longrightarrow> calm ts e \<Longrightarrow> P (evict_all ts e)"
begin

lemma feed_work_kept:
  assumes "ok ts"
  shows "P e \<Longrightarrow> \<forall>w \<in> set work. indexed e (fst w) \<Longrightarrow>
    P (fst (feed_work env fe ev ts work e)) \<and>
    (\<forall>x \<in> set (snd (feed_work env fe ev ts work e)). Q ts x) \<and>
    static_of (fst (feed_work env fe ev ts work e)) = static_of e"
  using assms
proof (induction env fe ev ts work e rule: feed_work.induct)
  case (2 env fe ev ts idx identity work e)
  obtain e' out where u: "update_correlation env fe idx ev ts identity e = (e', out)"
    by (cases "update_correlation env fe idx ev ts identity e")
  note st = update_step [OF P_distinct [OF "2.prems"(1)], of ts idx env fe ev identity, unfolded u]
  have e': "P e'" "static_of e' = static_of e" "\<forall>result. out = Some result \<longrightarrow> Q ts (result, idx)"
    using P_step [OF "2.prems"(1,3) _ st] "2.prems"(2) step_static [OF st] by simp_all
  have "indexed e' = indexed e" using static_ofD(2) [OF e'(2)] by (simp add: indexed_def [abs_def])
  then have ix: "\<forall>w \<in> set work. indexed e' (fst w)" using "2.prems"(2) by simp
  obtain e2 rest where r: "feed_work env fe ev ts work e' = (e2, rest)"
    by (cases "feed_work env fe ev ts work e'")
  note IH = "2.IH" [OF u [symmetric] e'(1) ix "2.prems"(3), unfolded r]
  show ?case using IH e'(2,3) by (cases out) (simp_all add: u r opt_list_def)
qed simp

lemma chain_level_kept:
  assumes "ok ts"
  shows "P e \<Longrightarrow> \<forall>w \<in> set work. indexed e (fst w) \<Longrightarrow>
    P (fst (chain_level work ts e)) \<and> (\<forall>x \<in> set (snd (chain_level work ts e)). Q ts x) \<and>
    static_of (fst (chain_level work ts e)) = static_of e"
  using assms
proof (induction work ts e rule: chain_level.induct)
  case (2 item work ts e)
  obtain e' out where u: "chain_step item ts e = (e', out)" by (cases "chain_step item ts e")
  note st = chain_step_step [OF P_distinct [OF "2.prems"(1)], of ts item, unfolded u]
  have e': "P e'" "static_of e' = static_of e" "\<forall>result. out = Some result \<longrightarrow> Q ts (result, fst item)"
    using P_step [OF "2.prems"(1,3) _ st] "2.prems"(2) step_static [OF st] by simp_all
  have "indexed e' = indexed e" using static_ofD(2) [OF e'(2)] by (simp add: indexed_def [abs_def])
  then have ix: "\<forall>w \<in> set work. indexed e' (fst w)" using "2.prems"(2) by simp
  obtain e2 rest where r: "chain_level work ts e' = (e2, rest)" by (cases "chain_level work ts e'")
  note IH = "2.IH" [OF u [symmetric] e'(1) ix "2.prems"(3), unfolded r]
  show ?case using IH e'(2,3) by (cases out) (simp_all add: u r opt_list_def)
qed simp

lemma requests_indexed: "\<forall>w \<in> set (chain_requests e pending). indexed e (fst w)"
  by (force simp: chain_requests_def indexed_def split: option.splits)

lemma dedup_work_subset: "set (dedup_work seen work) \<subseteq> set work"
  by (induction seen work rule: dedup_work.induct) auto

lemma chain_loop_kept:
  assumes "ok ts"
  shows "P e \<Longrightarrow>
    P (fst (chain_loop depth pending ts e)) \<and> (\<forall>x \<in> set (snd (chain_loop depth pending ts e)). Q ts x) \<and>
    static_of (fst (chain_loop depth pending ts e)) = static_of e"
  using assms
proof (induction depth pending ts e rule: chain_loop.induct)
  case (2 depth pending ts e)
  let ?work = "dedup_work [] (chain_requests e pending)"
  obtain e' out where u: "chain_level ?work ts e = (e', out)" by (cases "chain_level ?work ts e")
  have "\<forall>w \<in> set ?work. indexed e (fst w)"
    using requests_indexed [of e pending] dedup_work_subset [of "[]" "chain_requests e pending"] by blast
  note lev = chain_level_kept [OF "2.prems"(2,1) this, unfolded u]
  then show ?case
    using "2.IH" [OF _ u [symmetric]] "2.prems" by (cases "pending = []") (auto simp: u split: prod.splits)
qed simp

lemma correlate_kept:
  assumes "P e" and "ok ts"
    and "cfg_max_state_entries (ce_config e) \<le> length (ce_state e) \<Longrightarrow> calm ts e"
  shows "P (fst (correlate_event env fe ev identities ts e)) \<and>
    (\<forall>x \<in> set (snd (correlate_event env fe ev identities ts e)). Q ts x) \<and>
    static_of (fst (correlate_event env fe ev identities ts e)) = static_of e"
proof -
  let ?e = "if cfg_max_state_entries (ce_config e) \<le> length (ce_state e) then evict_all ts e else e"
  let ?work = "concat (map (\<lambda>i. map (\<lambda>idx. (idx, i)) (referencing_correlations ?e i)) identities)"
  have e: "P ?e" "static_of ?e = static_of e" using assms P_evict by auto
  obtain e1 direct where f: "feed_work env fe ev ts ?work ?e = (e1, direct)"
    by (cases "feed_work env fe ev ts ?work ?e")
  have "\<forall>w \<in> set ?work. indexed ?e (fst w)"
    by (force simp: referencing_correlations_def indexed_def split: option.splits)
  note feed = feed_work_kept [OF assms(2) e(1) this, of env fe ev, unfolded f]
  obtain e2 chained where c: "chain_correlations direct ts e1 = (e2, chained)"
    by (cases "chain_correlations direct ts e1")
  note chain = chain_loop_kept [OF assms(2), of e1 max_chain_depth "pending_of direct",
      folded chain_correlations_def, unfolded c]
  show ?thesis
    using feed chain e
    by (auto simp: correlate_event_def Let_def feed_detections_def f c)
qed

end

section \<open>Runs\<close>

text \<open>
  A run: events with the identities of their detections and their timestamps, before clamping, as
  \<open>process_with_detection_identities\<close> receives them one after the other.
\<close>

type_synonym run_event = "event \<times> rule_identity list \<times> int"

fun correlate_run ::
    "ext_env \<Rightarrow> buffer_env \<Rightarrow> run_event list \<Rightarrow> corr_engine \<Rightarrow> corr_engine \<times> fired" where
  "correlate_run env fe [] e = (e, [])"
| "correlate_run env fe ((ev, identities, ts) # steps) e =
     (case correlate_event env fe ev identities (clamp_ts ts) e of
        (e', out) \<Rightarrow> (case correlate_run env fe steps e' of (e'', rest) \<Rightarrow> (e'', out @ rest)))"

text \<open>A condition on the engine before each eviction of a run.\<close>

fun calm_run ::
    "ext_env \<Rightarrow> buffer_env \<Rightarrow> (int \<Rightarrow> corr_engine \<Rightarrow> bool) \<Rightarrow> run_event list \<Rightarrow> corr_engine \<Rightarrow> bool" where
  "calm_run env fe calm [] e = True"
| "calm_run env fe calm ((ev, identities, ts) # steps) e =
     ((cfg_max_state_entries (ce_config e) \<le> length (ce_state e) \<longrightarrow> calm (clamp_ts ts) e) \<and>
      calm_run env fe calm steps (fst (correlate_event env fe ev identities (clamp_ts ts) e)))"

context engine_run begin

lemma run_kept:
  assumes "P e" and "\<forall>s \<in> set steps. ok (clamp_ts (snd (snd s)))" and "calm_run env fe calm steps e"
  shows "P (fst (correlate_run env fe steps e)) \<and>
    (\<forall>x \<in> set (snd (correlate_run env fe steps e)). \<exists>ts. Q ts x) \<and>
    static_of (fst (correlate_run env fe steps e)) = static_of e"
  using assms
proof (induction env fe steps e rule: correlate_run.induct)
  case (2 env fe ev identities ts steps e)
  obtain e' out where u: "correlate_event env fe ev identities (clamp_ts ts) e = (e', out)"
    by (cases "correlate_event env fe ev identities (clamp_ts ts) e")
  have k: "P e'" "\<forall>x \<in> set out. Q (clamp_ts ts) x" "static_of e' = static_of e"
    using correlate_kept [of e "clamp_ts ts" env fe ev identities] "2.prems" by (auto simp: u)
  then show ?case
    using "2.IH" [OF u [symmetric] k(1)] "2.prems" by (auto simp: u split: prod.splits)
qed simp

end

end
