(* ===== verification/CorrLoad.thy ===== *)
theory CorrLoad
  imports CorrEngine
begin

text \<open>
  What loading correlations establishes: the index from rules to the correlations that reference
  them, and the sets behind the \<open>generate\<close> flag, which do not depend on the order of loading.
\<close>

definition load_correlations :: "compiled_correlation list \<Rightarrow> corr_engine \<Rightarrow> corr_engine" where
  "load_correlations corrs e = fold add_compiled_correlation corrs e"

section \<open>The index\<close>

definition index_lookup :: "(string \<times> nat list) list \<Rightarrow> string \<Rightarrow> nat list" where
  "index_lookup index r = (case map_of index r of Some indices \<Rightarrow> indices | None \<Rightarrow> [])"

lemma index_lookup_push:
  "index_lookup (index_push idx r index) r' =
     index_lookup index r' @ (if r' = r then [idx] else [])"
  by (simp add: index_lookup_def index_push_def)

lemma set_index_lookup_fold:
  "set (index_lookup (fold (index_push idx) rs index) r) =
     set (index_lookup index r) \<union> (if r \<in> set rs then {idx} else {})"
  by (induction rs arbitrary: index) (auto simp: index_lookup_push)

lemma load_correlations_simps [simp]:
  "ce_correlations (load_correlations corrs e) = ce_correlations e @ corrs"
  by (induction corrs arbitrary: e)
     (simp_all add: load_correlations_def add_compiled_correlation_def Let_def)

lemma load_snoc:
  "load_correlations (corrs @ [c]) e = add_compiled_correlation c (load_correlations corrs e)"
  by (simp add: load_correlations_def)

lemma with_engine_correlations [simp]: "ce_correlations (with_engine config) = []"
  by (simp add: with_engine_def)

lemma set_rule_index:
  "set (index_lookup (ce_rule_index (load_correlations corrs (with_engine config))) r) =
     {i. i < length corrs \<and> r \<in> set (cco_rule_refs (corrs ! i))}"
proof (induction corrs rule: rev_induct)
  case Nil
  show ?case by (simp add: load_correlations_def with_engine_def index_lookup_def)
next
  case (snoc c corrs)
  show ?case
    unfolding load_snoc
    by (auto simp: add_compiled_correlation_def Let_def set_index_lookup_fold snoc nth_append less_Suc_eq)
qed

section \<open>The generate flag\<close>

lemma generate_fold:
  "fold (generate_step g) rs (only, generated) =
     (if g then (only - set rs, generated \<union> set rs)
      else (only \<union> (set rs - generated), generated))"
  by (induction rs arbitrary: only generated) (auto simp: generate_step_def)

definition generated_refs :: "compiled_correlation set \<Rightarrow> string set" where
  "generated_refs corrs = (\<Union>c \<in> {c \<in> corrs. cco_generate c}. set (cco_rule_refs c))"

definition all_refs :: "compiled_correlation set \<Rightarrow> string set" where
  "all_refs corrs = (\<Union>c \<in> corrs. set (cco_rule_refs c))"

lemma generate_sets:
  "ce_generated_rules (load_correlations corrs (with_engine config)) = generated_refs (set corrs) \<and>
   ce_correlation_only_rules (load_correlations corrs (with_engine config)) =
     all_refs (set corrs) - generated_refs (set corrs)"
proof (induction corrs rule: rev_induct)
  case Nil
  show ?case by (simp add: load_correlations_def with_engine_def generated_refs_def all_refs_def)
next
  case (snoc c corrs)
  let ?e = "load_correlations corrs (with_engine config)"
  have "fold (generate_step (cco_generate c)) (cco_rule_refs c)
      (ce_correlation_only_rules ?e, ce_generated_rules ?e) =
    (all_refs (set (corrs @ [c])) - generated_refs (set (corrs @ [c])), generated_refs (set (corrs @ [c])))"
    using snoc by (auto simp: generate_fold generated_refs_def all_refs_def)
  then show ?case unfolding load_snoc by (simp add: add_compiled_correlation_def Let_def)
qed

section \<open>Properties\<close>

text \<open>
  A detection feeds exactly the correlations that reference its rule by id or by name, each once
  and in loading order.
\<close>

theorem referencing_correlations_exact:
  "referencing_correlations (load_correlations corrs (with_engine config)) identity =
     filter (\<lambda>i. \<exists>r. r \<in> set (identity_refs identity) \<and> r \<in> set (cco_rule_refs (corrs ! i)))
       [0..<length corrs]"
proof -
  let ?e = "load_correlations corrs (with_engine config)"
  let ?xs = "concat (map (index_lookup (ce_rule_index ?e)) (identity_refs identity))"
  have r: "referencing_correlations ?e identity = remdups_adj (sort ?xs)"
    by (simp add: referencing_correlations_def index_lookup_def [abs_def])
  have "set ?xs = {i. i < length corrs \<and>
      (\<exists>r. r \<in> set (identity_refs identity) \<and> r \<in> set (cco_rule_refs (corrs ! i)))}"
    by (auto simp: set_rule_index)
  then show ?thesis
    unfolding r using sorted_remdups_adj_sort [of ?xs]
    by (intro sorted_distinct_set_unique) (auto simp: sorted_wrt_filter)
qed

text \<open>
  Whether the output of a rule is withheld depends only on the correlations loaded, not on their
  order: it is withheld when some correlation references it and none of those that reference one of
  its identities asks to generate it, unless detections are emitted anyway.
\<close>

theorem correlation_only_order_free:
  "is_correlation_only (load_correlations corrs (with_engine config)) identities \<longleftrightarrow>
     \<not> cfg_emit_detections config \<and>
     (\<exists>c. c \<in> set corrs \<and> set (cco_rule_refs c) \<inter> set identities \<noteq> {}) \<and>
     \<not> (\<exists>c. c \<in> set corrs \<and> cco_generate c \<and> set (cco_rule_refs c) \<inter> set identities \<noteq> {})"
proof -
  have "ce_config (load_correlations corrs (with_engine config)) = config"
    by (induction corrs rule: rev_induct)
       (simp_all add: load_snoc add_compiled_correlation_def Let_def load_correlations_def with_engine_def)
  moreover have "list_ex (\<lambda>i. i \<in> generated_refs (set corrs)) identities \<longleftrightarrow>
      (\<exists>c. c \<in> set corrs \<and> cco_generate c \<and> set (cco_rule_refs c) \<inter> set identities \<noteq> {})"
    unfolding list_ex_iff generated_refs_def by blast
  moreover have "list_ex (\<lambda>i. i \<in> all_refs (set corrs)) identities \<longleftrightarrow>
      (\<exists>c. c \<in> set corrs \<and> set (cco_rule_refs c) \<inter> set identities \<noteq> {})"
    unfolding list_ex_iff all_refs_def by blast
  moreover have "list_ex (\<lambda>i. i \<in> A - B) identities \<and> \<not> list_ex (\<lambda>i. i \<in> B) identities \<longleftrightarrow>
      list_ex (\<lambda>i. i \<in> A) identities \<and> \<not> list_ex (\<lambda>i. i \<in> B) identities" for A B :: "string set"
    unfolding list_ex_iff by blast
  ultimately show ?thesis using generate_sets [of corrs config] unfolding is_correlation_only_def by metis
qed

end
