(* ===== verification/CorrProps.thy ===== *)
theory CorrProps
  imports CorrRun CorrLoad
begin

text \<open>
  What runs of the correlation engine guarantee: the state invariant, alert suppression, the bound
  and the fairness of eviction, and the alerts of an event count as a function of the arrivals.
\<close>

section \<open>Windows under the operations\<close>

lemma dropWhile_subset: "set (dropWhile p xs) \<subseteq> set xs"
  by (auto dest: set_dropWhileD)

lemma evict_window [simp]:
  "window_kind (window_evict state c) = window_kind state"
  "window_times (window_evict state c) \<subseteq> window_times state"
proof -
  show "window_kind (window_evict state c) = window_kind state" by (cases state) simp_all
  show "window_times (window_evict state c) \<subseteq> window_times state"
    by (cases state) (auto simp: image_mono [OF dropWhile_subset] dest!: set_dropWhileD)
qed

lemma clear_window [simp]:
  "window_kind (window_clear state) = window_kind state" "window_times (window_clear state) = {}"
  by (cases state; simp)+

lemma truncate_window [simp]:
  "window_kind (truncate_oldest state n pf) = window_kind state"
  "window_times (truncate_oldest state n pf) \<subseteq> window_times state"
proof -
  show "window_kind (truncate_oldest state n pf) = window_kind state" by (cases state) simp_all
  show "window_times (truncate_oldest state n pf) \<subseteq> window_times state"
    by (cases state) (auto simp: image_mono [OF set_truncate_deque] dest!: set_truncate_deque [THEN subsetD])
qed

lemma open_window [simp]:
  "window_kind (fst (apply_window_open state ts w mode gap)) = window_kind state"
  "window_times (fst (apply_window_open state ts w mode gap)) \<subseteq> window_times state"
  using evict_window(2)
  by (auto simp: apply_window_open_def open_tumbling_def open_session_def Let_def
      split: window_mode.split option.split)

lemma evict_group_window [simp]:
  "window_kind (evict_group now spec state) = window_kind state"
  "window_times (evict_group now spec state) \<subseteq> window_times state"
  using evict_window(2)
  by (auto simp: evict_group_def Let_def split: window_mode.split option.split prod.split)

lemma open_and_push_window:
  assumes "open_and_push e key ts push = Some (state, reset)" and "records ts push"
  shows "window_kind state = window_kind (group_state e key) \<and>
    window_times state \<subseteq> insert ts (window_times (group_state e key))"
proof -
  let ?c = "ce_correlations e ! fst key"
  let ?s = "fst (apply_window_open (group_state e key) ts (cco_timespan_secs ?c) (cco_window_mode ?c)
      (cco_gap_secs ?c))"
  have state: "state = truncate_group (resolve_max_group_entries e (fst key)) (cco_window_mode ?c) (push ?s)"
    using assms(1) by (auto simp: open_and_push_def Let_def split: prod.splits if_splits)
  have "window_kind state = window_kind (push ?s)" "window_times state \<subseteq> window_times (push ?s)"
    unfolding state by (auto simp: truncate_group_def split: option.split dest: truncate_window(2) [THEN subsetD])
  moreover have "window_kind (push ?s) = window_kind ?s"
    "window_times (push ?s) \<subseteq> insert ts (window_times ?s)"
    using assms(2) by (simp_all add: records_def)
  moreover have "window_times ?s \<subseteq> window_times (group_state e key)" by simp
  ultimately show ?thesis by (simp only: open_window(1)) blast
qed

section \<open>The state invariant\<close>

definition key_ok :: "corr_engine \<Rightarrow> corr_key \<Rightarrow> bool" where
  "key_ok e key =
     (fst key < length (ce_correlations e) \<and> well_keyed (ce_correlations e ! fst key) (snd key))"

definition window_ok :: "corr_engine \<Rightarrow> corr_key \<Rightarrow> window_state \<Rightarrow> bool" where
  "window_ok e key state =
     (window_kind state = window_kind (window_new_for (cco_correlation_type (ce_correlations e ! fst key))) \<and>
      (\<forall>t \<in> window_times state. in_time t))"

definition engine_wf :: "corr_engine \<Rightarrow> bool" where
  "engine_wf e =
     (distinct (map fst (ce_state e)) \<and> distinct (map fst (ce_last_alert e)) \<and>
      distinct (map fst (ce_event_buffers e)) \<and> distinct (map fst (ce_event_ref_buffers e)) \<and>
      (\<forall>(key, state) \<in> set (ce_state e). key_ok e key \<and> window_ok e key state) \<and>
      (\<forall>(key, ts) \<in> set (ce_last_alert e). key_ok e key \<and> in_time ts) \<and>
      (\<forall>key \<in> fst ` set (ce_event_buffers e). key_ok e key) \<and>
      (\<forall>key \<in> fst ` set (ce_event_ref_buffers e). key_ok e key) \<and>
      (\<forall>idx. indexed e idx \<longrightarrow> idx < length (ce_correlations e)))"

lemma engine_wfD:
  assumes "engine_wf e"
  shows "distinct (map fst (ce_state e))"
    and "distinct (map fst (ce_last_alert e))"
    and "\<forall>(key, state) \<in> set (ce_state e). key_ok e key \<and> window_ok e key state"
    and "\<forall>(key, ts) \<in> set (ce_last_alert e). key_ok e key \<and> in_time ts"
    and "\<forall>key \<in> fst ` set (ce_event_buffers e). key_ok e key"
    and "\<forall>key \<in> fst ` set (ce_event_ref_buffers e). key_ok e key"
    and "\<forall>idx. indexed e idx \<longrightarrow> idx < length (ce_correlations e)"
    and "distinct (map fst (ce_event_buffers e))"
    and "distinct (map fst (ce_event_ref_buffers e))"
proof -
  show "distinct (map fst (ce_state e))"
    using assms unfolding engine_wf_def by (elim conjE)
  show "distinct (map fst (ce_last_alert e))"
    using assms unfolding engine_wf_def by (elim conjE)
  show "\<forall>(key, state) \<in> set (ce_state e). key_ok e key \<and> window_ok e key state"
    using assms unfolding engine_wf_def by (elim conjE)
  show "\<forall>(key, ts) \<in> set (ce_last_alert e). key_ok e key \<and> in_time ts"
    using assms unfolding engine_wf_def by (elim conjE)
  show "\<forall>key \<in> fst ` set (ce_event_buffers e). key_ok e key"
    using assms unfolding engine_wf_def by (elim conjE)
  show "\<forall>key \<in> fst ` set (ce_event_ref_buffers e). key_ok e key"
    using assms unfolding engine_wf_def by (elim conjE)
  show "\<forall>idx. indexed e idx \<longrightarrow> idx < length (ce_correlations e)"
    using assms unfolding engine_wf_def by (elim conjE)
  show "distinct (map fst (ce_event_buffers e))"
    using assms unfolding engine_wf_def by (elim conjE)
  show "distinct (map fst (ce_event_ref_buffers e))"
    using assms unfolding engine_wf_def by (elim conjE)
qed

lemma wf_cong:
  "static_of e' = static_of e \<Longrightarrow> key_ok e' = key_ok e \<and> window_ok e' = window_ok e \<and> indexed e' = indexed e"
  using static_ofD(1,2) [of e' e]
  by (simp add: key_ok_def [abs_def] window_ok_def [abs_def] indexed_def [abs_def])

lemma window_new_for_ok: "window_times (window_new_for ct) = {}"
  by (cases ct) simp_all

lemma group_state_ok: "engine_wf e \<Longrightarrow> window_ok e key (group_state e key)"
proof (cases "map_of (ce_state e) key")
  case None
  then show ?thesis by (simp add: group_state_def window_ok_def window_new_for_ok)
next
  case (Some state)
  moreover assume "engine_wf e"
  ultimately show ?thesis by (auto simp: group_state_def engine_wf_def dest!: map_of_SomeD)
qed

lemma new_window_ok:
  assumes "engine_wf e" and "in_time ts" and "records ts push"
  shows "window_ok e key (new_window e key ts (open_and_push e key ts push))"
proof (cases "open_and_push e key ts push")
  case None
  then show ?thesis using group_state_ok [OF assms(1)] by (simp add: new_window_def)
next
  case (Some sr)
  obtain state reset where sr: "sr = (state, reset)" by (cases sr)
  have "window_ok e key state"
    using open_and_push_window [OF Some [unfolded sr] assms(3)] group_state_ok [OF assms(1), of key] assms(2)
    by (auto simp: window_ok_def)
  then have "window_ok e key (window_clear state)" by (simp add: window_ok_def)
  then show ?thesis using \<open>window_ok e key state\<close> by (simp add: new_window_def Some sr)
qed

lemma wf_touches:
  assumes wf: "engine_wf e" and "in_time ts" and key: "key_ok e key" and "records ts push"
    and t: "touches e key ts (open_and_push e key ts push) r"
  shows "engine_wf (fst r)"
proof -
  let ?w = "new_window e key ts (open_and_push e key ts push)"
  note st = t [unfolded touches_def]
  have same: "key_ok (fst r) = key_ok e" "window_ok (fst r) = window_ok e" "indexed (fst r) = indexed e"
      "ce_correlations (fst r) = ce_correlations e"
    using wf_cong [of "fst r" e] static_ofD(1) [of "fst r" e] st by simp_all
  have state: "set (ce_state (fst r)) \<subseteq> insert (key, ?w) (set (ce_state e))"
    and alert: "set (ce_last_alert (fst r)) \<subseteq> insert (key, ts) (set (ce_last_alert e))"
    using st set_map_insert [of key ?w "ce_state e"] set_map_insert [of key ts "ce_last_alert e"] by auto
  have dist: "distinct (map fst (ce_state (fst r)))" "distinct (map fst (ce_last_alert (fst r)))"
    using st wf by (simp_all add: engine_wf_def distinct_map_insert)
  have bufs: "distinct (map fst (ce_event_buffers (fst r)))" "distinct (map fst (ce_event_ref_buffers (fst r)))"
    "fst ` set (ce_event_buffers (fst r)) \<subseteq> insert key (fst ` set (ce_event_buffers e))"
    "fst ` set (ce_event_ref_buffers (fst r)) \<subseteq> insert key (fst ` set (ce_event_ref_buffers e))"
    using st wf by (simp_all add: engine_wf_def keys_grow_def)
  have w: "window_ok e key ?w" by (rule new_window_ok [OF wf assms(2,4)])
  show ?thesis
    unfolding engine_wf_def same
  proof (intro conjI dist bufs(1,2))
    show "\<forall>(key, state) \<in> set (ce_state (fst r)). key_ok e key \<and> window_ok e key state"
      using state key w wf by (fastforce simp: engine_wf_def)
    show "\<forall>(key, ts) \<in> set (ce_last_alert (fst r)). key_ok e key \<and> in_time ts"
      using alert key assms(2) wf by (fastforce simp: engine_wf_def)
    show "\<forall>key \<in> fst ` set (ce_event_buffers (fst r)). key_ok e key"
      using bufs(3) key engine_wfD(5) [OF wf] by blast
    show "\<forall>key \<in> fst ` set (ce_event_ref_buffers (fst r)). key_ok e key"
      using bufs(4) key engine_wfD(6) [OF wf] by blast
    show "\<forall>idx. indexed e idx \<longrightarrow> idx < length (ce_correlations e)" using wf by (simp add: engine_wf_def)
  qed
qed

section \<open>Eviction\<close>

lemma fold_map_remove: "fold map_remove ks m = filter (\<lambda>e. fst e \<notin> set ks) m"
  by (induction ks arbitrary: m) (auto simp: map_remove_def intro!: filter_cong)

lemma enforce_hard_cap_cases:
  "enforce_hard_cap e =
     (let cap = cfg_max_state_entries (ce_config e); ks = stalest_keys (length (ce_state e) - cap * 9 div 10) (ce_state e);
          drop_keys = (\<lambda>k. k \<notin> set ks)
      in if cap \<le> length (ce_state e) then
           e\<lparr>ce_state := filter (drop_keys \<circ> fst) (ce_state e),
             ce_last_alert := filter (drop_keys \<circ> fst) (ce_last_alert e),
             ce_event_buffers := filter (drop_keys \<circ> fst) (ce_event_buffers e),
             ce_event_ref_buffers := filter (drop_keys \<circ> fst) (ce_event_ref_buffers e)\<rparr>
         else e)"
  by (simp add: enforce_hard_cap_def fold_map_remove Let_def comp_def)

lemma enforce_hard_cap_static [simp]: "static_of (enforce_hard_cap e) = static_of e"
  by (simp add: enforce_hard_cap_def static_of_def Let_def)

lemma evict_last_alerts_static [simp]: "static_of (evict_last_alerts now e) = static_of e"
  by (simp add: evict_last_alerts_def static_of_def)

lemma enforce_hard_cap_subset:
  "set (ce_state (enforce_hard_cap e)) \<subseteq> set (ce_state e)"
  "set (ce_last_alert (enforce_hard_cap e)) \<subseteq> set (ce_last_alert e)"
  "set (ce_event_buffers (enforce_hard_cap e)) \<subseteq> set (ce_event_buffers e)"
  "set (ce_event_ref_buffers (enforce_hard_cap e)) \<subseteq> set (ce_event_ref_buffers e)"
  by (simp_all add: enforce_hard_cap_cases Let_def)

lemma enforce_hard_cap_distinct:
  "distinct (map fst (ce_state e)) \<Longrightarrow> distinct (map fst (ce_state (enforce_hard_cap e)))"
  "distinct (map fst (ce_last_alert e)) \<Longrightarrow> distinct (map fst (ce_last_alert (enforce_hard_cap e)))"
  "distinct (map fst (ce_event_buffers e)) \<Longrightarrow> distinct (map fst (ce_event_buffers (enforce_hard_cap e)))"
  "distinct (map fst (ce_event_ref_buffers e)) \<Longrightarrow>
     distinct (map fst (ce_event_ref_buffers (enforce_hard_cap e)))"
  by (simp_all add: enforce_hard_cap_cases Let_def distinct_map_filter)

lemma set_evict_windows:
  assumes "(key, state') \<in> set (evict_windows now e)"
  shows "\<exists>state. (key, state) \<in> set (ce_state e) \<and> window_kind state' = window_kind state
    \<and> window_times state' \<subseteq> window_times state \<and> \<not> window_is_empty state'"
proof -
  obtain state where s: "(key, state) \<in> set (ce_state e)"
      "state' = (if fst key < length (ce_correlations e)
                 then evict_group now (correlation_specs e ! fst key) state else state)"
      "\<not> window_is_empty state'"
    using assms by (auto simp: evict_windows_def set_map_retain Let_def split: if_splits prod.splits)
  then show ?thesis by (intro exI [of _ state]) (auto dest: evict_group_window(2) [THEN subsetD])
qed

lemma distinct_evict_windows: "distinct (map fst (ce_state e)) \<Longrightarrow> distinct (map fst (evict_windows now e))"
  by (simp add: evict_windows_def distinct_map_retain)

lemma keys_evict_buffers: "fst ` set (evict_buffers ev em now e st m) \<subseteq> fst ` set m"
  by (simp add: evict_buffers_def keys_map_retain)

lemma distinct_evict_buffers: "distinct (map fst m) \<Longrightarrow> distinct (map fst (evict_buffers ev em now e st m))"
  by (simp add: evict_buffers_def distinct_map_retain)

lemma set_evict_last_alerts:
  "set (ce_last_alert (evict_last_alerts now e)) \<subseteq> set (ce_last_alert e)"
  by (auto simp: evict_last_alerts_def set_map_retain Let_def split: if_splits)

lemma ball_subset: "A \<subseteq> B \<Longrightarrow> \<forall>x \<in> B. p x \<Longrightarrow> \<forall>x \<in> A. p x"
  by blast

lemma wf_subsets:
  assumes wf: "engine_wf e" and st: "static_of e' = static_of e"
    and "distinct (map fst (ce_state e'))" and "distinct (map fst (ce_last_alert e'))"
    and "distinct (map fst (ce_event_buffers e'))" and "distinct (map fst (ce_event_ref_buffers e'))"
    and states: "\<And>key state'. (key, state') \<in> set (ce_state e') \<Longrightarrow> \<exists>state. (key, state) \<in> set (ce_state e)
      \<and> window_kind state' = window_kind state \<and> window_times state' \<subseteq> window_times state"
    and alerts: "set (ce_last_alert e') \<subseteq> set (ce_last_alert e)"
    and "fst ` set (ce_event_buffers e') \<subseteq> fst ` set (ce_event_buffers e)"
    and "fst ` set (ce_event_ref_buffers e') \<subseteq> fst ` set (ce_event_ref_buffers e)"
  shows "engine_wf e'"
proof -
  have same: "key_ok e' = key_ok e" "window_ok e' = window_ok e" "indexed e' = indexed e"
      "ce_correlations e' = ce_correlations e"
    using wf_cong [OF st] static_ofD(1) [OF st] by simp_all
  have "key_ok e key \<and> window_ok e key state'" if s: "(key, state') \<in> set (ce_state e')" for key state'
  proof -
    obtain state where "(key, state) \<in> set (ce_state e)" "window_kind state' = window_kind state"
        "window_times state' \<subseteq> window_times state" using states [OF s] by blast
    then show ?thesis using engine_wfD(3) [OF wf] by (fastforce simp: window_ok_def)
  qed
  then have "\<forall>(key, state) \<in> set (ce_state e'). key_ok e key \<and> window_ok e key state" by blast
  moreover have "\<forall>(key, ts) \<in> set (ce_last_alert e'). key_ok e key \<and> in_time ts"
    using alerts engine_wfD(4) [OF wf] by (rule ball_subset)
  moreover have "\<forall>key \<in> fst ` set (ce_event_buffers e'). key_ok e key"
    using assms(9) engine_wfD(5) [OF wf] by (rule ball_subset)
  moreover have "\<forall>key \<in> fst ` set (ce_event_ref_buffers e'). key_ok e key"
    using assms(10) engine_wfD(6) [OF wf] by (rule ball_subset)
  ultimately show ?thesis
    unfolding engine_wf_def same using assms(3-6) engine_wfD(7) [OF wf] by (intro conjI)
qed

lemma wf_evict_all: "engine_wf e \<Longrightarrow> engine_wf (evict_all now e)"
proof -
  assume wf: "engine_wf e"
  let ?state = "evict_windows now e"
  let ?e1 = "e\<lparr>ce_state := ?state,
      ce_event_buffers := evict_buffers event_buffer_evict event_buffer_is_empty now e ?state (ce_event_buffers e),
      ce_event_ref_buffers :=
        evict_buffers event_ref_buffer_evict event_ref_buffer_is_empty now e ?state (ce_event_ref_buffers e)\<rparr>"
  have "engine_wf ?e1"
  proof (rule wf_subsets [OF wf])
    show "\<exists>state. (key, state) \<in> set (ce_state e) \<and> window_kind state' = window_kind state
        \<and> window_times state' \<subseteq> window_times state" if "(key, state') \<in> set (ce_state ?e1)" for key state'
      using set_evict_windows [of key state' now e] that by auto
  qed (simp_all add: static_of_def distinct_evict_windows distinct_evict_buffers keys_evict_buffers
      engine_wfD [OF wf])
  moreover have "engine_wf (enforce_hard_cap e)" if wf: "engine_wf e" for e
  proof (rule wf_subsets [OF wf])
    show "\<exists>state. (key, state) \<in> set (ce_state e) \<and> window_kind state' = window_kind state
        \<and> window_times state' \<subseteq> window_times state"
      if "(key, state') \<in> set (ce_state (enforce_hard_cap e))" for key state'
      using enforce_hard_cap_subset(1) [of e] that by auto
  qed (simp_all add: enforce_hard_cap_distinct enforce_hard_cap_subset image_mono engine_wfD [OF wf])
  moreover have "engine_wf (evict_last_alerts now e)" if wf: "engine_wf e" for e
  proof (rule wf_subsets [OF wf])
    show "distinct (map fst (ce_last_alert (evict_last_alerts now e)))"
      by (simp add: evict_last_alerts_def distinct_map_retain engine_wfD [OF wf])
    show "\<exists>state. (key, state) \<in> set (ce_state e) \<and> window_kind state' = window_kind state
        \<and> window_times state' \<subseteq> window_times state"
      if "(key, state') \<in> set (ce_state (evict_last_alerts now e))" for key state'
      using that by (auto simp: evict_last_alerts_def)
  qed (simp_all add: set_evict_last_alerts engine_wfD [OF wf],
       simp_all add: evict_last_alerts_def engine_wfD [OF wf])
  ultimately show ?thesis by (simp add: evict_all_def Let_def)
qed

section \<open>Instances of the run contract\<close>

lemma clamp_in_time [simp]: "in_time (clamp_ts ts)"
  by (simp add: in_time_def clamp_ts_def i64_half)

lemma wf_step:
  assumes "engine_wf e" and "in_time ts" and "indexed e idx" and "step_at ts idx e r"
  shows "engine_wf (fst r)"
  using assms(4) unfolding step_at_def
proof (elim disjE exE conjE)
  fix gk push
  assume t: "well_keyed (ce_correlations e ! idx) gk" "records ts push"
    "touches e (idx, gk) ts (open_and_push e (idx, gk) ts push) r"
  have "key_ok e (idx, gk)" using engine_wfD(7) [OF assms(1)] assms(3) t(1) by (simp add: key_ok_def)
  then show ?thesis by (rule wf_touches [OF assms(1,2) _ t(2,3)])
qed (simp add: assms(1))

interpretation wf_run: engine_run engine_wf "\<lambda>_ _. True" in_time "\<lambda>_ _. True"
  by unfold_locales (auto simp: engine_wfD wf_evict_all wf_step)

lemma calm_always [simp]: "calm_run env fe (\<lambda>_ _. True) steps e"
proof (induction steps arbitrary: e)
  case (Cons s steps)
  then show ?case by (cases s) simp
qed simp

lemma output_of_unique:
  assumes "well_keyed corr gk" and "well_keyed corr gk'" and "output_of corr gk r" and "output_of corr gk' r"
  shows "gk = gk'"
proof -
  obtain vs vs' where v: "gk = map Some vs" "length vs = length (cco_group_by corr)"
      "gk' = map Some vs'" "length vs' = length (cco_group_by corr)"
    using assms(1,2) by (auto simp: well_keyed_def)
  have "group_key_to_pairs gk (cco_group_by corr) = group_key_to_pairs gk' (cco_group_by corr)"
    using assms(3,4) by (auto simp: output_of_def correlation_result_def)
  then have "map snd (zip (map gb_name (cco_group_by corr)) vs) = map snd (zip (map gb_name (cco_group_by corr)) vs')"
    using v by (simp add: group_key_to_pairs_Some)
  then show ?thesis using v by simp
qed

text \<open>The group of \<open>key\<close> last alerted at \<open>t0\<close>, with a suppression of \<open>s\<close> seconds.\<close>

definition alerted :: "corr_key \<Rightarrow> int \<Rightarrow> nat \<Rightarrow> compiled_correlation \<Rightarrow> corr_engine \<Rightarrow> bool" where
  "alerted key t0 s corr e =
     (engine_wf e \<and> map_of (ce_last_alert e) key = Some t0 \<and> resolve_suppress e (fst key) = Some s \<and>
      span_ok s \<and> ce_correlations e ! fst key = corr)"

definition below_cap :: "int \<Rightarrow> corr_engine \<Rightarrow> bool" where
  "below_cap now e = (length (evict_windows now e) < cfg_max_state_entries (ce_config e))"

lemma alerted_cong:
  assumes "alerted key t0 s corr e" and "static_of e' = static_of e" and "engine_wf e'"
    and "map_of (ce_last_alert e') key = Some t0"
  shows "alerted key t0 s corr e'"
  using assms static_ofD(1,4) [OF assms(2)] by (simp add: alerted_def)

lemma alerted_in_time: "alerted key t0 s corr e \<Longrightarrow> in_time t0 \<and> key_ok e key"
  unfolding alerted_def using engine_wfD(4) [of e] by (auto dest!: map_of_SomeD)

lemma alerted_suppressed:
  assumes "alerted key t0 s corr e" and "in_time ts" and "ts - t0 < int s"
  shows "suppressed e key ts"
  using assms alerted_in_time [OF assms(1)] by (auto simp: alerted_def suppressed_def)

lemma alerted_step:
  assumes a: "alerted key t0 s corr e" and ts: "in_time ts" "ts - t0 < int s" and "indexed e idx"
    and step: "step_at ts idx e r"
  shows "alerted key t0 s corr (fst r) \<and>
    (\<forall>result. snd r = Some result \<longrightarrow> \<not> (idx = fst key \<and> output_of corr (snd key) result))"
  using step unfolding step_at_def
proof (elim disjE exE conjE)
  fix gk push
  assume wk: "well_keyed (ce_correlations e ! idx) gk" and rec: "records ts push"
    and t: "touches e (idx, gk) ts (open_and_push e (idx, gk) ts push) r"
  note t' = t [unfolded touches_def]
  have wf: "engine_wf (fst r)"
    using wf_step [OF _ ts(1) assms(4) step] a by (simp add: alerted_def)
  show ?thesis
  proof (cases "(idx, gk) = key")
    case True
    then have "\<not> fires e (idx, gk) ts (open_and_push e (idx, gk) ts push)"
      using alerted_suppressed [OF a ts] by (auto simp: fires_def split: option.split)
    then have "ce_last_alert (fst r) = ce_last_alert e" "snd r = None" using t' by simp_all
    then show ?thesis using alerted_cong [OF a _ wf] a t' by (simp add: alerted_def)
  next
    case False
    have "map_of (ce_last_alert (fst r)) key = Some t0" using False t' a by (simp add: alerted_def)
    then have "alerted key t0 s corr (fst r)" using alerted_cong [OF a _ wf] t' by simp
    moreover have "\<not> (idx = fst key \<and> output_of corr (snd key) result)" if "snd r = Some result" for result
    proof
      assume k: "idx = fst key \<and> output_of corr (snd key) result"
      then have "output_of corr gk result" using t' that a by (simp add: alerted_def)
      moreover have "well_keyed corr (snd key)" "well_keyed corr gk"
        using alerted_in_time [OF a] wk k a by (simp_all add: key_ok_def alerted_def)
      ultimately show False using output_of_unique k False by (metis prod.collapse)
    qed
    ultimately show ?thesis by blast
  qed
qed (simp add: a)

lemma alerted_evict:
  assumes a: "alerted key t0 s corr e" and "in_time ts" and "ts - t0 < int s" and "below_cap ts e"
  shows "alerted key t0 s corr (evict_all ts e)"
proof (rule alerted_cong [OF a])
  show "engine_wf (evict_all ts e)" using a by (simp add: wf_evict_all alerted_def)
  let ?e1 = "e\<lparr>ce_state := evict_windows ts e,
      ce_event_buffers := evict_buffers event_buffer_evict event_buffer_is_empty ts e (evict_windows ts e) (ce_event_buffers e),
      ce_event_ref_buffers := evict_buffers event_ref_buffer_evict event_ref_buffer_is_empty ts e
        (evict_windows ts e) (ce_event_ref_buffers e)\<rparr>"
  have e: "evict_all ts e = evict_last_alerts ts ?e1"
    using assms(4) by (simp add: evict_all_def enforce_hard_cap_def below_cap_def Let_def)
  have k: "map_of (ce_last_alert e) key = Some t0" "resolve_suppress e (fst key) = Some s" "span_ok s"
      "distinct (map fst (ce_last_alert e))" "fst key < length (ce_correlations e)" "in_time t0"
    using a alerted_in_time [OF a] engine_wfD(2) by (auto simp: alerted_def key_ok_def)
  have "resolve_suppress ?e1 = resolve_suppress e" by (rule static_ofD(4)) (simp add: static_of_def)
  then show "map_of (ce_last_alert (evict_all ts e)) key = Some t0"
    unfolding e using k assms(2,3) by (simp add: evict_last_alerts_def map_of_map_retain Let_def)
qed simp

interpretation suppress_run: engine_run "alerted key t0 s corr"
    "\<lambda>ts (r, idx). \<not> (idx = fst key \<and> output_of corr (snd key) r)"
    "\<lambda>ts. in_time ts \<and> ts - t0 < int s" below_cap
  for key t0 s corr
proof
  show "distinct (map fst (ce_state e))" if "alerted key t0 s corr e" for e
    using that by (simp add: alerted_def engine_wfD)
  show "alerted key t0 s corr (fst r) \<and> (\<forall>result. snd r = Some result \<longrightarrow>
      (case (result, idx) of (r, idx) \<Rightarrow> \<not> (idx = fst key \<and> output_of corr (snd key) r)))"
    if "alerted key t0 s corr e" "in_time ts \<and> ts - t0 < int s" "indexed e idx" "step_at ts idx e r"
    for e ts idx r
    using alerted_step [OF that(1) _ _ that(3,4)] that(2) by simp
  show "alerted key t0 s corr (evict_all ts e)"
    if "alerted key t0 s corr e" "in_time ts \<and> ts - t0 < int s" "below_cap ts e" for e ts
    using alerted_evict [OF that(1) _ _ that(3)] that(2) by simp
qed

section \<open>The hard cap\<close>

lemma drop_stalest:
  assumes d: "distinct (map fst live)" and k: "k \<le> length live"
  defines "kept \<equiv> filter (\<lambda>e. fst e \<notin> set (stalest_keys k live)) live"
  shows "length kept = length live - k \<and>
    (\<forall>x \<in> set live - set kept. \<forall>y \<in> set kept. staleness x \<le> staleness y)"
proof -
  let ?s = "sort_key staleness live"
  let ?P = "\<lambda>e. fst e \<notin> fst ` set (take k ?s)"
  have P: "kept = filter ?P live" by (simp add: kept_def stalest_keys_def)
  have inj: "inj_on fst (set ?s)" using d by (simp add: distinct_map)
  have dist: "distinct ?s" using d by (simp add: distinct_map)
  have split: "?s = take k ?s @ drop k ?s" by simp
  have disj: "e \<in> set (drop k ?s) \<Longrightarrow> ?P e" for e
  proof
    assume e: "e \<in> set (drop k ?s)" "fst e \<in> fst ` set (take k ?s)"
    then obtain e' where e': "e' \<in> set (take k ?s)" "fst e' = fst e" by force
    then have "e' = e" using inj e(1) by (meson in_set_dropD in_set_takeD inj_onD)
    then show False using e(1) e'(1) dist set_take_disj_set_drop_if_distinct [of ?s k k] by blast
  qed
  have sorted_kept: "filter ?P ?s = drop k ?s"
  proof -
    have "filter ?P ?s = filter ?P (take k ?s) @ filter ?P (drop k ?s)"
      by (subst split, rule filter_append)
    moreover have "filter ?P (take k ?s) = []" by (auto simp: filter_empty_conv)
    moreover have "filter ?P (drop k ?s) = drop k ?s" using disj by (auto simp: filter_id_conv)
    ultimately show ?thesis by simp
  qed
  have "sort_key staleness kept = drop k ?s" unfolding P filter_sort [symmetric] by (rule sorted_kept)
  then have len: "length kept = length live - k" and set: "set kept = set (drop k ?s)"
    by (metis length_drop length_sort) (metis \<open>sort_key staleness kept = drop k ?s\<close> set_sort)
  have ord: "staleness x \<le> staleness y" if "x \<in> set (take k ?s)" "y \<in> set (drop k ?s)" for x y
  proof -
    have "sorted (map staleness (take k ?s @ drop k ?s))" by (simp only: append_take_drop_id sorted_sort_key)
    then show ?thesis using that by (simp only: map_append sorted_append) auto
  qed
  have "set live - set kept = set (take k ?s)"
  proof -
    have "set live = set (take k ?s) \<union> set (drop k ?s)" by (metis split set_append set_sort)
    then show ?thesis using set_take_disj_set_drop_if_distinct [OF dist, of k k] set by auto
  qed
  then show ?thesis using len ord set by blast
qed

lemma evict_all_state: "ce_state (evict_all now e) =
    (let live = evict_windows now e; cap = cfg_max_state_entries (ce_config e)
     in if cap \<le> length live
        then filter (\<lambda>x. fst x \<notin> set (stalest_keys (length live - cap * 9 div 10) live)) live else live)"
  by (simp add: evict_all_def evict_last_alerts_def enforce_hard_cap_def fold_map_remove Let_def)

section \<open>Runs of one event count\<close>

type_synonym update_call = "nat \<times> event \<times> int \<times> rule_identity"

definition run_updates ::
    "ext_env \<Rightarrow> buffer_env \<Rightarrow> update_call list \<Rightarrow> corr_engine \<Rightarrow> corr_engine" where
  "run_updates env fe calls e =
     fold (\<lambda>(idx, ev, ts, identity) e. fst (update_correlation env fe idx ev ts identity e)) calls e"

definition call_group :: "ext_env \<Rightarrow> compiled_correlation list \<Rightarrow> update_call \<Rightarrow> corr_key option" where
  "call_group env corrs call =
     (case call of (idx, ev, ts, identity) \<Rightarrow>
        map_option (Pair idx)
          (group_key_extract env ev (cco_group_by (corrs ! idx)) (identity_refs identity)))"

text \<open>The times at which a group was hit.\<close>

definition arrivals_of ::
    "ext_env \<Rightarrow> compiled_correlation list \<Rightarrow> corr_key \<Rightarrow> update_call list \<Rightarrow> int list" where
  "arrivals_of env corrs key calls =
     map (\<lambda>(idx, ev, ts, identity). ts) (filter (\<lambda>c. call_group env corrs c = Some key) calls)"

lemma discard_unchanged:
  "apply_window_open state ts w mode gap = (state', WdDiscard) \<Longrightarrow> state' = state"
  by (auto simp: apply_window_open_def open_tumbling_def open_session_def Let_def
      split: window_mode.splits option.splits if_splits)

text \<open>An event count without cap and reset is fed like a window of its own.\<close>

lemma feed_group:
  assumes "cco_correlation_type corr = EventCount" and "resolve_max_group_entries e (fst key) = None"
    and "resolve_action e (fst key) = CaAlert" and "ce_correlations e ! fst key = corr"
  shows "new_window e key ts (open_and_push e key ts (push_event env corr ev ts r))
    = window_feed (cco_timespan_secs corr) (cco_window_mode corr) (cco_gap_secs corr) ts (group_state e key)"
proof -
  obtain st d where o: "apply_window_open (group_state e key) ts (cco_timespan_secs corr)
      (cco_window_mode corr) (cco_gap_secs corr) = (st, d)" by fastforce
  show ?thesis
    using assms discard_unchanged [of "group_state e key" ts] o
    by (cases "d = WdDiscard")
       (auto simp: new_window_def open_and_push_def window_feed_def truncate_group_def push_event_def Let_def)
qed

lemma run_updates_snoc:
  "run_updates env fe (calls @ [(idx, ev, ts, identity)]) e =
     fst (update_correlation env fe idx ev ts identity (run_updates env fe calls e))"
  by (simp add: run_updates_def)

lemma run_updates_frame:
  "distinct (map fst (ce_state e)) \<Longrightarrow>
   distinct (map fst (ce_state (run_updates env fe calls e))) \<and>
   static_of (run_updates env fe calls e) = static_of e"
proof (induction calls rule: rev_induct)
  case (snoc call calls)
  obtain idx ev ts identity where c: "call = (idx, ev, ts, identity)" by (cases call)
  let ?e = "run_updates env fe calls e"
  have "step_at ts idx ?e (update_correlation env fe idx ev ts identity ?e)"
    using update_step snoc by blast
  then show ?case
    unfolding c run_updates_snoc step_at_def touches_def using snoc
    by (auto simp: distinct_map_insert)
qed (simp add: run_updates_def)

lemma group_state_run:
  assumes d: "distinct (map fst (ce_state e))" and new: "map_of (ce_state e) key = None"
    and corr: "cco_correlation_type corr = EventCount" "resolve_max_group_entries e (fst key) = None"
      "resolve_action e (fst key) = CaAlert" "ce_correlations e ! fst key = corr"
  shows "group_state (run_updates env fe calls e) key =
    window_run (cco_timespan_secs corr) (cco_window_mode corr) (cco_gap_secs corr)
      (arrivals_of env (ce_correlations e) key calls)"
proof (induction calls rule: rev_induct)
  case Nil
  then show ?case using new corr by (simp add: run_updates_def group_state_def arrivals_of_def window_run_def)
next
  case (snoc call calls)
  obtain idx ev ts identity where c: "call = (idx, ev, ts, identity)" by (cases call)
  let ?e = "run_updates env fe calls e" and ?ids = "identity_refs identity"
  have fr: "distinct (map fst (ce_state ?e))" "static_of ?e = static_of e"
    using run_updates_frame [OF d] by auto
  note st = static_ofD [OF fr(2)]
  show ?case
  proof (cases "group_key_extract env ev (cco_group_by (ce_correlations e ! idx)) ?ids")
    case None
    then show ?thesis
      using snoc by (simp add: c run_updates_snoc update_correlation_idle st(1) arrivals_of_def call_group_def)
  next
    case (Some gk)
    note t = update_correlation_touches [OF fr(1), where idx = idx and ev = ev and ts = ts and fe = fe
        and identity = identity and gk = gk, unfolded st(1), OF Some refl, unfolded touches_def]
    let ?push = "push_event env (ce_correlations e ! idx) ev ts (matched_ref (ce_correlations e ! idx) ?ids)"
    let ?w = "new_window ?e (idx, gk) ts (open_and_push ?e (idx, gk) ts ?push)"
    have w: "ce_state (fst (update_correlation env fe idx ev ts identity ?e))
        = map_insert (idx, gk) ?w (ce_state ?e)"
      using t by blast
    have s1: "ce_correlations (fst (update_correlation env fe idx ev ts identity ?e)) = ce_correlations e"
      using t static_ofD(1) st(1) by metis
    show ?thesis
    proof (cases "(idx, gk) = key")
      case True
      have "?w = window_feed (cco_timespan_secs corr) (cco_window_mode corr) (cco_gap_secs corr) ts
          (group_state ?e key)"
        using feed_group [of corr ?e key ts env ev] corr st(1,5,8) True by auto
      then show ?thesis
        using snoc w True Some
        by (simp add: c run_updates_snoc arrivals_of_def call_group_def window_run_snoc group_state_def)
    next
      case False
      have "arrivals_of env (ce_correlations e) key (calls @ [call]) = arrivals_of env (ce_correlations e) key calls"
        using False Some by (simp add: arrivals_of_def call_group_def c)
      moreover have "group_state (run_updates env fe (calls @ [call]) e) key = group_state ?e key"
        using w s1 st(1) False by (simp add: c run_updates_snoc group_state_def cong: option.case_cong)
      ultimately show ?thesis using snoc by simp
    qed
  qed
qed

section \<open>A sample engine\<close>

definition sample_correlation :: compiled_correlation where
  "sample_correlation = \<lparr>
     cco_id = Some ''c'', cco_name = None, cco_title = ''C'', cco_level = None, cco_tags = [],
     cco_description = None, cco_falsepositives = [], cco_correlation_type = EventCount,
     cco_rule_refs = [''r''], cco_group_by = [GbDirect ''u''], cco_timespan_secs = 60,
     cco_window_mode = Sliding, cco_gap_secs = None,
     cco_condition = \<lparr> cc_field = None, cc_predicates = [(OpGte, Fin 1)], cc_percentile = None \<rparr>,
     cco_extended_expr = None, cco_generate = False, cco_suppress_secs = Some 10, cco_action = None,
     cco_event_mode = None, cco_max_events = None, cco_max_group_entries = None,
     cco_custom_attributes = [] \<rparr>"

definition sample_engine :: corr_engine where
  "sample_engine = (with_engine default_correlation_config)\<lparr>
     ce_correlations := [sample_correlation], ce_rule_index := [(''r'', [0])],
     ce_last_alert := [((0, [Some ''a'']), 100)]\<rparr>"

lemma sample_engine_wf: "engine_wf sample_engine"
  by (auto simp: engine_wf_def sample_engine_def with_engine_def indexed_def key_ok_def well_keyed_def
      sample_correlation_def in_time_def i64_half split: if_splits intro!: exI [of _ "[''a'']"])

section \<open>Properties\<close>

text \<open>
  C22: However events arrive, the state of the correlation engine stays well formed: every window is
  of the kind its correlation needs and holds only times in the clamped range, every group key has a
  value for each group-by field of an existing correlation, and no key is stored twice.
\<close>

theorem state_invariant:
  "engine_wf (fst (correlate_run env fe steps (load_correlations corrs (with_engine config))))"
proof -
  let ?e = "load_correlations corrs (with_engine config)"
  have empty: "ce_state ?e = [] \<and> ce_last_alert ?e = [] \<and> ce_event_buffers ?e = [] \<and> ce_event_ref_buffers ?e = []"
    by (induction corrs rule: rev_induct)
       (simp_all add: load_snoc add_compiled_correlation_def Let_def load_correlations_def with_engine_def)
  have "idx < length corrs" if ix: "indexed ?e idx" for idx
  proof -
    obtain r indices where i: "map_of (ce_rule_index ?e) r = Some indices" "idx \<in> set indices"
      using ix unfolding indexed_def by blast
    then have "idx \<in> set (index_lookup (ce_rule_index ?e) r)" by (simp add: index_lookup_def)
    then show ?thesis by (simp add: set_rule_index)
  qed
  then have "engine_wf ?e" using empty by (simp add: engine_wf_def)
  then show ?thesis using wf_run.run_kept [of ?e steps env fe] by simp
qed

text \<open>
  C19: After a group of a correlation has alerted, no event within its suppression window makes it alert
  again, directly or through a chain, as long as the hard cap on the state does not bite.
\<close>

theorem suppression_holds:
  assumes "engine_wf e" and "map_of (ce_last_alert e) key = Some t0"
    and "resolve_suppress e (fst key) = Some s" and "span_ok s"
    and "\<forall>step \<in> set steps. clamp_ts (snd (snd step)) - t0 < int s"
    and "calm_run env fe below_cap steps e"
  shows "list_all (\<lambda>(result, idx).
      \<not> (idx = fst key \<and> output_of (ce_correlations e ! fst key) (snd key) result))
    (snd (correlate_run env fe steps e))"
  using suppress_run.run_kept [of key t0 s "ce_correlations e ! fst key" e steps env fe] assms
  by (auto simp: alerted_def list_all_iff)

theorem suppression_holds_witness:
  "list_all (\<lambda>(result, idx).
      \<not> (idx = fst (0 :: nat, [Some ''a'']) \<and>
         output_of (ce_correlations sample_engine ! fst (0 :: nat, [Some ''a''])) (snd (0 :: nat, [Some ''a''])) result))
    (snd (correlate_run literal_env literal_buffer_env
      [(json_event literal_env (JObject [(''u'', JString ''b'')]), [(Some ''r'', None)], 105)] sample_engine))"
  by (rule suppression_holds [of _ _ 100 10])
     (simp_all add: sample_engine_wf, simp_all add: sample_engine_def with_engine_def resolve_suppress_def
        option_or_def sample_correlation_def span_ok_def clamp_ts_def i64_max_def default_correlation_config_def)

text \<open>
  C33: Eviction keeps the number of live groups under the hard cap.  Below the cap it drops nothing but
  expired groups; at the cap it cuts the state to nine tenths of the cap and every group that goes is
  at least as stale as every group that stays.
\<close>

theorem eviction_bounded:
  assumes "distinct (map fst (ce_state e))"
  shows "let live = evict_windows now e; kept = ce_state (evict_all now e);
             cap = cfg_max_state_entries (ce_config e)
         in if length live < cap then kept = live
            else length kept = cap * 9 div 10 \<and> set kept \<subseteq> set live \<and>
              (\<forall>x \<in> set live - set kept. \<forall>y \<in> set kept. staleness x \<le> staleness y)"
proof -
  let ?live = "evict_windows now e" and ?cap = "cfg_max_state_entries (ce_config e)"
  show ?thesis
  proof (cases "length ?live < ?cap")
    case True
    then show ?thesis by (simp add: evict_all_state Let_def)
  next
    case False
    then have "length ?live - (length ?live - ?cap * 9 div 10) = ?cap * 9 div 10" by linarith
    then show ?thesis
      using drop_stalest [OF distinct_evict_windows [OF assms], of "length ?live - ?cap * 9 div 10" now] False
      by (simp add: evict_all_state Let_def)
  qed
qed

theorem eviction_bounded_witness:
  "let live = evict_windows 100 sample_engine; kept = ce_state (evict_all 100 sample_engine);
       cap = cfg_max_state_entries (ce_config sample_engine)
   in if length live < cap then kept = live
      else length kept = cap * 9 div 10 \<and> set kept \<subseteq> set live \<and>
        (\<forall>x \<in> set live - set kept. \<forall>y \<in> set kept. staleness x \<le> staleness y)"
  by (rule eviction_bounded) (rule engine_wfD(1) [OF sample_engine_wf])

text \<open>
  C20: Take an event count over a sliding window, with the plain alert action (no reset) and no cap on
  the entries of a group, and a group of it with no state yet.  After any sequence of updates of this
  and other correlations and groups by direct hits, in which the hits of the group arrive in time order
  (no group is evicted and no correlation is chained in between), a further hit of the group alerts
  exactly when its hits within the timespan of the newest one satisfy the condition and the group is not
  suppressed at that moment.
\<close>

theorem event_count_alerts:
  assumes "distinct (map fst (ce_state e))" and "map_of (ce_state e) (idx, gk) = None"
    and "ce_correlations e ! idx = corr" and "cco_correlation_type corr = EventCount"
    and "cco_window_mode corr = Sliding" and "span_ok (cco_timespan_secs corr)"
    and "resolve_max_group_entries e idx = None" and "resolve_action e idx = CaAlert"
    and "group_key_extract env ev (cco_group_by corr) (identity_refs identity) = Some gk"
    and "sorted (arrivals_of env (ce_correlations e) (idx, gk) calls @ [ts])"
    and "list_all in_time (arrivals_of env (ce_correlations e) (idx, gk) calls @ [ts])"
  shows "snd (update_correlation env fe idx ev ts identity (run_updates env fe calls e)) \<noteq> None \<longleftrightarrow>
    \<not> suppressed (run_updates env fe calls e) (idx, gk) ts
    \<and> condition_check (cco_condition corr)
      (f64_of_int (int (length (filter (\<lambda>t. ts - int (cco_timespan_secs corr) \<le> t)
        (arrivals_of env (ce_correlations e) (idx, gk) calls @ [ts])))))"
proof -
  let ?e = "run_updates env fe calls e" and ?arr = "arrivals_of env (ce_correlations e) (idx, gk) calls"
  let ?push = "push_event env corr ev ts (matched_ref corr (identity_refs identity))"
  let ?opened = "open_and_push ?e (idx, gk) ts ?push"
  have fr: "distinct (map fst (ce_state ?e))" "static_of ?e = static_of e"
    using run_updates_frame [OF assms(1)] by auto
  note st = static_ofD [OF fr(2)]
  have "ce_correlations ?e ! idx = corr" using st(1) assms(3) by simp
  note t = update_correlation_touches [OF fr(1), where idx = idx, unfolded this, OF assms(9) refl, of ts fe]
  have "new_window ?e (idx, gk) ts ?opened =
      window_feed (cco_timespan_secs corr) (cco_window_mode corr) (cco_gap_secs corr) ts (group_state ?e (idx, gk))"
    by (rule feed_group) (use st assms in simp_all)
  also have "group_state ?e (idx, gk) =
      window_run (cco_timespan_secs corr) (cco_window_mode corr) (cco_gap_secs corr) ?arr"
    by (rule group_state_run) (use assms in simp_all)
  finally have w: "new_window ?e (idx, gk) ts ?opened =
      window_run (cco_timespan_secs corr) (cco_window_mode corr) (cco_gap_secs corr) (?arr @ [ts])"
    by (simp add: window_run_snoc)
  have run: "window_run (cco_timespan_secs corr) (cco_window_mode corr) (cco_gap_secs corr) (?arr @ [ts])
      = WsEventCount (filter (\<lambda>t. ts - int (cco_timespan_secs corr) \<le> t) (?arr @ [ts]))"
    using sliding_run [OF assms(10,11,6)] assms(5) by simp
  obtain state reset where o: "?opened = Some (state, reset)"
    by (cases ?opened) (auto simp: open_and_push_def Let_def apply_window_open_def assms(5) st(1) assms(3))
  have state: "state = WsEventCount (filter (\<lambda>t. ts - int (cco_timespan_secs corr) \<le> t) (?arr @ [ts]))"
    using w run o st(5) assms(8) by (simp add: new_window_def)
  have "fires ?e (idx, gk) ts ?opened \<longleftrightarrow> \<not> suppressed ?e (idx, gk) ts \<and> corr_fired corr state \<noteq> None"
    using o st(1) assms(3) by (auto simp: fires_def)
  also have "corr_fired corr state \<noteq> None \<longleftrightarrow> condition_check (cco_condition corr)
      (f64_of_int (int (length (filter (\<lambda>t. ts - int (cco_timespan_secs corr) \<le> t) (?arr @ [ts])))))"
    unfolding state by (simp add: corr_fired_def window_check_condition_def assms(4))
  finally show ?thesis using t by (simp add: touches_def)
qed

definition sample_event :: "string \<Rightarrow> event" where
  "sample_event u = map_event [(''u'', u)]"

lemma sample_group:
  "group_key_extract literal_env (sample_event u) [GbDirect ''u''] refs = Some [Some u]"
  by (simp add: group_key_extract_def sample_event_def map_event_def)

theorem event_count_alerts_witness:
  "let c = sample_correlation;
       e = sample_engine\<lparr>ce_correlations := [c]\<rparr>;
       calls = [(0, sample_event ''a'', 5, (Some ''r'', None)), (0, sample_event ''b'', 7, (Some ''r'', None))]
   in snd (update_correlation literal_env literal_buffer_env 0 (sample_event ''a'') 9 (Some ''r'', None)
        (run_updates literal_env literal_buffer_env calls e)) \<noteq> None \<longleftrightarrow>
      \<not> suppressed (run_updates literal_env literal_buffer_env calls e) (0, [Some ''a'']) 9
      \<and> condition_check (cco_condition c)
        (f64_of_int (int (length (filter (\<lambda>t. 9 - int (cco_timespan_secs c) \<le> t)
          (arrivals_of literal_env (ce_correlations e) (0, [Some ''a'']) calls @ [9])))))"
  unfolding Let_def
  by (rule event_count_alerts)
     (simp_all add: sample_engine_def with_engine_def sample_correlation_def span_ok_def i64_max_def
        resolve_max_group_entries_def resolve_action_def resolve_suppress_def option_or_def
        default_correlation_config_def sample_group arrivals_of_def call_group_def in_time_def)

end
