(* ===== verification/CorrSnapshot.thy ===== *)
theory CorrSnapshot
  imports CorrProps
begin

text \<open>
  Snapshots of the correlation state (\<open>export_state\<close>, \<open>import_state\<close> of
  \<open>rsigma-eval/src/correlation_engine/mod.rs\<close>): entries are filed under a stable identifier of their
  correlation instead of its index.
\<close>

section \<open>Export and import\<close>

definition stable_id :: "compiled_correlation \<Rightarrow> string" where
  "stable_id c =
     (case cco_id c of Some i \<Rightarrow> i
      | None \<Rightarrow> (case cco_name c of Some n \<Rightarrow> n | None \<Rightarrow> cco_title c))"

type_synonym 'v snapshot_groups = "(string \<times> (group_key \<times> 'v) list) list"

record correlation_snapshot =
  cs_version :: nat
  cs_windows :: "window_state snapshot_groups"
  cs_last_alert :: "int snapshot_groups"
  cs_event_buffers :: "event_buffer snapshot_groups"
  cs_event_ref_buffers :: "event_ref_buffer snapshot_groups"

definition snapshot_version :: nat where
  "snapshot_version = 1"

definition export_entry ::
    "compiled_correlation list \<Rightarrow> corr_key \<times> 'v \<Rightarrow> 'v snapshot_groups \<Rightarrow> 'v snapshot_groups" where
  "export_entry corrs entry groups =
     (case entry of ((idx, gk), v) \<Rightarrow>
        let corr_id = stable_id (corrs ! idx)
        in map_insert corr_id
             ((case map_of groups corr_id of Some xs \<Rightarrow> xs | None \<Rightarrow> []) @ [(gk, v)]) groups)"

definition export_groups ::
    "compiled_correlation list \<Rightarrow> (corr_key \<times> 'v) list \<Rightarrow> 'v snapshot_groups" where
  "export_groups corrs entries = fold (export_entry corrs) entries []"

definition export_state :: "corr_engine \<Rightarrow> correlation_snapshot" where
  "export_state e = \<lparr>
     cs_version = snapshot_version,
     cs_windows = export_groups (ce_correlations e) (ce_state e),
     cs_last_alert = export_groups (ce_correlations e) (ce_last_alert e),
     cs_event_buffers = export_groups (ce_correlations e) (ce_event_buffers e),
     cs_event_ref_buffers = export_groups (ce_correlations e) (ce_event_ref_buffers e) \<rparr>"

definition id_to_index :: "compiled_correlation list \<Rightarrow> (string \<times> nat) list" where
  "id_to_index corrs = fold (\<lambda>(idx, c) m. map_insert (stable_id c) idx m) (enumerate 0 corrs) []"

definition import_group ::
    "nat \<Rightarrow> (group_key \<times> 'v) list \<Rightarrow> (corr_key \<times> 'v) list \<Rightarrow> (corr_key \<times> 'v) list" where
  "import_group idx groups m = fold (\<lambda>(gk, v) m. map_insert (idx, gk) v m) groups m"

definition import_groups ::
    "(string \<times> nat) list \<Rightarrow> 'v snapshot_groups \<Rightarrow> (corr_key \<times> 'v) list \<Rightarrow> (corr_key \<times> 'v) list" where
  "import_groups ids snapshot m =
     fold (\<lambda>(corr_id, groups) m.
       case map_of ids corr_id of Some idx \<Rightarrow> import_group idx groups m | None \<Rightarrow> m) snapshot m"

definition import_state :: "correlation_snapshot \<Rightarrow> corr_engine \<Rightarrow> bool \<times> corr_engine" where
  "import_state snapshot e =
     (if cs_version snapshot \<noteq> snapshot_version then (False, e)
      else
        let ids = id_to_index (ce_correlations e)
        in (True, e\<lparr>
              ce_state := import_groups ids (cs_windows snapshot) (ce_state e),
              ce_last_alert := import_groups ids (cs_last_alert snapshot) (ce_last_alert e),
              ce_event_buffers := import_groups ids (cs_event_buffers snapshot) (ce_event_buffers e),
              ce_event_ref_buffers :=
                import_groups ids (cs_event_ref_buffers snapshot) (ce_event_ref_buffers e)\<rparr>))"

section \<open>Lookup after export and import\<close>

definition entries_of ::
    "compiled_correlation list \<Rightarrow> (corr_key \<times> 'v) list \<Rightarrow> string \<Rightarrow> (group_key \<times> 'v) list" where
  "entries_of corrs entries i =
     map (\<lambda>((idx, gk), v). (gk, v)) (filter (\<lambda>((idx, gk), v). stable_id (corrs ! idx) = i) entries)"

lemma entries_of_snoc:
  "entries_of corrs (entries @ [((idx, gk), v)]) i =
     entries_of corrs entries i @ (if stable_id (corrs ! idx) = i then [(gk, v)] else [])"
  by (simp add: entries_of_def)

lemma export_groups_snoc:
  "export_groups corrs (entries @ [entry]) = export_entry corrs entry (export_groups corrs entries)"
  by (simp add: export_groups_def)

lemma distinct_export_groups: "distinct (map fst (export_groups corrs entries))"
proof (induction entries rule: rev_induct)
  case (snoc entry entries)
  then show ?case
    unfolding export_groups_snoc export_entry_def by (simp add: distinct_map_insert Let_def split: prod.split)
qed (simp add: export_groups_def)

lemma export_groups_lookup:
  "map_of (export_groups corrs entries) i =
     (if entries_of corrs entries i = [] then None else Some (entries_of corrs entries i))"
proof (induction entries arbitrary: i rule: rev_induct)
  case (snoc entry entries)
  obtain idx gk v where e: "entry = ((idx, gk), v)" by (metis prod.exhaust)
  show ?case
    unfolding export_groups_snoc unfolding e entries_of_snoc export_entry_def Let_def
    using snoc [of i] snoc [of "stable_id (corrs ! idx)"] by simp
qed (simp add: export_groups_def entries_of_def)

lemma map_of_rev: "distinct (map fst xs) \<Longrightarrow> map_of (rev xs) = map_of xs"
  by (rule map_of_inject_set [THEN iffD2]) (simp_all add: rev_map [symmetric])

lemma map_of_id_to_index:
  assumes "distinct (map stable_id corrs)"
  shows "map_of (id_to_index corrs) i = Some idx \<longleftrightarrow> idx < length corrs \<and> stable_id (corrs ! idx) = i"
  using assms
proof (induction corrs arbitrary: idx rule: rev_induct)
  case (snoc c corrs)
  have "id_to_index (corrs @ [c]) = map_insert (stable_id c) (length corrs) (id_to_index corrs)"
    by (simp add: id_to_index_def enumerate_append_eq)
  moreover have "stable_id (corrs ! k) \<noteq> stable_id c" if "k < length corrs" for k
    using snoc.prems imageI [OF nth_mem [OF that], of stable_id] by auto
  ultimately show ?case using snoc by (auto simp: nth_append less_Suc_eq)
qed (simp add: id_to_index_def)

lemma import_group_lookup:
  "map_of (import_group idx groups m) (i, g) =
     (if i = idx then (case map_of (rev groups) g of Some v \<Rightarrow> Some v | None \<Rightarrow> map_of m (i, g))
      else map_of m (i, g))"
proof (induction groups arbitrary: m)
  case (Cons x groups)
  obtain gk v where x: "x = (gk, v)" by (cases x)
  have "import_group idx (x # groups) m = import_group idx groups (map_insert (idx, gk) v m)"
    by (simp add: import_group_def x)
  then show ?case using Cons by (auto simp: x map_add_def split: option.split)
qed (simp add: import_group_def)

lemma import_groups_lookup:
  assumes "map_of ids i = Some idx" and "\<And>j. map_of ids j = Some idx \<Longrightarrow> j = i"
    and "distinct (map fst snapshot)"
  shows "map_of (import_groups ids snapshot m) (idx, g) =
    (case Option.bind (map_of snapshot i) (\<lambda>groups. map_of (rev groups) g) of
       Some v \<Rightarrow> Some v | None \<Rightarrow> map_of m (idx, g))"
  using assms(3)
proof (induction snapshot arbitrary: m)
  case (Cons x snapshot)
  obtain j groups where x: "x = (j, groups)" by (cases x)
  let ?m = "case map_of ids j of Some k \<Rightarrow> import_group k groups m | None \<Rightarrow> m"
  have s: "import_groups ids (x # snapshot) m = import_groups ids snapshot ?m"
    by (simp add: import_groups_def x)
  show ?case
  proof (cases "j = i")
    case True
    then have "map_of snapshot i = None" using Cons.prems by (simp add: x map_of_eq_None_iff)
    then show ?thesis
      unfolding s using Cons True assms(1) by (simp add: x import_group_lookup)
  next
    case False
    then have "map_of ?m (idx, g) = map_of m (idx, g)"
      using assms(2) [of j] by (auto simp: import_group_lookup split: option.split)
    then show ?thesis unfolding s using Cons False by (simp add: x cong: option.case_cong)
  qed
qed (simp add: import_groups_def)

lemma groups_roundtrip:
  assumes ids: "distinct (map stable_id corrs)" and d: "distinct (map fst entries)"
    and ok: "\<forall>k \<in> fst ` set entries. fst k < length corrs"
  shows "map_of (import_groups (id_to_index corrs) (export_groups corrs entries) []) key = map_of entries key"
proof -
  obtain idx g where key: "key = (idx, g)" by (cases key)
  show ?thesis
  proof (cases "idx < length corrs")
    case True
    let ?i = "stable_id (corrs ! idx)"
    have same: "stable_id (corrs ! j) = ?i \<longleftrightarrow> j = idx" if "j < length corrs" for j
      using ids that True by (simp add: distinct_conv_nth nth_eq_iff_index_eq) metis
    have filt: "filter (\<lambda>((j, gk), v). stable_id (corrs ! j) = ?i) entries
        = filter (\<lambda>((j, gk), v). j = idx) entries"
      using ok same by (intro filter_cong) fastforce+
    have ent: "map_of (rev (entries_of corrs entries ?i)) g = map_of entries (idx, g)"
    proof -
      let ?xs = "entries_of corrs entries ?i"
      have look: "map_of (map (\<lambda>((j, gk), v). (gk, v)) (filter (\<lambda>((j, gk), v). j = idx) es)) g = map_of es (idx, g)"
        for es :: "(corr_key \<times> 'a) list"
        by (induction es) auto
      have "distinct (map fst (map (\<lambda>((j, gk), v). (gk, v)) (filter (\<lambda>((j, gk), v). j = idx) es)))"
        if "distinct (map fst es)" for es :: "(corr_key \<times> 'a) list"
        using that by (induction es) force+
      then have "distinct (map fst ?xs)" using d by (simp add: entries_of_def filt)
      then have "map_of (rev ?xs) = map_of ?xs" by (rule map_of_rev)
      then show ?thesis by (simp add: entries_of_def filt look)
    qed
    have "map_of (import_groups (id_to_index corrs) (export_groups corrs entries) []) (idx, g) =
        (case Option.bind (map_of (export_groups corrs entries) ?i) (\<lambda>groups. map_of (rev groups) g) of
           Some v \<Rightarrow> Some v | None \<Rightarrow> map_of [] (idx, g))"
      by (rule import_groups_lookup)
         (use True map_of_id_to_index [OF ids] distinct_export_groups in auto)
    also have "\<dots> = map_of entries (idx, g)"
      using ent export_groups_lookup [of corrs entries ?i] by (auto split: option.split)
    finally show ?thesis by (simp add: key)
  next
    case False
    then have n: "map_of entries key = None" using ok by (force simp: key map_of_eq_None_iff)
    have "map_of (import_groups ids snapshot m) (idx, g) = map_of m (idx, g)"
      if "\<And>j. map_of ids j \<noteq> Some idx" for ids snapshot and m :: "(corr_key \<times> 'a) list"
    proof (induction snapshot arbitrary: m)
      case (Cons x snapshot)
      then show ?case using that
        by (cases x) (auto simp: import_groups_def import_group_lookup split: option.split)
    qed (simp add: import_groups_def)
    then show ?thesis using n False map_of_id_to_index [OF ids] by (simp add: key)
  qed
qed

section \<open>Observed limits\<close>

text \<open>One level of a chain hands a parent only the first of several groups that fired.\<close>

lemma chain_drops_second_group:
  "dedup_work [] [(1, [(''u'', ''a'')], ''c''), (1, [(''u'', ''b'')], ''c'')] = [(1, [(''u'', ''a'')], ''c'')]"
  by simp

text \<open>A parent that counts values or aggregates numbers records nothing from a chain.\<close>

lemma chain_push_unrecorded:
  "window_kind state = 1 \<or> window_kind state = 3 \<Longrightarrow> cco_correlation_type corr \<notin> {Temporal, TemporalOrdered}
   \<Longrightarrow> chain_push corr ts r state = state"
  by (cases state) (auto simp: chain_push_def Let_def)

text \<open>The hard cap forgets the last alert of a group that is still suppressed.\<close>

definition full_engine :: corr_engine where
  "full_engine = sample_engine\<lparr>ce_config := default_correlation_config\<lparr>cfg_max_state_entries := 1\<rparr>,
     ce_state := [((0, [Some ''a'']), WsEventCount [100])]\<rparr>"

lemma full_engine_windows: "evict_windows 101 full_engine = [((0, [Some ''a'']), WsEventCount [100])]"
  by (simp add: evict_windows_def map_retain_Cons evict_group_def correlation_specs_def full_engine_def
      sample_engine_def sample_correlation_def sub_i64_def in_i64_def i64_min_def i64_max_def)

lemma hard_cap_forgets_alert:
  "suppressed full_engine (0, [Some ''a'']) 101"
  "map_of (ce_last_alert (evict_all 101 full_engine)) (0, [Some ''a'']) = None"
proof -
  show "suppressed full_engine (0, [Some ''a'']) 101"
    by (simp add: suppressed_def full_engine_def sample_engine_def sample_correlation_def
        resolve_suppress_def option_or_def sub_i64_def in_i64_def i64_min_def i64_max_def)
  have "ce_last_alert full_engine = [((0, [Some ''a'']), 100)]"
    "cfg_max_state_entries (ce_config full_engine) = 1"
    by (simp_all add: full_engine_def sample_engine_def)
  then show "map_of (ce_last_alert (evict_all 101 full_engine)) (0, [Some ''a'']) = None"
    by (simp add: evict_all_def Let_def full_engine_windows enforce_hard_cap_def stalest_keys_def
        evict_last_alerts_def map_remove_def)
qed

section \<open>Properties\<close>

text \<open>
  C32: A snapshot restored into an engine with the same correlations gives back every window, alert
  time and event buffer, where the correlations have distinct stable identifiers.
\<close>

theorem snapshot_roundtrip:
  assumes "engine_wf e" and "distinct (map stable_id (ce_correlations e))"
    and "ce_correlations fresh = ce_correlations e" and "ce_state fresh = []" and "ce_last_alert fresh = []"
    and "ce_event_buffers fresh = []" and "ce_event_ref_buffers fresh = []"
  shows "let restored = snd (import_state (export_state e) fresh)
    in map_of (ce_state restored) = map_of (ce_state e)
     \<and> map_of (ce_last_alert restored) = map_of (ce_last_alert e)
     \<and> map_of (ce_event_buffers restored) = map_of (ce_event_buffers e)
     \<and> map_of (ce_event_ref_buffers restored) = map_of (ce_event_ref_buffers e)"
proof -
  note wf = engine_wfD [OF assms(1)]
  have k: "\<forall>k \<in> fst ` set (ce_state e). fst k < length (ce_correlations e)"
    "\<forall>k \<in> fst ` set (ce_last_alert e). fst k < length (ce_correlations e)"
    "\<forall>k \<in> fst ` set (ce_event_buffers e). fst k < length (ce_correlations e)"
    "\<forall>k \<in> fst ` set (ce_event_ref_buffers e). fst k < length (ce_correlations e)"
    using wf(3-6) by (fastforce simp: key_ok_def)+
  show ?thesis
    using groups_roundtrip [OF assms(2) wf(1) k(1)] groups_roundtrip [OF assms(2) wf(2) k(2)]
      groups_roundtrip [OF assms(2) wf(8) k(3)] groups_roundtrip [OF assms(2) wf(9) k(4)] assms(3-7)
    by (auto simp: import_state_def export_state_def Let_def)
qed

theorem snapshot_roundtrip_witness:
  "let restored = snd (import_state (export_state sample_engine) (sample_engine\<lparr>ce_last_alert := []\<rparr>))
   in map_of (ce_state restored) = map_of (ce_state sample_engine)
     \<and> map_of (ce_last_alert restored) = map_of (ce_last_alert sample_engine)
     \<and> map_of (ce_event_buffers restored) = map_of (ce_event_buffers sample_engine)
     \<and> map_of (ce_event_ref_buffers restored) = map_of (ce_event_ref_buffers sample_engine)"
  by (rule snapshot_roundtrip [OF sample_engine_wf]) (simp_all add: sample_engine_def with_engine_def)

text \<open>
  Two correlations with the same title and neither id nor name share their stable identifier: a
  snapshot restores the windows of the first under the second, and the first has none.
\<close>

theorem snapshot_merges_same_title:
  "let c = sample_correlation\<lparr>cco_id := None\<rparr>;
       e = sample_engine\<lparr>ce_correlations := [c, c], ce_state := [((0, []), WsEventCount [7])]\<rparr>;
       restored = snd (import_state (export_state e) (e\<lparr>ce_state := []\<rparr>))
   in map_of (ce_state restored) (0, []) = None \<and> map_of (ce_state restored) (1, []) = Some (WsEventCount [7])"
  by (simp add: Let_def import_state_def export_state_def export_groups_def export_entry_def import_groups_def
      import_group_def id_to_index_def stable_id_def sample_correlation_def sample_engine_def with_engine_def)

end
