(* ===== verification/HirOptimize.thy ===== *)
theory HirOptimize
  imports Hir
begin

text \<open>
  Optimization passes over the intermediate representation (\<open>rsigma-ir/src/optimize.rs\<close>): flattening
  of conditions, removal of detections no condition refers to, and the report of repeated items.
\<close>

section \<open>Flattening\<close>

text \<open>
  The pushes of one flattened child in \<open>flatten_bool\<close>, the removal of duplicates, and the group
  that is left.
\<close>

fun merged :: "bool \<Rightarrow> ir_condition \<Rightarrow> ir_condition list" where
  "merged is_and (IcAnd inner) = (if is_and then inner else [IcAnd inner])"
| "merged is_and (IcOr inner) = (if is_and then [IcOr inner] else inner)"
| "merged is_and other = [other]"

definition push_new :: "'a \<Rightarrow> 'a list \<Rightarrow> 'a list" where
  "push_new c deduped = (if c \<in> set deduped then deduped else deduped @ [c])"

definition bool_group :: "bool \<Rightarrow> ir_condition list \<Rightarrow> ir_condition" where
  "bool_group is_and deduped =
     (case deduped of [c] \<Rightarrow> c | _ \<Rightarrow> if is_and then IcAnd deduped else IcOr deduped)"

fun flatten_condition :: "ir_condition \<Rightarrow> ir_condition"
  and flatten_bool :: "ir_condition list \<Rightarrow> bool \<Rightarrow> ir_condition list \<Rightarrow> ir_condition"
where
  "flatten_condition (IcAnd children) = flatten_bool children True []"
| "flatten_condition (IcOr children) = flatten_bool children False []"
| "flatten_condition (IcNot inner) =
     (case flatten_condition inner of IcNot doubly \<Rightarrow> doubly | other \<Rightarrow> IcNot other)"
| "flatten_condition leaf = leaf"
| "flatten_bool [] is_and flat = bool_group is_and (fold push_new flat [])"
| "flatten_bool (child # children) is_and flat =
     flatten_bool children is_and (flat @ merged is_and (flatten_condition child))"

section \<open>Dead detections\<close>

text \<open>\<open>collect_referenced\<close> inserts into a set; the value is the list of insertions.\<close>

fun collect_referenced :: "ir_condition \<Rightarrow> string list \<Rightarrow> string list" where
  "collect_referenced (IcDetection name) names = [name]"
| "collect_referenced (IcAnd children) names = concat (map (\<lambda>c. collect_referenced c names) children)"
| "collect_referenced (IcOr children) names = concat (map (\<lambda>c. collect_referenced c names) children)"
| "collect_referenced (IcNot inner) names = collect_referenced inner names"
| "collect_referenced (IcSelector q pattern) names = filter (matches_detection_name pattern) names"

definition prune_named :: "(string \<times> 'd) list \<Rightarrow> ir_condition list \<Rightarrow> (string \<times> 'd) list" where
  "prune_named named conditions =
     (let names = map fst named;
          live = concat (map (\<lambda>c. collect_referenced c names) conditions)
      in filter (\<lambda>(name, _). name \<in> set live) named)"

text \<open>
  The inner detections of a \<open>Conditional\<close> are pruned after their siblings are; the order of the two
  steps does not matter, and pruning first lets the recursion be structural.
\<close>

fun prune_detection_tree :: "ir_detection \<Rightarrow> ir_detection" where
  "prune_detection_tree (IdConditional named condition) =
     IdConditional (prune_named (map (\<lambda>(n, d). (n, prune_detection_tree d)) named) [condition]) condition"
| "prune_detection_tree (IdAnyOf children) = IdAnyOf (map prune_detection_tree children)"
| "prune_detection_tree (IdAnd children) = IdAnd (map prune_detection_tree children)"
| "prune_detection_tree (IdArrayMatch field q body) = IdArrayMatch field q (prune_detection_tree body)"
| "prune_detection_tree det = det"

definition eliminate_dead_detections :: "ir_rule \<Rightarrow> ir_rule" where
  "eliminate_dead_detections rule = rule \<lparr> ir_detections :=
     map (\<lambda>(n, d). (n, prune_detection_tree d)) (prune_named (ir_detections rule) (ir_conditions rule)) \<rparr>"

definition optimize_rule :: "ir_rule \<Rightarrow> ir_rule" where
  "optimize_rule rule =
     eliminate_dead_detections (rule \<lparr> ir_conditions := map flatten_condition (ir_conditions rule) \<rparr>)"

section \<open>Repeated items\<close>

text \<open>The derived \<open>PartialEq\<close> of matchers: structural, floats compared as floats.\<close>

fun literal_eq :: "numeric_literal \<Rightarrow> numeric_literal \<Rightarrow> bool" where
  "literal_eq (NlInteger a) (NlInteger b) = (a = b)"
| "literal_eq (NlFloat a) (NlFloat b) = f64_eq a b"
| "literal_eq _ _ = False"

fun number_eq :: "ir_number \<Rightarrow> ir_number \<Rightarrow> bool" where
  "number_eq (NumLiteral a) (NumLiteral b) = literal_eq a b"
| "number_eq (NumDynamicSourceRef s e) (NumDynamicSourceRef t f) = (s = t \<and> e = f)"
| "number_eq _ _ = False"

fun matcher_eq :: "ir_matcher \<Rightarrow> ir_matcher \<Rightarrow> bool" where
  "matcher_eq (ImNumericEq a) m = (case m of ImNumericEq b \<Rightarrow> number_eq a b | _ \<Rightarrow> False)"
| "matcher_eq (ImNumericGt a) m = (case m of ImNumericGt b \<Rightarrow> number_eq a b | _ \<Rightarrow> False)"
| "matcher_eq (ImNumericGte a) m = (case m of ImNumericGte b \<Rightarrow> number_eq a b | _ \<Rightarrow> False)"
| "matcher_eq (ImNumericLt a) m = (case m of ImNumericLt b \<Rightarrow> number_eq a b | _ \<Rightarrow> False)"
| "matcher_eq (ImNumericLte a) m = (case m of ImNumericLte b \<Rightarrow> number_eq a b | _ \<Rightarrow> False)"
| "matcher_eq (ImTimestampPart p a) m =
     (case m of ImTimestampPart q b \<Rightarrow> p = q \<and> matcher_eq a b | _ \<Rightarrow> False)"
| "matcher_eq (ImNot a) m = (case m of ImNot b \<Rightarrow> matcher_eq a b | _ \<Rightarrow> False)"
| "matcher_eq (ImAnyOf xs) m = (case m of ImAnyOf ys \<Rightarrow> list_all2 matcher_eq xs ys | _ \<Rightarrow> False)"
| "matcher_eq (ImAllOf xs) m = (case m of ImAllOf ys \<Rightarrow> list_all2 matcher_eq xs ys | _ \<Rightarrow> False)"
| "matcher_eq a m = (a = m)"

definition item_eq :: "ir_detection_item \<Rightarrow> ir_detection_item \<Rightarrow> bool" where
  "item_eq a b \<longleftrightarrow>
     idi_field a = idi_field b \<and> matcher_eq (idi_matcher a) (idi_matcher b) \<and> idi_exists a = idi_exists b"

fun collect_items :: "ir_detection \<Rightarrow> ir_detection_item list" where
  "collect_items (IdAllOf items) = items"
| "collect_items (IdAnyOf children) = concat (map collect_items children)"
| "collect_items (IdAnd children) = concat (map collect_items children)"
| "collect_items (IdArrayMatch field q body) = collect_items body"
| "collect_items (IdConditional named condition) = concat (map (\<lambda>(n, d). collect_items d) named)"
| "collect_items (IdKeywords m) = []"

text \<open>The step of the counting loop: the first entry that equals the item is incremented.\<close>

fun count_item ::
    "ir_detection_item \<Rightarrow> (ir_detection_item \<times> nat) list \<Rightarrow> (ir_detection_item \<times> nat) list" where
  "count_item it [] = [(it, 1)]"
| "count_item it ((existing, n) # counts) =
     (if item_eq existing it then (existing, n + 1) # counts
      else (existing, n) # count_item it counts)"

definition common_subexpressions :: "ir_rule \<Rightarrow> (ir_detection_item \<times> nat) list" where
  "common_subexpressions rule =
     filter (\<lambda>(_, n). 1 < n)
       (fold count_item (concat (map (\<lambda>(_, d). collect_items d) (ir_detections rule))) [])"

end
