(* ===== verification/HirOptimizeProps.thy ===== *)
theory HirOptimizeProps
  imports HirOptimize Compile
begin

text \<open>
  The passes of \<open>HirOptimize\<close> preserve evaluation: flattening keeps the verdict of a condition and
  what the detail pass reports, and the removed detections are never looked at.
\<close>

section \<open>Reports up to repeated selections\<close>

text \<open>The first entry of each selection: what \<open>flatten_detail\<close> keeps.\<close>

fun first_of_name :: "string set \<Rightarrow> selection_detail list \<Rightarrow> selection_detail list" where
  "first_of_name S [] = []"
| "first_of_name S (d # ds) =
     (if sd_name d \<in> S then first_of_name S ds else d # first_of_name (insert (sd_name d) S) ds)"

definition same_report :: "selection_detail list \<Rightarrow> selection_detail list \<Rightarrow> bool" where
  "same_report p q \<longleftrightarrow> first_of_name {} p = first_of_name {} q"

lemma flatten_loop_first:
  "flatten_loop seen names fms ds =
     (names @ map sd_name (first_of_name (set seen) ds),
      fms @ concat (map sd_fields (first_of_name (set seen) ds)))"
  by (induction ds arbitrary: seen names fms) auto

lemma same_report_flatten: "same_report p q \<Longrightarrow> flatten_detail p = flatten_detail q"
  by (simp add: flatten_detail_def flatten_loop_first same_report_def)

lemma first_of_name_filter:
  "first_of_name (S \<union> T) ds = filter (\<lambda>d. sd_name d \<notin> T) (first_of_name S ds)"
proof (induction ds arbitrary: S)
  case Nil
  then show ?case by simp
next
  case (Cons d ds)
  have "first_of_name (insert (sd_name d) (S \<union> T)) ds
      = filter (\<lambda>e. sd_name e \<notin> T) (first_of_name (insert (sd_name d) S) ds)"
    using Cons [of "insert (sd_name d) S"] by simp
  moreover have "first_of_name (S \<union> T) ds = first_of_name (insert (sd_name d) S \<union> T) ds"
    if "sd_name d \<in> T" using that by (simp add: insert_absorb)
  ultimately show ?case using Cons [of S] Cons [of "insert (sd_name d) S"] by auto
qed

lemma names_first: "sd_name ` set (first_of_name S ds) = sd_name ` set ds - S"
  by (induction ds arbitrary: S) auto

lemma first_of_name_append:
  "first_of_name S (xs @ ys) = first_of_name S xs @ first_of_name (S \<union> sd_name ` set xs) ys"
proof (induction xs arbitrary: S)
  case Nil
  then show ?case by simp
next
  case (Cons x xs)
  then show ?case by (cases "sd_name x \<in> S") (simp_all add: insert_absorb)
qed

lemma same_report_names: "same_report p q \<Longrightarrow> sd_name ` set p = sd_name ` set q"
  using names_first [of "{}" p] names_first [of "{}" q] by (simp add: same_report_def)

lemma same_report_append:
  assumes "same_report p p'" "same_report q q'"
  shows "same_report (p @ q) (p' @ q')"
  using assms same_report_names [OF assms(1)]
    first_of_name_filter [of "{}" "sd_name ` set p'" q] first_of_name_filter [of "{}" "sd_name ` set p'" q']
  by (simp add: same_report_def first_of_name_append)

lemma same_report_refl [simp]: "same_report p p"
  and same_report_trans: "same_report p q \<Longrightarrow> same_report q r \<Longrightarrow> same_report p r"
  by (simp_all add: same_report_def)

lemma same_report_again:
  assumes "sd_name ` set q \<subseteq> sd_name ` set p"
  shows "same_report (p @ q) p"
proof -
  have "first_of_name S q = []" if "sd_name ` set q \<subseteq> S" for S
  proof -
    from that have "sd_name ` set (first_of_name S q) = {}" by (auto simp: names_first)
    then show ?thesis by simp
  qed
  with assms show ?thesis by (simp add: same_report_def first_of_name_append)
qed

section \<open>The detail pass as verdict and report\<close>

text \<open>
  The first of the results with verdict \<open>b\<close> decides and is reported alone; when there is none, all
  are reported.
\<close>

type_synonym report = "bool \<times> selection_detail list"

fun first_with :: "bool \<Rightarrow> report list \<Rightarrow> report" where
  "first_with b [] = (\<not> b, [])"
| "first_with b (r # rs) =
     (if fst r = b then r
      else case first_with b rs of (c, p) \<Rightarrow> (c, if c = b then p else snd r @ p))"

text \<open>What the condition pushes, and its verdict.\<close>

fun explained ::
    "ext_env \<Rightarrow> event \<Rightarrow> (string \<Rightarrow> bloom_verdict) \<Rightarrow> match_detail_level
     \<Rightarrow> (string \<times> compiled_detection) list \<Rightarrow> condition_expr \<Rightarrow> report" where
  "explained env ev bloom level dets (CondAnd es) =
     first_with False (map (explained env ev bloom level dets) es)"
| "explained env ev bloom level dets (CondOr es) =
     first_with True (map (explained env ev bloom level dets) es)"
| "explained env ev bloom level dets (CondNot e) =
     (case explained env ev bloom level dets e of (b, p) \<Rightarrow> (\<not> b, p))"
| "explained env ev bloom level dets e = eval_condition_detail env ev bloom level dets e []"

lemma first_with_not: "fst (first_with b rs) \<noteq> b \<longleftrightarrow> (\<forall>r \<in> set rs. fst r \<noteq> b)"
  by (induction rs) (auto split: prod.splits)

lemma drain_last: "drain (length out) (length (out @ p)) (out @ p @ q) = out @ q"
  by (simp add: drain_def)

lemma explained_leaf:
  "eval_condition_detail env ev bloom level dets (CondIdentifier n) out
   = (case eval_condition_detail env ev bloom level dets (CondIdentifier n) [] of (b, p) \<Rightarrow> (b, out @ p))"
  "eval_condition_detail env ev bloom level dets (CondSelector q pat) out
   = (case eval_condition_detail env ev bloom level dets (CondSelector q pat) [] of (b, p) \<Rightarrow> (b, out @ p))"
  by (auto simp: Let_def split: option.splits prod.splits)

lemma eval_condition_explained:
  "eval_condition_detail env ev bloom level dets e out
   = (case explained env ev bloom level dets e of (b, p) \<Rightarrow> (b, out @ p))"
  and "\<And>base p. out = base @ p \<Longrightarrow> mark = length base \<Longrightarrow>
     detail_and env ev bloom level dets mark es out
     = (case first_with False (map (explained env ev bloom level dets) es) of
          (b, q) \<Rightarrow> (b, base @ (if b then p @ q else q)))"
  and "\<And>base p. out = base @ p \<Longrightarrow> mark = length base \<Longrightarrow>
     detail_or env ev bloom level dets mark es out
     = (case first_with True (map (explained env ev bloom level dets) es) of
          (b, q) \<Rightarrow> (b, base @ (if b then q else p @ q)))"
proof (induction env ev bloom level dets e out and env ev bloom level dets mark es out
    and env ev bloom level dets mark es out
    rule: eval_condition_detail_detail_and_detail_or.induct)
  case (1 env ev bloom level detections name out)
  show ?case unfolding explained.simps by (rule explained_leaf(1))
next
  case (5 env ev bloom level detections q pattern out)
  show ?case unfolding explained.simps by (rule explained_leaf(2))
next
  case (2 env ev bloom level detections exprs out)
  show ?case using "2" [of out "[]"] by (simp add: case_prod_unfold)
next
  case (3 env ev bloom level detections exprs out)
  show ?case using "3" [of out "[]"] by (simp add: case_prod_unfold)
next
  case (4 env ev bloom level detections inner out)
  obtain b p where e: "explained env ev bloom level detections inner = (b, p)" by fastforce
  with 4 have "eval_condition_detail env ev bloom level detections inner out = (b, out @ p)" by simp
  with e show ?case by simp
next
  case (7 env ev bloom level detections mark e es out)
  obtain b q where q: "explained env ev bloom level detections e = (b, q)" by fastforce
  with "7.IH"(1) have e: "eval_condition_detail env ev bloom level detections e out = (b, out @ q)"
    by simp
  show ?case
  proof (cases b)
    case True
    have "out @ q = base @ (p @ q)" using "7.prems" by simp
    from "7.IH"(2) [OF e [symmetric] _ this "7.prems"(2)] True q e show ?thesis
      by (simp add: case_prod_unfold)
  next
    case False
    with q e "7.prems" show ?thesis by (simp add: drain_def)
  qed
next
  case (9 env ev bloom level detections mark e es out)
  obtain b q where q: "explained env ev bloom level detections e = (b, q)" by fastforce
  with "9.IH"(1) have e: "eval_condition_detail env ev bloom level detections e out = (b, out @ q)"
    by simp
  show ?case
  proof (cases b)
    case False
    have "out @ q = base @ (p @ q)" using "9.prems" by simp
    from "9.IH"(2) [OF e [symmetric] _ this "9.prems"(2)] False q e show ?thesis
      by (simp add: case_prod_unfold)
  next
    case True
    with q e "9.prems" show ?thesis by (simp add: drain_def)
  qed
qed simp_all

section \<open>Flattening preserves verdict and report\<close>

definition same_outcome :: "report \<Rightarrow> report \<Rightarrow> bool" where
  "same_outcome r s \<longleftrightarrow> fst r = fst s \<and> same_report (snd r) (snd s)"

lemma same_outcome_refl [simp]: "same_outcome r r"
  and same_outcome_trans: "same_outcome r s \<Longrightarrow> same_outcome s t \<Longrightarrow> same_outcome r t"
  by (auto simp: same_outcome_def intro: same_report_trans)

lemma first_with_append:
  "first_with b (rs @ ss) =
     (case first_with b rs of (c, p) \<Rightarrow>
        if c = b then (c, p) else case first_with b ss of (d, q) \<Rightarrow> (d, if d = b then q else p @ q))"
  by (induction rs) (auto split: prod.splits)

lemma first_with_nested: "first_with b (xs @ first_with b ys # zs) = first_with b (xs @ ys @ zs)"
proof -
  have "first_with b (first_with b ys # zs) = first_with b (ys @ zs)"
    by (simp add: first_with_append case_prod_unfold prod_eq_iff)
  then show ?thesis by (simp only: first_with_append)
qed

lemma first_with_single [simp]: "first_with b [r] = r"
  by (cases r) auto

lemma first_with_same:
  "list_all2 same_outcome rs ss \<Longrightarrow> same_outcome (first_with b rs) (first_with b ss)"
  by (induction rule: list_all2_induct)
     (auto simp: same_outcome_def same_report_append split: prod.splits)

text \<open>A repeated result changes nothing.\<close>

lemma first_with_repeated:
  assumes "r \<in> set rs"
  shows "same_outcome (first_with b (rs @ [r])) (first_with b rs)"
proof (cases "fst (first_with b rs) = b")
  case True
  then show ?thesis by (cases "first_with b rs") (simp add: first_with_append)
next
  case False
  then have "fst r \<noteq> b" using assms first_with_not by auto
  moreover have "sd_name ` set (snd r) \<subseteq> sd_name ` set (snd (first_with b rs))"
    using assms False
    by (induction rs) (auto simp: case_prod_unfold split: if_splits)
  then have "same_report (snd (first_with b rs) @ snd r) (snd (first_with b rs))"
    by (rule same_report_again)
  ultimately show ?thesis
    using False by (simp add: first_with_append case_prod_unfold same_outcome_def)
qed

lemma push_new_outcome:
  "same_outcome (first_with b (map f (fold push_new xs acc))) (first_with b (map f (acc @ xs)))"
proof (induction xs arbitrary: acc)
  case Nil
  show ?case by simp
next
  case (Cons x xs)
  show ?case
  proof (cases "x \<in> set acc")
    case False
    with Cons [of "acc @ [x]"] show ?thesis by (simp add: push_new_def)
  next
    case True
    have "same_outcome (first_with b (map f acc @ map f xs)) (first_with b ((map f acc @ [f x]) @ map f xs))"
    proof -
      have "same_outcome (first_with b (map f acc)) (first_with b (map f acc @ [f x]))"
        using first_with_repeated [of "f x" "map f acc" b] True
        by (simp add: same_outcome_def same_report_def)
      then have "same_outcome (first_with b (first_with b (map f acc) # map f xs))
          (first_with b (first_with b (map f acc @ [f x]) # map f xs))"
        by (intro first_with_same) (simp add: list_all2_refl)
      then show ?thesis
        using first_with_nested [of b "[]" "map f acc" "map f xs"]
          first_with_nested [of b "[]" "map f acc @ [f x]" "map f xs"] by simp
    qed
    with Cons [of acc] True show ?thesis
      by (simp add: push_new_def) (blast intro: same_outcome_trans)
  qed
qed

abbreviation explained_ir ::
    "ext_env \<Rightarrow> event \<Rightarrow> (string \<Rightarrow> bloom_verdict) \<Rightarrow> match_detail_level
     \<Rightarrow> (string \<times> compiled_detection) list \<Rightarrow> ir_condition \<Rightarrow> report" where
  "explained_ir env ev bloom level dets c \<equiv> explained env ev bloom level dets (ir_condition_to_expr c)"

lemma bool_group_explained:
  "explained_ir env ev bloom level dets (bool_group is_and cs)
   = first_with (\<not> is_and) (map (explained_ir env ev bloom level dets) cs)"
  by (cases cs; cases "tl cs"; cases is_and) (auto simp: bool_group_def comp_def simp del: first_with.simps)

lemma merged_explained:
  "first_with (\<not> is_and) (xs @ map (explained_ir env ev bloom level dets) (merged is_and c) @ ys)
   = first_with (\<not> is_and) (xs @ explained_ir env ev bloom level dets c # ys)"
  using first_with_nested [of False xs "map (explained_ir env ev bloom level dets) (case c of IcAnd cs \<Rightarrow> cs | _ \<Rightarrow> [])" ys]
    first_with_nested [of True xs "map (explained_ir env ev bloom level dets) (case c of IcOr cs \<Rightarrow> cs | _ \<Rightarrow> [])" ys]
  by (cases is_and; cases c) (simp_all add: comp_def)

lemma flatten_outcome:
  "same_outcome (explained_ir env ev bloom level dets (flatten_condition c))
     (explained_ir env ev bloom level dets c)"
  "same_outcome (explained_ir env ev bloom level dets (flatten_bool children is_and flat))
     (first_with (\<not> is_and) (map (explained_ir env ev bloom level dets) (flat @ children)))"
proof (induction c and children is_and flat rule: flatten_condition_flatten_bool.induct)
  case (1 children)
  then show ?case by (simp add: comp_def)
next
  case (2 children)
  then show ?case by (simp add: comp_def)
next
  case (3 inner)
  then show ?case
    by (auto simp: same_outcome_def split: ir_condition.splits prod.splits)
next
  case (5 is_and flat)
  show ?case using push_new_outcome [of "\<not> is_and" "explained_ir env ev bloom level dets" flat "[]"]
    by (simp add: bool_group_explained)
next
  case (6 child children is_and flat)
  let ?f = "explained_ir env ev bloom level dets"
  have "first_with (\<not> is_and) (map ?f (flat @ merged is_and (flatten_condition child) @ children))
      = first_with (\<not> is_and) (map ?f flat @ ?f (flatten_condition child) # map ?f children)"
    using merged_explained [of is_and "map ?f flat" env ev bloom level dets "flatten_condition child"
        "map ?f children"] by simp
  moreover have "same_outcome \<dots> (first_with (\<not> is_and) (map ?f (flat @ child # children)))"
    using 6(1) by (intro first_with_same) (simp add: list_all2_append list_all2_refl)
  ultimately show ?case using 6(2) by (auto intro: same_outcome_trans)
qed simp_all

section \<open>Unreferenced detections are never evaluated\<close>

text \<open>Detections that no evaluation tells apart, and the pruning of compiled detections.\<close>

definition same_det :: "compiled_detection \<Rightarrow> compiled_detection \<Rightarrow> bool" where
  "same_det d d' \<longleftrightarrow>
     (\<forall>env ev bloom. eval_detection_with_bloom env ev bloom d = eval_detection_with_bloom env ev bloom d')
     \<and> (\<forall>env sel ev bloom level out. eval_detection_recording env sel ev bloom level d out
          = eval_detection_recording env sel ev bloom level d' out)
     \<and> (\<forall>env ev v. eval_array_body env ev d v = eval_array_body env ev d' v)
     \<and> (\<forall>env sel v ev level path. collect_array_body_fields env sel d v ev level path
          = collect_array_body_fields env sel d' v ev level path)"

fun expr_refs :: "condition_expr \<Rightarrow> string list \<Rightarrow> string list" where
  "expr_refs (CondIdentifier name) names = [name]"
| "expr_refs (CondAnd es) names = concat (map (\<lambda>e. expr_refs e names) es)"
| "expr_refs (CondOr es) names = concat (map (\<lambda>e. expr_refs e names) es)"
| "expr_refs (CondNot e) names = expr_refs e names"
| "expr_refs (CondSelector q pattern) names = filter (matches_detection_name pattern) names"

lemma collect_referenced_refs: "collect_referenced c names = expr_refs (ir_condition_to_expr c) names"
  by (induction c names rule: collect_referenced.induct) (auto intro: arg_cong [where f = concat])

text \<open>The detections kept, each replaced by its pruned form.\<close>

definition kept :: "string set \<Rightarrow> (string \<times> 'd) list \<Rightarrow> (string \<times> 'd) list" where
  "kept live dets = filter (\<lambda>(n, _). n \<in> live) dets"

definition same_dets ::
    "(string \<times> compiled_detection) list \<Rightarrow> (string \<times> compiled_detection) list \<Rightarrow> bool" where
  "same_dets ds es = list_all2 (\<lambda>d e. fst d = fst e \<and> same_det (snd d) (snd e)) ds es"

lemma same_dets_names: "same_dets ds es \<Longrightarrow> map fst ds = map fst es"
  unfolding same_dets_def by (induction rule: list_all2_induct) auto

lemma same_dets_map_of:
  assumes "same_dets ds es"
  shows "(map_of ds n = None \<and> map_of es n = None)
    \<or> (\<exists>d e. map_of ds n = Some d \<and> map_of es n = Some e \<and> same_det d e)"
  using assms unfolding same_dets_def by (induction rule: list_all2_induct) auto

lemma same_dets_filter:
  "same_dets ds es \<Longrightarrow> same_dets (filter (\<lambda>nd. P (fst nd)) ds) (filter (\<lambda>nd. P (fst nd)) es)"
  unfolding same_dets_def by (induction rule: list_all2_induct) auto

lemma map_of_kept: "n \<in> live \<Longrightarrow> map_of (kept live dets) n = map_of dets n"
  by (induction dets) (auto simp: kept_def)

lemma filter_kept:
  assumes "set (filter (matches_detection_name pattern) (map fst dets)) \<subseteq> live"
  shows "filter (\<lambda>nd. matches_detection_name pattern (fst nd)) (kept live dets)
    = filter (\<lambda>nd. matches_detection_name pattern (fst nd)) dets"
  unfolding kept_def filter_filter by (rule filter_cong [OF refl]) (use assms in auto)

lemma filter_kept_names:
  assumes "set (filter (matches_detection_name pattern) (map fst dets)) \<subseteq> live"
  shows "filter (matches_detection_name pattern) (map fst (kept live dets))
    = filter (matches_detection_name pattern) (map fst dets)"
  using filter_kept [OF assms] by (simp add: filter_map comp_def)

lemma selector_loop_first:
  "same_dets ds es \<Longrightarrow> selector_loop env ev bloom level acc ds = selector_loop env ev bloom level acc es"
  unfolding same_dets_def
  by (induction arbitrary: acc rule: list_all2_induct)
     (auto simp: same_det_def split: prod.splits)

lemma list_same:
  assumes "same_dets ds es"
  shows "list_ex (\<lambda>nd. eval_detection_with_bloom env ev bloom (snd nd)) ds
      = list_ex (\<lambda>nd. eval_detection_with_bloom env ev bloom (snd nd)) es"
    and "list_all (\<lambda>nd. eval_detection_with_bloom env ev bloom (snd nd)) ds
      = list_all (\<lambda>nd. eval_detection_with_bloom env ev bloom (snd nd)) es"
    and "count_any r m (\<lambda>nd. eval_detection_with_bloom env ev bloom (snd nd)) ds
      = count_any r m (\<lambda>nd. eval_detection_with_bloom env ev bloom (snd nd)) es"
  using assms unfolding same_dets_def
  by (induction arbitrary: m rule: list_all2_induct) (auto simp: same_det_def Let_def)

text \<open>Conditions over the kept detections.\<close>

lemma matches_kept:
  assumes "same_dets ds (kept live es)"
  shows "set (expr_refs e (map fst es)) \<subseteq> live \<Longrightarrow>
    eval_condition_matches_with_bloom env ev bloom e ds
    = eval_condition_matches_with_bloom env ev bloom e es"
proof (induction e)
  case (CondIdentifier n)
  then show ?case
    using same_dets_map_of [OF assms, of n] by (auto simp: map_of_kept same_det_def)
next
  case (CondAnd xs)
  then show ?case by (auto simp: list_all_iff)
next
  case (CondOr xs)
  then show ?case by (auto simp: list_ex_iff)
next
  case (CondNot e)
  then show ?case by simp
next
  case (CondSelector q pat)
  have "same_dets (filter (\<lambda>nd. matches_detection_name pat (fst nd)) ds)
      (filter (\<lambda>nd. matches_detection_name pat (fst nd)) es)"
    using same_dets_filter [OF assms, of "matches_detection_name pat"] CondSelector
    by (simp add: filter_kept)
  from list_same [OF this] show ?case by (cases q) (simp_all add: Let_def)
qed

lemma explained_kept:
  assumes "same_dets ds (kept live es)"
  shows "set (expr_refs e (map fst es)) \<subseteq> live \<Longrightarrow>
    explained env ev bloom level ds e = explained env ev bloom level es e"
proof (induction e)
  case (CondIdentifier n)
  then show ?case
    using same_dets_map_of [OF assms, of n] by (auto simp: map_of_kept same_det_def)
next
  case (CondAnd xs)
  have "explained env ev bloom level ds x = explained env ev bloom level es x" if "x \<in> set xs" for x
    using CondAnd that by auto
  then have "map (explained env ev bloom level ds) xs = map (explained env ev bloom level es) xs"
    by (rule map_cong [OF refl])
  then show ?case by (simp only: explained.simps)
next
  case (CondOr xs)
  have "explained env ev bloom level ds x = explained env ev bloom level es x" if "x \<in> set xs" for x
    using CondOr that by auto
  then have "map (explained env ev bloom level ds) xs = map (explained env ev bloom level es) xs"
    by (rule map_cong [OF refl])
  then show ?case by (simp only: explained.simps)
next
  case (CondNot e)
  then show ?case by simp
next
  case (CondSelector q pat)
  have "same_dets (filter (\<lambda>nd. matches_detection_name pat (fst nd)) ds)
      (filter (\<lambda>nd. matches_detection_name pat (fst nd)) es)"
    using same_dets_filter [OF assms, of "matches_detection_name pat"] CondSelector
    by (simp add: filter_kept)
  from selector_loop_first [OF this] show ?case by simp
qed

lemma array_condition_kept:
  assumes "same_dets ds (kept live es)"
  shows "set (expr_refs e (map fst es)) \<subseteq> live \<Longrightarrow>
    eval_array_condition env ev e ds v = eval_array_condition env ev e es v"
proof (induction e)
  case (CondIdentifier n)
  then show ?case
    using same_dets_map_of [OF assms, of n] by (auto simp: map_of_kept same_det_def)
next
  case (CondAnd xs)
  then show ?case by (auto simp: list_all_iff)
next
  case (CondOr xs)
  then show ?case by (auto simp: list_ex_iff)
next
  case (CondNot e)
  then show ?case by simp
next
  case (CondSelector q pat)
  define ns where "ns = filter (matches_detection_name pat) (map fst es)"
  have names: "filter (matches_detection_name pat) (map fst ds) = ns"
    using same_dets_names [OF assms] CondSelector by (simp add: ns_def filter_kept_names)
  have one: "(case map_of ds n of Some d \<Rightarrow> eval_array_body env ev d v | None \<Rightarrow> False)
      = (case map_of es n of Some d \<Rightarrow> eval_array_body env ev d v | None \<Rightarrow> False)"
    if "n \<in> set ns" for n
    using same_dets_map_of [OF assms, of n] that CondSelector
    by (auto simp: map_of_kept same_det_def ns_def)
  have "filter (\<lambda>n. case map_of ds n of Some d \<Rightarrow> eval_array_body env ev d v | None \<Rightarrow> False) ns
      = filter (\<lambda>n. case map_of es n of Some d \<Rightarrow> eval_array_body env ev d v | None \<Rightarrow> False) ns"
    by (rule filter_cong [OF refl one])
  then show ?case unfolding eval_array_condition.simps names ns_def [symmetric] Let_def by (rule arg_cong)
qed

lemma array_fields_kept:
  assumes "same_dets ds (kept live es)"
  shows "set (expr_refs e (map fst es)) \<subseteq> live \<Longrightarrow>
    collect_array_condition_fields env sel e ds v ev level path
    = collect_array_condition_fields env sel e es v ev level path"
proof (induction e)
  case (CondIdentifier n)
  then show ?case
    using same_dets_map_of [OF assms, of n] by (auto simp: map_of_kept same_det_def)
next
  case (CondAnd xs)
  have "collect_array_condition_fields env sel x ds v ev level path
      = collect_array_condition_fields env sel x es v ev level path" if "x \<in> set xs" for x
    using CondAnd that by auto
  then have "map (\<lambda>x. collect_array_condition_fields env sel x ds v ev level path) xs
      = map (\<lambda>x. collect_array_condition_fields env sel x es v ev level path) xs"
    by (rule map_cong [OF refl])
  then show ?case by (simp only: collect_array_condition_fields.simps)
next
  case (CondOr xs)
  have "collect_array_condition_fields env sel x ds v ev level path
      = collect_array_condition_fields env sel x es v ev level path" if "x \<in> set xs" for x
    using CondOr that by auto
  then have "map (\<lambda>x. collect_array_condition_fields env sel x ds v ev level path) xs
      = map (\<lambda>x. collect_array_condition_fields env sel x es v ev level path) xs"
    by (rule map_cong [OF refl])
  then show ?case by (simp only: collect_array_condition_fields.simps)
next
  case (CondNot e)
  then show ?case by simp
next
  case (CondSelector q pat)
  define ns where "ns = sort (filter (matches_detection_name pat) (map fst es))"
  have names: "sort (filter (matches_detection_name pat) (map fst ds)) = ns"
    using same_dets_names [OF assms] CondSelector by (simp add: ns_def filter_kept_names)
  let ?f = "\<lambda>m n. case map_of m n of
      Some d \<Rightarrow> if eval_array_body env ev d v
                then collect_array_body_fields env sel d v ev level path else []
    | None \<Rightarrow> []"
  have "?f ds n = ?f es n" if "n \<in> set ns" for n
    using same_dets_map_of [OF assms, of n] that CondSelector
    by (auto simp: map_of_kept same_det_def ns_def)
  then have "map (?f ds) ns = map (?f es) ns" by (rule map_cong [OF refl])
  then show ?case
    unfolding collect_array_condition_fields.simps names ns_def [symmetric] Let_def
    by (rule arg_cong [where f = concat])
qed

section \<open>Pruned detections\<close>

text \<open>\<open>prune_detection_tree\<close> on compiled detections.\<close>

fun prune_compiled :: "compiled_detection \<Rightarrow> compiled_detection" where
  "prune_compiled (CdConditional named e) =
     CdConditional (kept (set (expr_refs e (map fst named)))
       (map (\<lambda>(n, d). (n, prune_compiled d)) named)) e"
| "prune_compiled (CdAnyOf dets) = CdAnyOf (map prune_compiled dets)"
| "prune_compiled (CdAnd dets) = CdAnd (map prune_compiled dets)"
| "prune_compiled (CdArrayMatch field q body) = CdArrayMatch field q (prune_compiled body)"
| "prune_compiled d = d"

lemma same_det_refl [simp]: "same_det d d"
  by (simp add: same_det_def)

lemma same_detI:
  assumes "\<And>env ev bloom. eval_detection_with_bloom env ev bloom d = eval_detection_with_bloom env ev bloom d'"
    and "\<And>env sel ev bloom level out. eval_detection_recording env sel ev bloom level d out
      = eval_detection_recording env sel ev bloom level d' out"
    and "\<And>env ev v. eval_array_body env ev d v = eval_array_body env ev d' v"
    and "\<And>env sel v ev level path. collect_array_body_fields env sel d v ev level path
      = collect_array_body_fields env sel d' v ev level path"
  shows "same_det d d'"
  using assms by (simp add: same_det_def)

lemma same_det_any:
  assumes "\<And>d. d \<in> set dets \<Longrightarrow> same_det (f d) d"
  shows "same_det (CdAnyOf (map f dets)) (CdAnyOf dets)"
proof -
  have "record_any env sel ev bloom level acc (map f dets) out
      = record_any env sel ev bloom level acc dets out" for env sel ev bloom level acc out
    using assms by (induction dets arbitrary: acc out) (auto simp: same_det_def split: prod.splits)
  moreover have "map (\<lambda>d. if eval_array_body env ev d v
        then collect_array_body_fields env sel d v ev level path else []) (map f dets)
      = map (\<lambda>d. if eval_array_body env ev d v
        then collect_array_body_fields env sel d v ev level path else []) dets" for env sel v ev level path
    using assms by (simp add: same_det_def)
  then have "concat (map (\<lambda>d. if eval_array_body env ev d v
        then collect_array_body_fields env sel d v ev level path else []) (map f dets))
      = concat (map (\<lambda>d. if eval_array_body env ev d v
        then collect_array_body_fields env sel d v ev level path else []) dets)" for env sel v ev level path
    by (rule arg_cong)
  ultimately show ?thesis
    using assms
    by (intro same_detI)
       (simp_all only: eval_detection_with_bloom.simps eval_detection_recording.simps length_map
          eval_array_body.simps collect_array_body_fields.simps, simp_all add: same_det_def list_ex_iff)
qed

lemma same_det_and:
  assumes "\<And>d. d \<in> set dets \<Longrightarrow> same_det (f d) d"
  shows "same_det (CdAnd (map f dets)) (CdAnd dets)"
proof -
  have "record_and env sel ev bloom level mark (map f dets) out
      = record_and env sel ev bloom level mark dets out" for env sel ev bloom level mark out
    using assms by (induction dets arbitrary: out) (auto simp: same_det_def split: prod.splits)
  moreover have "map (\<lambda>d. if eval_array_body env ev d v
        then collect_array_body_fields env sel d v ev level path else []) (map f dets)
      = map (\<lambda>d. if eval_array_body env ev d v
        then collect_array_body_fields env sel d v ev level path else []) dets" for env sel v ev level path
    using assms by (simp add: same_det_def)
  then have "concat (map (\<lambda>d. if eval_array_body env ev d v
        then collect_array_body_fields env sel d v ev level path else []) (map f dets))
      = concat (map (\<lambda>d. if eval_array_body env ev d v
        then collect_array_body_fields env sel d v ev level path else []) dets)" for env sel v ev level path
    by (rule arg_cong)
  ultimately show ?thesis
    using assms
    by (intro same_detI)
       (simp_all only: eval_detection_with_bloom.simps eval_detection_recording.simps length_map
          eval_array_body.simps collect_array_body_fields.simps, simp_all add: same_det_def list_all_iff)
qed

lemma same_det_array:
  assumes "same_det b b'"
  shows "same_det (CdArrayMatch field q b) (CdArrayMatch field q b')"
proof -
  have body: "eval_array_body env ev b = eval_array_body env ev b'" for env ev
    using assms by (auto simp: same_det_def)
  have cf: "collect_array_body_fields env sel b = collect_array_body_fields env sel b'" for env sel
    using assms by (auto simp: same_det_def fun_eq_iff)
  have quantified: "eval_array_quantified env ev v q b = eval_array_quantified env ev v q b'" for env ev v
    by (simp only: eval_array_quantified_members body)
  have members: "record_array_members env sel path b v scalar ms verdicts ev level
      = record_array_members env sel path b' v scalar ms verdicts ev level"
    for env sel path v scalar ms verdicts ev level
    by (simp only: record_array_members.simps cf)
  have fields: "collect_array_match_fields env sel field b v ev level path
      = collect_array_match_fields env sel field b' v ev level path" for env sel v ev level path
    by (simp only: collect_array_match_fields.simps body members)
  show ?thesis
    by (rule same_detI)
       (simp_all only: eval_detection_with_bloom.simps eval_detection_recording.simps
          eval_array_body.simps collect_array_body_fields.simps quantified members fields body)
qed

lemma same_det_conditional:
  assumes "same_dets ds (kept (set (expr_refs e (map fst es))) es)"
  shows "same_det (CdConditional ds e) (CdConditional es e)"
  using matches_kept [OF assms] array_condition_kept [OF assms] array_fields_kept [OF assms]
  by (simp add: same_det_def)

lemma kept_same:
  assumes "\<And>n d. (n, d) \<in> set dets \<Longrightarrow> same_det (f d) d"
  shows "same_dets (kept live (map (\<lambda>(n, d). (n, f d)) dets)) (kept live dets)"
  using assms
proof (induction dets)
  case Nil
  then show ?case by (simp add: same_dets_def kept_def)
next
  case (Cons nd dets)
  obtain n d where nd: "nd = (n, d)" by fastforce
  with Cons.prems [of n d] have "same_det (f d) d" by simp
  moreover have "same_dets (kept live (map (\<lambda>(n, d). (n, f d)) dets)) (kept live dets)"
    using Cons.IH Cons.prems by (metis list.set_intros(2))
  ultimately show ?case using nd by (simp add: same_dets_def kept_def)
qed

lemma prune_compiled_same: "same_det (prune_compiled d) d"
proof (induction d rule: prune_compiled.induct)
  case (1 named e)
  then have "same_dets (kept (set (expr_refs e (map fst named)))
      (map (\<lambda>(n, d). (n, prune_compiled d)) named)) (kept (set (expr_refs e (map fst named))) named)"
    by (intro kept_same) auto
  then show ?case by (simp add: same_det_conditional)
next
  case (2 dets)
  then show ?case by (simp add: same_det_any)
next
  case (3 dets)
  then show ?case by (simp add: same_det_and)
next
  case (4 field q body)
  then show ?case by (simp add: same_det_array)
qed simp_all

section \<open>Compiling the optimized rule\<close>

text \<open>
  Every array condition refers to one of its selections, in the lowered rules of parsed ones at least
  by every leaf of the condition.
\<close>

fun conditions_refer :: "ir_detection \<Rightarrow> bool" where
  "conditions_refer (IdConditional named condition) \<longleftrightarrow>
     set (collect_referenced condition (map fst named)) \<inter> fst ` set named \<noteq> {}
     \<and> list_all (\<lambda>(n, d). conditions_refer d) named"
| "conditions_refer (IdAnyOf dets) = list_all conditions_refer dets"
| "conditions_refer (IdAnd dets) = list_all conditions_refer dets"
| "conditions_refer (IdArrayMatch field q body) = conditions_refer body"
| "conditions_refer d = True"

lemma prune_named_kept:
  "prune_named named [c] = kept (set (expr_refs (ir_condition_to_expr c) (map fst named))) named"
  by (simp add: prune_named_def kept_def Let_def collect_referenced_refs)

lemma kept_map: "kept live (map (\<lambda>(n, d). (n, f d)) m) = map (\<lambda>(n, d). (n, f d)) (kept live m)"
  by (induction m) (auto simp: kept_def)

lemma collect_values_kept:
  "collect_values f m = Inr n \<Longrightarrow> collect_values f (kept live m) = Inr (kept live n)"
  unfolding collect_values_Inr kept_def by (induction rule: list_all2_induct) auto

lemma collect_values_map:
  assumes "collect_values f m = Inr n" and "\<And>k x y. (k, x) \<in> set m \<Longrightarrow> f x = Inr y \<Longrightarrow> f (g x) = Inr (h y)"
  shows "collect_values f (map (\<lambda>(k, x). (k, g x)) m) = Inr (map (\<lambda>(k, y). (k, h y)) n)"
  using assms unfolding collect_values_Inr
  by (induction m arbitrary: n) (fastforce simp: list_all2_Cons1)+

lemma collect_results_map:
  assumes "collect_results f xs = Inr ys" and "\<And>x y. x \<in> set xs \<Longrightarrow> f x = Inr y \<Longrightarrow> f (g x) = Inr (h y)"
  shows "collect_results f (map g xs) = Inr (map h ys)"
  using assms unfolding collect_results_Inr list_all2_conv_all_nth by auto

lemma compile_pruned:
  "conditions_refer d \<Longrightarrow> compile_ir_detection_in env d sc = Inr c \<Longrightarrow>
   compile_ir_detection_in env (prune_detection_tree d) sc = Inr (prune_compiled c)"
proof (induction d arbitrary: sc c rule: prune_detection_tree.induct)
  case (1 named condition)
  from "1.prems"(2) obtain n where n: "collect_values (\<lambda>d. compile_ir_detection_in env d sc) named = Inr n"
    and c: "c = CdConditional n (ir_condition_to_expr condition)"
    by (auto simp: result_map_Inr split: if_splits)
  let ?live = "set (expr_refs (ir_condition_to_expr condition) (map fst named))"
  have "collect_values (\<lambda>d. compile_ir_detection_in env d sc)
      (map (\<lambda>(k, x). (k, prune_detection_tree x)) named)
      = Inr (map (\<lambda>(k, y). (k, prune_compiled y)) n)"
  proof (rule collect_values_map [OF n])
    fix k x y
    assume kx: "(k, x) \<in> set named" and y: "compile_ir_detection_in env x sc = Inr y"
    with "1.prems"(1) have "conditions_refer x" by (auto simp: list_all_iff)
    from "1.IH" [OF kx refl this y] show "compile_ir_detection_in env (prune_detection_tree x) sc
      = Inr (prune_compiled y)" .
  qed
  from collect_values_kept [OF this, of ?live]
  have "collect_values (\<lambda>d. compile_ir_detection_in env d sc)
      (kept ?live (map (\<lambda>(k, x). (k, prune_detection_tree x)) named))
      = Inr (kept ?live (map (\<lambda>(k, y). (k, prune_compiled y)) n))" .
  moreover have "kept ?live (map (\<lambda>(k, x). (k, prune_detection_tree x)) named) \<noteq> []"
    using "1.prems"(1)
    by (auto simp: kept_map kept_def collect_referenced_refs filter_empty_conv)
  moreover have "map fst n = map fst named" by (rule keys_collect_values [OF n])
  ultimately show ?case
    by (simp add: prune_named_kept c comp_def case_prod_unfold)
next
  case (2 dets)
  from "2.prems"(2) obtain cs where cs: "collect_results (\<lambda>d. compile_ir_detection_in env d sc) dets = Inr cs"
    and c: "c = CdAnyOf cs" and "dets \<noteq> []"
    by (auto simp: result_map_Inr split: if_splits)
  moreover have "collect_results (\<lambda>d. compile_ir_detection_in env d sc) (map prune_detection_tree dets)
      = Inr (map prune_compiled cs)"
    using "2.IH" "2.prems"(1) by (intro collect_results_map [OF cs]) (simp add: list_all_iff)
  ultimately show ?case by simp
next
  case (3 dets)
  from "3.prems"(2) obtain cs where cs: "collect_results (\<lambda>d. compile_ir_detection_in env d sc) dets = Inr cs"
    and c: "c = CdAnd cs" and "dets \<noteq> []"
    by (auto simp: result_map_Inr split: if_splits)
  moreover have "collect_results (\<lambda>d. compile_ir_detection_in env d sc) (map prune_detection_tree dets)
      = Inr (map prune_compiled cs)"
    using "3.IH" "3.prems"(1) by (intro collect_results_map [OF cs]) (simp add: list_all_iff)
  ultimately show ?case by simp
qed (auto simp: result_map_Inr split: if_splits)

section \<open>Evaluation of the optimized rule\<close>

lemma flatten_matches:
  "eval_condition_matches_with_bloom env ev bloom (ir_condition_to_expr (flatten_condition c)) dets
   = eval_condition_matches_with_bloom env ev bloom (ir_condition_to_expr c) dets"
  "eval_condition_matches_with_bloom env ev bloom (ir_condition_to_expr (flatten_bool children is_and flat)) dets
   = (if is_and
      then list_all (\<lambda>c. eval_condition_matches_with_bloom env ev bloom (ir_condition_to_expr c) dets) (flat @ children)
      else list_ex (\<lambda>c. eval_condition_matches_with_bloom env ev bloom (ir_condition_to_expr c) dets) (flat @ children))"
proof (induction c and children is_and flat rule: flatten_condition_flatten_bool.induct)
  case (3 inner)
  then show ?case by (cases "flatten_condition inner") auto
next
  case (5 is_and flat)
  have "set (fold push_new flat acc) = set acc \<union> set flat" for acc :: "ir_condition list"
    by (induction flat arbitrary: acc) (auto simp: push_new_def)
  moreover have "eval_condition_matches_with_bloom env ev bloom (ir_condition_to_expr (bool_group is_and cs)) dets
      = (if is_and
         then list_all (\<lambda>c. eval_condition_matches_with_bloom env ev bloom (ir_condition_to_expr c) dets) cs
         else list_ex (\<lambda>c. eval_condition_matches_with_bloom env ev bloom (ir_condition_to_expr c) dets) cs)"
    for cs by (cases cs; cases "tl cs") (auto simp: bool_group_def list_all_iff list_ex_iff)
  ultimately show ?case by (simp add: list_all_iff list_ex_iff)
next
  case (6 child children is_and flat)
  let ?p = "\<lambda>c. eval_condition_matches_with_bloom env ev bloom (ir_condition_to_expr c) dets"
  have "(if is_and then list_all ?p (merged is_and c) else list_ex ?p (merged is_and c)) = ?p c" for c
    by (cases c) (auto simp: list_all_iff list_ex_iff)
  with 6 show ?case by (simp split: if_splits)
qed (auto simp: list_all_iff list_ex_iff)

lemma detail_flatten:
  assumes "same_outcome (explained env ev bloom level ds e) (explained env ev bloom level es e')"
  shows "flatten_detail (snd (eval_condition_detail env ev bloom level ds e []))
    = flatten_detail (snd (eval_condition_detail env ev bloom level es e' []))"
  using assms same_report_flatten
  by (simp add: eval_condition_explained(1) same_outcome_def case_prod_unfold)

text \<open>Two rules that differ in their detections and conditions only evaluate alike.\<close>

lemma eval_conditions_loop_same:
  assumes "\<And>x. x \<in> set xs \<Longrightarrow> eval_condition_matches_with_bloom env ev bloom (f x) (cru_detections r')
        = eval_condition_matches_with_bloom env ev bloom (g x) (cru_detections r)
      \<and> flatten_detail (snd (eval_condition_detail env ev bloom level (cru_detections r') (f x) []))
        = flatten_detail (snd (eval_condition_detail env ev bloom level (cru_detections r) (g x) []))"
    and "r' = r \<lparr> cru_detections := ds, cru_conditions := cs \<rparr>"
  shows "eval_conditions_loop env r' ev bloom level (map f xs)
    = eval_conditions_loop env r ev bloom level (map g xs)"
  using assms(1)
proof (induction xs)
  case Nil
  then show ?case by simp
next
  case (Cons x xs)
  then have x: "eval_condition_matches_with_bloom env ev bloom (f x) (cru_detections r')
        = eval_condition_matches_with_bloom env ev bloom (g x) (cru_detections r)"
      "flatten_detail (snd (eval_condition_detail env ev bloom level (cru_detections r') (f x) []))
        = flatten_detail (snd (eval_condition_detail env ev bloom level (cru_detections r) (g x) []))"
    and rest: "eval_conditions_loop env r' ev bloom level (map f xs)
        = eval_conditions_loop env r ev bloom level (map g xs)"
    by auto
  show ?case
    unfolding list.map eval_conditions_loop.simps x(1) rest case_prod_unfold x(2)
    by (simp add: assms(2))
qed

lemma compile_pruned_rule:
  assumes compiled: "compile_to_compiled env ir = Inr c"
    and refer: "list_all (\<lambda>(n, d). conditions_refer d) (ir_detections ir)"
  shows "compile_to_compiled env (eliminate_dead_detections (ir \<lparr> ir_conditions := cs \<rparr>))
    = Inr (c \<lparr> cru_detections :=
        kept (set (concat (map (\<lambda>c. collect_referenced c (map fst (ir_detections ir))) cs)))
          (map (\<lambda>(n, d). (n, prune_compiled d)) (cru_detections c)),
        cru_conditions := map ir_condition_to_expr cs \<rparr>)"
proof -
  let ?live = "set (concat (map (\<lambda>c. collect_referenced c (map fst (ir_detections ir))) cs))"
  from compiled obtain ds where ds: "collect_values (compile_ir_detection env) (ir_detections ir) = Inr ds"
    and c: "cru_detections c = ds"
    by (auto simp: compile_to_compiled_def result_map_Inr Let_def)
  have "collect_values (compile_ir_detection env)
      (map (\<lambda>(n, d). (n, prune_detection_tree d)) (ir_detections ir))
      = Inr (map (\<lambda>(n, d). (n, prune_compiled d)) ds)"
  proof (rule collect_values_map [OF ds])
    fix k x y assume "(k, x) \<in> set (ir_detections ir)" and y: "compile_ir_detection env x = Inr y"
    with refer have "conditions_refer x" by (auto simp: list_all_iff)
    from compile_pruned [OF this y [unfolded compile_ir_detection_def]]
    show "compile_ir_detection env (prune_detection_tree x) = Inr (prune_compiled y)"
      by (simp add: compile_ir_detection_def)
  qed
  from collect_values_kept [OF this, of ?live]
  have "collect_values (compile_ir_detection env)
      (map (\<lambda>(n, d). (n, prune_detection_tree d)) (kept ?live (ir_detections ir)))
      = Inr (kept ?live (map (\<lambda>(n, d). (n, prune_compiled d)) ds))"
    by (simp only: kept_map)
  moreover have "prune_named (ir_detections ir) cs = kept ?live (ir_detections ir)"
    by (simp add: prune_named_def kept_def Let_def)
  ultimately show ?thesis
    using compiled c
    by (auto simp: compile_to_compiled_def eliminate_dead_detections_def result_map_Inr Let_def)
qed

text \<open>
  C4: the optimized rule behaves as the original.  If a rule compiles and every array condition in it
  refers to one of its selections, the rule after optimize_rule compiles too, and the two compiled
  rules give the same result on every event: the same verdict, matched selections, matched fields
  and header, at every level of detail and under every bloom index.
\<close>

theorem optimize_rule_exact:
  assumes "compile_to_compiled env ir = Inr c"
    and "list_all (\<lambda>(n, d). conditions_refer d) (ir_detections ir)"
  shows "\<exists>c'. compile_to_compiled env (optimize_rule ir) = Inr c'
    \<and> (\<forall>env' ev bloom level. evaluate_rule_with_bloom env' c' ev bloom level
          = evaluate_rule_with_bloom env' c ev bloom level)"
proof -
  define cs where "cs = map flatten_condition (ir_conditions ir)"
  define live where
    "live = set (concat (map (\<lambda>c. collect_referenced c (map fst (ir_detections ir))) cs))"
  define ds where "ds = kept live (map (\<lambda>(n, d). (n, prune_compiled d)) (cru_detections c))"
  define c' where "c' = c \<lparr> cru_detections := ds, cru_conditions := map ir_condition_to_expr cs \<rparr>"
  have compiled: "compile_to_compiled env (optimize_rule ir) = Inr c'"
    using compile_pruned_rule [OF assms, of cs]
    by (simp add: optimize_rule_def cs_def live_def ds_def c'_def)
  have names: "map fst (cru_detections c) = map fst (ir_detections ir)"
    and conditions: "cru_conditions c = map ir_condition_to_expr (ir_conditions ir)"
    using assms(1) keys_collect_values
    by (auto simp: compile_to_compiled_def result_map_Inr Let_def)
  have same: "same_dets ds (kept live (cru_detections c))"
    unfolding ds_def by (rule kept_same) (rule prune_compiled_same)
  have "evaluate_rule_with_bloom env' c' ev bloom level = evaluate_rule_with_bloom env' c ev bloom level"
    for env' ev bloom level
  proof -
    have one: "eval_condition_matches_with_bloom env' ev bloom (ir_condition_to_expr (flatten_condition x)) ds
        = eval_condition_matches_with_bloom env' ev bloom (ir_condition_to_expr x) (cru_detections c)
      \<and> flatten_detail (snd (eval_condition_detail env' ev bloom level ds
            (ir_condition_to_expr (flatten_condition x)) []))
        = flatten_detail (snd (eval_condition_detail env' ev bloom level (cru_detections c)
            (ir_condition_to_expr x) []))"
      if "x \<in> set (ir_conditions ir)" for x
    proof -
      have live: "set (expr_refs (ir_condition_to_expr (flatten_condition x)) (map fst (cru_detections c))) \<subseteq> live"
        using that names by (auto simp: live_def cs_def collect_referenced_refs)
      show ?thesis
        using matches_kept [OF same live] flatten_matches(1)
          explained_kept [OF same live] flatten_outcome(1)
        by (intro conjI detail_flatten) simp_all
    qed
    from one have "eval_conditions_loop env' c' ev bloom level
        (map (\<lambda>x. ir_condition_to_expr (flatten_condition x)) (ir_conditions ir))
      = eval_conditions_loop env' c ev bloom level (map ir_condition_to_expr (ir_conditions ir))"
      by (intro eval_conditions_loop_same [where ds = ds and cs = "cru_conditions c'"])
         (simp_all add: c'_def)
    then show ?thesis
      by (simp add: evaluate_rule_with_bloom_def conditions c'_def cs_def comp_def)
  qed
  with compiled show ?thesis by blast
qed

text \<open>
  The lowering only makes array conditions that refer to their selections, when the groups of the
  parsed condition are not empty.
\<close>

fun groups_filled :: "condition_expr \<Rightarrow> bool" where
  "groups_filled (CondAnd es) = (es \<noteq> [] \<and> list_all groups_filled es)"
| "groups_filled (CondOr es) = (es \<noteq> [] \<and> list_all groups_filled es)"
| "groups_filled (CondNot e) = groups_filled e"
| "groups_filled _ = True"

fun array_conditions_filled :: "detection \<Rightarrow> bool" where
  "array_conditions_filled (DConditional named condition) \<longleftrightarrow>
     groups_filled condition \<and> list_all (\<lambda>e. array_conditions_filled (snd e)) named"
| "array_conditions_filled (DAnyOf dets) = list_all array_conditions_filled dets"
| "array_conditions_filled (DAnd dets) = list_all array_conditions_filled dets"
| "array_conditions_filled (DArrayMatch field q body) = array_conditions_filled body"
| "array_conditions_filled d = True"

lemma collect_results_all:
  assumes "collect_results f xs = Inr ys" and "\<And>x y. x \<in> set xs \<Longrightarrow> f x = Inr y \<Longrightarrow> P y"
  shows "list_all P ys"
  using assms unfolding collect_results_Inr list_all2_conv_all_nth list_all_length by (metis nth_mem)

lemma lowered_refs:
  "lower_condition names e = Inr c \<Longrightarrow> groups_filled e \<Longrightarrow>
   set (collect_referenced c names) \<inter> set names \<noteq> {}"
proof (induction names e arbitrary: c rule: lower_condition.induct)
  case (2 names exprs)
  then obtain cs where cs: "collect_results (lower_condition names) exprs = Inr cs" "c = IcAnd cs"
    by (auto simp: result_map_Inr)
  from "2.prems"(2) obtain e es where es: "exprs = e # es" by (cases exprs) auto
  with cs obtain d ds where "cs = d # ds" "lower_condition names e = Inr d"
    by (auto split: sum.splits)
  with "2.IH" [of e d] "2.prems"(2) es cs show ?case by auto
next
  case (3 names exprs)
  then obtain cs where cs: "collect_results (lower_condition names) exprs = Inr cs" "c = IcOr cs"
    by (auto simp: result_map_Inr)
  from "3.prems"(2) obtain e es where es: "exprs = e # es" by (cases exprs) auto
  with cs obtain d ds where "cs = d # ds" "lower_condition names e = Inr d"
    by (auto split: sum.splits)
  with "3.IH" [of e d] "3.prems"(2) es cs show ?case by auto
qed (auto simp: result_map_Inr list_ex_iff split: if_splits)

lemma lowered_refer:
  "lower_detection env opts d = Inr i \<Longrightarrow> array_conditions_filled d \<Longrightarrow> conditions_refer i"
proof (induction env opts d arbitrary: i rule: lower_detection.induct)
  case (2 env opts dets)
  then obtain is' where i: "collect_results (lower_detection env opts) dets = Inr is'" "i = IdAnyOf is'"
    and ne: "dets \<noteq> []" by (auto simp: result_map_Inr split: if_splits)
  have "list_all conditions_refer is'"
    using "2.IH" [OF ne] "2.prems"(2) by (intro collect_results_all [OF i(1)]) (simp add: list_all_iff)
  with i show ?case by simp
next
  case (4 env opts dets)
  then obtain is' where i: "collect_results (lower_detection env opts) dets = Inr is'" "i = IdAnd is'"
    and ne: "dets \<noteq> []" by (auto simp: result_map_Inr split: if_splits)
  have "list_all conditions_refer is'"
    using "4.IH" [OF ne] "4.prems"(2) by (intro collect_results_all [OF i(1)]) (simp add: list_all_iff)
  with i show ?case by simp
next
  case (5 env opts named condition)
  then obtain n c where low: "collect_values (lower_detection env opts) named = Inr n"
    and i: "i = IdConditional n c" and c: "lower_condition (map fst n) condition = Inr c"
    and ne: "named \<noteq> []" by (auto simp: result_simps split: if_splits)
  have "list_all (\<lambda>x. conditions_refer (snd x)) n"
    using "5.IH" [OF ne] "5.prems"(2)
    by (intro collect_results_all [OF low [unfolded collect_values_def]])
       (auto simp: list_all_iff result_map_Inr)
  moreover have "set (collect_referenced c (map fst n)) \<inter> set (map fst n) \<noteq> {}"
    using lowered_refs [OF c] "5.prems"(2) by simp
  ultimately show ?case by (auto simp: i list_all_iff)
next
  case (3 env opts field q body)
  then show ?case by (auto simp: result_map_Inr)
next
  case (1 env opts items)
  then show ?case by (auto simp: result_map_Inr split: if_splits)
next
  case (6 env opts vs)
  then show ?case
    by (cases "collect_results lower_value_keywords vs")
       (auto simp: lower_keywords_def split: list.splits)
qed

definition sample_ir :: ir_rule where
  "sample_ir = \<lparr>
     ir_metadata = \<lparr> im_title = ''t'', im_id = None, im_name = None, im_level = None, im_tags = [],
       im_status = None, im_description = None, im_author = None, im_date = None,
       im_modified = None, im_references = [], im_falsepositives = [], im_fields = [],
       im_related = [], im_license = None, im_taxonomy = None, im_scope = [],
       im_custom_attributes = [], im_schema_affinity = None \<rparr>,
     ir_logsource = \<lparr> ls_category = None, ls_product = None, ls_service = None,
       ls_definition = None, ls_custom = [] \<rparr>,
     ir_sigma_version = None,
     ir_detections =
       [(''a'', IdKeywords (ImStr OpContains \<lparr> ip_parts = [IpLiteral ''x''] \<rparr> True)),
        (''dead'', IdKeywords ImNull),
        (''b'', IdArrayMatch ''f'' AqAny (IdConditional
           [(''u'', IdKeywords (ImBoolEq True)), (''v'', IdKeywords ImNull)] (IcDetection ''u'')))],
     ir_conditions =
       [IcAnd [IcDetection ''a'', IcAnd [IcDetection ''a'', IcNot (IcNot (IcDetection ''b''))]]] \<rparr>"

lemma sample_ir_optimized:
  "map fst (ir_detections (optimize_rule sample_ir)) = [''a'', ''b'']"
  "ir_conditions (optimize_rule sample_ir) = [IcAnd [IcDetection ''a'', IcDetection ''b'']]"
  by code_simp+

theorem optimize_rule_exact_witness:
  "\<exists>c c'. compile_to_compiled literal_env sample_ir = Inr c
    \<and> compile_to_compiled literal_env (optimize_rule sample_ir) = Inr c'
    \<and> evaluate_rule literal_env c' (plain_event ''xx'') = evaluate_rule literal_env c (plain_event ''xx'')"
proof -
  have refer: "list_all (\<lambda>(n, d). conditions_refer d) (ir_detections sample_ir)" by code_simp
  have "\<not> isl (compile_to_compiled literal_env sample_ir)" by code_simp
  then obtain c where c: "compile_to_compiled literal_env sample_ir = Inr c"
    by (cases "compile_to_compiled literal_env sample_ir") auto
  with optimize_rule_exact [OF c refer] show ?thesis by (auto simp: evaluate_rule_def)
qed

end
