(* ===== verification/Spec2Isabelle.thy ===== *)
theory Spec2Isabelle
  imports AlertProps RiskProps EngineLoadProps ConditionProps Optimizer CorrCycles CorrSnapshot EngineProps RaiseProps HirOptimizeProps RuleSem
begin

text \<open>
  Verification of the rsigma detection engine.

  The program loads Sigma rules, rewrites them by processing pipelines, lowers them to an intermediate
  representation (IR), compiles that to matchers, evaluates events against the compiled rules,
  correlates the detections over time, and passes the results through an alert pipeline.  Paths below
  are relative to \<open>src/crates/\<close>; the theories are given in the order of the data flow.

  Foundations:

  \<^item> \<open>Prelude\<close>: text as UTF-8 byte lists, the \<open>str\<close> and integer functions of the Rust library, lemmas
    on lists, results and maps.  A \<open>HashMap\<close> is an association list in its iteration order with
    distinct keys, a \<open>HashSet\<close> a list without duplicates, a \<open>BTreeMap\<close> an association list in key
    order, and so is a \<open>serde_json::Map\<close> where the code builds one; a map it is given is taken in
    whatever order it iterates.  \<open>i64\<close> is \<open>int\<close> with the wrapping (\<open>wrap_i64\<close>)
    or the range check of the source written out; sizes and \<open>u64\<close> counters are \<open>nat\<close> unless the
    source relies on their width, hashes are 64-bit words.
  \<^item> \<open>F64\<close>: the values of \<open>f64\<close> with the comparisons, casts and operations the source uses; rounding is
    to nearest, ties to even.
  \<^item> \<open>Env\<close>: code outside the repository is a field of a record of functions (here \<open>ext_env\<close>; further
    on \<open>yaml_env\<close>, \<open>bloom_env\<close>, \<open>buffer_env\<close>, \<open>index_env\<close>, \<open>pest_env\<close>, \<open>pipe_env\<close>, \<open>cbor_env\<close> and
    \<open>alert_env\<close>).  What the proofs rely on is stated as named laws (\<open>ac_law\<close>, \<open>re_set_law\<close>,
    \<open>re_ci_law\<close>, \<open>base64_law\<close>, \<open>float_law\<close>, \<open>cbor_law\<close>, \<open>fresh_uuid_law\<close> and others), and a literal
    instance of each record shows that they can hold.

  Rules and their parsing (\<open>rsigma-parser\<close>):

  \<^item> \<open>FieldPath\<close> (\<open>fieldpath.rs\<close>), \<open>SigmaValue\<close> (\<open>value.rs\<close>, parts of \<open>emit.rs\<close>), \<open>Ast\<close> (\<open>ast.rs\<close>),
    \<open>Condition\<close> (conditions and selectors), \<open>ConditionParse\<close> (\<open>sigma.pest\<close> as a recogniser with ordered
    choice, and \<open>condition.rs\<close>), \<open>Validate\<close> and \<open>IpAddr\<close> (\<open>validate.rs\<close> and the address parser of the
    standard library).
  \<^item> \<open>ConditionProps\<close>: conditions read back what they print, and the shape of what the parser accepts.

  IR (\<open>rsigma-ir\<close>):

  \<^item> \<open>Hir\<close> (\<open>hir.rs\<close>), \<open>Encoding\<close> (\<open>encoding.rs\<close>), \<open>Lower\<close> (\<open>lower/*.rs\<close>), \<open>Raise\<close> (\<open>raise.rs\<close>),
    \<open>HirOptimize\<close> (\<open>optimize.rs\<close>).
  \<^item> \<open>LowerProps\<close>, \<open>RaiseProps\<close>, \<open>HirOptimizeProps\<close>: the modifier contexts of lowered items, raising a
    rule and lowering it again gives the same rule, and the optimizer changes no verdict.

  Pipelines (\<open>rsigma-eval/src/pipeline\<close>):

  \<^item> \<open>PipelineState\<close>, \<open>PipelineCond\<close>, \<open>Transform\<close>, \<open>TransformOps\<close>, \<open>TransformValues\<close>, \<open>Pipeline\<close>: the
    state, the three kinds of conditions, the transformations of rules and correlations, their
    application in priority order.  An error leaves no rule.  \<open>PipelineProps\<close>: what the
    transformations mean for the rule.  Field mappings and placeholders are measured against
    specifications of their own (\<open>mapped_items\<close>, \<open>template_of\<close>), not against the functions of the code.

  Evaluation (\<open>rsigma-eval\<close>):

  \<^item> \<open>Event\<close> (\<open>event/*.rs\<close>): the \<open>Event\<close> trait as a record of functions and its implementations; the
    locale \<open>event_iface\<close> is its contract, interpreted for JSON, key-value, plain and map events.
    \<open>EventInput\<close>: the decoded input line of the runtime and \<open>engine_event\<close>, the events an engine is
    given.  \<open>Timestamp\<close> (\<open>timestamp.rs\<close>).
  \<^item> \<open>Matcher\<close> (\<open>matcher/*.rs\<close>), \<open>Optimizer\<close> (\<open>compiler/optimizer.rs\<close>), \<open>Compiled\<close> (types and array
    matching), \<open>ConditionEval\<close> (the boolean and the detail pass), \<open>Compile\<close> (\<open>compiler/from_ir.rs\<close>,
    \<open>value.rs\<close>, \<open>helpers.rs\<close>).
  \<^item> \<open>CompileProps\<close>, \<open>RuleSem\<close>: a reference semantics of the IR, value by value, and that the compiled
    rule decides the same.
  \<^item> \<open>Bloom\<close> (\<open>engine/bloom_index.rs\<close>; locale \<open>bloom_lookup\<close>), \<open>Witness\<close> (\<open>witness.rs\<close>), \<open>CandidateIndex\<close>,
    \<open>CandidateProps\<close>, \<open>CandidateBuild\<close> (\<open>candidate_index.rs\<close>), \<open>LogSource\<close> (\<open>logsource.rs\<close>,
    \<open>engine/filters.rs\<close>): the indexes and filters of the engine, and when none of them hides a match.  The candidate index
    reaches the witness fields with plain names (\<open>plain_field\<close>: no backslash, the part before the
    first dot free of brackets, \<open>rule_indexable\<close> for a rule); for others it can miss a match, as
    \<open>escaped_key_missed\<close> shows.  With the bloom pre-filter on, the rules added one at a time must
    leave the bloom index exact or be followed by a rebuild (\<open>settled\<close>, \<open>rule_ready\<close>).
  \<^item> \<open>Engine\<close>, \<open>EngineLoad\<close> (\<open>engine/mod.rs\<close>, \<open>rsigma-ir/src/cache.rs\<close>): the state, incremental and full
    maintenance of the indexes (locale \<open>incremental_index\<close>, interpreted for both), evaluation, loading
    of rules, collections and saved IR.  \<open>EngineProps\<close>, \<open>EngineLoadProps\<close>: evaluation over the
    candidates equals the scan of all rules, and a loaded collection reports exactly what the IR of
    the transformed rules says.  Saved IR is read back up to the order of its hash maps
    (\<open>ir_rule_same\<close>), which is all that \<open>cbor_law\<close> asks of the CBOR library.

  Correlation (\<open>rsigma-eval/src/correlation\<close>, \<open>correlation_engine\<close>):

  \<^item> \<open>CorrTypes\<close> (types, keys, compilation), \<open>Window\<close> (\<open>window.rs\<close>), \<open>Buffers\<close> (\<open>buffers.rs\<close>; locale
    \<open>bounded_queue\<close>, interpreted for both buffers), \<open>CorrEngine\<close> (the engine's operations), \<open>CorrRun\<close>
    (runs as explicit step sequences; locale \<open>engine_run\<close> for what every step keeps), \<open>CorrCycles\<close> (the
    cycle check).
  \<^item> \<open>CorrProps\<close>, \<open>CorrLoad\<close>, \<open>CorrSnapshot\<close>: the state invariant, suppression, alerts as a function of
    the arrivals, eviction, loading, snapshots.

  Alert pipeline (\<open>rsigma-runtime\<close>):

  \<^item> \<open>AlertTypes\<close> (\<open>selector.rs\<close>, \<open>scope.rs\<close>, \<open>alert_pipeline/matcher.rs\<close>), \<open>AlertSilence\<close>, \<open>AlertDedup\<close>,
    \<open>AlertInhibit\<close>, \<open>AlertGroup\<close> (the stages of \<open>alert_pipeline/\<close>), \<open>AlertCapture\<close> (\<open>capture.rs\<close>),
    \<open>AlertPipeline\<close> (the stages in order, the tick, snapshots, configuration).
  \<^item> \<open>AlertGroupProps\<close>: the entity index of every reachable incident store, and the life of a quiet
    incident.  \<open>AlertRingProps\<close>: bounds and admission of the capture ring.  \<open>AlertProps\<close>:
    deduplication and inhibition over streams of results, with the caps of both stages in the
    statements.
  \<^item> \<open>Risk\<close> (\<open>risk/*.rs\<close>): scores and entities of results, and the accumulator of risk per entity.
    \<open>RiskProps\<close>: it raises exactly the incidents that the histories of the entities call for, as
    long as the window is no shorter than the cooldown (\<open>cooldown_forgotten\<close> otherwise).

  Termination and fuel: recursion is structural or on a measure wherever the source has one.  The
  recursion over nested JSON is on the value, with \<open>max_nesting_depth\<close> as in the source; chaining of
  correlations is bounded by \<open>MAX_CHAIN_DEPTH\<close>, which the model counts down.  Only the grammar of
  conditions uses fuel: the length of the text, and more fuel changes nothing (\<open>peg_fuel\<close>).  The stack limit of the
  parser library is not part of the model.  Where the source leaves an order open (ties among the
  stalest groups, the iteration of a \<open>HashMap\<close>), the model takes the order of its list.

  Not modelled: reading rules and pipelines from YAML, linting and formatting (they rest on a YAML
  library and print its documents); dynamic sources and finalizers of pipelines; conversion to
  queries of other systems; schema discovery, event routing, rule drafting and tuning (authoring aids
  around the engine); the optional cross-rule automaton (a Cargo feature, off by default) and the
  JSON export of the IR; introspection of the correlation engine; async streams, sinks, hot reload,
  metrics and logging; the STIX and TAXII library; the command line, the language server and the MCP
  server.
\<close>

end
